(* ===== verification/OLA_Prelude.thy ===== *)
theory OLA_Prelude
  imports Main "HOL-Library.Word" "HOL-Library.Monad_Syntax"
begin

text \<open>
  Types and generic facts shared by every component of the development: the fixed-width
  integers of the C++ sources, block copies on byte arrays (\<open>memcpy\<close> and \<open>memset\<close>),
  big-endian byte encodings of 16 and 32 bit integers, and a few list lemmas.
\<close>

unbundle bit_operations_syntax

section \<open>Machine integers and byte arrays\<close>

type_synonym u8 = "8 word"
type_synonym u16 = "16 word"
type_synonym u32 = "32 word"
type_synonym u64 = "64 word"
type_synonym bytes = "u8 list"

text \<open>The simp set of the byte-array lemmas.\<close>

named_theorems block_simps

text \<open>\<open>memcpy_at dst off src\<close> is the array \<open>dst\<close> after \<open>memcpy(dst + off, src, n)\<close>, where
  \<open>n\<close> is the length of \<open>src\<close>. The callers check that the copied range lies inside \<open>dst\<close>.\<close>

definition memcpy_at :: "'a list \<Rightarrow> nat \<Rightarrow> 'a list \<Rightarrow> 'a list" where
  "memcpy_at dst off src = take off dst @ src @ drop (off + length src) dst"

text \<open>\<open>uint_sub a b\<close> is the subtraction of two C++ \<open>unsigned int\<close> values held as naturals: it
  wraps around modulo \<open>2 ^ 32\<close> when \<open>b\<close> is larger than \<open>a\<close>.\<close>

definition uint_sub :: "nat \<Rightarrow> nat \<Rightarrow> nat" where
  "uint_sub a b = (if b \<le> a then a - b else (a + 2 ^ 32 - b) mod 2 ^ 32)"

section \<open>Big-endian encodings\<close>

definition be16 :: "u16 \<Rightarrow> bytes" where
  "be16 w = [ucast (drop_bit 8 w), ucast w]"

definition be32 :: "u32 \<Rightarrow> bytes" where
  "be32 w = [ucast (drop_bit 24 w), ucast (drop_bit 16 w), ucast (drop_bit 8 w), ucast w]"

definition of_be16 :: "u8 \<Rightarrow> u8 \<Rightarrow> u16" where
  "of_be16 hi lo = push_bit 8 (ucast hi) + ucast lo"

definition of_be32 :: "u8 \<Rightarrow> u8 \<Rightarrow> u8 \<Rightarrow> u8 \<Rightarrow> u32" where
  "of_be32 b3 b2 b1 b0 =
     push_bit 24 (ucast b3) + push_bit 16 (ucast b2) + push_bit 8 (ucast b1) + ucast b0"

section \<open>Lemmas on block copies\<close>

lemma length_memcpy_at [simp, block_simps]:
  "off + length src \<le> length dst \<Longrightarrow> length (memcpy_at dst off src) = length dst"
  by (simp add: memcpy_at_def)

lemma memcpy_at_Nil [simp, block_simps]: "off \<le> length dst \<Longrightarrow> memcpy_at dst off [] = dst"
  by (simp add: memcpy_at_def)

lemma nth_memcpy_at:
  assumes "off + length src \<le> length dst" and "i < length dst"
  shows "memcpy_at dst off src ! i =
    (if off \<le> i \<and> i < off + length src then src ! (i - off) else dst ! i)"
  using assms by (auto simp: memcpy_at_def nth_append)

lemma take_memcpy_at_0 [simp, block_simps]: "take (length src) (memcpy_at dst 0 src) = src"
  by (simp add: memcpy_at_def)

lemma take_memcpy_at:
  assumes "off \<le> len" and "len \<le> length dst" and "off + length src \<le> length dst"
  shows "take (max len (off + length src)) (memcpy_at dst off src) =
    memcpy_at (take len dst) off src"
proof (rule nth_equalityI)
  let ?n = "max len (off + length src)"
  show "length (take ?n (memcpy_at dst off src)) = length (memcpy_at (take len dst) off src)"
    using assms by (auto simp: memcpy_at_def)
  fix i assume i: "i < length (take ?n (memcpy_at dst off src))"
  then have "i < ?n" by simp
  with assms show "take ?n (memcpy_at dst off src) ! i = memcpy_at (take len dst) off src ! i"
    by (auto simp: memcpy_at_def nth_append)
qed

lemma memcpy_at_one: "k < length dst \<Longrightarrow> memcpy_at dst k [x] = dst[k := x]"
  by (simp add: memcpy_at_def upd_conv_take_nth_drop)

lemma memcpy_at_Cons:
  "k < length dst \<Longrightarrow> memcpy_at dst k (x # xs) = memcpy_at (dst[k := x]) (Suc k) xs"
  by (simp add: memcpy_at_def take_Suc_conv_app_nth)

lemma uint_sub_ge [simp]: "b \<le> a \<Longrightarrow> uint_sub a b = a - b"
  by (simp add: uint_sub_def)

lemma uint_sub_wraps:
  "a < b \<Longrightarrow> b < 2 ^ 32 \<Longrightarrow> uint_sub a b = a + 2 ^ 32 - b"
  by (simp add: uint_sub_def)

section \<open>Lemmas on big-endian encodings\<close>

lemma length_be16 [simp]: "length (be16 w) = 2"
  by (simp add: be16_def)

lemma length_be32 [simp]: "length (be32 w) = 4"
  by (simp add: be32_def)

lemma of_be16_be16 [simp]: "of_be16 (be16 w ! 0) (be16 w ! Suc 0) = w"
proof -
  have "push_bit 8 (ucast (ucast (drop_bit 8 w) :: u8)) AND (ucast (ucast w :: u8)) = (0 :: u16)"
    by (intro bit_word_eqI) (auto simp: bit_simps)
  then have "of_be16 (be16 w ! 0) (be16 w ! Suc 0) =
      push_bit 8 (ucast (ucast (drop_bit 8 w) :: u8)) OR (ucast (ucast w :: u8))"
    by (simp add: of_be16_def be16_def disjunctive_add_eq_or)
  also have "\<dots> = w"
    by (intro bit_word_eqI) (auto simp: bit_simps)
  finally show ?thesis .
qed

lemma of_be32_be32 [simp]:
  "of_be32 (be32 w ! 0) (be32 w ! Suc 0) (be32 w ! 2) (be32 w ! 3) = w"
proof -
  let ?b3 = "push_bit 24 (ucast (ucast (drop_bit 24 w) :: u8)) :: u32"
  let ?b2 = "push_bit 16 (ucast (ucast (drop_bit 16 w) :: u8)) :: u32"
  let ?b1 = "push_bit 8 (ucast (ucast (drop_bit 8 w) :: u8)) :: u32"
  let ?b0 = "ucast (ucast w :: u8) :: u32"
  have "?b3 + ?b2 = ?b3 OR ?b2"
    by (rule disjunctive_add_eq_or, rule bit_word_eqI) (auto simp: bit_simps)
  moreover have "(?b3 OR ?b2) + ?b1 = (?b3 OR ?b2) OR ?b1"
    by (rule disjunctive_add_eq_or, rule bit_word_eqI) (auto simp: bit_simps)
  moreover have "((?b3 OR ?b2) OR ?b1) + ?b0 = ((?b3 OR ?b2) OR ?b1) OR ?b0"
    by (rule disjunctive_add_eq_or, rule bit_word_eqI) (auto simp: bit_simps)
  moreover have "((?b3 OR ?b2) OR ?b1) OR ?b0 = w"
  proof (rule bit_word_eqI)
    fix n assume "n < LENGTH(32)"
    then show "bit (((?b3 OR ?b2) OR ?b1) OR ?b0) n \<longleftrightarrow> bit w n"
      by (cases "24 \<le> n"; cases "16 \<le> n"; cases "8 \<le> n") (auto simp: bit_simps)
  qed
  ultimately show ?thesis
    by (simp add: of_be32_def be32_def numeral_eq_Suc)
qed

end
