(* ===== verification/Dmx_Value.thy ===== *)
theory Dmx_Value
  imports OLA_Prelude
begin

text \<open>
  The value a \<open>DmxBuffer\<close> stands for, without its storage: \<open>None\<close> while the buffer has no data
  block, and the slots \<open>m_data[0 .. m_length)\<close> otherwise. Each function below is the effect one
  operation of \<^verbatim>\<open>common/utils/DmxBuffer.cpp\<close> has on that value. Theory \<open>Dmx_Buffer\<close> models the
  reference-counted, copy-on-write code itself and proves that it implements these functions;
  the components that only use buffers (run length encoding, universes) work with them.
\<close>

definition DMX_UNIVERSE_SIZE :: nat where
  "DMX_UNIVERSE_SIZE = 512"

declare DMX_UNIVERSE_SIZE_def [simp]

type_synonym dmx = "bytes option"

definition dmx_wf :: "dmx \<Rightarrow> bool" where
  "dmx_wf d \<longleftrightarrow> (case d of None \<Rightarrow> True | Some xs \<Rightarrow> length xs \<le> DMX_UNIVERSE_SIZE)"

definition slots :: "dmx \<Rightarrow> bytes" where
  "slots d = (case d of None \<Rightarrow> [] | Some xs \<Rightarrow> xs)"

definition val_Size :: "dmx \<Rightarrow> nat" where
  "val_Size d = length (slots d)"

definition val_Get :: "dmx \<Rightarrow> nat \<Rightarrow> u8" where
  "val_Get d channel = (if channel < val_Size d then slots d ! channel else 0)"

definition val_Set :: "bytes \<Rightarrow> dmx" where
  "val_Set xs = Some (take DMX_UNIVERSE_SIZE xs)"

definition val_Blackout :: dmx where
  "val_Blackout = Some (replicate DMX_UNIVERSE_SIZE 0)"

definition val_Reset :: "dmx \<Rightarrow> dmx" where
  "val_Reset d = map_option (\<lambda>_. []) d"

text \<open>Highest takes precedence: the larger value in each slot, the longer of the two buffers.\<close>

fun htp :: "bytes \<Rightarrow> bytes \<Rightarrow> bytes" where
  "htp [] ys = ys"
| "htp xs [] = xs"
| "htp (x # xs) (y # ys) = max x y # htp xs ys"

definition val_HTPMerge :: "dmx \<Rightarrow> dmx \<Rightarrow> dmx" where
  "val_HTPMerge d other = Some (htp (slots d) (slots other))"

text \<open>The buffer a range operation starts from: a buffer without data is blacked out first.\<close>

definition val_start :: "dmx \<Rightarrow> bytes" where
  "val_start d = (case d of None \<Rightarrow> replicate DMX_UNIVERSE_SIZE 0 | Some xs \<Rightarrow> xs)"

definition val_write :: "nat \<Rightarrow> bytes \<Rightarrow> dmx \<Rightarrow> bool \<times> dmx" where
  "val_write offset xs d =
     (if offset \<ge> DMX_UNIVERSE_SIZE then (False, d)
      else if offset > length (val_start d) then (False, Some (val_start d))
      else (True, Some (memcpy_at (val_start d) offset (take (DMX_UNIVERSE_SIZE - offset) xs))))"

definition val_SetRange :: "nat \<Rightarrow> bytes \<Rightarrow> dmx \<Rightarrow> dmx" where
  "val_SetRange offset xs d = snd (val_write offset xs d)"

definition val_SetRangeToValue :: "nat \<Rightarrow> u8 \<Rightarrow> nat \<Rightarrow> dmx \<Rightarrow> dmx" where
  "val_SetRangeToValue offset v n d = snd (val_write offset (replicate n v) d)"

definition val_SetChannel :: "nat \<Rightarrow> u8 \<Rightarrow> dmx \<Rightarrow> dmx" where
  "val_SetChannel channel v d = snd (val_write channel [v] d)"

section \<open>Sizes\<close>

lemma slots_simps [simp]: "slots None = []" "slots (Some xs) = xs"
  by (simp_all add: slots_def)

lemma dmx_wf_simps [simp]: "dmx_wf None" "dmx_wf (Some xs) \<longleftrightarrow> length xs \<le> 512"
  by (simp_all add: dmx_wf_def)

lemma val_Reset_simps [simp]: "val_Reset None = None" "val_Reset (Some xs) = Some []"
  by (simp_all add: val_Reset_def)

lemma dmx_wf_slots: "dmx_wf d \<longleftrightarrow> length (slots d) \<le> 512"
  by (cases d) simp_all

lemma length_htp [simp]: "length (htp xs ys) = max (length xs) (length ys)"
  by (induction xs ys rule: htp.induct) auto

lemma htp_Nil2 [simp]: "htp xs [] = xs"
  by (cases xs) simp_all

lemma nth_htp:
  "i < max (length xs) (length ys) \<Longrightarrow>
   htp xs ys ! i = (if i < length xs then if i < length ys then max (xs ! i) (ys ! i) else xs ! i
                    else ys ! i)"
  by (induction xs ys arbitrary: i rule: htp.induct) (auto simp: nth_Cons' split: if_splits)

lemma length_val_start: "dmx_wf d \<Longrightarrow> length (val_start d) \<le> 512"
  by (cases d) (simp_all add: val_start_def)

lemma dmx_wf_val_write: "dmx_wf d \<Longrightarrow> dmx_wf (snd (val_write offset xs d))"
  using length_val_start [of d] by (auto simp: val_write_def memcpy_at_def)

section \<open>Highest-takes-precedence merging is a semilattice\<close>

lemma htp_commute: "htp xs ys = htp ys xs"
  by (induction xs ys rule: htp.induct) (simp_all add: max.commute)

lemma htp_assoc: "htp (htp xs ys) zs = htp xs (htp ys zs)"
proof (rule nth_equalityI)
  fix i assume "i < length (htp (htp xs ys) zs)"
  then show "htp (htp xs ys) zs ! i = htp xs (htp ys zs) ! i"
    by (auto simp: nth_htp max.assoc less_max_iff_disj)
qed (simp add: max.assoc)

lemma htp_idem [simp]: "htp xs xs = xs"
  by (induction xs) simp_all

lemma htp_left_commute: "htp xs (htp ys zs) = htp ys (htp xs zs)"
  by (metis htp_assoc htp_commute)

end
