(* ===== verification/Dmx_Storage.thy ===== *)
theory Dmx_Storage
  imports Dmx_Buffer
begin

text \<open>
  The effect of the private methods of \<open>DmxBuffer\<close> on the storage: releasing a block, allocating a
  fresh one, attaching to the block of another object, duplicating a shared block before a write,
  and writing to a block with a single owner. Each lemma says that the step is defined, keeps the
  storage invariant, and changes no other object or value.
\<close>

section \<open>Changing an object or its own block\<close>

lemma sharers_put_same:
  "objs m obj = Some b \<Longrightarrow> m_data b' = m_data b \<Longrightarrow> sharers (put obj b' m) = sharers m"
  by (auto simp: sharers_def fun_eq_iff)

lemma value_of_put [simp]: "value_of (put obj b' m) = value_of m"
  by (simp add: value_of_def fun_eq_iff split: option.split)

lemma value_of_cells [simp]:
  "value_of (m\<lparr>ref_cells := rc\<rparr>) = value_of m"
  "value_of (m\<lparr>brk := n\<rparr>) = value_of m"
  "value_of (m\<lparr>objs := f\<rparr>) = value_of m"
  by (simp_all add: value_of_def fun_eq_iff split: option.split)

lemma value_of_other_block:
  "m_data b \<noteq> Some d \<Longrightarrow> value_of (m\<lparr>data_cells := (data_cells m)(d := x)\<rparr>) b = value_of m b"
  by (auto simp: value_of_def split: option.splits)

lemma good_put_same:
  assumes g: "good m" and b: "objs m obj = Some b"
    and ptr: "m_data b' = m_data b" "m_ref_count b' = m_ref_count b"
    and len: "m_length b' \<le> 512" "m_data b = None \<Longrightarrow> m_length b' = 0"
    and cow: "\<And>d. m_data b = Some d \<Longrightarrow> \<not> m_copy_on_write b' \<Longrightarrow> sharers m d = {obj}"
  shows "good (put obj b' m)"
proof -
  note sh = sharers_put_same [OF b ptr(1)]
  have "buf_ok (put obj b' m) b'"
    using good_buf [OF g b] ptr len by (auto simp: buf_ok_def split: option.splits)
  moreover have "buf_ok (put obj b' m) b2 = buf_ok m b2" for b2
    by (simp add: buf_ok_def split: option.splits)
  ultimately have "bufs_ok (put obj b' m)"
    using g by (auto simp: bufs_ok_def good_def)
  moreover have "flags_ok (put obj b' m)"
    unfolding flags_ok_def sh using good_cow [OF g] cow ptr(1) by (auto split: if_splits)
  moreover have "dom (objs (put obj b' m)) = dom (objs m)"
    using b by auto
  ultimately show ?thesis
    using g by (auto simp: good_def counts_ok_def cells_ok_def few_objs_def sh)
qed

lemma good_new_bytes:
  assumes g: "good m" and live: "data_cells m d = Some old" and len: "length blk = 512"
  shows "good (m\<lparr>data_cells := (data_cells m)(d \<mapsto> blk)\<rparr>)" (is "good ?m")
proof -
  have "buf_ok ?m b = buf_ok m b" for b
    using live by (auto simp: buf_ok_def split: option.splits)
  then have "bufs_ok ?m" using g by (simp add: good_def bufs_ok_def)
  moreover have "ref_cells m d \<noteq> None" using good_cells [OF g, of d] live by simp
  then have "cells_ok ?m"
    using good_cells [OF g] good_block [OF g] live len by (auto simp: cells_ok_def)
  ultimately show ?thesis
    using g by (simp add: good_def counts_ok_def flags_ok_def few_objs_def)
qed

lemma good_write_block:
  assumes g: "good m" and b: "objs m obj = Some b" and d: "m_data b = Some d"
    and len: "length blk = 512" "n \<le> 512" and own: "owns m obj d"
  defines "m' \<equiv> put obj (b\<lparr>m_length := n\<rparr>) (m\<lparr>data_cells := (data_cells m)(d \<mapsto> blk)\<rparr>)"
  shows "good m'" and "same_others obj m m'" and "view m' obj = Some (Some (take n blk))"
proof -
  let ?m = "m\<lparr>data_cells := (data_cells m)(d \<mapsto> blk)\<rparr>"
  from g b d obtain old where live: "data_cells m d = Some old" "d < brk m"
      "ref_cells m d = Some (card (sharers m d))"
    by (elim good_live)
  have "good ?m" using g live(1) len(1) by (rule good_new_bytes)
  then show "good m'"
    unfolding m'_def using b d len own by (intro good_put_same [of _ _ b]) (auto simp: owns_def)
  have "view m' o' = view m o'" if "o' \<noteq> obj" for o'
  proof (cases "objs m o'")
    case (Some b')
    with own that d have "m_data b' \<noteq> Some d"
      by (auto simp: owns_def sharers_def)
    with Some that show ?thesis by (simp add: m'_def view_def value_of_other_block)
  qed (use that in \<open>simp add: m'_def view_def\<close>)
  then show "same_others obj m m'" by (simp add: same_others_def m'_def)
  show "view m' obj = Some (Some (take n blk))"
    by (simp add: m'_def view_def value_of_def d)
qed

section \<open>Releasing and allocating\<close>

abbreviation (input) released :: "dmx_buffer \<Rightarrow> dmx_buffer" where
  "released b \<equiv> b\<lparr>m_data := None, m_ref_count := None, m_length := 0\<rparr>"

text \<open>The memory after the object \<open>obj\<close> has given up the block \<open>d\<close>.\<close>

definition drop_ref :: "nat \<Rightarrow> dmx_buffer \<Rightarrow> addr \<Rightarrow> memory \<Rightarrow> memory" where
  "drop_ref obj b d m =
     put obj b
       (if sharers m d = {obj}
        then m\<lparr>data_cells := (data_cells m)(d := None), ref_cells := (ref_cells m)(d := None)\<rparr>
        else m\<lparr>ref_cells := (ref_cells m)(d \<mapsto> card (sharers m d) - 1)\<rparr>)"

lemma dec_ref: "0 < k \<Longrightarrow> k < 2 ^ 32 \<Longrightarrow> (k + 2 ^ 32 - 1) mod 2 ^ 32 = k - (1 :: nat)"
proof -
  assume "0 < k" "k < 2 ^ 32"
  then have "k + 2 ^ 32 - 1 = (k - 1) + 2 ^ 32" by simp
  then have "(k + 2 ^ 32 - 1) mod 2 ^ 32 = (k - 1) mod 2 ^ 32"
    by (metis mod_add_self2)
  also have "\<dots> = k - 1" using \<open>k < 2 ^ 32\<close> by (intro mod_less) linarith
  finally show ?thesis .
qed

lemma card_sharers_pos: "good m \<Longrightarrow> obj \<in> sharers m d \<Longrightarrow> 0 < card (sharers m d)"
  using finite_sharers [of m d] by (auto simp: card_gt_0_iff)

lemma card_sharers_1: "good m \<Longrightarrow> obj \<in> sharers m d \<Longrightarrow> card (sharers m d) = 1 \<longleftrightarrow> sharers m d = {obj}"
  by (auto simp: card_1_singleton_iff)

lemma CleanupMemory_eq:
  assumes g: "good m" and b: "objs m obj = Some b" and d: "m_data b = Some d"
  shows "CleanupMemory obj m = Some (drop_ref obj (released b) d m)"
proof -
  from g b d obtain blk where live: "data_cells m d = Some blk" "m_ref_count b = Some d"
      "ref_cells m d = Some (card (sharers m d))"
    by (elim good_live)
  from b d have mem: "obj \<in> sharers m d" by (rule sharersI)
  note pos = card_sharers_pos [OF g mem]
  note dec = dec_ref [OF pos card_sharers_less [OF g]]
  have one: "card (sharers m d) - 1 = 0 \<longleftrightarrow> sharers m d = {obj}"
    using pos card_sharers_1 [OF g mem] by linarith
  show ?thesis
    using live b d dec one
    by (simp add: CleanupMemory_def get_ref_def set_ref_def drop_ref_def del: One_nat_def)
qed


lemma good_drop_ref:
  assumes g: "good m" and b: "objs m obj = Some b" and d: "m_data b = Some d"
    and b0: "m_data b0 = None" "m_ref_count b0 = None" "m_length b0 = 0"
  shows "good (drop_ref obj b0 d m)" (is "good ?m")
    and "same_others obj m (drop_ref obj b0 d m)"
proof -
  from g b d obtain blk where live: "data_cells m d = Some blk" "ref_cells m d = Some (card (sharers m d))"
    by (elim good_live)
  from b d have mem: "obj \<in> sharers m d" by (rule sharersI)
  have sh: "sharers ?m d' = sharers m d' - {obj}" for d'
    using b0 by (simp add: drop_ref_def)
  have other: "sharers ?m d' = sharers m d'" if "d' \<noteq> d" for d'
    using sh that b d by (auto simp: sharers_def)
  have keep: "data_cells ?m d' = data_cells m d'" if "o' \<in> sharers m d'" "o' \<noteq> obj" for o' d'
    using that by (auto simp: drop_ref_def)
  have objs: "objs ?m = (objs m)(obj \<mapsto> b0)" by (simp add: drop_ref_def)
  have ref: "ref_cells ?m d = (if sharers m d = {obj} then None else Some (card (sharers m d) - 1))"
    by (simp add: drop_ref_def)
  have "buf_ok ?m b2" if "objs ?m o' = Some b2" for o' b2
  proof (cases "o' = obj")
    case True with that b0 show ?thesis by (simp add: objs buf_ok_def)
  next
    case False
    with that have o': "objs m o' = Some b2" by (simp add: objs)
    with False keep [OF sharersI] have "m_data b2 = Some d' \<Longrightarrow> data_cells ?m d' = data_cells m d'" for d'
      by blast
    with good_buf [OF g o'] show ?thesis by (auto simp: buf_ok_def split: option.splits)
  qed
  then have "bufs_ok ?m" by (simp add: bufs_ok_def)
  moreover have "counts_ok ?m"
    unfolding counts_ok_def
  proof (intro allI impI)
    fix d' c assume c: "ref_cells ?m d' = Some c"
    show "c = card (sharers ?m d') \<and> sharers ?m d' \<noteq> {}"
    proof (cases "d' = d")
      case True
      with c ref mem finite_sharers [OF g, of d] show ?thesis
        by (auto simp: sh card_Diff_singleton split: if_splits)
    next
      case False
      with c have "ref_cells m d' = Some c" by (simp add: drop_ref_def split: if_splits)
      with good_count [OF g] other [OF False] show ?thesis by simp
    qed
  qed
  moreover have "cells_ok ?m"
    using good_cells [OF g] good_block [OF g] live by (auto simp: cells_ok_def drop_ref_def)
  moreover have "flags_ok ?m"
    unfolding flags_ok_def
  proof (intro allI impI)
    fix o' b2 d' assume *: "objs ?m o' = Some b2" "m_data b2 = Some d'" "\<not> m_copy_on_write b2"
    with b0 have o': "o' \<noteq> obj" "objs m o' = Some b2" by (auto simp: objs split: if_splits)
    with good_cow [OF g o'(2) *(2,3)] show "sharers ?m d' = {o'}" by (simp add: sh)
  qed
  moreover have "dom (objs ?m) = dom (objs m)" using b by (auto simp: objs)
  ultimately show "good ?m" using g by (simp add: good_def few_objs_def)
  have "view ?m o' = view m o'" if "o' \<noteq> obj" for o'
  proof (cases "objs m o'")
    case (Some b2)
    with keep that have "m_data b2 = Some d' \<Longrightarrow> data_cells ?m d' = data_cells m d'" for d'
      by (blast intro: sharersI)
    with Some that show ?thesis by (auto simp: view_def value_of_def objs split: option.splits)
  qed (use that in \<open>simp add: view_def objs\<close>)
  then show "same_others obj m ?m" by (simp add: same_others_def objs)
qed

lemma CleanupMemory_spec:
  assumes g: "good m" and b: "objs m obj = Some b"
  obtains m' where "CleanupMemory obj m = Some m'" "good m'" "same_others obj m m'"
    "objs m' obj = Some (released b)"
proof (cases "m_data b")
  case None
  with good_null [OF g b] have "released b = b" by simp
  moreover from b None have "CleanupMemory obj m = Some m"
    by (simp add: CleanupMemory_def split: option.splits)
  ultimately show ?thesis using that g b by simp
next
  case (Some d)
  have "objs (drop_ref obj (released b) d m) obj = Some (released b)"
    by (simp add: drop_ref_def)
  then show ?thesis
    using that CleanupMemory_eq [OF g b Some] good_drop_ref [OF g b Some] by simp
qed

text \<open>The memory after the object \<open>obj\<close> has been given a fresh block that holds \<open>blk\<close>.\<close>

definition attach_new :: "nat \<Rightarrow> bool \<Rightarrow> nat \<Rightarrow> bytes \<Rightarrow> memory \<Rightarrow> memory" where
  "attach_new obj cow n blk m =
     put obj \<lparr>m_ref_count = Some (brk m), m_copy_on_write = cow, m_data = Some (brk m), m_length = n\<rparr>
       (m\<lparr>data_cells := (data_cells m)(brk m \<mapsto> blk), ref_cells := (ref_cells m)(brk m \<mapsto> 1),
          brk := Suc (brk m)\<rparr>)"

lemma attach_new_sel:
  "objs (attach_new obj cow n blk m) = (objs m)(obj \<mapsto>
     \<lparr>m_ref_count = Some (brk m), m_copy_on_write = cow, m_data = Some (brk m), m_length = n\<rparr>)"
  "data_cells (attach_new obj cow n blk m) = (data_cells m)(brk m \<mapsto> blk)"
  "ref_cells (attach_new obj cow n blk m) = (ref_cells m)(brk m \<mapsto> 1)"
  "brk (attach_new obj cow n blk m) = Suc (brk m)"
  by (simp_all add: attach_new_def)

lemma good_attach_new:
  fixes cow :: bool
  assumes g: "good m" and b: "objs m obj = Some b" and d: "m_data b = None"
    and len: "length blk = 512" "n \<le> 512"
  defines "m' \<equiv> attach_new obj cow n blk m"
  shows "good m'" and "same_others obj m m'" and "view m' obj = Some (Some (take n blk))"
    and "owns m' obj (brk m)"
proof -
  note sel = attach_new_sel [of obj cow n blk m, folded m'_def]
  note fresh = fresh_sharers [OF g] fresh_cells [OF g]
  from b d have notin: "obj \<notin> sharers m d'" for d' by (auto simp: sharers_def)
  have sh: "sharers m' d' = (if d' = brk m then {obj} else sharers m d')" for d'
    using fresh(1) notin by (auto simp: m'_def attach_new_def)
  have keep: "data_cells m' d' = data_cells m d'" if "objs m o' = Some b2" "m_data b2 = Some d'" for o' b2 d'
  proof -
    from g that have "d' < brk m" by (blast elim: good_live)
    then show ?thesis by (simp add: sel)
  qed
  have "buf_ok m' b2" if b2: "objs m' o' = Some b2" for o' b2
  proof (cases "o' = obj")
    case True with b2 len show ?thesis by (auto simp: sel buf_ok_def)
  next
    case False
    with b2 have o': "objs m o' = Some b2" by (simp add: sel)
    with keep good_buf [OF g o'] show ?thesis by (simp add: buf_ok_def split: option.splits)
  qed
  then have "bufs_ok m'" by (simp add: bufs_ok_def)
  moreover have "counts_ok m'"
    using good_count [OF g] by (auto simp: counts_ok_def sel sh split: if_splits)
  moreover have "cells_ok m'"
    using good_cells [OF g] good_block [OF g] len by (fastforce simp: cells_ok_def sel less_Suc_eq)
  moreover have "flags_ok m'"
    unfolding flags_ok_def
  proof (intro allI impI)
    fix o' b2 d' assume *: "objs m' o' = Some b2" "m_data b2 = Some d'" "\<not> m_copy_on_write b2"
    show "sharers m' d' = {o'}"
    proof (cases "o' = obj")
      case True with * show ?thesis by (auto simp: sel sh)
    next
      case False
      with * have o': "objs m o' = Some b2" by (simp add: sel)
      with g *(2) have "d' < brk m" by (blast elim: good_live)
      with good_cow [OF g o' *(2,3)] show ?thesis by (simp add: sh)
    qed
  qed
  moreover have "dom (objs m') = dom (objs m)" using b by (auto simp: sel)
  ultimately show "good m'" using g by (simp add: good_def few_objs_def)
  have "view m' o' = view m o'" if "o' \<noteq> obj" for o'
    using that keep by (cases "objs m o'") (auto simp: view_def value_of_def sel split: option.splits)
  then show "same_others obj m m'" by (simp add: same_others_def sel)
  show "view m' obj = Some (Some (take n blk))" by (simp add: view_def value_of_def sel)
  show "owns m' obj (brk m)" by (simp add: owns_def sh)
qed

lemma Init_eq:
  "objs m obj = Some b \<Longrightarrow>
   Init obj m = Some (attach_new obj (m_copy_on_write b) 0 (map (junk m (brk m)) [0..<512]) m)"
  by (cases b) (simp add: Init_def attach_new_def Let_def)

text \<open>An object that is not marked copy-on-write and has data is the only owner of its block.\<close>

definition ready :: "nat \<Rightarrow> memory \<Rightarrow> bool" where
  "ready obj m \<longleftrightarrow> good m \<and> (\<exists>b d. objs m obj = Some b \<and> m_data b = Some d \<and> owns m obj d)"

text \<open>The prologue of \<open>Set\<close> and \<open>Blackout\<close>: drop a possibly shared block, allocate one if none is
  left.\<close>

lemma prologue_spec:
  assumes g: "good m" and b: "objs m obj = Some b"
  obtains m1 b1 m2 where
    "(if m_copy_on_write b then CleanupMemory obj m else Some m) = Some m1"
    "objs m1 obj = Some b1" "(if m_data b1 = None then Init obj m1 else Some m1) = Some m2"
    "ready obj m2" "same_others obj m m2"
proof -
  obtain m1 b1 where m1: "(if m_copy_on_write b then CleanupMemory obj m else Some m) = Some m1"
      "good m1" "same_others obj m m1" "objs m1 obj = Some b1"
      "m_data b1 = None \<or> \<not> m_copy_on_write b1"
  proof (cases "m_copy_on_write b")
    case True
    obtain m1 where "CleanupMemory obj m = Some m1" "good m1" "same_others obj m m1"
        "objs m1 obj = Some (released b)"
      using CleanupMemory_spec [OF g b] .
    with True that show thesis by auto
  qed (use that g b in auto)
  show thesis
  proof (cases "m_data b1")
    case None
    let ?m2 = "attach_new obj (m_copy_on_write b1) 0 (map (junk m1 (brk m1)) [0..<512]) m1"
    have "length (map (junk m1 (brk m1)) [0..<512]) = 512" by simp
    note fresh = good_attach_new [OF m1(2,4) None this le0]
    have "ready obj ?m2"
      using fresh by (auto simp: ready_def attach_new_sel)
    moreover have "same_others obj m ?m2" using m1(3) fresh(2) by (rule same_others_trans)
    moreover have "(if m_data b1 = None then Init obj m1 else Some m1) = Some ?m2"
      using None Init_eq [OF m1(4)] by simp
    ultimately show thesis using that [OF m1(1,4)] by blast
  next
    case (Some d)
    with m1 have "ready obj m1"
      by (auto simp: ready_def owns_def dest: good_cow)
    with Some m1(3) show thesis using that [OF m1(1,4)] by simp
  qed
qed

section \<open>Writing to an object's own block\<close>

lemma write_ready:
  assumes rd: "ready obj m" and b: "objs m obj = Some b"
    and xs: "off + length xs \<le> 512" and n: "n \<le> 512"
  obtains blk m' where "write_bytes (m_data b) off xs m = Some m'"
    "good (put obj (b\<lparr>m_length := n\<rparr>) m')" "same_others obj m (put obj (b\<lparr>m_length := n\<rparr>) m')"
    "view (put obj (b\<lparr>m_length := n\<rparr>) m') obj = Some (Some (take n (memcpy_at blk off xs)))"
    "length blk = 512" "value_of m b = Some (take (m_length b) blk)"
proof -
  from rd b obtain d where d: "m_data b = Some d" and own: "owns m obj d" and g: "good m"
    by (auto simp: ready_def)
  from g b d obtain blk where blk: "data_cells m d = Some blk" "length blk = 512"
    by (elim good_live)
  have val: "value_of m b = Some (take (m_length b) blk)"
    using d blk by (simp add: value_of_def)
  let ?m' = "m\<lparr>data_cells := (data_cells m)(d \<mapsto> memcpy_at blk off xs)\<rparr>"
  from xs blk have len: "length (memcpy_at blk off xs) = 512" by simp
  have "m = ?m'" if "xs = []"
    using that blk xs by (simp add: fun_upd_idem)
  then have "write_bytes (m_data b) off xs m = Some ?m'"
    using d blk xs by (auto simp: write_bytes_def)
  then show thesis
    using that good_write_block [OF g b d len n own] blk(2) val by blast
qed

lemma Set_spec:
  assumes g: "good m" and b: "objs m obj = Some b" and p: "p \<noteq> NullPtr"
    and xs: "\<And>m'. same_others obj m m' \<Longrightarrow> good m' \<Longrightarrow> read_bytes m' p 0 (min len 512) = Some xs"
  obtains m' where "Set obj p len m = Some (True, m')" "good m'" "same_others obj m m'"
    "view m' obj = Some (val_Set xs)"
proof -
  obtain m1 b1 m2 where pro:
    "(if m_copy_on_write b then CleanupMemory obj m else Some m) = Some m1"
    "objs m1 obj = Some b1" "(if m_data b1 = None then Init obj m1 else Some m1) = Some m2"
    "ready obj m2" "same_others obj m m2"
    using prologue_spec [OF g b] .
  from pro(4) obtain b2 where b2: "objs m2 obj = Some b2" and g2: "good m2" by (auto simp: ready_def)
  note rd = xs [OF pro(5) g2]
  then have lxs: "length xs = min len 512"
    by (auto simp: read_bytes_def bind_eq_Some_conv split: if_splits)
  obtain blk m3 where w: "write_bytes (m_data b2) 0 xs m2 = Some m3"
    "good (put obj (b2\<lparr>m_length := min len 512\<rparr>) m3)"
    "same_others obj m2 (put obj (b2\<lparr>m_length := min len 512\<rparr>) m3)"
    "view (put obj (b2\<lparr>m_length := min len 512\<rparr>) m3) obj =
       Some (Some (take (min len 512) (memcpy_at blk 0 xs)))" "length blk = 512"
    using write_ready [OF pro(4) b2, of 0 xs "min len 512"] lxs by (metis add_0 min.cobounded2)
  have "Set obj p len m = Some (True, put obj (b2\<lparr>m_length := min len 512\<rparr>) m3)"
    unfolding Set_def using p b pro(1-3) b2 rd w(1) by (simp add: Let_def)
  moreover have "take (min len 512) (memcpy_at blk 0 xs) = take 512 xs"
    using lxs by (metis min.cobounded2 take_all take_memcpy_at_0)
  ultimately show thesis
    using that w pro(5) by (auto simp: val_Set_def intro: same_others_trans)
qed

section \<open>Duplicating a shared block\<close>

lemma attach_twice:
  assumes "d \<noteq> brk m"
  shows "attach_new obj False n blk (drop_ref obj b0 d m) =
     put obj \<lparr>m_ref_count = Some (brk m), m_copy_on_write = False, m_data = Some (brk m), m_length = n\<rparr>
       ((if sharers m d = {obj}
         then m\<lparr>data_cells := (data_cells m)(d := None, brk m \<mapsto> blk),
                ref_cells := (ref_cells m)(d := None, brk m \<mapsto> 1), brk := Suc (brk m)\<rparr>
         else m\<lparr>data_cells := (data_cells m)(brk m \<mapsto> blk),
                ref_cells := (ref_cells m)(d \<mapsto> card (sharers m d) - 1, brk m \<mapsto> 1),
                brk := Suc (brk m)\<rparr>))"
  by (simp add: attach_new_def drop_ref_def put_def)

lemma Set_fresh:
  assumes b: "objs m obj = Some b" "\<not> m_copy_on_write b" "m_data b = Some a"
    and blk: "data_cells m a = Some new" "length new = 512"
    and src: "data_cells m d = Some blk" "length blk = 512" "n \<le> 512"
  shows "Set obj (HeapPtr d) n m =
    Some (True, put obj (b\<lparr>m_length := n\<rparr>)
      (m\<lparr>data_cells := (data_cells m)(a \<mapsto> memcpy_at new 0 (take n blk))\<rparr>))"
proof -
  have "read_bytes m (HeapPtr d) 0 n = Some (take n blk)"
    using src by (simp add: read_bytes_def)
  moreover have "write_bytes (Some a) 0 (take n blk) m =
      Some (m\<lparr>data_cells := (data_cells m)(a \<mapsto> memcpy_at new 0 (take n blk))\<rparr>)"
    using blk src by (auto simp: write_bytes_def fun_upd_idem)
  ultimately show ?thesis
    using b src(3) by (simp add: Set_def Let_def min_def)
qed

lemma Duplicate_shared:
  assumes g: "good m" and b: "objs m obj = Some b" and d: "m_data b = Some d"
    and cow: "m_copy_on_write b" and more: "sharers m d \<noteq> {obj}"
    and blk: "data_cells m d = Some blk"
  shows "DuplicateIfNeeded obj m = Some (attach_new obj False (m_length b)
    (memcpy_at (map (junk m (brk m)) [0..<512]) 0 (take (m_length b) blk)) (drop_ref obj (released b) d m))"
proof -
  from g b d obtain blk' where live: "data_cells m d = Some blk'" "length blk' = 512" "d < brk m"
      "m_ref_count b = Some d" "m_length b \<le> 512" "ref_cells m d = Some (card (sharers m d))"
    by (elim good_live)
  with blk have lb: "length blk = 512" by simp
  from b d have mem: "obj \<in> sharers m d" by (rule sharersI)
  have k: "1 < card (sharers m d)"
    using card_sharers_pos [OF g mem] card_sharers_1 [OF g mem] more by linarith
  let ?new = "map (junk m (brk m)) [0..<512]"
  let ?m1 = "put obj (b\<lparr>m_copy_on_write := False\<rparr>) m"
  let ?m2 = "attach_new obj False 0 ?new ?m1"
  let ?m3 = "put obj \<lparr>m_ref_count = Some (brk m), m_copy_on_write = False, m_data = Some (brk m),
    m_length = m_length b\<rparr> (?m2\<lparr>data_cells := (data_cells ?m2)(brk m \<mapsto> memcpy_at ?new 0 (take (m_length b) blk))\<rparr>)"
  have i: "Init obj ?m1 = Some ?m2"
    using Init_eq [of ?m1 obj] by simp
  have "Set obj (HeapPtr d) (m_length b) ?m2 = Some (True, ?m3)"
    by (subst Set_fresh [where new = ?new and blk = blk and a = "brk m"])
      (use live blk lb in \<open>auto simp: attach_new_sel\<close>)
  then have "DuplicateIfNeeded obj m = set_ref (Some d) (card (sharers m d) + 2 ^ 32 - 1) ?m3"
    using b d cow live k i by (simp add: DuplicateIfNeeded_def get_ref_def heap_ptr_def attach_new_sel
        del: One_nat_def)
  also have "\<dots> = Some (?m3\<lparr>ref_cells := (ref_cells ?m3)(d \<mapsto> card (sharers m d) - 1)\<rparr>)"
    using live dec_ref [OF _ card_sharers_less [OF g], of d] k
    by (simp add: set_ref_def attach_new_sel)
  also have "?m3\<lparr>ref_cells := (ref_cells ?m3)(d \<mapsto> card (sharers m d) - 1)\<rparr> =
      attach_new obj False (m_length b) (memcpy_at ?new 0 (take (m_length b) blk)) (drop_ref obj (released b) d m)"
    using live(3) more by (simp add: attach_twice) (simp add: attach_new_def put_def fun_upd_twist)
  finally show ?thesis .
qed

lemma DuplicateIfNeeded_spec:
  assumes g: "good m" and b: "objs m obj = Some b" and d: "m_data b = Some d"
  obtains m' b' where "DuplicateIfNeeded obj m = Some m'" "ready obj m'" "same_others obj m m'"
    "objs m' obj = Some b'" "m_length b' = m_length b" "value_of m' b' = value_of m b"
proof -
  from g b d obtain blk where live: "data_cells m d = Some blk" "length blk = 512"
      "m_ref_count b = Some d" "m_length b \<le> 512" "ref_cells m d = Some (card (sharers m d))"
    by (elim good_live)
  from b d have mem: "obj \<in> sharers m d" by (rule sharersI)
  consider (own) "\<not> m_copy_on_write b" | (last) "m_copy_on_write b" "sharers m d = {obj}"
    | (shared) "m_copy_on_write b" "sharers m d \<noteq> {obj}" by blast
  then show thesis
  proof cases
    case own
    then have "ready obj m"
      using g b d good_cow [OF g b d] by (auto simp: ready_def owns_def)
    then show thesis using own b by (intro that) (auto simp: DuplicateIfNeeded_def)
  next
    case last
    let ?b = "b\<lparr>m_copy_on_write := False\<rparr>"
    have "good (put obj ?b m)"
      by (rule good_put_same [OF g b]) (use d live last in auto)
    then have "ready obj (put obj ?b m)"
      using d last by (auto simp: ready_def owns_def)
    moreover have "same_others obj m (put obj ?b m)"
      by (simp add: same_others_def view_def)
    moreover have "value_of (put obj ?b m) ?b = value_of m b"
      by (simp add: value_of_def split: option.split)
    moreover have "DuplicateIfNeeded obj m = Some (put obj ?b m)"
      using b last live by (simp add: DuplicateIfNeeded_def get_ref_def)
    ultimately show thesis using that [of "put obj ?b m" ?b] by simp
  next
    case shared
    let ?m1 = "drop_ref obj (released b) d m"
    let ?new = "memcpy_at (map (junk m (brk m)) [0..<512]) 0 (take (m_length b) blk)"
    let ?m2 = "attach_new obj False (m_length b) ?new ?m1"
    note m1 = good_drop_ref [OF g b d, of "released b", simplified]
    have b1: "objs ?m1 obj = Some (released b)" "m_data (released b) = None" by (simp_all add: drop_ref_def)
    have "length ?new = 512" using live by simp
    note m2 = good_attach_new [OF m1(1) b1 this live(4), where cow = False]
    have "ready obj ?m2"
      unfolding ready_def using m2(1,4) by (auto simp: attach_new_sel)
    moreover have "same_others obj m ?m2" using m1(2) m2(2) by (rule same_others_trans)
    moreover have "take (m_length b) ?new = take (m_length b) blk"
      using live by (simp add: memcpy_at_def)
    then have "view ?m2 obj = Some (value_of m b)"
      using m2(3) d live by (simp add: value_of_def)
    ultimately show thesis
      using that [OF Duplicate_shared [OF g b d shared live(1)]]
      by (simp add: attach_new_sel view_def)
  qed
qed

section \<open>Sharing the block of another object\<close>

lemma CopyFromOther_spec:
  assumes g: "good m" and b: "objs m obj = Some b" "m_data b = None"
    and ob: "objs m oth = Some ob" "m_data ob = Some d"
  obtains m' where "CopyFromOther obj oth m = Some m'" "good m'"
    "view m' = (view m)(obj \<mapsto> value_of m ob)" "dom (objs m') = dom (objs m)"
proof -
  from b ob have ne: "oth \<noteq> obj" by auto
  from g ob obtain blk where live: "data_cells m d = Some blk" "length blk = 512"
      "m_ref_count ob = Some d" "m_length ob \<le> 512" "ref_cells m d = Some (card (sharers m d))"
    by (elim good_live)
  let ?nb = "\<lparr>m_ref_count = Some d, m_copy_on_write = True, m_data = Some d, m_length = m_length ob\<rparr>"
  let ?m1 = "put oth (ob\<lparr>m_copy_on_write := True\<rparr>) m"
  let ?m2 = "put obj ?nb (?m1\<lparr>ref_cells := (ref_cells m)(d \<mapsto> card (sharers m d) + 1)\<rparr>)"
  from b ob have notin: "obj \<notin> sharers m d'" and mem: "oth \<in> sharers m d" for d'
    by (auto simp: sharers_def)
  have sh: "sharers ?m2 d' = (if d' = d then insert obj (sharers m d) else sharers m d')" for d'
    using ob mem notin by (auto simp: sharers_put_same [OF ob(1)])
  have card: "card (insert obj (sharers m d)) = card (sharers m d) + 1"
    using notin finite_sharers [OF g] by simp
  have dom: "dom (objs ?m2) = dom (objs m)" using b ob by auto
  have "insert obj (sharers m d) \<subseteq> dom (objs m)" using b by (auto simp: sharers_def)
  then have "card (sharers m d) + 1 \<le> card (dom (objs m))"
    unfolding card [symmetric] using good_few [OF g] by (intro card_mono) auto
  then have small: "(card (sharers m d) + 1) mod 2 ^ 32 = card (sharers m d) + 1"
    using good_few [OF g] by (intro mod_less) linarith
  have eq: "CopyFromOther obj oth m = Some ?m2"
    using b ob live ne small
    by (cases b) (simp add: CopyFromOther_def get_ref_def set_ref_def put_def fun_upd_twist del: One_nat_def)
  have g1: "good ?m1"
    by (rule good_put_same [OF g ob(1)]) (use ob live in auto)
  have "buf_ok ?m2 b2 = buf_ok ?m1 b2" for b2
    by (simp add: buf_ok_def split: option.splits)
  moreover have "buf_ok ?m2 ?nb" using live by (simp add: buf_ok_def)
  ultimately have "bufs_ok ?m2"
    using good_buf [OF g1] by (auto simp: bufs_ok_def split: if_splits)
  moreover have "counts_ok ?m2"
    unfolding counts_ok_def sh using good_count [OF g] card by (auto split: if_splits)
  moreover have "cells_ok ?m2"
    using good_cells [OF g] good_block [OF g] live by (auto simp: cells_ok_def)
  moreover have "flags_ok ?m2"
    unfolding flags_ok_def
  proof (intro allI impI)
    fix o' b2 d' assume *: "objs ?m2 o' = Some b2" "m_data b2 = Some d'" "\<not> m_copy_on_write b2"
    have o': "o' \<noteq> obj" "o' \<noteq> oth" using *(1,3) ne by auto
    with *(1) have "objs m o' = Some b2" by simp
    note o' = this o'
    from good_cow [OF g o'(1) *(2,3)] have one: "sharers m d' = {o'}" .
    with mem o'(3) have "d' \<noteq> d" by auto
    with one show "sharers ?m2 d' = {o'}" by (simp only: sh if_False)
  qed
  ultimately have "good ?m2"
    using good_few [OF g] dom by (simp add: good_def few_objs_def)
  moreover have "view ?m2 = (view m)(obj \<mapsto> value_of m ob)"
    using ob live ne by (auto simp: view_def value_of_def fun_eq_iff)
  ultimately show thesis using that eq dom by blast
qed

end
