(* ===== verification/Dmx_Refine.thy ===== *)
theory Dmx_Refine
  imports Dmx_Storage
begin

text \<open>
  The public operations of \<open>DmxBuffer\<close> refine the value-level operations of theory \<open>Dmx_Value\<close>.
  An operation on one buffer is an instance of the locale \<open>buffer_update\<close>; a client program is a
  list of operations, and running it on the reference-counted storage gives the values that the
  value-level program gives, with no undefined behaviour and no leak.
\<close>

section \<open>The contract of an operation on one buffer\<close>

locale buffer_update =
  fixes upd :: "nat \<Rightarrow> memory \<Rightarrow> memory option"
    and spec :: "dmx \<Rightarrow> dmx"
  assumes refines: "good m \<Longrightarrow> objs m obj = Some b \<Longrightarrow>
    \<exists>m'. upd obj m = Some m' \<and> good m' \<and> same_others obj m m' \<and>
         view m' obj = Some (spec (value_of m b))"
begin

lemma simulates:
  assumes "good m" and "view m obj = Some v"
  shows "\<exists>m'. upd obj m = Some m' \<and> good m' \<and> view m' = (view m)(obj \<mapsto> spec v)"
proof -
  from assms(2) obtain b where b: "objs m obj = Some b" "value_of m b = v"
    by (auto simp: view_def)
  from refines [OF assms(1) b(1)] obtain m' where "upd obj m = Some m'" "good m'"
      "same_others obj m m'" "view m' obj = Some (spec v)"
    by (auto simp: b(2))
  then show ?thesis using view_update by blast
qed

text \<open>A copy taken before the operation keeps its value.\<close>

lemma isolates:
  assumes "good m" and "view m obj = Some v" and "oth \<noteq> obj"
  shows "\<exists>m'. upd obj m = Some m' \<and> good m' \<and> view m' oth = view m oth"
  using simulates [OF assms(1,2)] assms(3) by auto

end

section \<open>The operations that overwrite a buffer\<close>

lemma Set_bytes_refines:
  assumes "good m" and "objs m obj = Some b"
  shows "\<exists>m'. Set obj (ExtPtr xs) (length xs) m = Some (True, m') \<and> good m' \<and> same_others obj m m' \<and>
    view m' obj = Some (val_Set xs)"
proof -
  have "read_bytes m' (ExtPtr xs) 0 (min (length xs) 512) = Some (take 512 xs)" for m'
    by (auto simp: read_bytes_def min_def)
  from Set_spec [OF assms, of "ExtPtr xs" "length xs" "take 512 xs"] this
  obtain m' where "Set obj (ExtPtr xs) (length xs) m = Some (True, m')" "good m'"
      "same_others obj m m'" "view m' obj = Some (val_Set (take 512 xs))"
    by auto
  then show ?thesis by (simp add: val_Set_def)
qed

lemma Blackout_refines:
  assumes "good m" and b: "objs m obj = Some b"
  shows "\<exists>m'. Blackout obj m = Some m' \<and> good m' \<and> same_others obj m m' \<and>
    view m' obj = Some val_Blackout"
proof -
  obtain m1 b1 m2 where pro:
    "(if m_copy_on_write b then CleanupMemory obj m else Some m) = Some m1"
    "objs m1 obj = Some b1" "(if m_data b1 = None then Init obj m1 else Some m1) = Some m2"
    "ready obj m2" "same_others obj m m2"
    using prologue_spec [OF assms] .
  from pro(4) obtain b2 where b2: "objs m2 obj = Some b2" by (auto simp: ready_def)
  have z: "0 + length (replicate 512 (0 :: u8)) \<le> 512" by simp
  obtain blk m3 where w: "write_bytes (m_data b2) 0 (replicate 512 0) m2 = Some m3"
    "good (put obj (b2\<lparr>m_length := 512\<rparr>) m3)" "same_others obj m2 (put obj (b2\<lparr>m_length := 512\<rparr>) m3)"
    "view (put obj (b2\<lparr>m_length := 512\<rparr>) m3) obj =
       Some (Some (take 512 (memcpy_at blk 0 (replicate 512 0))))"
    using write_ready [OF pro(4) b2 z order_refl] by blast
  have "Blackout obj m = Some (put obj (b2\<lparr>m_length := 512\<rparr>) m3)"
    unfolding Blackout_def using b pro(1-3) b2 w(1) by simp
  with w pro(5) show ?thesis
    by (auto simp: val_Blackout_def memcpy_at_def intro: same_others_trans)
qed

lemma Reset_refines:
  assumes g: "good m" and b: "objs m obj = Some b"
  shows "\<exists>m'. Reset obj m = Some m' \<and> good m' \<and> same_others obj m m' \<and>
    view m' obj = Some (val_Reset (value_of m b))"
proof (cases "m_data b")
  case None
  with b have "Reset obj m = Some m" "value_of m b = None" by (simp_all add: Reset_def value_of_def)
  with g b show ?thesis by (simp add: view_def)
next
  case (Some d)
  let ?m = "put obj (b\<lparr>m_length := 0\<rparr>) m"
  have "good ?m"
    by (rule good_put_same [OF g b]) (use good_cow [OF g b] in auto)
  moreover have "same_others obj m ?m" by (simp add: same_others_def view_def)
  moreover have "Reset obj m = Some ?m" using b Some by (simp add: Reset_def)
  moreover have "view ?m obj = Some (val_Reset (value_of m b))"
    using Some by (simp add: view_def value_of_def)
  ultimately show ?thesis by blast
qed

section \<open>The operations that write a range\<close>

lemma write_range_refines:
  assumes g: "good m" and b: "objs m obj = Some b"
    and fill: "\<And>m. fill m (min len (512 - offset)) = Some (take (512 - offset) xs)"
    and len: "len = length xs"
  shows "\<exists>r m'. write_range obj offset len fill m = Some (r, m') \<and> good m' \<and> same_others obj m m' \<and>
    (r, view m' obj) = map_prod id Some (val_write offset xs (value_of m b))"
proof (cases "offset \<ge> 512")
  case True
  with g b show ?thesis by (auto simp: write_range_def val_write_def view_def)
next
  case False
  obtain m1 b1 d1 where m1: "(if m_data b = None then Blackout obj m else Some m) = Some m1"
    "good m1" "same_others obj m m1" "objs m1 obj = Some b1" "m_data b1 = Some d1"
    "value_of m1 b1 = Some (val_start (value_of m b))"
  proof (cases "m_data b")
    case None
    then have v: "value_of m b = None" by (simp add: value_of_def)
    from Blackout_refines [OF g b] obtain m1 where "Blackout obj m = Some m1" "good m1"
      "same_others obj m m1" "view m1 obj = Some val_Blackout" by blast
    with None v that show thesis
      by (auto simp: view_def val_Blackout_def val_start_def value_of_def split: option.splits)
  next
    case (Some d)
    then obtain ys where "value_of m b = Some ys" by (simp add: value_of_def)
    with Some g b that show thesis by (auto simp: val_start_def)
  qed
  let ?start = "val_start (value_of m b)"
  from m1 obtain blk1 where "data_cells m1 d1 = Some blk1" "length blk1 = 512" "m_length b1 \<le> 512"
    by (blast elim: good_live)
  then have "value_of m1 b1 = Some (take (m_length b1) blk1)" "length (take (m_length b1) blk1) = m_length b1"
    using m1(5) by (simp_all add: value_of_def)
  with m1(6) have len1: "length ?start = m_length b1" by simp
  show ?thesis
  proof (cases "offset > m_length b1")
    case True
    with False m1 b len1 show ?thesis
      by (auto simp: write_range_def val_write_def view_def)
  next
    case le: False
    obtain m2 b2 where m2: "DuplicateIfNeeded obj m1 = Some m2" "ready obj m2" "same_others obj m1 m2"
      "objs m2 obj = Some b2" "m_length b2 = m_length b1" "value_of m2 b2 = value_of m1 b1"
      using DuplicateIfNeeded_spec [OF m1(2,4,5)] .
    let ?c = "min len (512 - offset)"
    let ?n = "max (m_length b2) (offset + ?c)"
    let ?xs = "take (512 - offset) xs"
    have c: "length ?xs = ?c" using len by simp
    have n: "offset + length ?xs \<le> 512" "?n \<le> 512"
      using False c \<open>m_length b1 \<le> 512\<close> m2(5) by auto
    obtain blk m3 where m3: "write_bytes (m_data b2) offset ?xs m2 = Some m3"
      "good (put obj (b2\<lparr>m_length := ?n\<rparr>) m3)" "same_others obj m2 (put obj (b2\<lparr>m_length := ?n\<rparr>) m3)"
      "view (put obj (b2\<lparr>m_length := ?n\<rparr>) m3) obj = Some (Some (take ?n (memcpy_at blk offset ?xs)))"
      "length blk = 512" "value_of m2 b2 = Some (take (m_length b2) blk)"
      using write_ready [OF m2(2,4) n] .
    have "take ?n (memcpy_at blk offset ?xs) = memcpy_at (take (m_length b2) blk) offset ?xs"
      unfolding c [symmetric]
      by (rule take_memcpy_at) (use le m2(5) m3(5) n \<open>m_length b1 \<le> 512\<close> in auto)
    moreover have "take (m_length b2) blk = ?start" using m3(6) m2(6) m1(6) by simp
    ultimately have v: "view (put obj (b2\<lparr>m_length := ?n\<rparr>) m3) obj = Some (Some (memcpy_at ?start offset ?xs))"
      using m3(4) by simp
    have "write_range obj offset len fill m = Some (True, put obj (b2\<lparr>m_length := ?n\<rparr>) m3)"
      unfolding write_range_def using False le b m1(1,4) m2(1,4) m3(1) fill
      by (simp add: Let_def)
    moreover have "same_others obj m (put obj (b2\<lparr>m_length := ?n\<rparr>) m3)"
      using m1(3) m2(3) m3(3) by (blast intro: same_others_trans)
    moreover have "val_write offset xs (value_of m b) = (True, Some (memcpy_at ?start offset ?xs))"
      using False le len1 by (simp add: val_write_def)
    ultimately show ?thesis using m3(2) v by auto
  qed
qed

section \<open>Merging another buffer\<close>

lemma htp_loop_spec:
  assumes "data_cells m d = Some blk" and "data_cells m d' = Some oblk" and "d' \<noteq> d"
    and "n \<le> length blk" and "n \<le> length oblk" and "k \<le> n"
  shows "htp_loop (Some d) (Some d') [k..<n] m = Some (m\<lparr>data_cells := (data_cells m)
    (d \<mapsto> memcpy_at blk k (map (\<lambda>i. max (blk ! i) (oblk ! i)) [k..<n]))\<rparr>)"
  using assms
proof (induction "n - k" arbitrary: k m blk)
  case 0
  then show ?case by (simp add: fun_upd_idem)
next
  case (Suc j)
  then have k: "k < n" by simp
  let ?x = "max (blk ! k) (oblk ! k)"
  let ?blk = "blk[k := ?x]"
  let ?m = "m\<lparr>data_cells := (data_cells m)(d \<mapsto> ?blk)\<rparr>"
  have step: "htp_loop (Some d) (Some d') [k..<n] m = htp_loop (Some d) (Some d') [Suc k..<n] ?m"
    using Suc.prems k by (simp add: upt_conv_Cons read_bytes_def write_bytes_def heap_ptr_def
        hd_drop_conv_nth memcpy_at_one)
  have "htp_loop (Some d) (Some d') [Suc k..<n] ?m = Some (?m\<lparr>data_cells := (data_cells ?m)
      (d \<mapsto> memcpy_at ?blk (Suc k) (map (\<lambda>i. max (?blk ! i) (oblk ! i)) [Suc k..<n]))\<rparr>)"
    using Suc.prems Suc.hyps(2) k by (intro Suc.hyps(1)) simp_all
  moreover have "map (\<lambda>i. max (?blk ! i) (oblk ! i)) [Suc k..<n] = map (\<lambda>i. max (blk ! i) (oblk ! i)) [Suc k..<n]"
    by simp
  ultimately show ?case
    using step Suc.prems k by (simp add: memcpy_at_Cons upt_conv_Cons)
qed

lemma htp_loop_self:
  assumes "data_cells m d = Some blk" and "n \<le> length blk" and "k \<le> n"
  shows "htp_loop (Some d) (Some d) [k..<n] m = Some m"
  using assms
proof (induction "n - k" arbitrary: k)
  case (Suc j)
  then have k: "k < n" by simp
  have "memcpy_at blk k [blk ! k] = blk"
    using Suc.prems k by (simp add: memcpy_at_one)
  then have "htp_loop (Some d) (Some d) [k..<n] m = htp_loop (Some d) (Some d) [Suc k..<n] m"
    using Suc.prems k
    by (simp add: upt_conv_Cons read_bytes_def write_bytes_def heap_ptr_def hd_drop_conv_nth fun_upd_idem)
  with Suc.hyps(1) [of "Suc k"] Suc.hyps(2) Suc.prems k show ?case by simp
qed simp

text \<open>What the loop and the copy of the longer buffer's tail leave in the block.\<close>

lemma merged_block:
  assumes "length blk = 512" and "length oblk = 512" and "n \<le> 512" and "on \<le> 512"
  defines "blk1 \<equiv> memcpy_at blk 0 (map (\<lambda>i. max (blk ! i) (oblk ! i)) [0..<min n on])"
  shows "on \<le> n \<Longrightarrow> take n blk1 = htp (take n blk) (take on oblk)"
    and "n < on \<Longrightarrow> take on (memcpy_at blk1 n (drop n (take on oblk))) = htp (take n blk) (take on oblk)"
proof -
  have len: "length blk1 = 512" using assms by (simp add: blk1_def)
  have nth: "blk1 ! i = (if i < min n on then max (blk ! i) (oblk ! i) else blk ! i)" if "i < 512" for i
    using that assms by (simp add: blk1_def nth_memcpy_at)
  show "take n blk1 = htp (take n blk) (take on oblk)" if "on \<le> n"
    by (rule nth_equalityI) (use that assms(1-4) len in \<open>auto simp: nth nth_htp\<close>)
  show "take on (memcpy_at blk1 n (drop n (take on oblk))) = htp (take n blk) (take on oblk)" if "n < on"
    by (rule nth_equalityI) (use that assms(1-4) len in \<open>auto simp: nth nth_htp nth_memcpy_at\<close>)
qed

lemma put_same: "objs m obj = Some b \<Longrightarrow> put obj b m = m"
  by (simp add: put_def fun_upd_idem)

text \<open>The step before the loop: an initialised buffer with a block of its own.\<close>

lemma merge_prologue:
  assumes g: "good m" and b: "objs m obj = Some b"
  obtains m1 m2 b2 d2 blk where
    "(if m_data b = None then Init obj m else Some m) = Some m1" "DuplicateIfNeeded obj m1 = Some m2"
    "good m2" "same_others obj m m2" "objs m2 obj = Some b2" "m_data b2 = Some d2" "owns m2 obj d2"
    "data_cells m2 d2 = Some blk" "length blk = 512" "m_length b2 \<le> 512"
    "take (m_length b2) blk = slots (value_of m b)"
proof -
  obtain m1 b1 d1 where m1: "(if m_data b = None then Init obj m else Some m) = Some m1"
    "good m1" "same_others obj m m1" "objs m1 obj = Some b1" "m_data b1 = Some d1"
    "slots (value_of m1 b1) = slots (value_of m b)"
  proof (cases "m_data b")
    case None
    let ?m = "attach_new obj (m_copy_on_write b) 0 (map (junk m (brk m)) [0..<512]) m"
    have "length (map (junk m (brk m)) [0..<512]) = 512" by simp
    note new = good_attach_new [OF g b None this le0, where cow = "m_copy_on_write b"]
    have "slots (value_of m b) = []" using None by (simp add: value_of_def)
    with new None that [of ?m] Init_eq [OF b] show thesis
      by (simp add: attach_new_sel value_of_def)
  qed (use that g b in auto)
  obtain m2 b2 where m2: "DuplicateIfNeeded obj m1 = Some m2" "ready obj m2" "same_others obj m1 m2"
    "objs m2 obj = Some b2" "m_length b2 = m_length b1" "value_of m2 b2 = value_of m1 b1"
    using DuplicateIfNeeded_spec [OF m1(2,4,5)] .
  from m2(2,4) obtain d2 where d2: "m_data b2 = Some d2" "owns m2 obj d2" "good m2"
    by (auto simp: ready_def)
  from d2(3) m2(4) d2(1) obtain blk where "data_cells m2 d2 = Some blk" "length blk = 512" "m_length b2 \<le> 512"
    by (elim good_live)
  moreover from this d2(1) have "value_of m2 b2 = Some (take (m_length b2) blk)"
    by (simp add: value_of_def)
  with m2(6) m1(6) have "take (m_length b2) blk = slots (value_of m b)" by (metis slots_simps(2))
  ultimately show thesis
    using that [OF m1(1) m2(1) d2(3) _ m2(4) d2(1,2)] same_others_trans [OF m1(3) m2(3)] by blast
qed

lemma HTPMerge_refines:
  assumes g: "good m" and b: "objs m obj = Some b" and ob: "objs m oth = Some ob"
  shows "\<exists>m'. HTPMerge obj oth m = Some m' \<and> good m' \<and> same_others obj m m' \<and>
    view m' obj = Some (val_HTPMerge (value_of m b) (value_of m ob))"
proof -
  obtain m1 m2 b2 d2 blk where m1: "(if m_data b = None then Init obj m else Some m) = Some m1"
    and m2: "DuplicateIfNeeded obj m1 = Some m2"
    and g2: "good m2" and oth2: "same_others obj m m2" and b2: "objs m2 obj = Some b2"
    and d2: "m_data b2 = Some d2" and own: "owns m2 obj d2"
    and blk: "data_cells m2 d2 = Some blk" "length blk = 512" and n: "m_length b2 \<le> 512"
    and v: "take (m_length b2) blk = slots (value_of m b)"
    using merge_prologue [OF g b] .
  have v2: "view m2 obj = Some (Some (slots (value_of m b)))"
    using b2 d2 blk v by (simp add: view_def value_of_def)
  have unfold: "HTPMerge obj oth m = (do {
       ob \<leftarrow> objs m2 oth;
       m \<leftarrow> htp_loop (m_data b2) (m_data ob) [0..<min (m_length b2) (m_length ob)] m2;
       if min 512 (m_length ob) > m_length b2 then do {
         xs \<leftarrow> read_bytes m (heap_ptr (m_data ob)) (min (m_length b2) (m_length ob))
           (min 512 (m_length ob) - min (m_length b2) (m_length ob));
         m \<leftarrow> write_bytes (m_data b2) (min (m_length b2) (m_length ob)) xs m;
         Some (put obj (b2\<lparr>m_length := min 512 (m_length ob)\<rparr>) m)
       } else Some m })"
    unfolding HTPMerge_def using b m1 m2 b2 by (simp add: Let_def)
  show ?thesis
  proof (cases "oth = obj")
    case True
    have "HTPMerge obj oth m = Some m2"
      unfolding unfold using True b2 d2 htp_loop_self [OF blk(1), of "m_length b2" 0] blk n by simp
    with g2 oth2 v2 True b ob show ?thesis by (simp add: val_HTPMerge_def)
  next
    case False
    with oth2 ob have o2: "objs m2 oth = Some ob" and "view m2 oth = view m oth"
      by (simp_all add: same_others_def)
    then have ov: "value_of m2 ob = value_of m ob" using ob by (simp add: view_def)
    show ?thesis
    proof (cases "m_data ob")
      case None
      with good_null [OF g ob] have "HTPMerge obj oth m = Some m2"
        unfolding unfold by (simp add: o2)
      moreover have "slots (value_of m ob) = []" using None by (simp add: value_of_def)
      ultimately show ?thesis using g2 oth2 v2 by (simp add: val_HTPMerge_def)
    next
      case (Some d')
      with g2 o2 obtain oblk where oblk: "data_cells m2 d' = Some oblk" "length oblk = 512" "m_length ob \<le> 512"
        by (elim good_live)
      have ne: "d' \<noteq> d2" using sharersI [OF o2 Some] own False by (auto simp: owns_def)
      let ?n = "m_length b2" and ?on = "m_length ob"
      let ?blk1 = "memcpy_at blk 0 (map (\<lambda>i. max (blk ! i) (oblk ! i)) [0..<min ?n ?on])"
      let ?m3 = "m2\<lparr>data_cells := (data_cells m2)(d2 \<mapsto> ?blk1)\<rparr>"
      have loop: "htp_loop (m_data b2) (m_data ob) [0..<min ?n ?on] m2 = Some ?m3"
        unfolding d2 Some using htp_loop_spec [OF blk(1) oblk(1) ne, of "min ?n ?on" 0] blk oblk by simp
      have ovs: "take ?on oblk = slots (value_of m ob)"
        using ov [symmetric] Some oblk by (simp add: value_of_def)
      note mb = merged_block [OF blk(2) oblk(2) n oblk(3), unfolded v ovs]
      have len1: "length ?blk1 = 512" using blk(2) n by simp
      show ?thesis
      proof (cases "?on > ?n")
        case True
        let ?xs = "drop ?n (take ?on oblk)"
        have xs: "read_bytes ?m3 (heap_ptr (m_data ob)) ?n (?on - ?n) = Some ?xs"
          using True Some oblk ne by (simp add: read_bytes_def heap_ptr_def drop_take)
        let ?blk2 = "memcpy_at ?blk1 ?n ?xs"
        have len2: "length ?blk2 = 512" using True len1 oblk by simp
        have "write_bytes (m_data b2) ?n ?xs ?m3 = Some (m2\<lparr>data_cells := (data_cells m2)(d2 \<mapsto> ?blk2)\<rparr>)"
          using d2 len1 oblk True by (simp add: write_bytes_def)
        then have "HTPMerge obj oth m = Some (put obj (b2\<lparr>m_length := ?on\<rparr>)
            (m2\<lparr>data_cells := (data_cells m2)(d2 \<mapsto> ?blk2)\<rparr>))"
          unfolding unfold using o2 loop xs True oblk by (simp add: min_def)
        moreover note good_write_block [OF g2 b2 d2 len2 oblk(3) own]
        ultimately show ?thesis
          using mb(2) [OF True] same_others_trans [OF oth2] by (auto simp: val_HTPMerge_def ovs)
      next
        case le: False
        have "HTPMerge obj oth m = Some (put obj (b2\<lparr>m_length := ?n\<rparr>) ?m3)"
          unfolding unfold using o2 loop le b2 by (simp add: put_same)
        moreover note good_write_block [OF g2 b2 d2 len1 n own]
        ultimately show ?thesis
          using mb(1) le same_others_trans [OF oth2] by (auto simp: val_HTPMerge_def)
      qed
    qed
  qed
qed

section \<open>The operations as instances of the contract\<close>

lemma value_pair: "objs m obj = Some b \<Longrightarrow> view m obj = Some (value_of m b)"
  by (rule view_simps)

interpretation set_bytes: buffer_update
  "\<lambda>obj m. map_option snd (Set obj (ExtPtr xs) (length xs) m)" "\<lambda>_. val_Set xs" for xs
  by unfold_locales (use Set_bytes_refines in fastforce)

interpretation blackout: buffer_update Blackout "\<lambda>_. val_Blackout"
  by unfold_locales (rule Blackout_refines)

interpretation reset: buffer_update Reset val_Reset
  by unfold_locales (rule Reset_refines)

interpretation set_range: buffer_update
  "\<lambda>obj m. map_option snd (SetRange obj off (ExtPtr xs) (length xs) m)" "val_SetRange off xs" for off xs
proof unfold_locales
  fix m obj b assume g: "good m" and b: "objs m obj = Some b"
  have "read_bytes m (ExtPtr xs) 0 (min (length xs) (512 - off)) = Some (take (512 - off) xs)" for m
    by (auto simp: read_bytes_def min_def)
  from write_range_refines [OF g b, of "\<lambda>m n. read_bytes m (ExtPtr xs) 0 n", OF this refl]
  show "\<exists>m'. map_option snd (SetRange obj off (ExtPtr xs) (length xs) m) = Some m' \<and> good m' \<and>
      same_others obj m m' \<and> view m' obj = Some (val_SetRange off xs (value_of m b))"
    by (auto simp: SetRange_def val_SetRange_def map_prod_def split: prod.splits)
qed

interpretation set_range_to_value: buffer_update
  "\<lambda>obj m. map_option snd (SetRangeToValue obj off v n m)" "val_SetRangeToValue off v n" for off v n
proof unfold_locales
  fix m obj b assume g: "good m" and b: "objs m obj = Some b"
  show "\<exists>m'. map_option snd (SetRangeToValue obj off v n m) = Some m' \<and> good m' \<and>
      same_others obj m m' \<and> view m' obj = Some (val_SetRangeToValue off v n (value_of m b))"
    using write_range_refines [OF g b, of "\<lambda>m n. Some (replicate n v)" n off "replicate n v"]
    by (auto simp: SetRangeToValue_def val_SetRangeToValue_def min.commute map_prod_def split: prod.splits)
qed

interpretation set_channel: buffer_update "\<lambda>obj. SetChannel obj c v" "val_SetChannel c v" for c v
proof unfold_locales
  fix m obj b assume g: "good m" and b: "objs m obj = Some b"
  show "\<exists>m'. SetChannel obj c v m = Some m' \<and> good m' \<and>
      same_others obj m m' \<and> view m' obj = Some (val_SetChannel c v (value_of m b))"
  proof (cases "c < 512")
    case True
    then show ?thesis
      using write_range_refines [OF g b, of "\<lambda>m n. Some [v]" 1 c "[v]"]
      by (auto simp: SetChannel_def val_SetChannel_def map_prod_def split: prod.splits)
  next
    case False
    with g b show ?thesis
      by (simp add: SetChannel_def write_range_def val_SetChannel_def val_write_def value_pair)
  qed
qed

section \<open>Lifetime and assignment\<close>

lemma good_new_obj:
  assumes g: "good m" and fresh: "objs m obj = None" and few: "card (dom (objs m)) + 1 < 2 ^ 32"
  shows "good (put obj no_data m)" and "view (put obj no_data m) = (view m)(obj \<mapsto> None)"
    and "dom (objs (put obj no_data m)) = insert obj (dom (objs m))"
proof -
  let ?m = "put obj no_data m"
  have sh: "sharers ?m d = sharers m d" for d
    using fresh by (auto simp: no_data_def sharers_def)
  have "buf_ok ?m b = buf_ok m b" "buf_ok ?m no_data" for b
    by (simp_all add: buf_ok_def no_data_def split: option.split)
  then have "bufs_ok ?m" using good_buf [OF g] by (auto simp: bufs_ok_def split: if_splits)
  moreover have "flags_ok ?m"
    unfolding flags_ok_def sh using good_cow [OF g] by (auto simp: no_data_def split: if_splits)
  moreover have "few_objs ?m"
    using good_few [OF g] fresh few by (simp add: few_objs_def dom_def [symmetric] card_insert_if)
  moreover have "counts_ok ?m"
    unfolding counts_ok_def sh put_sel using good_count [OF g] by blast
  moreover have "cells_ok ?m" using g by (simp add: good_def cells_ok_def)
  ultimately show "good ?m" by (simp add: good_def)
  show "view ?m = (view m)(obj \<mapsto> None)"
    by (auto simp: view_def value_of_def no_data_def fun_eq_iff)
  show "dom (objs ?m) = insert obj (dom (objs m))" by simp
qed

lemma DmxBuffer_copy_refines:
  assumes g: "good m" and fresh: "objs m obj = None" and few: "card (dom (objs m)) + 1 < 2 ^ 32"
    and ob: "objs m oth = Some ob"
  shows "\<exists>m'. DmxBuffer_copy obj oth m = Some m' \<and> good m' \<and> view m' = (view m)(obj \<mapsto> value_of m ob)"
proof -
  let ?m = "put obj no_data m"
  note new = good_new_obj [OF g fresh few]
  from fresh ob have o1: "objs ?m oth = Some ob" by auto
  show ?thesis
  proof (cases "m_data ob")
    case None
    then have "DmxBuffer_copy obj oth m = Some ?m" "value_of m ob = None"
      using o1 by (simp_all add: DmxBuffer_copy_def value_of_def)
    with new show ?thesis by simp
  next
    case (Some d)
    with new(1) o1 have "m_ref_count ob \<noteq> None" by (auto elim: good_live)
    with Some o1 have "DmxBuffer_copy obj oth m = CopyFromOther obj oth ?m"
      by (simp add: DmxBuffer_copy_def)
    with new CopyFromOther_spec [OF new(1) _ _ o1 Some, of obj no_data] show ?thesis
      by (auto simp: no_data_def)
  qed
qed

lemma assign_refines:
  assumes g: "good m" and b: "objs m obj = Some b" and ob: "objs m oth = Some ob"
  shows "\<exists>m'. assign obj oth m = Some m' \<and> good m' \<and> view m' = (view m)(obj \<mapsto> value_of m ob)"
proof (cases "obj = oth")
  case True
  with g b ob show ?thesis
    by (auto simp: assign_def view_def fun_eq_iff)
next
  case False
  obtain m1 where m1: "CleanupMemory obj m = Some m1" "good m1" "same_others obj m m1"
      "objs m1 obj = Some (b\<lparr>m_data := None, m_ref_count := None, m_length := 0\<rparr>)"
    using CleanupMemory_spec [OF g b] .
  have o1: "objs m1 oth = Some ob" and v: "value_of m1 ob = value_of m ob"
    using m1(3) False ob by (auto simp: same_others_def view_def)
  have v1: "view m1 = (view m)(obj \<mapsto> None)"
    using m1(3,4) by (intro view_update) (simp_all add: view_def value_of_def)
  show ?thesis
  proof (cases "m_data ob")
    case None
    then have "value_of m ob = None" by (simp add: value_of_def)
    with None False m1 o1 v1 show ?thesis by (simp add: assign_def)
  next
    case (Some d)
    have null: "m_data (b\<lparr>m_data := None, m_ref_count := None, m_length := 0\<rparr>) = None" by simp
    obtain m2 where "CopyFromOther obj oth m1 = Some m2" "good m2"
      "view m2 = (view m1)(obj \<mapsto> value_of m1 ob)" "dom (objs m2) = dom (objs m1)"
      using CopyFromOther_spec [OF m1(2,4) null o1 Some] .
    with Some False m1 o1 v v1 show ?thesis by (simp add: assign_def)
  qed
qed

lemma DmxBuffer_destroy_refines:
  assumes g: "good m" and b: "objs m obj = Some b"
  shows "\<exists>m'. DmxBuffer_destroy obj m = Some m' \<and> good m' \<and> view m' = (view m)(obj := None)"
proof -
  obtain m1 where m1: "CleanupMemory obj m = Some m1" "good m1" "same_others obj m m1"
      "objs m1 obj = Some (b\<lparr>m_data := None, m_ref_count := None, m_length := 0\<rparr>)"
    using CleanupMemory_spec [OF g b] .
  let ?m = "m1\<lparr>objs := (objs m1)(obj := None)\<rparr>"
  have sh: "sharers ?m d = sharers m1 d" for d
    using m1(4) by (auto simp: sharers_def)
  have "buf_ok ?m b = buf_ok m1 b" for b
    by (simp add: buf_ok_def split: option.split)
  then have "bufs_ok ?m" using good_buf [OF m1(2)] by (auto simp: bufs_ok_def split: if_splits)
  moreover have "flags_ok ?m"
    unfolding flags_ok_def sh using good_cow [OF m1(2)] by auto
  moreover have "card (dom (objs m1) - {obj}) \<le> card (dom (objs m1))" by (rule card_Diff1_le)
  then have "few_objs ?m"
    using good_few [OF m1(2)] by (auto simp: few_objs_def)
  ultimately have "good ?m"
    using m1(2) by (simp add: good_def counts_ok_def cells_ok_def sh)
  moreover have "view ?m = (view m)(obj := None)"
    using m1(3) by (auto simp: same_others_def view_def fun_eq_iff)
  ultimately show ?thesis using m1(1) by (simp add: DmxBuffer_destroy_def)
qed

end
