(* ===== verification/Dmx_Programs.thy ===== *)
theory Dmx_Programs
  imports Dmx_Refine
begin

text \<open>
  Client programs over \<open>DmxBuffer\<close> objects: arbitrary sequences of constructor calls, copies,
  assignments, writes, merges and destructor calls. The properties of this theory say that such a
  program never reads freed or foreign memory, that it computes the values the value-level program
  computes, and that it frees every block once its objects are gone. They also record two calls
  that the class does not protect against.
\<close>

section \<open>Programs\<close>

datatype dmx_op =
    New nat
  | NewCopy nat nat
  | NewData nat bytes
  | Delete nat
  | Assign nat nat
  | SetBytes nat bytes
  | SetBuffer nat nat
  | SetRangeOf nat nat bytes
  | SetRangeTo nat nat u8 nat
  | SetChan nat nat u8
  | Merge nat nat
  | BlackoutOf nat
  | ResetOf nat

fun run_op :: "dmx_op \<Rightarrow> memory \<Rightarrow> memory option" where
  "run_op (New x) m = Some (DmxBuffer x m)"
| "run_op (NewCopy x y) m = DmxBuffer_copy x y m"
| "run_op (NewData x xs) m = DmxBuffer_data x (ExtPtr xs) (length xs) m"
| "run_op (Delete x) m = DmxBuffer_destroy x m"
| "run_op (Assign x y) m = assign x y m"
| "run_op (SetBytes x xs) m = map_option snd (Set x (ExtPtr xs) (length xs) m)"
| "run_op (SetBuffer x y) m = map_option snd (Set_other x y m)"
| "run_op (SetRangeOf x off xs) m = map_option snd (SetRange x off (ExtPtr xs) (length xs) m)"
| "run_op (SetRangeTo x off v n) m = map_option snd (SetRangeToValue x off v n m)"
| "run_op (SetChan x c v) m = SetChannel x c v m"
| "run_op (Merge x y) m = HTPMerge x y m"
| "run_op (BlackoutOf x) m = Blackout x m"
| "run_op (ResetOf x) m = Reset x m"

fun run_ops :: "dmx_op list \<Rightarrow> memory \<Rightarrow> memory option" where
  "run_ops [] m = Some m"
| "run_ops (a # as) m = do { m \<leftarrow> run_op a m; run_ops as m }"

text \<open>The same program over plain values: every object holds its own value.\<close>

type_synonym store = "nat \<Rightarrow> dmx option"

fun val_op :: "dmx_op \<Rightarrow> store \<Rightarrow> store" where
  "val_op (New x) s = s(x \<mapsto> None)"
| "val_op (NewCopy x y) s = s(x := s y)"
| "val_op (NewData x xs) s = s(x \<mapsto> val_Set xs)"
| "val_op (Delete x) s = s(x := None)"
| "val_op (Assign x y) s = s(x := s y)"
| "val_op (SetBytes x xs) s = s(x \<mapsto> val_Set xs)"
| "val_op (SetBuffer x y) s = (case s y of Some (Some xs) \<Rightarrow> s(x \<mapsto> val_Set xs) | _ \<Rightarrow> s)"
| "val_op (SetRangeOf x off xs) s = s(x := map_option (val_SetRange off xs) (s x))"
| "val_op (SetRangeTo x off v n) s = s(x := map_option (val_SetRangeToValue off v n) (s x))"
| "val_op (SetChan x c v) s = s(x := map_option (val_SetChannel c v) (s x))"
| "val_op (Merge x y) s = (case (s x, s y) of (Some v, Some w) \<Rightarrow> s(x \<mapsto> val_HTPMerge v w) | _ \<Rightarrow> s)"
| "val_op (BlackoutOf x) s = s(x \<mapsto> val_Blackout)"
| "val_op (ResetOf x) s = s(x := map_option val_Reset (s x))"

definition val_ops :: "dmx_op list \<Rightarrow> store \<Rightarrow> store" where
  "val_ops as s = fold val_op as s"

text \<open>A program is well formed if it creates objects under unused names, uses and destroys only
  live objects, and never passes an object to its own \<open>Set\<close> (see \<open>set_self_use_after_free\<close>).\<close>

fun op_ok :: "nat set \<Rightarrow> dmx_op \<Rightarrow> bool" where
  "op_ok live (New x) = (x \<notin> live)"
| "op_ok live (NewCopy x y) = (x \<notin> live \<and> y \<in> live)"
| "op_ok live (NewData x xs) = (x \<notin> live)"
| "op_ok live (Delete x) = (x \<in> live)"
| "op_ok live (Assign x y) = (x \<in> live \<and> y \<in> live)"
| "op_ok live (SetBytes x xs) = (x \<in> live)"
| "op_ok live (SetBuffer x y) = (x \<in> live \<and> y \<in> live \<and> x \<noteq> y)"
| "op_ok live (SetRangeOf x off xs) = (x \<in> live)"
| "op_ok live (SetRangeTo x off v n) = (x \<in> live)"
| "op_ok live (SetChan x c v) = (x \<in> live)"
| "op_ok live (Merge x y) = (x \<in> live \<and> y \<in> live)"
| "op_ok live (BlackoutOf x) = (x \<in> live)"
| "op_ok live (ResetOf x) = (x \<in> live)"

fun live_after :: "nat set \<Rightarrow> dmx_op \<Rightarrow> nat set" where
  "live_after live (New x) = insert x live"
| "live_after live (NewCopy x y) = insert x live"
| "live_after live (NewData x xs) = insert x live"
| "live_after live (Delete x) = live - {x}"
| "live_after live _ = live"

fun ops_ok :: "nat set \<Rightarrow> dmx_op list \<Rightarrow> bool" where
  "ops_ok live [] = True"
| "ops_ok live (a # as) = (op_ok live a \<and> ops_ok (live_after live a) as)"

definition init_memory :: "(addr \<Rightarrow> nat \<Rightarrow> u8) \<Rightarrow> memory" where
  "init_memory j = \<lparr>objs = Map.empty, ref_cells = Map.empty, data_cells = Map.empty, brk = 0, junk = j\<rparr>"

section \<open>Every operation is defined and refines its value-level counterpart\<close>

lemma dom_view [simp]: "dom (view m) = dom (objs m)"
  by (auto simp: view_def dom_def)

lemma view_live: "obj \<in> dom (view m) \<Longrightarrow> \<exists>b. objs m obj = Some b \<and> view m obj = Some (value_of m b)"
  by (auto simp: view_def)

lemma Set_other_refines:
  assumes g: "good m" and b: "objs m obj = Some b" and ob: "objs m oth = Some ob" and ne: "obj \<noteq> oth"
  shows "\<exists>r m'. Set_other obj oth m = Some (r, m') \<and> good m' \<and>
    view m' = (case value_of m ob of None \<Rightarrow> view m | Some xs \<Rightarrow> (view m)(obj \<mapsto> val_Set xs))"
proof (cases "m_data ob")
  case None
  then show ?thesis
    using g ob by (auto simp: Set_other_def Set_def heap_ptr_def value_of_def)
next
  case (Some d)
  with g ob obtain blk where len: "m_length ob \<le> 512" by (elim good_live)
  obtain xs where v: "value_of m ob = Some xs" using Some by (simp add: value_of_def)
  have rd: "read_bytes m' (heap_ptr (m_data ob)) 0 (min (m_length ob) 512) = Some xs"
    if "same_others obj m m'" "good m'" for m'
  proof -
    from that(1) ob ne have "objs m' oth = Some ob" "value_of m' ob = value_of m ob"
      by (auto simp: same_others_def view_def)
    moreover have "take (m_length ob) xs = xs" using Some v by (auto simp: value_of_def)
    ultimately show ?thesis using read_own [OF that(2)] len v by (simp add: min_def)
  qed
  have nn: "heap_ptr (m_data ob) \<noteq> NullPtr" using Some by (simp add: heap_ptr_def)
  obtain m' where "Set obj (heap_ptr (m_data ob)) (m_length ob) m = Some (True, m')" "good m'"
    "same_others obj m m'" "view m' obj = Some (val_Set xs)"
    using Set_spec [OF g b nn rd] .
  with view_update [OF this(3,4)] ob show ?thesis by (auto simp: Set_other_def v)
qed

lemma DmxBuffer_data_refines:
  assumes g: "good m" and fresh: "objs m obj = None" and few: "card (dom (objs m)) + 1 < 2 ^ 32"
  shows "\<exists>m'. DmxBuffer_data obj (ExtPtr xs) (length xs) m = Some m' \<and> good m' \<and>
    view m' = (view m)(obj \<mapsto> val_Set xs)"
proof -
  note new = good_new_obj [OF g fresh few]
  have "view (put obj no_data m) obj = Some None" using new(2) by simp
  from set_bytes.simulates [OF new(1) this] show ?thesis
    using new(2) by (auto simp: DmxBuffer_data_def)
qed

text \<open>Memories that agree with a store, and one step of such a pair.\<close>

lemma run_op_refines:
  assumes g: "good m" and ok: "op_ok (dom (view m)) a" and few: "card (dom (view m)) + 1 < 2 ^ 32"
  shows "\<exists>m'. run_op a m = Some m' \<and> good m' \<and> view m' = val_op a (view m)"
proof (cases a)
  case (New x)
  with ok g few good_new_obj [of m x] show ?thesis
    by (simp add: DmxBuffer_def domIff)
next
  case (NewCopy x y)
  with ok obtain ob where "objs m x = None" "objs m y = Some ob" by (auto simp: domIff)
  with NewCopy g few DmxBuffer_copy_refines [OF g, of x y ob] show ?thesis
    by (auto simp: view_def)
next
  case (NewData x xs)
  with ok g few DmxBuffer_data_refines [of m x xs] show ?thesis by (simp add: domIff)
next
  case (Delete x)
  with ok obtain b where "objs m x = Some b" by auto
  with Delete DmxBuffer_destroy_refines [OF g] show ?thesis by auto
next
  case (Assign x y)
  with ok obtain b ob where "objs m x = Some b" "objs m y = Some ob" by auto
  with Assign g assign_refines [OF g] show ?thesis by (auto simp: view_def)
next
  case (SetBytes x xs)
  with ok obtain v where "view m x = Some v" by (auto simp del: dom_view)
  with SetBytes set_bytes.simulates [OF g] show ?thesis by auto
next
  case (SetBuffer x y)
  with ok obtain b ob where b: "objs m x = Some b" "objs m y = Some ob" "x \<noteq> y" by auto
  from Set_other_refines [OF g b] SetBuffer b show ?thesis
    by (auto simp: view_def split: option.splits)
next
  case (SetRangeOf x off xs)
  with ok obtain v where "view m x = Some v" by (auto simp del: dom_view)
  with SetRangeOf set_range.simulates [OF g] show ?thesis by auto
next
  case (SetRangeTo x off v n)
  with ok obtain w where "view m x = Some w" by (auto simp del: dom_view)
  with SetRangeTo set_range_to_value.simulates [OF g] show ?thesis by auto
next
  case (SetChan x c v)
  with ok obtain w where "view m x = Some w" by (auto simp del: dom_view)
  with SetChan set_channel.simulates [OF g] show ?thesis by auto
next
  case (Merge x y)
  with ok obtain b ob where b: "objs m x = Some b" "objs m y = Some ob" by auto
  from HTPMerge_refines [OF g b] obtain m' where "HTPMerge x y m = Some m'" "good m'"
    "view m' = (view m)(x \<mapsto> val_HTPMerge (value_of m b) (value_of m ob))"
    using view_update by blast
  with Merge b show ?thesis by (simp add: view_simps)
next
  case (BlackoutOf x)
  with ok obtain v where "view m x = Some v" by (auto simp del: dom_view)
  with BlackoutOf blackout.simulates [OF g] show ?thesis by auto
next
  case (ResetOf x)
  with ok obtain v where "view m x = Some v" by (auto simp del: dom_view)
  with ResetOf reset.simulates [OF g] show ?thesis by auto
qed

lemma dom_val_op: "op_ok (dom s) a \<Longrightarrow> dom (val_op a s) = live_after (dom s) a"
  by (cases a) (auto split: option.splits prod.splits)

lemma dom_val_ops:
  "ops_ok (dom s) as \<Longrightarrow> dom (val_ops as s) = fold (\<lambda>a live. live_after live a) as (dom s)"
  by (induction as arbitrary: s) (simp_all add: val_ops_def dom_val_op)

lemma card_live_after: "finite live \<Longrightarrow> card (live_after live a) \<le> card live + 1"
  by (cases a) (auto simp: card_insert_if card_Diff1_le le_SucI)

lemma run_ops_refines:
  assumes "good m" and "ops_ok (dom (view m)) as" and "card (dom (view m)) + length as < 2 ^ 32"
  shows "\<exists>m'. run_ops as m = Some m' \<and> good m' \<and> view m' = val_ops as (view m)"
  using assms
proof (induction as arbitrary: m)
  case Nil
  then show ?case by (simp add: val_ops_def)
next
  case (Cons a as)
  from Cons.prems have "op_ok (dom (view m)) a" "card (dom (view m)) + 1 < 2 ^ 32" by simp_all
  with Cons.prems(1) obtain m1 where m1: "run_op a m = Some m1" "good m1" "view m1 = val_op a (view m)"
    using run_op_refines by blast
  have dom: "dom (view m1) = live_after (dom (view m)) a"
    unfolding m1(3) by (rule dom_val_op) fact
  moreover have "card (live_after (dom (view m)) a) \<le> card (dom (view m)) + 1"
    by (rule card_live_after) (use good_few [OF Cons.prems(1)] in simp)
  ultimately have "card (dom (view m1)) + length as < 2 ^ 32"
    using Cons.prems(3) by simp
  moreover from dom Cons.prems(2) have "ops_ok (dom (view m1)) as" by simp
  ultimately obtain m2 where "run_ops as m1 = Some m2" "good m2" "view m2 = val_ops as (view m1)"
    using Cons.IH [OF m1(2)] by blast
  with m1 show ?case by (auto simp: val_ops_def)
qed

lemma good_init: "good (init_memory j)" and view_init [simp]: "view (init_memory j) = Map.empty"
  by (auto simp: init_memory_def good_def bufs_ok_def counts_ok_def cells_ok_def flags_ok_def
      few_objs_def view_def fun_eq_iff)

lemma good_no_objects:
  assumes "good m" and "view m = Map.empty"
  shows "data_cells m = Map.empty \<and> ref_cells m = Map.empty"
proof -
  from assms(2) have "objs m = Map.empty" by (auto simp: view_def fun_eq_iff)
  then have "sharers m d = {}" for d by (simp add: sharers_def)
  then have "ref_cells m d = None" for d
    using good_count [OF assms(1), of d] by (cases "ref_cells m d") simp_all
  then show ?thesis using good_cells [OF assms(1)] by (simp add: fun_eq_iff)
qed

section \<open>Properties\<close>

text \<open>C1: Memory safety and value semantics of \<open>DmxBuffer\<close>. Any well-formed sequence of
  constructions, copies, assignments, writes, merges and destructions runs to completion on the
  reference-counted copy-on-write storage without undefined behaviour, whatever \<open>new\<close> leaves in
  fresh blocks; the storage invariant holds at the end, and every object holds the value it would
  hold if each object had its own array.\<close>

theorem dmx_programs_refine_values:
  assumes "ops_ok {} as" and "length as < 2 ^ 32"
  shows "\<exists>m. run_ops as (init_memory j) = Some m \<and> good m \<and> view m = val_ops as Map.empty"
  using run_ops_refines [OF good_init, of j as] assms by simp

lemma dmx_programs_refine_values_witness:
  "\<exists>m. run_ops [New 0, SetBytes 0 [1, 2, 3], NewCopy 1 0, SetChan 1 0 9, Merge 0 1, Delete 1]
         (init_memory (\<lambda>_ _. 7)) = Some m \<and> good m \<and>
       view m = [0 \<mapsto> Some [9, 2, 3]]"
  using dmx_programs_refine_values
    [of "[New 0, SetBytes 0 [1, 2, 3], NewCopy 1 0, SetChan 1 0 9, Merge 0 1, Delete 1]" "\<lambda>_ _. 7"]
  by (simp add: val_ops_def val_Set_def val_SetChannel_def val_write_def val_start_def memcpy_at_def
      val_HTPMerge_def)

text \<open>No leak. When a program has destroyed all its objects, no data block and no reference
  count is left in the storage.\<close>

theorem dmx_programs_do_not_leak:
  assumes "ops_ok {} as" and "length as < 2 ^ 32" and "fold (\<lambda>a live. live_after live a) as {} = {}"
  shows "\<exists>m. run_ops as (init_memory j) = Some m \<and> data_cells m = Map.empty \<and> ref_cells m = Map.empty"
proof -
  from run_ops_refines [OF good_init, of j as] assms(1,2)
  obtain m where m: "run_ops as (init_memory j) = Some m" "good m" "view m = val_ops as Map.empty"
    by auto
  from dom_val_ops [of Map.empty as] assms m(3) have "view m = Map.empty" by simp
  with m good_no_objects show ?thesis by blast
qed

lemma dmx_programs_do_not_leak_witness:
  "\<exists>m. run_ops [NewData 0 [5], NewCopy 1 0, BlackoutOf 0, Delete 0, Delete 1] (init_memory (\<lambda>_ _. 0)) = Some m \<and>
       data_cells m = Map.empty \<and> ref_cells m = Map.empty"
  using dmx_programs_do_not_leak [of "[NewData 0 [5], NewCopy 1 0, BlackoutOf 0, Delete 0, Delete 1]"]
  by auto

text \<open>The reading operations return the buffer's value: the size, a single channel (0 past the
  end), the raw data, the data copied into an array of \<open>len\<close> bytes, and the comparison of two
  buffers.\<close>

theorem dmx_reads_value:
  assumes g: "good m" and v: "view m obj = Some v" and w: "view m oth = Some w"
  shows "Size obj m = Some (val_Size v) \<and> Get_channel obj c m = Some (val_Get v c) \<and>
    Get_string obj m = Some (slots v) \<and> Get_data obj len m = Some (take len (slots v)) \<and>
    equals obj oth m = Some (slots v = slots w)"
proof -
  from v obtain b where b: "objs m obj = Some b" "value_of m b = v" by (auto simp: view_def)
  from w obtain ob where ob: "objs m oth = Some ob" "value_of m ob = w" by (auto simp: view_def)
  have len: "length (slots (value_of m b')) = m_length b'" if "objs m x = Some b'" for x b'
  proof (cases "m_data b'")
    case None
    with good_null [OF g that] show ?thesis by (simp add: value_of_def)
  next
    case (Some d)
    with g that obtain blk where "data_cells m d = Some blk" "length blk = 512" "m_length b' \<le> 512"
      by (elim good_live)
    with Some show ?thesis by (simp add: value_of_def)
  qed
  note l = len [OF b(1), unfolded b(2)] and lo = len [OF ob(1), unfolded ob(2)]
  have "Get_channel obj c m = Some (val_Get v c)"
  proof (cases "m_data b = None \<or> \<not> c < m_length b")
    case True
    then show ?thesis
      using b good_null [OF g b(1)] l by (auto simp: Get_channel_def val_Get_def val_Size_def value_of_def)
  next
    case False
    then obtain d where d: "m_data b = Some d" and c: "c < m_length b" by auto
    from g b(1) d obtain blk where blk: "data_cells m d = Some blk" "length blk = 512" "m_length b \<le> 512"
      by (elim good_live)
    with d b(2) have "slots v = take (m_length b) blk" by (auto simp: value_of_def)
    with d c b blk l show ?thesis
      by (simp add: Get_channel_def val_Get_def val_Size_def read_bytes_def heap_ptr_def hd_drop_conv_nth)
  qed
  moreover have "Get_data obj len m = Some (take len (slots v))" for len
  proof (cases "m_data b")
    case None
    with b show ?thesis by (auto simp: Get_data_def value_of_def)
  next
    case (Some d)
    then show ?thesis
      using b read_own [OF g b(1), of "min len (m_length b)"] l
      by (simp add: Get_data_def min_def take_all)
  qed
  moreover have "equals obj oth m = Some (slots v = slots w)"
  proof (cases "m_length b = m_length ob")
    case True
    show ?thesis
    proof (cases "m_data b = m_data ob")
      case same: True
      with True b(2) ob(2) have "v = w" by (auto simp: value_of_def split: option.splits)
      with True same b ob show ?thesis by (simp add: equals_def)
    next
      case False
      with True show ?thesis
        using b ob read_own [OF g b(1) order_refl] read_own [OF g ob(1) order_refl] l lo
        by (simp add: equals_def)
    qed
  next
    case False
    with l lo have "slots v \<noteq> slots w" by auto
    with False b ob show ?thesis by (simp add: equals_def)
  qed
  moreover have "Size obj m = Some (val_Size v)" "Get_string obj m = Some (slots v)"
    using b l read_own [OF g b(1) order_refl] by (simp_all add: Size_def Get_string_def val_Size_def)
  ultimately show ?thesis by simp
qed


lemma dmx_reads_value_witness:
  "\<exists>m. run_ops [New 0, SetBytes 0 [1, 2], NewCopy 1 0] (init_memory (\<lambda>_ _. 0)) = Some m \<and>
       Get_channel 0 1 m = Some 2 \<and> equals 0 1 m = Some True"
proof -
  obtain m where m: "run_ops [New 0, SetBytes 0 [1, 2], NewCopy 1 0] (init_memory (\<lambda>_ _. 0)) = Some m"
    "good m" "view m = val_ops [New 0, SetBytes 0 [1, 2], NewCopy 1 0] Map.empty"
    using run_ops_refines [OF good_init, of "\<lambda>_ _. 0" "[New 0, SetBytes 0 [1, 2], NewCopy 1 0]"] by auto
  then have "view m 0 = Some (Some [1, 2])" "view m 1 = Some (Some [1, 2])"
    by (simp_all add: val_ops_def val_Set_def)
  from dmx_reads_value [OF m(2) this, of 1 0] m(1) show ?thesis
    by (simp add: val_Get_def val_Size_def)
qed

text \<open>\<open>GetRange\<close> is right for a start slot inside the buffer, but the subtraction
  \<open>m_length - slot\<close> wraps around for a slot past the end: the call then asks for as many bytes as
  the caller's array holds, and reads outside the 512-byte block as soon as \<open>slot + len\<close> exceeds
  it.\<close>

theorem GetRange_bounds:
  assumes g: "good m" and v: "view m obj = Some (Some xs)" and slot: "slot < 2 ^ 32"
    and len: "0 < len" "len \<le> 512" and range: "slot \<le> length xs \<or> 512 < slot + len"
  shows "GetRange obj slot len m = (if slot \<le> length xs then Some (take len (drop slot xs)) else None)"
proof -
  from v obtain b where b: "objs m obj = Some b" "value_of m b = Some xs" by (auto simp: view_def)
  then obtain d where d: "m_data b = Some d" by (auto simp: value_of_def split: option.splits)
  from g b(1) d obtain blk where blk: "data_cells m d = Some blk" "length blk = 512" "m_length b \<le> 512"
    by (elim good_live)
  with d b(2) have xs: "xs = take (m_length b) blk" by (simp add: value_of_def)
  then have n: "length xs = m_length b" using blk by simp
  show ?thesis
  proof (cases "slot \<le> length xs")
    case True
    have "take (min len (m_length b - slot)) (drop slot blk) = take len (drop slot (take (m_length b) blk))"
      by (simp add: drop_take)
    moreover have "min len (m_length b - slot) = 0 \<or> slot + min len (m_length b - slot) \<le> 512"
      using True n blk(3) by auto
    ultimately show ?thesis
      using True b d blk n by (auto simp: GetRange_def read_bytes_def heap_ptr_def xs)
  next
    case False
    with n slot have wrap: "uint_sub (m_length b) slot = m_length b + 2 ^ 32 - slot"
      by (intro uint_sub_wraps) auto
    let ?k = "min len (uint_sub (m_length b) slot)"
    have "0 < ?k" using wrap slot len by simp
    moreover have "512 < slot + ?k"
    proof (cases "slot \<le> 512")
      case True
      then have "?k = len" using wrap len by simp
      with range False show ?thesis by simp
    qed (use \<open>0 < ?k\<close> in simp)
    ultimately show ?thesis
      using False b d blk by (simp add: GetRange_def read_bytes_def heap_ptr_def)
  qed
qed

lemma GetRange_bounds_witness:
  "\<exists>m. run_ops [New 0, SetBytes 0 [1, 2, 3]] (init_memory (\<lambda>_ _. 0)) = Some m \<and>
       GetRange 0 1 2 m = Some [2, 3] \<and> GetRange 0 4 510 m = None"
proof -
  obtain m where m: "run_ops [New 0, SetBytes 0 [1, 2, 3]] (init_memory (\<lambda>_ _. 0)) = Some m"
    "good m" "view m = val_ops [New 0, SetBytes 0 [1, 2, 3]] Map.empty"
    using run_ops_refines [OF good_init, of "\<lambda>_ _. 0" "[New 0, SetBytes 0 [1, 2, 3]]"] by auto
  then have "view m 0 = Some (Some [1, 2, 3])" by (simp add: val_ops_def val_Set_def)
  note r = GetRange_bounds [OF m(2) this]
  have "GetRange 0 1 2 m = Some [2, 3]" using r [of 1 2] by simp
  moreover have "GetRange 0 4 510 m = None" using r [of 4 510] by simp
  ultimately show ?thesis using m(1) by blast
qed

text \<open>Passing a buffer to its own \<open>Set\<close> while its copy-on-write flag is set and it is the last
  owner of its block (a copy was taken and has been destroyed since) frees the block before the
  bytes are copied from it: the call reads freed memory.\<close>

theorem set_self_use_after_free:
  assumes g: "good m" and b: "objs m obj = Some b" and d: "m_data b = Some d"
    and cow: "m_copy_on_write b" and last: "sharers m d = {obj}" and len: "0 < m_length b"
  shows "Set_other obj obj m = None"
proof -
  from g b d obtain blk where live: "m_length b \<le> 512" "d < brk m"
    by (elim good_live)
  let ?rb = "b\<lparr>m_data := None, m_ref_count := None, m_length := 0\<rparr>"
  let ?m1 = "drop_ref obj ?rb d m"
  have m1: "CleanupMemory obj m = Some ?m1" by (rule CleanupMemory_eq [OF g b d])
  have b1: "objs ?m1 obj = Some ?rb" by (simp add: drop_ref_def)
  let ?m2 = "attach_new obj True 0 (map (junk ?m1 (brk ?m1)) [0..<512]) ?m1"
  have m2: "Init obj ?m1 = Some ?m2" using Init_eq [OF b1] cow by simp
  have "data_cells ?m2 d = None" using last live by (simp add: attach_new_sel drop_ref_def)
  with len live have "read_bytes ?m2 (HeapPtr d) 0 (min (m_length b) 512) = None"
    by (simp add: read_bytes_def)
  with b d cow m1 b1 m2 show ?thesis
    by (simp add: Set_other_def Set_def heap_ptr_def attach_new_sel)
qed

lemma set_self_use_after_free_witness:
  "run_ops [New 0, SetBytes 0 [1], NewCopy 1 0, Delete 1, SetBuffer 0 0] (init_memory (\<lambda>_ _. 0)) = None"
proof -
  let ?b = "\<lparr>m_ref_count = Some 0, m_copy_on_write = True, m_data = Some 0, m_length = 1\<rparr>"
  obtain m where m: "run_ops [New 0, SetBytes 0 [1], NewCopy 1 0, Delete 1] (init_memory (\<lambda>_ _. 0)) = Some m"
    "good m"
    using run_ops_refines [OF good_init, of "\<lambda>_ _. 0" "[New 0, SetBytes 0 [1], NewCopy 1 0, Delete 1]"] by auto
  then have m_eq: "objs m = [0 \<mapsto> ?b]"
    by (auto simp: init_memory_def DmxBuffer_def no_data_def Set_def Init_def read_bytes_def write_bytes_def
        DmxBuffer_copy_def CopyFromOther_def get_ref_def set_ref_def DmxBuffer_destroy_def CleanupMemory_def
        Let_def put_def fun_eq_iff split: if_splits)
  then have "sharers m 0 = {0}" by (auto simp: sharers_def)
  with set_self_use_after_free [OF m(2), of 0 ?b 0] m_eq have "Set_other 0 0 m = None" by simp
  with m(1) show ?thesis by (auto simp: bind_eq_Some_conv)
qed

end
