(* ===== verification/String_Utils.thy ===== *)
theory String_Utils
  imports OLA_Prelude
begin

text \<open>
  The string helpers of \<^verbatim>\<open>common/utils/StringUtils.cpp\<close>. A \<open>std::string\<close> is a list of characters,
  which may hold NUL characters; \<open>c_str\<close> is what the C functions see of it. An output argument
  together with a boolean result is an option. The C library's \<open>strtol\<close> family is modelled on a
  64 bit (LP64) platform: leading white space, a sign, the \<open>0x\<close> prefix for base 16, saturation at
  the limits of the type.
\<close>

section \<open>Characters and numerals\<close>

definition c_str :: "string \<Rightarrow> string" where
  "c_str s = takeWhile (\<lambda>c. c \<noteq> CHR 0x00) s"

definition c_isspace :: "char \<Rightarrow> bool" where
  "c_isspace c \<longleftrightarrow> of_char c = (32 :: nat) \<or> (9 \<le> (of_char c :: nat) \<and> (of_char c :: nat) \<le> 13)"

definition c_islower :: "char \<Rightarrow> bool" where
  "c_islower c \<longleftrightarrow> 97 \<le> (of_char c :: nat) \<and> (of_char c :: nat) \<le> 122"

definition c_isupper :: "char \<Rightarrow> bool" where
  "c_isupper c \<longleftrightarrow> 65 \<le> (of_char c :: nat) \<and> (of_char c :: nat) \<le> 90"

definition c_isdigit :: "char \<Rightarrow> bool" where
  "c_isdigit c \<longleftrightarrow> 48 \<le> (of_char c :: nat) \<and> (of_char c :: nat) \<le> 57"

definition c_ispunct :: "char \<Rightarrow> bool" where
  "c_ispunct c \<longleftrightarrow> 33 \<le> (of_char c :: nat) \<and> (of_char c :: nat) \<le> 126 \<and>
     \<not> c_islower c \<and> \<not> c_isupper c \<and> \<not> c_isdigit c"

definition c_tolower :: "char \<Rightarrow> char" where
  "c_tolower c = (if c_isupper c then char_of ((of_char c :: nat) + 32) else c)"

definition c_toupper :: "char \<Rightarrow> char" where
  "c_toupper c = (if c_islower c then char_of ((of_char c :: nat) - 32) else c)"

text \<open>The value of a digit in bases up to 36, as \<open>strtol\<close> reads it, and the (lower case) digit
  that an output stream prints.\<close>

definition digit_val :: "char \<Rightarrow> nat option" where
  "digit_val c =
     (if c_isdigit c then Some (of_char c - 48)
      else if c_isupper c then Some (of_char c - 55)
      else if c_islower c then Some (of_char c - 87)
      else None)"

definition is_digit :: "nat \<Rightarrow> char \<Rightarrow> bool" where
  "is_digit b c = (case digit_val c of None \<Rightarrow> False | Some d \<Rightarrow> d < b)"

definition digit_char :: "nat \<Rightarrow> char" where
  "digit_char d = (if d < 10 then char_of (48 + d) else char_of (87 + d))"

definition digits_val :: "nat \<Rightarrow> string \<Rightarrow> nat" where
  "digits_val b ds = foldl (\<lambda>a c. a * b + the (digit_val c)) 0 ds"

function print_base :: "nat \<Rightarrow> nat \<Rightarrow> string" where
  "print_base b n =
     (if b < 2 \<or> n < b then [digit_char n] else print_base b (n div b) @ [digit_char (n mod b)])"
  by pat_completeness auto
termination
  by (relation "measure snd") auto

declare print_base.simps [simp del]

text \<open>\<open>setfill('0') << setw(w)\<close>.\<close>

definition pad_zeros :: "nat \<Rightarrow> string \<Rightarrow> string" where
  "pad_zeros w s = replicate (w - length s) CHR ''0'' @ s"

section \<open>The C library's number parser\<close>

definition parse_sign :: "string \<Rightarrow> bool \<times> string" where
  "parse_sign s =
     (case s of [] \<Rightarrow> (False, [])
      | c # cs \<Rightarrow> if c = CHR ''-'' then (True, cs) else if c = CHR ''+'' then (False, cs) else (False, s))"

definition skip_prefix :: "nat \<Rightarrow> string \<Rightarrow> string" where
  "skip_prefix b s =
     (if b = 16 \<and> 3 \<le> length s \<and> s ! 0 = CHR ''0'' \<and> s ! 1 \<in> {CHR ''x'', CHR ''X''} \<and> is_digit 16 (s ! 2)
      then drop 2 s else s)"

text \<open>\<open>strto b s\<close> is the number at the start of the C string \<open>s\<close>, before it is fitted into the result
  type, and the string at the end pointer; without digits the end pointer is \<open>s\<close> itself.\<close>

definition strto :: "nat \<Rightarrow> string \<Rightarrow> int \<times> string" where
  "strto b s =
     (let (neg, t) = parse_sign (dropWhile c_isspace s);
          u = skip_prefix b t;
          ds = takeWhile (is_digit b) u;
          v = int (digits_val b ds)
      in if ds = [] then (0, s) else (if neg then - v else v, drop (length ds) u))"

text \<open>\<open>strtoll\<close>: the value, the string at the end pointer and whether \<open>errno\<close> was set.\<close>

definition strtoll :: "nat \<Rightarrow> string \<Rightarrow> int \<times> string \<times> bool" where
  "strtoll b s =
     (let (v, rest) = strto b s
      in (max (- (2 ^ 63)) (min (2 ^ 63 - 1) v), rest, v < - (2 ^ 63) \<or> 2 ^ 63 - 1 < v))"

text \<open>\<open>strtoul\<close>: a minus sign negates modulo \<open>2 ^ 64\<close>, and the result saturates at \<open>ULONG_MAX\<close>.\<close>

definition strtoul :: "nat \<Rightarrow> string \<Rightarrow> u64" where
  "strtoul b s =
     (let (v, rest) = strto b s in if 2 ^ 64 - 1 < \<bar>v\<bar> then 2 ^ 64 - 1 else word_of_int v)"

text \<open>\<open>atoi\<close> is \<open>(int) strtol(s, NULL, 10)\<close> with a 64 bit \<open>long\<close>; the caller stores its low byte.\<close>

definition atoi :: "string \<Rightarrow> u32" where
  "atoi s = word_of_int (fst (strtoll 10 s))"

section \<open>Splitting, trimming, comparing\<close>

text \<open>\<open>StringSplit\<close>: \<open>find_first_of\<close> from the start offset is the length of the prefix without
  delimiters. The offset \<open>end_offset + 1\<close> never exceeds the size, so the \<open>npos\<close> branch of the source
  is not taken; a split at the last character leaves an empty last token.\<close>

function StringSplit :: "string \<Rightarrow> string \<Rightarrow> string list" where
  "StringSplit input delimiters =
     (let token = takeWhile (\<lambda>c. c \<notin> set delimiters) input
      in if length token = length input then [input]
         else token # StringSplit (drop (length token + 1) input) delimiters)"
  by pat_completeness auto
termination
proof (relation "measure (\<lambda>(i, d). length i)")
  fix input delimiters :: string and x
  assume x: "x = takeWhile (\<lambda>c. c \<notin> set delimiters) input" and n: "length x \<noteq> length input"
  have "length x \<le> length input" by (simp add: x length_takeWhile_le)
  with n show "((drop (length x + 1) input, delimiters), input, delimiters)
      \<in> measure (\<lambda>(i, d). length i)" by auto
qed simp

declare StringSplit.simps [simp del]

definition trim_chars :: string where
  "trim_chars = [CHR '' '', CHR 0x0A, CHR 0x0D, CHR 0x09]"

fun find_first_not_of :: "string \<Rightarrow> string \<Rightarrow> nat option" where
  "find_first_not_of cs [] = None"
| "find_first_not_of cs (x # xs) =
     (if x \<in> set cs then map_option Suc (find_first_not_of cs xs) else Some 0)"

definition find_last_not_of :: "string \<Rightarrow> string \<Rightarrow> nat option" where
  "find_last_not_of cs s = map_option (\<lambda>k. length s - 1 - k) (find_first_not_of cs (rev s))"

definition StringTrim :: "string \<Rightarrow> string" where
  "StringTrim input =
     (case find_first_not_of trim_chars input of
        None \<Rightarrow> []
      | Some start \<Rightarrow> take (the (find_last_not_of trim_chars input) - start + 1) (drop start input))"

definition ShortenString :: "string \<Rightarrow> string" where
  "ShortenString input = takeWhile (\<lambda>c. c \<noteq> CHR 0x00) input"

definition StringEndsWith :: "string \<Rightarrow> string \<Rightarrow> bool" where
  "StringEndsWith s ending =
     (if length ending \<le> length s
      then take (length ending) (drop (length s - length ending) s) = ending else False)"

section \<open>Numbers\<close>

definition IntToString :: "int \<Rightarrow> string" where
  "IntToString i = (if i < 0 then CHR ''-'' # print_base 10 (nat (- i)) else print_base 10 (nat i))"

definition ToLower :: "string \<Rightarrow> string" where
  "ToLower s = map c_tolower s"

definition ToUpper :: "string \<Rightarrow> string" where
  "ToUpper s = map c_toupper s"

definition StringToBool :: "string \<Rightarrow> bool option" where
  "StringToBool value =
     (let lc_value = ToLower value
      in if lc_value = ''true'' \<or> lc_value = ''t'' \<or> lc_value = ''1'' then Some True
         else if lc_value = ''false'' \<or> lc_value = ''f'' \<or> lc_value = ''0'' then Some False
         else None)"

text \<open>The comparison \<open>value == end_ptr\<close> compares the characters of \<open>value\<close> with the C string at
  \<open>end_ptr\<close>, not two pointers.\<close>

definition StringToInt_uint :: "string \<Rightarrow> bool \<Rightarrow> u32 option" where
  "StringToInt_uint value strict =
     (if value = [] then None
      else let (l, end_ptr, err) = strtoll 10 (c_str value)
           in if l < 0 \<or> (l = 0 \<and> err) then None
              else if value = end_ptr then None
              else if strict \<and> end_ptr \<noteq> [] then None
              else if 0xffffffff < l then None
              else Some (word_of_int l))"

definition StringToInt_u16 :: "string \<Rightarrow> bool \<Rightarrow> u16 option" where
  "StringToInt_u16 value strict =
     (case StringToInt_uint value strict of None \<Rightarrow> None
      | Some v \<Rightarrow> if 0xffff < v then None else Some (ucast v))"

definition StringToInt_u8 :: "string \<Rightarrow> bool \<Rightarrow> u8 option" where
  "StringToInt_u8 value strict =
     (case StringToInt_uint value strict of None \<Rightarrow> None
      | Some v \<Rightarrow> if 0xff < v then None else Some (ucast v))"

definition StringToInt_int :: "string \<Rightarrow> bool \<Rightarrow> int option" where
  "StringToInt_int value strict =
     (if value = [] then None
      else let (l, end_ptr, err) = strtoll 10 (c_str value)
           in if l = 0 \<and> err then None
              else if value = end_ptr then None
              else if strict \<and> end_ptr \<noteq> [] then None
              else if l < - (2 ^ 31) \<or> 2 ^ 31 - 1 < l then None
              else Some l)"

definition StringToInt_i16 :: "string \<Rightarrow> bool \<Rightarrow> int option" where
  "StringToInt_i16 value strict =
     (case StringToInt_int value strict of None \<Rightarrow> None
      | Some v \<Rightarrow> if v < - (2 ^ 15) \<or> 2 ^ 15 - 1 < v then None else Some v)"

definition StringToInt_i8 :: "string \<Rightarrow> bool \<Rightarrow> int option" where
  "StringToInt_i8 value strict =
     (case StringToInt_int value strict of None \<Rightarrow> None
      | Some v \<Rightarrow> if v < - (2 ^ 7) \<or> 2 ^ 7 - 1 < v then None else Some v)"

definition HexStringToInt_u32 :: "string \<Rightarrow> u32 option" where
  "HexStringToInt_u32 value =
     (if value = [] then None
      else if find_first_not_of ''ABCDEFabcdef0123456789'' value \<noteq> None then None
      else Some (ucast (strtoul 16 (c_str value))))"

definition HexStringToInt_u8 :: "string \<Rightarrow> u8 option" where
  "HexStringToInt_u8 value =
     (case HexStringToInt_u32 value of None \<Rightarrow> None
      | Some temp \<Rightarrow> if 0xff < temp then None else Some (ucast temp))"

definition HexStringToInt_u16 :: "string \<Rightarrow> u16 option" where
  "HexStringToInt_u16 value =
     (case HexStringToInt_u32 value of None \<Rightarrow> None
      | Some temp \<Rightarrow> if 0xffff < temp then None else Some (ucast temp))"

definition HexStringToInt_i32 :: "string \<Rightarrow> int option" where
  "HexStringToInt_i32 value =
     (if value = [] then None
      else if find_first_not_of ''ABCDEFabcdef0123456789'' value \<noteq> None then None
      else Some (signed_take_bit 31 (fst (strtoll 16 (c_str value)))))"

definition HexStringToInt_i8 :: "string \<Rightarrow> int option" where
  "HexStringToInt_i8 value =
     (case HexStringToInt_i32 value of None \<Rightarrow> None
      | Some temp \<Rightarrow> if temp < 0 \<or> 0xff < temp then None else Some (signed_take_bit 7 temp))"

definition HexStringToInt_i16 :: "string \<Rightarrow> int option" where
  "HexStringToInt_i16 value =
     (case HexStringToInt_i32 value of None \<Rightarrow> None
      | Some temp \<Rightarrow> if temp < 0 \<or> 0xffff < temp then None else Some (signed_take_bit 15 temp))"

section \<open>Escaping and labels\<close>

definition escape_char :: "char \<Rightarrow> string" where
  "escape_char c =
     (if c = CHR 0x22 then [CHR 0x5C, CHR 0x22]
      else if c = CHR 0x5C then [CHR 0x5C, CHR 0x5C]
      else if c = CHR 0x2F then [CHR 0x5C, CHR 0x2F]
      else if c = CHR 0x08 then [CHR 0x5C, CHR ''b'']
      else if c = CHR 0x0C then [CHR 0x5C, CHR ''f'']
      else if c = CHR 0x0A then [CHR 0x5C, CHR ''n'']
      else if c = CHR 0x0D then [CHR 0x5C, CHR ''r'']
      else if c = CHR 0x09 then [CHR 0x5C, CHR ''t'']
      else [c])"

text \<open>The loop of \<open>Escape\<close>: the iterator is a position, an insertion moves it past the new
  backslash, and the loop increment moves it past the character itself.\<close>

function Escape_loop :: "string \<Rightarrow> nat \<Rightarrow> string" where
  "Escape_loop s i =
     (if i < length s then
        let e = escape_char (s ! i)
        in Escape_loop (take i s @ e @ drop (Suc i) s) (i + length e)
      else s)"
  by pat_completeness auto
termination
proof (relation "measure (\<lambda>(s, i). length s - i)")
  fix s :: string and i :: nat and x
  assume i: "i < length s"
  then show "((take i s @ x @ drop (Suc i) s, i + length x), s, i)
      \<in> measure (\<lambda>(s, i). length s - i)" by auto
qed simp

declare Escape_loop.simps [simp del]

definition Escape :: "string \<Rightarrow> string" where
  "Escape original = Escape_loop original 0"

definition EscapeString :: "string \<Rightarrow> string" where
  "EscapeString original = Escape original"

fun capitalize_from :: "bool \<Rightarrow> string \<Rightarrow> string" where
  "capitalize_from capitalize [] = []"
| "capitalize_from capitalize (c # cs) =
     (if c = CHR ''-'' \<or> c = CHR ''_'' \<or> c = CHR '' '' then CHR '' '' # capitalize_from True cs
      else (if capitalize \<and> c_islower c then c_toupper c else c) # capitalize_from False cs)"

definition CapitalizeLabel :: "string \<Rightarrow> string" where
  "CapitalizeLabel s = capitalize_from True s"

text \<open>\<open>s->find(pat, pos)\<close>.\<close>

fun find_at :: "string \<Rightarrow> nat \<Rightarrow> string \<Rightarrow> nat option" where
  "find_at pat k s =
     (if take (length pat) s = pat then Some k
      else case s of [] \<Rightarrow> None | c # cs \<Rightarrow> find_at pat (Suc k) cs)"

declare find_at.simps [simp del]

definition find_from :: "string \<Rightarrow> nat \<Rightarrow> string \<Rightarrow> nat option" where
  "find_from pat pos s = (if length s < pos then None else find_at pat pos (drop pos s))"

lemma find_at_ge: "find_at pat k s = Some p \<Longrightarrow> k \<le> p \<and> p + length pat \<le> k + length s"
proof (induction pat k s rule: find_at.induct)
  case (1 pat k s)
  show ?case
  proof (cases "take (length pat) s = pat")
    case True
    then have "length pat \<le> length s" by (metis length_take min.absorb_iff2 nat_le_linear)
    with True 1(2) show ?thesis by (simp add: find_at.simps)
  next
    case False
    show ?thesis
    proof (cases s)
      case Nil with False 1(2) show ?thesis by (simp add: find_at.simps)
    next
      case (Cons c cs)
      with False 1(2) have "find_at pat (Suc k) cs = Some p"
        by (subst (asm) find_at.simps) simp
      with 1(1) [OF False Cons] Cons show ?thesis by simp
    qed
  qed
qed

lemma find_from_ge:
  "find_from pat pos s = Some p \<Longrightarrow> pos \<le> p \<and> p + length pat \<le> length s"
  using find_at_ge [of pat pos "drop pos s" p]
  by (auto simp: find_from_def split: if_splits)

definition upper_range :: "string \<Rightarrow> nat \<Rightarrow> nat \<Rightarrow> string" where
  "upper_range s from to =
     take from s @ map c_toupper (take (to - from) (drop from s)) @ drop (max from to) s"

lemma length_upper_range [simp]:
  "from \<le> to \<Longrightarrow> to \<le> length s \<Longrightarrow> length (upper_range s from to) = length s"
  by (simp add: upper_range_def)

text \<open>The inner \<open>while (true)\<close> of \<open>CustomCapitalizeLabel\<close> for one acronym; \<open>size\<close> is the
  length of the string.\<close>

function acronym_loop :: "string \<Rightarrow> string \<Rightarrow> nat \<Rightarrow> string" where
  "acronym_loop acronym s last_match =
     (case find_from acronym last_match s of
        None \<Rightarrow> s
      | Some match_position \<Rightarrow>
          let end_position = match_position + length acronym;
              s' = (if (match_position = 0 \<or> c_ispunct (s ! (match_position - 1))) \<and>
                       (end_position = length s \<or> c_ispunct (s ! end_position))
                    then upper_range s match_position end_position else s)
          in acronym_loop acronym s' (match_position + 1))"
  by pat_completeness auto
termination
proof (relation "measure (\<lambda>(a, s, l). Suc (length s) - l)")
  fix acronym s :: string and last p e s'
  assume f: "find_from acronym last s = Some p" and e: "e = p + length acronym"
    and s': "s' = (if (p = 0 \<or> c_ispunct (s ! (p - 1))) \<and> (e = length s \<or> c_ispunct (s ! e))
      then upper_range s p e else s)"
  from find_from_ge [OF f] e s' have "length s' = length s" by simp
  with find_from_ge [OF f] show "((acronym, s', p + 1), acronym, s, last)
      \<in> measure (\<lambda>(a, s, l). Suc (length s) - l)" by auto
qed simp

declare acronym_loop.simps [simp del]

definition acronyms :: "string list" where
  "acronyms = [''dhcp'', ''dmx'', ''dns'', ''ip'', ''led'', ''rdm'', ''uid'']"

definition CustomCapitalizeLabel :: "string \<Rightarrow> string" where
  "CustomCapitalizeLabel s = CapitalizeLabel (fold (\<lambda>a t. acronym_loop a t 0) acronyms s)"

end
