(* ===== verification/String_Facts.thy ===== *)
theory String_Facts
  imports String_Utils
begin

text \<open>
  Facts on the string helpers: numerals printed by the code are read back by it, splitting is the
  inverse of joining, escaping is invertible, trimming removes exactly the white space at both ends,
  and the label functions change nothing but case and separators.
\<close>

section \<open>Numerals: printing and parsing\<close>

lemma digit_val_digit_char: "d < 36 \<Longrightarrow> digit_val (digit_char d) = Some d"
  by (auto simp: digit_char_def digit_val_def c_isdigit_def c_isupper_def c_islower_def)

lemma is_digit_digit_char: "d < b \<Longrightarrow> b \<le> 36 \<Longrightarrow> is_digit b (digit_char d)"
  by (simp add: is_digit_def digit_val_digit_char)

lemma digits_val_snoc:
  "digits_val b (xs @ [c]) = digits_val b xs * b + the (digit_val c)"
  by (simp add: digits_val_def)

lemma print_base_induct [case_names small big]:
  assumes "2 \<le> b"
    and "\<And>n :: nat. n < b \<Longrightarrow> P n"
    and "\<And>n. b \<le> n \<Longrightarrow> P (n div b) \<Longrightarrow> P n"
  shows "P n"
proof (induction n rule: less_induct)
  case (less n)
  show ?case
  proof (cases "n < b")
    case False
    with assms(1) have "n div b < n" by simp
    from less.IH [OF this] False show ?thesis by (simp add: assms(3))
  qed (rule assms(2))
qed

lemma print_base_small: "n < b \<Longrightarrow> print_base b n = [digit_char n]"
  by (subst print_base.simps) simp

lemma print_base_big:
  "2 \<le> b \<Longrightarrow> b \<le> n \<Longrightarrow> print_base b n = print_base b (n div b) @ [digit_char (n mod b)]"
  by (subst print_base.simps) simp

lemma digits_val_print:
  assumes "2 \<le> b" and "b \<le> 36"
  shows "digits_val b (print_base b n) = n"
proof (induction n rule: print_base_induct [OF assms(1)])
  case (1 n)
  with assms show ?case by (simp add: print_base_small digits_val_def digit_val_digit_char)
next
  case (2 n)
  have "n mod b < 36" using assms by (meson mod_less_divisor order.strict_trans2 less_le_trans zero_less_numeral)
  with 2 assms show ?case
    by (simp add: print_base_big digits_val_snoc digit_val_digit_char)
qed

lemma set_print_base:
  assumes "2 \<le> b" and "b \<le> 36" and "c \<in> set (print_base b n)"
  shows "is_digit b c"
  using assms(3)
proof (induction n rule: print_base_induct [OF assms(1)])
  case (1 n)
  with assms show ?case by (simp add: print_base_small is_digit_digit_char)
next
  case (2 n)
  have "n mod b < b" using assms by simp
  with 2 assms show ?case
    by (auto simp: print_base_big is_digit_digit_char)
qed

lemma print_base_not_Nil [simp]: "print_base b n \<noteq> []"
  by (subst print_base.simps) simp

lemma length_print_base:
  assumes "2 \<le> b" and "n < b ^ Suc k"
  shows "length (print_base b n) \<le> Suc k"
  using assms(2)
proof (induction k arbitrary: n)
  case 0
  then show ?case by (simp add: print_base_small)
next
  case (Suc k)
  show ?case
  proof (cases "n < b")
    case False
    have "n div b < b ^ Suc k"
      using Suc.prems assms(1) by (simp add: less_mult_imp_div_less mult.commute)
    with Suc.IH have "length (print_base b (n div b)) \<le> Suc k" by blast
    with False assms(1) show ?thesis by (simp add: print_base_big)
  qed (simp add: print_base_small)
qed

lemma digits_val_Cons0: "digits_val b (CHR ''0'' # ds) = digits_val b ds"
  by (simp add: digits_val_def digit_val_def c_isdigit_def)

lemma digits_val_pad [simp]: "digits_val b (pad_zeros w ds) = digits_val b ds"
proof -
  have "digits_val b (replicate k CHR ''0'' @ ds) = digits_val b ds" for k
    by (induction k) (simp_all add: digits_val_Cons0)
  then show ?thesis by (simp add: pad_zeros_def)
qed

lemma length_pad_zeros: "length ds \<le> w \<Longrightarrow> length (pad_zeros w ds) = w"
  by (simp add: pad_zeros_def)

lemma digits_val_less:
  assumes "list_all (is_digit b) ds"
  shows "digits_val b ds < b ^ length ds"
  using assms
proof (induction ds rule: rev_induct)
  case (snoc c ds)
  from snoc.prems obtain d where d: "digit_val c = Some d" "d < b"
    by (auto simp: is_digit_def split: option.splits)
  from snoc have "digits_val b ds < b ^ length ds" by simp
  then have "Suc (digits_val b ds) * b \<le> b ^ length ds * b" by (intro mult_le_mono) simp_all
  with d show ?case by (simp add: digits_val_snoc mult.commute)
qed (simp add: digits_val_def)

text \<open>Digits are neither white space nor signs nor NUL, so the parser takes a string of digits whole.\<close>

lemma is_digit_range: "is_digit b c \<Longrightarrow>
    (48 \<le> (of_char c :: nat) \<and> (of_char c :: nat) \<le> 57) \<or> (65 \<le> (of_char c :: nat) \<and> (of_char c :: nat) \<le> 90) \<or>
    (97 \<le> (of_char c :: nat) \<and> (of_char c :: nat) \<le> 122)"
  by (auto simp: is_digit_def digit_val_def c_isdigit_def c_isupper_def c_islower_def split: if_splits)

lemma is_digit_plain:
  assumes "is_digit b c"
  shows "\<not> c_isspace c" and "c \<noteq> CHR ''-''" and "c \<noteq> CHR ''+''" and "c \<noteq> CHR 0x00"
    and "c \<noteq> CHR '':''" and "c \<noteq> CHR '',''"
proof -
  note r = is_digit_range [OF assms]
  from r show "\<not> c_isspace c" by (auto simp: c_isspace_def)
  from r show "c \<noteq> CHR ''-''" and "c \<noteq> CHR ''+''" and "c \<noteq> CHR 0x00"
    and "c \<noteq> CHR '':''" and "c \<noteq> CHR '',''" by auto
qed

lemma is_digit_16_x: "\<not> is_digit 16 CHR ''x''" "\<not> is_digit 16 CHR ''X''"
  by (simp_all add: is_digit_def digit_val_def c_isdigit_def c_isupper_def c_islower_def)

lemma c_str_id: "CHR 0x00 \<notin> set s \<Longrightarrow> c_str s = s"
  unfolding c_str_def by (rule takeWhile_eq_all_conv [THEN iffD2]) auto

lemma strto_digits:
  assumes "ds \<noteq> []" and "list_all (is_digit b) ds"
    and "rest = [] \<or> \<not> is_digit b (hd rest)" and "b = 16 \<longrightarrow> rest = []"
  shows "strto b (ds @ rest) = (int (digits_val b ds), rest)"
proof -
  obtain d ds' where ds: "ds = d # ds'" using assms(1) by (cases ds) auto
  from assms(2) ds have d: "is_digit b d" by simp
  note p = is_digit_plain [OF d]
  have dw: "dropWhile c_isspace (ds @ rest) = ds @ rest" using ds p by simp
  have sg: "parse_sign (ds @ rest) = (False, ds @ rest)" using ds p by (simp add: parse_sign_def)
  have sk: "skip_prefix b (ds @ rest) = ds @ rest"
  proof (cases "b = 16")
    case True
    have "\<not> (3 \<le> length ds \<and> ds ! 1 \<in> {CHR ''x'', CHR ''X''})"
    proof
      assume a: "3 \<le> length ds \<and> ds ! 1 \<in> {CHR ''x'', CHR ''X''}"
      then have "is_digit 16 (ds ! 1)" using assms(2) True by (simp add: list_all_length)
      with a is_digit_16_x show False by auto
    qed
    with True assms(4) show ?thesis by (auto simp: skip_prefix_def)
  qed (simp add: skip_prefix_def)
  have tw: "takeWhile (is_digit b) (ds @ rest) = ds"
    using assms(2,3) by (cases rest) (auto simp: list_all_iff takeWhile_append2 takeWhile_tail)
  show ?thesis using assms(1) by (simp add: strto_def dw sg sk tw)
qed

lemmas strto_digits_only = strto_digits [where rest = "[]", simplified]

section \<open>StringToInt, HexStringToInt\<close>

lemma print_base_digits: "2 \<le> b \<Longrightarrow> b \<le> 36 \<Longrightarrow> list_all (is_digit b) (print_base b n)"
  by (auto simp: list_all_iff intro: set_print_base)

lemma c_str_digits: "list_all (is_digit b) ds \<Longrightarrow> c_str ds = ds"
  by (rule c_str_id) (auto simp: list_all_iff dest: is_digit_plain(4))

lemma strto_print: "2 \<le> b \<Longrightarrow> b \<le> 36 \<Longrightarrow> strto b (print_base b n) = (int n, [])"
  using strto_digits_only [of "print_base b n" b] print_base_digits [of b n]
  by (simp add: digits_val_print)

lemma c_str_IntToString: "c_str (IntToString i) = IntToString i"
proof (rule c_str_id)
  show "CHR 0x00 \<notin> set (IntToString i)"
    using set_print_base [of 10 "CHR 0x00"] is_digit_plain(4) by (auto simp: IntToString_def)
qed

lemma IntToString_not_Nil [simp]: "IntToString i \<noteq> []"
  by (simp add: IntToString_def)

lemma strto_IntToString: "strto 10 (IntToString i) = (i, [])"
proof (cases "i < 0")
  case False
  then show ?thesis by (simp add: IntToString_def strto_print)
next
  case True
  let ?ds = "print_base 10 (nat (- i))"
  have d: "list_all (is_digit 10) ?ds" by (simp add: print_base_digits)
  have tw: "takeWhile (is_digit 10) ?ds = ?ds" using d by (simp add: list_all_iff)
  have dw: "dropWhile c_isspace (CHR ''-'' # ?ds) = CHR ''-'' # ?ds"
    by (simp add: c_isspace_def)
  have "strto 10 (CHR ''-'' # ?ds) = (- int (nat (- i)), [])"
    unfolding strto_def dw by (simp add: parse_sign_def skip_prefix_def digits_val_print tw)
  with True show ?thesis by (simp add: IntToString_def)
qed

lemma strtoll_IntToString:
  "- (2 ^ 63) \<le> i \<Longrightarrow> i < 2 ^ 63 \<Longrightarrow> strtoll 10 (IntToString i) = (i, [], False)"
  by (simp add: strtoll_def strto_IntToString)

lemma strtoll_uint:
  assumes "uint x < 2 ^ 63"
  shows "strtoll 10 (IntToString (uint x)) = (uint x, [], False)"
proof (rule strtoll_IntToString [OF _ assms])
  show "- (2 ^ 63) \<le> uint x" by (rule order.trans [OF _ unsigned_greater_eq]) simp
qed

lemma ucast_u64_of_nat: "ucast (word_of_nat n :: u64) = (word_of_nat n :: u32)"
  by (rule bit_word_eqI) (simp add: bit_simps)

lemma HexStringToInt_u32_digits:
  assumes "ds \<noteq> []" and "list_all (is_digit 16) ds" and "length ds \<le> 16"
  shows "HexStringToInt_u32 ds = Some (of_nat (digits_val 16 ds))"
proof -
  have in_set: "c \<in> set ''ABCDEFabcdef0123456789''" if "is_digit 16 c" for c
  proof -
    let ?codes = "[48..<58] @ [65..<71] @ [97..<103 :: nat]"
    from that have "(of_char c :: nat) \<in> {48..<58} \<union> ({65..<71} \<union> {97..<103})"
      by (auto simp: is_digit_def digit_val_def c_isdigit_def c_isupper_def c_islower_def split: if_splits)
    then have "of_char c \<in> set ?codes" by (simp only: set_append set_upt)
    then have "char_of (of_char c :: nat) \<in> set (map char_of ?codes)"
      unfolding set_map by (rule imageI)
    also have "map char_of ?codes = ''0123456789ABCDEFabcdef''" by code_simp
    finally show ?thesis by auto
  qed
  have "find_first_not_of ''ABCDEFabcdef0123456789'' ds = None"
    using assms(2) in_set by (induction ds) (simp_all del: list.set)
  moreover have "digits_val 16 ds < 2 ^ 64"
  proof -
    have "digits_val 16 ds < 16 ^ length ds" by (rule digits_val_less [OF assms(2)])
    also have "\<dots> \<le> 16 ^ 16" by (rule power_increasing) (use assms(3) in simp_all)
    finally show ?thesis by simp
  qed
  ultimately show ?thesis using assms
    by (simp add: HexStringToInt_u32_def c_str_digits strtoul_def strto_digits_only ucast_u64_of_nat)
qed

section \<open>StringSplit\<close>

fun join :: "string \<Rightarrow> string list \<Rightarrow> string" where
  "join sep [] = []"
| "join sep [t] = t"
| "join sep (t # u # ts) = t @ sep @ join sep (u # ts)"

lemma StringSplit_not_Nil [simp]: "StringSplit s d \<noteq> []"
  by (subst StringSplit.simps) (simp add: Let_def)

lemma join_Cons: "ts \<noteq> [] \<Longrightarrow> join sep (t # ts) = t @ sep @ join sep ts"
  by (cases ts) auto

lemma StringSplit_no_delim: "set s \<inter> set d = {} \<Longrightarrow> StringSplit s d = [s]"
proof -
  assume "set s \<inter> set d = {}"
  then have tw: "takeWhile (\<lambda>c. c \<notin> set d) s = s" by (auto simp: takeWhile_eq_all_conv)
  show ?thesis by (subst StringSplit.simps) (simp only: tw Let_def simp_thms if_True)
qed

lemma StringSplit_delim:
  assumes "set t \<inter> set d = {}" and "c \<in> set d"
  shows "StringSplit (t @ c # s) d = t # StringSplit s d"
proof -
  have "takeWhile (\<lambda>c. c \<notin> set d) (t @ c # s) = t" using assms by (subst takeWhile_append2) auto
  then show ?thesis by (subst StringSplit.simps) (simp add: Let_def)
qed

lemma StringSplit_join:
  assumes "ts \<noteq> []" and "\<And>t. t \<in> set ts \<Longrightarrow> c \<notin> set t"
  shows "StringSplit (join [c] ts) [c] = ts"
  using assms
proof (induction "[c]" ts rule: join.induct)
  case 1
  then show ?case by simp
next
  case (2 t)
  then show ?case by (simp add: StringSplit_no_delim)
next
  case (3 t u ts)
  from 3 have "StringSplit (join [c] (u # ts)) [c] = u # ts" by simp
  moreover have "set t \<inter> set [c] = {}" using 3 by simp
  ultimately show ?case using StringSplit_delim [of t "[c]" c] by simp
qed

lemma split_at_delim:
  assumes "\<not> (set s \<inter> set d = {})"
  obtains t c r where "s = t @ c # r" and "set t \<inter> set d = {}" and "c \<in> set d"
proof -
  from assms have "\<exists>x\<in>set s. x \<in> set d" by auto
  then obtain t c r where "s = t @ c # r" "c \<in> set d" "\<forall>y\<in>set t. y \<notin> set d"
    by (rule split_list_first_propE)
  with that show thesis by blast
qed

lemma StringSplit_induct [case_names last more]:
  assumes "\<And>s. set s \<inter> set d = {} \<Longrightarrow> P s"
    and "\<And>t c r. set t \<inter> set d = {} \<Longrightarrow> c \<in> set d \<Longrightarrow> P r \<Longrightarrow> P (t @ c # r)"
  shows "P s"
proof (induction s rule: length_induct)
  case (1 s)
  show ?case
  proof (cases "set s \<inter> set d = {}")
    case False
    obtain t c r where s: "s = t @ c # r" "set t \<inter> set d = {}" "c \<in> set d"
      using split_at_delim [OF False] .
    with 1 have "P r" by simp
    with s assms(2) show ?thesis by simp
  qed (rule assms(1))
qed

lemma join_StringSplit: "join [c] (StringSplit s [c]) = s"
proof (induction s rule: StringSplit_induct [of "[c]"])
  case (last s)
  then show ?case by (simp add: StringSplit_no_delim)
next
  case (more t c' r)
  then show ?case using StringSplit_delim [of t "[c]" c' r] by (simp add: join_Cons)
qed

lemma StringSplit_tokens: "t \<in> set (StringSplit s d) \<Longrightarrow> set t \<inter> set d = {}"
proof (induction s rule: StringSplit_induct [of d])
  case (last s)
  then show ?case by (simp add: StringSplit_no_delim)
next
  case (more t' c' r)
  then show ?case by (auto simp: StringSplit_delim)
qed

section \<open>Escape\<close>

lemma Escape_loop_append:
  "Escape_loop (p @ s) (length p) = p @ concat (map escape_char s)"
proof (induction s arbitrary: p)
  case Nil
  then show ?case by (subst Escape_loop.simps) simp
next
  case (Cons c s)
  have "Escape_loop (p @ c # s) (length p) =
      Escape_loop ((p @ escape_char c) @ s) (length (p @ escape_char c))"
    by (subst Escape_loop.simps) (simp add: Let_def)
  then show ?case by (simp only: Cons.IH) simp
qed

lemma Escape_eq: "Escape s = concat (map escape_char s)"
  using Escape_loop_append [of "[]" s] by (simp add: Escape_def)

text \<open>The reading of a JSON string body: a backslash and the character after it stand for one
  character.\<close>

fun unescape :: "string \<Rightarrow> string" where
  "unescape [] = []"
| "unescape [c] = [c]"
| "unescape (c # d # s) =
     (if c = CHR 0x5C then
        (if d = CHR ''b'' then CHR 0x08 else if d = CHR ''f'' then CHR 0x0C
         else if d = CHR ''n'' then CHR 0x0A else if d = CHR ''r'' then CHR 0x0D
         else if d = CHR ''t'' then CHR 0x09 else d) # unescape s
      else c # unescape (d # s))"

lemma unescape_plain: "c \<noteq> CHR 0x5C \<Longrightarrow> unescape (c # s) = c # unescape s"
  by (cases s) simp_all

lemma unescape_escape_char: "unescape (escape_char c @ s) = c # unescape s"
  by (simp add: escape_char_def unescape_plain)

lemma unescape_Escape: "unescape (Escape s) = s"
  unfolding Escape_eq by (induction s) (simp_all add: unescape_escape_char)

section \<open>StringTrim and labels\<close>

lemma find_first_not_of_eq:
  "find_first_not_of cs s =
     (if set s \<subseteq> set cs then None else Some (length (takeWhile (\<lambda>c. c \<in> set cs) s)))"
  by (induction s) auto

lemma StringTrim_parts:
  obtains a b where "s = a @ StringTrim s @ b" and "set a \<subseteq> set trim_chars" and "set b \<subseteq> set trim_chars"
    and "StringTrim s = [] \<or> (hd (StringTrim s) \<notin> set trim_chars \<and> last (StringTrim s) \<notin> set trim_chars)"
proof (cases "set s \<subseteq> set trim_chars")
  case True
  then have "StringTrim s = []" by (simp add: StringTrim_def find_first_not_of_eq)
  with True that [of s "[]"] show thesis by simp
next
  case False
  let ?P = "\<lambda>c. c \<in> set trim_chars"
  from False have "\<exists>x\<in>set s. x \<notin> set trim_chars" by auto
  then obtain a x r where s: "s = a @ x # r" "x \<notin> set trim_chars" "\<forall>y\<in>set a. \<not> y \<notin> set trim_chars"
    by (rule split_list_first_propE)
  from s(2) have "\<exists>z\<in>set (x # r). z \<notin> set trim_chars" by simp
  then obtain q z b where q: "x # r = q @ z # b" "z \<notin> set trim_chars" "\<forall>y\<in>set b. \<not> y \<notin> set trim_chars"
    by (rule split_list_last_propE)
  have ta: "takeWhile ?P s = a" using s by (simp add: takeWhile_append2)
  have "takeWhile ?P (rev b @ z # rev q @ rev a) = rev b"
    using q(2,3) by (subst takeWhile_append2) auto
  then have "takeWhile ?P (rev s) = rev b" using s(1) q(1) by simp
  then have "find_last_not_of trim_chars s = Some (length s - 1 - length b)"
    using False by (simp add: find_last_not_of_def find_first_not_of_eq)
  moreover have "length s = length a + Suc (length q) + length b" using s(1) q(1) by simp
  ultimately have "StringTrim s = take (length q + 1) (drop (length a) s)"
    using False by (simp add: StringTrim_def find_first_not_of_eq ta)
  then have t: "StringTrim s = q @ [z]" using s(1) q(1) by simp
  have "hd (q @ [z]) = x" using q(1) by (cases q) auto
  with t q s show thesis by (intro that [of a b]) auto
qed

lemma length_capitalize_from [simp]: "length (capitalize_from b s) = length s"
  by (induction b s rule: capitalize_from.induct) auto

lemma of_char_toupper: "c_islower c \<Longrightarrow> of_char (c_toupper c) = (of_char c :: nat) - 32"
  by (auto simp: c_toupper_def c_islower_def)

lemma c_toupper_range: "c_islower c \<Longrightarrow> c_isupper (c_toupper c)"
  by (auto simp: of_char_toupper c_isupper_def) (auto simp: c_islower_def)

lemma c_tolower_toupper [simp]: "c_tolower (c_toupper c) = c_tolower c"
proof (cases "c_islower c")
  case True
  then have "\<not> c_isupper c" by (auto simp: c_islower_def c_isupper_def)
  with True show ?thesis
    by (simp add: c_tolower_def c_toupper_range of_char_toupper) (simp add: c_islower_def)
qed (simp add: c_toupper_def)

definition label_spaces :: "string \<Rightarrow> string" where
  "label_spaces s = map (\<lambda>c. if c = CHR ''-'' \<or> c = CHR ''_'' then CHR '' '' else c) s"

lemma ToLower_capitalize_from: "ToLower (capitalize_from b s) = ToLower (label_spaces s)"
  by (induction b s rule: capitalize_from.induct) (auto simp: ToLower_def label_spaces_def)

lemma ToLower_upper_range:
  "from \<le> to \<Longrightarrow> to \<le> length s \<Longrightarrow> ToLower (upper_range s from to) = ToLower s"
proof -
  assume a: "from \<le> to" "to \<le> length s"
  have "map c_tolower (take (to - from) (drop from s)) = take (to - from) (drop from (map c_tolower s))"
    by (simp add: take_map drop_map)
  with a show ?thesis
    by (simp add: upper_range_def ToLower_def take_map drop_map o_def max_def)
       (metis append_take_drop_id drop_drop le_add_diff_inverse2 map_append)
qed

lemma ToLower_acronym_loop: "ToLower (acronym_loop a s l) = ToLower s"
proof (induction a s l rule: acronym_loop.induct)
  case (1 a s l)
  show ?case
  proof (cases "find_from a l s")
    case None
    then show ?thesis by (subst acronym_loop.simps) simp
  next
    case (Some p)
    let ?s = "if (p = 0 \<or> c_ispunct (s ! (p - 1))) \<and> (p + length a = length s \<or> c_ispunct (s ! (p + length a)))
              then upper_range s p (p + length a) else s"
    from Some have "acronym_loop a s l = acronym_loop a ?s (p + 1)"
      by (subst acronym_loop.simps) (simp add: Let_def)
    moreover have "ToLower (acronym_loop a ?s (p + 1)) = ToLower ?s"
      by (rule 1 [OF Some]) simp_all
    moreover have "ToLower ?s = ToLower s"
      using find_from_ge [OF Some] by (simp add: ToLower_upper_range)
    ultimately show ?thesis by simp
  qed
qed


section \<open>Properties\<close>

text \<open>StringSplit on a one-character delimiter is the inverse of joining with that delimiter: the
  tokens joined again are the input, no token contains the delimiter, and a list of such tokens,
  joined, is split into itself.\<close>

theorem string_split_join:
  "join [c] (StringSplit s [c]) = s \<and>
   list_all (\<lambda>t. c \<notin> set t) (StringSplit s [c]) \<and>
   (ts \<noteq> [] \<and> list_all (\<lambda>t. c \<notin> set t) ts \<longrightarrow> StringSplit (join [c] ts) [c] = ts)"
  using StringSplit_tokens [of _ s "[c]"]
  by (auto simp: join_StringSplit list_all_iff intro!: StringSplit_join)

theorem string_split_join_witness:
  "StringSplit (join [CHR '',''] [''1'', [], ''23'']) [CHR '',''] = [''1'', [], ''23'']"
  using string_split_join [of "CHR '',''" "[]" "[''1'', [], ''23'']"] by simp

lemma parse_sign_cases:
  obtains sg where "t = sg @ snd (parse_sign t)" and "sg \<in> {[], ''-'', ''+''}"
    and "fst (parse_sign t) \<longleftrightarrow> sg = ''-''"
proof (cases t)
  case Nil
  with that [of "[]"] show thesis by (simp add: parse_sign_def)
next
  case (Cons c cs)
  show thesis
  proof (cases "c = CHR ''-'' \<or> c = CHR ''+''")
    case True
    with Cons that [of "[c]"] show thesis by (auto simp: parse_sign_def)
  next
    case False
    with Cons that [of "[]"] show thesis by (simp add: parse_sign_def)
  qed
qed

lemma strto_10_forms:
  assumes "strto 10 s = (v, rest)" and "rest \<noteq> s"
  obtains ws sg ds where "s = ws @ sg @ ds @ rest" and "list_all c_isspace ws"
    and "sg \<in> {[], ''-'', ''+''}" and "ds \<noteq> []" and "list_all (is_digit 10) ds"
    and "v = (if sg = ''-'' then - int (digits_val 10 ds) else int (digits_val 10 ds))"
proof -
  define t where "t = dropWhile c_isspace s"
  obtain sg where sg: "t = sg @ snd (parse_sign t)" "sg \<in> {[], ''-'', ''+''}"
    "fst (parse_sign t) \<longleftrightarrow> sg = ''-''"
    using parse_sign_cases [of t] .
  define u where "u = snd (parse_sign t)"
  define ds where "ds = takeWhile (is_digit 10) u"
  have st: "strto 10 s = (if ds = [] then (0, s)
      else (if sg = ''-'' then - int (digits_val 10 ds) else int (digits_val 10 ds), drop (length ds) u))"
    by (simp add: strto_def skip_prefix_def t_def [symmetric] u_def ds_def case_prod_unfold
        Let_def sg(3) [symmetric])
  with assms have ne: "ds \<noteq> []" by auto
  with st assms have v: "v = (if sg = ''-'' then - int (digits_val 10 ds) else int (digits_val 10 ds))"
    and r: "rest = drop (length ds) u" by (auto split: if_splits)
  have u: "u = ds @ rest" by (simp add: r ds_def dropWhile_eq_drop [symmetric])
  have s: "s = takeWhile c_isspace s @ t" by (simp add: t_def)
  have "s = takeWhile c_isspace s @ sg @ ds @ rest"
    using s by (subst (asm) sg(1)) (simp add: u_def [symmetric] u)
  moreover have "list_all c_isspace (takeWhile c_isspace s)" by (auto simp: list_all_iff dest: set_takeWhileD)
  moreover have "list_all (is_digit 10) ds" by (auto simp: ds_def list_all_iff dest: set_takeWhileD)
  ultimately show thesis using that sg(2) ne v by blast
qed

lemma strto_10_of_forms:
  assumes "list_all c_isspace ws" and "sg \<in> {[], ''-'', ''+''}" and "ds \<noteq> []"
    and "list_all (is_digit 10) ds"
  shows "strto 10 (ws @ sg @ ds) =
    (if sg = ''-'' then - int (digits_val 10 ds) else int (digits_val 10 ds), [])"
proof -
  obtain d ds' where ds: "ds = d # ds'" using assms(3) by (cases ds) auto
  then have "is_digit 10 d" using assms(4) by simp
  note d = is_digit_plain [OF this]
  have dw: "dropWhile c_isspace (ws @ sg @ ds) = sg @ ds"
    using assms(1,2) ds d by (subst dropWhile_append2) (auto simp: list_all_iff c_isspace_def)
  have ps: "parse_sign (sg @ ds) = (sg = ''-'', ds)"
    using assms(2) ds d by (auto simp: parse_sign_def)
  have tw: "takeWhile (is_digit 10) ds = ds" using assms(4) by (simp add: list_all_iff)
  show ?thesis using assms(3)
    by (simp add: strto_def dw ps skip_prefix_def tw)
qed

text \<open>In strict mode StringToInt accepts exactly the strings of optional white space, an optional
  sign and decimal digits whose value fits into 32 bits, and returns that value; every other string
  (free of NUL characters) is refused.\<close>

theorem strict_StringToInt:
  assumes "CHR 0x00 \<notin> set s"
  shows "StringToInt_int s True = Some v \<longleftrightarrow>
    (\<exists>ws sg ds. s = ws @ sg @ ds \<and> list_all c_isspace ws \<and> sg \<in> {[], ''-'', ''+''} \<and> ds \<noteq> [] \<and>
       list_all (is_digit 10) ds \<and>
       v = (if sg = ''-'' then - int (digits_val 10 ds) else int (digits_val 10 ds)) \<and>
       - (2 ^ 31) \<le> v \<and> v < 2 ^ 31)" (is "_ \<longleftrightarrow> ?R")
proof
  obtain l rest where st: "strto 10 s = (l, rest)" by fastforce
  assume a: "StringToInt_int s True = Some v"
  define L :: int where "L = max (- (2 ^ 63)) (min (2 ^ 63 - 1) l)"
  obtain err where "strtoll 10 s = (L, rest, err)" using st by (simp add: strtoll_def L_def)
  then have r: "v = L" "rest \<noteq> s" "rest = []" "\<not> (L < - (2 ^ 31) \<or> 2 ^ 31 - 1 < L)"
    using a unfolding StringToInt_int_def c_str_id [OF assms] Let_def by (auto split: if_splits)
  then have l: "v = max (- (2 ^ 63)) (min (2 ^ 63 - 1) l)" "rest \<noteq> s" "rest = []" "- (2 ^ 31) \<le> v" "v < 2 ^ 31"
    by (unfold L_def [symmetric]) (blast, blast, blast, linarith, linarith)
  obtain ws sg ds where "s = ws @ sg @ ds @ rest" "list_all c_isspace ws" "sg \<in> {[], ''-'', ''+''}"
    "ds \<noteq> []" "list_all (is_digit 10) ds"
    "l = (if sg = ''-'' then - int (digits_val 10 ds) else int (digits_val 10 ds))"
    using strto_10_forms [OF st l(2)] .
  moreover have "l = v" using l(1,4,5) by (simp add: max_def min_def split: if_splits)
  ultimately show ?R using l(3-5) by (intro exI [of _ ws] exI [of _ sg] exI [of _ ds]) simp
next
  assume ?R
  then obtain ws sg ds where s: "s = ws @ sg @ ds" and f: "list_all c_isspace ws" "sg \<in> {[], ''-'', ''+''}"
    "ds \<noteq> []" "list_all (is_digit 10) ds"
    and v: "v = (if sg = ''-'' then - int (digits_val 10 ds) else int (digits_val 10 ds))"
    "- (2 ^ 31) \<le> v" "v < 2 ^ 31" by blast
  have "strto 10 s = (v, [])" unfolding s v(1) by (rule strto_10_of_forms [OF f])
  moreover have "s \<noteq> []" using s f(3) by simp
  ultimately show "StringToInt_int s True = Some v"
    using assms v(2,3) by (simp add: StringToInt_int_def strtoll_def c_str_id)
qed

theorem strict_StringToInt_witness:
  "StringToInt_int '' -12'' True = Some (- 12)"
proof (rule strict_StringToInt [THEN iffD2])
  show "CHR 0x00 \<notin> set '' -12''" by simp
  have "digits_val 10 ''12'' = 12" by code_simp
  moreover have "list_all (is_digit 10) ''12''" by code_simp
  ultimately show "\<exists>ws sg ds. '' -12'' = ws @ sg @ ds \<and> list_all c_isspace ws \<and> sg \<in> {[], ''-'', ''+''} \<and>
      ds \<noteq> [] \<and> list_all (is_digit 10) ds \<and>
      (- 12) = (if sg = ''-'' then - int (digits_val 10 ds) else int (digits_val 10 ds)) \<and>
      - (2 ^ 31) \<le> (- 12 :: int) \<and> (- 12 :: int) < 2 ^ 31"
    by (intro exI [of _ "'' ''"] exI [of _ "''-''"] exI [of _ "''12''"]) (simp add: c_isspace_def)
qed

lemma StringToInt_uint_print: "StringToInt_uint (IntToString (uint (u :: u32))) strict = Some u"
proof -
  have u: "0 \<le> uint u" "uint u < 2 ^ 32" using uint_lt2p [of u] by simp_all
  have "strtoll 10 (IntToString (uint u)) = (uint u, [], False)"
    by (rule strtoll_uint, rule order.strict_trans [OF u(2)]) simp
  then show ?thesis using u by (simp add: StringToInt_uint_def c_str_IntToString)
qed

text \<open>What IntToString prints, StringToInt reads: signed values over the whole \<open>int\<close> range and
  unsigned ones over the whole \<open>unsigned int\<close> range, in both modes.\<close>

theorem int_string_roundtrip:
  "StringToInt_int (IntToString (sint (i :: 32 word))) strict = Some (sint i) \<and>
   StringToInt_uint (IntToString (uint (u :: u32))) strict = Some u"
proof -
  have "- (2 ^ 31) \<le> sint i" "sint i < 2 ^ 31"
    using sint_ge [of i] sint_lt [of i] by simp_all
  then show ?thesis
    by (simp add: StringToInt_int_def StringToInt_uint_print c_str_IntToString strtoll_IntToString)
qed

text \<open>Escape is invertible: reading the result with the usual backslash rules gives the original
  string back.\<close>

theorem escape_roundtrip: "unescape (EscapeString s) = s"
  by (simp add: EscapeString_def unescape_Escape)

text \<open>StringTrim removes exactly the white space at both ends: what it cuts off is white space,
  and what is left neither starts nor ends with white space.\<close>

theorem string_trim:
  "\<exists>a b. s = a @ StringTrim s @ b \<and> set (a @ b) \<subseteq> set trim_chars \<and>
     (StringTrim s = [] \<or>
      (hd (StringTrim s) \<notin> set trim_chars \<and> last (StringTrim s) \<notin> set trim_chars))"
  by (rule StringTrim_parts [of s]) auto

lemma c_tolower_separator:
  "c_tolower c = CHR ''-'' \<longleftrightarrow> c = CHR ''-''" "c_tolower c = CHR ''_'' \<longleftrightarrow> c = CHR ''_''"
proof -
  have u: "of_char (c_tolower c) = (of_char c :: nat) + 32" if "c_isupper c"
    using that by (auto simp: c_tolower_def c_isupper_def)
  show "c_tolower c = CHR ''-'' \<longleftrightarrow> c = CHR ''-''" "c_tolower c = CHR ''_'' \<longleftrightarrow> c = CHR ''_''"
    using u by (auto simp: c_isupper_def) (auto simp: c_tolower_def c_isupper_def split: if_splits)
qed

lemma ToLower_label_spaces: "ToLower (label_spaces s) = label_spaces (ToLower s)"
  by (auto simp: ToLower_def label_spaces_def c_tolower_separator c_tolower_def [of "CHR '' ''"]
      c_isupper_def)

text \<open>The label functions change nothing but the case of letters and the separators: up to case,
  the result is the label with every \<open>-\<close> and \<open>_\<close> replaced by a space.\<close>

theorem custom_capitalize_label:
  "ToLower (CustomCapitalizeLabel s) = label_spaces (ToLower s)"
proof -
  have "ToLower (fold (\<lambda>a t. acronym_loop a t 0) as s) = ToLower s" for as
    by (induction as arbitrary: s) (simp_all add: ToLower_acronym_loop)
  then show ?thesis
    by (simp add: CustomCapitalizeLabel_def CapitalizeLabel_def ToLower_capitalize_from
        ToLower_label_spaces)
qed

end
