(* ===== verification/Dmx_Text.thy ===== *)
theory Dmx_Text
  imports Dmx_Programs String_Facts
begin

text \<open>
  The text form of a \<open>DmxBuffer\<close>: \<open>ToString\<close> prints the slots as comma separated decimal numbers and
  \<open>SetFromString\<close> reads such a list, storing the low byte of every number and ignoring what comes
  after slot 512. Both work on the reference-counted storage of theory \<open>Dmx_Buffer\<close>.
\<close>

section \<open>Operations\<close>

text \<open>The loop over the tokens; a token that is not a number reads as 0.\<close>

fun from_string_loop :: "addr option \<Rightarrow> nat \<Rightarrow> string list \<Rightarrow> memory \<Rightarrow> (nat \<times> memory) option" where
  "from_string_loop p i [] m = Some (i, m)"
| "from_string_loop p i (t # ts) m =
     (if i < DMX_UNIVERSE_SIZE
      then do {
        m \<leftarrow> write_bytes p i [ucast (atoi (c_str t))] m;
        from_string_loop p (Suc i) ts m
      }
      else Some (i, m))"

definition SetFromString :: "nat \<Rightarrow> string \<Rightarrow> memory \<Rightarrow> (bool \<times> memory) option" where
  "SetFromString this input m = do {
     b \<leftarrow> objs m this;
     m \<leftarrow> (if m_copy_on_write b then CleanupMemory this m else Some m);
     b \<leftarrow> objs m this;
     m \<leftarrow> (if m_data b = None then Init this m else Some m);
     b \<leftarrow> objs m this;
     if input = [] then Some (True, put this (b\<lparr>m_length := 0\<rparr>) m)
     else do {
       (i, m) \<leftarrow> from_string_loop (m_data b) 0 (StringSplit input [CHR '','']) m;
       Some (True, put this (b\<lparr>m_length := i\<rparr>) m)
     }
   }"

definition print_slot :: "u8 \<Rightarrow> string" where
  "print_slot x = IntToString (uint x)"

fun to_string_loop :: "bool \<Rightarrow> bytes \<Rightarrow> string" where
  "to_string_loop comma [] = []"
| "to_string_loop comma (x # xs) =
     (if comma then [CHR '',''] else []) @ print_slot x @ to_string_loop True xs"

definition ToString :: "nat \<Rightarrow> memory \<Rightarrow> string option" where
  "ToString this m = do {
     b \<leftarrow> objs m this;
     if m_data b = None then Some []
     else do {
       xs \<leftarrow> read_bytes m (heap_ptr (m_data b)) 0 (m_length b);
       Some (to_string_loop False xs)
     }
   }"

text \<open>The value that a string denotes.\<close>

definition text_slots :: "string \<Rightarrow> bytes" where
  "text_slots s =
     (if s = [] then []
      else take DMX_UNIVERSE_SIZE (map (\<lambda>t. ucast (atoi (c_str t))) (StringSplit s [CHR '',''])))"

section \<open>Reading\<close>

lemma write_bytes_Cons:
  assumes "i + length (x # xs) \<le> 512" and "p = Some a" and "data_cells m a = Some blk" and "length blk = 512"
  shows "write_bytes p i (x # xs) m = do { m \<leftarrow> write_bytes p i [x] m; write_bytes p (Suc i) xs m }"
  using assms
  by (auto simp: write_bytes_def memcpy_at_one memcpy_at_Cons [of i blk x xs] fun_upd_idem_iff
      memcpy_at_def take_Suc_conv_app_nth add.commute)

lemma from_string_loop_eq:
  assumes "p = Some a" and "data_cells m a = Some blk" and "length blk = 512" and "i \<le> 512"
  shows "from_string_loop p i ts m =
    (let xs = take (512 - i) (map (\<lambda>t. ucast (atoi (c_str t))) ts)
     in map_option (Pair (i + length xs)) (write_bytes p i xs m))"
  using assms
proof (induction p i ts m arbitrary: blk rule: from_string_loop.induct)
  case (1 p i m)
  then show ?case by (simp add: write_bytes_def)
next
  case (2 p i t ts m)
  show ?case
  proof (cases "i < 512")
    case True
    let ?x = "ucast (atoi (c_str t)) :: u8"
    let ?xs = "take (512 - Suc i) (map (\<lambda>t. ucast (atoi (c_str t))) ts) :: bytes"
    let ?m = "m\<lparr>data_cells := (data_cells m)(a \<mapsto> memcpy_at blk i [?x])\<rparr>"
    have w: "write_bytes p i [?x] m = Some ?m" using 2 True by (simp add: write_bytes_def)
    have IH: "from_string_loop p (Suc i) ts ?m =
        map_option (Pair (Suc i + length ?xs)) (write_bytes p (Suc i) ?xs ?m)"
      using 2(1) [OF _ w 2(2), of "memcpy_at blk i [?x]"] 2(3-5) True by (simp add: Let_def)
    have c: "write_bytes p i (?x # ?xs) m = write_bytes p (Suc i) ?xs ?m"
      using write_bytes_Cons [of i ?x ?xs p a m blk] 2 True w by simp
    have s: "512 - i = Suc (512 - Suc i)" using True by simp
    show ?thesis using True w IH c unfolding s by (simp add: Let_def)
  qed (use 2 in \<open>simp add: write_bytes_def\<close>)
qed

lemma SetFromString_refines:
  assumes "good m" and b: "objs m obj = Some b"
  shows "\<exists>m'. SetFromString obj s m = Some (True, m') \<and> good m' \<and> same_others obj m m' \<and>
    view m' obj = Some (val_Set (text_slots s))"
proof -
  obtain m1 b1 m2 where pro:
    "(if m_copy_on_write b then CleanupMemory obj m else Some m) = Some m1"
    "objs m1 obj = Some b1" "(if m_data b1 = None then Init obj m1 else Some m1) = Some m2"
    "ready obj m2" "same_others obj m m2"
    using prologue_spec [OF assms] .
  from pro(4) obtain b2 d where b2: "objs m2 obj = Some b2" "m_data b2 = Some d" and g2: "good m2"
    by (auto simp: ready_def)
  from g2 b2 obtain blk where blk: "data_cells m2 d = Some blk" "length blk = 512" by (elim good_live)
  let ?xs = "text_slots s"
  let ?n = "length ?xs"
  have n: "0 + ?n \<le> 512" "?n \<le> 512" by (simp_all add: text_slots_def)
  obtain blk' m3 where w: "write_bytes (m_data b2) 0 ?xs m2 = Some m3"
    "good (put obj (b2\<lparr>m_length := ?n\<rparr>) m3)" "same_others obj m2 (put obj (b2\<lparr>m_length := ?n\<rparr>) m3)"
    "view (put obj (b2\<lparr>m_length := ?n\<rparr>) m3) obj = Some (Some (take ?n (memcpy_at blk' 0 ?xs)))"
    using write_ready [OF pro(4) b2(1) n] by blast
  have "SetFromString obj s m = Some (True, put obj (b2\<lparr>m_length := ?n\<rparr>) m3)"
  proof (cases "s = []")
    case True
    then have "m3 = m2" using w(1) by (simp add: text_slots_def write_bytes_def)
    with True b pro(1-3) b2(1) show ?thesis
      unfolding SetFromString_def by (simp add: text_slots_def)
  next
    case False
    then have "from_string_loop (m_data b2) 0 (StringSplit s [CHR '','']) m2 = Some (?n, m3)"
      using from_string_loop_eq [OF b2(2) blk, of 0 "StringSplit s [CHR '','']"] w(1)
      by (simp add: text_slots_def Let_def)
    with False b pro(1-3) b2(1) show ?thesis
      unfolding SetFromString_def by simp
  qed
  moreover have "val_Set ?xs = Some ?xs" using n by (simp add: val_Set_def)
  ultimately show ?thesis using w pro(5) by (auto intro: same_others_trans)
qed

interpretation set_from_string: buffer_update
  "\<lambda>obj m. map_option snd (SetFromString obj s m)" "\<lambda>_. val_Set (text_slots s)" for s
  by unfold_locales (use SetFromString_refines in fastforce)

section \<open>Printing\<close>

lemma to_string_loop_True: "xs \<noteq> [] \<Longrightarrow> to_string_loop True xs = CHR '','' # to_string_loop False xs"
  by (cases xs) simp_all

lemma to_string_loop_join: "to_string_loop False xs = join [CHR '',''] (map print_slot xs)"
proof (induction xs rule: induct_list012)
  case (3 x y zs)
  have "to_string_loop False (x # y # zs) = print_slot x @ to_string_loop True (y # zs)" by simp
  also have "to_string_loop True (y # zs) = CHR '','' # to_string_loop False (y # zs)"
    by (rule to_string_loop_True) simp
  finally show ?case using 3 by simp
qed simp_all

lemma atoi_print_slot: "ucast (atoi (c_str (print_slot x))) = x"
proof -
  have "uint x < 2 ^ 8" using uint_lt2p [of x] by simp
  then have "strtoll 10 (IntToString (uint x)) = (uint x, [], False)"
    by (intro strtoll_uint) simp
  then have "atoi (c_str (print_slot x)) = word_of_int (uint x)"
    by (simp add: print_slot_def atoi_def c_str_IntToString)
  also have "\<dots> = ucast x" by simp
  finally show ?thesis by (auto intro!: bit_word_eqI simp: bit_simps)
qed

lemma comma_not_in_print_slot: "CHR '','' \<notin> set (print_slot x)"
  using set_print_base [of 10 "CHR '',''"] is_digit_plain(6)
  by (auto simp: print_slot_def IntToString_def)

lemma text_slots_to_string:
  assumes "length xs \<le> 512"
  shows "text_slots (to_string_loop False xs) = xs"
proof (cases "xs = []")
  case False
  then have "StringSplit (to_string_loop False xs) [CHR '',''] = map print_slot xs"
    unfolding to_string_loop_join
    by (intro StringSplit_join) (auto simp: comma_not_in_print_slot)
  moreover have "to_string_loop False xs \<noteq> []"
    using False by (cases xs) (simp_all add: print_slot_def)
  ultimately show ?thesis using assms
    by (simp add: text_slots_def comp_def atoi_print_slot)
qed (simp add: text_slots_def)

section \<open>Properties\<close>

text \<open>SetFromString gives a buffer the slots written in the text (the low byte of each number, at
  most 512 of them) without touching any other buffer, whatever the buffer shared before.\<close>

theorem SetFromString_value:
  assumes "good m" and "view m obj = Some v"
  shows "\<exists>m'. SetFromString obj s m = Some (True, m') \<and> good m' \<and>
    view m' = (view m)(obj \<mapsto> Some (text_slots s))"
proof -
  from assms(2) obtain b where "objs m obj = Some b" by (auto simp: view_def)
  from SetFromString_refines [OF assms(1) this, of s] obtain m' where
    m': "SetFromString obj s m = Some (True, m')" by blast
  have "val_Set (text_slots s) = Some (text_slots s)" by (simp add: val_Set_def text_slots_def)
  with m' set_from_string.simulates [OF assms, of s] show ?thesis by auto
qed

theorem SetFromString_value_witness:
  "\<exists>m m'. run_ops [New 0, SetBytes 0 [9], NewCopy 1 0] (init_memory (\<lambda>_ _. 0)) = Some m \<and>
     SetFromString 0 ''1,,258'' m = Some (True, m') \<and>
     view m' = [0 \<mapsto> Some [1, 0, 2], 1 \<mapsto> Some [9]]"
proof -
  obtain m where m: "run_ops [New 0, SetBytes 0 [9], NewCopy 1 0] (init_memory (\<lambda>_ _. 0)) = Some m"
    "good m" "view m = val_ops [New 0, SetBytes 0 [9], NewCopy 1 0] Map.empty"
    using run_ops_refines [OF good_init, of "\<lambda>_ _. 0" "[New 0, SetBytes 0 [9], NewCopy 1 0]"] by auto
  then have v: "view m 0 = Some (Some [9])" "view m = [0 \<mapsto> Some [9], 1 \<mapsto> Some [9]]"
    by (simp_all add: val_ops_def val_Set_def)
  have "text_slots ''1,,258'' = [1, 0, 2]" by code_simp
  with SetFromString_value [OF m(2) v(1), of "''1,,258''"] m(1) v(2) show ?thesis
    by (auto simp: fun_upd_twist)
qed

text \<open>Printing a buffer and reading the text into any buffer copies the value: ToString and
  SetFromString are inverse to each other on every buffer, and ToString changes nothing.\<close>

theorem dmx_text_roundtrip:
  assumes g: "good m" and src: "view m obj = Some v" and dst: "view m oth = Some w"
  shows "\<exists>s m'. ToString obj m = Some s \<and> SetFromString oth s m = Some (True, m') \<and> good m' \<and>
    view m' = (view m)(oth \<mapsto> Some (slots v))"
proof -
  from src obtain b where b: "objs m obj = Some b" "value_of m b = v" by (auto simp: view_def)
  have str: "ToString obj m = Some (to_string_loop False (slots v)) \<and> length (slots v) \<le> 512"
  proof (cases "m_data b")
    case None
    with b show ?thesis by (auto simp: ToString_def value_of_def)
  next
    case (Some d)
    with g b(1) obtain blk where "data_cells m d = Some blk" "length blk = 512" "m_length b \<le> 512"
      by (elim good_live)
    with Some b show ?thesis
      by (auto simp: ToString_def value_of_def read_bytes_def heap_ptr_def)
  qed
  from dst obtain ob where ob: "objs m oth = Some ob" by (auto simp: view_def)
  from SetFromString_refines [OF g ob, of "to_string_loop False (slots v)"] obtain m' where
    m': "SetFromString oth (to_string_loop False (slots v)) m = Some (True, m')" by blast
  have "val_Set (text_slots (to_string_loop False (slots v))) = Some (slots v)"
    using str by (simp add: text_slots_to_string val_Set_def)
  with m' str set_from_string.simulates [OF g dst, of "to_string_loop False (slots v)"]
  show ?thesis by auto
qed

theorem dmx_text_roundtrip_witness:
  "\<exists>m s m'. run_ops [New 0, SetBytes 0 [7, 200], New 1] (init_memory (\<lambda>_ _. 0)) = Some m \<and>
     ToString 0 m = Some s \<and> SetFromString 1 s m = Some (True, m') \<and> view m' 1 = Some (Some [7, 200])"
proof -
  let ?ops = "[New 0, SetBytes 0 [7, 200], New 1]"
  obtain m where m: "run_ops ?ops (init_memory (\<lambda>_ _. 0)) = Some m" "good m"
    "view m = val_ops ?ops Map.empty"
    using run_ops_refines [OF good_init, of "\<lambda>_ _. 0" ?ops] by auto
  then have v: "view m 0 = Some (Some [7, 200])" "view m 1 = Some None"
    by (simp_all add: val_ops_def val_Set_def)
  from dmx_text_roundtrip [OF m(2) v] m(1) show ?thesis by fastforce
qed

end
