(* ===== verification/Run_Length.thy ===== *)
theory Run_Length
  imports Dmx_Value
begin

text \<open>
  The run length encoder of \<^verbatim>\<open>common/dmx/RunLengthEncoder.cpp\<close>, used by the ShowNet and SandNet
  style protocols. \<open>Encode\<close> splits the slots of a buffer into repeated runs (a byte with the top bit
  set and the run's length, then the value) and literal segments (a length byte, then the bytes);
  \<open>Decode\<close> replays such a stream into a buffer. Buffers appear by their values (theory
  \<open>Dmx_Value\<close>). Indices are \<open>unsigned int\<close>; the one subtraction that can wrap around,
  \<open>src_size - 2\<close>, is written with \<open>uint_sub\<close>. A read past the end of the input is \<open>None\<close>.
\<close>

section \<open>Encoding\<close>

definition REPEAT_FLAG :: u8 where
  "REPEAT_FLAG = 0x80"

text \<open>\<open>while (j < src_size && src.Get(i) == src.Get(j) && j - i < 0x7f) j++;\<close>\<close>

function repeat_end :: "dmx \<Rightarrow> nat \<Rightarrow> nat \<Rightarrow> nat" where
  "repeat_end src i j =
     (if j < val_Size src \<and> val_Get src i = val_Get src j \<and> j - i < 0x7f
      then repeat_end src i (Suc j) else j)"
  by pat_completeness auto
termination
  by (relation "measure (\<lambda>(src, i, j). val_Size src - j)") auto

declare repeat_end.simps [simp del]

text \<open>The search for the end of a literal segment, with the checks in the order of the source.\<close>

function literal_scan :: "dmx \<Rightarrow> nat \<Rightarrow> nat \<Rightarrow> nat" where
  "literal_scan src i j =
     (if j < uint_sub (val_Size src) 2 \<and> j - i < 0x7f then
        if j = uint_sub (val_Size src) 2 then val_Size src
        else if val_Get src j = val_Get src (j + 1) \<and> val_Get src j = val_Get src (j + 2) then j
        else literal_scan src i (Suc j)
      else j)"
  by pat_completeness auto
termination
  by (relation "measure (\<lambda>(src, i, j). i + 0x7f - j)") auto

declare literal_scan.simps [simp del]

definition literal_end :: "dmx \<Rightarrow> nat \<Rightarrow> nat" where
  "literal_end src i =
     (let j = literal_scan src i (i + 1)
      in if j \<ge> uint_sub (val_Size src) 2 then val_Size src else j)"

lemma repeat_end_ge: "j \<le> repeat_end src i j"
proof (induction src i j rule: repeat_end.induct)
  case (1 src i j)
  then show ?case by (subst repeat_end.simps) (auto intro: le_trans)
qed

lemma literal_scan_ge: "j \<le> literal_scan src i j"
proof (induction src i j rule: literal_scan.induct)
  case (1 src i j)
  then show ?case by (subst literal_scan.simps) (auto intro: le_trans)
qed

lemma literal_end_gt: "i < val_Size src \<Longrightarrow> i < literal_end src i"
  using literal_scan_ge [of "i + 1" src i] by (simp add: literal_end_def Let_def)

text \<open>The main loop. \<open>out\<close> is what has been written to \<open>data\<close>, so \<open>dst_index\<close> is its length.\<close>

function encode_loop :: "dmx \<Rightarrow> nat \<Rightarrow> nat \<Rightarrow> bytes \<Rightarrow> bool \<times> bytes" where
  "encode_loop src dst_size i out =
     (if i < val_Size src \<and> length out < dst_size then
        let j = repeat_end src i (i + 1) in
        if j - i > 2 then
          if dst_size - length out > 1
          then encode_loop src dst_size j (out @ [REPEAT_FLAG OR of_nat (j - i), val_Get src i])
          else (False, out)
        else
          let j = literal_end src i in
          if length out + j - i < dst_size
          then encode_loop src dst_size j (out @ of_nat (j - i) # take (j - i) (drop i (slots src)))
          else if dst_size - length out > 1 then
            let l = dst_size - length out - 1
            in (False, out @ of_nat l # take l (drop i (slots src)))
          else (False, out)
      else (\<not> i < val_Size src, out))"
  by pat_completeness auto
termination
proof (relation "measure (\<lambda>(src, dst_size, i, out). val_Size src - i)", goal_cases)
  case (2 src dst_size i out j)
  then show ?case by auto
next
  case (3 src dst_size i out j j')
  then show ?case using literal_end_gt [of i src] by (auto intro: diff_less_mono2)
qed simp

declare encode_loop.simps [simp del]

definition Encode :: "dmx \<Rightarrow> nat \<Rightarrow> bool \<times> bytes" where
  "Encode src data_size = encode_loop src data_size 0 []"

section \<open>Decoding\<close>

text \<open>\<open>dst->SetRange(idx, src_data + i, n)\<close>, where \<open>xs\<close> are the bytes of \<open>src_data\<close> from \<open>i\<close> on: the
  bytes that are copied must exist.\<close>

definition set_range_from :: "nat \<Rightarrow> bytes \<Rightarrow> nat \<Rightarrow> dmx \<Rightarrow> dmx option" where
  "set_range_from idx xs n d =
     (if idx < DMX_UNIVERSE_SIZE \<and> idx \<le> length (val_start d) \<and>
         length xs < min n (DMX_UNIVERSE_SIZE - idx)
      then None
      else Some (val_SetRange idx (take n xs) d))"

text \<open>The loop of \<open>Decode\<close>; the list is the part of \<open>src_data\<close> not yet consumed.\<close>

fun decode_loop :: "nat \<Rightarrow> bytes \<Rightarrow> dmx \<Rightarrow> dmx option" where
  "decode_loop idx [] d = Some d"
| "decode_loop idx (x # xs) d =
     (let segment_length = unat (x AND NOT REPEAT_FLAG) in
      if x AND REPEAT_FLAG \<noteq> 0 then
        (case xs of
           [] \<Rightarrow> None
         | v # ys \<Rightarrow>
             decode_loop (idx + segment_length) ys (val_SetRangeToValue idx v segment_length d))
      else do {
        d \<leftarrow> set_range_from idx xs segment_length d;
        decode_loop (idx + segment_length) (drop segment_length xs) d
      })"

definition Decode :: "nat \<Rightarrow> bytes \<Rightarrow> dmx \<Rightarrow> dmx option" where
  "Decode start_channel src_data dst = decode_loop start_channel src_data dst"

text \<open>No literal segment of the encoding is longer than a length byte can say (0x7f).\<close>

function short_literals :: "dmx \<Rightarrow> nat \<Rightarrow> bool" where
  "short_literals src i =
     (if i < val_Size src then
        let j = repeat_end src i (i + 1) in
        if j - i > 2 then short_literals src j
        else literal_end src i - i \<le> 0x7f \<and> short_literals src (literal_end src i)
      else True)"
  by pat_completeness auto
termination
proof (relation "measure (\<lambda>(src, i). val_Size src - i)", goal_cases)
  case (2 src i j)
  then show ?case by auto
next
  case (3 src i j)
  then show ?case using literal_end_gt [of i src] by (auto intro: diff_less_mono2)
qed simp

declare short_literals.simps [simp del]

section \<open>Segments\<close>

definition is_run :: "dmx \<Rightarrow> nat \<Rightarrow> nat \<Rightarrow> bool" where
  "is_run src i j \<longleftrightarrow> (\<forall>k. i \<le> k \<longrightarrow> k < j \<longrightarrow> val_Get src k = val_Get src i)"

lemma is_run_Suc: "is_run src i j \<Longrightarrow> val_Get src i = val_Get src j \<Longrightarrow> is_run src i (Suc j)"
  unfolding is_run_def by (metis less_Suc_eq)

lemma is_run_one [simp]: "is_run src i (Suc i)"
  unfolding is_run_def by (metis le_antisym less_Suc_eq_le)

lemma repeat_end_run:
  assumes "i < j" "is_run src i j" "j \<le> val_Size src" "j - i \<le> 0x7f"
  shows "repeat_end src i j \<le> val_Size src \<and> repeat_end src i j - i \<le> 0x7f \<and>
    is_run src i (repeat_end src i j)"
  using assms
proof (induction src i j rule: repeat_end.induct)
  case (1 src i j)
  show ?case
  proof (cases "j < val_Size src \<and> val_Get src i = val_Get src j \<and> j - i < 0x7f")
    case True
    moreover have eq: "repeat_end src i j = repeat_end src i (Suc j)"
      using True by (subst repeat_end.simps) simp
    ultimately show ?thesis
      unfolding eq using "1.prems" is_run_Suc by (intro "1.IH") auto
  next
    case False
    then have "repeat_end src i j = j" by (subst repeat_end.simps) auto
    with "1.prems" show ?thesis by simp
  qed
qed

lemma run_slots:
  assumes "is_run (Some xs) i j" and "i < j" and "j \<le> length xs"
  shows "take (j - i) (drop i xs) = replicate (j - i) (val_Get (Some xs) i)"
proof (rule nth_equalityI)
  fix k assume "k < length (take (j - i) (drop i xs))"
  then have k: "k < j - i" by simp
  then have "val_Get (Some xs) (i + k) = val_Get (Some xs) i"
    using assms(1) unfolding is_run_def by (metis add.commute le_add1 less_diff_conv)
  with k assms(3) show "take (j - i) (drop i xs) ! k = replicate (j - i) (val_Get (Some xs) i) ! k"
    by (simp add: val_Get_def val_Size_def split: if_splits)
qed (use assms in simp)

lemma literal_scan_le:
  "2 \<le> val_Size src \<Longrightarrow> j \<le> val_Size src \<Longrightarrow> literal_scan src i j \<le> val_Size src"
proof (induction src i j rule: literal_scan.induct)
  case (1 src i j)
  then show ?case by (subst literal_scan.simps) auto
qed

lemma literal_scan_one: "val_Size src = 1 \<Longrightarrow> literal_scan src 0 1 = 1"
  by (subst literal_scan.simps) (simp add: val_Get_def)

lemma literal_end_le:
  assumes "i < val_Size src" shows "literal_end src i \<le> val_Size src"
proof (cases "val_Size src = 1")
  case True
  with assms literal_scan_one [OF True] show ?thesis by (auto simp: literal_end_def Let_def)
next
  case False
  with assms literal_scan_le [of src "i + 1" i] show ?thesis by (simp add: literal_end_def Let_def)
qed

section \<open>Decoding a segment\<close>

lemma val_SetRange_at:
  "idx < 512 \<Longrightarrow> idx + length xs \<le> 512 \<Longrightarrow> idx \<le> length ys \<Longrightarrow>
   val_SetRange idx xs (Some ys) = Some (memcpy_at ys idx xs)"
  by (simp add: val_SetRange_def val_write_def val_start_def)

lemma memcpy_at_append:
  "idx \<le> length ys \<Longrightarrow> memcpy_at (memcpy_at ys idx xs) (idx + length xs) zs = memcpy_at ys idx (xs @ zs)"
  by (simp add: memcpy_at_def add_ac)

lemma flag_bytes:
  "list_all (\<lambda>n. unat (of_nat n AND NOT REPEAT_FLAG) = n \<and> of_nat n AND REPEAT_FLAG = 0 \<and>
     unat ((REPEAT_FLAG OR of_nat n) AND NOT REPEAT_FLAG) = n \<and>
     (REPEAT_FLAG OR of_nat n) AND REPEAT_FLAG \<noteq> 0) [0..<128]"
  by code_simp

lemma flag_byte:
  assumes "n \<le> 0x7f"
  shows "unat (of_nat n AND NOT REPEAT_FLAG) = n" "of_nat n AND REPEAT_FLAG = 0"
    and "unat ((REPEAT_FLAG OR of_nat n) AND NOT REPEAT_FLAG) = n" "(REPEAT_FLAG OR of_nat n) AND REPEAT_FLAG \<noteq> 0"
proof -
  from assms have "n \<in> set [0..<128]" by simp
  with flag_bytes show "unat (of_nat n AND NOT REPEAT_FLAG) = n" "of_nat n AND REPEAT_FLAG = 0"
    "unat ((REPEAT_FLAG OR of_nat n) AND NOT REPEAT_FLAG) = n" "(REPEAT_FLAG OR of_nat n) AND REPEAT_FLAG \<noteq> 0"
    unfolding list_all_iff by blast+
qed

lemma decode_repeat:
  assumes "0 < n" "n \<le> 0x7f" "idx + n \<le> 512" "idx \<le> length ys"
  shows "decode_loop idx ((REPEAT_FLAG OR of_nat n) # v # rest) (Some ys) =
    decode_loop (idx + n) rest (Some (memcpy_at ys idx (replicate n v)))"
  using assms flag_byte [OF assms(2)]
  by (simp add: Let_def val_SetRangeToValue_def val_write_def val_start_def)

lemma decode_literal:
  assumes "xs \<noteq> []" "length xs \<le> 0x7f" "idx + length xs \<le> 512" "idx \<le> length ys"
  shows "decode_loop idx (of_nat (length xs) # xs @ rest) (Some ys) =
    decode_loop (idx + length xs) rest (Some (memcpy_at ys idx xs))"
proof -
  from assms(1,3) have "idx < 512" by (cases xs) auto
  with assms flag_byte [OF assms(2)] show ?thesis
    by (simp add: Let_def set_range_from_def val_SetRange_at)
qed

section \<open>Encoding and decoding\<close>

text \<open>\<open>replays enc xs\<close>: decoding \<open>enc\<close> stores exactly the slots \<open>xs\<close>, wherever they fit.\<close>

definition replays :: "bytes \<Rightarrow> bytes \<Rightarrow> bool" where
  "replays enc xs \<longleftrightarrow>
     (\<forall>idx ys. idx \<le> length ys \<longrightarrow> idx + length xs \<le> 512 \<longrightarrow>
        decode_loop idx enc (Some ys) = Some (Some (memcpy_at ys idx xs)))"

lemma replays_Nil [simp]: "replays [] []"
  by (simp add: replays_def)

lemma replays_repeat:
  assumes "replays enc xs" "0 < n" "n \<le> 0x7f"
  shows "replays ((REPEAT_FLAG OR of_nat n) # v # enc) (replicate n v @ xs)"
  unfolding replays_def
proof (intro allI impI)
  fix idx and ys :: bytes
  assume "idx \<le> length ys" "idx + length (replicate n v @ xs) \<le> 512"
  with assms decode_repeat [of n idx ys v enc] memcpy_at_append [of idx ys "replicate n v" xs]
  show "decode_loop idx ((REPEAT_FLAG OR of_nat n) # v # enc) (Some ys) =
      Some (Some (memcpy_at ys idx (replicate n v @ xs)))"
    by (simp add: replays_def memcpy_at_def)
qed

lemma replays_literal:
  assumes "replays enc xs" "zs \<noteq> []" "length zs \<le> 0x7f"
  shows "replays (of_nat (length zs) # zs @ enc) (zs @ xs)"
  unfolding replays_def
proof (intro allI impI)
  fix idx and ys :: bytes
  assume "idx \<le> length ys" "idx + length (zs @ xs) \<le> 512"
  with assms decode_literal [of zs idx ys enc] memcpy_at_append [of idx ys zs xs]
  show "decode_loop idx (of_nat (length zs) # zs @ enc) (Some ys) = Some (Some (memcpy_at ys idx (zs @ xs)))"
    by (simp add: replays_def memcpy_at_def)
qed

lemma take_segment: "i \<le> j \<Longrightarrow> take (j - i) (drop i xs) @ take k (drop j xs) = take (j - i + k) (drop i xs)"
  using take_add [of "j - i" k "drop i xs"] by simp

lemma encode_replays:
  assumes "encode_loop (Some xs) dst_size i out = (ok, out')" and "short_literals (Some xs) i"
    and "i \<le> length xs"
  shows "\<exists>enc k. out' = out @ enc \<and> (ok \<longrightarrow> k = length xs - i) \<and> replays enc (take k (drop i xs))"
  using assms
proof (induction "Some xs" dst_size i out arbitrary: ok out' rule: encode_loop.induct)
  case (1 dst_size i out)
  let ?src = "Some xs"
  note eq = encode_loop.simps [of ?src dst_size i out]
  have size: "val_Size ?src = length xs" by (simp add: val_Size_def)
  show ?case
  proof (cases "i < length xs \<and> length out < dst_size")
    case False
    with "1.prems" eq size have "out' = out" "ok = (\<not> i < length xs)" by auto
    with "1.prems"(3) show ?thesis by (intro exI [of _ "[]"] exI [of _ 0]) auto
  next
    case True
    then have c: "i < val_Size ?src \<and> length out < dst_size" by (simp add: size)
    let ?j = "repeat_end ?src i (i + 1)"
    have run: "?j \<le> length xs" "?j - i \<le> 0x7f" "is_run ?src i ?j" "i < ?j"
      using repeat_end_run [of i "i + 1" ?src] repeat_end_ge [of "i + 1" ?src i] True size by auto
    show ?thesis
    proof (cases "?j - i > 2")
      case rep: True
      show ?thesis
      proof (cases "dst_size - length out > 1")
        case room: True
        let ?seg = "[REPEAT_FLAG OR of_nat (?j - i), val_Get ?src i]"
        have "encode_loop ?src dst_size ?j (out @ ?seg) = (ok, out')"
          using "1.prems"(1) eq True rep room size by (simp add: Let_def)
        moreover have "short_literals ?src ?j"
          using "1.prems"(2) True rep size by (simp add: short_literals.simps [of ?src i] Let_def)
        ultimately obtain enc k where e: "out' = (out @ ?seg) @ enc" "ok \<longrightarrow> k = length xs - ?j"
            "replays enc (take k (drop ?j xs))"
          using "1.hyps"(1) [OF c refl rep room _ _ run(1)] by blast
        have "replays (?seg @ enc) (replicate (?j - i) (val_Get ?src i) @ take k (drop ?j xs))"
          using replays_repeat [OF e(3), of "?j - i" "val_Get ?src i"] run by simp
        then have "replays (?seg @ enc) (take (?j - i + k) (drop i xs))"
          unfolding run_slots [OF run(3,4,1), symmetric] take_segment [OF less_imp_le, OF run(4)] .
        with e run show ?thesis by (intro exI [of _ "?seg @ enc"] exI [of _ "?j - i + k"]) auto
      next
        case False
        with "1.prems"(1) eq True rep size have "out' = out" "\<not> ok" by (simp_all add: Let_def)
        then show ?thesis by (intro exI [of _ "[]"] exI [of _ 0]) simp
      qed
    next
      case lit: False
      let ?l = "literal_end ?src i"
      have l: "i < ?l" "?l \<le> length xs" using literal_end_gt [of i ?src] literal_end_le [of i ?src] True size by auto
      have short: "?l - i \<le> 0x7f" "short_literals ?src ?l"
        using "1.prems"(2) True lit size by (simp_all add: short_literals.simps [of ?src i] Let_def)
      let ?zs = "take (?l - i) (drop i xs)"
      have zs: "length ?zs = ?l - i" "?zs \<noteq> []" using l by auto
      show ?thesis
      proof (cases "length out + ?l - i < dst_size")
        case room: True
        have "encode_loop ?src dst_size ?l (out @ of_nat (?l - i) # ?zs) = (ok, out')"
          using "1.prems"(1) eq True lit room size by (simp add: Let_def)
        then obtain enc k where e: "out' = (out @ of_nat (?l - i) # ?zs) @ enc" "ok \<longrightarrow> k = length xs - ?l"
            "replays enc (take k (drop ?l xs))"
          using "1.hyps"(2) [OF c refl lit refl room _ short(2) l(2)] by auto
        have "replays (of_nat (length ?zs) # ?zs @ enc) (?zs @ take k (drop ?l xs))"
          using replays_literal [OF e(3) zs(2)] zs(1) short(1) by simp
        then have "replays (of_nat (?l - i) # ?zs @ enc) (take (?l - i + k) (drop i xs))"
          unfolding zs(1) take_segment [OF less_imp_le, OF l(1)] .
        with e l show ?thesis
          by (intro exI [of _ "of_nat (?l - i) # ?zs @ enc"] exI [of _ "?l - i + k"]) auto
      next
        case full: False
        show ?thesis
        proof (cases "dst_size - length out > 1")
          case room: True
          let ?k = "dst_size - length out - 1"
          let ?ws = "take ?k (drop i xs)"
          have k: "0 < ?k" "?k \<le> ?l - i" using full room l by auto
          then have ws: "length ?ws = ?k" "?ws \<noteq> []" using l by auto
          have "out' = out @ of_nat ?k # ?ws" "\<not> ok"
            using "1.prems"(1) eq True lit full room size by (simp_all add: Let_def)
          moreover have "replays (of_nat (length ?ws) # ?ws @ []) (?ws @ [])"
            using k short(1) ws by (intro replays_literal) auto
          ultimately show ?thesis
            unfolding ws(1) by (intro exI [of _ "of_nat ?k # ?ws"] exI [of _ ?k]) simp
        next
          case False
          with "1.prems"(1) eq True lit full size have "out' = out" "\<not> ok" by (simp_all add: Let_def)
          then show ?thesis by (intro exI [of _ "[]"] exI [of _ 0]) simp
        qed
      qed
    qed
  qed
qed

text \<open>Twice the number of slots is always enough room.\<close>

lemma encode_enough_room:
  assumes "2 * val_Size src \<le> dst_size" and "length out \<le> 2 * i" and "i \<le> val_Size src"
  shows "fst (encode_loop src dst_size i out)"
  using assms
proof (induction src dst_size i out rule: encode_loop.induct)
  case (1 src dst_size i out)
  note eq = encode_loop.simps [of src dst_size i out]
  show ?case
  proof (cases "i < val_Size src")
    case False
    then show ?thesis by (simp add: eq)
  next
    case True
    with "1.prems" have c: "i < val_Size src \<and> length out < dst_size" by simp
    let ?j = "repeat_end src i (i + 1)" and ?l = "literal_end src i"
    have j: "?j \<le> val_Size src" "i < ?j"
      using repeat_end_run [of i "i + 1" src] repeat_end_ge [of "i + 1" src i] True by auto
    have l: "?l \<le> val_Size src" "i < ?l" using literal_end_le literal_end_gt True by auto
    show ?thesis
    proof (cases "?j - i > 2")
      case rep: True
      then have room: "dst_size - length out > 1" using "1.prems" j by simp
      have "fst (encode_loop src dst_size ?j (out @ [REPEAT_FLAG OR of_nat (?j - i), val_Get src i]))"
        using "1.prems" j by (intro "1.IH"(1) [OF c refl rep room]) auto
      with c rep room show ?thesis by (simp add: eq Let_def)
    next
      case lit: False
      have room: "length out + ?l - i < dst_size" using "1.prems" l by simp
      have "fst (encode_loop src dst_size ?l (out @ of_nat (?l - i) # take (?l - i) (drop i (slots src))))"
        using "1.prems" l by (intro "1.IH"(2) [OF c refl lit refl room]) auto
      with c lit room show ?thesis by (simp add: eq Let_def)
    qed
  qed
qed

lemma encode_within_room:
  "length out \<le> dst_size \<Longrightarrow> length (snd (encode_loop src dst_size i out)) \<le> dst_size"
proof (induction src dst_size i out rule: encode_loop.induct)
  case (1 src dst_size i out)
  note eq = encode_loop.simps [of src dst_size i out]
  show ?case
  proof (cases "i < val_Size src \<and> length out < dst_size")
    case False
    with "1.prems" show ?thesis by (auto simp: eq)
  next
    case c: True
    let ?j = "repeat_end src i (i + 1)" and ?l = "literal_end src i"
    have l: "i < ?l" using literal_end_gt c by auto
    have "?j - i > 2 \<Longrightarrow> dst_size - length out > 1 \<Longrightarrow> length (snd (encode_loop src dst_size ?j
        (out @ [REPEAT_FLAG OR of_nat (?j - i), val_Get src i]))) \<le> dst_size"
      by (rule "1.IH"(1) [OF c refl]) auto
    moreover have "\<not> ?j - i > 2 \<Longrightarrow> length out + ?l - i < dst_size \<Longrightarrow> length (snd (encode_loop src dst_size ?l
        (out @ of_nat (?l - i) # take (?l - i) (drop i (slots src))))) \<le> dst_size"
      using l by (intro "1.IH"(2) [OF c refl _ refl]) auto
    ultimately show ?thesis using c by (auto simp: eq Let_def)
  qed
qed

lemma short_literals_small: "val_Size src \<le> 0x7f \<Longrightarrow> short_literals src i"
proof (induction src i rule: short_literals.induct)
  case (1 src i)
  show ?case
  proof (cases "i < val_Size src")
    case True
    then show ?thesis
      using "1" literal_end_le [OF True] by (subst short_literals.simps) (auto simp: Let_def)
  qed (simp add: short_literals.simps)
qed

section \<open>Properties\<close>

text \<open>C28: Round trip of the run length encoding. If every literal segment fits its length byte and
  the output array has room for twice the slots, \<open>Encode\<close> succeeds, stays inside the array, and
  decoding its output at \<open>start\<close> into a buffer that reaches that far overwrites exactly the slots
  from \<open>start\<close> on with the encoded ones, reading nothing past the end of the stream.\<close>

theorem rle_roundtrip:
  assumes "short_literals (Some xs) 0" and "2 * length xs \<le> data_size"
    and "start \<le> length ys" and "start + length xs \<le> 512"
  shows "\<exists>enc. Encode (Some xs) data_size = (True, enc) \<and> length enc \<le> data_size \<and>
    Decode start enc (Some ys) = Some (Some (memcpy_at ys start xs))"
proof -
  have size: "val_Size (Some xs) = length xs" by (simp add: val_Size_def)
  obtain ok out where e: "encode_loop (Some xs) data_size 0 [] = (ok, out)" by fastforce
  have ok: "ok" using encode_enough_room [of "Some xs" data_size "[]" 0] assms(2) size e by simp
  have "length out \<le> data_size" using encode_within_room [of "[]" data_size "Some xs" 0] e by simp
  moreover from encode_replays [OF e assms(1)] ok have "replays out xs" by auto
  ultimately show ?thesis
    using e ok assms(3,4) by (auto simp: Encode_def Decode_def replays_def)
qed

lemma rle_roundtrip_witness:
  "\<exists>enc. Encode (Some [7, 7, 7, 7, 1, 2, 2, 0, 0, 0]) 20 = (True, enc) \<and> length enc \<le> 20 \<and>
     Decode 2 enc (Some [9, 9]) = Some (Some [9, 9, 7, 7, 7, 7, 1, 2, 2, 0, 0, 0])"
  using rle_roundtrip [of "[7, 7, 7, 7, 1, 2, 2, 0, 0, 0]" 20 2 "[9, 9]"]
  by (simp add: short_literals_small val_Size_def memcpy_at_def)

text \<open>Graceful truncation. Whatever the size of the output array, \<open>Encode\<close> never writes past it,
  and what it has written decodes to a prefix of the slots.\<close>

theorem rle_truncation:
  assumes "short_literals (Some xs) 0" and "length xs \<le> 512"
  shows "\<exists>ok enc k. Encode (Some xs) data_size = (ok, enc) \<and> length enc \<le> data_size \<and>
    (ok \<longrightarrow> k = length xs) \<and> Decode 0 enc (Some []) = Some (Some (take k xs))"
proof -
  obtain ok out where e: "encode_loop (Some xs) data_size 0 [] = (ok, out)" by fastforce
  have "length out \<le> data_size" using encode_within_room [of "[]" data_size "Some xs" 0] e by simp
  moreover from encode_replays [OF e assms(1)] obtain k where "ok \<longrightarrow> k = length xs" "replays out (take k xs)"
    by auto
  moreover from this(2) assms(2) have "decode_loop 0 out (Some []) = Some (Some (take k xs))"
    by (auto simp: replays_def memcpy_at_def)
  ultimately show ?thesis using e by (auto simp: Encode_def Decode_def)
qed

lemma rle_truncation_witness:
  "\<exists>ok enc k. Encode (Some [1, 2, 3, 4]) 3 = (ok, enc) \<and> length enc \<le> 3 \<and>
     (ok \<longrightarrow> k = length [1, 2, 3, 4 :: u8]) \<and> Decode 0 enc (Some []) = Some (Some (take k [1, 2, 3, 4]))"
  using rle_truncation [of "[1, 2, 3, 4]" 3] by (simp add: short_literals_small val_Size_def)

text \<open>The encoder does not keep literal segments within the 127 slots their length byte can
  express: after the length check it extends a segment over the last two slots. For the 128 slots
  0, 1, 0, 1, \<open>\<dots>\<close> it reports success, but the length byte becomes 0x80, which the decoder takes for a
  repeat flag, and the round trip fails. (Buffers of at most 127 slots are not affected, by
  \<open>short_literals_small\<close>.)\<close>

theorem rle_literal_overflow:
  "let xs = concat (replicate 64 [0, 1]); (ok, enc) = Encode (Some xs) 256 in
   ok \<and> hd enc = REPEAT_FLAG \<and> Decode 0 enc (Some []) \<noteq> Some (Some xs)"
  by code_simp

end
