(* ===== verification/RDM_UID.thy ===== *)
theory RDM_UID
  imports String_Facts
begin

text \<open>
  RDM unique identifiers (\<^verbatim>\<open>include/ola/rdm/UID.h\<close>, \<^verbatim>\<open>common/rdm/UID.cpp\<close>) and sets of them
  (\<^verbatim>\<open>include/ola/rdm/UIDSet.h\<close>). A UID is a 16 bit manufacturer id and a 32 bit device id, ordered by
  \<open>cmp\<close>. A \<open>std::set<UID>\<close> is its sequence of elements in iteration order, a strictly ascending
  list; \<open>set_union\<close> and \<open>set_difference\<close> are the merging algorithms of the C++ library.
\<close>

section \<open>UIDs\<close>

datatype uid = UID (esta_id: u16) (device_id: u32)

definition ALL_MANUFACTURERS :: u16 where
  "ALL_MANUFACTURERS = 0xffff"

definition ALL_DEVICES :: u32 where
  "ALL_DEVICES = 0xffffffff"

definition UID_SIZE :: nat where
  "UID_SIZE = 6"

text \<open>The constructor from binary data; the caller provides six bytes.\<close>

definition UID_from_data :: "bytes \<Rightarrow> uid option" where
  "UID_from_data data =
     (if length data < 6 then None
      else Some (UID (of_be16 (data ! 0) (data ! 1))
                     (of_be32 (data ! 2) (data ! 3) (data ! 4) (data ! 5))))"

definition cmp_int :: "u32 \<Rightarrow> u32 \<Rightarrow> int" where
  "cmp_int a b = (if a = b then 0 else if a < b then - 1 else 1)"

definition cmp :: "uid \<Rightarrow> uid \<Rightarrow> int" where
  "cmp a b =
     (if esta_id a = esta_id b then cmp_int (device_id a) (device_id b)
      else cmp_int (ucast (esta_id a)) (ucast (esta_id b)))"

definition IsBroadcast :: "uid \<Rightarrow> bool" where
  "IsBroadcast u \<longleftrightarrow> device_id u = ALL_DEVICES"

definition DirectedToUID :: "uid \<Rightarrow> uid \<Rightarrow> bool" where
  "DirectedToUID this u \<longleftrightarrow>
     cmp this u = 0 \<or>
     (IsBroadcast this \<and> (esta_id this = ALL_MANUFACTURERS \<or> esta_id this = esta_id u))"

definition AllDevices :: uid where
  "AllDevices = UID ALL_MANUFACTURERS ALL_DEVICES"

definition VendorcastAddress :: "u16 \<Rightarrow> uid" where
  "VendorcastAddress e = UID e ALL_DEVICES"

definition VendorcastAddress_of :: "uid \<Rightarrow> uid" where
  "VendorcastAddress_of u = UID (esta_id u) ALL_DEVICES"

text \<open>\<open>Pack\<close> writes to the first six bytes of the buffer if there are that many.\<close>

definition Pack :: "uid \<Rightarrow> bytes \<Rightarrow> bytes option" where
  "Pack u buffer =
     (if length buffer < UID_SIZE then None
      else Some (memcpy_at buffer 0 (be16 (esta_id u) @ be32 (device_id u))))"

definition UID_ToString :: "uid \<Rightarrow> string" where
  "UID_ToString u =
     pad_zeros 4 (print_base 16 (unat (esta_id u))) @ '':'' @
     pad_zeros 8 (print_base 16 (unat (device_id u)))"

definition FromString :: "string \<Rightarrow> uid option" where
  "FromString s =
     (let tokens = StringSplit s '':''
      in if length tokens \<noteq> 2 \<or> length (tokens ! 0) \<noteq> 4 \<or> length (tokens ! 1) \<noteq> 8 then None
         else case HexStringToInt_u16 (tokens ! 0) of
                None \<Rightarrow> None
              | Some e \<Rightarrow> (case HexStringToInt_u32 (tokens ! 1) of
                             None \<Rightarrow> None
                           | Some d \<Rightarrow> Some (UID e d)))"

section \<open>Sets of UIDs\<close>

text \<open>The element order of \<open>std::set<UID>\<close> is \<open>operator<\<close>.\<close>

definition uid_less :: "uid \<Rightarrow> uid \<Rightarrow> bool" where
  "uid_less a b \<longleftrightarrow> cmp a b < 0"

type_synonym uid_set = "uid list"

fun AddUID :: "uid \<Rightarrow> uid_set \<Rightarrow> uid_set" where
  "AddUID u [] = [u]"
| "AddUID u (x # xs) = (if uid_less u x then u # x # xs else if uid_less x u then x # AddUID u xs else x # xs)"

fun RemoveUID :: "uid \<Rightarrow> uid_set \<Rightarrow> uid_set" where
  "RemoveUID u [] = []"
| "RemoveUID u (x # xs) = (if uid_less u x then x # xs else if uid_less x u then x # RemoveUID u xs else xs)"

fun Contains :: "uid_set \<Rightarrow> uid \<Rightarrow> bool" where
  "Contains [] u \<longleftrightarrow> False"
| "Contains (x # xs) u \<longleftrightarrow> (if uid_less u x then False else if uid_less x u then Contains xs u else True)"

definition UIDSet_Size :: "uid_set \<Rightarrow> nat" where
  "UIDSet_Size s = length s"

definition Clear :: "uid_set \<Rightarrow> uid_set" where
  "Clear s = []"

text \<open>\<open>std::set_union\<close> and \<open>std::set_difference\<close> on the two iteration sequences.\<close>

fun Union :: "uid_set \<Rightarrow> uid_set \<Rightarrow> uid_set" where
  "Union [] ys = ys"
| "Union (x # xs) [] = x # xs"
| "Union (x # xs) (y # ys) =
     (if uid_less x y then x # Union xs (y # ys)
      else if uid_less y x then y # Union (x # xs) ys
      else x # Union xs ys)"

fun SetDifference :: "uid_set \<Rightarrow> uid_set \<Rightarrow> uid_set" where
  "SetDifference [] ys = []"
| "SetDifference (x # xs) [] = x # xs"
| "SetDifference (x # xs) (y # ys) =
     (if uid_less x y then x # SetDifference xs (y # ys)
      else if uid_less y x then SetDifference (x # xs) ys
      else SetDifference xs ys)"

definition UIDSet_eq :: "uid_set \<Rightarrow> uid_set \<Rightarrow> bool" where
  "UIDSet_eq s t \<longleftrightarrow> length s = length t \<and> list_all2 (\<lambda>a b. cmp a b = 0) s t"

fun UIDSet_ToString :: "uid_set \<Rightarrow> string" where
  "UIDSet_ToString [] = []"
| "UIDSet_ToString [u] = UID_ToString u"
| "UIDSet_ToString (u # v # us) = UID_ToString u @ '','' @ UIDSet_ToString (v # us)"

section \<open>The order\<close>

lemma ucast_u16_less [simp]: "(ucast (a :: u16) :: u32) < ucast b \<longleftrightarrow> a < b"
  by transfer simp

lemma ucast_u16_eq [simp]: "(ucast (a :: u16) :: u32) = ucast b \<longleftrightarrow> a = b"
  by (metis ucast_u16_less less_irrefl linorder_neqE)

lemma cmp_0 [simp]: "cmp a b = 0 \<longleftrightarrow> a = b"
  by (cases a; cases b) (auto simp: cmp_def cmp_int_def)

lemma uid_less_iff:
  "uid_less a b \<longleftrightarrow> esta_id a < esta_id b \<or> (esta_id a = esta_id b \<and> device_id a < device_id b)"
  by (auto simp: uid_less_def cmp_def cmp_int_def)

instantiation uid :: linorder
begin

definition less_uid :: "uid \<Rightarrow> uid \<Rightarrow> bool" where
  "less_uid a b \<longleftrightarrow> uid_less a b"

definition less_eq_uid :: "uid \<Rightarrow> uid \<Rightarrow> bool" where
  "less_eq_uid a b \<longleftrightarrow> a = b \<or> uid_less a b"

instance
proof
  fix x y z :: uid
  show "x < y \<longleftrightarrow> x \<le> y \<and> \<not> y \<le> x"
    by (auto simp: less_uid_def less_eq_uid_def uid_less_iff)
  show "x \<le> x" by (simp add: less_eq_uid_def)
  show "x \<le> y \<Longrightarrow> y \<le> z \<Longrightarrow> x \<le> z"
    by (auto simp: less_eq_uid_def uid_less_iff)
  show "x \<le> y \<Longrightarrow> y \<le> x \<Longrightarrow> x = y"
    by (auto simp: less_eq_uid_def uid_less_iff)
  show "x \<le> y \<or> y \<le> x"
    by (cases x; cases y) (auto simp: less_eq_uid_def uid_less_iff)
qed

end

lemma uid_less [simp]: "uid_less a b \<longleftrightarrow> a < b"
  by (simp add: less_uid_def)

section \<open>The contract of a UID set\<close>

text \<open>What the clients of \<open>UIDSet\<close> rely on: the operations keep the invariant, and on the set of
  elements they are the set operations.\<close>

locale uid_set_contract =
  fixes inv :: "'s \<Rightarrow> bool"
    and abs :: "'s \<Rightarrow> uid set"
    and empty :: 's
    and add remove :: "uid \<Rightarrow> 's \<Rightarrow> 's"
    and member :: "'s \<Rightarrow> uid \<Rightarrow> bool"
    and union diff :: "'s \<Rightarrow> 's \<Rightarrow> 's"
    and size_of :: "'s \<Rightarrow> nat"
  assumes empty_inv: "inv empty" and empty_abs: "abs empty = {}"
    and add_inv: "inv s \<Longrightarrow> inv (add u s)" and add_abs: "inv s \<Longrightarrow> abs (add u s) = insert u (abs s)"
    and remove_inv: "inv s \<Longrightarrow> inv (remove u s)"
    and remove_abs: "inv s \<Longrightarrow> abs (remove u s) = abs s - {u}"
    and member_abs: "inv s \<Longrightarrow> member s u \<longleftrightarrow> u \<in> abs s"
    and union_inv: "inv s \<Longrightarrow> inv t \<Longrightarrow> inv (union s t)"
    and union_abs: "inv s \<Longrightarrow> inv t \<Longrightarrow> abs (union s t) = abs s \<union> abs t"
    and diff_inv: "inv s \<Longrightarrow> inv t \<Longrightarrow> inv (diff s t)"
    and diff_abs: "inv s \<Longrightarrow> inv t \<Longrightarrow> abs (diff s t) = abs s - abs t"
    and size_abs: "inv s \<Longrightarrow> size_of s = card (abs s)"
    and abs_finite: "finite (abs s)"
    and abs_inj: "inv s \<Longrightarrow> inv t \<Longrightarrow> abs s = abs t \<Longrightarrow> s = t"
begin

lemmas laws = empty_inv empty_abs add_inv add_abs remove_inv remove_abs member_abs union_inv union_abs
  diff_inv diff_abs size_abs

text \<open>A set built by adding UIDs one by one does not depend on their order.\<close>

lemma fold_add: "inv s \<Longrightarrow> inv (fold add us s) \<and> abs (fold add us s) = abs s \<union> set us"
  by (induction us arbitrary: s) (auto simp: laws)

lemma fold_add_order: "set us = set vs \<Longrightarrow> fold add us empty = fold add vs empty"
  using fold_add [OF empty_inv, of us] fold_add [OF empty_inv, of vs]
  by (intro abs_inj) (simp_all add: empty_abs)

text \<open>Splitting a new set against an old one, as a universe does with a discovery result.\<close>

lemma partition:
  assumes "inv s" and "inv t"
  shows "union (diff s t) (diff s (diff s t)) = s"
proof -
  have "abs (diff s t) = abs s - abs t" "abs (diff s (diff s t)) = abs s \<inter> abs t"
    using assms by (auto simp: laws)
  then have "abs (union (diff s t) (diff s (diff s t))) = abs s"
    using assms by (auto simp: laws)
  then show ?thesis using assms by (intro abs_inj) (auto simp: laws)
qed

end

subsection \<open>The implementation meets the contract\<close>

abbreviation uids_ok :: "uid_set \<Rightarrow> bool" where
  "uids_ok s \<equiv> sorted_wrt (<) s"

lemma set_AddUID [simp]: "set (AddUID u s) = insert u (set s)"
  by (induction s) auto

lemma AddUID_ok: "uids_ok s \<Longrightarrow> uids_ok (AddUID u s)"
  by (induction s) auto

lemma set_RemoveUID: "uids_ok s \<Longrightarrow> set (RemoveUID u s) = set s - {u}"
  by (induction s) auto

lemma RemoveUID_ok: "uids_ok s \<Longrightarrow> uids_ok (RemoveUID u s)"
  by (induction s) (auto simp: set_RemoveUID)

lemma Contains_iff: "uids_ok s \<Longrightarrow> Contains s u \<longleftrightarrow> u \<in> set s"
  by (induction s) auto

lemma set_Union [simp]: "set (Union s t) = set s \<union> set t"
  by (induction s t rule: Union.induct) auto

lemma Union_ok: "uids_ok s \<Longrightarrow> uids_ok t \<Longrightarrow> uids_ok (Union s t)"
  by (induction s t rule: Union.induct) auto

lemma set_SetDifference: "uids_ok s \<Longrightarrow> uids_ok t \<Longrightarrow> set (SetDifference s t) = set s - set t"
proof (induction s t rule: SetDifference.induct)
  case (3 x xs y ys)
  consider "x < y" | "y < x" | "x = y" by (rule linorder_cases)
  then show ?case
  proof cases
    case 1
    then have "x \<notin> set (y # ys)" using 3(5) by auto
    with 1 3(1,4,5) show ?thesis by auto
  next
    case 2
    then have "y \<notin> set (x # xs)" using 3(4) by auto
    with 2 3(2,4,5) show ?thesis by auto
  next
    case 3
    with "3.IH"(3) "3.prems" show ?thesis by auto
  qed
qed simp_all

lemma SetDifference_ok: "uids_ok s \<Longrightarrow> uids_ok t \<Longrightarrow> uids_ok (SetDifference s t)"
  by (induction s t rule: SetDifference.induct) (auto simp: set_SetDifference)

interpretation uids: uid_set_contract uids_ok set "[]" AddUID RemoveUID Contains Union SetDifference
  UIDSet_Size
proof (unfold_locales, goal_cases)
  case (12 s)
  then show ?case by (simp add: UIDSet_Size_def strict_sorted_iff distinct_card)
next
  case (14 s t)
  then show ?case by (simp add: strict_sorted_equal)
qed (simp_all add: AddUID_ok set_RemoveUID RemoveUID_ok Contains_iff Union_ok set_SetDifference
    SetDifference_ok)

section \<open>Binary form\<close>

lemma UID_from_data_Pack: "UID_from_data (be16 (esta_id u) @ be32 (device_id u) @ rest) = Some u"
proof -
  let ?d = "be16 (esta_id u) @ be32 (device_id u) @ rest"
  have "?d ! 0 = be16 (esta_id u) ! 0" "?d ! 1 = be16 (esta_id u) ! Suc 0"
    "?d ! 2 = be32 (device_id u) ! 0" "?d ! 3 = be32 (device_id u) ! Suc 0"
    "?d ! 4 = be32 (device_id u) ! 2" "?d ! 5 = be32 (device_id u) ! 3"
    by (simp_all add: nth_append)
  then have "UID_from_data ?d = Some (UID (esta_id u) (device_id u))"
    by (simp only: UID_from_data_def of_be16_be16 of_be32_be32) simp
  then show ?thesis by simp
qed

text \<open>Packing a UID into a buffer and reading it back gives the UID; Pack fails exactly on buffers
  shorter than six bytes and keeps the length and the bytes after the sixth.\<close>

theorem uid_pack_roundtrip:
  "case Pack u buffer of
     None \<Rightarrow> length buffer < 6
   | Some b \<Rightarrow> 6 \<le> length buffer \<and> UID_from_data b = Some u \<and> length b = length buffer \<and>
               drop 6 b = drop 6 buffer"
proof (cases "length buffer < 6")
  case False
  then have "Pack u buffer = Some (be16 (esta_id u) @ be32 (device_id u) @ drop 6 buffer)"
    by (simp add: Pack_def UID_SIZE_def memcpy_at_def)
  then show ?thesis using False UID_from_data_Pack [of u "drop 6 buffer"] by simp
qed (simp add: Pack_def UID_SIZE_def)

text \<open>A message's destination reaches a responder exactly when the UIDs are equal, the destination
  is the broadcast UID, or it is the vendorcast UID of the responder's manufacturer.\<close>

theorem DirectedToUID_iff:
  "DirectedToUID dest u \<longleftrightarrow>
     dest = u \<or> dest = AllDevices \<or> dest = VendorcastAddress (esta_id u)"
  by (cases dest)
    (auto simp: DirectedToUID_def IsBroadcast_def AllDevices_def VendorcastAddress_def)

section \<open>Text form\<close>

lemma digit_char_tolower: "digit_val c = Some d \<Longrightarrow> d < 16 \<Longrightarrow> digit_char d = c_tolower c"
proof -
  assume d: "digit_val c = Some d" "d < 16"
  have c: "char_of (of_char c :: nat) = c" by simp
  consider "c_isdigit c" | "c_isupper c" "\<not> c_isdigit c" | "c_islower c" "\<not> c_isupper c" "\<not> c_isdigit c"
    using d by (auto simp: digit_val_def split: if_splits)
  then show ?thesis
  proof cases
    case 1
    then have "\<not> c_isupper c" "48 + d = of_char c" "d < 10"
      using d by (auto simp: digit_val_def c_isdigit_def c_isupper_def split: if_splits)
    then show ?thesis using c by (simp add: digit_char_def c_tolower_def)
  next
    case 2
    then have n: "87 + d = of_char c + 32" and "\<not> d < 10"
      using d by (auto simp: digit_val_def c_isdigit_def c_isupper_def split: if_splits)
    then have "digit_char d = char_of (87 + d)" by (simp add: digit_char_def)
    also have "\<dots> = c_tolower c" unfolding n using 2(1) by (simp add: c_tolower_def)
    finally show ?thesis .
  next
    case 3
    then have "87 + d = of_char c" "\<not> d < 10"
      using d by (auto simp: digit_val_def c_isdigit_def c_islower_def split: if_splits)
    then show ?thesis using c 3 by (simp add: digit_char_def c_tolower_def)
  qed
qed

lemma char_of_48: "char_of (48 :: nat) = CHR ''0''"
  by code_simp

lemma pad_print_digits:
  assumes "ds \<noteq> []" and "list_all (is_digit 16) ds"
  shows "pad_zeros (length ds) (print_base 16 (digits_val 16 ds)) = ToLower ds"
  using assms
proof (induction ds rule: rev_nonempty_induct)
  case (single c)
  then obtain d where "digit_val c = Some d" "d < 16" by (auto simp: is_digit_def split: option.splits)
  then show ?case
    by (simp add: digits_val_def print_base_small pad_zeros_def ToLower_def digit_char_tolower)
next
  case (snoc c ds)
  then obtain d where d: "digit_val c = Some d" "d < 16" by (auto simp: is_digit_def split: option.splits)
  let ?v = "digits_val 16 ds"
  have v: "digits_val 16 (ds @ [c]) = ?v * 16 + d" using d by (simp add: digits_val_snoc)
  have IH: "pad_zeros (length ds) (print_base 16 ?v) = ToLower ds" using snoc by simp
  have l: "length (print_base 16 ?v) \<le> length ds"
    using length_print_base [of 16 ?v "length ds - 1"] digits_val_less [of 16 ds] snoc by simp
  show ?case
  proof (cases "?v = 0")
    case True
    have "length ds - 1 + 1 = length ds" using snoc(1) by (cases ds) auto
    then have "replicate (length ds) CHR ''0'' = replicate (length ds - 1) CHR ''0'' @ [CHR ''0'']"
      by (metis replicate_add replicate_0 replicate_Suc One_nat_def)
    then have "replicate (length ds) CHR ''0'' = ToLower ds"
      using IH True by (simp add: print_base_small pad_zeros_def digit_char_def char_of_48)
    then show ?thesis using True d v
      by (simp add: print_base_small pad_zeros_def digit_char_tolower ToLower_def)
  next
    case False
    have "print_base 16 (?v * 16 + d) = print_base 16 ?v @ [digit_char d]"
      using False d by (subst print_base_big) simp_all
    then show ?thesis using IH d v l
      by (simp add: pad_zeros_def digit_char_tolower ToLower_def)
  qed
qed

lemma hex_digits_of_field:
  assumes "n < 16 ^ Suc k"
  shows "list_all (is_digit 16) (pad_zeros (Suc k) (print_base 16 n))"
    and "length (pad_zeros (Suc k) (print_base 16 n)) = Suc k"
    and "digits_val 16 (pad_zeros (Suc k) (print_base 16 n)) = n"
proof -
  have z: "is_digit 16 CHR ''0''" by (simp add: is_digit_def digit_val_def c_isdigit_def)
  show "list_all (is_digit 16) (pad_zeros (Suc k) (print_base 16 n))"
    using print_base_digits [of 16 n] z by (auto simp: pad_zeros_def list_all_iff)
  show "length (pad_zeros (Suc k) (print_base 16 n)) = Suc k"
    using length_print_base [of 16 n k] assms by (simp add: length_pad_zeros)
  show "digits_val 16 (pad_zeros (Suc k) (print_base 16 n)) = n"
    by (simp add: digits_val_print)
qed

lemma no_colon: "list_all (is_digit b) ds \<Longrightarrow> CHR '':'' \<notin> set ds"
  using is_digit_plain(5) by (auto simp: list_all_iff)

lemma HexStringToInt_u16_digits:
  assumes "ds \<noteq> []" and "list_all (is_digit 16) ds" and "length ds \<le> 4"
  shows "HexStringToInt_u16 ds = Some (of_nat (digits_val 16 ds))"
proof -
  have "digits_val 16 ds < 16 ^ length ds" by (rule digits_val_less [OF assms(2)])
  also have "\<dots> \<le> 16 ^ 4" by (rule power_increasing) (use assms(3) in simp_all)
  finally have v: "digits_val 16 ds < 65536" by simp
  then have "\<not> 0xffff < (word_of_nat (digits_val 16 ds) :: u32)"
    by (simp add: word_less_nat_alt unat_of_nat)
  moreover have "ucast (word_of_nat (digits_val 16 ds) :: u32) = (word_of_nat (digits_val 16 ds) :: u16)"
    by (rule bit_word_eqI) (simp add: bit_simps)
  ultimately show ?thesis using assms
    by (simp add: HexStringToInt_u16_def HexStringToInt_u32_digits)
qed

text \<open>The two tokens of an accepted string.\<close>

lemma FromString_fields:
  assumes "list_all (is_digit 16) a" and "length a = 4" and "list_all (is_digit 16) b" and "length b = 8"
  shows "FromString (a @ '':'' @ b) = Some (UID (of_nat (digits_val 16 a)) (of_nat (digits_val 16 b)))"
proof -
  have ne: "a \<noteq> []" "b \<noteq> []" using assms by auto
  have "StringSplit (join '':'' [a, b]) '':'' = [a, b]"
    using no_colon [OF assms(1)] no_colon [OF assms(3)] by (intro StringSplit_join) auto
  then show ?thesis using assms ne
    by (simp add: FromString_def HexStringToInt_u16_digits HexStringToInt_u32_digits)
qed

lemma hex_alphabet: "c \<in> set ''ABCDEFabcdef0123456789'' \<Longrightarrow> is_digit 16 c"
proof -
  have "list_all (is_digit 16) ''ABCDEFabcdef0123456789''" by code_simp
  then show "c \<in> set ''ABCDEFabcdef0123456789'' \<Longrightarrow> is_digit 16 c"
    unfolding list_all_iff by blast
qed

lemma find_first_not_of_None: "find_first_not_of cs s = None \<Longrightarrow> set s \<subseteq> set cs"
  by (simp add: find_first_not_of_eq split: if_splits)

lemma HexStringToInt_u32_Some:
  assumes "HexStringToInt_u32 s = Some x"
  shows "s \<noteq> [] \<and> list_all (is_digit 16) s"
proof -
  have n: "s \<noteq> []" "find_first_not_of ''ABCDEFabcdef0123456789'' s = None"
    using assms unfolding HexStringToInt_u32_def by (simp_all split: if_splits del: not_None_eq)
  have "is_digit 16 c" if "c \<in> set s" for c
    by (rule hex_alphabet, rule subsetD [OF find_first_not_of_None [OF n(2)] that])
  with n(1) show ?thesis by (simp add: list_all_iff)
qed

lemma FromString_Some:
  assumes "FromString s = Some u"
  obtains a b where "s = a @ '':'' @ b" "list_all (is_digit 16) a" "length a = 4"
    "list_all (is_digit 16) b" "length b = 8"
proof -
  let ?t = "StringSplit s '':''"
  from assms have len: "length ?t = 2" "length (?t ! 0) = 4" "length (?t ! 1) = 8"
    by (simp_all add: FromString_def Let_def split: if_splits)
  with assms obtain e d where h: "HexStringToInt_u16 (?t ! 0) = Some e" "HexStringToInt_u32 (?t ! 1) = Some d"
    by (simp add: FromString_def Let_def split: option.splits)
  obtain a b where t: "?t = [a, b]"
    using len(1) by (cases ?t; cases "tl ?t") auto
  obtain e' where "HexStringToInt_u32 a = Some e'"
    using h(1) t by (simp add: HexStringToInt_u16_def split: option.splits)
  then have "list_all (is_digit 16) a" by (rule HexStringToInt_u32_Some [THEN conjunct2])
  moreover have "list_all (is_digit 16) b"
    by (rule HexStringToInt_u32_Some [THEN conjunct2]) (use h(2) t in simp)
  moreover have "s = a @ '':'' @ b" using join_StringSplit [of "CHR '':''" s] t by simp
  ultimately show thesis using that len t by simp
qed

lemma ToLower_append: "ToLower (a @ b) = ToLower a @ ToLower b"
  by (simp add: ToLower_def)

text \<open>The text form of UIDs: FromString reads back what ToString prints, for all UIDs, and it
  accepts only strings that are, up to the case of the hex digits, what ToString prints for the UID it
  returns.\<close>

theorem uid_string_roundtrip:
  "FromString (UID_ToString u) = Some u \<and>
   (FromString s = Some v \<longrightarrow> ToLower s = UID_ToString v)"
proof (intro conjI impI)
  have n: "unat (esta_id u) < 16 ^ Suc 3" "unat (device_id u) < 16 ^ Suc 7"
    using unsigned_less [of "esta_id u"] unsigned_less [of "device_id u"] by simp_all
  note e = hex_digits_of_field [OF n(1)] and d = hex_digits_of_field [OF n(2)]
  have "FromString (UID_ToString u) =
      Some (UID (of_nat (unat (esta_id u))) (of_nat (unat (device_id u))))"
    using FromString_fields [OF e(1) _ d(1)] e(2,3) d(2,3) by (simp add: UID_ToString_def)
  then show "FromString (UID_ToString u) = Some u" by simp
next
  assume f: "FromString s = Some v"
  obtain a b where ab: "s = a @ '':'' @ b" "list_all (is_digit 16) a" "length a = 4"
    "list_all (is_digit 16) b" "length b = 8" using FromString_Some [OF f] .
  then have v: "v = UID (of_nat (digits_val 16 a)) (of_nat (digits_val 16 b))"
    using FromString_fields [of a b] f by simp
  have la: "digits_val 16 a < 2 ^ 16" and lb: "digits_val 16 b < 2 ^ 32"
    using digits_val_less [OF ab(2)] digits_val_less [OF ab(4)] ab(3,5) by simp_all
  have ne: "a \<noteq> []" "b \<noteq> []" using ab by auto
  have "UID_ToString v = ToLower a @ '':'' @ ToLower b"
    using pad_print_digits [OF ne(1) ab(2)] pad_print_digits [OF ne(2) ab(4)] la lb ab(3,5)
    by (simp add: UID_ToString_def v unat_of_nat)
  then show "ToLower s = UID_ToString v"
    by (simp add: ab(1) ToLower_append) (simp add: ToLower_def c_tolower_def c_isupper_def)
qed

theorem uid_string_roundtrip_witness:
  "ToLower ''7A70:0000000F'' = UID_ToString (UID 0x7a70 0xf)"
proof -
  have d: "list_all (is_digit 16) ''7A70''" "list_all (is_digit 16) ''0000000F''"
    "digits_val 16 ''7A70'' = 0x7a70" "digits_val 16 ''0000000F'' = 0xf"
    by (simp_all add: is_digit_def digits_val_def digit_val_def c_isdigit_def c_isupper_def c_islower_def)
  have "FromString ''7A70:0000000F'' = Some (UID 0x7a70 0xf)"
    using FromString_fields [OF d(1) _ d(2)] d(3,4) by simp
  then show ?thesis by (rule uid_string_roundtrip [THEN conjunct2, THEN mp])
qed

text \<open>The UID set operations keep the ascending order of the elements and are the set operations on
  them; in particular the difference and the intersection rebuilt from it partition a set.\<close>

theorem uid_set_laws:
  assumes "uids_ok s" and "uids_ok t"
  shows "uids_ok (AddUID u s) \<and> set (AddUID u s) = insert u (set s) \<and>
    uids_ok (RemoveUID u s) \<and> set (RemoveUID u s) = set s - {u} \<and>
    (Contains s u \<longleftrightarrow> u \<in> set s) \<and> UIDSet_Size s = card (set s) \<and>
    uids_ok (Union s t) \<and> set (Union s t) = set s \<union> set t \<and>
    uids_ok (SetDifference s t) \<and> set (SetDifference s t) = set s - set t \<and>
    Union (SetDifference s t) (SetDifference s (SetDifference s t)) = s \<and>
    (UIDSet_eq s t \<longleftrightarrow> set s = set t)"
proof -
  have "UIDSet_eq s t \<longleftrightarrow> s = t"
    by (auto simp: UIDSet_eq_def list_all2_conv_all_nth intro: nth_equalityI)
  also have "\<dots> \<longleftrightarrow> set s = set t" using assms uids.abs_inj by blast
  finally have eq: "UIDSet_eq s t \<longleftrightarrow> set s = set t" .
  show ?thesis using assms uids.partition [OF assms] eq
    by (simp add: AddUID_ok RemoveUID_ok set_RemoveUID Contains_iff uids.size_abs Union_ok
        SetDifference_ok set_SetDifference)
qed

theorem uid_set_laws_witness:
  "set (SetDifference [UID 1 2, UID 1 3, UID 2 0] [UID 1 3, UID 5 5]) = {UID 1 2, UID 2 0}"
proof -
  have "uids_ok [UID 1 2, UID 1 3, UID 2 0]" "uids_ok [UID 1 3, UID 5 5]"
    by (simp_all add: less_uid_def uid_less_iff del: uid_less)
  note laws = uid_set_laws [OF this, of "UID 0 0"]
  have "set (SetDifference [UID 1 2, UID 1 3, UID 2 0] [UID 1 3, UID 5 5]) =
      set [UID 1 2, UID 1 3, UID 2 0] - set [UID 1 3, UID 5 5]"
    by (rule laws [THEN conjunct2, THEN conjunct2, THEN conjunct2, THEN conjunct2, THEN conjunct2,
          THEN conjunct2, THEN conjunct2, THEN conjunct2, THEN conjunct2, THEN conjunct1])
  also have "\<dots> = {UID 1 2, UID 2 0}" by (simp add: insert_Diff_if)
  finally show ?thesis .
qed

end
