(* ===== verification/RDM_Command.thy ===== *)
theory RDM_Command
  imports RDM_UID
begin

text \<open>
  RDM commands (\<^verbatim>\<open>include/ola/rdm/RDMCommand.h\<close>, \<^verbatim>\<open>common/rdm/RDMCommand.cpp\<close>) and their wire format
  (\<^verbatim>\<open>common/rdm/RDMCommandSerializer.cpp\<close>, \<^verbatim>\<open>include/ola/rdm/RDMPacket.h\<close>). The classes of the C++
  hierarchy differ only in their command class, so one record stands for all of them. A parameter of
  type \<open>bytes option\<close> is a pointer that may be \<open>NULL\<close>. The outer \<open>option\<close> of a result is \<open>None\<close> when the
  code reads outside its input, which C++ leaves undefined; a \<open>NULL\<close> result and an error code are
  values. Lengths are \<open>unsigned int\<close>: subtractions that can wrap around use \<open>uint_sub\<close>.
\<close>

section \<open>Constants and enumerations\<close>

definition START_CODE :: u8 where
  "START_CODE = 0xcc"

definition SUB_START_CODE :: u8 where
  "SUB_START_CODE = 0x01"

definition CHECKSUM_LENGTH :: nat where
  "CHECKSUM_LENGTH = 2"

definition HEADER_SIZE :: nat where
  "HEADER_SIZE = 23"

definition MAX_PARAM_DATA_LENGTH :: nat where
  "MAX_PARAM_DATA_LENGTH = 231"

definition MAX_OVERFLOW_SIZE :: nat where
  "MAX_OVERFLOW_SIZE = 4 * 2 ^ 10"

definition ROOT_RDM_DEVICE :: u16 where
  "ROOT_RDM_DEVICE = 0"

definition ALL_RDM_SUBDEVICES :: u16 where
  "ALL_RDM_SUBDEVICES = 0xffff"

definition PID_DISC_UNIQUE_BRANCH :: u16 where
  "PID_DISC_UNIQUE_BRANCH = 0x0001"

definition PID_DISC_MUTE :: u16 where
  "PID_DISC_MUTE = 0x0002"

definition PID_DISC_UN_MUTE :: u16 where
  "PID_DISC_UN_MUTE = 0x0003"

definition PID_QUEUED_MESSAGE :: u16 where
  "PID_QUEUED_MESSAGE = 0x0020"

definition RDM_ACK :: u8 where
  "RDM_ACK = 0"

definition RDM_NACK_REASON :: u8 where
  "RDM_NACK_REASON = 2"

definition ACK_OVERFLOW :: u8 where
  "ACK_OVERFLOW = 3"

lemmas rdm_consts = START_CODE_def SUB_START_CODE_def CHECKSUM_LENGTH_def HEADER_SIZE_def
  MAX_PARAM_DATA_LENGTH_def MAX_OVERFLOW_SIZE_def ROOT_RDM_DEVICE_def ALL_RDM_SUBDEVICES_def
  PID_DISC_UNIQUE_BRANCH_def PID_DISC_MUTE_def PID_DISC_UN_MUTE_def PID_QUEUED_MESSAGE_def
  RDM_ACK_def RDM_NACK_REASON_def ACK_OVERFLOW_def

datatype rdm_class =
  DISCOVER_COMMAND | DISCOVER_COMMAND_RESPONSE | GET_COMMAND | GET_COMMAND_RESPONSE |
  SET_COMMAND | SET_COMMAND_RESPONSE | INVALID_COMMAND

fun class_code :: "rdm_class \<Rightarrow> u8" where
  "class_code DISCOVER_COMMAND = 0x10"
| "class_code DISCOVER_COMMAND_RESPONSE = 0x11"
| "class_code GET_COMMAND = 0x20"
| "class_code GET_COMMAND_RESPONSE = 0x21"
| "class_code SET_COMMAND = 0x30"
| "class_code SET_COMMAND_RESPONSE = 0x31"
| "class_code INVALID_COMMAND = 0xff"

definition ConvertCommandClass :: "u8 \<Rightarrow> rdm_class" where
  "ConvertCommandClass c =
     (if c = 0x10 then DISCOVER_COMMAND
      else if c = 0x11 then DISCOVER_COMMAND_RESPONSE
      else if c = 0x20 then GET_COMMAND
      else if c = 0x21 then GET_COMMAND_RESPONSE
      else if c = 0x30 then SET_COMMAND
      else if c = 0x31 then SET_COMMAND_RESPONSE
      else INVALID_COMMAND)"

datatype rdm_response_code =
  RDM_COMPLETED_OK | RDM_WAS_BROADCAST | RDM_FAILED_TO_SEND | RDM_TIMEOUT | RDM_INVALID_RESPONSE |
  RDM_UNKNOWN_UID | RDM_CHECKSUM_INCORRECT | RDM_TRANSACTION_MISMATCH | RDM_SUB_DEVICE_MISMATCH |
  RDM_SRC_UID_MISMATCH | RDM_DEST_UID_MISMATCH | RDM_WRONG_SUB_START_CODE | RDM_PACKET_TOO_SHORT |
  RDM_PACKET_LENGTH_MISMATCH | RDM_PARAM_LENGTH_MISMATCH | RDM_INVALID_COMMAND_CLASS |
  RDM_COMMAND_CLASS_MISMATCH | RDM_INVALID_RESPONSE_TYPE | RDM_PLUGIN_DISCOVERY_NOT_SUPPORTED |
  RDM_DUB_RESPONSE

datatype rdm_message_type = RDM_REQUEST | RDM_RESPONSE | RDM_INVALID

section \<open>Commands\<close>

record rdm_command =
  m_source :: uid
  m_destination :: uid
  m_transaction_number :: u8
  m_port_id :: u8
  m_message_count :: u8
  m_sub_device :: u16
  m_command_class :: rdm_class
  m_param_id :: u16
  m_param_data :: "bytes option"
  m_data_length :: nat

text \<open>\<open>SetParamData\<close> on a new command: the new \<open>m_data\<close>. Copying more bytes than the source array has
  is undefined.\<close>

definition SetParamData :: "bytes option \<Rightarrow> nat \<Rightarrow> bytes option option" where
  "SetParamData data len =
     (case data of
        None \<Rightarrow> Some None
      | Some xs \<Rightarrow> if len = 0 then Some None
                  else if len \<le> length xs then Some (Some (take len xs)) else None)"

definition RDMCommand ::
    "uid \<Rightarrow> uid \<Rightarrow> u8 \<Rightarrow> u8 \<Rightarrow> u8 \<Rightarrow> u16 \<Rightarrow> rdm_class \<Rightarrow> u16 \<Rightarrow> bytes option \<Rightarrow> nat \<Rightarrow> rdm_command option" where
  "RDMCommand source destination transaction_number port_id message_count sub_device command_class
     param_id data len =
     map_option (\<lambda>d. \<lparr>m_source = source, m_destination = destination,
       m_transaction_number = transaction_number, m_port_id = port_id, m_message_count = message_count,
       m_sub_device = sub_device, m_command_class = command_class, m_param_id = param_id,
       m_param_data = d, m_data_length = len\<rparr>) (SetParamData data len)"

abbreviation (input) ParamDataSize :: "rdm_command \<Rightarrow> nat" where
  "ParamDataSize c \<equiv> m_data_length c"

text \<open>What \<open>memcpy\<close> and the loops over \<open>ParamData\<close> read: nothing when the length is 0, undefined for a
  \<open>NULL\<close> pointer and a positive length.\<close>

definition ParamData :: "rdm_command \<Rightarrow> bytes option" where
  "ParamData c = (if m_data_length c = 0 then Some [] else m_param_data c)"

definition CommandType :: "rdm_command \<Rightarrow> rdm_message_type" where
  "CommandType c =
     (case m_command_class c of
        DISCOVER_COMMAND \<Rightarrow> RDM_REQUEST | GET_COMMAND \<Rightarrow> RDM_REQUEST | SET_COMMAND \<Rightarrow> RDM_REQUEST
      | DISCOVER_COMMAND_RESPONSE \<Rightarrow> RDM_RESPONSE | GET_COMMAND_RESPONSE \<Rightarrow> RDM_RESPONSE
      | SET_COMMAND_RESPONSE \<Rightarrow> RDM_RESPONSE
      | INVALID_COMMAND \<Rightarrow> RDM_INVALID)"

text \<open>\<open>operator==\<close>; the port id is not compared.\<close>

definition command_equals :: "rdm_command \<Rightarrow> rdm_command \<Rightarrow> bool option" where
  "command_equals c d =
     (if cmp (m_source c) (m_source d) = 0 \<and> cmp (m_destination c) (m_destination d) = 0 \<and>
         m_transaction_number c = m_transaction_number d \<and> m_message_count c = m_message_count d \<and>
         m_sub_device c = m_sub_device d \<and> m_command_class c = m_command_class d \<and>
         m_param_id c = m_param_id d \<and> m_data_length c = m_data_length d
      then do { xs \<leftarrow> ParamData c; ys \<leftarrow> ParamData d; Some (xs = ys) }
      else Some False)"

definition DuplicateWithControllerParams :: "rdm_command \<Rightarrow> uid \<Rightarrow> u8 \<Rightarrow> u8 \<Rightarrow> rdm_command option" where
  "DuplicateWithControllerParams c source transaction_number port_id =
     RDMCommand source (m_destination c) transaction_number port_id (m_message_count c) (m_sub_device c)
       (m_command_class c) (m_param_id c) (m_param_data c) (m_data_length c)"

definition Duplicate :: "rdm_command \<Rightarrow> rdm_command option" where
  "Duplicate c = DuplicateWithControllerParams c (m_source c) (m_transaction_number c) (m_port_id c)"

section \<open>The wire format\<close>

record rdm_header =
  sub_start_code :: u8
  message_length :: u8
  destination_uid :: bytes
  source_uid :: bytes
  transaction_number :: u8
  port_id :: u8
  message_count :: u8
  sub_device :: bytes
  command_class :: u8
  param_id :: bytes
  param_data_length :: u8

text \<open>The header structure has only byte members: it is 23 bytes long, without padding.\<close>

definition header_bytes :: "rdm_header \<Rightarrow> bytes" where
  "header_bytes h =
     [sub_start_code h, message_length h] @ destination_uid h @ source_uid h @
     [transaction_number h, port_id h, message_count h] @ sub_device h @
     [command_class h] @ param_id h @ [param_data_length h]"

definition read_header :: "bytes \<Rightarrow> rdm_header" where
  "read_header d =
     \<lparr>sub_start_code = d ! 0, message_length = d ! 1, destination_uid = take 6 (drop 2 d),
      source_uid = take 6 (drop 8 d), transaction_number = d ! 14, port_id = d ! 15,
      message_count = d ! 16, sub_device = take 2 (drop 17 d), command_class = d ! 19,
      param_id = take 2 (drop 20 d), param_data_length = d ! 22\<rparr>"

definition uid_bytes :: "uid \<Rightarrow> bytes" where
  "uid_bytes u = be16 (esta_id u) @ be32 (device_id u)"

definition PopulateHeader :: "rdm_command \<Rightarrow> nat \<Rightarrow> uid \<Rightarrow> u8 \<Rightarrow> u8 \<Rightarrow> rdm_header" where
  "PopulateHeader command packet_length source tn port =
     (let packet_length = packet_length - CHECKSUM_LENGTH
      in \<lparr>sub_start_code = SUB_START_CODE, message_length = of_nat (packet_length + 1),
          destination_uid = the (Pack (m_destination command) (replicate 6 0)),
          source_uid = the (Pack source (replicate 6 0)),
          transaction_number = tn, port_id = port, message_count = m_message_count command,
          sub_device = be16 (m_sub_device command), command_class = class_code (m_command_class command),
          param_id = be16 (m_param_id command), param_data_length = of_nat (m_data_length command)\<rparr>)"

definition RequiredSize :: "rdm_command \<Rightarrow> nat" where
  "RequiredSize command =
     (if ParamDataSize command > MAX_PARAM_DATA_LENGTH then 0
      else HEADER_SIZE + ParamDataSize command + CHECKSUM_LENGTH)"

text \<open>The running checksum, 16 bits wide in the serializer.\<close>

definition checksum16 :: "bytes \<Rightarrow> u16" where
  "checksum16 xs = foldl (\<lambda>c b. c + ucast b) (ucast START_CODE) xs"

text \<open>\<open>PackWithParams\<close>: the new contents of the buffer and the new \<open>*size\<close>; \<open>Some None\<close> is a false
  result. The buffer has at least \<open>*size\<close> bytes.\<close>

definition PackWithParams ::
    "rdm_command \<Rightarrow> bytes \<Rightarrow> nat \<Rightarrow> uid \<Rightarrow> u8 \<Rightarrow> u8 \<Rightarrow> (bytes \<times> nat) option option" where
  "PackWithParams command buffer buf_size source tn port =
     (let packet_length = RequiredSize command
      in if packet_length = 0 \<or> buf_size < packet_length then Some None
         else do {
           data \<leftarrow> ParamData command;
           let header = PopulateHeader command packet_length source tn port;
           let buffer = memcpy_at buffer 0 (header_bytes header);
           let buffer = memcpy_at buffer HEADER_SIZE data;
           let checksum = checksum16 (take (packet_length - CHECKSUM_LENGTH) buffer);
           let buffer = buffer[packet_length - CHECKSUM_LENGTH := ucast (drop_bit 8 checksum)];
           let buffer = buffer[packet_length - CHECKSUM_LENGTH + 1 := ucast (checksum AND 0xff)];
           Some (Some (buffer, packet_length))
         })"

definition Serializer_Pack :: "rdm_command \<Rightarrow> bytes \<Rightarrow> nat \<Rightarrow> (bytes \<times> nat) option option" where
  "Serializer_Pack command buffer buf_size =
     PackWithParams command buffer buf_size (m_source command) (m_transaction_number command)
       (m_port_id command)"

text \<open>\<open>WriteToStack\<close>: an \<open>IOStack\<close> grows at the front, so the last write comes first.\<close>

definition WriteToStack :: "rdm_command \<Rightarrow> bytes \<Rightarrow> uid \<Rightarrow> u8 \<Rightarrow> u8 \<Rightarrow> bytes option option" where
  "WriteToStack command stack source tn port =
     (let packet_length = RequiredSize command
      in if packet_length = 0 then Some None
         else do {
           data \<leftarrow> ParamData command;
           let header = PopulateHeader command packet_length source tn port;
           let checksum = checksum16 (header_bytes header @ data);
           let stack = be16 checksum @ stack;
           let stack = data @ stack;
           let stack = header_bytes header @ stack;
           Some (Some stack)
         })"

definition Serializer_Write :: "rdm_command \<Rightarrow> bytes \<Rightarrow> bytes option option" where
  "Serializer_Write command stack =
     WriteToStack command stack (m_source command) (m_transaction_number command) (m_port_id command)"

text \<open>\<open>RDMCommand::Write\<close> appends the command to an output stream, whatever its size; the length
  bytes keep only the low eight bits and the checksum is summed up in 32 bits.\<close>

definition Write :: "rdm_command \<Rightarrow> bytes \<Rightarrow> bytes option" where
  "Write c stream = do {
     data \<leftarrow> ParamData c;
     let packet_length = HEADER_SIZE + m_data_length c;
     let message = \<lparr>sub_start_code = SUB_START_CODE, message_length = of_nat (packet_length + 1),
          destination_uid = the (Pack (m_destination c) (replicate 6 0)),
          source_uid = the (Pack (m_source c) (replicate 6 0)),
          transaction_number = m_transaction_number c, port_id = m_port_id c,
          message_count = m_message_count c,
          sub_device = be16 (m_sub_device c), command_class = class_code (m_command_class c),
          param_id = be16 (m_param_id c), param_data_length = of_nat (m_data_length c)\<rparr>;
     let checksum_value = foldl (\<lambda>s b. s + ucast b) (ucast START_CODE :: u32) (header_bytes message);
     let checksum_value = foldl (\<lambda>s b. s + ucast b) checksum_value data;
     Some (stream @ header_bytes message @ data @ be16 (ucast checksum_value))
   }"

section \<open>Inflating\<close>

definition CalculateChecksum :: "bytes \<Rightarrow> nat \<Rightarrow> u16 option" where
  "CalculateChecksum data packet_length =
     (if packet_length \<le> length data
      then Some (ucast (foldl (\<lambda>s b. s + ucast b) (ucast START_CODE :: u32) (take packet_length data)))
      else None)"

definition VerifyData :: "bytes option \<Rightarrow> (rdm_response_code + rdm_header) option" where
  "VerifyData data_ptr =
     (case data_ptr of
        None \<Rightarrow> Some (Inl RDM_INVALID_RESPONSE)
      | Some data \<Rightarrow>
          if length data < HEADER_SIZE then Some (Inl RDM_PACKET_TOO_SHORT)
          else
            let command_header = read_header data;
                ml = unat (message_length command_header)
            in if sub_start_code command_header \<noteq> SUB_START_CODE then Some (Inl RDM_WRONG_SUB_START_CODE)
               else if length data < ml + 1 then Some (Inl RDM_PACKET_LENGTH_MISMATCH)
               else do {
                 checksum \<leftarrow> CalculateChecksum data (uint_sub ml 1);
                 if \<not> uint_sub ml 1 < length data then None
                 else
                   let actual_checksum = of_be16 (data ! uint_sub ml 1) (data ! ml);
                       block_size = uint_sub (uint_sub (length data) HEADER_SIZE) 2
                   in if actual_checksum \<noteq> checksum then Some (Inl RDM_CHECKSUM_INCORRECT)
                      else if unat (param_data_length command_header) > block_size
                      then Some (Inl RDM_PARAM_LENGTH_MISMATCH)
                      else Some (Inr command_header)
               })"

text \<open>The command object that the \<open>InflateFromData\<close> functions build from a verified header.\<close>

definition command_of_header :: "rdm_class \<Rightarrow> u8 \<Rightarrow> rdm_header \<Rightarrow> bytes \<Rightarrow> rdm_command option" where
  "command_of_header cc tn h data = do {
     src \<leftarrow> UID_from_data (source_uid h);
     dst \<leftarrow> UID_from_data (destination_uid h);
     RDMCommand src dst tn (port_id h) (message_count h)
       (of_be16 (sub_device h ! 0) (sub_device h ! 1)) cc (of_be16 (param_id h ! 0) (param_id h ! 1))
       (Some (drop HEADER_SIZE data)) (unat (param_data_length h))
   }"

text \<open>\<open>RDMRequest::InflateFromData\<close>: \<open>Some None\<close> is \<open>NULL\<close>.\<close>

definition RDMRequest_Inflate :: "bytes option \<Rightarrow> rdm_command option option" where
  "RDMRequest_Inflate data = do {
     v \<leftarrow> VerifyData data;
     case v of
       Inl code \<Rightarrow> Some None
     | Inr h \<Rightarrow>
         let cc = ConvertCommandClass (command_class h)
         in if cc \<in> {DISCOVER_COMMAND, GET_COMMAND, SET_COMMAND}
            then map_option Some (command_of_header cc (transaction_number h) h (the data))
            else Some None
   }"

definition RDMDiscoveryRequest_Inflate :: "bytes option \<Rightarrow> rdm_command option option" where
  "RDMDiscoveryRequest_Inflate data = do {
     v \<leftarrow> VerifyData data;
     case v of
       Inl code \<Rightarrow> Some None
     | Inr h \<Rightarrow>
         if ConvertCommandClass (command_class h) = DISCOVER_COMMAND
         then map_option Some (command_of_header DISCOVER_COMMAND (transaction_number h) h (the data))
         else Some None
   }"

definition RDMDiscoveryResponse_Inflate :: "bytes option \<Rightarrow> rdm_command option option" where
  "RDMDiscoveryResponse_Inflate data = do {
     v \<leftarrow> VerifyData data;
     case v of
       Inl code \<Rightarrow> Some None
     | Inr h \<Rightarrow>
         if ConvertCommandClass (command_class h) = DISCOVER_COMMAND_RESPONSE
         then map_option Some (command_of_header DISCOVER_COMMAND_RESPONSE (transaction_number h) h (the data))
         else Some None
   }"

text \<open>The checks of a response against the request it answers, in the order of the source: the error
  code of the first one that fails.\<close>

definition check_response ::
    "rdm_command \<Rightarrow> u8 \<Rightarrow> uid \<Rightarrow> uid \<Rightarrow> rdm_header \<Rightarrow> rdm_response_code option" where
  "check_response request tn src dst h =
     (let sd = of_be16 (sub_device h ! 0) (sub_device h ! 1);
          cc = ConvertCommandClass (command_class h)
      in if cmp (m_source request) dst \<noteq> 0 then Some RDM_DEST_UID_MISMATCH
         else if cmp (m_destination request) src \<noteq> 0 then Some RDM_SRC_UID_MISMATCH
         else if transaction_number h \<noteq> tn then Some RDM_TRANSACTION_MISMATCH
         else if sd \<noteq> m_sub_device request \<and> m_sub_device request \<noteq> ALL_RDM_SUBDEVICES \<and>
                 m_param_id request \<noteq> PID_QUEUED_MESSAGE then Some RDM_SUB_DEVICE_MISMATCH
         else if m_command_class request = GET_COMMAND \<and> cc \<noteq> GET_COMMAND_RESPONSE \<and>
                 m_param_id request \<noteq> PID_QUEUED_MESSAGE then Some RDM_COMMAND_CLASS_MISMATCH
         else if m_command_class request = SET_COMMAND \<and> cc \<noteq> SET_COMMAND_RESPONSE
              then Some RDM_COMMAND_CLASS_MISMATCH
         else if m_command_class request = DISCOVER_COMMAND \<and> cc \<noteq> DISCOVER_COMMAND_RESPONSE
              then Some RDM_COMMAND_CLASS_MISMATCH
         else None)"

text \<open>\<open>RDMResponse::InflateFromData\<close> with an optional request and its transaction number: the
  response, or the response code that explains the \<open>NULL\<close>.\<close>

definition RDMResponse_Inflate ::
    "bytes option \<Rightarrow> rdm_command option \<Rightarrow> u8 \<Rightarrow> (rdm_response_code + rdm_command) option" where
  "RDMResponse_Inflate data request tn = do {
     v \<leftarrow> VerifyData data;
     case v of
       Inl code \<Rightarrow> Some (Inl code)
     | Inr h \<Rightarrow> do {
         src \<leftarrow> UID_from_data (source_uid h);
         dst \<leftarrow> UID_from_data (destination_uid h);
         case Option.bind request (\<lambda>r. check_response r tn src dst h) of
           Some code \<Rightarrow> Some (Inl code)
         | None \<Rightarrow>
             if port_id h > ACK_OVERFLOW then Some (Inl RDM_INVALID_RESPONSE_TYPE)
             else
               let cc = ConvertCommandClass (command_class h);
                   tn' = (if request \<noteq> None then tn else transaction_number h)
               in if cc \<in> {DISCOVER_COMMAND_RESPONSE, GET_COMMAND_RESPONSE, SET_COMMAND_RESPONSE}
                  then map_option Inr (command_of_header cc tn' h (the data))
                  else Some (Inl RDM_INVALID_COMMAND_CLASS)
       }
   }"

text \<open>The variant that takes the transaction number from the request.\<close>

definition RDMResponse_Inflate_for ::
    "bytes option \<Rightarrow> rdm_command option \<Rightarrow> (rdm_response_code + rdm_command) option" where
  "RDMResponse_Inflate_for data request =
     (case request of
        Some r \<Rightarrow> RDMResponse_Inflate data request (m_transaction_number r)
      | None \<Rightarrow> RDMResponse_Inflate data request 0)"

definition GuessMessageType :: "bytes option \<Rightarrow> (rdm_message_type \<times> rdm_class) option" where
  "GuessMessageType data_ptr =
     (case data_ptr of
        None \<Rightarrow> None
      | Some data \<Rightarrow>
          if length data < 19 + 1 then None
          else if data ! 19 = 0x20 then Some (RDM_REQUEST, GET_COMMAND)
          else if data ! 19 = 0x21 then Some (RDM_RESPONSE, GET_COMMAND_RESPONSE)
          else if data ! 19 = 0x30 then Some (RDM_REQUEST, SET_COMMAND)
          else if data ! 19 = 0x31 then Some (RDM_RESPONSE, SET_COMMAND_RESPONSE)
          else if data ! 19 = 0x10 then Some (RDM_REQUEST, DISCOVER_COMMAND)
          else if data ! 19 = 0x11 then Some (RDM_RESPONSE, DISCOVER_COMMAND_RESPONSE)
          else None)"

definition Inflate :: "bytes \<Rightarrow> rdm_command option option" where
  "Inflate data =
     (if length data < 21 then Some None
      else case GuessMessageType (Some data) of
        None \<Rightarrow> Some None
      | Some (ty, cc) \<Rightarrow>
          (case cc of
             GET_COMMAND \<Rightarrow> RDMRequest_Inflate (Some data)
           | SET_COMMAND \<Rightarrow> RDMRequest_Inflate (Some data)
           | GET_COMMAND_RESPONSE \<Rightarrow>
               map_option (case_sum (\<lambda>_. None) Some) (RDMResponse_Inflate_for (Some data) None)
           | SET_COMMAND_RESPONSE \<Rightarrow>
               map_option (case_sum (\<lambda>_. None) Some) (RDMResponse_Inflate_for (Some data) None)
           | DISCOVER_COMMAND \<Rightarrow> RDMDiscoveryRequest_Inflate (Some data)
           | DISCOVER_COMMAND_RESPONSE \<Rightarrow> RDMDiscoveryResponse_Inflate (Some data)
           | INVALID_COMMAND \<Rightarrow> Some None))"

section \<open>Building commands\<close>

definition CombineResponses :: "rdm_command \<Rightarrow> rdm_command \<Rightarrow> rdm_command option option" where
  "CombineResponses r1 r2 =
     (let combined_length = ParamDataSize r1 + ParamDataSize r2
      in if combined_length > MAX_OVERFLOW_SIZE then Some None
         else if cmp (m_source r1) (m_source r2) \<noteq> 0 then Some None
         else do {
           d1 \<leftarrow> ParamData r1;
           d2 \<leftarrow> ParamData r2;
           if m_command_class r1 = GET_COMMAND_RESPONSE \<and> m_command_class r2 = GET_COMMAND_RESPONSE
           then map_option Some (RDMCommand (m_source r1) (m_destination r1) (m_transaction_number r1)
                  RDM_ACK (m_message_count r2) (m_sub_device r1) GET_COMMAND_RESPONSE (m_param_id r1)
                  (Some (d1 @ d2)) combined_length)
           else if m_command_class r1 = SET_COMMAND_RESPONSE \<and> m_command_class r2 = SET_COMMAND_RESPONSE
           then map_option Some (RDMCommand (m_source r1) (m_destination r1) (m_transaction_number r1)
                  RDM_ACK (m_message_count r2) (m_sub_device r1) SET_COMMAND_RESPONSE (m_param_id r1)
                  (Some (d1 @ d2)) combined_length)
           else Some None
         })"

definition NackWithReason :: "rdm_command \<Rightarrow> u16 \<Rightarrow> u8 \<Rightarrow> rdm_command option" where
  "NackWithReason request reason outstanding_messages =
     RDMCommand (m_destination request) (m_source request) (m_transaction_number request)
       RDM_NACK_REASON outstanding_messages (m_sub_device request)
       (if m_command_class request = GET_COMMAND then GET_COMMAND_RESPONSE else SET_COMMAND_RESPONSE)
       (m_param_id request) (Some (be16 reason)) 2"

text \<open>\<open>GetResponseWithPid\<close>: \<open>Some None\<close> is the \<open>NULL\<close> of the default case.\<close>

definition GetResponseWithPid ::
    "rdm_command \<Rightarrow> u16 \<Rightarrow> bytes option \<Rightarrow> nat \<Rightarrow> u8 \<Rightarrow> u8 \<Rightarrow> rdm_command option option" where
  "GetResponseWithPid request pid data len type outstanding_messages =
     (let respond = (\<lambda>cc. map_option Some (RDMCommand (m_destination request) (m_source request)
            (m_transaction_number request) type outstanding_messages (m_sub_device request) cc pid data len))
      in case m_command_class request of
           GET_COMMAND \<Rightarrow> respond GET_COMMAND_RESPONSE
         | SET_COMMAND \<Rightarrow> respond SET_COMMAND_RESPONSE
         | DISCOVER_COMMAND \<Rightarrow> respond DISCOVER_COMMAND_RESPONSE
         | _ \<Rightarrow> Some None)"

definition GetResponseFromData ::
    "rdm_command \<Rightarrow> bytes option \<Rightarrow> nat \<Rightarrow> u8 \<Rightarrow> u8 \<Rightarrow> rdm_command option option" where
  "GetResponseFromData request data len type outstanding_messages =
     GetResponseWithPid request (m_param_id request) data len type outstanding_messages"

definition NewDiscoveryUniqueBranchRequest :: "uid \<Rightarrow> uid \<Rightarrow> uid \<Rightarrow> u8 \<Rightarrow> u8 \<Rightarrow> rdm_command option" where
  "NewDiscoveryUniqueBranchRequest source lower upper tn port = do {
     low \<leftarrow> Pack lower (replicate 12 0);
     up \<leftarrow> Pack upper (drop UID_SIZE low);
     RDMCommand source AllDevices tn port 0 ROOT_RDM_DEVICE DISCOVER_COMMAND PID_DISC_UNIQUE_BRANCH
       (Some (take UID_SIZE low @ up)) 12
   }"

definition NewMuteRequest :: "uid \<Rightarrow> uid \<Rightarrow> u8 \<Rightarrow> u8 \<Rightarrow> rdm_command option" where
  "NewMuteRequest source destination tn port =
     RDMCommand source destination tn port 0 ROOT_RDM_DEVICE DISCOVER_COMMAND PID_DISC_MUTE None 0"

definition NewUnMuteRequest :: "uid \<Rightarrow> uid \<Rightarrow> u8 \<Rightarrow> u8 \<Rightarrow> rdm_command option" where
  "NewUnMuteRequest source destination tn port =
     RDMCommand source destination tn port 0 ROOT_RDM_DEVICE DISCOVER_COMMAND PID_DISC_UN_MUTE None 0"

end
