(* ===== verification/RDM_Wire.thy ===== *)
theory RDM_Wire
  imports RDM_Command
begin

text \<open>
  Properties of the RDM wire format: what the serializer writes, the inflate functions read back;
  every error code is returned exactly when its check fails; the two checks that do not protect the
  reads that follow them.
\<close>

section \<open>Well-formed commands\<close>

text \<open>The commands that the constructors build from existing data: the data pointer is \<open>NULL\<close> exactly
  when there is no data.\<close>

definition cmd_ok :: "rdm_command \<Rightarrow> bool" where
  "cmd_ok c \<longleftrightarrow>
     (case m_param_data c of None \<Rightarrow> m_data_length c = 0
      | Some d \<Rightarrow> d \<noteq> [] \<and> m_data_length c = length d)"

definition data_of :: "rdm_command \<Rightarrow> bytes" where
  "data_of c = (case m_param_data c of None \<Rightarrow> [] | Some d \<Rightarrow> d)"

lemma ParamData_ok: "cmd_ok c \<Longrightarrow> ParamData c = Some (data_of c)"
  by (auto simp: cmd_ok_def ParamData_def data_of_def split: option.splits)

lemma length_data_of [simp]: "cmd_ok c \<Longrightarrow> length (data_of c) = m_data_length c"
  by (auto simp: cmd_ok_def data_of_def split: option.splits)

lemma RDMCommand_ok:
  obtains c where "RDMCommand src dst tn port mc sd cc pid (Some d) (length d) = Some c"
    and "cmd_ok c" and "data_of c = d"
proof (cases "d = []")
  case True
  with that show thesis by (simp add: RDMCommand_def SetParamData_def cmd_ok_def data_of_def)
next
  case False
  with that show thesis by (simp add: RDMCommand_def SetParamData_def cmd_ok_def data_of_def)
qed

lemma RDMCommand_data_of:
  assumes "cmd_ok c"
  shows "RDMCommand src dst tn port mc sd cc pid (Some (data_of c @ rest)) (m_data_length c) =
    Some \<lparr>m_source = src, m_destination = dst, m_transaction_number = tn, m_port_id = port,
      m_message_count = mc, m_sub_device = sd, m_command_class = cc, m_param_id = pid,
      m_param_data = m_param_data c, m_data_length = m_data_length c\<rparr>"
  using assms
  by (auto simp: RDMCommand_def SetParamData_def cmd_ok_def data_of_def split: option.splits)

section \<open>Checksums\<close>

lemma ucast_u32_u16_add: "(ucast (a + b :: u32) :: u16) = ucast a + ucast b"
proof (transfer, goal_cases)
  case (1 a b)
  have "take_bit 16 (take_bit 32 a + take_bit 32 b) = take_bit 16 (a + b)"
    by (subst take_bit_add [symmetric]) (simp add: take_bit_add)
  then show ?case by simp
qed

lemma ucast_u8_u32_u16: "(ucast (ucast (b :: u8) :: u32) :: u16) = ucast b"
  by transfer simp

lemma checksum32_narrow:
  "ucast (foldl (\<lambda>s b. s + ucast b) s xs :: u32) = foldl (\<lambda>c b. c + ucast b) (ucast s :: u16) (xs :: bytes)"
  by (induction xs arbitrary: s) (simp_all add: ucast_u32_u16_add ucast_u8_u32_u16)

lemma CalculateChecksum_eq:
  "n \<le> length data \<Longrightarrow> CalculateChecksum data n = Some (checksum16 (take n data))"
  by (simp add: CalculateChecksum_def checksum32_narrow checksum16_def ucast_u8_u32_u16)

section \<open>Headers\<close>

definition header_ok :: "rdm_header \<Rightarrow> bool" where
  "header_ok h \<longleftrightarrow> length (destination_uid h) = 6 \<and> length (source_uid h) = 6 \<and>
     length (sub_device h) = 2 \<and> length (param_id h) = 2"

lemma length_header_bytes [simp]: "header_ok h \<Longrightarrow> length (header_bytes h) = 23"
  by (simp add: header_ok_def header_bytes_def)

lemma length_1_list: "length xs = 1 \<Longrightarrow> xs = [xs ! 0]"
  by (cases xs) auto

lemma read_header_bytes:
  assumes "header_ok h"
  shows "read_header (header_bytes h @ rest) = h"
proof -
  obtain d0 d1 d2 d3 d4 d5 where d: "destination_uid h = [d0, d1, d2, d3, d4, d5]"
    using assms by (auto simp: header_ok_def length_Suc_conv eval_nat_numeral)
  obtain s0 s1 s2 s3 s4 s5 where s: "source_uid h = [s0, s1, s2, s3, s4, s5]"
    using assms by (auto simp: header_ok_def length_Suc_conv eval_nat_numeral)
  obtain a b where sd: "sub_device h = [a, b]"
    using assms by (auto simp: header_ok_def length_Suc_conv eval_nat_numeral)
  obtain p q where pid: "param_id h = [p, q]"
    using assms by (auto simp: header_ok_def length_Suc_conv eval_nat_numeral)
  show ?thesis by (simp add: read_header_def header_bytes_def d s sd pid eval_nat_numeral)
qed

lemma Pack_6: "Pack u (replicate 6 0) = Some (uid_bytes u)"
  by (simp add: Pack_def UID_SIZE_def memcpy_at_def uid_bytes_def)

lemma length_uid_bytes [simp]: "length (uid_bytes u) = 6"
  by (simp add: uid_bytes_def)

lemma UID_from_uid_bytes [simp]: "UID_from_data (uid_bytes u) = Some u"
  using UID_from_data_Pack [of u "[]"] by (simp add: uid_bytes_def)

lemma header_ok_Populate [simp]: "header_ok (PopulateHeader c n src tn port)"
  by (simp add: header_ok_def PopulateHeader_def Let_def Pack_6)

lemma ConvertCommandClass_code [simp]: "ConvertCommandClass (class_code cc) = cc"
  by (cases cc) (simp_all add: ConvertCommandClass_def)

section \<open>The packet\<close>

definition packet :: "rdm_command \<Rightarrow> uid \<Rightarrow> u8 \<Rightarrow> u8 \<Rightarrow> bytes" where
  "packet c src tn port =
     (let body = header_bytes (PopulateHeader c (RequiredSize c) src tn port) @ data_of c
      in body @ be16 (checksum16 body))"

lemma and_ff: "ucast (x AND 0xff :: u16) = (ucast x :: u8)"
proof -
  have m: "(0xff :: u16) = mask 8" by (simp add: mask_eq_exp_minus_1)
  show ?thesis unfolding m by (rule bit_word_eqI) (simp add: bit_simps del: mask_numeral)
qed

lemma PackWithParams_eq:
  assumes ok: "cmd_ok c" and size: "m_data_length c \<le> 231" "25 + m_data_length c \<le> k"
    and buf: "k \<le> length buffer"
  shows "PackWithParams c buffer k src tn port =
    Some (Some (packet c src tn port @ drop (25 + m_data_length c) buffer, 25 + m_data_length c))"
proof -
  let ?n = "25 + m_data_length c"
  let ?h = "header_bytes (PopulateHeader c ?n src tn port)"
  let ?d = "data_of c"
  have n: "RequiredSize c = ?n" using size(1) by (simp add: RequiredSize_def rdm_consts)
  have lh: "length ?h = 23" by simp
  have ld: "length ?d = m_data_length c" using ok by simp
  have b2: "memcpy_at (memcpy_at buffer 0 ?h) 23 ?d = ?h @ ?d @ drop (23 + m_data_length c) buffer"
    using lh ld size buf by (simp add: memcpy_at_def add.commute)
  have "length (drop (23 + m_data_length c) buffer) \<ge> 2" using size buf by simp
  then obtain x y rest where dr: "drop (23 + m_data_length c) buffer = x # y # rest"
    by (cases "drop (23 + m_data_length c) buffer"; cases "tl (drop (23 + m_data_length c) buffer)") auto
  have rest: "rest = drop ?n buffer"
  proof -
    have "drop ?n buffer = drop 2 (drop (23 + m_data_length c) buffer)" by simp
    then show ?thesis by (simp add: dr)
  qed
  let ?c = "checksum16 (?h @ ?d)"
  have u: "(?h @ ?d @ x # y # rest)[23 + m_data_length c := a, Suc (23 + m_data_length c) := b] =
      (?h @ ?d) @ a # b # rest" for a b
    using lh ld by (simp add: list_update_append)
  show ?thesis
    unfolding PackWithParams_def n packet_def
    using size ok lh ld b2 u [of "ucast (drop_bit 8 ?c)" "ucast ?c"]
    by (simp add: ParamData_ok rdm_consts Let_def dr rest [symmetric] and_ff be16_def)
qed

lemma unat_of_nat_u8: "n < 256 \<Longrightarrow> unat (of_nat n :: u8) = n"
  by (simp add: unat_of_nat)

lemma VerifyData_packet:
  assumes ok: "cmd_ok c" and n: "m_data_length c \<le> 231"
  shows "VerifyData (Some (packet c src tn port @ rest)) =
    Some (Inr (PopulateHeader c (25 + m_data_length c) src tn port))"
proof -
  let ?h = "PopulateHeader c (25 + m_data_length c) src tn port"
  let ?body = "header_bytes ?h @ data_of c"
  let ?p = "?body @ be16 (checksum16 ?body) @ rest"
  have rs: "RequiredSize c = 25 + m_data_length c" using n by (simp add: RequiredSize_def rdm_consts)
  have p: "packet c src tn port @ rest = ?p" by (simp add: packet_def rs Let_def)
  have lb: "length ?body = 23 + m_data_length c" using ok by simp
  have rd: "read_header ?p = ?h" by (simp add: read_header_bytes)
  have ml: "unat (message_length ?h) = 24 + m_data_length c"
    using n unat_of_nat_u8 [of "24 + m_data_length c"] by (simp add: PopulateHeader_def rdm_consts)
  have pdl: "unat (param_data_length ?h) = m_data_length c"
    using n unat_of_nat_u8 [of "m_data_length c"] by (simp add: PopulateHeader_def)
  have ssc: "sub_start_code ?h = SUB_START_CODE" by (simp add: PopulateHeader_def)
  have ck: "CalculateChecksum ?p (23 + m_data_length c) = Some (checksum16 ?body)"
    using lb by (subst CalculateChecksum_eq) simp_all
  have hi: "?p ! (23 + m_data_length c) = be16 (checksum16 ?body) ! 0"
    and lo: "?p ! (24 + m_data_length c) = be16 (checksum16 ?body) ! Suc 0"
    using lb by (simp_all add: nth_append)
  have lp: "length ?p = 25 + m_data_length c + length rest" using lb by simp
  show ?thesis
    unfolding p VerifyData_def option.case HEADER_SIZE_def
    using rd ml pdl ssc ck hi lo lp by (simp add: Let_def del: append_assoc)
qed

lemma command_of_packet:
  assumes ok: "cmd_ok c" and n: "m_data_length c \<le> 231"
  shows "command_of_header cc tn' (PopulateHeader c (25 + m_data_length c) src tn port)
      (packet c src tn port @ rest) =
    Some (c\<lparr>m_source := src, m_transaction_number := tn', m_port_id := port, m_command_class := cc\<rparr>)"
proof -
  let ?h = "PopulateHeader c (25 + m_data_length c) src tn port"
  have rs: "RequiredSize c = 25 + m_data_length c" using n by (simp add: RequiredSize_def rdm_consts)
  have dr: "drop 23 (packet c src tn port @ rest) =
      data_of c @ be16 (checksum16 (header_bytes ?h @ data_of c)) @ rest"
    by (simp add: packet_def rs Let_def)
  have pdl: "unat (param_data_length ?h) = m_data_length c"
    using n unat_of_nat_u8 [of "m_data_length c"] by (simp add: PopulateHeader_def)
  have be: "of_be16 (be16 w ! 0) (be16 w ! 1) = w" for w by simp
  have "command_of_header cc tn' ?h (packet c src tn port @ rest) =
      RDMCommand src (m_destination c) tn' port (m_message_count c) (m_sub_device c) cc (m_param_id c)
        (Some (drop 23 (packet c src tn port @ rest))) (m_data_length c)"
    unfolding command_of_header_def HEADER_SIZE_def pdl
    by (simp add: PopulateHeader_def Let_def Pack_6 be del: One_nat_def)
  also have "\<dots> = Some (c\<lparr>m_source := src, m_transaction_number := tn', m_port_id := port,
      m_command_class := cc\<rparr>)"
    unfolding dr RDMCommand_data_of [OF ok] by (cases c) simp
  finally show ?thesis .
qed

section \<open>Round trips\<close>

text \<open>C27: Serialising and inflating are inverse to each other. A request of at most 231 bytes of
  parameter data, packed with any source UID, transaction number and port id into a buffer that is
  large enough, occupies 25 bytes plus its data, leaves the rest of the buffer alone, and inflates to
  the request with exactly those parameters; larger requests and smaller buffers are refused.\<close>

theorem rdm_request_roundtrip:
  assumes ok: "cmd_ok c" and req: "CommandType c = RDM_REQUEST" and buf: "k \<le> length buffer"
  shows "(if m_data_length c \<le> 231 \<and> 25 + m_data_length c \<le> k
    then \<exists>p. PackWithParams c buffer k src tn port =
               Some (Some (p @ drop (25 + m_data_length c) buffer, 25 + m_data_length c)) \<and>
             length p = 25 + m_data_length c \<and>
             RDMRequest_Inflate (Some p) =
               Some (Some (c\<lparr>m_source := src, m_transaction_number := tn, m_port_id := port\<rparr>))
    else PackWithParams c buffer k src tn port = Some None)"
proof (cases "m_data_length c \<le> 231 \<and> 25 + m_data_length c \<le> k")
  case True
  let ?h = "PopulateHeader c (25 + m_data_length c) src tn port"
  have cc: "ConvertCommandClass (command_class ?h) = m_command_class c"
    and tn: "transaction_number ?h = tn"
    by (simp_all add: PopulateHeader_def Let_def)
  have m: "m_command_class c \<in> {DISCOVER_COMMAND, GET_COMMAND, SET_COMMAND}"
    using req by (cases "m_command_class c") (simp_all add: CommandType_def)
  have "length (packet c src tn port) = 25 + m_data_length c"
    using ok by (simp add: packet_def Let_def)
  moreover have "RDMRequest_Inflate (Some (packet c src tn port)) =
      Some (Some (c\<lparr>m_source := src, m_transaction_number := tn, m_port_id := port\<rparr>))"
    using VerifyData_packet [OF ok, of src tn port "[]"] command_of_packet [OF ok, of _ _ src tn port "[]"]
      True cc tn m
    by (simp add: RDMRequest_Inflate_def Let_def)
  ultimately show ?thesis
    using True PackWithParams_eq [OF ok _ _ buf, of src tn port] by auto
next
  case False
  then show ?thesis by (auto simp: PackWithParams_def RequiredSize_def rdm_consts Let_def)
qed

definition sample_request :: rdm_command where
  "sample_request = \<lparr>m_source = UID 0x7a70 1, m_destination = UID 0x7a70 2, m_transaction_number = 5,
     m_port_id = 1, m_message_count = 0, m_sub_device = 3, m_command_class = GET_COMMAND,
     m_param_id = 0x60, m_param_data = Some [1, 2], m_data_length = 2\<rparr>"

theorem rdm_request_roundtrip_witness:
  "\<exists>p. PackWithParams sample_request (replicate 30 0) 30 (UID 1 9) 7 2 =
         Some (Some (p @ replicate 3 0, 27)) \<and> length p = 27 \<and>
       RDMRequest_Inflate (Some p) = Some (Some (sample_request\<lparr>m_source := UID 1 9,
         m_transaction_number := 7, m_port_id := 2\<rparr>))"
  using rdm_request_roundtrip [of sample_request 30 "replicate 30 0" "UID 1 9" 7 2]
  by (simp add: sample_request_def cmd_ok_def CommandType_def)

text \<open>The three ways to put a command on the wire agree: packing into a buffer, pushing onto an
  \<open>IOStack\<close> and appending to an output stream produce the same bytes for every command that fits into
  one message.\<close>

theorem rdm_writers_agree:
  assumes ok: "cmd_ok c" and n: "m_data_length c \<le> 231"
    and buf: "25 + m_data_length c \<le> length buffer"
  shows "\<exists>p. Serializer_Pack c buffer (length buffer) =
      Some (Some (p @ drop (25 + m_data_length c) buffer, 25 + m_data_length c)) \<and>
    Serializer_Write c stack = Some (Some (p @ stack)) \<and>
    Write c stream = Some (stream @ p)"
proof -
  let ?p = "packet c (m_source c) (m_transaction_number c) (m_port_id c)"
  have rs: "RequiredSize c = 25 + m_data_length c" using n by (simp add: RequiredSize_def rdm_consts)
  have "Serializer_Pack c buffer (length buffer) =
      Some (Some (?p @ drop (25 + m_data_length c) buffer, 25 + m_data_length c))"
    unfolding Serializer_Pack_def by (rule PackWithParams_eq [OF ok n buf order_refl])
  moreover have "Serializer_Write c stack = Some (Some (?p @ stack))"
    using ok by (simp add: Serializer_Write_def WriteToStack_def rs ParamData_ok packet_def Let_def)
  moreover have "Write c stream = Some (stream @ ?p)"
    using ok by (simp add: Write_def ParamData_ok packet_def rs Let_def PopulateHeader_def rdm_consts
        checksum16_def checksum32_narrow ucast_u8_u32_u16 flip: foldl_append)
  ultimately show ?thesis by blast
qed

theorem rdm_writers_agree_witness:
  "\<exists>p. Serializer_Pack sample_request (replicate 30 0) 30 = Some (Some (p @ replicate 3 0, 27)) \<and>
       Serializer_Write sample_request [0xff] = Some (Some (p @ [0xff])) \<and>
       Write sample_request [9] = Some ([9] @ p)"
  using rdm_writers_agree [of sample_request "replicate 30 0" "[0xff]" "[9]"]
  by (simp add: sample_request_def cmd_ok_def)

section \<open>Responses\<close>

lemma RDMResponse_Inflate_packet:
  assumes ok: "cmd_ok c" and n: "m_data_length c \<le> 231"
    and cc: "m_command_class c \<in> {DISCOVER_COMMAND_RESPONSE, GET_COMMAND_RESPONSE, SET_COMMAND_RESPONSE}"
    and ty: "m_port_id c \<le> ACK_OVERFLOW"
    and chk: "\<And>r h. request = Some r \<Longrightarrow>
        h = PopulateHeader c (25 + m_data_length c) (m_source c) (m_transaction_number c) (m_port_id c) \<Longrightarrow>
        check_response r tn (m_source c) (m_destination c) h = None"
    and tn: "request \<noteq> None \<Longrightarrow> tn = m_transaction_number c"
  shows "RDMResponse_Inflate (Some (packet c (m_source c) (m_transaction_number c) (m_port_id c))) request tn =
    Some (Inr c)"
proof -
  let ?h = "PopulateHeader c (25 + m_data_length c) (m_source c) (m_transaction_number c) (m_port_id c)"
  let ?p = "packet c (m_source c) (m_transaction_number c) (m_port_id c)"
  have v: "VerifyData (Some ?p) = Some (Inr ?h)"
    using VerifyData_packet [OF ok n, of _ _ _ "[]"] by simp
  have h: "UID_from_data (source_uid ?h) = Some (m_source c)"
    "UID_from_data (destination_uid ?h) = Some (m_destination c)" "port_id ?h = m_port_id c"
    "ConvertCommandClass (command_class ?h) = m_command_class c"
    "transaction_number ?h = m_transaction_number c"
    by (simp_all add: PopulateHeader_def Let_def Pack_6)
  have ck: "Option.bind request (\<lambda>r. check_response r tn (m_source c) (m_destination c) ?h) = None"
    using chk by (cases request) simp_all
  have "command_of_header (m_command_class c) (m_transaction_number c) ?h ?p = Some c"
    using command_of_packet [OF ok n, of _ _ "m_source c" _ _ "[]"] by simp
  then show ?thesis
    using v h ck ty cc tn by (cases request) (auto simp: RDMResponse_Inflate_def Let_def)
qed

text \<open>C8: A responder's answer reaches the requester. The response that GetResponseWithPid builds for a
  GET, SET or DISCOVER request (with at most 231 bytes of data and a response type up to
  \<open>ACK_OVERFLOW\<close>), put on the wire, passes every check of the requester's InflateFromData and is
  delivered unchanged, with the request's UIDs exchanged.\<close>

theorem rdm_response_accepted:
  assumes req: "CommandType r = RDM_REQUEST" and d: "length data \<le> 231" and ty: "type \<le> ACK_OVERFLOW"
  shows "\<exists>resp p. GetResponseWithPid r pid (Some data) (length data) type outstanding = Some (Some resp) \<and>
    m_source resp = m_destination r \<and> m_destination resp = m_source r \<and>
    ParamData resp = Some data \<and>
    Serializer_Write resp [] = Some (Some p) \<and>
    RDMResponse_Inflate_for (Some p) (Some r) = Some (Inr resp)"
proof -
  define cc where "cc = (case m_command_class r of GET_COMMAND \<Rightarrow> GET_COMMAND_RESPONSE
     | SET_COMMAND \<Rightarrow> SET_COMMAND_RESPONSE | _ \<Rightarrow> DISCOVER_COMMAND_RESPONSE)"
  obtain resp where resp: "RDMCommand (m_destination r) (m_source r) (m_transaction_number r) type
      outstanding (m_sub_device r) cc pid (Some data) (length data) = Some resp"
    and ok: "cmd_ok resp" and dat: "data_of resp = data"
    using RDMCommand_ok .
  have f: "m_source resp = m_destination r" "m_destination resp = m_source r"
    "m_transaction_number resp = m_transaction_number r" "m_port_id resp = type"
    "m_sub_device resp = m_sub_device r" "m_command_class resp = cc" "m_data_length resp = length data"
    using resp by (auto simp: RDMCommand_def SetParamData_def split: if_splits)
  have g: "GetResponseWithPid r pid (Some data) (length data) type outstanding = Some (Some resp)"
    using req resp by (cases "m_command_class r") (simp_all add: GetResponseWithPid_def cc_def CommandType_def)
  have n: "m_data_length resp \<le> 231" using f d by simp
  let ?p = "packet resp (m_source resp) (m_transaction_number resp) (m_port_id resp)"
  have rs: "RequiredSize resp = 25 + m_data_length resp" using n by (simp add: RequiredSize_def rdm_consts)
  have w: "Serializer_Write resp [] = Some (Some ?p)"
    using ok by (simp add: Serializer_Write_def WriteToStack_def rs ParamData_ok packet_def Let_def)
  have "RDMResponse_Inflate (Some ?p) (Some r) (m_transaction_number r) = Some (Inr resp)"
  proof (rule RDMResponse_Inflate_packet [OF ok n])
    show "m_command_class resp \<in> {DISCOVER_COMMAND_RESPONSE, GET_COMMAND_RESPONSE, SET_COMMAND_RESPONSE}"
      by (simp add: f cc_def split: rdm_class.split)
    show "m_port_id resp \<le> ACK_OVERFLOW" using ty f by simp
    show "m_transaction_number r = m_transaction_number resp" by (simp add: f)
    fix r' h
    assume "Some r = Some r'" and h: "h = PopulateHeader resp (25 + m_data_length resp) (m_source resp)
        (m_transaction_number resp) (m_port_id resp)"
    then show "check_response r' (m_transaction_number r) (m_source resp) (m_destination resp) h = None"
      using req f by (cases "m_command_class r")
        (simp_all add: check_response_def PopulateHeader_def Let_def cc_def CommandType_def
          ConvertCommandClass_def)
  qed
  then have "RDMResponse_Inflate_for (Some ?p) (Some r) = Some (Inr resp)"
    by (simp add: RDMResponse_Inflate_for_def)
  moreover have "ParamData resp = Some data" using ParamData_ok [OF ok] dat by simp
  ultimately show ?thesis using f g w by blast
qed

theorem rdm_response_accepted_witness:
  "\<exists>resp p. GetResponseWithPid sample_request 0x60 (Some [7]) 1 RDM_ACK 0 = Some (Some resp) \<and>
     Serializer_Write resp [] = Some (Some p) \<and>
     RDMResponse_Inflate_for (Some p) (Some sample_request) = Some (Inr resp)"
  using rdm_response_accepted [of sample_request "[7]" RDM_ACK "0x60" 0]
  by (auto simp: sample_request_def CommandType_def rdm_consts)

text \<open>C30: A response that InflateFromData accepts for a request answers that request: the UIDs are
  exchanged, the transaction number is the expected one, the sub device is the requested one unless all
  sub devices or a queued message were asked for, the command class fits, and the response type is one
  of the defined ones.\<close>

theorem rdm_response_matches:
  assumes "RDMResponse_Inflate (Some d) (Some r) tn = Some (Inr resp)"
  shows "m_source resp = m_destination r \<and> m_destination resp = m_source r \<and>
    m_transaction_number resp = tn \<and> m_port_id resp \<le> ACK_OVERFLOW \<and>
    CommandType resp = RDM_RESPONSE \<and>
    (m_sub_device resp = m_sub_device r \<or> m_sub_device r = ALL_RDM_SUBDEVICES \<or>
     m_param_id r = PID_QUEUED_MESSAGE) \<and>
    (m_command_class r = GET_COMMAND \<longrightarrow>
       m_command_class resp = GET_COMMAND_RESPONSE \<or> m_param_id r = PID_QUEUED_MESSAGE) \<and>
    (m_command_class r = SET_COMMAND \<longrightarrow> m_command_class resp = SET_COMMAND_RESPONSE) \<and>
    (m_command_class r = DISCOVER_COMMAND \<longrightarrow> m_command_class resp = DISCOVER_COMMAND_RESPONSE)"
proof -
  obtain h src dst where h: "VerifyData (Some d) = Some (Inr h)"
    and src: "UID_from_data (source_uid h) = Some src" and dst: "UID_from_data (destination_uid h) = Some dst"
    and chk: "check_response r tn src dst h = None" and pt: "\<not> port_id h > ACK_OVERFLOW"
    and cc: "ConvertCommandClass (command_class h) \<in>
        {DISCOVER_COMMAND_RESPONSE, GET_COMMAND_RESPONSE, SET_COMMAND_RESPONSE}"
    and resp: "command_of_header (ConvertCommandClass (command_class h)) tn h d = Some resp"
  proof -
    obtain v where v: "VerifyData (Some d) = Some v"
      using assms by (cases "VerifyData (Some d)") (simp_all add: RDMResponse_Inflate_def)
    then obtain h where h: "VerifyData (Some d) = Some (Inr h)"
      using assms by (cases v) (simp_all add: RDMResponse_Inflate_def)
    obtain src dst where sd: "UID_from_data (source_uid h) = Some src" "UID_from_data (destination_uid h) = Some dst"
      using assms h by (auto simp: RDMResponse_Inflate_def bind_eq_Some_conv)
    show thesis using assms h sd that
      by (auto simp: RDMResponse_Inflate_def Let_def split: option.splits if_splits)
  qed
  have f: "m_source resp = src" "m_destination resp = dst" "m_transaction_number resp = tn"
    "m_port_id resp = port_id h" "m_sub_device resp = of_be16 (sub_device h ! 0) (sub_device h ! 1)"
    "m_command_class resp = ConvertCommandClass (command_class h)"
    using resp src dst by (auto simp: command_of_header_def RDMCommand_def)
  from chk have "m_source r = dst" "m_destination r = src"
    "\<not> (m_sub_device resp \<noteq> m_sub_device r \<and> m_sub_device r \<noteq> ALL_RDM_SUBDEVICES \<and> m_param_id r \<noteq> PID_QUEUED_MESSAGE)"
    "\<not> (m_command_class r = GET_COMMAND \<and> m_command_class resp \<noteq> GET_COMMAND_RESPONSE \<and> m_param_id r \<noteq> PID_QUEUED_MESSAGE)"
    "\<not> (m_command_class r = SET_COMMAND \<and> m_command_class resp \<noteq> SET_COMMAND_RESPONSE)"
    "\<not> (m_command_class r = DISCOVER_COMMAND \<and> m_command_class resp \<noteq> DISCOVER_COMMAND_RESPONSE)"
    unfolding check_response_def Let_def f by (simp_all split: if_splits)
  moreover have "CommandType resp = RDM_RESPONSE" using cc f by (auto simp: CommandType_def)
  ultimately show ?thesis using f pt by auto
qed

theorem rdm_response_matches_witness:
  "\<exists>p resp. RDMResponse_Inflate (Some p) (Some sample_request) 5 = Some (Inr resp) \<and>
     m_source resp = UID 0x7a70 2"
proof -
  obtain resp where resp: "RDMCommand (UID 0x7a70 2) (UID 0x7a70 1) 5 RDM_ACK 0 3 GET_COMMAND_RESPONSE 0x60
      (Some [7]) (length [7 :: u8]) = Some resp" "cmd_ok resp"
    using RDMCommand_ok .
  let ?p = "packet resp (m_source resp) (m_transaction_number resp) (m_port_id resp)"
  have "RDMResponse_Inflate (Some ?p) (Some sample_request) 5 = Some (Inr resp)"
    by (rule RDMResponse_Inflate_packet [OF resp(2)])
      (use resp(1) in \<open>auto simp: RDMCommand_def SetParamData_def sample_request_def check_response_def
        PopulateHeader_def Let_def rdm_consts\<close>)
  with rdm_response_matches [OF this] show ?thesis by (auto simp: sample_request_def)
qed

text \<open>The sniffer's Inflate recovers every command from its wire form, choosing the right inflate
  function from the command class byte: requests of all kinds, discovery responses, and GET and SET
  responses with a valid response type.\<close>

theorem rdm_inflate_roundtrip:
  assumes ok: "cmd_ok c" and n: "m_data_length c \<le> 231" and cc: "m_command_class c \<noteq> INVALID_COMMAND"
    and ty: "m_command_class c \<in> {GET_COMMAND_RESPONSE, SET_COMMAND_RESPONSE} \<Longrightarrow> m_port_id c \<le> ACK_OVERFLOW"
  shows "\<exists>p. Serializer_Write c [] = Some (Some p) \<and> Inflate p = Some (Some c) \<and>
    GuessMessageType (Some p) = Some (CommandType c, m_command_class c)"
proof -
  let ?p = "packet c (m_source c) (m_transaction_number c) (m_port_id c)"
  let ?h = "PopulateHeader c (25 + m_data_length c) (m_source c) (m_transaction_number c) (m_port_id c)"
  have rs: "RequiredSize c = 25 + m_data_length c" using n by (simp add: RequiredSize_def rdm_consts)
  have w: "Serializer_Write c [] = Some (Some ?p)"
    using ok by (simp add: Serializer_Write_def WriteToStack_def rs ParamData_ok packet_def Let_def)
  have lp: "length ?p = 25 + m_data_length c" using ok by (simp add: packet_def Let_def)
  have v: "VerifyData (Some ?p) = Some (Inr ?h)"
    using VerifyData_packet [OF ok n, of _ _ _ "[]"] by simp
  have pc: "?p ! 19 = class_code (m_command_class c)"
  proof -
    have "command_class (read_header ?p) = command_class ?h"
      by (simp add: packet_def rs Let_def read_header_bytes)
    then show ?thesis by (simp add: read_header_def PopulateHeader_def Let_def)
  qed
  have gm: "GuessMessageType (Some ?p) = Some (CommandType c, m_command_class c)"
    using cc lp pc by (cases "m_command_class c") (simp_all add: GuessMessageType_def CommandType_def)
  have h: "ConvertCommandClass (command_class ?h) = m_command_class c"
    "transaction_number ?h = m_transaction_number c"
    by (simp_all add: PopulateHeader_def Let_def)
  have co: "command_of_header (m_command_class c) (m_transaction_number c) ?h ?p = Some c"
    using command_of_packet [OF ok n, of _ _ "m_source c" _ _ "[]"] by simp
  have resp: "RDMResponse_Inflate_for (Some ?p) None = Some (Inr c)"
    if "m_command_class c \<in> {GET_COMMAND_RESPONSE, SET_COMMAND_RESPONSE}"
    unfolding RDMResponse_Inflate_for_def option.case
    by (rule RDMResponse_Inflate_packet [OF ok n]) (use that ty in auto)
  have "Inflate ?p = Some (Some c)"
    using cc gm lp v h co resp
    by (cases "m_command_class c")
      (simp_all add: Inflate_def RDMRequest_Inflate_def RDMDiscoveryRequest_Inflate_def
        RDMDiscoveryResponse_Inflate_def Let_def)
  with w gm show ?thesis by blast
qed

theorem rdm_inflate_roundtrip_witness:
  "\<exists>p. Serializer_Write sample_request [] = Some (Some p) \<and> Inflate p = Some (Some sample_request)"
  using rdm_inflate_roundtrip [of sample_request] by (auto simp: sample_request_def cmd_ok_def)

section \<open>Reads outside the message\<close>

lemma read_header_fields:
  "sub_start_code (read_header d) = d ! 0" "message_length (read_header d) = d ! 1"
  "param_data_length (read_header d) = d ! 22"
  "length d \<ge> 23 \<Longrightarrow> length (source_uid (read_header d)) = 6 \<and> length (destination_uid (read_header d)) = 6"
  by (simp_all add: read_header_def)

lemma VerifyData_None:
  assumes "length d < 2 ^ 32 - 1"
  shows "VerifyData (Some d) = None \<longleftrightarrow> 23 \<le> length d \<and> d ! 0 = SUB_START_CODE \<and> d ! 1 = 0"
proof (cases "23 \<le> length d \<and> d ! 0 = SUB_START_CODE \<and> unat (d ! 1) + 1 \<le> length d")
  case True
  show ?thesis
  proof (cases "d ! 1 = 0")
    case z: True
    then have "uint_sub (unat (d ! 1)) 1 = 2 ^ 32 - 1" by (simp add: uint_sub_def)
    then show ?thesis using assms True z
      by (auto simp: VerifyData_def HEADER_SIZE_def Let_def read_header_fields CalculateChecksum_def)
  next
    case False
    then obtain n where n: "unat (d ! 1) = Suc n"
      by (metis not0_implies_Suc unat_eq_zero)
    with True have "n < length d" "n \<le> length d" by simp_all
    then show ?thesis using assms True False n
      by (simp add: VerifyData_def HEADER_SIZE_def Let_def read_header_fields CalculateChecksum_def)
  qed
next
  case False
  have "unat (d ! 1) + 1 \<le> length d" if "23 \<le> length d" "d ! 1 = 0" using that by simp
  with False show ?thesis
    by (auto simp: VerifyData_def HEADER_SIZE_def Let_def read_header_fields not_le not_less)
qed

lemma VerifyData_OK:
  assumes "VerifyData (Some d) = Some (Inr h)"
  shows "h = read_header d \<and> 23 \<le> length d \<and>
    unat (d ! 22) \<le> uint_sub (uint_sub (length d) 23) 2"
  using assms
  by (simp add: VerifyData_def HEADER_SIZE_def Let_def read_header_fields bind_eq_Some_conv split: if_splits)

lemma command_of_header_None:
  assumes "23 \<le> length d"
  shows "command_of_header cc tn (read_header d) d = None \<longleftrightarrow> 23 + unat (d ! 22) > length d"
  using assms read_header_fields(4) [OF assms]
  by (auto simp: command_of_header_def UID_from_data_def RDMCommand_def SetParamData_def HEADER_SIZE_def
      read_header_fields)

text \<open>C34: Which messages make the inflate functions read outside their input. With at least 25 bytes and
  a nonzero length field nothing is read out of bounds; a length field of 0 makes the checksum loop run
  over \<open>2 ^ 32 - 1\<close> bytes; and a message of exactly 23 bytes (no room for a checksum) passes all checks
  although it announces three bytes of parameter data that are not there.\<close>

theorem rdm_inflate_bounds:
  "(length d < 2 ^ 32 - 1 \<longrightarrow>
     (VerifyData (Some d) = None \<longleftrightarrow> 23 \<le> length d \<and> d ! 0 = SUB_START_CODE \<and> d ! 1 = 0) \<and>
     (25 \<le> length d \<and> d ! 1 \<noteq> 0 \<longrightarrow>
       RDMRequest_Inflate (Some d) \<noteq> None \<and> RDMResponse_Inflate (Some d) request tn \<noteq> None)) \<and>
   RDMRequest_Inflate (Some ([1, 22] @ replicate 17 0 @ [0x20, 0, 1, 3])) = None"
proof (intro conjI impI)
  assume "length d < 2 ^ 32 - 1"
  then show "VerifyData (Some d) = None \<longleftrightarrow> 23 \<le> length d \<and> d ! 0 = SUB_START_CODE \<and> d ! 1 = 0"
    by (rule VerifyData_None)
next
  assume len: "length d < 2 ^ 32 - 1" and c: "25 \<le> length d \<and> d ! 1 \<noteq> 0"
  then obtain v where v: "VerifyData (Some d) = Some v"
    using VerifyData_None [OF len] by (cases "VerifyData (Some d)") auto
  have body: "command_of_header cc tn (read_header d) d \<noteq> None" if "v = Inr h" for h cc tn
    using VerifyData_OK [of d h] v that c command_of_header_None [of d cc tn] by auto
  show "RDMRequest_Inflate (Some d) \<noteq> None"
  proof (cases v)
    case (Inr h)
    with VerifyData_OK [of d h] v have "h = read_header d" by simp
    with body [OF Inr] v Inr show ?thesis by (simp add: RDMRequest_Inflate_def Let_def)
  qed (simp add: RDMRequest_Inflate_def v)
  show "RDMResponse_Inflate (Some d) request tn \<noteq> None"
  proof (cases v)
    case (Inr h)
    with VerifyData_OK [of d h] v have h: "h = read_header d" by simp
    have "UID_from_data (source_uid h) \<noteq> None" "UID_from_data (destination_uid h) \<noteq> None"
      using read_header_fields(4) [of d] c h by (simp_all add: UID_from_data_def)
    with body [OF Inr] v Inr h show ?thesis
      by (auto simp: RDMResponse_Inflate_def Let_def split: option.splits)
  qed (simp add: RDMResponse_Inflate_def v)
next
  let ?d = "[1, 22] @ replicate 17 0 @ [0x20, 0, 1, 3] :: bytes"
  have r: "replicate 17 (0 :: u8) = [0, 0, 0, 0, 0, 0, 0, 0, 0, 0, 0, 0, 0, 0, 0, 0, 0]"
    by (simp add: numeral_eq_Suc)
  have "VerifyData (Some ?d) = Some (Inr (read_header ?d))"
    unfolding r
    by (simp add: VerifyData_def HEADER_SIZE_def Let_def read_header_fields SUB_START_CODE_def
        CalculateChecksum_def START_CODE_def of_be16_def uint_sub_def)
  moreover have "ConvertCommandClass (command_class (read_header ?d)) = GET_COMMAND"
    unfolding r by (simp add: read_header_def ConvertCommandClass_def)
  moreover have "command_of_header cc tn (read_header ?d) ?d = None" for cc tn
    by (subst command_of_header_None) (simp_all add: r)
  ultimately show "RDMRequest_Inflate (Some ?d) = None"
    by (simp add: RDMRequest_Inflate_def Let_def)
qed

theorem rdm_inflate_bounds_witness:
  "VerifyData (Some (SUB_START_CODE # replicate 30 0)) = None \<and>
   RDMRequest_Inflate (Some (replicate 30 5)) \<noteq> None"
proof -
  have "VerifyData (Some (SUB_START_CODE # replicate 30 0)) = None"
    using rdm_inflate_bounds [of "SUB_START_CODE # replicate 30 0" None 0] by simp
  moreover have "RDMRequest_Inflate (Some (replicate 30 5)) \<noteq> None"
    using rdm_inflate_bounds [of "replicate 30 5" None 0] by simp
  ultimately show ?thesis ..
qed

section \<open>Overflow sessions\<close>

text \<open>Collecting the responses of an \<open>ACK_OVERFLOW\<close> session, one after the other.\<close>

fun combine_all :: "rdm_command \<Rightarrow> rdm_command list \<Rightarrow> rdm_command option" where
  "combine_all r [] = Some r"
| "combine_all r (x # xs) =
     (case CombineResponses r x of Some (Some r') \<Rightarrow> combine_all r' xs | _ \<Rightarrow> None)"

lemma CombineResponses_ok:
  assumes ok: "cmd_ok r" "cmd_ok x" and cc: "m_command_class r = cc" "m_command_class x = cc"
    and rs: "cc \<in> {GET_COMMAND_RESPONSE, SET_COMMAND_RESPONSE}" and src: "m_source x = m_source r"
    and n: "length (data_of r) + length (data_of x) \<le> 4096"
  obtains r' where "CombineResponses r x = Some (Some r')" and "cmd_ok r'"
    and "data_of r' = data_of r @ data_of x" and "m_command_class r' = cc" and "m_source r' = m_source r"
    and "m_message_count r' = m_message_count x" and "m_param_id r' = m_param_id r" and "m_port_id r' = RDM_ACK"
proof -
  obtain c where c: "RDMCommand (m_source r) (m_destination r) (m_transaction_number r)
      RDM_ACK (m_message_count x) (m_sub_device r) cc (m_param_id r)
      (Some (data_of r @ data_of x)) (length (data_of r @ data_of x)) = Some c"
    "cmd_ok c" "data_of c = data_of r @ data_of x"
    using RDMCommand_ok .
  have "CombineResponses r x = Some (Some c)"
    using ok cc rs src n c(1) by (auto simp: CombineResponses_def ParamData_ok rdm_consts Let_def)
  moreover have "m_command_class c = cc" "m_source c = m_source r" "m_message_count c = m_message_count x"
    "m_param_id c = m_param_id r" "m_port_id c = RDM_ACK"
    using c(1) by (auto simp: RDMCommand_def)
  ultimately show thesis using that c by blast
qed

lemma CombineResponses_too_big:
  assumes "cmd_ok r" "cmd_ok x" and "length (data_of r) + length (data_of x) > 4096"
  shows "CombineResponses r x = Some None"
  using assms by (simp add: CombineResponses_def rdm_consts Let_def)

text \<open>An overflow session is reassembled completely or not at all: combining the responses of one
  source and one command class in order yields a single acknowledgement with the concatenation of their
  data if that has at most 4096 bytes, and fails otherwise.\<close>

theorem rdm_overflow_reassembly:
  assumes "cmd_ok r" and "list_all (\<lambda>x. cmd_ok x \<and> m_command_class x = m_command_class r \<and> m_source x = m_source r) xs"
    and "m_command_class r \<in> {GET_COMMAND_RESPONSE, SET_COMMAND_RESPONSE}" and "xs \<noteq> []"
  shows "case combine_all r xs of
      Some c \<Rightarrow> length (concat (map data_of (r # xs))) \<le> 4096 \<and>
                data_of c = concat (map data_of (r # xs)) \<and> m_port_id c = RDM_ACK \<and>
                m_param_id c = m_param_id r \<and> m_message_count c = m_message_count (last xs)
    | None \<Rightarrow> length (concat (map data_of (r # xs))) > 4096"
  using assms
proof (induction xs arbitrary: r)
  case (Cons x xs)
  show ?case
  proof (cases "length (data_of r) + length (data_of x) \<le> 4096")
    case True
    obtain r' where r': "CombineResponses r x = Some (Some r')" "cmd_ok r'"
      "data_of r' = data_of r @ data_of x" "m_command_class r' = m_command_class r" "m_source r' = m_source r"
      "m_message_count r' = m_message_count x" "m_param_id r' = m_param_id r" "m_port_id r' = RDM_ACK"
      by (rule CombineResponses_ok [of r x]) (use Cons True in simp_all)
    show ?thesis
    proof (cases "xs = []")
      case True
      with r' \<open>length (data_of r) + length (data_of x) \<le> 4096\<close> show ?thesis by simp
    next
      case False
      have e: "combine_all r (x # xs) = combine_all r' xs"
        "concat (map data_of (r # x # xs)) = concat (map data_of (r' # xs))" "last (x # xs) = last xs"
        using r' False by simp_all
      have "list_all (\<lambda>x. cmd_ok x \<and> m_command_class x = m_command_class r' \<and> m_source x = m_source r') xs"
        "m_command_class r' \<in> {GET_COMMAND_RESPONSE, SET_COMMAND_RESPONSE}"
        using Cons.prems r'(4,5) by simp_all
      note IH = Cons.IH [OF r'(2) this False]
      show ?thesis unfolding e using IH unfolding r'(7) .
    qed
  next
    case False
    with Cons CombineResponses_too_big [of r x] show ?thesis by simp
  qed
qed simp

theorem rdm_overflow_reassembly_witness:
  "\<exists>r x. combine_all r [x, x] \<noteq> None \<and> data_of x = [3] \<and>
     map_option data_of (combine_all r [x, x]) = Some [1, 2, 3, 3]"
proof -
  let ?r = "sample_request\<lparr>m_command_class := GET_COMMAND_RESPONSE\<rparr>"
  let ?x = "?r\<lparr>m_param_data := Some [3], m_data_length := 1\<rparr>"
  let ?c = "combine_all ?r [?x, ?x]"
  have cc: "concat (map data_of (?r # [?x, ?x])) = [1, 2, 3, 3]"
    by (simp add: sample_request_def data_of_def)
  have "case ?c of
      Some c \<Rightarrow> length (concat (map data_of (?r # [?x, ?x]))) \<le> 4096 \<and>
                data_of c = concat (map data_of (?r # [?x, ?x])) \<and> m_port_id c = RDM_ACK \<and>
                m_param_id c = m_param_id ?r \<and> m_message_count c = m_message_count (last [?x, ?x])
    | None \<Rightarrow> length (concat (map data_of (?r # [?x, ?x]))) > 4096"
    by (rule rdm_overflow_reassembly) (simp_all add: sample_request_def cmd_ok_def)
  then have "map_option data_of ?c = Some [1, 2, 3, 3]"
    unfolding cc by (cases ?c) (simp_all del: combine_all.simps)
  moreover have "data_of ?x = [3]" by (simp add: data_of_def)
  ultimately show ?thesis by (intro exI [of _ ?r] exI [of _ ?x]) auto
qed

section \<open>Discovery requests\<close>

text \<open>The discovery requests that the library builds carry what they announce: a unique branch
  request goes to all devices and its data are the two bounds, from which both UIDs can be read; mute
  and unmute requests have no data; all three survive the wire.\<close>

theorem rdm_discovery_requests:
  "\<exists>dub mute unmute p q r.
     NewDiscoveryUniqueBranchRequest source lower upper tn port = Some dub \<and>
     m_destination dub = AllDevices \<and> m_param_id dub = PID_DISC_UNIQUE_BRANCH \<and>
     map_option (\<lambda>d. (length d, UID_from_data d, UID_from_data (drop 6 d))) (ParamData dub) =
       Some (12, Some lower, Some upper) \<and>
     Serializer_Write dub [] = Some (Some p) \<and> RDMDiscoveryRequest_Inflate (Some p) = Some (Some dub) \<and>
     NewMuteRequest source dest tn port = Some mute \<and> m_destination mute = dest \<and>
     Serializer_Write mute [] = Some (Some q) \<and> RDMDiscoveryRequest_Inflate (Some q) = Some (Some mute) \<and>
     NewUnMuteRequest source dest tn port = Some unmute \<and> m_destination unmute = dest \<and>
     Serializer_Write unmute [] = Some (Some r) \<and> RDMDiscoveryRequest_Inflate (Some r) = Some (Some unmute)"
proof -
  have wire: "\<exists>p. Serializer_Write c [] = Some (Some p) \<and> RDMDiscoveryRequest_Inflate (Some p) = Some (Some c)"
    if ok: "cmd_ok c" and n: "m_data_length c \<le> 231" and cc: "m_command_class c = DISCOVER_COMMAND" for c
  proof -
    let ?p = "packet c (m_source c) (m_transaction_number c) (m_port_id c)"
    let ?h = "PopulateHeader c (25 + m_data_length c) (m_source c) (m_transaction_number c) (m_port_id c)"
    have rs: "RequiredSize c = 25 + m_data_length c" using n by (simp add: RequiredSize_def rdm_consts)
    have "Serializer_Write c [] = Some (Some ?p)"
      using ok by (simp add: Serializer_Write_def WriteToStack_def rs ParamData_ok packet_def Let_def)
    moreover have "VerifyData (Some ?p) = Some (Inr ?h)"
      using VerifyData_packet [OF ok n, of _ _ _ "[]"] by simp
    moreover have "ConvertCommandClass (command_class ?h) = DISCOVER_COMMAND"
      "transaction_number ?h = m_transaction_number c"
      using cc ConvertCommandClass_code [of DISCOVER_COMMAND] by (simp_all add: PopulateHeader_def Let_def)
    moreover have "command_of_header DISCOVER_COMMAND (m_transaction_number c) ?h ?p = Some c"
      using command_of_packet [OF ok n, of DISCOVER_COMMAND _ "m_source c" _ _ "[]"] cc by simp
    ultimately show ?thesis by (simp add: RDMDiscoveryRequest_Inflate_def)
  qed
  have d: "NewDiscoveryUniqueBranchRequest source lower upper tn port =
      RDMCommand source AllDevices tn port 0 ROOT_RDM_DEVICE DISCOVER_COMMAND PID_DISC_UNIQUE_BRANCH
        (Some (uid_bytes lower @ uid_bytes upper)) (length (uid_bytes lower @ uid_bytes upper))"
    by (simp add: NewDiscoveryUniqueBranchRequest_def Pack_def UID_SIZE_def memcpy_at_def uid_bytes_def)
  obtain dub where dub: "RDMCommand source AllDevices tn port 0 ROOT_RDM_DEVICE DISCOVER_COMMAND
      PID_DISC_UNIQUE_BRANCH (Some (uid_bytes lower @ uid_bytes upper)) (length (uid_bytes lower @ uid_bytes upper)) = Some dub"
    "cmd_ok dub" "data_of dub = uid_bytes lower @ uid_bytes upper"
    using RDMCommand_ok .
  obtain mute where mute: "NewMuteRequest source dest tn port = Some mute" "cmd_ok mute" "m_destination mute = dest"
    "m_data_length mute = 0" "m_command_class mute = DISCOVER_COMMAND"
    by (simp add: NewMuteRequest_def RDMCommand_def SetParamData_def cmd_ok_def)
  obtain unmute where unmute: "NewUnMuteRequest source dest tn port = Some unmute" "cmd_ok unmute"
    "m_destination unmute = dest" "m_data_length unmute = 0" "m_command_class unmute = DISCOVER_COMMAND"
    by (simp add: NewUnMuteRequest_def RDMCommand_def SetParamData_def cmd_ok_def)
  have f: "m_destination dub = AllDevices" "m_param_id dub = PID_DISC_UNIQUE_BRANCH"
    "m_data_length dub = 12" "m_command_class dub = DISCOVER_COMMAND"
    using dub(1) by (auto simp: RDMCommand_def)
  have "UID_from_data (uid_bytes lower @ uid_bytes upper) = Some lower"
    using UID_from_data_Pack [of lower "uid_bytes upper"] by (simp add: uid_bytes_def)
  then have "map_option (\<lambda>d. (length d, UID_from_data d, UID_from_data (drop 6 d))) (ParamData dub) =
       Some (12, Some lower, Some upper)"
    using ParamData_ok [OF dub(2)] dub(3) by simp
  moreover obtain p where "Serializer_Write dub [] = Some (Some p)"
    "RDMDiscoveryRequest_Inflate (Some p) = Some (Some dub)" using wire [OF dub(2)] f by auto
  moreover obtain q where "Serializer_Write mute [] = Some (Some q)"
    "RDMDiscoveryRequest_Inflate (Some q) = Some (Some mute)" using wire [OF mute(2)] mute by auto
  moreover obtain r where "Serializer_Write unmute [] = Some (Some r)"
    "RDMDiscoveryRequest_Inflate (Some r) = Some (Some unmute)" using wire [OF unmute(2)] unmute by auto
  ultimately show ?thesis using d dub(1) f mute(1,3) unmute(1,3) by simp
qed

end
