(* ===== verification/Discovery_Agent.thy ===== *)
theory Discovery_Agent
  imports RDM_UID
begin

text \<open>
  The RDM discovery algorithm (\<^verbatim>\<open>common/rdm/DiscoveryAgent.cpp\<close>, \<^verbatim>\<open>include/ola/rdm/DiscoveryAgent.h\<close>): a
  binary search over the UID space. The agent is a state machine. A handler runs to its end and, as
  its last action, either hands one operation to the discovery target (unmute all, mute a device, send
  a unique branch request), whose completion callback is the next handler to run, or reports the
  result. The operation is the second component of a handler's result; the completion callback that it
  names is part of it. \<open>None\<close> is undefined behaviour: the top of an empty stack, a range without a parent
  where one is dereferenced.

  The stack of ranges is a list with the top at its end. A parent pointer is the position of the
  parent in that list: a range stays at its position until it is deleted.
\<close>

section \<open>State\<close>

record uid_range =
  r_lower :: uid
  r_upper :: uid
  r_parent :: "nat option"
  r_attempt :: nat
  r_failures :: nat
  r_uids_discovered :: nat
  r_branch_corrupt :: bool

definition UIDRange :: "uid \<Rightarrow> uid \<Rightarrow> nat option \<Rightarrow> uid_range" where
  "UIDRange lower upper parent =
     \<lparr>r_lower = lower, r_upper = upper, r_parent = parent, r_attempt = 0, r_failures = 0,
      r_uids_discovered = 0, r_branch_corrupt = False\<rparr>"

text \<open>\<open>m_on_complete\<close> identifies the completion callback, if one is set.\<close>

record agent =
  m_uids :: uid_set
  m_bad_uids :: uid_set
  m_on_complete :: "nat option"
  m_uids_to_mute :: "uid list"
  m_uid_ranges :: "uid_range list"
  m_muting_uid :: uid
  m_mute_attempts :: nat
  m_tree_corrupt :: bool

text \<open>What a handler ends with: an operation of the target together with the callback that its
  completion runs, the report to the user, or nothing.\<close>

datatype agent_call =
  UnMuteAll
| MuteDevice_incremental uid
| MuteDevice_branch uid
| Branch uid uid
| Complete nat bool uid_set
| Nothing

definition MAX_DUB_RESPONSE_SIZE :: nat where "MAX_DUB_RESPONSE_SIZE = 24"
definition MIN_DUB_RESPONSE_SIZE :: nat where "MIN_DUB_RESPONSE_SIZE = 17"
definition MAX_EMPTY_BRANCH_ATTEMPTS :: nat where "MAX_EMPTY_BRANCH_ATTEMPTS = 5"
definition MAX_BRANCH_FAILURES :: nat where "MAX_BRANCH_FAILURES = 5"
definition MAX_MUTE_ATTEMPTS :: nat where "MAX_MUTE_ATTEMPTS = 5"

lemmas dub_consts = MAX_DUB_RESPONSE_SIZE_def MIN_DUB_RESPONSE_SIZE_def
  MAX_EMPTY_BRANCH_ATTEMPTS_def MAX_BRANCH_FAILURES_def MAX_MUTE_ATTEMPTS_def

definition DiscoveryAgent :: agent where
  "DiscoveryAgent =
     \<lparr>m_uids = [], m_bad_uids = [], m_on_complete = None, m_uids_to_mute = [], m_uid_ranges = [],
      m_muting_uid = UID 0 0, m_mute_attempts = 0, m_tree_corrupt = False\<rparr>"

section \<open>The stack of ranges\<close>

text \<open>Applying a change to the top range.\<close>

definition top_range :: "agent \<Rightarrow> uid_range option" where
  "top_range a = (if m_uid_ranges a = [] then None else Some (last (m_uid_ranges a)))"

definition set_top :: "uid_range \<Rightarrow> agent \<Rightarrow> agent" where
  "set_top r a = a\<lparr>m_uid_ranges := butlast (m_uid_ranges a) @ [r]\<rparr>"

definition update_parent :: "uid_range \<Rightarrow> (uid_range \<Rightarrow> uid_range) \<Rightarrow> uid_range list \<Rightarrow> uid_range list option" where
  "update_parent r f rs =
     (case r_parent r of
        None \<Rightarrow> None
      | Some p \<Rightarrow> if p < length rs then Some (rs[p := f (rs ! p)]) else None)"

definition uint_add :: "nat \<Rightarrow> nat \<Rightarrow> nat" where
  "uint_add a b = (a + b) mod 2 ^ 32"

definition FreeCurrentRange :: "agent \<Rightarrow> agent option" where
  "FreeCurrentRange a = do {
     rng \<leftarrow> top_range a;
     if length (m_uid_ranges a) = 1
     then Some (a\<lparr>m_tree_corrupt := (if r_branch_corrupt rng then True else m_tree_corrupt a),
                  m_uid_ranges := butlast (m_uid_ranges a)\<rparr>)
     else do {
       rs \<leftarrow> update_parent rng
               (\<lambda>p. p\<lparr>r_uids_discovered := uint_add (r_uids_discovered p) (r_uids_discovered rng)\<rparr>)
               (m_uid_ranges a);
       Some (a\<lparr>m_uid_ranges := butlast rs\<rparr>)
     }
   }"

section \<open>Sending branch requests\<close>

text \<open>The part of \<open>SendDiscovery\<close> before its recursive call: a finished stack reports the result, a
  range that has reached a limit is dropped (\<open>Inl\<close>, the call repeats), otherwise a request goes out.\<close>

definition SendDiscovery_step :: "agent \<Rightarrow> (agent + agent \<times> agent_call) option" where
  "SendDiscovery_step a =
     (case top_range a of
        None \<Rightarrow>
          Some (Inr (case m_on_complete a of
                       Some cb \<Rightarrow> (a\<lparr>m_on_complete := None\<rparr>, Complete cb (\<not> m_tree_corrupt a) (m_uids a))
                     | None \<Rightarrow> (a, Nothing)))
      | Some rng \<Rightarrow>
          let rng = (if r_uids_discovered rng = 0
                       then rng\<lparr>r_attempt := r_attempt rng + 1\<rparr> else rng);
              a = set_top rng a
          in if r_failures rng = MAX_BRANCH_FAILURES \<or> r_attempt rng = MAX_EMPTY_BRANCH_ATTEMPTS \<or>
                r_branch_corrupt rng
             then do {
               rs \<leftarrow> (if r_parent rng \<noteq> None
                     then update_parent rng (\<lambda>p. p\<lparr>r_branch_corrupt := True\<rparr>) (m_uid_ranges a)
                     else Some (m_uid_ranges a));
               a \<leftarrow> FreeCurrentRange (a\<lparr>m_uid_ranges := rs\<rparr>);
               Some (Inl a)
             }
             else Some (Inr (a, Branch (r_lower rng) (r_upper rng))))"

lemma length_set_top [simp]:
  "m_uid_ranges a \<noteq> [] \<Longrightarrow> length (m_uid_ranges (set_top r a)) = length (m_uid_ranges a)"
  by (simp add: set_top_def)

lemma length_update_parent: "update_parent r f rs = Some rs' \<Longrightarrow> length rs' = length rs"
  by (auto simp: update_parent_def split: option.splits if_splits)

lemma FreeCurrentRange_length:
  "FreeCurrentRange a = Some a' \<Longrightarrow> Suc (length (m_uid_ranges a')) = length (m_uid_ranges a)"
  by (auto simp: FreeCurrentRange_def top_range_def bind_eq_Some_conv length_Suc_conv
      dest!: length_update_parent split: if_splits)

lemma SendDiscovery_step_less:
  assumes "SendDiscovery_step a = Some (Inl a')"
  shows "length (m_uid_ranges a') < length (m_uid_ranges a)"
proof -
  have *: "Suc (length (m_uid_ranges a')) = length rs"
    if "FreeCurrentRange (b\<lparr>m_uid_ranges := rs\<rparr>) = Some a'" for b rs
    using FreeCurrentRange_length [OF that] by simp
  have ne: "m_uid_ranges a \<noteq> []" using assms by (auto simp: SendDiscovery_step_def top_range_def)
  show ?thesis
    using assms ne
    by (auto simp: SendDiscovery_step_def top_range_def Let_def bind_eq_Some_conv
        dest!: * length_update_parent split: if_splits)
qed

text \<open>The whole of \<open>SendDiscovery\<close>, with its recursion.\<close>

function SendDiscovery :: "agent \<Rightarrow> (agent \<times> agent_call) option" where
  "SendDiscovery a =
     (case SendDiscovery_step a of
        None \<Rightarrow> None
      | Some (Inl a') \<Rightarrow> SendDiscovery a'
      | Some (Inr res) \<Rightarrow> Some res)"
  by pat_completeness auto
termination
  by (relation "measure (\<lambda>a. length (m_uid_ranges a))") (auto intro: SendDiscovery_step_less)

declare SendDiscovery.simps [simp del]

section \<open>Starting and stopping\<close>

definition Abort :: "agent \<Rightarrow> agent \<times> agent_call" where
  "Abort a =
     (let a = a\<lparr>m_uid_ranges := []\<rparr>
      in case m_on_complete a of
           Some cb \<Rightarrow> (a\<lparr>m_on_complete := None\<rparr>, Complete cb False [])
         | None \<Rightarrow> (a, Nothing))"

text \<open>The loop of \<open>InitDiscovery\<close> that empties the stack.\<close>

function free_all_ranges :: "agent \<Rightarrow> agent option" where
  "free_all_ranges a =
     (if m_uid_ranges a = [] then Some a
      else case FreeCurrentRange a of None \<Rightarrow> None | Some a' \<Rightarrow> free_all_ranges a')"
  by pat_completeness auto
termination
  by (relation "measure (\<lambda>a. length (m_uid_ranges a))") (auto dest!: FreeCurrentRange_length)

declare free_all_ranges.simps [simp del]

definition InitDiscovery :: "nat \<Rightarrow> bool \<Rightarrow> agent \<Rightarrow> (agent \<times> agent_call) option" where
  "InitDiscovery on_complete incremental a =
     (if m_on_complete a \<noteq> None then Some (a, Complete on_complete False [])
      else do {
        let a = a\<lparr>m_on_complete := Some on_complete, m_uids_to_mute := []\<rparr>;
        a \<leftarrow> free_all_ranges a;
        let a = (if incremental then a\<lparr>m_uids_to_mute := m_uids a\<rparr> else a\<lparr>m_uids := []\<rparr>);
        let a = a\<lparr>m_bad_uids := [], m_tree_corrupt := False\<rparr>;
        let a = a\<lparr>m_uid_ranges := m_uid_ranges a @ [UIDRange (UID 0 0) AllDevices None]\<rparr>;
        Some (a, UnMuteAll)
      })"

definition StartFullDiscovery :: "nat \<Rightarrow> agent \<Rightarrow> (agent \<times> agent_call) option" where
  "StartFullDiscovery on_complete a = InitDiscovery on_complete False a"

definition StartIncrementalDiscovery :: "nat \<Rightarrow> agent \<Rightarrow> (agent \<times> agent_call) option" where
  "StartIncrementalDiscovery on_complete a = InitDiscovery on_complete True a"

section \<open>Callbacks\<close>

definition MaybeMuteNextDevice :: "agent \<Rightarrow> (agent \<times> agent_call) option" where
  "MaybeMuteNextDevice a =
     (case m_uids_to_mute a of
        [] \<Rightarrow> SendDiscovery a
      | u # us \<Rightarrow> Some (a\<lparr>m_muting_uid := u, m_uids_to_mute := us\<rparr>, MuteDevice_incremental u))"

definition UnMuteComplete :: "agent \<Rightarrow> (agent \<times> agent_call) option" where
  "UnMuteComplete a = MaybeMuteNextDevice a"

definition IncrementalMuteComplete :: "bool \<Rightarrow> agent \<Rightarrow> (agent \<times> agent_call) option" where
  "IncrementalMuteComplete status a =
     MaybeMuteNextDevice (if \<not> status then a\<lparr>m_uids := RemoveUID (m_muting_uid a) (m_uids a)\<rparr> else a)"

text \<open>The mid point of a range, computed on 64 bit integers.\<close>

definition uid_to_u64 :: "uid \<Rightarrow> u64" where
  "uid_to_u64 u = push_bit 32 (ucast (esta_id u)) + ucast (device_id u)"

definition uid_of_u64 :: "u64 \<Rightarrow> uid" where
  "uid_of_u64 w = UID (ucast (drop_bit 32 w)) (ucast w)"

definition HandleCollision :: "agent \<Rightarrow> (agent \<times> agent_call) option" where
  "HandleCollision a = do {
     rng \<leftarrow> top_range a;
     if cmp (r_lower rng) (r_upper rng) = 0
     then SendDiscovery (set_top (rng\<lparr>r_failures := r_failures rng + 1\<rparr>) a)
     else do {
       let lower = uid_to_u64 (r_lower rng);
       let upper = uid_to_u64 (r_upper rng);
       let mid = (lower + upper) div 2;
       let mid_uid = uid_of_u64 mid;
       let mid_plus_one_uid = uid_of_u64 (mid + 1);
       let this = length (m_uid_ranges a) - 1;
       let a = set_top (rng\<lparr>r_uids_discovered := 0\<rparr>) a;
       let a = a\<lparr>m_uid_ranges := m_uid_ranges a @ [UIDRange (r_lower rng) mid_uid (Some this)]\<rparr>;
       let a = a\<lparr>m_uid_ranges := m_uid_ranges a @ [UIDRange mid_plus_one_uid (r_upper rng) (Some this)]\<rparr>;
       SendDiscovery a
     }
   }"

text \<open>The decoding of a unique branch response: \<open>None\<close> for everything that the code treats as a
  collision.\<close>

definition dub_decode :: "bytes \<Rightarrow> uid option" where
  "dub_decode data =
     (if length data < MIN_DUB_RESPONSE_SIZE \<or> length data > MAX_DUB_RESPONSE_SIZE then None
      else
        let preamble_size = length data - MIN_DUB_RESPONSE_SIZE
        in if \<not> list_all (\<lambda>b. b = 0xfe) (take preamble_size data) then None
           else if data ! preamble_size \<noteq> 0xaa then None
           else
             let r = drop (preamble_size + 1) data;
                 calculated_checksum = foldl (\<lambda>c b. c + ucast b) (0 :: u16) (take 12 r);
                 recovered_checksum = of_be16 (r ! 12 AND r ! 13) (r ! 14 AND r ! 15)
             in if recovered_checksum \<noteq> calculated_checksum then None
                else Some (UID (of_be16 (r ! 0 AND r ! 1) (r ! 2 AND r ! 3))
                               (of_be32 (r ! 4 AND r ! 5) (r ! 6 AND r ! 7) (r ! 8 AND r ! 9)
                                        (r ! 10 AND r ! 11))))"

definition BranchComplete :: "bytes \<Rightarrow> agent \<Rightarrow> (agent \<times> agent_call) option" where
  "BranchComplete data a =
     (if data = [] then do { a \<leftarrow> FreeCurrentRange a; SendDiscovery a }
      else case dub_decode data of
        None \<Rightarrow> HandleCollision a
      | Some located_uid \<Rightarrow> do {
          rng \<leftarrow> top_range a;
          if Contains (m_uids a) located_uid
          then SendDiscovery (set_top (rng\<lparr>r_failures := r_failures rng + 1\<rparr>) a)
          else if Contains (m_bad_uids a) located_uid
          then SendDiscovery (set_top (rng\<lparr>r_failures := r_failures rng + 1\<rparr>) a)
          else Some (a\<lparr>m_muting_uid := located_uid, m_mute_attempts := 0\<rparr>, MuteDevice_branch located_uid)
        })"

definition BranchMuteComplete :: "bool \<Rightarrow> agent \<Rightarrow> (agent \<times> agent_call) option" where
  "BranchMuteComplete status a =
     (let a = a\<lparr>m_mute_attempts := m_mute_attempts a + 1\<rparr>
      in if status then do {
           rng \<leftarrow> top_range a;
           let a = a\<lparr>m_uids := AddUID (m_muting_uid a) (m_uids a)\<rparr>;
           SendDiscovery (set_top (rng\<lparr>r_uids_discovered := uint_add (r_uids_discovered rng) 1\<rparr>) a)
         }
         else if m_mute_attempts a < MAX_MUTE_ATTEMPTS
         then Some (a, MuteDevice_branch (m_muting_uid a))
         else SendDiscovery (a\<lparr>m_bad_uids := AddUID (m_muting_uid a) (m_bad_uids a)\<rparr>))"

end
