(* ===== verification/Discovery_Correct.thy ===== *)
theory Discovery_Correct
  imports Discovery_Agent
begin

text \<open>
  The discovery agent connected to a bus of responders. The bus follows the E1.20 protocol: unmuted
  responders whose UID lies in a branch answer together, a single answer arrives in its encoded form,
  several answers arrive as something that does not decode (the parameter \<open>noise\<close>), and a mute request
  to a present responder is acknowledged. On such a bus every discovery ends and finds exactly the
  responders that are present.
\<close>

section \<open>The UID space as an interval\<close>

definition unum :: "uid \<Rightarrow> nat" where
  "unum u = unat (esta_id u) * 2 ^ 32 + unat (device_id u)"

lemma unum_bound: "unum u < 2 ^ 48"
proof -
  have "unat (esta_id u) < 2 ^ 16" "unat (device_id u) < 2 ^ 32"
    using unsigned_less [of "esta_id u"] unsigned_less [of "device_id u"] by simp_all
  then show ?thesis by (simp add: unum_def)
qed

lemma uid_less_unum: "a < b \<longleftrightarrow> unum a < unum b"
proof -
  have d: "unat (device_id a) < 2 ^ 32" "unat (device_id b) < 2 ^ 32"
    using unsigned_less [of "device_id a"] unsigned_less [of "device_id b"] by simp_all
  have "a < b \<longleftrightarrow> unat (esta_id a) < unat (esta_id b) \<or>
      (unat (esta_id a) = unat (esta_id b) \<and> unat (device_id a) < unat (device_id b))"
    by (simp add: less_uid_def uid_less_iff word_less_nat_alt word_unat_eq_iff del: uid_less)
  also have "\<dots> \<longleftrightarrow> unum a < unum b"
    using d by (auto simp: unum_def)
  finally show ?thesis .
qed

lemma uid_le_unum: "a \<le> b \<longleftrightarrow> unum a \<le> unum b"
  by (metis uid_less_unum linorder_not_less)

lemma unat_uid_to_u64: "unat (uid_to_u64 u) = unum u"
proof -
  have e: "unat (esta_id u) < 2 ^ 16" and d: "unat (device_id u) < 2 ^ 32"
    using unsigned_less [of "esta_id u"] unsigned_less [of "device_id u"] by simp_all
  have 1: "unat (push_bit 32 (ucast (esta_id u)) :: u64) = unat (esta_id u) * 2 ^ 32"
  proof -
    have "unat (push_bit 32 (ucast (esta_id u)) :: u64) = take_bit 64 (push_bit 32 (unat (ucast (esta_id u) :: u64)))"
      by (simp only: unsigned_push_bit_eq) simp
    also have "unat (ucast (esta_id u) :: u64) = unat (esta_id u)"
      using e by (simp add: unsigned_ucast_eq take_bit_nat_eq_self)
    finally show ?thesis using e by (simp add: push_bit_eq_mult take_bit_nat_eq_self)
  qed
  have 2: "unat (ucast (device_id u) :: u64) = unat (device_id u)"
    using d by (simp add: unsigned_ucast_eq take_bit_nat_eq_self)
  show ?thesis unfolding uid_to_u64_def
    by (subst unat_add_lem [THEN iffD1]) (use e d in \<open>simp_all add: 1 2 unum_def\<close>)
qed

lemma unum_uid_of_u64:
  assumes "unat w < 2 ^ 48"
  shows "unum (uid_of_u64 w) = unat w"
proof -
  have "unat (drop_bit 32 w) = unat w div 2 ^ 32"
    by (simp add: drop_bit_eq_div unat_div)
  moreover have "unat w div 2 ^ 32 < 2 ^ 16" using assms by (simp add: less_mult_imp_div_less)
  ultimately show ?thesis
    by (simp add: unum_def uid_of_u64_def unsigned_ucast_eq take_bit_eq_mod)
qed

text \<open>The split of a branch: the two halves are adjacent and non-empty.\<close>

lemma mid_split:
  assumes "lo < hi"
  defines "mid \<equiv> (uid_to_u64 lo + uid_to_u64 hi) div 2"
  shows "unum (uid_of_u64 mid) = (unum lo + unum hi) div 2"
    and "unum (uid_of_u64 (mid + 1)) = (unum lo + unum hi) div 2 + 1"
    and "lo \<le> uid_of_u64 mid" and "uid_of_u64 mid < uid_of_u64 (mid + 1)" and "uid_of_u64 (mid + 1) \<le> hi"
proof -
  note b = unum_bound [of lo] unum_bound [of hi]
  have "unat (uid_to_u64 lo + uid_to_u64 hi) = unum lo + unum hi"
    by (subst unat_add_lem [THEN iffD1]) (use b in \<open>simp_all add: unat_uid_to_u64\<close>)
  then have m: "unat mid = (unum lo + unum hi) div 2"
    by (simp add: mid_def unat_div)
  then have m1: "unat (mid + 1) = (unum lo + unum hi) div 2 + 1"
    by (subst unat_add_lem [THEN iffD1]) (use b in simp_all)
  show u1: "unum (uid_of_u64 mid) = (unum lo + unum hi) div 2"
    using b m by (subst unum_uid_of_u64) simp_all
  have lt: "unum lo < unum hi" using assms(1) by (simp add: uid_less_unum)
  show u2: "unum (uid_of_u64 (mid + 1)) = (unum lo + unum hi) div 2 + 1"
    using b m1 lt by (subst unum_uid_of_u64) simp_all
  show "lo \<le> uid_of_u64 mid" "uid_of_u64 mid < uid_of_u64 (mid + 1)" "uid_of_u64 (mid + 1) \<le> hi"
    using lt by (simp_all add: uid_le_unum uid_less_unum u1 u2)
qed

section \<open>Branch responses\<close>

text \<open>The E1.20 encoding of a UID in a unique branch response: every byte is sent twice, with
  complementary masks, and the checksum covers the twelve encoded bytes.\<close>

definition mask_byte :: "u8 \<Rightarrow> bytes" where
  "mask_byte b = [b OR 0xaa, b OR 0x55]"

definition dub_encode :: "nat \<Rightarrow> uid \<Rightarrow> bytes" where
  "dub_encode preamble u =
     (let euid = concat (map mask_byte (be16 (esta_id u) @ be32 (device_id u)));
          checksum = foldl (\<lambda>c b. c + ucast b) (0 :: u16) euid
      in replicate preamble 0xfe @ [0xaa] @ euid @ concat (map mask_byte (be16 checksum)))"

lemma mask_byte_and: "(b OR 0xaa) AND (b OR 0x55) = (b :: u8)"
proof -
  have "(b OR 0xaa) AND (b OR 0x55) = b OR (0xaa AND 0x55)" by (simp only: bit.disj_conj_distrib)
  then show ?thesis by simp
qed

lemma dub_decode_encode:
  assumes "k \<le> 7"
  shows "dub_decode (dub_encode k u) = Some u"
proof -
  let ?euid = "concat (map mask_byte (be16 (esta_id u) @ be32 (device_id u)))"
  define c where "c = foldl (\<lambda>c b. c + ucast b) (0 :: u16) ?euid"
  let ?r = "?euid @ concat (map mask_byte (be16 c))"
  have enc: "dub_encode k u = replicate k 0xfe @ 0xaa # ?r"
    by (simp add: dub_encode_def c_def)
  have len: "length ?euid = 12" "length (concat (map mask_byte (be16 c))) = 4"
    by (simp_all add: be16_def be32_def mask_byte_def)
  have cs: "of_be16 (?r ! 12 AND ?r ! 13) (?r ! 14 AND ?r ! 15) = c"
    using of_be16_be16 [of c] by (simp add: be16_def be32_def mask_byte_def mask_byte_and)
  have e: "of_be16 (?r ! 0 AND ?r ! 1) (?r ! 2 AND ?r ! 3) = esta_id u"
    using of_be16_be16 [of "esta_id u"] by (simp add: be16_def be32_def mask_byte_def mask_byte_and)
  have d: "of_be32 (?r ! 4 AND ?r ! 5) (?r ! 6 AND ?r ! 7) (?r ! 8 AND ?r ! 9) (?r ! 10 AND ?r ! 11) =
      device_id u"
    using of_be32_be32 [of "device_id u"] by (simp add: be16_def be32_def mask_byte_def mask_byte_and)
  have ln: "length (dub_encode k u) = k + 17" unfolding enc using len by simp
  have dr: "drop (k + 1) (dub_encode k u) = ?r" unfolding enc by simp
  have tk: "take k (dub_encode k u) = replicate k 0xfe" "dub_encode k u ! k = 0xaa"
    unfolding enc by (simp_all add: nth_append)
  have t12: "take 12 ?r = ?euid" using len by simp
  show ?thesis
    unfolding dub_decode_def Let_def ln dub_consts
    using assms by (simp only: add_diff_cancel_right' dr tk t12 cs e d c_def [symmetric])
      (simp add: list_all_iff)
qed

section \<open>The bus\<close>

text \<open>\<open>D\<close> are the responders on the bus, \<open>M\<close> the muted ones.\<close>

definition responding :: "uid list \<Rightarrow> uid list \<Rightarrow> uid \<Rightarrow> uid \<Rightarrow> uid list" where
  "responding D M lo hi = filter (\<lambda>u. u \<notin> set M \<and> lo \<le> u \<and> u \<le> hi) D"

definition bus_answer :: "(uid list \<Rightarrow> bytes) \<Rightarrow> uid list \<Rightarrow> uid list \<Rightarrow> uid \<Rightarrow> uid \<Rightarrow> bytes" where
  "bus_answer noise D M lo hi =
     (case responding D M lo hi of [] \<Rightarrow> [] | [u] \<Rightarrow> dub_encode 7 u | us \<Rightarrow> noise us)"

text \<open>One exchange with the bus: the target performs the pending operation and runs its callback. A
  configuration is the agent, the pending operation and the muted responders.\<close>

type_synonym config = "agent \<times> agent_call \<times> uid list"

fun bus_step :: "(uid list \<Rightarrow> bytes) \<Rightarrow> uid list \<Rightarrow> config \<Rightarrow> config option" where
  "bus_step noise D (a, UnMuteAll, M) = map_option (\<lambda>(a, c). (a, c, [])) (UnMuteComplete a)"
| "bus_step noise D (a, MuteDevice_incremental u, M) =
     map_option (\<lambda>(a, c). (a, c, if u \<in> set D then u # M else M)) (IncrementalMuteComplete (u \<in> set D) a)"
| "bus_step noise D (a, MuteDevice_branch u, M) =
     map_option (\<lambda>(a, c). (a, c, if u \<in> set D then u # M else M)) (BranchMuteComplete (u \<in> set D) a)"
| "bus_step noise D (a, Branch lo hi, M) =
     map_option (\<lambda>(a, c). (a, c, M)) (BranchComplete (bus_answer noise D M lo hi) a)"
| "bus_step noise D (a, Complete cb ok us, M) = Some (a, Complete cb ok us, M)"
| "bus_step noise D (a, Nothing, M) = Some (a, Nothing, M)"

fun bus_run :: "(uid list \<Rightarrow> bytes) \<Rightarrow> uid list \<Rightarrow> nat \<Rightarrow> config option \<Rightarrow> config option" where
  "bus_run noise D 0 c = c"
| "bus_run noise D (Suc n) c = bus_run noise D n (Option.bind c (bus_step noise D))"

definition noisy :: "(uid list \<Rightarrow> bytes) \<Rightarrow> bool" where
  "noisy noise \<longleftrightarrow> (\<forall>us. noise us \<noteq> [] \<and> dub_decode (noise us) = None)"

definition reaches :: "(uid list \<Rightarrow> bytes) \<Rightarrow> uid list \<Rightarrow> config option \<Rightarrow> config option \<Rightarrow> bool" where
  "reaches noise D c c' \<longleftrightarrow> (\<exists>n. bus_run noise D n c = c')"

lemma bus_run_add: "bus_run noise D (m + n) c = bus_run noise D n (bus_run noise D m c)"
  by (induction m arbitrary: c) simp_all

lemma reaches_refl [simp]: "reaches noise D c c"
  unfolding reaches_def by (rule exI [of _ 0]) simp

lemma reaches_trans: "reaches noise D a b \<Longrightarrow> reaches noise D b c \<Longrightarrow> reaches noise D a c"
  unfolding reaches_def by (metis bus_run_add)

lemma reaches_step: "bus_step noise D c = c' \<Longrightarrow> reaches noise D (Some c) c'"
  unfolding reaches_def by (rule exI [of _ 1]) simp

text \<open>The configuration after \<open>SendDiscovery\<close>.\<close>

definition send :: "agent \<Rightarrow> uid list \<Rightarrow> config option" where
  "send a M = map_option (\<lambda>(a, c). (a, c, M)) (SendDiscovery a)"

section \<open>Elementary moves\<close>

lemma top_range_snoc [simp]: "m_uid_ranges a = st @ [r] \<Longrightarrow> top_range a = Some r"
  by (simp add: top_range_def)

lemma SendDiscovery_branch:
  assumes "m_uid_ranges a = st @ [r]" and "r_failures r < 5" and "\<not> r_branch_corrupt r"
    and "r_attempt r < 4 \<or> (r_uids_discovered r > 0 \<and> r_attempt r < 5)"
  defines "r' \<equiv> if r_uids_discovered r = 0 then r\<lparr>r_attempt := r_attempt r + 1\<rparr> else r"
  shows "SendDiscovery a = Some (a\<lparr>m_uid_ranges := st @ [r']\<rparr>, Branch (r_lower r) (r_upper r))"
  using assms
  by (subst SendDiscovery.simps) (auto simp: SendDiscovery_step_def set_top_def dub_consts)

text \<open>The stack after the top range has been dropped: its parent takes over the count.\<close>

definition bump :: "nat option \<Rightarrow> nat \<Rightarrow> uid_range list \<Rightarrow> uid_range list" where
  "bump par n st =
     (case par of None \<Rightarrow> st
      | Some p \<Rightarrow> st[p := (st ! p)\<lparr>r_uids_discovered := uint_add (r_uids_discovered (st ! p)) n\<rparr>])"

definition linked :: "uid_range list \<Rightarrow> nat option \<Rightarrow> bool" where
  "linked st par \<longleftrightarrow> (case par of None \<Rightarrow> st = [] | Some p \<Rightarrow> p < length st)"

lemma FreeCurrentRange_snoc:
  assumes "m_uid_ranges a = st @ [r]" and "linked st (r_parent r)" and "\<not> r_branch_corrupt r"
  shows "FreeCurrentRange a = Some (a\<lparr>m_uid_ranges := bump (r_parent r) (r_uids_discovered r) st\<rparr>)"
  using assms
  by (auto simp: FreeCurrentRange_def linked_def bump_def update_parent_def list_update_append nth_append
      split: option.splits)

text \<open>A branch in which nobody answers is dropped.\<close>

lemma silent_branch:
  assumes a: "m_uid_ranges a = st @ [r]" "r_failures r < 5" "\<not> r_branch_corrupt r"
    "r_attempt r < 4 \<or> (r_uids_discovered r > 0 \<and> r_attempt r < 5)" "linked st (r_parent r)"
    and silent: "responding D M (r_lower r) (r_upper r) = []"
  shows "reaches noise D (send a M) (send (a\<lparr>m_uid_ranges := bump (r_parent r) (r_uids_discovered r) st\<rparr>) M)"
proof -
  define r' where "r' = (if r_uids_discovered r = 0 then r\<lparr>r_attempt := r_attempt r + 1\<rparr> else r)"
  let ?b = "a\<lparr>m_uid_ranges := st @ [r']\<rparr>"
  have s: "send a M = Some (?b, Branch (r_lower r) (r_upper r), M)"
    using SendDiscovery_branch [OF a(1-4)] by (simp add: send_def r'_def)
  have "FreeCurrentRange ?b = Some (?b\<lparr>m_uid_ranges := bump (r_parent r') (r_uids_discovered r') st\<rparr>)"
    by (rule FreeCurrentRange_snoc) (use a in \<open>auto simp: r'_def\<close>)
  then have "BranchComplete [] ?b =
      SendDiscovery (a\<lparr>m_uid_ranges := bump (r_parent r) (r_uids_discovered r) st\<rparr>)"
    by (simp add: BranchComplete_def r'_def)
  then have "bus_step noise D (?b, Branch (r_lower r) (r_upper r), M) =
      send (a\<lparr>m_uid_ranges := bump (r_parent r) (r_uids_discovered r) st\<rparr>) M"
    using silent by (simp add: bus_answer_def send_def)
  then show ?thesis unfolding s by (rule reaches_step)
qed

text \<open>A single answer is decoded and its responder muted.\<close>

lemma single_branch:
  assumes a: "m_uid_ranges a = st @ [r]" "r_failures r < 5" "\<not> r_branch_corrupt r"
    "r_attempt r < 4" "r_uids_discovered r = 0"
    and one: "responding D M (r_lower r) (r_upper r) = [u]"
    and new: "\<not> Contains (m_uids a) u" "\<not> Contains (m_bad_uids a) u"
  shows "reaches noise D (send a M) (send (a\<lparr>m_muting_uid := u, m_mute_attempts := 1,
      m_uids := AddUID u (m_uids a),
      m_uid_ranges := st @ [r\<lparr>r_attempt := r_attempt r + 1, r_uids_discovered := 1\<rparr>]\<rparr>) (u # M))"
proof -
  let ?r = "r\<lparr>r_attempt := r_attempt r + 1\<rparr>"
  let ?b = "a\<lparr>m_uid_ranges := st @ [?r]\<rparr>"
  let ?c = "?b\<lparr>m_muting_uid := u, m_mute_attempts := 0\<rparr>"
  let ?d = "a\<lparr>m_muting_uid := u, m_mute_attempts := 1, m_uids := AddUID u (m_uids a),
      m_uid_ranges := st @ [r\<lparr>r_attempt := r_attempt r + 1, r_uids_discovered := 1\<rparr>]\<rparr>"
  have uD: "u \<in> set D" using one by (auto simp: responding_def filter_eq_Cons_iff)
  have s: "send a M = Some (?b, Branch (r_lower r) (r_upper r), M)"
    using SendDiscovery_branch [OF a(1-3)] a(4,5) by (simp add: send_def)
  have ne: "dub_encode 7 u \<noteq> []" by (simp add: dub_encode_def Let_def)
  have "bus_step noise D (?b, Branch (r_lower r) (r_upper r), M) = Some (?c, MuteDevice_branch u, M)"
    using one new ne by (simp add: bus_answer_def BranchComplete_def dub_decode_encode)
  then have 1: "reaches noise D (send a M) (Some (?c, MuteDevice_branch u, M))"
    unfolding s by (rule reaches_step)
  have "bus_step noise D (?c, MuteDevice_branch u, M) = send ?d (u # M)"
    using uD a(5) by (simp add: BranchMuteComplete_def set_top_def send_def uint_add_def)
  then have 2: "reaches noise D (Some (?c, MuteDevice_branch u, M)) (send ?d (u # M))"
    by (rule reaches_step)
  from reaches_trans [OF 1 2] show ?thesis .
qed

text \<open>Several answers collide and the branch is split.\<close>

lemma collision_branch:
  assumes a: "m_uid_ranges a = st @ [r]" "r_failures r < 5" "\<not> r_branch_corrupt r"
    "r_attempt r < 4" "r_uids_discovered r = 0" and lt: "r_lower r < r_upper r"
    and many: "2 \<le> length (responding D M (r_lower r) (r_upper r))" and noise: "noisy noise"
  defines "mid \<equiv> (uid_to_u64 (r_lower r) + uid_to_u64 (r_upper r)) div 2"
  shows "reaches noise D (send a M) (send (a\<lparr>m_uid_ranges := st @ [r\<lparr>r_attempt := r_attempt r + 1\<rparr>,
      UIDRange (r_lower r) (uid_of_u64 mid) (Some (length st)),
      UIDRange (uid_of_u64 (mid + 1)) (r_upper r) (Some (length st))]\<rparr>) M)"
proof -
  let ?r = "r\<lparr>r_attempt := r_attempt r + 1\<rparr>"
  let ?b = "a\<lparr>m_uid_ranges := st @ [?r]\<rparr>"
  have s: "send a M = Some (?b, Branch (r_lower r) (r_upper r), M)"
    using SendDiscovery_branch [OF a(1-3)] a(4,5) by (simp add: send_def)
  have zero: "r\<lparr>r_attempt := n, r_uids_discovered := 0\<rparr> = r\<lparr>r_attempt := n\<rparr>" for n
    using a(5) by (cases r) simp
  have neq: "r_lower r \<noteq> r_upper r" using lt by auto
  obtain us where us: "bus_answer noise D M (r_lower r) (r_upper r) = noise us"
  proof (cases "responding D M (r_lower r) (r_upper r)")
    case (Cons u us)
    with many that show thesis by (cases us) (auto simp: bus_answer_def)
  qed (use many in simp)
  have "bus_step noise D (?b, Branch (r_lower r) (r_upper r), M) =
      send (a\<lparr>m_uid_ranges := st @ [?r, UIDRange (r_lower r) (uid_of_u64 mid) (Some (length st)),
        UIDRange (uid_of_u64 (mid + 1)) (r_upper r) (Some (length st))]\<rparr>) M"
    using noise us neq
    by (simp add: BranchComplete_def noisy_def HandleCollision_def set_top_def Let_def mid_def send_def zero)
  then show ?thesis unfolding s by (rule reaches_step)
qed

section \<open>A whole branch\<close>

text \<open>What the search of a branch leaves alone.\<close>

definition frame :: "agent \<Rightarrow> agent \<Rightarrow> bool" where
  "frame a b \<longleftrightarrow> m_on_complete b = m_on_complete a \<and> m_tree_corrupt b = m_tree_corrupt a \<and>
     m_bad_uids b = m_bad_uids a \<and> m_uids_to_mute b = m_uids_to_mute a"

lemma frame_refl [simp]: "frame a a"
  by (simp add: frame_def)

lemma frame_trans: "frame a b \<Longrightarrow> frame b c \<Longrightarrow> frame a c"
  by (simp add: frame_def)

text \<open>The agent has found only muted responders, and no responder is bad.\<close>

definition tidy :: "agent \<Rightarrow> uid list \<Rightarrow> bool" where
  "tidy a M \<longleftrightarrow> uids_ok (m_uids a) \<and> set (m_uids a) \<subseteq> set M \<and> m_bad_uids a = []"

lemma set_responding: "set (responding D M lo hi) = {u \<in> set D - set M. lo \<le> u \<and> u \<le> hi}"
  by (auto simp: responding_def)

lemma distinct_responding: "distinct D \<Longrightarrow> distinct (responding D M lo hi)"
  by (simp add: responding_def)

lemma bump_bump:
  "linked st par \<Longrightarrow> bump par n (bump par m st) = bump par (m + n) st"
  by (auto simp: bump_def linked_def uint_add_def mod_add_left_eq add.assoc split: option.splits)

lemma responding_split:
  assumes lo: "lo \<le> m" and adj: "unum m1 = Suc (unum m)" and hi: "m1 \<le> hi"
    and N: "set N = set M \<union> set (responding D M m1 hi)"
  shows "set (responding D M lo hi) = set (responding D M m1 hi) \<union> set (responding D N lo m)"
    and "set (responding D M m1 hi) \<inter> set (responding D N lo m) = {}"
proof -
  have cmp: "m1 \<le> u \<longleftrightarrow> \<not> u \<le> m" for u using adj by (simp add: uid_le_unum not_le Suc_le_eq)
  have le: "lo \<le> u" if "m1 \<le> u" for u using that lo by (simp add: cmp)
  have ge: "u \<le> hi" if "u \<le> m" for u
    using that hi cmp [of hi] by simp
  show "set (responding D M m1 hi) \<inter> set (responding D N lo m) = {}"
    unfolding set_responding using cmp by blast
  have "set (responding D N lo m) = {u \<in> set D - set M. lo \<le> u \<and> u \<le> m}"
    unfolding set_responding N using cmp by blast
  moreover have "set (responding D M m1 hi) = {u \<in> set D - set M. \<not> u \<le> m \<and> u \<le> hi}"
    unfolding set_responding using cmp by blast
  ultimately show "set (responding D M lo hi) = set (responding D M m1 hi) \<union> set (responding D N lo m)"
    using le ge cmp unfolding set_responding by blast
qed

text \<open>Searching a fresh branch finds and mutes exactly the unmuted responders in it, adds their number
  to the parent, and drops the branch.\<close>

lemma branch_complete:
  assumes noise: "noisy noise" and D: "distinct D" "length D < 2 ^ 32"
  shows "m_uid_ranges a = st @ [UIDRange lo hi par] \<Longrightarrow> linked st par \<Longrightarrow> lo \<le> hi \<Longrightarrow> tidy a M \<Longrightarrow>
    \<exists>b N. reaches noise D (send a M) (send b N) \<and> frame a b \<and> tidy b N \<and>
      m_uid_ranges b = bump par (length (responding D M lo hi)) st \<and>
      set (m_uids b) = set (m_uids a) \<union> set (responding D M lo hi) \<and>
      set N = set M \<union> set (responding D M lo hi)"
proof (induction "unum hi - unum lo" arbitrary: a st lo hi par M rule: less_induct)
  case less
  let ?r = "UIDRange lo hi par"
  let ?S = "responding D M lo hi"
  have r: "r_lower ?r = lo" "r_upper ?r = hi" "r_parent ?r = par" "r_failures ?r = 0" "r_attempt ?r = 0"
    "r_uids_discovered ?r = 0" "\<not> r_branch_corrupt ?r"
    by (simp_all add: UIDRange_def)
  consider (none) "?S = []" | (one) u where "?S = [u]" | (many) "2 \<le> length ?S"
    by (cases ?S; cases "tl ?S") auto
  then show ?case
  proof cases
    case none
    let ?b = "a\<lparr>m_uid_ranges := bump par 0 st\<rparr>"
    have "reaches noise D (send a M) (send ?b M)"
      using silent_branch [OF less.prems(1), of D M noise] less.prems(2) none r by simp
    then show ?thesis using none less.prems(4)
      by (intro exI [of _ ?b] exI [of _ M]) (simp add: frame_def tidy_def)
  next
    case one
    from one have u: "u \<notin> set M" using set_responding [of D M lo hi] by auto
    have new: "\<not> Contains (m_uids a) u" "\<not> Contains (m_bad_uids a) u"
      using less.prems(4) u by (auto simp: tidy_def Contains_iff)
    let ?r' = "?r\<lparr>r_attempt := 1, r_uids_discovered := 1\<rparr>"
    let ?b = "a\<lparr>m_muting_uid := u, m_mute_attempts := 1, m_uids := AddUID u (m_uids a),
        m_uid_ranges := st @ [?r']\<rparr>"
    have 1: "reaches noise D (send a M) (send ?b (u # M))"
      using single_branch [OF less.prems(1), of D M u noise] one new r by simp
    have "set (responding D (u # M) lo hi) = set ?S - {u}"
      by (auto simp: set_responding)
    then have silent: "responding D (u # M) lo hi = []" using one by simp
    let ?c = "?b\<lparr>m_uid_ranges := bump par 1 st\<rparr>"
    have "reaches noise D (send ?b (u # M)) (send ?c (u # M))"
      using silent_branch [of ?b st ?r' D "u # M" noise] less.prems(2) silent r by simp
    with 1 have "reaches noise D (send a M) (send ?c (u # M))" by (rule reaches_trans)
    then show ?thesis using one less.prems(4)
      by (intro exI [of _ ?c] exI [of _ "u # M"]) (auto simp: frame_def tidy_def AddUID_ok)
  next
    case many
    have lt: "lo < hi"
    proof (rule ccontr)
      assume "\<not> lo < hi"
      with less.prems(3) have "set ?S \<subseteq> {lo}" by (auto simp: set_responding)
      then have "card (set ?S) \<le> card {lo}" by (intro card_mono) simp_all
      with many distinct_card [OF distinct_responding [OF D(1), of M lo hi]] show False by simp
    qed
    define mid where "mid = (uid_to_u64 lo + uid_to_u64 hi) div 2"
    let ?m = "uid_of_u64 mid" and ?m1 = "uid_of_u64 (mid + 1)"
    note ms = mid_split [OF lt, folded mid_def]
    let ?r1 = "?r\<lparr>r_attempt := 1\<rparr>"
    let ?p = "Some (length st)"
    let ?b = "a\<lparr>m_uid_ranges := (st @ [?r1, UIDRange lo ?m ?p]) @ [UIDRange ?m1 hi ?p]\<rparr>"
    have 1: "reaches noise D (send a M) (send ?b M)"
      using collision_branch [OF less.prems(1), of D M noise] lt many noise r by (simp add: mid_def)
    let ?U = "responding D M ?m1 hi"
    obtain c N where c: "reaches noise D (send ?b M) (send c N)" "frame ?b c" "tidy c N"
      "m_uid_ranges c = bump ?p (length ?U) (st @ [?r1, UIDRange lo ?m ?p])"
      "set (m_uids c) = set (m_uids ?b) \<union> set ?U" "set N = set M \<union> set ?U"
    proof -
      have "unum hi - unum ?m1 < unum hi - unum lo" using lt ms by (simp add: uid_less_unum)
      moreover have "linked (st @ [?r1, UIDRange lo ?m ?p]) ?p" by (simp add: linked_def)
      moreover have "tidy ?b M" using less.prems(4) by (simp add: tidy_def)
      moreover have "m_uid_ranges ?b = (st @ [?r1, UIDRange lo ?m ?p]) @ [UIDRange ?m1 hi ?p]" by simp
      ultimately show thesis using less.hyps [of hi ?m1 ?b _ ?p M] ms(5) that by blast
    qed
    let ?r2 = "?r\<lparr>r_attempt := 1, r_uids_discovered := uint_add 0 (length ?U)\<rparr>"
    have c_ranges: "m_uid_ranges c = (st @ [?r2]) @ [UIDRange lo ?m ?p]"
      using c(4) r by (simp add: bump_def nth_append list_update_append)
    let ?L = "responding D N lo ?m"
    obtain d O' where d: "reaches noise D (send c N) (send d O')" "frame c d" "tidy d O'"
      "m_uid_ranges d = bump ?p (length ?L) (st @ [?r2])"
      "set (m_uids d) = set (m_uids c) \<union> set ?L" "set O' = set N \<union> set ?L"
    proof -
      have "unum ?m - unum lo < unum hi - unum lo" using lt ms by (simp add: uid_less_unum)
      moreover have "linked (st @ [?r2]) ?p" by (simp add: linked_def)
      ultimately show thesis using less.hyps [OF _ c_ranges _ ms(3) c(3)] that by blast
    qed
    have adj: "unum ?m1 = Suc (unum ?m)" using ms(1,2) by simp
    note sets = responding_split [OF ms(3) adj ms(5) c(6)]
    have len: "length ?S = length ?U + length ?L"
      using sets distinct_card [OF distinct_responding [OF D(1)]] by (metis List.finite_set card_Un_disjoint)
    have "length ?S \<le> length D" by (simp add: responding_def)
    then have small: "length ?S < 2 ^ 32" using D(2) by simp
    let ?r3 = "?r\<lparr>r_attempt := 1, r_uids_discovered := length ?S\<rparr>"
    have d_ranges: "m_uid_ranges d = st @ [?r3]"
      using d(4) len small by (simp add: bump_def uint_add_def)
    have silent: "responding D O' lo hi = []"
    proof -
      have "set O' = set M \<union> set ?S" using d(6) c(6) sets by auto
      then have "set (responding D O' lo hi) = {}" by (auto simp: set_responding)
      then show ?thesis by simp
    qed
    let ?e = "d\<lparr>m_uid_ranges := bump par (length ?S) st\<rparr>"
    have "reaches noise D (send d O') (send ?e O')"
      using silent_branch [of d st ?r3 D O' noise] d_ranges less.prems(2) silent r many by simp
    then have "reaches noise D (send a M) (send ?e O')"
      using 1 c(1) d(1) by (blast intro: reaches_trans)
    moreover have "frame a ?e" using c(2) d(2) by (simp add: frame_def)
    moreover have "tidy ?e O'" using d(3) by (simp add: tidy_def)
    moreover have "set (m_uids ?e) = set (m_uids a) \<union> set ?S" "set O' = set M \<union> set ?S"
      using c(5,6) d(5,6) sets by auto
    ultimately show ?thesis by (intro exI [of _ ?e] exI [of _ O']) simp
  qed
qed

section \<open>A whole discovery\<close>

lemma uid_min: "UID 0 0 \<le> u"
  by (simp add: uid_le_unum unum_def)

lemma uid_max: "u \<le> AllDevices"
proof -
  have "unum AllDevices = 2 ^ 48 - 1"
    by (simp add: unum_def AllDevices_def ALL_MANUFACTURERS_def ALL_DEVICES_def)
  with unum_bound [of u] show ?thesis by (simp add: uid_le_unum)
qed

text \<open>The phase that mutes the responders known from earlier discoveries and forgets those that do not
  answer.\<close>

definition mute_phase :: "agent \<Rightarrow> uid list \<Rightarrow> config option" where
  "mute_phase a M = map_option (\<lambda>(a, c). (a, c, M)) (MaybeMuteNextDevice a)"

lemma mute_phase_complete:
  assumes "uids_ok (m_uids a)"
  shows "\<exists>b N. reaches noise D (mute_phase a M) (send b N) \<and>
    m_on_complete b = m_on_complete a \<and> m_tree_corrupt b = m_tree_corrupt a \<and>
    m_bad_uids b = m_bad_uids a \<and> m_uid_ranges b = m_uid_ranges a \<and>
    uids_ok (m_uids b) \<and> set (m_uids b) = set (m_uids a) - (set (m_uids_to_mute a) - set D) \<and>
    set N = set M \<union> (set (m_uids_to_mute a) \<inter> set D)"
  using assms
proof (induction "m_uids_to_mute a" arbitrary: a M)
  case Nil
  then have "mute_phase a M = send a M"
    by (simp add: mute_phase_def MaybeMuteNextDevice_def send_def flip: Nil(1))
  with Nil show ?case
    by (intro exI [of _ a] exI [of _ M]) (simp flip: Nil(1))
next
  case (Cons u us)
  let ?a = "a\<lparr>m_muting_uid := u, m_uids_to_mute := us\<rparr>"
  let ?b = "if u \<in> set D then ?a else ?a\<lparr>m_uids := RemoveUID u (m_uids a)\<rparr>"
  let ?M = "if u \<in> set D then u # M else M"
  have "mute_phase a M = Some (?a, MuteDevice_incremental u, M)"
    by (simp add: mute_phase_def MaybeMuteNextDevice_def flip: Cons(2))
  moreover have "bus_step noise D (?a, MuteDevice_incremental u, M) = mute_phase ?b ?M"
    by (simp add: IncrementalMuteComplete_def mute_phase_def)
  ultimately have 1: "reaches noise D (mute_phase a M) (mute_phase ?b ?M)"
    using reaches_step by metis
  have ok: "uids_ok (m_uids ?b)" using Cons(3) by (simp add: RemoveUID_ok)
  have us: "us = m_uids_to_mute ?b" by simp
  obtain c N where c: "reaches noise D (mute_phase ?b ?M) (send c N)" "m_on_complete c = m_on_complete ?b"
    "m_tree_corrupt c = m_tree_corrupt ?b" "m_bad_uids c = m_bad_uids ?b" "m_uid_ranges c = m_uid_ranges ?b"
    "uids_ok (m_uids c)" "set (m_uids c) = set (m_uids ?b) - (set (m_uids_to_mute ?b) - set D)"
    "set N = set ?M \<union> (set (m_uids_to_mute ?b) \<inter> set D)"
    using Cons(1) [OF us ok, of ?M] by blast
  have "reaches noise D (mute_phase a M) (send c N)" using 1 c(1) by (rule reaches_trans)
  moreover have "set (m_uids c) = set (m_uids a) - (set (m_uids_to_mute a) - set D)"
    using c(7) Cons(3) by (auto simp: set_RemoveUID simp flip: Cons(2))
  moreover have "set N = set M \<union> (set (m_uids_to_mute a) \<inter> set D)"
    using c(8) by (auto simp flip: Cons(2))
  ultimately show ?case using c(2-6) by (intro exI [of _ c] exI [of _ N]) simp
qed

definition idle :: "agent \<Rightarrow> bool" where
  "idle a \<longleftrightarrow> m_on_complete a = None \<and> m_uid_ranges a = [] \<and> uids_ok (m_uids a)"

definition start :: "nat \<Rightarrow> bool \<Rightarrow> agent \<Rightarrow> uid list \<Rightarrow> config option" where
  "start cb incremental a M = map_option (\<lambda>(a, c). (a, c, M)) (InitDiscovery cb incremental a)"

lemma finished:
  assumes "m_uid_ranges a = []" and "m_on_complete a = Some cb"
  shows "send a M = Some (a\<lparr>m_on_complete := None\<rparr>, Complete cb (\<not> m_tree_corrupt a) (m_uids a), M)"
  using assms unfolding send_def
  by (subst SendDiscovery.simps) (simp add: SendDiscovery_step_def top_range_def)

text \<open>C4: On a well-behaved bus discovery ends, succeeds and is exact. From an idle agent, with any set of
  responders (fewer than \<open>2 ^ 32\<close>) in any mute state, whatever the colliding answers look like as long
  as they do not decode, both full and incremental discovery reach their completion callback with
  status true and the set of exactly the responders present; all of them are muted and the agent is
  idle again.\<close>

theorem discovery_finds_all:
  assumes noise: "noisy noise" and D: "distinct D" "length D < 2 ^ 32" and idle: "idle a"
  shows "\<exists>n b us N. bus_run noise D n (start cb incremental a M) = Some (b, Complete cb True us, N) \<and>
    uids_ok us \<and> set us = set D \<and> set N = set D \<and> idle b \<and> m_uids b = us"
proof -
  let ?q = "if incremental then m_uids a else []"
  let ?b = "a\<lparr>m_on_complete := Some cb, m_uids_to_mute := ?q, m_uids := ?q, m_bad_uids := [],
      m_tree_corrupt := False, m_uid_ranges := [] @ [UIDRange (UID 0 0) AllDevices None]\<rparr>"
  have f: "free_all_ranges x = Some x" if "m_uid_ranges x = []" for x
    using that by (subst free_all_ranges.simps) simp
  have "start cb incremental a M = Some (?b, UnMuteAll, M)"
    using idle by (simp add: start_def InitDiscovery_def idle_def f Let_def)
  moreover have "bus_step noise D (?b, UnMuteAll, M) = mute_phase ?b []"
    by (simp add: UnMuteComplete_def mute_phase_def)
  ultimately have 1: "reaches noise D (start cb incremental a M) (mute_phase ?b [])"
    using reaches_step by metis
  have ok: "uids_ok (m_uids ?b)" using idle by (simp add: idle_def)
  obtain c N where c: "reaches noise D (mute_phase ?b []) (send c N)" "m_on_complete c = Some cb"
    "\<not> m_tree_corrupt c" "m_bad_uids c = []" "m_uid_ranges c = [] @ [UIDRange (UID 0 0) AllDevices None]"
    "uids_ok (m_uids c)" "set (m_uids c) = set ?q \<inter> set D" "set N = set ?q \<inter> set D"
    using mute_phase_complete [OF ok, of noise D "[]"] by auto
  have tidy: "tidy c N" using c by (simp add: tidy_def)
  have lk: "linked [] None" by (simp add: linked_def)
  let ?S = "responding D N (UID 0 0) AllDevices"
  obtain d Q where d: "reaches noise D (send c N) (send d Q)" "frame c d" "tidy d Q"
    "m_uid_ranges d = bump None (length ?S) []" "set (m_uids d) = set (m_uids c) \<union> set ?S"
    "set Q = set N \<union> set ?S"
    using branch_complete [OF noise D c(5) lk uid_min tidy] by blast
  have S: "set ?S = set D - set N" by (auto simp: set_responding uid_min uid_max)
  have "send d Q = Some (d\<lparr>m_on_complete := None\<rparr>, Complete cb True (m_uids d), Q)"
    using finished [of d cb Q] d(2,4) c(2,3) by (simp add: frame_def bump_def)
  moreover obtain n where "bus_run noise D n (start cb incremental a M) = send d Q"
    using 1 c(1) d(1) reaches_trans unfolding reaches_def by blast
  moreover have "set (m_uids d) = set D" "set Q = set D" using d(5,6) c(7,8) S by auto
  moreover have "uids_ok (m_uids d)" using d(3) by (simp add: tidy_def)
  moreover have "idle (d\<lparr>m_on_complete := None\<rparr>)"
    using d(3,4) by (simp add: idle_def tidy_def bump_def)
  ultimately show ?thesis
    by (intro exI [of _ n] exI [of _ "d\<lparr>m_on_complete := None\<rparr>"] exI [of _ "m_uids d"] exI [of _ Q]) simp
qed

theorem discovery_finds_all_witness:
  "\<exists>n b us N. bus_run (\<lambda>_. [0xff]) [UID 1 2, UID 7 1, UID 1 9] n (start 4 False DiscoveryAgent []) =
      Some (b, Complete 4 True us, N) \<and> set us = {UID 1 2, UID 7 1, UID 1 9}"
proof -
  have "noisy (\<lambda>_. [0xff])" by (simp add: noisy_def dub_decode_def dub_consts)
  moreover have "distinct [UID 1 2, UID 7 1, UID 1 9]" "length [UID 1 2, UID 7 1, UID 1 9] < 2 ^ 32" by simp_all
  moreover have "idle DiscoveryAgent" by (simp add: idle_def DiscoveryAgent_def)
  ultimately show ?thesis
    using discovery_finds_all [of "\<lambda>_. [0xff]" "[UID 1 2, UID 7 1, UID 1 9]" DiscoveryAgent 4 False "[]"]
    by auto
qed

text \<open>A unique branch response is decoded to the UID of the responder that sent it, with any preamble
  of up to seven bytes, and the split of a branch after a collision covers the branch with two
  adjacent, disjoint and non-empty halves.\<close>

theorem dub_response_and_split:
  "(k \<le> 7 \<longrightarrow> dub_decode (dub_encode k u) = Some u) \<and>
   (lo < hi \<longrightarrow>
     (let mid = (uid_to_u64 lo + uid_to_u64 hi) div 2
      in lo \<le> uid_of_u64 mid \<and> uid_of_u64 (mid + 1) \<le> hi \<and>
         (\<forall>v. v \<le> uid_of_u64 mid \<longleftrightarrow> \<not> uid_of_u64 (mid + 1) \<le> v)))"
proof (intro conjI impI)
  assume lt: "lo < hi"
  note m = mid_split [OF lt]
  have "v \<le> uid_of_u64 ((uid_to_u64 lo + uid_to_u64 hi) div 2) \<longleftrightarrow>
      \<not> uid_of_u64 ((uid_to_u64 lo + uid_to_u64 hi) div 2 + 1) \<le> v" for v
    using m(1,2) by (simp add: uid_le_unum not_le less_Suc_eq_le)
  with m(3,5) show "let mid = (uid_to_u64 lo + uid_to_u64 hi) div 2
      in lo \<le> uid_of_u64 mid \<and> uid_of_u64 (mid + 1) \<le> hi \<and>
         (\<forall>v. v \<le> uid_of_u64 mid \<longleftrightarrow> \<not> uid_of_u64 (mid + 1) \<le> v)"
    by (simp add: Let_def)
qed (rule dub_decode_encode)

theorem dub_response_and_split_witness:
  "dub_decode (dub_encode 3 (UID 5 6)) = Some (UID 5 6) \<and>
   UID 0 1 \<le> uid_of_u64 ((uid_to_u64 (UID 0 1) + uid_to_u64 (UID 2 0)) div 2)"
proof -
  have "UID 0 1 < UID 2 0" by (simp add: uid_less_unum unum_def)
  moreover have "(3 :: nat) \<le> 7" by simp
  ultimately show ?thesis
    using dub_response_and_split [of 3 "UID 5 6" "UID 0 1" "UID 2 0"] unfolding Let_def by blast
qed

end
