(* ===== verification/Discovery_Terminates.thy ===== *)
theory Discovery_Terminates
  imports Discovery_Correct
begin

text \<open>
  Termination of discovery against an arbitrary environment: responders may appear and vanish, answer
  for others, ignore mute requests or send garbage. The limits on attempts, failures and mute requests
  make every run end in the completion callback, without undefined behaviour on the way. The measure is
  lexicographic: the responders still to mute from earlier discoveries, the UIDs not yet known to be
  good or bad, and the weight of the stack of branches.
\<close>

section \<open>An arbitrary environment\<close>

record response =
  ack :: bool
  answer :: bytes

fun env_step :: "response \<Rightarrow> agent \<times> agent_call \<Rightarrow> (agent \<times> agent_call) option" where
  "env_step r (a, UnMuteAll) = UnMuteComplete a"
| "env_step r (a, MuteDevice_incremental u) = IncrementalMuteComplete (ack r) a"
| "env_step r (a, MuteDevice_branch u) = BranchMuteComplete (ack r) a"
| "env_step r (a, Branch lo hi) = BranchComplete (answer r) a"
| "env_step r (a, Complete cb ok us) = Some (a, Complete cb ok us)"
| "env_step r (a, Nothing) = Some (a, Nothing)"

fun env_run :: "(nat \<Rightarrow> response) \<Rightarrow> nat \<Rightarrow> (agent \<times> agent_call) option \<Rightarrow> (agent \<times> agent_call) option" where
  "env_run resp 0 c = c"
| "env_run resp (Suc n) c = Option.bind (env_run resp n c) (env_step (resp n))"

section \<open>The weight of the stack\<close>

fun visit_cost :: "nat \<Rightarrow> nat" where
  "visit_cost n = (if n = 0 then 1 else 2 * (6 + 5 * visit_cost (n div 2)) + 1)"

declare visit_cost.simps [simp del]

lemma visit_cost_0 [simp]: "visit_cost 0 = 1"
  by (simp add: visit_cost.simps)

lemma visit_cost_pos: "0 < n \<Longrightarrow> visit_cost n = 13 + 10 * visit_cost (n div 2)"
  by (subst visit_cost.simps) simp

lemma visit_cost_mono: "m \<le> n \<Longrightarrow> visit_cost m \<le> visit_cost n"
proof (induction n arbitrary: m rule: less_induct)
  case (less n)
  show ?case
  proof (cases "m = 0")
    case True
    then show ?thesis by (cases "n = 0") (simp_all add: visit_cost_pos)
  next
    case False
    then have "visit_cost (m div 2) \<le> visit_cost (n div 2)" using less by (simp add: div_le_mono)
    then show ?thesis using False less.prems by (simp add: visit_cost_pos)
  qed
qed

definition span :: "uid_range \<Rightarrow> nat" where
  "span r = unum (r_upper r) - unum (r_lower r)"

definition bonus :: nat where
  "bonus = visit_cost (2 ^ 48)"

definition weight :: "uid_range \<Rightarrow> nat" where
  "weight r = 1 + (5 - r_attempt r) * visit_cost (span r) + (5 - r_failures r) +
     (if r_uids_discovered r > 0 then bonus else 0)"

definition stack_weight :: "uid_range list \<Rightarrow> nat" where
  "stack_weight rs = sum_list (map weight rs)"

lemma span_bound: "span r < 2 ^ 48"
  using unum_bound [of "r_upper r"] by (simp add: span_def)

lemma stack_weight_append [simp]: "stack_weight (xs @ ys) = stack_weight xs + stack_weight ys"
  by (simp add: stack_weight_def)

lemma stack_weight_single [simp]: "stack_weight [r] = weight r"
  by (simp add: stack_weight_def)

lemma stack_weight_update:
  "p < length rs \<Longrightarrow> stack_weight (rs[p := x]) + weight (rs ! p) = stack_weight rs + weight x"
  unfolding stack_weight_def
  by (induction rs arbitrary: p) (auto split: nat.splits simp: nth_Cons')

section \<open>Well-formed stacks\<close>

definition range_ok :: "uid_range \<Rightarrow> bool" where
  "range_ok r \<longleftrightarrow> r_lower r \<le> r_upper r \<and> r_attempt r < 5 \<and> r_failures r \<le> 5"

text \<open>Parent pointers lead down the stack; only the bottom has none.\<close>

fun chained :: "uid_range list \<Rightarrow> bool" where
  "chained rs \<longleftrightarrow> (\<forall>j < length rs. range_ok (rs ! j) \<and> linked (take j rs) (r_parent (rs ! j)))"

declare chained.simps [simp del]

lemma chained_snoc: "chained (rs @ [r]) \<longleftrightarrow> chained rs \<and> range_ok r \<and> linked rs (r_parent r)"
  by (auto simp: chained.simps nth_append less_Suc_eq)

lemma chained_Nil [simp]: "chained []"
  by (simp add: chained.simps)

lemma linked_length: "length xs = length ys \<Longrightarrow> linked xs p = linked ys p"
  by (auto simp: linked_def split: option.splits)

lemma chained_update:
  assumes "chained rs" and "p < length rs" and "range_ok x" and "r_parent x = r_parent (rs ! p)"
  shows "chained (rs[p := x])"
  using assms linked_length [of "take _ (rs[p := x])" "take _ rs"]
  by (auto simp: chained.simps nth_list_update)

lemma chained_bump:
  assumes "chained st" and "linked st par"
  shows "chained (bump par n st)" and "stack_weight (bump par n st) \<le> stack_weight st + (if n > 0 then bonus else 0)"
proof -
  have "chained (bump par n st) \<and> stack_weight (bump par n st) \<le> stack_weight st + (if n > 0 then bonus else 0)"
  proof (cases par)
    case (Some p)
    let ?x = "(st ! p)\<lparr>r_uids_discovered := uint_add (r_uids_discovered (st ! p)) n\<rparr>"
    have p: "p < length st" using assms Some by (simp add: linked_def)
    have "range_ok ?x" using assms(1) p by (simp add: chained.simps range_ok_def)
    moreover have "weight ?x \<le> weight (st ! p) + (if n > 0 then bonus else 0)"
      by (auto simp: weight_def span_def uint_add_def)
    ultimately show ?thesis
      using chained_update [OF assms(1) p, of ?x] stack_weight_update [OF p, of ?x] Some
      by (simp add: bump_def)
  qed (use assms in \<open>simp add: bump_def\<close>)
  then show "chained (bump par n st)"
    and "stack_weight (bump par n st) \<le> stack_weight st + (if n > 0 then bonus else 0)" by blast+
qed

text \<open>Marking the parent of the top range as corrupt.\<close>

definition mark :: "nat option \<Rightarrow> uid_range list \<Rightarrow> uid_range list" where
  "mark par st = (case par of None \<Rightarrow> st | Some p \<Rightarrow> st[p := (st ! p)\<lparr>r_branch_corrupt := True\<rparr>])"

lemma chained_mark:
  assumes "chained st" and "linked st par"
  shows "chained (mark par st)" and "stack_weight (mark par st) = stack_weight st" and "linked (mark par st) par"
proof -
  have "chained (mark par st) \<and> stack_weight (mark par st) = stack_weight st \<and> linked (mark par st) par"
  proof (cases par)
    case (Some p)
    let ?x = "(st ! p)\<lparr>r_branch_corrupt := True\<rparr>"
    have p: "p < length st" using assms Some by (simp add: linked_def)
    have "range_ok ?x" using assms(1) p by (simp add: chained.simps range_ok_def)
    moreover have "weight ?x = weight (st ! p)" by (simp add: weight_def span_def)
    ultimately show ?thesis
      using chained_update [OF assms(1) p, of ?x] stack_weight_update [OF p, of ?x] Some p
      by (simp add: mark_def linked_def)
  qed (use assms in \<open>simp add: mark_def\<close>)
  then show "chained (mark par st)" and "stack_weight (mark par st) = stack_weight st"
    and "linked (mark par st) par" by blast+
qed

section \<open>Sending the next request\<close>

definition keeps :: "agent \<Rightarrow> agent \<Rightarrow> bool" where
  "keeps a b \<longleftrightarrow> m_uids b = m_uids a \<and> m_bad_uids b = m_bad_uids a \<and> m_uids_to_mute b = m_uids_to_mute a"

text \<open>A branch request is pending on the top range; \<open>potential\<close> is the weight of the stack together with
  what the pending request may still cost.\<close>

definition waiting :: "agent \<Rightarrow> bool" where
  "waiting a \<longleftrightarrow> m_uid_ranges a \<noteq> [] \<and> chained (m_uid_ranges a) \<and> r_failures (last (m_uid_ranges a)) < 5"

definition potential :: "agent \<Rightarrow> nat" where
  "potential a = stack_weight (m_uid_ranges a) +
     (if r_uids_discovered (last (m_uid_ranges a)) = 0 then visit_cost (span (last (m_uid_ranges a))) else 0)"

lemma FreeCurrentRange_any:
  assumes "m_uid_ranges a = st @ [r]" and "linked st (r_parent r)"
  shows "\<exists>tc. FreeCurrentRange a =
    Some (a\<lparr>m_tree_corrupt := tc, m_uid_ranges := bump (r_parent r) (r_uids_discovered r) st\<rparr>)"
proof (cases "r_parent r")
  case None
  with assms show ?thesis
    by (intro exI [of _ "if r_branch_corrupt r then True else m_tree_corrupt a"])
      (simp add: FreeCurrentRange_def linked_def bump_def)
next
  case (Some p)
  with assms show ?thesis
    by (intro exI [of _ "m_tree_corrupt a"])
      (auto simp: FreeCurrentRange_def linked_def bump_def update_parent_def list_update_append nth_append)
qed

lemma drop_weight: "stack_weight st + (if r_uids_discovered r > 0 then bonus else 0) < stack_weight st + weight r"
  by (simp add: weight_def)

text \<open>One round of \<open>SendDiscovery\<close> on a non-empty stack.\<close>

lemma SendDiscovery_step_ok:
  assumes ch: "chained (st @ [r])" and a: "m_uid_ranges a = st @ [r]"
  shows "(\<exists>b. SendDiscovery_step a = Some (Inl b) \<and> keeps a b \<and> m_on_complete b = m_on_complete a \<and>
            chained (m_uid_ranges b) \<and> stack_weight (m_uid_ranges b) \<le> stack_weight (m_uid_ranges a)) \<or>
         (\<exists>b lo hi. SendDiscovery_step a = Some (Inr (b, Branch lo hi)) \<and> keeps a b \<and>
            m_on_complete b = m_on_complete a \<and> waiting b \<and> potential b \<le> stack_weight (m_uid_ranges a))"
proof -
  define r' where "r' = (if r_uids_discovered r = 0 then r\<lparr>r_attempt := r_attempt r + 1\<rparr> else r)"
  have r: "chained st" "range_ok r" "linked st (r_parent r)" using ch by (simp_all add: chained_snoc)
  have r': "r_parent r' = r_parent r" "r_uids_discovered r' = r_uids_discovered r" "span r' = span r"
    "r_failures r' = r_failures r" "r_lower r' = r_lower r" "r_upper r' = r_upper r"
    by (simp_all add: r'_def span_def)
  let ?limit = "r_failures r' = 5 \<or> r_attempt r' = 5 \<or> r_branch_corrupt r'"
  show ?thesis
  proof (cases ?limit)
    case True
    let ?st = "mark (r_parent r) st"
    note m = chained_mark [OF r(1,3)]
    let ?b = "a\<lparr>m_uid_ranges := ?st @ [r']\<rparr>"
    have up: "(if r_parent r' \<noteq> None then update_parent r' (\<lambda>p. p\<lparr>r_branch_corrupt := True\<rparr>) (st @ [r'])
        else Some (st @ [r'])) = Some (?st @ [r'])"
      using r(3) r'(1)
      by (auto simp: update_parent_def mark_def linked_def list_update_append nth_append split: option.splits)
    obtain tc where tc: "FreeCurrentRange ?b = Some (?b\<lparr>m_tree_corrupt := tc,
        m_uid_ranges := bump (r_parent r) (r_uids_discovered r) ?st\<rparr>)"
      using FreeCurrentRange_any [of ?b ?st r'] m(3) r' by auto
    have "SendDiscovery_step a = Some (Inl (?b\<lparr>m_tree_corrupt := tc,
        m_uid_ranges := bump (r_parent r) (r_uids_discovered r) ?st\<rparr>))"
      using a True up tc
      by (cases "r_parent r'") (simp_all add: SendDiscovery_step_def set_top_def dub_consts Let_def r'_def [symmetric])
    moreover have "stack_weight (bump (r_parent r) (r_uids_discovered r) ?st) \<le> stack_weight (m_uid_ranges a)"
      using chained_bump(2) [OF m(1,3), of "r_uids_discovered r"] drop_weight [of st r] m(2) a by simp
    ultimately show ?thesis
      using chained_bump(1) [OF m(1,3)] by (auto simp: keeps_def)
  next
    case False
    let ?b = "a\<lparr>m_uid_ranges := st @ [r']\<rparr>"
    have "SendDiscovery_step a = Some (Inr (?b, Branch (r_lower r) (r_upper r)))"
      using a False r' by (auto simp: SendDiscovery_step_def set_top_def dub_consts Let_def r'_def)
    moreover have ok': "range_ok r'" using r(2) False r'(4) by (auto simp: range_ok_def r'_def)
    then have "waiting ?b" using r r' False by (auto simp: waiting_def chained_snoc range_ok_def)
    moreover have "weight r' + (if r_uids_discovered r = 0 then visit_cost (span r) else 0) = weight r"
    proof (cases "r_uids_discovered r = 0")
      case True
      have "r_attempt r < 5" using r(2) by (simp add: range_ok_def)
      then have "5 - r_attempt r = Suc (5 - Suc (r_attempt r))" by simp
      then show ?thesis using True r'(3) by (simp add: weight_def r'_def)
    qed (simp add: r'_def)
    then have "potential ?b \<le> stack_weight (m_uid_ranges a)"
      using a r' by (auto simp: potential_def split: if_splits)
    ultimately show ?thesis by (auto simp: keeps_def)
  qed
qed

lemma SendDiscovery_ok:
  assumes "chained (m_uid_ranges a)" and "m_on_complete a = Some cb"
  shows "\<exists>b c. SendDiscovery a = Some (b, c) \<and> keeps a b \<and>
    ((\<exists>ok us. c = Complete cb ok us) \<or>
     (\<exists>lo hi. c = Branch lo hi \<and> m_on_complete b = Some cb \<and> waiting b \<and>
        potential b \<le> stack_weight (m_uid_ranges a)))"
  using assms
proof (induction a rule: SendDiscovery.induct)
  case (1 a)
  show ?case
  proof (cases "m_uid_ranges a" rule: rev_cases)
    case Nil
    then show ?thesis using 1(3)
      by (subst SendDiscovery.simps) (simp add: SendDiscovery_step_def top_range_def keeps_def)
  next
    case (snoc st r)
    from SendDiscovery_step_ok [OF 1(2) [unfolded snoc] snoc] show ?thesis
    proof (elim disjE exE conjE)
      fix b
      assume b: "SendDiscovery_step a = Some (Inl b)" "keeps a b" "m_on_complete b = m_on_complete a"
        "chained (m_uid_ranges b)" "stack_weight (m_uid_ranges b) \<le> stack_weight (m_uid_ranges a)"
      have eq: "SendDiscovery a = SendDiscovery b" by (subst SendDiscovery.simps) (simp add: b(1))
      obtain b' c where bc: "SendDiscovery b = Some (b', c)" "keeps b b'"
        "(\<exists>ok us. c = Complete cb ok us) \<or> (\<exists>lo hi. c = Branch lo hi \<and> m_on_complete b' = Some cb \<and> waiting b' \<and>
            potential b' \<le> stack_weight (m_uid_ranges b))"
        using 1(1) [OF b(1) refl b(4)] b(3) 1(3) by auto
      moreover have "keeps a b'" using b(2) bc(2) by (simp add: keeps_def)
      ultimately show ?thesis using b(5) eq by (auto intro: order.trans)
    next
      fix b lo hi
      assume "SendDiscovery_step a = Some (Inr (b, Branch lo hi))" "keeps a b"
        "m_on_complete b = m_on_complete a" "waiting b" "potential b \<le> stack_weight (m_uid_ranges a)"
      then show ?thesis using 1(3) by (subst SendDiscovery.simps) auto
    qed
  qed
qed

section \<open>The measure\<close>

definition unknown :: "agent \<Rightarrow> nat" where
  "unknown a = card (UNIV - (set (m_uids a) \<union> set (m_bad_uids a)))"

lemma finite_uid: "finite (UNIV :: uid set)"
proof (rule finite_imageD)
  show "finite (range unum)"
    by (rule finite_subset [of _ "{..<2 ^ 48}"]) (auto simp: unum_bound [simplified])
  show "inj_on unum UNIV"
    by (rule injI) (metis uid_less_unum linorder_neq_iff nat_neq_iff)
qed

lemma unknown_less:
  assumes "u \<notin> set (m_uids a) \<union> set (m_bad_uids a)"
    and "set (m_uids b) \<union> set (m_bad_uids b) = insert u (set (m_uids a) \<union> set (m_bad_uids a))"
  shows "unknown b < unknown a"
  unfolding unknown_def assms(2)
  by (rule psubset_card_mono) (use assms(1) finite_uid in \<open>auto intro: finite_subset [OF subset_UNIV]\<close>)

fun progress :: "agent \<times> agent_call \<Rightarrow> nat \<times> nat \<times> nat" where
  "progress (a, UnMuteAll) = (length (m_uids_to_mute a) + 2, 0, 0)"
| "progress (a, MuteDevice_incremental u) = (length (m_uids_to_mute a) + 1, 0, 0)"
| "progress (a, MuteDevice_branch u) = (0, unknown a, 7 * potential a + (5 - m_mute_attempts a))"
| "progress (a, Branch lo hi) = (0, unknown a, 7 * potential a + 6)"
| "progress (a, Complete cb ok us) = (0, 0, 0)"
| "progress (a, Nothing) = (0, 0, 0)"

definition order3 :: "((nat \<times> nat \<times> nat) \<times> (nat \<times> nat \<times> nat)) set" where
  "order3 = less_than <*lex*> less_than <*lex*> less_than"

lemma wf_order3: "wf order3"
  unfolding order3_def by (intro wf_lex_prod wf_less_than)

text \<open>The states between two events of a discovery reported to \<open>cb\<close>.\<close>

fun running :: "nat \<Rightarrow> agent \<times> agent_call \<Rightarrow> bool" where
  "running cb (a, UnMuteAll) \<longleftrightarrow>
     m_on_complete a = Some cb \<and> uids_ok (m_uids a) \<and> uids_ok (m_bad_uids a) \<and> chained (m_uid_ranges a)"
| "running cb (a, MuteDevice_incremental u) \<longleftrightarrow>
     m_on_complete a = Some cb \<and> uids_ok (m_uids a) \<and> uids_ok (m_bad_uids a) \<and> chained (m_uid_ranges a)"
| "running cb (a, Branch lo hi) \<longleftrightarrow>
     m_on_complete a = Some cb \<and> uids_ok (m_uids a) \<and> uids_ok (m_bad_uids a) \<and> waiting a"
| "running cb (a, MuteDevice_branch u) \<longleftrightarrow>
     m_on_complete a = Some cb \<and> uids_ok (m_uids a) \<and> uids_ok (m_bad_uids a) \<and> waiting a \<and>
     u = m_muting_uid a \<and> u \<notin> set (m_uids a) \<union> set (m_bad_uids a) \<and> m_mute_attempts a < 5"
| "running cb (a, Complete cb' ok us) \<longleftrightarrow> cb' = cb"
| "running cb (a, Nothing) \<longleftrightarrow> False"

definition advances :: "nat \<Rightarrow> (agent \<times> agent_call) option \<Rightarrow> agent \<times> agent_call \<Rightarrow> bool" where
  "advances cb res c \<longleftrightarrow>
     (\<exists>c'. res = Some c' \<and> running cb c' \<and> ((\<exists>b ok us. c' = (b, Complete cb ok us)) \<or> (progress c', progress c) \<in> order3))"

text \<open>After a handler that ends in \<open>SendDiscovery\<close>: either the UIDs known or the stack have advanced.\<close>

lemma SendDiscovery_advances:
  assumes "chained (m_uid_ranges a)" and "m_on_complete a = Some cb"
    and "uids_ok (m_uids a)" "uids_ok (m_bad_uids a)"
    and "((0, unknown a, 7 * stack_weight (m_uid_ranges a) + 6), progress c) \<in> order3"
  shows "advances cb (SendDiscovery a) c"
proof -
  obtain b d where b: "SendDiscovery a = Some (b, d)" "keeps a b"
    "(\<exists>ok us. d = Complete cb ok us) \<or> (\<exists>lo hi. d = Branch lo hi \<and> m_on_complete b = Some cb \<and> waiting b \<and>
        potential b \<le> stack_weight (m_uid_ranges a))"
    using SendDiscovery_ok [OF assms(1,2)] by blast
  from b(3) show ?thesis
  proof (elim disjE exE conjE)
    fix ok us assume "d = Complete cb ok us"
    with b(1) show ?thesis by (simp add: advances_def)
  next
    fix lo hi
    assume d: "d = Branch lo hi" "m_on_complete b = Some cb" "waiting b"
      "potential b \<le> stack_weight (m_uid_ranges a)"
    have u: "unknown b = unknown a" using b(2) by (simp add: keeps_def unknown_def)
    have "(progress (b, d), progress c) \<in> order3"
      using assms(5) d(1,4) u by (cases "progress c") (auto simp: order3_def)
    moreover have "running cb (b, d)" using d b(2) assms(3,4) by (simp add: keeps_def)
    ultimately show ?thesis using b(1) by (auto simp: advances_def)
  qed
qed

section \<open>Every event advances\<close>

lemma waiting_snoc:
  assumes "waiting a"
  obtains st r where "m_uid_ranges a = st @ [r]" "chained st" "range_ok r" "linked st (r_parent r)"
    "r_failures r < 5" "top_range a = Some r"
    "potential a = stack_weight st + weight r + (if r_uids_discovered r = 0 then visit_cost (span r) else 0)"
proof (cases "m_uid_ranges a" rule: rev_cases)
  case Nil
  with assms show thesis by (simp add: waiting_def)
next
  case (snoc st r)
  with assms that [of st r] show thesis
    by (simp add: waiting_def chained_snoc potential_def)
qed

lemma fail_advances:
  assumes w: "waiting a" and cb: "m_on_complete a = Some cb" and ok: "uids_ok (m_uids a)" "uids_ok (m_bad_uids a)"
    and r: "top_range a = Some r"
  shows "advances cb (SendDiscovery (set_top (r\<lparr>r_failures := r_failures r + 1\<rparr>) a)) (a, Branch lo hi)"
proof -
  let ?r = "r\<lparr>r_failures := r_failures r + 1\<rparr>"
  obtain st r0 where st: "m_uid_ranges a = st @ [r0]" "chained st" "range_ok r0" "linked st (r_parent r0)"
    "r_failures r0 < 5" "top_range a = Some r0"
    "potential a = stack_weight st + weight r0 + (if r_uids_discovered r0 = 0 then visit_cost (span r0) else 0)"
    using waiting_snoc [OF w] .
  then have eq: "r0 = r" using r by simp
  have less: "weight ?r < weight r" using st(5) eq by (simp add: weight_def span_def)
  show ?thesis
  proof (rule SendDiscovery_advances)
    show "chained (m_uid_ranges (set_top ?r a))"
      using st eq by (simp add: set_top_def chained_snoc range_ok_def)
    show "((0, unknown (set_top ?r a), 7 * stack_weight (m_uid_ranges (set_top ?r a)) + 6),
        progress (a, Branch lo hi)) \<in> order3"
      using st(1,7) less eq by (simp add: set_top_def order3_def unknown_def)
  qed (use cb ok in \<open>simp_all add: set_top_def\<close>)
qed

lemma timeout_advances:
  assumes w: "waiting a" and cb: "m_on_complete a = Some cb" and ok: "uids_ok (m_uids a)" "uids_ok (m_bad_uids a)"
  shows "advances cb (BranchComplete [] a) (a, Branch lo hi)"
proof -
  obtain st r where st: "m_uid_ranges a = st @ [r]" "chained st" "range_ok r" "linked st (r_parent r)"
    "r_failures r < 5" "top_range a = Some r"
    "potential a = stack_weight st + weight r + (if r_uids_discovered r = 0 then visit_cost (span r) else 0)"
    using waiting_snoc [OF w] .
  let ?st = "bump (r_parent r) (r_uids_discovered r) st"
  obtain tc where f: "FreeCurrentRange a = Some (a\<lparr>m_tree_corrupt := tc, m_uid_ranges := ?st\<rparr>)"
    using FreeCurrentRange_any [OF st(1,4)] by blast
  have less: "stack_weight ?st < potential a"
    using chained_bump(2) [OF st(2,4), of "r_uids_discovered r"] drop_weight [of st r] st(7) by simp
  have "advances cb (SendDiscovery (a\<lparr>m_tree_corrupt := tc, m_uid_ranges := ?st\<rparr>)) (a, Branch lo hi)"
  proof (rule SendDiscovery_advances)
    show "chained (m_uid_ranges (a\<lparr>m_tree_corrupt := tc, m_uid_ranges := ?st\<rparr>))"
      using chained_bump(1) [OF st(2,4)] by simp
    show "((0, unknown (a\<lparr>m_tree_corrupt := tc, m_uid_ranges := ?st\<rparr>),
        7 * stack_weight (m_uid_ranges (a\<lparr>m_tree_corrupt := tc, m_uid_ranges := ?st\<rparr>)) + 6),
        progress (a, Branch lo hi)) \<in> order3"
      using less by (simp add: order3_def unknown_def)
  qed (use cb ok in simp_all)
  then show ?thesis using f by (simp add: BranchComplete_def)
qed

lemma halves_cost:
  assumes "lo < hi"
  defines "mid \<equiv> (uid_to_u64 lo + uid_to_u64 hi) div 2"
  shows "weight (UIDRange lo (uid_of_u64 mid) p) + weight (UIDRange (uid_of_u64 (mid + 1)) hi p)
    < visit_cost (unum hi - unum lo)"
proof -
  note m = mid_split [OF assms(1), folded mid_def]
  have lt: "unum lo < unum hi" using assms(1) by (simp add: uid_less_unum)
  let ?h = "(unum hi - unum lo) div 2"
  have "span (UIDRange lo (uid_of_u64 mid) p) \<le> ?h" "span (UIDRange (uid_of_u64 (mid + 1)) hi p) \<le> ?h"
    using m(1,2) lt by (simp_all add: span_def UIDRange_def)
  then have "visit_cost (span (UIDRange lo (uid_of_u64 mid) p)) \<le> visit_cost ?h"
    "visit_cost (span (UIDRange (uid_of_u64 (mid + 1)) hi p)) \<le> visit_cost ?h"
    by (simp_all add: visit_cost_mono)
  moreover have "visit_cost (unum hi - unum lo) = 13 + 10 * visit_cost ?h"
    using lt by (intro visit_cost_pos) simp
  moreover have "weight (UIDRange l h p) = 6 + 5 * visit_cost (span (UIDRange l h p))" for l h
    by (simp add: weight_def UIDRange_def)
  ultimately show ?thesis by simp
qed

lemma collision_advances:
  assumes w: "waiting a" and cb: "m_on_complete a = Some cb" and ok: "uids_ok (m_uids a)" "uids_ok (m_bad_uids a)"
  shows "advances cb (HandleCollision a) (a, Branch lo hi)"
proof -
  obtain st r where st: "m_uid_ranges a = st @ [r]" "chained st" "range_ok r" "linked st (r_parent r)"
    "r_failures r < 5" "top_range a = Some r"
    "potential a = stack_weight st + weight r + (if r_uids_discovered r = 0 then visit_cost (span r) else 0)"
    using waiting_snoc [OF w] .
  show ?thesis
  proof (cases "r_lower r = r_upper r")
    case True
    then show ?thesis using fail_advances [OF assms st(6)] st(6) by (simp add: HandleCollision_def)
  next
    case False
    then have lt: "r_lower r < r_upper r" using st(3) by (auto simp: range_ok_def)
    define mid where "mid = (uid_to_u64 (r_lower r) + uid_to_u64 (r_upper r)) div 2"
    let ?p = "Some (length st)"
    let ?r = "r\<lparr>r_uids_discovered := 0\<rparr>"
    let ?c1 = "UIDRange (r_lower r) (uid_of_u64 mid) ?p" and ?c2 = "UIDRange (uid_of_u64 (mid + 1)) (r_upper r) ?p"
    let ?a = "a\<lparr>m_uid_ranges := ((st @ [?r]) @ [?c1]) @ [?c2]\<rparr>"
    have hc: "HandleCollision a = SendDiscovery ?a"
      using st(1,6) False by (simp add: HandleCollision_def set_top_def Let_def mid_def)
    note m = mid_split [OF lt, folded mid_def]
    note half = halves_cost [OF lt, of ?p, folded mid_def]
    have "visit_cost (span r) \<le> bonus"
      unfolding bonus_def by (rule visit_cost_mono) (rule less_imp_le [OF span_bound])
    then have "weight ?r + visit_cost (span r) \<le> weight r + (if r_uids_discovered r = 0 then visit_cost (span r) else 0)"
      by (simp add: weight_def span_def)
    moreover have "stack_weight (m_uid_ranges ?a) = stack_weight st + weight ?r + weight ?c1 + weight ?c2"
      by (simp add: stack_weight_def)
    moreover have "weight ?c1 + weight ?c2 < visit_cost (span r)" using half by (simp add: span_def)
    ultimately have less: "stack_weight (m_uid_ranges ?a) < potential a"
      using st(7) by linarith
    show ?thesis unfolding hc
    proof (rule SendDiscovery_advances)
      show "chained (m_uid_ranges ?a)"
        using st(2-4) m(3,5)
        by (simp add: chained_snoc range_ok_def UIDRange_def linked_def del: append_assoc)
      show "((0, unknown ?a, 7 * stack_weight (m_uid_ranges ?a) + 6), progress (a, Branch lo hi)) \<in> order3"
        using less by (simp add: order3_def unknown_def del: stack_weight_append)
    qed (use cb ok in simp_all)
  qed
qed

lemma branch_advances:
  assumes "running cb (a, Branch lo hi)"
  shows "advances cb (BranchComplete data a) (a, Branch lo hi)"
proof -
  have a: "waiting a" "m_on_complete a = Some cb" "uids_ok (m_uids a)" "uids_ok (m_bad_uids a)"
    using assms by simp_all
  obtain st r where r: "top_range a = Some r" using waiting_snoc [OF a(1)] by metis
  show ?thesis
  proof (cases "data = []")
    case True
    then show ?thesis using timeout_advances [OF a] by simp
  next
    case False
    show ?thesis
    proof (cases "dub_decode data")
      case None
      then show ?thesis using collision_advances [OF a] False by (simp add: BranchComplete_def)
    next
      case (Some u)
      show ?thesis
      proof (cases "Contains (m_uids a) u \<or> Contains (m_bad_uids a) u")
        case True
        then have "BranchComplete data a = SendDiscovery (set_top (r\<lparr>r_failures := r_failures r + 1\<rparr>) a)"
          using False Some r by (auto simp: BranchComplete_def)
        then show ?thesis using fail_advances [OF a r] by simp
      next
        case new: False
        let ?b = "a\<lparr>m_muting_uid := u, m_mute_attempts := 0\<rparr>"
        have "BranchComplete data a = Some (?b, MuteDevice_branch u)"
          using new False Some r by (simp add: BranchComplete_def)
        moreover have "running cb (?b, MuteDevice_branch u)"
          using a new by (auto simp: Contains_iff waiting_def)
        moreover have "(progress (?b, MuteDevice_branch u), progress (a, Branch lo hi)) \<in> order3"
          by (simp add: order3_def unknown_def potential_def)
        ultimately show ?thesis by (auto simp: advances_def)
      qed
    qed
  qed
qed

lemma branch_mute_advances:
  assumes "running cb (a, MuteDevice_branch u)"
  shows "advances cb (BranchMuteComplete status a) (a, MuteDevice_branch u)"
proof -
  have a: "m_on_complete a = Some cb" "uids_ok (m_uids a)" "uids_ok (m_bad_uids a)" "waiting a"
    "u = m_muting_uid a" "u \<notin> set (m_uids a) \<union> set (m_bad_uids a)" "m_mute_attempts a < 5"
    using assms by auto
  obtain st r where st: "m_uid_ranges a = st @ [r]" "chained st" "range_ok r" "linked st (r_parent r)"
    "top_range a = Some r" using waiting_snoc [OF a(4)] by metis
  let ?a = "a\<lparr>m_mute_attempts := m_mute_attempts a + 1\<rparr>"
  consider (ok) "status" | (again) "\<not> status" "m_mute_attempts a + 1 < 5" | (bad) "\<not> status" "\<not> m_mute_attempts a + 1 < 5"
    by blast
  then show ?thesis
  proof cases
    case ok
    let ?r = "r\<lparr>r_uids_discovered := uint_add (r_uids_discovered r) 1\<rparr>"
    let ?b = "set_top ?r (?a\<lparr>m_uids := AddUID u (m_uids a)\<rparr>)"
    have "BranchMuteComplete status a = SendDiscovery ?b"
      using ok st a(5) by (simp add: BranchMuteComplete_def top_range_def)
    moreover have "unknown ?b < unknown a" by (rule unknown_less [OF a(6)]) (simp add: set_top_def)
    then have "((0, unknown ?b, 7 * stack_weight (m_uid_ranges ?b) + 6), progress (a, MuteDevice_branch u)) \<in> order3"
      by (simp add: order3_def)
    moreover have "chained (m_uid_ranges ?b)" using st by (simp add: set_top_def chained_snoc range_ok_def)
    ultimately show ?thesis
      using SendDiscovery_advances [of ?b cb] a by (simp add: set_top_def AddUID_ok)
  next
    case again
    then have "BranchMuteComplete status a = Some (?a, MuteDevice_branch u)"
      using a(5) by (simp add: BranchMuteComplete_def dub_consts)
    moreover have "running cb (?a, MuteDevice_branch u)" using a again by (simp add: waiting_def)
    moreover have "(progress (?a, MuteDevice_branch u), progress (a, MuteDevice_branch u)) \<in> order3"
      using again by (auto simp: order3_def unknown_def potential_def)
    ultimately show ?thesis by (auto simp: advances_def)
  next
    case bad
    let ?b = "?a\<lparr>m_bad_uids := AddUID u (m_bad_uids a)\<rparr>"
    have "BranchMuteComplete status a = SendDiscovery ?b"
      using bad a(5) by (simp add: BranchMuteComplete_def dub_consts)
    moreover have "unknown ?b < unknown a" by (rule unknown_less [OF a(6)]) auto
    then have "((0, unknown ?b, 7 * stack_weight (m_uid_ranges ?b) + 6), progress (a, MuteDevice_branch u)) \<in> order3"
      by (simp add: order3_def)
    ultimately show ?thesis
      using SendDiscovery_advances [of ?b cb] a by (simp add: waiting_def AddUID_ok)
  qed
qed

lemma mute_next_advances:
  assumes "m_on_complete a = Some cb" "uids_ok (m_uids a)" "uids_ok (m_bad_uids a)" "chained (m_uid_ranges a)"
    and "progress c = (Suc k, 0, 0)" and "length (m_uids_to_mute a) \<le> k"
  shows "advances cb (MaybeMuteNextDevice a) c"
proof (cases "m_uids_to_mute a")
  case Nil
  then show ?thesis
    using SendDiscovery_advances [of a cb c] assms by (simp add: MaybeMuteNextDevice_def order3_def)
next
  case (Cons u us)
  then show ?thesis using assms
    by (auto simp: MaybeMuteNextDevice_def advances_def order3_def)
qed

lemma env_step_advances:
  assumes "running cb c" and "\<not> (\<exists>b ok us. c = (b, Complete cb ok us))"
  shows "advances cb (env_step r c) c"
proof (cases c)
  case (Pair a call)
  show ?thesis
  proof (cases call)
    case UnMuteAll
    have "advances cb (MaybeMuteNextDevice a) (a, UnMuteAll)"
      by (rule mute_next_advances [where k = "length (m_uids_to_mute a) + 1"])
        (use assms Pair UnMuteAll in simp_all)
    then show ?thesis using Pair UnMuteAll by (simp add: UnMuteComplete_def)
  next
    case (MuteDevice_incremental u)
    have "advances cb (IncrementalMuteComplete (ack r) a) (a, MuteDevice_incremental u)"
      unfolding IncrementalMuteComplete_def
      by (rule mute_next_advances [where k = "length (m_uids_to_mute a)"])
        (use assms Pair MuteDevice_incremental in \<open>simp_all add: RemoveUID_ok\<close>)
    then show ?thesis using Pair MuteDevice_incremental by simp
  qed (use assms Pair branch_advances branch_mute_advances in auto)
qed

text \<open>C5: Discovery terminates in every environment. However the target answers (any acknowledgements of
  mute requests, any bytes in response to branch requests, consistent or not), a discovery started on
  an idle agent reaches its completion callback after finitely many events, and no handler ever touches
  the top of an empty stack or a missing parent.\<close>

theorem discovery_terminates:
  assumes idle: "idle a"
  shows "\<exists>n b ok us. env_run resp n (InitDiscovery cb incremental a) = Some (b, Complete cb ok us)"
proof -
  have f: "free_all_ranges x = Some x" if "m_uid_ranges x = []" for x
    using that by (subst free_all_ranges.simps) simp
  obtain c0 where c0: "InitDiscovery cb incremental a = Some c0" and r0: "running cb c0"
  proof
    let ?q = "if incremental then m_uids a else []"
    let ?b = "a\<lparr>m_on_complete := Some cb, m_uids_to_mute := ?q, m_uids := ?q, m_bad_uids := [],
        m_tree_corrupt := False, m_uid_ranges := [] @ [UIDRange (UID 0 0) AllDevices None]\<rparr>"
    show "InitDiscovery cb incremental a = Some (?b, UnMuteAll)"
      using idle by (simp add: InitDiscovery_def idle_def f Let_def)
    have "chained ([] @ [UIDRange (UID 0 0) AllDevices None])"
      by (simp only: chained_snoc) (simp add: range_ok_def UIDRange_def linked_def uid_min)
    then show "running cb (?b, UnMuteAll)" using idle by (simp add: idle_def)
  qed
  have "\<exists>n b ok us. env_run resp (k + n) x = Some (b, Complete cb ok us)"
    if "env_run resp k x = Some c" "running cb c" for k c x
    using that
  proof (induction "progress c" arbitrary: k c rule: wf_induct_rule [OF wf_order3])
    case 1
    show ?case
    proof (cases "\<exists>b ok us. c = (b, Complete cb ok us)")
      case True
      with 1 show ?thesis by (intro exI [of _ 0]) auto
    next
      case False
      obtain c' where c': "env_step (resp k) c = Some c'" "running cb c'"
        "(\<exists>b ok us. c' = (b, Complete cb ok us)) \<or> (progress c', progress c) \<in> order3"
        using env_step_advances [OF 1(3) False, of "resp k"] unfolding advances_def by blast
      have k: "env_run resp (Suc k) x = Some c'" using 1(2) c'(1) by simp
      from c'(3) show ?thesis
      proof
        assume "\<exists>b ok us. c' = (b, Complete cb ok us)"
        with k show ?thesis by (metis add.commute plus_1_eq_Suc)
      next
        assume "(progress c', progress c) \<in> order3"
        from 1(1) [OF this k c'(2)] show ?thesis by (metis add_Suc_shift)
      qed
    qed
  qed
  from this [of 0 "InitDiscovery cb incremental a" c0] c0 r0 show ?thesis by simp
qed

theorem discovery_terminates_witness:
  "\<exists>n b ok us. env_run (\<lambda>_. \<lparr>ack = False, answer = [1, 2, 3]\<rparr>) n (InitDiscovery 3 False DiscoveryAgent) =
     Some (b, Complete 3 ok us)"
  by (rule discovery_terminates) (simp add: idle_def DiscoveryAgent_def)

text \<open>Aborting a discovery reports failure once and leaves the agent idle; but if a branch request was
  pending and its callback still arrives, the handler reads the top of the emptied stack, which is
  undefined, whatever the answer is.\<close>

theorem discovery_abort:
  assumes "uids_ok (m_uids a)" and "m_on_complete a = Some cb"
  shows "\<exists>b. Abort a = (b, Complete cb False []) \<and> idle b \<and> Abort b = (b, Nothing) \<and>
    BranchComplete data b = None"
proof -
  let ?b = "a\<lparr>m_uid_ranges := [], m_on_complete := None\<rparr>"
  have t: "top_range ?b = None" by (simp add: top_range_def)
  have "BranchComplete data ?b = None"
    using t by (cases "dub_decode data") (auto simp: BranchComplete_def FreeCurrentRange_def HandleCollision_def)
  then show ?thesis using assms
    by (intro exI [of _ ?b]) (simp add: Abort_def idle_def Let_def)
qed

theorem discovery_abort_witness:
  "\<exists>b. Abort (DiscoveryAgent\<lparr>m_on_complete := Some 8\<rparr>) = (b, Complete 8 False []) \<and> BranchComplete [] b = None"
  using discovery_abort [of "DiscoveryAgent\<lparr>m_on_complete := Some 8\<rparr>" 8 "[]"]
  by (auto simp: DiscoveryAgent_def)

end
