(* ===== verification/Queueing_Controller.thy ===== *)
theory Queueing_Controller
  imports RDM_Wire
begin

text \<open>
  The queueing RDM controllers (\<^verbatim>\<open>common/rdm/QueueingRDMController.cpp\<close> and
  \<^verbatim>\<open>include/ola/rdm/QueueingRDMController.h\<close>), which stand between the clients of an RDM device and a driver
  that can only do one thing at a time. Requests and discovery calls are queued; the driver gets the next one
  when the previous one is finished; discovery goes first.

  Completion callbacks belong to the clients and may call the controller again before they return. A callback
  runs at most once, so the calls it makes are kept as a list inside it, and running the callback makes
  them. The driver is another object: the calls it gets are entries of the trace, and its answers are
  the operations \<open>HandleRDMResponse\<close> and \<open>DiscoveryComplete\<close>, which come between the operations of the clients and
  never inside them. This leaves out one kind of driver that the interface allows: one that answers before its call
  returns when the call was made by a completion callback. In the program such an answer finds the request whose
  callback is running still at the front of the queue, and runs the callback a second time; the last lemma of
  \<open>Queueing_Laws\<close> shows it. (When the call was not made by a completion callback, the call of the driver is the last
  thing that the operation does, and an answer inside it is an answer right after the operation.) All statements
  about the controllers are for drivers that answer after the operation that called them has returned.
\<close>

section \<open>State\<close>

datatype client_call =
    SendCall rdm_command "on_complete option"
  | DiscoverCall bool "on_complete option"
  | PauseCall
  | ResumeCall
and on_complete = OnComplete nat "client_call list"

text \<open>What the controller does to the outside. \<open>Accepted\<close> and \<open>DiscoveryAccepted\<close> record that a callback
  was put in a queue. \<open>Refused\<close> is \<open>on_complete->Run(RDM_FAILED_TO_SEND, NULL, packets)\<close> on a full queue,
  \<open>Completed\<close> and \<open>DiscoveryDone\<close> run the callback of a queued call, \<open>Dispatched\<close> and
  \<open>DiscoveryStarted\<close> call the driver.\<close>

datatype ctl_output =
    Accepted "on_complete option"
  | Refused nat
  | Dispatched rdm_command
  | Completed nat rdm_response_code "rdm_command option" "bytes list"
  | DiscoveryAccepted "on_complete option"
  | DiscoveryStarted bool
  | DiscoveryDone nat uid_set

text \<open>\<open>is_discoverable\<close> tells the class of the object, which selects the virtual methods.\<close>

record queueing =
  is_discoverable :: bool
  m_max_queue_size :: u32
  m_pending_requests :: "(rdm_command \<times> on_complete option) list"
  m_rdm_request_pending :: bool
  m_active :: bool
  m_response :: "rdm_command option"
  m_packets :: "bytes list"
  m_discovery_callbacks :: "on_complete option list"
  m_pending_discovery_callbacks :: "(bool \<times> on_complete option) list"
  trace :: "ctl_output list"

definition new_QueueingRDMController :: "bool \<Rightarrow> u32 \<Rightarrow> queueing" where
  "new_QueueingRDMController discoverable max_queue_size =
     \<lparr>is_discoverable = discoverable, m_max_queue_size = max_queue_size, m_pending_requests = [],
      m_rdm_request_pending = False, m_active = True, m_response = None, m_packets = [],
      m_discovery_callbacks = [], m_pending_discovery_callbacks = [], trace = []\<rparr>"

definition emit :: "ctl_output \<Rightarrow> queueing \<Rightarrow> queueing" where
  "emit out q = q\<lparr>trace := trace q @ [out]\<rparr>"

section \<open>Choosing the next action\<close>

text \<open>\<open>front\<close> of an empty queue is undefined. The driver gets a copy of the request.\<close>

definition DispatchNextRequest :: "queueing \<Rightarrow> queueing option" where
  "DispatchNextRequest q =
     (case m_pending_requests q of
        [] \<Rightarrow> None
      | (request, on_complete) # _ \<Rightarrow>
          do { copy \<leftarrow> Duplicate request; Some (emit (Dispatched copy) q) })"

definition MaybeSendRDMRequest :: "queueing \<Rightarrow> queueing option" where
  "MaybeSendRDMRequest q =
     (if m_pending_requests q = [] then Some q
      else DispatchNextRequest (q\<lparr>m_rdm_request_pending := True\<rparr>))"

definition Queueing_CheckForBlockingCondition :: "queueing \<Rightarrow> bool" where
  "Queueing_CheckForBlockingCondition q \<longleftrightarrow> \<not> m_active q \<or> m_rdm_request_pending q"

definition Discoverable_CheckForBlockingCondition :: "queueing \<Rightarrow> bool" where
  "Discoverable_CheckForBlockingCondition q \<longleftrightarrow>
     Queueing_CheckForBlockingCondition q \<or> m_discovery_callbacks q \<noteq> []"

text \<open>The loop of \<open>StartRDMDiscovery\<close>: one full discovery if any caller wants one, for all the callers.\<close>

fun gather_callbacks ::
    "(bool \<times> on_complete option) list \<Rightarrow> bool \<Rightarrow> on_complete option list \<Rightarrow> bool \<times> on_complete option list" where
  "gather_callbacks [] full callbacks = (full, callbacks)"
| "gather_callbacks ((f, cb) # rest) full callbacks = gather_callbacks rest (full \<or> f) (callbacks @ [cb])"

definition StartRDMDiscovery :: "queueing \<Rightarrow> queueing" where
  "StartRDMDiscovery q =
     (let (full, callbacks) =
            gather_callbacks (m_pending_discovery_callbacks q) False (m_discovery_callbacks q)
      in emit (DiscoveryStarted full)
           (q\<lparr>m_discovery_callbacks := callbacks, m_pending_discovery_callbacks := []\<rparr>))"

definition Queueing_TakeNextAction :: "queueing \<Rightarrow> queueing option" where
  "Queueing_TakeNextAction q =
     (if Queueing_CheckForBlockingCondition q then Some q else MaybeSendRDMRequest q)"

definition Discoverable_TakeNextAction :: "queueing \<Rightarrow> queueing option" where
  "Discoverable_TakeNextAction q =
     (if Discoverable_CheckForBlockingCondition q then Some q
      else if m_pending_discovery_callbacks q \<noteq> [] then Some (StartRDMDiscovery q)
      else MaybeSendRDMRequest q)"

definition TakeNextAction :: "queueing \<Rightarrow> queueing option" where
  "TakeNextAction q =
     (if is_discoverable q then Discoverable_TakeNextAction q else Queueing_TakeNextAction q)"

section \<open>The calls of the clients\<close>

definition Pause :: "queueing \<Rightarrow> queueing" where
  "Pause q = q\<lparr>m_active := False\<rparr>"

definition Resume :: "queueing \<Rightarrow> queueing option" where
  "Resume q = MaybeSendRDMRequest (q\<lparr>m_active := True\<rparr>)"

definition GenericDiscovery :: "on_complete option \<Rightarrow> bool \<Rightarrow> queueing \<Rightarrow> queueing option" where
  "GenericDiscovery callback full q =
     TakeNextAction (emit (DiscoveryAccepted callback)
       (q\<lparr>m_pending_discovery_callbacks := m_pending_discovery_callbacks q @ [(full, callback)]\<rparr>))"

text \<open>Only the discoverable class has these methods.\<close>

definition RunFullDiscovery :: "on_complete option \<Rightarrow> queueing \<Rightarrow> queueing option" where
  "RunFullDiscovery callback q = (if is_discoverable q then GenericDiscovery callback True q else None)"

definition RunIncrementalDiscovery :: "on_complete option \<Rightarrow> queueing \<Rightarrow> queueing option" where
  "RunIncrementalDiscovery callback q =
     (if is_discoverable q then GenericDiscovery callback False q else None)"

text \<open>\<open>SendRDMRequest\<close> runs the callback of a refused request, which may make further calls.\<close>

function (sequential)
  SendRDMRequest :: "rdm_command \<Rightarrow> on_complete option \<Rightarrow> queueing \<Rightarrow> queueing option" and
  run_calls :: "client_call list \<Rightarrow> queueing \<Rightarrow> queueing option"
where
  "SendRDMRequest request on_complete q =
     (if length (m_pending_requests q) \<ge> unat (m_max_queue_size q) then
        (case on_complete of
           None \<Rightarrow> Some q
         | Some (OnComplete i calls) \<Rightarrow> run_calls calls (emit (Refused i) q))
      else TakeNextAction (emit (Accepted on_complete)
             (q\<lparr>m_pending_requests := m_pending_requests q @ [(request, on_complete)]\<rparr>)))"
| "run_calls [] q = Some q"
| "run_calls (SendCall request cb # rest) q =
     (case SendRDMRequest request cb q of None \<Rightarrow> None | Some q' \<Rightarrow> run_calls rest q')"
| "run_calls (DiscoverCall full cb # rest) q =
     (case (if full then RunFullDiscovery cb q else RunIncrementalDiscovery cb q) of
        None \<Rightarrow> None | Some q' \<Rightarrow> run_calls rest q')"
| "run_calls (PauseCall # rest) q = run_calls rest (Pause q)"
| "run_calls (ResumeCall # rest) q =
     (case Resume q of None \<Rightarrow> None | Some q' \<Rightarrow> run_calls rest q')"
  by pat_completeness auto
termination
  by (relation "measure (case_sum (\<lambda>(_, cb, _). size_option size cb) (\<lambda>(calls, _). size_list size calls))")
    auto

declare SendRDMRequest.simps [simp del]

section \<open>The answers of the driver\<close>

text \<open>\<open>if (on_complete) on_complete->Run(...)\<close>: the output, then the calls the callback makes.\<close>

fun run_callback :: "on_complete option \<Rightarrow> (nat \<Rightarrow> ctl_output) \<Rightarrow> queueing \<Rightarrow> queueing option" where
  "run_callback None out q = Some q"
| "run_callback (Some (OnComplete i calls)) out q = run_calls calls (emit (out i) q)"

text \<open>The part of \<open>HandleRDMResponse\<close> that deals with the response: the new status, and whether the request
  has to be sent again to get the rest of an overflowed response.\<close>

definition take_response ::
    "rdm_response_code \<Rightarrow> rdm_command option \<Rightarrow> queueing \<Rightarrow> (rdm_response_code \<times> bool \<times> queueing) option" where
  "take_response status response q =
     (if status = RDM_COMPLETED_OK then
        (case response of
           None \<Rightarrow> Some (RDM_INVALID_RESPONSE, False, q)
         | Some r \<Rightarrow>
             do {
               combined \<leftarrow> (case m_response q of None \<Rightarrow> Some (Some r) | Some m \<Rightarrow> CombineResponses m r);
               Some (if combined \<noteq> None then status else RDM_INVALID_RESPONSE,
                     combined \<noteq> None \<and> m_port_id r = ACK_OVERFLOW,
                     q\<lparr>m_response := combined\<rparr>)
             })
      else Some (status, False, q\<lparr>m_response := None\<rparr>))"

definition HandleRDMResponse ::
    "rdm_response_code \<Rightarrow> rdm_command option \<Rightarrow> bytes list \<Rightarrow> queueing \<Rightarrow> queueing option" where
  "HandleRDMResponse status response packets q =
     (let q0 = q\<lparr>m_rdm_request_pending := False\<rparr>
      in case m_pending_requests q0 of
           [] \<Rightarrow> Some q0
         | (request, on_complete) # _ \<Rightarrow>
             do {
               (status', again, q1) \<leftarrow>
                 take_response status response (q0\<lparr>m_packets := m_packets q0 @ packets\<rparr>);
               if again then DispatchNextRequest q1
               else do {
                 q2 \<leftarrow> run_callback on_complete (\<lambda>i. Completed i status' (m_response q1) (m_packets q1)) q1;
                 TakeNextAction (q2\<lparr>m_packets := [], m_response := None,
                                    m_pending_requests := tl (m_pending_requests q2)\<rparr>)
               }
             })"

fun run_discovery_callbacks :: "on_complete option list \<Rightarrow> uid_set \<Rightarrow> queueing \<Rightarrow> queueing option" where
  "run_discovery_callbacks [] uids q = Some q"
| "run_discovery_callbacks (cb # rest) uids q =
     do {
       q' \<leftarrow> run_callback cb (\<lambda>i. DiscoveryDone i uids) q;
       run_discovery_callbacks rest uids q'
     }"

definition DiscoveryComplete :: "uid_set \<Rightarrow> queueing \<Rightarrow> queueing option" where
  "DiscoveryComplete uids q =
     do {
       q' \<leftarrow> run_discovery_callbacks (m_discovery_callbacks q) uids q;
       TakeNextAction (q'\<lparr>m_discovery_callbacks := []\<rparr>)
     }"

section \<open>The destructor\<close>

text \<open>The callbacks it runs find an object that is being destroyed, so they make no calls. Callbacks of
  discovery are not run.\<close>

fun fail_pending :: "(rdm_command \<times> on_complete option) list \<Rightarrow> queueing \<Rightarrow> queueing" where
  "fail_pending [] q = q"
| "fail_pending ((request, None) # rest) q = fail_pending rest (q\<lparr>m_pending_requests := rest\<rparr>)"
| "fail_pending ((request, Some (OnComplete i _)) # rest) q =
     fail_pending rest (emit (Completed i RDM_FAILED_TO_SEND None []) q\<lparr>m_pending_requests := rest\<rparr>)"

definition delete_QueueingRDMController :: "queueing \<Rightarrow> ctl_output list" where
  "delete_QueueingRDMController q = trace (fail_pending (m_pending_requests q) q)"

end
