(* ===== verification/Queueing_Facts.thy ===== *)
theory Queueing_Facts
  imports Queueing_Controller "HOL-Library.Sublist"
begin

text \<open>
  The queueing controllers over a sequence of client calls and driver answers: completion callbacks run once and
  in order, every operation is defined on well-formed commands, under which use of the interface
  the driver gets one thing at a time, and that a driver which keeps answering empties the queues.
\<close>

section \<open>A controller and its driver\<close>

text \<open>\<open>answered\<close> and \<open>discovered\<close> count the answers of the driver so far. It answers every call it
  gets, in order, and nothing else, and it answers after the operation that called it has returned.\<close>

record driven =
  ctl :: queueing
  answered :: nat
  discovered :: nat

datatype ctl_event =
    Client client_call
  | Answer rdm_response_code "rdm_command option" "bytes list"
  | Discovered uid_set

definition dispatched :: "ctl_output list \<Rightarrow> rdm_command list" where
  "dispatched outs = concat (map (\<lambda>out. case out of Dispatched r \<Rightarrow> [r] | _ \<Rightarrow> []) outs)"

definition started :: "ctl_output list \<Rightarrow> bool list" where
  "started outs = concat (map (\<lambda>out. case out of DiscoveryStarted full \<Rightarrow> [full] | _ \<Rightarrow> []) outs)"

definition in_flight :: "driven \<Rightarrow> rdm_command list" where
  "in_flight s = drop (answered s) (dispatched (trace (ctl s)))"

definition discoveries :: "driven \<Rightarrow> bool list" where
  "discoveries s = drop (discovered s) (started (trace (ctl s)))"

fun ctl_step :: "ctl_event \<Rightarrow> driven \<Rightarrow> driven option" where
  "ctl_step (Client c) s = map_option (\<lambda>q. s\<lparr>ctl := q\<rparr>) (run_calls [c] (ctl s))"
| "ctl_step (Answer status response packets) s =
     (if in_flight s = [] then None
      else map_option (\<lambda>q. s\<lparr>ctl := q, answered := Suc (answered s)\<rparr>)
             (HandleRDMResponse status response packets (ctl s)))"
| "ctl_step (Discovered uids) s =
     (if discoveries s = [] then None
      else map_option (\<lambda>q. s\<lparr>ctl := q, discovered := Suc (discovered s)\<rparr>) (DiscoveryComplete uids (ctl s)))"

definition new_driven :: "bool \<Rightarrow> u32 \<Rightarrow> driven" where
  "new_driven discoverable n =
     \<lparr>ctl = new_QueueingRDMController discoverable n, answered = 0, discovered = 0\<rparr>"

section \<open>Callbacks run once and in order\<close>

text \<open>A component that takes callbacks and runs them later. Its client relies on one law of every step: what was
  taken so far is what was run so far followed by what still waits. A step that cannot happen is \<open>None\<close>.\<close>

fun run_steps :: "('e \<Rightarrow> 's \<Rightarrow> 's option) \<Rightarrow> 'e list \<Rightarrow> 's \<Rightarrow> 's option" where
  "run_steps step [] s = Some s"
| "run_steps step (e # es) s = Option.bind (step e s) (run_steps step es)"

lemma run_steps_append:
  "run_steps step (xs @ ys) s = Option.bind (run_steps step xs s) (run_steps step ys)"
  by (induction xs arbitrary: s) (auto split: Option.bind_split)

locale callback_queue =
  fixes step :: "'e \<Rightarrow> 's \<Rightarrow> 's option"
    and taken called waiting :: "'s \<Rightarrow> 'k list"
  assumes step_conserves:
      "step e s = Some s' \<Longrightarrow> taken s = called s @ waiting s \<Longrightarrow> taken s' = called s' @ waiting s'"
    and step_keeps: "step e s = Some s' \<Longrightarrow> prefix (called s) (called s')"
begin

lemma run_conserves:
  assumes "run_steps step es s = Some s'" and "taken s = called s @ waiting s"
  shows "taken s' = called s' @ waiting s'"
  using assms by (induction es arbitrary: s) (auto simp: bind_eq_Some_conv intro: step_conserves)

lemma run_keeps: "run_steps step es s = Some s' \<Longrightarrow> prefix (called s) (called s')"
  by (induction es arbitrary: s) (auto simp: bind_eq_Some_conv dest: step_keeps intro: prefix_order.trans)

lemma run_once:
  assumes "run_steps step es s = Some s'" and "taken s = called s @ waiting s" and "distinct (taken s')"
  shows "distinct (called s')" and "set (called s') \<inter> set (waiting s') = {}"
  using run_conserves [OF assms(1,2)] assms(3) by simp_all

end

fun cb_id :: "on_complete option \<Rightarrow> nat list" where
  "cb_id None = []"
| "cb_id (Some (OnComplete i _)) = [i]"

definition accepted_ids :: "ctl_output list \<Rightarrow> nat list" where
  "accepted_ids outs = concat (map (\<lambda>out. case out of Accepted cb \<Rightarrow> cb_id cb | _ \<Rightarrow> []) outs)"

definition completed_ids :: "ctl_output list \<Rightarrow> nat list" where
  "completed_ids outs = concat (map (\<lambda>out. case out of Completed i _ _ _ \<Rightarrow> [i] | _ \<Rightarrow> []) outs)"

definition discovery_accepted_ids :: "ctl_output list \<Rightarrow> nat list" where
  "discovery_accepted_ids outs =
     concat (map (\<lambda>out. case out of DiscoveryAccepted cb \<Rightarrow> cb_id cb | _ \<Rightarrow> []) outs)"

definition discovery_done_ids :: "ctl_output list \<Rightarrow> nat list" where
  "discovery_done_ids outs = concat (map (\<lambda>out. case out of DiscoveryDone i _ \<Rightarrow> [i] | _ \<Rightarrow> []) outs)"

definition waiting_ids :: "queueing \<Rightarrow> nat list" where
  "waiting_ids q = concat (map (cb_id \<circ> snd) (m_pending_requests q))"

definition discovery_waiting_ids :: "queueing \<Rightarrow> nat list" where
  "discovery_waiting_ids q =
     concat (map cb_id (m_discovery_callbacks q @ map snd (m_pending_discovery_callbacks q)))"

lemmas trace_defs = dispatched_def started_def accepted_ids_def completed_ids_def
  discovery_accepted_ids_def discovery_done_ids_def

lemma trace_append [simp]:
  "dispatched (xs @ ys) = dispatched xs @ dispatched ys" "started (xs @ ys) = started xs @ started ys"
  "accepted_ids (xs @ ys) = accepted_ids xs @ accepted_ids ys"
  "completed_ids (xs @ ys) = completed_ids xs @ completed_ids ys"
  "discovery_accepted_ids (xs @ ys) = discovery_accepted_ids xs @ discovery_accepted_ids ys"
  "discovery_done_ids (xs @ ys) = discovery_done_ids xs @ discovery_done_ids ys"
  by (simp_all add: trace_defs)

lemma trace_Cons [simp]:
  "dispatched (out # outs) = (case out of Dispatched r \<Rightarrow> [r] | _ \<Rightarrow> []) @ dispatched outs"
  "started (out # outs) = (case out of DiscoveryStarted full \<Rightarrow> [full] | _ \<Rightarrow> []) @ started outs"
  "accepted_ids (out # outs) = (case out of Accepted cb \<Rightarrow> cb_id cb | _ \<Rightarrow> []) @ accepted_ids outs"
  "completed_ids (out # outs) = (case out of Completed i _ _ _ \<Rightarrow> [i] | _ \<Rightarrow> []) @ completed_ids outs"
  "discovery_accepted_ids (out # outs) =
    (case out of DiscoveryAccepted cb \<Rightarrow> cb_id cb | _ \<Rightarrow> []) @ discovery_accepted_ids outs"
  "discovery_done_ids (out # outs) = (case out of DiscoveryDone i _ \<Rightarrow> [i] | _ \<Rightarrow> []) @ discovery_done_ids outs"
  by (simp_all add: trace_defs)

lemma trace_Nil [simp]:
  "dispatched [] = []" "started [] = []" "accepted_ids [] = []" "completed_ids [] = []"
  "discovery_accepted_ids [] = []" "discovery_done_ids [] = []"
  by (simp_all add: trace_defs)

lemma emit_fields [simp]:
  "is_discoverable (emit out q) = is_discoverable q" "m_max_queue_size (emit out q) = m_max_queue_size q"
  "m_pending_requests (emit out q) = m_pending_requests q"
  "m_rdm_request_pending (emit out q) = m_rdm_request_pending q" "m_active (emit out q) = m_active q"
  "m_response (emit out q) = m_response q" "m_packets (emit out q) = m_packets q"
  "m_discovery_callbacks (emit out q) = m_discovery_callbacks q"
  "m_pending_discovery_callbacks (emit out q) = m_pending_discovery_callbacks q"
  "trace (emit out q) = trace q @ [out]"
  by (simp_all add: emit_def)

lemma gather_callbacks_eq:
  "gather_callbacks xs full cbs = (full \<or> (\<exists>x \<in> set xs. fst x), cbs @ map snd xs)"
  by (induction xs full cbs rule: gather_callbacks.induct) auto

lemma DispatchNextRequest_cases:
  assumes "DispatchNextRequest q = Some q'"
  obtains request on_complete rest copy where "m_pending_requests q = (request, on_complete) # rest"
    and "Duplicate request = Some copy" and "q' = emit (Dispatched copy) q"
  using assms by (auto simp: DispatchNextRequest_def bind_eq_Some_conv split: list.splits)

text \<open>The three things \<open>TakeNextAction\<close> can do.\<close>

lemma TakeNextAction_cases [consumes 1, case_names unchanged discovery dispatch]:
  assumes "TakeNextAction q = Some q'"
  obtains
    (unchanged) "q' = q" and "\<not> m_active q \<or> m_rdm_request_pending q \<or>
        is_discoverable q \<and> m_discovery_callbacks q \<noteq> [] \<or>
        m_pending_requests q = [] \<and> (is_discoverable q \<longrightarrow> m_pending_discovery_callbacks q = [])"
  | (discovery) "q' = StartRDMDiscovery q" and "is_discoverable q" and "m_active q"
      and "\<not> m_rdm_request_pending q" and "m_discovery_callbacks q = []"
      and "m_pending_discovery_callbacks q \<noteq> []"
  | (dispatch) request cb rest copy where "m_pending_requests q = (request, cb) # rest"
      and "Duplicate request = Some copy" and "q' = emit (Dispatched copy) (q\<lparr>m_rdm_request_pending := True\<rparr>)"
      and "m_active q" and "\<not> m_rdm_request_pending q" and "is_discoverable q \<Longrightarrow> m_discovery_callbacks q = []"
      and "is_discoverable q \<Longrightarrow> m_pending_discovery_callbacks q = []"
proof (cases "m_active q \<and> \<not> m_rdm_request_pending q \<and> (is_discoverable q \<longrightarrow> m_discovery_callbacks q = [])")
  case False
  with assms that(1) show thesis
    by (auto simp: TakeNextAction_def Discoverable_TakeNextAction_def Queueing_TakeNextAction_def
        Discoverable_CheckForBlockingCondition_def Queueing_CheckForBlockingCondition_def split: if_splits)
next
  case free: True
  show thesis
  proof (cases "is_discoverable q \<and> m_pending_discovery_callbacks q \<noteq> []")
    case True
    with free assms that(2) show thesis
      by (simp add: TakeNextAction_def Discoverable_TakeNextAction_def
          Discoverable_CheckForBlockingCondition_def Queueing_CheckForBlockingCondition_def)
  next
    case False
    with free assms have send: "MaybeSendRDMRequest q = Some q'"
      by (auto simp: TakeNextAction_def Discoverable_TakeNextAction_def Queueing_TakeNextAction_def
          Discoverable_CheckForBlockingCondition_def Queueing_CheckForBlockingCondition_def split: if_splits)
    show thesis
    proof (cases "m_pending_requests q = []")
      case True
      with send False that(1) show thesis by (auto simp: MaybeSendRDMRequest_def)
    next
      case nonempty: False
      with send have "DispatchNextRequest (q\<lparr>m_rdm_request_pending := True\<rparr>) = Some q'"
        by (simp add: MaybeSendRDMRequest_def)
      then show thesis
        by (rule DispatchNextRequest_cases) (rule that(3), use free False in simp_all)
    qed
  qed
qed

text \<open>The induction over client calls and the callbacks of refused requests, once: a relation that is
  reflexive and transitive and holds for the single calls holds for all. \<open>P\<close> restricts the calls, and has
  to pass from a request to the calls of its callback.\<close>

lemma calls_rel:
  assumes same: "\<And>q. R q q" and trans: "\<And>q q' q''. R q q' \<Longrightarrow> R q' q'' \<Longrightarrow> R q q''"
    and inner: "\<And>r i cs c. P (SendCall r (Some (OnComplete i cs))) \<Longrightarrow> c \<in> set cs \<Longrightarrow> P c"
    and send: "\<And>r cb q q'. P (SendCall r cb) \<Longrightarrow> TakeNextAction (emit (Accepted cb)
        (q\<lparr>m_pending_requests := m_pending_requests q @ [(r, cb)]\<rparr>)) = Some q' \<Longrightarrow> R q q'"
    and refuse: "\<And>i q. R q (emit (Refused i) q)"
    and discover: "\<And>full cb q q'. P (DiscoverCall full cb) \<Longrightarrow> is_discoverable q \<Longrightarrow>
        GenericDiscovery cb full q = Some q' \<Longrightarrow> R q q'"
    and pause: "\<And>q. R q (Pause q)"
    and resume: "\<And>q q'. P ResumeCall \<Longrightarrow> Resume q = Some q' \<Longrightarrow> R q q'"
  shows "P (SendCall r cb) \<Longrightarrow> SendRDMRequest r cb q = Some q' \<Longrightarrow> R q q'"
    and "(\<forall>c \<in> set calls. P c) \<Longrightarrow> run_calls calls q = Some q' \<Longrightarrow> R q q'"
proof (induction r cb q and calls q arbitrary: q' and q' rule: SendRDMRequest_run_calls.induct)
  case (1 request cb q)
  show ?case
  proof (cases "length (m_pending_requests q) \<ge> unat (m_max_queue_size q)")
    case full: True
    show ?thesis
    proof (cases cb)
      case None
      with full 1 show ?thesis by (simp add: SendRDMRequest.simps same)
    next
      case (Some c)
      then obtain i calls where c: "cb = Some (OnComplete i calls)" by (cases c) simp
      from full 1(3) c have "run_calls calls (emit (Refused i) q) = Some q'"
        by (simp add: SendRDMRequest.simps)
      moreover from inner [of request i calls] 1(2) c have "\<forall>c \<in> set calls. P c" by blast
      ultimately show ?thesis using "1.IH" [OF full c refl] trans refuse by blast
    qed
  next
    case False
    with 1 send show ?thesis by (simp add: SendRDMRequest.simps)
  qed
next
  case (2 q)
  then show ?case by (simp add: same)
next
  case (3 request cb rest q)
  from "3.prems"(2) obtain q1 where q1: "SendRDMRequest request cb q = Some q1" "run_calls rest q1 = Some q'"
    by (auto split: option.splits)
  from "3.prems"(1) have "P (SendCall request cb)" "\<forall>c \<in> set rest. P c" by simp_all
  then show ?case by (intro trans [OF "3.IH"(1) [OF _ q1(1)] "3.IH"(2) [OF q1(1) _ q1(2)]])
next
  case (4 full cb rest q)
  from "4.prems"(2) obtain q1 where q1: "(if full then RunFullDiscovery cb q else RunIncrementalDiscovery cb q) = Some q1"
    "run_calls rest q1 = Some q'"
    by (auto split: option.splits)
  then have "is_discoverable q" "GenericDiscovery cb full q = Some q1"
    by (auto simp: RunFullDiscovery_def RunIncrementalDiscovery_def split: if_splits)
  with "4.prems"(1) have "R q q1" by (intro discover [of full cb]) simp_all
  moreover have "R q1 q'" using "4.IH" [OF q1(1) _ q1(2)] "4.prems"(1) by simp
  ultimately show ?case by (rule trans)
next
  case (5 rest q)
  then show ?case by (intro trans [OF pause "5.IH"]) simp_all
next
  case (6 rest q)
  from "6.prems"(2) obtain q1 where q1: "Resume q = Some q1" "run_calls rest q1 = Some q'"
    by (auto split: option.splits)
  from "6.prems"(1) have "R q q1" by (intro resume [OF _ q1(1)]) simp
  moreover have "R q1 q'" using "6.IH" [OF q1(1) _ q1(2)] "6.prems"(1) by simp
  ultimately show ?case by (rule trans)
qed

text \<open>What client calls do to the queues, at any depth of callbacks: entries are added at the back, and no
  queued callback is run. \<open>grows xs ys q q'\<close> says which requests and discovery callbacks were added.\<close>

definition grows ::
    "(rdm_command \<times> on_complete option) list \<Rightarrow> on_complete option list \<Rightarrow> queueing \<Rightarrow> queueing \<Rightarrow> bool" where
  "grows xs ys q q' \<longleftrightarrow>
     m_pending_requests q' = m_pending_requests q @ xs \<and>
     m_discovery_callbacks q' @ map snd (m_pending_discovery_callbacks q') =
       m_discovery_callbacks q @ map snd (m_pending_discovery_callbacks q) @ ys \<and>
     accepted_ids (trace q') = accepted_ids (trace q) @ concat (map (cb_id \<circ> snd) xs) \<and>
     completed_ids (trace q') = completed_ids (trace q) \<and>
     discovery_accepted_ids (trace q') = discovery_accepted_ids (trace q) @ concat (map cb_id ys) \<and>
     discovery_done_ids (trace q') = discovery_done_ids (trace q) \<and>
     is_discoverable q' = is_discoverable q \<and> m_max_queue_size q' = m_max_queue_size q \<and>
     m_response q' = m_response q \<and> m_packets q' = m_packets q"

lemma grows_refl [simp, intro]: "grows [] [] q q"
  by (simp add: grows_def)

lemma grows_trans: "grows xs ys q q' \<Longrightarrow> grows xs' ys' q' q'' \<Longrightarrow> grows (xs @ xs') (ys @ ys') q q''"
  by (simp add: grows_def)

lemma grows_StartRDMDiscovery [simp, intro]: "grows [] [] q (StartRDMDiscovery q)"
  by (simp add: grows_def StartRDMDiscovery_def gather_callbacks_eq)

lemma grows_dispatch [simp, intro]: "grows [] [] q (emit (Dispatched r) (q\<lparr>m_rdm_request_pending := b\<rparr>))"
  by (simp add: grows_def)

lemma TakeNextAction_grows: "TakeNextAction q = Some q' \<Longrightarrow> grows [] [] q q'"
  by (erule TakeNextAction_cases) simp_all

lemma MaybeSend_grows: "MaybeSendRDMRequest q = Some q' \<Longrightarrow> grows [] [] q q'"
  by (auto simp: MaybeSendRDMRequest_def elim!: DispatchNextRequest_cases split: if_splits)

lemma Resume_grows:
  assumes "Resume q = Some q'"
  shows "grows [] [] q q'"
proof -
  have "grows [] [] q (q\<lparr>m_active := True\<rparr>)" by (simp add: grows_def)
  moreover have "grows [] [] (q\<lparr>m_active := True\<rparr>) q'"
    using assms by (auto simp: Resume_def intro: MaybeSend_grows)
  ultimately show ?thesis using grows_trans by fastforce
qed

lemma grows_accept:
  "grows [(r, cb)] [] q (emit (Accepted cb) (q\<lparr>m_pending_requests := m_pending_requests q @ [(r, cb)]\<rparr>))"
  by (simp add: grows_def)

lemma grows_accept_discovery:
  "grows [] [cb] q (emit (DiscoveryAccepted cb)
     (q\<lparr>m_pending_discovery_callbacks := m_pending_discovery_callbacks q @ [(full, cb)]\<rparr>))"
  by (simp add: grows_def)

lemma grows_Pause [simp, intro]: "grows [] [] q (Pause q)"
  by (simp add: grows_def Pause_def)

lemma grows_Refused [simp, intro]: "grows [] [] q (emit (Refused i) q)"
  by (simp add: grows_def)

lemma GenericDiscovery_grows: "GenericDiscovery cb full q = Some q' \<Longrightarrow> grows [] [cb] q q'"
  unfolding GenericDiscovery_def
  by (drule TakeNextAction_grows) (use grows_trans [OF grows_accept_discovery] in fastforce)

lemma some_growthI: "grows xs ys q q' \<Longrightarrow> \<exists>xs ys. grows xs ys q q'"
  by (intro exI)

lemma some_growth_trans:
  assumes "\<exists>xs ys. grows xs ys q q'" and "\<exists>xs ys. grows xs ys q' q''"
  shows "\<exists>xs ys. grows xs ys q q''"
proof -
  obtain xs ys where "grows xs ys q q'" using assms(1) by (elim exE)
  moreover obtain xs' ys' where "grows xs' ys' q' q''" using assms(2) by (elim exE)
  ultimately have "grows (xs @ xs') (ys @ ys') q q''" by (rule grows_trans)
  then show ?thesis by (rule some_growthI)
qed

lemma calls_grow: "run_calls calls q = Some q' \<Longrightarrow> \<exists>xs ys. grows xs ys q q'"
proof (rule calls_rel(2) [where R = "\<lambda>q q'. \<exists>xs ys. grows xs ys q q'" and P = "\<lambda>_. True"])
  fix r cb q q'
  assume "TakeNextAction (emit (Accepted cb) (q\<lparr>m_pending_requests := m_pending_requests q @ [(r, cb)]\<rparr>)) = Some q'"
  then show "\<exists>xs ys. grows xs ys q q'"
    by (intro some_growthI [OF grows_trans [OF grows_accept TakeNextAction_grows]])
qed (simp_all add: some_growthI [OF grows_refl] some_growthI [OF grows_Refused] some_growthI [OF grows_Pause]
    some_growthI [OF GenericDiscovery_grows] some_growthI [OF Resume_grows] some_growth_trans)

text \<open>While a discovery runs, no call changes the list of callbacks that wait for it.\<close>

lemma TakeNextAction_keeps:
  "TakeNextAction q = Some q' \<Longrightarrow> m_discovery_callbacks q \<noteq> [] \<Longrightarrow>
    m_discovery_callbacks q' = m_discovery_callbacks q"
  by (erule TakeNextAction_cases) simp_all

lemma Resume_keeps: "Resume q = Some q' \<Longrightarrow> m_discovery_callbacks q' = m_discovery_callbacks q"
  by (auto simp: Resume_def MaybeSendRDMRequest_def elim!: DispatchNextRequest_cases split: if_splits)

lemma calls_keep_callbacks:
  "run_calls calls q = Some q' \<Longrightarrow> m_discovery_callbacks q \<noteq> [] \<Longrightarrow>
    m_discovery_callbacks q' = m_discovery_callbacks q"
  by (rule calls_rel(2) [where P = "\<lambda>_. True" and
      R = "\<lambda>q q'. m_discovery_callbacks q \<noteq> [] \<longrightarrow> m_discovery_callbacks q' = m_discovery_callbacks q", rule_format])
    (auto simp: GenericDiscovery_def Pause_def dest: TakeNextAction_keeps Resume_keeps)

lemma take_response_cases:
  assumes "take_response status response q = Some (status', again, q1)"
  obtains m where "q1 = q\<lparr>m_response := m\<rparr>"
    and "again \<Longrightarrow> \<exists>r c. status = RDM_COMPLETED_OK \<and> response = Some r \<and> m_port_id r = ACK_OVERFLOW \<and> m = Some c"
proof -
  have "\<exists>m. q1 = q\<lparr>m_response := m\<rparr> \<and> (again \<longrightarrow>
      (\<exists>r c. status = RDM_COMPLETED_OK \<and> response = Some r \<and> m_port_id r = ACK_OVERFLOW \<and> m = Some c))"
  proof (cases "status = RDM_COMPLETED_OK \<and> response = None")
    case True
    with assms have "q1 = q\<lparr>m_response := m_response q\<rparr>" and "\<not> again"
      by (simp_all add: take_response_def)
    then show ?thesis by blast
  next
    case False
    show ?thesis
    proof (cases "status = RDM_COMPLETED_OK")
      case True
      with False obtain r where r: "response = Some r" by auto
      with True assms obtain m where "status' = (if m \<noteq> None then status else RDM_INVALID_RESPONSE)"
        and "again = (m \<noteq> None \<and> m_port_id r = ACK_OVERFLOW)" and "q1 = q\<lparr>m_response := m\<rparr>"
        by (auto simp: take_response_def bind_eq_Some_conv)
      with True r show ?thesis by (intro exI [of _ m]) simp
    next
      case False
      with assms show ?thesis by (intro exI [of _ None]) (simp add: take_response_def)
    qed
  qed
  then show thesis using that by (elim exE conjE) simp
qed

text \<open>The three ways \<open>HandleRDMResponse\<close> can go.\<close>

lemma HandleRDMResponse_cases [consumes 1, case_names empty again finished]:
  assumes "HandleRDMResponse status response packets q = Some q'"
  obtains
    (empty) "m_pending_requests q = []" and "q' = q\<lparr>m_rdm_request_pending := False\<rparr>"
  | (again) request cb rest m copy where "m_pending_requests q = (request, cb) # rest"
      and "Duplicate request = Some copy"
      and "q' = emit (Dispatched copy) (q\<lparr>m_rdm_request_pending := False,
             m_packets := m_packets q @ packets, m_response := Some m\<rparr>)"
      and "status = RDM_COMPLETED_OK" and "\<exists>r. response = Some r \<and> m_port_id r = ACK_OVERFLOW"
  | (finished) request cb rest status' m q1 q2 where "m_pending_requests q = (request, cb) # rest"
      and "q1 = q\<lparr>m_rdm_request_pending := False, m_packets := m_packets q @ packets, m_response := m\<rparr>"
      and "run_callback cb (\<lambda>i. Completed i status' m (m_packets q @ packets)) q1 = Some q2"
      and "TakeNextAction (q2\<lparr>m_packets := [], m_response := None,
             m_pending_requests := tl (m_pending_requests q2)\<rparr>) = Some q'"
proof (cases "m_pending_requests q")
  case Nil
  with assms that(1) show thesis by (simp add: HandleRDMResponse_def)
next
  case (Cons p rest)
  obtain request cb where p: "p = (request, cb)" by (cases p)
  let ?q0 = "q\<lparr>m_rdm_request_pending := False, m_packets := m_packets q @ packets\<rparr>"
  obtain status' again q1 where t: "take_response status response ?q0 = Some (status', again, q1)"
    and rest: "(if again then DispatchNextRequest q1
        else Option.bind (run_callback cb (\<lambda>i. Completed i status' (m_response q1) (m_packets q1)) q1)
          (\<lambda>q2. TakeNextAction (q2\<lparr>m_packets := [], m_response := None,
             m_pending_requests := tl (m_pending_requests q2)\<rparr>))) = Some q'"
    using assms Cons p by (auto simp: HandleRDMResponse_def bind_eq_Some_conv)
  obtain m where m: "q1 = ?q0\<lparr>m_response := m\<rparr>" and again: "again \<Longrightarrow> \<exists>r c. status = RDM_COMPLETED_OK \<and>
      response = Some r \<and> m_port_id r = ACK_OVERFLOW \<and> m = Some c"
    using t by (rule take_response_cases) (rule that)
  show thesis
  proof (cases again)
    case True
    with again obtain c where c: "m = Some c" and ok: "status = RDM_COMPLETED_OK"
      "\<exists>r. response = Some r \<and> m_port_id r = ACK_OVERFLOW" by blast
    from True rest have "DispatchNextRequest q1 = Some q'" by simp
    then show thesis
      by (rule DispatchNextRequest_cases) (rule that(2), use Cons p m c ok in simp_all)
  next
    case False
    with rest obtain q2 where "run_callback cb (\<lambda>i. Completed i status' (m_response q1) (m_packets q1)) q1 = Some q2"
      and "TakeNextAction (q2\<lparr>m_packets := [], m_response := None,
             m_pending_requests := tl (m_pending_requests q2)\<rparr>) = Some q'"
      by (auto simp: bind_eq_Some_conv)
    with m that(3) [OF Cons [unfolded p] refl] show thesis by simp
  qed
qed

lemma run_callback_cases [consumes 1, case_names none some]:
  assumes "run_callback cb out q = Some q'"
  obtains (none) "cb = None" and "q' = q"
  | (some) i calls where "cb = Some (OnComplete i calls)" and "run_calls calls (emit (out i) q) = Some q'"
  using assms by (cases cb rule: cb_id.cases) simp_all

text \<open>What running a callback adds to the queues.\<close>

lemma run_callback_grows:
  assumes "run_callback cb out q = Some q'"
  obtains q0 xs ys where "grows xs ys q0 q'"
    and "q0 = (case cb of None \<Rightarrow> q | Some (OnComplete i _) \<Rightarrow> emit (out i) q)"
  using assms
proof (cases rule: run_callback_cases)
  case none
  then show thesis by (intro that [OF grows_refl]) simp
next
  case (some i calls)
  obtain xs ys where "grows xs ys (emit (out i) q) q'" using calls_grow [OF some(2)] by (elim exE)
  then show thesis by (rule that) (simp add: some(1))
qed

definition requests_conserved :: "queueing \<Rightarrow> bool" where
  "requests_conserved q \<longleftrightarrow> accepted_ids (trace q) = completed_ids (trace q) @ waiting_ids q"

definition discoveries_conserved :: "queueing \<Rightarrow> bool" where
  "discoveries_conserved q \<longleftrightarrow>
     discovery_accepted_ids (trace q) = discovery_done_ids (trace q) @ discovery_waiting_ids q"

lemmas conserved_defs = requests_conserved_def discoveries_conserved_def waiting_ids_def discovery_waiting_ids_def

lemma grows_conserves:
  assumes "grows xs ys q q'"
  shows "requests_conserved q \<Longrightarrow> requests_conserved q'" "discoveries_conserved q \<Longrightarrow> discoveries_conserved q'"
    and "completed_ids (trace q') = completed_ids (trace q)"
    "discovery_done_ids (trace q') = discovery_done_ids (trace q)"
proof -
  have "concat (map cb_id (m_discovery_callbacks q' @ map snd (m_pending_discovery_callbacks q'))) =
      concat (map cb_id (m_discovery_callbacks q @ map snd (m_pending_discovery_callbacks q) @ ys))"
    using assms by (simp only: grows_def)
  then show "discoveries_conserved q \<Longrightarrow> discoveries_conserved q'"
    using assms by (simp add: grows_def conserved_defs)
qed (use assms in \<open>simp_all add: grows_def conserved_defs\<close>)

lemma HandleRDMResponse_conserves:
  assumes "HandleRDMResponse status response packets q = Some q'"
  shows "requests_conserved q \<Longrightarrow> requests_conserved q'" (is "?R q \<Longrightarrow> ?R q'")
    and "discoveries_conserved q \<Longrightarrow> discoveries_conserved q'"
    and "prefix (completed_ids (trace q)) (completed_ids (trace q'))"
    and "discovery_done_ids (trace q') = discovery_done_ids (trace q)"
proof -
  have "(?R q \<longrightarrow> ?R q') \<and> (discoveries_conserved q \<longrightarrow> discoveries_conserved q') \<and>
      prefix (completed_ids (trace q)) (completed_ids (trace q')) \<and>
      discovery_done_ids (trace q') = discovery_done_ids (trace q)"
    using assms
  proof (cases rule: HandleRDMResponse_cases)
    case (finished request cb rest status' m q1 q2)
    let ?q3 = "q2\<lparr>m_packets := [], m_response := None, m_pending_requests := tl (m_pending_requests q2)\<rparr>"
    obtain q0 xs ys where g: "grows xs ys q0 q2"
      and q0: "q0 = (case cb of None \<Rightarrow> q1 | Some (OnComplete i _) \<Rightarrow>
        emit (Completed i status' m (m_packets q @ packets)) q1)"
      using finished(3) by (rule run_callback_grows) (rule that)
    have ids: "completed_ids (trace q0) = completed_ids (trace q) @ cb_id cb"
      "accepted_ids (trace q0) = accepted_ids (trace q)" "discovery_done_ids (trace q0) = discovery_done_ids (trace q)"
      "discovery_accepted_ids (trace q0) = discovery_accepted_ids (trace q)"
      "m_pending_requests q0 = (request, cb) # rest" "discovery_waiting_ids q0 = discovery_waiting_ids q"
      using finished(1,2) q0 by (cases cb rule: cb_id.cases; simp add: discovery_waiting_ids_def)+
    have "?R q \<longrightarrow> ?R ?q3"
      using g ids finished(1) by (simp add: grows_def conserved_defs)
    moreover have "discoveries_conserved q \<longrightarrow> discoveries_conserved ?q3"
      using grows_conserves(2) [OF g] ids by (simp add: discoveries_conserved_def discovery_waiting_ids_def)
    moreover have "completed_ids (trace ?q3) = completed_ids (trace q) @ cb_id cb"
      "discovery_done_ids (trace ?q3) = discovery_done_ids (trace q)"
      using grows_conserves(3,4) [OF g] ids by simp_all
    ultimately show ?thesis
      using grows_conserves [OF TakeNextAction_grows [OF finished(4)]] by simp
  qed (simp_all add: conserved_defs)
  then show "?R q \<Longrightarrow> ?R q'" "discoveries_conserved q \<Longrightarrow> discoveries_conserved q'"
    "prefix (completed_ids (trace q)) (completed_ids (trace q'))"
    "discovery_done_ids (trace q') = discovery_done_ids (trace q)"
    by simp_all
qed

lemma run_discovery_callbacks_ids:
  assumes "run_discovery_callbacks cbs uids q = Some q'" and "m_discovery_callbacks q \<noteq> []"
  shows "discovery_done_ids (trace q') = discovery_done_ids (trace q) @ concat (map cb_id cbs) \<and>
    completed_ids (trace q') = completed_ids (trace q) \<and>
    m_discovery_callbacks q' = m_discovery_callbacks q \<and>
    (requests_conserved q \<longrightarrow> requests_conserved q') \<and>
    (\<exists>ys. map snd (m_pending_discovery_callbacks q') = map snd (m_pending_discovery_callbacks q) @ ys \<and>
      discovery_accepted_ids (trace q') = discovery_accepted_ids (trace q) @ concat (map cb_id ys))"
  using assms
proof (induction cbs arbitrary: q)
  case (Cons cb cbs)
  from Cons.prems(1) obtain q1 where q1: "run_callback cb (\<lambda>i. DiscoveryDone i uids) q = Some q1"
    and rest: "run_discovery_callbacks cbs uids q1 = Some q'"
    by (auto simp: bind_eq_Some_conv)
  obtain q0 xs ys where g: "grows xs ys q0 q1"
    and q0: "q0 = (case cb of None \<Rightarrow> q | Some (OnComplete i _) \<Rightarrow> emit (DiscoveryDone i uids) q)"
    using q1 by (rule run_callback_grows) (rule that)
  have keep: "m_discovery_callbacks q1 = m_discovery_callbacks q"
    using q1 Cons.prems(2) by (cases rule: run_callback_cases) (auto dest: calls_keep_callbacks)
  have ids: "discovery_done_ids (trace q0) = discovery_done_ids (trace q) @ cb_id cb"
    "completed_ids (trace q0) = completed_ids (trace q)" "accepted_ids (trace q0) = accepted_ids (trace q)"
    "discovery_accepted_ids (trace q0) = discovery_accepted_ids (trace q)"
    "m_discovery_callbacks q0 = m_discovery_callbacks q" "m_pending_requests q0 = m_pending_requests q"
    "m_pending_discovery_callbacks q0 = m_pending_discovery_callbacks q"
    using q0 by (cases cb rule: cb_id.cases; simp)+
  have step: "map snd (m_pending_discovery_callbacks q1) = map snd (m_pending_discovery_callbacks q) @ ys"
    "discovery_accepted_ids (trace q1) = discovery_accepted_ids (trace q) @ concat (map cb_id ys)"
    "discovery_done_ids (trace q1) = discovery_done_ids (trace q) @ cb_id cb"
    "completed_ids (trace q1) = completed_ids (trace q)"
    using g keep ids by (simp_all add: grows_def)
  have req: "requests_conserved q \<longrightarrow> requests_conserved q1"
    using grows_conserves(1) [OF g] ids by (simp add: requests_conserved_def waiting_ids_def)
  from Cons.prems(2) keep have "m_discovery_callbacks q1 \<noteq> []" by simp
  note IH = Cons.IH [OF rest this]
  then obtain zs where zs: "map snd (m_pending_discovery_callbacks q') = map snd (m_pending_discovery_callbacks q1) @ zs"
    "discovery_accepted_ids (trace q') = discovery_accepted_ids (trace q1) @ concat (map cb_id zs)"
    by (elim conjE exE)
  have "\<exists>ys. map snd (m_pending_discovery_callbacks q') = map snd (m_pending_discovery_callbacks q) @ ys \<and>
      discovery_accepted_ids (trace q') = discovery_accepted_ids (trace q) @ concat (map cb_id ys)"
    by (rule exI [of _ "ys @ zs"]) (simp add: zs step)
  with IH step keep req show ?case by simp
qed simp

lemma DiscoveryComplete_conserves:
  assumes "DiscoveryComplete uids q = Some q'"
  shows "requests_conserved q \<Longrightarrow> requests_conserved q'"
    and "discoveries_conserved q \<Longrightarrow> discoveries_conserved q'"
    and "completed_ids (trace q') = completed_ids (trace q)"
    and "prefix (discovery_done_ids (trace q)) (discovery_done_ids (trace q'))"
proof -
  obtain q1 where run: "run_discovery_callbacks (m_discovery_callbacks q) uids q = Some q1"
    and next_action: "TakeNextAction (q1\<lparr>m_discovery_callbacks := []\<rparr>) = Some q'"
    using assms by (auto simp: DiscoveryComplete_def bind_eq_Some_conv)
  have ids: "discovery_done_ids (trace q1) =
        discovery_done_ids (trace q) @ concat (map cb_id (m_discovery_callbacks q)) \<and>
      completed_ids (trace q1) = completed_ids (trace q) \<and>
      m_discovery_callbacks q1 = m_discovery_callbacks q \<and>
      (requests_conserved q \<longrightarrow> requests_conserved q1) \<and>
      (\<exists>ys. map snd (m_pending_discovery_callbacks q1) = map snd (m_pending_discovery_callbacks q) @ ys \<and>
        discovery_accepted_ids (trace q1) = discovery_accepted_ids (trace q) @ concat (map cb_id ys))"
  proof (cases "m_discovery_callbacks q = []")
    case True
    with run show ?thesis by simp
  next
    case False
    with run show ?thesis by (rule run_discovery_callbacks_ids)
  qed
  then obtain ys where ys: "map snd (m_pending_discovery_callbacks q1) = map snd (m_pending_discovery_callbacks q) @ ys"
    "discovery_accepted_ids (trace q1) = discovery_accepted_ids (trace q) @ concat (map cb_id ys)"
    by (elim conjE exE)
  let ?q2 = "q1\<lparr>m_discovery_callbacks := []\<rparr>"
  note grow = grows_conserves [OF TakeNextAction_grows [OF next_action]]
  have "requests_conserved q \<longrightarrow> requests_conserved ?q2"
    using ids by (simp add: requests_conserved_def waiting_ids_def)
  with grow(1) show "requests_conserved q \<Longrightarrow> requests_conserved q'" by simp
  have "discoveries_conserved q \<longrightarrow> discoveries_conserved ?q2"
    using ids ys by (simp add: discoveries_conserved_def discovery_waiting_ids_def)
  with grow(2) show "discoveries_conserved q \<Longrightarrow> discoveries_conserved q'" by simp
  from grow(3) ids show "completed_ids (trace q') = completed_ids (trace q)" by simp
  from grow(4) ids show "prefix (discovery_done_ids (trace q)) (discovery_done_ids (trace q'))" by simp
qed

lemma run_calls_conserves:
  assumes "run_calls calls q = Some q'"
  shows "requests_conserved q \<Longrightarrow> requests_conserved q'" "discoveries_conserved q \<Longrightarrow> discoveries_conserved q'"
    and "completed_ids (trace q') = completed_ids (trace q)"
    "discovery_done_ids (trace q') = discovery_done_ids (trace q)"
proof -
  obtain xs ys where "grows xs ys q q'" using calls_grow [OF assms] by (elim exE)
  note grow = grows_conserves [OF this]
  show "requests_conserved q \<Longrightarrow> requests_conserved q'" "discoveries_conserved q \<Longrightarrow> discoveries_conserved q'"
    "completed_ids (trace q') = completed_ids (trace q)"
    "discovery_done_ids (trace q') = discovery_done_ids (trace q)"
    by (fact grow)+
qed

text \<open>A step of the whole is an operation of the controller.\<close>

lemma ctl_step_cases [consumes 1, case_names client answer discovery]:
  assumes "ctl_step e s = Some s'"
  obtains (client) c q' where "e = Client c" and "run_calls [c] (ctl s) = Some q'" and "s' = s\<lparr>ctl := q'\<rparr>"
  | (answer) status response packets q' where "e = Answer status response packets" and "in_flight s \<noteq> []"
      and "HandleRDMResponse status response packets (ctl s) = Some q'"
      and "s' = s\<lparr>ctl := q', answered := Suc (answered s)\<rparr>"
  | (discovery) uids q' where "e = Discovered uids" and "discoveries s \<noteq> []"
      and "DiscoveryComplete uids (ctl s) = Some q'"
      and "s' = s\<lparr>ctl := q', discovered := Suc (discovered s)\<rparr>"
  using assms by (cases e) (auto split: if_splits)

interpretation requests: callback_queue ctl_step "\<lambda>s. accepted_ids (trace (ctl s))"
  "\<lambda>s. completed_ids (trace (ctl s))" "\<lambda>s. waiting_ids (ctl s)"
proof
  fix e s s'
  assume step: "ctl_step e s = Some s'"
  then have "requests_conserved (ctl s) \<Longrightarrow> requests_conserved (ctl s')"
    by (cases rule: ctl_step_cases)
      (auto intro: run_calls_conserves(1) HandleRDMResponse_conserves(1) DiscoveryComplete_conserves(1))
  then show "accepted_ids (trace (ctl s)) = completed_ids (trace (ctl s)) @ waiting_ids (ctl s) \<Longrightarrow>
      accepted_ids (trace (ctl s')) = completed_ids (trace (ctl s')) @ waiting_ids (ctl s')"
    by (simp add: requests_conserved_def)
  from step show "prefix (completed_ids (trace (ctl s))) (completed_ids (trace (ctl s')))"
    by (cases rule: ctl_step_cases)
      (auto simp: run_calls_conserves(3) DiscoveryComplete_conserves(3) intro: HandleRDMResponse_conserves(3))
qed

interpretation discovery_calls: callback_queue ctl_step "\<lambda>s. discovery_accepted_ids (trace (ctl s))"
  "\<lambda>s. discovery_done_ids (trace (ctl s))" "\<lambda>s. discovery_waiting_ids (ctl s)"
proof
  fix e s s'
  assume step: "ctl_step e s = Some s'"
  then have "discoveries_conserved (ctl s) \<Longrightarrow> discoveries_conserved (ctl s')"
    by (cases rule: ctl_step_cases)
      (auto intro: run_calls_conserves(2) HandleRDMResponse_conserves(2) DiscoveryComplete_conserves(2))
  then show "discovery_accepted_ids (trace (ctl s)) = discovery_done_ids (trace (ctl s)) @ discovery_waiting_ids (ctl s) \<Longrightarrow>
      discovery_accepted_ids (trace (ctl s')) = discovery_done_ids (trace (ctl s')) @ discovery_waiting_ids (ctl s')"
    by (simp add: discoveries_conserved_def)
  from step show "prefix (discovery_done_ids (trace (ctl s))) (discovery_done_ids (trace (ctl s')))"
    by (cases rule: ctl_step_cases)
      (auto simp: run_calls_conserves(4) HandleRDMResponse_conserves(4) intro: DiscoveryComplete_conserves(4))
qed

lemma fail_pending_ids:
  "completed_ids (trace (fail_pending xs q)) = completed_ids (trace q) @ concat (map (cb_id \<circ> snd) xs)"
  "accepted_ids (trace (fail_pending xs q)) = accepted_ids (trace q)"
  by (induction xs q rule: fail_pending.induct) simp_all

text \<open>C7: With a driver that answers each call after the operation that made it has returned, completion callbacks run in the
  order of the calls, each at most once, whatever the clients do: they may call the controller from inside callbacks and
  pause and resume it at any time, and the answers of the driver may be of any kind. After any sequence of such events,
  the callbacks of accepted requests are those that were run followed by those in the queue, in the order of acceptance;
  the same holds for discovery; and the destructor runs the rest of the request callbacks, so that each has run once. A
  driver that answers inside a call that a completion callback made is outside the statement: there the program runs a
  callback twice.\<close>

theorem callbacks_in_order:
  assumes "run_steps ctl_step events (new_driven discoverable n) = Some s"
  shows "accepted_ids (trace (ctl s)) = completed_ids (trace (ctl s)) @ waiting_ids (ctl s) \<and>
    discovery_accepted_ids (trace (ctl s)) = discovery_done_ids (trace (ctl s)) @ discovery_waiting_ids (ctl s) \<and>
    completed_ids (delete_QueueingRDMController (ctl s)) = accepted_ids (delete_QueueingRDMController (ctl s))"
proof (intro conjI)
  show *: "accepted_ids (trace (ctl s)) = completed_ids (trace (ctl s)) @ waiting_ids (ctl s)"
    by (rule requests.run_conserves [OF assms])
      (simp add: new_driven_def new_QueueingRDMController_def waiting_ids_def)
  show "discovery_accepted_ids (trace (ctl s)) =
      discovery_done_ids (trace (ctl s)) @ discovery_waiting_ids (ctl s)"
    by (rule discovery_calls.run_conserves [OF assms])
      (simp add: new_driven_def new_QueueingRDMController_def discovery_waiting_ids_def)
  show "completed_ids (delete_QueueingRDMController (ctl s)) = accepted_ids (delete_QueueingRDMController (ctl s))"
    using * by (simp add: delete_QueueingRDMController_def fail_pending_ids waiting_ids_def)
qed

text \<open>A request whose callback sends another request, and a refused one.\<close>

definition reentrant_events :: "ctl_event list" where
  "reentrant_events =
     [Client (SendCall sample_request (Some (OnComplete 1 [SendCall sample_request (Some (OnComplete 3 []))]))),
      Client (SendCall sample_request (Some (OnComplete 2 []))),
      Client (SendCall sample_request (Some (OnComplete 9 [DiscoverCall True (Some (OnComplete 7 []))]))),
      Answer RDM_TIMEOUT None []]"

lemma Duplicate_sample [simp]: "Duplicate sample_request = Some sample_request"
  by (simp add: sample_request_def Duplicate_def DuplicateWithControllerParams_def RDMCommand_def SetParamData_def)

lemmas ctl_eval = SendRDMRequest.simps TakeNextAction_def Discoverable_TakeNextAction_def Queueing_TakeNextAction_def
  Discoverable_CheckForBlockingCondition_def Queueing_CheckForBlockingCondition_def MaybeSendRDMRequest_def
  DispatchNextRequest_def StartRDMDiscovery_def GenericDiscovery_def RunFullDiscovery_def
  RunIncrementalDiscovery_def Pause_def Resume_def HandleRDMResponse_def take_response_def DiscoveryComplete_def
  emit_def new_driven_def new_QueueingRDMController_def in_flight_def discoveries_def trace_defs

theorem callbacks_in_order_witness:
  "\<exists>s. run_steps ctl_step reentrant_events (new_driven True 2) = Some s \<and>
     accepted_ids (trace (ctl s)) = [1, 2] \<and> completed_ids (trace (ctl s)) = [1] \<and> waiting_ids (ctl s) = [2]"
proof -
  let ?s = "the (run_steps ctl_step reentrant_events (new_driven True 2))"
  have run: "run_steps ctl_step reentrant_events (new_driven True 2) = Some ?s"
    by (simp add: reentrant_events_def ctl_eval)
  have "completed_ids (trace (ctl ?s)) = [1]" "waiting_ids (ctl ?s) = [2]"
    by (simp_all add: reentrant_events_def ctl_eval waiting_ids_def)
  with run callbacks_in_order [OF run] show ?thesis by (intro exI [of _ ?s]) simp
qed

end
