(* ===== verification/Queueing_Laws.thy ===== *)
theory Queueing_Laws
  imports Queueing_Facts
begin

text \<open>
  The queueing controllers used with well-formed commands, and used with care: every operation is defined,
  the driver gets one thing at a time and each answer reaches the callback of its request, and
  the queues run empty. The last section shows what happens without the care.
\<close>

section \<open>Well-formed commands\<close>

text \<open>\<open>call_wf d\<close>: commands as their constructors build them, discovery only on a discoverable controller.\<close>

fun call_wf :: "bool \<Rightarrow> client_call \<Rightarrow> bool" and cb_wf :: "bool \<Rightarrow> on_complete option \<Rightarrow> bool" where
  "call_wf d (SendCall r cb) \<longleftrightarrow> cmd_ok r \<and> cb_wf d cb"
| "call_wf d (DiscoverCall full cb) \<longleftrightarrow> d \<and> cb_wf d cb"
| "call_wf d PauseCall \<longleftrightarrow> True"
| "call_wf d ResumeCall \<longleftrightarrow> True"
| "cb_wf d None \<longleftrightarrow> True"
| "cb_wf d (Some (OnComplete i calls)) \<longleftrightarrow> (\<forall>c \<in> set calls. call_wf d c)"

definition queue_wf :: "bool \<Rightarrow> queueing \<Rightarrow> bool" where
  "queue_wf d q \<longleftrightarrow>
     is_discoverable q = d \<and>
     (\<forall>(r, cb) \<in> set (m_pending_requests q). cmd_ok r \<and> cb_wf d cb) \<and>
     (\<forall>cb \<in> set (m_discovery_callbacks q @ map snd (m_pending_discovery_callbacks q)). cb_wf d cb) \<and>
     (case m_response q of None \<Rightarrow> True | Some r \<Rightarrow> cmd_ok r)"

fun event_wf :: "bool \<Rightarrow> ctl_event \<Rightarrow> bool" where
  "event_wf d (Client c) \<longleftrightarrow> call_wf d c"
| "event_wf d (Answer status response packets) \<longleftrightarrow> (case response of None \<Rightarrow> True | Some r \<Rightarrow> cmd_ok r)"
| "event_wf d (Discovered uids) \<longleftrightarrow> True"

fun enabled :: "ctl_event \<Rightarrow> driven \<Rightarrow> bool" where
  "enabled (Client c) s \<longleftrightarrow> True"
| "enabled (Answer status response packets) s \<longleftrightarrow> in_flight s \<noteq> []"
| "enabled (Discovered uids) s \<longleftrightarrow> discoveries s \<noteq> []"

lemma Duplicate_ok: "cmd_ok r \<Longrightarrow> Duplicate r = Some r"
  by (auto simp: cmd_ok_def Duplicate_def DuplicateWithControllerParams_def RDMCommand_def SetParamData_def
      split: option.splits)

lemma CombineResponses_wf:
  assumes "cmd_ok r" and "cmd_ok x"
  shows "\<exists>c. CombineResponses r x = Some c \<and> (case c of None \<Rightarrow> True | Some c' \<Rightarrow> cmd_ok c')"
proof -
  have mk: "\<exists>c. RDMCommand src dst tn port mc sd cc pid (Some (data_of r @ data_of x))
      (m_data_length r + m_data_length x) = Some c \<and> cmd_ok c" for src dst tn port mc sd cc pid
    by (rule RDMCommand_ok [of src dst tn port mc sd cc pid "data_of r @ data_of x"])
      (use assms in \<open>simp add: length_data_of\<close>)
  obtain c where c: "RDMCommand (m_source r) (m_destination r) (m_transaction_number r)
      RDM_ACK (m_message_count x) (m_sub_device r) GET_COMMAND_RESPONSE (m_param_id r)
      (Some (data_of r @ data_of x)) (m_data_length r + m_data_length x) = Some c" "cmd_ok c"
    using mk by blast
  obtain c' where c': "RDMCommand (m_source r) (m_destination r) (m_transaction_number r)
      RDM_ACK (m_message_count x) (m_sub_device r) SET_COMMAND_RESPONSE (m_param_id r)
      (Some (data_of r @ data_of x)) (m_data_length r + m_data_length x) = Some c'" "cmd_ok c'"
    using mk by blast
  show ?thesis
    using ParamData_ok [OF assms(1)] ParamData_ok [OF assms(2)] c c'
    by (auto simp: CombineResponses_def Let_def)
qed

lemma queue_wf_action:
  assumes "queue_wf d q"
  shows "\<exists>q'. TakeNextAction q = Some q' \<and> queue_wf d q'" "\<exists>q'. MaybeSendRDMRequest q = Some q' \<and> queue_wf d q'"
proof -
  show send: "\<exists>q'. MaybeSendRDMRequest q = Some q' \<and> queue_wf d q'"
    using assms by (cases "m_pending_requests q")
      (auto simp: MaybeSendRDMRequest_def DispatchNextRequest_def queue_wf_def Duplicate_ok)
  have "queue_wf d (StartRDMDiscovery q)"
    using assms by (simp add: StartRDMDiscovery_def gather_callbacks_eq queue_wf_def)
  with send assms show "\<exists>q'. TakeNextAction q = Some q' \<and> queue_wf d q'"
    by (simp add: TakeNextAction_def Discoverable_TakeNextAction_def Queueing_TakeNextAction_def)
qed

lemma calls_wf:
  "call_wf d (SendCall r cb) \<Longrightarrow> queue_wf d q \<Longrightarrow> \<exists>q'. SendRDMRequest r cb q = Some q' \<and> queue_wf d q'"
  "(\<forall>c \<in> set calls. call_wf d c) \<Longrightarrow> queue_wf d q \<Longrightarrow> \<exists>q'. run_calls calls q = Some q' \<and> queue_wf d q'"
proof (induction r cb q and calls q rule: SendRDMRequest_run_calls.induct)
  case (1 request cb q)
  show ?case
  proof (cases "length (m_pending_requests q) \<ge> unat (m_max_queue_size q)")
    case full: True
    show ?thesis
    proof (cases cb)
      case None
      with full 1(3) show ?thesis by (simp add: SendRDMRequest.simps)
    next
      case (Some c)
      then obtain i calls where c: "cb = Some (OnComplete i calls)" by (cases c) simp
      have "\<exists>q'. run_calls calls (emit (Refused i) q) = Some q' \<and> queue_wf d q'"
        by (rule "1.IH" [OF full c refl]) (use 1(2,3) c in \<open>simp_all add: queue_wf_def\<close>)
      with full c show ?thesis by (simp add: SendRDMRequest.simps)
    qed
  next
    case False
    moreover have "queue_wf d (emit (Accepted cb) (q\<lparr>m_pending_requests := m_pending_requests q @ [(request, cb)]\<rparr>))"
      using 1(2,3) by (auto simp: queue_wf_def)
    ultimately show ?thesis using queue_wf_action(1) by (simp add: SendRDMRequest.simps)
  qed
next
  case (3 request cb rest q)
  obtain q1 where q1: "SendRDMRequest request cb q = Some q1" "queue_wf d q1"
    using "3.IH"(1) "3.prems" by auto
  have "\<exists>q'. run_calls rest q1 = Some q' \<and> queue_wf d q'"
    by (rule "3.IH"(2) [OF q1(1) _ q1(2)]) (use "3.prems"(1) in simp)
  with q1 show ?case by simp
next
  case (4 full cb rest q)
  have "queue_wf d (emit (DiscoveryAccepted cb)
      (q\<lparr>m_pending_discovery_callbacks := m_pending_discovery_callbacks q @ [(full, cb)]\<rparr>))"
    using "4.prems" by (auto simp: queue_wf_def)
  from queue_wf_action(1) [OF this] obtain q1 where "GenericDiscovery cb full q = Some q1" "queue_wf d q1"
    unfolding GenericDiscovery_def by (elim exE conjE)
  moreover have "is_discoverable q" using "4.prems" by (simp add: queue_wf_def)
  ultimately have q1: "(if full then RunFullDiscovery cb q else RunIncrementalDiscovery cb q) = Some q1" "queue_wf d q1"
    by (auto simp: RunFullDiscovery_def RunIncrementalDiscovery_def)
  have "\<exists>q'. run_calls rest q1 = Some q' \<and> queue_wf d q'"
    by (rule "4.IH" [OF q1(1) _ q1(2)]) (use "4.prems"(1) in \<open>meson list.set_intros(2)\<close>)
  with q1 show ?case by simp
next
  case (5 rest q)
  have "\<exists>q'. run_calls rest (Pause q) = Some q' \<and> queue_wf d q'"
    by (rule "5.IH") (use "5.prems" in \<open>simp_all add: Pause_def queue_wf_def\<close>)
  then show ?case by simp
next
  case (6 rest q)
  have "queue_wf d (q\<lparr>m_active := True\<rparr>)" using "6.prems"(2) by (simp add: queue_wf_def)
  from queue_wf_action(2) [OF this] obtain q1 where q1: "Resume q = Some q1" "queue_wf d q1"
    unfolding Resume_def by (elim exE conjE)
  have "\<exists>q'. run_calls rest q1 = Some q' \<and> queue_wf d q'"
    by (rule "6.IH" [OF q1(1) _ q1(2)]) (use "6.prems"(1) in simp)
  with q1 show ?case by simp
qed simp

lemma run_callback_wf:
  assumes "cb_wf d cb" and "queue_wf d q"
  shows "\<exists>q'. run_callback cb out q = Some q' \<and> queue_wf d q'"
proof (cases cb rule: cb_id.cases)
  case 1
  with assms show ?thesis by simp
next
  case (2 i calls)
  have "\<exists>q'. run_calls calls (emit (out i) q) = Some q' \<and> queue_wf d q'"
    by (rule calls_wf(2)) (use assms 2 in \<open>simp_all add: queue_wf_def\<close>)
  with 2 show ?thesis by simp
qed

lemma take_response_wf:
  assumes "queue_wf d q" and "case response of None \<Rightarrow> True | Some r \<Rightarrow> cmd_ok r"
  shows "\<exists>status' again q'. take_response status response q = Some (status', again, q') \<and> queue_wf d q' \<and>
    m_pending_requests q' = m_pending_requests q"
proof (cases "status = RDM_COMPLETED_OK \<and> response \<noteq> None")
  case True
  then obtain r where r: "response = Some r" "cmd_ok r" using assms(2) by auto
  have "\<exists>c. (case m_response q of None \<Rightarrow> Some (Some r) | Some m \<Rightarrow> CombineResponses m r) = Some c \<and>
      (case c of None \<Rightarrow> True | Some c' \<Rightarrow> cmd_ok c')"
    using assms(1) r(2) by (cases "m_response q") (auto simp: queue_wf_def dest: CombineResponses_wf)
  then obtain c where "(case m_response q of None \<Rightarrow> Some (Some r) | Some m \<Rightarrow> CombineResponses m r) = Some c"
    and c: "case c of None \<Rightarrow> True | Some c' \<Rightarrow> cmd_ok c'"
    by (elim exE conjE)
  moreover have "queue_wf d (q\<lparr>m_response := c\<rparr>)" using assms(1) c by (simp add: queue_wf_def)
  ultimately show ?thesis using True r by (simp add: take_response_def)
next
  case False
  moreover have "queue_wf d (q\<lparr>m_response := None\<rparr>)" using assms(1) by (simp add: queue_wf_def)
  ultimately show ?thesis using assms(1) by (auto simp: take_response_def)
qed

lemma HandleRDMResponse_wf:
  assumes wf: "queue_wf d q" and r: "case response of None \<Rightarrow> True | Some r \<Rightarrow> cmd_ok r"
  shows "\<exists>q'. HandleRDMResponse status response packets q = Some q' \<and> queue_wf d q'"
proof (cases "m_pending_requests q")
  case Nil
  with wf show ?thesis by (simp add: HandleRDMResponse_def queue_wf_def)
next
  case (Cons p rest)
  obtain request cb where p: "p = (request, cb)" by (cases p)
  let ?q0 = "q\<lparr>m_rdm_request_pending := False, m_packets := m_packets q @ packets\<rparr>"
  have "queue_wf d ?q0" using wf by (simp add: queue_wf_def)
  from take_response_wf [OF this r, of status] obtain status' again q1
    where t: "take_response status response ?q0 = Some (status', again, q1)" "queue_wf d q1"
      "m_pending_requests q1 = (request, cb) # rest"
    using Cons p by auto
  have cmd: "cmd_ok request" "cb_wf d cb" using wf Cons p by (simp_all add: queue_wf_def)
  obtain q2 where q2: "run_callback cb (\<lambda>i. Completed i status' (m_response q1) (m_packets q1)) q1 = Some q2"
    "queue_wf d q2"
    using run_callback_wf [OF cmd(2) t(2)] by blast
  have "queue_wf d (q2\<lparr>m_packets := [], m_response := None, m_pending_requests := tl (m_pending_requests q2)\<rparr>)"
    using q2(2) by (cases "m_pending_requests q2") (simp_all add: queue_wf_def)
  from queue_wf_action(1) [OF this] obtain q3 where
    "TakeNextAction (q2\<lparr>m_packets := [], m_response := None,
       m_pending_requests := tl (m_pending_requests q2)\<rparr>) = Some q3" "queue_wf d q3"
    by (elim exE conjE)
  moreover have "DispatchNextRequest q1 = Some (emit (Dispatched request) q1)" "queue_wf d (emit (Dispatched request) q1)"
    using t cmd by (simp_all add: DispatchNextRequest_def Duplicate_ok queue_wf_def)
  ultimately show ?thesis
    using Cons p t(1) q2(1) by (cases again) (simp_all add: HandleRDMResponse_def)
qed

lemma DiscoveryComplete_wf:
  assumes wf: "queue_wf d q"
  shows "\<exists>q'. DiscoveryComplete uids q = Some q' \<and> queue_wf d q'"
proof -
  have "\<exists>q'. run_discovery_callbacks cbs uids q = Some q' \<and> queue_wf d q'"
    if "queue_wf d q" "\<forall>cb \<in> set cbs. cb_wf d cb" for cbs q
    using that
  proof (induction cbs arbitrary: q)
    case (Cons cb cbs)
    then obtain q1 where "run_callback cb (\<lambda>i. DiscoveryDone i uids) q = Some q1" "queue_wf d q1"
      using run_callback_wf [of d cb q "\<lambda>i. DiscoveryDone i uids"] by auto
    with Cons show ?case by simp
  qed simp
  moreover have "\<forall>cb \<in> set (m_discovery_callbacks q). cb_wf d cb" using wf by (simp add: queue_wf_def)
  ultimately obtain q1 where q1: "run_discovery_callbacks (m_discovery_callbacks q) uids q = Some q1" "queue_wf d q1"
    using wf by blast
  have "queue_wf d (q1\<lparr>m_discovery_callbacks := []\<rparr>)" using q1(2) by (simp add: queue_wf_def)
  with q1(1) queue_wf_action(1) show ?thesis by (simp add: DiscoveryComplete_def)
qed

lemma ctl_step_wf:
  assumes "event_wf d e" and "enabled e s" and "queue_wf d (ctl s)"
  shows "\<exists>s'. ctl_step e s = Some s' \<and> queue_wf d (ctl s')"
proof (cases e)
  case (Client c)
  have "\<exists>q'. run_calls [c] (ctl s) = Some q' \<and> queue_wf d q'"
    by (rule calls_wf(2)) (use assms Client in simp_all)
  with Client show ?thesis by (auto simp del: run_calls.simps)
next
  case (Answer status response packets)
  with assms HandleRDMResponse_wf [of d "ctl s" response status packets] show ?thesis by auto
next
  case (Discovered uids)
  with assms DiscoveryComplete_wf [of d "ctl s" uids] show ?thesis by auto
qed

text \<open>C31: With commands as their constructors build them, and a driver that answers each call after the operation that made
  it has returned, no operation of a queueing controller runs into undefined behaviour: after any sequence of client calls
  and driver answers, with callbacks that call the controller again to any depth, every client call has a result, and
  so has every answer to a request or discovery that is with the driver; in particular the queue is not empty when the
  front of it is read. Answers inside a call that a completion callback made are outside the statement.\<close>

theorem controller_always_defined:
  assumes "run_steps ctl_step events (new_driven d n) = Some s" and "\<forall>e \<in> set events. event_wf d e"
    and "event_wf d e" and "enabled e s"
  shows "\<exists>s'. ctl_step e s = Some s'"
proof -
  have "queue_wf d (ctl s)" if "run_steps ctl_step events s0 = Some s" "queue_wf d (ctl s0)" for s0
    using that assms(2)
  proof (induction events arbitrary: s0)
    case (Cons e es)
    then obtain s1 where s1: "ctl_step e s0 = Some s1" "run_steps ctl_step es s1 = Some s"
      by (auto simp: bind_eq_Some_conv)
    from s1(1) have "enabled e s0" by (cases e) (auto split: if_splits)
    with ctl_step_wf [of d e s0] Cons.prems s1(1) have "queue_wf d (ctl s1)" by simp
    with Cons s1 show ?case by simp
  qed simp
  moreover have "queue_wf d (ctl (new_driven d n))"
    by (simp add: new_driven_def new_QueueingRDMController_def queue_wf_def)
  ultimately show ?thesis using assms(1,3,4) ctl_step_wf by blast
qed

section \<open>One thing at a time\<close>

text \<open>The states of a controller whose driver has answered \<open>n\<close> requests and \<open>m\<close> discoveries: one request
  is with the driver, or one discovery, or nothing. In \<open>overflow\<close> the request at the front of the queue was
  sent again to get the rest of its response.\<close>

definition sent :: "nat \<Rightarrow> nat \<Rightarrow> queueing \<Rightarrow> bool" where
  "sent n m q \<longleftrightarrow> m_discovery_callbacks q = [] \<and> length (started (trace q)) = m \<and> m_pending_requests q \<noteq> [] \<and>
     (\<exists>copy. Duplicate (fst (hd (m_pending_requests q))) = Some copy \<and> drop n (dispatched (trace q)) = [copy])"

definition discovering :: "nat \<Rightarrow> nat \<Rightarrow> queueing \<Rightarrow> bool" where
  "discovering n m q \<longleftrightarrow> \<not> m_rdm_request_pending q \<and> m_discovery_callbacks q \<noteq> [] \<and> is_discoverable q \<and>
     length (started (trace q)) = Suc m \<and> length (dispatched (trace q)) = n"

definition nothing :: "nat \<Rightarrow> nat \<Rightarrow> queueing \<Rightarrow> bool" where
  "nothing n m q \<longleftrightarrow> \<not> m_rdm_request_pending q \<and> m_discovery_callbacks q = [] \<and>
     length (started (trace q)) = m \<and> length (dispatched (trace q)) = n"

definition queues_empty :: "queueing \<Rightarrow> bool" where
  "queues_empty q \<longleftrightarrow> m_pending_requests q = [] \<and> (is_discoverable q \<longrightarrow> m_pending_discovery_callbacks q = [])"

definition settled :: "nat \<Rightarrow> nat \<Rightarrow> queueing \<Rightarrow> bool" where
  "settled n m q \<longleftrightarrow> m_response q = None \<and>
     (m_rdm_request_pending q \<and> sent n m q \<or> discovering n m q \<or>
      nothing n m q \<and> (m_active q \<longrightarrow> queues_empty q))"

definition overflow :: "nat \<Rightarrow> nat \<Rightarrow> queueing \<Rightarrow> bool" where
  "overflow n m q \<longleftrightarrow> m_response q \<noteq> None \<and> \<not> m_rdm_request_pending q \<and> sent n m q"

lemmas state_defs = sent_def discovering_def nothing_def queues_empty_def settled_def overflow_def

text \<open>Callbacks that are safe to run: a callback of a request may start discoveries and pause the controller, one
  of a discovery may also send requests.\<close>

fun call_tame :: "bool \<Rightarrow> client_call \<Rightarrow> bool" and cb_tame :: "bool \<Rightarrow> on_complete option \<Rightarrow> bool" where
  "call_tame sends (SendCall r cb) \<longleftrightarrow> sends \<and> cb_tame False cb"
| "call_tame sends (DiscoverCall full cb) \<longleftrightarrow> cb_tame True cb"
| "call_tame sends PauseCall \<longleftrightarrow> True"
| "call_tame sends ResumeCall \<longleftrightarrow> False"
| "cb_tame sends None \<longleftrightarrow> True"
| "cb_tame sends (Some (OnComplete i calls)) \<longleftrightarrow> (\<forall>c \<in> set calls. call_tame sends c)"

text \<open>The queued callbacks are safe; a controller that is not discoverable has none of a discovery.\<close>

definition callbacks_tame :: "queueing \<Rightarrow> bool" where
  "callbacks_tame q \<longleftrightarrow>
     (\<not> is_discoverable q \<longrightarrow> m_pending_discovery_callbacks q = []) \<and>
     (\<forall>x \<in> set (m_pending_requests q). cb_tame False (snd x)) \<and>
     (\<forall>cb \<in> set (m_discovery_callbacks q @ map snd (m_pending_discovery_callbacks q)). cb_tame True cb)"

text \<open>The careful use of a controller. Nothing is sent while an overflowed response is collected, and
  \<open>Resume\<close> is called when nothing is with the driver, and not with discovery calls alone in the queues.\<close>

fun careful :: "driven \<Rightarrow> ctl_event \<Rightarrow> bool" where
  "careful s (Client (SendCall r cb)) \<longleftrightarrow> m_response (ctl s) = None \<and> cb_tame False cb"
| "careful s (Client (DiscoverCall full cb)) \<longleftrightarrow> m_response (ctl s) = None \<and> cb_tame True cb"
| "careful s (Client PauseCall) \<longleftrightarrow> True"
| "careful s (Client ResumeCall) \<longleftrightarrow> in_flight s = [] \<and> discoveries s = [] \<and>
     (m_pending_requests (ctl s) \<noteq> [] \<or> m_pending_discovery_callbacks (ctl s) = [])"
| "careful s _ \<longleftrightarrow> True"

inductive ctl_reach :: "bool \<Rightarrow> u32 \<Rightarrow> driven \<Rightarrow> bool" for d n where
  start: "ctl_reach d n (new_driven d n)"
| event: "ctl_reach d n s \<Longrightarrow> careful s e \<Longrightarrow> ctl_step e s = Some s' \<Longrightarrow> ctl_reach d n s'"

lemma call_tame_mono: "call_tame False c \<Longrightarrow> call_tame True c"
  by (cases c) simp_all

text \<open>What \<open>TakeNextAction\<close> makes of each state.\<close>

lemma TakeNextAction_settles:
  assumes "TakeNextAction q = Some q'" and "m_response q = None"
    and "m_rdm_request_pending q \<and> sent n m q \<or> discovering n m q \<or> nothing n m q"
  shows "settled n m q'"
  using assms(1)
proof (cases rule: TakeNextAction_cases)
  case unchanged
  with assms(2,3) show ?thesis by (auto simp: state_defs)
next
  case discovery
  with assms(2,3) show ?thesis
    by (auto simp: state_defs StartRDMDiscovery_def gather_callbacks_eq)
next
  case (dispatch request cb rest copy)
  with assms(2,3) show ?thesis by (auto simp: state_defs)
qed

lemma settled_states:
  "settled n m q \<Longrightarrow> m_rdm_request_pending q \<and> sent n m q \<or> discovering n m q \<or> nothing n m q"
  by (auto simp: settled_def)

lemma settled_send:
  assumes "TakeNextAction (emit (Accepted cb)
      (q\<lparr>m_pending_requests := m_pending_requests q @ [(r, cb)]\<rparr>)) = Some q'" and "settled n m q"
  shows "settled n m q'"
  using assms(1)
  by (rule TakeNextAction_settles)
    (use assms(2) settled_states [OF assms(2)] in \<open>auto simp: settled_def sent_def discovering_def nothing_def\<close>)

lemma settled_discover:
  assumes "GenericDiscovery cb full q = Some q'" and "settled n m q"
  shows "settled n m q'"
  using assms(1) unfolding GenericDiscovery_def
  by (rule TakeNextAction_settles)
    (use assms(2) settled_states [OF assms(2)] in \<open>auto simp: settled_def sent_def discovering_def nothing_def\<close>)

lemma settled_Pause: "settled n m q \<Longrightarrow> settled n m (Pause q)"
  by (auto simp: state_defs Pause_def)

lemma settled_Refused: "settled n m q \<Longrightarrow> settled n m (emit (Refused i) q)"
  by (auto simp: state_defs)

lemma settled_calls:
  assumes "\<forall>c \<in> set calls. call_tame True c" and "run_calls calls q = Some q'"
  shows "settled n m q \<longrightarrow> settled n m q'"
  by (rule calls_rel(2) [OF _ _ _ _ _ _ _ _ assms, where R = "\<lambda>q q'. settled n m q \<longrightarrow> settled n m q'"])
    (auto intro: settled_send settled_discover settled_Pause settled_Refused call_tame_mono)

lemma callbacks_tame_updates [simp]:
  "callbacks_tame (emit out q) = callbacks_tame q" "callbacks_tame (Pause q) = callbacks_tame q"
  "callbacks_tame (q\<lparr>m_active := b\<rparr>) = callbacks_tame q"
  "callbacks_tame (q\<lparr>m_rdm_request_pending := b\<rparr>) = callbacks_tame q"
  "callbacks_tame (q\<lparr>m_pending_requests := m_pending_requests q @ [(r, cb)]\<rparr>) \<longleftrightarrow>
    callbacks_tame q \<and> cb_tame False cb"
  "is_discoverable q \<Longrightarrow>
    callbacks_tame (q\<lparr>m_pending_discovery_callbacks := m_pending_discovery_callbacks q @ [(full, cb)]\<rparr>) \<longleftrightarrow>
    callbacks_tame q \<and> cb_tame True cb"
  by (auto simp: callbacks_tame_def Pause_def)

lemma TakeNextAction_tame: "TakeNextAction q = Some q' \<Longrightarrow> callbacks_tame q \<Longrightarrow> callbacks_tame q'"
  by (erule TakeNextAction_cases) (auto simp: callbacks_tame_def StartRDMDiscovery_def gather_callbacks_eq)

lemma tame_calls:
  assumes "\<forall>c \<in> set calls. call_tame True c" and "run_calls calls q = Some q'"
  shows "callbacks_tame q \<longrightarrow> callbacks_tame q'"
  by (rule calls_rel(2) [OF _ _ _ _ _ _ _ _ assms, where R = "\<lambda>q q'. callbacks_tame q \<longrightarrow> callbacks_tame q'"])
    (auto simp: GenericDiscovery_def dest: TakeNextAction_tame intro: call_tame_mono)

text \<open>The callback of a request runs when nothing is with the driver; it can only start a discovery.\<close>

lemma request_callback_states:
  assumes "\<forall>c \<in> set calls. call_tame False c" and "run_calls calls q = Some q'"
  shows "nothing n m q \<or> discovering n m q \<longrightarrow> nothing n m q' \<or> discovering n m q'"
proof (rule calls_rel(2) [OF _ _ _ _ _ _ _ _ assms,
      where R = "\<lambda>q q'. nothing n m q \<or> discovering n m q \<longrightarrow> nothing n m q' \<or> discovering n m q'"])
  fix full cb q q'
  assume "GenericDiscovery cb full q = Some q'" and d: "is_discoverable q"
  then have "TakeNextAction (emit (DiscoveryAccepted cb)
      (q\<lparr>m_pending_discovery_callbacks := m_pending_discovery_callbacks q @ [(full, cb)]\<rparr>)) = Some q'"
    by (simp add: GenericDiscovery_def)
  then show "nothing n m q \<or> discovering n m q \<longrightarrow> nothing n m q' \<or> discovering n m q'"
    by (cases rule: TakeNextAction_cases)
      (use d in \<open>auto simp: nothing_def discovering_def StartRDMDiscovery_def gather_callbacks_eq\<close>)
qed (auto simp: nothing_def discovering_def Pause_def)

text \<open>The callbacks of a discovery run while the list of them still blocks every other action.\<close>

lemma discovery_callback_states:
  assumes "\<forall>c \<in> set calls. call_tame True c" and "run_calls calls q = Some q'"
  shows "discovering n m q \<longrightarrow> discovering n m q'"
proof (rule calls_rel(2) [OF _ _ _ _ _ _ _ _ assms, where R = "\<lambda>q q'. discovering n m q \<longrightarrow> discovering n m q'"])
  fix r cb q q'
  assume "TakeNextAction (emit (Accepted cb) (q\<lparr>m_pending_requests := m_pending_requests q @ [(r, cb)]\<rparr>)) = Some q'"
  then show "discovering n m q \<longrightarrow> discovering n m q'"
    by (cases rule: TakeNextAction_cases) (auto simp: discovering_def)
next
  fix full cb q q'
  assume "GenericDiscovery cb full q = Some q'"
  then have "TakeNextAction (emit (DiscoveryAccepted cb)
      (q\<lparr>m_pending_discovery_callbacks := m_pending_discovery_callbacks q @ [(full, cb)]\<rparr>)) = Some q'"
    by (simp add: GenericDiscovery_def)
  then show "discovering n m q \<longrightarrow> discovering n m q'"
    by (cases rule: TakeNextAction_cases) (auto simp: discovering_def)
qed (auto simp: discovering_def Pause_def intro: call_tame_mono)

lemma run_callback_keeps:
  assumes run: "run_callback cb out q = Some q'" and cb: "cb_tame sends cb"
  shows "callbacks_tame q \<longrightarrow> callbacks_tame q'" and "m_response q' = m_response q"
    and "\<exists>xs. m_pending_requests q' = m_pending_requests q @ xs"
proof -
  show "callbacks_tame q \<longrightarrow> callbacks_tame q'"
    using run
  proof (cases rule: run_callback_cases)
    case (some i calls)
    with cb have "\<forall>c \<in> set calls. call_tame True c" by (cases sends) (auto intro: call_tame_mono)
    from tame_calls [OF this some(2)] show ?thesis by simp
  qed simp
  obtain q0 xs ys where g: "grows xs ys q0 q'"
    and q0: "q0 = (case cb of None \<Rightarrow> q | Some (OnComplete i _) \<Rightarrow> emit (out i) q)"
    using run by (rule run_callback_grows) (rule that)
  from q0 have "m_response q0 = m_response q" "m_pending_requests q0 = m_pending_requests q"
    by (cases cb rule: cb_id.cases; simp)+
  with g show "m_response q' = m_response q" "\<exists>xs. m_pending_requests q' = m_pending_requests q @ xs"
    by (simp_all add: grows_def)
qed

lemma drop_eq_single: "drop n xs = [x] \<Longrightarrow> length xs = Suc n"
  by (drule arg_cong [where f = length]) simp

lemma HandleRDMResponse_states:
  assumes handle: "HandleRDMResponse status response packets q = Some q'" and sent: "sent n m q"
    and tame: "callbacks_tame q"
  shows "(settled (Suc n) m q' \<or> overflow (Suc n) m q') \<and> callbacks_tame q'"
proof -
  obtain copy where copy: "drop n (dispatched (trace q)) = [copy]" using sent by (auto simp: sent_def)
  then have len: "length (dispatched (trace q)) = Suc n"
    by (rule drop_eq_single)
  from handle show ?thesis
  proof (cases rule: HandleRDMResponse_cases)
    case empty
    with sent show ?thesis by (simp add: sent_def)
  next
    case (again request cb rest r copy')
    with sent len tame show ?thesis by (simp add: overflow_def sent_def callbacks_tame_def)
  next
    case (finished request cb rest status' r q1 q2)
    have cb: "cb_tame False cb" using tame finished(1) by (simp add: callbacks_tame_def)
    have q1: "nothing (Suc n) m q1" "callbacks_tame q1"
      using finished(2) sent len tame by (simp_all add: nothing_def sent_def callbacks_tame_def)
    note keeps = run_callback_keeps [OF finished(3) cb]
    have q2: "nothing (Suc n) m q2 \<or> discovering (Suc n) m q2"
      using finished(3)
    proof (cases rule: run_callback_cases)
      case none
      with q1 show ?thesis by simp
    next
      case (some i calls)
      with cb have "\<forall>c \<in> set calls. call_tame False c" by simp
      from request_callback_states [OF this some(2), of "Suc n" m] q1 show ?thesis
        by (simp add: nothing_def)
    qed
    let ?q3 = "q2\<lparr>m_packets := [], m_response := None, m_pending_requests := tl (m_pending_requests q2)\<rparr>"
    have "callbacks_tame q2" using keeps(1) q1(2) by simp
    then have "callbacks_tame ?q3"
      by (cases "m_pending_requests q2") (simp_all add: callbacks_tame_def)
    moreover have "settled (Suc n) m q'"
      by (rule TakeNextAction_settles [OF finished(4)]) (use q2 in \<open>auto simp: nothing_def discovering_def\<close>)
    ultimately show ?thesis using TakeNextAction_tame [OF finished(4)] by simp
  qed
qed

lemma run_discovery_callbacks_states:
  assumes "run_discovery_callbacks cbs uids q = Some q'" and "\<forall>cb \<in> set cbs. cb_tame True cb"
  shows "discovering n m q \<and> callbacks_tame q \<and> m_response q = None \<longrightarrow>
    discovering n m q' \<and> callbacks_tame q' \<and> m_response q' = None"
  using assms
proof (induction cbs arbitrary: q)
  case (Cons cb cbs)
  from Cons.prems(1) obtain q1 where q1: "run_callback cb (\<lambda>i. DiscoveryDone i uids) q = Some q1"
    and rest: "run_discovery_callbacks cbs uids q1 = Some q'"
    by (auto simp: bind_eq_Some_conv)
  from Cons.prems(2) have cb: "cb_tame True cb" by simp
  have "discovering n m q \<longrightarrow> discovering n m q1"
    using q1
  proof (cases rule: run_callback_cases)
    case (some i calls)
    with cb have "\<forall>c \<in> set calls. call_tame True c" by simp
    from discovery_callback_states [OF this some(2), of n m] show ?thesis by (simp add: discovering_def)
  qed simp
  with run_callback_keeps [OF q1 cb] Cons.IH [OF rest] Cons.prems(2) show ?case by simp
qed simp

lemma DiscoveryComplete_states:
  assumes complete: "DiscoveryComplete uids q = Some q'" and q: "discovering n m q" "m_response q = None"
    and tame: "callbacks_tame q"
  shows "settled n (Suc m) q' \<and> callbacks_tame q'"
proof -
  obtain q1 where run: "run_discovery_callbacks (m_discovery_callbacks q) uids q = Some q1"
    and next_action: "TakeNextAction (q1\<lparr>m_discovery_callbacks := []\<rparr>) = Some q'"
    using complete by (auto simp: DiscoveryComplete_def bind_eq_Some_conv)
  have "\<forall>cb \<in> set (m_discovery_callbacks q). cb_tame True cb" using tame by (simp add: callbacks_tame_def)
  from run_discovery_callbacks_states [OF run this, of n m] q tame
  have q1: "discovering n m q1" "callbacks_tame q1" "m_response q1 = None" by simp_all
  have "settled n (Suc m) q'"
    by (rule TakeNextAction_settles [OF next_action]) (use q1 in \<open>simp_all add: discovering_def nothing_def\<close>)
  moreover have "callbacks_tame q'"
    by (rule TakeNextAction_tame [OF next_action]) (use q1 in \<open>simp add: callbacks_tame_def\<close>)
  ultimately show ?thesis by simp
qed

definition ctl_inv :: "driven \<Rightarrow> bool" where
  "ctl_inv s \<longleftrightarrow> callbacks_tame (ctl s) \<and>
     (settled (answered s) (discovered s) (ctl s) \<or> overflow (answered s) (discovered s) (ctl s))"

lemma settled_Resume:
  assumes "Resume q = Some q'" and "nothing n m q" and "m_response q = None"
    and "m_pending_requests q \<noteq> [] \<or> m_pending_discovery_callbacks q = []"
  shows "settled n m q'"
  using assms
  by (auto simp: Resume_def MaybeSendRDMRequest_def state_defs elim!: DispatchNextRequest_cases split: if_splits)

lemma client_inv:
  assumes inv: "ctl_inv s" and careful: "careful s (Client c)" and run: "run_calls [c] (ctl s) = Some q'"
  shows "ctl_inv (s\<lparr>ctl := q'\<rparr>)"
proof (cases "call_tame True c \<and> m_response (ctl s) = None")
  case True
  then have "\<forall>c' \<in> set [c]. call_tame True c'" by simp
  from settled_calls [OF this run, of "answered s" "discovered s"] tame_calls [OF this run] inv True
  show ?thesis by (auto simp: ctl_inv_def overflow_def)
next
  case other: False
  show ?thesis
  proof (cases c)
    case ResumeCall
    with run have resume: "Resume (ctl s) = Some q'" by (auto split: option.splits)
    have "nothing (answered s) (discovered s) (ctl s)" "m_response (ctl s) = None"
      using inv careful ResumeCall by (auto simp: ctl_inv_def state_defs in_flight_def discoveries_def)
    from settled_Resume [OF resume this] have "settled (answered s) (discovered s) q'"
      using careful ResumeCall by simp
    moreover have "callbacks_tame q'"
      using resume inv
      by (auto simp: Resume_def MaybeSendRDMRequest_def ctl_inv_def
          elim!: DispatchNextRequest_cases split: if_splits)
    ultimately show ?thesis by (simp add: ctl_inv_def)
  next
    case PauseCall
    with run have "q' = Pause (ctl s)" by simp
    with inv show ?thesis
      by (auto simp: ctl_inv_def intro: settled_Pause) (auto simp: overflow_def sent_def Pause_def)
  qed (use other careful in simp_all)
qed

lemma ctl_inv_step:
  assumes inv: "ctl_inv s" and "careful s e" and step: "ctl_step e s = Some s'"
  shows "ctl_inv s'"
  using step
proof (cases rule: ctl_step_cases)
  case (client c q')
  with assms client_inv show ?thesis by simp
next
  case (answer status response packets q')
  from answer(2) inv have "sent (answered s) (discovered s) (ctl s)"
    by (auto simp: ctl_inv_def settled_def overflow_def discovering_def nothing_def in_flight_def)
  with HandleRDMResponse_states [OF answer(3)] inv answer(4) show ?thesis
    by (simp add: ctl_inv_def)
next
  case (discovery uids q')
  from discovery(2) inv have "discovering (answered s) (discovered s) (ctl s)" "m_response (ctl s) = None"
    by (auto simp: ctl_inv_def settled_def overflow_def sent_def nothing_def discoveries_def)
  with DiscoveryComplete_states [OF discovery(3)] inv discovery(4) show ?thesis
    by (simp add: ctl_inv_def)
qed

lemma ctl_reach_inv:
  assumes "ctl_reach d n s"
  shows "ctl_inv s \<and> requests_conserved (ctl s) \<and> discoveries_conserved (ctl s)"
  using assms
proof (induction rule: ctl_reach.induct)
  case start
  show ?case
    by (simp add: ctl_inv_def new_driven_def new_QueueingRDMController_def state_defs callbacks_tame_def conserved_defs)
next
  case (event s e s')
  then show ?case
    using ctl_inv_step [of s e s'] requests.step_conserves [OF event(3)] discovery_calls.step_conserves [OF event(3)]
    by (simp add: requests_conserved_def discoveries_conserved_def)
qed

text \<open>C6: Used with care, the controller gives its driver one thing at a time and loses nothing: in every reachable
  state at most one request or one discovery is with the driver; the request is the one at the front of the queue,
  whose callback the answer will reach; and when nothing is with the driver and the
  controller is active, no request and no discovery call waits. The care is this: the driver answers after the operation
  that called it has returned; the clients start no request and no discovery while parts of an overflowed response have
  been received and others are missing; the callback of a request sends no request (that of a discovery may), and no
  callback resumes the controller; and \<open>Resume\<close> is called only when nothing is with the driver, and not when discovery calls wait
  and no request does.\<close>

theorem one_action_at_a_time:
  assumes "ctl_reach d n s"
  shows "length (in_flight s) + length (discoveries s) \<le> 1 \<and>
    (\<forall>r \<in> set (in_flight s). \<exists>request cb rest. m_pending_requests (ctl s) = (request, cb) # rest \<and>
        Duplicate request = Some r) \<and>
    (in_flight s = [] \<and> discoveries s = [] \<and> m_active (ctl s) \<longrightarrow> queues_empty (ctl s))"
proof -
  let ?q = "ctl s" and ?n = "answered s" and ?m = "discovered s"
  consider "sent ?n ?m ?q" | "discovering ?n ?m ?q"
    | "nothing ?n ?m ?q" "m_active ?q \<longrightarrow> queues_empty ?q"
    using ctl_reach_inv [OF assms] by (auto simp: ctl_inv_def settled_def overflow_def)
  then show ?thesis
  proof cases
    case 1
    obtain request cb rest where front: "m_pending_requests ?q = (request, cb) # rest"
      using 1 by (cases "m_pending_requests ?q") (auto simp: sent_def)
    with 1 obtain copy where "Duplicate request = Some copy" and "in_flight s = [copy]"
      by (auto simp: sent_def in_flight_def)
    with 1 front show ?thesis by (simp add: sent_def discoveries_def)
  next
    case 2
    then show ?thesis by (auto simp: discovering_def in_flight_def discoveries_def)
  next
    case 3
    then show ?thesis by (auto simp: nothing_def in_flight_def discoveries_def)
  qed
qed

section \<open>The queues run empty\<close>

text \<open>A driver that keeps answering: it ends a discovery with \<open>uids\<close>, or a request with the given answer.\<close>

type_synonym driver_answer = "rdm_response_code \<times> rdm_command option \<times> bytes list \<times> uid_set"

fun serve :: "driver_answer \<Rightarrow> driven \<Rightarrow> driven option" where
  "serve (status, response, packets, uids) s =
     ctl_step (if discoveries s \<noteq> [] then Discovered uids else Answer status response packets) s"

text \<open>An answer that ends the request, and callbacks that make no calls.\<close>

fun final_answer :: "driver_answer \<Rightarrow> bool" where
  "final_answer (status, response, packets, uids) \<longleftrightarrow>
     (case response of None \<Rightarrow> True
      | Some r \<Rightarrow> cmd_ok r \<and> (status = RDM_COMPLETED_OK \<longrightarrow> m_port_id r \<noteq> ACK_OVERFLOW))"

fun cb_silent :: "on_complete option \<Rightarrow> bool" where
  "cb_silent None \<longleftrightarrow> True"
| "cb_silent (Some (OnComplete i calls)) \<longleftrightarrow> calls = []"

definition callbacks_silent :: "queueing \<Rightarrow> bool" where
  "callbacks_silent q \<longleftrightarrow> (\<forall>x \<in> set (m_pending_requests q). cb_silent (snd x)) \<and>
     (\<forall>cb \<in> set (m_discovery_callbacks q @ map snd (m_pending_discovery_callbacks q)). cb_silent cb)"

definition backlog :: "queueing \<Rightarrow> nat" where
  "backlog q = length (m_pending_requests q) + (if m_discovery_callbacks q = [] then 0 else 1) +
     (if m_pending_discovery_callbacks q = [] then 0 else 1)"

lemma run_callback_silent:
  assumes "cb_silent cb"
  shows "run_callback cb out q = Some (case cb of None \<Rightarrow> q | Some (OnComplete i _) \<Rightarrow> emit (out i) q)"
  using assms by (cases cb rule: cb_id.cases) simp_all

lemma run_discovery_callbacks_silent:
  assumes "\<forall>cb \<in> set cbs. cb_silent cb"
  shows "\<exists>outs. run_discovery_callbacks cbs uids q = Some (q\<lparr>trace := trace q @ outs\<rparr>)"
  using assms
proof (induction cbs arbitrary: q)
  case Nil
  show ?case by (simp add: exI [of _ "[]"])
next
  case (Cons cb cbs)
  show ?case
  proof (cases cb rule: cb_id.cases)
    case 1
    with Cons show ?thesis by simp
  next
    case (2 i calls)
    obtain outs where "run_discovery_callbacks cbs uids (emit (DiscoveryDone i uids) q) =
        Some ((emit (DiscoveryDone i uids) q)\<lparr>trace := trace (emit (DiscoveryDone i uids) q) @ outs\<rparr>)"
      using Cons by fastforce
    with 2 Cons.prems show ?thesis
      by (intro exI [of _ "DiscoveryDone i uids # outs"]) (simp add: emit_def)
  qed
qed

lemma TakeNextAction_backlog:
  assumes "TakeNextAction q = Some q'"
  shows "backlog q' = backlog q" "m_active q' = m_active q" "callbacks_silent q' = callbacks_silent q"
    "is_discoverable q' = is_discoverable q"
  using assms
  by (cases rule: TakeNextAction_cases;
      auto simp: backlog_def callbacks_silent_def StartRDMDiscovery_def gather_callbacks_eq)+

text \<open>Each answer takes one off the backlog.\<close>

lemma answer_backlog:
  assumes handle: "HandleRDMResponse status response packets q = Some q'" and silent: "callbacks_silent q"
    and final: "final_answer (status, response, packets, uids)" and nonempty: "m_pending_requests q \<noteq> []"
  shows "Suc (backlog q') = backlog q \<and> m_active q' = m_active q \<and> callbacks_silent q'"
  using handle
proof (cases rule: HandleRDMResponse_cases)
  case empty
  with nonempty show ?thesis by simp
next
  case (again request cb rest r copy)
  with final show ?thesis by auto
next
  case (finished request cb rest status' r q1 q2)
  have "cb_silent cb" using silent finished(1) by (simp add: callbacks_silent_def)
  from finished(3) [unfolded run_callback_silent [OF this]]
  have q2: "q2 = (case cb of None \<Rightarrow> q1 | Some (OnComplete i _) \<Rightarrow>
      emit (Completed i status' r (m_packets q @ packets)) q1)" by simp
  let ?q3 = "q2\<lparr>m_packets := [], m_response := None, m_pending_requests := tl (m_pending_requests q2)\<rparr>"
  have q3: "Suc (backlog ?q3) = backlog q" "m_active ?q3 = m_active q" "callbacks_silent ?q3"
    using q2 finished(1,2) silent
    by (cases cb rule: cb_id.cases; simp add: backlog_def callbacks_silent_def)+
  with TakeNextAction_backlog [OF finished(4)] show ?thesis by simp
qed

lemma discovery_backlog:
  assumes complete: "DiscoveryComplete uids q = Some q'" and silent: "callbacks_silent q"
    and nonempty: "m_discovery_callbacks q \<noteq> []"
  shows "Suc (backlog q') = backlog q \<and> m_active q' = m_active q \<and> callbacks_silent q'"
proof -
  have "\<forall>cb \<in> set (m_discovery_callbacks q). cb_silent cb" using silent by (simp add: callbacks_silent_def)
  from run_discovery_callbacks_silent [OF this, of uids q] obtain outs where
    "run_discovery_callbacks (m_discovery_callbacks q) uids q = Some (q\<lparr>trace := trace q @ outs\<rparr>)"
    by (elim exE)
  with complete have "TakeNextAction (q\<lparr>trace := trace q @ outs, m_discovery_callbacks := []\<rparr>) = Some q'"
    by (simp add: DiscoveryComplete_def)
  from TakeNextAction_backlog [OF this] show ?thesis
    using silent nonempty by (simp add: backlog_def callbacks_silent_def)
qed

lemma backlog_at_driver:
  assumes inv: "ctl_inv s" and "m_active (ctl s)" and "backlog (ctl s) > 0"
  shows "discoveries s \<noteq> [] \<and> m_discovery_callbacks (ctl s) \<noteq> [] \<or>
    discoveries s = [] \<and> in_flight s \<noteq> [] \<and> m_pending_requests (ctl s) \<noteq> []"
proof -
  let ?q = "ctl s" and ?n = "answered s" and ?m = "discovered s"
  have "\<not> (nothing ?n ?m ?q \<and> queues_empty ?q)"
    using inv assms(3) by (auto simp: nothing_def queues_empty_def backlog_def ctl_inv_def callbacks_tame_def
        split: if_splits)
  with inv assms(2) consider "sent ?n ?m ?q" | "discovering ?n ?m ?q"
    by (auto simp: ctl_inv_def settled_def overflow_def)
  then show ?thesis
    by cases (auto simp: sent_def discovering_def in_flight_def discoveries_def)
qed

lemma serve_step:
  assumes inv: "ctl_inv s" and wf: "queue_wf d (ctl s)" and active: "m_active (ctl s)"
    and silent: "callbacks_silent (ctl s)" and answer: "final_answer a" and k: "backlog (ctl s) = Suc k"
  obtains s' where "serve a s = Some s'" and "ctl_inv s'" and "queue_wf d (ctl s')" and "m_active (ctl s')"
    and "callbacks_silent (ctl s')" and "backlog (ctl s') = k"
    and "requests_conserved (ctl s) \<and> discoveries_conserved (ctl s) \<longrightarrow>
      requests_conserved (ctl s') \<and> discoveries_conserved (ctl s')"
proof -
  obtain status response packets uids where a: "a = (status, response, packets, uids)"
    by (cases a)
  let ?e = "if discoveries s \<noteq> [] then Discovered uids else Answer status response packets"
  from k have "backlog (ctl s) > 0" by simp
  note driver = backlog_at_driver [OF inv active this]
  have "event_wf d ?e" "enabled ?e s" using answer driver a by (auto split: option.splits)
  from ctl_step_wf [OF this wf] obtain s' where s': "ctl_step ?e s = Some s'" "queue_wf d (ctl s')"
    by (elim exE conjE)
  have "Suc (backlog (ctl s')) = backlog (ctl s) \<and> m_active (ctl s') = m_active (ctl s) \<and> callbacks_silent (ctl s')"
    using s'(1)
  proof (cases rule: ctl_step_cases)
    case (client c q')
    then show ?thesis by (simp split: if_splits)
  next
    case (answer st r ps q')
    with a assms(5) driver silent show ?thesis
      by (auto split: if_splits dest!: answer_backlog [of st r ps "ctl s" q' uids])
  next
    case (discovery us q')
    with driver silent discovery_backlog [of us "ctl s" q'] show ?thesis by (auto split: if_splits)
  qed
  moreover have "ctl_inv s'" by (rule ctl_inv_step [OF inv _ s'(1)]) simp
  moreover have "requests_conserved (ctl s) \<and> discoveries_conserved (ctl s) \<longrightarrow>
      requests_conserved (ctl s') \<and> discoveries_conserved (ctl s')"
    using requests.step_conserves [OF s'(1)] discovery_calls.step_conserves [OF s'(1)]
    by (simp add: requests_conserved_def discoveries_conserved_def)
  ultimately show thesis using that s' a k active by simp
qed

lemma serve_all:
  assumes "ctl_inv s \<and> requests_conserved (ctl s) \<and> discoveries_conserved (ctl s)"
    and "queue_wf d (ctl s)" and "m_active (ctl s)" and "callbacks_silent (ctl s)"
    and "length answers = backlog (ctl s)" and "\<forall>a \<in> set answers. final_answer a"
  shows "\<exists>s'. run_steps serve answers s = Some s' \<and> ctl_inv s' \<and> backlog (ctl s') = 0 \<and>
      requests_conserved (ctl s') \<and> discoveries_conserved (ctl s')"
  using assms
proof (induction answers arbitrary: s)
  case (Cons a answers)
  obtain s1 where s1: "serve a s = Some s1" "ctl_inv s1" "queue_wf d (ctl s1)" "m_active (ctl s1)"
    "callbacks_silent (ctl s1)" "backlog (ctl s1) = length answers"
    and con: "requests_conserved (ctl s) \<and> discoveries_conserved (ctl s) \<longrightarrow>
      requests_conserved (ctl s1) \<and> discoveries_conserved (ctl s1)"
    by (rule serve_step [of s d a "length answers"]) (use Cons.prems in simp_all)
  have "\<exists>s'. run_steps serve answers s1 = Some s' \<and> ctl_inv s' \<and> backlog (ctl s') = 0 \<and>
      requests_conserved (ctl s') \<and> discoveries_conserved (ctl s')"
    by (rule Cons.IH) (use Cons.prems s1 con in simp_all)
  with s1(1) show ?case by simp
qed simp

text \<open>C14: Nothing waits for ever. In any state that careful use can reach, with well-formed commands, the controller
  active and callbacks that make no further calls, a driver that answers what it is given, after the operation that called
  it has returned and in whatever way but with an overflow, has
  the controller call every callback after as many answers as the backlog counts: one for each request, one
  for the discovery that is running and one for all the discovery calls in the queue.\<close>

theorem queues_drain:
  assumes "ctl_reach d n s" and "queue_wf d (ctl s)" and "m_active (ctl s)" and "callbacks_silent (ctl s)"
    and "length answers = backlog (ctl s)" and "\<forall>a \<in> set answers. final_answer a"
  shows "\<exists>s'. run_steps serve answers s = Some s' \<and> in_flight s' = [] \<and> discoveries s' = [] \<and>
    completed_ids (trace (ctl s')) = accepted_ids (trace (ctl s')) \<and>
    discovery_done_ids (trace (ctl s')) = discovery_accepted_ids (trace (ctl s'))"
proof -
  obtain s' where s': "run_steps serve answers s = Some s'" "ctl_inv s'" "backlog (ctl s') = 0"
    "requests_conserved (ctl s')" "discoveries_conserved (ctl s')"
    using serve_all [OF _ assms(2-6)] ctl_reach_inv [OF assms(1)] by blast
  then have "nothing (answered s') (discovered s') (ctl s')"
    by (auto simp: ctl_inv_def settled_def overflow_def sent_def discovering_def backlog_def split: if_splits)
  then show ?thesis
    using s' by (intro exI [of _ s']) (auto simp: nothing_def in_flight_def discoveries_def conserved_defs backlog_def
        split: if_splits)
qed

section \<open>Examples\<close>

definition other_request :: rdm_command where
  "other_request = sample_request\<lparr>m_param_id := 0x80\<rparr>"

definition sample_response :: "u8 \<Rightarrow> rdm_command" where
  "sample_response type = sample_request\<lparr>m_source := UID 0x7a70 2, m_destination := UID 0x7a70 1,
     m_port_id := type, m_command_class := GET_COMMAND_RESPONSE\<rparr>"

lemma sample_ok [simp]: "cmd_ok sample_request" "cmd_ok other_request" "cmd_ok (sample_response type)"
  by (simp_all add: sample_request_def other_request_def sample_response_def cmd_ok_def)

lemma Duplicate_other [simp]: "Duplicate other_request = Some other_request"
  by (rule Duplicate_ok) simp

text \<open>Two requests and a discovery are queued behind each other.\<close>

definition busy_driven :: driven where
  "busy_driven = the (run_steps ctl_step
     [Client (SendCall sample_request (Some (OnComplete 1 []))),
      Client (SendCall other_request (Some (OnComplete 2 []))),
      Client (DiscoverCall True (Some (OnComplete 3 [])))] (new_driven True 5))"

lemma busy_driven_eq:
  "busy_driven = \<lparr>ctl = \<lparr>is_discoverable = True, m_max_queue_size = 5,
      m_pending_requests = [(sample_request, Some (OnComplete 1 [])), (other_request, Some (OnComplete 2 []))],
      m_rdm_request_pending = True, m_active = True, m_response = None, m_packets = [],
      m_discovery_callbacks = [], m_pending_discovery_callbacks = [(True, Some (OnComplete 3 []))],
      trace = [Accepted (Some (OnComplete 1 [])), Dispatched sample_request, Accepted (Some (OnComplete 2 [])),
        DiscoveryAccepted (Some (OnComplete 3 []))]\<rparr>, answered = 0, discovered = 0\<rparr>"
  by (simp add: busy_driven_def ctl_eval)

lemma busy_driven_reach: "ctl_reach True 5 busy_driven"
proof -
  let ?e1 = "Client (SendCall sample_request (Some (OnComplete 1 [])))"
    and ?e2 = "Client (SendCall other_request (Some (OnComplete 2 [])))"
    and ?e3 = "Client (DiscoverCall True (Some (OnComplete 3 [])))"
  obtain s1 where s1: "ctl_step ?e1 (new_driven True 5) = Some s1" "m_response (ctl s1) = None"
    by (simp add: ctl_eval)
  obtain s2 where s2: "ctl_step ?e2 s1 = Some s2" "m_response (ctl s2) = None"
    using s1 by (auto simp: ctl_eval)
  have s3: "ctl_step ?e3 s2 = Some busy_driven"
    using s1 s2 by (auto simp: ctl_eval busy_driven_eq)
  have "ctl_reach True 5 s1" by (rule ctl_reach.event [OF ctl_reach.start _ s1(1)]) (simp add: ctl_eval)
  then have "ctl_reach True 5 s2" by (rule ctl_reach.event [OF _ _ s2(1)]) (simp add: s1(2))
  then show ?thesis by (rule ctl_reach.event [OF _ _ s3]) (simp add: s2(2))
qed

theorem controller_always_defined_witness:
  "\<exists>s s'. run_steps ctl_step reentrant_events (new_driven True 2) = Some s \<and>
     ctl_step (Discovered [UID 1 2]) s = Some s'"
proof -
  let ?e = "Discovered [UID 1 2]"
  let ?s = "the (run_steps ctl_step reentrant_events (new_driven True 2))"
  have run: "run_steps ctl_step reentrant_events (new_driven True 2) = Some ?s" and "enabled ?e ?s"
    by (simp_all add: reentrant_events_def ctl_eval)
  moreover have "\<forall>e \<in> set reentrant_events. event_wf True e" "event_wf True ?e"
    by (simp_all add: reentrant_events_def)
  ultimately have "\<exists>s'. ctl_step ?e ?s = Some s'"
    by (intro controller_always_defined [OF run])
  with run show ?thesis by blast
qed

theorem one_action_at_a_time_witness:
  "in_flight busy_driven = [sample_request] \<and> length (discoveries busy_driven) = 0"
  using one_action_at_a_time [OF busy_driven_reach]
  by (simp add: busy_driven_eq in_flight_def discoveries_def)

theorem queues_drain_witness:
  "\<exists>s. run_steps serve [(RDM_TIMEOUT, None, [], []), (RDM_COMPLETED_OK, None, [], [UID 1 2]),
       (RDM_COMPLETED_OK, Some (sample_response RDM_ACK), [], [])] busy_driven = Some s \<and> in_flight s = [] \<and>
     completed_ids (trace (ctl s)) = accepted_ids (trace (ctl s)) \<and>
     discovery_done_ids (trace (ctl s)) = discovery_accepted_ids (trace (ctl s))"
    (is "\<exists>s. run_steps serve ?answers _ = _ \<and> _")
proof -
  have "queue_wf True (ctl busy_driven)" "m_active (ctl busy_driven)" "callbacks_silent (ctl busy_driven)"
    by (simp_all add: busy_driven_eq queue_wf_def callbacks_silent_def)
  moreover have "length ?answers = backlog (ctl busy_driven)" by (simp add: busy_driven_eq backlog_def)
  moreover have "\<forall>a \<in> set ?answers. final_answer a" by (simp add: rdm_consts sample_response_def [of 0] cmd_ok_def sample_request_def)
  ultimately have "\<exists>s. run_steps serve ?answers busy_driven = Some s \<and> in_flight s = [] \<and> discoveries s = [] \<and>
      completed_ids (trace (ctl s)) = accepted_ids (trace (ctl s)) \<and>
      discovery_done_ids (trace (ctl s)) = discovery_accepted_ids (trace (ctl s))"
    by (rule queues_drain [OF busy_driven_reach])
  then show ?thesis by (elim exE conjE) (intro exI conjI)
qed

text \<open>Four uses without the care.\<close>

definition overflow_events :: "ctl_event list" where
  "overflow_events =
     [Client (SendCall sample_request (Some (OnComplete 1 []))),
      Answer RDM_COMPLETED_OK (Some (sample_response ACK_OVERFLOW)) [],
      Client (SendCall other_request (Some (OnComplete 2 []))),
      Answer RDM_COMPLETED_OK (Some (sample_response RDM_ACK)) [],
      Answer RDM_COMPLETED_OK (Some (sample_response RDM_ACK)) []]"

definition reentrant_send_events :: "ctl_event list" where
  "reentrant_send_events =
     [Client (SendCall sample_request (Some (OnComplete 1 [SendCall other_request (Some (OnComplete 2 []))]))),
      Answer RDM_COMPLETED_OK (Some (sample_response RDM_ACK)) [],
      Answer RDM_COMPLETED_OK (Some (sample_response RDM_ACK)) []]"

definition resume_events :: "ctl_event list" where
  "resume_events =
     [Client (SendCall sample_request (Some (OnComplete 1 []))), Client PauseCall, Client ResumeCall]"

definition paused_discovery_events :: "ctl_event list" where
  "paused_discovery_events =
     [Client PauseCall, Client (DiscoverCall True (Some (OnComplete 1 []))), Client ResumeCall]"

text \<open>What the care is for. A request that is sent while the overflowed response to another is collected has the
  first one sent again, and its own callback gets the response to the first one. The same happens when a
  callback of a request sends another request. \<open>Resume\<close> sends a request that is already with the driver a second
  time. A discovery that is called for while the controller is paused is not started by \<open>Resume\<close>.\<close>

theorem careless_use:
  "(\<exists>s. run_steps ctl_step overflow_events (new_driven False 5) = Some s \<and>
      dispatched (trace (ctl s)) = [sample_request, sample_request, sample_request, other_request] \<and>
      answered s = 3 \<and> Completed 2 RDM_COMPLETED_OK (Some (sample_response RDM_ACK)) [] \<in> set (trace (ctl s))) \<and>
   (\<exists>s. run_steps ctl_step reentrant_send_events (new_driven False 5) = Some s \<and>
      dispatched (trace (ctl s)) = [sample_request, sample_request] \<and>
      Completed 2 RDM_COMPLETED_OK (Some (sample_response RDM_ACK)) [] \<in> set (trace (ctl s))) \<and>
   (\<exists>s. run_steps ctl_step resume_events (new_driven False 5) = Some s \<and>
      in_flight s = [sample_request, sample_request]) \<and>
   (\<exists>s. run_steps ctl_step paused_discovery_events (new_driven True 5) = Some s \<and> m_active (ctl s) \<and>
      in_flight s = [] \<and> discoveries s = [] \<and> discovery_waiting_ids (ctl s) = [1])"
proof (intro conjI)
  have type: "m_port_id (sample_response t) = t" for t by (simp add: sample_response_def)
  obtain c where "CombineResponses (sample_response ACK_OVERFLOW) (sample_response RDM_ACK) = Some (Some c)"
    by (rule CombineResponses_ok [of "sample_response ACK_OVERFLOW" "sample_response RDM_ACK" GET_COMMAND_RESPONSE])
      (simp_all add: sample_response_def sample_request_def cmd_ok_def data_of_def)
  then show "\<exists>s. run_steps ctl_step overflow_events (new_driven False 5) = Some s \<and>
      dispatched (trace (ctl s)) = [sample_request, sample_request, sample_request, other_request] \<and>
      answered s = 3 \<and> Completed 2 RDM_COMPLETED_OK (Some (sample_response RDM_ACK)) [] \<in> set (trace (ctl s))"
    by (simp add: overflow_events_def ctl_eval type rdm_consts)
  show "\<exists>s. run_steps ctl_step reentrant_send_events (new_driven False 5) = Some s \<and>
      dispatched (trace (ctl s)) = [sample_request, sample_request] \<and>
      Completed 2 RDM_COMPLETED_OK (Some (sample_response RDM_ACK)) [] \<in> set (trace (ctl s))"
    by (simp add: reentrant_send_events_def ctl_eval type rdm_consts)
  show "\<exists>s. run_steps ctl_step resume_events (new_driven False 5) = Some s \<and>
      in_flight s = [sample_request, sample_request]"
    by (simp add: resume_events_def ctl_eval)
  show "\<exists>s. run_steps ctl_step paused_discovery_events (new_driven True 5) = Some s \<and> m_active (ctl s) \<and>
      in_flight s = [] \<and> discoveries s = [] \<and> discovery_waiting_ids (ctl s) = [1]"
    by (simp add: paused_discovery_events_def ctl_eval discovery_waiting_ids_def)
qed

text \<open>Why the driver has to answer after the operation that called it. A driver answers a request, its callback sends another
  request, and the driver answers that call before it returns: the state in which \<open>HandleRDMResponse\<close> runs the calls of the
  callback still has the first request at the front, so the first callback is run again.\<close>

lemma answer_inside_callback:
  fixes cb :: "on_complete option"
  defines "cb \<equiv> Some (OnComplete 1 [SendCall other_request (Some (OnComplete 2 []))])"
  shows "\<exists>s q q'. ctl_step (Client (SendCall sample_request cb)) (new_driven False 5) = Some s \<and>
    run_calls [SendCall other_request (Some (OnComplete 2 []))]
      (emit (Completed 1 RDM_TIMEOUT None []) (ctl s\<lparr>m_rdm_request_pending := False\<rparr>)) = Some q \<and>
    HandleRDMResponse RDM_TIMEOUT None [] q = Some q' \<and> completed_ids (trace q') = [1, 1]"
  by (simp add: cb_def ctl_eval rdm_consts)

end
