(* ===== verification/Clock.thy ===== *)
theory Clock
  imports String_Utils "HOL-Library.Signed_Division"
begin

text \<open>
  Times and intervals, \<^verbatim>\<open>include/ola/Clock.h\<close>: \<open>BaseTimeVal\<close> around a \<open>struct timeval\<close>, and its two
  wrappers \<open>TimeInterval\<close> and \<open>TimeStamp\<close>. The fields of a \<open>timeval\<close> are 64 bits wide on the modelled
  platform; they are integers here, so the model does not show an overflow of the seconds.
  Division and remainder by \<open>USEC_IN_SECONDS\<close> truncate towards zero, as in C++. The assignment
  operators compare the addresses of their operands, so they work on a store of times.
\<close>

section \<open>BaseTimeVal\<close>

definition USEC_IN_SECONDS :: int where
  "USEC_IN_SECONDS = 1000000"

definition ONE_THOUSAND :: int where
  "ONE_THOUSAND = 1000"

datatype timeval = Timeval (tv_sec: int) (tv_usec: int)

definition timerclear :: timeval where
  "timerclear = Timeval 0 0"

definition timerisset :: "timeval \<Rightarrow> bool" where
  "timerisset t \<longleftrightarrow> tv_sec t \<noteq> 0 \<or> tv_usec t \<noteq> 0"

text \<open>The macro \<open>timercmp(a, b, CMP)\<close> of the C library: the comparison is a parameter.\<close>

definition timercmp :: "timeval \<Rightarrow> timeval \<Rightarrow> (int \<Rightarrow> int \<Rightarrow> bool) \<Rightarrow> bool" where
  "timercmp a b CMP =
     (if tv_sec a = tv_sec b then CMP (tv_usec a) (tv_usec b) else CMP (tv_sec a) (tv_sec b))"

definition timeradd :: "timeval \<Rightarrow> timeval \<Rightarrow> timeval" where
  "timeradd a b =
     (let s = tv_sec a + tv_sec b; u = tv_usec a + tv_usec b
      in if u \<ge> 1000000 then Timeval (s + 1) (u - 1000000) else Timeval s u)"

definition TimerSub :: "timeval \<Rightarrow> timeval \<Rightarrow> timeval" where
  "TimerSub tv1 tv2 =
     (let s = tv_sec tv1 - tv_sec tv2; u = tv_usec tv1 - tv_usec tv2
      in if u < 0 then Timeval (s - 1) (u + USEC_IN_SECONDS) else Timeval s u)"

definition tv_Set :: "int \<Rightarrow> timeval" where
  "tv_Set interval_useconds =
     Timeval (interval_useconds sdiv USEC_IN_SECONDS) (interval_useconds smod USEC_IN_SECONDS)"

definition tv_eq :: "timeval \<Rightarrow> timeval \<Rightarrow> bool" where
  "tv_eq a b = timercmp a b (=)"

definition tv_neq :: "timeval \<Rightarrow> timeval \<Rightarrow> bool" where
  "tv_neq a b \<longleftrightarrow> \<not> tv_eq a b"

definition tv_gt :: "timeval \<Rightarrow> timeval \<Rightarrow> bool" where
  "tv_gt a b = timercmp a b (>)"

definition tv_ge :: "timeval \<Rightarrow> timeval \<Rightarrow> bool" where
  "tv_ge a b = timercmp a b (\<ge>)"

definition tv_lt :: "timeval \<Rightarrow> timeval \<Rightarrow> bool" where
  "tv_lt a b = timercmp a b (<)"

definition tv_le :: "timeval \<Rightarrow> timeval \<Rightarrow> bool" where
  "tv_le a b = timercmp a b (\<le>)"

text \<open>The assignment operators, on a store that maps the address of an object to its value:
  \<open>this\<close> and \<open>other\<close> are addresses, which may be the same.\<close>

type_synonym tv_store = "nat \<Rightarrow> timeval"

definition tv_assign :: "tv_store \<Rightarrow> nat \<Rightarrow> nat \<Rightarrow> tv_store" where
  "tv_assign st this other = (if this \<noteq> other then st(this := st other) else st)"

definition tv_add_assign :: "tv_store \<Rightarrow> nat \<Rightarrow> nat \<Rightarrow> tv_store" where
  "tv_add_assign st this other =
     (if this \<noteq> other then st(this := timeradd (st this) (st other)) else st)"

definition tv_sub_assign :: "tv_store \<Rightarrow> nat \<Rightarrow> nat \<Rightarrow> tv_store" where
  "tv_sub_assign st this other =
     (if this \<noteq> other then st(this := TimerSub (st this) (st other)) else st)"

text \<open>\<open>operator+\<close> copies its left operand to a new object, so \<open>+=\<close> never sees one object twice.\<close>

definition tv_plus :: "timeval \<Rightarrow> timeval \<Rightarrow> timeval" where
  "tv_plus a interval =
     (let st = (\<lambda>_. timerclear)(0 := a, 1 := interval) in tv_add_assign st 0 1 0)"

definition tv_minus :: "timeval \<Rightarrow> timeval \<Rightarrow> timeval" where
  "tv_minus a other = TimerSub a other"

definition tv_IsSet :: "timeval \<Rightarrow> bool" where
  "tv_IsSet t = timerisset t"

definition InMilliSeconds :: "timeval \<Rightarrow> int" where
  "InMilliSeconds t = tv_sec t * ONE_THOUSAND + tv_usec t sdiv ONE_THOUSAND"

definition AsInt :: "timeval \<Rightarrow> int" where
  "AsInt t = tv_sec t * USEC_IN_SECONDS + tv_usec t"

definition tv_times :: "timeval \<Rightarrow> nat \<Rightarrow> timeval" where
  "tv_times t i = tv_Set (AsInt t * int i)"

definition tv_ToString :: "timeval \<Rightarrow> string" where
  "tv_ToString t = IntToString (tv_sec t) @ ''.'' @ pad_zeros 6 (IntToString (tv_usec t))"

section \<open>TimeInterval and TimeStamp\<close>

datatype TimeInterval = TimeInterval (m_interval: timeval)

datatype TimeStamp = TimeStamp (m_tv: timeval)

definition interval_us :: "int \<Rightarrow> TimeInterval" where
  "interval_us usec = TimeInterval (tv_Set usec)"

definition interval_sec :: "int \<Rightarrow> int \<Rightarrow> TimeInterval" where
  "interval_sec sec usec = TimeInterval (Timeval sec usec)"

definition interval_gt :: "TimeInterval \<Rightarrow> TimeInterval \<Rightarrow> bool" where
  "interval_gt a b = tv_gt (m_interval a) (m_interval b)"

definition interval_lt :: "TimeInterval \<Rightarrow> TimeInterval \<Rightarrow> bool" where
  "interval_lt a b = tv_lt (m_interval a) (m_interval b)"

definition interval_times :: "TimeInterval \<Rightarrow> nat \<Rightarrow> TimeInterval" where
  "interval_times t i = TimeInterval (tv_times (m_interval t) i)"

definition stamp_lt :: "TimeStamp \<Rightarrow> TimeStamp \<Rightarrow> bool" where
  "stamp_lt a b = tv_lt (m_tv a) (m_tv b)"

definition stamp_gt :: "TimeStamp \<Rightarrow> TimeStamp \<Rightarrow> bool" where
  "stamp_gt a b = tv_gt (m_tv a) (m_tv b)"

definition stamp_plus :: "TimeStamp \<Rightarrow> TimeInterval \<Rightarrow> TimeStamp" where
  "stamp_plus t i = TimeStamp (tv_plus (m_tv t) (m_interval i))"

definition stamp_diff :: "TimeStamp \<Rightarrow> TimeStamp \<Rightarrow> TimeInterval" where
  "stamp_diff a b = TimeInterval (tv_minus (m_tv a) (m_tv b))"

definition stamp_minus :: "TimeStamp \<Rightarrow> TimeInterval \<Rightarrow> TimeStamp" where
  "stamp_minus t i = TimeStamp (tv_minus (m_tv t) (m_interval i))"

definition stamp_IsSet :: "TimeStamp \<Rightarrow> bool" where
  "stamp_IsSet t = tv_IsSet (m_tv t)"

section \<open>Times as microseconds\<close>

text \<open>A \<open>timeval\<close> is normalised when its microseconds are those of one second. \<open>gettimeofday\<close>
  returns such values and the arithmetic below keeps them so.\<close>

definition tv_norm :: "timeval \<Rightarrow> bool" where
  "tv_norm t \<longleftrightarrow> 0 \<le> tv_usec t \<and> tv_usec t < USEC_IN_SECONDS"

lemmas tv_defs = timercmp_def timeradd_def TimerSub_def tv_norm_def AsInt_def USEC_IN_SECONDS_def
  ONE_THOUSAND_def Let_def

lemma timeradd_AsInt:
  "tv_norm a \<Longrightarrow> tv_norm b \<Longrightarrow> tv_norm (timeradd a b) \<and> AsInt (timeradd a b) = AsInt a + AsInt b"
  by (auto simp: tv_defs algebra_simps)

lemma TimerSub_AsInt:
  "tv_norm a \<Longrightarrow> tv_norm b \<Longrightarrow> tv_norm (TimerSub a b) \<and> AsInt (TimerSub a b) = AsInt a - AsInt b"
  by (auto simp: tv_defs algebra_simps)

lemma AsInt_tv_Set: "AsInt (tv_Set n) = n"
  using signed_division_class.sdiv_mult_smod_eq [of n USEC_IN_SECONDS]
  by (simp add: AsInt_def tv_Set_def)

lemma tv_norm_tv_Set: "0 \<le> n \<Longrightarrow> tv_norm (tv_Set n)"
  by (simp add: tv_Set_def tv_norm_def USEC_IN_SECONDS_def signed_modulo_int_def sgn_if)

lemma timercmp_AsInt:
  assumes "tv_norm a" and "tv_norm b"
  shows "tv_lt a b \<longleftrightarrow> AsInt a < AsInt b" and "tv_gt a b \<longleftrightarrow> AsInt b < AsInt a"
    and "tv_le a b \<longleftrightarrow> AsInt a \<le> AsInt b" and "tv_ge a b \<longleftrightarrow> AsInt b \<le> AsInt a"
    and "tv_eq a b \<longleftrightarrow> AsInt a = AsInt b"
  using assms by (auto simp: tv_lt_def tv_gt_def tv_le_def tv_ge_def tv_eq_def tv_defs)

lemma tv_eq_eq: "tv_eq a b \<longleftrightarrow> a = b"
  by (auto simp: tv_eq_def timercmp_def intro: timeval.expand)

lemma AsInt_inj: "tv_norm a \<Longrightarrow> tv_norm b \<Longrightarrow> AsInt a = AsInt b \<Longrightarrow> a = b"
  using timercmp_AsInt(5) [of a b] by (simp add: tv_eq_eq)

lemma tv_plus_timeradd: "tv_plus a b = timeradd a b"
  by (simp add: tv_plus_def tv_add_assign_def)

text \<open>The order of the comparison operators is a linear order on times.\<close>

instantiation timeval :: linorder
begin

definition less_timeval :: "timeval \<Rightarrow> timeval \<Rightarrow> bool" where
  "less_timeval a b \<longleftrightarrow> tv_lt a b"

definition less_eq_timeval :: "timeval \<Rightarrow> timeval \<Rightarrow> bool" where
  "less_eq_timeval a b \<longleftrightarrow> tv_le a b"

instance
  by standard (auto simp: less_timeval_def less_eq_timeval_def tv_lt_def tv_le_def timercmp_def
    intro: timeval.expand split: if_splits)

end

section \<open>The properties\<close>

text \<open>On normalised times the operators of \<open>BaseTimeVal\<close> are those of the microsecond counts:
  addition and subtraction are exact and keep the times normalised, the six comparisons are the
  comparisons of the counts, multiplication scales the count, and the constructor from a
  count of microseconds is the inverse of \<open>AsInt\<close>.\<close>

theorem clock_arithmetic:
  assumes "tv_norm a" and "tv_norm b"
  shows "tv_norm (tv_plus a b) \<and> AsInt (tv_plus a b) = AsInt a + AsInt b \<and>
    tv_norm (tv_minus a b) \<and> AsInt (tv_minus a b) = AsInt a - AsInt b \<and>
    (tv_lt a b \<longleftrightarrow> AsInt a < AsInt b) \<and> (tv_gt a b \<longleftrightarrow> AsInt a > AsInt b) \<and>
    (tv_le a b \<longleftrightarrow> AsInt a \<le> AsInt b) \<and> (tv_ge a b \<longleftrightarrow> AsInt a \<ge> AsInt b) \<and>
    (tv_eq a b \<longleftrightarrow> AsInt a = AsInt b) \<and> (tv_neq a b \<longleftrightarrow> AsInt a \<noteq> AsInt b) \<and>
    AsInt (tv_times a n) = AsInt a * int n \<and> AsInt (tv_Set k) = k \<and>
    (0 \<le> AsInt a \<longrightarrow> tv_Set (AsInt a) = a) \<and> (tv_IsSet a \<longleftrightarrow> AsInt a \<noteq> 0)"
proof -
  have "tv_Set (AsInt a) = a" if "0 \<le> AsInt a"
    by (rule AsInt_inj) (simp_all add: that tv_norm_tv_Set assms AsInt_tv_Set)
  moreover have "tv_IsSet a \<longleftrightarrow> AsInt a \<noteq> 0"
    using assms(1) AsInt_inj [of a "Timeval 0 0"]
    by (cases a) (auto simp: tv_IsSet_def timerisset_def tv_norm_def USEC_IN_SECONDS_def AsInt_def)
  ultimately show ?thesis
    using assms by (simp add: tv_plus_timeradd tv_minus_def timeradd_AsInt TimerSub_AsInt
      timercmp_AsInt tv_neq_def tv_times_def AsInt_tv_Set)
qed

theorem clock_arithmetic_witness:
  "AsInt (tv_plus (Timeval 1 900000) (Timeval 2 500000)) = 4400000 \<and>
   tv_lt (Timeval 1 900000) (Timeval 2 500000)"
  using clock_arithmetic [of "Timeval 1 900000" "Timeval 2 500000" 0 0]
  by (simp add: tv_norm_def USEC_IN_SECONDS_def AsInt_def)

text \<open>The compound assignments skip the work when both operands are one object: \<open>t += t\<close> and
  \<open>t -= t\<close> leave \<open>t\<close> as it is, where two equal but distinct operands give the sum and the
  difference; and a negative count of microseconds gives a time that is not normalised, so that two
  times with the same count compare as different.\<close>

theorem clock_self_assignment:
  "tv_add_assign st p p = st \<and> tv_sub_assign st p p = st \<and>
   (p \<noteq> q \<longrightarrow> tv_add_assign st p q p = timeradd (st p) (st q) \<and>
      tv_sub_assign st p q p = TimerSub (st p) (st q)) \<and>
   (let t = tv_Set (- 1); u = tv_minus (Timeval 0 0) (Timeval 0 1)
    in AsInt t = AsInt u \<and> \<not> tv_norm t \<and> tv_norm u \<and> \<not> tv_eq t u \<and> tv_gt t u)"
  by (simp add: tv_add_assign_def tv_sub_assign_def tv_Set_def tv_minus_def tv_eq_def tv_gt_def
    tv_defs signed_divide_int_def signed_modulo_int_def)

theorem clock_self_assignment_witness:
  "tv_add_assign (\<lambda>_. Timeval 1 0) 0 0 0 = Timeval 1 0 \<and>
   tv_add_assign (\<lambda>_. Timeval 1 0) 0 1 0 = Timeval 2 0"
  using clock_self_assignment [of "\<lambda>_. Timeval 1 0" 0 1] by (simp add: timeradd_def)

end
