(* ===== verification/STL_Map.thy ===== *)
theory STL_Map
  imports Main
begin

text \<open>
  Ordered containers of the C++ standard library and the helpers of
  \<^verbatim>\<open>include/ola/stl/STLUtils.h\<close> on them. A \<open>std::map\<close> is the list of its pairs in the order of
  its iterators, a \<open>std::set\<close> the list of its elements; the invariant is that the keys ascend
  strictly. A container of pointers is ordered by address, so pointers are numbers.
\<close>

section \<open>Sets\<close>

abbreviation set_ok :: "('k :: linorder) list \<Rightarrow> bool" where
  "set_ok s \<equiv> sorted_wrt (<) s"

fun stl_set_insert :: "('k :: linorder) \<Rightarrow> 'k list \<Rightarrow> bool \<times> 'k list" where
  "stl_set_insert k [] = (True, [k])"
| "stl_set_insert k (l # s) =
     (if k < l then (True, k # l # s) else if k = l then (False, l # s)
      else (let (new, s') = stl_set_insert k s in (new, l # s')))"

definition stl_set_remove :: "('k :: linorder) \<Rightarrow> 'k list \<Rightarrow> bool \<times> 'k list" where
  "stl_set_remove k s = (if k \<in> set s then (True, filter (\<lambda>l. l \<noteq> k) s) else (False, s))"

lemma set_stl_set_insert [simp]: "set (snd (stl_set_insert k s)) = insert k (set s)"
  by (induction s) (auto simp: split_beta Let_def)

lemma stl_set_insert_ok [simp]: "set_ok s \<Longrightarrow> set_ok (snd (stl_set_insert k s))"
  by (induction s) (auto simp: split_beta Let_def)

lemma stl_set_insert_fst: "set_ok s \<Longrightarrow> fst (stl_set_insert k s) \<longleftrightarrow> k \<notin> set s"
  by (induction s) (auto simp: split_beta Let_def)

lemma length_stl_set_insert:
  "length (snd (stl_set_insert k s)) = length s + (if fst (stl_set_insert k s) then 1 else 0)"
  by (induction s) (auto simp: split_beta Let_def)

lemma stl_set_remove_ok [simp]: "set_ok s \<Longrightarrow> set_ok (snd (stl_set_remove k s))"
  by (simp add: stl_set_remove_def sorted_wrt_filter)

lemma set_stl_set_remove [simp]: "set (snd (stl_set_remove k s)) = set s - {k}"
  by (auto simp: stl_set_remove_def)

lemma length_stl_set_remove:
  assumes "set_ok s" and "k \<in> set s"
  shows "Suc (length (snd (stl_set_remove k s))) = length s"
proof -
  have "filter (\<lambda>l. l \<noteq> k) s = remove1 k s"
    using assms by (simp add: strict_sorted_iff distinct_remove1_removeAll removeAll_filter_not_eq)
      (metis (mono_tags, lifting))
  then show ?thesis
    using assms by (simp add: stl_set_remove_def length_remove1) (cases s; simp)
qed

section \<open>Maps\<close>

type_synonym ('k, 'v) stl_map = "('k \<times> 'v) list"

abbreviation map_ok :: "('k :: linorder, 'v) stl_map \<Rightarrow> bool" where
  "map_ok m \<equiv> sorted_wrt (<) (map fst m)"

definition STLContains :: "('k :: linorder, 'v) stl_map \<Rightarrow> 'k \<Rightarrow> bool" where
  "STLContains m k \<longleftrightarrow> map_of m k \<noteq> None"

definition STLFindOrNull :: "('k :: linorder, 'v) stl_map \<Rightarrow> 'k \<Rightarrow> 'v option" where
  "STLFindOrNull m k = map_of m k"

definition STLKeys :: "('k :: linorder, 'v) stl_map \<Rightarrow> 'k list" where
  "STLKeys m = map fst m"

definition STLValues :: "('k :: linorder, 'v) stl_map \<Rightarrow> 'v list" where
  "STLValues m = map snd m"

text \<open>\<open>std::map::insert\<close>: a new key goes to its place, a present key keeps its value. The boolean
  tells if the key is new.\<close>

fun map_insert :: "('k :: linorder) \<Rightarrow> 'v \<Rightarrow> ('k, 'v) stl_map \<Rightarrow> bool \<times> ('k, 'v) stl_map" where
  "map_insert k v [] = (True, [(k, v)])"
| "map_insert k v ((l, w) # m) =
     (if k < l then (True, (k, v) # (l, w) # m)
      else if k = l then (False, (l, w) # m)
      else (let (new, m') = map_insert k v m in (new, (l, w) # m')))"

text \<open>Assignment through the iterator of a present key.\<close>

definition map_set :: "('k :: linorder) \<Rightarrow> 'v \<Rightarrow> ('k, 'v) stl_map \<Rightarrow> ('k, 'v) stl_map" where
  "map_set k v m = map (\<lambda>(l, w). if l = k then (l, v) else (l, w)) m"

definition map_erase :: "('k :: linorder) \<Rightarrow> ('k, 'v) stl_map \<Rightarrow> ('k, 'v) stl_map" where
  "map_erase k m = filter (\<lambda>(l, _). l \<noteq> k) m"

definition STLReplace ::
  "('k :: linorder, 'v) stl_map \<Rightarrow> 'k \<Rightarrow> 'v \<Rightarrow> bool \<times> ('k, 'v) stl_map" where
  "STLReplace m k v =
     (let (new, m') = map_insert k v m in if \<not> new then (True, map_set k v m') else (False, m'))"

definition STLInsertIfNotPresent ::
  "('k :: linorder, 'v) stl_map \<Rightarrow> 'k \<Rightarrow> 'v \<Rightarrow> bool \<times> ('k, 'v) stl_map" where
  "STLInsertIfNotPresent m k v = map_insert k v m"

definition STLRemove :: "('k :: linorder, 'v) stl_map \<Rightarrow> 'k \<Rightarrow> bool \<times> ('k, 'v) stl_map" where
  "STLRemove m k = (if STLContains m k then (True, map_erase k m) else (False, m))"

definition STLLookupAndRemove ::
  "('k :: linorder, 'v) stl_map \<Rightarrow> 'k \<Rightarrow> 'v option \<times> ('k, 'v) stl_map" where
  "STLLookupAndRemove m k =
     (case map_of m k of None \<Rightarrow> (None, m) | Some v \<Rightarrow> (Some v, map_erase k m))"

section \<open>Facts\<close>

lemma map_insert_snd [simp]:
  "map_ok m \<Longrightarrow> map_of (snd (map_insert k v m)) =
     (case map_of m k of None \<Rightarrow> (map_of m)(k \<mapsto> v) | Some _ \<Rightarrow> map_of m)"
proof (induction m rule: map_insert.induct [where ?a0.0 = k and ?a1.0 = v])
  case (2 k v l w m)
  have "map_of m l = None" if "map_ok ((l, w) # m)" for l
    using that by (auto simp: map_of_eq_None_iff)
  moreover have "map_of m k = None" if "k < l" "map_ok ((l, w) # m)"
    using that by (fastforce simp: map_of_eq_None_iff)
  ultimately show ?case
    using 2 by (auto simp: split_beta Let_def fun_eq_iff split: option.splits)
qed (auto simp: fun_eq_iff)

lemma map_insert_keys: "map_prod id (map fst) (map_insert k v m) = stl_set_insert k (map fst m)"
proof (induction m)
  case (Cons x m)
  then show ?case by (cases x; cases "map_insert k v m") (auto simp: Let_def split: prod.split)
qed simp

lemma map_insert_fst: "map_ok m \<Longrightarrow> fst (map_insert k v m) \<longleftrightarrow> map_of m k = None"
  using arg_cong [OF map_insert_keys [of k v m], of fst] stl_set_insert_fst [of "map fst m" k]
  by (simp add: map_of_eq_None_iff)

lemma map_fst_map_insert: "map fst (snd (map_insert k v m)) = snd (stl_set_insert k (map fst m))"
  using arg_cong [OF map_insert_keys [of k v m], of snd] by simp

lemma map_insert_ok [simp]: "map_ok m \<Longrightarrow> map_ok (snd (map_insert k v m))"
  by (simp add: map_fst_map_insert)

lemma map_erase_ok [simp]: "map_ok m \<Longrightarrow> map_ok (map_erase k m)"
  by (induction m) (auto simp: map_erase_def)

lemma map_filter_ok: "map_ok m \<Longrightarrow> map_ok (filter P m)"
  by (induction m) auto

lemma map_fst_map_set [simp]: "map fst (map_set k v m) = map fst m"
  by (auto simp: map_set_def)

lemma map_of_map_set:
  "map_of (map_set k v m) l = (if l = k \<and> map_of m k \<noteq> None then Some v else map_of m l)"
  by (induction m) (auto simp: map_set_def)

lemma map_of_map_erase: "map_of (map_erase k m) l = (if l = k then None else map_of m l)"
  by (induction m) (auto simp: map_erase_def)

lemma map_of_filter_ok:
  "map_ok m \<Longrightarrow> map_of (filter P m) k =
     (case map_of m k of None \<Rightarrow> None | Some v \<Rightarrow> if P (k, v) then Some v else None)"
  by (induction m) (auto simp: map_of_eq_None_iff split: option.splits)

lemma map_ok_distinct: "map_ok m \<Longrightarrow> distinct (map fst m)"
  by (simp add: strict_sorted_iff)

section \<open>The contract of a map\<close>

text \<open>What the users of a map rely on: the invariant is kept, and lookups after an operation are the
  update of the lookups before.\<close>

locale stl_map_contract =
  fixes inv :: "'m \<Rightarrow> bool"
    and lookup :: "'m \<Rightarrow> 'k \<Rightarrow> 'v option"
    and empty :: 'm
    and replace insert_new :: "'m \<Rightarrow> 'k \<Rightarrow> 'v \<Rightarrow> bool \<times> 'm"
    and remove :: "'m \<Rightarrow> 'k \<Rightarrow> bool \<times> 'm"
  assumes empty_inv: "inv empty" and empty_lookup: "lookup empty = Map.empty"
    and replace_inv: "inv m \<Longrightarrow> inv (snd (replace m k v))"
    and replace_lookup: "inv m \<Longrightarrow> lookup (snd (replace m k v)) = (lookup m)(k \<mapsto> v)"
    and replace_result: "inv m \<Longrightarrow> fst (replace m k v) \<longleftrightarrow> lookup m k \<noteq> None"
    and insert_inv: "inv m \<Longrightarrow> inv (snd (insert_new m k v))"
    and insert_lookup: "inv m \<Longrightarrow> lookup (snd (insert_new m k v)) =
      (if lookup m k = None then (lookup m)(k \<mapsto> v) else lookup m)"
    and insert_result: "inv m \<Longrightarrow> fst (insert_new m k v) \<longleftrightarrow> lookup m k = None"
    and remove_inv: "inv m \<Longrightarrow> inv (snd (remove m k))"
    and remove_lookup: "inv m \<Longrightarrow> lookup (snd (remove m k)) = (lookup m)(k := None)"
    and remove_result: "inv m \<Longrightarrow> fst (remove m k) \<longleftrightarrow> lookup m k \<noteq> None"
begin

lemmas map_laws = empty_inv empty_lookup replace_inv replace_lookup replace_result insert_inv
  insert_lookup insert_result remove_inv remove_lookup remove_result

text \<open>Removing a key that was just inserted restores a map that did not have it.\<close>

lemma insert_remove:
  "inv m \<Longrightarrow> lookup m k = None \<Longrightarrow>
    lookup (snd (remove (snd (insert_new m k v)) k)) = lookup m \<and> fst (remove (snd (insert_new m k v)) k)"
  by (auto simp: map_laws)

lemma fold_replace:
  "inv m \<Longrightarrow> inv (fold (\<lambda>(k, v) m. snd (replace m k v)) kvs m) \<and>
    lookup (fold (\<lambda>(k, v) m. snd (replace m k v)) kvs m) = lookup m ++ map_of (rev kvs)"
proof (induction kvs arbitrary: m)
  case (Cons kv kvs)
  obtain k v where kv: "kv = (k, v)" by force
  with Cons show ?case by (auto simp: kv map_laws map_add_def fun_eq_iff split: option.splits)
qed simp

end

lemma STLReplace_lookup:
  assumes "map_ok m"
  shows "map_of (snd (STLReplace m k v)) = (map_of m)(k \<mapsto> v)"
  using assms map_insert_fst [OF assms, of k v] map_insert_snd [OF assms, of k v]
  by (auto simp: STLReplace_def split_beta Let_def map_of_map_set fun_eq_iff split: option.splits)

lemma STLReplace_ok: "map_ok m \<Longrightarrow> map_ok (snd (STLReplace m k v))"
  by (simp add: STLReplace_def split_beta Let_def)

lemma STLReplace_result: "map_ok m \<Longrightarrow> fst (STLReplace m k v) \<longleftrightarrow> map_of m k \<noteq> None"
  by (simp add: STLReplace_def split_beta Let_def map_insert_fst)

interpretation stlm: stl_map_contract
  "map_ok :: ('k :: linorder, 'v) stl_map \<Rightarrow> bool" map_of "[]" STLReplace STLInsertIfNotPresent STLRemove
  by unfold_locales
    (auto simp: STLReplace_lookup STLReplace_ok STLReplace_result STLInsertIfNotPresent_def STLRemove_def
      STLContains_def map_insert_fst map_of_map_erase fun_eq_iff split: option.splits)

lemma length_map_insert:
  "length (snd (map_insert k v m)) = length m + (if fst (map_insert k v m) then 1 else 0)"
  using arg_cong [OF map_insert_keys [of k v m], of fst]
    arg_cong [OF map_fst_map_insert [of k v m], of length] length_stl_set_insert [of k "map fst m"]
  by simp

lemma length_map_set [simp]: "length (map_set k v m) = length m"
  by (simp add: map_set_def)

lemma length_STLReplace:
  "length (snd (STLReplace m k v)) = length m + (if fst (STLReplace m k v) then 0 else 1)"
  by (simp add: STLReplace_def split_beta Let_def length_map_insert)

lemma length_map_erase:
  assumes "map_ok m" and "map_of m k \<noteq> None"
  shows "Suc (length (map_erase k m)) = length m"
  using assms
proof (induction m)
  case (Cons x m)
  obtain l w where x: "x = (l, w)" by force
  have "map_erase k m = m" if "l = k"
    using Cons.prems that by (auto simp: x map_erase_def filter_id_conv)
  with Cons show ?case by (auto simp: x map_erase_def split: if_splits)
qed simp

end
