(* ===== verification/Universe.thy ===== *)
theory Universe
  imports Dmx_Value Clock STL_Map RDM_Command
begin

text \<open>
  A universe of the OLA daemon, \<^verbatim>\<open>olad/Universe.cpp\<close>: the DMX frame with its merge, the ports and
  clients bound to it, and the map from UIDs to output ports. Ports and clients are other objects;
  they are numbers here (their addresses, which also order the containers of clients), and what the
  universe reads from them, their current \<open>DmxSource\<close>, is an argument. The calls a universe makes
  on other objects are values of the type \<open>universe_effect\<close>, in the order the code makes them. A frame is
  the value of a \<open>DmxBuffer\<close> (theory \<open>Dmx_Value\<close>). The universe's rows of the shared export map, which only
  it writes, are a field of its state.
\<close>

section \<open>Sources of DMX data\<close>

definition SOURCE_PRIORITY_MIN :: u8 where
  "SOURCE_PRIORITY_MIN = 0"

definition SOURCE_PRIORITY_DEFAULT :: u8 where
  "SOURCE_PRIORITY_DEFAULT = 100"

definition SOURCE_PRIORITY_MAX :: u8 where
  "SOURCE_PRIORITY_MAX = 200"

record DmxSource =
  source_buffer :: dmx
  source_timestamp :: TimeStamp
  source_priority :: u8

definition TIMEOUT_INTERVAL :: TimeInterval where
  "TIMEOUT_INTERVAL = interval_us 2500000"

definition new_DmxSource :: DmxSource where
  "new_DmxSource = \<lparr>source_buffer = None, source_timestamp = TimeStamp timerclear,
     source_priority = SOURCE_PRIORITY_MIN\<rparr>"

definition UpdateData :: "dmx \<Rightarrow> TimeStamp \<Rightarrow> u8 \<Rightarrow> DmxSource \<Rightarrow> DmxSource" where
  "UpdateData buffer timestamp priority s =
     s\<lparr>source_buffer := buffer, source_timestamp := timestamp, source_priority := priority\<rparr>"

definition source_IsActive :: "DmxSource \<Rightarrow> TimeStamp \<Rightarrow> bool" where
  "source_IsActive s now = (let timeout = stamp_plus (source_timestamp s) TIMEOUT_INTERVAL in stamp_lt now timeout)"

definition source_IsSet :: "DmxSource \<Rightarrow> bool" where
  "source_IsSet s = stamp_IsSet (source_timestamp s)"

text \<open>\<open>DmxBuffer::Set(const DmxBuffer&)\<close>: a source without a data block leaves the target as it is.\<close>

definition val_SetBuffer :: "dmx \<Rightarrow> dmx \<Rightarrow> dmx" where
  "val_SetBuffer other d = (case other of None \<Rightarrow> d | Some xs \<Rightarrow> val_Set xs)"

section \<open>Clients\<close>

text \<open>\<^verbatim>\<open>olad/Client.cpp\<close>: the last data a client sent for each universe. The RPC stub is outside; the model
  keeps whether it is set, and the message that is sent.\<close>

record client =
  m_client_stub :: bool
  m_data_map :: "(nat, DmxSource) stl_map"

definition DMXRecieved :: "nat \<Rightarrow> DmxSource \<Rightarrow> client \<Rightarrow> client" where
  "DMXRecieved uni source c = c\<lparr>m_data_map := snd (STLReplace (m_data_map c) uni source)\<rparr>"

definition client_SourceData :: "client \<Rightarrow> nat \<Rightarrow> DmxSource" where
  "client_SourceData c uni = (case map_of (m_data_map c) uni of Some s \<Rightarrow> s | None \<Rightarrow> new_DmxSource)"

definition client_SendDMX :: "client \<Rightarrow> nat \<Rightarrow> u8 \<Rightarrow> dmx \<Rightarrow> bool \<times> (u8 \<times> nat \<times> bytes) option" where
  "client_SendDMX c uni priority buffer =
     (if \<not> m_client_stub c then (False, None) else (True, Some (priority, uni, slots buffer)))"

section \<open>The state of a universe\<close>

datatype merge_mode = MERGE_HTP | MERGE_LTP

datatype uint_var =
  K_FPS_VAR | K_UNIVERSE_INPUT_PORT_VAR | K_UNIVERSE_OUTPUT_PORT_VAR | K_UNIVERSE_RDM_REQUESTS |
  K_UNIVERSE_SINK_CLIENTS_VAR | K_UNIVERSE_SOURCE_CLIENTS_VAR | K_UNIVERSE_UID_COUNT_VAR

record export_rows =
  uint_rows :: "uint_var \<Rightarrow> u32"
  name_row :: string
  mode_row :: string

record universe =
  m_universe_name :: string
  m_universe_id :: nat
  m_active_priority :: u8
  m_merge_mode :: merge_mode
  m_input_ports :: "nat list"
  m_output_ports :: "nat list"
  m_sink_clients :: "nat list"
  m_source_clients :: "(nat, bool) stl_map"
  m_buffer :: dmx
  m_export_map :: "export_rows option"
  m_output_uids :: "(uid, nat) stl_map"
  m_rdm_discovery_interval :: TimeInterval
  m_last_discovery_time :: TimeStamp

datatype rdm_callback = CallerCallback | OnBroadcastAck | OnBroadcastDiscovery

datatype universe_effect =
    UniverseNameChanged nat string
  | WriteDMX nat dmx u8
  | SendDMX nat nat u8 dmx
  | AddUniverseGarbageCollection nat
  | PortSendRDMRequest nat rdm_command rdm_callback
  | RunRDMCallback rdm_response_code "bytes list"
  | PortRunDiscovery nat bool
  | RunDiscoveryCallback uid_set

definition UpdateName :: "universe \<Rightarrow> universe" where
  "UpdateName u = (case m_export_map u of None \<Rightarrow> u
     | Some rows \<Rightarrow> u\<lparr>m_export_map := Some (rows\<lparr>name_row := m_universe_name u\<rparr>)\<rparr>)"

definition UpdateMode :: "universe \<Rightarrow> universe" where
  "UpdateMode u = (case m_export_map u of None \<Rightarrow> u
     | Some rows \<Rightarrow> u\<lparr>m_export_map := Some (rows\<lparr>mode_row :=
         (if m_merge_mode u = MERGE_LTP then ''ltp'' else ''htp'')\<rparr>)\<rparr>)"

definition set_uint :: "uint_var \<Rightarrow> (u32 \<Rightarrow> u32) \<Rightarrow> universe \<Rightarrow> universe" where
  "set_uint var f u = (case m_export_map u of None \<Rightarrow> u
     | Some rows \<Rightarrow> u\<lparr>m_export_map :=
         Some (rows\<lparr>uint_rows := (uint_rows rows)(var := f (uint_rows rows var))\<rparr>)\<rparr>)"

definition SafeIncrement :: "uint_var \<Rightarrow> universe \<Rightarrow> universe" where
  "SafeIncrement var u = set_uint var (\<lambda>n. n + 1) u"

definition SafeDecrement :: "uint_var \<Rightarrow> universe \<Rightarrow> universe" where
  "SafeDecrement var u = set_uint var (\<lambda>n. n - 1) u"

text \<open>The constructor; \<open>export\<close> tells if there is an export map, \<open>now\<close> is the time of the clock.\<close>

definition new_Universe :: "nat \<Rightarrow> bool \<Rightarrow> TimeStamp \<Rightarrow> universe" where
  "new_Universe universe_id export now =
     (let u = \<lparr>m_universe_name = ''Universe '' @ print_base 10 universe_id, m_universe_id = universe_id,
        m_active_priority = SOURCE_PRIORITY_MIN, m_merge_mode = MERGE_LTP,
        m_input_ports = [], m_output_ports = [], m_sink_clients = [], m_source_clients = [],
        m_buffer = None,
        m_export_map = (if export then Some \<lparr>uint_rows = (\<lambda>_. 0), name_row = [], mode_row = []\<rparr> else None),
        m_output_uids = [], m_rdm_discovery_interval = TimeInterval timerclear,
        m_last_discovery_time = now\<rparr>
      in UpdateMode (UpdateName u))"

definition IsActive :: "universe \<Rightarrow> bool" where
  "IsActive u \<longleftrightarrow> \<not> (m_output_ports u = [] \<and> m_input_ports u = [] \<and> m_source_clients u = [] \<and> m_sink_clients u = [])"

text \<open>The check after a port or client is gone: the store is told about a universe without users.\<close>

definition check_active :: "universe \<Rightarrow> universe_effect list" where
  "check_active u = (if \<not> IsActive u then [AddUniverseGarbageCollection (m_universe_id u)] else [])"

definition SetName :: "string \<Rightarrow> universe \<Rightarrow> universe \<times> universe_effect list" where
  "SetName name u =
     (UpdateName (u\<lparr>m_universe_name := name\<rparr>), map (\<lambda>p. UniverseNameChanged p name) (m_output_ports u))"

definition SetMergeMode :: "merge_mode \<Rightarrow> universe \<Rightarrow> universe" where
  "SetMergeMode mode u = UpdateMode (u\<lparr>m_merge_mode := mode\<rparr>)"

section \<open>Ports\<close>

text \<open>\<open>GenericAddPort\<close> and \<open>GenericRemovePort\<close> are templates over the kind of port: one definition
  for each instance.\<close>

definition AddInputPort :: "nat \<Rightarrow> universe \<Rightarrow> bool \<times> universe" where
  "AddInputPort port u =
     (if port \<in> set (m_input_ports u) then (True, u)
      else (True, SafeIncrement K_UNIVERSE_INPUT_PORT_VAR (u\<lparr>m_input_ports := m_input_ports u @ [port]\<rparr>)))"

definition AddOutputPort :: "nat \<Rightarrow> universe \<Rightarrow> bool \<times> universe" where
  "AddOutputPort port u =
     (if port \<in> set (m_output_ports u) then (True, u)
      else (True, SafeIncrement K_UNIVERSE_OUTPUT_PORT_VAR (u\<lparr>m_output_ports := m_output_ports u @ [port]\<rparr>)))"

definition RemoveInputPort :: "nat \<Rightarrow> universe \<Rightarrow> bool \<times> universe \<times> universe_effect list" where
  "RemoveInputPort port u =
     (if port \<notin> set (m_input_ports u) then (True, u, [])
      else
        let u1 = SafeDecrement K_UNIVERSE_INPUT_PORT_VAR (u\<lparr>m_input_ports := remove1 port (m_input_ports u)\<rparr>)
        in (True, u1, check_active u1))"

definition GenericRemoveOutputPort :: "nat \<Rightarrow> universe \<Rightarrow> bool \<times> universe \<times> universe_effect list" where
  "GenericRemoveOutputPort port u =
     (if port \<notin> set (m_output_ports u) then (True, u, [])
      else
        let u1 = SafeDecrement K_UNIVERSE_OUTPUT_PORT_VAR (u\<lparr>m_output_ports := remove1 port (m_output_ports u)\<rparr>);
            effects = check_active u1
        in (True, u1\<lparr>m_output_uids := filter (\<lambda>(_, p). p \<noteq> port) (m_output_uids u1)\<rparr>, effects))"

definition RemoveOutputPort :: "nat \<Rightarrow> universe \<Rightarrow> bool \<times> universe \<times> universe_effect list" where
  "RemoveOutputPort port u =
     (let (ret, u1, effects) = GenericRemoveOutputPort port u
      in (ret, set_uint K_UNIVERSE_UID_COUNT_VAR (\<lambda>_. of_nat (length (m_output_uids u1))) u1, effects))"

definition ContainsInputPort :: "nat \<Rightarrow> universe \<Rightarrow> bool" where
  "ContainsInputPort port u \<longleftrightarrow> port \<in> set (m_input_ports u)"

definition ContainsOutputPort :: "nat \<Rightarrow> universe \<Rightarrow> bool" where
  "ContainsOutputPort port u \<longleftrightarrow> port \<in> set (m_output_ports u)"

section \<open>Clients of a universe\<close>

definition AddSourceClient :: "nat \<Rightarrow> universe \<Rightarrow> bool \<times> universe" where
  "AddSourceClient client u =
     (let (replaced, cs) = STLReplace (m_source_clients u) client False
      in if replaced then (True, u\<lparr>m_source_clients := cs\<rparr>)
         else (True, SafeIncrement K_UNIVERSE_SOURCE_CLIENTS_VAR (u\<lparr>m_source_clients := cs\<rparr>)))"

definition RemoveSourceClient :: "nat \<Rightarrow> universe \<Rightarrow> bool \<times> universe \<times> universe_effect list" where
  "RemoveSourceClient client u =
     (let (removed, cs) = STLRemove (m_source_clients u) client
      in if \<not> removed then (False, u, [])
         else
           let u1 = SafeDecrement K_UNIVERSE_SOURCE_CLIENTS_VAR (u\<lparr>m_source_clients := cs\<rparr>)
           in (True, u1, check_active u1))"

definition ContainsSourceClient :: "nat \<Rightarrow> universe \<Rightarrow> bool" where
  "ContainsSourceClient client u = STLContains (m_source_clients u) client"

definition AddSinkClient :: "nat \<Rightarrow> universe \<Rightarrow> bool \<times> universe" where
  "AddSinkClient client u =
     (let (new, cs) = stl_set_insert client (m_sink_clients u)
      in if \<not> new then (False, u)
         else (True, SafeIncrement K_UNIVERSE_SINK_CLIENTS_VAR (u\<lparr>m_sink_clients := cs\<rparr>)))"

definition RemoveSinkClient :: "nat \<Rightarrow> universe \<Rightarrow> bool \<times> universe \<times> universe_effect list" where
  "RemoveSinkClient client u =
     (let (removed, cs) = stl_set_remove client (m_sink_clients u)
      in if \<not> removed then (False, u, [])
         else
           let u1 = SafeDecrement K_UNIVERSE_SINK_CLIENTS_VAR (u\<lparr>m_sink_clients := cs\<rparr>)
           in (True, u1, check_active u1))"

definition ContainsSinkClient :: "nat \<Rightarrow> universe \<Rightarrow> bool" where
  "ContainsSinkClient client u \<longleftrightarrow> client \<in> set (m_sink_clients u)"

text \<open>The loop of \<open>CleanStaleSourceClients\<close>: \<open>visited\<close> is the part of the map before the iterator.\<close>

fun clean_loop :: "(nat, bool) stl_map \<Rightarrow> (nat, bool) stl_map \<Rightarrow> universe \<Rightarrow> universe_effect list \<Rightarrow>
    universe \<times> universe_effect list" where
  "clean_loop visited [] u effects = (u, effects)"
| "clean_loop visited ((c, stale) # rest) u effects =
     (if stale then
        let u1 = SafeDecrement K_UNIVERSE_SOURCE_CLIENTS_VAR (u\<lparr>m_source_clients := visited @ rest\<rparr>)
        in clean_loop visited rest u1 (effects @ check_active u1)
      else
        clean_loop (visited @ [(c, True)]) rest
          (u\<lparr>m_source_clients := visited @ (c, True) # rest\<rparr>) effects)"

definition CleanStaleSourceClients :: "universe \<Rightarrow> universe \<times> universe_effect list" where
  "CleanStaleSourceClients u = clean_loop [] (m_source_clients u) u []"

section \<open>DMX data\<close>

definition UpdateDependants :: "universe \<Rightarrow> bool \<times> universe \<times> universe_effect list" where
  "UpdateDependants u =
     (True, SafeIncrement K_FPS_VAR u,
      map (\<lambda>p. WriteDMX p (m_buffer u) (m_active_priority u)) (m_output_ports u) @
      map (\<lambda>c. SendDMX c (m_universe_id u) (m_active_priority u) (m_buffer u)) (m_sink_clients u))"

definition SetDMX :: "dmx \<Rightarrow> universe \<Rightarrow> bool \<times> universe \<times> universe_effect list" where
  "SetDMX buffer u =
     (if val_Size buffer = 0 then (True, u, [])
      else UpdateDependants (u\<lparr>m_buffer := val_SetBuffer buffer (m_buffer u)\<rparr>))"

definition HTPMergeSources :: "DmxSource list \<Rightarrow> universe \<Rightarrow> universe" where
  "HTPMergeSources sources u =
     u\<lparr>m_buffer := fold (\<lambda>s d. val_HTPMerge d (source_buffer s)) sources (val_Reset (m_buffer u))\<rparr>"

text \<open>One turn of the loops of \<open>MergeAll\<close> over the ports and over the clients, which have the same body:
  the active priority, the active sources and whether the changed source is one of them.\<close>

type_synonym merge_state = "u8 \<times> DmxSource list \<times> bool"

definition consider_source ::
  "TimeStamp \<Rightarrow> nat option \<Rightarrow> nat \<times> DmxSource \<Rightarrow> merge_state \<Rightarrow> merge_state" where
  "consider_source now changed = (\<lambda>(i, source) (active_priority, active_sources, changed_source_is_active).
     if \<not> source_IsSet source \<or> \<not> source_IsActive source now \<or> val_Size (source_buffer source) = 0
     then (active_priority, active_sources, changed_source_is_active)
     else
       let (active_priority, active_sources, changed_source_is_active) =
             (if source_priority source > active_priority then (source_priority source, [], False)
              else (active_priority, active_sources, changed_source_is_active))
       in if source_priority source = active_priority
          then (active_priority, active_sources @ [source],
                if changed = Some i then True else changed_source_is_active)
          else (active_priority, active_sources, changed_source_is_active))"

text \<open>\<open>port\<close> and \<open>client\<close> are the changed source, \<open>None\<close> for a null pointer; \<open>ports\<close> and \<open>clients\<close> give the
  data that the ports and the clients hold. With both pointers null no source is the changed one,
  and the branch that reads the changed source is not reached.\<close>

definition MergeAll :: "(nat \<Rightarrow> DmxSource) \<Rightarrow> (nat \<Rightarrow> client) \<Rightarrow> TimeStamp \<Rightarrow> nat option \<Rightarrow> nat option \<Rightarrow>
    universe \<Rightarrow> bool \<times> universe" where
  "MergeAll ports clients now port client u =
     (let data = (\<lambda>c. client_SourceData (clients c) (m_universe_id u));
          st = fold (consider_source now port) (map (\<lambda>p. (p, ports p)) (m_input_ports u))
                 (SOURCE_PRIORITY_MIN, [], False);
          (active_priority, active_sources, changed_source_is_active) =
            fold (consider_source now client) (map (\<lambda>(c, _). (c, data c)) (m_source_clients u)) st;
          u1 = u\<lparr>m_active_priority := active_priority\<rparr>
      in if active_sources = [] then (False, u1)
         else if \<not> changed_source_is_active then (False, u1)
         else if length active_sources = 1
         then (True, u1\<lparr>m_buffer := val_SetBuffer (source_buffer (active_sources ! 0)) (m_buffer u1)\<rparr>)
         else if m_merge_mode u = MERGE_LTP
         then
           let changed_source = (case port of Some p \<Rightarrow> ports p
                 | None \<Rightarrow> (case client of Some c \<Rightarrow> data c | None \<Rightarrow> new_DmxSource))
           in if list_ex (\<lambda>s. stamp_lt (source_timestamp changed_source) (source_timestamp s)) active_sources
              then (False, u1)
              else (True, u1\<lparr>m_buffer := val_SetBuffer (source_buffer changed_source) (m_buffer u1)\<rparr>)
         else (True, HTPMergeSources active_sources u1))"

definition PortDataChanged :: "(nat \<Rightarrow> DmxSource) \<Rightarrow> (nat \<Rightarrow> client) \<Rightarrow> TimeStamp \<Rightarrow> nat \<Rightarrow> universe \<Rightarrow>
    bool \<times> universe \<times> universe_effect list" where
  "PortDataChanged ports clients now port u =
     (if \<not> ContainsInputPort port u then (False, u, [])
      else
        let (changed, u1) = MergeAll ports clients now (Some port) None u
        in if changed then (let (_, u2, effects) = UpdateDependants u1 in (True, u2, effects))
           else (True, u1, []))"

definition SourceClientDataChanged :: "(nat \<Rightarrow> DmxSource) \<Rightarrow> (nat \<Rightarrow> client) \<Rightarrow> TimeStamp \<Rightarrow> nat option \<Rightarrow>
    universe \<Rightarrow> bool \<times> universe \<times> universe_effect list" where
  "SourceClientDataChanged ports clients now client u =
     (case client of
        None \<Rightarrow> (False, u, [])
      | Some c \<Rightarrow>
          let (_, u0) = AddSourceClient c u;
              (changed, u1) = MergeAll ports clients now None (Some c) u0
          in if changed then (let (_, u2, effects) = UpdateDependants u1 in (True, u2, effects))
             else (True, u1, []))"

section \<open>RDM requests\<close>

record broadcast_request_tracker =
  expected_count :: nat
  current_count :: nat
  response_code :: rdm_response_code
  tracker_packets :: "bytes list"

text \<open>The result has the tracker of a broadcast, which lives until its callback runs.\<close>

definition universe_SendRDMRequest :: "rdm_command \<Rightarrow> universe \<Rightarrow>
    universe \<times> broadcast_request_tracker option \<times> universe_effect list" where
  "universe_SendRDMRequest request u =
     (let u1 = SafeIncrement K_UNIVERSE_RDM_REQUESTS u
      in if IsBroadcast (m_destination request) then
           let is_dub = (m_command_class request = DISCOVER_COMMAND \<and>
                         m_param_id request = PID_DISC_UNIQUE_BRANCH);
               tracker = \<lparr>expected_count = length (m_output_ports u1), current_count = 0,
                 response_code = (if is_dub then RDM_PLUGIN_DISCOVERY_NOT_SUPPORTED else RDM_WAS_BROADCAST),
                 tracker_packets = []\<rparr>
           in (u1, Some tracker,
               map (\<lambda>p. PortSendRDMRequest p request (if is_dub then OnBroadcastDiscovery else OnBroadcastAck))
                 (m_output_ports u1))
         else
           (case map_of (m_output_uids u1) (m_destination request) of
              None \<Rightarrow> (u1, None, [RunRDMCallback RDM_UNKNOWN_UID []])
            | Some port \<Rightarrow> (u1, None, [PortSendRDMRequest port request CallerCallback])))"

text \<open>The two callbacks of a broadcast: what is left of the tracker, and the call of the client's
  callback once every port has answered. A response object is deleted by both.\<close>

definition HandleBroadcastAck :: "broadcast_request_tracker \<Rightarrow> rdm_response_code \<Rightarrow> bytes list \<Rightarrow>
    broadcast_request_tracker option \<times> universe_effect list" where
  "HandleBroadcastAck tracker code packets =
     (let t1 = tracker\<lparr>current_count := current_count tracker + 1\<rparr>;
          t2 = (if code \<noteq> RDM_WAS_BROADCAST then t1\<lparr>response_code := code\<rparr> else t1)
      in if current_count t2 = expected_count t2
         then (None, [RunRDMCallback (response_code t2) packets])
         else (Some t2, []))"

definition HandleBroadcastDiscovery :: "broadcast_request_tracker \<Rightarrow> rdm_response_code \<Rightarrow> bytes list \<Rightarrow>
    broadcast_request_tracker option \<times> universe_effect list" where
  "HandleBroadcastDiscovery tracker code packets =
     (let t1 = tracker\<lparr>current_count := current_count tracker + 1\<rparr>;
          t2 = (if code = RDM_DUB_RESPONSE then t1\<lparr>response_code := RDM_DUB_RESPONSE\<rparr>
                else if code = RDM_TIMEOUT \<and> response_code t1 \<noteq> RDM_DUB_RESPONSE then t1\<lparr>response_code := code\<rparr>
                else if response_code t1 \<noteq> RDM_DUB_RESPONSE \<and> response_code t1 \<noteq> RDM_TIMEOUT
                then t1\<lparr>response_code := code\<rparr>
                else t1);
          t3 = t2\<lparr>tracker_packets := tracker_packets t2 @ packets\<rparr>
      in if current_count t3 = expected_count t3
         then (None, [RunRDMCallback (response_code t3) (tracker_packets t3)])
         else (Some t3, []))"

section \<open>Discovery\<close>

text \<open>\<open>MultiCallback\<close> of \<^verbatim>\<open>include/ola/MultiCallback.h\<close>: a counter that runs its callback on the call that
  reaches the limit, or at once for the limit 0. The result tells if the callback runs; the object
  is deleted then.\<close>

record multi_callback =
  m_count :: nat
  m_limit :: nat

definition NewMultiCallback :: "nat \<Rightarrow> multi_callback option \<times> bool" where
  "NewMultiCallback limit =
     (if limit = 0 then (None, True) else (Some \<lparr>m_count = 0, m_limit = limit\<rparr>, False))"

definition MultiCallback_Run :: "multi_callback \<Rightarrow> multi_callback option \<times> bool" where
  "MultiCallback_Run c =
     (let c1 = c\<lparr>m_count := m_count c + 1\<rparr>
      in if m_count c1 = m_limit c1 then (None, True) else (Some c1, False))"

definition GetUIDs :: "universe \<Rightarrow> uid_set \<Rightarrow> uid_set" where
  "GetUIDs u uids = fold (\<lambda>(uid, _). AddUID uid) (m_output_uids u) uids"

definition UIDCount :: "universe \<Rightarrow> nat" where
  "UIDCount u = length (m_output_uids u)"

text \<open>The second loop of \<open>NewUIDList\<close>: a UID of another port is only logged.\<close>

definition add_uid_to_port :: "nat \<Rightarrow> uid \<Rightarrow> (uid, nat) stl_map \<Rightarrow> (uid, nat) stl_map" where
  "add_uid_to_port port u m =
     (case map_of m u of None \<Rightarrow> snd (STLReplace m u port) | Some _ \<Rightarrow> m)"

definition NewUIDList :: "nat \<Rightarrow> uid_set \<Rightarrow> universe \<Rightarrow> universe" where
  "NewUIDList port uids u =
     (let m1 = filter (\<lambda>(uid, p). \<not> (p = port \<and> \<not> Contains uids uid)) (m_output_uids u);
          m2 = fold (add_uid_to_port port) uids m1;
          u1 = u\<lparr>m_output_uids := m2\<rparr>
      in set_uint K_UNIVERSE_UID_COUNT_VAR (\<lambda>_. of_nat (length (m_output_uids u1))) u1)"

definition DiscoveryComplete :: "bool \<Rightarrow> universe \<Rightarrow> universe_effect list" where
  "DiscoveryComplete on_complete u = (if on_complete then [RunDiscoveryCallback (GetUIDs u [])] else [])"

definition RunRDMDiscovery :: "bool \<Rightarrow> bool \<Rightarrow> TimeStamp \<Rightarrow> universe \<Rightarrow>
    universe \<times> multi_callback option \<times> universe_effect list" where
  "RunRDMDiscovery on_complete full now u =
     (let u1 = u\<lparr>m_last_discovery_time := now\<rparr>;
          output_ports = m_output_ports u1;
          (discovery_complete, run_now) = NewMultiCallback (length output_ports);
          effects = (if run_now then DiscoveryComplete on_complete u1 else [])
      in (u1, discovery_complete, effects @ map (\<lambda>p. PortRunDiscovery p full) output_ports))"

definition PortDiscoveryComplete :: "bool \<Rightarrow> multi_callback \<Rightarrow> nat \<Rightarrow> uid_set \<Rightarrow> universe \<Rightarrow>
    universe \<times> multi_callback option \<times> universe_effect list" where
  "PortDiscoveryComplete on_complete discovery_complete output_port uids u =
     (let u1 = NewUIDList output_port uids u;
          (c, run) = MultiCallback_Run discovery_complete
      in (u1, c, if run then DiscoveryComplete on_complete u1 else []))"

end
