(* ===== verification/Universe_Facts.thy ===== *)
theory Universe_Facts
  imports Universe RDM_UID
begin

text \<open>
  What a universe promises: the merge of its sources, the invariant that ties its containers to the
  exported counters, the UID map and the discovery and broadcast protocols.
\<close>

section \<open>The merge\<close>

definition usable :: "TimeStamp \<Rightarrow> DmxSource \<Rightarrow> bool" where
  "usable now s \<longleftrightarrow> source_IsSet s \<and> source_IsActive s now \<and> val_Size (source_buffer s) \<noteq> 0"

text \<open>All sources of a universe in the order the merge visits them, each with the mark of the changed one.\<close>

definition all_sources :: "(nat \<Rightarrow> DmxSource) \<Rightarrow> (nat \<Rightarrow> client) \<Rightarrow> nat option \<Rightarrow> nat option \<Rightarrow> universe \<Rightarrow>
    (bool \<times> DmxSource) list" where
  "all_sources ports clients port client u =
     map (\<lambda>p. (port = Some p, ports p)) (m_input_ports u) @
     map (\<lambda>(c, _). (client = Some c, client_SourceData (clients c) (m_universe_id u))) (m_source_clients u)"

definition highest_priority :: "TimeStamp \<Rightarrow> (bool \<times> DmxSource) list \<Rightarrow> u8" where
  "highest_priority now srcs = fold max (map (source_priority \<circ> snd) (filter (usable now \<circ> snd) srcs)) 0"

definition top_sources :: "TimeStamp \<Rightarrow> (bool \<times> DmxSource) list \<Rightarrow> (bool \<times> DmxSource) list" where
  "top_sources now srcs =
     filter (\<lambda>x. usable now (snd x) \<and> source_priority (snd x) = highest_priority now srcs) srcs"

definition visit_source :: "TimeStamp \<Rightarrow> bool \<times> DmxSource \<Rightarrow> merge_state \<Rightarrow> merge_state" where
  "visit_source now x st = consider_source now (Some (if fst x then 0 else 1)) (0, snd x) st"

lemma consider_source_mark: "consider_source now changed (i, s) st = visit_source now (changed = Some i, s) st"
  by (cases st) (simp add: visit_source_def consider_source_def)

lemma highest_priority_snoc:
  "highest_priority now (srcs @ [x]) =
     (if usable now (snd x) then max (source_priority (snd x)) (highest_priority now srcs)
      else highest_priority now srcs)"
  by (simp add: highest_priority_def)

lemma highest_priority_ge:
  "x \<in> set srcs \<Longrightarrow> usable now (snd x) \<Longrightarrow> source_priority (snd x) \<le> highest_priority now srcs"
  by (induction srcs rule: rev_induct) (auto simp: highest_priority_snoc le_max_iff_disj)

lemma highest_priority_attained:
  "filter (usable now \<circ> snd) srcs \<noteq> [] \<Longrightarrow> top_sources now srcs \<noteq> []"
proof (induction srcs rule: rev_induct)
  case (snoc x srcs)
  show ?case
  proof (cases "usable now (snd x) \<and> highest_priority now srcs \<le> source_priority (snd x)")
    case True
    then show ?thesis by (simp add: top_sources_def highest_priority_snoc max_absorb1)
  next
    case False
    then have eq: "highest_priority now (srcs @ [x]) = highest_priority now srcs"
      by (auto simp: highest_priority_snoc max_def)
    have "filter (usable now \<circ> snd) srcs \<noteq> []"
    proof
      assume none: "filter (usable now \<circ> snd) srcs = []"
      then have "highest_priority now srcs = 0" by (simp add: highest_priority_def)
      with False snoc.prems none show False by (auto simp: comp_def split: if_splits)
    qed
    with snoc.IH show ?thesis by (auto simp: top_sources_def eq comp_def)
  qed
qed simp

lemma visit_unusable: "\<not> usable now (snd x) \<Longrightarrow> visit_source now x st = st"
  by (cases st) (auto simp: visit_source_def consider_source_def usable_def)

lemma visit_usable:
  "usable now s \<Longrightarrow> visit_source now (b, s) (p, act, f) =
     (if source_priority s > p then (source_priority s, [s], b)
      else if source_priority s = p then (p, act @ [s], b \<or> f) else (p, act, f))"
  by (auto simp: visit_source_def consider_source_def usable_def)

lemma fold_visit:
  "fold (visit_source now) srcs (0, [], False) =
     (highest_priority now srcs, map snd (top_sources now srcs), \<exists>x\<in>set (top_sources now srcs). fst x)"
proof (induction srcs rule: rev_induct)
  case Nil
  then show ?case by (simp add: highest_priority_def top_sources_def)
next
  case (snoc x srcs)
  obtain b s where x: "x = (b, s)" by force
  show ?case
  proof (cases "usable now s")
    case False
    then show ?thesis using snoc by (simp add: x visit_unusable top_sources_def highest_priority_snoc)
  next
    case True
    consider (gt) "source_priority s > highest_priority now srcs"
      | (eq) "source_priority s = highest_priority now srcs"
      | (lt) "source_priority s < highest_priority now srcs" by (rule linorder_cases)
    then show ?thesis
    proof cases
      case gt
      then have "highest_priority now (srcs @ [x]) = source_priority s"
        using True by (simp add: x highest_priority_snoc max_absorb1)
      moreover from this have "top_sources now (srcs @ [x]) = [x]"
        using gt True by (auto simp: top_sources_def x filter_empty_conv dest: highest_priority_ge)
      ultimately show ?thesis using snoc gt True by (simp add: x visit_usable)
    next
      case eq
      then have "highest_priority now (srcs @ [x]) = highest_priority now srcs"
        using True by (simp add: x highest_priority_snoc)
      moreover from this have "top_sources now (srcs @ [x]) = top_sources now srcs @ [x]"
        using eq True by (simp add: top_sources_def x)
      ultimately show ?thesis using snoc eq True by (auto simp: x visit_usable)
    next
      case lt
      then have "highest_priority now (srcs @ [x]) = highest_priority now srcs"
        by (simp add: x highest_priority_snoc max_absorb2)
      moreover from this have "top_sources now (srcs @ [x]) = top_sources now srcs"
        using lt by (auto simp: top_sources_def x)
      ultimately show ?thesis using snoc lt True by (auto simp: x visit_usable)
    qed
  qed
qed

lemma fold_merge_loops:
  "fold (consider_source now client)
     (map (\<lambda>(c, _). (c, client_SourceData (clients c) (m_universe_id u))) (m_source_clients u))
     (fold (consider_source now port) (map (\<lambda>p. (p, ports p)) (m_input_ports u)) (SOURCE_PRIORITY_MIN, [], False)) =
   fold (visit_source now) (all_sources ports clients port client u) (0, [], False)"
proof -
  have "fold (consider_source now port) (map (\<lambda>p. (p, ports p)) ps) st =
      fold (visit_source now) (map (\<lambda>p. (port = Some p, ports p)) ps) st" for ps st
    by (induction ps arbitrary: st) (simp_all add: consider_source_mark)
  moreover have "fold (consider_source now client)
      (map (\<lambda>(c, _). (c, client_SourceData (clients c) (m_universe_id u))) cs) st =
    fold (visit_source now) (map (\<lambda>(c, _). (client = Some c, client_SourceData (clients c) (m_universe_id u))) cs) st" for cs st
    by (induction cs arbitrary: st) (auto simp: consider_source_mark)
  ultimately show ?thesis by (simp add: all_sources_def SOURCE_PRIORITY_MIN_def)
qed


subsection \<open>The frame after a merge\<close>

lemma fold_val_HTPMerge:
  "slots (fold (\<lambda>s d. val_HTPMerge d (source_buffer s)) ss d) =
     fold (\<lambda>s xs. htp xs (slots (source_buffer s))) ss (slots d)"
  by (induction ss arbitrary: d) (simp_all add: val_HTPMerge_def)

lemma length_fold_htp:
  "length (fold (\<lambda>s xs. htp xs (slots (source_buffer s))) ss xs) =
     fold max (map (val_Size \<circ> source_buffer) ss) (length xs)"
  by (induction ss arbitrary: xs) (simp_all add: val_Size_def max.commute)

lemma val_Get_htp: "val_Get (Some (htp xs ys)) i = max (val_Get (Some xs) i) (val_Get (Some ys) i)"
  by (simp add: val_Get_def val_Size_def nth_htp max_def)

lemma val_Get_fold_htp:
  "val_Get (Some (fold (\<lambda>s xs. htp xs (slots (source_buffer s))) ss xs)) i =
     fold max (map (\<lambda>s. val_Get (source_buffer s) i) ss) (val_Get (Some xs) i)"
proof (induction ss arbitrary: xs)
  case (Cons s ss)
  have "val_Get (Some (slots (source_buffer s))) i = val_Get (source_buffer s) i"
    by (simp add: val_Get_def val_Size_def)
  with Cons show ?case by (simp add: val_Get_htp max.commute)
qed simp

lemma fold_max_Max:
  fixes x :: "'a :: linorder"
  assumes "ys \<noteq> []" and "\<And>y. x \<le> y"
  shows "fold max ys x = Max (set ys)"
  using assms by (cases ys) (simp_all add: Max.set_eq_fold [symmetric] max_absorb2 flip: Max.set_eq_fold)

lemma all_sources_changed:
  assumes "(True, s) \<in> set (all_sources ports clients port client u)"
  shows "(\<exists>p. port = Some p \<and> s = ports p) \<or>
    (\<exists>c. client = Some c \<and> s = client_SourceData (clients c) (m_universe_id u))"
  using assms by (auto simp: all_sources_def)


text \<open>The declarative reading of the loops: the usable sources, and those of them that no usable source
  beats in priority.\<close>

definition usable_set :: "TimeStamp \<Rightarrow> (bool \<times> DmxSource) list \<Rightarrow> (bool \<times> DmxSource) set" where
  "usable_set now srcs = {x \<in> set srcs. usable now (snd x)}"

definition winners :: "TimeStamp \<Rightarrow> (bool \<times> DmxSource) list \<Rightarrow> (bool \<times> DmxSource) set" where
  "winners now srcs =
     {x \<in> usable_set now srcs. \<forall>y\<in>usable_set now srcs. source_priority (snd y) \<le> source_priority (snd x)}"

lemma set_top_sources: "set (top_sources now srcs) = winners now srcs"
proof (intro set_eqI iffI)
  fix x assume "x \<in> set (top_sources now srcs)"
  then show "x \<in> winners now srcs"
    by (auto simp: top_sources_def winners_def usable_set_def dest: highest_priority_ge)
next
  fix x assume x: "x \<in> winners now srcs"
  then have "filter (usable now \<circ> snd) srcs \<noteq> []"
    by (auto simp: winners_def usable_set_def filter_empty_conv)
  then obtain y where y: "y \<in> set (top_sources now srcs)"
    using highest_priority_attained by (metis last_in_set)
  then have "y \<in> usable_set now srcs"
    by (simp add: usable_set_def top_sources_def)
  then have "source_priority (snd y) \<le> source_priority (snd x)"
    using x unfolding winners_def by blast
  moreover have "source_priority (snd y) = highest_priority now srcs"
    using y by (simp add: top_sources_def)
  moreover have "source_priority (snd x) \<le> highest_priority now srcs"
    using x by (auto simp: winners_def usable_set_def intro: highest_priority_ge)
  ultimately show "x \<in> set (top_sources now srcs)"
    using x by (auto simp: winners_def usable_set_def top_sources_def)
qed

lemma highest_priority_Max:
  "highest_priority now srcs = Max (insert 0 ((source_priority \<circ> snd) ` usable_set now srcs))"
proof -
  let ?ps = "map (source_priority \<circ> snd) (filter (usable now \<circ> snd) srcs)"
  have "insert 0 ((source_priority \<circ> snd) ` usable_set now srcs) = set (0 # ?ps)"
    by (auto simp: usable_set_def)
  then show ?thesis unfolding highest_priority_def by (metis Max.set_eq_fold)
qed

text \<open>The data of the source whose change started the merge.\<close>

definition changed_source :: "(nat \<Rightarrow> DmxSource) \<Rightarrow> (nat \<Rightarrow> client) \<Rightarrow> nat option \<Rightarrow> nat option \<Rightarrow> universe \<Rightarrow> DmxSource" where
  "changed_source ports clients port client u =
     (case port of Some p \<Rightarrow> ports p
      | None \<Rightarrow> (case client of Some c \<Rightarrow> client_SourceData (clients c) (m_universe_id u) | None \<Rightarrow> new_DmxSource))"

lemma MergeAll_top:
  fixes ports clients now port client u
  defines "srcs \<equiv> all_sources ports clients port client u"
  defines "tops \<equiv> map snd (top_sources now srcs)"
    and "cs \<equiv> changed_source ports clients port client u"
    and "u1 \<equiv> u\<lparr>m_active_priority := highest_priority now srcs\<rparr>"
  shows "MergeAll ports clients now port client u =
    (if \<not> (\<exists>x\<in>set (top_sources now srcs). fst x) then (False, u1)
     else if length tops = 1 then (True, u1\<lparr>m_buffer := val_SetBuffer (source_buffer (hd tops)) (m_buffer u)\<rparr>)
     else if m_merge_mode u = MERGE_LTP then
       (if \<exists>s\<in>set tops. stamp_lt (source_timestamp cs) (source_timestamp s) then (False, u1)
        else (True, u1\<lparr>m_buffer := val_SetBuffer (source_buffer cs) (m_buffer u)\<rparr>))
     else (True, HTPMergeSources tops u1))"
  unfolding MergeAll_def Let_def fold_merge_loops fold_visit
  by (auto simp: srcs_def tops_def cs_def u1_def changed_source_def hd_conv_nth list_ex_iff)

lemma val_SetBuffer_wf: "dmx_wf d \<Longrightarrow> val_Size d \<noteq> 0 \<Longrightarrow> val_SetBuffer d e = d"
  by (cases d) (simp_all add: val_SetBuffer_def val_Size_def val_Set_def)

lemma stamp_lt_irrefl [simp]: "\<not> stamp_lt t t"
  by (simp add: stamp_lt_def tv_lt_def timercmp_def)

lemma winners_changed:
  assumes "(port = None) \<noteq> (client = None)" and "x \<in> set (top_sources now (all_sources ports clients port client u))" and "fst x"
  shows "snd x = changed_source ports clients port client u"
proof -
  obtain s where x: "x = (True, s)" using assms(3) by (cases x) auto
  then have "(True, s) \<in> set (all_sources ports clients port client u)"
    using assms(2) by (simp add: top_sources_def)
  from all_sources_changed [OF this] assms(1) show ?thesis
    by (auto simp: changed_source_def x split: option.splits)
qed


lemma HTPMergeSources_frame:
  assumes "ss \<noteq> []"
  shows "val_Size (m_buffer (HTPMergeSources ss u)) = Max ((val_Size \<circ> source_buffer) ` set ss) \<and>
    (\<forall>i. val_Get (m_buffer (HTPMergeSources ss u)) i = Max ((\<lambda>s. val_Get (source_buffer s) i) ` set ss))"
proof -
  let ?f = "fold (\<lambda>s xs. htp xs (slots (source_buffer s))) ss []"
  have "slots (val_Reset (m_buffer u)) = []" by (cases "m_buffer u") simp_all
  then have f: "slots (m_buffer (HTPMergeSources ss u)) = ?f"
    by (simp add: HTPMergeSources_def fold_val_HTPMerge)
  have "val_Get (m_buffer (HTPMergeSources ss u)) i = val_Get (Some ?f) i" for i
    by (simp add: val_Get_def val_Size_def f)
  then have "val_Get (m_buffer (HTPMergeSources ss u)) i = Max (set (map (\<lambda>s. val_Get (source_buffer s) i) ss))" for i
    using assms by (simp add: val_Get_fold_htp val_Get_def [of "Some []"] val_Size_def fold_max_Max del: set_map)
  moreover have "val_Size (m_buffer (HTPMergeSources ss u)) = Max (set (map (val_Size \<circ> source_buffer) ss))"
    using assms by (simp add: val_Size_def [of "m_buffer _"] f length_fold_htp fold_max_Max del: set_map)
  ultimately show ?thesis by (simp add: image_image)
qed

lemma HTPMergeSources_fields: "HTPMergeSources ss u = u\<lparr>m_buffer := m_buffer (HTPMergeSources ss u)\<rparr>"
  by (simp add: HTPMergeSources_def)

text \<open>C3: The merge of a universe, after a change of one input port or one source client. The active
  priority is the highest priority of a source that has data, is not older than the timeout and is
  not empty; only the sources of that priority count. If the changed source is not one of them the
  frame stays as it is. In the HTP mode every slot becomes the largest value a winning source has there,
  and the frame is as long as the longest of them, whatever the order of the sources; in the LTP mode the frame
  becomes the one of the changed source, unless a winning source is newer. Nothing else changes.\<close>

theorem merge_all_sources:
  assumes one: "(port = None) \<noteq> (client = None)"
    and wf: "\<forall>x \<in> set (all_sources ports clients port client u). dmx_wf (source_buffer (snd x))"
    and merged: "MergeAll ports clients now port client u = (changed, u')"
  shows "let srcs = all_sources ports clients port client u; W = winners now srcs;
      cs = changed_source ports clients port client u
    in u' = u\<lparr>m_active_priority := Max (insert 0 ((source_priority \<circ> snd) ` usable_set now srcs)),
              m_buffer := m_buffer u'\<rparr> \<and>
       (changed \<longleftrightarrow> (\<exists>x\<in>W. fst x) \<and> (m_merge_mode u = MERGE_LTP \<longrightarrow>
          (\<forall>x\<in>W. \<not> stamp_lt (source_timestamp cs) (source_timestamp (snd x))))) \<and>
       (\<not> changed \<longrightarrow> m_buffer u' = m_buffer u) \<and>
       (changed \<and> m_merge_mode u = MERGE_LTP \<longrightarrow> m_buffer u' = source_buffer cs) \<and>
       (changed \<and> m_merge_mode u = MERGE_HTP \<longrightarrow>
          val_Size (m_buffer u') = Max ((val_Size \<circ> source_buffer \<circ> snd) ` W) \<and>
          (\<forall>i. val_Get (m_buffer u') i = Max ((\<lambda>x. val_Get (source_buffer (snd x)) i) ` W)))"
proof -
  let ?srcs = "all_sources ports clients port client u"
  let ?T = "top_sources now ?srcs"
  let ?cs = "changed_source ports clients port client u"
  let ?u1 = "u\<lparr>m_active_priority := highest_priority now ?srcs\<rparr>"
  have M: "(changed, u') = (if \<not> (\<exists>x\<in>set ?T. fst x) then (False, ?u1)
     else if length ?T = 1 then (True, ?u1\<lparr>m_buffer := val_SetBuffer (source_buffer (hd (map snd ?T))) (m_buffer u)\<rparr>)
     else if m_merge_mode u = MERGE_LTP then
       (if \<exists>s\<in>set (map snd ?T). stamp_lt (source_timestamp ?cs) (source_timestamp s) then (False, ?u1)
        else (True, ?u1\<lparr>m_buffer := val_SetBuffer (source_buffer ?cs) (m_buffer u)\<rparr>))
     else (True, HTPMergeSources (map snd ?T) ?u1))"
    unfolding merged [symmetric] MergeAll_top length_map by (rule refl)
  have W: "winners now ?srcs = set ?T" by (simp add: set_top_sources)
  have prio: "Max (insert 0 ((source_priority \<circ> snd) ` usable_set now ?srcs)) = highest_priority now ?srcs"
    by (simp add: highest_priority_Max)
  have keep: "val_SetBuffer (source_buffer s) d = source_buffer s" if "s \<in> snd ` set ?T" for s d
    using that wf by (auto simp: top_sources_def usable_def intro!: val_SetBuffer_wf)
  have cs: "?cs \<in> snd ` set ?T" "\<And>x. length ?T = 1 \<Longrightarrow> hd (map snd ?T) = ?cs \<and> set ?T = {(True, ?cs)}"
    if "\<exists>x\<in>set ?T. fst x"
  proof -
    obtain x where x: "x \<in> set ?T" "fst x" using \<open>\<exists>x\<in>set ?T. fst x\<close> by blast
    then have sx: "snd x = ?cs" using winners_changed [OF one] by blast
    with x show "?cs \<in> snd ` set ?T" by force
    show "hd (map snd ?T) = ?cs \<and> set ?T = {(True, ?cs)}" if "length ?T = 1"
      using that x sx by (cases ?T) (auto simp: prod_eq_iff)
  qed
  show ?thesis
  proof (cases "\<exists>x\<in>set ?T. fst x")
    case False
    then have "changed = False" "u' = ?u1" using M by simp_all
    with False show ?thesis unfolding Let_def W prio by auto
  next
    case flag: True
    show ?thesis
    proof (cases "length ?T = 1")
      case True
      then have "changed" "u' = ?u1\<lparr>m_buffer := source_buffer ?cs\<rparr>"
        using M flag cs [OF flag] keep by simp_all
      moreover have "set ?T = {(True, ?cs)}" using cs(2) [OF flag True] by simp
      ultimately show ?thesis unfolding Let_def W prio by simp
    next
      case False
      show ?thesis
      proof (cases "m_merge_mode u")
        case MERGE_LTP
        with M flag False keep [OF cs(1) [OF flag]] show ?thesis
          unfolding Let_def W prio by (auto split: if_splits)
      next
        case MERGE_HTP
        then have u': "changed" "u' = HTPMergeSources (map snd ?T) ?u1" using M flag False by simp_all
        have "map snd ?T \<noteq> []" using flag by auto
        note frame = HTPMergeSources_frame [OF this, of ?u1, folded u'(2)]
        have "u' = ?u1\<lparr>m_buffer := m_buffer u'\<rparr>"
          unfolding u'(2) by (rule HTPMergeSources_fields)
        with frame MERGE_HTP u'(1) flag show ?thesis
          unfolding Let_def W prio by (simp add: image_image comp_def)
      qed
    qed
  qed
qed


text \<open>A universe with two input ports in the HTP mode; both sent one second before \<open>now\<close>.\<close>

definition example_universe :: universe where
  "example_universe = (new_Universe 1 True (TimeStamp (Timeval 5 0)))
     \<lparr>m_merge_mode := MERGE_HTP, m_input_ports := [3, 4]\<rparr>"

definition example_ports :: "nat \<Rightarrow> DmxSource" where
  "example_ports p = \<lparr>source_buffer = Some (if p = 3 then [1, 9] else [7, 2, 5]),
     source_timestamp = TimeStamp (Timeval 10 0), source_priority = 100\<rparr>"

definition example_clients :: "nat \<Rightarrow> client" where
  "example_clients c = \<lparr>m_client_stub = True, m_data_map = []\<rparr>"

definition example_now :: TimeStamp where
  "example_now = TimeStamp (Timeval 11 0)"

lemmas example_defs = example_universe_def example_ports_def example_clients_def example_now_def
  new_Universe_def UpdateName_def UpdateMode_def Let_def

lemma example_usable: "usable example_now (example_ports p)"
  by (simp add: usable_def source_IsSet_def stamp_IsSet_def tv_IsSet_def timerisset_def source_IsActive_def
    Let_def TIMEOUT_INTERVAL_def interval_us_def tv_Set_def stamp_plus_def tv_plus_timeradd stamp_lt_def
    tv_lt_def tv_defs example_ports_def example_now_def signed_divide_int_def signed_modulo_int_def
    val_Size_def)

lemma example_sources:
  "all_sources example_ports example_clients (Some 3) None example_universe =
     [(True, example_ports 3), (False, example_ports 4)]"
  by (simp add: all_sources_def example_defs)

theorem merge_all_sources_witness:
  "\<exists>changed u'. MergeAll example_ports example_clients example_now (Some 3) None example_universe = (changed, u') \<and>
     changed \<and> m_active_priority u' = 100 \<and> val_Size (m_buffer u') = 3 \<and> val_Get (m_buffer u') 0 = 7 \<and>
     val_Get (m_buffer u') 1 = 9"
proof -
  obtain changed u' where m:
    "MergeAll example_ports example_clients example_now (Some 3) None example_universe = (changed, u')"
    by force
  have wf: "\<forall>x \<in> set (all_sources example_ports example_clients (Some 3) None example_universe).
      dmx_wf (source_buffer (snd x))"
    by (simp add: example_sources) (simp add: example_ports_def)
  have mode: "m_merge_mode example_universe = MERGE_HTP"
    by (simp add: example_defs)
  have prio: "source_priority (example_ports p) = 100" for p
    by (simp add: example_ports_def)
  let ?srcs = "[(True, example_ports 3), (False, example_ports 4)]"
  have U: "usable_set example_now ?srcs = set ?srcs"
    by (auto simp: usable_set_def example_usable)
  then have W: "winners example_now ?srcs = set ?srcs"
    by (auto simp: winners_def prio)
  have "m_active_priority u' = Max (insert 0 ((source_priority \<circ> snd) ` set ?srcs)) \<and> changed \<and>
      val_Size (m_buffer u') = Max ((val_Size \<circ> source_buffer \<circ> snd) ` set ?srcs) \<and>
      (\<forall>i. val_Get (m_buffer u') i = Max ((\<lambda>x. val_Get (source_buffer (snd x)) i) ` set ?srcs))"
    using merge_all_sources [OF _ wf m] unfolding example_sources Let_def W U mode
    by (auto dest: arg_cong [of _ _ m_active_priority])
  then have "m_active_priority u' = 100" "changed" "val_Size (m_buffer u') = 3" "val_Get (m_buffer u') 0 = 7"
    "val_Get (m_buffer u') 1 = 9"
    by (simp_all add: prio) (simp_all add: example_ports_def val_Size_def val_Get_def)
  with m show ?thesis by blast
qed

end
