(* ===== verification/Universe_Inv.thy ===== *)
theory Universe_Inv
  imports Universe_Facts
begin

text \<open>
  The state of a universe over a sequence of operations: a step relation with one rule per
  operation, the invariant of the reachable states, the UID map, the cleaning of stale clients,
  and the protocols that count the answers of the ports.
\<close>

section \<open>The invariant\<close>

definition rows_ok :: "universe \<Rightarrow> export_rows \<Rightarrow> bool" where
  "rows_ok u rows \<longleftrightarrow>
     uint_rows rows K_UNIVERSE_INPUT_PORT_VAR = of_nat (length (m_input_ports u)) \<and>
     uint_rows rows K_UNIVERSE_OUTPUT_PORT_VAR = of_nat (length (m_output_ports u)) \<and>
     uint_rows rows K_UNIVERSE_SINK_CLIENTS_VAR = of_nat (length (m_sink_clients u)) \<and>
     uint_rows rows K_UNIVERSE_SOURCE_CLIENTS_VAR = of_nat (length (m_source_clients u)) \<and>
     uint_rows rows K_UNIVERSE_UID_COUNT_VAR = of_nat (length (m_output_uids u)) \<and>
     name_row rows = m_universe_name u \<and>
     mode_row rows = (if m_merge_mode u = MERGE_LTP then ''ltp'' else ''htp'')"

definition lists_ok :: "universe \<Rightarrow> bool" where
  "lists_ok u \<longleftrightarrow> distinct (m_input_ports u) \<and> distinct (m_output_ports u) \<and> set_ok (m_sink_clients u) \<and>
     map_ok (m_source_clients u) \<and> map_ok (m_output_uids u)"

definition universe_ok :: "universe \<Rightarrow> bool" where
  "universe_ok u \<longleftrightarrow> lists_ok u \<and> (case m_export_map u of None \<Rightarrow> True | Some rows \<Rightarrow> rows_ok u rows)"

text \<open>The operations of a universe, as the daemon calls them; the calls they make on other objects do not
  matter here.\<close>

inductive universe_step :: "universe \<Rightarrow> universe \<Rightarrow> bool" where
  set_name: "universe_step u (fst (SetName name u))"
| set_mode: "universe_step u (SetMergeMode mode u)"
| set_interval: "universe_step u (u\<lparr>m_rdm_discovery_interval := i\<rparr>)"
| add_input: "universe_step u (snd (AddInputPort p u))"
| add_output: "universe_step u (snd (AddOutputPort p u))"
| remove_input: "universe_step u (fst (snd (RemoveInputPort p u)))"
| remove_output: "universe_step u (fst (snd (RemoveOutputPort p u)))"
| add_source: "universe_step u (snd (AddSourceClient c u))"
| remove_source: "universe_step u (fst (snd (RemoveSourceClient c u)))"
| add_sink: "universe_step u (snd (AddSinkClient c u))"
| remove_sink: "universe_step u (fst (snd (RemoveSinkClient c u)))"
| clean: "universe_step u (fst (CleanStaleSourceClients u))"
| set_dmx: "universe_step u (fst (snd (SetDMX d u)))"
| port_changed: "universe_step u (fst (snd (PortDataChanged ports clients now p u)))"
| client_changed: "universe_step u (fst (snd (SourceClientDataChanged ports clients now c u)))"
| send_rdm: "universe_step u (fst (universe_SendRDMRequest request u))"
| discovery: "universe_step u (fst (RunRDMDiscovery cb full now u))"
| port_discovery: "universe_step u (fst (PortDiscoveryComplete cb mc p uids u))"

inductive universe_reach :: "nat \<Rightarrow> bool \<Rightarrow> universe \<Rightarrow> bool" for i export where
  create: "universe_reach i export (new_Universe i export now)"
| step: "universe_reach i export u \<Longrightarrow> universe_step u u' \<Longrightarrow> universe_reach i export u'"

lemmas uni_defs = universe_ok_def lists_ok_def rows_ok_def

lemma set_uint_fields [simp]:
  "m_universe_name (set_uint v f u) = m_universe_name u" "m_universe_id (set_uint v f u) = m_universe_id u"
  "m_merge_mode (set_uint v f u) = m_merge_mode u" "m_input_ports (set_uint v f u) = m_input_ports u"
  "m_output_ports (set_uint v f u) = m_output_ports u" "m_sink_clients (set_uint v f u) = m_sink_clients u"
  "m_source_clients (set_uint v f u) = m_source_clients u" "m_output_uids (set_uint v f u) = m_output_uids u"
  "m_buffer (set_uint v f u) = m_buffer u" "m_active_priority (set_uint v f u) = m_active_priority u"
  by (simp_all add: set_uint_def split: option.split)

lemma set_uint_export: "m_export_map (set_uint v f u) =
   map_option (\<lambda>rows. rows\<lparr>uint_rows := (uint_rows rows)(v := f (uint_rows rows v))\<rparr>) (m_export_map u)"
  by (simp add: set_uint_def split: option.split)

lemmas safe_defs = SafeIncrement_def SafeDecrement_def

lemma universe_ok_new: "universe_ok (new_Universe i export now)"
  by (simp add: uni_defs new_Universe_def UpdateName_def UpdateMode_def Let_def)

lemma universe_ok_SetName: "universe_ok u \<Longrightarrow> universe_ok (fst (SetName name u))"
  by (auto simp: uni_defs SetName_def UpdateName_def split: option.splits)

lemma universe_ok_SetMergeMode: "universe_ok u \<Longrightarrow> universe_ok (SetMergeMode mode u)"
  by (auto simp: uni_defs SetMergeMode_def UpdateMode_def split: option.splits)

lemma universe_ok_cong:
  assumes "universe_ok u" and "m_input_ports v = m_input_ports u" and "m_output_ports v = m_output_ports u"
    and "m_sink_clients v = m_sink_clients u" and "m_source_clients v = m_source_clients u"
    and "m_output_uids v = m_output_uids u" and "m_universe_name v = m_universe_name u"
    and "m_merge_mode v = m_merge_mode u" and "m_export_map v = m_export_map u"
  shows "universe_ok v"
  using assms by (auto simp: uni_defs split: option.splits)

lemma universe_ok_fps: "universe_ok u \<Longrightarrow> v \<in> {K_FPS_VAR, K_UNIVERSE_RDM_REQUESTS} \<Longrightarrow> universe_ok (SafeIncrement v u)"
  by (auto simp: uni_defs safe_defs set_uint_export split: option.splits)

lemma universe_ok_AddInputPort: "universe_ok u \<Longrightarrow> universe_ok (snd (AddInputPort p u))"
  by (auto simp: uni_defs AddInputPort_def safe_defs set_uint_export split: option.splits)

lemma universe_ok_AddOutputPort: "universe_ok u \<Longrightarrow> universe_ok (snd (AddOutputPort p u))"
  by (auto simp: uni_defs AddOutputPort_def safe_defs set_uint_export split: option.splits)

lemma of_nat_pred: "Suc n = m \<Longrightarrow> (of_nat m - 1 :: u32) = of_nat n"
  by auto

lemma of_nat_remove1: "x \<in> set xs \<Longrightarrow> of_nat (length (remove1 x xs)) = (of_nat (length xs) - 1 :: u32)"
  using length_pos_if_in_set [of x xs] by (intro of_nat_pred [symmetric]) (simp add: length_remove1)

lemma universe_ok_RemoveInputPort: "universe_ok u \<Longrightarrow> universe_ok (fst (snd (RemoveInputPort p u)))"
  by (auto simp: uni_defs RemoveInputPort_def safe_defs set_uint_export of_nat_remove1 Let_def split: option.splits)

lemma universe_ok_RemoveOutputPort: "universe_ok u \<Longrightarrow> universe_ok (fst (snd (RemoveOutputPort p u)))"
  by (auto simp: uni_defs RemoveOutputPort_def GenericRemoveOutputPort_def safe_defs set_uint_export
    of_nat_remove1 Let_def map_filter_ok split: option.splits)

lemma universe_ok_AddSourceClient:
  assumes "universe_ok u"
  shows "universe_ok (snd (AddSourceClient c u))"
proof -
  have "map_ok (m_source_clients u)" using assms by (simp add: uni_defs)
  from assms STLReplace_ok [OF this, of c False] length_STLReplace [of "m_source_clients u" c False] show ?thesis
    by (cases "STLReplace (m_source_clients u) c False")
      (auto simp: uni_defs AddSourceClient_def safe_defs set_uint_export split: option.splits)
qed

lemma universe_ok_RemoveSourceClient:
  assumes "universe_ok u"
  shows "universe_ok (fst (snd (RemoveSourceClient c u)))"
proof (cases "STLContains (m_source_clients u) c")
  case True
  have ok: "map_ok (m_source_clients u)" using assms by (simp add: uni_defs)
  have len: "(of_nat (length (m_source_clients u)) - 1 :: u32) = of_nat (length (map_erase c (m_source_clients u)))"
    using length_map_erase [OF ok] True by (intro of_nat_pred) (simp add: STLContains_def)
  with assms True ok show ?thesis
    by (auto simp: uni_defs RemoveSourceClient_def STLRemove_def safe_defs set_uint_export Let_def split: option.splits)
qed (use assms in \<open>simp add: RemoveSourceClient_def STLRemove_def\<close>)

lemma universe_ok_AddSinkClient:
  assumes "universe_ok u"
  shows "universe_ok (snd (AddSinkClient c u))"
proof -
  have "set_ok (m_sink_clients u)" using assms by (simp add: uni_defs)
  from assms stl_set_insert_ok [OF this, of c] length_stl_set_insert [of c "m_sink_clients u"] show ?thesis
    by (cases "stl_set_insert c (m_sink_clients u)")
      (auto simp: uni_defs AddSinkClient_def safe_defs set_uint_export split: option.splits)
qed

lemma universe_ok_RemoveSinkClient:
  assumes "universe_ok u"
  shows "universe_ok (fst (snd (RemoveSinkClient c u)))"
proof (cases "c \<in> set (m_sink_clients u)")
  case True
  have ok: "set_ok (m_sink_clients u)" using assms by (simp add: uni_defs)
  have len: "(of_nat (length (m_sink_clients u)) - 1 :: u32) = of_nat (length (snd (stl_set_remove c (m_sink_clients u))))"
    using length_stl_set_remove [OF ok True] by (intro of_nat_pred)
  with assms True stl_set_remove_ok [OF ok, of c] show ?thesis
    by (auto simp: uni_defs RemoveSinkClient_def stl_set_remove_def safe_defs set_uint_export Let_def split: option.splits)
qed (use assms in \<open>simp add: RemoveSinkClient_def stl_set_remove_def\<close>)


subsection \<open>Stale clients\<close>

abbreviation mark_stale :: "(nat, bool) stl_map \<Rightarrow> (nat, bool) stl_map" where
  "mark_stale cs \<equiv> map (\<lambda>(c, _). (c, True)) (filter (\<lambda>(_, stale). \<not> stale) cs)"

lemma clean_loop_result:
  assumes "m_source_clients u = visited @ rest"
  shows "m_source_clients (fst (clean_loop visited rest u effects)) = visited @ mark_stale rest \<and>
    m_input_ports (fst (clean_loop visited rest u effects)) = m_input_ports u \<and>
    m_output_ports (fst (clean_loop visited rest u effects)) = m_output_ports u \<and>
    m_sink_clients (fst (clean_loop visited rest u effects)) = m_sink_clients u \<and>
    m_universe_id (fst (clean_loop visited rest u effects)) = m_universe_id u"
  using assms by (induction visited rest u effects rule: clean_loop.induct) (auto simp: safe_defs Let_def)

lemma clean_loop_effects:
  assumes "m_source_clients u = visited @ rest"
  shows "snd (clean_loop visited rest u effects) = effects @
    (if (\<exists>x\<in>set rest. snd x) then check_active (fst (clean_loop visited rest u effects)) else [])"
  using assms
proof (induction visited rest u effects rule: clean_loop.induct)
  case (2 visited c stale rest u effects)
  show ?case
  proof (cases stale)
    case True
    let ?u1 = "SafeDecrement K_UNIVERSE_SOURCE_CLIENTS_VAR (u\<lparr>m_source_clients := visited @ rest\<rparr>)"
    have src: "m_source_clients ?u1 = visited @ rest" by (simp add: safe_defs)
    note IH = "2.IH"(1) [OF True refl src]
    define v where "v = fst (clean_loop visited rest ?u1 (effects @ check_active ?u1))"
    have res: "m_source_clients v = visited @ mark_stale rest" "m_input_ports v = m_input_ports ?u1"
      "m_output_ports v = m_output_ports ?u1" "m_sink_clients v = m_sink_clients ?u1"
      "m_universe_id v = m_universe_id ?u1"
      using clean_loop_result [OF src, of "effects @ check_active ?u1", folded v_def] by simp_all
    show ?thesis
    proof (cases "\<exists>x\<in>set rest. snd x")
      case more: True
      then have "check_active ?u1 = []" by (auto simp: check_active_def IsActive_def src)
      with IH True more show ?thesis by (simp add: Let_def)
    next
      case False
      then have "filter (\<lambda>(_, stale). \<not> stale) rest = rest" by (auto simp: filter_id_conv)
      then have same: "m_source_clients v = [] \<longleftrightarrow> m_source_clients ?u1 = []"
        using res(1) src by auto
      have "check_active v = check_active ?u1"
        unfolding check_active_def IsActive_def same res(2-5) by (rule refl)
      with IH True False show ?thesis by (simp add: Let_def v_def)
    qed
  qed (use 2 in simp)
qed simp

lemma map_ok_mark:
  "map_ok (visited @ (c, a) # rest) \<Longrightarrow> map_ok (visited @ (c, b) # rest)"
  by simp

lemma universe_ok_clean_loop:
  assumes "m_source_clients u = visited @ rest" and "universe_ok u"
  shows "universe_ok (fst (clean_loop visited rest u effects))"
  using assms
proof (induction visited rest u effects rule: clean_loop.induct)
  case (2 visited c stale rest u effects)
  let ?u1 = "SafeDecrement K_UNIVERSE_SOURCE_CLIENTS_VAR (u\<lparr>m_source_clients := visited @ rest\<rparr>)"
  have ok: "map_ok (visited @ rest)"
    using 2(3,4) by (simp add: uni_defs sorted_wrt_append)
  then have "universe_ok ?u1"
    using 2(3,4) by (auto simp: uni_defs safe_defs set_uint_export split: option.splits)
  moreover have "universe_ok (u\<lparr>m_source_clients := visited @ (c, True) # rest\<rparr>)"
    using 2(3,4) by (auto simp: uni_defs sorted_wrt_append split: option.splits)
  ultimately show ?case using "2.IH" by (simp add: Let_def safe_defs)
qed simp

lemma universe_ok_Clean: "universe_ok u \<Longrightarrow> universe_ok (fst (CleanStaleSourceClients u))"
  by (simp add: CleanStaleSourceClients_def universe_ok_clean_loop)

subsection \<open>Data and discovery\<close>

lemma universe_ok_UpdateDependants: "universe_ok u \<Longrightarrow> universe_ok (fst (snd (UpdateDependants u)))"
  by (simp add: UpdateDependants_def universe_ok_fps)

lemma universe_ok_buffer [simp]:
  "universe_ok (u\<lparr>m_buffer := b\<rparr>) = universe_ok u"
  "universe_ok (u\<lparr>m_active_priority := p\<rparr>) = universe_ok u"
  "universe_ok (u\<lparr>m_rdm_discovery_interval := i\<rparr>) = universe_ok u"
  "universe_ok (u\<lparr>m_last_discovery_time := t\<rparr>) = universe_ok u"
  by (auto simp: uni_defs split: option.splits)

lemma universe_ok_MergeAll: "universe_ok u \<Longrightarrow> universe_ok (snd (MergeAll ports clients now port client u))"
  by (simp add: MergeAll_top HTPMergeSources_def)

lemma universe_ok_SetDMX: "universe_ok u \<Longrightarrow> universe_ok (fst (snd (SetDMX d u)))"
  by (simp add: SetDMX_def universe_ok_UpdateDependants)

lemma universe_ok_PortDataChanged:
  "universe_ok u \<Longrightarrow> universe_ok (fst (snd (PortDataChanged ports clients now p u)))"
  using universe_ok_MergeAll [of u ports clients now "Some p" None]
  by (auto simp: PortDataChanged_def split_beta Let_def universe_ok_UpdateDependants)

lemma universe_ok_SourceClientDataChanged:
  "universe_ok u \<Longrightarrow> universe_ok (fst (snd (SourceClientDataChanged ports clients now c u)))"
  by (cases c) (simp_all add: SourceClientDataChanged_def split_beta Let_def universe_ok_UpdateDependants
    universe_ok_MergeAll universe_ok_AddSourceClient)

lemma universe_ok_SendRDM: "universe_ok u \<Longrightarrow> universe_ok (fst (universe_SendRDMRequest request u))"
  using universe_ok_fps [of u K_UNIVERSE_RDM_REQUESTS]
  by (simp add: universe_SendRDMRequest_def Let_def split: option.split)


subsection \<open>The UID map\<close>

lemma add_uid_ok: "map_ok m \<Longrightarrow> map_ok (add_uid_to_port port x m)"
  by (simp add: add_uid_to_port_def STLReplace_ok split: option.split)

lemma add_uid_lookup:
  "map_ok m \<Longrightarrow> map_of (add_uid_to_port port x m) y = (if map_of m y = None \<and> y = x then Some port else map_of m y)"
  by (auto simp: add_uid_to_port_def STLReplace_lookup split: option.split)

lemma fold_add_uid:
  "map_ok m \<Longrightarrow> map_ok (fold (add_uid_to_port port) uids m) \<and>
    map_of (fold (add_uid_to_port port) uids m) y =
      (if map_of m y = None \<and> y \<in> set uids then Some port else map_of m y)"
  by (induction uids arbitrary: m) (auto simp: add_uid_ok add_uid_lookup)

text \<open>The UID map after a port reported its UIDs.\<close>

definition uid_lookup :: "nat \<Rightarrow> uid_set \<Rightarrow> (uid \<Rightarrow> nat option) \<Rightarrow> uid \<Rightarrow> nat option" where
  "uid_lookup port uids old x =
     (if old x \<noteq> None \<and> old x \<noteq> Some port then old x else if x \<in> set uids then Some port else None)"

lemma NewUIDList_lookup:
  assumes "map_ok (m_output_uids u)" and "uids_ok uids"
  shows "map_of (m_output_uids (NewUIDList port uids u)) = uid_lookup port uids (map_of (m_output_uids u))"
    and "map_ok (m_output_uids (NewUIDList port uids u))"
proof -
  let ?m = "filter (\<lambda>(uid, p). \<not> (p = port \<and> \<not> Contains uids uid)) (m_output_uids u)"
  have ok: "map_ok ?m" using assms(1) by (rule map_filter_ok)
  from fold_add_uid [OF ok] show "map_ok (m_output_uids (NewUIDList port uids u))"
    by (simp add: NewUIDList_def Let_def)
  show "map_of (m_output_uids (NewUIDList port uids u)) = uid_lookup port uids (map_of (m_output_uids u))"
    using fold_add_uid [OF ok, of port uids] map_of_filter_ok [OF assms(1)] assms(2)
    by (auto simp: NewUIDList_def Let_def fun_eq_iff uid_lookup_def uids.member_abs split: option.split)
qed

lemma fold_uid_map_ok:
  assumes "map_ok m"
  shows "map_ok (fold (add_uid_to_port port) uids (filter P m))"
  using fold_add_uid [OF map_filter_ok [OF assms]] by blast

lemma universe_ok_NewUIDList: "universe_ok u \<Longrightarrow> universe_ok (NewUIDList port uids u)"
  by (auto simp: uni_defs NewUIDList_def Let_def set_uint_export fold_uid_map_ok split: option.splits)

lemma universe_ok_PortDiscoveryComplete:
  "universe_ok u \<Longrightarrow> universe_ok (fst (PortDiscoveryComplete cb mc p uids u))"
  by (simp add: PortDiscoveryComplete_def split_beta Let_def universe_ok_NewUIDList)

lemma universe_ok_RunRDMDiscovery: "universe_ok u \<Longrightarrow> universe_ok (fst (RunRDMDiscovery cb full now u))"
  by (simp add: RunRDMDiscovery_def split_beta Let_def)

lemma universe_ok_step: "universe_step u u' \<Longrightarrow> universe_ok u \<Longrightarrow> universe_ok u'"
  by (induction rule: universe_step.induct)
    (simp_all add: universe_ok_SetName universe_ok_SetMergeMode universe_ok_AddInputPort universe_ok_AddOutputPort
      universe_ok_RemoveInputPort universe_ok_RemoveOutputPort universe_ok_AddSourceClient
      universe_ok_RemoveSourceClient universe_ok_AddSinkClient universe_ok_RemoveSinkClient universe_ok_Clean
      universe_ok_SetDMX universe_ok_PortDataChanged universe_ok_SourceClientDataChanged universe_ok_SendRDM
      universe_ok_RunRDMDiscovery universe_ok_PortDiscoveryComplete)

lemma set_GetUIDs: "set (fold (\<lambda>(uid, _). AddUID uid) m s) = set s \<union> dom (map_of m)"
  by (induction m arbitrary: s) (auto simp: dom_if split: if_splits)

lemma GetUIDs_ok: "uids_ok s \<Longrightarrow> uids_ok (fold (\<lambda>(uid, _). AddUID uid) m s)"
  by (induction m arbitrary: s) (auto simp: AddUID_ok)

section \<open>Counting the answers of the ports\<close>

text \<open>A request that fans out to several ports waits for the answer of each: \<open>handle\<close> takes the object
  that counts, one answer and the state it may change, and gives the new state, what is left of the
  counting object and the calls it makes. \<open>run_answers\<close> delivers answers in the order they arrive;
  once the counting object is gone nothing more is delivered to it.\<close>

fun run_answers :: "('c \<Rightarrow> 'a \<Rightarrow> 's \<Rightarrow> 's \<times> 'c option \<times> 'e list) \<Rightarrow> 'c \<Rightarrow> 'a list \<Rightarrow> 's \<Rightarrow>
    's \<times> 'c option \<times> 'e list" where
  "run_answers handle c [] s = (s, Some c, [])"
| "run_answers handle c (a # as) s =
     (case handle c a s of
        (s1, None, e) \<Rightarrow> (s1, None, e)
      | (s1, Some c1, e) \<Rightarrow> (let (s2, c2, e2) = run_answers handle c1 as s1 in (s2, c2, e @ e2)))"

locale answer_counter =
  fixes handle :: "'c \<Rightarrow> 'a \<Rightarrow> 's \<Rightarrow> 's \<times> 'c option \<times> 'e list"
    and count limit :: "'c \<Rightarrow> nat"
    and upd :: "'a \<Rightarrow> 'c \<Rightarrow> 'c"
    and upd_state :: "'a \<Rightarrow> 's \<Rightarrow> 's"
    and finish :: "'c \<Rightarrow> 'a \<Rightarrow> 's \<Rightarrow> 'e list"
  assumes handle: "handle c a s = (upd_state a s,
      if Suc (count c) = limit c then None else Some (upd a c),
      if Suc (count c) = limit c then finish (upd a c) a (upd_state a s) else [])"
    and count_upd: "count (upd a c) = Suc (count c)"
    and limit_upd: "limit (upd a c) = limit c"
begin

text \<open>As long as an answer is missing nothing is reported; the last answer reports once.\<close>

lemma run_partial:
  "count c + length as < limit c \<Longrightarrow>
    run_answers handle c as s = (fold upd_state as s, Some (fold upd as c), [])"
  by (induction as arbitrary: c s) (auto simp: handle count_upd limit_upd)

lemma run_all:
  "count c + length as = limit c \<Longrightarrow> as \<noteq> [] \<Longrightarrow>
    run_answers handle c as s =
      (fold upd_state as s, None, finish (fold upd as c) (last as) (fold upd_state as s))"
  by (induction as arbitrary: c s) (auto simp: handle count_upd limit_upd neq_Nil_conv)

end

definition ack_update :: "rdm_response_code \<times> bytes list \<Rightarrow> broadcast_request_tracker \<Rightarrow> broadcast_request_tracker" where
  "ack_update = (\<lambda>(code, _) t. t\<lparr>current_count := Suc (current_count t),
     response_code := (if code \<noteq> RDM_WAS_BROADCAST then code else response_code t)\<rparr>)"

definition dub_code :: "rdm_response_code \<Rightarrow> rdm_response_code \<Rightarrow> rdm_response_code" where
  "dub_code old code =
     (if code = RDM_DUB_RESPONSE then RDM_DUB_RESPONSE
      else if code = RDM_TIMEOUT \<and> old \<noteq> RDM_DUB_RESPONSE then code
      else if old \<noteq> RDM_DUB_RESPONSE \<and> old \<noteq> RDM_TIMEOUT then code else old)"

definition dub_update :: "rdm_response_code \<times> bytes list \<Rightarrow> broadcast_request_tracker \<Rightarrow> broadcast_request_tracker" where
  "dub_update = (\<lambda>(code, packets) t. t\<lparr>current_count := Suc (current_count t),
     response_code := dub_code (response_code t) code, tracker_packets := tracker_packets t @ packets\<rparr>)"

interpretation acks: answer_counter
  "\<lambda>t (code, packets) (). ((), HandleBroadcastAck t code packets)" current_count expected_count
  ack_update "\<lambda>_ u. u" "\<lambda>t (_, packets) _. [RunRDMCallback (response_code t) packets]"
  by unfold_locales (auto simp: HandleBroadcastAck_def ack_update_def Let_def split: unit.splits)

interpretation dubs: answer_counter
  "\<lambda>t (code, packets) (). ((), HandleBroadcastDiscovery t code packets)" current_count expected_count
  dub_update "\<lambda>_ u. u" "\<lambda>t _ _. [RunRDMCallback (response_code t) (tracker_packets t)]"
  by unfold_locales (auto simp: HandleBroadcastDiscovery_def dub_update_def dub_code_def Let_def split: unit.splits)

interpretation discos: answer_counter
  "\<lambda>c (port, uids) u. PortDiscoveryComplete cb c port uids u" m_count m_limit
  "\<lambda>_ c. c\<lparr>m_count := Suc (m_count c)\<rparr>" "\<lambda>(port, uids). NewUIDList port uids" "\<lambda>_ _ u. DiscoveryComplete cb u"
  for cb
  by unfold_locales (auto simp: PortDiscoveryComplete_def MultiCallback_Run_def Let_def)

end
