(* ===== verification/Universe_Laws.thy ===== *)
theory Universe_Laws
  imports Universe_Inv
begin

text \<open>
  The properties of a universe that rest on its invariant and on the counting of answers: counters,
  stale clients, broadcasts, discovery rounds and the routing of RDM requests.
\<close>

section \<open>Counters and stale clients\<close>

text \<open>C9: In every state a universe can reach, the ports are pairwise distinct, the containers of clients and
  UIDs are well formed, and the exported variables are the sizes of the containers they
  stand for, the name and the merge mode of the universe, whatever operations ran in whatever order.\<close>

theorem universe_invariant:
  assumes "universe_reach i export u"
  shows "universe_ok u"
  using assms by induction (auto simp: universe_ok_new intro: universe_ok_step)

theorem universe_invariant_witness:
  "universe_ok (fst (snd (RemoveOutputPort 7 (snd (AddOutputPort 7 (new_Universe 1 True (TimeStamp (Timeval 1 0))))))))"
  by (rule universe_invariant [OF universe_reach.step [OF universe_reach.step
    [OF universe_reach.create universe_step.add_output] universe_step.remove_output]])

text \<open>Cleaning removes exactly the source clients that were marked and marks the others. So a client that
  sends nothing between two cleanings is gone after the second, and one that sends stays; the store is told once, and
  only if clients were removed and the universe has no user left.\<close>

theorem stale_clients:
  assumes ok: "universe_ok u" and u1: "u1 = fst (CleanStaleSourceClients u)"
  shows "m_source_clients u1 = mark_stale (m_source_clients u) \<and>
    snd (CleanStaleSourceClients u) =
      (if (\<exists>x\<in>set (m_source_clients u). snd x) \<and> \<not> IsActive u1
       then [AddUniverseGarbageCollection (m_universe_id u)] else []) \<and>
    m_source_clients (fst (CleanStaleSourceClients u1)) = [] \<and>
    ContainsSourceClient c (fst (CleanStaleSourceClients (snd (AddSourceClient c u1))))"
proof -
  have res: "m_source_clients u1 = mark_stale (m_source_clients u)" "m_universe_id u1 = m_universe_id u"
    using clean_loop_result [of u "[]" "m_source_clients u" "[]"] by (simp_all add: u1 CleanStaleSourceClients_def)
  have eff: "snd (CleanStaleSourceClients u) = (if \<exists>x\<in>set (m_source_clients u). snd x then check_active u1 else [])"
    using clean_loop_effects [of u "[]" "m_source_clients u" "[]"] by (simp add: u1 CleanStaleSourceClients_def)
  have clean: "m_source_clients (fst (CleanStaleSourceClients v)) = mark_stale (m_source_clients v)" for v
    using clean_loop_result [of v "[]" "m_source_clients v" "[]"] by (simp add: CleanStaleSourceClients_def)
  have gone: "mark_stale (mark_stale cs) = []" for cs by (auto simp: filter_empty_conv)
  let ?v = "snd (AddSourceClient c u1)"
  have ok1: "map_ok (m_source_clients u1)"
    using universe_ok_Clean [OF ok] by (simp add: u1 uni_defs)
  have "map_of (m_source_clients ?v) c = Some False" "map_ok (m_source_clients ?v)"
    using STLReplace_lookup [OF ok1, of c False] STLReplace_ok [OF ok1, of c False]
    by (auto simp: AddSourceClient_def safe_defs split_beta)
  then have "(c, False) \<in> set (m_source_clients ?v)" by (auto dest: map_of_SomeD)
  then have "(c, True) \<in> set (m_source_clients (fst (CleanStaleSourceClients ?v)))"
    unfolding clean by force
  then have "ContainsSourceClient c (fst (CleanStaleSourceClients ?v))"
    unfolding ContainsSourceClient_def STLContains_def map_of_eq_None_iff by force
  then show ?thesis using res eff clean [of u1] gone by (simp add: check_active_def)
qed

theorem stale_clients_witness:
  "ContainsSourceClient 2 (fst (CleanStaleSourceClients (snd (AddSourceClient 2
     (fst (CleanStaleSourceClients (new_Universe 1 True (TimeStamp (Timeval 1 0)))))))))"
  using stale_clients [OF universe_ok_new refl, of 1 True "TimeStamp (Timeval 1 0)" 2] by blast

section \<open>Broadcast requests\<close>

lemma fold_ack:
  "expected_count (fold ack_update as t) = expected_count t \<and>
   response_code (fold ack_update as t) =
     (case filter (\<lambda>c. c \<noteq> RDM_WAS_BROADCAST) (map fst as) of [] \<Rightarrow> response_code t | cs \<Rightarrow> last cs)"
  by (induction as arbitrary: t) (auto simp: ack_update_def split: list.splits)

lemma fold_dub_packets: "tracker_packets (fold dub_update as t) = tracker_packets t @ concat (map snd as)"
  by (induction as arbitrary: t) (auto simp: dub_update_def)

lemma fold_dub_code:
  "response_code (fold dub_update as t) = fold (\<lambda>c old. dub_code old c) (map fst as) (response_code t)"
  by (induction as arbitrary: t) (auto simp: dub_update_def)

lemma fold_dub_code_cases:
  "fold (\<lambda>c old. dub_code old c) cs old =
     (if RDM_DUB_RESPONSE \<in> set (old # cs) then RDM_DUB_RESPONSE
      else if RDM_TIMEOUT \<in> set (old # cs) then RDM_TIMEOUT else last (old # cs))"
  by (induction cs arbitrary: old) (auto simp: dub_code_def)

text \<open>C11: In a universe with at least one output port, a broadcast request goes once to every output port. Whatever the order
  of the answers, the caller's callback does not run while an answer is missing and runs exactly once with the last one.
  For a plain broadcast its code is the last error a port reported, if any; for a discovery unique branch request it is
  \<open>RDM_DUB_RESPONSE\<close> if a port has one, else \<open>RDM_TIMEOUT\<close> if a port has that, else the last code, with the
  packets of all ports. Without output ports the callback never runs.\<close>

theorem broadcast_request:
  assumes bc: "IsBroadcast (m_destination request)" and ports: "m_output_ports u \<noteq> []"
    and sent: "universe_SendRDMRequest request u = (u1, Some t, calls)"
    and answers: "length answers = length (m_output_ports u)"
    and dub: "dub \<longleftrightarrow> m_command_class request = DISCOVER_COMMAND \<and> m_param_id request = PID_DISC_UNIQUE_BRANCH"
    and handle: "handle = (if dub then (\<lambda>t (code, packets) (). ((), HandleBroadcastDiscovery t code packets))
                           else (\<lambda>t (code, packets) (). ((), HandleBroadcastAck t code packets)))"
    and code: "errors = filter (\<lambda>c. c \<noteq> RDM_WAS_BROADCAST) (map fst answers)"
  shows "calls = map (\<lambda>p. PortSendRDMRequest p request (if dub then OnBroadcastDiscovery else OnBroadcastAck))
      (m_output_ports u) \<and>
    (\<forall>n < length answers. snd (snd (run_answers handle t (take n answers) ())) = []) \<and>
    run_answers handle t answers () =
      ((), None, [if dub then
          RunRDMCallback (if RDM_DUB_RESPONSE \<in> fst ` set answers then RDM_DUB_RESPONSE
                          else if RDM_TIMEOUT \<in> fst ` set answers then RDM_TIMEOUT
                          else fst (last answers)) (concat (map snd answers))
        else RunRDMCallback (if errors = [] then RDM_WAS_BROADCAST else last errors) (snd (last answers))])"
proof -
  have t: "current_count t = 0" "expected_count t = length answers" "tracker_packets t = []"
    "response_code t = (if dub then RDM_PLUGIN_DISCOVERY_NOT_SUPPORTED else RDM_WAS_BROADCAST)"
    and calls: "calls = map (\<lambda>p. PortSendRDMRequest p request (if dub then OnBroadcastDiscovery else OnBroadcastAck))
      (m_output_ports u)"
    using sent bc answers by (auto simp: universe_SendRDMRequest_def Let_def dub safe_defs)
  have ne: "answers \<noteq> []" using answers ports by auto
  show ?thesis
  proof (cases dub)
    case True
    have "snd (snd (run_answers handle t (take n answers) ())) = []" if "n < length answers" for n
      using dubs.run_partial [of t "take n answers" "()"] that t by (simp add: handle True)
    moreover have "run_answers handle t answers () =
        ((), None, [RunRDMCallback (response_code (fold dub_update answers t)) (tracker_packets (fold dub_update answers t))])"
      using dubs.run_all [of t answers "()"] t ne by (simp add: handle True)
    ultimately show ?thesis
      using True ne calls by (simp add: fold_dub_code fold_dub_code_cases fold_dub_packets t last_map)
  next
    case False
    have "snd (snd (run_answers handle t (take n answers) ())) = []" if "n < length answers" for n
      using acks.run_partial [of t "take n answers" "()"] that t by (simp add: handle False)
    moreover have "run_answers handle t answers () =
        ((), None, [RunRDMCallback (response_code (fold ack_update answers t)) (snd (last answers))])"
      using acks.run_all [of t answers "()"] t ne by (cases "last answers") (simp add: handle False)
    ultimately show ?thesis
      using False calls by (simp add: fold_ack t code split: list.split)
  qed
qed


definition example_request :: rdm_command where
  "example_request = \<lparr>m_source = UID 1 2, m_destination = AllDevices, m_transaction_number = 0, m_port_id = 1,
     m_message_count = 0, m_sub_device = 0, m_command_class = SET_COMMAND, m_param_id = 0x1000, m_param_data = None, m_data_length = 0\<rparr>"

definition two_port_universe :: universe where
  "two_port_universe = (new_Universe 1 False (TimeStamp (Timeval 1 0)))\<lparr>m_output_ports := [5, 6]\<rparr>"

lemma two_port_simps: "m_output_ports two_port_universe = [5, 6]" "m_export_map two_port_universe = None"
  by (simp_all add: two_port_universe_def new_Universe_def UpdateName_def UpdateMode_def Let_def)

theorem broadcast_request_witness:
  "\<exists>u1 t calls. universe_SendRDMRequest example_request two_port_universe = (u1, Some t, calls) \<and>
     run_answers (\<lambda>t (code, packets) (). ((), HandleBroadcastAck t code packets)) t
       [(RDM_FAILED_TO_SEND, []), (RDM_WAS_BROADCAST, [])] () = ((), None, [RunRDMCallback RDM_FAILED_TO_SEND []])"
proof -
  let ?answers = "[(RDM_FAILED_TO_SEND, []), (RDM_WAS_BROADCAST, [])] :: (rdm_response_code \<times> bytes list) list"
  have bc: "IsBroadcast (m_destination example_request)"
    by (simp add: example_request_def IsBroadcast_def AllDevices_def)
  obtain u1 t calls where sent: "universe_SendRDMRequest example_request two_port_universe = (u1, Some t, calls)"
    using bc by (simp add: universe_SendRDMRequest_def Let_def)
  have nodub: "False \<longleftrightarrow> m_command_class example_request = DISCOVER_COMMAND \<and>
      m_param_id example_request = PID_DISC_UNIQUE_BRANCH"
    by (simp add: example_request_def)
  have ports: "m_output_ports two_port_universe \<noteq> []" "length ?answers = length (m_output_ports two_port_universe)"
    by (simp_all add: two_port_simps)
  have "run_answers (\<lambda>t (code, packets) (). ((), HandleBroadcastAck t code packets)) t ?answers () =
      ((), None, [RunRDMCallback RDM_FAILED_TO_SEND []])"
    using broadcast_request [OF bc ports(1) sent ports(2) nodub refl refl] by simp
  with sent show ?thesis by blast
qed

text \<open>Without output ports a broadcast request reaches nobody and its callback never runs: the request
  makes no call at all and leaves a tracker behind, while a request to an unknown UID at least reports the
  error to the caller.\<close>

theorem broadcast_without_ports:
  assumes "IsBroadcast (m_destination request)" and "m_output_ports u = []"
    and "\<not> IsBroadcast (m_destination request')" and "map_of (m_output_uids u) (m_destination request') = None"
  shows "(\<exists>u1 t. universe_SendRDMRequest request u = (u1, Some t, []) \<and> expected_count t = 0 \<and> current_count t = 0) \<and>
    (\<exists>u1. universe_SendRDMRequest request' u = (u1, None, [RunRDMCallback RDM_UNKNOWN_UID []]))"
  using assms by (simp add: universe_SendRDMRequest_def Let_def safe_defs)

theorem broadcast_without_ports_witness:
  "\<exists>u1 t. universe_SendRDMRequest example_request (new_Universe 1 False (TimeStamp (Timeval 1 0))) = (u1, Some t, [])"
  using broadcast_without_ports [of example_request "new_Universe 1 False (TimeStamp (Timeval 1 0))"
    "example_request\<lparr>m_destination := UID 1 2\<rparr>"]
  by (simp add: example_request_def IsBroadcast_def AllDevices_def ALL_DEVICES_def new_Universe_def UpdateName_def
    UpdateMode_def Let_def) blast

section \<open>Discovery\<close>

lemma RunRDMDiscovery_cases:
  "RunRDMDiscovery cb full now u = (u\<lparr>m_last_discovery_time := now\<rparr>,
     if m_output_ports u = [] then None else Some \<lparr>m_count = 0, m_limit = length (m_output_ports u)\<rparr>,
     (if m_output_ports u = [] then DiscoveryComplete cb (u\<lparr>m_last_discovery_time := now\<rparr>) else []) @
       map (\<lambda>p. PortRunDiscovery p full) (m_output_ports u))"
  by (simp add: RunRDMDiscovery_def NewMultiCallback_def Let_def)

abbreviation report :: "nat \<times> uid_set \<Rightarrow> universe \<Rightarrow> universe" where
  "report \<equiv> \<lambda>(port, uids). NewUIDList port uids"

lemma NewUIDList_wf: "map_ok (m_output_uids u) \<Longrightarrow> map_ok (m_output_uids (NewUIDList port uids u))"
  by (simp add: NewUIDList_def Let_def fold_uid_map_ok)

lemma NewUIDList_other:
  "map_ok (m_output_uids u) \<Longrightarrow> uids_ok uids \<Longrightarrow> p \<noteq> port \<Longrightarrow>
    map_of (m_output_uids (NewUIDList port uids u)) x = Some p \<longleftrightarrow> map_of (m_output_uids u) x = Some p"
  by (auto simp: NewUIDList_lookup(1) uid_lookup_def)

lemma fold_report_ok: "map_ok (m_output_uids u) \<Longrightarrow> map_ok (m_output_uids (fold report answers u))"
  by (induction answers arbitrary: u) (auto simp: NewUIDList_wf)

lemma fold_report_other:
  assumes "map_ok (m_output_uids u)" and "\<forall>a\<in>set answers. uids_ok (snd a)" and "p \<notin> fst ` set answers"
  shows "map_of (m_output_uids (fold report answers u)) x = Some p \<longleftrightarrow> map_of (m_output_uids u) x = Some p"
  using assms
proof (induction answers arbitrary: u)
  case (Cons a answers)
  obtain q uids where a: "a = (q, uids)" by force
  have "map_of (m_output_uids (fold report answers (NewUIDList q uids u))) x = Some p \<longleftrightarrow>
      map_of (m_output_uids (NewUIDList q uids u)) x = Some p"
    using Cons by (simp add: NewUIDList_wf a)
  also have "\<dots> \<longleftrightarrow> map_of (m_output_uids u) x = Some p"
    using Cons.prems by (intro NewUIDList_other) (auto simp: a)
  finally show ?case by (simp add: a)
qed simp

text \<open>The reports of a round around the report of one port.\<close>

lemma fold_report_split:
  assumes ok: "map_ok (m_output_uids u)" and uids: "\<forall>a\<in>set (as @ (p, uids) # bs). uids_ok (snd a)"
    and d: "distinct (map fst (as @ (p, uids) # bs))" and v: "v = fold report (as @ (p, uids) # bs) u"
  shows "map_of (m_output_uids v) x = Some p \<Longrightarrow> x \<in> set uids"
    and "x \<in> set uids \<Longrightarrow> map_of (m_output_uids u) x \<in> {None, Some p} \<Longrightarrow> map_of (m_output_uids v) x \<noteq> None"
proof -
  let ?u1 = "fold report as u"
  let ?u2 = "NewUIDList p uids ?u1"
  have ok1: "map_ok (m_output_uids ?u1)" using ok by (rule fold_report_ok)
  then have ok2: "map_ok (m_output_uids ?u2)" by (rule NewUIDList_wf)
  have look: "map_of (m_output_uids ?u2) = uid_lookup p uids (map_of (m_output_uids ?u1))"
    using uids by (intro NewUIDList_lookup(1) [OF ok1]) simp
  have v2: "map_of (m_output_uids v) x = Some q \<longleftrightarrow> map_of (m_output_uids ?u2) x = Some q" if "q \<notin> fst ` set bs" for q
    using fold_report_other [OF ok2 _ that, of x] uids by (simp add: v)
  show "x \<in> set uids" if "map_of (m_output_uids v) x = Some p"
  proof -
    have "map_of (m_output_uids ?u2) x = Some p" using that v2 [of p] d by auto
    then show ?thesis by (auto simp: look uid_lookup_def split: if_splits)
  qed
  assume x: "x \<in> set uids" "map_of (m_output_uids u) x \<in> {None, Some p}"
  have "map_of (m_output_uids ?u2) x \<noteq> None"
    using x(1) by (simp add: look uid_lookup_def)
  then obtain q where q: "map_of (m_output_uids ?u2) x = Some q" by blast
  have "q = p \<or> q \<in> fst ` set as"
  proof (rule ccontr)
    assume not: "\<not> (q = p \<or> q \<in> fst ` set as)"
    then have "map_of (m_output_uids ?u1) x = Some q"
      using q by (auto simp: look uid_lookup_def split: if_splits)
    then have "map_of (m_output_uids u) x = Some q"
      using fold_report_other [OF ok, of as q x] uids not by auto
    with x(2) not show False by auto
  qed
  then have "q \<notin> fst ` set bs" using d by auto
  with v2 [of q] q show "map_of (m_output_uids v) x \<noteq> None" by simp
qed

text \<open>C10: A discovery round asks every output port once. While the report of a port is missing the caller is not told
  anything; the last report tells the caller, once, the UIDs of the whole map. After the round a UID is
  mapped to a port only if that port reported it, and every UID that a port reported and that was unknown or
  already belonged to that port is in the map, whatever the order of the reports. A universe without output ports
  completes at once.\<close>

theorem discovery_round:
  assumes ok: "universe_ok u" and run: "RunRDMDiscovery cb full now u = (u1, mc, calls)"
    and answers: "distinct (map fst answers)" "set (map fst answers) = set (m_output_ports u)"
    and uids: "\<forall>a\<in>set answers. uids_ok (snd a)"
    and handle: "handle = (\<lambda>c (port, uids) u. PortDiscoveryComplete cb c port uids u)"
  shows "if m_output_ports u = [] then mc = None \<and> calls = DiscoveryComplete cb u1
    else calls = map (\<lambda>p. PortRunDiscovery p full) (m_output_ports u) \<and> (\<exists>c u2. mc = Some c \<and>
      (\<forall>n < length answers. snd (snd (run_answers handle c (take n answers) u1)) = []) \<and>
      run_answers handle c answers u1 = (u2, None, if cb then [RunDiscoveryCallback (GetUIDs u2 [])] else []) \<and>
      set (GetUIDs u2 []) = dom (map_of (m_output_uids u2)) \<and>
      (\<forall>(p, uids) \<in> set answers. \<forall>x.
        (map_of (m_output_uids u2) x = Some p \<longrightarrow> x \<in> set uids) \<and>
        (x \<in> set uids \<and> map_of (m_output_uids u) x \<in> {None, Some p} \<longrightarrow> map_of (m_output_uids u2) x \<noteq> None)))"
proof (cases "m_output_ports u = []")
  case True
  with run show ?thesis by (auto simp: RunRDMDiscovery_cases)
next
  case False
  let ?c = "\<lparr>m_count = 0, m_limit = length (m_output_ports u)\<rparr>"
  have u1: "u1 = u\<lparr>m_last_discovery_time := now\<rparr>" and mc: "mc = Some ?c"
    and calls: "calls = map (\<lambda>p. PortRunDiscovery p full) (m_output_ports u)"
    using run False by (auto simp: RunRDMDiscovery_cases)
  have "distinct (m_output_ports u)" using ok by (simp add: uni_defs)
  then have len: "length answers = length (m_output_ports u)"
    using answers by (metis distinct_card length_map)
  then have ne: "answers \<noteq> []" using False by auto
  let ?u2 = "fold report answers u1"
  have part: "snd (snd (run_answers handle ?c (take n answers) u1)) = []" if "n < length answers" for n
    using discos.run_partial [of ?c "take n answers" cb u1] that len by (simp add: handle)
  have all: "run_answers handle ?c answers u1 = (?u2, None, DiscoveryComplete cb ?u2)"
    using discos.run_all [of ?c answers cb u1] len ne by (simp add: handle)
  have ok1: "map_ok (m_output_uids u1)" using ok by (simp add: u1 uni_defs)
  have "(map_of (m_output_uids ?u2) x = Some p \<longrightarrow> x \<in> set s) \<and>
      (x \<in> set s \<and> map_of (m_output_uids u) x \<in> {None, Some p} \<longrightarrow> map_of (m_output_uids ?u2) x \<noteq> None)"
    if ans: "(p, s) \<in> set answers" for p s x
  proof -
    obtain as bs where split: "answers = as @ (p, s) # bs" using split_list [OF ans] by blast
    note rep = fold_report_split [OF ok1, of as p s bs ?u2 x]
    show ?thesis using rep uids answers(1) unfolding split by (simp add: u1)
  qed
  then have maps: "\<forall>(p, s) \<in> set answers. \<forall>x. (map_of (m_output_uids ?u2) x = Some p \<longrightarrow> x \<in> set s) \<and>
      (x \<in> set s \<and> map_of (m_output_uids u) x \<in> {None, Some p} \<longrightarrow> map_of (m_output_uids ?u2) x \<noteq> None)"
    by blast
  have dom: "set (GetUIDs ?u2 []) = dom (map_of (m_output_uids ?u2))"
    by (simp add: GetUIDs_def set_GetUIDs)
  show ?thesis
    unfolding if_not_P [OF False]
    by (intro conjI exI [of _ ?c] exI [of _ ?u2])
      (use calls mc part all maps dom in \<open>simp_all add: DiscoveryComplete_def\<close>)
qed


theorem discovery_round_witness:
  "\<exists>u1 mc calls. RunRDMDiscovery True True (TimeStamp (Timeval 2 0)) two_port_universe = (u1, mc, calls) \<and>
     calls = [PortRunDiscovery 5 True, PortRunDiscovery 6 True]"
proof -
  obtain u1 mc calls where run:
    "RunRDMDiscovery True True (TimeStamp (Timeval 2 0)) two_port_universe = (u1, mc, calls)"
    by (cases "RunRDMDiscovery True True (TimeStamp (Timeval 2 0)) two_port_universe")
  have ok: "universe_ok two_port_universe"
    by (simp add: uni_defs two_port_universe_def new_Universe_def UpdateName_def UpdateMode_def Let_def)
  let ?answers = "[(6, [UID 1 1]), (5, [])] :: (nat \<times> uid_set) list"
  have "distinct (map fst ?answers)" "set (map fst ?answers) = set (m_output_ports two_port_universe)"
    "\<forall>a\<in>set ?answers. uids_ok (snd a)"
    by (auto simp: two_port_simps)
  from discovery_round [OF ok run this refl] run show ?thesis by (simp add: two_port_simps)
qed

section \<open>Routing\<close>

text \<open>After a port reported its UIDs each UID is mapped to the port that held it before, unless that is the
  reporting port, which now has exactly the UIDs of its report that no other port holds; the exported
  count is the number of UIDs. A request to one UID is passed to the port the map names, and
  answered with \<open>RDM_UNKNOWN_UID\<close> if there is none.\<close>

theorem uid_routing:
  assumes ok: "universe_ok u" and "uids_ok uids" and "u' = NewUIDList port uids u"
    and uni: "\<not> IsBroadcast (m_destination request)" and d: "d = m_destination request"
  shows "(\<forall>x. map_of (m_output_uids u') x =
      (case map_of (m_output_uids u) x of
         Some p \<Rightarrow> if p \<noteq> port then Some p else if x \<in> set uids then Some port else None
       | None \<Rightarrow> if x \<in> set uids then Some port else None)) \<and>
    UIDCount u' = card (dom (map_of (m_output_uids u'))) \<and>
    (\<forall>rows. m_export_map u' = Some rows \<longrightarrow> uint_rows rows K_UNIVERSE_UID_COUNT_VAR = of_nat (UIDCount u')) \<and>
    snd (universe_SendRDMRequest request u') =
      (None, case map_of (m_output_uids u') d of
         None \<Rightarrow> [RunRDMCallback RDM_UNKNOWN_UID []]
       | Some p \<Rightarrow> [PortSendRDMRequest p request CallerCallback])"
proof -
  have m: "map_ok (m_output_uids u)" using ok by (simp add: uni_defs)
  have ok': "universe_ok u'" unfolding assms(3) using ok by (rule universe_ok_NewUIDList)
  then have "distinct (map fst (m_output_uids u'))" by (simp add: uni_defs map_ok_distinct)
  then have "UIDCount u' = card (dom (map_of (m_output_uids u')))"
    by (simp add: UIDCount_def dom_map_of_conv_image_fst distinct_card flip: set_map)
  moreover have "\<forall>x. map_of (m_output_uids u') x =
      (case map_of (m_output_uids u) x of
         Some p \<Rightarrow> if p \<noteq> port then Some p else if x \<in> set uids then Some port else None
       | None \<Rightarrow> if x \<in> set uids then Some port else None)"
    unfolding assms(3) NewUIDList_lookup(1) [OF m assms(2)] by (simp add: uid_lookup_def split: option.split)
  moreover have "snd (universe_SendRDMRequest request u') =
      (None, case map_of (m_output_uids u') d of
         None \<Rightarrow> [RunRDMCallback RDM_UNKNOWN_UID []]
       | Some p \<Rightarrow> [PortSendRDMRequest p request CallerCallback])"
    using uni by (simp add: universe_SendRDMRequest_def Let_def safe_defs d split: option.split)
  ultimately show ?thesis using ok' by (auto simp: uni_defs UIDCount_def)
qed

theorem uid_routing_witness:
  "snd (universe_SendRDMRequest (example_request\<lparr>m_destination := UID 7 8\<rparr>)
     (NewUIDList 5 [UID 7 8] (new_Universe 1 True (TimeStamp (Timeval 1 0))))) =
   (None, [PortSendRDMRequest 5 (example_request\<lparr>m_destination := UID 7 8\<rparr>) CallerCallback])"
  using uid_routing [OF universe_ok_new _ refl _ refl, of "[UID 7 8]" "example_request\<lparr>m_destination := UID 7 8\<rparr>"
    5 1 True "TimeStamp (Timeval 1 0)"]
  by (simp add: example_request_def IsBroadcast_def ALL_DEVICES_def new_Universe_def UpdateName_def UpdateMode_def Let_def)

text \<open>The UID map can lose or misroute a device. A device that moved from port \<open>q\<close> to port \<open>p\<close> is in the map after a
  round in which \<open>q\<close> reports first, but is in no port's entry if \<open>p\<close> reports first, although \<open>p\<close> reported it. And the
  report of a port that has been removed from the universe while its discovery was running puts its
  UIDs in the map again, so that requests are sent to the removed port.\<close>

theorem uid_map_order:
  assumes ok: "universe_ok u" and x: "map_of (m_output_uids u) x = Some q" and "p \<noteq> q"
    and s: "uids_ok s" "x \<in> set s" and t: "uids_ok t" "x \<notin> set t"
    and request: "m_destination request = x" "\<not> IsBroadcast x"
  shows "map_of (m_output_uids (NewUIDList p s (NewUIDList q t u))) x = Some p \<and>
    map_of (m_output_uids (NewUIDList q t (NewUIDList p s u))) x = None \<and>
    (let u' = NewUIDList q s (fst (snd (RemoveOutputPort q u)))
     in (q \<in> set (m_output_ports u) \<longrightarrow> \<not> ContainsOutputPort q u' \<and>
         snd (universe_SendRDMRequest request u') = (None, [PortSendRDMRequest q request CallerCallback])))"
proof -
  have m: "map_ok (m_output_uids u)" using ok by (simp add: uni_defs)
  note look = NewUIDList_lookup(1) [OF NewUIDList_wf [OF m]] NewUIDList_lookup(1) [OF m]
  have moved: "map_of (m_output_uids (NewUIDList p s (NewUIDList q t u))) x = Some p"
    "map_of (m_output_uids (NewUIDList q t (NewUIDList p s u))) x = None"
    using assms by (simp_all add: look uid_lookup_def)
  let ?r = "fst (snd (RemoveOutputPort q u))"
  have okr: "universe_ok ?r" using ok by (rule universe_ok_RemoveOutputPort)
  then have mr: "map_ok (m_output_uids ?r)" by (simp add: uni_defs)
  have removed: "q \<notin> set (m_output_ports ?r) \<and> map_of (m_output_uids ?r) x = None" if "q \<in> set (m_output_ports u)"
    using that ok x map_of_filter_ok [OF m, of "\<lambda>(_, p). p \<noteq> q" x]
    by (auto simp: RemoveOutputPort_def GenericRemoveOutputPort_def Let_def safe_defs uni_defs set_remove1_eq)
  have "m_output_ports (NewUIDList q s ?r) = m_output_ports ?r"
    by (simp add: NewUIDList_def Let_def)
  moreover have "map_of (m_output_uids (NewUIDList q s ?r)) x = Some q" if "q \<in> set (m_output_ports u)"
    using removed [OF that] s by (simp add: NewUIDList_lookup(1) [OF mr] uid_lookup_def)
  ultimately show ?thesis
    using moved removed request by (simp add: ContainsOutputPort_def universe_SendRDMRequest_def Let_def safe_defs)
qed

theorem uid_map_order_witness:
  "map_of (m_output_uids (NewUIDList 5 [] (NewUIDList 6 [UID 7 8]
     (NewUIDList 5 [UID 7 8] (new_Universe 1 True (TimeStamp (Timeval 1 0))))))) (UID 7 8) = None"
proof -
  let ?u = "NewUIDList 5 [UID 7 8] (new_Universe 1 True (TimeStamp (Timeval 1 0)))"
  have "map_of (m_output_uids (new_Universe 1 True (TimeStamp (Timeval 1 0)))) = Map.empty"
    by (simp add: new_Universe_def UpdateName_def UpdateMode_def Let_def)
  then have "map_of (m_output_uids ?u) (UID 7 8) = Some 5"
    using universe_ok_new [of 1 True "TimeStamp (Timeval 1 0)"]
    by (subst NewUIDList_lookup(1)) (simp_all add: uni_defs uid_lookup_def)
  moreover have "universe_ok ?u"
    by (intro universe_ok_NewUIDList universe_ok_new)
  ultimately show ?thesis
    using uid_map_order [of ?u "UID 7 8" 5 6 "[UID 7 8]" "[]"
      "example_request\<lparr>m_destination := UID 7 8\<rparr>"]
    by (simp add: example_request_def IsBroadcast_def ALL_DEVICES_def)
qed

end
