(* ===== verification/Preferences.thy ===== *)
theory Preferences
  imports String_Facts STL_Map "HOL-Library.List_Lexorder" "HOL-Library.Char_ord"
begin

text \<open>
  The preferences of the daemon and its plugins, \<^verbatim>\<open>olad/Preferences.cpp\<close>: the validators, the store in
  memory (a \<open>std::multimap\<close>, the list of its pairs in the order of the iterators) and the text file it is
  saved to and loaded from. A file is its content, or \<open>None\<close> if it cannot be opened; the thread that
  writes the files is not modelled.
\<close>

section \<open>Validators\<close>

datatype validator =
    StringValidator bool
  | BoolValidator
  | IntValidator u32 u32
  | SetValidator "string list"
  | IPv4Validator bool

definition ENABLED :: string where
  "ENABLED = ''true''"

definition DISABLED :: string where
  "DISABLED = ''false''"

text \<open>The loop of the IPv4 validator over the four tokens.\<close>

fun octets_valid :: "string list \<Rightarrow> bool" where
  "octets_valid [] = True"
| "octets_valid (t # ts) =
     (case StringToInt_uint t False of
        None \<Rightarrow> False
      | Some octet \<Rightarrow> if octet > 255 then False else octets_valid ts)"

fun IsValid :: "validator \<Rightarrow> string \<Rightarrow> bool" where
  "IsValid (StringValidator empty_ok) s = (empty_ok \<or> s \<noteq> [])"
| "IsValid BoolValidator s = (s = ENABLED \<or> s = DISABLED)"
| "IsValid (IntValidator gt lt) s =
     (case StringToInt_uint s False of None \<Rightarrow> False | Some output \<Rightarrow> output \<ge> gt \<and> output \<le> lt)"
| "IsValid (SetValidator values) s = (s \<in> set values)"
| "IsValid (IPv4Validator empty_ok) s =
     (if s = [] then empty_ok
      else let tokens = StringSplit s ''.'' in if length tokens \<noteq> 4 then False else octets_valid tokens)"

section \<open>The store\<close>

type_synonym pref_map = "(string \<times> string) list"

text \<open>\<open>multimap::insert\<close> puts a pair behind the pairs with the same key, \<open>find\<close> gives the first of them.\<close>

fun mm_insert :: "string \<Rightarrow> string \<Rightarrow> pref_map \<Rightarrow> pref_map" where
  "mm_insert k v [] = [(k, v)]"
| "mm_insert k v ((l, w) # m) = (if k < l then (k, v) # (l, w) # m else (l, w) # mm_insert k v m)"

definition mm_erase :: "string \<Rightarrow> pref_map \<Rightarrow> pref_map" where
  "mm_erase k m = filter (\<lambda>(l, _). l \<noteq> k) m"

definition pref_Clear :: "pref_map \<Rightarrow> pref_map" where
  "pref_Clear m = []"

definition SetValue :: "string \<Rightarrow> string \<Rightarrow> pref_map \<Rightarrow> pref_map" where
  "SetValue key v m = mm_insert key v (mm_erase key m)"

definition SetMultipleValue :: "string \<Rightarrow> string \<Rightarrow> pref_map \<Rightarrow> pref_map" where
  "SetMultipleValue key v m = mm_insert key v m"

definition SetDefaultValue :: "string \<Rightarrow> validator \<Rightarrow> string \<Rightarrow> pref_map \<Rightarrow> bool \<times> pref_map" where
  "SetDefaultValue key validator v m =
     (case map_of m key of
        None \<Rightarrow> (True, SetValue key v m)
      | Some old \<Rightarrow> if \<not> IsValid validator old then (True, SetValue key v m) else (False, m))"

definition GetValue :: "string \<Rightarrow> pref_map \<Rightarrow> string" where
  "GetValue key m = (case map_of m key of Some v \<Rightarrow> v | None \<Rightarrow> [])"

text \<open>From the first pair with the key on, as long as the key is the same.\<close>

definition GetMultipleValue :: "string \<Rightarrow> pref_map \<Rightarrow> string list" where
  "GetMultipleValue key m = map snd (takeWhile (\<lambda>(l, _). l = key) (dropWhile (\<lambda>(l, _). l \<noteq> key) m))"

definition HasKey :: "string \<Rightarrow> pref_map \<Rightarrow> bool" where
  "HasKey key m \<longleftrightarrow> map_of m key \<noteq> None"

definition RemoveValue :: "string \<Rightarrow> pref_map \<Rightarrow> pref_map" where
  "RemoveValue key m = mm_erase key m"

definition SetValueAsBool :: "string \<Rightarrow> bool \<Rightarrow> pref_map \<Rightarrow> pref_map" where
  "SetValueAsBool key v m =
     (let m1 = mm_erase key m in if v then mm_insert key ENABLED m1 else mm_insert key DISABLED m1)"

definition GetValueAsBool :: "string \<Rightarrow> pref_map \<Rightarrow> bool" where
  "GetValueAsBool key m = (case map_of m key of Some v \<Rightarrow> v = ENABLED | None \<Rightarrow> False)"

text \<open>The factory creates the preferences of a name once.\<close>

definition NewPreference :: "(string \<Rightarrow> 'p) \<Rightarrow> string \<Rightarrow> (string, 'p) stl_map \<Rightarrow> 'p \<times> (string, 'p) stl_map" where
  "NewPreference Create name m =
     (case map_of m name of
        None \<Rightarrow> let pref = Create name in (pref, snd (map_insert name pref m))
      | Some pref \<Rightarrow> (pref, m))"

section \<open>The file\<close>

definition FileName :: "string \<Rightarrow> string \<Rightarrow> string" where
  "FileName directory preference_name = directory @ ''/'' @ ''ola-'' @ preference_name @ ''.conf''"

definition pref_line :: "string \<times> string \<Rightarrow> string" where
  "pref_line = (\<lambda>(k, v). k @ '' = '' @ v @ [CHR 0x0A])"

definition SaveToFile :: "pref_map \<Rightarrow> string" where
  "SaveToFile m = concat (map pref_line m)"

function getlines :: "string \<Rightarrow> string list" where
  "getlines s = (if s = [] then []
     else let line = takeWhile (\<lambda>c. c \<noteq> CHR 0x0A) s in line # getlines (drop (length line + 1) s))"
  by pat_completeness auto
termination
  by (relation "measure length") auto

declare getlines.simps [simp del]

definition load_line :: "string \<Rightarrow> pref_map \<Rightarrow> pref_map" where
  "load_line raw m =
     (let line = StringTrim raw
      in if line = [] \<or> line ! 0 = CHR ''#'' then m
         else
           let tokens = StringSplit line ''=''
           in if length tokens \<noteq> 2 then m
              else mm_insert (StringTrim (tokens ! 0)) (StringTrim (tokens ! 1)) m)"

definition LoadFromFile :: "string option \<Rightarrow> pref_map \<Rightarrow> bool \<times> pref_map" where
  "LoadFromFile file m =
     (case file of
        None \<Rightarrow> (False, m)
      | Some content \<Rightarrow> (True, fold load_line (getlines content) []))"


section \<open>Facts on the store\<close>

abbreviation pref_ok :: "pref_map \<Rightarrow> bool" where
  "pref_ok m \<equiv> sorted (map fst m)"

lemma set_mm_insert: "set (mm_insert k v m) = insert (k, v) (set m)"
  by (induction k v m rule: mm_insert.induct) auto

lemma mm_insert_ok: "pref_ok m \<Longrightarrow> pref_ok (mm_insert k v m)"
  by (induction k v m rule: mm_insert.induct)
    (fastforce simp: set_mm_insert not_less intro: less_imp_le order_trans [OF less_imp_le])+

lemma mm_erase_ok: "pref_ok m \<Longrightarrow> pref_ok (mm_erase k m)"
  by (induction m) (auto simp: mm_erase_def)

lemma map_of_mm_erase: "map_of (mm_erase k m) l = (if l = k then None else map_of m l)"
  by (induction m) (auto simp: mm_erase_def)

lemma map_of_mm_insert_other: "l \<noteq> k \<Longrightarrow> map_of (mm_insert k v m) l = map_of m l"
  by (induction m) auto

lemma map_of_mm_insert: "map_of m k = None \<Longrightarrow> map_of (mm_insert k v m) k = Some v"
  by (induction m) (auto split: if_splits)

lemma SetValue_lookup: "map_of (SetValue k v m) = (map_of m)(k \<mapsto> v)"
  by (auto simp: SetValue_def fun_eq_iff map_of_mm_erase map_of_mm_insert map_of_mm_insert_other)

lemma SetValue_ok: "pref_ok m \<Longrightarrow> pref_ok (SetValue k v m)"
  by (simp add: SetValue_def mm_insert_ok mm_erase_ok)

lemma mm_insert_last: "\<forall>x\<in>set m. fst x \<le> k \<Longrightarrow> mm_insert k v m = m @ [(k, v)]"
  by (induction m) auto

text \<open>In a sorted store the pairs of a key are next to each other, so the scan of \<open>GetMultipleValue\<close> finds
  all of them, in the order they were added.\<close>

lemma GetMultipleValue_filter:
  assumes "pref_ok m"
  shows "GetMultipleValue key m = map snd (filter (\<lambda>(l, _). l = key) m)"
proof -
  have "takeWhile (\<lambda>(l, _). l = key) (dropWhile (\<lambda>(l, _). l \<noteq> key) m) = filter (\<lambda>(l, _). l = key) m"
    using assms
  proof (induction m)
    case (Cons x m)
    obtain l w where x: "x = (l, w)" by force
    show ?case
    proof (cases "l = key")
      case True
      have "takeWhile (\<lambda>(l, _). l = key) m = filter (\<lambda>(l, _). l = key) m"
        using Cons.prems unfolding x True
      proof (induction m)
        case (Cons y m)
        have "filter (\<lambda>(l, _). l = key) m = []" if "fst y \<noteq> key"
        proof -
          have "key < fst y" "\<forall>z\<in>set m. fst y \<le> fst z" using Cons.prems that by auto
          then show ?thesis by (force simp: filter_empty_conv)
        qed
        with Cons show ?case by (cases y) auto
      qed simp
      then show ?thesis by (simp add: x True)
    qed (use Cons in \<open>simp add: x\<close>)
  qed simp
  then show ?thesis by (simp add: GetMultipleValue_def)
qed

lemma filter_mm_insert:
  "pref_ok m \<Longrightarrow> filter (\<lambda>(l, _). l = key) (mm_insert k v m) =
     filter (\<lambda>(l, _). l = key) m @ (if k = key then [(k, v)] else [])"
proof (induction k v m rule: mm_insert.induct)
  case (2 k v l w m)
  have "filter (\<lambda>(l, _). l = key) ((l, w) # m) = []" if "k < l" "k = key"
    using 2(2) that by (fastforce simp: filter_empty_conv)
  with 2 show ?case by auto
qed simp

text \<open>What the users of a preference store rely on.\<close>

locale pref_contract =
  fixes get :: "'k \<Rightarrow> 'm \<Rightarrow> string"
    and put :: "'k \<Rightarrow> string \<Rightarrow> 'm \<Rightarrow> 'm"
  assumes get_put: "get k (put k v m) = v"
    and get_put_other: "k \<noteq> l \<Longrightarrow> get l (put k v m) = get l m"
begin

lemma put_two:
  assumes "k \<noteq> l"
  shows "get k (put l w (put k v m)) = v \<and> get l (put l w (put k v m)) = w \<and>
    (\<forall>j. j \<noteq> k \<and> j \<noteq> l \<longrightarrow> get j (put l w (put k v m)) = get j m)"
  using assms by (auto simp: get_put get_put_other)

end

interpretation prefs: pref_contract GetValue SetValue
  by unfold_locales (simp_all add: GetValue_def SetValue_lookup)

section \<open>Facts on the file\<close>

definition trimmed :: "string \<Rightarrow> bool" where
  "trimmed s \<longleftrightarrow> s = [] \<or> (hd s \<notin> set trim_chars \<and> last s \<notin> set trim_chars)"

lemma StringTrim_wrap:
  assumes "set a \<subseteq> set trim_chars" and "set b \<subseteq> set trim_chars" and "trimmed s"
  shows "StringTrim (a @ s @ b) = s"
proof -
  let ?P = "\<lambda>c. c \<in> set trim_chars"
  have trim: "StringTrim x = rev (dropWhile ?P (rev (dropWhile ?P x)))" for x
  proof -
    obtain p q where x: "x = p @ StringTrim x @ q" and pq: "set p \<subseteq> set trim_chars" "set q \<subseteq> set trim_chars"
      and t: "StringTrim x = [] \<or> (hd (StringTrim x) \<notin> set trim_chars \<and> last (StringTrim x) \<notin> set trim_chars)"
      by (rule StringTrim_parts)
    have drop: "dropWhile ?P (u @ v) = dropWhile ?P v" if "set u \<subseteq> set trim_chars" for u v
      using that by (induction u) auto
    have stop: "dropWhile ?P (u @ v) = u @ v" if "u \<noteq> []" "hd u \<notin> set trim_chars" for u v
      using that by (cases u) auto
    show ?thesis
    proof (cases "StringTrim x = []")
      case True
      then have "set x \<subseteq> set trim_chars" using x pq by (subst x) simp
      then have d: "dropWhile ?P x = []" by (auto simp: dropWhile_eq_Nil_conv)
      show ?thesis by (simp only: True d rev.simps dropWhile.simps)
    next
      case False
      define z where "z = StringTrim x"
      have x': "x = p @ z @ q" and z: "z \<noteq> []" "hd z \<notin> set trim_chars" "last z \<notin> set trim_chars"
        using x t False by (simp_all add: z_def)
      have "dropWhile ?P (rev q @ rev z) = rev z @ []"
        using z pq(2) stop [of "rev z" "[]"] by (simp add: drop hd_rev)
      then have "rev (dropWhile ?P (rev (dropWhile ?P x))) = z"
        unfolding x' by (simp add: drop [OF pq(1)] stop z)
      then show ?thesis by (simp add: z_def)
    qed
  qed
  have drop: "dropWhile ?P (u @ v) = dropWhile ?P v" if "set u \<subseteq> set trim_chars" for u v
    using that by (induction u) auto
  show ?thesis
  proof (cases "s = []")
    case True
    then show ?thesis using assms by (simp add: trim drop) (auto simp: dropWhile_eq_Nil_conv dest: set_dropWhileD)
  next
    case False
    then have "dropWhile ?P (s @ b) = s @ b" using assms(3) by (cases s) (auto simp: trimmed_def)
    moreover have "dropWhile ?P (rev s) = rev s"
      using False assms(3) by (cases "rev s") (auto simp: trimmed_def hd_rev [symmetric])
    ultimately show ?thesis using assms(1,2) by (simp add: trim drop)
  qed
qed


text \<open>Entries the file format can represent: no line break and no equals sign, no white space at the ends,
  and a key that is not taken for a comment.\<close>

definition clean_entry :: "string \<times> string \<Rightarrow> bool" where
  "clean_entry = (\<lambda>(k, v). set (k @ v) \<inter> {CHR 0x0A, CHR ''=''} = {} \<and> trimmed k \<and> trimmed v \<and>
     (k = [] \<or> hd k \<noteq> CHR ''#''))"

lemma not_trim_char [simp]: "CHR ''='' \<notin> set trim_chars" "CHR ''#'' \<notin> set trim_chars" "CHR '' '' \<in> set trim_chars"
  by (simp_all add: trim_chars_def)

lemma load_line_entry:
  assumes "clean_entry (k, v)"
  shows "load_line (k @ '' = '' @ v) m = mm_insert k v m"
proof -
  let ?k = "if k = [] then [] else k @ '' ''" and ?v = "if v = [] then [] else '' '' @ v"
  have t: "trimmed k" "trimmed v" and no: "set k \<inter> set ''='' = {}" "set v \<inter> set ''='' = {}"
    using assms by (auto simp: clean_entry_def)
  have tr: "trimmed (?k @ ''='' @ ?v)"
    using t by (auto simp: trimmed_def hd_append last_append)
  have eq: "k @ '' = '' @ v = (if k = [] then '' '' else []) @ (?k @ ''='' @ ?v) @ (if v = [] then '' '' else [])"
    by simp
  have line: "StringTrim (k @ '' = '' @ v) = ?k @ ''='' @ ?v"
    unfolding eq by (rule StringTrim_wrap [OF _ _ tr]; auto)
  have hash: "(?k @ ''='' @ ?v) ! 0 \<noteq> CHR ''#''"
    using assms by (auto simp: clean_entry_def nth_append hd_conv_nth)
  have "StringSplit (?k @ CHR ''='' # ?v) ''='' = [?k, ?v]"
    using no by (subst StringSplit_delim) (auto simp: StringSplit_no_delim)
  moreover have "StringTrim ?k = k" "StringTrim ?v = v"
    using StringTrim_wrap [of "[]" "if k = [] then [] else '' ''" k]
      StringTrim_wrap [of "if v = [] then [] else '' ''" "[]" v] t by auto
  ultimately show ?thesis
    unfolding load_line_def line Let_def using hash by simp
qed

lemma getlines_line: "CHR 0x0A \<notin> set s \<Longrightarrow> getlines (s @ CHR 0x0A # r) = s # getlines r"
proof -
  assume "CHR 0x0A \<notin> set s"
  then have "takeWhile (\<lambda>c. c \<noteq> CHR 0x0A) (s @ CHR 0x0A # r) = s"
    by (subst takeWhile_append2) auto
  then show ?thesis by (subst getlines.simps) (simp add: Let_def)
qed

lemma getlines_SaveToFile:
  "\<forall>e\<in>set m. clean_entry e \<Longrightarrow> getlines (SaveToFile m) = map (\<lambda>(k, v). k @ '' = '' @ v) m"
proof (induction m)
  case Nil
  then show ?case by (simp add: SaveToFile_def getlines.simps)
next
  case (Cons e m)
  obtain k v where e: "e = (k, v)" by force
  have "CHR 0x0A \<notin> set (k @ '' = '' @ v)" using Cons.prems by (auto simp: e clean_entry_def)
  from getlines_line [OF this, of "SaveToFile m"] Cons show ?case
    by (simp add: SaveToFile_def pref_line_def e)
qed

lemma fold_load_entries:
  "\<forall>e\<in>set m. clean_entry e \<Longrightarrow> pref_ok (n @ m) \<Longrightarrow>
    fold load_line (map (\<lambda>(k, v). k @ '' = '' @ v) m) n = n @ m"
proof (induction m arbitrary: n)
  case (Cons e m)
  obtain k v where e: "e = (k, v)" by force
  have "\<forall>x\<in>set n. fst x \<le> k" using Cons.prems(2) by (auto simp: e sorted_append)
  then have "load_line (k @ '' = '' @ v) n = n @ [(k, v)]"
    using Cons.prems(1) load_line_entry [of k v n] mm_insert_last [of n k v] by (simp add: e)
  with Cons show ?case by (simp add: e)
qed simp

section \<open>The properties\<close>

text \<open>C29: Preferences survive the file: a store whose entries have no line break, no equals sign, no white
  space at the ends and no key that looks like a comment is loaded exactly as it was saved, with all the
  values of a key in their order. An entry with a second equals sign is written but is skipped when the
  file is loaded.\<close>

theorem preferences_roundtrip:
  assumes "pref_ok m" and "\<forall>e\<in>set m. clean_entry e"
  shows "LoadFromFile (Some (SaveToFile m)) old = (True, m) \<and>
    LoadFromFile None old = (False, old) \<and>
    (k \<noteq> [] \<and> clean_entry (k, []) \<and> CHR 0x0A \<notin> set a \<union> set b \<and> trimmed (a @ ''='' @ b) \<longrightarrow>
       LoadFromFile (Some (SaveToFile [(k, a @ ''='' @ b)])) old = (True, []))"
proof -
  have "LoadFromFile (Some (SaveToFile m)) old = (True, m)"
    using assms fold_load_entries [of m "[]"] by (simp add: LoadFromFile_def getlines_SaveToFile)
  moreover have "LoadFromFile (Some (SaveToFile [(k, a @ ''='' @ b)])) old = (True, [])"
    if k: "k \<noteq> []" "clean_entry (k, [])" and nl: "CHR 0x0A \<notin> set a \<union> set b" and t: "trimmed (a @ ''='' @ b)"
  proof -
    let ?line = "k @ '' = '' @ a @ ''='' @ b"
    have "CHR 0x0A \<notin> set ?line" using k nl by (auto simp: clean_entry_def)
    from getlines_line [OF this, of "[]"] have lines: "getlines (SaveToFile [(k, a @ ''='' @ b)]) = [?line]"
      by (simp add: SaveToFile_def pref_line_def getlines.simps)
    have "trimmed ?line" using k t by (auto simp: trimmed_def clean_entry_def split: if_splits)
    then have trim: "StringTrim ?line = ?line" using StringTrim_wrap [of "[]" "[]" ?line] by simp
    have split1: "StringSplit ((k @ '' '') @ CHR ''='' # ('' '' @ a) @ CHR ''='' # b) ''='' =
        (k @ '' '') # StringSplit (('' '' @ a) @ CHR ''='' # b) ''=''"
      using k by (intro StringSplit_delim) (auto simp: clean_entry_def)
    have "length (StringSplit (('' '' @ a) @ CHR ''='' # b) ''='') \<noteq> 1"
    proof
      assume "length (StringSplit (('' '' @ a) @ CHR ''='' # b) ''='') = 1"
      then obtain t where t: "StringSplit (('' '' @ a) @ CHR ''='' # b) ''='' = [t]"
        by (cases "StringSplit (('' '' @ a) @ CHR ''='' # b) ''=''") auto
      with join_StringSplit [of "CHR ''=''" "('' '' @ a) @ CHR ''='' # b"]
      have "t = ('' '' @ a) @ CHR ''='' # b" by simp
      with StringSplit_tokens [of t "('' '' @ a) @ CHR ''='' # b" "''=''"] t show False by simp
    qed
    then have "length (StringSplit ?line ''='') \<noteq> 2" using split1 by simp
    moreover have "?line \<noteq> []" "?line ! 0 \<noteq> CHR ''#''"
      using k by (auto simp: clean_entry_def nth_append hd_conv_nth)
    ultimately have "load_line ?line [] = []" unfolding load_line_def trim Let_def by simp
    with lines show ?thesis by (simp add: LoadFromFile_def)
  qed
  ultimately show ?thesis by (simp add: LoadFromFile_def)
qed


theorem preferences_roundtrip_witness:
  "LoadFromFile (Some (SaveToFile [(''a'', ''1''), (''a'', []), (''b'', ''x y'')])) [] =
     (True, [(''a'', ''1''), (''a'', []), (''b'', ''x y'')])"
  using preferences_roundtrip [of "[(''a'', ''1''), (''a'', []), (''b'', ''x y'')]" "[]" "[]" "[]" "[]"]
  by (simp add: clean_entry_def trimmed_def trim_chars_def)

text \<open>The store behaves as a map from keys to lists of values: \<open>SetValue\<close> leaves one value,
  \<open>SetMultipleValue\<close> appends one, \<open>RemoveValue\<close> removes all, other keys keep theirs, \<open>GetValue\<close> gives the
  first, and a default replaces a value exactly if there is none or the first one is not valid.\<close>

theorem preferences_store:
  assumes ok: "pref_ok m"
  shows "GetMultipleValue l (SetValue k v m) = (if l = k then [v] else GetMultipleValue l m) \<and>
    GetMultipleValue l (SetMultipleValue k v m) = GetMultipleValue l m @ (if l = k then [v] else []) \<and>
    GetMultipleValue l (RemoveValue k m) = (if l = k then [] else GetMultipleValue l m) \<and>
    GetValue k m = (case GetMultipleValue k m of [] \<Rightarrow> [] | x # _ \<Rightarrow> x) \<and>
    (HasKey k m \<longleftrightarrow> GetMultipleValue k m \<noteq> []) \<and>
    GetValueAsBool k (SetValueAsBool k b m) = b \<and>
    SetDefaultValue k validator v m =
      (if HasKey k m \<and> IsValid validator (GetValue k m) then (False, m) else (True, SetValue k v m)) \<and>
    pref_ok (SetValue k v m) \<and> pref_ok (SetMultipleValue k v m) \<and> pref_ok (RemoveValue k m)"
proof -
  let ?f = "\<lambda>l m. map snd (filter (\<lambda>(j, _). j = l) (m :: pref_map))"
  have oks: "pref_ok (SetValue k v m)" "pref_ok (SetMultipleValue k v m)" "pref_ok (RemoveValue k m)"
    using ok by (simp_all add: SetValue_ok SetMultipleValue_def RemoveValue_def mm_insert_ok mm_erase_ok)
  have erase: "filter (\<lambda>(j, _). j = l) (mm_erase k m) = (if l = k then [] else filter (\<lambda>(j, _). j = l) m)"
    by (auto simp: mm_erase_def filter_empty_conv intro: filter_cong)
  have first: "map_of m k = (case ?f k m of [] \<Rightarrow> None | x # _ \<Rightarrow> Some x)"
    by (induction m) (auto split: list.splits)
  have b: "GetValueAsBool k (SetValueAsBool k b m) = b"
    by (simp add: GetValueAsBool_def SetValueAsBool_def Let_def map_of_mm_insert map_of_mm_erase ENABLED_def DISABLED_def)
  have "GetMultipleValue l (SetValue k v m) = (if l = k then [v] else GetMultipleValue l m)"
    "GetMultipleValue l (SetMultipleValue k v m) = GetMultipleValue l m @ (if l = k then [v] else [])"
    "GetMultipleValue l (RemoveValue k m) = (if l = k then [] else GetMultipleValue l m)"
    using filter_mm_insert [OF ok, of l k v] filter_mm_insert [OF mm_erase_ok [OF ok, of k], of l k v] erase
    unfolding GetMultipleValue_filter [OF ok] GetMultipleValue_filter [OF oks(1)]
      GetMultipleValue_filter [OF oks(2)] GetMultipleValue_filter [OF oks(3)]
    by (cases "l = k"; simp add: SetValue_def SetMultipleValue_def RemoveValue_def)+
  with oks b first show ?thesis
    by (auto simp: GetMultipleValue_filter [OF ok] GetValue_def HasKey_def SetDefaultValue_def split: list.splits)
qed

theorem preferences_store_witness:
  "GetMultipleValue ''k'' (SetMultipleValue ''k'' ''2'' [(''k'', ''1'')]) = [''1'', ''2'']"
  using preferences_store [of "[(''k'', ''1'')]" "''k''" "''k''" "''2''"] by (simp add: GetMultipleValue_def)

end
