(* ===== verification/Universe_Store.thy ===== *)
theory Universe_Store
  imports Universe_Laws Preferences
begin

text \<open>
  The store of universes, \<^verbatim>\<open>olad/UniverseStore.cpp\<close>: the map from ids to universes, the candidates for garbage
  collection, and the settings of a universe in the preferences. A universe is named by its id, which
  is the key of its entry; a pointer to a universe that has been deleted is an id without entry, and
  a use of it has the result \<open>None\<close>.
\<close>

section \<open>The store\<close>

record store =
  m_universe_map :: "(nat, universe) stl_map"
  m_deletion_candiates :: "nat list"
  m_preferences :: "pref_map option"
  store_export :: bool

definition MINIMUM_RDM_DISCOVERY_INTERVAL :: u32 where
  "MINIMUM_RDM_DISCOVERY_INTERVAL = 30"

definition new_UniverseStore :: "pref_map option \<Rightarrow> bool \<Rightarrow> store" where
  "new_UniverseStore preferences export =
     \<lparr>m_universe_map = [], m_deletion_candiates = [], m_preferences = preferences, store_export = export\<rparr>"

definition uni_key :: "nat \<Rightarrow> string \<Rightarrow> string" where
  "uni_key i what = ''uni_'' @ print_base 10 i @ what"

text \<open>The constructor \<open>TimeInterval(int32_t, int32_t)\<close> takes the seconds as a signed 32 bit number.\<close>

definition RestoreUniverseSettings :: "pref_map \<Rightarrow> universe \<Rightarrow> universe \<times> universe_effect list" where
  "RestoreUniverseSettings prefs u =
     (let name = GetValue (uni_key (m_universe_id u) ''_name'') prefs;
          (u1, effects) = (if name \<noteq> [] then SetName name u else (u, []));
          merge = GetValue (uni_key (m_universe_id u) ''_merge'') prefs;
          u2 = (if merge \<noteq> []
                then (if merge = ''HTP'' then SetMergeMode MERGE_HTP u1 else SetMergeMode MERGE_LTP u1)
                else u1);
          v = GetValue (uni_key (m_universe_id u) ''_rdm_discovery_interval'') prefs;
          u3 = (if v \<noteq> [] then
                  (case StringToInt_uint v True of
                     Some interval \<Rightarrow>
                       let interval = (if interval \<noteq> 0 \<and> interval < MINIMUM_RDM_DISCOVERY_INTERVAL
                             then MINIMUM_RDM_DISCOVERY_INTERVAL else interval)
                       in u2\<lparr>m_rdm_discovery_interval := interval_sec (sint interval) 0\<rparr>
                   | None \<Rightarrow> u2)
                else u2)
      in (u3, effects))"

definition SaveUniverseSettings :: "universe \<Rightarrow> pref_map option \<Rightarrow> pref_map option" where
  "SaveUniverseSettings u prefs =
     (case prefs of
        None \<Rightarrow> None
      | Some p \<Rightarrow>
          let p1 = SetValue (uni_key (m_universe_id u) ''_name'') (m_universe_name u) p;
              mode = (if m_merge_mode u = MERGE_HTP then ''HTP'' else ''LTP'')
          in Some (SetValue (uni_key (m_universe_id u) ''_merge'') mode p1))"

definition GetUniverse :: "nat \<Rightarrow> store \<Rightarrow> universe option" where
  "GetUniverse universe_id s = map_of (m_universe_map s) universe_id"

definition GetUniverseOrCreate :: "nat \<Rightarrow> TimeStamp \<Rightarrow> store \<Rightarrow> universe \<times> store" where
  "GetUniverseOrCreate universe_id now s =
     (case GetUniverse universe_id s of
        Some u \<Rightarrow> (u, s)
      | None \<Rightarrow>
          let u = new_Universe universe_id (store_export s) now;
              u1 = (case m_preferences s of Some p \<Rightarrow> fst (RestoreUniverseSettings p u) | None \<Rightarrow> u)
          in (u1, s\<lparr>m_universe_map := snd (map_insert universe_id u1 (m_universe_map s))\<rparr>))"

definition GetList :: "store \<Rightarrow> universe list" where
  "GetList s = map snd (m_universe_map s)"

definition DeleteAll :: "store \<Rightarrow> store" where
  "DeleteAll s =
     s\<lparr>m_preferences := fold (\<lambda>(_, u). SaveUniverseSettings u) (m_universe_map s) (m_preferences s),
       m_deletion_candiates := [], m_universe_map := []\<rparr>"

definition AddUniverseGC :: "nat \<Rightarrow> store \<Rightarrow> store" where
  "AddUniverseGC i s = s\<lparr>m_deletion_candiates := snd (stl_set_insert i (m_deletion_candiates s))\<rparr>"

text \<open>The loop over the candidates; the iterator is not invalidated, since only the map of universes changes.\<close>

fun gc_loop :: "nat list \<Rightarrow> store \<Rightarrow> store option" where
  "gc_loop [] s = Some s"
| "gc_loop (i # is) s =
     (case GetUniverse i s of
        None \<Rightarrow> None
      | Some u \<Rightarrow>
          if \<not> IsActive u
          then gc_loop is (s\<lparr>m_preferences := SaveUniverseSettings u (m_preferences s),
                             m_universe_map := map_erase i (m_universe_map s)\<rparr>)
          else gc_loop is s)"

definition GarbageCollectUniverses :: "store \<Rightarrow> store option" where
  "GarbageCollectUniverses s =
     map_option (\<lambda>s1. s1\<lparr>m_deletion_candiates := []\<rparr>) (gc_loop (m_deletion_candiates s) s)"

section \<open>Steps of the store\<close>

text \<open>An operation of a universe changes its entry, and may add the universe to the candidates.\<close>

definition update_universe :: "nat \<Rightarrow> universe \<Rightarrow> bool \<Rightarrow> store \<Rightarrow> store" where
  "update_universe i u gc s =
     (let s1 = s\<lparr>m_universe_map := map_set i u (m_universe_map s)\<rparr> in if gc then AddUniverseGC i s1 else s1)"

inductive store_step :: "store \<Rightarrow> store \<Rightarrow> bool" where
  create: "store_step s (snd (GetUniverseOrCreate i now s))"
| operate: "GetUniverse i s = Some u \<Longrightarrow> universe_step u u' \<Longrightarrow> store_step s (update_universe i u' gc s)"
| collect: "GarbageCollectUniverses s = Some s' \<Longrightarrow> store_step s s'"
| delete_all: "store_step s (DeleteAll s)"

inductive store_reach :: "store \<Rightarrow> bool" where
  start: "store_reach (new_UniverseStore prefs export)"
| step: "store_reach s \<Longrightarrow> store_step s s' \<Longrightarrow> store_reach s'"

definition store_ok :: "store \<Rightarrow> bool" where
  "store_ok s \<longleftrightarrow> map_ok (m_universe_map s) \<and> set_ok (m_deletion_candiates s) \<and>
     set (m_deletion_candiates s) \<subseteq> dom (map_of (m_universe_map s)) \<and>
     (\<forall>i u. map_of (m_universe_map s) i = Some u \<longrightarrow> m_universe_id u = i \<and> universe_ok u)"

lemma MergeAll_id: "m_universe_id (snd (MergeAll ports clients now port client u)) = m_universe_id u"
  by (simp add: MergeAll_top HTPMergeSources_def)

lemma UpdateName_id [simp]: "m_universe_id (UpdateName u) = m_universe_id u"
  by (simp add: UpdateName_def split: option.split)

lemma UpdateMode_id [simp]: "m_universe_id (UpdateMode u) = m_universe_id u"
  by (simp add: UpdateMode_def split: option.split)

lemma universe_step_id: "universe_step u u' \<Longrightarrow> m_universe_id u' = m_universe_id u"
proof (induction rule: universe_step.induct)
  case (clean u)
  then show ?case
    using clean_loop_result [of u "[]" "m_source_clients u" "[]"] by (simp add: CleanStaleSourceClients_def)
next
  case (client_changed u ports clients now c)
  then show ?case
    by (cases c) (simp_all add: SourceClientDataChanged_def split_beta Let_def UpdateDependants_def
      MergeAll_id safe_defs AddSourceClient_def)
next
  case (send_rdm u request)
  then show ?case by (simp add: universe_SendRDMRequest_def Let_def safe_defs split: option.split)
qed (simp_all add: SetName_def SetMergeMode_def AddInputPort_def AddOutputPort_def RemoveInputPort_def
    RemoveOutputPort_def GenericRemoveOutputPort_def AddSourceClient_def RemoveSourceClient_def AddSinkClient_def
    RemoveSinkClient_def SetDMX_def PortDataChanged_def UpdateDependants_def RunRDMDiscovery_def
    PortDiscoveryComplete_def NewUIDList_def safe_defs split_beta Let_def MergeAll_id)

lemma RestoreUniverseSettings_ok:
  "universe_ok u \<Longrightarrow> universe_ok (fst (RestoreUniverseSettings p u)) \<and>
    m_universe_id (fst (RestoreUniverseSettings p u)) = m_universe_id u"
  by (simp add: RestoreUniverseSettings_def Let_def split_beta universe_ok_SetName universe_ok_SetMergeMode
    SetMergeMode_def [symmetric] split: option.split)
    (simp add: SetName_def SetMergeMode_def)


section \<open>The invariant\<close>

lemma store_ok_new: "store_ok (new_UniverseStore prefs export)"
  by (simp add: store_ok_def new_UniverseStore_def)

lemma store_ok_create:
  assumes ok: "store_ok s"
  shows "store_ok (snd (GetUniverseOrCreate i now s))"
proof (cases "GetUniverse i s")
  case None
  let ?u = "case m_preferences s of
      Some p \<Rightarrow> fst (RestoreUniverseSettings p (new_Universe i (store_export s) now))
    | None \<Rightarrow> new_Universe i (store_export s) now"
  have new: "m_universe_id (new_Universe i (store_export s) now) = i"
    by (simp add: new_Universe_def Let_def)
  have u: "universe_ok ?u" "m_universe_id ?u = i"
    using RestoreUniverseSettings_ok [OF universe_ok_new] new by (simp_all add: universe_ok_new split: option.split)
  have m: "map_ok (m_universe_map s)" "map_of (m_universe_map s) i = None"
    using ok None by (simp_all add: store_ok_def GetUniverse_def)
  have look: "map_of (snd (map_insert i ?u (m_universe_map s))) = (map_of (m_universe_map s))(i \<mapsto> ?u)"
    using map_insert_snd [OF m(1), of i ?u] m(2) by simp
  show ?thesis
    using ok u m None unfolding store_ok_def GetUniverseOrCreate_def Let_def by (auto simp: look)
qed (use ok in \<open>simp add: GetUniverseOrCreate_def\<close>)

lemma store_ok_update:
  assumes ok: "store_ok s" and i: "GetUniverse i s = Some u" and u': "universe_ok u'" "m_universe_id u' = i"
  shows "store_ok (update_universe i u' gc s)"
proof -
  have m: "map_of (m_universe_map s) i = Some u" using i by (simp add: GetUniverse_def)
  have "map_of (map_set i u' (m_universe_map s)) = (map_of (m_universe_map s))(i \<mapsto> u')"
    using m by (auto simp: map_of_map_set)
  then show ?thesis
    using ok u' m by (auto simp: store_ok_def update_universe_def AddUniverseGC_def Let_def)
qed

lemma gc_loop_result:
  assumes "map_ok (m_universe_map s)" and "distinct is" and "set is \<subseteq> dom (map_of (m_universe_map s))"
  shows "\<exists>s'. gc_loop is s = Some s' \<and> map_ok (m_universe_map s') \<and> store_export s' = store_export s \<and>
    m_deletion_candiates s' = m_deletion_candiates s \<and>
    (\<forall>i. GetUniverse i s' = (case GetUniverse i s of
        None \<Rightarrow> None | Some u \<Rightarrow> if i \<in> set is \<and> \<not> IsActive u then None else Some u))"
  using assms
proof (induction "is" arbitrary: s)
  case Nil
  then show ?case by (auto split: option.split)
next
  case (Cons i "is")
  obtain u where u: "map_of (m_universe_map s) i = Some u" using Cons.prems(3) by auto
  show ?case
  proof (cases "IsActive u")
    case True
    have "\<exists>s'. gc_loop is s = Some s' \<and> map_ok (m_universe_map s') \<and> store_export s' = store_export s \<and>
        m_deletion_candiates s' = m_deletion_candiates s \<and> (\<forall>i. GetUniverse i s' = (case GetUniverse i s of
          None \<Rightarrow> None | Some u \<Rightarrow> if i \<in> set is \<and> \<not> IsActive u then None else Some u))"
      using Cons.prems by (intro Cons.IH) simp_all
    then obtain s' where s': "gc_loop is s = Some s'" "map_ok (m_universe_map s')" "store_export s' = store_export s"
      "m_deletion_candiates s' = m_deletion_candiates s" "\<And>j. GetUniverse j s' = (case GetUniverse j s of
          None \<Rightarrow> None | Some u \<Rightarrow> if j \<in> set is \<and> \<not> IsActive u then None else Some u)"
      by blast
    have "GetUniverse j s' = (case GetUniverse j s of
        None \<Rightarrow> None | Some v \<Rightarrow> if j \<in> set (i # is) \<and> \<not> IsActive v then None else Some v)" for j
      unfolding s'(5) using u True by (auto simp: GetUniverse_def split: option.split)
    with u True s'(1-4) show ?thesis by (auto simp: GetUniverse_def)
  next
    case False
    let ?s = "s\<lparr>m_preferences := SaveUniverseSettings u (m_preferences s),
      m_universe_map := map_erase i (m_universe_map s)\<rparr>"
    have look: "map_of (map_erase i (m_universe_map s)) = (map_of (m_universe_map s))(i := None)"
      by (auto simp: map_of_map_erase)
    have "set is \<subseteq> dom (map_of (m_universe_map ?s))" using Cons.prems(2,3) by (auto simp: look)
    then have "\<exists>s'. gc_loop is ?s = Some s' \<and> map_ok (m_universe_map s') \<and> store_export s' = store_export ?s \<and>
        m_deletion_candiates s' = m_deletion_candiates ?s \<and> (\<forall>j. GetUniverse j s' = (case GetUniverse j ?s of
          None \<Rightarrow> None | Some u \<Rightarrow> if j \<in> set is \<and> \<not> IsActive u then None else Some u))"
      using Cons.prems by (intro Cons.IH) simp_all
    then obtain s' where s': "gc_loop is ?s = Some s'" "map_ok (m_universe_map s')" "store_export s' = store_export ?s"
      "m_deletion_candiates s' = m_deletion_candiates ?s"
      "\<And>j. GetUniverse j s' = (case GetUniverse j ?s of
          None \<Rightarrow> None | Some u \<Rightarrow> if j \<in> set is \<and> \<not> IsActive u then None else Some u)"
      by blast
    have "GetUniverse j s' = (case GetUniverse j s of
        None \<Rightarrow> None | Some v \<Rightarrow> if j \<in> set (i # is) \<and> \<not> IsActive v then None else Some v)" for j
      unfolding s'(5) using u False by (auto simp: GetUniverse_def look split: option.split)
    with u False s'(1-4) show ?thesis by (auto simp: GetUniverse_def)
  qed
qed

lemma GarbageCollect_result:
  assumes "store_ok s"
  obtains s' where "GarbageCollectUniverses s = Some s'" and "store_ok s'" and "m_deletion_candiates s' = []"
    and "\<And>i. GetUniverse i s' = (case GetUniverse i s of
        None \<Rightarrow> None | Some u \<Rightarrow> if i \<in> set (m_deletion_candiates s) \<and> \<not> IsActive u then None else Some u)"
proof -
  have "\<exists>s'. gc_loop (m_deletion_candiates s) s = Some s' \<and> map_ok (m_universe_map s') \<and>
    store_export s' = store_export s \<and> m_deletion_candiates s' = m_deletion_candiates s \<and>
    (\<forall>i. GetUniverse i s' = (case GetUniverse i s of
        None \<Rightarrow> None | Some u \<Rightarrow> if i \<in> set (m_deletion_candiates s) \<and> \<not> IsActive u then None else Some u))"
    using assms by (intro gc_loop_result) (auto simp: store_ok_def strict_sorted_iff)
  then obtain s1 where s1: "gc_loop (m_deletion_candiates s) s = Some s1" "map_ok (m_universe_map s1)"
    "\<And>i. GetUniverse i s1 = (case GetUniverse i s of
        None \<Rightarrow> None | Some u \<Rightarrow> if i \<in> set (m_deletion_candiates s) \<and> \<not> IsActive u then None else Some u)"
    by blast
  have keep: "m_universe_id u = i \<and> universe_ok u" if "map_of (m_universe_map s1) i = Some u" for i u
    using that s1(3) [of i] assms by (auto simp: GetUniverse_def store_ok_def split: option.splits if_splits)
  show thesis
  proof (rule that [of "s1\<lparr>m_deletion_candiates := []\<rparr>"])
    show "store_ok (s1\<lparr>m_deletion_candiates := []\<rparr>)" using keep s1(2) by (simp add: store_ok_def)
  qed (simp_all add: GarbageCollectUniverses_def s1(1) s1(3) [unfolded GetUniverse_def] GetUniverse_def)
qed

lemma store_ok_step: "store_step s s' \<Longrightarrow> store_ok s \<Longrightarrow> store_ok s'"
proof (induction rule: store_step.induct)
  case (create s i now)
  then show ?case by (rule store_ok_create)
next
  case (operate i s u u' gc)
  then have "universe_ok u" "m_universe_id u = i" by (auto simp: store_ok_def GetUniverse_def)
  with operate show ?case
    by (intro store_ok_update) (auto intro: universe_ok_step simp: universe_step_id)
next
  case (collect s s')
  obtain t where "GarbageCollectUniverses s = Some t" "store_ok t"
    by (rule GarbageCollect_result [OF collect(2)])
  with collect(1) show ?case by simp
next
  case (delete_all s)
  then show ?case by (simp add: store_ok_def DeleteAll_def)
qed

text \<open>C13: In every state the store can reach, the ids of the universes match their entries, every universe
  satisfies its invariant, and every candidate for garbage collection exists. So the collection never
  touches a deleted universe; it removes exactly the candidates that are unused, keeps every universe
  that is in use, whatever happened to it after it became a candidate, and leaves no candidate.\<close>

theorem store_garbage_collection:
  assumes "store_reach s"
  shows "store_ok s \<and> (\<exists>s'. GarbageCollectUniverses s = Some s' \<and> m_deletion_candiates s' = [] \<and>
    (\<forall>i. GetUniverse i s' = (case GetUniverse i s of
        None \<Rightarrow> None
      | Some u \<Rightarrow> if i \<in> set (m_deletion_candiates s) \<and> \<not> IsActive u then None else Some u)))"
proof -
  have "store_ok s" using assms by induction (auto simp: store_ok_new intro: store_ok_step)
  then show ?thesis by (rule GarbageCollect_result) (use \<open>store_ok s\<close> in blast)
qed

theorem store_garbage_collection_witness:
  "GetUniverse 5 (snd (GetUniverseOrCreate 5 (TimeStamp (Timeval 1 0)) (new_UniverseStore None True))) \<noteq> None \<and>
   (\<exists>s'. GarbageCollectUniverses
     (snd (GetUniverseOrCreate 5 (TimeStamp (Timeval 1 0)) (new_UniverseStore None True))) = Some s')"
  using store_garbage_collection [OF store_reach.step [OF store_reach.start store_step.create],
    of 5 "TimeStamp (Timeval 1 0)" None True]
  by (auto simp: GetUniverseOrCreate_def GetUniverse_def new_UniverseStore_def Let_def)


section \<open>Settings\<close>

lemma takeWhile_digits: "takeWhile (is_digit 10) (print_base 10 i @ CHR ''_'' # r) = print_base 10 i"
proof -
  have "\<not> is_digit 10 (CHR ''_'')" by (simp add: is_digit_def digit_val_def c_isdigit_def c_isupper_def c_islower_def)
  then show ?thesis
    using set_print_base [of 10 _ i] by (subst takeWhile_append2) auto
qed

lemma uni_key_inj:
  assumes "uni_key i (CHR ''_'' # a) = uni_key j (CHR ''_'' # b)"
  shows "i = j \<and> a = b"
proof -
  have eq: "print_base 10 i @ CHR ''_'' # a = print_base 10 j @ CHR ''_'' # b"
    using assms by (simp add: uni_key_def)
  then have p: "print_base 10 i = print_base 10 j" by (metis takeWhile_digits)
  have val: "digits_val 10 (print_base 10 n) = n" for n by (rule digits_val_print) simp_all
  from arg_cong [OF p, of "digits_val 10"] have "i = j" by (simp only: val)
  with eq show ?thesis by simp
qed

definition setting_keys :: "nat \<Rightarrow> string set" where
  "setting_keys i = {uni_key i ''_name'', uni_key i ''_merge'', uni_key i ''_rdm_discovery_interval''}"

lemma setting_keysD: "k \<in> setting_keys i \<Longrightarrow> \<exists>r. k = uni_key i (CHR ''_'' # r)"
  unfolding setting_keys_def by blast

lemma setting_keys_disjoint:
  assumes "k \<in> setting_keys i" and "k \<in> setting_keys j"
  shows "i = j"
proof -
  obtain a b where "k = uni_key i (CHR ''_'' # a)" "k = uni_key j (CHR ''_'' # b)"
    using assms [THEN setting_keysD] by blast
  then show ?thesis using uni_key_inj [of i a j b] by simp
qed

lemma keys_differ: "uni_key i ''_name'' \<noteq> uni_key i ''_merge''"
  by (simp add: uni_key_def)

abbreviation mode_string :: "merge_mode \<Rightarrow> string" where
  "mode_string mode \<equiv> if mode = MERGE_HTP then ''HTP'' else ''LTP''"

lemma SaveUniverseSettings_values:
  "\<exists>p'. SaveUniverseSettings u (Some p) = Some p' \<and>
    GetValue (uni_key (m_universe_id u) ''_name'') p' = m_universe_name u \<and>
    GetValue (uni_key (m_universe_id u) ''_merge'') p' = mode_string (m_merge_mode u) \<and>
    (\<forall>i k. i \<noteq> m_universe_id u \<and> k \<in> setting_keys i \<longrightarrow> GetValue k p' = GetValue k p)"
proof -
  let ?n = "uni_key (m_universe_id u) ''_name''" and ?m = "uni_key (m_universe_id u) ''_merge''"
  let ?p = "SetValue ?m (mode_string (m_merge_mode u)) (SetValue ?n (m_universe_name u) p)"
  have "GetValue k ?p = GetValue k p" if "i \<noteq> m_universe_id u" "k \<in> setting_keys i" for i k
  proof -
    have "k \<noteq> ?n \<and> k \<noteq> ?m"
      using that setting_keys_disjoint [of k i "m_universe_id u"] by (auto simp: setting_keys_def)
    then show ?thesis using prefs.put_two [OF keys_differ [of "m_universe_id u"]] by blast
  qed
  moreover have "SaveUniverseSettings u (Some p) = Some ?p"
    by (simp add: SaveUniverseSettings_def Let_def)
  ultimately show ?thesis
    using prefs.put_two [OF keys_differ [of "m_universe_id u"]] by blast
qed

lemma gc_loop_prefs_other:
  assumes "gc_loop is s = Some s'" and "m_preferences s = Some p" and "i \<notin> set is"
    and "\<forall>j u. GetUniverse j s = Some u \<longrightarrow> m_universe_id u = j"
  shows "\<exists>p'. m_preferences s' = Some p' \<and> (\<forall>k\<in>setting_keys i. GetValue k p' = GetValue k p)"
  using assms
proof (induction "is" arbitrary: s p)
  case (Cons j "is")
  obtain u where u: "GetUniverse j s = Some u" using Cons.prems(1) by (auto split: option.splits)
  then have id: "m_universe_id u = j" using Cons.prems(4) by blast
  show ?case
  proof (cases "IsActive u")
    case True
    with Cons u show ?thesis by simp
  next
    case False
    let ?s = "s\<lparr>m_preferences := SaveUniverseSettings u (m_preferences s),
      m_universe_map := map_erase j (m_universe_map s)\<rparr>"
    have run: "gc_loop is ?s = Some s'" using Cons.prems(1) u False by simp
    obtain p1 where p1: "SaveUniverseSettings u (Some p) = Some p1"
      "\<forall>i k. i \<noteq> m_universe_id u \<and> k \<in> setting_keys i \<longrightarrow> GetValue k p1 = GetValue k p"
      using SaveUniverseSettings_values [of u p] by blast
    have pref: "m_preferences ?s = Some p1" using Cons.prems(2) p1(1) by simp
    have ids: "\<forall>l w. GetUniverse l ?s = Some w \<longrightarrow> m_universe_id w = l"
      using Cons.prems(4) by (auto simp: GetUniverse_def map_of_map_erase split: if_splits)
    have "\<exists>p'. m_preferences s' = Some p' \<and> (\<forall>k\<in>setting_keys i. GetValue k p' = GetValue k p1)"
      using Cons.prems(3) by (intro Cons.IH [OF run pref _ ids]) simp
    moreover have "\<forall>k\<in>setting_keys i. GetValue k p1 = GetValue k p"
      using p1(2) Cons.prems(3) id by auto
    ultimately show ?thesis by auto
  qed
qed auto

lemma gc_loop_prefs:
  assumes "gc_loop is s = Some s'" and "m_preferences s = Some p" and "i \<in> set is" and "distinct is"
    and "\<forall>j u. GetUniverse j s = Some u \<longrightarrow> m_universe_id u = j"
    and "GetUniverse i s = Some u" and "\<not> IsActive u"
  shows "\<exists>p'. m_preferences s' = Some p' \<and> GetValue (uni_key i ''_name'') p' = m_universe_name u \<and>
    GetValue (uni_key i ''_merge'') p' = mode_string (m_merge_mode u)"
  using assms
proof (induction "is" arbitrary: s p)
  case (Cons j "is")
  obtain v where v: "GetUniverse j s = Some v" using Cons.prems(1) by (auto split: option.splits)
  let ?s = "s\<lparr>m_preferences := SaveUniverseSettings v (m_preferences s),
      m_universe_map := map_erase j (m_universe_map s)\<rparr>"
  obtain p1 where p1: "SaveUniverseSettings v (Some p) = Some p1"
    "GetValue (uni_key (m_universe_id v) ''_name'') p1 = m_universe_name v"
    "GetValue (uni_key (m_universe_id v) ''_merge'') p1 = mode_string (m_merge_mode v)"
    using SaveUniverseSettings_values [of v p] by blast
  have pref: "m_preferences ?s = Some p1" using Cons.prems(2) p1(1) by simp
  have ids: "\<forall>l w. GetUniverse l ?s = Some w \<longrightarrow> m_universe_id w = l"
    using Cons.prems(5) by (auto simp: GetUniverse_def map_of_map_erase split: if_splits)
  show ?case
  proof (cases "i = j")
    case True
    with v Cons.prems(6) have uv: "u = v" by simp
    then have run: "gc_loop is ?s = Some s'" using Cons.prems(1,7) v by simp
    have "i \<notin> set is" using Cons.prems(4) True by simp
    from gc_loop_prefs_other [OF run pref this ids] obtain p' where
      p': "m_preferences s' = Some p'" "\<forall>k\<in>setting_keys i. GetValue k p' = GetValue k p1" by blast
    have "m_universe_id v = i" using Cons.prems(5) v True by blast
    then show ?thesis using p' p1(2,3) uv by (auto simp: setting_keys_def)
  next
    case False
    then have i: "i \<in> set is" using Cons.prems(3) by simp
    show ?thesis
    proof (cases "IsActive v")
      case True
      with Cons.prems v i show ?thesis by (intro Cons.IH) auto
    next
      case inactive: False
      then have run: "gc_loop is ?s = Some s'" using Cons.prems(1) v by simp
      have "GetUniverse i ?s = Some u"
        using Cons.prems(6) False by (simp add: GetUniverse_def map_of_map_erase)
      with run pref i ids Cons.prems(4,7) show ?thesis by (intro Cons.IH) auto
    qed
  qed
qed simp


lemma mode_string_inj: "(if mode_string m = ''HTP'' then MERGE_HTP else MERGE_LTP) = m" "mode_string m \<noteq> []"
  by (cases m; simp)+

lemma UpdateName_fields:
  "m_universe_name (UpdateName u) = m_universe_name u" "m_merge_mode (UpdateName u) = m_merge_mode u"
  "m_input_ports (UpdateName u) = m_input_ports u" "m_output_ports (UpdateName u) = m_output_ports u"
  "m_source_clients (UpdateName u) = m_source_clients u" "m_sink_clients (UpdateName u) = m_sink_clients u"
  by (simp_all add: UpdateName_def split: option.split)

lemma UpdateMode_fields:
  "m_universe_name (UpdateMode u) = m_universe_name u" "m_merge_mode (UpdateMode u) = m_merge_mode u"
  "m_input_ports (UpdateMode u) = m_input_ports u" "m_output_ports (UpdateMode u) = m_output_ports u"
  "m_source_clients (UpdateMode u) = m_source_clients u" "m_sink_clients (UpdateMode u) = m_sink_clients u"
  by (simp_all add: UpdateMode_def split: option.split)

lemmas settings_fields = UpdateName_fields UpdateMode_fields SetName_def SetMergeMode_def

lemma Restore_fields:
  "m_universe_name (fst (RestoreUniverseSettings p u)) =
     (let n = GetValue (uni_key (m_universe_id u) ''_name'') p in if n \<noteq> [] then n else m_universe_name u)"
  "m_merge_mode (fst (RestoreUniverseSettings p u)) =
     (let m = GetValue (uni_key (m_universe_id u) ''_merge'') p
      in if m \<noteq> [] then if m = ''HTP'' then MERGE_HTP else MERGE_LTP else m_merge_mode u)"
  "IsActive (fst (RestoreUniverseSettings p u)) = IsActive u"
  by (auto simp: RestoreUniverseSettings_def settings_fields IsActive_def Let_def split_beta split: option.split)

text \<open>The name and the merge mode of a universe survive its garbage collection: a universe that was collected
  because nobody used it and that is created again later has the name (unless that was
  empty) and the merge mode it had, and starts without ports and clients.\<close>

theorem universe_settings_survive:
  assumes ok: "store_ok s" and prefs: "m_preferences s = Some p" and i: "GetUniverse i s = Some u"
    and unused: "i \<in> set (m_deletion_candiates s)" "\<not> IsActive u" and gc: "GarbageCollectUniverses s = Some s'"
    and again: "GetUniverseOrCreate i now s' = (v, s'')" and name: "m_universe_name u \<noteq> []"
  shows "GetUniverse i s' = None \<and> GetUniverse i s'' = Some v \<and> m_universe_name v = m_universe_name u \<and>
    m_merge_mode v = m_merge_mode u \<and> \<not> IsActive v"
proof -
  have ids: "\<forall>j u. GetUniverse j s = Some u \<longrightarrow> m_universe_id u = j"
    using ok by (simp add: store_ok_def GetUniverse_def)
  obtain s1 where s1: "gc_loop (m_deletion_candiates s) s = Some s1" "s' = s1\<lparr>m_deletion_candiates := []\<rparr>"
    using gc by (auto simp: GarbageCollectUniverses_def)
  have "distinct (m_deletion_candiates s)" using ok by (simp add: store_ok_def strict_sorted_iff)
  from gc_loop_prefs [OF s1(1) prefs unused(1) this ids i unused(2)] obtain p' where
    p': "m_preferences s' = Some p'" "GetValue (uni_key i ''_name'') p' = m_universe_name u"
      "GetValue (uni_key i ''_merge'') p' = mode_string (m_merge_mode u)"
    using s1(2) by auto
  obtain t where t: "GarbageCollectUniverses s = Some t" "store_ok t" "GetUniverse i t = None"
    by (rule GarbageCollect_result [OF ok]) (use i unused in auto)
  then have none: "GetUniverse i s' = None" and ok': "store_ok s'" using gc by simp_all
  let ?new = "new_Universe i (store_export s') now"
  have id: "m_universe_id ?new = i" "\<not> IsActive ?new"
    by (simp_all add: new_Universe_def Let_def IsActive_def UpdateName_fields UpdateMode_fields)
  have v: "v = fst (RestoreUniverseSettings p' ?new)"
    and s'': "s'' = s'\<lparr>m_universe_map := snd (map_insert i v (m_universe_map s'))\<rparr>"
    using again none p'(1) by (auto simp: GetUniverseOrCreate_def Let_def)
  have mode: "(if mode_string (m_merge_mode u) = ''HTP'' then MERGE_HTP else MERGE_LTP) = m_merge_mode u"
    "mode_string (m_merge_mode u) \<noteq> []" by (rule mode_string_inj)+
  have "m_universe_name v = m_universe_name u" "m_merge_mode v = m_merge_mode u" "\<not> IsActive v"
    using name mode id(2) unfolding v Restore_fields id(1) p'(2,3) Let_def by auto
  moreover have "GetUniverse i s'' = Some v"
    using ok' none map_insert_snd [of "m_universe_map s'" i v] by (simp add: s'' GetUniverse_def store_ok_def)
  ultimately show ?thesis using none by simp
qed

theorem universe_settings_survive_witness:
  "\<exists>s u s' v s''. GetUniverse 1 s = Some u \<and> GarbageCollectUniverses s = Some s' \<and>
     GetUniverseOrCreate 1 (TimeStamp (Timeval 2 0)) s' = (v, s'') \<and> m_universe_name v = m_universe_name u"
proof -
  let ?s0 = "new_UniverseStore (Some []) False"
  let ?u = "fst (RestoreUniverseSettings [] (new_Universe 1 False (TimeStamp (Timeval 1 0))))"
  define s where "s = AddUniverseGC 1 (snd (GetUniverseOrCreate 1 (TimeStamp (Timeval 1 0)) ?s0))"
  have s: "s = \<lparr>m_universe_map = [(1, ?u)], m_deletion_candiates = [1], m_preferences = Some [], store_export = False\<rparr>"
    by (simp add: s_def GetUniverseOrCreate_def AddUniverseGC_def new_UniverseStore_def GetUniverse_def Let_def)
  have i: "GetUniverse 1 s = Some ?u" by (simp add: s GetUniverse_def)
  have u: "\<not> IsActive ?u" "m_universe_name ?u \<noteq> []"
    unfolding Restore_fields
    by (simp_all add: new_Universe_def IsActive_def Let_def UpdateName_fields UpdateMode_fields GetValue_def)
  have "universe_ok ?u" "m_universe_id ?u = 1"
    using RestoreUniverseSettings_ok [OF universe_ok_new, of "[]" 1 False "TimeStamp (Timeval 1 0)"]
    by (simp_all add: new_Universe_def Let_def)
  then have ok: "store_ok s" by (simp add: store_ok_def s)
  obtain s' where gc: "GarbageCollectUniverses s = Some s'" by (rule GarbageCollect_result [OF ok])
  obtain v s'' where again: "GetUniverseOrCreate 1 (TimeStamp (Timeval 2 0)) s' = (v, s'')" by force
  have "m_preferences s = Some []" "1 \<in> set (m_deletion_candiates s)" by (simp_all add: s)
  from universe_settings_survive [OF ok this(1) i this(2) u(1) gc again u(2)] i gc again show ?thesis by blast
qed

text \<open>The discovery interval read from the preferences is the number given there, raised to 30 seconds if it
  is between 1 and 29; a value that is no unsigned number leaves the interval as it was. From \<open>2 ^ 31\<close> seconds on
  the conversion to a signed number makes the interval negative.\<close>

theorem restored_discovery_interval:
  assumes v: "v = GetValue (uni_key (m_universe_id u) ''_rdm_discovery_interval'') p" and "v \<noteq> []"
    and u': "u' = fst (RestoreUniverseSettings p u)"
  shows "case StringToInt_uint v True of
      None \<Rightarrow> m_rdm_discovery_interval u' = m_rdm_discovery_interval u
    | Some n \<Rightarrow> m_rdm_discovery_interval u' = interval_sec
        (if uint n = 0 then 0 else if uint n < 30 then 30
         else if uint n < 2 ^ 31 then uint n else uint n - 2 ^ 32) 0"
proof (cases "StringToInt_uint v True")
  case None
  have "m_rdm_discovery_interval (UpdateName w) = m_rdm_discovery_interval w"
    "m_rdm_discovery_interval (UpdateMode w) = m_rdm_discovery_interval w" for w
    by (simp_all add: UpdateName_def UpdateMode_def split: option.split)
  with None show ?thesis using assms
    by (simp add: u' RestoreUniverseSettings_def Let_def split_beta SetName_def SetMergeMode_def)
next
  case (Some n)
  have n0: "n = 0 \<longleftrightarrow> uint n = 0" by (simp add: uint_0_iff)
  have n30: "n < 30 \<longleftrightarrow> uint n < 30" by (simp add: word_less_def)
  have r: "0 \<le> uint n" "uint n < 4294967296" using uint_lt2p [of n] by simp_all
  have "(uint n + 2147483648) mod 4294967296 = uint n - 2147483648" if "\<not> uint n < 2147483648"
    using that r mod_pos_pos_trivial [of "uint n - 2147483648" 4294967296]
      mod_add_self2 [of "uint n - 2147483648" "4294967296 :: int"] by (simp add: add.commute)
  with r have sint: "sint n = (if uint n < 2 ^ 31 then uint n else uint n - 2 ^ 32)"
    by (simp add: sint_uint signed_take_bit_eq_take_bit_shift take_bit_eq_mod mod_pos_pos_trivial)
  have "m_rdm_discovery_interval u' =
      interval_sec (sint (if n \<noteq> 0 \<and> n < MINIMUM_RDM_DISCOVERY_INTERVAL then MINIMUM_RDM_DISCOVERY_INTERVAL else n)) 0"
    using Some assms by (simp add: u' RestoreUniverseSettings_def Let_def split_beta)
  then show ?thesis
    using Some by (simp add: MINIMUM_RDM_DISCOVERY_INTERVAL_def n0 n30 sint)
qed


theorem restored_discovery_interval_witness:
  "m_rdm_discovery_interval (fst (RestoreUniverseSettings [(''uni_1_rdm_discovery_interval'', ''7'')]
     (new_Universe 1 False (TimeStamp (Timeval 1 0))))) = interval_sec 30 0"
proof -
  let ?u = "new_Universe 1 False (TimeStamp (Timeval 1 0))"
    and ?p = "[(''uni_1_rdm_discovery_interval'', ''7'')] :: pref_map"
  have d: "digit_char 1 = CHR ''1''" "digit_char 7 = CHR ''7''" by code_simp+
  have v: "''7'' = GetValue (uni_key (m_universe_id ?u) ''_rdm_discovery_interval'') ?p"
    by (simp add: new_Universe_def Let_def uni_key_def print_base_small d [simplified] GetValue_def)
  have "IntToString (uint (7 :: u32)) = ''7''"
    by (simp add: IntToString_def print_base_small d [simplified])
  then have n: "StringToInt_uint ''7'' True = Some 7"
    using StringToInt_uint_print [of 7 True] by simp
  show ?thesis using restored_discovery_interval [OF v _ refl] n by simp
qed

end
