(* ===== verification/Port_Manager.thy ===== *)
theory Port_Manager
  imports Universe_Store
begin

text \<open>
  Ports and their patching: \<^verbatim>\<open>olad/Port.cpp\<close>, \<^verbatim>\<open>olad/PortManager.cpp\<close> and \<^verbatim>\<open>olad/PortBroker.cpp\<close>. The templates over the
  kind of port are definitions with the kind as a field of the port. What a plugin overrides in its
  ports is a parameter: \<open>pre\<close> is \<open>PreSetUniverse\<close>, which may refuse a new universe, and the data, the inherited priority
  and the wake-up time of an input port are arguments of \<open>DmxChanged\<close>. A pointer to a universe is its id, and
  the use of a universe that is not in the store any more has the result \<open>None\<close>.
\<close>

section \<open>State\<close>

datatype port_kind = InputPort | OutputPort

datatype port_priority_capability = CAPABILITY_NONE | CAPABILITY_STATIC | CAPABILITY_FULL

datatype port_priority_mode = PRIORITY_MODE_INHERIT | PRIORITY_MODE_OVERRIDE | PRIORITY_MODE_END

record port =
  port_kind :: port_kind
  m_port_nr :: nat
  m_priority :: u8
  m_priority_mode :: port_priority_mode
  m_universe :: "nat option"
  m_device :: "nat option"
  m_dmx_source :: DmxSource
  m_discover_on_patch :: bool
  supports_priorities :: bool

record device =
  device_UniqueId :: string
  AllowLooping :: bool
  AllowMultiPortPatching :: bool
  device_InputPorts :: "nat list"
  device_OutputPorts :: "nat list"

text \<open>The daemon: its ports, devices and clients by address, the store of universes, the broker's set of ports.\<close>

record daemon =
  ports :: "nat \<Rightarrow> port"
  devices :: "nat \<Rightarrow> device"
  clients :: "nat \<Rightarrow> client"
  m_universe_store :: store
  m_broker :: "(string \<times> nat) list"

datatype port_effect =
    PostSetUniverse nat "nat option" "nat option"
  | RunIncrementalDiscovery nat

section \<open>Ports\<close>

definition new_port :: "port_kind \<Rightarrow> nat option \<Rightarrow> nat \<Rightarrow> bool \<Rightarrow> bool \<Rightarrow> port" where
  "new_port kind parent nr start_rdm_discovery_on_patch priorities =
     \<lparr>port_kind = kind, m_port_nr = nr, m_priority = SOURCE_PRIORITY_DEFAULT,
      m_priority_mode = PRIORITY_MODE_INHERIT, m_universe = None, m_device = parent,
      m_dmx_source = new_DmxSource, m_discover_on_patch = start_rdm_discovery_on_patch,
      supports_priorities = priorities\<rparr>"

definition UniqueId :: "daemon \<Rightarrow> nat \<Rightarrow> string" where
  "UniqueId d p =
     (case m_device (ports d p) of
        None \<Rightarrow> []
      | Some dev \<Rightarrow> device_UniqueId (devices d dev) @
          (case port_kind (ports d p) of InputPort \<Rightarrow> ''-I-'' | OutputPort \<Rightarrow> ''-O-'') @
          print_base 10 (m_port_nr (ports d p)))"

definition PriorityCapability :: "port \<Rightarrow> port_priority_capability" where
  "PriorityCapability p =
     (if supports_priorities p then CAPABILITY_FULL
      else case port_kind p of InputPort \<Rightarrow> CAPABILITY_STATIC | OutputPort \<Rightarrow> CAPABILITY_NONE)"

definition SetPriority :: "u8 \<Rightarrow> port \<Rightarrow> bool \<times> port" where
  "SetPriority priority p =
     (if priority > SOURCE_PRIORITY_MAX then (False, p) else (True, p\<lparr>m_priority := priority\<rparr>))"

definition set_port :: "nat \<Rightarrow> port \<Rightarrow> daemon \<Rightarrow> daemon" where
  "set_port p x d = d\<lparr>ports := (ports d)(p := x)\<rparr>"

definition SetUniverse :: "(nat \<Rightarrow> nat option \<Rightarrow> nat option \<Rightarrow> bool) \<Rightarrow> nat \<Rightarrow> nat option \<Rightarrow> daemon \<Rightarrow>
    bool \<times> daemon \<times> port_effect list" where
  "SetUniverse pre p new_universe d =
     (let old_universe = m_universe (ports d p)
      in if old_universe = new_universe then (True, d, [])
         else if pre p old_universe new_universe
         then (True, set_port p ((ports d p)\<lparr>m_universe := new_universe\<rparr>) d,
               PostSetUniverse p old_universe new_universe #
               (if port_kind (ports d p) = OutputPort \<and> m_discover_on_patch (ports d p)
                then [RunIncrementalDiscovery p] else []))
         else (False, d, []))"

text \<open>An operation on the universe a pointer names, with the garbage collection requests it makes.\<close>

definition with_universe :: "nat \<Rightarrow> (universe \<Rightarrow> universe \<times> universe_effect list) \<Rightarrow> daemon \<Rightarrow> daemon option" where
  "with_universe i f d =
     (case GetUniverse i (m_universe_store d) of
        None \<Rightarrow> None
      | Some u \<Rightarrow>
          let (u', effects) = f u
          in Some (d\<lparr>m_universe_store :=
               update_universe i u' (AddUniverseGarbageCollection i \<in> set effects) (m_universe_store d)\<rparr>))"

definition DmxChanged :: "dmx \<Rightarrow> u8 \<Rightarrow> TimeStamp \<Rightarrow> TimeStamp \<Rightarrow> nat \<Rightarrow> daemon \<Rightarrow>
    (daemon \<times> universe_effect list) option" where
  "DmxChanged buffer inherited wake_up now p d =
     (case m_universe (ports d p) of
        None \<Rightarrow> Some (d, [])
      | Some i \<Rightarrow>
          let x = ports d p;
              priority = (if PriorityCapability x = CAPABILITY_FULL \<and> m_priority_mode x = PRIORITY_MODE_INHERIT
                          then inherited else m_priority x);
              d1 = set_port p (x\<lparr>m_dmx_source := UpdateData buffer wake_up priority (m_dmx_source x)\<rparr>) d
          in (case GetUniverse i (m_universe_store d1) of
                None \<Rightarrow> None
              | Some u \<Rightarrow>
                  let (_, u', effects) = PortDataChanged (\<lambda>q. m_dmx_source (ports d1 q)) (clients d1) now p u
                  in Some (d1\<lparr>m_universe_store := update_universe i u' False (m_universe_store d1)\<rparr>, effects)))"

definition UpdateUIDs :: "nat \<Rightarrow> uid_set \<Rightarrow> daemon \<Rightarrow> daemon option" where
  "UpdateUIDs p uids d =
     (case m_universe (ports d p) of
        None \<Rightarrow> Some d
      | Some i \<Rightarrow> with_universe i (\<lambda>u. (NewUIDList p uids u, [])) d)"

section \<open>The broker\<close>

definition broker_AddPort :: "nat \<Rightarrow> daemon \<Rightarrow> daemon" where
  "broker_AddPort p d = d\<lparr>m_broker := List.insert (UniqueId d p, p) (m_broker d)\<rparr>"

definition broker_RemovePort :: "nat \<Rightarrow> daemon \<Rightarrow> daemon" where
  "broker_RemovePort p d = d\<lparr>m_broker := removeAll (UniqueId d p, p) (m_broker d)\<rparr>"

text \<open>A request is sent with the key of the port; the callback runs only if the port is still there.\<close>

definition broker_SendRDMRequest :: "nat \<Rightarrow> rdm_command \<Rightarrow> universe \<Rightarrow> daemon \<Rightarrow>
    (string \<times> nat) \<times> universe \<times> broadcast_request_tracker option \<times> universe_effect list" where
  "broker_SendRDMRequest p request u d = ((UniqueId d p, p), universe_SendRDMRequest request u)"

definition broker_RequestComplete :: "string \<times> nat \<Rightarrow> rdm_response_code \<Rightarrow> bytes list \<Rightarrow> daemon \<Rightarrow>
    universe_effect list" where
  "broker_RequestComplete key code packets d =
     (if key \<notin> set (m_broker d) then [] else [RunRDMCallback code packets])"

section \<open>The port manager\<close>

definition SetPriorityInherit :: "port \<Rightarrow> port" where
  "SetPriorityInherit p =
     (if PriorityCapability p = CAPABILITY_NONE then p
      else if m_priority_mode p \<noteq> PRIORITY_MODE_INHERIT then p\<lparr>m_priority_mode := PRIORITY_MODE_INHERIT\<rparr> else p)"

definition SetPriorityOverride :: "u8 \<Rightarrow> port \<Rightarrow> port" where
  "SetPriorityOverride v p =
     (if PriorityCapability p = CAPABILITY_NONE then p
      else
        let p1 = (if PriorityCapability p = CAPABILITY_FULL \<and> m_priority_mode p \<noteq> PRIORITY_MODE_OVERRIDE
                  then p\<lparr>m_priority_mode := PRIORITY_MODE_OVERRIDE\<rparr> else p);
            w = (if v > SOURCE_PRIORITY_MAX then SOURCE_PRIORITY_MAX else v)
        in if m_priority p1 \<noteq> w then snd (SetPriority w p1) else p1)"

text \<open>The scan of a device's ports stops at the first port on the universe; a port with a dangling pointer
  before it is a use of a deleted universe.\<close>

fun CheckForPortMatchingUniverse :: "nat list \<Rightarrow> nat \<Rightarrow> daemon \<Rightarrow> bool option" where
  "CheckForPortMatchingUniverse [] universe_id d = Some False"
| "CheckForPortMatchingUniverse (p # ps) universe_id d =
     (case m_universe (ports d p) of
        None \<Rightarrow> CheckForPortMatchingUniverse ps universe_id d
      | Some i \<Rightarrow>
          (case GetUniverse i (m_universe_store d) of
             None \<Rightarrow> None
           | Some u \<Rightarrow> if m_universe_id u = universe_id then Some True
                       else CheckForPortMatchingUniverse ps universe_id d))"

definition CheckLooping :: "port_kind \<Rightarrow> device \<Rightarrow> nat \<Rightarrow> daemon \<Rightarrow> bool option" where
  "CheckLooping kind dev new_universe_id d =
     CheckForPortMatchingUniverse
       (case kind of InputPort \<Rightarrow> device_OutputPorts dev | OutputPort \<Rightarrow> device_InputPorts dev) new_universe_id d"

definition CheckMultiPort :: "port_kind \<Rightarrow> device \<Rightarrow> nat \<Rightarrow> daemon \<Rightarrow> bool option" where
  "CheckMultiPort kind dev new_universe_id d =
     CheckForPortMatchingUniverse
       (case kind of InputPort \<Rightarrow> device_InputPorts dev | OutputPort \<Rightarrow> device_OutputPorts dev) new_universe_id d"

definition remove_from_universe :: "nat \<Rightarrow> nat \<Rightarrow> daemon \<Rightarrow> daemon option" where
  "remove_from_universe p i d = with_universe i
     (\<lambda>u. snd (case port_kind (ports d p) of InputPort \<Rightarrow> RemoveInputPort p u | OutputPort \<Rightarrow> RemoveOutputPort p u)) d"

definition add_to_universe :: "nat \<Rightarrow> nat \<Rightarrow> daemon \<Rightarrow> daemon option" where
  "add_to_universe p i d = with_universe i
     (\<lambda>u. (snd (case port_kind (ports d p) of InputPort \<Rightarrow> AddInputPort p u | OutputPort \<Rightarrow> AddOutputPort p u), [])) d"

text \<open>The checks of a new universe against the other ports of the device: \<open>True\<close> if the patch is allowed.\<close>

definition patch_allowed :: "nat \<Rightarrow> nat \<Rightarrow> daemon \<Rightarrow> bool option" where
  "patch_allowed p new_universe_id d =
     (case m_device (ports d p) of
        None \<Rightarrow> Some True
      | Some i \<Rightarrow>
          let dev = devices d i; kind = port_kind (ports d p)
          in do {
            looping \<leftarrow> (if \<not> AllowLooping dev then CheckLooping kind dev new_universe_id d else Some False);
            if looping then Some False
            else do {
              multi \<leftarrow> (if \<not> AllowMultiPortPatching dev then CheckMultiPort kind dev new_universe_id d
                        else Some False);
              Some (\<not> multi)
            }
          })"

definition GenericPatchPort :: "(nat \<Rightarrow> nat option \<Rightarrow> nat option \<Rightarrow> bool) \<Rightarrow> TimeStamp \<Rightarrow> nat option \<Rightarrow> nat \<Rightarrow>
    daemon \<Rightarrow> (bool \<times> daemon \<times> port_effect list) option" where
  "GenericPatchPort pre now port new_universe_id d =
     (case port of
        None \<Rightarrow> Some (False, d, [])
      | Some p \<Rightarrow> do {
          same \<leftarrow> (case m_universe (ports d p) of
                    None \<Rightarrow> Some False
                  | Some i \<Rightarrow> map_option (\<lambda>u. m_universe_id u = new_universe_id) (GetUniverse i (m_universe_store d)));
          if same then Some (True, d, [])
          else do {
            allowed \<leftarrow> patch_allowed p new_universe_id d;
            if \<not> allowed then Some (False, d, [])
            else do {
              d1 \<leftarrow> (case m_universe (ports d p) of
                       None \<Rightarrow> Some d
                     | Some i \<Rightarrow> remove_from_universe p i (broker_RemovePort p d));
              let (u, st) = GetUniverseOrCreate new_universe_id now (m_universe_store d1);
              let d2 = d1\<lparr>m_universe_store := st\<rparr>;
              let (ok, d3, effects) = SetUniverse pre p (Some new_universe_id) d2;
              if ok then do {
                d4 \<leftarrow> add_to_universe p new_universe_id (broker_AddPort p d3);
                Some (True, d4, effects)
              }
              else if \<not> IsActive u
              then Some (True, d3\<lparr>m_universe_store := AddUniverseGC new_universe_id (m_universe_store d3)\<rparr>, effects)
              else Some (True, d3, effects)
            }
          }
        })"

definition GenericUnPatchPort :: "(nat \<Rightarrow> nat option \<Rightarrow> nat option \<Rightarrow> bool) \<Rightarrow> nat option \<Rightarrow> daemon \<Rightarrow>
    (bool \<times> daemon \<times> port_effect list) option" where
  "GenericUnPatchPort pre port d =
     (case port of
        None \<Rightarrow> Some (False, d, [])
      | Some p \<Rightarrow>
          let d1 = broker_RemovePort p d
          in (case m_universe (ports d p) of
                None \<Rightarrow> Some (True, d1, [])
              | Some i \<Rightarrow> do {
                  d2 \<leftarrow> remove_from_universe p i d1;
                  let (_, d3, effects) = SetUniverse pre p None d2;
                  Some (True, d3, effects)
                }))"

end
