(* ===== verification/Port_Facts.thy ===== *)
theory Port_Facts
  imports Port_Manager
begin

text \<open>
  The invariant of patching: the ports a universe lists are exactly the ports that point to it, the
  broker knows exactly the patched ports, and the rules of a device about loops and about several ports on
  one universe hold.
\<close>

section \<open>Universes and ports\<close>

definition plist :: "port_kind \<Rightarrow> universe \<Rightarrow> nat list" where
  "plist k u = (case k of InputPort \<Rightarrow> m_input_ports u | OutputPort \<Rightarrow> m_output_ports u)"

definition members :: "daemon \<Rightarrow> port_kind \<Rightarrow> nat \<Rightarrow> nat set" where
  "members d k i = (case GetUniverse i (m_universe_store d) of None \<Rightarrow> {} | Some u \<Rightarrow> set (plist k u))"

lemma inactive_members: "\<not> IsActive u \<Longrightarrow> plist k u = []"
  by (cases k) (auto simp: IsActive_def plist_def)

definition add_port :: "port_kind \<Rightarrow> nat \<Rightarrow> universe \<Rightarrow> universe" where
  "add_port k p u = snd (case k of InputPort \<Rightarrow> AddInputPort p u | OutputPort \<Rightarrow> AddOutputPort p u)"

definition remove_port :: "port_kind \<Rightarrow> nat \<Rightarrow> universe \<Rightarrow> universe \<times> universe_effect list" where
  "remove_port k p u = snd (case k of InputPort \<Rightarrow> RemoveInputPort p u | OutputPort \<Rightarrow> RemoveOutputPort p u)"

lemma add_port_facts:
  assumes "universe_ok u"
  shows "universe_ok (add_port k p u)" and "m_universe_id (add_port k p u) = m_universe_id u"
    and "set (plist j (add_port k p u)) = (if j = k then insert p (set (plist j u)) else set (plist j u))"
  using universe_ok_AddInputPort [OF assms, of p] universe_ok_AddOutputPort [OF assms, of p]
  by (cases k; cases j; auto simp: add_port_def plist_def AddInputPort_def AddOutputPort_def safe_defs)+

lemma remove_port_facts:
  assumes "universe_ok u"
  shows "universe_ok (fst (remove_port k p u))" and "m_universe_id (fst (remove_port k p u)) = m_universe_id u"
    and "set (plist j (fst (remove_port k p u))) = (if j = k then set (plist j u) - {p} else set (plist j u))"
proof -
  have d: "distinct (m_input_ports u)" "distinct (m_output_ports u)" using assms by (simp_all add: uni_defs)
  show "universe_ok (fst (remove_port k p u))"
    using universe_ok_RemoveInputPort [OF assms, of p] universe_ok_RemoveOutputPort [OF assms, of p]
    by (cases k) (simp_all add: remove_port_def)
  show "m_universe_id (fst (remove_port k p u)) = m_universe_id u"
    by (cases k) (simp_all add: remove_port_def RemoveInputPort_def RemoveOutputPort_def
      GenericRemoveOutputPort_def safe_defs Let_def)
  show "set (plist j (fst (remove_port k p u))) = (if j = k then set (plist j u) - {p} else set (plist j u))"
    using d by (cases k; cases j) (auto simp: remove_port_def plist_def RemoveInputPort_def RemoveOutputPort_def
      GenericRemoveOutputPort_def safe_defs Let_def)
qed

text \<open>One operation on one universe of the store.\<close>

lemma with_universe_result:
  assumes ok: "store_ok (m_universe_store d)" and u: "GetUniverse i (m_universe_store d) = Some u"
    and f: "universe_ok (fst (f u))" "m_universe_id (fst (f u)) = m_universe_id u"
  obtains d' where "with_universe i f d = Some d'" and "store_ok (m_universe_store d')"
    and "\<And>j. GetUniverse j (m_universe_store d') = (if j = i then Some (fst (f u)) else GetUniverse j (m_universe_store d))"
    and "ports d' = ports d" and "devices d' = devices d" and "m_broker d' = m_broker d" and "clients d' = clients d"
proof -
  let ?gc = "AddUniverseGarbageCollection i \<in> set (snd (f u))"
  let ?st = "update_universe i (fst (f u)) ?gc (m_universe_store d)"
  have m: "map_of (m_universe_map (m_universe_store d)) i = Some u" using u by (simp add: GetUniverse_def)
  then have "m_universe_id u = i" using ok by (simp add: store_ok_def)
  then have "store_ok ?st" using f by (intro store_ok_update [OF ok u]) simp_all
  moreover have "with_universe i f d = Some (d\<lparr>m_universe_store := ?st\<rparr>)"
    by (simp add: with_universe_def u split_beta Let_def)
  moreover have "GetUniverse j ?st = (if j = i then Some (fst (f u)) else GetUniverse j (m_universe_store d))" for j
    using m by (simp add: GetUniverse_def update_universe_def AddUniverseGC_def Let_def map_of_map_set)
  ultimately show thesis by (intro that [of "d\<lparr>m_universe_store := ?st\<rparr>"]) simp_all
qed

lemma create_result:
  assumes "store_ok s"
  obtains u s' where "GetUniverseOrCreate i now s = (u, s')" and "store_ok s'" and "GetUniverse i s' = Some u"
    and "GetUniverse i s = None \<Longrightarrow> \<not> IsActive u" and "GetUniverse i s \<noteq> None \<Longrightarrow> GetUniverse i s = Some u"
    and "\<And>j. j \<noteq> i \<Longrightarrow> GetUniverse j s' = GetUniverse j s"
proof -
  obtain u s' where c: "GetUniverseOrCreate i now s = (u, s')" by force
  have ok': "store_ok s'" using store_ok_create [OF assms, of i now] c by simp
  have m: "map_ok (m_universe_map s)" using assms by (simp add: store_ok_def)
  show thesis
  proof (cases "GetUniverse i s")
    case (Some v)
    with c have "u = v" "s' = s" by (simp_all add: GetUniverseOrCreate_def)
    with Some show thesis by (intro that [OF c ok']) auto
  next
    case None
    have "\<not> IsActive (new_Universe i b now)" for b
      by (simp add: new_Universe_def IsActive_def Let_def UpdateName_fields UpdateMode_fields)
    then have "\<not> IsActive u" using c None
      by (auto simp: GetUniverseOrCreate_def Let_def Restore_fields(3) split: option.splits)
    moreover have "GetUniverse j s' = (if j = i then Some u else GetUniverse j s)" for j
      using c None map_insert_snd [OF m, of i u] by (auto simp: GetUniverseOrCreate_def Let_def GetUniverse_def)
    ultimately show thesis using None by (intro that [OF c ok']) auto
  qed
qed

section \<open>The invariant\<close>

definition bound_ok :: "daemon \<Rightarrow> bool" where
  "bound_ok d \<longleftrightarrow> store_ok (m_universe_store d) \<and>
     (\<forall>k i p. p \<in> members d k i \<longleftrightarrow> port_kind (ports d p) = k \<and> m_universe (ports d p) = Some i)"

definition broker_ok :: "daemon \<Rightarrow> bool" where
  "broker_ok d \<longleftrightarrow> (\<forall>key p. (key, p) \<in> set (m_broker d) \<longleftrightarrow> key = UniqueId d p \<and> m_universe (ports d p) \<noteq> None)"

definition device_ports_ok :: "daemon \<Rightarrow> bool" where
  "device_ports_ok d \<longleftrightarrow> (\<forall>dev p.
     (p \<in> set (device_InputPorts (devices d dev)) \<longleftrightarrow> m_device (ports d p) = Some dev \<and> port_kind (ports d p) = InputPort) \<and>
     (p \<in> set (device_OutputPorts (devices d dev)) \<longleftrightarrow> m_device (ports d p) = Some dev \<and> port_kind (ports d p) = OutputPort))"

definition rules_ok :: "daemon \<Rightarrow> bool" where
  "rules_ok d \<longleftrightarrow> (\<forall>dev p q i. m_device (ports d p) = Some dev \<and> m_device (ports d q) = Some dev \<and> p \<noteq> q \<and>
       m_universe (ports d p) = Some i \<and> m_universe (ports d q) = Some i \<longrightarrow>
     (port_kind (ports d p) \<noteq> port_kind (ports d q) \<longrightarrow> AllowLooping (devices d dev)) \<and>
     (port_kind (ports d p) = port_kind (ports d q) \<longrightarrow> AllowMultiPortPatching (devices d dev)))"

definition daemon_ok :: "daemon \<Rightarrow> bool" where
  "daemon_ok d \<longleftrightarrow> bound_ok d \<and> broker_ok d \<and> device_ports_ok d \<and> rules_ok d \<and>
     (\<forall>p. m_priority (ports d p) \<le> SOURCE_PRIORITY_MAX)"

lemma bound_universe:
  assumes "bound_ok d" and "m_universe (ports d p) = Some i"
  obtains u where "GetUniverse i (m_universe_store d) = Some u" and "m_universe_id u = i"
    and "p \<in> set (plist (port_kind (ports d p)) u)" and "universe_ok u"
proof -
  have "p \<in> members d (port_kind (ports d p)) i" using assms by (simp add: bound_ok_def)
  then obtain u where u: "GetUniverse i (m_universe_store d) = Some u" "p \<in> set (plist (port_kind (ports d p)) u)"
    by (auto simp: members_def split: option.splits)
  then have "m_universe_id u = i" "universe_ok u"
    using assms(1) by (auto simp: bound_ok_def store_ok_def GetUniverse_def)
  with u show thesis by (intro that)
qed

lemma Check_result:
  assumes "bound_ok d"
  shows "CheckForPortMatchingUniverse ps n d = Some (\<exists>p\<in>set ps. m_universe (ports d p) = Some n)"
proof (induction ps)
  case (Cons p ps)
  show ?case
  proof (cases "m_universe (ports d p)")
    case (Some i)
    obtain u where "GetUniverse i (m_universe_store d) = Some u" "m_universe_id u = i"
      by (rule bound_universe [OF assms Some])
    with Some Cons show ?thesis by auto
  qed (use Cons in simp)
qed simp

lemma patch_allowed_result:
  assumes "bound_ok d" and "device_ports_ok d" and other: "m_universe (ports d p) \<noteq> Some n"
  shows "patch_allowed p n d = Some (\<forall>dev q. m_device (ports d p) = Some dev \<and> m_device (ports d q) = Some dev \<and>
      m_universe (ports d q) = Some n \<longrightarrow>
      (port_kind (ports d p) \<noteq> port_kind (ports d q) \<longrightarrow> AllowLooping (devices d dev)) \<and>
      (port_kind (ports d p) = port_kind (ports d q) \<longrightarrow> AllowMultiPortPatching (devices d dev)))"
proof -
  let ?k = "port_kind (ports d p)"
  have loop: "CheckLooping ?k (devices d dev) n d =
      Some (\<exists>q. m_device (ports d q) = Some dev \<and> port_kind (ports d q) \<noteq> ?k \<and> m_universe (ports d q) = Some n)" for dev
    using assms(2) by (cases ?k) (auto simp: CheckLooping_def Check_result [OF assms(1)] device_ports_ok_def
      intro: port_kind.exhaust)
  have multi: "CheckMultiPort ?k (devices d dev) n d =
      Some (\<exists>q. m_device (ports d q) = Some dev \<and> port_kind (ports d q) = ?k \<and> m_universe (ports d q) = Some n)" for dev
    using assms(2) by (cases ?k) (auto simp: CheckMultiPort_def Check_result [OF assms(1)] device_ports_ok_def)
  show ?thesis
  proof (cases "m_device (ports d p)")
    case (Some dev)
    then show ?thesis by (simp add: patch_allowed_def Let_def loop multi) (metis (no_types, lifting))
  qed (simp add: patch_allowed_def)
qed


section \<open>Patching\<close>

lemma broker_RemovePort_fields [simp]:
  "ports (broker_RemovePort p d) = ports d" "devices (broker_RemovePort p d) = devices d"
  "m_universe_store (broker_RemovePort p d) = m_universe_store d" "clients (broker_RemovePort p d) = clients d"
  "m_broker (broker_RemovePort p d) = removeAll (UniqueId d p, p) (m_broker d)"
  by (simp_all add: broker_RemovePort_def)

lemma broker_AddPort_fields [simp]:
  "ports (broker_AddPort p d) = ports d" "devices (broker_AddPort p d) = devices d"
  "m_universe_store (broker_AddPort p d) = m_universe_store d" "clients (broker_AddPort p d) = clients d"
  "m_broker (broker_AddPort p d) = List.insert (UniqueId d p, p) (m_broker d)"
  by (simp_all add: broker_AddPort_def)

lemma set_port_fields [simp]:
  "ports (set_port p x d) = (ports d)(p := x)" "devices (set_port p x d) = devices d"
  "m_universe_store (set_port p x d) = m_universe_store d" "clients (set_port p x d) = clients d"
  "m_broker (set_port p x d) = m_broker d"
  by (simp_all add: set_port_def)

text \<open>A port leaves its universe, if it has one: the state between the old and the new universe.\<close>

lemma detach_result:
  assumes ok: "bound_ok d"
  obtains d1 where
      "(case m_universe (ports d p) of None \<Rightarrow> Some d
        | Some i \<Rightarrow> remove_from_universe p i (broker_RemovePort p d)) = Some d1"
    and "store_ok (m_universe_store d1)" and "ports d1 = ports d" and "devices d1 = devices d"
    and "clients d1 = clients d"
    and "m_broker d1 = (if m_universe (ports d p) = None then m_broker d else removeAll (UniqueId d p, p) (m_broker d))"
    and "\<And>k i. members d1 k i = members d k i - {p}"
    and "\<And>i u. GetUniverse i (m_universe_store d1) = Some u \<Longrightarrow> GetUniverse i (m_universe_store d) \<noteq> None"
proof (cases "m_universe (ports d p)")
  case None
  then have "members d k i = members d k i - {p}" for k i using ok by (auto simp: bound_ok_def)
  with None ok show thesis by (intro that [of d]) (auto simp: bound_ok_def)
next
  case (Some i)
  let ?k = "port_kind (ports d p)"
  obtain u where u: "GetUniverse i (m_universe_store d) = Some u" "p \<in> set (plist ?k u)" "universe_ok u"
    by (rule bound_universe [OF ok Some])
  have st: "store_ok (m_universe_store (broker_RemovePort p d))" using ok by (simp add: bound_ok_def)
  have f: "remove_from_universe p i (broker_RemovePort p d) = with_universe i (remove_port ?k p) (broker_RemovePort p d)"
    by (simp add: remove_from_universe_def remove_port_def [abs_def])
  have "GetUniverse i (m_universe_store (broker_RemovePort p d)) = Some u" using u(1) by simp
  note res = with_universe_result [OF st this, of "remove_port ?k p", OF remove_port_facts(1,2) [OF u(3)]]
  obtain d1 where w1: "with_universe i (remove_port ?k p) (broker_RemovePort p d) = Some d1"
    "store_ok (m_universe_store d1)"
    "\<And>j. GetUniverse j (m_universe_store d1) = (if j = i then Some (fst (remove_port ?k p u))
      else GetUniverse j (m_universe_store (broker_RemovePort p d)))"
    "ports d1 = ports (broker_RemovePort p d)" "devices d1 = devices (broker_RemovePort p d)"
    "m_broker d1 = m_broker (broker_RemovePort p d)" "clients d1 = clients (broker_RemovePort p d)"
    by (rule res) (rule that)
  note d1 = w1(1,2,4-7) w1(3) [unfolded broker_RemovePort_fields]
  have "members d1 k j = members d k j - {p}" for k j
  proof -
    have "p \<in> members d k j \<longleftrightarrow> k = ?k \<and> j = i" using ok Some by (auto simp: bound_ok_def)
    then show ?thesis
      using u(1) by (cases "j = i") (auto simp: members_def d1(7) remove_port_facts(3) [OF u(3)] split: option.splits if_splits)
  qed
  with Some d1 u show thesis by (intro that [of d1]) (auto simp: f split: if_splits)
qed

lemma UniqueId_same:
  assumes "devices d' = devices d" and "\<And>q. m_device (ports d' q) = m_device (ports d q)"
    and "\<And>q. port_kind (ports d' q) = port_kind (ports d q)" and "\<And>q. m_port_nr (ports d' q) = m_port_nr (ports d q)"
  shows "UniqueId d' q = UniqueId d q"
  unfolding UniqueId_def assms ..

text \<open>The port manager's patch, when the plugin accepts the universe.\<close>

lemma patch_result:
  assumes ok: "bound_ok d" "device_ports_ok d" and pre: "\<And>old. pre p old (Some n)"
    and other: "m_universe (ports d p) \<noteq> Some n" and allowed: "patch_allowed p n d = Some True"
  obtains d' effects where "GenericPatchPort pre now (Some p) n d = Some (True, d', effects)"
    and "store_ok (m_universe_store d')" and "ports d' = (ports d)(p := (ports d p)\<lparr>m_universe := Some n\<rparr>)"
    and "devices d' = devices d" and "clients d' = clients d"
    and "set (m_broker d') = insert (UniqueId d p, p) (set (m_broker d))"
    and "\<And>k i. members d' k i = (if k = port_kind (ports d p) \<and> i = n then insert p (members d k i) else members d k i - {p})"
proof -
  let ?k = "port_kind (ports d p)"
  have same: "(case m_universe (ports d p) of None \<Rightarrow> Some False
      | Some i \<Rightarrow> map_option (\<lambda>u. m_universe_id u = n) (GetUniverse i (m_universe_store d))) = Some False"
  proof (cases "m_universe (ports d p)")
    case (Some i)
    obtain u where "GetUniverse i (m_universe_store d) = Some u" "m_universe_id u = i"
      by (rule bound_universe [OF ok(1) Some])
    with Some other show ?thesis by simp
  qed simp
  obtain d1 where d1: "(case m_universe (ports d p) of None \<Rightarrow> Some d
        | Some i \<Rightarrow> remove_from_universe p i (broker_RemovePort p d)) = Some d1"
    and st1: "store_ok (m_universe_store d1)" and f1: "ports d1 = ports d" "devices d1 = devices d" "clients d1 = clients d"
      "m_broker d1 = (if m_universe (ports d p) = None then m_broker d else removeAll (UniqueId d p, p) (m_broker d))"
    and m1: "\<And>k i. members d1 k i = members d k i - {p}"
    by (rule detach_result [OF ok(1), of p]) blast
  obtain u st where c: "GetUniverseOrCreate n now (m_universe_store d1) = (u, st)" and st: "store_ok st"
    and un: "GetUniverse n st = Some u" and u0: "GetUniverse n (m_universe_store d1) = None \<Longrightarrow> \<not> IsActive u"
    and u1: "GetUniverse n (m_universe_store d1) \<noteq> None \<Longrightarrow> GetUniverse n (m_universe_store d1) = Some u"
    and uj: "\<And>j. j \<noteq> n \<Longrightarrow> GetUniverse j st = GetUniverse j (m_universe_store d1)"
    by (rule create_result [OF st1, of n now]) (rule that)
  let ?d2 = "d1\<lparr>m_universe_store := st\<rparr>"
  let ?d3 = "set_port p ((ports d p)\<lparr>m_universe := Some n\<rparr>) ?d2"
  let ?e = "PostSetUniverse p (m_universe (ports d p)) (Some n) #
    (if ?k = OutputPort \<and> m_discover_on_patch (ports d p) then [RunIncrementalDiscovery p] else [])"
  have set_u: "SetUniverse pre p (Some n) ?d2 = (True, ?d3, ?e)"
    using other pre by (simp add: SetUniverse_def Let_def f1)
  let ?d3' = "broker_AddPort p ?d3"
  have uok: "universe_ok u" using st un by (simp add: store_ok_def GetUniverse_def)
  have st3: "store_ok (m_universe_store ?d3')" "GetUniverse n (m_universe_store ?d3') = Some u" using st un by simp_all
  have add: "add_to_universe p n ?d3' = with_universe n (\<lambda>u. (add_port ?k p u, [])) ?d3'"
    by (simp add: add_to_universe_def add_port_def f1)
  have okf: "universe_ok (fst (add_port ?k p u, [] :: universe_effect list))"
    "m_universe_id (fst (add_port ?k p u, [] :: universe_effect list)) = m_universe_id u"
    using add_port_facts(1,2) [OF uok, of ?k p] by simp_all
  note res = with_universe_result [OF st3, of "\<lambda>u. (add_port ?k p u, [])", OF okf]
  obtain d4 where w4: "with_universe n (\<lambda>u. (add_port ?k p u, [])) ?d3' = Some d4" "store_ok (m_universe_store d4)"
    "\<And>j. GetUniverse j (m_universe_store d4) = (if j = n then Some (fst (add_port ?k p u, [] :: universe_effect list))
       else GetUniverse j (m_universe_store ?d3'))"
    "ports d4 = ports ?d3'" "devices d4 = devices ?d3'" "m_broker d4 = m_broker ?d3'" "clients d4 = clients ?d3'"
    by (rule res) (rule that)
  note d4 = w4(1) [folded add] w4(2,4-7)
  have d4j: "GetUniverse j (m_universe_store d4) = (if j = n then Some (add_port ?k p u) else GetUniverse j st)" for j
    by (simp add: w4(3))
  have run: "GenericPatchPort pre now (Some p) n d = Some (True, d4, ?e)"
    unfolding GenericPatchPort_def using same allowed d1 c set_u d4(1) by simp
  have key: "UniqueId ?d3 p = UniqueId d p" by (rule UniqueId_same) (simp_all add: f1)
  have mem_n: "set (plist k u) = members d1 k n" for k
    using u0 u1 by (cases "GetUniverse n (m_universe_store d1)") (auto simp: members_def inactive_members)
  have "members d4 k i = (if k = ?k \<and> i = n then insert p (members d k i) else members d k i - {p})" for k i
  proof (cases "i = n")
    case True
    then have "members d4 k i = (if k = ?k then insert p (set (plist k u)) else set (plist k u))"
      by (simp add: members_def d4j add_port_facts(3) [OF uok])
    then show ?thesis using True by (auto simp: mem_n m1)
  next
    case False
    then have "members d4 k i = members d1 k i" by (simp add: members_def d4j uj)
    with False show ?thesis by (simp add: m1)
  qed
  then show thesis
    using d4 key by (intro that [OF run]) (auto simp: f1)
qed


section \<open>Steps keep the invariant\<close>

text \<open>Operations that leave the patching alone.\<close>

lemma daemon_ok_cong:
  assumes "daemon_ok d" and "store_ok (m_universe_store d')" and "\<And>k i. members d' k i = members d k i"
    and "devices d' = devices d" and "m_broker d' = m_broker d"
    and "\<And>p. port_kind (ports d' p) = port_kind (ports d p)" and "\<And>p. m_universe (ports d' p) = m_universe (ports d p)"
    and "\<And>p. m_device (ports d' p) = m_device (ports d p)" and "\<And>p. m_port_nr (ports d' p) = m_port_nr (ports d p)"
    and "\<And>p. m_priority (ports d' p) \<le> SOURCE_PRIORITY_MAX"
  shows "daemon_ok d'"
proof -
  have "UniqueId d' p = UniqueId d p" for p using assms by (intro UniqueId_same) simp_all
  with assms show ?thesis
    by (simp add: daemon_ok_def bound_ok_def broker_ok_def device_ports_ok_def rules_ok_def)
qed

lemma daemon_ok_patch:
  assumes ok: "daemon_ok d" and pre: "\<And>old. pre p old (Some n)"
  shows "\<exists>r d' effects. GenericPatchPort pre now (Some p) n d = Some (r, d', effects) \<and> daemon_ok d' \<and>
    (r \<longrightarrow> m_universe (ports d' p) = Some n) \<and> (\<not> r \<longrightarrow> d' = d \<and> patch_allowed p n d = Some False) \<and>
    (\<forall>q. q \<noteq> p \<longrightarrow> ports d' q = ports d q)"
proof -
  have b: "bound_ok d" "device_ports_ok d" using ok by (simp_all add: daemon_ok_def)
  show ?thesis
  proof (cases "m_universe (ports d p) = Some n")
    case True
    obtain u where "GetUniverse n (m_universe_store d) = Some u" "m_universe_id u = n"
      by (rule bound_universe [OF b(1) True])
    with True have "GenericPatchPort pre now (Some p) n d = Some (True, d, [])" by (simp add: GenericPatchPort_def)
    with True ok show ?thesis by blast
  next
    case other: False
    note allow = patch_allowed_result [OF b other]
    show ?thesis
    proof (cases "patch_allowed p n d = Some True")
      case True
      obtain d' effects where run: "GenericPatchPort pre now (Some p) n d = Some (True, d', effects)"
        and st: "store_ok (m_universe_store d')" and ports: "ports d' = (ports d)(p := (ports d p)\<lparr>m_universe := Some n\<rparr>)"
        and dev: "devices d' = devices d" and "clients d' = clients d"
        and br: "set (m_broker d') = insert (UniqueId d p, p) (set (m_broker d))"
        and mem: "\<And>k i. members d' k i = (if k = port_kind (ports d p) \<and> i = n then insert p (members d k i) else members d k i - {p})"
        by (rule patch_result [of d pre p n now, OF b pre other True]) (rule that)
      have bound: "bound_ok d'" using b(1) st other unfolding bound_ok_def mem ports by auto
      have key: "UniqueId d' q = UniqueId d q" for q by (rule UniqueId_same) (simp_all add: ports dev)
      have "broker_ok d'" using ok by (auto simp: daemon_ok_def broker_ok_def br key ports)
      moreover have "device_ports_ok d'" using b(2) by (simp add: device_ports_ok_def dev ports)
      moreover have "rules_ok d'"
      proof -
        have new: "(port_kind (ports d p) \<noteq> port_kind (ports d q) \<longrightarrow> AllowLooping (devices d dv)) \<and>
            (port_kind (ports d p) = port_kind (ports d q) \<longrightarrow> AllowMultiPortPatching (devices d dv))"
          if "m_device (ports d p) = Some dv" "m_device (ports d q) = Some dv" "m_universe (ports d q) = Some n" for dv q
          using True [unfolded allow option.inject eq_True] that by blast
        have old: "rules_ok d" using ok by (simp add: daemon_ok_def)
        show ?thesis unfolding rules_ok_def dev
        proof (intro allI impI)
          fix dv a b i
          assume "m_device (ports d' a) = Some dv \<and> m_device (ports d' b) = Some dv \<and> a \<noteq> b \<and>
            m_universe (ports d' a) = Some i \<and> m_universe (ports d' b) = Some i"
          then show "(port_kind (ports d' a) \<noteq> port_kind (ports d' b) \<longrightarrow> AllowLooping (devices d dv)) \<and>
              (port_kind (ports d' a) = port_kind (ports d' b) \<longrightarrow> AllowMultiPortPatching (devices d dv))"
            using new [of dv a] new [of dv b] old [unfolded rules_ok_def, rule_format, of a dv b i]
            by (cases "a = p"; cases "b = p") (simp_all add: ports eq_commute [of "port_kind (ports d p)"])
        qed
      qed
      moreover have "m_priority (ports d' q) \<le> SOURCE_PRIORITY_MAX" for q using ok by (simp add: daemon_ok_def ports)
      ultimately have "daemon_ok d'" using bound by (simp add: daemon_ok_def)
      with run show ?thesis by (auto simp: ports)
    next
      case False
      then have no: "patch_allowed p n d = Some False" using allow by auto
      have "GenericPatchPort pre now (Some p) n d = Some (False, d, [])"
      proof (cases "m_universe (ports d p)")
        case (Some i)
        obtain u where "GetUniverse i (m_universe_store d) = Some u" "m_universe_id u = i"
          by (rule bound_universe [OF b(1) Some])
        with Some other no show ?thesis by (simp add: GenericPatchPort_def)
      qed (simp add: GenericPatchPort_def no)
      with ok no show ?thesis by blast
    qed
  qed
qed

lemma daemon_ok_unpatch:
  assumes ok: "daemon_ok d" and pre: "\<And>old. pre p old None"
  shows "\<exists>d' effects. GenericUnPatchPort pre (Some p) d = Some (True, d', effects) \<and> daemon_ok d' \<and>
    m_universe (ports d' p) = None \<and> (\<forall>q. q \<noteq> p \<longrightarrow> ports d' q = ports d q)"
proof -
  have b: "bound_ok d" "broker_ok d" using ok by (simp_all add: daemon_ok_def)
  show ?thesis
  proof (cases "m_universe (ports d p)")
    case None
    then have "removeAll (UniqueId d p, p) (m_broker d) = m_broker d"
      using b(2) by (auto simp: broker_ok_def removeAll_id)
    then have "broker_RemovePort p d = d" by (simp add: broker_RemovePort_def)
    with None ok show ?thesis by (simp add: GenericUnPatchPort_def Let_def)
  next
    case (Some i)
    obtain d1 where d1: "(case m_universe (ports d p) of None \<Rightarrow> Some d
        | Some i \<Rightarrow> remove_from_universe p i (broker_RemovePort p d)) = Some d1"
      and st: "store_ok (m_universe_store d1)" and f: "ports d1 = ports d" "devices d1 = devices d" "clients d1 = clients d"
        "m_broker d1 = (if m_universe (ports d p) = None then m_broker d else removeAll (UniqueId d p, p) (m_broker d))"
      and mem: "\<And>k i. members d1 k i = members d k i - {p}"
      by (rule detach_result [OF b(1), of p]) blast
    let ?d = "set_port p ((ports d p)\<lparr>m_universe := None\<rparr>) d1"
    have run: "GenericUnPatchPort pre (Some p) d = Some (True, ?d, snd (snd (SetUniverse pre p None d1)))"
      using d1 pre Some by (simp add: GenericUnPatchPort_def Let_def SetUniverse_def f)
    have key: "UniqueId ?d q = UniqueId d q" for q by (rule UniqueId_same) (simp_all add: f)
    have memd: "members ?d k j = members d k j - {p}" for k j using mem by (simp add: members_def)
    have "bound_ok ?d" using b(1) st unfolding bound_ok_def memd by (auto simp: f)
    moreover have "broker_ok ?d" using b(2) Some unfolding broker_ok_def key by (auto simp: f)
    moreover have "device_ports_ok ?d" "rules_ok ?d" "\<forall>q. m_priority (ports ?d q) \<le> SOURCE_PRIORITY_MAX"
      using ok by (auto simp: daemon_ok_def device_ports_ok_def rules_ok_def f)
    ultimately have "daemon_ok ?d" by (simp add: daemon_ok_def)
    with run show ?thesis by (auto simp: f)
  qed
qed


lemma daemon_ok_collect:
  assumes ok: "daemon_ok d"
  shows "\<exists>st. GarbageCollectUniverses (m_universe_store d) = Some st \<and> daemon_ok (d\<lparr>m_universe_store := st\<rparr>)"
proof -
  have "store_ok (m_universe_store d)" using ok by (simp add: daemon_ok_def bound_ok_def)
  then obtain st where st: "GarbageCollectUniverses (m_universe_store d) = Some st" "store_ok st"
    "\<And>i. GetUniverse i st = (case GetUniverse i (m_universe_store d) of None \<Rightarrow> None
      | Some u \<Rightarrow> if i \<in> set (m_deletion_candiates (m_universe_store d)) \<and> \<not> IsActive u then None else Some u)"
    by (rule GarbageCollect_result) (rule that)
  have "members (d\<lparr>m_universe_store := st\<rparr>) k i = members d k i" for k i
    by (simp add: members_def st(3) inactive_members split: option.split)
  then have "daemon_ok (d\<lparr>m_universe_store := st\<rparr>)"
    using ok st(2) by (intro daemon_ok_cong [OF ok]) (simp_all add: daemon_ok_def)
  with st(1) show ?thesis by blast
qed

lemma daemon_ok_update:
  assumes ok: "daemon_ok d" and u: "GetUniverse i (m_universe_store d) = Some u" and "universe_ok u'"
    and "m_universe_id u' = m_universe_id u" and same: "\<And>k. plist k u' = plist k u"
  shows "daemon_ok (d\<lparr>m_universe_store := update_universe i u' gc (m_universe_store d)\<rparr>)"
proof -
  have st: "store_ok (m_universe_store d)" using ok by (simp add: daemon_ok_def bound_ok_def)
  have m: "map_of (m_universe_map (m_universe_store d)) i = Some u" using u by (simp add: GetUniverse_def)
  then have "m_universe_id u = i" using st by (simp add: store_ok_def)
  then have "store_ok (update_universe i u' gc (m_universe_store d))"
    using assms by (intro store_ok_update [OF st u]) simp_all
  moreover have "GetUniverse j (update_universe i u' gc (m_universe_store d)) =
      (if j = i then Some u' else GetUniverse j (m_universe_store d))" for j
    using m by (simp add: GetUniverse_def update_universe_def AddUniverseGC_def Let_def map_of_map_set)
  then have "members (d\<lparr>m_universe_store := update_universe i u' gc (m_universe_store d)\<rparr>) k j = members d k j" for k j
    using u same by (simp add: members_def)
  ultimately show ?thesis using ok by (intro daemon_ok_cong [OF ok]) (simp_all add: daemon_ok_def)
qed

lemma daemon_ok_set_port:
  assumes "daemon_ok d" and "port_kind x = port_kind (ports d p)" and "m_universe x = m_universe (ports d p)"
    and "m_device x = m_device (ports d p)" and "m_port_nr x = m_port_nr (ports d p)" and "m_priority x \<le> SOURCE_PRIORITY_MAX"
  shows "daemon_ok (set_port p x d)"
  using assms by (intro daemon_ok_cong [OF assms(1)]) (auto simp: daemon_ok_def bound_ok_def members_def)

lemma PortDataChanged_plist: "plist k (fst (snd (PortDataChanged ps cs now p u))) = plist k u"
proof -
  have "plist k (snd (MergeAll ps cs now (Some p) None u)) = plist k u"
    by (cases k) (simp_all add: plist_def MergeAll_top HTPMergeSources_def)
  then show ?thesis
    by (cases k) (auto simp: PortDataChanged_def split_beta Let_def UpdateDependants_def plist_def safe_defs)
qed

lemma DmxChanged_result:
  assumes ok: "daemon_ok d"
  shows "\<exists>d' effects. DmxChanged buffer inherited wake_up now p d = Some (d', effects) \<and> daemon_ok d'"
proof (cases "m_universe (ports d p)")
  case None
  with ok show ?thesis by (simp add: DmxChanged_def)
next
  case (Some i)
  have b: "bound_ok d" using ok by (simp add: daemon_ok_def)
  let ?x = "ports d p"
  let ?prio = "if PriorityCapability ?x = CAPABILITY_FULL \<and> m_priority_mode ?x = PRIORITY_MODE_INHERIT then inherited else m_priority ?x"
  let ?d1 = "set_port p (?x\<lparr>m_dmx_source := UpdateData buffer wake_up ?prio (m_dmx_source ?x)\<rparr>) d"
  obtain u where u: "GetUniverse i (m_universe_store d) = Some u" "universe_ok u"
    by (rule bound_universe [OF b Some])
  let ?u' = "fst (snd (PortDataChanged (\<lambda>q. m_dmx_source (ports ?d1 q)) (clients ?d1) now p u))"
  have ok1: "daemon_ok ?d1" using ok by (intro daemon_ok_set_port) (simp_all add: daemon_ok_def)
  have step: "universe_step u ?u'" by (rule universe_step.port_changed)
  have "GetUniverse i (m_universe_store ?d1) = Some u" using u(1) by simp
  then have "daemon_ok (?d1\<lparr>m_universe_store := update_universe i ?u' False (m_universe_store ?d1)\<rparr>)"
    by (rule daemon_ok_update [OF ok1 _ universe_ok_step [OF step u(2)] universe_step_id [OF step] PortDataChanged_plist])
  then show ?thesis using Some u(1) by (simp add: DmxChanged_def Let_def split_beta)
qed

lemma UpdateUIDs_result:
  assumes ok: "daemon_ok d"
  shows "\<exists>d'. UpdateUIDs p uids d = Some d' \<and> daemon_ok d'"
proof (cases "m_universe (ports d p)")
  case None
  with ok show ?thesis by (simp add: UpdateUIDs_def)
next
  case (Some i)
  have b: "bound_ok d" using ok by (simp add: daemon_ok_def)
  obtain u where u: "GetUniverse i (m_universe_store d) = Some u" "universe_ok u" by (rule bound_universe [OF b Some])
  have "plist k (NewUIDList p uids u) = plist k u" for k
    by (cases k) (simp_all add: plist_def NewUIDList_def Let_def)
  moreover have "m_universe_id (NewUIDList p uids u) = m_universe_id u" by (simp add: NewUIDList_def Let_def)
  ultimately have "daemon_ok (d\<lparr>m_universe_store := update_universe i (NewUIDList p uids u) False (m_universe_store d)\<rparr>)"
    using u universe_ok_NewUIDList by (intro daemon_ok_update [OF ok]) auto
  then show ?thesis using Some u(1) by (simp add: UpdateUIDs_def with_universe_def)
qed

section \<open>Reachable states\<close>

text \<open>Plugins that accept every universe; the other operations of a universe do not touch its ports.\<close>

abbreviation accept :: "nat \<Rightarrow> nat option \<Rightarrow> nat option \<Rightarrow> bool" where
  "accept \<equiv> \<lambda>_ _ _. True"

inductive daemon_step :: "daemon \<Rightarrow> daemon \<Rightarrow> bool" where
  patch: "GenericPatchPort accept now (Some p) n d = Some (r, d', effects) \<Longrightarrow> daemon_step d d'"
| unpatch: "GenericUnPatchPort accept (Some p) d = Some (r, d', effects) \<Longrightarrow> daemon_step d d'"
| data: "DmxChanged buffer inherited wake_up now p d = Some (d', calls) \<Longrightarrow> daemon_step d d'"
| found: "UpdateUIDs p uids d = Some d' \<Longrightarrow> daemon_step d d'"
| inherit: "daemon_step d (set_port p (SetPriorityInherit (ports d p)) d)"
| override: "daemon_step d (set_port p (SetPriorityOverride v (ports d p)) d)"
| other: "GetUniverse i (m_universe_store d) = Some u \<Longrightarrow> universe_step u u' \<Longrightarrow> (\<And>k. plist k u' = plist k u) \<Longrightarrow>
    daemon_step d (d\<lparr>m_universe_store := update_universe i u' gc (m_universe_store d)\<rparr>)"
| collect: "GarbageCollectUniverses (m_universe_store d) = Some st \<Longrightarrow> daemon_step d (d\<lparr>m_universe_store := st\<rparr>)"

definition daemon_start :: "daemon \<Rightarrow> bool" where
  "daemon_start d \<longleftrightarrow> device_ports_ok d \<and> m_broker d = [] \<and>
     (\<exists>prefs export. m_universe_store d = new_UniverseStore prefs export) \<and>
     (\<forall>p. m_universe (ports d p) = None \<and> m_priority (ports d p) \<le> SOURCE_PRIORITY_MAX)"

inductive daemon_reach :: "daemon \<Rightarrow> bool" where
  start: "daemon_start d \<Longrightarrow> daemon_reach d"
| step: "daemon_reach d \<Longrightarrow> daemon_step d d' \<Longrightarrow> daemon_reach d'"

lemma daemon_ok_start: "daemon_start d \<Longrightarrow> daemon_ok d"
  by (auto simp: daemon_start_def daemon_ok_def bound_ok_def broker_ok_def rules_ok_def members_def GetUniverse_def
    store_ok_new) (auto simp: new_UniverseStore_def)

lemma SetPriorityOverride_fields:
  "port_kind (SetPriorityOverride v x) = port_kind x" "m_universe (SetPriorityOverride v x) = m_universe x"
  "m_device (SetPriorityOverride v x) = m_device x" "m_port_nr (SetPriorityOverride v x) = m_port_nr x"
  "m_priority x \<le> SOURCE_PRIORITY_MAX \<Longrightarrow> m_priority (SetPriorityOverride v x) \<le> SOURCE_PRIORITY_MAX"
  by (simp_all add: SetPriorityOverride_def SetPriority_def Let_def not_less)

lemma daemon_ok_step: "daemon_step d d' \<Longrightarrow> daemon_ok d \<Longrightarrow> daemon_ok d'"
proof (induction rule: daemon_step.induct)
  case (patch now p n d r d' effects)
  then show ?case using daemon_ok_patch [of d accept p n now] by auto
next
  case (unpatch p d r d' effects)
  then show ?case using daemon_ok_unpatch [of d accept p] by auto
next
  case (data buffer inherited wake_up now p d d' calls)
  then show ?case using DmxChanged_result [of d buffer inherited wake_up now p] by auto
next
  case (found p uids d d')
  then show ?case using UpdateUIDs_result [of d p uids] by auto
next
  case (inherit d p)
  then show ?case by (intro daemon_ok_set_port) (simp_all add: SetPriorityInherit_def daemon_ok_def)
next
  case (override d p v)
  then show ?case by (intro daemon_ok_set_port) (simp_all add: SetPriorityOverride_fields daemon_ok_def)
next
  case (other i d u u' gc)
  then have "universe_ok u" by (auto simp: daemon_ok_def bound_ok_def store_ok_def GetUniverse_def)
  with other show ?case by (intro daemon_ok_update) (auto intro: universe_ok_step simp: universe_step_id)
next
  case (collect d st)
  then show ?case using daemon_ok_collect [of d] by auto
qed

text \<open>C2: While the plugins accept the universes they are given, the patching stays consistent through every
  sequence of patches, unpatches, data, discovery results, priority changes and garbage collections: a
  universe lists exactly the ports that point to it, the broker knows exactly the patched ports, a device that
  forbids it never has an input and an output port, or two ports of one kind, on the same universe,
  and no priority exceeds the maximum. No operation uses a universe that has been deleted.\<close>

theorem patching_invariant:
  assumes "daemon_reach d"
  shows "daemon_ok d \<and> GenericPatchPort accept now (Some p) n d \<noteq> None \<and> GenericUnPatchPort accept (Some p) d \<noteq> None \<and>
    DmxChanged buffer inherited wake_up now p d \<noteq> None \<and> UpdateUIDs p uids d \<noteq> None \<and>
    GarbageCollectUniverses (m_universe_store d) \<noteq> None"
proof -
  have ok: "daemon_ok d" using assms by induction (auto simp: daemon_ok_start intro: daemon_ok_step)
  show ?thesis
    using ok daemon_ok_patch [OF ok, of accept p n now] daemon_ok_unpatch [OF ok, of accept p]
      DmxChanged_result [OF ok, of buffer inherited wake_up now p] UpdateUIDs_result [OF ok, of p uids]
      daemon_ok_collect [OF ok]
    by auto
qed


definition idle_daemon :: daemon where
  "idle_daemon = \<lparr>ports = (\<lambda>p. new_port (if p < 10 then InputPort else OutputPort) None p False False),
     devices = (\<lambda>_. \<lparr>device_UniqueId = ''1-1'', AllowLooping = False, AllowMultiPortPatching = False,
       device_InputPorts = [], device_OutputPorts = []\<rparr>),
     clients = example_clients, m_universe_store = new_UniverseStore None True, m_broker = []\<rparr>"

lemma idle_daemon_start: "daemon_start idle_daemon"
  by (auto simp: daemon_start_def idle_daemon_def device_ports_ok_def new_port_def SOURCE_PRIORITY_DEFAULT_def
    SOURCE_PRIORITY_MAX_def)

theorem patching_invariant_witness:
  "daemon_ok idle_daemon \<and> GenericPatchPort accept example_now (Some 3) 1 idle_daemon \<noteq> None"
  using patching_invariant [OF daemon_reach.start [OF idle_daemon_start]] by blast

section \<open>A refused universe\<close>

lemma remove_port_gc:
  "p \<in> set (plist k u) \<Longrightarrow>
    AddUniverseGarbageCollection (m_universe_id u) \<in> set (snd (remove_port k p u)) \<longleftrightarrow> \<not> IsActive (fst (remove_port k p u))"
  by (cases k) (auto simp: remove_port_def plist_def RemoveInputPort_def RemoveOutputPort_def GenericRemoveOutputPort_def
    check_active_def IsActive_def safe_defs Let_def)

lemma update_universe_candidate: "i \<in> set (m_deletion_candiates (update_universe i u True s))"
  by (simp add: update_universe_def AddUniverseGC_def Let_def)

lemma create_candidates:
  "m_deletion_candiates (snd (GetUniverseOrCreate i now s)) = m_deletion_candiates s"
  by (simp add: GetUniverseOrCreate_def Let_def split: option.split)

lemma AddUniverseGC_facts:
  "GetUniverse j (AddUniverseGC i s) = GetUniverse j s"
  "set (m_deletion_candiates (AddUniverseGC i s)) = insert i (set (m_deletion_candiates s))"
  by (simp_all add: GetUniverse_def AddUniverseGC_def)

lemma store_ok_AddGC: "store_ok s \<Longrightarrow> GetUniverse i s \<noteq> None \<Longrightarrow> store_ok (AddUniverseGC i s)"
  by (auto simp: store_ok_def AddUniverseGC_def GetUniverse_def)

text \<open>A plugin that refuses the new universe leaves a dangling pointer. \<open>PatchPort\<close> takes the port off its old
  universe and off the broker before it asks the plugin; when the plugin refuses, the port still points to the old
  universe, which does not list it any more, and the call reports success. If nobody else uses the old universe, the
  next garbage collection deletes it, and the next data on the port uses the deleted universe.\<close>

theorem patch_refused:
  assumes ok: "daemon_ok d" and bound: "m_universe (ports d p) = Some i" and u: "GetUniverse i (m_universe_store d) = Some u"
    and sole: "\<And>k. plist k u = (if k = port_kind (ports d p) then [p] else [])"
    and "m_source_clients u = []" and "m_sink_clients u = []"
    and n: "n \<noteq> i" and allowed: "patch_allowed p n d = Some True" and refused: "\<not> pre p (Some i) (Some n)"
  shows "\<exists>d' st. GenericPatchPort pre now (Some p) n d = Some (True, d', []) \<and> m_universe (ports d' p) = Some i \<and>
    p \<notin> members d' (port_kind (ports d p)) i \<and> (UniqueId d p, p) \<notin> set (m_broker d') \<and>
    GarbageCollectUniverses (m_universe_store d') = Some st \<and> GetUniverse i st = None \<and>
    DmxChanged buffer inherited wake_up now p (d'\<lparr>m_universe_store := st\<rparr>) = None"
proof -
  let ?k = "port_kind (ports d p)"
  have st: "store_ok (m_universe_store d)" using ok by (simp add: daemon_ok_def bound_ok_def)
  have ui: "m_universe_id u = i" and uok: "universe_ok u"
    using st u by (auto simp: store_ok_def GetUniverse_def)
  let ?u' = "fst (remove_port ?k p u)"
  have gone: "set (plist k ?u') = {}" for k
    using sole by (simp add: remove_port_facts(3) [OF uok])
  have "m_source_clients ?u' = []" "m_sink_clients ?u' = []"
    using assms(5,6) by (cases ?k; simp add: remove_port_def RemoveInputPort_def RemoveOutputPort_def
      GenericRemoveOutputPort_def safe_defs Let_def)+
  with gone [of InputPort] gone [of OutputPort] have inactive: "\<not> IsActive ?u'"
    by (simp add: IsActive_def plist_def)
  have pin: "p \<in> set (plist ?k u)" using sole by simp
  have gc: "AddUniverseGarbageCollection i \<in> set (snd (remove_port ?k p u))"
    using remove_port_gc [OF pin] inactive ui by simp
  let ?s1 = "update_universe i ?u' True (m_universe_store d)"
  let ?d1 = "(broker_RemovePort p d)\<lparr>m_universe_store := ?s1\<rparr>"
  have d1: "remove_from_universe p i (broker_RemovePort p d) = Some ?d1"
    using u gc by (simp add: remove_from_universe_def with_universe_def remove_port_def [symmetric] split_beta Let_def)
  have st1: "store_ok ?s1"
    using remove_port_facts(1,2) [OF uok] ui by (intro store_ok_update [OF st u]) simp_all
  have g1: "GetUniverse i ?s1 = Some ?u'"
    using u by (simp add: GetUniverse_def update_universe_def AddUniverseGC_def Let_def map_of_map_set)
  obtain v s2 where c: "GetUniverseOrCreate n now ?s1 = (v, s2)" and st2: "store_ok s2" and vn: "GetUniverse n s2 = Some v"
    and same: "\<And>j. j \<noteq> n \<Longrightarrow> GetUniverse j s2 = GetUniverse j ?s1"
    by (rule create_result [OF st1, of n now]) blast
  have cand2: "i \<in> set (m_deletion_candiates s2)"
    using create_candidates [of n now ?s1] c update_universe_candidate [of i ?u' "m_universe_store d"] by simp
  define s3 where "s3 = (if \<not> IsActive v then AddUniverseGC n s2 else s2)"
  let ?d' = "?d1\<lparr>m_universe_store := s3\<rparr>"
  have st3: "store_ok s3" using st2 vn store_ok_AddGC [of s2 n] by (simp add: s3_def)
  have g3: "GetUniverse i s3 = Some ?u'" and cand3: "i \<in> set (m_deletion_candiates s3)"
    using same [of i] n g1 cand2 by (simp_all add: s3_def AddUniverseGC_facts)
  have setu: "SetUniverse pre p (Some n) (?d1\<lparr>m_universe_store := s2\<rparr>) = (False, ?d1\<lparr>m_universe_store := s2\<rparr>, [])"
    using bound refused n by (simp add: SetUniverse_def Let_def)
  have run: "GenericPatchPort pre now (Some p) n d = Some (True, ?d', [])"
    unfolding GenericPatchPort_def using bound u ui n allowed d1 c setu by (simp add: s3_def)
  obtain s4 where gc4: "GarbageCollectUniverses s3 = Some s4" and "GetUniverse i s4 = None"
    by (rule GarbageCollect_result [OF st3]) (use g3 cand3 inactive in auto)
  moreover have "DmxChanged buffer inherited wake_up now p (?d'\<lparr>m_universe_store := s4\<rparr>) = None"
    using bound \<open>GetUniverse i s4 = None\<close> by (simp add: DmxChanged_def Let_def set_port_def)
  moreover have "p \<notin> members ?d' ?k i" using gone by (simp add: members_def g3)
  ultimately show ?thesis using run bound
    by (intro exI [of _ ?d'] exI [of _ s4]) simp
qed


definition patched_universe :: universe where
  "patched_universe = snd (AddInputPort 3 (new_Universe 1 True example_now))"

definition patched_daemon :: daemon where
  "patched_daemon = idle_daemon
     \<lparr>ports := (ports idle_daemon)(3 := (ports idle_daemon 3)\<lparr>m_universe := Some 1\<rparr>),
      m_universe_store := (new_UniverseStore None True)\<lparr>m_universe_map := [(1, patched_universe)]\<rparr>,
      m_broker := [([], 3)]\<rparr>"

lemma patched_daemon_eq:
  "GenericPatchPort accept example_now (Some 3) 1 idle_daemon = Some (True, patched_daemon, [PostSetUniverse 3 None (Some 1)])"
  by (simp add: GenericPatchPort_def idle_daemon_def new_port_def patch_allowed_def GetUniverseOrCreate_def GetUniverse_def
    new_UniverseStore_def Let_def SetUniverse_def add_to_universe_def with_universe_def broker_AddPort_def UniqueId_def
    set_port_def update_universe_def map_set_def patched_daemon_def patched_universe_def)

lemma patched_daemon_ok: "daemon_ok patched_daemon"
  using daemon_ok_patch [OF daemon_ok_start [OF idle_daemon_start], of accept 3 1 example_now] patched_daemon_eq by auto

lemma patched_daemon_simps:
  "port_kind (ports patched_daemon 3) = InputPort" "m_universe (ports patched_daemon 3) = Some 1"
  "GetUniverse 1 (m_universe_store patched_daemon) = Some patched_universe"
  "m_device (ports patched_daemon 3) = None" "m_input_ports patched_universe = [3]" "m_output_ports patched_universe = []"
  "m_source_clients patched_universe = []" "m_sink_clients patched_universe = []"
  by (simp_all add: patched_daemon_def patched_universe_def idle_daemon_def new_port_def GetUniverse_def new_UniverseStore_def
    AddInputPort_def new_Universe_def Let_def safe_defs UpdateName_fields UpdateMode_fields)

theorem patch_refused_witness:
  "\<exists>d' st. GenericPatchPort (\<lambda>_ _ _. False) example_now (Some 3) 2 patched_daemon = Some (True, d', []) \<and>
     GarbageCollectUniverses (m_universe_store d') = Some st \<and>
     DmxChanged (Some [1]) 0 example_now example_now 3 (d'\<lparr>m_universe_store := st\<rparr>) = None"
proof -
  have sole: "plist k patched_universe = (if k = port_kind (ports patched_daemon 3) then [3] else [])" for k
    by (cases k) (simp_all add: plist_def patched_daemon_simps)
  have "patch_allowed 3 2 patched_daemon = Some True" by (simp add: patch_allowed_def patched_daemon_simps)
  from patch_refused [OF patched_daemon_ok patched_daemon_simps(2,3) sole patched_daemon_simps(7,8) _ this,
    where pre = "\<lambda>_ _ _. False"] show ?thesis by force
qed

section \<open>From a port to the ports and clients of its universe\<close>

lemma filter_distinct_one: "distinct xs \<Longrightarrow> x \<in> set xs \<Longrightarrow> filter (\<lambda>y. y = x) xs = [x]"
  by (induction xs) (auto simp: filter_empty_conv)

text \<open>If the changed source has the highest priority, alone, the merge takes its data.\<close>

lemma merge_highest_alone:
  assumes p: "p \<in> set (m_input_ports u)" "distinct (m_input_ports u)" and s: "usable now (ps p)" "dmx_wf (source_buffer (ps p))"
    and low: "\<forall>q\<in>set (m_input_ports u). q \<noteq> p \<and> usable now (ps q) \<longrightarrow> source_priority (ps q) < source_priority (ps p)"
    and lowc: "\<forall>c\<in>fst ` set (m_source_clients u). usable now (client_SourceData (cs c) (m_universe_id u)) \<longrightarrow>
      source_priority (client_SourceData (cs c) (m_universe_id u)) < source_priority (ps p)"
  shows "MergeAll ps cs now (Some p) None u =
    (True, u\<lparr>m_active_priority := source_priority (ps p), m_buffer := source_buffer (ps p)\<rparr>)"
proof -
  let ?srcs = "all_sources ps cs (Some p) None u"
  have mem: "(True, ps p) \<in> set ?srcs" using p by (auto simp: all_sources_def)
  have W: "winners now ?srcs = {(True, ps p)}"
  proof -
    have top: "source_priority (snd y) \<le> source_priority (ps p) \<and> (source_priority (snd y) = source_priority (ps p) \<longrightarrow> y = (True, ps p))"
      if "y \<in> usable_set now ?srcs" for y
      using that low lowc by (fastforce simp: usable_set_def all_sources_def)
    have "(True, ps p) \<in> usable_set now ?srcs" using mem s by (simp add: usable_set_def)
    with top show ?thesis by (fastforce simp: winners_def)
  qed
  have prio: "highest_priority now ?srcs = source_priority (ps p)"
  proof -
    have "(True, ps p) \<in> set (top_sources now ?srcs)" using W by (simp add: set_top_sources)
    then show ?thesis by (simp add: top_sources_def)
  qed
  have "top_sources now ?srcs = [(True, ps p)]"
  proof -
    have a: "filter (\<lambda>x. usable now (snd x) \<and> source_priority (snd x) = source_priority (ps p))
        (map (\<lambda>q. (Some p = Some q, ps q)) (m_input_ports u)) =
      map (\<lambda>q. (Some p = Some q, ps q)) (filter (\<lambda>q. q = p) (m_input_ports u))"
      unfolding filter_map using low s by (intro arg_cong [of _ _ "map _"] filter_cong) force+
    have b: "filter (\<lambda>x. usable now (snd x) \<and> source_priority (snd x) = source_priority (ps p))
        (map (\<lambda>(c, _). (None = Some c, client_SourceData (cs c) (m_universe_id u))) (m_source_clients u)) = []"
      using lowc by (fastforce simp: filter_empty_conv)
    have "top_sources now ?srcs = filter (\<lambda>x. usable now (snd x) \<and> source_priority (snd x) = source_priority (ps p)) ?srcs"
      by (simp only: top_sources_def prio)
    then show ?thesis unfolding all_sources_def filter_append a b
      using filter_distinct_one [OF p(2,1)] by simp
  qed
  then show ?thesis
    using s by (simp add: MergeAll_top prio val_SetBuffer_wf usable_def)
qed

text \<open>C12: The way of a frame through the daemon. When an input port receives data with a priority above those of
  the other live sources of its universe, the frame of the universe becomes that data, and exactly it, with
  that priority, is written to every output port that is patched to the universe and sent to every sink
  client. The priority is the inherited one if the port supports priorities and is in the inherit mode, and
  the configured one otherwise.\<close>

theorem dmx_delivery:
  assumes ok: "daemon_ok d" and x: "x = ports d p" "port_kind x = InputPort" "m_universe x = Some i"
    and u: "GetUniverse i (m_universe_store d) = Some u"
    and prio: "prio = (if supports_priorities x \<and> m_priority_mode x = PRIORITY_MODE_INHERIT then inherited else m_priority x)"
    and src: "src = \<lparr>source_buffer = buffer, source_timestamp = wake_up, source_priority = prio\<rparr>"
    and live: "dmx_wf buffer" "usable now src"
    and low: "\<forall>q\<in>set (m_input_ports u). q \<noteq> p \<and> usable now (m_dmx_source (ports d q)) \<longrightarrow>
      source_priority (m_dmx_source (ports d q)) < prio"
    and lowc: "\<forall>c\<in>fst ` set (m_source_clients u). usable now (client_SourceData (clients d c) i) \<longrightarrow>
      source_priority (client_SourceData (clients d c) i) < prio"
  shows "\<exists>d' u'. DmxChanged buffer inherited wake_up now p d = Some (d',
      map (\<lambda>q. WriteDMX q buffer prio) (m_output_ports u) @ map (\<lambda>c. SendDMX c i prio buffer) (m_sink_clients u)) \<and>
    set (m_output_ports u) = {q. port_kind (ports d q) = OutputPort \<and> m_universe (ports d q) = Some i} \<and>
    GetUniverse i (m_universe_store d') = Some u' \<and> m_buffer u' = buffer \<and> m_active_priority u' = prio"
proof -
  have b: "bound_ok d" using ok by (simp add: daemon_ok_def)
  have ui: "m_universe_id u = i" "universe_ok u" using b u by (auto simp: bound_ok_def store_ok_def GetUniverse_def)
  have mem: "q \<in> set (plist k u) \<longleftrightarrow> port_kind (ports d q) = k \<and> m_universe (ports d q) = Some i" for q k
    using b u by (auto simp: bound_ok_def members_def split: option.splits)
  have p: "p \<in> set (m_input_ports u)" "distinct (m_input_ports u)"
    using mem [of p InputPort] x ui by (simp_all add: plist_def uni_defs)
  let ?d1 = "set_port p (x\<lparr>m_dmx_source := UpdateData buffer wake_up prio (m_dmx_source x)\<rparr>) d"
  let ?ps = "\<lambda>q. m_dmx_source (ports ?d1 q)"
  have psp: "?ps p = src" by (simp add: UpdateData_def src)
  have psq: "?ps q = m_dmx_source (ports d q)" if "q \<noteq> p" for q using that by simp
  have cap: "PriorityCapability x = CAPABILITY_FULL \<longleftrightarrow> supports_priorities x"
    by (simp add: PriorityCapability_def split: port_kind.split)
  have prio': "(if PriorityCapability x = CAPABILITY_FULL \<and> m_priority_mode x = PRIORITY_MODE_INHERIT
      then inherited else m_priority x) = prio" unfolding cap prio by (rule refl)
  have low': "\<forall>q\<in>set (m_input_ports u). q \<noteq> p \<and> usable now (?ps q) \<longrightarrow> source_priority (?ps q) < source_priority (?ps p)"
    unfolding psp using low by (auto simp: src)
  have lowc': "\<forall>c\<in>fst ` set (m_source_clients u). usable now (client_SourceData (clients d c) (m_universe_id u)) \<longrightarrow>
      source_priority (client_SourceData (clients d c) (m_universe_id u)) < source_priority (?ps p)"
    unfolding psp ui(1) using lowc by (simp add: src)
  have live': "usable now (?ps p)" "dmx_wf (source_buffer (?ps p))" unfolding psp using live by (simp_all add: src)
  let ?u1 = "u\<lparr>m_active_priority := prio, m_buffer := buffer\<rparr>"
  have "MergeAll ?ps (clients d) now (Some p) None u = (True, ?u1)"
    unfolding merge_highest_alone [OF p live' low' lowc'] psp by (simp add: src)
  then have pdc: "PortDataChanged ?ps (clients d) now p u = (True, SafeIncrement K_FPS_VAR ?u1,
      map (\<lambda>q. WriteDMX q buffer prio) (m_output_ports u) @ map (\<lambda>c. SendDMX c i prio buffer) (m_sink_clients u))"
    using p ui by (simp add: PortDataChanged_def ContainsInputPort_def UpdateDependants_def)
  let ?u' = "SafeIncrement K_FPS_VAR ?u1"
  let ?d' = "?d1\<lparr>m_universe_store := update_universe i ?u' False (m_universe_store ?d1)\<rparr>"
  have run: "DmxChanged buffer inherited wake_up now p d = Some (?d',
      map (\<lambda>q. WriteDMX q buffer prio) (m_output_ports u) @ map (\<lambda>c. SendDMX c i prio buffer) (m_sink_clients u))"
    unfolding DmxChanged_def Let_def x(1) [symmetric] x(3) option.case prio' using pdc u by simp
  have "GetUniverse i (m_universe_store ?d') = Some ?u'"
    using u by (simp add: GetUniverse_def update_universe_def Let_def map_of_map_set)
  moreover have "set (m_output_ports u) = {q. port_kind (ports d q) = OutputPort \<and> m_universe (ports d q) = Some i}"
    using mem [of _ OutputPort] by (auto simp: plist_def)
  ultimately show ?thesis using run by (intro exI [of _ ?d'] exI [of _ ?u']) (simp add: safe_defs)
qed


theorem dmx_delivery_witness:
  "\<exists>d'. DmxChanged (Some [5, 6]) 0 (TimeStamp (Timeval 10 0)) example_now 3 patched_daemon = Some (d', []) \<and>
     (\<exists>u'. GetUniverse 1 (m_universe_store d') = Some u' \<and> m_buffer u' = Some [5, 6] \<and> m_active_priority u' = 100)"
proof -
  let ?x = "ports patched_daemon 3"
  let ?src = "\<lparr>source_buffer = Some [5, 6], source_timestamp = TimeStamp (Timeval 10 0), source_priority = 100\<rparr>"
  have prio: "100 = (if supports_priorities ?x \<and> m_priority_mode ?x = PRIORITY_MODE_INHERIT then 0 else m_priority ?x)"
    by (simp add: patched_daemon_def idle_daemon_def new_port_def SOURCE_PRIORITY_DEFAULT_def)
  have "usable example_now ?src \<longleftrightarrow> usable example_now (example_ports 3)"
    by (simp add: usable_def example_ports_def source_IsSet_def source_IsActive_def Let_def val_Size_def)
  then have live: "usable example_now ?src" using example_usable by simp
  show ?thesis
    using dmx_delivery [OF patched_daemon_ok refl patched_daemon_simps(1,2,3) prio refl _ live]
    by (simp add: patched_daemon_simps) blast
qed

text \<open>A response to an RDM request that a port sent through the broker reaches the port's callback if the port is
  still patched when the response arrives, and is dropped if the port has been unpatched in between.\<close>

theorem broker_late_response:
  assumes ok: "daemon_ok d" and sent: "broker_SendRDMRequest p request u d = (key, r)"
    and same: "UniqueId d' p = UniqueId d p" and later: "broker_ok d'"
  shows "broker_RequestComplete key code packets d' =
    (if m_universe (ports d' p) \<noteq> None then [RunRDMCallback code packets] else [])"
  using later sent by (auto simp: broker_RequestComplete_def broker_SendRDMRequest_def broker_ok_def same)

theorem broker_late_response_witness:
  "broker_RequestComplete ([], 3) RDM_TIMEOUT [] idle_daemon = [] \<and>
   broker_RequestComplete ([], 3) RDM_TIMEOUT [] patched_daemon = [RunRDMCallback RDM_TIMEOUT []]"
proof -
  have id: "UniqueId d 3 = []" if "m_device (ports d 3) = None" for d using that by (simp add: UniqueId_def)
  have dev: "m_device (ports idle_daemon 3) = None" "m_universe (ports idle_daemon 3) = None"
    by (simp_all add: idle_daemon_def new_port_def)
  have sent: "broker_SendRDMRequest 3 example_request patched_universe patched_daemon =
      (([], 3), universe_SendRDMRequest example_request patched_universe)"
    by (simp add: broker_SendRDMRequest_def id patched_daemon_simps)
  have ok: "broker_ok idle_daemon" "broker_ok patched_daemon"
    using daemon_ok_start [OF idle_daemon_start] patched_daemon_ok by (simp_all add: daemon_ok_def)
  show ?thesis
    using broker_late_response [OF patched_daemon_ok sent _ ok(1)] broker_late_response [OF patched_daemon_ok sent _ ok(2)]
    by (simp add: id dev patched_daemon_simps)
qed

end
