(* ===== verification/Message_Descriptor.thy ===== *)
theory Message_Descriptor
  imports RDM_UID
begin

text \<open>
  Descriptors of RDM parameter data (\<^verbatim>\<open>include/ola/messaging/Descriptor.h\<close>, \<^verbatim>\<open>common/messaging/Descriptor.cpp\<close>) and the
  visitors that only look at them: \<^verbatim>\<open>common/rdm/VariableFieldSizeCalculator.cpp\<close>, which finds out how long the one field
  of variable size is, \<^verbatim>\<open>common/rdm/DescriptorConsistencyChecker.cpp\<close>, which checks that there is at most
  one, and \<^verbatim>\<open>common/rdm/GroupSizeCalculator.cpp\<close>, which does the same for messages given as text. Sizes are
  \<open>unsigned int\<close>, so sums and products wrap around at 32 bits.
\<close>

section \<open>Descriptors\<close>

text \<open>The instances of the template \<open>IntegerFieldDescriptor\<close>.\<close>

datatype int_type = UInt8 | UInt16 | UInt32 | Int8 | Int16 | Int32

text \<open>A string has its smallest and largest size; an integer its byte order, multiplier, intervals and labels; a
  group its fields and its smallest and largest number of blocks, the latter signed.\<close>

datatype field_descriptor =
    BoolFieldDescriptor string
  | IPV4FieldDescriptor string
  | MACFieldDescriptor string
  | UIDFieldDescriptor string
  | StringFieldDescriptor string u8 u8
  | IntegerFieldDescriptor int_type string bool int "(int \<times> int) list" "(string \<times> int) list"
  | FieldDescriptorGroup string "field_descriptor list" u16 u16

definition UNLIMITED_BLOCKS :: u16 where
  "UNLIMITED_BLOCKS = - 1"

fun int_size :: "int_type \<Rightarrow> nat" where
  "int_size UInt8 = 1" | "int_size Int8 = 1"
| "int_size UInt16 = 2" | "int_size Int16 = 2"
| "int_size UInt32 = 4" | "int_size Int32 = 4"

definition FixedBlockCount :: "u16 \<Rightarrow> u16 \<Rightarrow> bool" where
  "FixedBlockCount min_blocks max_blocks \<longleftrightarrow> uint min_blocks = sint max_blocks"

fun FixedSize :: "field_descriptor \<Rightarrow> bool" where
  "FixedSize (StringFieldDescriptor name min_size max_size) \<longleftrightarrow> min_size = max_size"
| "FixedSize (FieldDescriptorGroup name fs min_blocks max_blocks) \<longleftrightarrow>
     (\<forall>f \<in> set fs. FixedSize f) \<and> FixedBlockCount min_blocks max_blocks"
| "FixedSize _ \<longleftrightarrow> True"

fun LimitedSize :: "field_descriptor \<Rightarrow> bool" where
  "LimitedSize (FieldDescriptorGroup name fs min_blocks max_blocks) \<longleftrightarrow>
     max_blocks \<noteq> UNLIMITED_BLOCKS \<and> (\<forall>f \<in> set fs. LimitedSize f)"
| "LimitedSize _ \<longleftrightarrow> True"

fun MaxSize :: "field_descriptor \<Rightarrow> u32" where
  "MaxSize (BoolFieldDescriptor name) = 1"
| "MaxSize (IPV4FieldDescriptor name) = 4"
| "MaxSize (MACFieldDescriptor name) = 6"
| "MaxSize (UIDFieldDescriptor name) = 6"
| "MaxSize (StringFieldDescriptor name min_size max_size) = ucast max_size"
| "MaxSize (IntegerFieldDescriptor ty name le mult intervals labels) = of_nat (int_size ty)"
| "MaxSize (FieldDescriptorGroup name fs min_blocks max_blocks) =
     (if \<not> LimitedSize (FieldDescriptorGroup name fs min_blocks max_blocks) then 0
      else sum_list (map MaxSize fs) * scast max_blocks)"

definition FixedBlockSize :: "field_descriptor list \<Rightarrow> bool" where
  "FixedBlockSize fs \<longleftrightarrow> (\<forall>f \<in> set fs. FixedSize f)"

definition BlockSize :: "field_descriptor list \<Rightarrow> u32" where
  "BlockSize fs = (if FixedBlockSize fs then sum_list (map MaxSize fs) else 0)"

fun interval_contains :: "(int \<times> int) list \<Rightarrow> int \<Rightarrow> bool" where
  "interval_contains [] value \<longleftrightarrow> False"
| "interval_contains ((low, high) # rest) value \<longleftrightarrow> (low \<le> value \<and> value \<le> high) \<or> interval_contains rest value"

definition Integer_IsValid :: "(int \<times> int) list \<Rightarrow> int \<Rightarrow> bool" where
  "Integer_IsValid intervals value \<longleftrightarrow> intervals = [] \<or> interval_contains intervals value"

text \<open>The labels are a \<open>std::map\<close>, sorted by label.\<close>

definition LookupLabel :: "(string \<times> int) list \<Rightarrow> string \<Rightarrow> int option" where
  "LookupLabel labels label = map_of labels label"

fun LookupValue :: "(string \<times> int) list \<Rightarrow> int \<Rightarrow> string" where
  "LookupValue [] value = []"
| "LookupValue ((label, v) # rest) value = (if v = value then label else LookupValue rest value)"

section \<open>The size of the variable field\<close>

datatype calculator_state =
    TOO_SMALL | TOO_LARGE | FIXED_SIZE | VARIABLE_STRING | VARIABLE_GROUP
  | MULTIPLE_VARIABLE_FIELDS | NESTED_VARIABLE_GROUPS | MISMATCHED_SIZE

record size_calculator =
  m_fixed_size_sum :: u32
  m_variable_string_fields :: "field_descriptor list"
  m_variable_group_fields :: "field_descriptor list"

fun size_Visit :: "field_descriptor \<Rightarrow> size_calculator \<Rightarrow> size_calculator" where
  "size_Visit (StringFieldDescriptor name min_size max_size) c =
     (let f = StringFieldDescriptor name min_size max_size
      in if FixedSize f then c\<lparr>m_fixed_size_sum := m_fixed_size_sum c + MaxSize f\<rparr>
         else c\<lparr>m_variable_string_fields := m_variable_string_fields c @ [f]\<rparr>)"
| "size_Visit (FieldDescriptorGroup name fs min_blocks max_blocks) c =
     (let f = FieldDescriptorGroup name fs min_blocks max_blocks
      in if FixedSize f then c\<lparr>m_fixed_size_sum := m_fixed_size_sum c + MaxSize f\<rparr>
         else c\<lparr>m_variable_group_fields := m_variable_group_fields c @ [f]\<rparr>)"
| "size_Visit f c = c\<lparr>m_fixed_size_sum := m_fixed_size_sum c + MaxSize f\<rparr>"

text \<open>The end of \<open>CalculateFieldSize\<close>, with one variable field. A group of empty blocks divides by zero, which
  is \<open>None\<close>. The second part of a result is the size of the variable field, where it is set.\<close>

fun variable_string_size :: "u32 \<Rightarrow> field_descriptor \<Rightarrow> calculator_state \<times> u32 option" where
  "variable_string_size bytes_remaining (StringFieldDescriptor name min_size max_size) =
     (if bytes_remaining < ucast min_size then (TOO_SMALL, None)
      else if bytes_remaining > ucast max_size then (TOO_LARGE, None)
      else (VARIABLE_STRING, Some bytes_remaining))"
| "variable_string_size bytes_remaining _ = (MULTIPLE_VARIABLE_FIELDS, None)"

fun variable_group_size :: "u32 \<Rightarrow> field_descriptor \<Rightarrow> (calculator_state \<times> u32 option) option" where
  "variable_group_size bytes_remaining (FieldDescriptorGroup name fs min_blocks max_blocks) =
     (if \<not> FixedBlockSize fs then Some (NESTED_VARIABLE_GROUPS, None)
      else
        let block_size = BlockSize fs
        in if LimitedSize (FieldDescriptorGroup name fs min_blocks max_blocks) \<and>
              bytes_remaining > block_size * scast max_blocks then Some (TOO_LARGE, None)
           else if block_size = 0 then None
           else if bytes_remaining mod block_size \<noteq> 0 then Some (MISMATCHED_SIZE, None)
           else
             let repeat_count = bytes_remaining div block_size
             in if repeat_count < ucast min_blocks then Some (TOO_SMALL, None)
                else if max_blocks \<noteq> UNLIMITED_BLOCKS \<and> repeat_count > scast max_blocks then Some (TOO_LARGE, None)
                else Some (VARIABLE_GROUP, Some repeat_count))"
| "variable_group_size bytes_remaining _ = Some (MULTIPLE_VARIABLE_FIELDS, None)"

definition CalculateFieldSize ::
    "u32 \<Rightarrow> field_descriptor list \<Rightarrow> (calculator_state \<times> u32 option) option" where
  "CalculateFieldSize data_size fs =
     (let c = fold size_Visit fs
                \<lparr>m_fixed_size_sum = 0, m_variable_string_fields = [], m_variable_group_fields = []\<rparr>;
          strings = m_variable_string_fields c;
          groups = m_variable_group_fields c
      in if data_size < m_fixed_size_sum c then Some (TOO_SMALL, None)
         else if length strings + length groups > 1 then Some (MULTIPLE_VARIABLE_FIELDS, None)
         else if length strings + length groups = 0 then
           Some (if data_size > m_fixed_size_sum c then TOO_LARGE else FIXED_SIZE, None)
         else if strings \<noteq> [] then Some (variable_string_size (data_size - m_fixed_size_sum c) (strings ! 0))
         else variable_group_size (data_size - m_fixed_size_sum c) (groups ! 0))"

section \<open>Consistent descriptors\<close>

fun consistency_Visit :: "field_descriptor \<Rightarrow> nat \<Rightarrow> nat" where
  "consistency_Visit (StringFieldDescriptor name min_size max_size) count =
     (if \<not> FixedSize (StringFieldDescriptor name min_size max_size) then count + 1 else count)"
| "consistency_Visit (FieldDescriptorGroup name fs min_blocks max_blocks) count =
     (let count1 = if \<not> FixedSize (FieldDescriptorGroup name fs min_blocks max_blocks) then count + 1 else count
      in if \<not> FixedBlockSize fs then count1 + 1 else count1)"
| "consistency_Visit _ count = count"

definition CheckConsistency :: "field_descriptor list \<Rightarrow> bool" where
  "CheckConsistency fs \<longleftrightarrow> fold consistency_Visit fs 0 \<le> 1"

section \<open>Group sizes of messages given as text\<close>

datatype group_state =
    INSUFFICIENT_TOKENS | EXTRA_TOKENS | NO_VARIABLE_GROUPS | SINGLE_VARIABLE_GROUP
  | MULTIPLE_VARIABLE_GROUPS | NESTED_GROUPS | MISMATCHED_TOKENS

text \<open>\<open>StaticGroupTokenCalculator\<close>: the stack of counts and the flag for a group of variable size. \<open>Visit\<close> of a
  group pushes a count, its fields are visited, and \<open>PostVisit\<close> pops it.\<close>

fun tokens_Visit :: "field_descriptor \<Rightarrow> u32 list \<times> bool \<Rightarrow> u32 list \<times> bool" where
  "tokens_Visit (FieldDescriptorGroup name fs min_blocks max_blocks) (stack, variable) =
     (let (stack', variable') =
            fold tokens_Visit fs
              (0 # stack, variable \<or> \<not> FixedSize (FieldDescriptorGroup name fs min_blocks max_blocks))
      in (case stack' of
            group_length # below # rest \<Rightarrow> (below + group_length * ucast min_blocks) # rest
          | _ \<Rightarrow> stack', variable'))"
| "tokens_Visit _ (stack, variable) = ((hd stack + 1) # tl stack, variable)"

definition CalculateTokensRequired :: "field_descriptor list \<Rightarrow> u32 option" where
  "CalculateTokensRequired fs =
     (let (stack, variable) = fold tokens_Visit fs ([0], False)
      in if variable then None else Some (hd stack))"

fun is_group :: "field_descriptor \<Rightarrow> bool" where
  "is_group (FieldDescriptorGroup name fs min_blocks max_blocks) \<longleftrightarrow> True"
| "is_group _ \<longleftrightarrow> False"

text \<open>The loop over the groups: the tokens of the groups of fixed size, and the group of variable size with its
  number of tokens. A result \<open>Inl\<close> is an early return.\<close>

fun scan_groups ::
    "field_descriptor list \<Rightarrow> u32 \<Rightarrow> (field_descriptor \<times> u32) option \<Rightarrow>
      group_state + (u32 \<times> (field_descriptor \<times> u32) option)" where
  "scan_groups [] required variable = Inr (required, variable)"
| "scan_groups (FieldDescriptorGroup name fs min_blocks max_blocks # rest) required variable =
     (case CalculateTokensRequired fs of
        None \<Rightarrow> Inl NESTED_GROUPS
      | Some group_size \<Rightarrow>
          if FixedSize (FieldDescriptorGroup name fs min_blocks max_blocks) then
            scan_groups rest (required + ucast min_blocks * group_size) variable
          else if variable \<noteq> None then Inl MULTIPLE_VARIABLE_GROUPS
          else scan_groups rest required (Some (FieldDescriptorGroup name fs min_blocks max_blocks, group_size)))"
| "scan_groups (_ # rest) required variable = scan_groups rest required variable"

fun group_max_blocks :: "field_descriptor \<Rightarrow> u16" where
  "group_max_blocks (FieldDescriptorGroup name fs min_blocks max_blocks) = max_blocks"
| "group_max_blocks _ = 1"

definition CalculateGroupSize :: "u32 \<Rightarrow> field_descriptor list \<Rightarrow> (group_state \<times> u32 option) option" where
  "CalculateGroupSize token_count fs =
     (let required0 = of_nat (length (filter (\<lambda>f. \<not> is_group f) fs));
          groups = filter is_group fs
      in if required0 > token_count then Some (INSUFFICIENT_TOKENS, None)
         else if groups = [] then
           Some (if required0 = token_count then NO_VARIABLE_GROUPS else EXTRA_TOKENS, None)
         else
           case scan_groups groups required0 None of
             Inl state \<Rightarrow> Some (state, None)
           | Inr (required, variable) \<Rightarrow>
               if required > token_count then Some (INSUFFICIENT_TOKENS, None)
               else (case variable of
                       None \<Rightarrow> Some (if required = token_count then NO_VARIABLE_GROUPS else EXTRA_TOKENS, None)
                     | Some (g, tokens) \<Rightarrow>
                         let remaining = token_count - required
                         in if group_max_blocks g \<noteq> UNLIMITED_BLOCKS \<and>
                               scast (group_max_blocks g) * tokens < remaining
                            then Some (EXTRA_TOKENS, None)
                            else if tokens = 0 then None
                            else if remaining mod tokens \<noteq> 0 then Some (MISMATCHED_TOKENS, None)
                            else Some (SINGLE_VARIABLE_GROUP, Some (remaining div tokens))))"

end
