(* ===== verification/Message_Codec.thy ===== *)
theory Message_Codec
  imports Message_Descriptor
begin

text \<open>
  Messages of RDM parameter data and their binary form: \<^verbatim>\<open>include/ola/messaging/Message.h\<close>,
  \<^verbatim>\<open>common/rdm/MessageSerializer.cpp\<close>, \<^verbatim>\<open>common/rdm/MessageDeserializer.cpp\<close> and the byte order functions
  of \<^verbatim>\<open>common/network/NetworkUtils.cpp\<close>. The byte order of the machine is an argument, \<open>big\<close>, the value of
  \<open>IsBigEndian()\<close>.
\<close>

section \<open>Byte order\<close>

text \<open>The bytes of an integer in memory, and back.\<close>

definition mem16 :: "bool \<Rightarrow> u16 \<Rightarrow> bytes" where
  "mem16 big w = (if big then be16 w else rev (be16 w))"

definition mem32 :: "bool \<Rightarrow> u32 \<Rightarrow> bytes" where
  "mem32 big w = (if big then be32 w else rev (be32 w))"

definition of_mem16 :: "bool \<Rightarrow> bytes \<Rightarrow> u16" where
  "of_mem16 big bs = (if big then of_be16 (bs ! 0) (bs ! 1) else of_be16 (bs ! 1) (bs ! 0))"

definition of_mem32 :: "bool \<Rightarrow> bytes \<Rightarrow> u32" where
  "of_mem32 big bs =
     (if big then of_be32 (bs ! 0) (bs ! 1) (bs ! 2) (bs ! 3) else of_be32 (bs ! 3) (bs ! 2) (bs ! 1) (bs ! 0))"

definition swap16 :: "u16 \<Rightarrow> u16" where
  "swap16 w = push_bit 8 (w AND 0xff) OR drop_bit 8 w"

definition ByteSwap :: "u32 \<Rightarrow> u32" where
  "ByteSwap w =
     push_bit 24 (w AND 0x000000ff) OR push_bit 8 (w AND 0x0000ff00) OR
     drop_bit 8 (w AND 0x00ff0000) OR drop_bit 24 (w AND 0xff000000)"

text \<open>\<open>htons\<close> and \<open>htonl\<close>, which are their own inverses.\<close>

definition HostToNetwork_16 :: "bool \<Rightarrow> u16 \<Rightarrow> u16" where
  "HostToNetwork_16 big w = (if big then w else swap16 w)"

definition HostToNetwork_32 :: "bool \<Rightarrow> u32 \<Rightarrow> u32" where
  "HostToNetwork_32 big w = (if big then w else ByteSwap w)"

definition HostToLittleEndian_u16 :: "bool \<Rightarrow> u16 \<Rightarrow> u16" where
  "HostToLittleEndian_u16 big w = (if big then push_bit 8 (w AND 0xff) OR drop_bit 8 w else w)"

text \<open>On an \<open>int16_t\<close> the shift to the right copies the sign.\<close>

definition HostToLittleEndian_i16 :: "bool \<Rightarrow> u16 \<Rightarrow> u16" where
  "HostToLittleEndian_i16 big w = (if big then push_bit 8 (w AND 0xff) OR signed_drop_bit 8 w else w)"

definition HostToLittleEndian_32 :: "bool \<Rightarrow> u32 \<Rightarrow> u32" where
  "HostToLittleEndian_32 big w = (if big then ByteSwap w else w)"

text \<open>\<open>IntVisit\<close> of the serializer and of the deserializer: the bytes of a value, and back.\<close>

definition int_to_memory :: "bool \<Rightarrow> bool \<Rightarrow> int_type \<Rightarrow> int \<Rightarrow> bytes" where
  "int_to_memory big little ty v =
     (case ty of
        UInt8 \<Rightarrow> [word_of_int v]
      | Int8 \<Rightarrow> [word_of_int v]
      | UInt16 \<Rightarrow> mem16 big ((if little then HostToLittleEndian_u16 big else HostToNetwork_16 big) (word_of_int v))
      | Int16 \<Rightarrow> mem16 big ((if little then HostToLittleEndian_i16 big else HostToNetwork_16 big) (word_of_int v))
      | UInt32 \<Rightarrow> mem32 big ((if little then HostToLittleEndian_32 big else HostToNetwork_32 big) (word_of_int v))
      | Int32 \<Rightarrow> mem32 big ((if little then HostToLittleEndian_32 big else HostToNetwork_32 big) (word_of_int v)))"

definition memory_to_int :: "bool \<Rightarrow> bool \<Rightarrow> int_type \<Rightarrow> bytes \<Rightarrow> int" where
  "memory_to_int big little ty bs =
     (case ty of
        UInt8 \<Rightarrow> uint (bs ! 0)
      | Int8 \<Rightarrow> sint (bs ! 0)
      | UInt16 \<Rightarrow> uint ((if little then HostToLittleEndian_u16 big else HostToNetwork_16 big) (of_mem16 big bs))
      | Int16 \<Rightarrow> sint ((if little then HostToLittleEndian_i16 big else HostToNetwork_16 big) (of_mem16 big bs))
      | UInt32 \<Rightarrow> uint ((if little then HostToLittleEndian_32 big else HostToNetwork_32 big) (of_mem32 big bs))
      | Int32 \<Rightarrow> sint ((if little then HostToLittleEndian_32 big else HostToNetwork_32 big) (of_mem32 big bs)))"

section \<open>Messages\<close>

text \<open>Every field points to its descriptor. Addresses are the bytes they have in memory.\<close>

datatype message_field =
    BoolMessageField field_descriptor bool
  | IPV4MessageField field_descriptor bytes
  | MACMessageField field_descriptor bytes
  | UIDMessageField field_descriptor uid
  | StringMessageField field_descriptor string
  | BasicMessageField field_descriptor int
  | GroupMessageField field_descriptor "message_field list"

fun string_min :: "field_descriptor \<Rightarrow> nat" where
  "string_min (StringFieldDescriptor name min_size max_size) = unat min_size"
| "string_min _ = 0"

fun string_max :: "field_descriptor \<Rightarrow> nat" where
  "string_max (StringFieldDescriptor name min_size max_size) = unat max_size"
| "string_max _ = 0"

fun int_bytes :: "bool \<Rightarrow> field_descriptor \<Rightarrow> int \<Rightarrow> bytes" where
  "int_bytes big (IntegerFieldDescriptor ty name little mult intervals labels) v = int_to_memory big little ty v"
| "int_bytes big _ v = []"

definition char_byte :: "char \<Rightarrow> u8" where
  "char_byte c = of_nat (of_char c)"

definition byte_char :: "u8 \<Rightarrow> char" where
  "byte_char b = char_of (unat b)"

section \<open>The serializer\<close>

text \<open>\<open>s_data\<close> is the array \<open>m_data\<close> points to, with its real length; \<open>NULL\<close> is \<open>None\<close>.\<close>

record serializer =
  s_data :: "bytes option"
  s_offset :: u32
  s_buffer_size :: u32
  s_initial_buffer_size :: u32

definition new_MessageSerializer :: "u32 \<Rightarrow> serializer" where
  "new_MessageSerializer initial_size =
     \<lparr>s_data = None, s_offset = 0, s_buffer_size = 0, s_initial_buffer_size = initial_size\<rparr>"

text \<open>A fresh array; its contents do not matter, because only bytes that were written are read.\<close>

definition fresh_array :: "u32 \<Rightarrow> bytes" where
  "fresh_array n = replicate (unat n) 0"

text \<open>Writing outside the array is undefined.\<close>

definition write_bytes :: "bytes \<Rightarrow> serializer \<Rightarrow> serializer option" where
  "write_bytes xs s =
     (case s_data s of
        None \<Rightarrow> None
      | Some a \<Rightarrow>
          if unat (s_offset s) + length xs \<le> length a
          then Some (s\<lparr>s_data := Some (memcpy_at a (unat (s_offset s)) xs),
                       s_offset := s_offset s + of_nat (length xs)\<rparr>)
          else None)"

definition CheckForFreeSpace :: "u32 \<Rightarrow> serializer \<Rightarrow> serializer option" where
  "CheckForFreeSpace required_size s =
     (if s_buffer_size s - s_offset s > required_size then Some s
      else
        case s_data s of
          None \<Rightarrow> None
        | Some old \<Rightarrow>
            let new = fresh_array (2 * s_buffer_size s)
            in if unat (s_offset s) \<le> length old \<and> unat (s_offset s) \<le> length new
               then Some (s\<lparr>s_data := Some (memcpy_at new 0 (take (unat (s_offset s)) old))\<rparr>)
               else None)"

definition put :: "u32 \<Rightarrow> bytes \<Rightarrow> serializer \<Rightarrow> serializer option" where
  "put required xs s = do { s' \<leftarrow> CheckForFreeSpace required s; write_bytes xs s' }"

definition string_bytes :: "field_descriptor \<Rightarrow> string \<Rightarrow> bytes" where
  "string_bytes d value =
     (let size = min (length value) (string_max d);
          used_size = max size (string_min d)
      in map char_byte (take size value) @ replicate (used_size - size) 0)"

fun serialize_Visit :: "bool \<Rightarrow> message_field \<Rightarrow> serializer \<Rightarrow> serializer option" where
  "serialize_Visit big (BoolMessageField d b) s = put 1 [if b then 1 else 0] s"
| "serialize_Visit big (IPV4MessageField d address) s = put 4 address s"
| "serialize_Visit big (MACMessageField d address) s = put 6 address s"
| "serialize_Visit big (UIDMessageField d u) s = put 6 (be16 (esta_id u) @ be32 (device_id u)) s"
| "serialize_Visit big (StringMessageField d value) s =
     put (of_nat (min (length value) (string_max d))) (string_bytes d value) s"
| "serialize_Visit big (BasicMessageField d v) s = put (of_nat (length (int_bytes big d v))) (int_bytes big d v) s"
| "serialize_Visit big (GroupMessageField d ms) s =
     fold (\<lambda>m r. Option.bind r (serialize_Visit big m)) ms (Some s)"

definition SerializeMessage :: "bool \<Rightarrow> message_field list \<Rightarrow> serializer \<Rightarrow> (bytes \<times> serializer) option" where
  "SerializeMessage big ms s =
     (let s0 = (case s_data s of
                  None \<Rightarrow> s\<lparr>s_buffer_size := s_initial_buffer_size s,
                            s_data := Some (fresh_array (s_initial_buffer_size s))\<rparr>
                | Some _ \<Rightarrow> s)\<lparr>s_offset := 0\<rparr>
      in do {
           s1 \<leftarrow> fold (\<lambda>m r. Option.bind r (serialize_Visit big m)) ms (Some s0);
           a \<leftarrow> s_data s1;
           Some (take (unat (s_offset s1)) a, s1)
         })"

section \<open>The deserializer\<close>

record deserializer =
  d_data :: bytes
  d_length :: u32
  d_offset :: u32
  d_variable_field_size :: u32
  d_insufficient_data :: bool
  d_message_stack :: "message_field list list"

definition CheckForData :: "u32 \<Rightarrow> deserializer \<Rightarrow> bool" where
  "CheckForData required_size d \<longleftrightarrow> required_size \<le> d_length d - d_offset d"

text \<open>The bytes at the offset; the caller has checked that they are there.\<close>

definition next_bytes :: "u32 \<Rightarrow> deserializer \<Rightarrow> bytes" where
  "next_bytes n d = take (unat n) (drop (unat (d_offset d)) (d_data d))"

definition push_field :: "message_field \<Rightarrow> deserializer \<Rightarrow> deserializer" where
  "push_field m d = d\<lparr>d_message_stack := (hd (d_message_stack d) @ [m]) # tl (d_message_stack d)\<rparr>"

text \<open>The common part of the \<open>Visit\<close> methods: check, read, advance, push.\<close>

definition take_field :: "u32 \<Rightarrow> (bytes \<Rightarrow> message_field) \<Rightarrow> deserializer \<Rightarrow> deserializer" where
  "take_field n f d =
     (if CheckForData n d then push_field (f (next_bytes n d)) (d\<lparr>d_offset := d_offset d + n\<rparr>)
      else d\<lparr>d_insufficient_data := True\<rparr>)"

definition open_group :: "deserializer \<Rightarrow> deserializer" where
  "open_group d = d\<lparr>d_message_stack := [] # d_message_stack d\<rparr>"

definition close_group :: "field_descriptor \<Rightarrow> deserializer \<Rightarrow> deserializer" where
  "close_group g d =
     push_field (GroupMessageField g (hd (d_message_stack d))) (d\<lparr>d_message_stack := tl (d_message_stack d)\<rparr>)"

definition iterations :: "field_descriptor \<Rightarrow> u16 \<Rightarrow> deserializer \<Rightarrow> nat" where
  "iterations g min_blocks d = (if FixedSize g then unat min_blocks else unat (d_variable_field_size d))"

function (sequential)
  inflate_Visit :: "bool \<Rightarrow> field_descriptor \<Rightarrow> deserializer \<Rightarrow> deserializer" and
  inflate_fields :: "bool \<Rightarrow> field_descriptor list \<Rightarrow> deserializer \<Rightarrow> deserializer" and
  inflate_blocks :: "bool \<Rightarrow> field_descriptor \<Rightarrow> field_descriptor list \<Rightarrow> nat \<Rightarrow> deserializer \<Rightarrow> deserializer"
where
  "inflate_Visit big (BoolFieldDescriptor name) d =
     take_field 1 (\<lambda>bs. BoolMessageField (BoolFieldDescriptor name) (bs ! 0 \<noteq> 0)) d"
| "inflate_Visit big (IPV4FieldDescriptor name) d =
     take_field 4 (\<lambda>bs. IPV4MessageField (IPV4FieldDescriptor name) bs) d"
| "inflate_Visit big (MACFieldDescriptor name) d =
     take_field 6 (\<lambda>bs. MACMessageField (MACFieldDescriptor name) bs) d"
| "inflate_Visit big (UIDFieldDescriptor name) d =
     take_field 6 (\<lambda>bs. UIDMessageField (UIDFieldDescriptor name) (the (UID_from_data bs))) d"
| "inflate_Visit big (StringFieldDescriptor name min_size max_size) d =
     (let f = StringFieldDescriptor name min_size max_size
      in take_field (if FixedSize f then MaxSize f else d_variable_field_size d)
           (\<lambda>bs. StringMessageField f (ShortenString (map byte_char bs))) d)"
| "inflate_Visit big (IntegerFieldDescriptor ty name little mult intervals labels) d =
     take_field (of_nat (int_size ty))
       (\<lambda>bs. BasicMessageField (IntegerFieldDescriptor ty name little mult intervals labels)
               (memory_to_int big little ty bs)) d"
| "inflate_Visit big (FieldDescriptorGroup name fs min_blocks max_blocks) d =
     (let g = FieldDescriptorGroup name fs min_blocks max_blocks
      in inflate_blocks big g fs (iterations g min_blocks d) d)"
| "inflate_fields big [] d = d"
| "inflate_fields big (f # fs) d = inflate_fields big fs (inflate_Visit big f d)"
| "inflate_blocks big g fs 0 d = d"
| "inflate_blocks big g fs (Suc k) d =
     inflate_blocks big g fs k (close_group g (inflate_fields big fs (open_group d)))"
  by pat_completeness auto
termination
  by (relation "inv_image (less_than <*lex*> less_than) (\<lambda>x. case x of
        Inl (_, f, _) \<Rightarrow> (2 * size f, 0)
      | Inr (Inl (_, fs, _)) \<Rightarrow> (2 * size_list size fs, 0)
      | Inr (Inr (_, _, fs, k, _)) \<Rightarrow> (2 * size_list size fs + 1, k))")
    auto

text \<open>The state \<open>InflateMessage\<close> starts the visit of the descriptor with.\<close>

definition inflate_start :: "bytes option \<Rightarrow> u32 \<Rightarrow> u32 \<Rightarrow> deserializer" where
  "inflate_start data len variable_field_size =
     \<lparr>d_data = (case data of None \<Rightarrow> [] | Some xs \<Rightarrow> xs), d_length = len, d_offset = 0,
      d_variable_field_size = variable_field_size, d_insufficient_data = False, d_message_stack = [[]]\<rparr>"

text \<open>\<open>InflateMessage\<close>. The outer \<open>None\<close> is a division by zero in the calculator, the inner one \<open>NULL\<close>. The array
  \<open>data\<close> has \<open>len\<close> bytes; \<open>old\<close> is the value \<open>m_variable_field_size\<close> has from an earlier call.\<close>

definition InflateMessage ::
    "bool \<Rightarrow> field_descriptor list \<Rightarrow> bytes option \<Rightarrow> u32 \<Rightarrow> u32 \<Rightarrow> message_field list option option" where
  "InflateMessage big fs data len old =
     (if data = None \<and> len \<noteq> 0 then Some None
      else
        do {
          (state, size) \<leftarrow> CalculateFieldSize len fs;
          if state \<in> {FIXED_SIZE, VARIABLE_STRING, VARIABLE_GROUP} then
            let d = inflate_fields big fs (inflate_start data len (case size of None \<Rightarrow> old | Some n \<Rightarrow> n))
            in Some (if d_insufficient_data d then None else Some (hd (d_message_stack d)))
          else Some None
        })"

end
