(* ===== verification/Message_Roundtrip.thy ===== *)
theory Message_Roundtrip
  imports Message_Facts
begin

text \<open>
  The round trip of RDM parameter data through the serializer and the deserializer. Each kind of field is a codec
  of fixed width, an interface that the visitors of the deserializer rely on; messages that fit their descriptor
  are composed from such fields.
\<close>

section \<open>Codecs of fixed width\<close>

locale field_codec =
  fixes enc :: "'a \<Rightarrow> bytes" and dec :: "bytes \<Rightarrow> 'a" and width :: nat and valid :: "'a \<Rightarrow> bool"
  assumes width: "valid x \<Longrightarrow> length (enc x) = width"
    and dec_enc: "valid x \<Longrightarrow> dec (enc x) = x"
    and narrow: "valid x \<Longrightarrow> width < 2 ^ 32"
begin

lemma take_back:
  assumes "ready d" and "valid x" and "rest_data d = enc x @ rest"
  shows "take_field (of_nat width) (\<lambda>bs. C (dec bs)) d = absorb width [C x] d"
proof -
  have "unat (of_nat width :: u32) = width" using narrow [OF assms(2)] by (simp add: unat_of_nat)
  then show ?thesis
    using take_field_ok [OF assms(1), of "of_nat width" "\<lambda>bs. C (dec bs)"] assms
    by (simp add: width dec_enc)
qed

end

interpretation bool_codec: field_codec "\<lambda>b. [if b then 1 else 0]" "\<lambda>bs. bs ! 0 \<noteq> 0" 1 "\<lambda>_. True"
  by unfold_locales simp_all

interpretation address_codec: field_codec "\<lambda>a. a" "\<lambda>bs. bs" n "\<lambda>a. length a = n \<and> n < 2 ^ 32" for n
  by unfold_locales simp_all

interpretation uid_codec: field_codec "\<lambda>u. be16 (esta_id u) @ be32 (device_id u)" "\<lambda>bs. the (UID_from_data bs)" 6
  "\<lambda>_. True"
proof
  fix u :: uid
  have "\<exists>a b. be16 (esta_id u) = [a, b]" by (simp add: be16_def)
  then obtain a b where ab: "be16 (esta_id u) = [a, b]" by blast
  have "\<exists>e f g h. be32 (device_id u) = [e, f, g, h]" by (simp add: be32_def)
  then obtain e f g h where eh: "be32 (device_id u) = [e, f, g, h]" by blast
  have "of_be16 a b = esta_id u" using of_be16_be16 [of "esta_id u"] ab by simp
  moreover have "of_be32 e f g h = device_id u" using of_be32_be32 [of "device_id u"] eh by simp
  ultimately show "the (UID_from_data (be16 (esta_id u) @ be32 (device_id u))) = u"
    by (simp add: UID_from_data_def ab eh)
qed simp_all

interpretation int_codec: field_codec "int_to_memory big little ty" "memory_to_int big little ty" "int_size ty"
  "\<lambda>v. v \<in> int_range ty \<and> (big \<and> little \<longrightarrow> ty \<noteq> Int16)" for big little ty
  by unfold_locales (simp_all add: int_memory_roundtrip, cases ty, simp_all)

text \<open>Strings without a zero byte; \<open>n\<close> is the number of bytes used.\<close>

lemma byte_char_0: "byte_char 0 = CHR 0x00"
  by (simp add: byte_char_def) code_simp

lemma ShortenString_padded:
  assumes "CHR 0x00 \<notin> set s"
  shows "ShortenString (s @ replicate k (CHR 0x00)) = s"
proof -
  have "takeWhile (\<lambda>c. c \<noteq> CHR 0x00) (replicate k (CHR 0x00)) = []" by (cases k) simp_all
  moreover have "takeWhile (\<lambda>c. c \<noteq> CHR 0x00) (s @ replicate k (CHR 0x00)) =
      s @ takeWhile (\<lambda>c. c \<noteq> CHR 0x00) (replicate k (CHR 0x00))"
    by (rule takeWhile_append2) (use assms in auto)
  ultimately show ?thesis by (simp add: ShortenString_def)
qed

interpretation string_codec: field_codec "string_bytes f" "\<lambda>bs. ShortenString (map byte_char bs)" n
  "\<lambda>s. CHR 0x00 \<notin> set s \<and> length s \<le> string_max f \<and> n = max (length s) (string_min f) \<and> n < 2 ^ 32" for f n
  by unfold_locales
    (auto simp: string_bytes_def Let_def byte_char_0 comp_def ShortenString_padded min_def max_def)

section \<open>Messages that fit their descriptor\<close>

text \<open>\<open>fits v f ms\<close>: the fields \<open>ms\<close> are an instance of the descriptor \<open>f\<close> when the variable field has size \<open>v\<close>. On
  big-endian machines, signed 16 bit integers in little-endian order are left out: the program converts negative ones
  wrongly.\<close>

inductive fits :: "bool \<Rightarrow> nat \<Rightarrow> field_descriptor \<Rightarrow> message_field list \<Rightarrow> bool"
  and fits_fields :: "bool \<Rightarrow> nat \<Rightarrow> field_descriptor list \<Rightarrow> message_field list \<Rightarrow> bool"
  and fits_blocks :: "bool \<Rightarrow> nat \<Rightarrow> field_descriptor \<Rightarrow> field_descriptor list \<Rightarrow> nat \<Rightarrow> message_field list \<Rightarrow> bool"
  for big v
where
  bool: "fits big v (BoolFieldDescriptor name) [BoolMessageField (BoolFieldDescriptor name) b]"
| ipv4: "length a = 4 \<Longrightarrow> fits big v (IPV4FieldDescriptor name) [IPV4MessageField (IPV4FieldDescriptor name) a]"
| mac: "length a = 6 \<Longrightarrow> fits big v (MACFieldDescriptor name) [MACMessageField (MACFieldDescriptor name) a]"
| uid: "fits big v (UIDFieldDescriptor name) [UIDMessageField (UIDFieldDescriptor name) u]"
| string: "f = StringFieldDescriptor name min_size max_size \<Longrightarrow> CHR 0x00 \<notin> set s \<Longrightarrow> length s \<le> string_max f \<Longrightarrow>
    field_need v f = max (length s) (string_min f) \<Longrightarrow> fits big v f [StringMessageField f s]"
| int: "f = IntegerFieldDescriptor ty name little mult intervals labels \<Longrightarrow> x \<in> int_range ty \<Longrightarrow>
    (big \<and> little \<longrightarrow> ty \<noteq> Int16) \<Longrightarrow> fits big v f [BasicMessageField f x]"
| group: "g = FieldDescriptorGroup name fs min_blocks max_blocks \<Longrightarrow>
    fits_blocks big v g fs (if FixedSize g then unat min_blocks else v) ms \<Longrightarrow> fits big v g ms"
| no_field: "fits_fields big v [] []"
| field: "fits big v f ms \<Longrightarrow> fits_fields big v fs ms' \<Longrightarrow> fits_fields big v (f # fs) (ms @ ms')"
| no_block: "fits_blocks big v g fs 0 []"
| block: "fits_fields big v fs ms \<Longrightarrow> fits_blocks big v g fs k ms' \<Longrightarrow>
    fits_blocks big v g fs (Suc k) (GroupMessageField g ms # ms')"

fun serialized :: "bool \<Rightarrow> message_field \<Rightarrow> bytes" where
  "serialized big (BoolMessageField d b) = [if b then 1 else 0]"
| "serialized big (IPV4MessageField d address) = address"
| "serialized big (MACMessageField d address) = address"
| "serialized big (UIDMessageField d u) = be16 (esta_id u) @ be32 (device_id u)"
| "serialized big (StringMessageField d value) = string_bytes d value"
| "serialized big (BasicMessageField d x) = int_bytes big d x"
| "serialized big (GroupMessageField d ms) = concat (map (serialized big) ms)"

abbreviation serialized_all :: "bool \<Rightarrow> message_field list \<Rightarrow> bytes" where
  "serialized_all big ms \<equiv> concat (map (serialized big) ms)"

lemma string_need_bound: "field_need v (StringFieldDescriptor name min_size max_size) \<le> max v 255"
proof -
  have "unat max_size < 256" using unsigned_less [of max_size] by simp
  then show ?thesis by (auto simp: max_def)
qed

text \<open>The deserializer reads back what was written, field by field.\<close>

lemma inflate_serialized:
  "fits big v f ms \<Longrightarrow> ready d \<Longrightarrow> unat (d_variable_field_size d) = v \<Longrightarrow>
    rest_data d = serialized_all big ms @ rest \<Longrightarrow>
    inflate_Visit big f d = absorb (length (serialized_all big ms)) ms d"
  "fits_fields big v fs ms' \<Longrightarrow> ready d' \<Longrightarrow> unat (d_variable_field_size d') = v \<Longrightarrow>
    rest_data d' = serialized_all big ms' @ rest' \<Longrightarrow>
    inflate_fields big fs d' = absorb (length (serialized_all big ms')) ms' d'"
  "fits_blocks big v g fs' k ms'' \<Longrightarrow> ready d'' \<Longrightarrow> unat (d_variable_field_size d'') = v \<Longrightarrow>
    rest_data d'' = serialized_all big ms'' @ rest'' \<Longrightarrow>
    inflate_blocks big g fs' k d'' = absorb (length (serialized_all big ms'')) ms'' d''"
proof (induction arbitrary: d rest and d' rest' and d'' rest'' rule: fits_fits_fields_fits_blocks.inducts)
  case (bool name b)
  with bool_codec.take_back [of d b rest "BoolMessageField (BoolFieldDescriptor name)"] show ?case by simp
next
  case (ipv4 a name)
  with address_codec.take_back [of d a 4 rest "IPV4MessageField (IPV4FieldDescriptor name)"] show ?case by simp
next
  case (mac a name)
  with address_codec.take_back [of d a 6 rest "MACMessageField (MACFieldDescriptor name)"] show ?case by simp
next
  case (uid name u)
  with uid_codec.take_back [of d u rest "UIDMessageField (UIDFieldDescriptor name)"] show ?case by simp
next
  case (string f name min_size max_size s)
  have "field_need v f \<le> max v 255" unfolding string(1) by (rule string_need_bound)
  also have "\<dots> < 2 ^ 32" using unat_bound [of "d_variable_field_size d"] string(6) by simp
  finally have n: "field_need v f < 2 ^ 32" .
  have size: "(of_nat (field_need v f) :: u32) =
      (if FixedSize f then MaxSize f else d_variable_field_size d)"
    using string(1) string(6) MaxSize_need [of f v] by auto
  have "length (string_bytes f s) = field_need v f"
    by (rule string_codec.width) (use string n in simp)
  moreover have "take_field (of_nat (field_need v f)) (\<lambda>bs. StringMessageField f (ShortenString (map byte_char bs))) d =
      absorb (field_need v f) [StringMessageField f s] d"
    by (rule string_codec.take_back [where f = f and rest = rest]) (use string n in simp_all)
  moreover have "inflate_Visit big f d =
      take_field (of_nat (field_need v f)) (\<lambda>bs. StringMessageField f (ShortenString (map byte_char bs))) d"
    unfolding size unfolding string(1) by (simp only: inflate_Visit.simps Let_def)
  ultimately show ?case by (simp only: list.map concat.simps serialized.simps append_Nil2)
next
  case (int f ty name little mult intervals labels x)
  with int_codec.take_back [of d x ty big little rest "BasicMessageField f"] show ?case by simp
next
  case (group g name fs min_blocks max_blocks ms)
  have "inflate_Visit big g d = inflate_blocks big g fs (if FixedSize g then unat min_blocks else v) d"
    unfolding group.hyps(1) by (simp only: inflate_Visit.simps Let_def iterations_def group.prems(2))
  with group.IH(2) [OF group.prems] show ?case by simp
next
  case no_field
  then show ?case by (simp add: absorb_0)
next
  case (field f ms fs ms')
  let ?n = "length (serialized_all big ms)" and ?d = "absorb (length (serialized_all big ms)) ms d'"
  have first: "inflate_Visit big f d' = ?d"
    by (rule field.IH(2)) (use field.prems in simp_all)
  have next_state: "ready ?d" "rest_data ?d = serialized_all big ms' @ rest'"
    using ready_absorb [OF field.prems(1), of ?n ms] field.prems(3) by simp_all
  have "inflate_fields big fs ?d = absorb (length (serialized_all big ms')) ms' ?d"
    by (rule field.IH(4) [OF next_state(1) _ next_state(2)]) (use field.prems in simp)
  then show ?case by (simp add: first absorb_absorb)
next
  case (no_block g fs)
  then show ?case by (simp add: absorb_0)
next
  case (block fs ms g k ms')
  let ?n = "length (serialized_all big ms)" and ?d = "absorb (length (serialized_all big ms)) [GroupMessageField g ms] d''"
  have le: "?n \<le> length (rest_data d'')" using block.prems(3) by simp
  note open_close = group_block [OF block.prems(1) le]
  have "inflate_fields big fs (open_group d'') = absorb ?n ms (open_group d'')"
    by (rule block.IH(2)) (use block.prems open_close in simp_all)
  then have first: "close_group g (inflate_fields big fs (open_group d'')) = ?d" by (simp add: open_close(1))
  have next_state: "ready ?d" "rest_data ?d = serialized_all big ms' @ rest''"
    using ready_absorb [OF block.prems(1) le, of "[GroupMessageField g ms]"] block.prems(3) by simp_all
  have "inflate_blocks big g fs k ?d = absorb (length (serialized_all big ms')) ms' ?d"
    by (rule block.IH(4) [OF next_state(1) _ next_state(2)]) (use block.prems in simp)
  then show ?case by (simp add: first absorb_absorb)
qed

lemma fits_length:
  "fits big v f ms \<Longrightarrow> length (serialized_all big ms) = field_need v f"
  "fits_fields big v fs ms' \<Longrightarrow> length (serialized_all big ms') = fields_need v fs"
  "fits_blocks big v g fs' k ms'' \<Longrightarrow> length (serialized_all big ms'') = k * fields_need v fs'"
proof (induction rule: fits_fits_fields_fits_blocks.inducts)
  case (string f name min_size max_size s)
  have "length (string_bytes f s) = max (length s) (string_min f)"
    using string(3) by (simp add: string_bytes_def Let_def min_def max_def)
  with string(4) show ?case by simp
next
  case (group g name fs min_blocks max_blocks ms)
  then show ?case by (simp only: field_need.simps)
qed simp_all

section \<open>Descriptors whose data can be measured\<close>

text \<open>The variable field may have size \<open>v\<close>.\<close>

fun variable_ok :: "nat \<Rightarrow> field_descriptor \<Rightarrow> bool" where
  "variable_ok v (StringFieldDescriptor name min_size max_size) \<longleftrightarrow>
     min_size = max_size \<or> unat min_size \<le> v \<and> v \<le> unat max_size"
| "variable_ok v (FieldDescriptorGroup name fs min_blocks max_blocks) \<longleftrightarrow>
     FixedSize (FieldDescriptorGroup name fs min_blocks max_blocks) \<or>
     0 < fields_need 1 fs \<and> fields_need 1 fs < 2 ^ 32 \<and> unat min_blocks \<le> v \<and>
     (max_blocks = UNLIMITED_BLOCKS \<or>
      int v \<le> sint max_blocks \<and> fields_need 1 fs * nat (sint max_blocks) < 2 ^ 32)"
| "variable_ok v _ \<longleftrightarrow> True"

lemma unat_small: "n < 2 ^ 32 \<Longrightarrow> unat (of_nat n :: u32) = n"
  by (simp add: unat_of_nat)

lemma unat_ucast_u16_u32: "unat (ucast (w :: u16) :: u32) = unat w"
proof -
  have "unat w < 2 ^ 16" using unsigned_less [of w] by simp
  then have "unat w < 2 ^ 32" by simp
  then show ?thesis by (simp add: unsigned_ucast_eq take_bit_nat_eq_self)
qed

lemma scast_u32: "0 \<le> sint (m :: u16) \<Longrightarrow> (scast m :: u32) = of_nat (nat (sint m))"
  by simp

lemma variable_group_measured:
  assumes ok: "variable_ok v g" and g: "is_group g" "\<not> FixedSize g" "\<not> nested_variable g"
    and total: "field_need v g < 2 ^ 32"
  shows "variable_group_size (of_nat (field_need v g)) g = Some (VARIABLE_GROUP, Some (of_nat v))" and "v < 2 ^ 32"
proof -
  obtain name fs min_blocks max_blocks where gd: "g = FieldDescriptorGroup name fs min_blocks max_blocks"
    using g(1) by (cases g) simp_all
  let ?b = "fields_need 1 fs"
  have fixed: "FixedBlockSize fs" using g(3) by (simp add: gd)
  have need: "field_need v g = v * ?b"
    using g(2) fields_need_fixed [of fs v 1] fixed by (simp add: gd FixedBlockSize_def)
  have b: "0 < ?b" "?b < 2 ^ 32" "unat min_blocks \<le> v"
    and limit: "max_blocks = UNLIMITED_BLOCKS \<or> int v \<le> sint max_blocks \<and> ?b * nat (sint max_blocks) < 2 ^ 32"
    using ok g(2) by (auto simp: gd)
  have n: "v * ?b < 2 ^ 32" using total by (simp only: need)
  have "v \<le> v * ?b" using b(1) by simp
  then show v: "v < 2 ^ 32" using n by (rule le_less_trans)
  have bs: "BlockSize fs = of_nat ?b" by (rule BlockSize_need [OF fixed])
  note u = unat_small [OF b(2)] unat_small [OF n] unat_small [OF v]
  have nonzero: "of_nat ?b \<noteq> (0 :: u32)" using u(1) b(1) by (metis unat_0 less_irrefl)
  have mod: "(of_nat (v * ?b) :: u32) mod of_nat ?b = 0"
    by (rule unat_0_iff [THEN iffD1]) (simp only: unat_mod_distrib u mod_mult_self2_is_0)
  have div: "(of_nat (v * ?b) :: u32) div of_nat ?b = of_nat v"
    using b(1) by (simp only: word_unat_eq_iff unat_div_distrib u) simp
  have least: "\<not> (of_nat v :: u32) < ucast min_blocks"
    using b(3) by (simp only: word_less_nat_alt u unat_ucast_u16_u32 not_less)
  have most: "\<not> (of_nat (v * ?b) :: u32) > of_nat ?b * scast max_blocks \<and> \<not> (of_nat v :: u32) > scast max_blocks"
    if "max_blocks \<noteq> UNLIMITED_BLOCKS"
  proof -
    let ?m = "nat (sint max_blocks)"
    have m: "int v \<le> sint max_blocks" "?b * ?m < 2 ^ 32" using limit that by simp_all
    have "?m \<le> ?b * ?m" using b(1) by simp
    then have "?m < 2 ^ 32" using m(2) by (rule le_less_trans)
    note um = unat_small [OF m(2)] unat_small [OF this]
    have sc: "(scast max_blocks :: u32) = of_nat ?m" using m(1) by (intro scast_u32) simp
    have "v \<le> ?m" using m(1) by simp
    moreover from this have "v * ?b \<le> ?b * ?m" by (simp add: mult.commute)
    ultimately show ?thesis
      unfolding sc of_nat_mult [symmetric] by (simp only: word_less_nat_alt u um not_less)
  qed
  show "variable_group_size (of_nat (field_need v g)) g = Some (VARIABLE_GROUP, Some (of_nat v))"
    unfolding need unfolding gd variable_group_size.simps Let_def bs div mod
    using fixed nonzero least most by (auto simp only: LimitedSize.simps simp_thms if_True if_False split: if_splits)
qed

lemma variable_string_measured:
  assumes "variable_ok v f" and "is_string f" and "\<not> FixedSize f" and "v < 2 ^ 32"
  shows "variable_string_size (of_nat v) f = (VARIABLE_STRING, Some (of_nat v))"
proof -
  obtain name min_size max_size where f: "f = StringFieldDescriptor name min_size max_size"
    using assms(2) by (cases f) simp_all
  have "unat min_size \<le> v" "v \<le> unat max_size" using assms(1,3) by (simp_all add: f)
  then have "\<not> (of_nat v :: u32) < ucast min_size" "\<not> (of_nat v :: u32) > ucast max_size"
    by (simp_all only: word_less_nat_alt unat_small [OF assms(4)] unat_ucast_u8_u32 not_less)
  then show ?thesis by (simp add: f)
qed

lemma measured:
  assumes consistent: "CheckConsistency fs" and ok: "\<forall>f \<in> set fs. variable_ok v f"
    and total: "fields_need v fs < 2 ^ 32"
  obtains (fixed) "\<forall>f \<in> set fs. FixedSize f"
      and "CalculateFieldSize (of_nat (fields_need v fs)) fs = Some (FIXED_SIZE, None)"
  | (variable) state where "state \<in> {VARIABLE_STRING, VARIABLE_GROUP}" and "v < 2 ^ 32"
      and "CalculateFieldSize (of_nat (fields_need v fs)) fs = Some (state, Some (of_nat v))"
proof -
  have one: "length (var_strings fs) + length (var_groups fs) \<le> 1"
    and nested: "filter nested_variable (var_groups fs) = []"
    using consistent by (simp_all add: CheckConsistency_iff)
  have "fixed_need fs < 2 ^ 32" using total by (simp add: fields_need_split [of v fs])
  note u = unat_small [OF this] unat_small [OF total]
  have ge: "\<not> (of_nat (fields_need v fs) :: u32) < of_nat (fixed_need fs)"
    unfolding word_less_nat_alt u by (simp add: fields_need_split [of v fs])
  from single_variable [OF one] show thesis
  proof (elim disjE exE conjE)
    assume none: "var_strings fs = []" "var_groups fs = []"
    then have "\<forall>f \<in> set fs. FixedSize f"
      using variable_kinds by (auto simp: var_strings_def var_groups_def filter_empty_conv)
    moreover have "fields_need v fs = fixed_need fs" using none by (simp add: fields_need_split)
    ultimately show thesis using none by (intro fixed) (simp_all add: CalculateFieldSize_eq)
  next
    fix f assume f: "var_strings fs = [f]" "var_groups fs = []" "is_string f" "\<not> FixedSize f"
    then have need: "fields_need v fs = fixed_need fs + v" by (simp add: fields_need_split)
    have "f \<in> set fs" using f(1) by (auto simp: var_strings_def filter_eq_Cons_iff)
    with ok have "variable_ok v f" by simp
    moreover have v: "v < 2 ^ 32" using total need by simp
    ultimately have "variable_string_size (of_nat v) f = (VARIABLE_STRING, Some (of_nat v))"
      using f(3,4) by (intro variable_string_measured)
    with f ge v show thesis by (intro variable) (simp_all add: CalculateFieldSize_eq need)
  next
    fix g assume g: "var_strings fs = []" "var_groups fs = [g]" "is_group g" "\<not> FixedSize g"
    then have need: "fields_need v fs = fixed_need fs + field_need v g" by (simp add: fields_need_split)
    have "g \<in> set fs" using g(2) by (auto simp: var_groups_def filter_eq_Cons_iff)
    with ok have "variable_ok v g" by simp
    moreover have "\<not> nested_variable g" using nested g(2) by (simp split: if_splits)
    moreover have "field_need v g < 2 ^ 32" using total need by simp
    ultimately have "variable_group_size (of_nat (field_need v g)) g = Some (VARIABLE_GROUP, Some (of_nat v))" "v < 2 ^ 32"
      using g(3,4) variable_group_measured [of v g] by simp_all
    with g ge show thesis by (intro variable) (simp_all add: CalculateFieldSize_eq need)
  qed
qed

text \<open>Where no field is variable, the size of the variable field does not matter.\<close>

lemma fits_fixed:
  "fits big v f ms \<Longrightarrow> FixedSize f \<Longrightarrow> fits big w f ms"
  "fits_fields big v fs ms' \<Longrightarrow> \<forall>f \<in> set fs. FixedSize f \<Longrightarrow> fits_fields big w fs ms'"
  "fits_blocks big v g fs' k ms'' \<Longrightarrow> \<forall>f \<in> set fs'. FixedSize f \<Longrightarrow> fits_blocks big w g fs' k ms''"
proof (induction rule: fits_fits_fields_fits_blocks.inducts)
  case (string f name min_size max_size s)
  then show ?case
    using field_need_fixed [of f v w] by (intro fits_fits_fields_fits_blocks.string) simp_all
next
  case (group g name fs min_blocks max_blocks ms)
  then have "\<forall>f \<in> set fs. FixedSize f" by simp
  with group show ?case by (intro fits_fits_fields_fits_blocks.group) simp_all
qed (auto intro: fits_fits_fields_fits_blocks.intros)

lemma inflate_serialized_message:
  assumes fit: "fits_fields big v fs ms" and consistent: "CheckConsistency fs"
    and ok: "\<forall>f \<in> set fs. variable_ok v f" and total: "fields_need v fs < 2 ^ 32"
  shows "InflateMessage big fs (Some (serialized_all big ms)) (of_nat (length (serialized_all big ms))) old =
    Some (Some ms)"
proof -
  have len: "length (serialized_all big ms) = fields_need v fs" by (rule fits_length(2) [OF fit])
  have reads: "d_insufficient_data (inflate_fields big fs d) = False \<and> hd (d_message_stack (inflate_fields big fs d)) = ms"
    if "fits_fields big w fs ms" and d: "d = \<lparr>d_data = serialized_all big ms,
       d_length = of_nat (fields_need v fs), d_offset = 0, d_variable_field_size = of_nat w,
       d_insufficient_data = False, d_message_stack = [[]]\<rparr>" and w: "w < 2 ^ 32" for w d
  proof -
    have "ready d" using unat_small [OF total] len by (simp add: d ready_def)
    moreover have "rest_data d = serialized_all big ms @ []" by (simp add: d rest_data_def)
    moreover have "unat (d_variable_field_size d) = w" using unat_small [OF w] by (simp add: d)
    ultimately have "inflate_fields big fs d = absorb (length (serialized_all big ms)) ms d"
      using that(1) by (intro inflate_serialized(2))
    then show ?thesis by (simp add: d absorb_def)
  qed
  show ?thesis
    using consistent ok total
  proof (cases rule: measured)
    case fixed
    have "fits_fields big (unat old) fs ms" using fit fixed(1) by (rule fits_fixed(2))
    from reads [OF this refl unat_bound] fixed(2) show ?thesis by (simp add: InflateMessage_def inflate_start_def len)
  next
    case (variable state)
    from reads [OF fit refl variable(2)] variable(1,3) show ?thesis by (auto simp: InflateMessage_def inflate_start_def len)
  qed
qed

section \<open>The serializer\<close>

text \<open>The bytes written so far are at the start of the buffer, whose size is known.\<close>

definition holds :: "serializer \<Rightarrow> bytes \<Rightarrow> bool" where
  "holds s bs \<longleftrightarrow> (\<exists>a. s_data s = Some a \<and> length a = unat (s_buffer_size s) \<and>
     unat (s_offset s) = length bs \<and> take (length bs) a = bs)"

lemma put_holds:
  assumes "holds s bs" and "unat required \<le> length xs" and "length bs + length xs < unat (s_buffer_size s)"
  shows "\<exists>s'. put required xs s = Some s' \<and> holds s' (bs @ xs) \<and> s_buffer_size s' = s_buffer_size s"
proof -
  obtain a where a: "s_data s = Some a" "length a = unat (s_buffer_size s)" "unat (s_offset s) = length bs"
    "take (length bs) a = bs"
    using assms(1) by (auto simp: holds_def)
  have "s_offset s \<le> s_buffer_size s" using assms(3) a(3) by (simp add: word_le_nat_alt)
  then have "s_buffer_size s - s_offset s > required"
    using assms(2,3) a(3) by (simp add: word_less_nat_alt unat_sub)
  moreover have "unat (s_offset s + of_nat (length xs)) = length bs + length xs"
    using assms(3) a(3) unat_bound [of "s_buffer_size s"] by (simp add: unat_word_ariths(1) unat_of_nat)
  ultimately show ?thesis
    using a assms(3)
    by (simp add: put_def CheckForFreeSpace_def write_bytes_def holds_def memcpy_at_def)
qed

abbreviation serialize_list :: "bool \<Rightarrow> message_field list \<Rightarrow> serializer option \<Rightarrow> serializer option" where
  "serialize_list big ms r \<equiv> fold (\<lambda>m r. Option.bind r (serialize_Visit big m)) ms r"

lemma serialize_holds:
  "fits big v f ms \<Longrightarrow> holds s bs \<Longrightarrow> length bs + length (serialized_all big ms) < unat (s_buffer_size s) \<Longrightarrow>
    \<exists>s'. serialize_list big ms (Some s) = Some s' \<and> holds s' (bs @ serialized_all big ms) \<and>
      s_buffer_size s' = s_buffer_size s"
  "fits_fields big v fs ms' \<Longrightarrow> holds s bs \<Longrightarrow> length bs + length (serialized_all big ms') < unat (s_buffer_size s) \<Longrightarrow>
    \<exists>s'. serialize_list big ms' (Some s) = Some s' \<and> holds s' (bs @ serialized_all big ms') \<and>
      s_buffer_size s' = s_buffer_size s"
  "fits_blocks big v g fs' k ms'' \<Longrightarrow> holds s bs \<Longrightarrow>
    length bs + length (serialized_all big ms'') < unat (s_buffer_size s) \<Longrightarrow>
    \<exists>s'. serialize_list big ms'' (Some s) = Some s' \<and> holds s' (bs @ serialized_all big ms'') \<and>
      s_buffer_size s' = s_buffer_size s"
proof (induction arbitrary: s bs and s bs and s bs rule: fits_fits_fields_fits_blocks.inducts)
  case (string f name min_size max_size t)
  have "length t < 2 ^ 32"
  proof -
    have "unat max_size < 256" using unsigned_less [of max_size] by simp
    with string(1,3) show ?thesis by simp
  qed
  with string have "unat (of_nat (min (length t) (string_max f)) :: u32) \<le> length (string_bytes f t)"
    by (simp add: string_bytes_def Let_def unat_of_nat)
  with put_holds [OF string.prems(1)] string.prems(2) show ?case by simp
next
  case (int f ty name little mult intervals labels x)
  have "unat (of_nat (length (int_bytes big f x)) :: u32) \<le> length (int_bytes big f x)"
    by (simp add: unat_of_nat)
  with put_holds [OF int.prems(1)] int.prems(2) show ?case by simp
next
  case (field f ms fs ms')
  obtain s1 where s1: "serialize_list big ms (Some s) = Some s1" "holds s1 (bs @ serialized_all big ms)"
    "s_buffer_size s1 = s_buffer_size s"
    using field.IH(2) [OF field.prems(1)] field.prems(2) by auto
  obtain s2 where "serialize_list big ms' (Some s1) = Some s2"
    "holds s2 ((bs @ serialized_all big ms) @ serialized_all big ms')" "s_buffer_size s2 = s_buffer_size s1"
    using field.IH(4) [OF s1(2)] field.prems(2) s1(3) by auto
  with s1 show ?case by simp
next
  case (block fs ms g k ms')
  obtain s1 where s1: "serialize_list big ms (Some s) = Some s1" "holds s1 (bs @ serialized_all big ms)"
    "s_buffer_size s1 = s_buffer_size s"
    using block.IH(2) [OF block.prems(1)] block.prems(2) by auto
  obtain s2 where "serialize_list big ms' (Some s1) = Some s2"
    "holds s2 ((bs @ serialized_all big ms) @ serialized_all big ms')" "s_buffer_size s2 = s_buffer_size s1"
    using block.IH(4) [OF s1(2)] block.prems(2) s1(3) by auto
  with s1 show ?case by simp
next
  case (group g name fs min_blocks max_blocks ms)
  then show ?case by blast
qed (auto intro: put_holds)

text \<open>C16: A message survives the wire. A message that fits a consistent descriptor (values in range, strings without
  zero bytes and not too long, groups repeated as often as the descriptor allows) is read back by the deserializer
  exactly as it was, provided it is smaller than the first buffer of the serializer and that a group of variable size has blocks that
  are not empty and a size below 4 gigabytes. This holds on machines of both byte
  orders, with one exception: on a big-endian machine, messages have no signed 16 bit fields in little-endian order,
  whose negative values the program converts wrongly (\<open>int16_little_endian_wrong\<close>).\<close>

theorem message_roundtrip:
  assumes fit: "fits_fields big v fs ms" and consistent: "CheckConsistency fs"
    and ok: "\<forall>f \<in> set fs. variable_ok v f" and room: "fields_need v fs < unat initial_size"
  shows "\<exists>bs s. SerializeMessage big ms (new_MessageSerializer initial_size) = Some (bs, s) \<and>
    length bs = fields_need v fs \<and> InflateMessage big fs (Some bs) (of_nat (length bs)) old = Some (Some ms)"
proof -
  let ?s = "\<lparr>s_data = Some (fresh_array initial_size), s_offset = 0, s_buffer_size = initial_size,
      s_initial_buffer_size = initial_size\<rparr>"
  have len: "length (serialized_all big ms) = fields_need v fs" by (rule fits_length(2) [OF fit])
  have "holds ?s []" by (simp add: holds_def fresh_array_def)
  from serialize_holds(2) [OF fit this] room len obtain s where
    "serialize_list big ms (Some ?s) = Some s" "holds s (serialized_all big ms)"
    by auto
  then have "SerializeMessage big ms (new_MessageSerializer initial_size) = Some (serialized_all big ms, s)"
    by (auto simp: SerializeMessage_def new_MessageSerializer_def holds_def)
  moreover have "fields_need v fs < 2 ^ 32" using room unat_bound [of initial_size] by simp
  note inflate_serialized_message [OF fit consistent ok this]
  ultimately show ?thesis using len by blast
qed

section \<open>Examples\<close>

definition slot_message :: "int \<Rightarrow> string \<Rightarrow> message_field" where
  "slot_message i name = GroupMessageField slots_group
     [BasicMessageField (IntegerFieldDescriptor UInt16 ''slot'' False 0 [] []) i,
      StringMessageField (StringFieldDescriptor ''name'' 4 4) name]"

lemma fits_one: "fits big v f [m] \<Longrightarrow> fits_fields big v fs ms \<Longrightarrow> fits_fields big v (f # fs) (m # ms)"
  using fits_fits_fields_fits_blocks.field [of big v f "[m]" fs ms] by simp

lemma slot_block_fits:
  assumes "i \<in> int_range UInt16" and "CHR 0x00 \<notin> set name" and "length name \<le> 4"
  shows "fits_fields big v slot_block
    [BasicMessageField (IntegerFieldDescriptor UInt16 ''slot'' False 0 [] []) i,
     StringMessageField (StringFieldDescriptor ''name'' 4 4) name]"
proof -
  have "fits big v (IntegerFieldDescriptor UInt16 ''slot'' False 0 [] [])
      [BasicMessageField (IntegerFieldDescriptor UInt16 ''slot'' False 0 [] []) i]"
    by (rule fits_fits_fields_fits_blocks.int [OF refl]) (use assms in simp_all)
  moreover have "fits big v (StringFieldDescriptor ''name'' 4 4)
      [StringMessageField (StringFieldDescriptor ''name'' 4 4) name]"
    by (rule fits_fits_fields_fits_blocks.string [OF refl]) (use assms in simp_all)
  ultimately show ?thesis
    unfolding slot_block_def by (intro fits_one fits_fits_fields_fits_blocks.no_field)
qed

lemma slots_fit:
  "fits_fields False 2 slots_descriptor
    [BoolMessageField (BoolFieldDescriptor ''ok'') True, slot_message 1 ''pan'', slot_message 513 ''tilt'']"
proof -
  have "fits_blocks False 2 slots_group slot_block (Suc (Suc 0)) [slot_message 1 ''pan'', slot_message 513 ''tilt'']"
    unfolding slot_message_def
    by (intro fits_fits_fields_fits_blocks.block fits_fits_fields_fits_blocks.no_block slot_block_fits) simp_all
  then have "fits False 2 slots_group [slot_message 1 ''pan'', slot_message 513 ''tilt'']"
    by (intro fits_fits_fields_fits_blocks.group [OF slots_group_def])
      (simp add: slots_group_def FixedBlockCount_def UNLIMITED_BLOCKS_def numeral_2_eq_2)
  from fits_fits_fields_fits_blocks.field [OF fits_fits_fields_fits_blocks.bool
      fits_fits_fields_fits_blocks.field [OF this fits_fits_fields_fits_blocks.no_field]]
  show ?thesis by (simp add: slots_descriptor_def)
qed

lemma slots_ok:
  "CheckConsistency slots_descriptor" "\<forall>f \<in> set slots_descriptor. variable_ok 2 f"
  "fields_need 2 slots_descriptor = 13"
  by (simp_all add: slots_descriptor_def slots_group_def slot_block_def CheckConsistency_def FixedBlockCount_def
      FixedBlockSize_def UNLIMITED_BLOCKS_def Let_def)

theorem message_roundtrip_witness:
  "\<exists>bs s. SerializeMessage False [BoolMessageField (BoolFieldDescriptor ''ok'') True, slot_message 1 ''pan'',
        slot_message 513 ''tilt''] (new_MessageSerializer 256) = Some (bs, s) \<and>
     length bs = 13 \<and> InflateMessage False slots_descriptor (Some bs) (of_nat (length bs)) 0 =
       Some (Some [BoolMessageField (BoolFieldDescriptor ''ok'') True, slot_message 1 ''pan'', slot_message 513 ''tilt''])"
  using message_roundtrip [OF slots_fit slots_ok(1,2), of 256 0] by (simp add: slots_ok)

text \<open>The serializer overruns its buffer. \<open>CheckForFreeSpace\<close> doubles the array but not \<open>m_buffer_size\<close>, so the
  next field that does not fit either is written past the end: three strings of 200 bytes, with the first buffer
  of 256 bytes, run into undefined behaviour.\<close>

theorem serializer_overruns:
  "SerializeMessage False (replicate 3 (StringMessageField (StringFieldDescriptor name 0 255) (replicate 200 CHR ''a'')))
     (new_MessageSerializer 256) = None"
proof -
  let ?m = "StringMessageField (StringFieldDescriptor name 0 255) (replicate 200 CHR ''a'')"
  let ?bs = "replicate 200 (char_byte CHR ''a'')"
  have bytes: "string_bytes (StringFieldDescriptor name 0 255) (replicate 200 CHR ''a'') = ?bs"
    by (simp add: string_bytes_def)
  have visit: "serialize_Visit False ?m s = put 200 ?bs s" for s
    by (simp add: bytes)
  show ?thesis
    by (simp add: SerializeMessage_def new_MessageSerializer_def numeral_3_eq_3 visit put_def CheckForFreeSpace_def
        write_bytes_def fresh_array_def del: serialize_Visit.simps)
qed

text \<open>On a big endian machine a negative 16 bit integer in little endian is written wrongly.\<close>

lemma int16_little_endian_wrong: "int_to_memory True True Int16 (- 2) = [0xff, 0xff] \<and> int_to_memory False True Int16 (- 2) = [0xfe, 0xff]"
  by code_simp

end
