(* ===== verification/IO_Buffer.thy ===== *)
theory IO_Buffer
  imports OLA_Prelude
begin

text \<open>
  Buffers of bytes for input and output: \<^verbatim>\<open>include/ola/io/MemoryBlock.h\<close>, \<^verbatim>\<open>include/ola/io/MemoryBlockPool.h\<close>,
  \<^verbatim>\<open>common/io/IOQueue.cpp\<close>, \<^verbatim>\<open>common/io/IOStack.cpp\<close> and \<^verbatim>\<open>include/ola/io/MemoryBuffer.h\<close>. Queues and stacks are chains of memory
  blocks from a pool that several of them may share. A block belongs to one chain or to the pool's free list, so
  blocks are values that move between them. Sizes are naturals: the model has no more than 4 GB of data.
\<close>

section \<open>Memory blocks\<close>

text \<open>The array of a block (\<open>m_data\<close> to \<open>m_data_end\<close>), and the offsets of the first valid byte and of the end of the valid
  bytes.\<close>

record memory_block =
  blk_data :: bytes
  m_first :: nat
  m_last :: nat

definition MemoryBlock :: "bytes \<Rightarrow> memory_block" where
  "MemoryBlock data = \<lparr>blk_data = data, m_first = 0, m_last = 0\<rparr>"

definition Capacity :: "memory_block \<Rightarrow> nat" where
  "Capacity b = length (blk_data b)"

definition SeekBack :: "memory_block \<Rightarrow> memory_block" where
  "SeekBack b = b\<lparr>m_first := Capacity b, m_last := Capacity b\<rparr>"

definition block_Size :: "memory_block \<Rightarrow> nat" where
  "block_Size b = m_last b - m_first b"

definition block_Empty :: "memory_block \<Rightarrow> bool" where
  "block_Empty b \<longleftrightarrow> m_last b = m_first b"

text \<open>The valid bytes, which \<open>Data\<close> points to.\<close>

definition block_Data :: "memory_block \<Rightarrow> bytes" where
  "block_Data b = take (block_Size b) (drop (m_first b) (blk_data b))"

definition Append :: "bytes \<Rightarrow> memory_block \<Rightarrow> nat \<times> memory_block" where
  "Append data b =
     (let bytes_to_write = min (length data) (Capacity b - m_last b)
      in (bytes_to_write,
          b\<lparr>blk_data := memcpy_at (blk_data b) (m_last b) (take bytes_to_write data),
            m_last := m_last b + bytes_to_write\<rparr>))"

definition Prepend :: "bytes \<Rightarrow> memory_block \<Rightarrow> nat \<times> memory_block" where
  "Prepend data b =
     (let bytes_to_write = min (length data) (m_first b)
      in (bytes_to_write,
          b\<lparr>blk_data := memcpy_at (blk_data b) (m_first b - bytes_to_write) (drop (length data - bytes_to_write) data),
            m_first := m_first b - bytes_to_write\<rparr>))"

definition Copy :: "nat \<Rightarrow> memory_block \<Rightarrow> bytes" where
  "Copy len b = take (min len (block_Size b)) (drop (m_first b) (blk_data b))"

definition PopFront :: "nat \<Rightarrow> memory_block \<Rightarrow> nat \<times> memory_block" where
  "PopFront len b =
     (let bytes_to_pop = min len (block_Size b) in (bytes_to_pop, b\<lparr>m_first := m_first b + bytes_to_pop\<rparr>))"

section \<open>The pool\<close>

record memory_pool =
  m_free_blocks :: "memory_block list"
  m_block_size :: nat
  m_blocks_allocated :: nat

definition DEFAULT_BLOCK_SIZE :: nat where
  "DEFAULT_BLOCK_SIZE = 1024"

definition MemoryBlockPool :: "nat \<Rightarrow> memory_pool" where
  "MemoryBlockPool block_size = \<lparr>m_free_blocks = [], m_block_size = block_size, m_blocks_allocated = 0\<rparr>"

text \<open>A new array has unspecified contents, here zeros; the theorems show that only written bytes are read. Blocks from
  the free list are returned as they were released.\<close>

definition Allocate :: "memory_pool \<Rightarrow> memory_block \<times> memory_pool" where
  "Allocate p =
     (case m_free_blocks p of
        [] \<Rightarrow> (MemoryBlock (replicate (m_block_size p) 0), p\<lparr>m_blocks_allocated := m_blocks_allocated p + 1\<rparr>)
      | b # bs \<Rightarrow> (b, p\<lparr>m_free_blocks := bs\<rparr>))"

definition Release :: "memory_block \<Rightarrow> memory_pool \<Rightarrow> memory_pool" where
  "Release b p = p\<lparr>m_free_blocks := m_free_blocks p @ [b]\<rparr>"

text \<open>The loop of \<open>Purge\<close> stops when the number of free blocks equals \<open>remaining\<close>; with fewer free blocks at the start it
  reads the front of an empty queue, which is \<open>None\<close>.\<close>

fun purge_loop :: "nat \<Rightarrow> memory_block list \<Rightarrow> nat \<Rightarrow> (memory_block list \<times> nat) option" where
  "purge_loop remaining [] allocated = (if remaining = 0 then Some ([], allocated) else None)"
| "purge_loop remaining (b # bs) allocated =
     (if length (b # bs) = remaining then Some (b # bs, allocated)
      else purge_loop remaining bs (uint_sub allocated 1))"

definition Purge :: "nat \<Rightarrow> memory_pool \<Rightarrow> memory_pool option" where
  "Purge remaining p =
     map_option (\<lambda>(bs, n). p\<lparr>m_free_blocks := bs, m_blocks_allocated := n\<rparr>)
       (purge_loop remaining (m_free_blocks p) (m_blocks_allocated p))"

section \<open>IOQueue\<close>

type_synonym blocks = "memory_block list"

text \<open>An operation takes and returns the pool and the chain \<open>m_blocks\<close> of the queue.\<close>

definition IOQueue :: "memory_pool \<times> blocks" where
  "IOQueue = (MemoryBlockPool DEFAULT_BLOCK_SIZE, [])"

definition IOQueue_Size :: "blocks \<Rightarrow> nat" where
  "IOQueue_Size bs = sum_list (map block_Size bs)"

definition IOQueue_Empty :: "blocks \<Rightarrow> bool" where
  "IOQueue_Empty bs \<longleftrightarrow> bs = []"

definition AppendBlock :: "memory_pool \<times> blocks \<Rightarrow> memory_pool \<times> blocks" where
  "AppendBlock = (\<lambda>(p, bs). let (b, p') = Allocate p in (p', bs @ [b]))"

text \<open>The loop of \<open>Write\<close>: \<open>data\<close> is what is left to write. It does not end when blocks have no space at all.\<close>

partial_function (option) write_loop :: "memory_pool \<times> blocks \<Rightarrow> bytes \<Rightarrow> (memory_pool \<times> blocks) option" where
  "write_loop q data =
     (let (n, b) = Append data (last (snd q));
          q1 = (fst q, butlast (snd q) @ [b])
      in if n = length data then Some q1 else write_loop (AppendBlock q1) (drop n data))"

declare write_loop.simps [code]

definition IOQueue_Write :: "bytes \<Rightarrow> memory_pool \<times> blocks \<Rightarrow> (memory_pool \<times> blocks) option" where
  "IOQueue_Write data q = write_loop (if snd q = [] then AppendBlock q else q) data"

text \<open>A block that a read or pop has emptied goes back to the pool.\<close>

definition keep_or_release :: "memory_block \<Rightarrow> memory_pool \<Rightarrow> memory_pool \<times> blocks" where
  "keep_or_release b p = (if block_Empty b then (Release b p, []) else (p, [b]))"

fun read_loop :: "memory_pool \<Rightarrow> blocks \<Rightarrow> nat \<Rightarrow> bytes \<times> memory_pool \<times> blocks" where
  "read_loop p [] n = ([], p, [])"
| "read_loop p (b # bs) n =
     (if n = 0 then ([], p, b # bs)
      else
        let xs = Copy n b;
            (_, b1) = PopFront (length xs) b;
            (p1, kept) = keep_or_release b1 p;
            (ys, p2, bs1) = read_loop p1 bs (n - length xs)
        in (xs @ ys, p2, kept @ bs1))"

definition IOQueue_Read :: "nat \<Rightarrow> memory_pool \<times> blocks \<Rightarrow> bytes \<times> memory_pool \<times> blocks" where
  "IOQueue_Read n q = read_loop (fst q) (snd q) n"

text \<open>The reading of a string copies the bytes but does not remove them.\<close>

fun read_string_loop :: "memory_pool \<Rightarrow> blocks \<Rightarrow> nat \<Rightarrow> bytes \<times> memory_pool \<times> blocks" where
  "read_string_loop p [] bytes_remaining = ([], p, [])"
| "read_string_loop p (b # bs) bytes_remaining =
     (if bytes_remaining = 0 then ([], p, b # bs)
      else
        let bytes_to_copy = min (block_Size b) bytes_remaining;
            (p1, kept) = keep_or_release b p;
            (ys, p2, bs1) = read_string_loop p1 bs (bytes_remaining - bytes_to_copy)
        in (take bytes_to_copy (drop (m_first b) (blk_data b)) @ ys, p2, kept @ bs1))"

definition IOQueue_ReadString :: "nat \<Rightarrow> memory_pool \<times> blocks \<Rightarrow> bytes \<times> memory_pool \<times> blocks" where
  "IOQueue_ReadString n q = read_string_loop (fst q) (snd q) n"

fun Peek_loop :: "blocks \<Rightarrow> nat \<Rightarrow> bytes" where
  "Peek_loop [] n = []"
| "Peek_loop (b # bs) n = (if n = 0 then [] else let xs = Copy n b in xs @ Peek_loop bs (n - length xs))"

definition IOQueue_Peek :: "nat \<Rightarrow> blocks \<Rightarrow> bytes" where
  "IOQueue_Peek n bs = Peek_loop bs n"

fun pop_loop :: "memory_pool \<Rightarrow> blocks \<Rightarrow> nat \<Rightarrow> memory_pool \<times> blocks" where
  "pop_loop p [] n = (p, [])"
| "pop_loop p (b # bs) n =
     (if n = 0 then (p, b # bs)
      else
        let (k, b1) = PopFront n b;
            (p1, kept) = keep_or_release b1 p;
            (p2, bs1) = pop_loop p1 bs (n - k)
        in (p2, kept @ bs1))"

definition IOQueue_Pop :: "nat \<Rightarrow> memory_pool \<times> blocks \<Rightarrow> memory_pool \<times> blocks" where
  "IOQueue_Pop n q = pop_loop (fst q) (snd q) n"

text \<open>The entries of the \<open>iovec\<close> array: the bytes each of them points to.\<close>

definition IOQueue_AsIOVec :: "blocks \<Rightarrow> bytes list" where
  "IOQueue_AsIOVec bs = map block_Data bs"

definition IOQueue_AppendBlock :: "memory_block \<Rightarrow> blocks \<Rightarrow> blocks" where
  "IOQueue_AppendBlock b bs = bs @ [b]"

definition IOQueue_Clear :: "memory_pool \<times> blocks \<Rightarrow> memory_pool \<times> blocks" where
  "IOQueue_Clear q = (fold Release (snd q) (fst q), [])"

text \<open>The destructors return the blocks; an object that made its pool deletes it, with the free blocks.\<close>

definition delete_IOQueue :: "bool \<Rightarrow> memory_pool \<times> blocks \<Rightarrow> memory_pool option" where
  "delete_IOQueue m_delete_pool q =
     (let (p, _) = IOQueue_Clear q in if m_delete_pool then Purge 0 p else Some p)"

section \<open>IOStack\<close>

definition IOStack_Size :: "blocks \<Rightarrow> nat" where
  "IOStack_Size bs = sum_list (map block_Size bs)"

definition IOStack_Empty :: "blocks \<Rightarrow> bool" where
  "IOStack_Empty bs \<longleftrightarrow> bs = [] \<or> IOStack_Size bs = 0"

definition PrependBlock :: "memory_pool \<times> blocks \<Rightarrow> memory_pool \<times> blocks" where
  "PrependBlock = (\<lambda>(p, bs). let (b, p') = Allocate p in (p', SeekBack b # bs))"

text \<open>The end of the data is written first; \<open>data\<close> is what is left to write.\<close>

partial_function (option) prepend_loop :: "memory_pool \<times> blocks \<Rightarrow> bytes \<Rightarrow> (memory_pool \<times> blocks) option" where
  "prepend_loop s data =
     (let (n, b) = Prepend data (hd (snd s));
          s1 = (fst s, b # tl (snd s))
      in if n = length data then Some s1 else prepend_loop (PrependBlock s1) (take (length data - n) data))"

declare prepend_loop.simps [code]

definition IOStack_Write :: "bytes \<Rightarrow> memory_pool \<times> blocks \<Rightarrow> (memory_pool \<times> blocks) option" where
  "IOStack_Write data s = prepend_loop (if snd s = [] then PrependBlock s else s) data"

text \<open>The loops of \<open>Read\<close> and \<open>Pop\<close> are those of the queue.\<close>

definition IOStack_Read :: "nat \<Rightarrow> memory_pool \<times> blocks \<Rightarrow> bytes \<times> memory_pool \<times> blocks" where
  "IOStack_Read n s = read_loop (fst s) (snd s) n"

definition IOStack_ReadString :: "nat \<Rightarrow> memory_pool \<times> blocks \<Rightarrow> bytes \<times> memory_pool \<times> blocks" where
  "IOStack_ReadString n s = read_string_loop (fst s) (snd s) n"

definition IOStack_AsIOVec :: "blocks \<Rightarrow> bytes list" where
  "IOStack_AsIOVec bs = map block_Data bs"

definition IOStack_Pop :: "nat \<Rightarrow> memory_pool \<times> blocks \<Rightarrow> memory_pool \<times> blocks" where
  "IOStack_Pop n s = pop_loop (fst s) (snd s) n"

text \<open>The blocks of the stack go to the end of the queue; the second part of the result is the emptied stack.\<close>

definition MoveToIOQueue :: "blocks \<Rightarrow> blocks \<Rightarrow> blocks \<times> blocks" where
  "MoveToIOQueue stack queue = (fold IOQueue_AppendBlock stack queue, [])"

definition delete_IOStack :: "bool \<Rightarrow> memory_pool \<times> blocks \<Rightarrow> memory_pool option" where
  "delete_IOStack m_delete_pool s =
     (let p = fold Release (snd s) (fst s) in if m_delete_pool then Purge 0 p else Some p)"

section \<open>MemoryBuffer\<close>

record memory_buffer =
  buf_data :: bytes
  m_cursor :: nat

definition MemoryBuffer :: "bytes \<Rightarrow> memory_buffer" where
  "MemoryBuffer data = \<lparr>buf_data = data, m_cursor = 0\<rparr>"

definition MemoryBuffer_Read :: "nat \<Rightarrow> memory_buffer \<Rightarrow> bytes \<times> memory_buffer" where
  "MemoryBuffer_Read len b =
     (let data_size = min (length (buf_data b) - m_cursor b) len
      in (take data_size (drop (m_cursor b) (buf_data b)), b\<lparr>m_cursor := m_cursor b + data_size\<rparr>))"

definition MemoryBuffer_ReadString :: "nat \<Rightarrow> memory_buffer \<Rightarrow> bytes \<times> memory_buffer" where
  "MemoryBuffer_ReadString len b =
     (let data_size = min (length (buf_data b) - m_cursor b) len
      in (take data_size (drop (m_cursor b) (buf_data b)), b\<lparr>m_cursor := m_cursor b + data_size\<rparr>))"

end
