(* ===== verification/IO_Facts.thy ===== *)
theory IO_Facts
  imports IO_Buffer
begin

text \<open>
  The functional behaviour of memory blocks, queues and stacks: a well-formed chain of blocks holds the concatenation of
  its blocks' bytes, writes add to one end of it and reads and pops remove from the front. Writing ends whatever the
  free list holds, as long as blocks have a size.
\<close>

named_theorems io_simps

section \<open>Blocks\<close>

definition wf_block :: "memory_block \<Rightarrow> bool" where
  "wf_block b \<longleftrightarrow> m_first b \<le> m_last b \<and> m_last b \<le> Capacity b"

lemma length_block_Data [simp]: "wf_block b \<Longrightarrow> length (block_Data b) = block_Size b"
  by (auto simp: wf_block_def block_Data_def block_Size_def Capacity_def)

lemma block_Data_empty [simp]: "block_Empty b \<Longrightarrow> block_Data b = []"
  by (simp add: block_Empty_def block_Data_def block_Size_def)

lemma Copy_Data: "Copy n b = take n (block_Data b)"
  by (simp add: Copy_def block_Data_def)

lemma wf_MemoryBlock [simp]: "wf_block (MemoryBlock xs)"
  by (simp add: wf_block_def MemoryBlock_def)

lemma MemoryBlock_empty [simp]: "block_Empty (MemoryBlock xs)"
  by (simp add: block_Empty_def MemoryBlock_def)

lemma SeekBack_laws [simp]:
  "wf_block (SeekBack b)" "block_Empty (SeekBack b)" "Capacity (SeekBack b) = Capacity b"
  "m_first (SeekBack b) = Capacity b"
  by (simp_all add: wf_block_def SeekBack_def block_Empty_def Capacity_def)

lemma drop_take_memcpy_at:
  assumes "f \<le> l" "l + length xs \<le> length dst"
  shows "take (l + length xs - f) (drop f (memcpy_at dst l xs)) = take (l - f) (drop f dst) @ xs"
  using assms by (simp add: memcpy_at_def drop_take)

lemma Append_laws:
  assumes "wf_block b" and A: "Append data b = (n, b')"
  shows "n = min (length data) (Capacity b - m_last b)" "n \<le> length data" "wf_block b'"
    "block_Data b' = block_Data b @ take n data" "Capacity b' = Capacity b" "m_last b' = m_last b + n"
proof -
  let ?n = "min (length data) (Capacity b - m_last b)"
  have n: "n = ?n"
    and b': "b' = b\<lparr>blk_data := memcpy_at (blk_data b) (m_last b) (take ?n data), m_last := m_last b + ?n\<rparr>"
    using A by (auto simp: Append_def Let_def)
  have fit: "m_first b \<le> m_last b" "m_last b + length (take ?n data) \<le> length (blk_data b)"
    using assms(1) by (auto simp: wf_block_def Capacity_def)
  show "n = ?n" and "n \<le> length data" using n by simp_all
  show "Capacity b' = Capacity b" using fit b' by (simp add: Capacity_def)
  then show "wf_block b'" using assms(1) b' by (auto simp: wf_block_def)
  show "m_last b' = m_last b + n" using b' n by simp
  have "block_Data b' =
      take (m_last b + length (take ?n data) - m_first b) (drop (m_first b) (memcpy_at (blk_data b) (m_last b) (take ?n data)))"
    by (simp add: b' block_Data_def block_Size_def)
  also have "\<dots> = block_Data b @ take ?n data"
    by (simp only: drop_take_memcpy_at [OF fit] block_Data_def block_Size_def)
  finally show "block_Data b' = block_Data b @ take n data" using n by simp
qed

lemma drop_memcpy_at_front:
  assumes "length xs \<le> f" "f \<le> l" "l \<le> length dst"
  shows "take (l - (f - length xs)) (drop (f - length xs) (memcpy_at dst (f - length xs) xs)) = xs @ take (l - f) (drop f dst)"
  using assms by (simp add: memcpy_at_def)

lemma Prepend_laws:
  assumes "wf_block b" and P: "Prepend data b = (n, b')"
  shows "n = min (length data) (m_first b)" "n \<le> length data" "wf_block b'"
    "block_Data b' = drop (length data - n) data @ block_Data b" "Capacity b' = Capacity b"
proof -
  let ?n = "min (length data) (m_first b)" and ?xs = "drop (length data - min (length data) (m_first b)) data"
  have n: "n = ?n"
    and b': "b' = b\<lparr>blk_data := memcpy_at (blk_data b) (m_first b - ?n) ?xs, m_first := m_first b - ?n\<rparr>"
    using P by (auto simp: Prepend_def Let_def)
  have xs: "length ?xs = ?n" by simp
  have fit: "length ?xs \<le> m_first b" "m_first b \<le> m_last b" "m_last b \<le> length (blk_data b)"
    using assms(1) by (auto simp: wf_block_def Capacity_def)
  show "n = ?n" and "n \<le> length data" using n by simp_all
  show "Capacity b' = Capacity b" using fit b' xs by (simp add: Capacity_def)
  then show "wf_block b'" using assms(1) b' by (auto simp: wf_block_def)
  have "block_Data b' =
      take (m_last b - (m_first b - length ?xs)) (drop (m_first b - length ?xs) (memcpy_at (blk_data b) (m_first b - length ?xs) ?xs))"
    by (simp add: b' block_Data_def block_Size_def xs del: length_drop)
  also have "\<dots> = ?xs @ block_Data b"
    by (simp only: drop_memcpy_at_front [OF fit] block_Data_def block_Size_def)
  finally show "block_Data b' = drop (length data - n) data @ block_Data b" using n by simp
qed

lemma PopFront_laws:
  assumes "wf_block b" and P: "PopFront n b = (k, b')"
  shows "k = min n (length (block_Data b))" "wf_block b'" "block_Data b' = drop n (block_Data b)"
    "Capacity b' = Capacity b" "block_Empty b' \<longleftrightarrow> block_Data b' = []" "m_last b' = m_last b"
proof -
  have k: "k = min n (block_Size b)" and b': "b' = b\<lparr>m_first := m_first b + min n (block_Size b)\<rparr>"
    using P by (auto simp: PopFront_def Let_def)
  show "k = min n (length (block_Data b))" using assms(1) k by simp
  show wf': "wf_block b'" using assms(1) b' by (auto simp: wf_block_def Capacity_def block_Size_def)
  show "block_Data b' = drop n (block_Data b)"
    using b' by (auto simp: block_Data_def block_Size_def drop_take min_def ac_simps)
  show "Capacity b' = Capacity b" "m_last b' = m_last b" using b' by (simp_all add: Capacity_def)
  have "block_Data b' = [] \<longleftrightarrow> block_Size b' = 0" using wf' by (simp flip: length_0_conv)
  then show "block_Empty b' \<longleftrightarrow> block_Data b' = []"
    using wf' by (auto simp: block_Empty_def block_Size_def wf_block_def)
qed

section \<open>Chains of blocks\<close>

definition contents :: "blocks \<Rightarrow> bytes" where
  "contents bs = concat (map block_Data bs)"

text \<open>The blocks of a pool and of the chains that use it have its size; a clean pool has only empty blocks.\<close>

definition pool_ok :: "memory_pool \<Rightarrow> bool" where
  "pool_ok p \<longleftrightarrow> 0 < m_block_size p \<and> (\<forall>b \<in> set (m_free_blocks p). wf_block b \<and> Capacity b = m_block_size p)"

definition clean :: "memory_pool \<Rightarrow> bool" where
  "clean p \<longleftrightarrow> (\<forall>b \<in> set (m_free_blocks p). block_Empty b)"

definition chain_ok :: "memory_pool \<Rightarrow> blocks \<Rightarrow> bool" where
  "chain_ok p bs \<longleftrightarrow> (\<forall>b \<in> set bs. wf_block b \<and> Capacity b = m_block_size p)"

definition queue_ok :: "memory_pool \<times> blocks \<Rightarrow> bool" where
  "queue_ok q \<longleftrightarrow> pool_ok (fst q) \<and> chain_ok (fst q) (snd q)"

text \<open>The step from one pool and chain to another loses and duplicates no block.\<close>

definition balanced :: "memory_pool \<times> blocks \<Rightarrow> memory_pool \<times> blocks \<Rightarrow> bool" where
  "balanced q q' \<longleftrightarrow>
     m_block_size (fst q') = m_block_size (fst q) \<and>
     length (m_free_blocks (fst q')) + length (snd q') + m_blocks_allocated (fst q) =
     length (m_free_blocks (fst q)) + length (snd q) + m_blocks_allocated (fst q')"

lemma balanced_refl [simp]: "balanced q q"
  by (simp add: balanced_def)

lemma balanced_trans: "balanced q1 q2 \<Longrightarrow> balanced q2 q3 \<Longrightarrow> balanced q1 q3"
  by (simp add: balanced_def)

lemma contents_simps [simp]:
  "contents [] = []" "contents (b # bs) = block_Data b @ contents bs" "contents (bs @ cs) = contents bs @ contents cs"
  by (simp_all add: contents_def)

lemma chain_ok_simps [simp]:
  "chain_ok p []" "chain_ok p (b # bs) \<longleftrightarrow> (wf_block b \<and> Capacity b = m_block_size p) \<and> chain_ok p bs"
  "chain_ok p (bs @ cs) \<longleftrightarrow> chain_ok p bs \<and> chain_ok p cs"
  by (auto simp: chain_ok_def)

lemma Size_contents: "chain_ok p bs \<Longrightarrow> IOQueue_Size bs = length (contents bs)"
  by (induction bs) (simp_all add: IOQueue_Size_def)

lemma Allocate_laws:
  assumes "pool_ok p" and A: "Allocate p = (b, p')"
  shows "pool_ok p'" "wf_block b" "Capacity b = m_block_size p" "m_block_size p' = m_block_size p"
    "clean p \<Longrightarrow> clean p' \<and> block_Empty b"
    "length (m_free_blocks p') + 1 + m_blocks_allocated p = length (m_free_blocks p) + m_blocks_allocated p'"
    "length (m_free_blocks p') = length (m_free_blocks p) - 1"
    "m_free_blocks p = [] \<Longrightarrow> m_last b = 0"
  using assms by (auto simp: Allocate_def pool_ok_def clean_def MemoryBlock_def wf_block_def Capacity_def
      block_Empty_def split: list.splits)

lemma AppendBlock_laws:
  assumes "queue_ok q" and A: "AppendBlock q = q'"
  shows "queue_ok q'" "balanced q q'" "snd q' \<noteq> []" "butlast (snd q') = snd q"
    "clean (fst q) \<Longrightarrow> clean (fst q') \<and> contents (snd q') = contents (snd q)"
    "length (m_free_blocks (fst q')) = length (m_free_blocks (fst q)) - 1"
    "m_free_blocks (fst q) = [] \<Longrightarrow> m_last (last (snd q')) = 0"
proof -
  obtain b p' where P: "Allocate (fst q) = (b, p')" by fastforce
  have q': "q' = (p', snd q @ [b])" using A P by (cases q) (simp add: AppendBlock_def)
  have ok: "pool_ok (fst q)" using assms(1) by (simp add: queue_ok_def)
  note L = Allocate_laws [OF ok P]
  show "queue_ok q'" using assms(1) L q' by (simp add: queue_ok_def chain_ok_def)
  show "balanced q q'" using L(4,6) q' by (simp add: balanced_def)
  show "snd q' \<noteq> []" "butlast (snd q') = snd q" using q' by simp_all
  show "clean (fst q) \<Longrightarrow> clean (fst q') \<and> contents (snd q') = contents (snd q)" using L(5) q' by simp
  show "length (m_free_blocks (fst q')) = length (m_free_blocks (fst q)) - 1" using L(7) q' by simp
  show "m_free_blocks (fst q) = [] \<Longrightarrow> m_last (last (snd q')) = 0" using L(8) q' by simp
qed

lemma PrependBlock_laws:
  assumes "queue_ok q" and A: "PrependBlock q = q'"
  shows "queue_ok q'" "balanced q q'" "snd q' \<noteq> []" "contents (snd q') = contents (snd q)"
    "clean (fst q) \<Longrightarrow> clean (fst q')" "m_first (hd (snd q')) = m_block_size (fst q)"
proof -
  obtain b p' where P: "Allocate (fst q) = (b, p')" by fastforce
  have q': "q' = (p', SeekBack b # snd q)" using A P by (cases q) (simp add: PrependBlock_def)
  have ok: "pool_ok (fst q)" using assms(1) by (simp add: queue_ok_def)
  note L = Allocate_laws [OF ok P]
  show "queue_ok q'" using assms(1) L q' by (simp add: queue_ok_def chain_ok_def)
  show "balanced q q'" using L(4,6) q' by (simp add: balanced_def)
  show "snd q' \<noteq> []" "contents (snd q') = contents (snd q)" using q' by simp_all
  show "clean (fst q) \<Longrightarrow> clean (fst q')" using L(5) q' by simp
  show "m_first (hd (snd q')) = m_block_size (fst q)" using L(3) q' by simp
qed

section \<open>Writing\<close>

text \<open>What is left to do in the loop of \<open>Write\<close>: the bytes, the free blocks, which may all be used up, and one more round
  when the last block is full.\<close>

definition write_measure :: "memory_pool \<times> blocks \<Rightarrow> bytes \<Rightarrow> nat" where
  "write_measure q data =
     length (m_free_blocks (fst q)) + length data +
     (if m_last (last (snd q)) = m_block_size (fst q) then 1 else 0)"

lemma write_step:
  assumes ok: "queue_ok q" and ne: "snd q \<noteq> []"
    and A: "Append data (last (snd q)) = (n, b)" and q1: "q1 = (fst q, butlast (snd q) @ [b])"
  shows "queue_ok q1" "balanced q q1" "contents (snd q1) = contents (snd q) @ take n data" "n \<le> length data"
    "n \<noteq> length data \<Longrightarrow> write_measure (AppendBlock q1) (drop n data) < write_measure q data"
proof -
  obtain bs c where bs: "snd q = bs @ [c]" using ne by (metis append_butlast_last_id)
  have c: "wf_block c" "Capacity c = m_block_size (fst q)" using ok bs by (auto simp: queue_ok_def)
  have "Append data c = (n, b)" using A bs by simp
  note L = Append_laws [OF c(1) this]
  show ok1: "queue_ok q1" using ok bs L(3,5) c q1 by (simp add: queue_ok_def)
  show "balanced q q1" using bs q1 by (simp add: balanced_def)
  show "contents (snd q1) = contents (snd q) @ take n data" using bs q1 L(4) by simp
  show "n \<le> length data" by (rule L(2))
  assume "n \<noteq> length data"
  then have n: "n = m_block_size (fst q) - m_last c" "n < length data" using L(1,2) c(2) by auto
  note A = AppendBlock_laws [OF ok1 refl]
  have pos: "0 < m_block_size (fst q)" using ok by (simp add: queue_ok_def pool_ok_def)
  have size: "m_block_size (fst (AppendBlock q1)) = m_block_size (fst q)"
    using A(2) q1 by (simp add: balanced_def)
  show "write_measure (AppendBlock q1) (drop n data) < write_measure q data"
  proof (cases "m_free_blocks (fst q)")
    case Nil
    then have "m_last (last (snd (AppendBlock q1))) = 0" and "m_free_blocks (fst (AppendBlock q1)) = []"
      using A(6,7) q1 by auto
    then show ?thesis using n pos size bs c Nil by (auto simp: write_measure_def wf_block_def)
  next
    case (Cons x xs)
    then have "length (m_free_blocks (fst (AppendBlock q1))) = length xs" using A(6) q1 by simp
    then show ?thesis using n bs c Cons by (auto simp: write_measure_def wf_block_def)
  qed
qed

text \<open>The loop ends, and what it promises.\<close>

lemma write_loop_total:
  assumes "queue_ok q" "snd q \<noteq> []"
  shows "\<exists>q'. write_loop q data = Some q' \<and> queue_ok q' \<and> balanced q q' \<and>
    (clean (fst q) \<longrightarrow> clean (fst q') \<and> contents (snd q') = contents (snd q) @ data)"
  using assms
proof (induction "write_measure q data" arbitrary: q data rule: less_induct)
  case less
  obtain n b where A: "Append data (last (snd q)) = (n, b)" by fastforce
  define q1 where q1: "q1 = (fst q, butlast (snd q) @ [b])"
  note W = write_step [OF less.prems A q1]
  have step: "write_loop q data = (if n = length data then Some q1 else write_loop (AppendBlock q1) (drop n data))"
    by (subst write_loop.simps) (simp add: A q1)
  show ?case
  proof (cases "n = length data")
    case True
    then show ?thesis using step W q1 by simp
  next
    case False
    note A1 = AppendBlock_laws [OF W(1) refl]
    obtain q' where q': "write_loop (AppendBlock q1) (drop n data) = Some q'" "queue_ok q'"
        "balanced (AppendBlock q1) q'"
        "clean (fst (AppendBlock q1)) \<longrightarrow>
           clean (fst q') \<and> contents (snd q') = contents (snd (AppendBlock q1)) @ drop n data"
      using less.hyps [OF W(5) [OF False] A1(1) A1(3)] by blast
    have "balanced q q'" using W(2) A1(2) q'(3) by (blast intro: balanced_trans)
    moreover have "fst q1 = fst q" using q1 by simp
    then have "clean (fst q) \<Longrightarrow> clean (fst q') \<and> contents (snd q') = contents (snd q) @ data"
      using A1(5) q'(4) W(3) by simp
    ultimately show ?thesis using step False q' by simp
  qed
qed

lemma IOQueue_Write_total:
  assumes "queue_ok q"
  obtains q' where "IOQueue_Write data q = Some q'" "queue_ok q'" "balanced q q'"
    "clean (fst q) \<Longrightarrow> clean (fst q') \<and> contents (snd q') = contents (snd q) @ data"
proof -
  define r where "r = (if snd q = [] then AppendBlock q else q)"
  have r: "queue_ok r" "snd r \<noteq> []" "balanced q r"
    "clean (fst q) \<Longrightarrow> clean (fst r) \<and> contents (snd r) = contents (snd q)"
    using assms AppendBlock_laws [OF assms refl] by (auto simp: r_def)
  obtain q' where "write_loop r data = Some q'" "queue_ok q'" "balanced r q'"
      "clean (fst r) \<longrightarrow> clean (fst q') \<and> contents (snd q') = contents (snd r) @ data"
    using write_loop_total [OF r(1,2)] by blast
  then show thesis
    using that [of q'] r(3,4) by (auto simp: IOQueue_Write_def r_def intro: balanced_trans)
qed

lemma prepend_step:
  assumes ok: "queue_ok s" and ne: "snd s \<noteq> []"
    and P: "Prepend data (hd (snd s)) = (n, b)" and s1: "s1 = (fst s, b # tl (snd s))"
  shows "queue_ok s1" "balanced s s1" "contents (snd s1) = drop (length data - n) data @ contents (snd s)"
    "n = min (length data) (m_first (hd (snd s)))"
proof -
  obtain bs c where bs: "snd s = c # bs" using ne by (cases "snd s") auto
  have c: "wf_block c" "Capacity c = m_block_size (fst s)" using ok bs by (auto simp: queue_ok_def)
  have "Prepend data c = (n, b)" using P bs by simp
  note L = Prepend_laws [OF c(1) this]
  show "queue_ok s1" using ok bs L(3,5) c s1 by (simp add: queue_ok_def)
  show "balanced s s1" using bs s1 by (simp add: balanced_def)
  show "contents (snd s1) = drop (length data - n) data @ contents (snd s)" using bs s1 L(4) by simp
  show "n = min (length data) (m_first (hd (snd s)))" using bs L(1) by simp
qed

text \<open>The loop of the stack's \<open>Write\<close> ends too: after the first round every round writes a whole block.\<close>

lemma prepend_loop_total:
  assumes "queue_ok s" "snd s \<noteq> []"
  shows "\<exists>s'. prepend_loop s data = Some s' \<and> queue_ok s' \<and> balanced s s' \<and>
    contents (snd s') = data @ contents (snd s) \<and> (clean (fst s) \<longrightarrow> clean (fst s'))"
  using assms
proof (induction "2 * length data + (if m_first (hd (snd s)) = 0 then 1 else 0)" arbitrary: s data rule: less_induct)
  case less
  obtain n b where P: "Prepend data (hd (snd s)) = (n, b)" by fastforce
  define s1 where s1: "s1 = (fst s, b # tl (snd s))"
  note W = prepend_step [OF less.prems P s1]
  have step: "prepend_loop s data =
      (if n = length data then Some s1 else prepend_loop (PrependBlock s1) (take (length data - n) data))"
    by (subst prepend_loop.simps) (simp add: P s1)
  have fst1: "fst s1 = fst s" using s1 by simp
  show ?case
  proof (cases "n = length data")
    case True
    then show ?thesis using step W fst1 by simp
  next
    case False
    note A = PrependBlock_laws [OF W(1) refl]
    have "0 < m_block_size (fst s1)" using W(1) by (simp add: queue_ok_def pool_ok_def)
    then have "m_first (hd (snd (PrependBlock s1))) \<noteq> 0" using A(6) by simp
    moreover have "n < length data" "n = m_first (hd (snd s))" using W(4) False by auto
    ultimately have small: "2 * length (take (length data - n) data) + (if m_first (hd (snd (PrependBlock s1))) = 0 then 1 else 0)
        < 2 * length data + (if m_first (hd (snd s)) = 0 then 1 else 0)" by auto
    obtain s' where s': "prepend_loop (PrependBlock s1) (take (length data - n) data) = Some s'" "queue_ok s'"
        "balanced (PrependBlock s1) s'"
        "contents (snd s') = take (length data - n) data @ contents (snd (PrependBlock s1))"
        "clean (fst (PrependBlock s1)) \<longrightarrow> clean (fst s')"
      using less.hyps [OF small A(1) A(3)] by blast
    have "balanced s s'" using W(2) A(2) s'(3) by (blast intro: balanced_trans)
    moreover have "contents (snd s') = data @ contents (snd s)" using s'(4) A(4) W(3) by simp
    moreover have "clean (fst s) \<longrightarrow> clean (fst s')" using A(5) s'(5) fst1 by simp
    ultimately show ?thesis using step False s' by simp
  qed
qed

lemma IOStack_Write_total:
  assumes "queue_ok s"
  obtains s' where "IOStack_Write data s = Some s'" "queue_ok s'" "balanced s s'"
    "contents (snd s') = data @ contents (snd s)" "clean (fst s) \<Longrightarrow> clean (fst s')"
proof -
  define r where "r = (if snd s = [] then PrependBlock s else s)"
  have r: "queue_ok r" "snd r \<noteq> []" "balanced s r" "contents (snd r) = contents (snd s)"
    "clean (fst s) \<Longrightarrow> clean (fst r)"
    using assms PrependBlock_laws [OF assms refl] by (auto simp: r_def)
  obtain s' where "prepend_loop r data = Some s'" "queue_ok s'" "balanced r s'"
      "contents (snd s') = data @ contents (snd r)" "clean (fst r) \<longrightarrow> clean (fst s')"
    using prepend_loop_total [OF r(1,2)] by blast
  then show thesis
    using that [of s'] r(3-5) by (auto simp: IOStack_Write_def r_def intro: balanced_trans)
qed

section \<open>Reading\<close>

lemma keep_or_release_laws:
  assumes "pool_ok p" "wf_block b" "Capacity b = m_block_size p" and K: "keep_or_release b p = (p', kept)"
  shows "pool_ok p'" "chain_ok p' kept" "contents kept = block_Data b" "clean p \<Longrightarrow> clean p'"
    "m_block_size p' = m_block_size p" "m_blocks_allocated p' = m_blocks_allocated p"
    "length (m_free_blocks p') + length kept = length (m_free_blocks p) + 1"
  using assms by (auto simp: keep_or_release_def Release_def pool_ok_def clean_def split: if_splits)

lemma chain_ok_cong: "m_block_size p' = m_block_size p \<Longrightarrow> chain_ok p' bs = chain_ok p bs"
  by (simp add: chain_ok_def)

lemma pop_loop_laws:
  assumes "pool_ok p" "chain_ok p bs" "pop_loop p bs n = (p', bs')"
  shows "pool_ok p' \<and> chain_ok p' bs' \<and> contents bs' = drop n (contents bs) \<and> (clean p \<longrightarrow> clean p') \<and>
    balanced (p, bs) (p', bs') \<and> m_blocks_allocated p' = m_blocks_allocated p"
  using assms
proof (induction bs arbitrary: p n p' bs')
  case Nil
  then show ?case by simp
next
  case (Cons b bs)
  show ?case
  proof (cases "n = 0")
    case True
    then show ?thesis using Cons.prems by auto
  next
    case False
    obtain k b1 where F: "PopFront n b = (k, b1)" by fastforce
    obtain p1 kept where K: "keep_or_release b1 p = (p1, kept)" by fastforce
    obtain p2 bs1 where R: "pop_loop p1 bs (n - k) = (p2, bs1)" by fastforce
    have res: "p' = p2" "bs' = kept @ bs1" using Cons.prems(3) False F K R by simp_all
    have b: "wf_block b" "Capacity b = m_block_size p" and bs: "chain_ok p bs" using Cons.prems(2) by simp_all
    note L = PopFront_laws [OF b(1) F]
    note M = keep_or_release_laws [OF Cons.prems(1) L(2) trans [OF L(4) b(2)] K]
    have I: "pool_ok p2 \<and> chain_ok p2 bs1 \<and> contents bs1 = drop (n - k) (contents bs) \<and> (clean p1 \<longrightarrow> clean p2) \<and>
        balanced (p1, bs) (p2, bs1) \<and> m_blocks_allocated p2 = m_blocks_allocated p1"
      using Cons.IH [OF M(1) _ R] bs chain_ok_cong [OF M(5)] by simp
    then have size: "m_block_size p2 = m_block_size p1" by (simp add: balanced_def)
    have "contents bs' = drop n (contents (b # bs))"
      using I M(3) L(1,3) res by (simp add: min_def)
    moreover have "balanced (p, b # bs) (p', bs')" using I M(5-7) res by (simp add: balanced_def)
    ultimately show ?thesis using I M res chain_ok_cong [OF size] by simp
  qed
qed

text \<open>A read takes from the front what a pop of the same length removes.\<close>

lemma read_loop_pop:
  assumes "chain_ok p bs"
  shows "read_loop p bs n = (take n (contents bs), pop_loop p bs n)"
  using assms
proof (induction bs arbitrary: p n)
  case Nil
  then show ?case by simp
next
  case (Cons b bs)
  have wf: "wf_block b" and bs: "chain_ok p bs" using Cons.prems by simp_all
  obtain k b1 where F: "PopFront n b = (k, b1)" by fastforce
  obtain p1 kept where K: "keep_or_release b1 p = (p1, kept)" by fastforce
  note L = PopFront_laws [OF wf F]
  have copy: "length (Copy n b) = k" using L(1) by (simp add: Copy_Data min.commute)
  have F': "PopFront (length (Copy n b)) b = (k, b1)"
    using F wf by (auto simp: PopFront_def Let_def Copy_Data min_def)
  have "m_block_size p1 = m_block_size p" using K by (auto simp: keep_or_release_def Release_def split: if_splits)
  then have "chain_ok p1 bs" using bs chain_ok_cong by blast
  note IH = Cons.IH [OF this]
  show ?case
    using L(1) F' K IH [of "n - k"] copy
    by (cases "n = 0") (simp_all add: F Copy_Data min_def split: prod.split)
qed

lemma Peek_contents:
  "chain_ok p bs \<Longrightarrow> IOQueue_Peek n bs = take n (contents bs)"
  unfolding IOQueue_Peek_def by (induction bs arbitrary: n) (simp_all add: Copy_Data min_def)

lemma Pop_laws:
  assumes "queue_ok q" and "IOQueue_Pop n q = q'"
  shows "queue_ok q'" "balanced q q'" "contents (snd q') = drop n (contents (snd q))" "clean (fst q) \<Longrightarrow> clean (fst q')"
  using pop_loop_laws [of "fst q" "snd q" n "fst q'" "snd q'"] assms
  by (simp_all add: queue_ok_def IOQueue_Pop_def)

lemma Read_pop: "queue_ok q \<Longrightarrow> IOQueue_Read n q = (take n (contents (snd q)), IOQueue_Pop n q)"
  by (simp add: queue_ok_def IOQueue_Read_def IOQueue_Pop_def read_loop_pop)

lemma stack_as_queue:
  "IOStack_Read n s = IOQueue_Read n s" "IOStack_Pop n s = IOQueue_Pop n s"
  by (simp_all add: IOStack_Read_def IOQueue_Read_def IOStack_Pop_def IOQueue_Pop_def)

lemma Clear_laws:
  assumes "queue_ok q" and C: "IOQueue_Clear q = q'"
  shows "queue_ok q'" "balanced q q'" "snd q' = []"
    "clean (fst q) \<Longrightarrow> contents (snd q) = [] \<Longrightarrow> clean (fst q')"
proof -
  have fold: "fold Release bs p = p\<lparr>m_free_blocks := m_free_blocks p @ bs\<rparr>" for bs p
    by (induction bs arbitrary: p) (simp_all add: Release_def)
  have q': "q' = ((fst q)\<lparr>m_free_blocks := m_free_blocks (fst q) @ snd q\<rparr>, [])"
    using C by (simp add: IOQueue_Clear_def fold)
  show "queue_ok q'" using assms(1) q' by (auto simp: queue_ok_def pool_ok_def chain_ok_def)
  show "balanced q q'" "snd q' = []" using q' by (simp_all add: balanced_def)
  assume "clean (fst q)" "contents (snd q) = []"
  moreover from this have "block_Empty b" if "b \<in> set (snd q)" for b
  proof -
    have "wf_block b" "block_Data b = []"
      using that assms(1) \<open>contents (snd q) = []\<close> by (auto simp: queue_ok_def chain_ok_def contents_def)
    then have "block_Size b = 0" by (metis length_block_Data list.size(3))
    then show ?thesis using \<open>wf_block b\<close> by (simp add: block_Empty_def block_Size_def wf_block_def)
  qed
  ultimately show "clean (fst q')" using q' by (auto simp: clean_def)
qed

end
