(* ===== verification/IO_Programs.thy ===== *)
theory IO_Programs
  imports IO_Facts
begin

text \<open>
  Programs that use several queues and stacks on one pool refine programs on byte strings: every operation returns what
  the byte strings say, whatever the free list of the pool holds. Two uses break this and are described by their own
  theorems: clearing a queue that still holds data, and reading a string.
\<close>

section \<open>Programs\<close>

datatype io_op =
    QueueWrite nat bytes | QueueRead nat nat | QueuePeek nat nat | QueuePop nat nat | QueueSize nat | QueueIOVec nat
  | QueueClear nat | StackWrite nat bytes | StackRead nat nat | StackPop nat nat | StackSize nat | StackIOVec nat
  | StackMove nat nat | PurgePool

datatype io_out = Bytes bytes | Count nat | Done

text \<open>One pool, with the chains of the queues and of the stacks that use it.\<close>

record io_system =
  sys_pool :: memory_pool
  sys_queues :: "blocks list"
  sys_stacks :: "blocks list"

definition on_queue ::
    "nat \<Rightarrow> (memory_pool \<times> blocks \<Rightarrow> (io_out \<times> memory_pool \<times> blocks) option) \<Rightarrow> io_system \<Rightarrow> (io_out \<times> io_system) option" where
  "on_queue i f s =
     (if i < length (sys_queues s) then
        map_option (\<lambda>(out, p, bs). (out, s\<lparr>sys_pool := p, sys_queues := (sys_queues s)[i := bs]\<rparr>))
          (f (sys_pool s, sys_queues s ! i))
      else None)"

definition on_stack ::
    "nat \<Rightarrow> (memory_pool \<times> blocks \<Rightarrow> (io_out \<times> memory_pool \<times> blocks) option) \<Rightarrow> io_system \<Rightarrow> (io_out \<times> io_system) option" where
  "on_stack i f s =
     (if i < length (sys_stacks s) then
        map_option (\<lambda>(out, p, bs). (out, s\<lparr>sys_pool := p, sys_stacks := (sys_stacks s)[i := bs]\<rparr>))
          (f (sys_pool s, sys_stacks s ! i))
      else None)"

fun run_io :: "io_op \<Rightarrow> io_system \<Rightarrow> (io_out \<times> io_system) option" where
  "run_io (QueueWrite i data) s = on_queue i (\<lambda>q. map_option (Pair Done) (IOQueue_Write data q)) s"
| "run_io (QueueRead i n) s = on_queue i (\<lambda>q. let (xs, q') = IOQueue_Read n q in Some (Bytes xs, q')) s"
| "run_io (QueuePeek i n) s = on_queue i (\<lambda>q. Some (Bytes (IOQueue_Peek n (snd q)), q)) s"
| "run_io (QueuePop i n) s = on_queue i (\<lambda>q. Some (Done, IOQueue_Pop n q)) s"
| "run_io (QueueSize i) s = on_queue i (\<lambda>q. Some (Count (IOQueue_Size (snd q)), q)) s"
| "run_io (QueueIOVec i) s = on_queue i (\<lambda>q. Some (Bytes (concat (IOQueue_AsIOVec (snd q))), q)) s"
| "run_io (QueueClear i) s = on_queue i (\<lambda>q. Some (Done, IOQueue_Clear q)) s"
| "run_io (StackWrite i data) s = on_stack i (\<lambda>q. map_option (Pair Done) (IOStack_Write data q)) s"
| "run_io (StackRead i n) s = on_stack i (\<lambda>q. let (xs, q') = IOStack_Read n q in Some (Bytes xs, q')) s"
| "run_io (StackPop i n) s = on_stack i (\<lambda>q. Some (Done, IOStack_Pop n q)) s"
| "run_io (StackSize i) s = on_stack i (\<lambda>q. Some (Count (IOStack_Size (snd q)), q)) s"
| "run_io (StackIOVec i) s = on_stack i (\<lambda>q. Some (Bytes (concat (IOStack_AsIOVec (snd q))), q)) s"
| "run_io (StackMove j i) s =
     (if i < length (sys_queues s) \<and> j < length (sys_stacks s) then
        let (queue, stack) = MoveToIOQueue (sys_stacks s ! j) (sys_queues s ! i)
        in Some (Done, s\<lparr>sys_queues := (sys_queues s)[i := queue], sys_stacks := (sys_stacks s)[j := stack]\<rparr>)
      else None)"
| "run_io PurgePool s = map_option (\<lambda>p. (Done, s\<lparr>sys_pool := p\<rparr>)) (Purge 0 (sys_pool s))"

section \<open>Byte strings\<close>

text \<open>The same operations on the strings of bytes in the queues and stacks.\<close>

type_synonym byte_strings = "bytes list \<times> bytes list"

fun spec_io :: "io_op \<Rightarrow> byte_strings \<Rightarrow> io_out \<times> byte_strings" where
  "spec_io (QueueWrite i data) (qs, ss) = (Done, qs[i := qs ! i @ data], ss)"
| "spec_io (QueueRead i n) (qs, ss) = (Bytes (take n (qs ! i)), qs[i := drop n (qs ! i)], ss)"
| "spec_io (QueuePeek i n) (qs, ss) = (Bytes (take n (qs ! i)), qs, ss)"
| "spec_io (QueuePop i n) (qs, ss) = (Done, qs[i := drop n (qs ! i)], ss)"
| "spec_io (QueueSize i) (qs, ss) = (Count (length (qs ! i)), qs, ss)"
| "spec_io (QueueIOVec i) (qs, ss) = (Bytes (qs ! i), qs, ss)"
| "spec_io (QueueClear i) (qs, ss) = (Done, qs[i := []], ss)"
| "spec_io (StackWrite i data) (qs, ss) = (Done, qs, ss[i := data @ ss ! i])"
| "spec_io (StackRead i n) (qs, ss) = (Bytes (take n (ss ! i)), qs, ss[i := drop n (ss ! i)])"
| "spec_io (StackPop i n) (qs, ss) = (Done, qs, ss[i := drop n (ss ! i)])"
| "spec_io (StackSize i) (qs, ss) = (Count (length (ss ! i)), qs, ss)"
| "spec_io (StackIOVec i) (qs, ss) = (Bytes (ss ! i), qs, ss)"
| "spec_io (StackMove j i) (qs, ss) = (Done, qs[i := qs ! i @ ss ! j], ss[j := []])"
| "spec_io PurgePool (qs, ss) = (Done, qs, ss)"

text \<open>A program names only buffers there are; a careful program clears a queue only when it has read everything.\<close>

fun names_buffers :: "io_op \<Rightarrow> nat \<Rightarrow> nat \<Rightarrow> bool" where
  "names_buffers (QueueWrite i data) queues stacks \<longleftrightarrow> i < queues"
| "names_buffers (QueueRead i n) queues stacks \<longleftrightarrow> i < queues"
| "names_buffers (QueuePeek i n) queues stacks \<longleftrightarrow> i < queues"
| "names_buffers (QueuePop i n) queues stacks \<longleftrightarrow> i < queues"
| "names_buffers (QueueSize i) queues stacks \<longleftrightarrow> i < queues"
| "names_buffers (QueueIOVec i) queues stacks \<longleftrightarrow> i < queues"
| "names_buffers (QueueClear i) queues stacks \<longleftrightarrow> i < queues"
| "names_buffers (StackWrite i data) queues stacks \<longleftrightarrow> i < stacks"
| "names_buffers (StackRead i n) queues stacks \<longleftrightarrow> i < stacks"
| "names_buffers (StackPop i n) queues stacks \<longleftrightarrow> i < stacks"
| "names_buffers (StackSize i) queues stacks \<longleftrightarrow> i < stacks"
| "names_buffers (StackIOVec i) queues stacks \<longleftrightarrow> i < stacks"
| "names_buffers (StackMove j i) queues stacks \<longleftrightarrow> i < queues \<and> j < stacks"
| "names_buffers PurgePool queues stacks \<longleftrightarrow> True"

fun careful_io :: "io_op \<Rightarrow> byte_strings \<Rightarrow> bool" where
  "careful_io (QueueClear i) t \<longleftrightarrow> fst t ! i = []"
| "careful_io c t \<longleftrightarrow> True"

fun run_ios :: "io_op list \<Rightarrow> io_system \<Rightarrow> (io_out list \<times> io_system) option" where
  "run_ios [] s = Some ([], s)"
| "run_ios (c # cs) s = do { (out, s1) \<leftarrow> run_io c s; (outs, s2) \<leftarrow> run_ios cs s1; Some (out # outs, s2) }"

fun spec_ios :: "io_op list \<Rightarrow> byte_strings \<Rightarrow> io_out list \<times> byte_strings" where
  "spec_ios [] t = ([], t)"
| "spec_ios (c # cs) t = (let (out, t1) = spec_io c t; (outs, t2) = spec_ios cs t1 in (out # outs, t2))"

fun careful_ios :: "io_op list \<Rightarrow> byte_strings \<Rightarrow> bool" where
  "careful_ios [] t \<longleftrightarrow> True"
| "careful_ios (c # cs) t \<longleftrightarrow> careful_io c t \<and> careful_ios cs (snd (spec_io c t))"

definition strings_of :: "io_system \<Rightarrow> byte_strings" where
  "strings_of s = (map contents (sys_queues s), map contents (sys_stacks s))"

section \<open>The invariant of the system\<close>

text \<open>Blocks have the size of the pool, and every block that was allocated is in the free list or in one chain.\<close>

definition sys_ok :: "io_system \<Rightarrow> bool" where
  "sys_ok s \<longleftrightarrow>
     pool_ok (sys_pool s) \<and> (\<forall>bs \<in> set (sys_queues s) \<union> set (sys_stacks s). chain_ok (sys_pool s) bs) \<and>
     m_blocks_allocated (sys_pool s) =
       length (m_free_blocks (sys_pool s)) + sum_list (map length (sys_queues s)) + sum_list (map length (sys_stacks s))"

lemma sum_length_update:
  "i < length xss \<Longrightarrow> sum_list (map length (xss[i := ys])) + length (xss ! i) = sum_list (map length xss) + length ys"
  by (induction xss arbitrary: i) (auto split: nat.split)

lemma queue_of_system: "sys_ok s \<Longrightarrow> i < length (sys_queues s) \<Longrightarrow> queue_ok (sys_pool s, sys_queues s ! i)"
  by (simp add: sys_ok_def queue_ok_def)

lemma stack_of_system: "sys_ok s \<Longrightarrow> i < length (sys_stacks s) \<Longrightarrow> queue_ok (sys_pool s, sys_stacks s ! i)"
  by (simp add: sys_ok_def queue_ok_def)

lemma chains_update:
  "\<forall>bs \<in> set xss. chain_ok p bs \<Longrightarrow> m_block_size p' = m_block_size p \<Longrightarrow> chain_ok p' ys \<Longrightarrow>
    \<forall>bs \<in> set (xss[i := ys]). chain_ok p' bs"
  using set_update_subset_insert [of xss i ys] chain_ok_cong [of p' p] by auto

lemma system_update_queue:
  assumes "sys_ok s" "i < length (sys_queues s)" "queue_ok (p, bs)" "balanced (sys_pool s, sys_queues s ! i) (p, bs)"
  shows "sys_ok (s\<lparr>sys_pool := p, sys_queues := (sys_queues s)[i := bs]\<rparr>)"
proof -
  have size: "m_block_size p = m_block_size (sys_pool s)" using assms(4) by (simp add: balanced_def)
  show ?thesis
    using assms size chains_update [of "sys_queues s" "sys_pool s" p bs i] chain_ok_cong [OF size]
      sum_length_update [OF assms(2), of bs]
    by (auto simp: sys_ok_def queue_ok_def balanced_def)
qed

lemma system_update_stack:
  assumes "sys_ok s" "i < length (sys_stacks s)" "queue_ok (p, bs)" "balanced (sys_pool s, sys_stacks s ! i) (p, bs)"
  shows "sys_ok (s\<lparr>sys_pool := p, sys_stacks := (sys_stacks s)[i := bs]\<rparr>)"
proof -
  have size: "m_block_size p = m_block_size (sys_pool s)" using assms(4) by (simp add: balanced_def)
  show ?thesis
    using assms size chains_update [of "sys_stacks s" "sys_pool s" p bs i] chain_ok_cong [OF size]
      sum_length_update [OF assms(2), of bs]
    by (auto simp: sys_ok_def queue_ok_def balanced_def)
qed

section \<open>Refinement\<close>

text \<open>The step from \<open>s\<close> to \<open>s'\<close> keeps the invariant and, if it is a \<open>good\<close> one and from a clean pool, has the result \<open>t\<close> on the
  byte strings.\<close>

definition simulates :: "bool \<Rightarrow> io_system \<Rightarrow> io_system \<Rightarrow> byte_strings \<Rightarrow> bool" where
  "simulates good s s' t \<longleftrightarrow>
     sys_ok s' \<and> length (sys_queues s') = length (sys_queues s) \<and> length (sys_stacks s') = length (sys_stacks s) \<and>
     (good \<and> clean (sys_pool s) \<longrightarrow> clean (sys_pool s') \<and> strings_of s' = t)"

lemma on_queue_step:
  assumes ok: "sys_ok s" and i: "i < length (sys_queues s)"
    and f: "f (sys_pool s, sys_queues s ! i) = Some (out, q')"
    and q': "queue_ok q'" "balanced (sys_pool s, sys_queues s ! i) q'"
    and spec: "good \<Longrightarrow> clean (sys_pool s) \<Longrightarrow> clean (fst q') \<and> contents (snd q') = xs"
  shows "\<exists>s'. on_queue i f s = Some (out, s') \<and>
    simulates good s s' ((map contents (sys_queues s))[i := xs], map contents (sys_stacks s))"
proof -
  obtain p bs where pb: "q' = (p, bs)" by (cases q')
  have "sys_ok (s\<lparr>sys_pool := p, sys_queues := (sys_queues s)[i := bs]\<rparr>)"
    using ok i q' unfolding pb by (rule system_update_queue)
  then show ?thesis using i f spec by (simp add: pb on_queue_def simulates_def strings_of_def map_update)
qed

lemma on_stack_step:
  assumes ok: "sys_ok s" and i: "i < length (sys_stacks s)"
    and f: "f (sys_pool s, sys_stacks s ! i) = Some (out, q')"
    and q': "queue_ok q'" "balanced (sys_pool s, sys_stacks s ! i) q'"
    and spec: "good \<Longrightarrow> clean (sys_pool s) \<Longrightarrow> clean (fst q') \<and> contents (snd q') = xs"
  shows "\<exists>s'. on_stack i f s = Some (out, s') \<and>
    simulates good s s' (map contents (sys_queues s), (map contents (sys_stacks s))[i := xs])"
proof -
  obtain p bs where pb: "q' = (p, bs)" by (cases q')
  have "sys_ok (s\<lparr>sys_pool := p, sys_stacks := (sys_stacks s)[i := bs]\<rparr>)"
    using ok i q' unfolding pb by (rule system_update_stack)
  then show ?thesis using i f spec by (simp add: pb on_stack_def simulates_def strings_of_def map_update)
qed

lemma move_step:
  assumes ok: "sys_ok s" and i: "i < length (sys_queues s)" and j: "j < length (sys_stacks s)"
  shows "\<exists>s'. run_io (StackMove j i) s = Some (Done, s') \<and>
    simulates good s s' ((map contents (sys_queues s))[i := contents (sys_queues s ! i) @ contents (sys_stacks s ! j)],
                    (map contents (sys_stacks s))[j := []])"
proof -
  have move: "MoveToIOQueue stack queue = (queue @ stack, [])" for stack queue
    unfolding MoveToIOQueue_def by (induction stack arbitrary: queue) (simp_all add: IOQueue_AppendBlock_def)
  let ?s = "s\<lparr>sys_queues := (sys_queues s)[i := sys_queues s ! i @ sys_stacks s ! j], sys_stacks := (sys_stacks s)[j := []]\<rparr>"
  have "sum_list (map length (sys_queues ?s)) + sum_list (map length (sys_stacks ?s)) =
      sum_list (map length (sys_queues s)) + sum_list (map length (sys_stacks s))"
    using sum_length_update [OF i, of "sys_queues s ! i @ sys_stacks s ! j"] sum_length_update [OF j, of "[]"] by simp
  moreover have Q: "\<forall>bs \<in> set (sys_queues s). chain_ok (sys_pool s) bs" and S: "\<forall>bs \<in> set (sys_stacks s). chain_ok (sys_pool s) bs"
    using ok by (simp_all add: sys_ok_def)
  have "\<forall>bs \<in> set (sys_queues ?s). chain_ok (sys_pool s) bs"
    using chains_update [OF Q refl, of "sys_queues s ! i @ sys_stacks s ! j" i] Q S i j by simp
  moreover have "\<forall>bs \<in> set (sys_stacks ?s). chain_ok (sys_pool s) bs"
    using chains_update [OF S refl, of "[]" j] by simp
  ultimately have "sys_ok ?s" using ok by (auto simp: sys_ok_def)
  then show ?thesis using i j by (simp add: move simulates_def strings_of_def map_update)
qed

lemma purge_step:
  assumes "sys_ok s"
  shows "\<exists>s'. run_io PurgePool s = Some (Done, s') \<and> simulates good s s' (strings_of s)"
proof -
  have loop: "length bs \<le> n \<Longrightarrow> purge_loop 0 bs n = Some ([], n - length bs)" for bs n
    by (induction bs arbitrary: n) auto
  let ?p = "(sys_pool s)\<lparr>m_free_blocks := [],
      m_blocks_allocated := m_blocks_allocated (sys_pool s) - length (m_free_blocks (sys_pool s))\<rparr>"
  have "length (m_free_blocks (sys_pool s)) \<le> m_blocks_allocated (sys_pool s)" using assms by (simp add: sys_ok_def)
  then have "Purge 0 (sys_pool s) = Some ?p" by (simp add: Purge_def loop)
  moreover have "sys_ok (s\<lparr>sys_pool := ?p\<rparr>)"
    using assms chain_ok_cong [of ?p "sys_pool s"] by (simp add: sys_ok_def pool_ok_def)
  ultimately show ?thesis by (simp add: simulates_def strings_of_def clean_def)
qed

lemma queue_io_step:
  assumes ok: "sys_ok s" and i: "i < length (sys_queues s)" and good: "good = careful_io c (strings_of s)"
    and c: "c \<in> {QueueWrite i data, QueueRead i n, QueuePeek i n, QueuePop i n, QueueSize i, QueueIOVec i, QueueClear i}"
  shows "\<exists>s'. run_io c s = Some (fst (spec_io c (strings_of s)), s') \<and>
    simulates good s s' (snd (spec_io c (strings_of s)))"
proof -
  let ?q = "(sys_pool s, sys_queues s ! i)"
  have q: "queue_ok ?q" by (rule queue_of_system [OF ok i])
  then have chain: "chain_ok (sys_pool s) (sys_queues s ! i)" by (simp add: queue_ok_def)
  note pop = Pop_laws [OF q refl] and clear = Clear_laws [OF q refl]
  obtain q' where w: "IOQueue_Write data ?q = Some q'" "queue_ok q'" "balanced ?q q'"
      "clean (fst ?q) \<Longrightarrow> clean (fst q') \<and> contents (snd q') = contents (snd ?q) @ data"
    using IOQueue_Write_total [OF q] by blast
  have same: "(map contents (sys_queues s))[i := contents (sys_queues s ! i)] = map contents (sys_queues s)"
    by (metis list_update_id map_update)
  have t: "strings_of s = (map contents (sys_queues s), map contents (sys_stacks s))" by (simp add: strings_of_def)
  note step = on_queue_step [OF ok i, where good = good, rotated]
  consider "c = QueueWrite i data" | "c = QueueRead i n" | "c = QueuePeek i n" | "c = QueuePop i n" | "c = QueueSize i"
    | "c = QueueIOVec i" | "c = QueueClear i" using c by blast
  then show ?thesis
  proof cases
    case 1
    show ?thesis using step [OF w(2,3), where xs = "contents (sys_queues s ! i) @ data"] w(1,4) i by (simp add: 1 t)
  next
    case 2
    show ?thesis using step [OF pop(1,2), where xs = "drop n (contents (sys_queues s ! i))"] pop(3,4) i
      by (simp add: 2 t Read_pop [OF q])
  next
    case 3
    show ?thesis using step [OF q balanced_refl, where xs = "contents (sys_queues s ! i)"] i
      by (simp add: 3 t same Peek_contents [OF chain])
  next
    case 4
    show ?thesis using step [OF pop(1,2), where xs = "drop n (contents (sys_queues s ! i))"] pop(3,4) i by (simp add: 4 t)
  next
    case 5
    show ?thesis using step [OF q balanced_refl, where xs = "contents (sys_queues s ! i)"] i
      by (simp add: 5 t same Size_contents [OF chain])
  next
    case 6
    show ?thesis using step [OF q balanced_refl, where xs = "contents (sys_queues s ! i)"] i
      by (simp add: 6 t same IOQueue_AsIOVec_def flip: contents_def)
  next
    case 7
    show ?thesis using step [OF clear(1,2), where xs = "[]"] clear(3,4) i good by (simp add: 7 t)
  qed
qed

lemma stack_io_step:
  assumes ok: "sys_ok s" and i: "i < length (sys_stacks s)"
    and c: "c \<in> {StackWrite i data, StackRead i n, StackPop i n, StackSize i, StackIOVec i}"
  shows "\<exists>s'. run_io c s = Some (fst (spec_io c (strings_of s)), s') \<and>
    simulates good s s' (snd (spec_io c (strings_of s)))"
proof -
  let ?q = "(sys_pool s, sys_stacks s ! i)"
  have q: "queue_ok ?q" by (rule stack_of_system [OF ok i])
  then have chain: "chain_ok (sys_pool s) (sys_stacks s ! i)" by (simp add: queue_ok_def)
  note pop = Pop_laws [OF q refl]
  obtain q' where w: "IOStack_Write data ?q = Some q'" "queue_ok q'" "balanced ?q q'"
      "contents (snd q') = data @ contents (snd ?q)" "clean (fst ?q) \<Longrightarrow> clean (fst q')"
    using IOStack_Write_total [OF q] by blast
  have same: "(map contents (sys_stacks s))[i := contents (sys_stacks s ! i)] = map contents (sys_stacks s)"
    by (metis list_update_id map_update)
  have t: "strings_of s = (map contents (sys_queues s), map contents (sys_stacks s))" by (simp add: strings_of_def)
  note step = on_stack_step [OF ok i, where good = good, rotated]
  consider "c = StackWrite i data" | "c = StackRead i n" | "c = StackPop i n" | "c = StackSize i" | "c = StackIOVec i"
    using c by blast
  then show ?thesis
  proof cases
    case 1
    show ?thesis using step [OF w(2,3), where xs = "data @ contents (sys_stacks s ! i)"] w(1,4,5) i by (simp add: 1 t)
  next
    case 2
    show ?thesis using step [OF pop(1,2), where xs = "drop n (contents (sys_stacks s ! i))"] pop(3,4) i
      by (simp add: 2 t stack_as_queue Read_pop [OF q])
  next
    case 3
    show ?thesis using step [OF pop(1,2), where xs = "drop n (contents (sys_stacks s ! i))"] pop(3,4) i
      by (simp add: 3 t stack_as_queue)
  next
    case 4
    have "IOStack_Size (sys_stacks s ! i) = length (contents (sys_stacks s ! i))"
      using Size_contents [OF chain] by (simp add: IOStack_Size_def IOQueue_Size_def)
    then show ?thesis using step [OF q balanced_refl, where xs = "contents (sys_stacks s ! i)"] i by (simp add: 4 t same)
  next
    case 5
    show ?thesis using step [OF q balanced_refl, where xs = "contents (sys_stacks s ! i)"] i
      by (simp add: 5 t same IOStack_AsIOVec_def flip: contents_def)
  qed
qed

lemma io_step:
  assumes ok: "sys_ok s" and names: "names_buffers c (length (sys_queues s)) (length (sys_stacks s))"
  shows "\<exists>s'. run_io c s = Some (fst (spec_io c (strings_of s)), s') \<and>
    simulates (careful_io c (strings_of s)) s s' (snd (spec_io c (strings_of s)))"
proof (cases c)
  case (StackMove j i)
  then show ?thesis using move_step [OF ok, of i j] names by (simp add: strings_of_def)
next
  case PurgePool
  have "spec_io PurgePool (strings_of s) = (Done, strings_of s)" by (cases "strings_of s") simp
  then show ?thesis using purge_step [OF ok] PurgePool by simp
qed (rule queue_io_step stack_io_step, rule ok; use names in simp)+

lemma run_ios_simulates:
  assumes "sys_ok s" "\<forall>c \<in> set cs. names_buffers c (length (sys_queues s)) (length (sys_stacks s))"
  shows "\<exists>outs s'. run_ios cs s = Some (outs, s') \<and> sys_ok s' \<and>
    (clean (sys_pool s) \<and> careful_ios cs (strings_of s) \<longrightarrow>
       outs = fst (spec_ios cs (strings_of s)) \<and> strings_of s' = snd (spec_ios cs (strings_of s)))"
  using assms
proof (induction cs arbitrary: s)
  case Nil
  then show ?case by simp
next
  case (Cons c cs)
  obtain s1 where s1: "run_io c s = Some (fst (spec_io c (strings_of s)), s1)"
      "simulates (careful_io c (strings_of s)) s s1 (snd (spec_io c (strings_of s)))"
    using io_step [OF Cons.prems(1)] Cons.prems(2) by auto
  then have "sys_ok s1" "\<forall>c \<in> set cs. names_buffers c (length (sys_queues s1)) (length (sys_stacks s1))"
    using Cons.prems(2) by (simp_all add: simulates_def)
  from Cons.IH [OF this] obtain outs s' where s': "run_ios cs s1 = Some (outs, s')" "sys_ok s'"
      "clean (sys_pool s1) \<and> careful_ios cs (strings_of s1) \<longrightarrow>
         outs = fst (spec_ios cs (strings_of s1)) \<and> strings_of s' = snd (spec_ios cs (strings_of s1))"
    by blast
  have "clean (sys_pool s) \<and> careful_ios (c # cs) (strings_of s) \<Longrightarrow>
      fst (spec_io c (strings_of s)) # outs = fst (spec_ios (c # cs) (strings_of s)) \<and>
      strings_of s' = snd (spec_ios (c # cs) (strings_of s))"
    using s1(2) s'(3) by (simp add: simulates_def split_def Let_def)
  then show ?case using s1(1) s'(1,2) by simp
qed

section \<open>Programs from the start\<close>

text \<open>A new pool with empty queues and stacks.\<close>

definition io_start :: "nat \<Rightarrow> nat \<Rightarrow> nat \<Rightarrow> io_system" where
  "io_start block_size queues stacks =
     \<lparr>sys_pool = MemoryBlockPool block_size, sys_queues = replicate queues [], sys_stacks = replicate stacks []\<rparr>"

lemma io_start_ok: "0 < block_size \<Longrightarrow> sys_ok (io_start block_size queues stacks)"
  by (auto simp: sys_ok_def io_start_def pool_ok_def MemoryBlockPool_def sum_list_replicate set_replicate_conv_if)

lemma io_start_strings: "strings_of (io_start block_size queues stacks) = (replicate queues [], replicate stacks [])"
  by (simp add: strings_of_def io_start_def)

lemma io_start_lengths [simp]:
  "length (sys_queues (io_start block_size queues stacks)) = queues"
  "length (sys_stacks (io_start block_size queues stacks)) = stacks"
  by (simp_all add: io_start_def)

lemma io_start_clean: "clean (sys_pool (io_start block_size queues stacks))"
  by (simp add: clean_def io_start_def MemoryBlockPool_def)

text \<open>C15: Queues and stacks of blocks are byte strings. A program of writes, reads into arrays, pops, sizes and io vectors on any
  number of queues and stacks that share a pool, with peeks and clears of queues, moves of stacks to queues and purges of
  the pool, which clears a queue only when it has been read completely, gets from every operation what byte strings give:
  writes go to the end of a queue and to the front of a stack, reads and pops take from the front, and moving a stack to a
  queue appends it. With these operations the size of the blocks, the splits over blocks and the reuse of blocks cannot be
  observed, and every write ends. Reads into strings, which leave the data in the queue, and \<open>Empty\<close>, which looks at the
  blocks, are not operations of these programs. Blocks have a size other than 0.\<close>

theorem io_programs_refine:
  assumes "0 < block_size" "\<forall>c \<in> set cs. names_buffers c queues stacks"
    and "careful_ios cs (replicate queues [], replicate stacks [])"
  shows "\<exists>s'. run_ios cs (io_start block_size queues stacks) =
      Some (fst (spec_ios cs (replicate queues [], replicate stacks [])), s') \<and>
    strings_of s' = snd (spec_ios cs (replicate queues [], replicate stacks []))"
  using run_ios_simulates [OF io_start_ok [OF assms(1)], of cs queues stacks] assms(2,3)
  by (auto simp: io_start_strings io_start_clean)

definition io_example :: "io_op list" where
  "io_example =
     [StackWrite 0 [4, 5, 6, 7, 8], StackWrite 0 [1, 2, 3], QueueWrite 0 [9], StackMove 0 0, QueueRead 0 5,
      QueueWrite 0 [10, 11], QueueSize 0, QueueRead 0 9, QueueClear 0]"

lemma io_programs_refine_witness:
  "\<exists>s'. run_ios io_example (io_start 4 1 1) =
     Some ([Done, Done, Done, Done, Bytes [9, 1, 2, 3, 4], Done, Count 6, Bytes [5, 6, 7, 8, 10, 11], Done], s') \<and>
     strings_of s' = ([[]], [[]])"
proof -
  have size: "0 < (4 :: nat)" by simp
  have names: "\<forall>c \<in> set io_example. names_buffers c 1 1" by code_simp
  have careful: "careful_ios io_example (replicate 1 [], replicate 1 [])" by code_simp
  have spec: "spec_ios io_example (replicate 1 [], replicate 1 []) =
      ([Done, Done, Done, Done, Bytes [9, 1, 2, 3, 4], Done, Count 6, Bytes [5, 6, 7, 8, 10, 11], Done], [[]], [[]])"
    by code_simp
  show ?thesis using io_programs_refine [OF size names careful] unfolding spec fst_conv snd_conv .
qed

text \<open>No block is lost. Whatever a program does with queues and stacks on a pool, every operation returns, and every
  block the pool has allocated is in its free list or in exactly one queue or stack, with the size of the pool.\<close>

theorem io_blocks_accounted:
  assumes "0 < block_size" "\<forall>c \<in> set cs. names_buffers c queues stacks"
  shows "\<exists>outs s'. run_ios cs (io_start block_size queues stacks) = Some (outs, s') \<and>
    m_blocks_allocated (sys_pool s') =
      length (m_free_blocks (sys_pool s')) + sum_list (map length (sys_queues s')) + sum_list (map length (sys_stacks s')) \<and>
    (\<forall>b \<in> set (m_free_blocks (sys_pool s') @ concat (sys_queues s') @ concat (sys_stacks s')).
       Capacity b = m_block_size (sys_pool s') \<and> m_first b \<le> m_last b \<and> m_last b \<le> Capacity b)"
proof -
  obtain outs s' where R: "run_ios cs (io_start block_size queues stacks) = Some (outs, s')" and ok: "sys_ok s'"
    using run_ios_simulates [OF io_start_ok [OF assms(1)], of cs queues stacks] assms(2) by auto
  show ?thesis
    by (rule exI [of _ outs], rule exI [of _ s'], intro conjI R, use ok in \<open>simp add: sys_ok_def\<close>)
      (use ok in \<open>auto simp: sys_ok_def pool_ok_def chain_ok_def wf_block_def\<close>)
qed

lemma io_blocks_accounted_witness:
  "\<exists>outs s'. run_ios [QueueWrite 0 [1, 2, 3], QueueClear 0] (io_start 2 1 0) = Some (outs, s') \<and>
    m_blocks_allocated (sys_pool s') =
      length (m_free_blocks (sys_pool s')) + sum_list (map length (sys_queues s')) + sum_list (map length (sys_stacks s')) \<and>
    (\<forall>b \<in> set (m_free_blocks (sys_pool s') @ concat (sys_queues s') @ concat (sys_stacks s')).
       Capacity b = m_block_size (sys_pool s') \<and> m_first b \<le> m_last b \<and> m_last b \<le> Capacity b)"
  by (rule io_blocks_accounted) simp_all

section \<open>Where the buffers are not byte strings\<close>

text \<open>Data that was thrown away comes back. \<open>Clear\<close> gives blocks that hold data to the free list and \<open>Allocate\<close> does not
  reset them, so after a queue of \<open>[1, 2, 3]\<close> was cleared the next data written to any queue of the pool follows the old
  data; and reading a string does not consume it, although the interface says that reads consume data.\<close>

theorem stale_data_returns:
  "map_option fst (run_ios [QueueWrite 0 [1, 2, 3], QueueClear 0, QueueWrite 0 [4], QueueRead 0 9] (io_start 8 1 0)) =
     Some [Done, Done, Done, Bytes [1, 2, 3, 4]]"
  "map_option fst (run_ios [QueueWrite 0 [1, 2, 3], QueueClear 0, QueueWrite 1 [4], QueueRead 1 9] (io_start 8 2 0)) =
     Some [Done, Done, Done, Bytes [1, 2, 3, 4]]"
  "map_option (fst \<circ> IOQueue_ReadString 3 \<circ> snd \<circ> IOQueue_ReadString 3) (IOQueue_Write [1, 2, 3] IOQueue) = Some [1, 2, 3]"
  by code_simp+

section \<open>Growth of the pool\<close>

text \<open>The part of the blocks that writes have passed: a queue never moves the end of a block back.\<close>

definition used :: "blocks \<Rightarrow> nat" where
  "used bs = sum_list (map m_last bs)"

definition sys_used :: "io_system \<Rightarrow> nat" where
  "sys_used s = used (m_free_blocks (sys_pool s)) + sum_list (map used (sys_queues s))"

abbreviation used_by :: "memory_pool \<times> blocks \<Rightarrow> nat" where
  "used_by q \<equiv> used (m_free_blocks (fst q)) + used (snd q)"

lemma used_simps [simp]: "used [] = 0" "used (b # bs) = m_last b + used bs" "used (bs @ cs) = used bs + used cs"
  by (simp_all add: used_def)

lemma used_AppendBlock: "used_by (AppendBlock q) = used_by q"
  by (cases q) (simp add: AppendBlock_def Allocate_def MemoryBlock_def split: list.split prod.split)

lemma used_write_loop:
  assumes "queue_ok q" "snd q \<noteq> []"
  shows "write_loop q data = Some q' \<Longrightarrow> used_by q' = used_by q + length data"
  using assms
proof (induction "write_measure q data" arbitrary: q data rule: less_induct)
  case less
  obtain n b where A: "Append data (last (snd q)) = (n, b)" by fastforce
  define q1 where q1: "q1 = (fst q, butlast (snd q) @ [b])"
  note W = write_step [OF less.prems(2,3) A q1]
  have step: "write_loop q data = (if n = length data then Some q1 else write_loop (AppendBlock q1) (drop n data))"
    by (subst write_loop.simps) (simp add: A q1)
  have "wf_block (last (snd q))" using less.prems(2,3) by (simp add: queue_ok_def chain_ok_def)
  note L = Append_laws [OF this A]
  have "used (snd q) = used (butlast (snd q)) + m_last (last (snd q))"
    using less.prems(3) by (metis append_butlast_last_id used_simps add.right_neutral)
  then have use1: "used_by q1 = used_by q + n" using L(6) q1 by simp
  show ?case
  proof (cases "n = length data")
    case True
    then show ?thesis using step less.prems(1) use1 by simp
  next
    case False
    note A1 = AppendBlock_laws [OF W(1) refl]
    have "write_loop (AppendBlock q1) (drop n data) = Some q'" using step less.prems(1) False by simp
    from less.hyps [OF W(5) [OF False] this A1(1) A1(3)]
    show ?thesis using used_AppendBlock [of q1] use1 W(4) by simp
  qed
qed

lemma used_Write: "queue_ok q \<Longrightarrow> IOQueue_Write data q = Some q' \<Longrightarrow> used_by q' = used_by q + length data"
  using used_write_loop [of "AppendBlock q" data q'] used_write_loop [of q data q'] AppendBlock_laws [of q "AppendBlock q"]
    used_AppendBlock [of q] by (simp add: IOQueue_Write_def split: if_splits)

lemma used_pop_loop: "pop_loop p bs n = (p', bs') \<Longrightarrow> used_by (p', bs') = used_by (p, bs)"
proof (induction bs arbitrary: p n p' bs')
  case (Cons b bs)
  obtain k b1 where F: "PopFront n b = (k, b1)" by fastforce
  obtain p1 kept where K: "keep_or_release b1 p = (p1, kept)" by fastforce
  obtain p2 bs1 where R: "pop_loop p1 bs (n - k) = (p2, bs1)" by fastforce
  have "m_last b1 = m_last b" using F by (auto simp: PopFront_def Let_def)
  moreover have "used_by (p1, kept) = used (m_free_blocks p) + m_last b1"
    using K by (auto simp: keep_or_release_def Release_def split: if_splits)
  moreover note Cons.IH [OF R]
  ultimately show ?case using Cons.prems F K R by (auto split: if_splits)
qed simp

lemma used_Clear: "used_by (IOQueue_Clear q) = used_by q"
proof -
  have "used (m_free_blocks (fold Release bs p)) = used (m_free_blocks p) + used bs" for bs p
    by (induction bs arbitrary: p) (simp_all add: Release_def)
  then show ?thesis by (simp add: IOQueue_Clear_def)
qed

lemma sum_used_update:
  "i < length xss \<Longrightarrow> sum_list (map used (xss[i := ys])) + used (xss ! i) = sum_list (map used xss) + used ys"
  by (induction xss arbitrary: i) (auto split: nat.split)

text \<open>The bytes that an operation writes to a queue.\<close>

fun written :: "io_op \<Rightarrow> nat" where
  "written (QueueWrite i data) = length data"
| "written c = 0"

lemma on_queue_used:
  assumes "on_queue i f s = Some (out, s')"
    and f: "\<And>o' q'. f (sys_pool s, sys_queues s ! i) = Some (o', q') \<Longrightarrow>
      used_by q' = used_by (sys_pool s, sys_queues s ! i) + n"
  shows "sys_used s' = sys_used s + n"
proof -
  obtain p bs where i: "i < length (sys_queues s)" and F: "f (sys_pool s, sys_queues s ! i) = Some (out, p, bs)"
    and s': "s' = s\<lparr>sys_pool := p, sys_queues := (sys_queues s)[i := bs]\<rparr>"
    using assms(1) by (auto simp: on_queue_def split: if_splits)
  show ?thesis using f [OF F] sum_used_update [OF i, of bs] by (simp add: sys_used_def s')
qed

lemma on_queue_observe:
  "on_queue i (\<lambda>q. Some (g q, q)) s = Some (out, s') \<Longrightarrow> sys_used s' = sys_used s"
  using on_queue_used [of i "\<lambda>q. Some (g q, q)" s out s' 0] by simp

lemma queue_io_used:
  assumes ok: "sys_ok s" and names: "names_buffers c (length (sys_queues s)) 0" and "c \<noteq> PurgePool"
    and R: "run_io c s = Some (out, s')"
  shows "sys_used s' = sys_used s + written c"
proof (cases c)
  case (QueueWrite i data)
  then have "queue_ok (sys_pool s, sys_queues s ! i)" using queue_of_system [OF ok] names by simp
  then show ?thesis using R QueueWrite by (auto elim!: on_queue_used dest: used_Write)
next
  case (QueueRead i n)
  then have "queue_ok (sys_pool s, sys_queues s ! i)" using queue_of_system [OF ok] names by simp
  then have "used_by q' = used_by (sys_pool s, sys_queues s ! i)"
    if "(let (xs, q') = IOQueue_Read n (sys_pool s, sys_queues s ! i) in Some (Bytes xs, q')) = Some (o', q')" for o' q'
    using that used_pop_loop [of "sys_pool s" "sys_queues s ! i" n "fst q'" "snd q'"] by (simp add: Read_pop IOQueue_Pop_def)
  then show ?thesis using R QueueRead on_queue_used [where n = 0] by simp
next
  case (QueuePop i n)
  have "used_by (IOQueue_Pop n (sys_pool s, sys_queues s ! i)) = used_by (sys_pool s, sys_queues s ! i)"
    using used_pop_loop [of "sys_pool s" "sys_queues s ! i" n]
    by (cases "IOQueue_Pop n (sys_pool s, sys_queues s ! i)") (simp add: IOQueue_Pop_def)
  then show ?thesis
    using R QueuePop on_queue_used [of i "\<lambda>q. Some (Done, IOQueue_Pop n q)" s out s' 0] by fastforce
next
  case (QueueClear i)
  then show ?thesis
    using R used_Clear [of "(sys_pool s, sys_queues s ! i)"]
      on_queue_used [of i "\<lambda>q. Some (Done, IOQueue_Clear q)" s out s' 0] by fastforce
qed (use R names \<open>c \<noteq> PurgePool\<close> in \<open>auto dest: on_queue_observe\<close>)

lemma run_queue_ios_used:
  assumes "sys_ok s" "sys_stacks s = []" "\<forall>c \<in> set cs. names_buffers c (length (sys_queues s)) 0 \<and> c \<noteq> PurgePool"
    and "run_ios cs s = Some (outs, s')"
  shows "sys_used s' = sys_used s + sum_list (map written cs)"
  using assms
proof (induction cs arbitrary: s outs)
  case (Cons c cs)
  obtain out outs' s1 where R: "run_io c s = Some (out, s1)" "run_ios cs s1 = Some (outs', s')"
    using Cons.prems(4) by (auto split: bind_splits)
  have S: "simulates (careful_io c (strings_of s)) s s1 (snd (spec_io c (strings_of s)))"
    using io_step [OF Cons.prems(1), of c] Cons.prems(2,3) R(1) by auto
  have "sys_used s' = sys_used s1 + sum_list (map written cs)"
    by (rule Cons.IH [OF _ _ _ R(2)]) (use S Cons.prems(2,3) in \<open>auto simp: simulates_def\<close>)
  then show ?case using queue_io_used [OF Cons.prems(1) _ _ R(1)] Cons.prems(3) by simp
qed simp

lemma used_bound: "chain_ok p bs \<Longrightarrow> used bs \<le> length bs * m_block_size p"
  by (induction bs) (auto simp: wf_block_def)

text \<open>The pool of a queue grows with the traffic. Blocks come back from the free list with the end of their data where
  it was, so the space before it is never written again: a program that only uses queues, and does not purge the pool, has
  allocated at least as much memory as it has written in total, even when everything was read long ago.\<close>

theorem pool_grows_with_traffic:
  assumes "0 < block_size" "\<forall>c \<in> set cs. names_buffers c queues 0 \<and> c \<noteq> PurgePool"
  shows "\<exists>outs s'. run_ios cs (io_start block_size queues 0) = Some (outs, s') \<and>
    sum_list (map written cs) \<le> m_blocks_allocated (sys_pool s') * m_block_size (sys_pool s')"
proof -
  let ?s = "io_start block_size queues 0"
  obtain outs s' where R: "run_ios cs ?s = Some (outs, s')" and ok: "sys_ok s'"
    using run_ios_simulates [OF io_start_ok [OF assms(1)], of cs queues 0] assms(2) by auto
  have "sys_used s' = sum_list (map written cs)"
    using run_queue_ios_used [OF io_start_ok [OF assms(1)] _ _ R] assms(2)
    by (simp add: sys_used_def io_start_def MemoryBlockPool_def sum_list_replicate)
  moreover have "chain_ok (sys_pool s') (m_free_blocks (sys_pool s') @ concat (sys_queues s'))"
    using ok by (auto simp: sys_ok_def pool_ok_def chain_ok_def)
  note used_bound [OF this]
  moreover have "used (concat xss) = sum_list (map used xss)" for xss by (induction xss) simp_all
  moreover have "length (m_free_blocks (sys_pool s') @ concat (sys_queues s')) \<le> m_blocks_allocated (sys_pool s')"
    using ok by (simp add: sys_ok_def length_concat)
  then have "length (m_free_blocks (sys_pool s') @ concat (sys_queues s')) * m_block_size (sys_pool s')
      \<le> m_blocks_allocated (sys_pool s') * m_block_size (sys_pool s')" by (rule mult_le_mono1)
  ultimately have "sum_list (map written cs) \<le> m_blocks_allocated (sys_pool s') * m_block_size (sys_pool s')"
    by (simp only: sys_used_def used_simps)
  then show ?thesis using R by blast
qed

lemma pool_grows_with_traffic_witness:
  "\<exists>outs s'. run_ios (concat (replicate 5 [QueueWrite 0 [1, 2, 3], QueueRead 0 3])) (io_start 4 1 0) = Some (outs, s') \<and>
    sum_list (map written (concat (replicate 5 [QueueWrite 0 [1, 2, 3], QueueRead 0 3]))) \<le>
      m_blocks_allocated (sys_pool s') * m_block_size (sys_pool s')"
  by (rule pool_grows_with_traffic) (simp_all add: set_replicate_conv_if)

end
