(* ===== verification/SLP_Facts.thy ===== *)
theory SLP_Facts
  imports SLP_Strings
begin

text \<open>
  The laws of SLP strings and scopes. Each loop over positions equals a recursive function on the rest of the string.
\<close>

section \<open>Searching\<close>

lemma find_first_of_None: "set rest \<inter> set cs = {} \<Longrightarrow> find_first_of cs (length pre) (pre @ rest) = None"
proof -
  assume "set rest \<inter> set cs = {}"
  then have tw: "takeWhile (\<lambda>c. c \<notin> set cs) rest = rest" by (auto simp: takeWhile_eq_all_conv)
  show ?thesis by (simp add: find_first_of_def tw)
qed

lemma find_first_of_Some:
  assumes "set t \<inter> set cs = {}" "c \<in> set cs"
  shows "find_first_of cs (length pre) (pre @ t @ c # r) = Some (length pre + length t)"
proof -
  have "takeWhile (\<lambda>c. c \<notin> set cs) (t @ c # r) = t" using assms by (subst takeWhile_append2) auto
  then show ?thesis by (simp add: find_first_of_def)
qed

section \<open>Escaping\<close>

definition slp_escape_char :: "char \<Rightarrow> string" where
  "slp_escape_char c = (if c \<in> set SLP_ESCAPED then CHR 0x5C # print_base 16 (of_char c) else [c])"

lemma escape_plain: "set t \<inter> set SLP_ESCAPED = {} \<Longrightarrow> concat (map slp_escape_char t) = t"
  by (induction t) (auto simp: slp_escape_char_def)

lemma SLPStringEscape_loop_eq:
  "SLPStringEscape_loop (pre @ rest) (length pre) = pre @ concat (map slp_escape_char rest)"
proof (induction rest arbitrary: pre rule: StringSplit_induct [of SLP_ESCAPED])
  case (last s)
  then show ?case by (subst SLPStringEscape_loop.simps) (simp add: find_first_of_None escape_plain)
next
  case (more t c r)
  let ?e = "CHR 0x5C # print_base 16 (of_char c)"
  have "SLPStringEscape_loop (pre @ t @ c # r) (length pre) =
      SLPStringEscape_loop ((pre @ t @ ?e) @ r) (length (pre @ t @ ?e))"
    by (subst SLPStringEscape_loop.simps)
      (simp add: find_first_of_Some [OF more(1,2)] nth_append Let_def add.assoc)
  also have "\<dots> = (pre @ t @ ?e) @ concat (map slp_escape_char r)" by (rule more(3))
  also have "?e = slp_escape_char c" using more(2) by (simp add: slp_escape_char_def)
  finally show ?case using escape_plain [OF more(1)] by simp
qed

lemma SLPStringEscape_eq: "SLPStringEscape s = concat (map slp_escape_char s)"
  using SLPStringEscape_loop_eq [of "[]" s] by (simp add: SLPStringEscape_def)

function slp_unescape :: "string \<Rightarrow> string" where
  "slp_unescape [] = []"
| "slp_unescape (c # r) =
     (if c \<noteq> CHR 0x5C then c # slp_unescape r
      else if length r < 2 then []
      else case HexStringToInt_u8 (take 2 r) of
             None \<Rightarrow> c # slp_unescape r
           | Some v \<Rightarrow> if v > 0x7f then c # slp_unescape r else char_of (unat v) # slp_unescape (drop 2 r))"
  by pat_completeness auto
termination by (relation "measure length") auto

lemma unescape_plain_prefix: "set t \<inter> set [CHR 0x5C] = {} \<Longrightarrow> slp_unescape (t @ r) = t @ slp_unescape r"
  by (induction t) auto

lemma SLPStringUnescape_loop_eq:
  "SLPStringUnescape_loop (pre @ rest) (length pre) = pre @ slp_unescape rest"
proof (induction rest arbitrary: pre rule: length_induct)
  case (1 rest)
  show ?case
  proof (cases "set rest \<inter> set [CHR 0x5C] = {}")
    case True
    then show ?thesis using unescape_plain_prefix [OF True, of "[]"]
      by (subst SLPStringUnescape_loop.simps) (simp add: find_first_of_None [OF True])
  next
    case False
    obtain t c r where rest: "rest = t @ c # r" and t: "set t \<inter> set [CHR 0x5C] = {}" and "c \<in> set [CHR 0x5C]"
      using split_at_delim [OF False] .
    then have c: "c = CHR 0x5C" by simp
    have F: "find_first_of [CHR 0x5C] (length pre) (pre @ rest) = Some (length pre + length t)"
      using find_first_of_Some [OF t, of c] c by (simp add: rest)
    have IH: "SLPStringUnescape_loop (pre' @ r') (length pre') = pre' @ slp_unescape r'"
      if "length r' < length rest" for pre' r'
      using 1 that by blast
    have skip: "SLPStringUnescape_loop (pre @ rest) (length pre + length t + 1) = pre @ t @ c # slp_unescape r"
      using IH [of r "pre @ t @ [c]"] by (simp add: rest)
    have subst: "SLPStringUnescape_loop (pre @ t @ x # drop 2 r) (length pre + length t + 1) = pre @ t @ x # slp_unescape (drop 2 r)" for x
      using IH [of "drop 2 r" "pre @ t @ [x]"] by (simp add: rest)
    have short: "length pre + length t + 2 \<ge> length (pre @ rest) \<longleftrightarrow> length r < 2" by (auto simp: rest)
    have parts: "take 2 (drop (length pre + length t + 1) (pre @ rest)) = take 2 r"
      "take (length pre + length t) (pre @ rest) = pre @ t" "drop (length pre + length t + 3) (pre @ rest) = drop 2 r"
      by (simp_all add: rest)
    have "SLPStringUnescape_loop (pre @ rest) (length pre) =
        (if length r < 2 then pre @ t
         else case HexStringToInt_u8 (take 2 r) of
           None \<Rightarrow> pre @ t @ c # slp_unescape r
         | Some v \<Rightarrow> if v > 0x7f then pre @ t @ c # slp_unescape r
             else pre @ t @ char_of (unat v) # slp_unescape (drop 2 r))"
      by (subst SLPStringUnescape_loop.simps)
        (simp only: F option.case short parts skip subst append_Cons append_Nil append_assoc)
    then have "SLPStringUnescape_loop (pre @ rest) (length pre) = pre @ t @ slp_unescape (c # r)"
      by (simp add: c split: option.split)
    then show ?thesis using unescape_plain_prefix [OF t] by (simp add: rest)
  qed
qed

lemma SLPStringUnescape_eq: "SLPStringUnescape s = slp_unescape s"
  using SLPStringUnescape_loop_eq [of "[]" s] by (simp add: SLPStringUnescape_def)

lemma escaped_chars:
  "list_all (\<lambda>c. length (print_base 16 (of_char c)) = 2 \<and> set (print_base 16 (of_char c)) \<inter> set SLP_ESCAPED = {} \<and>
     (case HexStringToInt_u8 (print_base 16 (of_char c)) of None \<Rightarrow> False | Some v \<Rightarrow> \<not> v > 0x7f \<and> char_of (unat v) = c))
   SLP_ESCAPED"
  by code_simp

lemma unescape_escaped_char: "slp_unescape (slp_escape_char c @ r) = c # slp_unescape r"
proof (cases "c \<in> set SLP_ESCAPED")
  case True
  then obtain v where E: "length (print_base 16 (of_char c)) = 2" "HexStringToInt_u8 (print_base 16 (of_char c)) = Some v"
      "\<not> v > 0x7f" "char_of (unat v) = c"
    using escaped_chars by (auto simp: list_all_iff split: option.splits)
  then show ?thesis using True by (simp add: slp_escape_char_def)
next
  case False
  then have "c \<noteq> CHR 0x5C" by (auto simp: SLP_ESCAPED_def)
  then show ?thesis using False by (simp add: slp_escape_char_def)
qed

lemma unescape_escape: "SLPStringUnescape (SLPStringEscape s) = s"
  unfolding SLPStringUnescape_eq SLPStringEscape_eq by (induction s) (simp_all add: unescape_escaped_char)

lemma escape_no_comma: "CHR '','' \<notin> set (SLPStringEscape s)"
proof -
  have comma: "CHR '','' \<in> set SLP_ESCAPED" by (simp add: SLP_ESCAPED_def)
  have "CHR '','' \<notin> set (slp_escape_char c)" for c
  proof (cases "c \<in> set SLP_ESCAPED")
    case True
    then have "set (print_base 16 (of_char c)) \<inter> set SLP_ESCAPED = {}" using escaped_chars by (simp add: list_all_iff)
    then have "CHR '','' \<notin> set (print_base 16 (of_char c))" using comma by (rule_tac notI, simp only: disjoint_iff)
    then show ?thesis using True by (simp add: slp_escape_char_def)
  next
    case False
    then have "c \<noteq> CHR '',''" using comma by metis
    then show ?thesis using False by (simp add: slp_escape_char_def)
  qed
  then show ?thesis by (simp add: SLPStringEscape_eq)
qed

lemma escape_Nil_iff: "SLPStringEscape s = [] \<longleftrightarrow> s = []"
proof -
  have "slp_escape_char c \<noteq> []" for c by (simp add: slp_escape_char_def)
  then show ?thesis by (cases s) (simp_all add: SLPStringEscape_eq)
qed

section \<open>White space\<close>

abbreviation is_space :: "char \<Rightarrow> bool" where
  "is_space c \<equiv> c \<in> set SLP_WHITESPACE"

text \<open>The words of a string: the maximal parts without white space.\<close>

function words :: "string \<Rightarrow> string list" where
  "words s =
     (let s1 = dropWhile is_space s
      in if s1 = [] then []
         else takeWhile (\<lambda>c. \<not> is_space c) s1 # words (dropWhile (\<lambda>c. \<not> is_space c) s1))"
  by pat_completeness auto
termination
proof (relation "measure length")
  fix s s1 assume s1: "s1 = dropWhile is_space s" and ne: "s1 \<noteq> []"
  then have "\<not> is_space (hd s1)" using hd_dropWhile [of is_space s] by simp
  then have "length (dropWhile (\<lambda>c. \<not> is_space c) s1) < length s1"
    using ne by (cases s1) (auto simp: length_dropWhile_le less_Suc_eq_le)
  moreover have "length s1 \<le> length s" by (simp add: s1 length_dropWhile_le)
  ultimately show "(dropWhile (\<lambda>c. \<not> is_space c) s1, s) \<in> measure length" by simp
qed simp

declare words.simps [simp del]

lemma words_spaces: "words s = words (dropWhile is_space s)"
proof -
  have idem: "dropWhile is_space (dropWhile is_space s) = dropWhile is_space s"
    by (cases "dropWhile is_space s") (use hd_dropWhile [of is_space s] in auto)
  show ?thesis by (subst words.simps, subst (2) words.simps) (simp only: idem)
qed

lemma words_Nil [simp]: "words [] = []"
  by (subst words.simps) simp

lemma words_first:
  assumes "t \<noteq> []" "\<forall>c \<in> set t. \<not> is_space c" "u = [] \<or> is_space (hd u)"
  shows "words (t @ u) = t # words u"
proof -
  have "dropWhile is_space (t @ u) = t @ u" using assms(1,2) by (cases t) auto
  moreover have "takeWhile (\<lambda>c. \<not> is_space c) (t @ u) = t" "dropWhile (\<lambda>c. \<not> is_space c) (t @ u) = u"
    using assms(2,3) by (cases u; auto simp: takeWhile_append dropWhile_append)+
  ultimately show ?thesis using assms(1) by (subst words.simps) simp
qed

lemma words_Nil_iff: "words s = [] \<longleftrightarrow> dropWhile is_space s = []"
  by (subst words.simps) (simp add: Let_def)

text \<open>A string that does not start with white space is its first word, white space and the rest.\<close>

lemma first_word:
  assumes "s = [] \<or> \<not> is_space (hd s)"
  obtains t u where "s = t @ u" "\<forall>c \<in> set t. \<not> is_space c" "u = [] \<or> is_space (hd u)" "s \<noteq> [] \<longrightarrow> t \<noteq> []"
proof (rule that [of "takeWhile (\<lambda>c. \<not> is_space c) s" "dropWhile (\<lambda>c. \<not> is_space c) s"])
  show "s = takeWhile (\<lambda>c. \<not> is_space c) s @ dropWhile (\<lambda>c. \<not> is_space c) s" by simp
  show "\<forall>c \<in> set (takeWhile (\<lambda>c. \<not> is_space c) s). \<not> is_space c" by (auto dest: set_takeWhileD)
  show "dropWhile (\<lambda>c. \<not> is_space c) s = [] \<or> is_space (hd (dropWhile (\<lambda>c. \<not> is_space c) s))"
    using hd_dropWhile [of "\<lambda>c. \<not> is_space c" s] by auto
  show "s \<noteq> [] \<longrightarrow> takeWhile (\<lambda>c. \<not> is_space c) s \<noteq> []" using assms by (cases s) auto
qed

lemma find_not_of_from_eq:
  assumes "u \<noteq> []"
  shows "find_not_of_from SLP_WHITESPACE (length pre) (pre @ u) =
    (if dropWhile is_space u = [] then None else Some (length pre + length (takeWhile is_space u)))"
proof -
  have "length u = length (takeWhile is_space u) + length (dropWhile is_space u)"
    by (metis length_append takeWhile_dropWhile_id)
  then show ?thesis by (auto simp: find_not_of_from_def Let_def)
qed

lemma FoldWhitespace_loop_eq:
  assumes "rest = [] \<or> \<not> is_space (hd rest)"
  shows "FoldWhitespace_loop (pre @ rest) (length pre) = pre @ join '' '' (words rest)"
  using assms
proof (induction rest arbitrary: pre rule: length_induct)
  case (1 rest)
  obtain t u where rest: "rest = t @ u" and t: "\<forall>c \<in> set t. \<not> is_space c" and u: "u = [] \<or> is_space (hd u)"
    and ne: "rest \<noteq> [] \<longrightarrow> t \<noteq> []" using first_word [OF 1(2)] .
  have dt: "set t \<inter> set SLP_WHITESPACE = {}" using t by auto
  show ?case
  proof (cases "u = []")
    case True
    then have "words rest = (if t = [] then [] else [t])" using words_first [of t "[]"] t rest by simp
    then show ?thesis
      by (subst FoldWhitespace_loop.simps) (simp add: rest True find_first_of_None [OF dt])
  next
    case False
    then obtain c u' where u': "u = c # u'" and c: "is_space c" using u by (cases u) auto
    have t_ne: "t \<noteq> []" using ne rest False by simp
    have F: "find_first_of SLP_WHITESPACE (length pre) (pre @ rest) = Some (length (pre @ t))"
      using find_first_of_Some [OF dt c, of pre u'] by (simp add: rest u')
    define v where "v = dropWhile is_space u"
    have N: "find_not_of_from SLP_WHITESPACE (length (pre @ t)) (pre @ rest) =
        (if v = [] then None else Some (length (pre @ t) + length (takeWhile is_space u)))"
      using find_not_of_from_eq [OF False, of "pre @ t"] by (simp add: rest v_def)
    have w: "words rest = t # words v"
      using words_first [OF t_ne t u] words_spaces [of u] by (simp add: rest v_def)
    have take_pt: "take (length (pre @ t)) (pre @ rest) = pre @ t" "length (pre @ t) \<noteq> 0" using t_ne by (simp_all add: rest)
    have len: "length (pre @ t @ '' '') = Suc (length (pre @ t))" by simp
    have drop_e: "drop (length (pre @ t) + length (takeWhile is_space u)) (pre @ rest) = v"
      by (simp add: rest v_def dropWhile_eq_drop)
    have v_len: "length v < length rest"
      using length_dropWhile_le [of is_space u'] c by (simp add: rest u' v_def)
    have v_hd: "v = [] \<or> \<not> is_space (hd v)" using hd_dropWhile [of is_space u] v_def by auto
    have IH: "FoldWhitespace_loop ((pre @ t @ '' '') @ v) (length (pre @ t @ '' '')) = (pre @ t @ '' '') @ join '' '' (words v)"
      using 1(1) v_len v_hd by blast
    have "FoldWhitespace_loop (pre @ rest) (length pre) =
        (if v = [] then pre @ t else FoldWhitespace_loop ((pre @ t @ '' '') @ v) (length (pre @ t @ '' '')))"
      using t_ne take_pt drop_e by (subst FoldWhitespace_loop.simps) (simp add: F N len del: length_append)
    also have "\<dots> = pre @ join '' '' (words rest)"
    proof (cases "v = []")
      case True
      then show ?thesis by (simp add: w)
    next
      case False
      then have "words v \<noteq> []" using v_hd by (cases v) (simp_all add: words_Nil_iff)
      then show ?thesis using False IH by (simp add: w join_Cons)
    qed
    finally show ?thesis .
  qed
qed

lemma FoldWhitespace_eq: "FoldWhitespace s = join '' '' (words s)"
proof (cases "s = [] \<or> \<not> is_space (hd s)")
  case True
  then show ?thesis using FoldWhitespace_loop_eq [OF True, of "[]"] by (simp add: FoldWhitespace_def)
next
  case False
  then obtain c s' where s: "s = c # s'" and c: "is_space c" by (cases s) auto
  define v where "v = dropWhile is_space s"
  have v_hd: "v = [] \<or> \<not> is_space (hd v)" using hd_dropWhile [of is_space s] v_def by auto
  have F: "find_first_of SLP_WHITESPACE 0 s = Some 0"
    using find_first_of_Some [of "[]" SLP_WHITESPACE c "[]" s'] c by (simp add: s)
  have N: "find_not_of_from SLP_WHITESPACE 0 s = (if v = [] then None else Some (length (takeWhile is_space s)))"
    using find_not_of_from_eq [of s "[]"] by (simp add: s v_def)
  have "FoldWhitespace s = (if v = [] then [] else FoldWhitespace_loop v 0)"
    unfolding FoldWhitespace_def
    by (subst FoldWhitespace_loop.simps) (simp add: F N v_def dropWhile_eq_drop)
  then show ?thesis
    using FoldWhitespace_loop_eq [OF v_hd, of "[]"] words_spaces [of s] by (auto simp: v_def [symmetric])
qed

section \<open>Canonical strings\<close>

lemma words_induct [case_names empty first]:
  assumes "\<And>s. dropWhile is_space s = [] \<Longrightarrow> P s"
    and "\<And>s t u. dropWhile is_space s = t @ u \<Longrightarrow> t \<noteq> [] \<Longrightarrow> \<forall>c \<in> set t. \<not> is_space c \<Longrightarrow> u = [] \<or> is_space (hd u) \<Longrightarrow>
      P u \<Longrightarrow> P s"
  shows "P s"
proof (induction s rule: length_induct)
  case (1 s)
  have "dropWhile is_space s = [] \<or> \<not> is_space (hd (dropWhile is_space s))"
    using hd_dropWhile [of is_space s] by auto
  then obtain t u where d: "dropWhile is_space s = t @ u" "\<forall>c \<in> set t. \<not> is_space c" "u = [] \<or> is_space (hd u)"
      "dropWhile is_space s \<noteq> [] \<longrightarrow> t \<noteq> []"
    by (rule first_word)
  show ?case
  proof (cases "dropWhile is_space s = []")
    case True
    then show ?thesis by (rule assms(1))
  next
    case False
    then have t: "t \<noteq> []" using d(4) by simp
    have "length (t @ u) \<le> length s" using length_dropWhile_le [of is_space s] by (simp only: d(1))
    then have "length u < length s" using t by (cases t) auto
    then have "P u" using 1 by blast
    then show ?thesis using assms(2) [OF d(1) t d(2,3)] by blast
  qed
qed

definition word_list :: "string list \<Rightarrow> bool" where
  "word_list ws \<longleftrightarrow> (\<forall>w \<in> set ws. w \<noteq> [] \<and> (\<forall>c \<in> set w. \<not> is_space c))"

lemma words_word_list: "word_list (words s)"
proof (induction s rule: words_induct)
  case (empty s)
  then have "words s = []" by (simp add: words_Nil_iff)
  then show ?case by (simp add: word_list_def)
next
  case (first s t u)
  then have "words s = t # words u" using words_spaces [of s] words_first by metis
  then show ?case using first by (auto simp: word_list_def)
qed

lemma words_join: "word_list ws \<Longrightarrow> words (join '' '' ws) = ws"
proof (induction "'' ''" ws rule: join.induct)
  case (2 t)
  then show ?case using words_first [of t "[]"] by (simp add: word_list_def)
next
  case (3 t u ts)
  have space: "is_space CHR '' ''" by (simp add: SLP_WHITESPACE_def)
  have "words (join '' '' (t # u # ts)) = t # words ('' '' @ join '' '' (u # ts))"
    using 3(2) space words_first [of t "'' '' @ join '' '' (u # ts)"] by (simp add: word_list_def)
  also have "words ('' '' @ join '' '' (u # ts)) = words (join '' '' (u # ts))"
    using space words_spaces [of "'' '' @ join '' '' (u # ts)"] words_spaces [of "join '' '' (u # ts)"] by simp
  also have "\<dots> = u # ts" using 3 by (simp add: word_list_def)
  finally show ?case .
qed simp

lemma is_space_tolower [simp]: "is_space (c_tolower c) \<longleftrightarrow> is_space c"
proof -
  have "is_space c \<longleftrightarrow> of_char c \<in> {9, 10, 13, 32 :: nat}" for c :: char
  proof -
    have "of_char ` set SLP_WHITESPACE = {9, 10, 13, 32 :: nat}" by (auto simp: SLP_WHITESPACE_def)
    then show ?thesis using inj_image_mem_iff [OF inj_of_char, of c "set SLP_WHITESPACE"] by metis
  qed
  then show ?thesis by (auto simp: c_tolower_def c_isupper_def)
qed

lemma words_ToLower: "words (ToLower s) = map ToLower (words s)"
proof (induction s rule: words_induct)
  case (empty s)
  then have "dropWhile is_space (ToLower s) = []" by (simp add: ToLower_def)
  then show ?case using empty by (simp add: words_Nil_iff [THEN iffD2])
next
  case (first s t u)
  have s: "words s = t # words u" using first words_spaces [of s] words_first by metis
  have "dropWhile is_space (ToLower s) = ToLower t @ ToLower u"
    using first(1) by (simp add: ToLower_def dropWhile_map comp_def)
  moreover have "words (ToLower t @ ToLower u) = ToLower t # words (ToLower u)"
  proof (rule words_first)
    show "ToLower u = [] \<or> is_space (hd (ToLower u))" using first(4) by (cases u) (auto simp: ToLower_def)
  qed (use first(2,3) in \<open>simp_all add: ToLower_def\<close>)
  ultimately show ?case using words_spaces [of "ToLower s"] first(5) s by simp
qed

lemma words_canonical: "words (SLPGetCanonicalString s) = map ToLower (words s)"
  using words_word_list [of "ToLower s"]
  by (simp add: SLPGetCanonicalString_def FoldWhitespace_eq words_join words_ToLower)

lemma canonical_words: "SLPGetCanonicalString s = join '' '' (map ToLower (words s))"
  by (simp add: SLPGetCanonicalString_def FoldWhitespace_eq words_ToLower)

lemma ToLower_idem [simp]: "ToLower (ToLower s) = ToLower s"
proof -
  have "c_tolower (c_tolower c) = c_tolower c" for c
    by (auto simp: c_tolower_def c_isupper_def)
  then show ?thesis by (simp add: ToLower_def)
qed

lemma canonical_idem [simp]: "SLPGetCanonicalString (SLPGetCanonicalString s) = SLPGetCanonicalString s"
  by (subst canonical_words) (simp add: words_canonical comp_def flip: canonical_words)

section \<open>Scopes\<close>

text \<open>The elements of a set of scopes ascend and are canonical.\<close>

definition scopes_ok :: "scope_set \<Rightarrow> bool" where
  "scopes_ok scopes \<longleftrightarrow> set_ok scopes \<and> (\<forall>s \<in> set scopes. SLPGetCanonicalString s = s)"

lemma set_scope_insert [simp]: "set (scope_insert x S) = insert x (set S)"
  by (simp add: scope_insert_def)

lemma scope_insert_ok [simp]: "set_ok S \<Longrightarrow> set_ok (scope_insert x S)"
  by (simp add: scope_insert_def)

lemma fold_insert_scopes:
  "set_ok S \<Longrightarrow> set_ok (fold (\<lambda>s. scope_insert (f s)) xs S) \<and> set (fold (\<lambda>s. scope_insert (f s)) xs S) = f ` set xs \<union> set S"
  by (induction xs arbitrary: S) auto

lemma ScopeSet_of_set_laws:
  "scopes_ok (ScopeSet_of_set xs)" "set (ScopeSet_of_set xs) = SLPGetCanonicalString ` set xs"
  using fold_insert_scopes [of "[]" SLPGetCanonicalString xs] by (auto simp: ScopeSet_of_set_def scopes_ok_def)

lemma ScopeSet_filter:
  "ScopeSet str = fold (\<lambda>s. scope_insert (SLPGetCanonicalString (SLPStringUnescape s))) (filter (\<lambda>t. t \<noteq> []) (StringSplit str '','')) []"
proof -
  have "fold (\<lambda>scope. if scope = [] then id else f scope) ts S = fold f (filter (\<lambda>t. t \<noteq> []) ts) S"
    for f :: "string \<Rightarrow> scope_set \<Rightarrow> scope_set" and ts S by (induction ts arbitrary: S) auto
  then show ?thesis by (simp add: ScopeSet_def)
qed

lemma ScopeSet_laws:
  "scopes_ok (ScopeSet str)"
  "set (ScopeSet str) = (\<lambda>t. SLPGetCanonicalString (SLPStringUnescape t)) ` {t \<in> set (StringSplit str '',''). t \<noteq> []}"
  using fold_insert_scopes [of "[]" "\<lambda>t. SLPGetCanonicalString (SLPStringUnescape t)" "filter (\<lambda>t. t \<noteq> []) (StringSplit str '','')"]
  by (auto simp: ScopeSet_filter scopes_ok_def)

lemma sets_equal: "set_ok xs \<Longrightarrow> set_ok ys \<Longrightarrow> set xs = set ys \<Longrightarrow> xs = ys"
  by (rule strict_sorted_equal)

lemma includes_set: "set_ok xs \<Longrightarrow> set_ok ys \<Longrightarrow> std_includes xs ys \<longleftrightarrow> set ys \<subseteq> set xs"
  by (induction xs ys rule: std_includes.induct) (auto simp: not_less_iff_gr_or_eq dest: order_less_trans)

lemma intersection_set:
  "set_ok xs \<Longrightarrow> set_ok ys \<Longrightarrow> set (std_intersection xs ys) = set xs \<inter> set ys \<and> set_ok (std_intersection xs ys)"
  by (induction xs ys rule: std_intersection.induct) (auto dest: order_less_trans)

lemma difference_set:
  "set_ok xs \<Longrightarrow> set_ok ys \<Longrightarrow> set (std_difference xs ys) = set xs - set ys \<and> set_ok (std_difference xs ys)"
  by (induction xs ys rule: std_difference.induct) (auto dest: order_less_trans)

lemma Intersects_set: "set_ok xs \<Longrightarrow> set_ok ys \<Longrightarrow> Intersects xs ys \<longleftrightarrow> set xs \<inter> set ys \<noteq> {}"
  by (induction xs ys rule: Intersects.induct) (auto dest: order_less_trans)

lemma IntersectionCount_length:
  "set_ok xs \<Longrightarrow> set_ok ys \<Longrightarrow> IntersectionCount xs ys = length (std_intersection xs ys)"
  by (induction xs ys rule: IntersectionCount.induct) auto

lemma difference_update_eq:
  "set_ok xs \<Longrightarrow> set_ok ys \<Longrightarrow> difference_update xs ys = (std_difference xs ys, std_intersection xs ys)"
  by (induction xs ys rule: difference_update.induct) auto

lemma AsEscapedString_join: "AsEscapedString scopes = join '','' (map SLPStringEscape scopes)"
  by (induction scopes) (auto simp: join_Cons)

section \<open>Properties\<close>

text \<open>Canonical forms. Two strings have the same canonical form exactly when they have the same words, up to the case of
  letters: the positions and kinds of white space do not matter, and nothing else is lost.\<close>

theorem slp_canonical_words:
  "SLPGetCanonicalString a = SLPGetCanonicalString b \<longleftrightarrow> map ToLower (words a) = map ToLower (words b)"
  by (metis canonical_words words_canonical)

text \<open>A set of scopes survives its text form: the escaped string of a set of canonical, non-empty scopes, even with commas
  and backslashes in their names, is read back as the same set.\<close>

theorem scope_text_roundtrip:
  assumes "scopes_ok scopes" "[] \<notin> set scopes"
  shows "ScopeSet (AsEscapedString scopes) = scopes"
proof (rule sets_equal)
  show "set_ok (ScopeSet (AsEscapedString scopes))" using ScopeSet_laws(1) by (simp add: scopes_ok_def)
  show "set_ok scopes" using assms(1) by (simp add: scopes_ok_def)
  have canon: "SLPGetCanonicalString (SLPStringUnescape (SLPStringEscape s)) = s" if "s \<in> set scopes" for s
    using assms(1) that by (simp add: unescape_escape scopes_ok_def)
  have "set (StringSplit (AsEscapedString scopes) '','') - {[]} = set (map SLPStringEscape scopes)"
  proof (cases "scopes = []")
    case True
    then show ?thesis by (simp add: StringSplit_no_delim)
  next
    case False
    have "StringSplit (AsEscapedString scopes) '','' = map SLPStringEscape scopes"
      unfolding AsEscapedString_join by (rule StringSplit_join) (use False escape_no_comma in auto)
    then show ?thesis using assms(2) by (auto simp: escape_Nil_iff)
  qed
  then have "{t \<in> set (StringSplit (AsEscapedString scopes) '',''). t \<noteq> []} = set (map SLPStringEscape scopes)" by blast
  then show "set (ScopeSet (AsEscapedString scopes)) = set scopes"
    unfolding ScopeSet_laws(2) using canon by (simp add: image_image)
qed

lemma scope_text_roundtrip_witness:
  "ScopeSet (AsEscapedString [''a,b'', ''default'']) = [''a,b'', ''default'']"
  by (rule scope_text_roundtrip) code_simp+

lemma scope_operations:
  assumes "scopes_ok a" "scopes_ok b"
  shows "IsSuperSet a b \<longleftrightarrow> set b \<subseteq> set a"
    and "Intersects a b \<longleftrightarrow> set a \<inter> set b \<noteq> {}"
    and "IntersectionCount a b = card (set a \<inter> set b)"
    and "scopes_ok (Intersection a b)" "set (Intersection a b) = set a \<inter> set b"
    and "scopes_ok (Difference a b)" "set (Difference a b) = set a - set b"
    and "scopes_ok (Scope_Update a b)" "set (Scope_Update a b) = set a \<union> set b"
    and "DifferenceUpdate a b = (Difference a b, Intersection a b)"
proof -
  have s: "set_ok a" "set_ok b" using assms by (simp_all add: scopes_ok_def)
  have canon: "SLPGetCanonicalString ` X = X" if "X \<subseteq> set a" for X
    using assms(1) that by (force simp: scopes_ok_def subset_iff)
  note I = intersection_set [OF s] and D = difference_set [OF s]
  have copy: "ScopeSet_of_set xs = xs" if "set_ok xs" "set xs \<subseteq> set a" for xs
    using ScopeSet_of_set_laws [of xs] that canon by (intro sets_equal) (simp_all add: scopes_ok_def)
  show "IsSuperSet a b \<longleftrightarrow> set b \<subseteq> set a" by (simp add: IsSuperSet_def includes_set s)
  show "Intersects a b \<longleftrightarrow> set a \<inter> set b \<noteq> {}" by (rule Intersects_set [OF s])
  show "IntersectionCount a b = card (set a \<inter> set b)"
    using I IntersectionCount_length [OF s] by (metis distinct_card strict_sorted_iff)
  show "scopes_ok (Intersection a b)" "set (Intersection a b) = set a \<inter> set b"
    using ScopeSet_of_set_laws canon I by (simp_all add: Intersection_def)
  show "scopes_ok (Difference a b)" "set (Difference a b) = set a - set b"
    using ScopeSet_of_set_laws canon D by (simp_all add: Difference_def)
  show "scopes_ok (Scope_Update a b)" "set (Scope_Update a b) = set a \<union> set b"
    using fold_insert_scopes [of a "\<lambda>x. x" b] assms s by (auto simp: Scope_Update_def scopes_ok_def)
  show "DifferenceUpdate a b = (Difference a b, Intersection a b)"
    using copy D by (simp add: DifferenceUpdate_def difference_update_eq [OF s] Difference_def Intersection_def)
qed

text \<open>C32: The operations on sets of scopes, which walk over two ascending sequences at once, are the operations on sets:
  inclusion, intersection with its size, difference, union and the update that removes common scopes and returns them.\<close>

theorem scope_set_laws:
  assumes "scopes_ok a" "scopes_ok b"
  shows "(IsSuperSet a b \<longleftrightarrow> set b \<subseteq> set a) \<and>
    (Intersects a b \<longleftrightarrow> set a \<inter> set b \<noteq> {}) \<and>
    IntersectionCount a b = card (set a \<inter> set b) \<and>
    scopes_ok (Intersection a b) \<and> set (Intersection a b) = set a \<inter> set b \<and>
    scopes_ok (Difference a b) \<and> set (Difference a b) = set a - set b \<and>
    scopes_ok (Scope_Update a b) \<and> set (Scope_Update a b) = set a \<union> set b \<and>
    DifferenceUpdate a b = (Difference a b, Intersection a b)"
  using scope_operations [OF assms] by blast

lemma scope_set_laws_witness:
  "Intersection [''a'', ''b'', ''d''] [''b'', ''c'', ''d''] = [''b'', ''d''] \<and>
   DifferenceUpdate [''a'', ''b'', ''d''] [''b'', ''c'', ''d''] = ([''a''], [''b'', ''d''])"
proof -
  have a: "scopes_ok [''a'', ''b'', ''d'']" and b: "scopes_ok [''b'', ''c'', ''d'']" by code_simp+
  have "Intersection [''a'', ''b'', ''d''] [''b'', ''c'', ''d''] = [''b'', ''d'']"
    "Difference [''a'', ''b'', ''d''] [''b'', ''c'', ''d''] = [''a'']" by code_simp+
  then show ?thesis using scope_set_laws [OF a b] by simp
qed

end
