(* ===== verification/IO_Stream.thy ===== *)
theory IO_Stream
  imports IO_Facts Message_Facts
begin

text \<open>
  Streams of integers and strings over buffers: \<^verbatim>\<open>include/ola/io/InputStream.h\<close>, \<^verbatim>\<open>include/ola/io/OutputStream.h\<close> and
  \<^verbatim>\<open>include/ola/io/BigEndianStream.h\<close>. A stream calls a buffer through the interfaces \<open>InputBufferInterface\<close> and
  \<open>OutputBufferInterface\<close>, so the operations here take the buffer's \<open>Read\<close> or \<open>Write\<close> as an argument. Three contracts say what
  buffers promise, with the facts on streams proved once for each of them: \<open>output_buffer\<close>, which \<open>IOQueue\<close> keeps,
  \<open>input_buffer\<close>, which \<open>IOQueue\<close>, \<open>IOStack\<close> and \<open>MemoryBuffer\<close> keep, and \<open>string_buffer\<close>, which also promises that
  reading a string consumes it and which only \<open>MemoryBuffer\<close> keeps.
\<close>

section \<open>The streams\<close>

text \<open>\<open>Extract\<close> of \<open>InputStream\<close>. When there is too little data, what there is has been consumed; no caller goes on then, so
  the result is \<open>None\<close>.\<close>

definition Extract :: "(nat \<Rightarrow> 's \<Rightarrow> bytes \<times> 's) \<Rightarrow> nat \<Rightarrow> 's \<Rightarrow> (bytes \<times> 's) option" where
  "Extract read len s = (let (xs, s') = read len s in if length xs = len then Some (xs, s') else None)"

text \<open>The operators \<open>>>\<close> of \<open>BigEndianInputStream\<close>, and \<open>ReadString\<close> with the check of the number of bytes that all callers
  make.\<close>

definition in_u8 :: "(nat \<Rightarrow> 's \<Rightarrow> bytes \<times> 's) \<Rightarrow> 's \<Rightarrow> (u8 \<times> 's) option" where
  "in_u8 read s = do { (xs, s1) \<leftarrow> Extract read 1 s; Some (xs ! 0, s1) }"

definition in_u16 :: "bool \<Rightarrow> (nat \<Rightarrow> 's \<Rightarrow> bytes \<times> 's) \<Rightarrow> 's \<Rightarrow> (u16 \<times> 's) option" where
  "in_u16 big read s = do { (xs, s1) \<leftarrow> Extract read 2 s; Some (HostToNetwork_16 big (of_mem16 big xs), s1) }"

definition in_u32 :: "bool \<Rightarrow> (nat \<Rightarrow> 's \<Rightarrow> bytes \<times> 's) \<Rightarrow> 's \<Rightarrow> (u32 \<times> 's) option" where
  "in_u32 big read s = do { (xs, s1) \<leftarrow> Extract read 4 s; Some (HostToNetwork_32 big (of_mem32 big xs), s1) }"

definition in_string :: "(nat \<Rightarrow> 's \<Rightarrow> bytes \<times> 's) \<Rightarrow> nat \<Rightarrow> 's \<Rightarrow> (string \<times> 's) option" where
  "in_string read_string len s =
     (let (xs, s1) = read_string len s in if length xs = len then Some (map byte_char xs, s1) else None)"

text \<open>The operators \<open><<\<close> of \<open>BigEndianOutputStream\<close>.\<close>

definition out_u8 :: "(bytes \<Rightarrow> 's \<Rightarrow> 's option) \<Rightarrow> u8 \<Rightarrow> 's \<Rightarrow> 's option" where
  "out_u8 write v s = write [v] s"

definition out_u16 :: "bool \<Rightarrow> (bytes \<Rightarrow> 's \<Rightarrow> 's option) \<Rightarrow> u16 \<Rightarrow> 's \<Rightarrow> 's option" where
  "out_u16 big write v s = write (mem16 big (HostToNetwork_16 big v)) s"

definition out_u32 :: "bool \<Rightarrow> (bytes \<Rightarrow> 's \<Rightarrow> 's option) \<Rightarrow> u32 \<Rightarrow> 's \<Rightarrow> 's option" where
  "out_u32 big write v s = write (mem32 big (HostToNetwork_32 big v)) s"

section \<open>What writers and readers do\<close>

text \<open>A writer \<open>emits\<close> bytes when it always succeeds and adds exactly them to the buffer.\<close>

definition emits :: "('s \<Rightarrow> bytes) \<Rightarrow> ('s \<Rightarrow> bool) \<Rightarrow> ('s \<Rightarrow> 's option) \<Rightarrow> bytes \<Rightarrow> bool" where
  "emits content ok f xs \<longleftrightarrow> (\<forall>s. ok s \<longrightarrow> (\<exists>s'. f s = Some s' \<and> ok s' \<and> content s' = content s @ xs))"

text \<open>A reader \<open>parses\<close> bytes to a value when, on a buffer that starts with them, it returns the value and consumes exactly
  them.\<close>

definition parses :: "('s \<Rightarrow> bytes) \<Rightarrow> ('s \<Rightarrow> bool) \<Rightarrow> ('s \<Rightarrow> ('a \<times> 's) option) \<Rightarrow> bytes \<Rightarrow> 'a \<Rightarrow> bool" where
  "parses content ok f xs v \<longleftrightarrow>
     (\<forall>s rest. ok s \<longrightarrow> content s = xs @ rest \<longrightarrow> (\<exists>s'. f s = Some (v, s') \<and> ok s' \<and> content s' = rest))"

lemma emits_bind:
  "emits content ok f xs \<Longrightarrow> emits content ok g ys \<Longrightarrow> emits content ok (\<lambda>s. Option.bind (f s) g) (xs @ ys)"
  by (fastforce simp: emits_def)

lemma emits_apply:
  assumes "emits content ok f xs" "ok s"
  obtains s' where "f s = Some s'" "ok s'" "content s' = content s @ xs"
  using assms unfolding emits_def by blast

lemma emits_return: "emits content ok Some []"
  by (simp add: emits_def)

lemma parses_bind:
  "parses content ok f xs v \<Longrightarrow> parses content ok (g v) ys w \<Longrightarrow>
    parses content ok (\<lambda>s. Option.bind (f s) (\<lambda>(a, s1). g a s1)) (xs @ ys) w"
  by (fastforce simp: parses_def)

lemma parses_return: "parses content ok (\<lambda>s. Some (v, s)) [] v"
  by (simp add: parses_def)

section \<open>The contracts of the buffers\<close>

lemma network_values:
  "HostToNetwork_16 big (of_mem16 big (be16 v)) = v" "HostToNetwork_32 big (of_mem32 big (be32 w)) = w"
proof -
  have "swap16 (swap16 v) = v" "ByteSwap (ByteSwap w) = w"
    by (simp_all add: be16_swap16 be32_ByteSwap flip: be_inject)
  then have "HostToNetwork_16 big (HostToNetwork_16 big v) = v" "HostToNetwork_32 big (HostToNetwork_32 big w) = w"
    by (simp_all add: HostToNetwork_16_def HostToNetwork_32_def)
  then show "HostToNetwork_16 big (of_mem16 big (be16 v)) = v" "HostToNetwork_32 big (of_mem32 big (be32 w)) = w"
    by (simp_all flip: network_bytes [where big = big])
qed

locale output_buffer =
  fixes content :: "'s \<Rightarrow> bytes" and ok :: "'s \<Rightarrow> bool" and wr :: "bytes \<Rightarrow> 's \<Rightarrow> 's option"
  assumes write_appends: "emits content ok (wr xs) xs"
begin

lemma emits_u8: "emits content ok (out_u8 wr v) [v]"
  using write_appends by (simp add: out_u8_def [abs_def])

lemma emits_u16: "emits content ok (out_u16 big wr v) (be16 v)"
  using write_appends by (simp add: out_u16_def [abs_def] network_bytes)

lemma emits_u32: "emits content ok (out_u32 big wr v) (be32 v)"
  using write_appends by (simp add: out_u32_def [abs_def] network_bytes)

end

locale input_buffer =
  fixes content :: "'s \<Rightarrow> bytes" and ok :: "'s \<Rightarrow> bool" and read :: "nat \<Rightarrow> 's \<Rightarrow> bytes \<times> 's"
  assumes read_takes: "ok s \<Longrightarrow> read n s = (xs, s') \<Longrightarrow> xs = take n (content s) \<and> ok s' \<and> content s' = drop n (content s)"
begin

lemma parses_Extract: "length xs = n \<Longrightarrow> parses content ok (Extract read n) xs xs"
  using read_takes [of _ n] unfolding parses_def Extract_def by (fastforce split: prod.split)

lemma parses_u8: "parses content ok (in_u8 read) [v] v"
  using parses_bind [OF parses_Extract [of "[v]" 1] parses_return, of "\<lambda>xs. xs ! 0"] by (simp add: in_u8_def [abs_def])

lemma parses_u16: "parses content ok (in_u16 big read) (be16 v) v"
  using parses_bind [OF parses_Extract [of "be16 v" 2] parses_return, of "\<lambda>xs. HostToNetwork_16 big (of_mem16 big xs)"]
  by (simp add: in_u16_def [abs_def] network_values)

lemma parses_u32: "parses content ok (in_u32 big read) (be32 v) v"
  using parses_bind [OF parses_Extract [of "be32 v" 4] parses_return, of "\<lambda>xs. HostToNetwork_32 big (of_mem32 big xs)"]
  by (simp add: in_u32_def [abs_def] network_values)

text \<open>With too little data nothing is returned.\<close>

lemma Extract_short: "ok s \<Longrightarrow> length (content s) < n \<Longrightarrow> Extract read n s = None"
  using read_takes [of s n] by (cases "read n s") (auto simp: Extract_def)

end

locale string_buffer = input_buffer content ok read
  for content :: "'s \<Rightarrow> bytes" and ok and read +
  fixes read_string :: "nat \<Rightarrow> 's \<Rightarrow> bytes \<times> 's"
  assumes read_string_takes:
    "ok s \<Longrightarrow> read_string n s = (xs, s') \<Longrightarrow> xs = take n (content s) \<and> ok s' \<and> content s' = drop n (content s)"
begin

lemma parses_string: "length str = n \<Longrightarrow> parses content ok (in_string read_string n) (map char_byte str) str"
  using read_string_takes [of _ n] unfolding parses_def in_string_def
  by (fastforce simp: comp_def split: prod.split)

end

section \<open>The buffers keep their contracts\<close>

abbreviation queue_content :: "memory_pool \<times> blocks \<Rightarrow> bytes" where
  "queue_content q \<equiv> contents (snd q)"

abbreviation queue_clean :: "memory_pool \<times> blocks \<Rightarrow> bool" where
  "queue_clean q \<equiv> queue_ok q \<and> clean (fst q)"

definition memory_content :: "memory_buffer \<Rightarrow> bytes" where
  "memory_content b = drop (m_cursor b) (buf_data b)"

interpretation queue_out: output_buffer queue_content queue_clean IOQueue_Write
proof unfold_locales
  fix xs show "emits queue_content queue_clean (IOQueue_Write xs) xs"
    unfolding emits_def using IOQueue_Write_total [of _ xs] by metis
qed

interpretation queue_in: input_buffer queue_content queue_clean IOQueue_Read
  by unfold_locales (use Pop_laws [OF _ refl] in \<open>auto simp: Read_pop\<close>)

interpretation stack_in: input_buffer queue_content queue_clean IOStack_Read
  by unfold_locales (use Pop_laws [OF _ refl] in \<open>auto simp: stack_as_queue Read_pop\<close>)

interpretation memory_in: string_buffer memory_content "\<lambda>b. True" MemoryBuffer_Read MemoryBuffer_ReadString
  by unfold_locales (auto simp: memory_content_def MemoryBuffer_Read_def MemoryBuffer_ReadString_def Let_def min_def ac_simps)

end
