(* ===== verification/SLP_Packet.thy ===== *)
theory SLP_Packet
  imports SLP_Facts IO_Stream
begin

text \<open>
  Packets of the service location protocol: \<^verbatim>\<open>include/ola/slp/URLEntry.h\<close>, \<^verbatim>\<open>slp/URLEntry.cpp\<close>, \<^verbatim>\<open>slp/ServiceEntry.h\<close>,
  \<^verbatim>\<open>slp/SLPPacketBuilder.cpp\<close>, which writes packets to a stream, and \<^verbatim>\<open>slp/SLPPacketParser.cpp\<close>, which reads them. The
  functions take the byte order of the host and the operations of the buffer under the stream (\<open>wr\<close>; \<open>rd\<close> and \<open>rs\<close>).
  Addresses are of any type; their conversion to and from text, which the operating system does, is an argument
  (\<open>ip_to_string\<close>, \<open>ip_from_string\<close>).
\<close>

section \<open>Constants\<close>

definition SLP_VERSION :: u8 where "SLP_VERSION = 2"

definition SERVICE_REQUEST :: u8 where "SERVICE_REQUEST = 1"

definition SERVICE_REPLY :: u8 where "SERVICE_REPLY = 2"

definition SERVICE_REGISTRATION :: u8 where "SERVICE_REGISTRATION = 3"

definition SERVICE_DEREGISTER :: u8 where "SERVICE_DEREGISTER = 4"

definition SERVICE_ACKNOWLEDGE :: u8 where "SERVICE_ACKNOWLEDGE = 5"

definition DA_ADVERTISEMENT :: u8 where "DA_ADVERTISEMENT = 8"

definition SERVICE_TYPE_REQUEST :: u8 where "SERVICE_TYPE_REQUEST = 9"

definition SERVICE_TYPE_REPLY :: u8 where "SERVICE_TYPE_REPLY = 10"

definition SA_ADVERTISEMENT :: u8 where "SA_ADVERTISEMENT = 11"

definition SLP_FRESH :: u16 where "SLP_FRESH = 0x4000"

definition SLP_REQUEST_MCAST :: u16 where "SLP_REQUEST_MCAST = 0x2000"

definition EN_LANGUAGE_TAG :: string where "EN_LANGUAGE_TAG = ''en''"

section \<open>Entries\<close>

record url_entry =
  url_string :: string
  url_lifetime :: u16

text \<open>The entry after it aged, and if it has expired.\<close>

definition AgeLifetime :: "u16 \<Rightarrow> url_entry \<Rightarrow> bool \<times> url_entry" where
  "AgeLifetime seconds e =
     (if url_lifetime e \<le> seconds then (True, e\<lparr>url_lifetime := 0\<rparr>)
      else (False, e\<lparr>url_lifetime := url_lifetime e - seconds\<rparr>))"

definition PackedSize :: "url_entry \<Rightarrow> u32" where
  "PackedSize e = 6 + of_nat (length (url_string e))"

record service_entry =
  m_local :: bool
  m_url :: url_entry
  m_service_type :: string
  m_scopes :: scope_set

text \<open>The constructor that takes the type of the service from its URL.\<close>

definition ServiceEntry :: "scope_set \<Rightarrow> string \<Rightarrow> u16 \<Rightarrow> bool \<Rightarrow> service_entry" where
  "ServiceEntry scopes url lifetime is_local =
     \<lparr>m_local = is_local, m_url = \<lparr>url_string = url, url_lifetime = lifetime\<rparr>, m_service_type = SLPServiceFromURL url,
      m_scopes = scopes\<rparr>"

section \<open>The builder\<close>

definition WriteString :: "bool \<Rightarrow> (bytes \<Rightarrow> 's \<Rightarrow> 's option) \<Rightarrow> string \<Rightarrow> 's \<Rightarrow> 's option" where
  "WriteString big wr data s = do { s \<leftarrow> out_u16 big wr (of_nat (length data)) s; wr (map char_byte data) s }"

definition URLEntry_Write :: "bool \<Rightarrow> (bytes \<Rightarrow> 's \<Rightarrow> 's option) \<Rightarrow> url_entry \<Rightarrow> 's \<Rightarrow> 's option" where
  "URLEntry_Write big wr e s =
     do { s \<leftarrow> out_u8 wr 0 s;
          s \<leftarrow> out_u16 big wr (url_lifetime e) s;
          s \<leftarrow> out_u16 big wr (of_nat (length (url_string e))) s;
          s \<leftarrow> wr (map char_byte (url_string e)) s;
          out_u8 wr 0 s }"

definition BuildSLPHeader ::
    "bool \<Rightarrow> (bytes \<Rightarrow> 's \<Rightarrow> 's option) \<Rightarrow> u8 \<Rightarrow> u32 \<Rightarrow> u16 \<Rightarrow> u16 \<Rightarrow> string \<Rightarrow> 's \<Rightarrow> 's option" where
  "BuildSLPHeader big wr function_id content_length flags xid language s =
     (let len = content_length + (14 + of_nat (length language))
      in do { s \<leftarrow> out_u8 wr SLP_VERSION s;
              s \<leftarrow> out_u8 wr function_id s;
              s \<leftarrow> out_u16 big wr (ucast (drop_bit 8 len)) s;
              s \<leftarrow> out_u8 wr (ucast len) s;
              s \<leftarrow> out_u16 big wr flags s;
              s \<leftarrow> out_u8 wr 0 s;
              s \<leftarrow> out_u16 big wr 0 s;
              s \<leftarrow> out_u16 big wr xid s;
              WriteString big wr language s })"

text \<open>The length of a request does not count the predicate.\<close>

definition BuildServiceRequest ::
    "bool \<Rightarrow> (bytes \<Rightarrow> 's \<Rightarrow> 's option) \<Rightarrow> u16 \<Rightarrow> bool \<Rightarrow> string \<Rightarrow> string \<Rightarrow> string \<Rightarrow> scope_set \<Rightarrow> string \<Rightarrow> 's \<Rightarrow> 's option" where
  "BuildServiceRequest big wr xid multicast language pr_list service_type scopes predicate s =
     (let joined_scopes = AsEscapedString scopes;
          len = 10 + of_nat (length pr_list) + of_nat (length service_type) + of_nat (length joined_scopes)
      in do { s \<leftarrow> BuildSLPHeader big wr SERVICE_REQUEST len (if multicast then SLP_REQUEST_MCAST else 0) xid language s;
              s \<leftarrow> WriteString big wr pr_list s;
              s \<leftarrow> WriteString big wr service_type s;
              s \<leftarrow> WriteString big wr joined_scopes s;
              s \<leftarrow> WriteString big wr predicate s;
              out_u16 big wr 0 s })"

definition StringJoin_ips :: "('ip \<Rightarrow> string) \<Rightarrow> 'ip list \<Rightarrow> string" where
  "StringJoin_ips ip_to_string ips = join '','' (map ip_to_string ips)"

definition BuildServiceRequest_ips ::
    "('ip \<Rightarrow> string) \<Rightarrow> bool \<Rightarrow> (bytes \<Rightarrow> 's \<Rightarrow> 's option) \<Rightarrow> u16 \<Rightarrow> bool \<Rightarrow> string \<Rightarrow> 'ip list \<Rightarrow> string \<Rightarrow> scope_set \<Rightarrow> string \<Rightarrow>
      's \<Rightarrow> 's option" where
  "BuildServiceRequest_ips ip_to_string big wr xid multicast language pr_list service_type scopes predicate s =
     BuildServiceRequest big wr xid multicast language (StringJoin_ips ip_to_string pr_list) service_type scopes predicate s"

fun write_urls :: "bool \<Rightarrow> (bytes \<Rightarrow> 's \<Rightarrow> 's option) \<Rightarrow> url_entry list \<Rightarrow> 's \<Rightarrow> 's option" where
  "write_urls big wr [] s = Some s"
| "write_urls big wr (e # es) s = do { s \<leftarrow> URLEntry_Write big wr e s; write_urls big wr es s }"

definition BuildServiceReply ::
    "bool \<Rightarrow> (bytes \<Rightarrow> 's \<Rightarrow> 's option) \<Rightarrow> u16 \<Rightarrow> string \<Rightarrow> u16 \<Rightarrow> url_entry list \<Rightarrow> 's \<Rightarrow> 's option" where
  "BuildServiceReply big wr xid language error_code urls s =
     do { s \<leftarrow> BuildSLPHeader big wr SERVICE_REPLY (4 + sum_list (map PackedSize urls)) 0 xid language s;
          s \<leftarrow> out_u16 big wr error_code s;
          s \<leftarrow> out_u16 big wr (of_nat (length urls)) s;
          write_urls big wr urls s }"

definition BuildServiceRegistration ::
    "bool \<Rightarrow> (bytes \<Rightarrow> 's \<Rightarrow> 's option) \<Rightarrow> u16 \<Rightarrow> bool \<Rightarrow> scope_set \<Rightarrow> service_entry \<Rightarrow> 's \<Rightarrow> 's option" where
  "BuildServiceRegistration big wr xid fresh scopes service s =
     (let joined_scopes = AsEscapedString scopes;
          len = PackedSize (m_url service) + 2 + of_nat (length (m_service_type service)) + 2 +
                of_nat (length joined_scopes) + 3
      in do { s \<leftarrow> BuildSLPHeader big wr SERVICE_REGISTRATION len (if fresh then SLP_FRESH else 0) xid EN_LANGUAGE_TAG s;
              s \<leftarrow> URLEntry_Write big wr (m_url service) s;
              s \<leftarrow> WriteString big wr (m_service_type service) s;
              s \<leftarrow> WriteString big wr joined_scopes s;
              s \<leftarrow> out_u16 big wr 0 s;
              out_u8 wr 0 s })"

definition BuildServiceDeRegistration ::
    "bool \<Rightarrow> (bytes \<Rightarrow> 's \<Rightarrow> 's option) \<Rightarrow> u16 \<Rightarrow> scope_set \<Rightarrow> service_entry \<Rightarrow> 's \<Rightarrow> 's option" where
  "BuildServiceDeRegistration big wr xid scopes service s =
     (let joined_scopes = AsEscapedString scopes;
          len = 2 + of_nat (length joined_scopes) + PackedSize (m_url service) + 2
      in do { s \<leftarrow> BuildSLPHeader big wr SERVICE_DEREGISTER len 0 xid EN_LANGUAGE_TAG s;
              s \<leftarrow> WriteString big wr joined_scopes s;
              s \<leftarrow> URLEntry_Write big wr (m_url service) s;
              out_u16 big wr 0 s })"

definition BuildServiceAck ::
    "bool \<Rightarrow> (bytes \<Rightarrow> 's \<Rightarrow> 's option) \<Rightarrow> u16 \<Rightarrow> string \<Rightarrow> u16 \<Rightarrow> 's \<Rightarrow> 's option" where
  "BuildServiceAck big wr xid language error_code s =
     do { s \<leftarrow> BuildSLPHeader big wr SERVICE_ACKNOWLEDGE 2 0 xid language s; out_u16 big wr error_code s }"

definition BuildDAAdvert ::
    "bool \<Rightarrow> (bytes \<Rightarrow> 's \<Rightarrow> 's option) \<Rightarrow> u16 \<Rightarrow> bool \<Rightarrow> u16 \<Rightarrow> u32 \<Rightarrow> string \<Rightarrow> scope_set \<Rightarrow> 's \<Rightarrow> 's option" where
  "BuildDAAdvert big wr xid multicast error_code boot_timestamp url scopes s =
     (let joined_scopes = AsEscapedString scopes;
          len = 8 + of_nat (length url) + of_nat (length joined_scopes) + 7
      in do { s \<leftarrow> BuildSLPHeader big wr DA_ADVERTISEMENT len (if multicast then SLP_REQUEST_MCAST else 0) xid EN_LANGUAGE_TAG s;
              s \<leftarrow> out_u16 big wr (if multicast then 0 else error_code) s;
              s \<leftarrow> out_u32 big wr boot_timestamp s;
              s \<leftarrow> WriteString big wr url s;
              s \<leftarrow> WriteString big wr joined_scopes s;
              s \<leftarrow> out_u16 big wr 0 s;
              s \<leftarrow> out_u16 big wr 0 s;
              out_u8 wr 0 s })"

definition BuildAllServiceTypeRequest ::
    "('ip \<Rightarrow> string) \<Rightarrow> bool \<Rightarrow> (bytes \<Rightarrow> 's \<Rightarrow> 's option) \<Rightarrow> u16 \<Rightarrow> bool \<Rightarrow> 'ip list \<Rightarrow> scope_set \<Rightarrow> 's \<Rightarrow> 's option" where
  "BuildAllServiceTypeRequest ip_to_string big wr xid multicast pr_list scopes s =
     (let joined_pr_list = StringJoin_ips ip_to_string pr_list;
          joined_scopes = AsEscapedString scopes;
          len = 6 + of_nat (length joined_pr_list) + of_nat (length joined_scopes)
      in do { s \<leftarrow> BuildSLPHeader big wr SERVICE_TYPE_REQUEST len (if multicast then SLP_REQUEST_MCAST else 0) xid EN_LANGUAGE_TAG s;
              s \<leftarrow> WriteString big wr joined_pr_list s;
              s \<leftarrow> out_u16 big wr 0xffff s;
              WriteString big wr joined_scopes s })"

definition BuildServiceTypeRequest ::
    "('ip \<Rightarrow> string) \<Rightarrow> bool \<Rightarrow> (bytes \<Rightarrow> 's \<Rightarrow> 's option) \<Rightarrow> u16 \<Rightarrow> bool \<Rightarrow> 'ip list \<Rightarrow> string \<Rightarrow> scope_set \<Rightarrow> 's \<Rightarrow> 's option" where
  "BuildServiceTypeRequest ip_to_string big wr xid multicast pr_list naming_auth scopes s =
     (let joined_pr_list = StringJoin_ips ip_to_string pr_list;
          joined_scopes = AsEscapedString scopes;
          len = 6 + of_nat (length joined_pr_list) + of_nat (length naming_auth) + of_nat (length joined_scopes)
      in do { s \<leftarrow> BuildSLPHeader big wr SERVICE_TYPE_REQUEST len (if multicast then SLP_REQUEST_MCAST else 0) xid EN_LANGUAGE_TAG s;
              s \<leftarrow> WriteString big wr joined_pr_list s;
              s \<leftarrow> WriteString big wr naming_auth s;
              WriteString big wr joined_scopes s })"

definition BuildServiceTypeReply ::
    "bool \<Rightarrow> (bytes \<Rightarrow> 's \<Rightarrow> 's option) \<Rightarrow> u16 \<Rightarrow> u16 \<Rightarrow> string list \<Rightarrow> 's \<Rightarrow> 's option" where
  "BuildServiceTypeReply big wr xid error_code service_types s =
     (let joined_service_types = join '','' (map SLPStringEscape service_types);
          len = 4 + of_nat (length joined_service_types)
      in do { s \<leftarrow> BuildSLPHeader big wr SERVICE_TYPE_REPLY len 0 xid EN_LANGUAGE_TAG s;
              s \<leftarrow> out_u16 big wr error_code s;
              WriteString big wr joined_service_types s })"

definition BuildSAAdvert ::
    "bool \<Rightarrow> (bytes \<Rightarrow> 's \<Rightarrow> 's option) \<Rightarrow> u16 \<Rightarrow> bool \<Rightarrow> string \<Rightarrow> scope_set \<Rightarrow> 's \<Rightarrow> 's option" where
  "BuildSAAdvert big wr xid multicast url scopes s =
     (let joined_scopes = AsEscapedString scopes;
          len = 7 + of_nat (length url) + of_nat (length joined_scopes)
      in do { s \<leftarrow> BuildSLPHeader big wr SA_ADVERTISEMENT len (if multicast then SLP_REQUEST_MCAST else 0) xid EN_LANGUAGE_TAG s;
              s \<leftarrow> WriteString big wr url s;
              s \<leftarrow> WriteString big wr joined_scopes s;
              s \<leftarrow> out_u16 big wr 0 s;
              out_u8 wr 0 s })"

definition BuildError ::
    "bool \<Rightarrow> (bytes \<Rightarrow> 's \<Rightarrow> 's option) \<Rightarrow> u8 \<Rightarrow> u16 \<Rightarrow> string \<Rightarrow> u16 \<Rightarrow> 's \<Rightarrow> 's option" where
  "BuildError big wr function_id xid language error_code s =
     do { s \<leftarrow> BuildSLPHeader big wr function_id 2 0 xid language s; out_u16 big wr error_code s }"

section \<open>Packets\<close>

record slp_packet =
  p_xid :: u16
  p_flags :: u16
  p_language :: string

record 'ip service_request_packet = slp_packet +
  rq_pr_list :: "'ip list"
  rq_service_type :: string
  rq_scope_list :: string
  rq_predicate :: string
  rq_spi :: string

record service_reply_packet = slp_packet +
  rp_error_code :: u16
  rp_url_entries :: "url_entry list"

record service_registration_packet = slp_packet +
  rg_url :: url_entry
  rg_service_type :: string
  rg_scope_list :: string
  rg_attr_list :: string

record service_deregistration_packet = slp_packet +
  dr_url :: url_entry
  dr_scope_list :: string
  dr_tag_list :: string

record service_ack_packet = slp_packet +
  ack_error_code :: u16

text \<open>The time stamp of a truncated error packet is not set.\<close>

record da_advert_packet = slp_packet +
  da_error_code :: u16
  da_boot_timestamp :: "u32 option"
  da_url :: string
  da_scope_list :: string
  da_attr_list :: string

record 'ip service_type_request_packet = slp_packet +
  st_pr_list :: "'ip list"
  st_include_all :: bool
  st_naming_authority :: string
  st_scope_list :: string

section \<open>The parser\<close>

type_synonym 's reader = "nat \<Rightarrow> 's \<Rightarrow> bytes \<times> 's"

definition DetermineFunctionID :: "bytes \<Rightarrow> u8" where
  "DetermineFunctionID data = (if length data < 2 then 0 else data ! 1)"

definition ExtractString :: "bool \<Rightarrow> 's reader \<Rightarrow> 's reader \<Rightarrow> bool \<Rightarrow> 's \<Rightarrow> (string \<times> 's) option" where
  "ExtractString big rd rs unesc s =
     do { (str_length, s) \<leftarrow> in_u16 big rd s;
          (result, s) \<leftarrow> in_string rs (unat str_length) s;
          Some (if unesc then SLPStringUnescape result else result, s) }"

text \<open>The header; its length is not checked, and extensions are ignored.\<close>

definition ExtractHeader :: "bool \<Rightarrow> 's reader \<Rightarrow> 's reader \<Rightarrow> 's \<Rightarrow> (slp_packet \<times> 's) option" where
  "ExtractHeader big rd rs s =
     do { (version, s) \<leftarrow> in_u8 rd s;
          if version \<noteq> SLP_VERSION then None
          else
            do { (function_id, s) \<leftarrow> in_u8 rd s;
                 (length_hi, s) \<leftarrow> in_u16 big rd s;
                 (length_lo, s) \<leftarrow> in_u8 rd s;
                 (flags, s) \<leftarrow> in_u16 big rd s;
                 (next_ext_hi, s) \<leftarrow> in_u8 rd s;
                 (next_ext_lo, s) \<leftarrow> in_u16 big rd s;
                 (xid, s) \<leftarrow> in_u16 big rd s;
                 (language, s) \<leftarrow> ExtractString big rd rs True s;
                 Some (\<lparr>p_xid = xid, p_flags = flags, p_language = language\<rparr>, s) } }"

definition ExtractAuthBlock :: "bool \<Rightarrow> 's reader \<Rightarrow> 's reader \<Rightarrow> 's \<Rightarrow> (unit \<times> 's) option" where
  "ExtractAuthBlock big rd rs s =
     do { (block_descriptor, s) \<leftarrow> in_u16 big rd s;
          (block_length, s) \<leftarrow> in_u16 big rd s;
          (timestamp, s) \<leftarrow> in_u32 big rd s;
          (spi_string, s) \<leftarrow> ExtractString big rd rs True s;
          (let auth_block_size = uint block_length - int (2 + 2 + 4 + 2 + length spi_string)
           in if auth_block_size < 0 then None
              else if auth_block_size = 0 then Some ((), s)
              else do { (auth_block_data, s) \<leftarrow> in_string rs (nat auth_block_size) s; Some ((), s) }) }"

fun extract_auth_blocks :: "bool \<Rightarrow> 's reader \<Rightarrow> 's reader \<Rightarrow> nat \<Rightarrow> 's \<Rightarrow> (unit \<times> 's) option" where
  "extract_auth_blocks big rd rs 0 s = Some ((), s)"
| "extract_auth_blocks big rd rs (Suc n) s =
     do { (_, s) \<leftarrow> ExtractAuthBlock big rd rs s; extract_auth_blocks big rd rs n s }"

definition ExtractURLEntry :: "bool \<Rightarrow> 's reader \<Rightarrow> 's reader \<Rightarrow> 's \<Rightarrow> (url_entry \<times> 's) option" where
  "ExtractURLEntry big rd rs s =
     do { (reserved, s) \<leftarrow> in_u8 rd s;
          (lifetime, s) \<leftarrow> in_u16 big rd s;
          (url, s) \<leftarrow> ExtractString big rd rs True s;
          (url_auths, s) \<leftarrow> in_u8 rd s;
          (_, s) \<leftarrow> extract_auth_blocks big rd rs (unat url_auths) s;
          Some (\<lparr>url_string = url, url_lifetime = lifetime\<rparr>, s) }"

text \<open>Addresses that are not valid are skipped.\<close>

definition ConvertIPAddressList :: "(string \<Rightarrow> 'ip option) \<Rightarrow> string \<Rightarrow> 'ip list" where
  "ConvertIPAddressList ip_from_string list =
     (if list = [] then [] else List.map_filter ip_from_string (StringSplit list '',''))"

definition UnpackServiceRequest ::
    "(string \<Rightarrow> 'ip option) \<Rightarrow> bool \<Rightarrow> 's reader \<Rightarrow> 's reader \<Rightarrow> 's \<Rightarrow> ('ip service_request_packet \<times> 's) option" where
  "UnpackServiceRequest ip_from_string big rd rs s =
     do { (header, s) \<leftarrow> ExtractHeader big rd rs s;
          (pr_list, s) \<leftarrow> ExtractString big rd rs True s;
          (service_type, s) \<leftarrow> ExtractString big rd rs True s;
          (scope_list, s) \<leftarrow> ExtractString big rd rs False s;
          (predicate, s) \<leftarrow> ExtractString big rd rs True s;
          (spi, s) \<leftarrow> ExtractString big rd rs True s;
          Some (slp_packet.extend header
                  (service_request_packet.fields (ConvertIPAddressList ip_from_string pr_list) service_type scope_list predicate spi), s) }"

text \<open>The loop over the entries stops at the first one that is not complete.\<close>

fun extract_url_entries :: "bool \<Rightarrow> 's reader \<Rightarrow> 's reader \<Rightarrow> nat \<Rightarrow> 's \<Rightarrow> url_entry list" where
  "extract_url_entries big rd rs 0 s = []"
| "extract_url_entries big rd rs (Suc n) s =
     (case ExtractURLEntry big rd rs s of None \<Rightarrow> [] | Some (e, s) \<Rightarrow> e # extract_url_entries big rd rs n s)"

text \<open>A reply with an error may be truncated after the error code.\<close>

definition UnpackServiceReply :: "bool \<Rightarrow> 's reader \<Rightarrow> 's reader \<Rightarrow> 's \<Rightarrow> service_reply_packet option" where
  "UnpackServiceReply big rd rs s =
     do { (header, s) \<leftarrow> ExtractHeader big rd rs s;
          (error_code, s) \<leftarrow> in_u16 big rd s;
          (case in_u16 big rd s of
             None \<Rightarrow>
               if error_code \<noteq> 0 then Some (slp_packet.extend header (service_reply_packet.fields error_code [])) else None
           | Some (url_entry_count, s) \<Rightarrow>
               Some (slp_packet.extend header
                 (service_reply_packet.fields error_code (extract_url_entries big rd rs (unat url_entry_count) s)))) }"

definition UnpackServiceRegistration ::
    "bool \<Rightarrow> 's reader \<Rightarrow> 's reader \<Rightarrow> 's \<Rightarrow> (service_registration_packet \<times> 's) option" where
  "UnpackServiceRegistration big rd rs s =
     do { (header, s) \<leftarrow> ExtractHeader big rd rs s;
          (url, s) \<leftarrow> ExtractURLEntry big rd rs s;
          (service_type, s) \<leftarrow> ExtractString big rd rs True s;
          (scope_list, s) \<leftarrow> ExtractString big rd rs False s;
          (attr_list, s) \<leftarrow> ExtractString big rd rs True s;
          (url_auths, s) \<leftarrow> in_u8 rd s;
          (_, s) \<leftarrow> extract_auth_blocks big rd rs (unat url_auths) s;
          Some (slp_packet.extend header (service_registration_packet.fields url service_type scope_list attr_list), s) }"

definition UnpackServiceAck :: "bool \<Rightarrow> 's reader \<Rightarrow> 's reader \<Rightarrow> 's \<Rightarrow> (service_ack_packet \<times> 's) option" where
  "UnpackServiceAck big rd rs s =
     do { (header, s) \<leftarrow> ExtractHeader big rd rs s;
          (error_code, s) \<leftarrow> in_u16 big rd s;
          Some (slp_packet.extend header (service_ack_packet.fields error_code), s) }"

text \<open>The length \<open>0xffff\<close> of the naming authority stands for all services.\<close>

definition UnpackServiceTypeRequest ::
    "(string \<Rightarrow> 'ip option) \<Rightarrow> bool \<Rightarrow> 's reader \<Rightarrow> 's reader \<Rightarrow> 's \<Rightarrow> ('ip service_type_request_packet \<times> 's) option" where
  "UnpackServiceTypeRequest ip_from_string big rd rs s =
     do { (header, s) \<leftarrow> ExtractHeader big rd rs s;
          (pr_list, s) \<leftarrow> ExtractString big rd rs True s;
          (naming_auth_length, s) \<leftarrow> in_u16 big rd s;
          (naming, s) \<leftarrow> (if naming_auth_length = 0xffff then Some ((True, []), s)
                         else do { (str, s) \<leftarrow> in_string rs (unat naming_auth_length) s; Some ((False, SLPStringUnescape str), s) });
          (scope_list, s) \<leftarrow> ExtractString big rd rs False s;
          Some (slp_packet.extend header
                  (service_type_request_packet.fields (ConvertIPAddressList ip_from_string pr_list) (fst naming) (snd naming)
                     scope_list), s) }"

definition UnpackDAAdvert :: "bool \<Rightarrow> 's reader \<Rightarrow> 's reader \<Rightarrow> 's \<Rightarrow> da_advert_packet option" where
  "UnpackDAAdvert big rd rs s =
     do { (header, s) \<leftarrow> ExtractHeader big rd rs s;
          (error_code, s) \<leftarrow> in_u16 big rd s;
          (case in_u32 big rd s of
             None \<Rightarrow>
               if error_code \<noteq> 0 then Some (slp_packet.extend header (da_advert_packet.fields error_code None [] [] [])) else None
           | Some (boot_timestamp, s) \<Rightarrow>
               do { (url, s) \<leftarrow> ExtractString big rd rs True s;
                    (scope_list, s) \<leftarrow> ExtractString big rd rs False s;
                    (attr_list, s) \<leftarrow> ExtractString big rd rs True s;
                    (spi_string, s) \<leftarrow> ExtractString big rd rs True s;
                    (url_auths, s) \<leftarrow> in_u8 rd s;
                    (_, s) \<leftarrow> extract_auth_blocks big rd rs (unat url_auths) s;
                    Some (slp_packet.extend header
                      (da_advert_packet.fields error_code (Some boot_timestamp) url scope_list attr_list)) }) }"

definition UnpackServiceDeRegistration ::
    "bool \<Rightarrow> 's reader \<Rightarrow> 's reader \<Rightarrow> 's \<Rightarrow> (service_deregistration_packet \<times> 's) option" where
  "UnpackServiceDeRegistration big rd rs s =
     do { (header, s) \<leftarrow> ExtractHeader big rd rs s;
          (scope_list, s) \<leftarrow> ExtractString big rd rs False s;
          (url, s) \<leftarrow> ExtractURLEntry big rd rs s;
          (tag_list, s) \<leftarrow> ExtractString big rd rs True s;
          Some (slp_packet.extend header (service_deregistration_packet.fields url scope_list tag_list), s) }"

end
