(* ===== verification/SLP_Wire.thy ===== *)
theory SLP_Wire
  imports SLP_Packet
begin

text \<open>
  Packets of the service location protocol survive the wire. The bytes of each packet are given by an encoding; the
  builder emits it on every buffer that keeps \<open>output_buffer\<close> and the parser reads it from every buffer that keeps
  \<open>string_buffer\<close>.
\<close>

section \<open>Encodings\<close>

definition enc_string :: "string \<Rightarrow> bytes" where
  "enc_string str = be16 (of_nat (length str)) @ map char_byte str"

definition enc_url :: "url_entry \<Rightarrow> bytes" where
  "enc_url e = [0] @ be16 (url_lifetime e) @ enc_string (url_string e) @ [0]"

definition enc_header :: "u8 \<Rightarrow> u32 \<Rightarrow> u16 \<Rightarrow> u16 \<Rightarrow> string \<Rightarrow> bytes" where
  "enc_header function_id content_length flags xid language =
     (let len = content_length + (14 + of_nat (length language))
      in [SLP_VERSION] @ [function_id] @ be16 (ucast (drop_bit 8 len)) @ [ucast len] @ be16 flags @ [0] @ be16 0 @ be16 xid @
         enc_string language)"

section \<open>What the builder emits\<close>

context output_buffer
begin

lemma emits_string: "emits content ok (WriteString big wr str) (enc_string str)"
  unfolding WriteString_def [abs_def] enc_string_def by (intro emits_bind emits_u16 write_appends)

lemma emits_url: "emits content ok (URLEntry_Write big wr e) (enc_url e)"
  unfolding URLEntry_Write_def [abs_def] enc_url_def enc_string_def append_assoc
  by (intro emits_bind emits_u8 emits_u16 write_appends)

lemma emits_urls: "emits content ok (write_urls big wr es) (concat (map enc_url es))"
proof (induction es)
  case Nil
  have "write_urls big wr [] = Some" by (rule ext) simp
  then show ?case by (simp add: emits_return)
next
  case (Cons e es)
  have "write_urls big wr (e # es) = (\<lambda>s. Option.bind (URLEntry_Write big wr e s) (write_urls big wr es))"
    by (rule ext) simp
  then show ?case using emits_bind [OF emits_url Cons.IH] by simp
qed

lemma emits_header:
  "emits content ok (BuildSLPHeader big wr function_id len flags xid language) (enc_header function_id len flags xid language)"
  unfolding BuildSLPHeader_def [abs_def] enc_header_def Let_def
  by (intro emits_bind emits_u8 emits_u16 emits_string)

lemmas emitters = emits_bind emits_u8 emits_u16 emits_u32 emits_string emits_url emits_urls emits_header

end

section \<open>What the parser reads\<close>

lemma parses_last:
  "parses content ok f xs v \<Longrightarrow> parses content ok (\<lambda>s. Option.bind (f s) (\<lambda>(a, s1). Some (h a, s1))) xs (h v)"
  by (fastforce simp: parses_def)

lemma parses_final:
  "parses content ok f xs v \<Longrightarrow> h v = w \<Longrightarrow> parses content ok (\<lambda>s. Option.bind (f s) (\<lambda>(a, s1). Some (h a, s1))) xs w"
  by (fastforce simp: parses_def)

lemma parses_end:
  "parses content ok f xs v \<Longrightarrow> parses content ok (g v) [] w \<Longrightarrow>
    parses content ok (\<lambda>s. Option.bind (f s) (\<lambda>(a, s1). g a s1)) xs w"
  using parses_bind [of content ok f xs v g "[]" w] by simp

context string_buffer
begin

lemma parses_ExtractString:
  assumes "length str < 2 ^ 16"
  shows "parses content ok (ExtractString big read read_string unesc) (enc_string str)
    (if unesc then SLPStringUnescape str else str)"
proof -
  have "unat (of_nat (length str) :: u16) = length str" using assms by (simp add: unat_of_nat)
  then show ?thesis
    unfolding ExtractString_def [abs_def] enc_string_def
    by (intro parses_bind [OF parses_u16] parses_last [OF parses_string]) simp
qed

lemma parses_empty_string: "parses content ok (ExtractString big read read_string unesc) (be16 0) []"
proof -
  have "SLPStringUnescape [] = []" by (simp add: SLPStringUnescape_eq)
  then show ?thesis using parses_ExtractString [of "[]" big unesc] by (cases unesc) (simp_all add: enc_string_def)
qed

lemma parses_no_auths: "parses content ok (extract_auth_blocks big read read_string (unat (0 :: u8))) [] ()"
  by (simp add: parses_def)

lemma parses_url:
  assumes "length (url_string e) < 2 ^ 16"
  shows "parses content ok (ExtractURLEntry big read read_string) (enc_url e)
    (e\<lparr>url_string := SLPStringUnescape (url_string e)\<rparr>)"
proof -
  have "parses content ok (ExtractURLEntry big read read_string) (enc_url e)
      \<lparr>url_string = (if True then SLPStringUnescape (url_string e) else url_string e), url_lifetime = url_lifetime e\<rparr>"
    unfolding ExtractURLEntry_def [abs_def] enc_url_def
    by (intro parses_bind [OF parses_u8] parses_bind [OF parses_u16] parses_bind [OF parses_ExtractString [OF assms]]
        parses_end [OF parses_u8] parses_last [OF parses_no_auths])
  then show ?thesis by (cases e) simp
qed

lemma parses_header:
  assumes "length language < 2 ^ 16"
  shows "parses content ok (ExtractHeader big read read_string) (enc_header function_id len flags xid language)
    \<lparr>p_xid = xid, p_flags = flags, p_language = SLPStringUnescape language\<rparr>"
proof -
  have "parses content ok
      (\<lambda>s. do { (function_id, s) \<leftarrow> in_u8 read s; (length_hi, s) \<leftarrow> in_u16 big read s; (length_lo, s) \<leftarrow> in_u8 read s;
                (flags, s) \<leftarrow> in_u16 big read s; (next_ext_hi, s) \<leftarrow> in_u8 read s; (next_ext_lo, s) \<leftarrow> in_u16 big read s;
                (xid, s) \<leftarrow> in_u16 big read s; (language, s) \<leftarrow> ExtractString big read read_string True s;
                Some (\<lparr>p_xid = xid, p_flags = flags, p_language = language\<rparr>, s) })
      ([f] @ be16 l @ [m] @ be16 flags @ [0] @ be16 0 @ be16 xid @ enc_string language)
      \<lparr>p_xid = xid, p_flags = flags, p_language = (if True then SLPStringUnescape language else language)\<rparr>" for f l m
    by (intro parses_bind [OF parses_u8] parses_bind [OF parses_u16] parses_last [OF parses_ExtractString [OF assms]])
  then show ?thesis
    unfolding ExtractHeader_def [abs_def] enc_header_def Let_def
    by (intro parses_bind [OF parses_u8]) simp
qed

end

section \<open>Messages\<close>

text \<open>The calls of the builder whose packets the server reads, with their arguments.\<close>

datatype 'ip slp_message =
    SrvRqst u16 bool string "'ip list" string scope_set string
  | SrvRply u16 string u16 "url_entry list"
  | SrvReg u16 bool scope_set service_entry
  | SrvDeReg u16 scope_set service_entry
  | SrvAck u16 string u16
  | DAAdvert u16 bool u16 u32 string scope_set
  | SrvTypeRqst u16 bool "'ip list" string scope_set
  | AllSrvTypeRqst u16 bool "'ip list" scope_set

fun build_message :: "('ip \<Rightarrow> string) \<Rightarrow> bool \<Rightarrow> (bytes \<Rightarrow> 's \<Rightarrow> 's option) \<Rightarrow> 'ip slp_message \<Rightarrow> 's \<Rightarrow> 's option" where
  "build_message ip_to_string big wr (SrvRqst xid multicast language pr_list service_type scopes predicate) =
     BuildServiceRequest_ips ip_to_string big wr xid multicast language pr_list service_type scopes predicate"
| "build_message ip_to_string big wr (SrvRply xid language error_code urls) = BuildServiceReply big wr xid language error_code urls"
| "build_message ip_to_string big wr (SrvReg xid fresh scopes service) = BuildServiceRegistration big wr xid fresh scopes service"
| "build_message ip_to_string big wr (SrvDeReg xid scopes service) = BuildServiceDeRegistration big wr xid scopes service"
| "build_message ip_to_string big wr (SrvAck xid language error_code) = BuildServiceAck big wr xid language error_code"
| "build_message ip_to_string big wr (DAAdvert xid multicast error_code boot_timestamp url scopes) =
     BuildDAAdvert big wr xid multicast error_code boot_timestamp url scopes"
| "build_message ip_to_string big wr (SrvTypeRqst xid multicast pr_list naming_auth scopes) =
     BuildServiceTypeRequest ip_to_string big wr xid multicast pr_list naming_auth scopes"
| "build_message ip_to_string big wr (AllSrvTypeRqst xid multicast pr_list scopes) =
     BuildAllServiceTypeRequest ip_to_string big wr xid multicast pr_list scopes"

text \<open>What the server makes of the data of a datagram: the switch on the function, and the parser that the handler of
  each function calls.\<close>

datatype 'ip received =
    ServiceRequest "'ip service_request_packet"
  | ServiceReply service_reply_packet
  | ServiceRegistration service_registration_packet
  | ServiceDeRegistration service_deregistration_packet
  | ServiceAck service_ack_packet
  | Advert da_advert_packet
  | ServiceTypeRequest "'ip service_type_request_packet"

definition read_packet :: "(string \<Rightarrow> 'ip option) \<Rightarrow> bool \<Rightarrow> bytes \<Rightarrow> 'ip received option" where
  "read_packet ip_from_string big packet =
     (let function_id = DetermineFunctionID packet;
          buffer = MemoryBuffer packet;
          rd = MemoryBuffer_Read;
          rs = MemoryBuffer_ReadString
      in if function_id = SERVICE_REQUEST then
           map_option (ServiceRequest \<circ> fst) (UnpackServiceRequest ip_from_string big rd rs buffer)
         else if function_id = SERVICE_REPLY then map_option ServiceReply (UnpackServiceReply big rd rs buffer)
         else if function_id = SERVICE_REGISTRATION then
           map_option (ServiceRegistration \<circ> fst) (UnpackServiceRegistration big rd rs buffer)
         else if function_id = SERVICE_ACKNOWLEDGE then
           map_option (ServiceAck \<circ> fst) (UnpackServiceAck big rd rs buffer)
         else if function_id = DA_ADVERTISEMENT then map_option Advert (UnpackDAAdvert big rd rs buffer)
         else if function_id = SERVICE_TYPE_REQUEST then
           map_option (ServiceTypeRequest \<circ> fst) (UnpackServiceTypeRequest ip_from_string big rd rs buffer)
         else if function_id = SERVICE_DEREGISTER then
           map_option (ServiceDeRegistration \<circ> fst) (UnpackServiceDeRegistration big rd rs buffer)
         else None)"

text \<open>The server receives into an array of this size; the rest of a longer datagram is lost.\<close>

definition PACKET_SIZE :: nat where
  "PACKET_SIZE = 1500"

definition UDPData :: "(string \<Rightarrow> 'ip option) \<Rightarrow> bool \<Rightarrow> bytes \<Rightarrow> 'ip received option" where
  "UDPData ip_from_string big datagram = read_packet ip_from_string big (take PACKET_SIZE datagram)"

section \<open>Encodings of messages\<close>

abbreviation len32 :: "'a list \<Rightarrow> u32" where
  "len32 xs \<equiv> of_nat (length xs)"

abbreviation mcast_flag :: "bool \<Rightarrow> u16" where
  "mcast_flag multicast \<equiv> if multicast then SLP_REQUEST_MCAST else 0"

fun enc_message :: "('ip \<Rightarrow> string) \<Rightarrow> 'ip slp_message \<Rightarrow> bytes" where
  "enc_message ip_to_string (SrvRqst xid multicast language pr_list service_type scopes predicate) =
     (let ips = StringJoin_ips ip_to_string pr_list; sc = AsEscapedString scopes
      in enc_header SERVICE_REQUEST (10 + len32 ips + len32 service_type + len32 sc) (mcast_flag multicast) xid language @
         enc_string ips @ enc_string service_type @ enc_string sc @ enc_string predicate @ be16 0)"
| "enc_message ip_to_string (SrvRply xid language error_code urls) =
     enc_header SERVICE_REPLY (4 + sum_list (map PackedSize urls)) 0 xid language @
     be16 error_code @ be16 (of_nat (length urls)) @ concat (map enc_url urls)"
| "enc_message ip_to_string (SrvReg xid fresh scopes service) =
     (let sc = AsEscapedString scopes
      in enc_header SERVICE_REGISTRATION (PackedSize (m_url service) + 2 + len32 (m_service_type service) + 2 + len32 sc + 3)
           (if fresh then SLP_FRESH else 0) xid EN_LANGUAGE_TAG @
         enc_url (m_url service) @ enc_string (m_service_type service) @ enc_string sc @ be16 0 @ [0])"
| "enc_message ip_to_string (SrvDeReg xid scopes service) =
     (let sc = AsEscapedString scopes
      in enc_header SERVICE_DEREGISTER (2 + len32 sc + PackedSize (m_url service) + 2) 0 xid EN_LANGUAGE_TAG @
         enc_string sc @ enc_url (m_url service) @ be16 0)"
| "enc_message ip_to_string (SrvAck xid language error_code) =
     enc_header SERVICE_ACKNOWLEDGE 2 0 xid language @ be16 error_code"
| "enc_message ip_to_string (DAAdvert xid multicast error_code boot_timestamp url scopes) =
     (let sc = AsEscapedString scopes
      in enc_header DA_ADVERTISEMENT (8 + len32 url + len32 sc + 7) (mcast_flag multicast) xid EN_LANGUAGE_TAG @
         be16 (if multicast then 0 else error_code) @ be32 boot_timestamp @ enc_string url @ enc_string sc @
         be16 0 @ be16 0 @ [0])"
| "enc_message ip_to_string (SrvTypeRqst xid multicast pr_list naming_auth scopes) =
     (let ips = StringJoin_ips ip_to_string pr_list; sc = AsEscapedString scopes
      in enc_header SERVICE_TYPE_REQUEST (6 + len32 ips + len32 naming_auth + len32 sc) (mcast_flag multicast) xid EN_LANGUAGE_TAG @
         enc_string ips @ enc_string naming_auth @ enc_string sc)"
| "enc_message ip_to_string (AllSrvTypeRqst xid multicast pr_list scopes) =
     (let ips = StringJoin_ips ip_to_string pr_list; sc = AsEscapedString scopes
      in enc_header SERVICE_TYPE_REQUEST (6 + len32 ips + len32 sc) (mcast_flag multicast) xid EN_LANGUAGE_TAG @
         enc_string ips @ be16 0xffff @ enc_string sc)"

context output_buffer
begin

lemma emits_message: "emits content ok (build_message ip_to_string big wr m) (enc_message ip_to_string m)"
  by (cases m; simp only: build_message.simps enc_message.simps BuildServiceRequest_ips_def [abs_def]
      BuildServiceRequest_def [abs_def] BuildServiceReply_def [abs_def] BuildServiceRegistration_def [abs_def]
      BuildServiceDeRegistration_def [abs_def] BuildServiceAck_def [abs_def] BuildDAAdvert_def [abs_def]
      BuildServiceTypeRequest_def [abs_def] BuildAllServiceTypeRequest_def [abs_def] Let_def; intro emitters)

end

section \<open>Parsing the encodings\<close>

text \<open>The lengths that the fields of a packet can hold.\<close>

abbreviation short :: "string \<Rightarrow> bool" where
  "short str \<equiv> length str < 2 ^ 16"

text \<open>The strings that the parser unescapes although the builder does not escape them.\<close>

abbreviation unescaped_url :: "url_entry \<Rightarrow> url_entry" where
  "unescaped_url e \<equiv> e\<lparr>url_string := SLPStringUnescape (url_string e)\<rparr>"

lemma extend_simps:
  "slp_packet.extend \<lparr>p_xid = xid, p_flags = flags, p_language = language\<rparr> (service_ack_packet.fields error_code) =
     \<lparr>p_xid = xid, p_flags = flags, p_language = language, ack_error_code = error_code\<rparr>"
  "slp_packet.extend \<lparr>p_xid = xid, p_flags = flags, p_language = language\<rparr> (service_request_packet.fields ips st sc pred spi) =
     \<lparr>p_xid = xid, p_flags = flags, p_language = language, rq_pr_list = ips, rq_service_type = st, rq_scope_list = sc,
      rq_predicate = pred, rq_spi = spi\<rparr>"
  "slp_packet.extend \<lparr>p_xid = xid, p_flags = flags, p_language = language\<rparr> (service_reply_packet.fields error_code es) =
     \<lparr>p_xid = xid, p_flags = flags, p_language = language, rp_error_code = error_code, rp_url_entries = es\<rparr>"
  "slp_packet.extend \<lparr>p_xid = xid, p_flags = flags, p_language = language\<rparr> (service_registration_packet.fields e st sc attrs) =
     \<lparr>p_xid = xid, p_flags = flags, p_language = language, rg_url = e, rg_service_type = st, rg_scope_list = sc,
      rg_attr_list = attrs\<rparr>"
  "slp_packet.extend \<lparr>p_xid = xid, p_flags = flags, p_language = language\<rparr> (service_deregistration_packet.fields e sc tags) =
     \<lparr>p_xid = xid, p_flags = flags, p_language = language, dr_url = e, dr_scope_list = sc, dr_tag_list = tags\<rparr>"
  "slp_packet.extend \<lparr>p_xid = xid, p_flags = flags, p_language = language\<rparr> (da_advert_packet.fields error_code time url sc attrs) =
     \<lparr>p_xid = xid, p_flags = flags, p_language = language, da_error_code = error_code, da_boot_timestamp = time,
      da_url = url, da_scope_list = sc, da_attr_list = attrs\<rparr>"
  "slp_packet.extend \<lparr>p_xid = xid, p_flags = flags, p_language = language\<rparr> (service_type_request_packet.fields ips al na sc) =
     \<lparr>p_xid = xid, p_flags = flags, p_language = language, st_pr_list = ips, st_include_all = al, st_naming_authority = na,
      st_scope_list = sc\<rparr>"
  by (simp_all add: slp_packet.defs service_ack_packet.defs service_request_packet.defs service_reply_packet.defs
      service_registration_packet.defs service_deregistration_packet.defs da_advert_packet.defs
      service_type_request_packet.defs)

text \<open>What the parser makes of a message; \<open>ips\<close> is what it makes of the list of previous responders.\<close>

fun received_as :: "('ip list \<Rightarrow> 'ip list) \<Rightarrow> 'ip slp_message \<Rightarrow> 'ip received" where
  "received_as ips (SrvRqst xid multicast language pr_list service_type scopes predicate) = ServiceRequest
     \<lparr>p_xid = xid, p_flags = mcast_flag multicast, p_language = SLPStringUnescape language, rq_pr_list = ips pr_list,
      rq_service_type = SLPStringUnescape service_type, rq_scope_list = AsEscapedString scopes,
      rq_predicate = SLPStringUnescape predicate, rq_spi = []\<rparr>"
| "received_as ips (SrvRply xid language error_code urls) = ServiceReply
     \<lparr>p_xid = xid, p_flags = 0, p_language = SLPStringUnescape language, rp_error_code = error_code,
      rp_url_entries = map unescaped_url urls\<rparr>"
| "received_as ips (SrvReg xid fresh scopes service) = ServiceRegistration
     \<lparr>p_xid = xid, p_flags = (if fresh then SLP_FRESH else 0), p_language = EN_LANGUAGE_TAG,
      rg_url = unescaped_url (m_url service), rg_service_type = SLPStringUnescape (m_service_type service),
      rg_scope_list = AsEscapedString scopes, rg_attr_list = []\<rparr>"
| "received_as ips (SrvDeReg xid scopes service) = ServiceDeRegistration
     \<lparr>p_xid = xid, p_flags = 0, p_language = EN_LANGUAGE_TAG, dr_url = unescaped_url (m_url service),
      dr_scope_list = AsEscapedString scopes, dr_tag_list = []\<rparr>"
| "received_as ips (SrvAck xid language error_code) = ServiceAck
     \<lparr>p_xid = xid, p_flags = 0, p_language = SLPStringUnescape language, ack_error_code = error_code\<rparr>"
| "received_as ips (DAAdvert xid multicast error_code boot_timestamp url scopes) = Advert
     \<lparr>p_xid = xid, p_flags = mcast_flag multicast, p_language = EN_LANGUAGE_TAG,
      da_error_code = (if multicast then 0 else error_code), da_boot_timestamp = Some boot_timestamp,
      da_url = SLPStringUnescape url, da_scope_list = AsEscapedString scopes, da_attr_list = []\<rparr>"
| "received_as ips (SrvTypeRqst xid multicast pr_list naming_auth scopes) = ServiceTypeRequest
     \<lparr>p_xid = xid, p_flags = mcast_flag multicast, p_language = EN_LANGUAGE_TAG, st_pr_list = ips pr_list,
      st_include_all = False, st_naming_authority = SLPStringUnescape naming_auth, st_scope_list = AsEscapedString scopes\<rparr>"
| "received_as ips (AllSrvTypeRqst xid multicast pr_list scopes) = ServiceTypeRequest
     \<lparr>p_xid = xid, p_flags = mcast_flag multicast, p_language = EN_LANGUAGE_TAG, st_pr_list = ips pr_list,
      st_include_all = True, st_naming_authority = [], st_scope_list = AsEscapedString scopes\<rparr>"

fun message_short :: "('ip \<Rightarrow> string) \<Rightarrow> 'ip slp_message \<Rightarrow> bool" where
  "message_short ip_to_string (SrvRqst xid multicast language pr_list service_type scopes predicate) \<longleftrightarrow>
     short language \<and> short (StringJoin_ips ip_to_string pr_list) \<and> short service_type \<and> short (AsEscapedString scopes) \<and>
     short predicate"
| "message_short ip_to_string (SrvRply xid language error_code urls) \<longleftrightarrow>
     short language \<and> length urls < 2 ^ 16 \<and> (\<forall>e \<in> set urls. short (url_string e))"
| "message_short ip_to_string (SrvReg xid fresh scopes service) \<longleftrightarrow>
     short (url_string (m_url service)) \<and> short (m_service_type service) \<and> short (AsEscapedString scopes)"
| "message_short ip_to_string (SrvDeReg xid scopes service) \<longleftrightarrow> short (url_string (m_url service)) \<and> short (AsEscapedString scopes)"
| "message_short ip_to_string (SrvAck xid language error_code) \<longleftrightarrow> short language"
| "message_short ip_to_string (DAAdvert xid multicast error_code boot_timestamp url scopes) \<longleftrightarrow>
     short url \<and> short (AsEscapedString scopes)"
| "message_short ip_to_string (SrvTypeRqst xid multicast pr_list naming_auth scopes) \<longleftrightarrow>
     short (StringJoin_ips ip_to_string pr_list) \<and> length naming_auth < 0xffff \<and> short (AsEscapedString scopes)"
| "message_short ip_to_string (AllSrvTypeRqst xid multicast pr_list scopes) \<longleftrightarrow>
     short (StringJoin_ips ip_to_string pr_list) \<and> short (AsEscapedString scopes)"

lemma language_tag: "short EN_LANGUAGE_TAG" "SLPStringUnescape EN_LANGUAGE_TAG = EN_LANGUAGE_TAG"
  by (simp add: EN_LANGUAGE_TAG_def) (simp add: EN_LANGUAGE_TAG_def SLPStringUnescape_eq)

context string_buffer
begin

lemma parses_unescaped: "short str \<Longrightarrow> parses content ok (ExtractString big read read_string True) (enc_string str) (SLPStringUnescape str)"
  using parses_ExtractString [of str big True] by simp

lemma parses_plain: "short str \<Longrightarrow> parses content ok (ExtractString big read read_string False) (enc_string str) str"
  using parses_ExtractString [of str big False] by simp

lemmas readers = parses_bind [OF parses_header] parses_bind [OF parses_unescaped] parses_bind [OF parses_plain]
  parses_bind [OF parses_url] parses_bind [OF parses_u16] parses_bind [OF parses_u32] parses_bind [OF parses_empty_string]
  parses_last [OF parses_empty_string] parses_last [OF parses_u16] parses_end [OF parses_u8] parses_last [OF parses_no_auths]

lemma parses_request:
  assumes "message_short ip_to_string (SrvRqst xid multicast language pr_list service_type scopes predicate)"
  shows "parses content ok (UnpackServiceRequest ip_from_string big read read_string)
    (enc_message ip_to_string (SrvRqst xid multicast language pr_list service_type scopes predicate))
    \<lparr>p_xid = xid, p_flags = mcast_flag multicast, p_language = SLPStringUnescape language,
     rq_pr_list = ConvertIPAddressList ip_from_string (SLPStringUnescape (StringJoin_ips ip_to_string pr_list)),
     rq_service_type = SLPStringUnescape service_type, rq_scope_list = AsEscapedString scopes,
     rq_predicate = SLPStringUnescape predicate, rq_spi = []\<rparr>"
  unfolding UnpackServiceRequest_def [abs_def] enc_message.simps Let_def extend_simps [symmetric]
  by (intro readers) (use assms in simp_all)

lemma parses_registration:
  assumes "message_short ip_to_string (SrvReg xid fresh scopes service)"
  shows "parses content ok (UnpackServiceRegistration big read read_string)
    (enc_message ip_to_string (SrvReg xid fresh scopes service))
    \<lparr>p_xid = xid, p_flags = (if fresh then SLP_FRESH else 0), p_language = SLPStringUnescape EN_LANGUAGE_TAG,
      rg_url = unescaped_url (m_url service), rg_service_type = SLPStringUnescape (m_service_type service),
      rg_scope_list = AsEscapedString scopes, rg_attr_list = []\<rparr>"
  unfolding UnpackServiceRegistration_def [abs_def] enc_message.simps Let_def extend_simps [symmetric]
  by (intro readers) (use assms language_tag in simp_all)

lemma parses_deregistration:
  assumes "message_short ip_to_string (SrvDeReg xid scopes service)"
  shows "parses content ok (UnpackServiceDeRegistration big read read_string)
    (enc_message ip_to_string (SrvDeReg xid scopes service))
    \<lparr>p_xid = xid, p_flags = 0, p_language = SLPStringUnescape EN_LANGUAGE_TAG, dr_url = unescaped_url (m_url service),
      dr_scope_list = AsEscapedString scopes, dr_tag_list = []\<rparr>"
  unfolding UnpackServiceDeRegistration_def [abs_def] enc_message.simps Let_def extend_simps [symmetric]
  by (intro readers) (use assms language_tag in simp_all)

lemma parses_ack:
  assumes "message_short ip_to_string (SrvAck xid language error_code)"
  shows "parses content ok (UnpackServiceAck big read read_string) (enc_message ip_to_string (SrvAck xid language error_code))
    \<lparr>p_xid = xid, p_flags = 0, p_language = SLPStringUnescape language, ack_error_code = error_code\<rparr>"
  unfolding UnpackServiceAck_def [abs_def] enc_message.simps Let_def extend_simps [symmetric]
  by (intro readers) (use assms in simp_all)

lemma parses_naming:
  assumes "length str < 0xffff"
  shows "parses content ok
    (\<lambda>s. if of_nat (length str) = (0xffff :: u16) then Some ((True, []), s)
         else do { (str, s) \<leftarrow> in_string read_string (unat (of_nat (length str) :: u16)) s; Some ((False, SLPStringUnescape str), s) })
    (map char_byte str) (False, SLPStringUnescape str)"
proof -
  have "unat (of_nat (length str) :: u16) = length str" using assms by (simp add: unat_of_nat)
  moreover have "of_nat (length str) \<noteq> (0xffff :: u16)"
  proof
    assume "of_nat (length str) = (0xffff :: u16)"
    then have "unat (of_nat (length str) :: u16) = unat (0xffff :: u16)" by simp
    then show False using calculation assms by simp
  qed
  ultimately show ?thesis using parses_last [OF parses_string [OF refl, of str], where h = "\<lambda>str. (False, SLPStringUnescape str)"] by simp
qed

lemma parses_type_request:
  assumes "message_short ip_to_string (SrvTypeRqst xid multicast pr_list naming_auth scopes)"
  shows "parses content ok (UnpackServiceTypeRequest ip_from_string big read read_string)
    (enc_message ip_to_string (SrvTypeRqst xid multicast pr_list naming_auth scopes))
    \<lparr>p_xid = xid, p_flags = mcast_flag multicast, p_language = SLPStringUnescape EN_LANGUAGE_TAG,
     st_pr_list = ConvertIPAddressList ip_from_string (SLPStringUnescape (StringJoin_ips ip_to_string pr_list)),
     st_include_all = fst (False, SLPStringUnescape naming_auth), st_naming_authority = snd (False, SLPStringUnescape naming_auth),
     st_scope_list = AsEscapedString scopes\<rparr>"
  unfolding UnpackServiceTypeRequest_def [abs_def] enc_message.simps Let_def extend_simps [symmetric]
    enc_string_def [of naming_auth] append_assoc
  by (intro readers parses_bind [OF parses_naming] parses_final [OF parses_plain]) (use assms language_tag in simp_all)

lemma parses_all_type_request:
  assumes "message_short ip_to_string (AllSrvTypeRqst xid multicast pr_list scopes)"
  shows "parses content ok (UnpackServiceTypeRequest ip_from_string big read read_string)
    (enc_message ip_to_string (AllSrvTypeRqst xid multicast pr_list scopes))
    \<lparr>p_xid = xid, p_flags = mcast_flag multicast, p_language = SLPStringUnescape EN_LANGUAGE_TAG,
     st_pr_list = ConvertIPAddressList ip_from_string (SLPStringUnescape (StringJoin_ips ip_to_string pr_list)),
     st_include_all = fst (True, []), st_naming_authority = snd (True, []), st_scope_list = AsEscapedString scopes\<rparr>"
proof -
  have "parses content ok
      (\<lambda>s. if (0xffff :: u16) = 0xffff then Some ((True, []), s)
           else do { (str, s) \<leftarrow> in_string read_string (unat (0xffff :: u16)) s; Some ((False, SLPStringUnescape str), s) })
      [] (True, [])" by (simp add: parses_return)
  note none = parses_bind [OF this, unfolded append_Nil]
  show ?thesis
    unfolding UnpackServiceTypeRequest_def [abs_def] enc_message.simps Let_def extend_simps [symmetric]
    by (intro readers none parses_final [OF parses_plain]) (use assms language_tag in simp_all)
qed

lemma parses_apply:
  assumes "parses content ok f xs v" "ok s" "content s = xs @ rest"
  obtains s' where "f s = Some (v, s')" "ok s'" "content s' = rest"
  using assms unfolding parses_def by blast

lemma extract_entries:
  assumes "\<forall>e \<in> set es. short (url_string e)" "ok s" "content s = concat (map enc_url es) @ rest"
  shows "extract_url_entries big read read_string (length es) s = map unescaped_url es"
  using assms
proof (induction es arbitrary: s)
  case (Cons e es)
  have e: "short (url_string e)" using Cons.prems(1) by simp
  have c: "content s = enc_url e @ concat (map enc_url es) @ rest" using Cons.prems(3) by simp
  obtain s1 where "ExtractURLEntry big read read_string s = Some (unescaped_url e, s1)" "ok s1"
      "content s1 = concat (map enc_url es) @ rest"
    by (rule parses_apply [OF parses_url [OF e] Cons.prems(2) c]) (rule that)
  then show ?case using Cons.IH [of s1] Cons.prems(1) by simp
qed simp

lemma parses_reply:
  assumes short: "message_short ip_to_string (SrvRply xid language error_code urls)"
    and s: "ok s" "content s = enc_message ip_to_string (SrvRply xid language error_code urls) @ rest"
  shows "UnpackServiceReply big read read_string s = Some
    \<lparr>p_xid = xid, p_flags = 0, p_language = SLPStringUnescape language, rp_error_code = error_code,
     rp_url_entries = map unescaped_url urls\<rparr>"
proof -
  have l: "length language < 2 ^ 16" and n: "unat (of_nat (length urls) :: u16) = length urls"
    and u: "\<forall>e \<in> set urls. short (url_string e)" using short by (simp_all add: unat_of_nat)
  let ?h = "enc_header SERVICE_REPLY (4 + sum_list (map PackedSize urls)) 0 xid language"
  have c: "content s = ?h @ be16 error_code @ be16 (of_nat (length urls)) @ concat (map enc_url urls) @ rest"
    using s(2) by simp
  obtain s1 where s1: "ExtractHeader big read read_string s =
        Some (\<lparr>p_xid = xid, p_flags = 0, p_language = SLPStringUnescape language\<rparr>, s1)" "ok s1"
      "content s1 = be16 error_code @ be16 (of_nat (length urls)) @ concat (map enc_url urls) @ rest"
    by (rule parses_apply [OF parses_header [OF l] s(1) c]) (rule that)
  obtain s2 where s2: "in_u16 big read s1 = Some (error_code, s2)" "ok s2"
      "content s2 = be16 (of_nat (length urls)) @ concat (map enc_url urls) @ rest"
    by (rule parses_apply [OF parses_u16 s1(2,3)]) (rule that)
  obtain s3 where s3: "in_u16 big read s2 = Some (of_nat (length urls), s3)" "ok s3" "content s3 = concat (map enc_url urls) @ rest"
    by (rule parses_apply [OF parses_u16 s2(2,3)]) (rule that)
  show ?thesis
    by (simp add: UnpackServiceReply_def s1(1) s2(1) s3(1) n extract_entries [OF u s3(2,3)] extend_simps)
qed

lemma parses_advert_rest:
  assumes "short url" "short sc"
  shows "parses content ok
    (\<lambda>s. do { (url, s) \<leftarrow> ExtractString big read read_string True s; (scope_list, s) \<leftarrow> ExtractString big read read_string False s;
              (attr_list, s) \<leftarrow> ExtractString big read read_string True s; (spi_string, s) \<leftarrow> ExtractString big read read_string True s;
              (url_auths, s) \<leftarrow> in_u8 read s; (_, s) \<leftarrow> extract_auth_blocks big read read_string (unat url_auths) s;
              Some (slp_packet.extend header (da_advert_packet.fields error_code time url scope_list attr_list), s) })
    (enc_string url @ enc_string sc @ be16 0 @ be16 0 @ [0])
    (slp_packet.extend header (da_advert_packet.fields error_code time (SLPStringUnescape url) sc []))"
  by (intro readers) (use assms in simp_all)

lemma parses_advert:
  assumes short: "message_short ip_to_string (DAAdvert xid multicast error_code boot_timestamp url scopes)"
    and s: "ok s" "content s = enc_message ip_to_string (DAAdvert xid multicast error_code boot_timestamp url scopes) @ rest"
  shows "UnpackDAAdvert big read read_string s = Some
    \<lparr>p_xid = xid, p_flags = mcast_flag multicast, p_language = EN_LANGUAGE_TAG,
     da_error_code = (if multicast then 0 else error_code), da_boot_timestamp = Some boot_timestamp,
     da_url = SLPStringUnescape url, da_scope_list = AsEscapedString scopes, da_attr_list = []\<rparr>"
proof -
  let ?err = "if multicast then 0 else error_code" and ?sc = "AsEscapedString scopes"
  let ?h = "enc_header DA_ADVERTISEMENT (8 + len32 url + len32 ?sc + 7) (mcast_flag multicast) xid EN_LANGUAGE_TAG"
  let ?tail = "(enc_string url @ enc_string ?sc @ be16 0 @ be16 0 @ [0]) @ rest"
  let ?p = "\<lparr>p_xid = xid, p_flags = mcast_flag multicast, p_language = SLPStringUnescape EN_LANGUAGE_TAG\<rparr>"
  have c: "content s = ?h @ be16 ?err @ be32 boot_timestamp @ ?tail" using s(2) by (simp add: Let_def)
  obtain s1 where s1: "ExtractHeader big read read_string s = Some (?p, s1)" "ok s1"
      "content s1 = be16 ?err @ be32 boot_timestamp @ ?tail"
    by (rule parses_apply [OF parses_header [OF language_tag(1)] s(1) c]) (rule that)
  obtain s2 where s2: "in_u16 big read s1 = Some (?err, s2)" "ok s2" "content s2 = be32 boot_timestamp @ ?tail"
    by (rule parses_apply [OF parses_u16 s1(2,3)]) (rule that)
  obtain s3 where s3: "in_u32 big read s2 = Some (boot_timestamp, s3)" "ok s3" "content s3 = ?tail"
    by (rule parses_apply [OF parses_u32 s2(2,3)]) (rule that)
  have "length url < 2 ^ 16" "length ?sc < 2 ^ 16" using short by simp_all
  then obtain s4 where s4: "(do { (url, s) \<leftarrow> ExtractString big read read_string True s3; (scope_list, s) \<leftarrow> ExtractString big read read_string False s;
              (attr_list, s) \<leftarrow> ExtractString big read read_string True s; (spi_string, s) \<leftarrow> ExtractString big read read_string True s;
              (url_auths, s) \<leftarrow> in_u8 read s; (_, s) \<leftarrow> extract_auth_blocks big read read_string (unat url_auths) s;
              Some (slp_packet.extend ?p (da_advert_packet.fields ?err (Some boot_timestamp) url scope_list attr_list), s) }) =
       Some (slp_packet.extend ?p (da_advert_packet.fields ?err (Some boot_timestamp) (SLPStringUnescape url) ?sc []), s4)"
    by (rule parses_apply [OF parses_advert_rest s3(2,3)]) (rule that)
  then show ?thesis
    by (auto simp: UnpackDAAdvert_def s1(1) s2(1) s3(1) extend_simps language_tag split: Option.bind_splits)
qed

end

section \<open>The wire\<close>

lemma content_MemoryBuffer: "memory_content (MemoryBuffer data) = data"
  by (simp add: memory_content_def MemoryBuffer_def)

lemma parsed_memory:
  assumes "parses memory_content (\<lambda>b. True) f xs v"
  shows "map_option (g \<circ> fst) (f (MemoryBuffer (xs @ rest))) = Some (g v)"
proof -
  have c: "memory_content (MemoryBuffer (xs @ rest)) = xs @ rest" by (simp add: content_MemoryBuffer)
  obtain s' where "f (MemoryBuffer (xs @ rest)) = Some (v, s')"
    by (rule memory_in.parses_apply [OF assms TrueI c]) (rule that)
  then show ?thesis by simp
qed

fun message_function :: "'ip slp_message \<Rightarrow> u8" where
  "message_function (SrvRqst xid multicast language pr_list service_type scopes predicate) = SERVICE_REQUEST"
| "message_function (SrvRply xid language error_code urls) = SERVICE_REPLY"
| "message_function (SrvReg xid fresh scopes service) = SERVICE_REGISTRATION"
| "message_function (SrvDeReg xid scopes service) = SERVICE_DEREGISTER"
| "message_function (SrvAck xid language error_code) = SERVICE_ACKNOWLEDGE"
| "message_function (DAAdvert xid multicast error_code boot_timestamp url scopes) = DA_ADVERTISEMENT"
| "message_function (SrvTypeRqst xid multicast pr_list naming_auth scopes) = SERVICE_TYPE_REQUEST"
| "message_function (AllSrvTypeRqst xid multicast pr_list scopes) = SERVICE_TYPE_REQUEST"

lemma function_of_message: "DetermineFunctionID (enc_message ip_to_string m @ rest) = message_function m"
  by (cases m) (simp_all add: DetermineFunctionID_def enc_header_def Let_def)

lemmas function_ids = SERVICE_REQUEST_def SERVICE_REPLY_def SERVICE_REGISTRATION_def SERVICE_DEREGISTER_def
  SERVICE_ACKNOWLEDGE_def DA_ADVERTISEMENT_def SERVICE_TYPE_REQUEST_def

text \<open>The server reads a message from the start of a datagram and ignores what follows.\<close>

lemma read_packet_message:
  fixes ip_from_string :: "string \<Rightarrow> 'ip option"
  assumes "message_short ip_to_string m"
  shows "read_packet ip_from_string big (enc_message ip_to_string m @ rest) =
    Some (received_as (\<lambda>ips. ConvertIPAddressList ip_from_string (SLPStringUnescape (StringJoin_ips ip_to_string ips))) m)"
proof -
  have c: "memory_content (MemoryBuffer (enc_message ip_to_string m @ rest)) = enc_message ip_to_string m @ rest"
    by (simp add: content_MemoryBuffer)
  show ?thesis
  proof (cases m)
    case (SrvRqst xid multicast language pr_list service_type scopes predicate)
    show ?thesis using assms unfolding SrvRqst
      by (simp add: read_packet_def function_of_message function_ids parsed_memory [OF memory_in.parses_request] del: enc_message.simps)
  next
    case (SrvRply xid language error_code urls)
    show ?thesis using memory_in.parses_reply [OF assms [unfolded SrvRply] TrueI c [unfolded SrvRply]] unfolding SrvRply
      by (simp add: read_packet_def function_of_message function_ids del: enc_message.simps)
  next
    case (SrvReg xid fresh scopes service)
    show ?thesis using assms unfolding SrvReg
      by (simp add: read_packet_def function_of_message function_ids parsed_memory [OF memory_in.parses_registration] language_tag
          del: enc_message.simps)
  next
    case (SrvDeReg xid scopes service)
    show ?thesis using assms unfolding SrvDeReg
      by (simp add: read_packet_def function_of_message function_ids parsed_memory [OF memory_in.parses_deregistration] language_tag
          del: enc_message.simps)
  next
    case (SrvAck xid language error_code)
    show ?thesis using assms unfolding SrvAck
      by (simp add: read_packet_def function_of_message function_ids parsed_memory [OF memory_in.parses_ack] del: enc_message.simps)
  next
    case (DAAdvert xid multicast error_code boot_timestamp url scopes)
    show ?thesis using memory_in.parses_advert [OF assms [unfolded DAAdvert] TrueI c [unfolded DAAdvert]] unfolding DAAdvert
      by (simp add: read_packet_def function_of_message function_ids del: enc_message.simps)
  next
    case (SrvTypeRqst xid multicast pr_list naming_auth scopes)
    show ?thesis using assms unfolding SrvTypeRqst
      by (simp add: read_packet_def function_of_message function_ids parsed_memory [OF memory_in.parses_type_request] language_tag
          del: enc_message.simps)
  next
    case (AllSrvTypeRqst xid multicast pr_list scopes)
    show ?thesis
      using parsed_memory [OF memory_in.parses_all_type_request [OF assms [unfolded AllSrvTypeRqst], of ip_from_string big],
          of ServiceTypeRequest rest] unfolding AllSrvTypeRqst
      by (simp add: read_packet_def function_of_message function_ids language_tag del: enc_message.simps map_option_eq_Some)
  qed
qed

lemma length_enc [simp]:
  "length (enc_string str) = 2 + length str" "length (enc_url e) = 6 + length (url_string e)"
  "length (enc_header f c flags xid language) = 14 + length language"
  by (simp_all add: enc_string_def enc_url_def enc_header_def Let_def)

lemma length_urls: "length urls \<le> length (concat (map enc_url urls))"
  by (induction urls) simp_all

lemma length_url: "e \<in> set urls \<Longrightarrow> length (url_string e) \<le> length (concat (map enc_url urls))"
  by (induction urls) auto

text \<open>The strings of a packet that fits into the array are short enough for their length fields.\<close>

lemma short_message: "length (enc_message ip_to_string m) \<le> PACKET_SIZE \<Longrightarrow> message_short ip_to_string m"
proof (cases m)
  case (SrvRply xid language error_code urls)
  assume "length (enc_message ip_to_string m) \<le> PACKET_SIZE"
  then show ?thesis using length_urls [of urls] length_url [of _ urls] by (force simp: SrvRply PACKET_SIZE_def)
qed (simp_all add: PACKET_SIZE_def Let_def)

lemma UDPData_message:
  assumes "length (enc_message ip_to_string m) \<le> PACKET_SIZE"
  shows "UDPData ip_from_string big (enc_message ip_to_string m @ rest) =
    Some (received_as (\<lambda>ips. ConvertIPAddressList ip_from_string (SLPStringUnescape (StringJoin_ips ip_to_string ips))) m)"
  using read_packet_message [OF short_message [OF assms]] assms by (simp add: UDPData_def)

section \<open>Addresses as text\<close>

text \<open>What the packets rely on of the text form of addresses: it can be read back, and it has no commas and backslashes.\<close>

definition address_text :: "('ip \<Rightarrow> string) \<Rightarrow> (string \<Rightarrow> 'ip option) \<Rightarrow> bool" where
  "address_text ip_to_string ip_from_string \<longleftrightarrow>
     (\<forall>a. ip_from_string (ip_to_string a) = Some a \<and> ip_to_string a \<noteq> [] \<and>
          CHR '','' \<notin> set (ip_to_string a) \<and> CHR 0x5C \<notin> set (ip_to_string a))"

lemma unescape_no_backslash: "CHR 0x5C \<notin> set str \<Longrightarrow> SLPStringUnescape str = str"
  using unescape_plain_prefix [of str "[]"] by (simp add: SLPStringUnescape_eq)

lemma set_join: "set (join sep ts) \<subseteq> set sep \<union> \<Union> (set ` set ts)"
  by (induction sep ts rule: join.induct) auto

lemma address_list_roundtrip:
  assumes "address_text ip_to_string ip_from_string"
  shows "ConvertIPAddressList ip_from_string (SLPStringUnescape (StringJoin_ips ip_to_string ips)) = ips"
proof -
  let ?ts = "map ip_to_string ips"
  have "CHR 0x5C \<notin> set (join '','' ?ts)" using set_join [of "'',''" ?ts] assms by (auto simp: address_text_def)
  then have plain: "SLPStringUnescape (StringJoin_ips ip_to_string ips) = join '','' ?ts"
    by (simp add: StringJoin_ips_def unescape_no_backslash)
  have filter: "List.map_filter ip_from_string ?ts = ips"
    using assms by (induction ips) (simp_all add: List.map_filter_def address_text_def)
  show ?thesis
  proof (cases ips)
    case Nil
    then show ?thesis using plain by (simp add: ConvertIPAddressList_def)
  next
    case (Cons a as)
    then have "StringSplit (join '','' ?ts) '','' = ?ts"
      by (intro StringSplit_join) (use assms in \<open>auto simp: address_text_def\<close>)
    moreover have "join '','' ?ts \<noteq> []" using Cons assms by (cases as) (auto simp: address_text_def)
    ultimately show ?thesis by (simp add: plain ConvertIPAddressList_def filter)
  qed
qed

section \<open>Round trip\<close>

text \<open>C17: Packets survive the wire. Every service request, service reply, registration, deregistration, acknowledgement,
  directory agent advert and service type request that the builder writes through a big-endian stream to an empty queue
  and that fits into the array of 1500 bytes the server receives into is read by the server, on a host of any byte order,
  as a packet of the same kind with the same transaction, flags, error code, previous responders, lifetimes and boot time.
  Scope lists arrive in their escaped form. Languages, service types, predicates, naming authorities and URLs arrive
  unescaped, although the builder did not escape them. The hypothesis on
  addresses is that their text can be read back and has no comma and no backslash. Service type replies and service agent
  adverts, which the builder also writes, are not read by the server.\<close>

theorem slp_packet_roundtrip:
  assumes "address_text ip_to_string ip_from_string" "queue_clean q" "contents (snd q) = []"
  shows "\<exists>q'. build_message ip_to_string big IOQueue_Write m q = Some q' \<and>
    (length (contents (snd q')) \<le> PACKET_SIZE \<longrightarrow>
       UDPData ip_from_string big' (contents (snd q')) = Some (received_as (\<lambda>ips. ips) m))"
proof -
  obtain q' where "build_message ip_to_string big IOQueue_Write m q = Some q'" "contents (snd q') = enc_message ip_to_string m"
    using queue_out.emits_message [of ip_to_string big m] assms(2,3) unfolding emits_def by (metis append_Nil)
  then show ?thesis
    using UDPData_message [of ip_to_string m ip_from_string big' "[]"] address_list_roundtrip [OF assms(1)] by simp
qed

definition two_ips :: "bool \<Rightarrow> string" where
  "two_ips b = (if b then ''10.0.0.1'' else ''10.0.0.2'')"

definition two_ips_from :: "string \<Rightarrow> bool option" where
  "two_ips_from str = (if str = ''10.0.0.1'' then Some True else if str = ''10.0.0.2'' then Some False else None)"

lemma two_ips_text: "address_text two_ips two_ips_from"
  by (auto simp: address_text_def two_ips_def two_ips_from_def)

lemma new_queue: "queue_clean IOQueue" "contents (snd IOQueue) = []"
  by (simp_all add: IOQueue_def queue_ok_def pool_ok_def clean_def MemoryBlockPool_def DEFAULT_BLOCK_SIZE_def)

definition example_request :: "bool slp_message" where
  "example_request = SrvRqst 7 True ''en'' [True, False] ''service:rdmnet'' [''a,b'', ''default''] []"

lemma slp_packet_roundtrip_witness:
  "\<exists>q'. build_message two_ips False IOQueue_Write example_request IOQueue = Some q' \<and>
    (length (contents (snd q')) \<le> PACKET_SIZE \<and>
     UDPData two_ips_from True (contents (snd q')) = Some (received_as (\<lambda>ips. ips) example_request))"
proof -
  have "build_message two_ips False IOQueue_Write example_request IOQueue \<noteq> None \<and>
    length (contents (snd (the (build_message two_ips False IOQueue_Write example_request IOQueue)))) \<le> PACKET_SIZE" by code_simp
  then show ?thesis
    using slp_packet_roundtrip [OF two_ips_text new_queue, of False example_request True] by auto
qed

section \<open>The length field\<close>

definition header_length :: "bytes \<Rightarrow> nat" where
  "header_length bs = unat (bs ! 2) * 2 ^ 16 + unat (bs ! 3) * 2 ^ 8 + unat (bs ! 4)"

fun predicate_of :: "'ip slp_message \<Rightarrow> string" where
  "predicate_of (SrvRqst xid multicast language pr_list service_type scopes predicate) = predicate"
| "predicate_of m = []"

lemma three_bytes:
  "unat (ucast (drop_bit 8 (ucast (drop_bit 8 l) :: u16)) :: u8) * 2 ^ 16 + unat (ucast (ucast (drop_bit 8 l) :: u16) :: u8) * 2 ^ 8 +
   unat (ucast (l :: u32) :: u8) = unat l mod 2 ^ 24"
proof -
  define n where "n = unat l"
  define m where "m = n div 256 mod 65536"
  have A: "unat (ucast l :: u8) = n mod 256" "unat (ucast (drop_bit 8 l) :: u16) = m"
    by (simp_all add: n_def m_def unsigned_ucast_eq unsigned_drop_bit_eq take_bit_eq_mod drop_bit_eq_div unat_div_distrib)
  have B: "unat (ucast (w :: u16) :: u8) = unat w mod 256" "unat (ucast (drop_bit 8 w) :: u8) = unat w div 256 mod 256" for w
    by (simp_all add: unsigned_ucast_eq unsigned_drop_bit_eq take_bit_eq_mod drop_bit_eq_div unat_div_distrib)
  have "n mod 16777216 = 256 * m + n mod 256" using mod_mult2_eq [of n 256 65536] by (simp add: m_def)
  moreover have "m div 256 < 256" by (simp add: m_def div_less_iff_less_mult)
  then have "m div 256 mod 256 = m div 256" by simp
  moreover have "256 * m = m div 256 * 65536 + m mod 256 * 256" using div_mult_mod_eq [of m 256] by linarith
  ultimately have "m div 256 mod 256 * 2 ^ 16 + m mod 256 * 2 ^ 8 + n mod 256 = n mod 2 ^ 24" by simp
  then show ?thesis by (subst B(2), simp only: A B(1) n_def [symmetric])
qed

lemma header_length_bytes: "header_length (enc_header f c flags xid language @ rest) = unat (c + (14 + len32 language)) mod 2 ^ 24"
proof -
  let ?l = "c + (14 + len32 language)"
  have "header_length (enc_header f c flags xid language @ rest) =
      unat (ucast (drop_bit 8 (ucast (drop_bit 8 ?l) :: u16)) :: u8) * 2 ^ 16 + unat (ucast (ucast (drop_bit 8 ?l) :: u16) :: u8) * 2 ^ 8 +
      unat (ucast ?l :: u8)"
    by (simp add: header_length_def enc_header_def Let_def be16_def)
  also have "\<dots> = unat ?l mod 2 ^ 24" by (rule three_bytes)
  finally show ?thesis .
qed

lemma enc_message_length:
  obtains f c flags xid language rest where "enc_message ip_to_string m = enc_header f c flags xid language @ rest"
    "c + (14 + len32 language) + len32 (predicate_of m) = len32 (enc_message ip_to_string m)"
proof -
  have urls: "sum_list (map PackedSize urls) = len32 (concat (map enc_url urls))" for urls
    by (induction urls) (simp_all add: PackedSize_def)
  show thesis
    by (cases m) (auto intro!: that simp: Let_def urls PackedSize_def algebra_simps)
qed

text \<open>The length in the header of a packet is the number of bytes of the packet, for every packet the builder writes, except
  that the length of a service request leaves out its predicate.\<close>

theorem slp_length_field:
  assumes "queue_clean q" "contents (snd q) = []"
  shows "\<exists>q'. build_message ip_to_string big IOQueue_Write m q = Some q' \<and>
    (length (contents (snd q')) < 2 ^ 24 \<longrightarrow>
       header_length (contents (snd q')) + length (predicate_of m) = length (contents (snd q')))"
proof -
  let ?xs = "enc_message ip_to_string m"
  obtain q' where q': "build_message ip_to_string big IOQueue_Write m q = Some q'" "contents (snd q') = ?xs"
    using queue_out.emits_message [of ip_to_string big m] assms unfolding emits_def by (metis append_Nil)
  obtain f c flags xid language rest where xs: "?xs = enc_header f c flags xid language @ rest"
    and len: "c + (14 + len32 language) + len32 (predicate_of m) = len32 ?xs" by (rule enc_message_length)
  have fits: "length (predicate_of m) \<le> length ?xs" by (cases m) (simp_all add: Let_def)
  have "header_length ?xs + length (predicate_of m) = length ?xs" if "length ?xs < 2 ^ 24"
  proof -
    have "c + (14 + len32 language) = len32 ?xs - len32 (predicate_of m)" using len by (simp add: eq_diff_eq)
    also have "\<dots> = of_nat (length ?xs - length (predicate_of m))" using fits by (simp add: of_nat_diff)
    finally have "unat (c + (14 + len32 language)) = length ?xs - length (predicate_of m)"
      using that by (simp add: unat_of_nat)
    then have "header_length ?xs = length ?xs - length (predicate_of m)"
      using header_length_bytes [of f c flags xid language rest] xs that by simp
    then show ?thesis using fits by simp
  qed
  then show ?thesis using q' by auto
qed

lemma slp_length_field_witness:
  "\<exists>q'. build_message two_ips True IOQueue_Write (SrvRqst 7 True ''en'' [] ''x'' [] ''(a=b)'') IOQueue = Some q' \<and>
    (length (contents (snd q')) < 2 ^ 24 \<longrightarrow>
       header_length (contents (snd q')) + length (predicate_of (SrvRqst 7 True ''en'' [] ''x'' [] ''(a=b)'' :: bool slp_message)) =
       length (contents (snd q')))"
  by (rule slp_length_field [OF new_queue])

end
