(* ===== verification/SLP_Sender.thy ===== *)
theory SLP_Sender
  imports SLP_Wire
begin

text \<open>
  Sending packets: \<^verbatim>\<open>slp/SLPUDPSender.cpp\<close> over \<open>UDPSocket::SendTo\<close> of \<^verbatim>\<open>common/network/Socket.cpp\<close>. The sender builds each
  packet in one queue, which it uses again for the next packet. The result of the system call \<open>sendmsg\<close> is an argument.
\<close>

section \<open>The sender\<close>

text \<open>\<open>SendTo\<close> gives the bytes of the queue to \<open>sendmsg\<close> as one datagram and removes what was sent. The first part of the
  result is the datagrams given to \<open>sendmsg\<close>.\<close>

definition SendTo ::
    "bool \<Rightarrow> (bytes \<Rightarrow> int) \<Rightarrow> 'd \<Rightarrow> memory_pool \<times> blocks \<Rightarrow> ('d \<times> bytes) list \<times> memory_pool \<times> blocks" where
  "SendTo valid_descriptor sendmsg dest q =
     (if \<not> valid_descriptor then ([], q)
      else if IOQueue_AsIOVec (snd q) = [] then ([], q)
      else
        let datagram = concat (IOQueue_AsIOVec (snd q));
            bytes_sent = sendmsg datagram
        in ([(dest, datagram)], if bytes_sent < 0 then q else IOQueue_Pop (nat bytes_sent) q))"

definition EmptyBuffer :: "memory_pool \<times> blocks \<Rightarrow> memory_pool \<times> blocks" where
  "EmptyBuffer q = (if IOQueue_Empty (snd q) then q else IOQueue_Clear q)"

definition Sender_Send ::
    "(bytes \<Rightarrow> int) \<Rightarrow> 'd \<Rightarrow> memory_pool \<times> blocks \<Rightarrow> ('d \<times> bytes) list \<times> memory_pool \<times> blocks" where
  "Sender_Send sendmsg dest q = (let (datagrams, q') = SendTo True sendmsg dest q in (datagrams, IOQueue_Clear q'))"

text \<open>The address of a receiver is a host and a port; the multicast address is a field of the sender, so the functions that
  read it take it as an argument.\<close>

type_synonym 'ip sending = "((('ip \<times> u16) \<times> bytes) list \<times> memory_pool \<times> blocks) option"

definition SendServiceRequest ::
    "('ip \<Rightarrow> string) \<Rightarrow> bool \<Rightarrow> 'ip \<Rightarrow> (bytes \<Rightarrow> int) \<Rightarrow> 'ip \<times> u16 \<Rightarrow> u16 \<Rightarrow> 'ip list \<Rightarrow> string \<Rightarrow> scope_set \<Rightarrow>
      memory_pool \<times> blocks \<Rightarrow> 'ip sending" where
  "SendServiceRequest ip_to_string big multicast_address sendmsg dest xid pr_list service_type scopes q =
     map_option (Sender_Send sendmsg dest)
       (BuildServiceRequest_ips ip_to_string big IOQueue_Write xid (fst dest = multicast_address) EN_LANGUAGE_TAG pr_list
         service_type scopes [] (EmptyBuffer q))"

definition SendServiceRequest_unicast ::
    "('ip \<Rightarrow> string) \<Rightarrow> bool \<Rightarrow> 'ip \<Rightarrow> (bytes \<Rightarrow> int) \<Rightarrow> 'ip \<times> u16 \<Rightarrow> u16 \<Rightarrow> string \<Rightarrow> scope_set \<Rightarrow>
      memory_pool \<times> blocks \<Rightarrow> 'ip sending" where
  "SendServiceRequest_unicast ip_to_string big multicast_address sendmsg dest xid service_type scopes q =
     SendServiceRequest ip_to_string big multicast_address sendmsg dest xid [] service_type scopes q"

definition SendServiceReply ::
    "bool \<Rightarrow> (bytes \<Rightarrow> int) \<Rightarrow> 'ip \<times> u16 \<Rightarrow> u16 \<Rightarrow> string \<Rightarrow> u16 \<Rightarrow> url_entry list \<Rightarrow> memory_pool \<times> blocks \<Rightarrow> 'ip sending" where
  "SendServiceReply big sendmsg dest xid language error_code urls q =
     map_option (Sender_Send sendmsg dest) (BuildServiceReply big IOQueue_Write xid language error_code urls (EmptyBuffer q))"

definition SendServiceRegistration ::
    "bool \<Rightarrow> (bytes \<Rightarrow> int) \<Rightarrow> 'ip \<times> u16 \<Rightarrow> u16 \<Rightarrow> bool \<Rightarrow> scope_set \<Rightarrow> service_entry \<Rightarrow> memory_pool \<times> blocks \<Rightarrow> 'ip sending" where
  "SendServiceRegistration big sendmsg dest xid fresh scopes service q =
     map_option (Sender_Send sendmsg dest) (BuildServiceRegistration big IOQueue_Write xid fresh scopes service (EmptyBuffer q))"

definition SendServiceDeRegistration ::
    "bool \<Rightarrow> (bytes \<Rightarrow> int) \<Rightarrow> 'ip \<times> u16 \<Rightarrow> u16 \<Rightarrow> scope_set \<Rightarrow> service_entry \<Rightarrow> memory_pool \<times> blocks \<Rightarrow> 'ip sending" where
  "SendServiceDeRegistration big sendmsg dest xid scopes service q =
     map_option (Sender_Send sendmsg dest) (BuildServiceDeRegistration big IOQueue_Write xid scopes service (EmptyBuffer q))"

definition SendServiceAck ::
    "bool \<Rightarrow> (bytes \<Rightarrow> int) \<Rightarrow> 'ip \<times> u16 \<Rightarrow> u16 \<Rightarrow> string \<Rightarrow> u16 \<Rightarrow> memory_pool \<times> blocks \<Rightarrow> 'ip sending" where
  "SendServiceAck big sendmsg dest xid language error_code q =
     map_option (Sender_Send sendmsg dest) (BuildServiceAck big IOQueue_Write xid language error_code (EmptyBuffer q))"

definition SendDAAdvert ::
    "bool \<Rightarrow> 'ip \<Rightarrow> (bytes \<Rightarrow> int) \<Rightarrow> 'ip \<times> u16 \<Rightarrow> u16 \<Rightarrow> u16 \<Rightarrow> u32 \<Rightarrow> string \<Rightarrow> scope_set \<Rightarrow> memory_pool \<times> blocks \<Rightarrow> 'ip sending" where
  "SendDAAdvert big multicast_address sendmsg dest xid error_code boot_timestamp url scopes q =
     map_option (Sender_Send sendmsg dest)
       (BuildDAAdvert big IOQueue_Write xid (fst dest = multicast_address) error_code boot_timestamp url scopes (EmptyBuffer q))"

definition SendServiceTypeReply ::
    "bool \<Rightarrow> (bytes \<Rightarrow> int) \<Rightarrow> 'ip \<times> u16 \<Rightarrow> u16 \<Rightarrow> u16 \<Rightarrow> string list \<Rightarrow> memory_pool \<times> blocks \<Rightarrow> 'ip sending" where
  "SendServiceTypeReply big sendmsg dest xid error_code service_types q =
     map_option (Sender_Send sendmsg dest) (BuildServiceTypeReply big IOQueue_Write xid error_code service_types (EmptyBuffer q))"

definition SendSAAdvert ::
    "bool \<Rightarrow> 'ip \<Rightarrow> (bytes \<Rightarrow> int) \<Rightarrow> 'ip \<times> u16 \<Rightarrow> u16 \<Rightarrow> string \<Rightarrow> scope_set \<Rightarrow> memory_pool \<times> blocks \<Rightarrow> 'ip sending" where
  "SendSAAdvert big multicast_address sendmsg dest xid url scopes q =
     map_option (Sender_Send sendmsg dest)
       (BuildSAAdvert big IOQueue_Write xid (fst dest = multicast_address) url scopes (EmptyBuffer q))"

definition SendError ::
    "bool \<Rightarrow> (bytes \<Rightarrow> int) \<Rightarrow> 'ip \<times> u16 \<Rightarrow> u8 \<Rightarrow> u16 \<Rightarrow> string \<Rightarrow> u16 \<Rightarrow> memory_pool \<times> blocks \<Rightarrow> 'ip sending" where
  "SendError big sendmsg dest function_id xid language error_code q =
     map_option (Sender_Send sendmsg dest) (BuildError big IOQueue_Write function_id xid language error_code (EmptyBuffer q))"

section \<open>Calls\<close>

text \<open>The functions of the sender with their arguments, and the bytes each has to send: the encoding of a message, or of a
  packet that the server does not read.\<close>

datatype 'ip sender_call =
    ServiceRequestCall u16 "'ip list" string scope_set
  | ServiceReplyCall u16 string u16 "url_entry list"
  | ServiceRegistrationCall u16 bool scope_set service_entry
  | ServiceDeRegistrationCall u16 scope_set service_entry
  | ServiceAckCall u16 string u16
  | DAAdvertCall u16 u16 u32 string scope_set
  | ServiceTypeReplyCall u16 u16 "string list"
  | SAAdvertCall u16 string scope_set
  | ErrorCall u8 u16 string u16

fun send_call ::
    "('ip \<Rightarrow> string) \<Rightarrow> bool \<Rightarrow> 'ip \<Rightarrow> (bytes \<Rightarrow> int) \<Rightarrow> 'ip \<times> u16 \<Rightarrow> 'ip sender_call \<Rightarrow> memory_pool \<times> blocks \<Rightarrow> 'ip sending" where
  "send_call its big ma sendmsg dest (ServiceRequestCall xid pr_list service_type scopes) =
     SendServiceRequest its big ma sendmsg dest xid pr_list service_type scopes"
| "send_call its big ma sendmsg dest (ServiceReplyCall xid language error_code urls) =
     SendServiceReply big sendmsg dest xid language error_code urls"
| "send_call its big ma sendmsg dest (ServiceRegistrationCall xid fresh scopes service) =
     SendServiceRegistration big sendmsg dest xid fresh scopes service"
| "send_call its big ma sendmsg dest (ServiceDeRegistrationCall xid scopes service) =
     SendServiceDeRegistration big sendmsg dest xid scopes service"
| "send_call its big ma sendmsg dest (ServiceAckCall xid language error_code) =
     SendServiceAck big sendmsg dest xid language error_code"
| "send_call its big ma sendmsg dest (DAAdvertCall xid error_code boot_timestamp url scopes) =
     SendDAAdvert big ma sendmsg dest xid error_code boot_timestamp url scopes"
| "send_call its big ma sendmsg dest (ServiceTypeReplyCall xid error_code service_types) =
     SendServiceTypeReply big sendmsg dest xid error_code service_types"
| "send_call its big ma sendmsg dest (SAAdvertCall xid url scopes) = SendSAAdvert big ma sendmsg dest xid url scopes"
| "send_call its big ma sendmsg dest (ErrorCall function_id xid language error_code) =
     SendError big sendmsg dest function_id xid language error_code"

fun call_message :: "bool \<Rightarrow> 'ip sender_call \<Rightarrow> 'ip slp_message option" where
  "call_message multicast (ServiceRequestCall xid pr_list service_type scopes) =
     Some (SrvRqst xid multicast EN_LANGUAGE_TAG pr_list service_type scopes [])"
| "call_message multicast (ServiceReplyCall xid language error_code urls) = Some (SrvRply xid language error_code urls)"
| "call_message multicast (ServiceRegistrationCall xid fresh scopes service) = Some (SrvReg xid fresh scopes service)"
| "call_message multicast (ServiceDeRegistrationCall xid scopes service) = Some (SrvDeReg xid scopes service)"
| "call_message multicast (ServiceAckCall xid language error_code) = Some (SrvAck xid language error_code)"
| "call_message multicast (DAAdvertCall xid error_code boot_timestamp url scopes) =
     Some (DAAdvert xid multicast error_code boot_timestamp url scopes)"
| "call_message multicast call = None"

fun reply_bytes :: "bool \<Rightarrow> 'ip sender_call \<Rightarrow> bytes" where
  "reply_bytes multicast (ServiceTypeReplyCall xid error_code service_types) =
     (let types = join '','' (map SLPStringEscape service_types)
      in enc_header SERVICE_TYPE_REPLY (4 + len32 types) 0 xid EN_LANGUAGE_TAG @ be16 error_code @ enc_string types)"
| "reply_bytes multicast (SAAdvertCall xid url scopes) =
     (let sc = AsEscapedString scopes
      in enc_header SA_ADVERTISEMENT (7 + len32 url + len32 sc) (mcast_flag multicast) xid EN_LANGUAGE_TAG @
         enc_string url @ enc_string sc @ be16 0 @ [0])"
| "reply_bytes multicast (ErrorCall function_id xid language error_code) =
     enc_header function_id 2 0 xid language @ be16 error_code"
| "reply_bytes multicast call = []"

definition call_bytes :: "('ip \<Rightarrow> string) \<Rightarrow> bool \<Rightarrow> 'ip sender_call \<Rightarrow> bytes" where
  "call_bytes its multicast call =
     (case call_message multicast call of Some m \<Rightarrow> enc_message its m | None \<Rightarrow> reply_bytes multicast call)"

text \<open>Calls one after the other, each with its receiver and the result of its system call, and all datagrams.\<close>

fun send_calls ::
    "('ip \<Rightarrow> string) \<Rightarrow> bool \<Rightarrow> 'ip \<Rightarrow> ((bytes \<Rightarrow> int) \<times> ('ip \<times> u16) \<times> 'ip sender_call) list \<Rightarrow>
      memory_pool \<times> blocks \<Rightarrow> 'ip sending" where
  "send_calls its big ma [] q = Some ([], q)"
| "send_calls its big ma ((sendmsg, dest, call) # rest) q =
     do { (datagrams, q1) \<leftarrow> send_call its big ma sendmsg dest call q;
          (more, q2) \<leftarrow> send_calls its big ma rest q1;
          Some (datagrams @ more, q2) }"

text \<open>The call of the builder in each function.\<close>

fun build_call :: "('ip \<Rightarrow> string) \<Rightarrow> bool \<Rightarrow> (bytes \<Rightarrow> 's \<Rightarrow> 's option) \<Rightarrow> bool \<Rightarrow> 'ip sender_call \<Rightarrow> 's \<Rightarrow> 's option" where
  "build_call its big wr multicast (ServiceTypeReplyCall xid error_code service_types) =
     BuildServiceTypeReply big wr xid error_code service_types"
| "build_call its big wr multicast (SAAdvertCall xid url scopes) = BuildSAAdvert big wr xid multicast url scopes"
| "build_call its big wr multicast (ErrorCall function_id xid language error_code) =
     BuildError big wr function_id xid language error_code"
| "build_call its big wr multicast call = build_message its big wr (the (call_message multicast call))"

lemma send_call_eq:
  "send_call its big ma sendmsg dest call q =
    map_option (Sender_Send sendmsg dest) (build_call its big IOQueue_Write (fst dest = ma) call (EmptyBuffer q))"
  by (cases call)
    (simp_all add: SendServiceRequest_def SendServiceReply_def SendServiceRegistration_def SendServiceDeRegistration_def
      SendServiceAck_def SendDAAdvert_def SendServiceTypeReply_def SendSAAdvert_def SendError_def)

context output_buffer
begin

lemma emits_call: "emits content ok (build_call its big wr multicast call) (call_bytes its multicast call)"
proof (cases "call_message multicast call")
  case (Some m)
  then have "build_call its big wr multicast call = build_message its big wr m" by (cases call) simp_all
  then show ?thesis using emits_message [of its big m] Some by (simp add: call_bytes_def)
next
  case None
  then show ?thesis
    by (cases call; simp only: call_message.simps option.distinct)
      (simp_all only: call_bytes_def call_message.simps option.case build_call.simps reply_bytes.simps Let_def
        BuildServiceTypeReply_def [abs_def] BuildSAAdvert_def [abs_def] BuildError_def [abs_def],
       (intro emitters)+)
qed

end

section \<open>Packets that are sent\<close>

lemma enc_message_not_Nil: "enc_message its m \<noteq> []"
  by (cases m) (simp_all add: Let_def enc_header_def)

lemma call_bytes_not_Nil [simp]: "call_bytes its multicast call \<noteq> []"
  by (cases call) (simp_all add: call_bytes_def enc_message_not_Nil Let_def enc_header_def)

lemma send_complete:
  assumes q: "queue_clean q" "snd q = []" and sent: "\<And>xs. sendmsg xs = int (length xs)"
  obtains q' where "send_call its big ma sendmsg dest call q = Some ([(dest, call_bytes its (fst dest = ma) call)], q')"
    "queue_clean q'" "snd q' = []"
proof -
  let ?x = "call_bytes its (fst dest = ma) call"
  have e: "EmptyBuffer q = q" using q(2) by (simp add: EmptyBuffer_def IOQueue_Empty_def)
  obtain q1 where b1: "build_call its big IOQueue_Write (fst dest = ma) call q = Some q1" and c1: "queue_clean q1"
      "contents (snd q1) = contents (snd q) @ ?x"
    by (rule emits_apply [OF queue_out.emits_call q(1)]) (rule that)
  note q1 = b1 c1(1) c1(2) [unfolded q(2) contents_simps append_Nil]
  have iov: "concat (IOQueue_AsIOVec (snd q1)) = ?x"
    using q1(3) by (simp add: IOQueue_AsIOVec_def contents_def)
  then have "IOQueue_AsIOVec (snd q1) \<noteq> []" using call_bytes_not_Nil [of its "fst dest = ma" call] by force
  define q2 where "q2 = IOQueue_Pop (length ?x) q1"
  have q1_ok: "queue_ok q1" using q1(2) by simp
  note pop = Pop_laws [OF q1_ok q2_def [symmetric]]
  have c2: "contents (snd q2) = []" using pop(3) q1(3) by simp
  note clear = Clear_laws [OF pop(1) refl]
  have "send_call its big ma sendmsg dest call q = Some ([(dest, ?x)], IOQueue_Clear q2)"
    using \<open>IOQueue_AsIOVec (snd q1) \<noteq> []\<close>
    by (simp add: send_call_eq e q1(1) Sender_Send_def SendTo_def Let_def iov sent q2_def)
  then show thesis using that clear(1,3) clear(4) [OF _ c2] pop(4) q1(2) by blast
qed

text \<open>C18: A sender whose system calls succeed gives the socket exactly the packets of its calls, in their order and each to its
  receiver, however often it has used its queue before.\<close>

theorem sender_sends_packets:
  assumes "\<forall>(sendmsg, dest, call) \<in> set calls. \<forall>xs. sendmsg xs = int (length xs)"
  shows "\<exists>q'. send_calls its big ma calls IOQueue =
    Some (map (\<lambda>(sendmsg, dest, call). (dest, call_bytes its (fst dest = ma) call)) calls, q')"
proof -
  let ?datagrams = "map (\<lambda>(sendmsg, dest, call). (dest, call_bytes its (fst dest = ma) call))"
  have "\<exists>q'. send_calls its big ma calls q = Some (?datagrams calls, q')" if "queue_clean q" "snd q = []" for q
    using assms that
  proof (induction calls arbitrary: q)
    case (Cons c calls)
    obtain sendmsg dest call where c: "c = (sendmsg, dest, call)" by (cases c)
    have sent: "\<And>xs. sendmsg xs = int (length xs)" using Cons.prems(1) by (auto simp: c)
    obtain q1 where q1: "send_call its big ma sendmsg dest call q = Some ([(dest, call_bytes its (fst dest = ma) call)], q1)"
        "queue_clean q1" "snd q1 = []"
      by (rule send_complete [OF Cons.prems(2,3) sent, where its = its and big = big and ma = ma and dest = dest and call = call])
        (rule that)
    obtain q' where "send_calls its big ma calls q1 = Some (?datagrams calls, q')"
      using Cons.IH [OF _ q1(2,3)] Cons.prems(1) by auto
    then show ?case using q1(1) by (simp add: c)
  qed simp
  then show ?thesis using new_queue(1) by (simp add: IOQueue_def)
qed

definition all_sent :: "bytes \<Rightarrow> int" where
  "all_sent xs = int (length xs)"

lemma sender_sends_packets_witness:
  "\<exists>q'. send_calls two_ips False True
      [(all_sent, (False, 427), ServiceAckCall 1 ''en'' 0), (all_sent, (True, 427), SAAdvertCall 2 ''x'' [''default''])] IOQueue =
    Some ([((False, 427), call_bytes two_ips False (ServiceAckCall 1 ''en'' 0)),
           ((True, 427), call_bytes two_ips True (SAAdvertCall 2 ''x'' [''default'']))], q')"
  using sender_sends_packets [of "[(all_sent, (False, 427), ServiceAckCall 1 ''en'' 0),
      (all_sent, (True, 427), SAAdvertCall 2 ''x'' [''default''])]" two_ips False True]
  by (simp add: all_sent_def)

section \<open>Packets that are not sent\<close>

text \<open>A queue with its own pool that has only been written to: no free blocks, and every block but the last is full.\<close>

definition packed :: "memory_pool \<times> blocks \<Rightarrow> bool" where
  "packed q \<longleftrightarrow>
     queue_ok q \<and> m_block_size (fst q) = DEFAULT_BLOCK_SIZE \<and> m_free_blocks (fst q) = [] \<and> (\<forall>b \<in> set (snd q). m_first b = 0) \<and>
     (\<forall>b \<in> set (butlast (snd q)). m_last b = Capacity b)"

lemma packed_clean: "packed q \<Longrightarrow> queue_clean q"
  by (simp add: packed_def clean_def)

lemma packed_AppendBlock:
  assumes "packed q" "\<forall>b \<in> set (snd q). m_last b = Capacity b"
  shows "packed (AppendBlock q)"
proof -
  have "queue_ok (AppendBlock q)" using assms(1) AppendBlock_laws(1) packed_def by blast
  moreover have "AppendBlock q =
      ((fst q)\<lparr>m_blocks_allocated := m_blocks_allocated (fst q) + 1\<rparr>, snd q @ [MemoryBlock (replicate (m_block_size (fst q)) 0)])"
    using assms(1) by (cases q) (simp add: packed_def AppendBlock_def Allocate_def)
  ultimately show ?thesis using assms by (auto simp: packed_def MemoryBlock_def)
qed

lemma write_loop_packed:
  assumes "packed q" "snd q \<noteq> []" "write_loop q data = Some q'"
  shows "packed q'"
  using assms
proof (induction "write_measure q data" arbitrary: q data rule: less_induct)
  case less
  have ok: "queue_ok q" using less.prems(1) by (simp add: packed_def)
  obtain n b where A: "Append data (last (snd q)) = (n, b)" by fastforce
  define q1 where q1: "q1 = (fst q, butlast (snd q) @ [b])"
  note W = write_step [OF ok less.prems(2) A q1]
  have c: "last (snd q) \<in> set (snd q)" using less.prems(2) by simp
  then have wf: "wf_block (last (snd q))" using ok by (simp add: queue_ok_def chain_ok_def)
  note L = Append_laws [OF wf A]
  have "m_first b = m_first (last (snd q))" using A by (auto simp: Append_def Let_def)
  then have packed1: "packed q1"
    using less.prems(1) W(1) c q1 by (auto simp: packed_def dest: in_set_butlastD)
  have step: "write_loop q data = (if n = length data then Some q1 else write_loop (AppendBlock q1) (drop n data))"
    by (subst write_loop.simps) (simp add: A q1)
  show ?case
  proof (cases "n = length data")
    case True
    then show ?thesis using step less.prems(3) packed1 by simp
  next
    case False
    then have "n = Capacity b - m_last (last (snd q))" using L(1,5) by auto
    then have "m_last b = Capacity b" using L(5,6) wf by (simp add: wf_block_def)
    then have "\<forall>b \<in> set (snd q1). m_last b = Capacity b" using less.prems(1) q1 by (auto simp: packed_def)
    note P = packed_AppendBlock [OF packed1 this]
    have "write_loop (AppendBlock q1) (drop n data) = Some q'" using step less.prems(3) False by simp
    then show ?thesis
      using less.hyps [OF W(5) [OF False] P] AppendBlock_laws(3) [OF W(1) refl] by blast
  qed
qed

interpretation packed_out: output_buffer queue_content packed IOQueue_Write
proof unfold_locales
  fix xs
  show "emits queue_content packed (IOQueue_Write xs) xs"
    unfolding emits_def
  proof (intro allI impI)
    fix q assume q: "packed q"
    obtain q' where q': "IOQueue_Write xs q = Some q'" "queue_clean q'" "contents (snd q') = contents (snd q) @ xs"
      by (rule emits_apply [OF queue_out.write_appends packed_clean [OF q]]) (rule that)
    define r where "r = (if snd q = [] then AppendBlock q else q)"
    have "packed r" using q packed_AppendBlock [OF q] by (simp add: r_def)
    moreover have "snd r \<noteq> []"
      using AppendBlock_laws(3) [of q "AppendBlock q"] q by (simp add: r_def packed_def)
    moreover have "write_loop r xs = Some q'" using q'(1) by (simp add: IOQueue_Write_def r_def)
    ultimately have "packed q'" by (rule write_loop_packed)
    then show "\<exists>q'. IOQueue_Write xs q = Some q' \<and> packed q' \<and> contents (snd q') = contents (snd q) @ xs" using q' by blast
  qed
qed

lemma packed_one_block:
  assumes "packed q" "length (contents (snd q)) < m_block_size (fst q)" "contents (snd q) \<noteq> []"
  obtains b where "snd q = [b]"
proof (cases "snd q")
  case Nil
  then show thesis using assms(3) by simp
next
  case (Cons b bs)
  have "bs = []"
  proof (rule ccontr)
    assume "bs \<noteq> []"
    then have "m_last b = Capacity b" "m_first b = 0" "wf_block b" "Capacity b = m_block_size (fst q)"
      using assms(1) Cons by (auto simp: packed_def queue_ok_def)
    then have "length (block_Data b) = m_block_size (fst q)" by (simp add: block_Size_def)
    then show False using assms(2) Cons by simp
  qed
  then show thesis using that Cons by simp
qed

text \<open>The first write of a packet takes a block from the pool, with whatever is in it.\<close>

lemma build_from_block:
  assumes "snd q = []"
  shows "build_call its big IOQueue_Write multicast call q = build_call its big IOQueue_Write multicast call (AppendBlock q)"
proof -
  have "snd (AppendBlock q) \<noteq> []" by (cases q) (simp add: AppendBlock_def split: prod.split)
  then have "IOQueue_Write xs q = IOQueue_Write xs (AppendBlock q)" for xs
    using assms by (simp add: IOQueue_Write_def)
  then have header: "BuildSLPHeader big IOQueue_Write f c flags xid language q =
      BuildSLPHeader big IOQueue_Write f c flags xid language (AppendBlock q)" for f c flags xid language
    by (simp add: BuildSLPHeader_def out_u8_def Let_def)
  show ?thesis
    by (cases call) (simp_all only: build_call.simps call_message.simps option.sel build_message.simps BuildServiceRequest_ips_def
        BuildServiceRequest_def BuildServiceReply_def BuildServiceRegistration_def BuildServiceDeRegistration_def
        BuildServiceAck_def BuildDAAdvert_def BuildServiceTypeReply_def BuildSAAdvert_def BuildError_def Let_def header)
qed

lemma datagram_of:
  "contents (snd q) \<noteq> [] \<Longrightarrow>
    fst (Sender_Send sendmsg dest q) = [(dest, contents (snd q))] \<and>
    (sendmsg (contents (snd q)) < 0 \<longrightarrow> snd (Sender_Send sendmsg dest q) = IOQueue_Clear q)"
  by (cases "snd q") (simp_all add: Sender_Send_def SendTo_def IOQueue_AsIOVec_def contents_def Let_def)

lemma reuse_block:
  assumes "packed q" "snd q = [b]"
  shows "AppendBlock (IOQueue_Clear q) = q" "snd (IOQueue_Clear q) = []"
  using assms by (cases q; simp add: packed_def IOQueue_Clear_def Release_def AppendBlock_def Allocate_def)+

text \<open>A packet that could not be sent is sent with the next one. When the system call fails, the queue is cleared with the
  packet in it, its block goes back to the pool as it is, and the next packet is written behind the old one: the next
  datagram, to another receiver perhaps, holds both, and its receiver reads the old packet and never the new one.\<close>

theorem unsent_packet_returns:
  assumes "address_text its ip_from_string" "call_message (fst dest1 = ma) call1 = Some m1"
    and short: "length (enc_message its m1) < DEFAULT_BLOCK_SIZE"
    and fails: "\<forall>xs. sendmsg1 xs < 0"
  shows "\<exists>datagram q'.
    send_calls its big ma [(sendmsg1, dest1, call1), (sendmsg2, dest2, call2)] IOQueue =
      Some ([(dest1, enc_message its m1), (dest2, datagram)], q') \<and>
    datagram = enc_message its m1 @ call_bytes its (fst dest2 = ma) call2 \<and>
    UDPData ip_from_string big' datagram = Some (received_as (\<lambda>ips. ips) m1)"
proof -
  let ?x1 = "call_bytes its (fst dest1 = ma) call1" and ?x2 = "call_bytes its (fst dest2 = ma) call2"
  have x1: "?x1 = enc_message its m1" using assms(2) by (simp add: call_bytes_def)
  have start: "packed IOQueue" "EmptyBuffer IOQueue = IOQueue"
    using new_queue(1) by (simp_all add: packed_def IOQueue_def MemoryBlockPool_def EmptyBuffer_def IOQueue_Empty_def)
  obtain q1 where q1: "build_call its big IOQueue_Write (fst dest1 = ma) call1 IOQueue = Some q1" "packed q1"
      "contents (snd q1) = contents (snd IOQueue) @ ?x1"
    by (rule emits_apply [OF packed_out.emits_call start(1)]) (rule that)
  note c1 = q1(3) [unfolded new_queue(2) append_Nil]
  have "length (contents (snd q1)) < m_block_size (fst q1)" using short c1 q1(2) by (simp add: packed_def x1)
  then obtain b where b: "snd q1 = [b]"
    using packed_one_block [OF q1(2)] c1 call_bytes_not_Nil by metis
  obtain q2 where q2: "build_call its big IOQueue_Write (fst dest2 = ma) call2 q1 = Some q2" "packed q2"
      "contents (snd q2) = contents (snd q1) @ ?x2"
    by (rule emits_apply [OF packed_out.emits_call q1(2)]) (rule that)
  have first: "send_call its big ma sendmsg1 dest1 call1 IOQueue = Some ([(dest1, ?x1)], IOQueue_Clear q1)"
    using datagram_of [of q1 sendmsg1 dest1] c1 fails
    by (cases "Sender_Send sendmsg1 dest1 q1") (simp add: send_call_eq start(2) q1(1))
  have "EmptyBuffer (IOQueue_Clear q1) = IOQueue_Clear q1"
    using reuse_block(2) [OF q1(2) b] by (simp add: EmptyBuffer_def IOQueue_Empty_def)
  then have "send_call its big ma sendmsg2 dest2 call2 (IOQueue_Clear q1) = Some (Sender_Send sendmsg2 dest2 q2)"
    using build_from_block [OF reuse_block(2) [OF q1(2) b], of its big "fst dest2 = ma" call2] reuse_block(1) [OF q1(2) b] q2(1)
    by (simp add: send_call_eq)
  moreover have "fst (Sender_Send sendmsg2 dest2 q2) = [(dest2, ?x1 @ ?x2)]"
    using datagram_of [of q2 sendmsg2 dest2] q2(3) c1 by simp
  ultimately have "send_calls its big ma [(sendmsg1, dest1, call1), (sendmsg2, dest2, call2)] IOQueue =
      Some ([(dest1, ?x1), (dest2, ?x1 @ ?x2)], snd (Sender_Send sendmsg2 dest2 q2))"
    using first by (cases "Sender_Send sendmsg2 dest2 q2") simp
  then show ?thesis
    using UDPData_message [of its m1 ip_from_string big' ?x2] address_list_roundtrip [OF assms(1)] short
    by (simp add: x1 PACKET_SIZE_def DEFAULT_BLOCK_SIZE_def)
qed

lemma unsent_packet_returns_witness:
  "\<exists>datagram q'.
    send_calls two_ips False True [(\<lambda>xs. - 1, (False, 427), ServiceAckCall 1 ''en'' 0), (all_sent, (True, 427), ErrorCall 9 2 ''en'' 3)] IOQueue =
      Some ([((False, 427), enc_message two_ips (SrvAck 1 ''en'' 0)), ((True, 427), datagram)], q') \<and>
    datagram = enc_message two_ips (SrvAck 1 ''en'' 0) @ call_bytes two_ips True (ErrorCall 9 2 ''en'' 3) \<and>
    UDPData two_ips_from False datagram = Some (received_as (\<lambda>ips. ips) (SrvAck 1 ''en'' 0))"
proof -
  note u = unsent_packet_returns [OF two_ips_text, of "(False, 427)" True "ServiceAckCall 1 ''en'' 0" "SrvAck 1 ''en'' 0"
      "\<lambda>xs. - 1" False all_sent "(True, 427)" "ErrorCall 9 2 ''en'' 3" False]
  show ?thesis using u by (simp add: DEFAULT_BLOCK_SIZE_def)
qed

end
