(* ===== verification/SLP_Store.thy ===== *)
theory SLP_Store
  imports SLP_Packet Clock
begin

text \<open>
  The store of the services that are registered with a server, \<^verbatim>\<open>slp/SLPStore.cpp\<close>: for each type of service a list of
  entries, with the lifetimes they had when the list was last cleaned. An operation that looks at a list brings the
  lifetimes up to date first, unless less than a second has passed.
\<close>

section \<open>State\<close>

datatype slp_error_code =
    SLP_OK | LANGUAGE_NOT_SUPPORTED | PARSE_ERROR | INVALID_REGISTRATION | SCOPE_NOT_SUPPORTED | AUTHENTICATION_UNKNOWN
  | AUTHENTICATION_ABSENT | AUTHENTICATION_FAILED | VER_NOT_SUPPORTED | INTERNAL_ERROR | DA_BUSY_NOW
  | OPTION_NOT_UNDERSTOOD | INVALID_UPDATE | MSG_NOT_SUPPORTED | REFRESH_REJECTED

datatype check_result = Scopes_OK | SCOPE_MISMATCH | NOT_FOUND

record service_list =
  last_cleaned :: TimeStamp
  sl_services :: "service_entry list"

type_synonym slp_store = "(string, service_list) stl_map"

abbreviation e_url :: "service_entry \<Rightarrow> string" where
  "e_url e \<equiv> url_string (m_url e)"

abbreviation e_lifetime :: "service_entry \<Rightarrow> u16" where
  "e_lifetime e \<equiv> url_lifetime (m_url e)"

section \<open>Operations\<close>

definition elapsed_seconds :: "TimeStamp \<Rightarrow> TimeStamp \<Rightarrow> int" where
  "elapsed_seconds now before = tv_sec (m_interval (stamp_diff now before))"

definition age_entry :: "int \<Rightarrow> service_entry \<Rightarrow> service_entry" where
  "age_entry elapsed e = e\<lparr>m_url := snd (AgeLifetime (of_int elapsed) (m_url e))\<rparr>"

fun clean_entries :: "int \<Rightarrow> service_entry list \<Rightarrow> service_entry list" where
  "clean_entries elapsed [] = []"
| "clean_entries elapsed (e # es) =
     (if uint (e_lifetime e) \<le> elapsed then clean_entries elapsed es else age_entry elapsed e # clean_entries elapsed es)"

definition MaybeCleanURLList :: "TimeStamp \<Rightarrow> service_list \<Rightarrow> service_list" where
  "MaybeCleanURLList now sl =
     (let elapsed = elapsed_seconds now (last_cleaned sl)
      in if elapsed = 0 then sl else sl\<lparr>sl_services := clean_entries elapsed (sl_services sl), last_cleaned := now\<rparr>)"

fun FindService :: "service_entry list \<Rightarrow> string \<Rightarrow> nat option" where
  "FindService [] url = None"
| "FindService (e # es) url = (if url = e_url e then Some 0 else map_option Suc (FindService es url))"

definition InsertOrUpdateEntry :: "service_entry list \<Rightarrow> service_entry \<Rightarrow> bool \<Rightarrow> slp_error_code \<times> service_entry list" where
  "InsertOrUpdateEntry services service fresh =
     (case FindService services (e_url service) of
        None \<Rightarrow> if \<not> fresh then (INVALID_UPDATE, services) else (SLP_OK, services @ [service])
      | Some i \<Rightarrow>
          let e = services ! i
          in if m_scopes e \<noteq> m_scopes service then (SCOPE_NOT_SUPPORTED, services)
             else if e_lifetime service > e_lifetime e
             then (SLP_OK, services[i := e\<lparr>m_url := (m_url e)\<lparr>url_lifetime := e_lifetime service\<rparr>\<rparr>])
             else (SLP_OK, services))"

definition Populate :: "TimeStamp \<Rightarrow> string \<Rightarrow> slp_store \<Rightarrow> service_list \<times> slp_store" where
  "Populate now service store =
     (let sl = \<lparr>last_cleaned = now, sl_services = []\<rparr> in (sl, snd (map_insert service sl store)))"

definition Insert_fresh :: "TimeStamp \<Rightarrow> service_entry \<Rightarrow> bool \<Rightarrow> slp_store \<Rightarrow> slp_error_code \<times> slp_store" where
  "Insert_fresh now service fresh store =
     (let (sl, store1) =
            (case map_of store (m_service_type service) of
               None \<Rightarrow> Populate now (m_service_type service) store
             | Some sl \<Rightarrow> (MaybeCleanURLList now sl, store));
          (code, services) = InsertOrUpdateEntry (sl_services sl) service fresh
      in (code, map_set (m_service_type service) (sl\<lparr>sl_services := services\<rparr>) store1))"

definition Insert :: "TimeStamp \<Rightarrow> service_entry \<Rightarrow> slp_store \<Rightarrow> slp_error_code \<times> slp_store" where
  "Insert now service store = Insert_fresh now service True store"

definition Remove :: "service_entry \<Rightarrow> slp_store \<Rightarrow> slp_error_code \<times> slp_store" where
  "Remove service store =
     (case map_of store (m_service_type service) of
        None \<Rightarrow> (SLP_OK, store)
      | Some sl \<Rightarrow>
          case FindService (sl_services sl) (e_url service) of
            None \<Rightarrow> (SLP_OK, store)
          | Some i \<Rightarrow>
              if m_scopes (sl_services sl ! i) = m_scopes service then
                let services = take i (sl_services sl) @ drop (Suc i) (sl_services sl)
                in (SLP_OK,
                    if services = [] then map_erase (m_service_type service) store
                    else map_set (m_service_type service) (sl\<lparr>sl_services := services\<rparr>) store)
              else (SCOPE_NOT_SUPPORTED, store))"

text \<open>The counter of \<open>Lookup\<close> counts every entry, also those that are not returned.\<close>

fun lookup_loop :: "scope_set \<Rightarrow> nat \<Rightarrow> nat \<Rightarrow> service_entry list \<Rightarrow> url_entry list" where
  "lookup_loop scopes limit i [] = []"
| "lookup_loop scopes limit i (e # es) =
     (if \<not> Intersects (m_scopes e) scopes then lookup_loop scopes limit (i + 1) es
      else if limit \<noteq> 0 \<and> i \<ge> limit then []
      else m_url e # lookup_loop scopes limit (i + 1) es)"

definition Lookup :: "TimeStamp \<Rightarrow> scope_set \<Rightarrow> string \<Rightarrow> nat \<Rightarrow> slp_store \<Rightarrow> url_entry list \<times> slp_store" where
  "Lookup now scopes raw_service_type limit store =
     (let service_type = SLPGetCanonicalString raw_service_type
      in case map_of store service_type of
           None \<Rightarrow> ([], store)
         | Some sl \<Rightarrow>
             let sl1 = MaybeCleanURLList now sl
             in (lookup_loop scopes limit 0 (sl_services sl1), map_set service_type sl1 store))"

fun check_loop :: "int \<Rightarrow> service_entry \<Rightarrow> service_entry list \<Rightarrow> check_result" where
  "check_loop elapsed service [] = NOT_FOUND"
| "check_loop elapsed service (e # es) =
     (if e_url e \<noteq> e_url service then check_loop elapsed service es
      else if uint (e_lifetime e) \<le> elapsed then NOT_FOUND
      else if m_scopes e = m_scopes service then Scopes_OK else SCOPE_MISMATCH)"

definition CheckIfScopesMatch :: "TimeStamp \<Rightarrow> service_entry \<Rightarrow> slp_store \<Rightarrow> check_result" where
  "CheckIfScopesMatch now service store =
     (case map_of store (m_service_type service) of
        None \<Rightarrow> NOT_FOUND
      | Some sl \<Rightarrow> check_loop (elapsed_seconds now (last_cleaned sl)) service (sl_services sl))"

fun local_loop :: "int \<Rightarrow> scope_set \<Rightarrow> service_entry list \<Rightarrow> service_entry list" where
  "local_loop elapsed scopes [] = []"
| "local_loop elapsed scopes (e # es) =
     (if \<not> m_local e \<or> uint (e_lifetime e) \<le> elapsed then local_loop elapsed scopes es
      else if Intersects (m_scopes e) scopes then age_entry elapsed e # local_loop elapsed scopes es
      else local_loop elapsed scopes es)"

definition GetLocalServices :: "TimeStamp \<Rightarrow> scope_set \<Rightarrow> slp_store \<Rightarrow> service_entry list" where
  "GetLocalServices now scopes store =
     concat (map (\<lambda>(t, sl). local_loop (elapsed_seconds now (last_cleaned sl)) scopes (sl_services sl)) store)"

fun AnyServiceMatchesScopes :: "scope_set \<Rightarrow> service_entry list \<Rightarrow> bool" where
  "AnyServiceMatchesScopes scopes [] = False"
| "AnyServiceMatchesScopes scopes (e # es) =
     (if Intersects (m_scopes e) scopes then True else AnyServiceMatchesScopes scopes es)"

definition GetAllServiceTypes :: "scope_set \<Rightarrow> slp_store \<Rightarrow> string list" where
  "GetAllServiceTypes scopes store = map fst (filter (\<lambda>(t, sl). AnyServiceMatchesScopes scopes (sl_services sl)) store)"

text \<open>The part of a type behind its last dot.\<close>

definition naming_auth_of :: "string \<Rightarrow> string" where
  "naming_auth_of service_type =
     (if CHR ''.'' \<in> set service_type then rev (takeWhile (\<lambda>c. c \<noteq> CHR ''.'') (rev service_type)) else [])"

definition GetServiceTypesByNamingAuth :: "string \<Rightarrow> scope_set \<Rightarrow> slp_store \<Rightarrow> string list" where
  "GetServiceTypesByNamingAuth naming_authority scopes store =
     map fst (filter (\<lambda>(t, sl). naming_auth_of t = naming_authority \<and> AnyServiceMatchesScopes scopes (sl_services sl)) store)"

definition Clean :: "TimeStamp \<Rightarrow> slp_store \<Rightarrow> slp_store" where
  "Clean now store =
     filter (\<lambda>(t, sl). sl_services sl \<noteq> []) (map (\<lambda>(t, sl). (t, MaybeCleanURLList now sl)) store)"

text \<open>\<open>Reset\<close> deletes the lists and keeps the pointers to them, so the store is of no use afterwards unless it was empty.\<close>

definition store_Reset :: "slp_store \<Rightarrow> slp_store option" where
  "store_Reset store = (if store = [] then Some store else None)"

text \<open>What \<open>Dump\<close> does to the store before it prints.\<close>

definition Dump :: "TimeStamp \<Rightarrow> slp_store \<Rightarrow> slp_store" where
  "Dump now store = map (\<lambda>(t, sl). (t, MaybeCleanURLList now sl)) store"

definition ServiceTypeCount :: "slp_store \<Rightarrow> nat" where
  "ServiceTypeCount store = length store"

end
