(* ===== verification/SLP_Registry.thy ===== *)
theory SLP_Registry
  imports SLP_Store SLP_Facts
begin

text \<open>
  What the store of services promises: against a registry in which every entry has the time of its expiry, and for
  operations at any times.
\<close>

section \<open>Programs\<close>

datatype store_op =
    InsertOp service_entry bool
  | RemoveOp service_entry
  | LookupOp scope_set string nat
  | CheckOp service_entry
  | LocalOp scope_set
  | TypesOp scope_set
  | AuthTypesOp string scope_set
  | CleanOp
  | DumpOp

datatype store_out =
    Code slp_error_code | Urls "url_entry list" | Checked check_result | Locals "service_entry list" | Types "string list" | Silent

fun run_store :: "TimeStamp \<Rightarrow> store_op \<Rightarrow> slp_store \<Rightarrow> store_out \<times> slp_store" where
  "run_store now (InsertOp e fresh) m = (let (code, m1) = Insert_fresh now e fresh m in (Code code, m1))"
| "run_store now (RemoveOp e) m = (let (code, m1) = Remove e m in (Code code, m1))"
| "run_store now (LookupOp scopes t limit) m = (let (urls, m1) = Lookup now scopes t limit m in (Urls urls, m1))"
| "run_store now (CheckOp e) m = (Checked (CheckIfScopesMatch now e m), m)"
| "run_store now (LocalOp scopes) m = (Locals (GetLocalServices now scopes m), m)"
| "run_store now (TypesOp scopes) m = (Types (GetAllServiceTypes scopes m), m)"
| "run_store now (AuthTypesOp auth scopes) m = (Types (GetServiceTypesByNamingAuth auth scopes m), m)"
| "run_store now CleanOp m = (Silent, Clean now m)"
| "run_store now DumpOp m = (Silent, Dump now m)"

fun run_stores :: "(TimeStamp \<times> store_op) list \<Rightarrow> slp_store \<Rightarrow> store_out list \<times> slp_store" where
  "run_stores [] m = ([], m)"
| "run_stores ((now, c) # cs) m = (let (out, m1) = run_store now c m; (outs, m2) = run_stores cs m1 in (out # outs, m2))"

lemma run_stores_append:
  "run_stores (cs @ ds) m = (let (outs, m1) = run_stores cs m; (more, m2) = run_stores ds m1 in (outs @ more, m2))"
  by (induction cs arbitrary: m) (auto simp: Let_def split: prod.splits)

section \<open>Lists of entries\<close>

lemma age_entry_simps [simp]:
  "e_url (age_entry d e) = e_url e" "m_scopes (age_entry d e) = m_scopes e" "m_local (age_entry d e) = m_local e"
  "m_service_type (age_entry d e) = m_service_type e"
  by (simp_all add: age_entry_def AgeLifetime_def)

lemma e_lifetime_age_entry:
  assumes "0 \<le> d" "d < uint (e_lifetime e)"
  shows "uint (e_lifetime (age_entry d e)) = uint (e_lifetime e) - d"
proof -
  have "d < 2 ^ 16" using assms(2) uint_lt2p [of "e_lifetime e"] by simp
  then have d: "uint (of_int d :: u16) = d" using assms(1) by (simp add: uint_word_of_int)
  then have "\<not> e_lifetime e \<le> of_int d" "of_int d \<le> e_lifetime e" using assms(2) by (simp_all add: word_le_def)
  then show ?thesis using d by (simp add: age_entry_def AgeLifetime_def uint_minus_simple_alt word_le_def uint_sub_if')
qed

lemma clean_entries_eq: "clean_entries d es = map (age_entry d) (filter (\<lambda>e. d < uint (e_lifetime e)) es)"
  by (induction es) auto

lemma FindService_None: "FindService es url = None \<longleftrightarrow> url \<notin> e_url ` set es"
  by (induction es) auto

lemma FindService_Some: "FindService es url = Some i \<Longrightarrow> i < length es \<and> e_url (es ! i) = url"
  by (induction es arbitrary: i) (auto split: if_splits)

lemma FindService_find:
  "(\<And>e. e_url (fst (f e)) = e_url e) \<Longrightarrow>
    List.find (\<lambda>(e, x). e_url e = url) (map f es) = map_option (\<lambda>i. f (es ! i)) (FindService es url)"
  by (induction es) (auto simp: option.map_comp o_def split_beta)

lemma update_unique:
  "distinct (map f xs) \<Longrightarrow> i < length xs \<Longrightarrow> xs[i := g (xs ! i)] = map (\<lambda>x. if f x = f (xs ! i) then g x else x) xs"
  by (intro nth_equalityI) (auto simp: nth_list_update nth_eq_iff_index_eq distinct_map dest: inj_onD)

lemma remove_unique:
  "distinct (map f xs) \<Longrightarrow> i < length xs \<Longrightarrow> take i xs @ drop (Suc i) xs = filter (\<lambda>x. f x \<noteq> f (xs ! i)) xs"
proof (induction xs arbitrary: i)
  case (Cons x xs)
  show ?case
  proof (cases i)
    case 0
    have "filter (\<lambda>y. f y \<noteq> f x) xs = xs" using Cons.prems(1) by (intro filter_True) (auto simp: image_iff)
    then show ?thesis using 0 by simp
  next
    case (Suc j)
    then have "f x \<noteq> f (xs ! j)" using Cons.prems by auto
    then show ?thesis using Suc Cons by simp
  qed
qed simp

lemma lookup_loop_eq:
  "lookup_loop scopes limit i es =
    map m_url (filter (\<lambda>e. Intersects (m_scopes e) scopes) (if limit = 0 then es else take (limit - i) es))"
proof (induction es arbitrary: i)
  case (Cons e es)
  show ?case using Cons.IH [of "Suc i"] by (cases "limit = 0"; cases "limit - i") (auto simp: diff_Suc split: nat.splits)
qed simp

section \<open>The registry\<close>

text \<open>An entry of the registry is a service, without its lifetime, and the second of its expiry.\<close>

type_synonym registration = "service_entry \<times> int"

type_synonym registry = "(string, registration list) stl_map"

definition strip :: "service_entry \<Rightarrow> service_entry" where
  "strip e = e\<lparr>m_url := (m_url e)\<lparr>url_lifetime := 0\<rparr>\<rparr>"

definition remaining :: "int \<Rightarrow> registration \<Rightarrow> service_entry" where
  "remaining now = (\<lambda>(e, expiry). e\<lparr>m_url := (m_url e)\<lparr>url_lifetime := of_int (expiry - now)\<rparr>\<rparr>)"

definition live :: "int \<Rightarrow> registration list \<Rightarrow> registration list" where
  "live now = filter (\<lambda>(e, expiry). now < expiry)"

definition live_of :: "int \<Rightarrow> string \<Rightarrow> registry \<Rightarrow> registration list" where
  "live_of now t m = (case map_of m t of None \<Rightarrow> [] | Some rs \<Rightarrow> live now rs)"

definition put_regs :: "string \<Rightarrow> registration list \<Rightarrow> registry \<Rightarrow> registry" where
  "put_regs t rs m = map_set t rs (snd (map_insert t rs m))"

definition with_url :: "string \<Rightarrow> registration list \<Rightarrow> registration option" where
  "with_url url = List.find (\<lambda>(e, expiry). e_url e = url)"

definition spec_insert :: "int \<Rightarrow> service_entry \<Rightarrow> bool \<Rightarrow> registration list \<Rightarrow> slp_error_code \<times> registration list" where
  "spec_insert now e fresh rs =
     (let expiry = now + uint (e_lifetime e)
      in case with_url (e_url e) rs of
           None \<Rightarrow> if fresh then (SLP_OK, rs @ [(strip e, expiry)]) else (INVALID_UPDATE, rs)
         | Some (e', _) \<Rightarrow>
             if m_scopes e' \<noteq> m_scopes e then (SCOPE_NOT_SUPPORTED, rs)
             else (SLP_OK, map (\<lambda>(e', x). if e_url e' = e_url e then (e', max x expiry) else (e', x)) rs))"

fun spec_store :: "int \<Rightarrow> store_op \<Rightarrow> registry \<Rightarrow> store_out \<times> registry" where
  "spec_store now (InsertOp e fresh) m =
     (let (code, rs) = spec_insert now e fresh (live_of now (m_service_type e) m) in (Code code, put_regs (m_service_type e) rs m))"
| "spec_store now (RemoveOp e) m =
     (case map_of m (m_service_type e) of
        None \<Rightarrow> (Code SLP_OK, m)
      | Some rs \<Rightarrow>
          case with_url (e_url e) rs of
            None \<Rightarrow> (Code SLP_OK, m)
          | Some (e', _) \<Rightarrow>
              if m_scopes e' \<noteq> m_scopes e then (Code SCOPE_NOT_SUPPORTED, m)
              else let rs' = filter (\<lambda>(e', _). e_url e' \<noteq> e_url e) rs
                   in (Code SLP_OK, if rs' = [] then map_erase (m_service_type e) m else map_set (m_service_type e) rs' m))"
| "spec_store now (LookupOp scopes raw_type limit) m =
     (let t = SLPGetCanonicalString raw_type; rs = live_of now t m
      in (Urls (map (m_url \<circ> remaining now) (filter (\<lambda>(e, _). Intersects (m_scopes e) scopes) (if limit = 0 then rs else take limit rs))),
          map_set t rs m))"
| "spec_store now (CheckOp e) m =
     (Checked (case with_url (e_url e) (live_of now (m_service_type e) m) of
        None \<Rightarrow> NOT_FOUND
      | Some (e', _) \<Rightarrow> if m_scopes e' = m_scopes e then Scopes_OK else SCOPE_MISMATCH), m)"
| "spec_store now (LocalOp scopes) m =
     (Locals (concat (map (\<lambda>(t, rs). map (remaining now) (filter (\<lambda>(e, _). m_local e \<and> Intersects (m_scopes e) scopes) (live now rs))) m)), m)"
| "spec_store now (TypesOp scopes) m =
     (Types (map fst (filter (\<lambda>(t, rs). \<exists>(e, _) \<in> set rs. Intersects (m_scopes e) scopes) m)), m)"
| "spec_store now (AuthTypesOp auth scopes) m =
     (Types (map fst (filter (\<lambda>(t, rs). naming_auth_of t = auth \<and> (\<exists>(e, _) \<in> set rs. Intersects (m_scopes e) scopes)) m)), m)"
| "spec_store now CleanOp m = (Silent, filter (\<lambda>(t, rs). rs \<noteq> []) (map (\<lambda>(t, rs). (t, live now rs)) m))"
| "spec_store now DumpOp m = (Silent, map (\<lambda>(t, rs). (t, live now rs)) m)"

fun spec_stores :: "(int \<times> store_op) list \<Rightarrow> registry \<Rightarrow> store_out list \<times> registry" where
  "spec_stores [] m = ([], m)"
| "spec_stores ((now, c) # cs) m = (let (out, m1) = spec_store now c m; (outs, m2) = spec_stores cs m1 in (out # outs, m2))"

section \<open>The store at whole seconds\<close>

text \<open>Times that differ by whole seconds.\<close>

definition second :: "int \<Rightarrow> int \<Rightarrow> TimeStamp" where
  "second u t = TimeStamp (Timeval t u)"

lemma elapsed_second [simp]: "elapsed_seconds (second u b) (second u a) = b - a"
  by (simp add: elapsed_seconds_def second_def stamp_diff_def tv_minus_def tv_sub_assign_def TimerSub_def Let_def)

definition registered :: "int \<Rightarrow> service_entry \<Rightarrow> registration" where
  "registered t e = (strip e, t + uint (e_lifetime e))"

definition list_regs :: "service_list \<Rightarrow> registration list" where
  "list_regs sl = map (registered (tv_sec (m_tv (last_cleaned sl)))) (sl_services sl)"

definition store_regs :: "slp_store \<Rightarrow> registry" where
  "store_regs m = map (\<lambda>(t, sl). (t, list_regs sl)) m"

definition list_ok :: "int \<Rightarrow> int \<Rightarrow> service_list \<Rightarrow> bool" where
  "list_ok u now sl \<longleftrightarrow>
     (\<exists>t \<le> now. last_cleaned sl = second u t) \<and> distinct (map e_url (sl_services sl)) \<and>
     (\<forall>e \<in> set (sl_services sl). 0 < uint (e_lifetime e))"

definition services_ok :: "int \<Rightarrow> int \<Rightarrow> slp_store \<Rightarrow> bool" where
  "services_ok u now m \<longleftrightarrow> map_ok m \<and> (\<forall>(t, sl) \<in> set m. list_ok u now sl)"

lemma strip_simps [simp]:
  "e_url (strip e) = e_url e" "m_scopes (strip e) = m_scopes e" "m_local (strip e) = m_local e"
  "strip (age_entry d e) = strip e"
  by (simp_all add: strip_def age_entry_def AgeLifetime_def)

lemma fst_registered [simp]: "fst (registered t e) = strip e"
  by (simp add: registered_def)

lemma remaining_registered: "remaining t (registered t e) = e"
  by (cases e) (simp add: remaining_def registered_def strip_def)

lemma registered_age:
  "0 \<le> d \<Longrightarrow> d < uint (e_lifetime e) \<Longrightarrow> registered (t + d) (age_entry d e) = registered t e"
  by (simp add: registered_def e_lifetime_age_entry)

lemma live_registered: "live (t + d) (map (registered t) es) = map (registered t) (filter (\<lambda>e. d < uint (e_lifetime e)) es)"
  by (simp add: live_def filter_map o_def registered_def)

lemma clean_list:
  assumes "list_ok u now sl" "now \<le> now'"
  shows "list_regs (MaybeCleanURLList (second u now') sl) = live now' (list_regs sl)"
    and "list_ok u now' (MaybeCleanURLList (second u now') sl)"
    and "last_cleaned (MaybeCleanURLList (second u now') sl) = second u now'"
proof -
  obtain t where t: "t \<le> now'" "last_cleaned sl = second u t" using assms unfolding list_ok_def by (meson order_trans)
  let ?d = "now' - t" and ?es = "sl_services sl"
  have d: "now' = t + ?d" "0 \<le> ?d" using t by simp_all
  have sec: "tv_sec (m_tv (second u x)) = x" for x by (simp add: second_def)
  have all: "filter (\<lambda>e. 0 < uint (e_lifetime e)) ?es = ?es" using assms(1) by (auto simp: list_ok_def filter_id_conv)
  show "list_regs (MaybeCleanURLList (second u now') sl) = live now' (list_regs sl)"
  proof (cases "?d = 0")
    case True
    then show ?thesis using t all live_registered [of t 0 ?es] by (simp add: MaybeCleanURLList_def list_regs_def sec)
  next
    case False
    have "map (registered now') (clean_entries ?d ?es) = map (registered t) (filter (\<lambda>e. ?d < uint (e_lifetime e)) ?es)"
      using registered_age [OF d(2), of _ t] by (simp add: clean_entries_eq)
    then show ?thesis using False t live_registered [of t ?d ?es] by (simp add: MaybeCleanURLList_def list_regs_def sec)
  qed
  have "distinct (map e_url ?es)" using assms(1) by (simp add: list_ok_def)
  moreover have "map e_url (clean_entries ?d ?es) = map e_url (filter (\<lambda>e. ?d < uint (e_lifetime e)) ?es)"
    by (simp add: clean_entries_eq)
  ultimately have "distinct (map e_url (clean_entries ?d ?es))" by (simp add: distinct_map_filter)
  moreover have "\<forall>e \<in> set (clean_entries ?d ?es). 0 < uint (e_lifetime e)"
    by (auto simp: clean_entries_eq e_lifetime_age_entry [OF d(2)])
  ultimately show "list_ok u now' (MaybeCleanURLList (second u now') sl)"
    using assms t by (auto simp: MaybeCleanURLList_def list_ok_def Let_def)
  show "last_cleaned (MaybeCleanURLList (second u now') sl) = second u now'"
    using t by (simp add: MaybeCleanURLList_def Let_def)
qed

lemma map_of_store_regs [simp]: "map_of (store_regs m) t = map_option list_regs (map_of m t)"
  by (induction m) (auto simp: store_regs_def)

lemma store_regs_set [simp]: "store_regs (map_set t sl m) = map_set t (list_regs sl) (store_regs m)"
  by (auto simp: store_regs_def map_set_def)

lemma store_regs_erase [simp]: "store_regs (map_erase t m) = map_erase t (store_regs m)"
  by (induction m) (auto simp: store_regs_def map_erase_def)

lemma store_regs_insert: "store_regs (snd (map_insert t sl m)) = snd (map_insert t (list_regs sl) (store_regs m))"
  by (induction m) (auto simp: store_regs_def Let_def split_beta)

lemma list_ok_mono: "list_ok u now sl \<Longrightarrow> now \<le> now' \<Longrightarrow> list_ok u now' sl"
  unfolding list_ok_def by (meson order_trans)

lemma services_ok_mono: "services_ok u now m \<Longrightarrow> now \<le> now' \<Longrightarrow> services_ok u now' m"
  unfolding services_ok_def using list_ok_mono by fast

lemma services_ok_list: "services_ok u now m \<Longrightarrow> map_of m t = Some sl \<Longrightarrow> list_ok u now sl"
  by (auto simp: services_ok_def dest: map_of_SomeD)

lemma services_ok_set: "services_ok u now m \<Longrightarrow> list_ok u now sl \<Longrightarrow> services_ok u now (map_set t sl m)"
  unfolding services_ok_def map_fst_map_set by (auto simp: map_set_def split: if_splits)

lemma services_ok_erase: "services_ok u now m \<Longrightarrow> services_ok u now (map_erase t m)"
  by (auto simp: services_ok_def map_erase_def intro: map_erase_ok [unfolded map_erase_def])

lemma set_map_insert: "set (snd (map_insert t v m)) \<subseteq> insert (t, v) (set m)"
  by (induction m) (auto simp: Let_def split_beta split: if_splits)

lemma services_ok_insert: "services_ok u now m \<Longrightarrow> list_ok u now sl \<Longrightarrow> services_ok u now (snd (map_insert t sl m))"
  using set_map_insert [of t sl m] unfolding services_ok_def by fastforce

lemma live_of_store_regs:
  assumes "services_ok u now m" "now \<le> now'"
  shows "live_of now' t (store_regs m) =
    (case map_of m t of None \<Rightarrow> [] | Some sl \<Rightarrow> list_regs (MaybeCleanURLList (second u now') sl))"
  using clean_list(1) [OF services_ok_list [OF assms(1)] assms(2)] by (auto simp: live_of_def split: option.split)

lemma with_url_registered:
  "with_url url (map (registered t) es) = map_option (\<lambda>i. registered t (es ! i)) (FindService es url)"
  unfolding with_url_def by (rule FindService_find) simp

lemma InsertOrUpdate_spec:
  assumes "distinct (map e_url es)" "InsertOrUpdateEntry es e fresh = (code, es')"
  shows "spec_insert t e fresh (map (registered t) es) = (code, map (registered t) es')"
    and "distinct (map e_url es')"
    and "\<forall>e \<in> set es. 0 < uint (e_lifetime e) \<Longrightarrow> 0 < uint (e_lifetime e) \<Longrightarrow> \<forall>e \<in> set es'. 0 < uint (e_lifetime e)"
proof -
  let ?up = "\<lambda>e'. e'\<lparr>m_url := (m_url e')\<lparr>url_lifetime := e_lifetime e\<rparr>\<rparr>"
  have "spec_insert t e fresh (map (registered t) es) = (code, map (registered t) es') \<and> distinct (map e_url es') \<and>
    ((\<forall>e \<in> set es. 0 < uint (e_lifetime e)) \<longrightarrow> 0 < uint (e_lifetime e) \<longrightarrow> (\<forall>e \<in> set es'. 0 < uint (e_lifetime e)))"
  proof (cases "FindService es (e_url e)")
    case None
    then have "e_url e \<notin> e_url ` set es" by (simp add: FindService_None)
    then show ?thesis
      using assms None by (cases fresh) (auto simp: InsertOrUpdateEntry_def spec_insert_def with_url_registered registered_def)
  next
    case (Some i)
    have i: "i < length es" "e_url (es ! i) = e_url e" using FindService_Some [OF Some] by simp_all
    consider "m_scopes (es ! i) \<noteq> m_scopes e"
      | "m_scopes (es ! i) = m_scopes e" "e_lifetime e > e_lifetime (es ! i)"
      | "m_scopes (es ! i) = m_scopes e" "\<not> e_lifetime e > e_lifetime (es ! i)" by blast
    then show ?thesis
    proof cases
      case 1
      then show ?thesis using assms Some
        by (simp add: InsertOrUpdateEntry_def spec_insert_def with_url_registered registered_def)
    next
      case 2
      have es': "code = SLP_OK" "es' = map (\<lambda>x. if e_url x = e_url e then ?up x else x) es"
        using assms(2) Some 2 update_unique [OF assms(1) i(1), of ?up] i(2) by (simp_all add: InsertOrUpdateEntry_def)
      have max: "uint (e_lifetime x) \<le> uint (e_lifetime e)" if "x \<in> set es" "e_url x = e_url e" for x
        using that i 2 assms(1) by (metis (no_types, lifting) distinct_map in_set_conv_nth inj_on_contraD less_imp_le nth_mem word_le_def)
      then have "map (\<lambda>(e', x). if e_url e' = e_url e then (e', max x (t + uint (e_lifetime e))) else (e', x)) (map (registered t) es) =
          map (registered t) es'"
        by (auto simp: es'(2) registered_def strip_def)
      moreover have "distinct (map e_url es')" using assms(1) by (simp add: es'(2) o_def if_distrib cong: if_cong)
      ultimately show ?thesis
        using Some 2 es' by (auto simp: spec_insert_def with_url_registered registered_def)
    next
      case 3
      have max: "uint (e_lifetime e) \<le> uint (e_lifetime x)" if "x \<in> set es" "e_url x = e_url e" for x
        using that i 3 assms(1) by (metis (no_types, lifting) distinct_map in_set_conv_nth inj_on_contraD not_less nth_mem word_le_def)
      then have "map (\<lambda>(e', x). if e_url e' = e_url e then (e', max x (t + uint (e_lifetime e))) else (e', x)) (map (registered t) es) =
          map (registered t) es"
        by (auto simp: registered_def strip_def)
      then show ?thesis using Some 3 assms by (simp add: InsertOrUpdateEntry_def spec_insert_def with_url_registered registered_def)
    qed
  qed
  then show "spec_insert t e fresh (map (registered t) es) = (code, map (registered t) es')" "distinct (map e_url es')"
    "\<forall>e \<in> set es. 0 < uint (e_lifetime e) \<Longrightarrow> 0 < uint (e_lifetime e) \<Longrightarrow> \<forall>e \<in> set es'. 0 < uint (e_lifetime e)"
    by blast+
qed

lemma list_regs_second: "last_cleaned sl = second u t \<Longrightarrow> list_regs sl = map (registered t) (sl_services sl)"
  by (simp add: list_regs_def second_def)

lemma list_ok_services:
  "list_ok u now sl \<Longrightarrow> distinct (map e_url es) \<Longrightarrow> \<forall>e \<in> set es. 0 < uint (e_lifetime e) \<Longrightarrow>
    list_ok u now (sl\<lparr>sl_services := es\<rparr>)"
  by (simp add: list_ok_def)

lemma map_set_insert: "map_set t v (snd (map_insert t a m)) = map_set t v (snd (map_insert t b m))"
  by (induction m) (auto simp: map_set_def Let_def split_beta)

lemma map_set_absent: "map_of m t = None \<Longrightarrow> map_set t v m = m"
  by (induction m) (auto simp: map_set_def split: if_splits)

lemma map_insert_present: "map_ok m \<Longrightarrow> map_of m t \<noteq> None \<Longrightarrow> snd (map_insert t v m) = m"
proof (induction m)
  case (Cons a m)
  obtain k w where a: "a = (k, w)" by (cases a)
  have "\<not> t < k" if neq: "t \<noteq> k"
  proof
    assume "t < k"
    obtain x where "(t, x) \<in> set m" using Cons.prems(2) neq a by (auto dest: map_of_SomeD)
    then have "k < t" using Cons.prems(1) a by force
    then show False using \<open>t < k\<close> by simp
  qed
  then show ?case using Cons a by (auto simp: Let_def split_beta)
qed simp

fun lasting_op :: "store_op \<Rightarrow> bool" where
  "lasting_op (InsertOp e fresh) \<longleftrightarrow> 0 < uint (e_lifetime e)"
| "lasting_op c \<longleftrightarrow> True"

abbreviation simulated :: "int \<Rightarrow> int \<Rightarrow> store_op \<Rightarrow> slp_store \<Rightarrow> bool" where
  "simulated u now c m \<equiv>
     (let (out, m') = run_store (second u now) c m in spec_store now c (store_regs m) = (out, store_regs m') \<and> services_ok u now m')"

lemma sim_insert:
  assumes m: "services_ok u now m" "now \<le> now'" and e: "0 < uint (e_lifetime e)"
  shows "simulated u now' (InsertOp e fresh) m"
proof -
  let ?t = "m_service_type e"
  obtain sl m1 where sl: "(case map_of m ?t of None \<Rightarrow> Populate (second u now') ?t m
      | Some sl \<Rightarrow> (MaybeCleanURLList (second u now') sl, m)) = (sl, m1)" by fastforce
  obtain code es where I: "InsertOrUpdateEntry (sl_services sl) e fresh = (code, es)" by fastforce
  have run: "run_store (second u now') (InsertOp e fresh) m = (Code code, map_set ?t (sl\<lparr>sl_services := es\<rparr>) m1)"
    using sl I by (simp add: Insert_fresh_def)
  have A: "last_cleaned sl = second u now' \<and> list_ok u now' sl \<and> services_ok u now' m1 \<and>
      live_of now' ?t (store_regs m) = list_regs sl \<and> (\<forall>rs. put_regs ?t rs (store_regs m) = map_set ?t rs (store_regs m1))"
  proof (cases "map_of m ?t")
    case None
    then have sl': "sl = \<lparr>last_cleaned = second u now', sl_services = []\<rparr>" "m1 = snd (map_insert ?t sl m)"
      using sl by (auto simp: Populate_def Let_def)
    then have "list_ok u now' sl" by (auto simp: list_ok_def)
    moreover have "put_regs ?t rs (store_regs m) = map_set ?t rs (store_regs m1)" for rs
      unfolding sl'(2) put_regs_def store_regs_insert by (rule map_set_insert)
    ultimately show ?thesis
      using sl' None services_ok_insert [OF services_ok_mono [OF m]] by (simp add: live_of_def list_regs_def)
  next
    case (Some sl0)
    note c = clean_list [OF services_ok_list [OF m(1) Some] m(2)]
    have "map_ok (store_regs m)" using m(1) by (simp add: services_ok_def store_regs_def o_def split_beta)
    then have "snd (map_insert ?t rs (store_regs m)) = store_regs m" for rs using Some by (intro map_insert_present) simp_all
    then show ?thesis
      using Some sl c services_ok_mono [OF m] by (auto simp: put_regs_def live_of_def)
  qed
  then have regs: "list_regs sl = map (registered now') (sl_services sl)" using list_regs_second by blast
  have ok: "distinct (map e_url (sl_services sl))" "\<forall>e \<in> set (sl_services sl). 0 < uint (e_lifetime e)"
    using A by (simp_all add: list_ok_def)
  note S = InsertOrUpdate_spec [OF ok(1) I]
  have "spec_insert now' e fresh (live_of now' ?t (store_regs m)) = (code, list_regs (sl\<lparr>sl_services := es\<rparr>))"
    using A S(1) [of now'] regs by (simp add: list_regs_second)
  moreover have "list_ok u now' (sl\<lparr>sl_services := es\<rparr>)" using A S(2) S(3) [OF ok(2) e] list_ok_services by blast
  ultimately show ?thesis using A run by (simp add: services_ok_set del: run_store.simps)
qed

lemma sim_remove:
  assumes m: "services_ok u now m" "now \<le> now'"
  shows "simulated u now' (RemoveOp e) m"
proof (cases "map_of m (m_service_type e)")
  case None
  then show ?thesis using services_ok_mono [OF m] by (simp add: Remove_def)
next
  case (Some sl)
  have ok: "list_ok u now' sl" "distinct (map e_url (sl_services sl))"
    using list_ok_mono [OF services_ok_list [OF m(1) Some] m(2)] by (simp_all add: list_ok_def)
  define t where "t = tv_sec (m_tv (last_cleaned sl))"
  have regs: "list_regs (sl\<lparr>sl_services := es\<rparr>) = map (registered t) es" "list_regs sl = map (registered t) (sl_services sl)" for es
    by (simp_all add: list_regs_def t_def)
  show ?thesis
  proof (cases "FindService (sl_services sl) (e_url e)")
    case None
    then show ?thesis using Some services_ok_mono [OF m] by (simp add: Remove_def regs with_url_registered)
  next
    case (Some i)
    let ?es = "filter (\<lambda>e'. e_url e' \<noteq> e_url e) (sl_services sl)"
    have i: "i < length (sl_services sl)" "e_url (sl_services sl ! i) = e_url e" using FindService_Some [OF Some] by simp_all
    have rem: "take i (sl_services sl) @ drop (Suc i) (sl_services sl) = ?es" using remove_unique [OF ok(2) i(1)] i(2) by simp
    have "filter (\<lambda>(e', _). e_url e' \<noteq> e_url e) (map (registered t) (sl_services sl)) = map (registered t) ?es"
      by (simp add: filter_map o_def registered_def)
    moreover have "list_ok u now' (sl\<lparr>sl_services := ?es\<rparr>)" using ok by (auto simp: list_ok_def distinct_map_filter)
    ultimately show ?thesis
      using Some \<open>map_of m (m_service_type e) = Some sl\<close> services_ok_mono [OF m]
      by (auto simp: Remove_def regs with_url_registered rem registered_def [of t "sl_services sl ! i"] services_ok_set services_ok_erase Let_def)
  qed
qed

lemma filter_registered:
  "filter (\<lambda>(e, _). P e) (map (registered t) es) = map (registered t) (filter (\<lambda>e. P (strip e)) es)"
  by (simp add: filter_map o_def registered_def)

lemma sim_lookup:
  assumes m: "services_ok u now m" "now \<le> now'"
  shows "simulated u now' (LookupOp scopes raw_type limit) m"
proof (cases "map_of m (SLPGetCanonicalString raw_type)")
  case None
  then have "map_set (SLPGetCanonicalString raw_type) rs (store_regs m) = store_regs m" for rs
    by (intro map_set_absent) simp
  then show ?thesis using None services_ok_mono [OF m] by (simp add: Lookup_def Let_def live_of_def)
next
  case (Some sl)
  let ?sl = "MaybeCleanURLList (second u now') sl"
  note c = clean_list [OF services_ok_list [OF m(1) Some] m(2)]
  have "list_regs ?sl = map (registered now') (sl_services ?sl)" using c(3) by (rule list_regs_second)
  then have "map (m_url \<circ> remaining now') (filter (\<lambda>(e, _). Intersects (m_scopes e) scopes) (if limit = 0 then list_regs ?sl else take limit (list_regs ?sl))) =
      lookup_loop scopes limit 0 (sl_services ?sl)"
    by (simp add: lookup_loop_eq filter_registered take_map remaining_registered)
  then show ?thesis
    using Some c services_ok_set [OF services_ok_mono [OF m] c(2)] live_of_store_regs [OF m, of "SLPGetCanonicalString raw_type"]
    by (cases "limit = 0") (simp_all add: Lookup_def Let_def)
qed

lemma check_loop_eq:
  assumes "distinct (map e_url es)"
  shows "check_loop d e es =
    (case with_url (e_url e) (live (t + d) (map (registered t) es)) of
       None \<Rightarrow> NOT_FOUND
     | Some (e', _) \<Rightarrow> if m_scopes e' = m_scopes e then Scopes_OK else SCOPE_MISMATCH)"
  using assms
proof (induction es)
  case (Cons a es)
  have "with_url (e_url e) (live (t + d) (map (registered t) es)) = None" if "e_url a = e_url e"
    using Cons.prems that by (auto simp: live_registered with_url_registered FindService_None)
  moreover have "live (t + d) (map (registered t) (a # es)) =
      (if d < uint (e_lifetime a) then [registered t a] else []) @ live (t + d) (map (registered t) es)"
    by (simp add: live_def registered_def)
  moreover have "with_url url (registered t a # rs) = (if e_url a = url then Some (registered t a) else with_url url rs)" for url rs
    by (simp add: with_url_def registered_def)
  ultimately show ?case using Cons by (simp add: split_beta)
qed (simp add: live_def with_url_def)

lemma local_loop_eq:
  assumes "0 \<le> d"
  shows "local_loop d scopes es =
    map (remaining (t + d)) (filter (\<lambda>(e, _). m_local e \<and> Intersects (m_scopes e) scopes) (live (t + d) (map (registered t) es)))"
  using assms
proof (induction es)
  case (Cons e es)
  have "remaining (t + d) (registered t e) = age_entry d e" if "d < uint (e_lifetime e)"
    using remaining_registered [of "t + d" "age_entry d e"] registered_age [OF assms that] by simp
  then show ?case using Cons unfolding live_registered filter_registered by auto
qed (simp add: live_def)

lemma any_matches: "AnyServiceMatchesScopes scopes es \<longleftrightarrow> (\<exists>(e, _) \<in> set (map (registered t) es). Intersects (m_scopes e) scopes)"
  by (induction es) (auto simp: registered_def)

lemma any_matches_list:
  "AnyServiceMatchesScopes scopes (sl_services sl) \<longleftrightarrow> (\<exists>(e, _) \<in> set (list_regs sl). Intersects (m_scopes e) scopes)"
  unfolding list_regs_def by (rule any_matches)

lemma filter_store_regs:
  "map fst (filter (\<lambda>(t, rs). P t rs) (store_regs m)) = map fst (filter (\<lambda>(t, sl). P t (list_regs sl)) m)"
  by (induction m) (auto simp: store_regs_def)

lemma sim_queries:
  assumes m: "services_ok u now m" "now \<le> now'"
  shows "simulated u now' (CheckOp e) m" "simulated u now' (LocalOp scopes) m" "simulated u now' (TypesOp scopes) m"
    "simulated u now' (AuthTypesOp auth scopes) m"
proof -
  note ok = services_ok_mono [OF m]
  have at: "\<exists>t \<le> now'. list_regs sl = map (registered t) (sl_services sl) \<and>
      elapsed_seconds (second u now') (last_cleaned sl) = now' - t \<and> distinct (map e_url (sl_services sl))"
    if "list_ok u now' sl" for sl
    using that list_regs_second elapsed_second unfolding list_ok_def by metis
  show "simulated u now' (CheckOp e) m"
  proof (cases "map_of m (m_service_type e)")
    case (Some sl)
    obtain t where t: "t \<le> now'" "list_regs sl = map (registered t) (sl_services sl)"
        "elapsed_seconds (second u now') (last_cleaned sl) = now' - t" "distinct (map e_url (sl_services sl))"
      using at [OF services_ok_list [OF ok Some]] by blast
    then show ?thesis using Some ok check_loop_eq [OF t(4), of "now' - t" e t] by (simp add: CheckIfScopesMatch_def live_of_def)
  qed (simp add: CheckIfScopesMatch_def live_of_def with_url_def ok)
  have "local_loop (elapsed_seconds (second u now') (last_cleaned sl)) scopes (sl_services sl) =
      map (remaining now') (filter (\<lambda>(e, _). m_local e \<and> Intersects (m_scopes e) scopes) (live now' (list_regs sl)))"
    if "(t, sl) \<in> set m" for t sl
  proof -
    have "list_ok u now' sl" using that ok by (auto simp: services_ok_def)
    then obtain t where t: "t \<le> now'" "list_regs sl = map (registered t) (sl_services sl)"
        "elapsed_seconds (second u now') (last_cleaned sl) = now' - t" using at by blast
    then show ?thesis using local_loop_eq [of "now' - t" scopes "sl_services sl" t] by simp
  qed
  then show "simulated u now' (LocalOp scopes) m"
    using ok by (auto simp: GetLocalServices_def store_regs_def o_def split_beta intro!: arg_cong [where f = concat])
  show "simulated u now' (TypesOp scopes) m" "simulated u now' (AuthTypesOp auth scopes) m"
    using ok by (simp_all add: GetAllServiceTypes_def GetServiceTypesByNamingAuth_def any_matches_list filter_store_regs)
qed

lemma sim_clean:
  assumes m: "services_ok u now m" "now \<le> now'"
  shows "simulated u now' CleanOp m" "simulated u now' DumpOp m"
proof -
  let ?clean = "MaybeCleanURLList (second u now')"
  have c: "list_regs (?clean sl) = live now' (list_regs sl)" "list_ok u now' (?clean sl)" if "(t, sl) \<in> set m" for t sl
    using clean_list [OF _ m(2)] that m(1) by (auto simp: services_ok_def)
  then have regs: "store_regs (Dump (second u now') m) = map (\<lambda>(t, rs). (t, live now' rs)) (store_regs m)"
    by (auto simp: Dump_def store_regs_def)
  have fst: "map fst (Dump (second u now') m) = map fst m" by (auto simp: Dump_def)
  have ok: "services_ok u now' (Dump (second u now') m)"
    unfolding services_ok_def fst using m(1) c(2) by (auto simp: services_ok_def Dump_def)
  show "simulated u now' DumpOp m" using regs ok by simp
  have clean: "Clean (second u now') m = filter (\<lambda>(t, sl). sl_services sl \<noteq> []) (Dump (second u now') m)"
    by (simp add: Clean_def Dump_def)
  have "store_regs (filter (\<lambda>(t, sl). sl_services sl \<noteq> []) m') = filter (\<lambda>(t, rs). rs \<noteq> []) (store_regs m')" for m'
    by (induction m') (auto simp: store_regs_def list_regs_def)
  moreover have "services_ok u now' (filter P (Dump (second u now') m))" for P
    using ok map_filter_ok by (auto simp: services_ok_def)
  ultimately show "simulated u now' CleanOp m" using regs by (simp add: clean)
qed

lemma sim_op: "services_ok u now m \<Longrightarrow> now \<le> now' \<Longrightarrow> lasting_op c \<Longrightarrow> simulated u now' c m"
  by (cases c) (simp_all only: lasting_op.simps sim_insert sim_remove sim_lookup sim_queries sim_clean)

lemma sim_ops:
  "services_ok u now m \<Longrightarrow> sorted (now # map fst cs) \<Longrightarrow> \<forall>(t, c) \<in> set cs. lasting_op c \<Longrightarrow>
    \<exists>m'. run_stores (map (\<lambda>(t, c). (second u t, c)) cs) m = (fst (spec_stores cs (store_regs m)), m') \<and>
      store_regs m' = snd (spec_stores cs (store_regs m))"
proof (induction cs arbitrary: now m)
  case (Cons tc cs)
  obtain t c where tc: "tc = (t, c)" by (cases tc)
  obtain out m1 where r: "run_store (second u t) c m = (out, m1)" by fastforce
  have "simulated u t c m" using sim_op Cons.prems tc by fastforce
  then have s: "spec_store t c (store_regs m) = (out, store_regs m1)" "services_ok u t m1" using r by simp_all
  obtain m' where "run_stores (map (\<lambda>(t, c). (second u t, c)) cs) m1 = (fst (spec_stores cs (store_regs m1)), m')"
      "store_regs m' = snd (spec_stores cs (store_regs m1))"
    using Cons.IH [OF s(2)] Cons.prems tc by auto
  then show ?case using r s(1) by (auto simp: tc Let_def split: prod.splits)
qed simp

text \<open>C19: The store is a registry of services with times of expiry. For any program of operations at times that do not
  decrease and lie whole seconds apart, with positive lifetimes, every result is that of the registry: an insertion
  puts an entry that expires its lifetime later or extends one to the later time, a lookup returns the entries that
  have not expired, with the seconds they have left.\<close>

theorem slp_store_refines:
  assumes "sorted (map fst cs)" "\<forall>(t, c) \<in> set cs. lasting_op c"
  shows "\<exists>m. run_stores (map (\<lambda>(t, c). (second u t, c)) cs) [] = (fst (spec_stores cs []), m) \<and>
    store_regs m = snd (spec_stores cs [])"
proof (cases cs)
  case (Cons tc cs')
  have "services_ok u (fst tc) []" by (simp add: services_ok_def)
  then show ?thesis using sim_ops [of u "fst tc" "[]" cs] assms Cons by (simp add: store_regs_def)
qed (simp add: store_regs_def)

definition example_service :: "string \<Rightarrow> u16 \<Rightarrow> service_entry" where
  "example_service url lifetime =
     \<lparr>m_local = True, m_url = \<lparr>url_string = url, url_lifetime = lifetime\<rparr>, m_service_type = ''rdmnet'', m_scopes = [''default'']\<rparr>"

lemma slp_store_refines_witness:
  "fst (run_stores
     [(second 7 0, InsertOp (example_service ''a'' 10) True), (second 7 4, InsertOp (example_service ''b'' 3) True),
      (second 7 6, LookupOp [''default''] ''RDMNet'' 0), (second 7 8, LookupOp [''default''] ''RDMNet'' 0)] []) =
   [Code SLP_OK, Code SLP_OK, Urls [\<lparr>url_string = ''a'', url_lifetime = 4\<rparr>, \<lparr>url_string = ''b'', url_lifetime = 1\<rparr>],
    Urls [\<lparr>url_string = ''a'', url_lifetime = 2\<rparr>]]"
proof -
  let ?cs = "[(0, InsertOp (example_service ''a'' 10) True), (4, InsertOp (example_service ''b'' 3) True),
      (6, LookupOp [''default''] ''RDMNet'' 0), (8, LookupOp [''default''] ''RDMNet'' 0)]"
  have "fst (spec_stores ?cs []) =
      [Code SLP_OK, Code SLP_OK, Urls [\<lparr>url_string = ''a'', url_lifetime = 4\<rparr>, \<lparr>url_string = ''b'', url_lifetime = 1\<rparr>],
       Urls [\<lparr>url_string = ''a'', url_lifetime = 2\<rparr>]]" by code_simp
  moreover have "\<forall>(t, c) \<in> set ?cs. lasting_op c" by (simp add: example_service_def)
  ultimately show ?thesis using slp_store_refines [of ?cs 7] by auto
qed

end
