(* ===== verification/SLP_Lifetimes.thy ===== *)
theory SLP_Lifetimes
  imports SLP_Registry
begin

text \<open>
  How long a service stays in the store when the operations come at any times: it is never lost more than a second before
  its lifetime ends, and can stay for almost twice its lifetime.
\<close>

section \<open>Services are not lost early\<close>

abbreviation micros :: "TimeStamp \<Rightarrow> int" where
  "micros t \<equiv> AsInt (m_tv t)"

abbreviation normal :: "TimeStamp \<Rightarrow> bool" where
  "normal t \<equiv> tv_norm (m_tv t)"

lemma tv_sec_AsInt: "tv_norm t \<Longrightarrow> tv_sec t = AsInt t div USEC_IN_SECONDS"
  by (simp add: tv_norm_def AsInt_def)

lemma elapsed_micros:
  assumes "normal a" "normal b"
  shows "elapsed_seconds a b = (micros a - micros b) div USEC_IN_SECONDS"
  using TimerSub_AsInt [OF assms] tv_sec_AsInt
  by (simp add: elapsed_seconds_def stamp_diff_def tv_minus_def tv_sub_assign_def)

lemma elapsed_bounds:
  assumes "normal a" "normal b"
  shows "elapsed_seconds a b * USEC_IN_SECONDS \<le> micros a - micros b"
    "micros a - micros b < (elapsed_seconds a b + 1) * USEC_IN_SECONDS"
  using elapsed_micros [OF assms] by (simp_all add: USEC_IN_SECONDS_def)

text \<open>An entry like \<open>e\<close> that lives until \<open>x\<close> at least, in microseconds.\<close>

definition alive :: "service_entry \<Rightarrow> int \<Rightarrow> TimeStamp \<Rightarrow> service_entry list \<Rightarrow> bool" where
  "alive e x cleaned es \<longleftrightarrow>
     (\<exists>e' \<in> set es. e_url e' = e_url e \<and> m_scopes e' = m_scopes e \<and> x \<le> micros cleaned + uint (e_lifetime e') * USEC_IN_SECONDS)"

definition in_store :: "service_entry \<Rightarrow> int \<Rightarrow> slp_store \<Rightarrow> bool" where
  "in_store e x m \<longleftrightarrow> (\<exists>sl. map_of m (m_service_type e) = Some sl \<and> alive e x (last_cleaned sl) (sl_services sl))"

definition cleaned_before :: "TimeStamp \<Rightarrow> slp_store \<Rightarrow> bool" where
  "cleaned_before now m \<longleftrightarrow> map_ok m \<and> (\<forall>(t, sl) \<in> set m. normal (last_cleaned sl) \<and> micros (last_cleaned sl) \<le> micros now)"

lemma MaybeClean_alive:
  assumes "normal now" "normal (last_cleaned sl)" "micros (last_cleaned sl) \<le> micros now" "micros now < x"
    and "alive e x (last_cleaned sl) (sl_services sl)"
  shows "alive e x (last_cleaned (MaybeCleanURLList now sl)) (sl_services (MaybeCleanURLList now sl))"
proof (cases "elapsed_seconds now (last_cleaned sl) = 0")
  case False
  let ?d = "elapsed_seconds now (last_cleaned sl)"
  note b = elapsed_bounds [OF assms(1,2)]
  obtain e' where e': "e' \<in> set (sl_services sl)" "e_url e' = e_url e" "m_scopes e' = m_scopes e"
    "x \<le> micros (last_cleaned sl) + uint (e_lifetime e') * USEC_IN_SECONDS" using assms(5) by (auto simp: alive_def)
  have d: "0 \<le> ?d" "?d < uint (e_lifetime e')"
    using b assms(3,4) e'(4) by (simp_all add: USEC_IN_SECONDS_def)
  then have "x \<le> micros now + uint (e_lifetime (age_entry ?d e')) * USEC_IN_SECONDS"
    using e'(4) b(1) by (simp add: e_lifetime_age_entry algebra_simps)
  then show ?thesis
    using False e' d by (auto simp: MaybeCleanURLList_def Let_def alive_def clean_entries_eq intro!: bexI [of _ "age_entry ?d e'"])
qed (use assms(5) in \<open>simp add: MaybeCleanURLList_def\<close>)

lemma MaybeClean_time:
  assumes "normal now" "normal (last_cleaned sl)" "micros (last_cleaned sl) \<le> micros now"
  shows "normal (last_cleaned (MaybeCleanURLList now sl))" "micros (last_cleaned (MaybeCleanURLList now sl)) \<le> micros now"
    "micros now < micros (last_cleaned (MaybeCleanURLList now sl)) + USEC_IN_SECONDS"
  using assms elapsed_bounds(2) [OF assms(1,2)] by (simp_all add: MaybeCleanURLList_def Let_def USEC_IN_SECONDS_def)

lemma InsertOrUpdate_keeps:
  assumes "InsertOrUpdateEntry es a fresh = (code, es')" "alive e x t es"
  shows "alive e x t es'"
proof (cases "FindService es (e_url a)")
  case None
  then show ?thesis using assms by (auto simp: InsertOrUpdateEntry_def alive_def split: if_splits)
next
  case (Some i)
  let ?up = "(es ! i)\<lparr>m_url := (m_url (es ! i))\<lparr>url_lifetime := e_lifetime a\<rparr>\<rparr>"
  have i: "i < length es" using FindService_Some [OF Some] by simp
  obtain e' where e': "e' \<in> set es" "e_url e' = e_url e" "m_scopes e' = m_scopes e"
    "x \<le> micros t + uint (e_lifetime e') * USEC_IN_SECONDS" using assms(2) by (auto simp: alive_def)
  show ?thesis
  proof (cases "es' = es[i := ?up] \<and> e_lifetime (es ! i) < e_lifetime a")
    case True
    obtain j where j: "j < length es" "e' = es ! j" using e'(1) by (auto simp: in_set_conv_nth)
    have up: "uint (e_lifetime (es ! i)) \<le> uint (e_lifetime a)" using True by (simp add: word_less_def)
    have nth: "es' ! j = (if i = j then ?up else es ! j)" using True j(1) by (simp add: nth_list_update)
    have "uint (e_lifetime e') \<le> uint (e_lifetime (es' ! j))" using up by (auto simp: nth j(2))
    then have "uint (e_lifetime e') * USEC_IN_SECONDS \<le> uint (e_lifetime (es' ! j)) * USEC_IN_SECONDS"
      by (simp add: USEC_IN_SECONDS_def)
    moreover have "e_url (es' ! j) = e_url e'" "m_scopes (es' ! j) = m_scopes e'" by (simp_all add: nth j(2))
    moreover have "length es' = length es" using True by simp
    then have "es' ! j \<in> set es'" using j(1) by simp
    ultimately show ?thesis unfolding alive_def using e'(2-4) by (intro bexI [of _ "es' ! j"]) simp_all
  next
    case False
    then have "es' = es" using assms(1) Some by (auto simp: InsertOrUpdateEntry_def Let_def split: if_splits)
    then show ?thesis using assms(2) by simp
  qed
qed

lemma InsertOrUpdate_alive:
  assumes "InsertOrUpdateEntry es e fresh = (SLP_OK, es')" "x \<le> micros t + uint (e_lifetime e) * USEC_IN_SECONDS"
  shows "alive e x t es'"
proof (cases "FindService es (e_url e)")
  case None
  then show ?thesis using assms by (auto simp: InsertOrUpdateEntry_def alive_def split: if_splits)
next
  case (Some i)
  have i: "i < length es" "e_url (es ! i) = e_url e" using FindService_Some [OF Some] by simp_all
  have s: "m_scopes (es ! i) = m_scopes e" using assms(1) Some by (auto simp: InsertOrUpdateEntry_def Let_def split: if_splits)
  have "e_url (es' ! i) = e_url e \<and> m_scopes (es' ! i) = m_scopes e \<and> e_lifetime e \<le> e_lifetime (es' ! i) \<and> es' ! i \<in> set es'"
    using assms(1) Some i s by (auto simp: InsertOrUpdateEntry_def Let_def set_update_memI split: if_splits)
  then show ?thesis using assms(2) by (auto simp: alive_def word_le_def USEC_IN_SECONDS_def intro!: bexI [of _ "es' ! i"])
qed

lemma cleaned_before_mono: "cleaned_before now m \<Longrightarrow> micros now \<le> micros now' \<Longrightarrow> cleaned_before now' m"
  unfolding cleaned_before_def by fastforce

lemma cleaned_before_list:
  "cleaned_before now m \<Longrightarrow> map_of m t = Some sl \<Longrightarrow> normal (last_cleaned sl) \<and> micros (last_cleaned sl) \<le> micros now"
  by (auto simp: cleaned_before_def dest: map_of_SomeD)

lemma cleaned_before_set:
  "cleaned_before now m \<Longrightarrow> normal (last_cleaned sl) \<Longrightarrow> micros (last_cleaned sl) \<le> micros now \<Longrightarrow>
    cleaned_before now (map_set t sl m)"
  unfolding cleaned_before_def map_fst_map_set by (auto simp: map_set_def split: if_splits)

lemma cleaned_before_filter: "cleaned_before now m \<Longrightarrow> cleaned_before now (filter P m)"
  using map_filter_ok by (auto simp: cleaned_before_def)

lemma cleaned_before_insert:
  "cleaned_before now m \<Longrightarrow> normal (last_cleaned sl) \<Longrightarrow> micros (last_cleaned sl) \<le> micros now \<Longrightarrow>
    cleaned_before now (snd (map_insert t sl m))"
  using set_map_insert [of t sl m] unfolding cleaned_before_def by fastforce

lemma cleaned_before_Dump:
  assumes "cleaned_before now m" "normal now"
  shows "cleaned_before now (Dump now m)"
proof -
  have "map fst (Dump now m) = map fst m" by (auto simp: Dump_def)
  moreover have "normal (last_cleaned sl) \<and> micros (last_cleaned sl) \<le> micros now" if "(t, sl) \<in> set (Dump now m)" for t sl
    using that assms MaybeClean_time(1,2) [OF assms(2)] by (auto simp: Dump_def cleaned_before_def)
  ultimately show ?thesis using assms(1) by (auto simp: cleaned_before_def)
qed

lemma Clean_Dump: "Clean now m = filter (\<lambda>(t, sl). sl_services sl \<noteq> []) (Dump now m)"
  by (simp add: Clean_def Dump_def)

text \<open>The list that \<open>Insert\<close> works on, and the store with it.\<close>

definition insert_list :: "TimeStamp \<Rightarrow> string \<Rightarrow> slp_store \<Rightarrow> service_list \<times> slp_store" where
  "insert_list now t m = (case map_of m t of None \<Rightarrow> Populate now t m | Some sl \<Rightarrow> (MaybeCleanURLList now sl, m))"

lemma Insert_fresh_eq:
  "Insert_fresh now a fresh m =
    (let (sl, m1) = insert_list now (m_service_type a) m; (code, es) = InsertOrUpdateEntry (sl_services sl) a fresh
     in (code, map_set (m_service_type a) (sl\<lparr>sl_services := es\<rparr>) m1))"
  by (simp add: Insert_fresh_def insert_list_def)

lemma insert_list_laws:
  assumes "cleaned_before now m" "normal now" "insert_list now t m = (sl, m1)"
  shows "normal (last_cleaned sl)" "micros (last_cleaned sl) \<le> micros now" "micros now < micros (last_cleaned sl) + USEC_IN_SECONDS"
    "cleaned_before now m1" "map_of m1 t \<noteq> None" "t' \<noteq> t \<Longrightarrow> map_of m1 t' = map_of m t'"
    "map_of m t = Some sl0 \<Longrightarrow> sl = MaybeCleanURLList now sl0"
proof -
  have "normal (last_cleaned sl) \<and> micros (last_cleaned sl) \<le> micros now \<and> micros now < micros (last_cleaned sl) + USEC_IN_SECONDS \<and>
    cleaned_before now m1 \<and> map_of m1 t \<noteq> None \<and> (t' \<noteq> t \<longrightarrow> map_of m1 t' = map_of m t') \<and>
    (map_of m t = Some sl0 \<longrightarrow> sl = MaybeCleanURLList now sl0)"
  proof (cases "map_of m t")
    case None
    then have sl: "sl = \<lparr>last_cleaned = now, sl_services = []\<rparr>" "m1 = snd (map_insert t sl m)"
      using assms(3) by (auto simp: insert_list_def Populate_def Let_def)
    moreover have "cleaned_before now m1" using assms sl by (simp add: cleaned_before_insert)
    moreover have "map_of m1 = (map_of m)(t \<mapsto> sl)" using assms(1) None by (simp add: sl(2) cleaned_before_def)
    ultimately show ?thesis using assms(2) None by (simp add: USEC_IN_SECONDS_def)
  next
    case (Some sl1)
    then show ?thesis
      using assms MaybeClean_time [OF assms(2)] cleaned_before_list [OF assms(1) Some] by (auto simp: insert_list_def)
  qed
  then show "normal (last_cleaned sl)" "micros (last_cleaned sl) \<le> micros now" "micros now < micros (last_cleaned sl) + USEC_IN_SECONDS"
    "cleaned_before now m1" "map_of m1 t \<noteq> None" "t' \<noteq> t \<Longrightarrow> map_of m1 t' = map_of m t'"
    "map_of m t = Some sl0 \<Longrightarrow> sl = MaybeCleanURLList now sl0" by blast+
qed

lemma Insert_in_store:
  assumes m: "cleaned_before now m" "normal now" and "Insert_fresh now a fresh m = (code, m')"
  shows "cleaned_before now m'"
    and "in_store e x m \<Longrightarrow> micros now < x \<Longrightarrow> in_store e x m'"
    and "code = SLP_OK \<Longrightarrow> in_store a (micros now + (uint (e_lifetime a) - 1) * USEC_IN_SECONDS) m'"
proof -
  obtain sl m1 where L: "insert_list now (m_service_type a) m = (sl, m1)" by fastforce
  obtain es where I: "InsertOrUpdateEntry (sl_services sl) a fresh = (code, es)"
    and m': "m' = map_set (m_service_type a) (sl\<lparr>sl_services := es\<rparr>) m1"
    using assms(3) L unfolding Insert_fresh_eq by (auto split: prod.splits)
  note l = insert_list_laws [OF m L]
  show "cleaned_before now m'" using l unfolding m' by (intro cleaned_before_set) simp_all
  show "in_store e x m'" if e: "in_store e x m" "micros now < x"
  proof (cases "m_service_type e = m_service_type a")
    case True
    obtain sl0 where sl0: "map_of m (m_service_type a) = Some sl0" "alive e x (last_cleaned sl0) (sl_services sl0)"
      using e True by (auto simp: in_store_def)
    have "alive e x (last_cleaned sl) (sl_services sl)"
      using l(7) [OF sl0(1)] MaybeClean_alive [OF m(2) _ _ e(2) sl0(2)] cleaned_before_list [OF m(1) sl0(1)] by blast
    then have "alive e x (last_cleaned sl) es" using InsertOrUpdate_keeps [OF I] by blast
    then show ?thesis using True l(5) by (simp add: in_store_def m' map_of_map_set)
  next
    case False
    then show ?thesis using e l(6) by (simp add: in_store_def m' map_of_map_set)
  qed
  show "in_store a (micros now + (uint (e_lifetime a) - 1) * USEC_IN_SECONDS) m'" if "code = SLP_OK"
  proof -
    have "alive a (micros now + (uint (e_lifetime a) - 1) * USEC_IN_SECONDS) (last_cleaned sl) es"
      using InsertOrUpdate_alive [OF I [unfolded that]] l(3) by (simp add: USEC_IN_SECONDS_def)
    then show ?thesis using l(5) by (simp add: in_store_def m' map_of_map_set)
  qed
qed

lemma set_take_drop: "i < length es \<Longrightarrow> e \<in> set es \<Longrightarrow> e \<noteq> es ! i \<Longrightarrow> e \<in> set (take i es @ drop (Suc i) es)"
  by (metis id_take_nth_drop Un_iff set_ConsD set_append)

lemma Remove_in_store:
  assumes "cleaned_before now m" "Remove a m = (code, m')"
  shows "cleaned_before now m'"
    and "in_store e x m \<Longrightarrow> m_service_type e \<noteq> m_service_type a \<or> e_url e \<noteq> e_url a \<Longrightarrow> in_store e x m'"
proof -
  have cl: "cleaned_before now (map_set t (sl\<lparr>sl_services := es\<rparr>) m)" if "map_of m t = Some sl" for t sl es
    using cleaned_before_list [OF assms(1) that] by (intro cleaned_before_set [OF assms(1)]) simp_all
  show "cleaned_before now m'"
    using assms cl cleaned_before_filter [OF assms(1)]
    by (auto simp: Remove_def map_erase_def Let_def split: option.splits if_splits)
  show "in_store e x m'" if e: "in_store e x m" "m_service_type e \<noteq> m_service_type a \<or> e_url e \<noteq> e_url a"
  proof (cases "m' = m \<or> m_service_type e \<noteq> m_service_type a")
    case True
    then show ?thesis using assms(2) e
      by (auto simp: Remove_def in_store_def map_of_map_set map_of_map_erase Let_def split: option.splits if_splits)
  next
    case False
    obtain sl e' where sl: "map_of m (m_service_type a) = Some sl" "e' \<in> set (sl_services sl)" "e_url e' = e_url e"
      "m_scopes e' = m_scopes e" "x \<le> micros (last_cleaned sl) + uint (e_lifetime e') * USEC_IN_SECONDS"
      using e False by (auto simp: in_store_def alive_def)
    obtain i where i: "FindService (sl_services sl) (e_url a) = Some i"
      using False assms(2) sl(1) by (auto simp: Remove_def split: option.splits)
    let ?es = "take i (sl_services sl) @ drop (Suc i) (sl_services sl)"
    have "e' \<in> set ?es" using FindService_Some [OF i] sl(2,3) e(2) False by (intro set_take_drop) auto
    moreover from this have "m' = map_set (m_service_type a) (sl\<lparr>sl_services := ?es\<rparr>) m"
      using assms(2) sl(1) i False by (auto simp: Remove_def Let_def split: if_splits)
    ultimately show ?thesis using sl False by (auto simp: in_store_def alive_def map_of_map_set)
  qed
qed

lemma Dump_in_store:
  assumes "cleaned_before now m" "normal now" "in_store e x m" "micros now < x"
  shows "in_store e x (Dump now m)" "in_store e x (Clean now m)"
proof -
  obtain sl where sl: "map_of m (m_service_type e) = Some sl" "alive e x (last_cleaned sl) (sl_services sl)"
    using assms(3) by (auto simp: in_store_def)
  have "map_of (Dump now m) t = map_option (MaybeCleanURLList now) (map_of m t)" for t
    by (induction m) (auto simp: Dump_def)
  then have D: "map_of (Dump now m) (m_service_type e) = Some (MaybeCleanURLList now sl)" using sl by simp
  have a: "alive e x (last_cleaned (MaybeCleanURLList now sl)) (sl_services (MaybeCleanURLList now sl))"
    using MaybeClean_alive [OF assms(2) _ _ assms(4) sl(2)] cleaned_before_list [OF assms(1) sl(1)] by blast
  then show "in_store e x (Dump now m)" using D by (simp add: in_store_def)
  have "map_ok (Dump now m)" using cleaned_before_Dump [OF assms(1,2)] by (simp add: cleaned_before_def)
  moreover have "sl_services (MaybeCleanURLList now sl) \<noteq> []" using a by (auto simp: alive_def)
  ultimately show "in_store e x (Clean now m)"
    using a D unfolding Clean_Dump by (simp add: in_store_def map_of_filter_ok)
qed

lemma Lookup_in_store:
  assumes "cleaned_before now m" "normal now" "Lookup now scopes raw_type limit m = (urls, m')"
  shows "cleaned_before now m'"
    and "in_store e x m \<Longrightarrow> micros now < x \<Longrightarrow> in_store e x m'"
    and "in_store e x m \<Longrightarrow> micros now < x \<Longrightarrow> limit = 0 \<Longrightarrow> SLPGetCanonicalString raw_type = m_service_type e \<Longrightarrow>
      Intersects (m_scopes e) scopes \<Longrightarrow> e_url e \<in> url_string ` set urls"
proof -
  let ?t = "SLPGetCanonicalString raw_type"
  show "cleaned_before now m'"
    using assms MaybeClean_time(1,2) [OF assms(2)] cleaned_before_list [OF assms(1), of ?t]
    by (auto simp: Lookup_def Let_def split: option.splits intro!: cleaned_before_set)
  have A: "alive e x (last_cleaned (MaybeCleanURLList now sl)) (sl_services (MaybeCleanURLList now sl))"
    if "in_store e x m" "micros now < x" "map_of m ?t = Some sl" "?t = m_service_type e" for sl
    using that MaybeClean_alive [OF assms(2) _ _ that(2)] cleaned_before_list [OF assms(1) that(3)] by (auto simp: in_store_def)
  show "in_store e x m'" if "in_store e x m" "micros now < x"
    using that assms(3) A [OF that]
    by (cases "?t = m_service_type e") (auto simp: Lookup_def Let_def in_store_def map_of_map_set split: option.splits)
  show "e_url e \<in> url_string ` set urls"
    if e: "in_store e x m" "micros now < x" "limit = 0" "?t = m_service_type e" "Intersects (m_scopes e) scopes"
  proof -
    obtain sl where sl: "map_of m ?t = Some sl" using e by (auto simp: in_store_def)
    have "urls = map m_url (filter (\<lambda>e. Intersects (m_scopes e) scopes) (sl_services (MaybeCleanURLList now sl)))"
      using assms(3) sl e(3) by (auto simp: Lookup_def Let_def lookup_loop_eq)
    moreover obtain e' where "e' \<in> set (sl_services (MaybeCleanURLList now sl))" "e_url e' = e_url e" "m_scopes e' = m_scopes e"
      using A [OF e(1,2) sl e(4)] by (auto simp: alive_def)
    ultimately have "m_url e' \<in> set urls" "url_string (m_url e') = e_url e" using e(5) by auto
    then show ?thesis by (metis image_eqI)
  qed
qed

fun removes :: "service_entry \<Rightarrow> store_op \<Rightarrow> bool" where
  "removes e (RemoveOp a) \<longleftrightarrow> m_service_type e = m_service_type a \<and> e_url e = e_url a"
| "removes e c \<longleftrightarrow> False"

lemma run_store_cleaned:
  assumes "cleaned_before now m" "normal now" "run_store now c m = (out, m')"
  shows "cleaned_before now m'"
  using assms Insert_in_store(1) [OF assms(1,2)] Remove_in_store(1) [OF assms(1)] Lookup_in_store(1) [OF assms(1,2)]
    cleaned_before_Dump [OF assms(1,2)] cleaned_before_filter
  by (cases c) (auto simp: Clean_Dump split: prod.splits)

lemma run_store_keeps:
  assumes "cleaned_before now m" "normal now" "run_store now c m = (out, m')" "in_store e x m" "micros now < x" "\<not> removes e c"
  shows "in_store e x m'"
  using assms(3,6) Insert_in_store(2) [OF assms(1,2) _ assms(4,5)] Remove_in_store(2) [OF assms(1) _ assms(4)]
    Lookup_in_store(2) [OF assms(1,2) _ assms(4,5)] Dump_in_store [OF assms(1,2,4,5)] assms(4)
  by (cases c) (auto split: prod.splits)

text \<open>Times in order, from a given one on.\<close>

definition timed :: "TimeStamp \<Rightarrow> (TimeStamp \<times> store_op) list \<Rightarrow> bool" where
  "timed now cs \<longleftrightarrow> sorted (map micros (now # map fst cs)) \<and> (\<forall>(t, c) \<in> set cs. normal t)"

lemma run_stores_cleaned:
  "cleaned_before now m \<Longrightarrow> timed now (cs @ [(t, c)]) \<Longrightarrow> run_stores cs m = (outs, m') \<Longrightarrow> cleaned_before t m'"
proof (induction cs arbitrary: now m outs)
  case Nil
  then show ?case using cleaned_before_mono by (simp add: timed_def)
next
  case (Cons d cs)
  obtain t1 c1 where d: "d = (t1, c1)" by (cases d)
  obtain out m1 outs1 where r: "run_store t1 c1 m = (out, m1)" "run_stores cs m1 = (outs1, m')"
    using Cons.prems(3) by (auto simp: d Let_def split: prod.splits)
  have t: "micros now \<le> micros t1" "normal t1" "timed t1 (cs @ [(t, c)])" using Cons.prems(2) by (auto simp: timed_def d)
  show ?case using Cons.IH [OF run_store_cleaned [OF cleaned_before_mono [OF Cons.prems(1) t(1)] t(2) r(1)] t(3) r(2)] .
qed

lemma run_stores_keeps:
  "cleaned_before now m \<Longrightarrow> timed now (cs @ [(t, c)]) \<Longrightarrow> run_stores cs m = (outs, m') \<Longrightarrow> in_store e x m \<Longrightarrow> micros t < x \<Longrightarrow>
    \<forall>(t, c) \<in> set cs. \<not> removes e c \<Longrightarrow> in_store e x m'"
proof (induction cs arbitrary: now m outs)
  case (Cons d cs)
  obtain t1 c1 where d: "d = (t1, c1)" by (cases d)
  obtain out m1 outs1 where r: "run_store t1 c1 m = (out, m1)" "run_stores cs m1 = (outs1, m')"
    using Cons.prems(3) by (auto simp: d Let_def split: prod.splits)
  have t: "micros now \<le> micros t1" "normal t1" "timed t1 (cs @ [(t, c)])" "micros t1 < x"
    using Cons.prems(2,5) by (auto simp: timed_def d)
  note before = cleaned_before_mono [OF Cons.prems(1) t(1)]
  have "in_store e x m1" using run_store_keeps [OF before t(2) r(1) Cons.prems(4) t(4)] Cons.prems(6) by (simp add: d)
  then show ?case
    using Cons.IH [OF run_store_cleaned [OF before t(2) r(1)] t(3) r(2)] Cons.prems(5,6) by simp
qed simp

lemma length_run_stores: "length (fst (run_stores cs m)) = length cs"
  by (induction cs arbitrary: m) (auto simp: Let_def split: prod.splits, metis fst_conv)

text \<open>A registered service is found for as long as it lives, up to the last second. When an insertion succeeds, then, after
  any further operations at times that do not decrease and without a removal of the service, a lookup of its type in
  one of its scopes returns its URL until one second before its lifetime has passed.\<close>

theorem registered_service_found:
  assumes "timed now (before @ [(t0, InsertOp e fresh)] @ after @ [(t, LookupOp scopes raw_type 0)])"
    and "run_stores (before @ [(t0, InsertOp e fresh)] @ after @ [(t, LookupOp scopes raw_type 0)]) [] = (outs, m)"
    and "outs ! length before = Code SLP_OK"
    and "\<forall>(t, c) \<in> set after. \<not> removes e c"
    and "micros t < micros t0 + (uint (e_lifetime e) - 1) * USEC_IN_SECONDS"
    and "SLPGetCanonicalString raw_type = m_service_type e" "Intersects (m_scopes e) scopes"
  shows "\<exists>urls. last outs = Urls urls \<and> e_url e \<in> url_string ` set urls"
proof -
  let ?x = "micros t0 + (uint (e_lifetime e) - 1) * USEC_IN_SECONDS"
  obtain o1 m1 where r1: "run_stores before [] = (o1, m1)" by fastforce
  obtain code m2 where r2: "Insert_fresh t0 e fresh m1 = (code, m2)" by fastforce
  obtain o3 m3 where r3: "run_stores after m2 = (o3, m3)" by fastforce
  obtain urls m4 where r4: "Lookup t scopes raw_type 0 m3 = (urls, m4)" by fastforce
  have outs: "outs = o1 @ Code code # o3 @ [Urls urls]" using assms(2) r1 r2 r3 r4 by (simp add: run_stores_append)
  have "length o1 = length before" using length_run_stores [of before "[]"] r1 by simp
  then have code: "code = SLP_OK" using assms(3) outs by (simp add: nth_append)
  have times: "timed now (before @ [(t0, InsertOp e fresh)])" "timed t0 (after @ [(t, LookupOp scopes raw_type 0)])" "normal t0" "normal t"
    using assms(1) by (auto simp: timed_def sorted_append)
  have "cleaned_before now []" by (simp add: cleaned_before_def)
  then have c1: "cleaned_before t0 m1" using run_stores_cleaned [OF _ times(1) r1] by blast
  note i = Insert_in_store [OF c1 times(3) r2]
  have c3: "cleaned_before t m3" by (rule run_stores_cleaned [OF i(1) times(2) r3])
  have "in_store e ?x m3" by (rule run_stores_keeps [OF i(1) times(2) r3 i(3) [OF code] assms(5,4)])
  then have "e_url e \<in> url_string ` set urls" using Lookup_in_store(3) [OF c3 times(4) r4 _ assms(5)] assms(6,7) by blast
  then show ?thesis using outs by simp
qed

lemma registered_service_found_witness:
  "\<exists>urls. last (fst (run_stores
      [(TimeStamp (Timeval 0 0), InsertOp (example_service ''a'' 10) True),
       (TimeStamp (Timeval 1 999999), RemoveOp (example_service ''b'' 10)),
       (TimeStamp (Timeval 8 999999), LookupOp [''default''] ''RDMNet'' 0)] [])) = Urls urls \<and> ''a'' \<in> url_string ` set urls"
proof -
  let ?e = "example_service ''a'' 10" and ?after = "[(TimeStamp (Timeval 1 999999), RemoveOp (example_service ''b'' 10))]"
  let ?cs = "[] @ [(TimeStamp (Timeval 0 0), InsertOp ?e True)] @ ?after @ [(TimeStamp (Timeval 8 999999), LookupOp [''default''] ''RDMNet'' 0)]"
  have code: "fst (run_stores ?cs []) ! length ([] :: (TimeStamp \<times> store_op) list) = Code SLP_OK" by code_simp
  have canonical: "SLPGetCanonicalString ''RDMNet'' = m_service_type ?e" "Intersects (m_scopes ?e) [''default'']" by code_simp+
  have timed: "timed (TimeStamp (Timeval 0 0)) ?cs" by (simp add: timed_def AsInt_def tv_norm_def USEC_IN_SECONDS_def)
  have url: "e_url ?e = ''a''" by (simp add: example_service_def)
  show ?thesis
    using registered_service_found [OF timed surjective_pairing code _ _ canonical] url
    by (simp add: AsInt_def USEC_IN_SECONDS_def example_service_def)
qed

section \<open>Services stay too long\<close>

text \<open>Times that are a microsecond less than two seconds apart.\<close>

definition poll :: "nat \<Rightarrow> TimeStamp" where
  "poll i = TimeStamp (Timeval (int i * 1999999 div 1000000) (int i * 1999999 mod 1000000))"

lemma poll_micros: "micros (poll i) = int i * 1999999" "normal (poll i)"
  by (simp_all add: poll_def AsInt_def tv_norm_def USEC_IN_SECONDS_def)

lemma elapsed_poll: "elapsed_seconds (poll (Suc i)) (poll i) = 1"
  using elapsed_micros [OF poll_micros(2) poll_micros(2), of "Suc i" i] by (simp add: poll_micros(1) USEC_IN_SECONDS_def)

definition polled :: "service_entry \<Rightarrow> nat \<Rightarrow> slp_store" where
  "polled e i =
     [(m_service_type e, \<lparr>last_cleaned = poll i,
        sl_services = [e\<lparr>m_url := \<lparr>url_string = e_url e, url_lifetime = e_lifetime e - of_nat i\<rparr>\<rparr>]\<rparr>)]"

lemma poll_step:
  assumes "Suc i < unat (e_lifetime e)" "SLPGetCanonicalString (m_service_type e) = m_service_type e" "Intersects (m_scopes e) scopes"
  shows "Lookup (poll (Suc i)) scopes (m_service_type e) 0 (polled e i) =
    ([\<lparr>url_string = e_url e, url_lifetime = e_lifetime e - of_nat (Suc i)\<rparr>], polled e (Suc i))"
proof -
  have "unat (e_lifetime e) < 2 ^ 16" using unsigned_less [of "e_lifetime e"] by simp
  then have i: "unat (of_nat i :: u16) = i" using assms(1) by (simp add: unat_of_nat)
  then have "unat (e_lifetime e - of_nat i) = unat (e_lifetime e) - i"
    using assms(1) by (subst unat_sub) (simp_all add: word_le_nat_alt)
  then have "\<not> uint (e_lifetime e - of_nat i) \<le> 1" "\<not> e_lifetime e - of_nat i \<le> 1" using assms(1)
    by (simp_all add: uint_nat word_le_nat_alt del: of_nat_diff)
  then have "MaybeCleanURLList (poll (Suc i)) (snd (polled e i ! 0)) = snd (polled e (Suc i) ! 0)"
    by (simp add: MaybeCleanURLList_def polled_def elapsed_poll age_entry_def AgeLifetime_def algebra_simps)
  then show ?thesis using assms(2,3) by (simp add: Lookup_def polled_def map_set_def Let_def)
qed

text \<open>C39: A service that is looked up every two seconds, less a microsecond, lives almost twice as long as its lifetime. Each
  lookup counts one second and forgets the rest: after \<open>i\<close> lookups the service has lost \<open>i\<close> seconds.\<close>

theorem service_outlives_lifetime:
  assumes "n < unat (e_lifetime e)" "SLPGetCanonicalString (m_service_type e) = m_service_type e" "Intersects (m_scopes e) scopes"
  shows "fst (run_stores ((poll 0, InsertOp e True) # map (\<lambda>i. (poll i, LookupOp scopes (m_service_type e) 0)) [1..<Suc n]) []) =
      Code SLP_OK # map (\<lambda>i. Urls [\<lparr>url_string = e_url e, url_lifetime = e_lifetime e - of_nat i\<rparr>]) [1..<Suc n] \<and>
    micros (poll n) = int n * 1999999"
proof -
  have "run_stores (map (\<lambda>i. (poll i, LookupOp scopes (m_service_type e) 0)) [1..<Suc n]) (polled e 0) =
      (map (\<lambda>i. Urls [\<lparr>url_string = e_url e, url_lifetime = e_lifetime e - of_nat i\<rparr>]) [1..<Suc n], polled e n)"
    using assms(1)
  proof (induction n)
    case (Suc n)
    then show ?case using poll_step [OF Suc.prems assms(2,3)] by (simp add: run_stores_append)
  qed simp
  moreover have "Insert_fresh (poll 0) e True [] = (SLP_OK, polled e 0)"
    by (cases e) (simp add: Insert_fresh_def Populate_def InsertOrUpdateEntry_def map_set_def polled_def Let_def)
  ultimately show ?thesis by (simp add: poll_micros)
qed

lemma service_outlives_lifetime_witness:
  "fst (run_stores ((poll 0, InsertOp (example_service ''a'' 10) True) #
      map (\<lambda>i. (poll i, LookupOp [''default''] ''rdmnet'' 0)) [1..<Suc 9]) []) =
    Code SLP_OK # map (\<lambda>i. Urls [\<lparr>url_string = ''a'', url_lifetime = 10 - of_nat i\<rparr>]) [1..<Suc 9] \<and>
   micros (poll 9) = 17999991"
proof -
  have "SLPGetCanonicalString (m_service_type (example_service ''a'' 10)) = m_service_type (example_service ''a'' 10)"
    "Intersects (m_scopes (example_service ''a'' 10)) [''default'']" by code_simp+
  then show ?thesis using service_outlives_lifetime [of 9 "example_service ''a'' 10" "[''default'']"]
    by (simp add: example_service_def)
qed

end
