(* ===== verification/DA_Tracker.thy ===== *)
theory DA_Tracker
  imports SLP_Packet SLP_Facts
begin

text \<open>
  The directory agents a server knows, \<^verbatim>\<open>slp/DATracker.cpp\<close>: they come and go with their advertisements, callbacks run
  when an agent is new or has changed, and a server that registers its services picks agents that cover its scopes.
\<close>

section \<open>State\<close>

record 'ip directory_agent =
  agent_boot_time :: u32
  agent_scopes :: scope_set
  agent_url :: string
  agent_address :: 'ip
  agent_min_refresh :: u32

record 'ip da_tracker =
  m_agents :: "(string, 'ip directory_agent) stl_map"
  m_new_da_callbacks :: "nat list"

definition DirectoryAgent :: "scope_set \<Rightarrow> string \<Rightarrow> 'ip \<Rightarrow> u32 \<Rightarrow> 'ip directory_agent" where
  "DirectoryAgent scopes url address boot_timestamp =
     \<lparr>agent_boot_time = boot_timestamp, agent_scopes = scopes, agent_url = url, agent_address = address, agent_min_refresh = 0\<rparr>"

definition DIRECTORY_AGENT_SERVICE :: string where
  "DIRECTORY_AGENT_SERVICE = ''service:directory-agent''"

definition da_service_prefix :: string where
  "da_service_prefix = DIRECTORY_AGENT_SERVICE @ ''://''"

definition DATracker :: "'ip da_tracker" where
  "DATracker = \<lparr>m_agents = [], m_new_da_callbacks = []\<rparr>"

section \<open>Operations\<close>

text \<open>A callback is its address. A run of a callback is an effect, with the agent it gets.\<close>

type_synonym 'ip da_run = "nat \<times> 'ip directory_agent"

definition AddNewDACallback :: "nat \<Rightarrow> 'ip da_tracker \<Rightarrow> 'ip da_tracker" where
  "AddNewDACallback callback t = t\<lparr>m_new_da_callbacks := snd (stl_set_insert callback (m_new_da_callbacks t))\<rparr>"

definition RemoveNewDACallback :: "nat \<Rightarrow> 'ip da_tracker \<Rightarrow> 'ip da_tracker" where
  "RemoveNewDACallback callback t = t\<lparr>m_new_da_callbacks := snd (stl_set_remove callback (m_new_da_callbacks t))\<rparr>"

definition RunCallbacks :: "'ip directory_agent \<Rightarrow> 'ip da_tracker \<Rightarrow> 'ip da_run list" where
  "RunCallbacks agent t = map (\<lambda>callback. (callback, agent)) (m_new_da_callbacks t)"

definition AddressFromURL :: "(string \<Rightarrow> 'ip option) \<Rightarrow> string \<Rightarrow> 'ip option" where
  "AddressFromURL ip_from_string url =
     (if take (length da_service_prefix) url = da_service_prefix then ip_from_string (drop (length da_service_prefix) url) else None)"

text \<open>The time stamp of an advertisement with an error is not set, and not read. The source of a packet matters for a
  warning only.\<close>

definition NewDAAdvert :: "(string \<Rightarrow> 'ip option) \<Rightarrow> da_advert_packet \<Rightarrow> 'ip da_tracker \<Rightarrow> 'ip da_run list \<times> 'ip da_tracker" where
  "NewDAAdvert ip_from_string advert t =
     (if da_error_code advert \<noteq> 0 then ([], t)
      else
        let url = da_url advert; boot_timestamp = (case da_boot_timestamp advert of Some b \<Rightarrow> b | None \<Rightarrow> 0)
        in if boot_timestamp = 0 then ([], t\<lparr>m_agents := map_erase url (m_agents t)\<rparr>)
           else case map_of (m_agents t) url of
                  None \<Rightarrow>
                    (case AddressFromURL ip_from_string url of
                       None \<Rightarrow> ([], t)
                     | Some address \<Rightarrow>
                         let agent = DirectoryAgent (ScopeSet (da_scope_list advert)) url address boot_timestamp;
                             t1 = t\<lparr>m_agents := snd (STLReplace (m_agents t) url agent)\<rparr>
                         in (RunCallbacks agent t1, t1))
                | Some agent \<Rightarrow>
                    if boot_timestamp < agent_boot_time agent then ([], t)
                    else if boot_timestamp > agent_boot_time agent then
                      let agent1 = agent\<lparr>agent_boot_time := boot_timestamp\<rparr>;
                          t1 = t\<lparr>m_agents := map_set url agent1 (m_agents t)\<rparr>
                      in (RunCallbacks agent1 t1, t1)
                    else
                      let new_scopes = ScopeSet (da_scope_list advert)
                      in if agent_scopes agent \<noteq> new_scopes then
                           let agent1 = agent\<lparr>agent_scopes := new_scopes\<rparr>;
                               t1 = t\<lparr>m_agents := map_set url agent1 (m_agents t)\<rparr>
                           in (RunCallbacks agent1 t1, t1)
                         else ([], t))"

definition DACount :: "'ip da_tracker \<Rightarrow> nat" where
  "DACount t = length (m_agents t)"

definition GetDirectoryAgents :: "'ip da_tracker \<Rightarrow> 'ip directory_agent list" where
  "GetDirectoryAgents t = STLValues (m_agents t)"

definition GetDAsForScopes :: "scope_set \<Rightarrow> 'ip da_tracker \<Rightarrow> 'ip directory_agent list" where
  "GetDAsForScopes scopes t = filter (\<lambda>agent. Intersection (agent_scopes agent) scopes \<noteq> []) (STLValues (m_agents t))"

text \<open>The inner loop of \<open>GetMinimalCoveringList\<close>: \<open>Inl\<close> is an agent that covers all scopes, \<open>Inr\<close> the one that covers most, if
  there is one.\<close>

fun largest_loop ::
    "scope_set \<Rightarrow> 'ip directory_agent list \<Rightarrow> nat \<Rightarrow> 'ip directory_agent option \<Rightarrow> 'ip directory_agent + 'ip directory_agent option" where
  "largest_loop scopes_to_cover [] max_count largest = Inr largest"
| "largest_loop scopes_to_cover (agent # agents) max_count largest =
     (let intersection_count = IntersectionCount (agent_scopes agent) scopes_to_cover
      in if intersection_count = length scopes_to_cover then Inl agent
         else if intersection_count > max_count then largest_loop scopes_to_cover agents intersection_count (Some agent)
         else largest_loop scopes_to_cover agents max_count largest)"

partial_function (option) cover_loop ::
    "'ip directory_agent list \<Rightarrow> scope_set \<Rightarrow> 'ip directory_agent list \<Rightarrow> 'ip directory_agent list option" where
  "cover_loop agents scopes_to_cover result =
     (if scopes_to_cover \<noteq> [] then
        case largest_loop scopes_to_cover agents 0 None of
          Inl agent \<Rightarrow> Some (result @ [agent])
        | Inr None \<Rightarrow> Some result
        | Inr (Some agent) \<Rightarrow>
            cover_loop agents (fst (DifferenceUpdate scopes_to_cover (agent_scopes agent))) (result @ [agent])
      else Some result)"

declare cover_loop.simps [code]

definition GetMinimalCoveringList :: "scope_set \<Rightarrow> 'ip da_tracker \<Rightarrow> 'ip directory_agent list option" where
  "GetMinimalCoveringList scopes t = cover_loop (STLValues (m_agents t)) scopes []"

definition LookupDA :: "string \<Rightarrow> 'ip da_tracker \<Rightarrow> 'ip directory_agent option" where
  "LookupDA url t = map_of (m_agents t) url"

definition MarkAsBad :: "string \<Rightarrow> 'ip da_tracker \<Rightarrow> 'ip da_tracker" where
  "MarkAsBad url t = t\<lparr>m_agents := map_erase url (m_agents t)\<rparr>"

section \<open>Programs and invariant\<close>

datatype da_op = NewAdvert da_advert_packet | Bad string | AddCallback nat | RemoveCallback nat

fun run_da :: "(string \<Rightarrow> 'ip option) \<Rightarrow> da_op \<Rightarrow> 'ip da_tracker \<Rightarrow> 'ip da_run list \<times> 'ip da_tracker" where
  "run_da ip_from_string (NewAdvert advert) t = NewDAAdvert ip_from_string advert t"
| "run_da ip_from_string (Bad url) t = ([], MarkAsBad url t)"
| "run_da ip_from_string (AddCallback c) t = ([], AddNewDACallback c t)"
| "run_da ip_from_string (RemoveCallback c) t = ([], RemoveNewDACallback c t)"

fun run_das :: "(string \<Rightarrow> 'ip option) \<Rightarrow> da_op list \<Rightarrow> 'ip da_tracker \<Rightarrow> 'ip da_run list \<times> 'ip da_tracker" where
  "run_das ip_from_string [] t = ([], t)"
| "run_das ip_from_string (c # cs) t =
     (let (runs, t1) = run_da ip_from_string c t; (more, t2) = run_das ip_from_string cs t1 in (runs @ more, t2))"

text \<open>Agents stand under their URLs, at the address in it, and their scopes are sets.\<close>

definition agent_ok :: "(string \<Rightarrow> 'ip option) \<Rightarrow> string \<times> 'ip directory_agent \<Rightarrow> bool" where
  "agent_ok ip_from_string = (\<lambda>(url, a). agent_url a = url \<and> agent_boot_time a \<noteq> 0 \<and> scopes_ok (agent_scopes a) \<and>
     AddressFromURL ip_from_string url = Some (agent_address a))"

definition tracker_ok :: "(string \<Rightarrow> 'ip option) \<Rightarrow> 'ip da_tracker \<Rightarrow> bool" where
  "tracker_ok ip_from_string t \<longleftrightarrow>
     map_ok (m_agents t) \<and> set_ok (m_new_da_callbacks t) \<and> (\<forall>x \<in> set (m_agents t). agent_ok ip_from_string x)"

lemma set_map_set: "set (map_set k v m) \<subseteq> insert (k, v) (set m)"
  by (auto simp: map_set_def split: if_splits)

lemma set_map_insert_subset: "set (snd (map_insert k v m)) \<subseteq> insert (k, v) (set m)"
  by (induction m) (auto simp: Let_def split_beta split: if_splits)

lemma tracker_ok_set:
  assumes "tracker_ok f t" "agent_ok f (url, a)"
  shows "tracker_ok f (t\<lparr>m_agents := map_set url a (m_agents t)\<rparr>)"
  using assms set_map_set [of url a "m_agents t"] unfolding tracker_ok_def by (auto simp del: map_of_map_set)

lemma tracker_ok_replace:
  assumes "tracker_ok f t" "agent_ok f (url, a)"
  shows "tracker_ok f (t\<lparr>m_agents := snd (STLReplace (m_agents t) url a)\<rparr>)"
proof -
  obtain new m where m: "map_insert url a (m_agents t) = (new, m)" by fastforce
  have "map_ok m" "set m \<subseteq> insert (url, a) (set (m_agents t))"
    using map_insert_ok [of "m_agents t" url a] set_map_insert_subset [of url a "m_agents t"] assms(1) m by (simp_all add: tracker_ok_def)
  then show ?thesis using assms set_map_set [of url a m] m by (auto simp: STLReplace_def tracker_ok_def)
qed

lemma tracker_ok_erase: "tracker_ok f t \<Longrightarrow> tracker_ok f (t\<lparr>m_agents := map_erase url (m_agents t)\<rparr>)"
  by (auto simp: tracker_ok_def) (simp add: map_erase_def)

lemma tracker_ok_lookup: "tracker_ok f t \<Longrightarrow> map_of (m_agents t) url = Some a \<Longrightarrow> agent_ok f (url, a)"
  by (auto simp: tracker_ok_def dest: map_of_SomeD)

lemma NewDAAdvert_ok:
  assumes "tracker_ok f t" "NewDAAdvert f advert t = (runs, t')"
  shows "tracker_ok f t' \<and> (\<forall>(c, a) \<in> set runs. c \<in> set (m_new_da_callbacks t) \<and> LookupDA (da_url advert) t' = Some a)"
proof -
  let ?url = "da_url advert" and ?boot = "case da_boot_timestamp advert of Some b \<Rightarrow> b | None \<Rightarrow> 0"
  note sc = ScopeSet_laws(1) [of "da_scope_list advert"]
  consider "da_error_code advert \<noteq> 0" | "da_error_code advert = 0" "?boot = 0"
    | (new) "da_error_code advert = 0" "?boot \<noteq> 0" "map_of (m_agents t) ?url = None"
    | (known) a where "da_error_code advert = 0" "?boot \<noteq> 0" "map_of (m_agents t) ?url = Some a" by blast
  then show ?thesis
  proof cases
    case new
    show ?thesis
    proof (cases "AddressFromURL f ?url")
      case None
      then show ?thesis using assms new by (simp add: NewDAAdvert_def)
    next
      case (Some address)
      let ?agent = "DirectoryAgent (ScopeSet (da_scope_list advert)) ?url address ?boot"
      have t': "t' = t\<lparr>m_agents := snd (STLReplace (m_agents t) ?url ?agent)\<rparr>" "runs = RunCallbacks ?agent t'"
        using assms(2) new Some by (auto simp: NewDAAdvert_def Let_def)
      have "agent_ok f (?url, ?agent)" using Some sc new(2) by (simp add: agent_ok_def DirectoryAgent_def)
      moreover have "LookupDA ?url t' = Some ?agent"
        using assms(1) by (simp add: t'(1) LookupDA_def STLReplace_lookup tracker_ok_def)
      ultimately show ?thesis using tracker_ok_replace [OF assms(1)] t' by (auto simp: RunCallbacks_def)
    qed
  next
    case known
    have ok: "agent_ok f (?url, a)" using tracker_ok_lookup [OF assms(1) known(3)] .
    have set: "tracker_ok f (t\<lparr>m_agents := map_set ?url b (m_agents t)\<rparr>) \<and>
        (\<forall>(c, x) \<in> set (RunCallbacks b (t\<lparr>m_agents := map_set ?url b (m_agents t)\<rparr>)).
          c \<in> set (m_new_da_callbacks t) \<and> LookupDA ?url (t\<lparr>m_agents := map_set ?url b (m_agents t)\<rparr>) = Some x)"
      if "agent_ok f (?url, b)" for b
      using tracker_ok_set [OF assms(1) that] known(3) by (auto simp: RunCallbacks_def LookupDA_def map_of_map_set)
    have b: "agent_ok f (?url, a\<lparr>agent_boot_time := ?boot\<rparr>)" "agent_ok f (?url, a\<lparr>agent_scopes := ScopeSet (da_scope_list advert)\<rparr>)"
      using ok known(2) sc by (simp_all add: agent_ok_def)
    show ?thesis
      using assms known set [OF b(1)] set [OF b(2)] by (auto simp: NewDAAdvert_def Let_def split: if_splits)
  qed (use assms tracker_ok_erase in \<open>auto simp: NewDAAdvert_def Let_def\<close>)
qed

lemma run_da_ok: "tracker_ok f t \<Longrightarrow> tracker_ok f (snd (run_da f c t))"
  using NewDAAdvert_ok [of f t] tracker_ok_erase [of f t]
  by (cases c) (auto simp: MarkAsBad_def AddNewDACallback_def RemoveNewDACallback_def tracker_ok_def split: prod.splits
      intro: prod.collapse [symmetric])

lemma run_das_ok: "tracker_ok f t \<Longrightarrow> tracker_ok f (snd (run_das f cs t))"
  by (induction cs arbitrary: t) (auto simp: Let_def split: prod.splits dest: run_da_ok, metis run_da_ok snd_conv)

lemma DATracker_ok: "tracker_ok f DATracker"
  by (simp add: tracker_ok_def DATracker_def)

section \<open>Covering scopes\<close>

abbreviation scopes_of :: "'ip directory_agent list \<Rightarrow> string set" where
  "scopes_of agents \<equiv> \<Union> ((set \<circ> agent_scopes) ` set agents)"

lemma largest_loop_Inl:
  "largest_loop S agents n l = Inl a \<Longrightarrow> a \<in> set agents \<and> IntersectionCount (agent_scopes a) S = length S"
  by (induction S agents n l rule: largest_loop.induct) (auto simp: Let_def split: if_splits)

lemma largest_loop_Inr:
  "largest_loop S agents n l = Inr r \<Longrightarrow>
    (\<forall>a \<in> set agents. IntersectionCount (agent_scopes a) S \<noteq> length S) \<and>
    (r = l \<and> (\<forall>a \<in> set agents. IntersectionCount (agent_scopes a) S \<le> n) \<or>
     (\<exists>a \<in> set agents. r = Some a \<and> IntersectionCount (agent_scopes a) S > n \<and>
        (\<forall>b \<in> set agents. IntersectionCount (agent_scopes b) S \<le> IntersectionCount (agent_scopes a) S)))"
proof (induction S agents n l rule: largest_loop.induct)
  case (2 S a agents n l)
  let ?c = "IntersectionCount (agent_scopes a) S"
  have ne: "?c \<noteq> length S" using "2.prems" by (auto simp: Let_def split: if_splits)
  show ?case
  proof (cases "?c > n")
    case True
    then have "largest_loop S agents ?c (Some a) = Inr r" using "2.prems" ne by (simp add: Let_def)
    from "2.IH"(1) [OF refl ne True this] show ?thesis
    proof (elim conjE disjE bexE)
      fix b assume "b \<in> set agents" "r = Some b" "?c < IntersectionCount (agent_scopes b) S"
        "\<forall>x \<in> set agents. IntersectionCount (agent_scopes x) S \<noteq> length S"
        "\<forall>x \<in> set agents. IntersectionCount (agent_scopes x) S \<le> IntersectionCount (agent_scopes b) S"
      then show ?thesis using ne True by (intro conjI disjI2 bexI [of _ b]) auto
    qed (use ne True in auto)
  next
    case False
    then have "largest_loop S agents n l = Inr r" using "2.prems" ne by (simp add: Let_def)
    from "2.IH"(2) [OF refl ne False this] show ?thesis
    proof (elim conjE disjE bexE)
      fix b assume "b \<in> set agents" "r = Some b" "n < IntersectionCount (agent_scopes b) S"
        "\<forall>x \<in> set agents. IntersectionCount (agent_scopes x) S \<noteq> length S"
        "\<forall>x \<in> set agents. IntersectionCount (agent_scopes x) S \<le> IntersectionCount (agent_scopes b) S"
      then show ?thesis using ne False by (intro conjI disjI2 bexI [of _ b]) auto
    qed (use ne False in auto)
  qed
qed simp

text \<open>The agents found for scopes \<open>S\<close>: they cover what the agents can cover, each of them covers something that the
  earlier ones do not, and one is enough if one can be.\<close>

fun useful :: "string set \<Rightarrow> 'ip directory_agent list \<Rightarrow> bool" where
  "useful S [] \<longleftrightarrow> True"
| "useful S (a # as) \<longleftrightarrow> set (agent_scopes a) \<inter> S \<noteq> {} \<and> useful (S - set (agent_scopes a)) as"

lemma useful_length: "finite S \<Longrightarrow> useful S as \<Longrightarrow> length as \<le> card S"
proof (induction as arbitrary: S)
  case (Cons a as)
  have "card (S - set (agent_scopes a)) < card S" using Cons.prems by (intro psubset_card_mono) auto
  moreover have "length as \<le> card (S - set (agent_scopes a))" using Cons by simp
  ultimately show ?case by simp
qed simp

lemma cover_loop_returns:
  assumes "scopes_ok S" "\<forall>a \<in> set agents. scopes_ok (agent_scopes a)"
  shows "\<exists>as. cover_loop agents S result = Some (result @ as) \<and> set as \<subseteq> set agents \<and>
    set S \<inter> scopes_of as = set S \<inter> scopes_of agents \<and> useful (set S) as \<and>
    ((\<exists>a \<in> set agents. set S \<subseteq> set (agent_scopes a)) \<longrightarrow> length as \<le> 1)"
  using assms(1)
proof (induction "length S" arbitrary: S result rule: less_induct)
  case less
  have dist: "distinct S" using less.prems by (simp add: scopes_ok_def strict_sorted_iff)
  have count: "IntersectionCount (agent_scopes a) S = card (set (agent_scopes a) \<inter> set S)" if "a \<in> set agents" for a
    using scope_operations(3) [OF _ less.prems, of "agent_scopes a"] assms(2) that by blast
  have full: "IntersectionCount (agent_scopes a) S = length S \<longleftrightarrow> set S \<subseteq> set (agent_scopes a)" if "a \<in> set agents" for a
    using count [OF that] distinct_card [OF dist] by (metis Int_absorb1 card_subset_eq finite_set inf.cobounded2 inf_le1)
  show ?case
  proof (cases "S = []")
    case True
    then show ?thesis by (simp add: cover_loop.simps)
  next
    case False
    show ?thesis
    proof (cases "largest_loop S agents 0 None")
      case (Inl a)
      have a: "a \<in> set agents" "set S \<subseteq> set (agent_scopes a)" using largest_loop_Inl [OF Inl] full by blast+
      moreover have "cover_loop agents S result = Some (result @ [a])" using False Inl by (simp add: cover_loop.simps [of agents S])
      moreover have "set (agent_scopes a) \<inter> set S \<noteq> {}" using a(2) False by (cases S) auto
      ultimately show ?thesis by (intro exI [of _ "[a]"]) auto
    next
      case (Inr r)
      note L = largest_loop_Inr [OF Inr]
      have none: "\<not> (\<exists>a \<in> set agents. set S \<subseteq> set (agent_scopes a))" using L full by blast
      show ?thesis
      proof (cases r)
        case None
        then have "card (set (agent_scopes a) \<inter> set S) = 0" if "a \<in> set agents" for a using L count that by auto
        then have "set S \<inter> scopes_of agents = {}" by fastforce
        moreover have "cover_loop agents S result = Some result" using False Inr None by (simp add: cover_loop.simps [of agents S])
        ultimately show ?thesis using none by (intro exI [of _ "[]"]) simp
      next
        case (Some a)
        then have a: "a \<in> set agents" "0 < card (set (agent_scopes a) \<inter> set S)" using L count by auto
        note sa = scope_operations [OF less.prems, of "agent_scopes a"]
        have ok: "scopes_ok (agent_scopes a)" using a assms(2) by blast
        define S' where "S' = Difference S (agent_scopes a)"
        have S': "scopes_ok S'" "set S' = set S - set (agent_scopes a)" using sa [OF ok] by (simp_all add: S'_def)
        have hit: "set (agent_scopes a) \<inter> set S \<noteq> {}" using a(2) by auto
        then have "card (set S') < card (set S)" unfolding S'(2) by (intro psubset_card_mono) auto
        moreover have "distinct S'" using S'(1) by (simp add: scopes_ok_def strict_sorted_iff)
        ultimately have less': "length S' < length S" using distinct_card dist by metis
        obtain as where as: "cover_loop agents S' (result @ [a]) = Some ((result @ [a]) @ as)" "set as \<subseteq> set agents"
          "set S' \<inter> scopes_of as = set S' \<inter> scopes_of agents" "useful (set S') as"
          using less.hyps [OF less' S'(1)] by blast
        have "cover_loop agents S result = Some (result @ (a # as))"
          using as(1) False Inr Some sa(10) [OF ok] by (simp add: cover_loop.simps [of agents S] S'_def)
        moreover have "set S \<inter> scopes_of (a # as) = set S \<inter> scopes_of agents" using as(2,3) a(1) S'(2) by auto
        ultimately show ?thesis using as a hit none S'(2) by (intro exI [of _ "a # as"]) simp
      qed
    qed
  qed
qed

text \<open>C23: Agents that cover the scopes. After any advertisements and failures of agents, the list of agents for a set of scopes
  is found, consists of known agents, covers every scope that some known agent serves, has only agents that add a
  scope to the earlier ones, and is a single agent when one agent serves all scopes.\<close>

theorem covering_list_covers:
  assumes "scopes_ok scopes" "t = snd (run_das ip_from_string cs DATracker)"
  shows "\<exists>as. GetMinimalCoveringList scopes t = Some as \<and> set as \<subseteq> set (GetDirectoryAgents t) \<and>
    set scopes \<inter> scopes_of as = set scopes \<inter> scopes_of (GetDirectoryAgents t) \<and>
    useful (set scopes) as \<and> length as \<le> length scopes \<and>
    ((\<exists>a \<in> set (GetDirectoryAgents t). set scopes \<subseteq> set (agent_scopes a)) \<longrightarrow> length as \<le> 1)"
proof -
  have "tracker_ok ip_from_string t" unfolding assms(2) by (rule run_das_ok [OF DATracker_ok])
  then have "\<forall>a \<in> set (GetDirectoryAgents t). scopes_ok (agent_scopes a)"
    by (auto simp: tracker_ok_def agent_ok_def GetDirectoryAgents_def STLValues_def)
  then obtain as where as: "cover_loop (GetDirectoryAgents t) scopes [] = Some as" "set as \<subseteq> set (GetDirectoryAgents t)"
    "set scopes \<inter> scopes_of as = set scopes \<inter> scopes_of (GetDirectoryAgents t)" "useful (set scopes) as"
    "(\<exists>a \<in> set (GetDirectoryAgents t). set scopes \<subseteq> set (agent_scopes a)) \<longrightarrow> length as \<le> 1"
    using cover_loop_returns [OF assms(1), of "GetDirectoryAgents t" "[]"] by auto
  have "length as \<le> length scopes" using useful_length [OF _ as(4)] card_length [of scopes] by simp
  then show ?thesis using as by (auto simp: GetMinimalCoveringList_def GetDirectoryAgents_def)
qed

definition an_advert :: "u32 \<Rightarrow> string \<Rightarrow> string \<Rightarrow> da_advert_packet" where
  "an_advert boot url scopes =
     \<lparr>p_xid = 0, p_flags = 0, p_language = ''en'', da_error_code = 0, da_boot_timestamp = Some boot, da_url = url,
      da_scope_list = scopes, da_attr_list = []\<rparr>"

definition some_adverts :: "da_op list" where
  "some_adverts =
     [AddCallback 3, NewAdvert (an_advert 1 ''service:directory-agent://a'' ''one,two''),
      NewAdvert (an_advert 1 ''service:directory-agent://b'' ''two,three'')]"

lemma covering_list_covers_witness:
  "\<exists>as. GetMinimalCoveringList [''one'', ''three'', ''two''] (snd (run_das Some some_adverts DATracker)) = Some as \<and>
    {''one'', ''three'', ''two''} \<inter> scopes_of as = {''one'', ''three'', ''two''} \<inter> scopes_of (GetDirectoryAgents (snd (run_das Some some_adverts DATracker)))"
proof -
  have "scopes_ok [''one'', ''three'', ''two'']" by code_simp
  then show ?thesis
    using covering_list_covers [of "[''one'', ''three'', ''two'']" "snd (run_das Some some_adverts DATracker)" Some some_adverts]
    by auto
qed

section \<open>Advertisements\<close>

text \<open>C24: Callbacks run exactly when an agent is new or has changed. After any history, an advertisement changes at most the agent
  of its URL; when that agent is known afterwards and differs from before, every registered callback runs once, with the
  agent as it is now, and otherwise none.\<close>

theorem advert_runs_callbacks:
  assumes "t = snd (run_das ip_from_string cs DATracker)" "NewDAAdvert ip_from_string advert t = (runs, t')"
  shows "tracker_ok ip_from_string t' \<and>
    runs = (case LookupDA (da_url advert) t' of
              Some a \<Rightarrow> if LookupDA (da_url advert) t \<noteq> Some a then map (\<lambda>c. (c, a)) (m_new_da_callbacks t) else []
            | None \<Rightarrow> []) \<and>
    (\<forall>url. url \<noteq> da_url advert \<longrightarrow> LookupDA url t' = LookupDA url t)"
proof -
  have ok: "tracker_ok ip_from_string t" unfolding assms(1) by (rule run_das_ok [OF DATracker_ok])
  then have m: "map_ok (m_agents t)" by (simp add: tracker_ok_def)
  have word: "b > agent_boot_time a \<Longrightarrow> a\<lparr>agent_boot_time := b\<rparr> \<noteq> a" for a :: "'a directory_agent" and b by (cases a) auto
  have scopes: "agent_scopes a \<noteq> sc \<Longrightarrow> a\<lparr>agent_scopes := sc\<rparr> \<noteq> a" for a :: "'a directory_agent" and sc by (cases a) auto
  show ?thesis
    using NewDAAdvert_ok [OF ok assms(2)] assms(2) word scopes STLReplace_lookup [OF m]
    by (auto simp: NewDAAdvert_def LookupDA_def RunCallbacks_def map_of_map_set map_of_map_erase Let_def
        split: if_splits option.splits)
qed

lemma advert_runs_callbacks_witness:
  "fst (NewDAAdvert Some (an_advert 2 ''service:directory-agent://a'' ''one'') (snd (run_das Some some_adverts DATracker))) \<noteq> []"
proof -
  let ?t = "snd (run_das Some some_adverts DATracker)" and ?a = "an_advert 2 ''service:directory-agent://a'' ''one''"
  note w = advert_runs_callbacks [OF refl surjective_pairing, of Some ?a some_adverts]
  have "LookupDA (da_url ?a) (snd (NewDAAdvert Some ?a ?t)) \<noteq> LookupDA (da_url ?a) ?t"
    "LookupDA (da_url ?a) (snd (NewDAAdvert Some ?a ?t)) \<noteq> None" "m_new_da_callbacks ?t \<noteq> []" by code_simp+
  then show ?thesis using w by auto
qed

text \<open>C38: An agent that restarts keeps its old scopes. An advertisement with a later boot time and new scopes changes the boot
  time alone: callbacks run with the scopes the agent no longer serves. Only when the same advertisement comes again are
  its scopes taken over.\<close>

theorem restarted_agent_keeps_scopes:
  assumes "LookupDA (da_url advert) t = Some a" "da_error_code advert = 0" "da_boot_timestamp advert = Some boot"
    and "agent_boot_time a < boot" "ScopeSet (da_scope_list advert) \<noteq> agent_scopes a"
  shows "\<exists>t1 t2. NewDAAdvert ip_from_string advert t = (map (\<lambda>c. (c, a\<lparr>agent_boot_time := boot\<rparr>)) (m_new_da_callbacks t), t1) \<and>
    LookupDA (da_url advert) t1 = Some (a\<lparr>agent_boot_time := boot\<rparr>) \<and>
    t2 = snd (NewDAAdvert ip_from_string advert t1) \<and>
    LookupDA (da_url advert) t2 = Some (a\<lparr>agent_boot_time := boot, agent_scopes := ScopeSet (da_scope_list advert)\<rparr>)"
proof -
  have "boot \<noteq> 0" using assms(4) by auto
  then show ?thesis using assms
    by (auto simp: NewDAAdvert_def LookupDA_def RunCallbacks_def map_of_map_set Let_def)
qed

lemma restarted_agent_keeps_scopes_witness:
  "\<exists>t1 t2. snd (NewDAAdvert Some (an_advert 2 ''service:directory-agent://a'' ''one'') (snd (run_das Some some_adverts DATracker))) = t1 \<and>
    map_option agent_scopes (LookupDA ''service:directory-agent://a'' t1) = Some [''one'', ''two''] \<and>
    t2 = snd (NewDAAdvert Some (an_advert 2 ''service:directory-agent://a'' ''one'') t1) \<and>
    map_option agent_scopes (LookupDA ''service:directory-agent://a'' t2) = Some [''one'']"
proof -
  let ?t = "snd (run_das Some some_adverts DATracker)" and ?ad = "an_advert 2 ''service:directory-agent://a'' ''one''"
  let ?a = "DirectoryAgent [''one'', ''two''] ''service:directory-agent://a'' ''a'' 1"
  have facts: "LookupDA (da_url ?ad) ?t = Some ?a" "ScopeSet (da_scope_list ?ad) = [''one'']" by code_simp+
  have "da_error_code ?ad = 0" "da_boot_timestamp ?ad = Some 2" "agent_boot_time ?a < 2" "ScopeSet (da_scope_list ?ad) \<noteq> agent_scopes ?a"
    unfolding facts by (simp_all add: an_advert_def DirectoryAgent_def)
  from restarted_agent_keeps_scopes [OF facts(1) this, of Some] show ?thesis
    unfolding facts by (auto simp: an_advert_def DirectoryAgent_def)
qed

end
