(* ===== verification/SLP_Server.thy ===== *)
theory SLP_Server
  imports SLP_Sender SLP_Lifetimes DA_Tracker
begin

text \<open>
  The packets a server handles, \<^verbatim>\<open>slp/SLPServer.cpp\<close>: it answers requests for services and types from its store, and, as a
  directory agent, registers the services of others. The operations that wait for acknowledgements and replies are in
  \<open>SLP_Agent\<close>; their callbacks are addresses here.
\<close>

section \<open>State\<close>

text \<open>Operations that wait for answers: the transaction, the timer, the time until the next timeout and since the first
  attempt in milliseconds, and the number of the attempt.\<close>

record pending_operation =
  op_xid :: u16
  op_timer_id :: nat
  op_retry_time :: u32
  op_total_time :: u32
  op_attempt :: u8

text \<open>An operation that asks by multicast: the responders so far, and if the list has changed. A responder that answers
  again marks the list as unchanged.\<close>

record 'ip pending_multicast = pending_operation +
  pm_pr_list :: "'ip list"
  pm_pr_list_changed :: bool

definition AddPR :: "'ip :: linorder \<Rightarrow> ('ip, 'a) pending_multicast_scheme \<Rightarrow> ('ip, 'a) pending_multicast_scheme" where
  "AddPR address op =
     (let (inserted, prs) = stl_set_insert address (pm_pr_list op) in op\<lparr>pm_pr_list := prs, pm_pr_list_changed := inserted\<rparr>)"

record 'ip slp_server =
  m_enable_da :: bool
  m_configured_scopes :: scope_set
  m_iface_address :: 'ip
  m_boot_time :: TimeStamp
  m_service_store :: slp_store
  m_da_tracker :: "'ip da_tracker"
  m_pending_acks :: "(u16, nat) stl_map"
  m_pending_replies :: "(u16, nat) stl_map"
  m_outstanding_da_discovery :: "'ip pending_multicast option"

text \<open>What a server does besides: calls of the sender, runs of callbacks, answers to clients, results of calls, and the warning that a
  transaction number is in use already.\<close>

datatype 'ip slp_effect =
    Sent "'ip \<times> u16" "'ip sender_call"
  | RunReply nat 'ip u16 "url_entry list"
  | RunAck nat u16
  | RunNewDA nat "'ip directory_agent"
  | Found nat "url_entry list"
  | Collision u16
  | Returned u16

type_synonym 'ip handled = "'ip slp_effect list \<times> 'ip slp_server"

fun error_number :: "slp_error_code \<Rightarrow> u16" where
  "error_number SLP_OK = 0"
| "error_number LANGUAGE_NOT_SUPPORTED = 1"
| "error_number PARSE_ERROR = 2"
| "error_number INVALID_REGISTRATION = 3"
| "error_number SCOPE_NOT_SUPPORTED = 4"
| "error_number AUTHENTICATION_UNKNOWN = 5"
| "error_number AUTHENTICATION_ABSENT = 6"
| "error_number AUTHENTICATION_FAILED = 7"
| "error_number VER_NOT_SUPPORTED = 9"
| "error_number INTERNAL_ERROR = 10"
| "error_number DA_BUSY_NOW = 11"
| "error_number OPTION_NOT_UNDERSTOOD = 12"
| "error_number INVALID_UPDATE = 13"
| "error_number MSG_NOT_SUPPORTED = 14"
| "error_number REFRESH_REJECTED = 15"

definition SERVICE_AGENT_SERVICE :: string where
  "SERVICE_AGENT_SERVICE = ''service:service-agent''"

section \<open>Answers\<close>

definition Fresh :: "'a slp_packet_scheme \<Rightarrow> bool" where
  "Fresh packet \<longleftrightarrow> p_flags packet AND SLP_FRESH \<noteq> 0"

definition Multicast :: "'a slp_packet_scheme \<Rightarrow> bool" where
  "Multicast packet \<longleftrightarrow> p_flags packet AND SLP_REQUEST_MCAST \<noteq> 0"

definition InPRList :: "'ip list \<Rightarrow> 'ip slp_server \<Rightarrow> bool" where
  "InPRList pr_list s \<longleftrightarrow> m_iface_address s \<in> set pr_list"

definition SendErrorIfUnicast :: "'a slp_packet_scheme \<Rightarrow> u8 \<Rightarrow> 'ip \<times> u16 \<Rightarrow> slp_error_code \<Rightarrow> 'ip slp_effect list" where
  "SendErrorIfUnicast request function_id destination error_code =
     (if Multicast request then []
      else [Sent destination (ErrorCall function_id (p_xid request) (p_language request) (error_number error_code))])"

definition Server_SendDAAdvert :: "('ip \<Rightarrow> string) \<Rightarrow> 'ip \<times> u16 \<Rightarrow> u32 \<Rightarrow> u16 \<Rightarrow> 'ip slp_server \<Rightarrow> 'ip slp_effect list" where
  "Server_SendDAAdvert ip_to_string dest boot_time xid s =
     [Sent dest (DAAdvertCall xid 0 boot_time (DIRECTORY_AGENT_SERVICE @ ''://'' @ ip_to_string (m_iface_address s))
        (m_configured_scopes s))]"

definition boot_seconds :: "'ip slp_server \<Rightarrow> u32" where
  "boot_seconds s = of_int (tv_sec (m_tv (m_boot_time s)))"

definition SendDABeat :: "('ip \<Rightarrow> string) \<Rightarrow> 'ip \<times> u16 \<Rightarrow> 'ip slp_server \<Rightarrow> 'ip slp_effect list" where
  "SendDABeat ip_to_string multicast_endpoint s = Server_SendDAAdvert ip_to_string multicast_endpoint (boot_seconds s) 0 s"

definition MaybeSendDAAdvert ::
    "('ip \<Rightarrow> string) \<Rightarrow> 'ip service_request_packet \<Rightarrow> 'ip \<times> u16 \<Rightarrow> 'ip slp_server \<Rightarrow> 'ip slp_effect list" where
  "MaybeSendDAAdvert ip_to_string request source s =
     (if \<not> m_enable_da s then []
      else
        let scopes = ScopeSet (rq_scope_list request)
        in if scopes \<noteq> [] \<and> \<not> Intersects scopes (m_configured_scopes s)
           then SendErrorIfUnicast request DA_ADVERTISEMENT source SCOPE_NOT_SUPPORTED
           else Server_SendDAAdvert ip_to_string source (boot_seconds s) (p_xid request) s)"

definition MaybeSendSAAdvert ::
    "('ip \<Rightarrow> string) \<Rightarrow> 'ip service_request_packet \<Rightarrow> 'ip \<times> u16 \<Rightarrow> 'ip slp_server \<Rightarrow> 'ip slp_effect list" where
  "MaybeSendSAAdvert ip_to_string request source s =
     (if m_enable_da s then []
      else
        let scopes = ScopeSet (rq_scope_list request)
        in if \<not> (scopes = [] \<or> Intersects scopes (m_configured_scopes s))
           then SendErrorIfUnicast request SERVICE_REPLY source SCOPE_NOT_SUPPORTED
           else [Sent source (SAAdvertCall (p_xid request)
                   (SERVICE_AGENT_SERVICE @ ''://'' @ ip_to_string (m_iface_address s)) (m_configured_scopes s))])"

section \<open>Handlers\<close>

text \<open>\<open>HandleServiceRequest\<close> after the packet was parsed.\<close>

definition HandleParsedRequest ::
    "('ip \<Rightarrow> string) \<Rightarrow> TimeStamp \<Rightarrow> 'ip service_request_packet \<Rightarrow> 'ip \<times> u16 \<Rightarrow> 'ip slp_server \<Rightarrow> 'ip handled" where
  "HandleParsedRequest ip_to_string now request source s =
     (if InPRList (rq_pr_list request) s then ([], s)
      else if rq_predicate request \<noteq> [] then
        (if \<not> m_enable_da s \<and> \<not> Multicast request
         then [Sent source (ServiceReplyCall (p_xid request) (p_language request) 0 [])] else [], s)
      else if rq_spi request \<noteq> [] then (SendErrorIfUnicast request SERVICE_REPLY source AUTHENTICATION_UNKNOWN, s)
      else if rq_predicate request \<noteq> [] \<and> p_language request \<noteq> ToLower EN_LANGUAGE_TAG
        then (SendErrorIfUnicast request SERVICE_REPLY source LANGUAGE_NOT_SUPPORTED, s)
      else if rq_service_type request = [] then (SendErrorIfUnicast request SERVICE_REPLY source PARSE_ERROR, s)
      else if m_enable_da s \<and> rq_service_type request = DIRECTORY_AGENT_SERVICE
        then (MaybeSendDAAdvert ip_to_string request source s, s)
      else if \<not> m_enable_da s \<and> rq_service_type request = SERVICE_AGENT_SERVICE
        then (MaybeSendSAAdvert ip_to_string request source s, s)
      else if rq_scope_list request = [] then (SendErrorIfUnicast request SERVICE_REPLY source SCOPE_NOT_SUPPORTED, s)
      else
        let scope_set = ScopeSet (rq_scope_list request)
        in if \<not> Intersects scope_set (m_configured_scopes s)
           then (SendErrorIfUnicast request SERVICE_REPLY source SCOPE_NOT_SUPPORTED, s)
           else
             let (urls, store) = Lookup now scope_set (rq_service_type request) 0 (m_service_store s);
                 s1 = s\<lparr>m_service_store := store\<rparr>
             in (if urls = [] \<and> Multicast request then []
                 else [Sent source (ServiceReplyCall (p_xid request) (p_language request) 0 urls)], s1))"

definition HandleServiceRequest ::
    "('ip \<Rightarrow> string) \<Rightarrow> (string \<Rightarrow> 'ip option) \<Rightarrow> bool \<Rightarrow> TimeStamp \<Rightarrow> bytes \<Rightarrow> 'ip \<times> u16 \<Rightarrow> 'ip slp_server \<Rightarrow> 'ip handled" where
  "HandleServiceRequest ip_to_string ip_from_string big now data source s =
     (case UnpackServiceRequest ip_from_string big MemoryBuffer_Read MemoryBuffer_ReadString (MemoryBuffer data) of
        None \<Rightarrow>
          (case ExtractHeader big MemoryBuffer_Read MemoryBuffer_ReadString (MemoryBuffer data) of
             None \<Rightarrow> ([], s)
           | Some (slp_packet, _) \<Rightarrow> (SendErrorIfUnicast slp_packet SERVICE_REPLY source PARSE_ERROR, s))
      | Some (request, _) \<Rightarrow> HandleParsedRequest ip_to_string now request source s)"

text \<open>The callback that is registered for a reply is left in the map.\<close>

definition HandleServiceReply :: "service_reply_packet \<Rightarrow> 'ip \<times> u16 \<Rightarrow> 'ip slp_server \<Rightarrow> 'ip handled" where
  "HandleServiceReply srv_reply source s =
     (case map_of (m_pending_replies s) (p_xid srv_reply) of
        None \<Rightarrow> ([], s)
      | Some cb \<Rightarrow> ([RunReply cb (fst source) (rp_error_code srv_reply) (rp_url_entries srv_reply)], s))"

definition ServiceEntry_typed :: "scope_set \<Rightarrow> string \<Rightarrow> string \<Rightarrow> u16 \<Rightarrow> bool \<Rightarrow> service_entry" where
  "ServiceEntry_typed scopes service_type url lifetime is_local =
     \<lparr>m_local = is_local, m_url = \<lparr>url_string = url, url_lifetime = lifetime\<rparr>, m_service_type = service_type, m_scopes = scopes\<rparr>"

definition HandleServiceRegistration ::
    "TimeStamp \<Rightarrow> service_registration_packet \<Rightarrow> 'ip \<times> u16 \<Rightarrow> 'ip slp_server \<Rightarrow> 'ip handled" where
  "HandleServiceRegistration now srv_reg source s =
     (let scopes = ScopeSet (rg_scope_list srv_reg); ack = ServiceAckCall (p_xid srv_reg) (p_language srv_reg)
      in if \<not> m_enable_da s then ([], s)
         else if url_lifetime (rg_url srv_reg) = 0 then ([Sent source (ack (error_number INVALID_REGISTRATION))], s)
         else if \<not> IsSuperSet (m_configured_scopes s) scopes then ([Sent source (ack (error_number SCOPE_NOT_SUPPORTED))], s)
         else
           let service = ServiceEntry_typed scopes (rg_service_type srv_reg) (url_string (rg_url srv_reg)) (url_lifetime (rg_url srv_reg)) False;
               (error_code, store) = Insert_fresh now service (Fresh srv_reg) (m_service_store s)
           in ([Sent source (ack (error_number error_code))], s\<lparr>m_service_store := store\<rparr>))"

text \<open>The type of a service that is withdrawn is taken from its URL.\<close>

definition HandleServiceDeRegister :: "service_deregistration_packet \<Rightarrow> 'ip \<times> u16 \<Rightarrow> 'ip slp_server \<Rightarrow> 'ip handled" where
  "HandleServiceDeRegister srv_dereg source s =
     (let scopes = ScopeSet (dr_scope_list srv_dereg)
      in if \<not> m_enable_da s then ([], s)
         else
           let service = ServiceEntry scopes (url_string (dr_url srv_dereg)) 0 False;
               (ret, store) = Remove service (m_service_store s)
           in ([Sent source (ServiceAckCall (p_xid srv_dereg) (p_language srv_dereg) (error_number ret))],
               s\<lparr>m_service_store := store\<rparr>))"

definition HandleServiceAck :: "service_ack_packet \<Rightarrow> 'ip slp_server \<Rightarrow> 'ip handled" where
  "HandleServiceAck srv_ack s =
     (case map_of (m_pending_acks s) (p_xid srv_ack) of
        None \<Rightarrow> ([], s)
      | Some cb \<Rightarrow>
          ([RunAck cb (ack_error_code srv_ack)], s\<lparr>m_pending_acks := map_erase (p_xid srv_ack) (m_pending_acks s)\<rparr>))"

definition HandleDAAdvert ::
    "(string \<Rightarrow> 'ip option) \<Rightarrow> da_advert_packet \<Rightarrow> 'ip :: linorder \<times> u16 \<Rightarrow> 'ip slp_server \<Rightarrow> 'ip handled" where
  "HandleDAAdvert ip_from_string da_advert source s =
     (if da_error_code da_advert \<noteq> 0 then ([], s)
      else
        let s1 = s\<lparr>m_outstanding_da_discovery := map_option (AddPR (fst source)) (m_outstanding_da_discovery s)\<rparr>;
            (runs, tracker) = NewDAAdvert ip_from_string da_advert (m_da_tracker s1)
        in (map (\<lambda>(cb, agent). RunNewDA cb agent) runs, s1\<lparr>m_da_tracker := tracker\<rparr>))"

definition HandleServiceTypeRequest :: "'ip service_type_request_packet \<Rightarrow> 'ip \<times> u16 \<Rightarrow> 'ip slp_server \<Rightarrow> 'ip handled" where
  "HandleServiceTypeRequest request source s =
     (if InPRList (st_pr_list request) s then ([], s)
      else
        let scopes = ScopeSet (st_scope_list request)
        in if \<not> Intersects scopes (m_configured_scopes s)
           then (SendErrorIfUnicast request SERVICE_TYPE_REPLY source SCOPE_NOT_SUPPORTED, s)
           else
             let service_types =
                   (if st_include_all request then GetAllServiceTypes scopes (m_service_store s)
                    else GetServiceTypesByNamingAuth (st_naming_authority request) scopes (m_service_store s))
             in (if service_types = [] \<and> Multicast request then []
                 else [Sent source (ServiceTypeReplyCall (p_xid request) (error_number SLP_OK) (sort service_types))], s))"

text \<open>The handler of each kind of packet; requests that cannot be parsed are answered.\<close>

definition handle_packet ::
    "('ip \<Rightarrow> string) \<Rightarrow> (string \<Rightarrow> 'ip option) \<Rightarrow> bool \<Rightarrow> TimeStamp \<Rightarrow> bytes \<Rightarrow> 'ip :: linorder \<times> u16 \<Rightarrow> 'ip slp_server \<Rightarrow> 'ip handled" where
  "handle_packet ip_to_string ip_from_string big now packet source s =
     (if DetermineFunctionID packet = SERVICE_REQUEST
      then HandleServiceRequest ip_to_string ip_from_string big now packet source s
      else case read_packet ip_from_string big packet of
             Some (ServiceReply srv_reply) \<Rightarrow> HandleServiceReply srv_reply source s
           | Some (ServiceRegistration srv_reg) \<Rightarrow> HandleServiceRegistration now srv_reg source s
           | Some (ServiceDeRegistration srv_dereg) \<Rightarrow> HandleServiceDeRegister srv_dereg source s
           | Some (ServiceAck srv_ack) \<Rightarrow> HandleServiceAck srv_ack s
           | Some (Advert da_advert) \<Rightarrow> HandleDAAdvert ip_from_string da_advert source s
           | Some (ServiceTypeRequest request) \<Rightarrow> HandleServiceTypeRequest request source s
           | Some (ServiceRequest request) \<Rightarrow> ([], s)
           | None \<Rightarrow> ([], s))"

text \<open>The whole handler reads at most \<open>PACKET_SIZE\<close> bytes of a datagram.\<close>

definition HandleUDPData ::
    "('ip \<Rightarrow> string) \<Rightarrow> (string \<Rightarrow> 'ip option) \<Rightarrow> bool \<Rightarrow> TimeStamp \<Rightarrow> bytes \<Rightarrow> 'ip :: linorder \<times> u16 \<Rightarrow> 'ip slp_server \<Rightarrow> 'ip handled" where
  "HandleUDPData ip_to_string ip_from_string big now datagram source s =
     handle_packet ip_to_string ip_from_string big now (take PACKET_SIZE datagram) source s"

definition CleanSLPStore :: "TimeStamp \<Rightarrow> 'ip slp_server \<Rightarrow> 'ip slp_server" where
  "CleanSLPStore now s = s\<lparr>m_service_store := Clean now (m_service_store s)\<rparr>"

definition DumpStore :: "TimeStamp \<Rightarrow> 'ip slp_server \<Rightarrow> 'ip slp_server" where
  "DumpStore now s = s\<lparr>m_service_store := Dump now (m_service_store s)\<rparr>"

section \<open>Runs\<close>

datatype 'ip slp_event = Datagram bytes "'ip \<times> u16" | CleanTimer | DumpRequest

fun run_event ::
    "('ip \<Rightarrow> string) \<Rightarrow> (string \<Rightarrow> 'ip option) \<Rightarrow> bool \<Rightarrow> TimeStamp \<Rightarrow> 'ip :: linorder slp_event \<Rightarrow> 'ip slp_server \<Rightarrow> 'ip handled" where
  "run_event its ifs big now (Datagram packet source) s = HandleUDPData its ifs big now packet source s"
| "run_event its ifs big now CleanTimer s = ([], CleanSLPStore now s)"
| "run_event its ifs big now DumpRequest s = ([], DumpStore now s)"

fun run_events ::
    "('ip \<Rightarrow> string) \<Rightarrow> (string \<Rightarrow> 'ip option) \<Rightarrow> bool \<Rightarrow> (TimeStamp \<times> 'ip :: linorder slp_event) list \<Rightarrow> 'ip slp_server \<Rightarrow>
      'ip slp_effect list list \<times> 'ip slp_server" where
  "run_events its ifs big [] s = ([], s)"
| "run_events its ifs big ((now, e) # es) s =
     (let (out, s1) = run_event its ifs big now e s; (outs, s2) = run_events its ifs big es s1 in (out # outs, s2))"

section \<open>What an event does to the server\<close>

text \<open>The configuration of a server, which no event changes.\<close>

definition same_server :: "'ip slp_server \<Rightarrow> 'ip slp_server \<Rightarrow> bool" where
  "same_server s s' \<longleftrightarrow> m_enable_da s' = m_enable_da s \<and> m_configured_scopes s' = m_configured_scopes s \<and>
     m_iface_address s' = m_iface_address s \<and> m_boot_time s' = m_boot_time s"

text \<open>The events that withdraw a URL.\<close>

fun deregisters :: "(string \<Rightarrow> 'ip option) \<Rightarrow> bool \<Rightarrow> string \<Rightarrow> 'ip slp_event \<Rightarrow> bool" where
  "deregisters ifs big url (Datagram packet source) \<longleftrightarrow>
     (case UDPData ifs big packet of Some (ServiceDeRegistration p) \<Rightarrow> url_string (dr_url p) = url | _ \<Rightarrow> False)"
| "deregisters ifs big url e \<longleftrightarrow> False"

text \<open>An event is at most one operation of the store.\<close>

definition store_step :: "TimeStamp \<Rightarrow> (string \<Rightarrow> bool) \<Rightarrow> slp_store \<Rightarrow> slp_store \<Rightarrow> bool" where
  "store_step now gone m m' \<longleftrightarrow>
     m' = m \<or> (\<exists>c out. run_store now c m = (out, m') \<and> (\<forall>e. removes e c \<longrightarrow> gone (e_url e)))"

lemma store_step_refl [simp]: "store_step now gone m m"
  by (simp add: store_step_def)

lemma same_server_refl [simp]: "same_server s s"
  by (simp add: same_server_def)

lemma same_server_trans: "same_server s s' \<Longrightarrow> same_server s' s'' \<Longrightarrow> same_server s s''"
  by (simp add: same_server_def)

lemma store_step_run: "run_store now c m = (out, m') \<Longrightarrow> \<forall>e. removes e c \<longrightarrow> gone (e_url e) \<Longrightarrow> store_step now gone m m'"
  unfolding store_step_def by blast

lemma HandleParsedRequest_store:
  assumes "HandleParsedRequest its now request source s = (out, s')"
  shows "same_server s s' \<and> store_step now gone (m_service_store s) (m_service_store s')"
proof -
  have look: "store_step now gone m m'" if "Lookup now sc ty 0 m = (urls, m')" for sc ty m urls m'
    using that by (intro store_step_run [of _ "LookupOp sc ty 0"]) simp_all
  show ?thesis using assms look
    by (auto simp: HandleParsedRequest_def Let_def same_server_def split: if_splits prod.splits)
qed

lemma HandleServiceRegistration_store:
  assumes "HandleServiceRegistration now srv_reg source s = (out, s')"
  shows "same_server s s' \<and> store_step now gone (m_service_store s) (m_service_store s')"
proof -
  have ins: "store_step now gone m m'" if "Insert_fresh now e fresh m = (code, m')" for e fresh m code m'
    using that by (intro store_step_run [of _ "InsertOp e fresh"]) simp_all
  show ?thesis using assms ins
    by (auto simp: HandleServiceRegistration_def Let_def same_server_def split: if_splits prod.splits)
qed

lemma HandleServiceDeRegister_store:
  assumes "HandleServiceDeRegister srv_dereg source s = (out, s')"
  shows "same_server s s' \<and> store_step now (\<lambda>url. url_string (dr_url srv_dereg) = url) (m_service_store s) (m_service_store s')"
proof -
  have rem: "store_step now (\<lambda>url. url_string (dr_url srv_dereg) = url) m m'"
    if "Remove (ServiceEntry sc (url_string (dr_url srv_dereg)) 0 False) m = (code, m')" for sc m code m'
    using that by (intro store_step_run [of _ "RemoveOp (ServiceEntry sc (url_string (dr_url srv_dereg)) 0 False)"])
      (simp_all add: ServiceEntry_def)
  show ?thesis using assms rem
    by (auto simp: HandleServiceDeRegister_def Let_def same_server_def split: if_splits prod.splits)
qed

lemma run_event_store:
  assumes "run_event its ifs big now e s = (out, s')"
  shows "same_server s s' \<and> store_step now (\<lambda>url. deregisters ifs big url e) (m_service_store s) (m_service_store s')"
proof (cases e)
  case (Datagram datagram source)
  define packet where "packet = take PACKET_SIZE datagram"
  have H: "handle_packet its ifs big now packet source s = (out, s')" using assms Datagram by (simp add: HandleUDPData_def packet_def)
  show ?thesis
  proof (cases "DetermineFunctionID packet = SERVICE_REQUEST")
    case True
    then show ?thesis using H HandleParsedRequest_store [of its now _ source s out s']
      by (auto simp: handle_packet_def HandleServiceRequest_def split: option.splits prod.splits)
  next
    case False
    then have "handle_packet its ifs big now packet source s = (case read_packet ifs big packet of
             Some (ServiceReply srv_reply) \<Rightarrow> HandleServiceReply srv_reply source s
           | Some (ServiceRegistration srv_reg) \<Rightarrow> HandleServiceRegistration now srv_reg source s
           | Some (ServiceDeRegistration srv_dereg) \<Rightarrow> HandleServiceDeRegister srv_dereg source s
           | Some (ServiceAck srv_ack) \<Rightarrow> HandleServiceAck srv_ack s
           | Some (Advert da_advert) \<Rightarrow> HandleDAAdvert ifs da_advert source s
           | Some (ServiceTypeRequest request) \<Rightarrow> HandleServiceTypeRequest request source s
           | Some (ServiceRequest request) \<Rightarrow> ([], s)
           | None \<Rightarrow> ([], s))" by (simp add: handle_packet_def)
    note H' = H [unfolded this]
    show ?thesis
    proof (cases "read_packet ifs big packet")
      case None
      then show ?thesis using H' by simp
    next
      case (Some r)
      show ?thesis
      proof (cases r)
        case (ServiceRegistration p)
        then show ?thesis using H' Some HandleServiceRegistration_store [of now p source s out s'] by simp
      next
        case (ServiceDeRegistration p)
        then show ?thesis using H' Some HandleServiceDeRegister_store [of p source s out s' now] Datagram
          by (simp add: UDPData_def packet_def)
      qed (use H' Some in \<open>auto simp: HandleServiceReply_def HandleServiceAck_def HandleDAAdvert_def HandleServiceTypeRequest_def
             same_server_def Let_def split: option.splits if_splits prod.splits\<close>)
    qed
  qed
next
  case CleanTimer
  have "run_store now CleanOp m = (Silent, Clean now m)" for m by simp
  then show ?thesis using assms CleanTimer store_step_run [of now CleanOp] by (auto simp: CleanSLPStore_def same_server_def)
next
  case DumpRequest
  have "run_store now DumpOp m = (Silent, Dump now m)" for m by simp
  then show ?thesis using assms DumpRequest store_step_run [of now DumpOp] by (auto simp: DumpStore_def same_server_def)
qed

lemma store_step_cleaned:
  assumes "store_step now gone m m'" "cleaned_before now m" "normal now"
  shows "cleaned_before now m'"
  using assms run_store_cleaned [OF assms(2,3)] by (auto simp: store_step_def)

lemma store_step_keeps:
  assumes "store_step now gone m m'" "cleaned_before now m" "normal now" "in_store e x m" "micros now < x" "\<not> gone (e_url e)"
  shows "in_store e x m'"
  using assms run_store_keeps [OF assms(2,3) _ assms(4,5)] by (auto simp: store_step_def)

definition timed_events :: "TimeStamp \<Rightarrow> (TimeStamp \<times> 'ip slp_event) list \<Rightarrow> bool" where
  "timed_events now es \<longleftrightarrow> sorted (map micros (now # map fst es)) \<and> (\<forall>(t, e) \<in> set es. normal t)"

lemma run_events_append:
  "run_events its ifs big (es @ fs) s =
    (let (outs, s1) = run_events its ifs big es s; (more, s2) = run_events its ifs big fs s1 in (outs @ more, s2))"
  by (induction its ifs big es s rule: run_events.induct) (auto simp: Let_def split: prod.splits)

lemma length_run_events: "run_events its ifs big es s = (outs, s') \<Longrightarrow> length outs = length es"
  by (induction its ifs big es s arbitrary: outs rule: run_events.induct) (auto simp: Let_def split: prod.splits)

lemma run_events_invariant:
  assumes "run_events its ifs big es s = (outs, s')" "cleaned_before now (m_service_store s)" "timed_events now (es @ [(t, e)])"
  shows "cleaned_before t (m_service_store s') \<and> same_server s s'"
  using assms
proof (induction its ifs big es s arbitrary: outs now rule: run_events.induct)
  case (1 its ifs big s)
  then show ?case using cleaned_before_mono by (simp add: timed_events_def)
next
  case (2 its ifs big t1 e1 es s)
  obtain out s1 outs1 where r: "run_event its ifs big t1 e1 s = (out, s1)" "run_events its ifs big es s1 = (outs1, s')"
    using "2.prems"(1) by (auto simp: Let_def split: prod.splits)
  have t: "micros now \<le> micros t1" "normal t1" "timed_events t1 (es @ [(t, e)])" using "2.prems"(3) by (auto simp: timed_events_def)
  have step: "same_server s s1" "store_step t1 (\<lambda>url. deregisters ifs big url e1) (m_service_store s) (m_service_store s1)"
    using run_event_store [OF r(1)] by simp_all
  note "2.IH" [OF r(1) [symmetric] refl r(2) store_step_cleaned [OF step(2) cleaned_before_mono [OF "2.prems"(2) t(1)] t(2)] t(3)]
  then show ?case using same_server_trans [OF step(1)] by blast
qed

lemma run_events_keeps:
  assumes "run_events its ifs big es s = (outs, s')" "cleaned_before now (m_service_store s)" "timed_events now (es @ [(t, e)])"
    and "in_store a x (m_service_store s)" "micros t < x" "\<forall>(t, e) \<in> set es. \<not> deregisters ifs big (e_url a) e"
  shows "in_store a x (m_service_store s')"
  using assms
proof (induction its ifs big es s arbitrary: outs now rule: run_events.induct)
  case (2 its ifs big t1 e1 es s)
  obtain out s1 outs1 where r: "run_event its ifs big t1 e1 s = (out, s1)" "run_events its ifs big es s1 = (outs1, s')"
    using "2.prems"(1) by (auto simp: Let_def split: prod.splits)
  have t: "micros now \<le> micros t1" "normal t1" "timed_events t1 (es @ [(t, e)])" "micros t1 < x"
    using "2.prems"(3,5) by (auto simp: timed_events_def)
  have step: "store_step t1 (\<lambda>url. deregisters ifs big url e1) (m_service_store s) (m_service_store s1)"
    using run_event_store [OF r(1)] by simp
  note before = cleaned_before_mono [OF "2.prems"(2) t(1)]
  have "in_store a x (m_service_store s1)"
    using store_step_keeps [OF step before t(2) "2.prems"(4) t(4)] "2.prems"(6) by simp
  then show ?case
    using "2.IH" [OF r(1) [symmetric] refl r(2) store_step_cleaned [OF step before t(2)] t(3)] "2.prems"(5,6) by simp
qed simp

section \<open>From registration to answer\<close>

lemma handle_packet_message:
  assumes "address_text its ifs" "message_short its m"
  shows "handle_packet its ifs big now (enc_message its m @ rest) source s =
    (case received_as (\<lambda>ips. ips) m of
             ServiceReply srv_reply \<Rightarrow> HandleServiceReply srv_reply source s
           | ServiceRegistration srv_reg \<Rightarrow> HandleServiceRegistration now srv_reg source s
           | ServiceDeRegistration srv_dereg \<Rightarrow> HandleServiceDeRegister srv_dereg source s
           | ServiceAck srv_ack \<Rightarrow> HandleServiceAck srv_ack s
           | Advert da_advert \<Rightarrow> HandleDAAdvert ifs da_advert source s
           | ServiceTypeRequest request \<Rightarrow> HandleServiceTypeRequest request source s
           | ServiceRequest request \<Rightarrow> HandleParsedRequest its now request source s)"
proof -
  have U: "read_packet ifs big (enc_message its m @ rest) = Some (received_as (\<lambda>ips. ips) m)"
    using read_packet_message [OF assms(2), of ifs big rest] address_list_roundtrip [OF assms(1)] by simp
  note F = function_of_message [of its m rest]
  show ?thesis
  proof (cases "message_function m = SERVICE_REQUEST")
    case True
    then obtain request where R: "received_as (\<lambda>ips. ips) m = ServiceRequest request" by (cases m) (auto simp: function_ids)
    then have "map_option fst (UnpackServiceRequest ifs big MemoryBuffer_Read MemoryBuffer_ReadString
        (MemoryBuffer (enc_message its m @ rest))) = Some request"
      using U True F by (auto simp: read_packet_def Let_def)
    then show ?thesis using True F R by (auto simp: handle_packet_def HandleServiceRequest_def)
  next
    case False
    then show ?thesis using U F by (cases m) (simp_all add: handle_packet_def del: enc_message.simps)
  qed
qed

lemma HandleUDPData_message:
  assumes "address_text its ifs" "length (enc_message its m) \<le> PACKET_SIZE"
  shows "HandleUDPData its ifs big now (enc_message its m @ rest) source s =
    (case received_as (\<lambda>ips. ips) m of
             ServiceReply srv_reply \<Rightarrow> HandleServiceReply srv_reply source s
           | ServiceRegistration srv_reg \<Rightarrow> HandleServiceRegistration now srv_reg source s
           | ServiceDeRegistration srv_dereg \<Rightarrow> HandleServiceDeRegister srv_dereg source s
           | ServiceAck srv_ack \<Rightarrow> HandleServiceAck srv_ack s
           | Advert da_advert \<Rightarrow> HandleDAAdvert ifs da_advert source s
           | ServiceTypeRequest request \<Rightarrow> HandleServiceTypeRequest request source s
           | ServiceRequest request \<Rightarrow> HandleParsedRequest its now request source s)"
  using handle_packet_message [OF assms(1) short_message [OF assms(2)], of big now "take (PACKET_SIZE - length (enc_message its m)) rest"]
    assms(2) by (simp add: HandleUDPData_def del: enc_message.simps)

lemma error_number_0: "error_number code = 0 \<longleftrightarrow> code = SLP_OK"
  by (cases code) simp_all

lemma registration_acknowledged:
  assumes "HandleServiceRegistration now p source s = ([Sent source (ServiceAckCall xid language 0)], s')"
    and "cleaned_before now (m_service_store s)" "normal now"
  defines "scopes \<equiv> ScopeSet (rg_scope_list p)"
  shows "IsSuperSet (m_configured_scopes s) scopes \<and> cleaned_before now (m_service_store s') \<and>
    in_store (ServiceEntry_typed scopes (rg_service_type p) (url_string (rg_url p)) (url_lifetime (rg_url p)) False)
      (micros now + (uint (url_lifetime (rg_url p)) - 1) * USEC_IN_SECONDS) (m_service_store s')"
proof -
  let ?e = "ServiceEntry_typed scopes (rg_service_type p) (url_string (rg_url p)) (url_lifetime (rg_url p)) False"
  obtain code m where m: "Insert_fresh now ?e (Fresh p) (m_service_store s) = (code, m)" by fastforce
  note H = assms(1) [unfolded HandleServiceRegistration_def Let_def, folded scopes_def, unfolded m]
  have facts: "IsSuperSet (m_configured_scopes s) scopes" "error_number code = 0" "s' = s\<lparr>m_service_store := m\<rparr>"
    using H by (auto split: if_splits)
  note I = Insert_in_store [OF assms(2,3) m]
  show ?thesis using facts I(1) I(3) error_number_0 by (simp add: ServiceEntry_typed_def)
qed

lemma request_answered:
  assumes "HandleParsedRequest its now request source s = (out, s')"
    and "cleaned_before now (m_service_store s)" "normal now" "in_store e x (m_service_store s)" "micros now < x"
    and "m_iface_address s \<notin> set (rq_pr_list request)" "rq_predicate request = []" "rq_spi request = []"
    and "rq_service_type request \<notin> {[], DIRECTORY_AGENT_SERVICE, SERVICE_AGENT_SERVICE}"
    and "SLPGetCanonicalString (rq_service_type request) = m_service_type e"
    and "Intersects (m_scopes e) (ScopeSet (rq_scope_list request))"
    and "Intersects (ScopeSet (rq_scope_list request)) (m_configured_scopes s)"
  shows "\<exists>urls. out = [Sent source (ServiceReplyCall (p_xid request) (p_language request) 0 urls)] \<and> e_url e \<in> url_string ` set urls"
proof -
  let ?sc = "ScopeSet (rq_scope_list request)"
  obtain urls m where L: "Lookup now ?sc (rq_service_type request) 0 (m_service_store s) = (urls, m)" by fastforce
  have "e_url e \<in> url_string ` set urls" using Lookup_in_store(3) [OF assms(2,3) L assms(4,5)] assms(10,11) by blast
  moreover from this have "urls \<noteq> []" by auto
  moreover have "?sc \<noteq> []" using assms(12) by auto
  then have "rq_scope_list request \<noteq> []" by (auto simp: ScopeSet_filter StringSplit_no_delim)
  ultimately show ?thesis using assms(1,6-9,12) L by (auto simp: HandleParsedRequest_def InPRList_def)
qed

text \<open>The entry that a server makes of a registration.\<close>

abbreviation registered_entry :: "scope_set \<Rightarrow> service_entry \<Rightarrow> service_entry" where
  "registered_entry scopes e \<equiv>
     ServiceEntry_typed scopes (SLPStringUnescape (m_service_type e)) (SLPStringUnescape (e_url e)) (e_lifetime e) False"

lemma registration_event:
  assumes "address_text its ifs" "length (enc_message its (SrvReg xid fresh scopes e)) \<le> PACKET_SIZE" "scopes_ok scopes" "[] \<notin> set scopes"
    and "run_event its ifs big now (Datagram (enc_message its (SrvReg xid fresh scopes e) @ rest) source) s =
      ([Sent source (ServiceAckCall xid EN_LANGUAGE_TAG 0)], s')"
    and "cleaned_before now (m_service_store s)" "normal now"
  shows "IsSuperSet (m_configured_scopes s) scopes \<and> cleaned_before now (m_service_store s') \<and>
    in_store (registered_entry scopes e) (micros now + (uint (e_lifetime e) - 1) * USEC_IN_SECONDS) (m_service_store s')"
proof -
  have "HandleServiceRegistration now
      \<lparr>p_xid = xid, p_flags = (if fresh then SLP_FRESH else 0), p_language = EN_LANGUAGE_TAG,
      rg_url = unescaped_url (m_url e), rg_service_type = SLPStringUnescape (m_service_type e),
      rg_scope_list = AsEscapedString scopes, rg_attr_list = []\<rparr> source s =
      ([Sent source (ServiceAckCall xid EN_LANGUAGE_TAG 0)], s')"
    using assms(5) HandleUDPData_message [OF assms(1,2)] by (simp del: enc_message.simps)
  from registration_acknowledged [OF this assms(6,7)] show ?thesis
    using scope_text_roundtrip [OF assms(3,4)] by simp
qed

lemma request_event:
  assumes "address_text its ifs"
      "length (enc_message its (SrvRqst xid multicast language pr_list service_type scopes [])) \<le> PACKET_SIZE"
    and "run_event its ifs big now
        (Datagram (enc_message its (SrvRqst xid multicast language pr_list service_type scopes []) @ rest) source) s = (out, s')"
    and "cleaned_before now (m_service_store s)" "normal now" "in_store e x (m_service_store s)" "micros now < x"
    and "scopes_ok scopes" "[] \<notin> set scopes" "Intersects (m_scopes e) scopes" "Intersects scopes (m_configured_scopes s)"
    and "m_iface_address s \<notin> set pr_list"
      "SLPStringUnescape service_type \<notin> {[], DIRECTORY_AGENT_SERVICE, SERVICE_AGENT_SERVICE}"
      "SLPGetCanonicalString (SLPStringUnescape service_type) = m_service_type e"
  shows "\<exists>urls. out = [Sent source (ServiceReplyCall xid (SLPStringUnescape language) 0 urls)] \<and> e_url e \<in> url_string ` set urls"
proof -
  have "HandleParsedRequest its now
     \<lparr>p_xid = xid, p_flags = mcast_flag multicast, p_language = SLPStringUnescape language, rq_pr_list = pr_list,
      rq_service_type = SLPStringUnescape service_type, rq_scope_list = AsEscapedString scopes,
      rq_predicate = SLPStringUnescape [], rq_spi = []\<rparr> source s = (out, s')"
    using assms(3) HandleUDPData_message [OF assms(1,2)] by (simp del: enc_message.simps)
  from request_answered [OF this assms(4-7)] show ?thesis
    using assms(10-14) scope_text_roundtrip [OF assms(8,9)] by (simp add: SLPStringUnescape_eq)
qed

text \<open>C21: A service that is registered is found. A server starts with an empty store, and events come at times that do not
  decrease. When it acknowledges the datagram of a registration without an error then, whatever datagrams and timers came
  before and come after it, as long as none withdraws the URL, it answers a later service request with a reply that holds
  the URL, until one second before the lifetime of the service has passed. The request is for a type whose canonical form
  is the type of the registration, which must therefore be canonical itself; the requested type is not empty and not the type
  of directory or service agents; the request has no predicate, does not name the address of the server among the previous
  responders and shares a scope with the registration. Both packets fit into the 1500 bytes the server receives, their
  scopes are not empty strings, and the text of addresses can be read back.\<close>

theorem registered_service_answered:
  assumes server: "m_service_store s = []" "scopes_ok (m_configured_scopes s)"
    and addr: "address_text its ifs"
    and events: "es = before @ [(t0, Datagram (enc_message its (SrvReg xid fresh scopes e) @ rest0) source)] @ after @
        [(t, Datagram (enc_message its (SrvRqst xid' multicast language pr_list service_type scopes' []) @ rest) source')]"
    and run: "run_events its ifs big es s = (outs, s')" and time: "timed_events now es"
    and short: "length (enc_message its (SrvReg xid fresh scopes e)) \<le> PACKET_SIZE"
      "length (enc_message its (SrvRqst xid' multicast language pr_list service_type scopes' [])) \<le> PACKET_SIZE"
    and ack: "outs ! length before = [Sent source (ServiceAckCall xid EN_LANGUAGE_TAG 0)]"
    and kept: "\<forall>(t, ev) \<in> set after. \<not> deregisters ifs big (SLPStringUnescape (e_url e)) ev"
    and alive: "micros t < micros t0 + (uint (e_lifetime e) - 1) * USEC_IN_SECONDS"
    and scopes: "scopes_ok scopes" "[] \<notin> set scopes" "scopes_ok scopes'" "[] \<notin> set scopes'" "set scopes \<inter> set scopes' \<noteq> {}"
    and req: "m_iface_address s \<notin> set pr_list"
      "SLPStringUnescape service_type \<notin> {[], DIRECTORY_AGENT_SERVICE, SERVICE_AGENT_SERVICE}"
      "SLPGetCanonicalString (SLPStringUnescape service_type) = SLPStringUnescape (m_service_type e)"
  shows "\<exists>urls. last outs = [Sent source' (ServiceReplyCall xid' (SLPStringUnescape language) 0 urls)] \<and>
    SLPStringUnescape (e_url e) \<in> url_string ` set urls"
proof -
  let ?reg = "Datagram (enc_message its (SrvReg xid fresh scopes e) @ rest0) source"
  let ?rq = "Datagram (enc_message its (SrvRqst xid' multicast language pr_list service_type scopes' []) @ rest) source'"
  let ?e = "registered_entry scopes e"
  have e: "e_url ?e = SLPStringUnescape (e_url e)" "m_scopes ?e = scopes" "m_service_type ?e = SLPStringUnescape (m_service_type e)"
    by (simp_all add: ServiceEntry_typed_def)
  obtain o1 s1 where r1: "run_events its ifs big before s = (o1, s1)" by fastforce
  obtain o2 s2 where r2: "run_event its ifs big t0 ?reg s1 = (o2, s2)" by fastforce
  obtain o3 s3 where r3: "run_events its ifs big after s2 = (o3, s3)" by fastforce
  obtain o4 s4 where r4: "run_event its ifs big t ?rq s3 = (o4, s4)" by fastforce
  have outs: "outs = o1 @ o2 # o3 @ [o4]"
    using run unfolding events by (simp add: run_events_append r1 r2 r3 r4 Let_def del: run_event.simps enc_message.simps)
  have o2: "o2 = [Sent source (ServiceAckCall xid EN_LANGUAGE_TAG 0)]"
    using ack length_run_events [OF r1] by (simp add: outs nth_append)
  have times: "timed_events now (before @ [(t0, ?reg)])" "timed_events t0 (after @ [(t, ?rq)])" "normal t0" "normal t"
    using time by (auto simp: timed_events_def sorted_append events)
  have "cleaned_before now (m_service_store s)" by (simp add: cleaned_before_def server(1))
  note i1 = run_events_invariant [OF r1 this times(1)]
  note reg = registration_event [OF addr short(1) scopes(1,2) r2 [unfolded o2] conjunct1 [OF i1] times(3)]
  note i3 = run_events_invariant [OF r3 conjunct1 [OF conjunct2 [OF reg]] times(2)]
  have in3: "in_store ?e (micros t0 + (uint (e_lifetime e) - 1) * USEC_IN_SECONDS) (m_service_store s3)"
    using run_events_keeps [OF r3 _ times(2) _ alive, of ?e] reg kept by (simp add: e)
  have same: "same_server s s1" "same_server s s3"
    using i1 i3 run_event_store [OF r2] same_server_trans by blast+
  then have conf: "m_configured_scopes s3 = m_configured_scopes s" "m_iface_address s3 = m_iface_address s"
    "set scopes \<subseteq> set (m_configured_scopes s)"
    using reg scope_operations(1) [OF server(2) scopes(1)] by (simp_all add: same_server_def)
  have "Intersects scopes scopes'" "Intersects scopes' (m_configured_scopes s)"
    using scope_operations(2) [OF scopes(1,3)] scope_operations(2) [OF scopes(3) server(2)] scopes(5) conf(3) by blast+
  then show ?thesis
    using request_event [OF addr short(2) r4 conjunct1 [OF i3] times(4) in3 alive scopes(3,4)] req conf(1,2) unfolding e outs by simp
qed

definition example_server :: "bool slp_server" where
  "example_server =
     \<lparr>m_enable_da = True, m_configured_scopes = [''default'', ''stage''], m_iface_address = True,
      m_boot_time = TimeStamp (Timeval 0 0), m_service_store = [], m_da_tracker = DATracker, m_pending_acks = [],
      m_pending_replies = [], m_outstanding_da_discovery = None\<rparr>"

definition example_registration :: "string \<Rightarrow> bool slp_event" where
  "example_registration url =
     Datagram (enc_message two_ips (SrvReg 5 True [''stage''] (ServiceEntry_typed [''stage''] ''rdmnet'' url 10 False)) @ []) (False, 427)"

definition example_events :: "(TimeStamp \<times> bool slp_event) list" where
  "example_events =
     [] @ [(TimeStamp (Timeval 1 0), example_registration ''rdmnet://a'')] @
     [(TimeStamp (Timeval 2 0), example_registration ''rdmnet://b''), (TimeStamp (Timeval 4 0), CleanTimer)] @
     [(TimeStamp (Timeval 9 999999),
       Datagram (enc_message two_ips (SrvRqst 6 True ''en'' [False] ''RDMNet'' [''other'', ''stage''] []) @ []) (False, 427))]"

lemma registered_service_answered_witness:
  "\<exists>urls. last (fst (run_events two_ips two_ips_from True example_events example_server)) =
      [Sent (False, 427) (ServiceReplyCall 6 ''en'' 0 urls)] \<and> ''rdmnet://a'' \<in> url_string ` set urls"
proof -
  let ?e = "ServiceEntry_typed [''stage''] ''rdmnet'' ''rdmnet://a'' 10 False"
  let ?b = "example_registration ''rdmnet://b''"
  have ack: "fst (run_events two_ips two_ips_from True example_events example_server) ! length ([] :: (TimeStamp \<times> bool slp_event) list) =
    [Sent (False, 427) (ServiceAckCall 5 EN_LANGUAGE_TAG 0)]" by code_simp
  have b: "\<not> deregisters two_ips_from True (SLPStringUnescape (e_url ?e)) ?b" by code_simp
  have texts: "AsEscapedString [''stage''] = ''stage''" "AsEscapedString [''other'', ''stage''] = ''other,stage''"
    "StringJoin_ips two_ips [False] = ''10.0.0.2''" "SLPStringUnescape ''en'' = ''en''" "SLPStringUnescape (e_url ?e) = ''rdmnet://a''"
    by code_simp+
  have short: "length (enc_message two_ips (SrvReg 5 True [''stage''] ?e)) \<le> PACKET_SIZE"
    "length (enc_message two_ips (SrvRqst 6 True ''en'' [False] ''RDMNet'' [''other'', ''stage''] [])) \<le> PACKET_SIZE"
    by code_simp+
  have scopes: "scopes_ok (m_configured_scopes example_server)" "scopes_ok [''stage'']" "scopes_ok [''other'', ''stage'']" by code_simp+
  have types: "SLPStringUnescape ''RDMNet'' \<notin> {[], DIRECTORY_AGENT_SERVICE, SERVICE_AGENT_SERVICE}"
    "SLPGetCanonicalString (SLPStringUnescape ''RDMNet'') = SLPStringUnescape (m_service_type ?e)" by code_simp+
  have "timed_events (TimeStamp (Timeval 0 0)) example_events"
    by (simp add: timed_events_def example_events_def AsInt_def tv_norm_def USEC_IN_SECONDS_def)
  from registered_service_answered [OF _ scopes(1) two_ips_text
      example_events_def [unfolded example_registration_def [of "''rdmnet://a''"]] surjective_pairing this short ack _ _ scopes(2) _ scopes(3) _ _ _ types]
  show ?thesis using b texts by (simp add: example_server_def AsInt_def USEC_IN_SECONDS_def ServiceEntry_typed_def)
qed

section \<open>Types that are not canonical\<close>

lemma Lookup_other_type:
  assumes "SLPGetCanonicalString t \<noteq> m_service_type a" "Insert_fresh now a fresh m = (code, m')" "map_ok m"
  shows "fst (Lookup now' scopes t limit m') = fst (Lookup now' scopes t limit m)"
proof -
  obtain sl m1 where L: "insert_list now (m_service_type a) m = (sl, m1)" by fastforce
  have "map_of m1 x = map_of m x" if "x \<noteq> m_service_type a" for x
    using L that assms(3) by (auto simp: insert_list_def Populate_def Let_def split: option.splits)
  then show ?thesis
    using assms(1,2) L by (auto simp: Insert_fresh_eq Lookup_def Let_def map_of_map_set split: prod.splits option.splits)
qed

text \<open>C37: A registration under a type that is not in canonical form is not found, although it is acknowledged. When a directory
  agent that holds no service of that type handles a fresh registration in scopes it serves, with a lifetime other than
  zero, it acknowledges it without an error, and its answer to any service request that comes next is the answer it
  would have given before. Registrations keep the type as it is in the packet, and service requests are made canonical.
  Requests for the list of service types, which are not made canonical, are not part of the statement.\<close>

theorem uncanonical_registration_unanswered:
  assumes "m_enable_da s" "url_lifetime (rg_url p) \<noteq> 0" "IsSuperSet (m_configured_scopes s) (ScopeSet (rg_scope_list p))"
    and "SLPGetCanonicalString (rg_service_type p) \<noteq> rg_service_type p"
    and "map_ok (m_service_store s)" "map_of (m_service_store s) (rg_service_type p) = None" "Fresh p"
  shows "\<exists>s'. HandleServiceRegistration now p source s = ([Sent source (ServiceAckCall (p_xid p) (p_language p) 0)], s') \<and>
    (\<forall>now' request source'. fst (HandleParsedRequest its now' request source' s') = fst (HandleParsedRequest its now' request source' s))"
proof -
  let ?e = "ServiceEntry_typed (ScopeSet (rg_scope_list p)) (rg_service_type p) (url_string (rg_url p)) (url_lifetime (rg_url p)) False"
  obtain code m where m: "Insert_fresh now ?e (Fresh p) (m_service_store s) = (code, m)" by fastforce
  have "code = SLP_OK" using m assms(6,7)
    by (auto simp: Insert_fresh_def ServiceEntry_typed_def Populate_def InsertOrUpdateEntry_def Let_def)
  then have H: "HandleServiceRegistration now p source s =
      ([Sent source (ServiceAckCall (p_xid p) (p_language p) 0)], s\<lparr>m_service_store := m\<rparr>)"
    using m assms(1-3) by (simp add: HandleServiceRegistration_def)
  have type: "SLPGetCanonicalString t \<noteq> m_service_type ?e" for t
    using assms(4) canonical_idem [of t] by (auto simp: ServiceEntry_typed_def simp del: canonical_idem)
  have "fst (HandleParsedRequest its now' request source' (s\<lparr>m_service_store := m\<rparr>)) = fst (HandleParsedRequest its now' request source' s)"
    for now' request source'
    using Lookup_other_type [OF type m assms(5), of now' "ScopeSet (rq_scope_list request)" "rq_service_type request" 0]
    by (auto simp: HandleParsedRequest_def InPRList_def MaybeSendDAAdvert_def MaybeSendSAAdvert_def Server_SendDAAdvert_def
        boot_seconds_def Let_def split: prod.splits)
  then show ?thesis using H by blast
qed

definition uncanonical_registration :: service_registration_packet where
  "uncanonical_registration =
     \<lparr>p_xid = 5, p_flags = SLP_FRESH, p_language = ''en'', rg_url = \<lparr>url_string = ''RDMNet://a'', url_lifetime = 10\<rparr>,
      rg_service_type = ''RDMNet'', rg_scope_list = ''stage'', rg_attr_list = []\<rparr>"

lemma uncanonical_registration_unanswered_witness:
  "\<exists>s'. HandleServiceRegistration (TimeStamp (Timeval 1 0)) uncanonical_registration (False, 427) example_server =
      ([Sent (False, 427) (ServiceAckCall 5 ''en'' 0)], s') \<and>
    (\<forall>now' request source'. fst (HandleParsedRequest two_ips now' request source' s') =
       fst (HandleParsedRequest two_ips now' request source' example_server))"
proof -
  have "m_enable_da example_server" "url_lifetime (rg_url uncanonical_registration) \<noteq> 0"
    "IsSuperSet (m_configured_scopes example_server) (ScopeSet (rg_scope_list uncanonical_registration))"
    "SLPGetCanonicalString (rg_service_type uncanonical_registration) \<noteq> rg_service_type uncanonical_registration"
    "map_ok (m_service_store example_server)" "map_of (m_service_store example_server) (rg_service_type uncanonical_registration) = None"
    "Fresh uncanonical_registration" by code_simp+
  from uncanonical_registration_unanswered [OF this, of "TimeStamp (Timeval 1 0)" "(False, 427)" two_ips]
  show ?thesis by (simp add: uncanonical_registration_def)
qed

end
