(* ===== verification/SLP_Agent.thy ===== *)
theory SLP_Agent
  imports SLP_Server
begin

text \<open>
  The requests of a server, \<^verbatim>\<open>slp/SLPServer.cpp\<close> and \<^verbatim>\<open>slp/SLPPendingOperations.h\<close>: it looks for services and for directory
  agents, and registers its services with them. Operations are objects with addresses. Timers, the maps of callbacks
  and the other operations hold these addresses; a use of an object that was deleted makes the result \<open>None\<close>.
\<close>

section \<open>State\<close>

record unicast_rqst = pending_operation +
  ur_da_url :: string
  ur_parent :: nat
  ur_scopes :: scope_set
  ur_da_busy :: bool

record 'ip multicast_rqst = "'ip pending_multicast" +
  mr_scopes :: scope_set
  mr_parent :: nat

record unicast_reg = pending_operation +
  rg_da_url :: string
  rg_service :: service_entry

datatype 'ip slp_op = DARqst unicast_rqst | SARqst "'ip multicast_rqst" | DAReg unicast_reg

text \<open>A find operation: \<open>True\<close> is the status of a scope that is complete.\<close>

record find_request =
  fr_service_type :: string
  fr_callback :: nat
  fr_urls :: "url_entry list"
  fr_status :: "(string, bool) stl_map"

datatype slp_timer =
    DARqstTimer nat | SARqstTimer nat | RegTimer nat | DeRegTimer nat | DiscoveryTimer | StartDiscoveryTimer | NewDATimer string

record 'ip slp_config =
  m_config_retry :: u32
  m_config_retry_max :: u32
  m_config_mc_max :: u32
  m_slp_port :: u16
  m_multicast_endpoint :: "'ip \<times> u16"

record 'ip slp_agent =
  ag_server :: "'ip slp_server"
  ag_config :: "'ip slp_config"
  ag_xid :: u16
  ag_ops :: "(nat, 'ip slp_op) stl_map"
  ag_requests :: "(nat, find_request) stl_map"
  ag_pending_ops :: "(string \<times> nat) list"
  ag_timers :: "(nat, slp_timer) stl_map"
  ag_next :: nat

type_synonym 'ip agent_run = "('ip slp_effect list \<times> 'ip slp_agent) option"

definition MAX_PR_LIST_SIZE :: nat where
  "MAX_PR_LIST_SIZE = 88"

section \<open>Objects, timers and maps\<close>

definition and_then :: "'ip agent_run \<Rightarrow> ('ip slp_agent \<Rightarrow> 'ip agent_run) \<Rightarrow> 'ip agent_run" where
  "and_then r f = (case r of None \<Rightarrow> None | Some (out, s) \<Rightarrow> map_option (\<lambda>(more, s'). (out @ more, s')) (f s))"

definition PendingOperation :: "u16 \<Rightarrow> u32 \<Rightarrow> pending_operation" where
  "PendingOperation xid retry_time =
     \<lparr>op_xid = xid, op_timer_id = 0, op_retry_time = retry_time, op_total_time = 0, op_attempt = 1\<rparr>"

definition UpdateRetryTime :: "'a pending_operation_scheme \<Rightarrow> 'a pending_operation_scheme" where
  "UpdateRetryTime op = op\<lparr>op_attempt := op_attempt op + 1, op_total_time := op_total_time op + op_retry_time op,
     op_retry_time := op_retry_time op + op_retry_time op\<rparr>"

definition PendingMulticastOperation :: "u16 \<Rightarrow> u32 \<Rightarrow> 'ip pending_multicast" where
  "PendingMulticastOperation xid retry_time =
     pending_operation.extend (PendingOperation xid retry_time) (pending_multicast.fields [] False)"

definition UnicastSrvRegOperation :: "u16 \<Rightarrow> u32 \<Rightarrow> string \<Rightarrow> service_entry \<Rightarrow> unicast_reg" where
  "UnicastSrvRegOperation xid retry_time url service =
     pending_operation.extend (PendingOperation xid retry_time) (unicast_reg.fields url service)"

definition UnicastSrvRqstOperation :: "u16 \<Rightarrow> u32 \<Rightarrow> string \<Rightarrow> scope_set \<Rightarrow> nat \<Rightarrow> unicast_rqst" where
  "UnicastSrvRqstOperation xid retry_time url scopes parent =
     pending_operation.extend (PendingOperation xid retry_time) (unicast_rqst.fields url parent scopes False)"

definition MulicastSrvRqstOperation :: "u16 \<Rightarrow> u32 \<Rightarrow> scope_set \<Rightarrow> nat \<Rightarrow> 'ip multicast_rqst" where
  "MulicastSrvRqstOperation xid retry_time scopes parent =
     pending_multicast.extend (PendingMulticastOperation xid retry_time) (multicast_rqst.fields scopes parent)"

definition PendingSrvRqst :: "string \<Rightarrow> scope_set \<Rightarrow> nat \<Rightarrow> find_request" where
  "PendingSrvRqst service_type scopes callback =
     \<lparr>fr_service_type = service_type, fr_callback = callback, fr_urls = [],
      fr_status = fold (\<lambda>scope m. snd (STLReplace m scope False)) scopes []\<rparr>"

definition MarkScopeAsDone :: "string \<Rightarrow> find_request \<Rightarrow> find_request" where
  "MarkScopeAsDone scope r = r\<lparr>fr_status := snd (STLReplace (fr_status r) scope True)\<rparr>"

definition Complete :: "find_request \<Rightarrow> bool" where
  "Complete r \<longleftrightarrow> (\<forall>(scope, complete) \<in> set (fr_status r). complete)"

text \<open>New objects get addresses that were not used before, and so do timers.\<close>

definition new_op :: "'ip slp_op \<Rightarrow> 'ip slp_agent \<Rightarrow> nat \<times> 'ip slp_agent" where
  "new_op op s = (ag_next s, s\<lparr>ag_ops := ag_ops s @ [(ag_next s, op)], ag_next := Suc (ag_next s)\<rparr>)"

definition set_op :: "nat \<Rightarrow> 'ip slp_op \<Rightarrow> 'ip slp_agent \<Rightarrow> 'ip slp_agent" where
  "set_op a op s = s\<lparr>ag_ops := map_set a op (ag_ops s)\<rparr>"

definition delete_op :: "nat \<Rightarrow> 'ip slp_agent \<Rightarrow> 'ip slp_agent" where
  "delete_op a s = s\<lparr>ag_ops := map_erase a (ag_ops s)\<rparr>"

definition new_request :: "find_request \<Rightarrow> 'ip slp_agent \<Rightarrow> nat \<times> 'ip slp_agent" where
  "new_request r s = (ag_next s, s\<lparr>ag_requests := ag_requests s @ [(ag_next s, r)], ag_next := Suc (ag_next s)\<rparr>)"

definition RegisterSingleTimeout :: "slp_timer \<Rightarrow> 'ip slp_agent \<Rightarrow> nat \<times> 'ip slp_agent" where
  "RegisterSingleTimeout timer s =
     (ag_next s, s\<lparr>ag_timers := ag_timers s @ [(ag_next s, timer)], ag_next := Suc (ag_next s)\<rparr>)"

definition RemoveTimeout :: "nat \<Rightarrow> 'ip slp_agent \<Rightarrow> 'ip slp_agent" where
  "RemoveTimeout t s = s\<lparr>ag_timers := map_erase t (ag_timers s)\<rparr>"

definition NextXid :: "'ip slp_agent \<Rightarrow> u16 \<times> 'ip slp_agent" where
  "NextXid s = (ag_xid s, s\<lparr>ag_xid := ag_xid s + 1\<rparr>)"

abbreviation ag_replies :: "'ip slp_agent \<Rightarrow> (u16, nat) stl_map" where
  "ag_replies s \<equiv> m_pending_replies (ag_server s)"

abbreviation ag_tracker :: "'ip slp_agent \<Rightarrow> 'ip da_tracker" where
  "ag_tracker s \<equiv> m_da_tracker (ag_server s)"

definition set_replies :: "(u16, nat) stl_map \<Rightarrow> 'ip slp_agent \<Rightarrow> 'ip slp_agent" where
  "set_replies m s = s\<lparr>ag_server := (ag_server s)\<lparr>m_pending_replies := m\<rparr>\<rparr>"

definition set_acks :: "(u16, nat) stl_map \<Rightarrow> 'ip slp_agent \<Rightarrow> 'ip slp_agent" where
  "set_acks m s = s\<lparr>ag_server := (ag_server s)\<lparr>m_pending_acks := m\<rparr>\<rparr>"

definition set_tracker :: "'ip da_tracker \<Rightarrow> 'ip slp_agent \<Rightarrow> 'ip slp_agent" where
  "set_tracker t s = s\<lparr>ag_server := (ag_server s)\<lparr>m_da_tracker := t\<rparr>\<rparr>"

definition set_store :: "slp_store \<Rightarrow> 'ip slp_agent \<Rightarrow> 'ip slp_agent" where
  "set_store m s = s\<lparr>ag_server := (ag_server s)\<lparr>m_service_store := m\<rparr>\<rparr>"

section \<open>Looking for services\<close>

definition CheckIfFindSrvComplete :: "nat \<Rightarrow> 'ip slp_agent \<Rightarrow> 'ip agent_run" where
  "CheckIfFindSrvComplete request s =
     (case map_of (ag_requests s) request of
        None \<Rightarrow> None
      | Some r \<Rightarrow>
          if \<not> Complete r then Some ([], s)
          else Some ([Found (fr_callback r) (fr_urls r)], s\<lparr>ag_requests := map_erase request (ag_requests s)\<rparr>))"

definition CancelPendingSrvRqstAck :: "u16 \<Rightarrow> 'ip slp_agent \<Rightarrow> 'ip slp_agent" where
  "CancelPendingSrvRqstAck xid s = set_replies (map_erase xid (ag_replies s)) s"

definition SendSrvRqstToDA :: "nat \<Rightarrow> 'ip directory_agent \<Rightarrow> bool \<Rightarrow> 'ip slp_agent \<Rightarrow> 'ip agent_run" where
  "SendSrvRqstToDA a da expect_reused_xid s =
     (case map_of (ag_ops s) a of
        Some (DARqst op) \<Rightarrow>
          (case map_of (ag_requests s) (ur_parent op) of
             None \<Rightarrow> None
           | Some r \<Rightarrow>
               let (t, s1) = RegisterSingleTimeout (DARqstTimer a) s;
                   s2 = set_op a (DARqst (op\<lparr>ur_da_busy := False, op_timer_id := t\<rparr>)) s1;
                   sent = Sent (agent_address da, m_slp_port (ag_config s))
                            (ServiceRequestCall (op_xid op) [] (fr_service_type r) (ur_scopes op))
               in if map_of (ag_replies s) (op_xid op) = None
                  then Some ([sent], set_replies (snd (map_insert (op_xid op) a (ag_replies s2))) s2)
                  else if \<not> expect_reused_xid then Some ([sent, Collision (op_xid op)], s2)
                  else Some ([sent], s2))
      | _ \<Rightarrow> None)"

fun find_with_das ::
    "nat \<Rightarrow> 'ip directory_agent list \<Rightarrow> scope_set \<Rightarrow> 'ip slp_agent \<Rightarrow> ('ip slp_effect list \<times> scope_set \<times> 'ip slp_agent) option" where
  "find_with_das request [] remaining_scopes s = Some ([], remaining_scopes, s)"
| "find_with_das request (da # das) remaining_scopes s =
     (let (remaining_scopes, this_das_scopes) = DifferenceUpdate remaining_scopes (agent_scopes da)
      in if this_das_scopes = [] then find_with_das request das remaining_scopes s
         else
           let (xid, s1) = NextXid s;
               (a, s2) = new_op (DARqst (UnicastSrvRqstOperation xid (m_config_retry (ag_config s)) (agent_url da) this_das_scopes request)) s1
           in case SendSrvRqstToDA a da False s2 of
                None \<Rightarrow> None
              | Some (out, s3) \<Rightarrow>
                  map_option (\<lambda>(more, rest, s4). (out @ more, rest, s4)) (find_with_das request das remaining_scopes s3))"

definition find_by_multicast :: "nat \<Rightarrow> scope_set \<Rightarrow> 'ip slp_agent \<Rightarrow> 'ip agent_run" where
  "find_by_multicast request remaining_scopes s =
     (case map_of (ag_requests s) request of
        None \<Rightarrow> None
      | Some r \<Rightarrow>
          let (xid, s1) = NextXid s;
              op = MulicastSrvRqstOperation xid (m_config_retry (ag_config s)) remaining_scopes request;
              (a, s2) = new_op (SARqst op) s1;
              (t, s3) = RegisterSingleTimeout (SARqstTimer a) s2;
              s4 = set_op a (SARqst (op\<lparr>op_timer_id := t\<rparr>)) s3;
              (inserted, replies) = map_insert xid a (ag_replies s4)
          in Some (Sent (m_multicast_endpoint (ag_config s))
                     (ServiceRequestCall xid (pm_pr_list op) (fr_service_type r) (mr_scopes op)) #
                   (if inserted then [] else [Collision xid]), set_replies replies s4))"

definition FindServiceInScopes :: "nat \<Rightarrow> scope_set \<Rightarrow> 'ip slp_agent \<Rightarrow> 'ip agent_run" where
  "FindServiceInScopes request scopes s =
     (case GetMinimalCoveringList scopes (ag_tracker s) of
        None \<Rightarrow> None
      | Some das \<Rightarrow>
          case find_with_das request das scopes s of
            None \<Rightarrow> None
          | Some (out, remaining_scopes, s1) \<Rightarrow>
              if remaining_scopes = [] then Some (out, s1)
              else and_then (Some (out, s1)) (find_by_multicast request remaining_scopes))"

text \<open>What an answer adds to a request, and the scopes that are done then.\<close>

definition update_request :: "nat \<Rightarrow> (find_request \<Rightarrow> find_request) \<Rightarrow> 'ip slp_agent \<Rightarrow> 'ip slp_agent option" where
  "update_request request f s =
     (case map_of (ag_requests s) request of
        None \<Rightarrow> None
      | Some r \<Rightarrow> Some (s\<lparr>ag_requests := map_set request (f r) (ag_requests s)\<rparr>))"

definition ReceivedDASrvReply :: "nat \<Rightarrow> u16 \<Rightarrow> url_entry list \<Rightarrow> 'ip slp_agent \<Rightarrow> 'ip agent_run" where
  "ReceivedDASrvReply a error_code urls s =
     (case map_of (ag_ops s) a of
        Some (DARqst op) \<Rightarrow>
          let s1 = set_replies (map_erase (op_xid op) (ag_replies s)) s
          in if error_code = error_number SLP_OK then
               case update_request (ur_parent op)
                      (\<lambda>r. fold MarkScopeAsDone (ur_scopes op) (r\<lparr>fr_urls := fr_urls r @ urls\<rparr>)) s1 of
                 None \<Rightarrow> None
               | Some s2 \<Rightarrow>
                   map_option (\<lambda>(out, s3). (out, delete_op a (RemoveTimeout (op_timer_id op) s3)))
                     (CheckIfFindSrvComplete (ur_parent op) s2)
             else if error_code = error_number DA_BUSY_NOW
             then Some ([], set_op a (DARqst (op\<lparr>ur_da_busy := True\<rparr>)) s1)
             else
               let s2 = RemoveTimeout (op_timer_id op) s1;
                   s3 = set_tracker (MarkAsBad (ur_da_url op) (ag_tracker s2)) s2
               in map_option (\<lambda>(out, s4). (out, delete_op a s4)) (FindServiceInScopes (ur_parent op) (ur_scopes op) s3)
      | _ \<Rightarrow> None)"

definition RequestServiceDATimeout :: "nat \<Rightarrow> 'ip slp_agent \<Rightarrow> 'ip agent_run" where
  "RequestServiceDATimeout a s =
     (case map_of (ag_ops s) a of
        Some (DARqst op) \<Rightarrow>
          if map_of (ag_replies s) (op_xid op) = None then Some ([], delete_op a s)
          else
            let op1 = UpdateRetryTime op;
                s1 = set_op a (DARqst op1) s;
                restart = (\<lambda>s. map_option (\<lambda>(out, s). (out, delete_op a s))
                  (FindServiceInScopes (ur_parent op1) (ur_scopes op1) (CancelPendingSrvRqstAck (op_xid op1) s)))
            in if op_total_time op1 + op_retry_time op1 > m_config_retry_max (ag_config s)
               then restart (set_tracker (MarkAsBad (ur_da_url op1) (ag_tracker s1)) s1)
               else case LookupDA (ur_da_url op1) (ag_tracker s1) of
                      None \<Rightarrow> restart s1
                    | Some da \<Rightarrow>
                        if \<not> Intersects (agent_scopes da) (ur_scopes op1) then restart s1 else SendSrvRqstToDA a da True s1
      | _ \<Rightarrow> None)"

definition RequestServiceMulticastTimeout :: "nat \<Rightarrow> 'ip slp_agent \<Rightarrow> 'ip agent_run" where
  "RequestServiceMulticastTimeout a s =
     (case map_of (ag_ops s) a of
        Some (SARqst op0) \<Rightarrow>
          let first_attempt = (op_attempt op0 = 1);
              op = UpdateRetryTime op0;
              s1 = set_op a (SARqst op) s
          in (case map_of (ag_replies s) (op_xid op) of
                None \<Rightarrow> Some ([], s1)
              | Some cb \<Rightarrow>
                  if (\<not> pm_pr_list_changed op \<and> \<not> first_attempt) \<or> length (pm_pr_list op) > MAX_PR_LIST_SIZE \<or>
                     op_total_time op \<ge> m_config_mc_max (ag_config s)
                  then
                    case update_request (mr_parent op) (fold MarkScopeAsDone (mr_scopes op))
                           (set_replies (map_erase (op_xid op) (ag_replies s1)) s1) of
                      None \<Rightarrow> None
                    | Some s2 \<Rightarrow> map_option (\<lambda>(out, s3). (out, delete_op a s3)) (CheckIfFindSrvComplete (mr_parent op) s2)
                  else
                    case map_of (ag_requests s) (mr_parent op) of
                      None \<Rightarrow> None
                    | Some r \<Rightarrow>
                        let (warning, op1, s2) =
                              (if pm_pr_list_changed op then
                                 let (xid, s2) = NextXid s1;
                                     (inserted, replies) = map_insert xid cb (map_erase (op_xid op) (ag_replies s2))
                                 in (if inserted then [] else [Collision xid], op\<lparr>pm_pr_list_changed := False, op_xid := xid\<rparr>,
                                     set_replies replies s2)
                               else ([], op, s1));
                            (t, s3) = RegisterSingleTimeout (SARqstTimer a) s2
                        in Some (warning @ [Sent (m_multicast_endpoint (ag_config s))
                                   (ServiceRequestCall (op_xid op1) (pm_pr_list op1) (fr_service_type r) (mr_scopes op1))],
                                 set_op a (SARqst (op1\<lparr>op_timer_id := t\<rparr>)) s3))
      | _ \<Rightarrow> None)"

definition ReceivedSASrvReply :: "nat \<Rightarrow> 'ip :: linorder \<Rightarrow> u16 \<Rightarrow> url_entry list \<Rightarrow> 'ip slp_agent \<Rightarrow> 'ip agent_run" where
  "ReceivedSASrvReply a src error_code urls s =
     (case map_of (ag_ops s) a of
        Some (SARqst op) \<Rightarrow>
          if error_code = error_number SLP_OK
          then map_option (\<lambda>s1. ([], set_op a (SARqst (AddPR src op)) s1))
                 (update_request (mr_parent op) (\<lambda>r. r\<lparr>fr_urls := fr_urls r @ urls\<rparr>) s)
          else Some ([], s)
      | _ \<Rightarrow> None)"

text \<open>The scopes of a call are made canonical first. On a directory agent, the scopes it serves are answered from the store.\<close>

definition Server_FindService :: "TimeStamp \<Rightarrow> string list \<Rightarrow> string \<Rightarrow> nat \<Rightarrow> 'ip slp_agent \<Rightarrow> 'ip agent_run" where
  "Server_FindService now scopes service_type cb s =
     (let sv = ag_server s;
          scope_set = ScopeSet_of_set scopes;
          (scope_set, da_scopes) =
            (if m_enable_da sv then DifferenceUpdate scope_set (m_configured_scopes sv) else (scope_set, scope_set));
          (urls, store) =
            (if m_enable_da sv \<and> da_scopes = [] then ([], m_service_store sv)
             else Lookup now da_scopes service_type 0 (m_service_store sv));
          s1 = set_store store s
      in if m_enable_da sv \<and> scope_set = [] then Some ([Found cb urls], s1)
         else
           let (request, s2) = new_request ((PendingSrvRqst service_type scope_set cb)\<lparr>fr_urls := urls\<rparr>) s1
           in FindServiceInScopes request scope_set s2)"

section \<open>Registering services with directory agents\<close>

abbreviation ag_acks :: "'ip slp_agent \<Rightarrow> (u16, nat) stl_map" where
  "ag_acks s \<equiv> m_pending_acks (ag_server s)"

definition multimap_insert :: "string \<Rightarrow> nat \<Rightarrow> (string \<times> nat) list \<Rightarrow> (string \<times> nat) list" where
  "multimap_insert k v m = takeWhile (\<lambda>(l, _). l \<le> k) m @ (k, v) # dropWhile (\<lambda>(l, _). l \<le> k) m"

definition FreePendingDAOperation :: "nat \<Rightarrow> 'ip slp_agent \<Rightarrow> 'ip slp_agent option" where
  "FreePendingDAOperation a s =
     (case map_of (ag_ops s) a of
        Some (DAReg op) \<Rightarrow>
          let s1 = RemoveTimeout (op_timer_id op) s
          in Some (delete_op a (set_acks (map_erase (op_xid op) (ag_acks s1)) s1))
      | _ \<Rightarrow> None)"

fun free_loop :: "nat list \<Rightarrow> 'ip slp_agent \<Rightarrow> 'ip slp_agent option" where
  "free_loop [] s = Some s"
| "free_loop (a # as) s = (case FreePendingDAOperation a s of None \<Rightarrow> None | Some s1 \<Rightarrow> free_loop as s1)"

definition CancelPendingDAOperationsForService :: "string \<Rightarrow> 'ip slp_agent \<Rightarrow> 'ip slp_agent option" where
  "CancelPendingDAOperationsForService url s =
     map_option (\<lambda>s1. s1\<lparr>ag_pending_ops := filter (\<lambda>(u, a). u \<noteq> url) (ag_pending_ops s1)\<rparr>)
       (free_loop (map snd (filter (\<lambda>(u, a). u = url) (ag_pending_ops s))) s)"

fun cancel_loop :: "string \<Rightarrow> string \<Rightarrow> nat list \<Rightarrow> 'ip slp_agent \<Rightarrow> 'ip slp_agent option" where
  "cancel_loop url our_da_url [] s = Some s"
| "cancel_loop url our_da_url (a # as) s =
     (case map_of (ag_ops s) a of
        Some (DAReg op) \<Rightarrow>
          if rg_da_url op = our_da_url then
            (case FreePendingDAOperation a s of
               None \<Rightarrow> None
             | Some s1 \<Rightarrow> cancel_loop url our_da_url as (s1\<lparr>ag_pending_ops := filter (\<lambda>x. x \<noteq> (url, a)) (ag_pending_ops s1)\<rparr>))
          else cancel_loop url our_da_url as s
      | _ \<Rightarrow> None)"

definition CancelPendingDAOperationsForServiceAndDA :: "string \<Rightarrow> string \<Rightarrow> 'ip slp_agent \<Rightarrow> 'ip slp_agent option" where
  "CancelPendingDAOperationsForServiceAndDA url our_da_url s =
     cancel_loop url our_da_url (map snd (filter (\<lambda>(u, a). u = url) (ag_pending_ops s))) s"

definition CancelPendingSrvAck :: "u16 \<Rightarrow> 'ip slp_agent \<Rightarrow> 'ip slp_agent" where
  "CancelPendingSrvAck xid s = set_acks (map_erase xid (ag_acks s)) s"

definition AddPendingSrvAck :: "u16 \<Rightarrow> nat \<Rightarrow> 'ip slp_agent \<Rightarrow> 'ip slp_effect list \<times> 'ip slp_agent" where
  "AddPendingSrvAck xid callback s =
     (let (inserted, acks) = map_insert xid callback (ag_acks s) in (if inserted then [] else [Collision xid], set_acks acks s))"

definition ReceivedAck :: "nat \<Rightarrow> u16 \<Rightarrow> 'ip slp_agent \<Rightarrow> 'ip agent_run" where
  "ReceivedAck a error_code s =
     (if error_code = error_number DA_BUSY_NOW then Some ([], s)
      else case map_of (ag_ops s) a of
             Some (DAReg op) \<Rightarrow>
               map_option (Pair []) (CancelPendingDAOperationsForServiceAndDA (e_url (rg_service op)) (rg_da_url op) s)
           | _ \<Rightarrow> None)"

text \<open>The destructor of the \<open>UnicastOperationDeleter\<close> of a timeout runs on every return before it is cancelled.\<close>

definition delete_operation :: "unicast_reg \<Rightarrow> 'ip slp_agent \<Rightarrow> 'ip agent_run" where
  "delete_operation op s =
     map_option (Pair []) (CancelPendingDAOperationsForServiceAndDA (e_url (rg_service op)) (rg_da_url op) s)"

definition RegistrationTimeout :: "nat \<Rightarrow> 'ip slp_agent \<Rightarrow> 'ip agent_run" where
  "RegistrationTimeout a s =
     (case map_of (ag_ops s) a of
        Some (DAReg op) \<Rightarrow>
          if map_of (ag_acks s) (op_xid op) = None then delete_operation op s
          else
            let (expired, url) = AgeLifetime (ucast (op_retry_time op div 1000)) (m_url (rg_service op));
                op1 = op\<lparr>rg_service := (rg_service op)\<lparr>m_url := url\<rparr>\<rparr>;
                s1 = set_op a (DAReg op1) s
            in if expired then delete_operation op1 (CancelPendingSrvAck (op_xid op1) s1)
               else
                 let op2 = UpdateRetryTime op1;
                     s2 = set_op a (DAReg op2) s1
                 in if op_total_time op2 + op_retry_time op2 > m_config_retry_max (ag_config s) then
                      delete_operation op2
                        (CancelPendingSrvAck (op_xid op2) (set_tracker (MarkAsBad (rg_da_url op2) (ag_tracker s2)) s2))
                    else
                      case LookupDA (rg_da_url op2) (ag_tracker s2) of
                        None \<Rightarrow> delete_operation op2 (CancelPendingSrvAck (op_xid op2) s2)
                      | Some da \<Rightarrow>
                          let scopes_to_use = Intersection (agent_scopes da) (m_scopes (rg_service op2))
                          in if scopes_to_use = [] then delete_operation op2 (CancelPendingSrvAck (op_xid op2) s2)
                             else
                               let (t, s3) = RegisterSingleTimeout (RegTimer a) s2
                               in Some ([Sent (agent_address da, m_slp_port (ag_config s))
                                          (ServiceRegistrationCall (op_xid op2) True scopes_to_use (rg_service op2))],
                                        set_op a (DAReg (op2\<lparr>op_timer_id := t\<rparr>)) s3)
      | _ \<Rightarrow> None)"

definition DeRegistrationTimeout :: "nat \<Rightarrow> 'ip slp_agent \<Rightarrow> 'ip agent_run" where
  "DeRegistrationTimeout a s =
     (case map_of (ag_ops s) a of
        Some (DAReg op) \<Rightarrow>
          if map_of (ag_acks s) (op_xid op) = None then delete_operation op s
          else
            let op1 = UpdateRetryTime op;
                s1 = set_op a (DAReg op1) s
            in if op_total_time op1 + op_retry_time op1 \<ge> m_config_retry_max (ag_config s) then
                 delete_operation op1
                   (CancelPendingSrvAck (op_xid op1) (set_tracker (MarkAsBad (rg_da_url op1) (ag_tracker s1)) s1))
               else
                 case LookupDA (rg_da_url op1) (ag_tracker s1) of
                   None \<Rightarrow> delete_operation op1 (CancelPendingSrvAck (op_xid op1) s1)
                 | Some da \<Rightarrow>
                     let scopes_to_use = Intersection (agent_scopes da) (m_scopes (rg_service op1));
                         (t, s2) = RegisterSingleTimeout (DeRegTimer a) s1
                     in Some ([Sent (agent_address da, m_slp_port (ag_config s))
                                (ServiceDeRegistrationCall (op_xid op1) scopes_to_use (rg_service op1))],
                              set_op a (DAReg (op1\<lparr>op_timer_id := t\<rparr>)) s2)
      | _ \<Rightarrow> None)"

definition RegisterWithDA :: "service_entry \<Rightarrow> 'ip directory_agent \<Rightarrow> 'ip slp_agent \<Rightarrow> 'ip slp_effect list \<times> 'ip slp_agent" where
  "RegisterWithDA service agent s =
     (let (xid, s1) = NextXid s;
          op = UnicastSrvRegOperation xid (m_config_retry (ag_config s)) (agent_url agent) service;
          (a, s2) = new_op (DAReg op) s1;
          (t, s3) = RegisterSingleTimeout (RegTimer a) s2;
          s4 = set_op a (DAReg (op\<lparr>op_timer_id := t\<rparr>)) s3;
          s5 = s4\<lparr>ag_pending_ops := multimap_insert (e_url service) a (ag_pending_ops s4)\<rparr>;
          (warning, s6) = AddPendingSrvAck xid a s5
      in (Sent (agent_address agent, m_slp_port (ag_config s))
            (ServiceRegistrationCall xid True (Intersection (agent_scopes agent) (m_scopes service)) service) # warning, s6))"

definition DeRegisterWithDA :: "service_entry \<Rightarrow> 'ip directory_agent \<Rightarrow> 'ip slp_agent \<Rightarrow> 'ip slp_effect list \<times> 'ip slp_agent" where
  "DeRegisterWithDA service agent s =
     (let (xid, s1) = NextXid s;
          op = UnicastSrvRegOperation xid (m_config_retry (ag_config s)) (agent_url agent) service;
          (a, s2) = new_op (DAReg op) s1;
          (t, s3) = RegisterSingleTimeout (DeRegTimer a) s2;
          s4 = set_op a (DAReg (op\<lparr>op_timer_id := t\<rparr>)) s3;
          s5 = s4\<lparr>ag_pending_ops := multimap_insert (e_url service) a (ag_pending_ops s4)\<rparr>;
          (warning, s6) = AddPendingSrvAck xid a s5
      in (Sent (agent_address agent, m_slp_port (ag_config s))
            (ServiceDeRegistrationCall xid (Intersection (agent_scopes agent) (m_scopes service)) service) # warning, s6))"

fun each_da ::
    "('ip directory_agent \<Rightarrow> 'ip slp_agent \<Rightarrow> 'ip slp_effect list \<times> 'ip slp_agent) \<Rightarrow> 'ip directory_agent list \<Rightarrow> 'ip slp_agent \<Rightarrow>
      'ip slp_effect list \<times> 'ip slp_agent" where
  "each_da f [] s = ([], s)"
| "each_da f (da # das) s = (let (out, s1) = f da s; (more, s2) = each_da f das s1 in (out @ more, s2))"

definition InternalRegisterService ::
    "TimeStamp \<Rightarrow> service_entry \<Rightarrow> 'ip slp_agent \<Rightarrow> (slp_error_code \<times> 'ip slp_effect list \<times> 'ip slp_agent) option" where
  "InternalRegisterService now service s =
     (if CheckIfScopesMatch now service (m_service_store (ag_server s)) = SCOPE_MISMATCH then Some (SCOPE_NOT_SUPPORTED, [], s)
      else case CancelPendingDAOperationsForService (e_url service) s of
             None \<Rightarrow> None
           | Some s1 \<Rightarrow>
               let s2 = set_store (snd (Insert now service (m_service_store (ag_server s1)))) s1;
                   (out, s3) = each_da (RegisterWithDA service) (GetDAsForScopes (m_scopes service) (ag_tracker s2)) s2
               in Some (SLP_OK, out, s3))"

definition InternalDeRegisterService ::
    "TimeStamp \<Rightarrow> service_entry \<Rightarrow> 'ip slp_agent \<Rightarrow> (slp_error_code \<times> 'ip slp_effect list \<times> 'ip slp_agent) option" where
  "InternalDeRegisterService now service s =
     (case CheckIfScopesMatch now service (m_service_store (ag_server s)) of
        SCOPE_MISMATCH \<Rightarrow> Some (SCOPE_NOT_SUPPORTED, [], s)
      | NOT_FOUND \<Rightarrow> Some (SLP_OK, [], s)
      | Scopes_OK \<Rightarrow>
          case CancelPendingDAOperationsForService (e_url service) s of
            None \<Rightarrow> None
          | Some s1 \<Rightarrow>
              let (out, s2) = each_da (DeRegisterWithDA service) (GetDAsForScopes (m_scopes service) (ag_tracker s1)) s1
              in Some (SLP_OK, out, set_store (snd (Remove service (m_service_store (ag_server s2)))) s2))"

definition RegisterService :: "TimeStamp \<Rightarrow> service_entry \<Rightarrow> 'ip slp_agent \<Rightarrow> 'ip agent_run" where
  "RegisterService now new_service s =
     (let service = new_service\<lparr>m_local := True\<rparr>
      in if e_lifetime service = 0 then Some ([Returned (error_number INVALID_REGISTRATION)], s)
         else map_option (\<lambda>(code, out, s1). (out @ [Returned (error_number code)], s1)) (InternalRegisterService now service s))"

definition DeRegisterService :: "TimeStamp \<Rightarrow> service_entry \<Rightarrow> 'ip slp_agent \<Rightarrow> 'ip agent_run" where
  "DeRegisterService now service s =
     map_option (\<lambda>(code, out, s1). (out @ [Returned (error_number code)], s1)) (InternalDeRegisterService now service s)"

section \<open>Looking for directory agents\<close>

definition set_discovery :: "'ip pending_multicast option \<Rightarrow> 'ip slp_agent \<Rightarrow> 'ip slp_agent" where
  "set_discovery op s = s\<lparr>ag_server := (ag_server s)\<lparr>m_outstanding_da_discovery := op\<rparr>\<rparr>"

definition ScheduleActiveDADiscovery :: "'ip slp_agent \<Rightarrow> 'ip slp_agent" where
  "ScheduleActiveDADiscovery s = snd (RegisterSingleTimeout StartDiscoveryTimer s)"

definition SendDARequestAndSetupTimer :: "'ip pending_multicast \<Rightarrow> 'ip slp_agent \<Rightarrow> 'ip slp_effect list \<times> 'ip slp_agent" where
  "SendDARequestAndSetupTimer op s =
     (let (op1, s1) =
            (if pm_pr_list_changed op then let (xid, s1) = NextXid s in (op\<lparr>pm_pr_list_changed := False, op_xid := xid\<rparr>, s1)
             else (op, s));
          (t, s2) = RegisterSingleTimeout DiscoveryTimer s1
      in ([Sent (m_multicast_endpoint (ag_config s))
             (ServiceRequestCall (op_xid op1) (pm_pr_list op1) DIRECTORY_AGENT_SERVICE (m_configured_scopes (ag_server s)))],
          set_discovery (Some (op1\<lparr>op_timer_id := t\<rparr>)) s2))"

definition StartActiveDADiscovery :: "'ip slp_agent \<Rightarrow> 'ip slp_effect list \<times> 'ip slp_agent" where
  "StartActiveDADiscovery s =
     (if m_outstanding_da_discovery (ag_server s) \<noteq> None then ([], s)
      else let (xid, s1) = NextXid s in SendDARequestAndSetupTimer (PendingMulticastOperation xid (m_config_retry (ag_config s))) s1)"

definition DASrvRqstTimeout :: "'ip slp_agent \<Rightarrow> 'ip slp_effect list \<times> 'ip slp_agent" where
  "DASrvRqstTimeout s =
     (case m_outstanding_da_discovery (ag_server s) of
        None \<Rightarrow> ([], ScheduleActiveDADiscovery s)
      | Some op0 \<Rightarrow>
          let first_attempt = (op_attempt op0 = 1);
              op = UpdateRetryTime op0
          in if (\<not> pm_pr_list_changed op \<and> \<not> first_attempt) \<or> length (pm_pr_list op) > MAX_PR_LIST_SIZE \<or>
                op_total_time op \<ge> m_config_mc_max (ag_config s)
             then ([], ScheduleActiveDADiscovery (set_discovery None s))
             else SendDARequestAndSetupTimer op s)"

definition NewDACallback :: "'ip directory_agent \<Rightarrow> 'ip slp_agent \<Rightarrow> 'ip slp_agent" where
  "NewDACallback agent s = snd (RegisterSingleTimeout (NewDATimer (agent_url agent)) s)"

fun each_service ::
    "'ip directory_agent \<Rightarrow> service_entry list \<Rightarrow> 'ip slp_agent \<Rightarrow> 'ip slp_effect list \<times> 'ip slp_agent" where
  "each_service da [] s = ([], s)"
| "each_service da (e # es) s = (let (out, s1) = RegisterWithDA e da s; (more, s2) = each_service da es s1 in (out @ more, s2))"

definition RegisterServicesWithNewDA :: "TimeStamp \<Rightarrow> string \<Rightarrow> 'ip slp_agent \<Rightarrow> 'ip slp_effect list \<times> 'ip slp_agent" where
  "RegisterServicesWithNewDA now url s =
     (case LookupDA url (ag_tracker s) of
        None \<Rightarrow> ([], s)
      | Some da \<Rightarrow> each_service da (GetLocalServices now (agent_scopes da) (m_service_store (ag_server s))) s)"

section \<open>Start\<close>

text \<open>The options, in seconds. The calls of the socket are not modelled: \<open>joined\<close> is their result.\<close>

record 'ip slp_options =
  opt_enable_da :: bool
  opt_ip_address :: 'ip
  opt_scopes :: "string list"
  opt_slp_port :: u16
  opt_retry :: u16
  opt_retry_max :: u16
  opt_mc_max :: u32
  opt_initial_xid :: u16
  opt_boot_time :: u32

definition SLPServer :: "'ip \<Rightarrow> 'ip slp_options \<Rightarrow> 'ip slp_agent" where
  "SLPServer multicast_address options =
     \<lparr>ag_server =
        \<lparr>m_enable_da = opt_enable_da options,
         m_configured_scopes = (let scopes = ScopeSet_of_set (opt_scopes options) in if scopes = [] then ScopeSet ''DEFAULT'' else scopes),
         m_iface_address = opt_ip_address options, m_boot_time = TimeStamp (Timeval (uint (opt_boot_time options)) 0),
         m_service_store = [], m_da_tracker = DATracker, m_pending_acks = [], m_pending_replies = [],
         m_outstanding_da_discovery = None\<rparr>,
      ag_config =
        \<lparr>m_config_retry = ucast (opt_retry options) * 1000, m_config_retry_max = ucast (opt_retry_max options) * 1000,
         m_config_mc_max = opt_mc_max options * 1000, m_slp_port = opt_slp_port options,
         m_multicast_endpoint = (multicast_address, opt_slp_port options)\<rparr>,
      ag_xid = opt_initial_xid options, ag_ops = [], ag_requests = [], ag_pending_ops = [], ag_timers = [], ag_next = 1\<rparr>"

definition Server_Init :: "('ip \<Rightarrow> string) \<Rightarrow> bool \<Rightarrow> TimeStamp \<Rightarrow> 'ip slp_agent \<Rightarrow> bool \<times> 'ip slp_effect list \<times> 'ip slp_agent" where
  "Server_Init ip_to_string joined now s =
     (if \<not> joined then (False, [], s)
      else
        let s1 = set_tracker (AddNewDACallback 0 (ag_tracker s)) s;
            sv = ag_server s1;
            s2 = (if m_enable_da sv \<and> tv_sec (m_tv (m_boot_time sv)) = 0 then s1\<lparr>ag_server := sv\<lparr>m_boot_time := now\<rparr>\<rparr> else s1)
        in (True,
            if m_enable_da sv then SendDABeat ip_to_string (m_multicast_endpoint (ag_config s2)) (ag_server s2) else [],
            snd (RegisterSingleTimeout StartDiscoveryTimer s2)))"

section \<open>Events\<close>

text \<open>The callbacks that a handler runs last.\<close>

fun run_callback :: "'ip :: linorder slp_effect \<Rightarrow> 'ip slp_agent \<Rightarrow> 'ip agent_run" where
  "run_callback (RunReply cb src error_code urls) s =
     (case map_of (ag_ops s) cb of
        Some (DARqst op) \<Rightarrow> ReceivedDASrvReply cb error_code urls s
      | Some (SARqst op) \<Rightarrow> ReceivedSASrvReply cb src error_code urls s
      | _ \<Rightarrow> None)"
| "run_callback (RunAck cb error_code) s = ReceivedAck cb error_code s"
| "run_callback (RunNewDA cb agent) s = Some ([], NewDACallback agent s)"
| "run_callback e s = Some ([], s)"

fun run_callbacks :: "'ip :: linorder slp_effect list \<Rightarrow> 'ip slp_agent \<Rightarrow> 'ip agent_run" where
  "run_callbacks [] s = Some ([], s)"
| "run_callbacks (e # es) s = and_then (map_option (\<lambda>(out, s1). (e # out, s1)) (run_callback e s)) (run_callbacks es)"

definition run_timer :: "TimeStamp \<Rightarrow> slp_timer \<Rightarrow> 'ip slp_agent \<Rightarrow> 'ip agent_run" where
  "run_timer now timer s =
     (case timer of
        DARqstTimer a \<Rightarrow> RequestServiceDATimeout a s
      | SARqstTimer a \<Rightarrow> RequestServiceMulticastTimeout a s
      | RegTimer a \<Rightarrow> RegistrationTimeout a s
      | DeRegTimer a \<Rightarrow> DeRegistrationTimeout a s
      | DiscoveryTimer \<Rightarrow> Some (DASrvRqstTimeout s)
      | StartDiscoveryTimer \<Rightarrow> Some (StartActiveDADiscovery s)
      | NewDATimer url \<Rightarrow> Some (RegisterServicesWithNewDA now url s))"

text \<open>Datagrams, timers that are due, the two repeating timers, and calls of clients.\<close>

datatype 'ip agent_event =
    Receive bytes "'ip \<times> u16"
  | Timeout nat
  | CleanStore
  | Beat
  | CallDump
  | CallFind "string list" string nat
  | CallRegister service_entry
  | CallDeRegister service_entry
  | CallDiscovery

fun agent_step ::
    "('ip \<Rightarrow> string) \<Rightarrow> (string \<Rightarrow> 'ip option) \<Rightarrow> bool \<Rightarrow> TimeStamp \<Rightarrow> 'ip :: linorder agent_event \<Rightarrow> 'ip slp_agent \<Rightarrow> 'ip agent_run" where
  "agent_step its ifs big now (Receive packet source) s =
     (let (out, sv) = HandleUDPData its ifs big now packet source (ag_server s) in run_callbacks out (s\<lparr>ag_server := sv\<rparr>))"
| "agent_step its ifs big now (Timeout t) s =
     (case map_of (ag_timers s) t of None \<Rightarrow> Some ([], s) | Some timer \<Rightarrow> run_timer now timer (RemoveTimeout t s))"
| "agent_step its ifs big now CleanStore s = Some ([], s\<lparr>ag_server := CleanSLPStore now (ag_server s)\<rparr>)"
| "agent_step its ifs big now Beat s = Some (SendDABeat its (m_multicast_endpoint (ag_config s)) (ag_server s), s)"
| "agent_step its ifs big now CallDump s = Some ([], s\<lparr>ag_server := DumpStore now (ag_server s)\<rparr>)"
| "agent_step its ifs big now (CallFind scopes service_type cb) s = Server_FindService now scopes service_type cb s"
| "agent_step its ifs big now (CallRegister e) s = RegisterService now e s"
| "agent_step its ifs big now (CallDeRegister e) s = DeRegisterService now e s"
| "agent_step its ifs big now CallDiscovery s = Some (StartActiveDADiscovery s)"

fun agent_steps ::
    "('ip \<Rightarrow> string) \<Rightarrow> (string \<Rightarrow> 'ip option) \<Rightarrow> bool \<Rightarrow> (TimeStamp \<times> 'ip :: linorder agent_event) list \<Rightarrow> 'ip slp_agent \<Rightarrow> 'ip agent_run" where
  "agent_steps its ifs big [] s = Some ([], s)"
| "agent_steps its ifs big ((now, e) # es) s = and_then (agent_step its ifs big now e s) (agent_steps its ifs big es)"

end
