(* ===== verification/SLP_Agent_Inv.thy ===== *)
theory SLP_Agent_Inv
  imports SLP_Agent
begin

text \<open>
  The invariant of a server with pending operations. Requests for services and registrations share the objects, the timers
  and the maps of a server, but not their entries, so each side has an invariant over its own view of them.
\<close>

section \<open>The view of requests\<close>

record rqst_view =
  v_da :: bool
  v_xid :: u16
  v_timer :: nat
  v_parent :: nat
  v_scopes :: scope_set

fun op_view :: "'ip slp_op \<Rightarrow> rqst_view option" where
  "op_view (DARqst op) =
     Some \<lparr>v_da = True, v_xid = op_xid op, v_timer = op_timer_id op, v_parent = ur_parent op, v_scopes = ur_scopes op\<rparr>"
| "op_view (SARqst op) =
     Some \<lparr>v_da = False, v_xid = op_xid op, v_timer = op_timer_id op, v_parent = mr_parent op, v_scopes = mr_scopes op\<rparr>"
| "op_view (DAReg op) = None"

fun timer_view :: "slp_timer \<Rightarrow> (bool \<times> nat) option" where
  "timer_view (DARqstTimer a) = Some (True, a)"
| "timer_view (SARqstTimer a) = Some (False, a)"
| "timer_view t = None"

definition view :: "('a \<Rightarrow> 'b option) \<Rightarrow> ('k, 'a) stl_map \<Rightarrow> 'k \<Rightarrow> 'b option" where
  "view f m k = Option.bind (map_of m k) f"

abbreviation rqst_ops :: "(nat, 'ip slp_op) stl_map \<Rightarrow> nat \<Rightarrow> rqst_view option" where
  "rqst_ops \<equiv> view op_view"

abbreviation rqst_timers :: "(nat, slp_timer) stl_map \<Rightarrow> nat \<Rightarrow> (bool \<times> nat) option" where
  "rqst_timers \<equiv> view timer_view"

abbreviation pending_scope :: "find_request \<Rightarrow> string \<Rightarrow> bool" where
  "pending_scope r scope \<equiv> map_of (fr_status r) scope = Some False"

text \<open>The scopes of a request that are not done are split among its operations, each of which has its entry in the map of
  replies and its timer. While an operation is replaced, its scopes are in the gap \<open>H\<close>.\<close>

definition find_inv ::
    "(nat \<times> string) set \<Rightarrow> (nat \<Rightarrow> rqst_view option) \<Rightarrow> (nat \<Rightarrow> (bool \<times> nat) option) \<Rightarrow> (nat \<Rightarrow> find_request option) \<Rightarrow>
      (u16 \<Rightarrow> nat option) \<Rightarrow> bool" where
  "find_inv H fo ft rq rep \<longleftrightarrow>
     (\<forall>x a. rep x = Some a \<longleftrightarrow> (\<exists>v. fo a = Some v \<and> v_xid v = x)) \<and>
     (\<forall>t k a. ft t = Some (k, a) \<longleftrightarrow> (\<exists>v. fo a = Some v \<and> v_timer v = t \<and> v_da v = k)) \<and>
     (\<forall>a v. fo a = Some v \<longrightarrow> v_scopes v \<noteq> [] \<and> scopes_ok (v_scopes v) \<and>
        (\<exists>r. rq (v_parent v) = Some r \<and> (\<forall>scope \<in> set (v_scopes v). pending_scope r scope \<and> (v_parent v, scope) \<notin> H))) \<and>
     (\<forall>a b v w. fo a = Some v \<and> fo b = Some w \<and> a \<noteq> b \<and> v_parent v = v_parent w \<longrightarrow> set (v_scopes v) \<inter> set (v_scopes w) = {}) \<and>
     (\<forall>p r. rq p = Some r \<longrightarrow> map_ok (fr_status r) \<and> \<not> Complete r \<and>
        (\<forall>scope. pending_scope r scope \<longrightarrow>
           (p, scope) \<in> H \<or> (\<exists>a v. fo a = Some v \<and> v_parent v = p \<and> scope \<in> set (v_scopes v)))) \<and>
     (\<forall>(p, scope) \<in> H. \<exists>r. rq p = Some r \<and> pending_scope r scope)"

lemma find_invD:
  assumes "find_inv H fo ft rq rep"
  shows "rep x = Some a \<longleftrightarrow> (\<exists>v. fo a = Some v \<and> v_xid v = x)"
    and "ft t = Some (k, a) \<longleftrightarrow> (\<exists>v. fo a = Some v \<and> v_timer v = t \<and> v_da v = k)"
    and "fo a = Some v \<Longrightarrow> v_scopes v \<noteq> [] \<and> scopes_ok (v_scopes v)"
    and "fo a = Some v \<Longrightarrow> \<exists>r. rq (v_parent v) = Some r \<and> (\<forall>scope \<in> set (v_scopes v). pending_scope r scope \<and> (v_parent v, scope) \<notin> H)"
    and "fo a = Some v \<Longrightarrow> fo b = Some w \<Longrightarrow> a \<noteq> b \<Longrightarrow> v_parent v = v_parent w \<Longrightarrow> set (v_scopes v) \<inter> set (v_scopes w) = {}"
    and "rq p = Some r \<Longrightarrow> map_ok (fr_status r) \<and> \<not> Complete r"
    and "rq p = Some r \<Longrightarrow> pending_scope r scope \<Longrightarrow>
      (p, scope) \<in> H \<or> (\<exists>a v. fo a = Some v \<and> v_parent v = p \<and> scope \<in> set (v_scopes v))"
    and "(p, scope) \<in> H \<Longrightarrow> \<exists>r. rq p = Some r \<and> pending_scope r scope"
proof -
  show "rep x = Some a \<longleftrightarrow> (\<exists>v. fo a = Some v \<and> v_xid v = x)"
    using assms [unfolded find_inv_def, THEN conjunct1] by blast
  show "ft t = Some (k, a) \<longleftrightarrow> (\<exists>v. fo a = Some v \<and> v_timer v = t \<and> v_da v = k)"
    using assms [unfolded find_inv_def, THEN conjunct2, THEN conjunct1] by blast
  show "v_scopes v \<noteq> [] \<and> scopes_ok (v_scopes v)" if "fo a = Some v"
    using assms [unfolded find_inv_def, THEN conjunct2, THEN conjunct2, THEN conjunct1] that by blast
  show "\<exists>r. rq (v_parent v) = Some r \<and> (\<forall>scope \<in> set (v_scopes v). pending_scope r scope \<and> (v_parent v, scope) \<notin> H)" if "fo a = Some v"
    using assms [unfolded find_inv_def, THEN conjunct2, THEN conjunct2, THEN conjunct1] that by blast
  show "set (v_scopes v) \<inter> set (v_scopes w) = {}" if "fo a = Some v" "fo b = Some w" "a \<noteq> b" "v_parent v = v_parent w"
    using assms [unfolded find_inv_def, THEN conjunct2, THEN conjunct2, THEN conjunct2, THEN conjunct1] that by blast
  show "map_ok (fr_status r) \<and> \<not> Complete r" if "rq p = Some r"
    using assms [unfolded find_inv_def, THEN conjunct2, THEN conjunct2, THEN conjunct2, THEN conjunct2, THEN conjunct1] that by blast
  show "(p, scope) \<in> H \<or> (\<exists>a v. fo a = Some v \<and> v_parent v = p \<and> scope \<in> set (v_scopes v))"
    if "rq p = Some r" "pending_scope r scope"
    using assms [unfolded find_inv_def, THEN conjunct2, THEN conjunct2, THEN conjunct2, THEN conjunct2, THEN conjunct1] that by blast
  show "\<exists>r. rq p = Some r \<and> pending_scope r scope" if "(p, scope) \<in> H"
    using assms [unfolded find_inv_def, THEN conjunct2, THEN conjunct2, THEN conjunct2, THEN conjunct2, THEN conjunct2] that by blast
qed

text \<open>An operation takes over a part of the gap.\<close>

lemma find_inv_add:
  assumes inv: "find_inv H fo ft rq rep"
    and new: "fo a = None" "rep (v_xid v) = None" "ft (v_timer v) = None"
    and scopes: "v_scopes v \<noteq> []" "scopes_ok (v_scopes v)" "{v_parent v} \<times> set (v_scopes v) \<subseteq> H"
  shows "find_inv (H - {v_parent v} \<times> set (v_scopes v)) (fo(a \<mapsto> v)) (ft(v_timer v \<mapsto> (v_da v, a))) rq (rep(v_xid v \<mapsto> a))"
proof -
  note I = find_invD [OF inv]
  have parent: "\<exists>r. rq (v_parent v) = Some r \<and> (\<forall>scope \<in> set (v_scopes v). pending_scope r scope)"
  proof -
    obtain sc where sc: "sc \<in> set (v_scopes v)" using scopes(1) by (cases "v_scopes v") auto
    then obtain r where r: "rq (v_parent v) = Some r" using I(8) [of "v_parent v" sc] scopes(3) by blast
    have "pending_scope r x" if "x \<in> set (v_scopes v)" for x
      using I(8) [of "v_parent v" x] scopes(3) r that by force
    then show ?thesis using r by blast
  qed
  have disj: "set (v_scopes w) \<inter> set (v_scopes v) = {}" if "fo b = Some w" "v_parent w = v_parent v" for b w
    using I(4) [OF that(1)] scopes(3) that(2) by fastforce
  have R: "rep x \<noteq> Some a" "ft t \<noteq> Some (k, a)" for x t k using I(1,2) new(1) by auto
  have X: "fo b = Some w \<Longrightarrow> v_xid w \<noteq> v_xid v" "fo b = Some w \<Longrightarrow> v_timer w \<noteq> v_timer v" for b w
    using I(1) [of "v_xid w" b] I(2) [of "v_timer w" "v_da w" b] new(2,3) by auto
  show ?thesis unfolding find_inv_def
  proof (intro conjI allI impI ballI)
    fix x b show "((rep(v_xid v \<mapsto> a)) x = Some b) = (\<exists>w. (fo(a \<mapsto> v)) b = Some w \<and> v_xid w = x)"
      using I(1) [of x b] new(1) X(1) R(1) by (cases "b = a"; cases "x = v_xid v") auto
  next
    fix t k b show "((ft(v_timer v \<mapsto> (v_da v, a))) t = Some (k, b)) = (\<exists>w. (fo(a \<mapsto> v)) b = Some w \<and> v_timer w = t \<and> v_da w = k)"
      using I(2) [of t k b] new(1) X(2) R(2) by (cases "b = a"; cases "t = v_timer v") auto
  next
    fix b w assume b: "(fo(a \<mapsto> v)) b = Some w"
    show "v_scopes w \<noteq> []" "scopes_ok (v_scopes w)" using b I(3) [of b w] scopes by (auto split: if_splits)
    show "\<exists>r. rq (v_parent w) = Some r \<and>
        (\<forall>scope \<in> set (v_scopes w). pending_scope r scope \<and> (v_parent w, scope) \<notin> H - {v_parent v} \<times> set (v_scopes v))"
      using b parent I(4) [of b w] by (auto split: if_splits)
  next
    fix b c w u
    assume "(fo(a \<mapsto> v)) b = Some w \<and> (fo(a \<mapsto> v)) c = Some u \<and> b \<noteq> c \<and> v_parent w = v_parent u"
    then show "set (v_scopes w) \<inter> set (v_scopes u) = {}" using I(5) [of b w c u] disj by (auto split: if_splits)
  next
    fix p r assume r: "rq p = Some r"
    show "map_ok (fr_status r)" "\<not> Complete r" using I(6) [OF r] by auto
    fix scope assume "pending_scope r scope"
    from I(7) [OF r this] show "(p, scope) \<in> H - {v_parent v} \<times> set (v_scopes v) \<or>
        (\<exists>b w. (fo(a \<mapsto> v)) b = Some w \<and> v_parent w = p \<and> scope \<in> set (v_scopes w))"
    proof
      assume "\<exists>b w. fo b = Some w \<and> v_parent w = p \<and> scope \<in> set (v_scopes w)"
      then obtain b w where "fo b = Some w" "v_parent w = p" "scope \<in> set (v_scopes w)" by blast
      then have "(fo(a \<mapsto> v)) b = Some w \<and> v_parent w = p \<and> scope \<in> set (v_scopes w)" using new(1) by auto
      then show ?thesis by blast
    qed (use fun_upd_same [of fo a "Some v"] in blast)
  next
    fix x assume "x \<in> H - {v_parent v} \<times> set (v_scopes v)"
    then show "case x of (p, scope) \<Rightarrow> \<exists>r. rq p = Some r \<and> pending_scope r scope" using I(8) by auto
  qed
qed

text \<open>An operation is taken away.\<close>

lemma find_inv_remove:
  assumes inv: "find_inv H fo ft rq rep" and v: "fo a = Some v"
  shows "find_inv (H \<union> {v_parent v} \<times> set (v_scopes v)) (fo(a := None)) (ft(v_timer v := None)) rq (rep(v_xid v := None))"
proof -
  note I = find_invD [OF inv]
  have X: "fo b = Some w \<Longrightarrow> b \<noteq> a \<Longrightarrow> v_xid w \<noteq> v_xid v" "fo b = Some w \<Longrightarrow> b \<noteq> a \<Longrightarrow> v_timer w \<noteq> v_timer v" for b w
  proof -
    assume w: "fo b = Some w" "b \<noteq> a"
    have "rep (v_xid v) = Some a" "rep (v_xid w) = Some b" using I(1) v w by blast+
    then show "v_xid w \<noteq> v_xid v" using w(2) by auto
    have "ft (v_timer v) = Some (v_da v, a)" "ft (v_timer w) = Some (v_da w, b)" using I(2) v w by blast+
    then show "v_timer w \<noteq> v_timer v" using w(2) by auto
  qed
  show ?thesis unfolding find_inv_def
  proof (intro conjI allI impI ballI)
    fix x b show "((rep(v_xid v := None)) x = Some b) = (\<exists>w. (fo(a := None)) b = Some w \<and> v_xid w = x)"
      using I(1) [of x b] v X(1) by (cases "b = a"; cases "x = v_xid v") auto
  next
    fix t k b show "((ft(v_timer v := None)) t = Some (k, b)) = (\<exists>w. (fo(a := None)) b = Some w \<and> v_timer w = t \<and> v_da w = k)"
      using I(2) [of t k b] v X(2) by (cases "b = a"; cases "t = v_timer v") auto
  next
    fix b w assume b: "(fo(a := None)) b = Some w"
    then have b': "fo b = Some w" "b \<noteq> a" by (auto split: if_splits)
    show "v_scopes w \<noteq> []" "scopes_ok (v_scopes w)" using I(3) [OF b'(1)] by auto
    obtain r where r: "rq (v_parent w) = Some r" "\<forall>scope \<in> set (v_scopes w). pending_scope r scope \<and> (v_parent w, scope) \<notin> H"
      using I(4) [OF b'(1)] by blast
    have "scope \<notin> set (v_scopes v)" if "scope \<in> set (v_scopes w)" "v_parent w = v_parent v" for scope
      using I(5) [OF b'(1) v b'(2) that(2)] that(1) by blast
    then show "\<exists>r. rq (v_parent w) = Some r \<and>
        (\<forall>scope \<in> set (v_scopes w). pending_scope r scope \<and> (v_parent w, scope) \<notin> H \<union> {v_parent v} \<times> set (v_scopes v))"
      using r by auto
  next
    fix b c w u
    assume "(fo(a := None)) b = Some w \<and> (fo(a := None)) c = Some u \<and> b \<noteq> c \<and> v_parent w = v_parent u"
    then show "set (v_scopes w) \<inter> set (v_scopes u) = {}" using I(5) [of b w c u] by (auto split: if_splits)
  next
    fix p r assume r: "rq p = Some r"
    show "map_ok (fr_status r)" "\<not> Complete r" using I(6) [OF r] by auto
    fix scope assume s: "pending_scope r scope"
    show "(p, scope) \<in> H \<union> {v_parent v} \<times> set (v_scopes v) \<or>
        (\<exists>b w. (fo(a := None)) b = Some w \<and> v_parent w = p \<and> scope \<in> set (v_scopes w))"
    proof (cases "(p, scope) \<in> H \<union> {v_parent v} \<times> set (v_scopes v)")
      case False
      then obtain b w where bw: "fo b = Some w" "v_parent w = p" "scope \<in> set (v_scopes w)" using I(7) [OF r s] by blast
      then have "b \<noteq> a" using False v by auto
      then have "(fo(a := None)) b = Some w" using bw by simp
      then show ?thesis using bw by blast
    qed simp
  next
    fix x assume "x \<in> H \<union> {v_parent v} \<times> set (v_scopes v)"
    then show "case x of (p, scope) \<Rightarrow> \<exists>r. rq p = Some r \<and> pending_scope r scope" using I(8) I(4) [OF v] by auto
  qed
qed

text \<open>An operation that is tried again: it leaves and comes back with a new timer and perhaps a new number.\<close>

lemma find_inv_again:
  assumes inv: "find_inv {} fo ft rq rep" and v: "fo a = Some v"
    and same: "v_parent w = v_parent v" "v_scopes w = v_scopes v"
    and new: "(ft(v_timer v := None)) (v_timer w) = None" "(rep(v_xid v := None)) (v_xid w) = None"
  shows "find_inv {} (fo(a \<mapsto> w)) ((ft(v_timer v := None))(v_timer w \<mapsto> (v_da w, a))) rq ((rep(v_xid v := None))(v_xid w \<mapsto> a))"
proof -
  note R = find_inv_remove [OF inv v]
  have s: "v_scopes w \<noteq> []" "scopes_ok (v_scopes w)" "{v_parent w} \<times> set (v_scopes w) \<subseteq> {} \<union> {v_parent v} \<times> set (v_scopes v)"
    using find_invD(3) [OF inv v] same by auto
  have "(fo(a := None)) a = None" by simp
  from find_inv_add [OF R this new(2,1) s] show ?thesis unfolding same by (simp only: fun_upd_upd Un_empty_left Diff_cancel)
qed

text \<open>A request changes without its scopes.\<close>

lemma find_inv_request:
  assumes inv: "find_inv H fo ft rq rep" and "rq p = Some r" "fr_status r' = fr_status r"
  shows "find_inv H fo ft (rq(p \<mapsto> r')) rep"
proof -
  have c: "Complete r' = Complete r" using assms(3) by (simp add: Complete_def)
  have E: "(\<exists>x. (rq(p \<mapsto> r')) q = Some x \<and> P (fr_status x)) \<longleftrightarrow> (\<exists>x. rq q = Some x \<and> P (fr_status x))" for q P
    using assms(2,3) by auto
  note I = inv [unfolded find_inv_def]
  show ?thesis unfolding find_inv_def
    using I c assms(2,3) E [of _ "\<lambda>m. \<forall>scope \<in> _. map_of m scope = Some False \<and> _ scope"] by (auto split: if_splits; fastforce)
qed

text \<open>Scopes of the gap are done.\<close>

lemma fold_MarkScopeAsDone:
  assumes "map_ok (fr_status r)"
  shows "map_ok (fr_status (fold MarkScopeAsDone scopes r))"
    "map_of (fr_status (fold MarkScopeAsDone scopes r)) = (\<lambda>x. if x \<in> set scopes then Some True else map_of (fr_status r) x)"
    "fr_callback (fold MarkScopeAsDone scopes r) = fr_callback r"
proof -
  have "map_ok (fr_status (fold MarkScopeAsDone scopes r)) \<and>
    map_of (fr_status (fold MarkScopeAsDone scopes r)) = (\<lambda>x. if x \<in> set scopes then Some True else map_of (fr_status r) x) \<and>
    fr_callback (fold MarkScopeAsDone scopes r) = fr_callback r"
    using assms
    by (induction scopes arbitrary: r) (auto simp: MarkScopeAsDone_def STLReplace_ok STLReplace_lookup fun_eq_iff)
  then show "map_ok (fr_status (fold MarkScopeAsDone scopes r))"
    "map_of (fr_status (fold MarkScopeAsDone scopes r)) = (\<lambda>x. if x \<in> set scopes then Some True else map_of (fr_status r) x)"
    "fr_callback (fold MarkScopeAsDone scopes r) = fr_callback r" by blast+
qed

lemma Complete_iff: "map_ok (fr_status r) \<Longrightarrow> Complete r \<longleftrightarrow> (\<forall>scope. \<not> pending_scope r scope)"
  by (auto simp: Complete_def map_ok_distinct dest: map_of_SomeD) (metis (full_types))

lemma find_inv_done:
  assumes inv: "find_inv ({p} \<times> S) fo ft rq rep" and r: "rq p = Some r"
    and r': "map_ok (fr_status r')" "map_of (fr_status r') = (\<lambda>x. if x \<in> S then Some True else map_of (fr_status r) x)"
  shows "find_inv {} fo ft (rq(p := if Complete r' then None else Some r')) rep"
proof -
  note I = find_invD [OF inv]
  have old: "pending_scope r' scope \<longleftrightarrow> pending_scope r scope \<and> scope \<notin> S" for scope using r'(2) by simp
  have op: "\<not> Complete r' \<and> (\<forall>scope \<in> set (v_scopes v). pending_scope r' scope)" if v: "fo a = Some v" "v_parent v = p" for a v
  proof -
    have all: "pending_scope r' scope" if "scope \<in> set (v_scopes v)" for scope using I(4) [OF v(1)] v(2) r old that by auto
    moreover obtain sc where "sc \<in> set (v_scopes v)" using I(3) [OF v(1)] by (cases "v_scopes v") auto
    ultimately show ?thesis using Complete_iff [OF r'(1)] by blast
  qed
  show ?thesis unfolding find_inv_def
  proof (intro conjI allI impI ballI)
    fix x b show "(rep x = Some b) = (\<exists>w. fo b = Some w \<and> v_xid w = x)" by (rule I(1))
  next
    fix t k b show "(ft t = Some (k, b)) = (\<exists>w. fo b = Some w \<and> v_timer w = t \<and> v_da w = k)" by (rule I(2))
  next
    fix b w assume b: "fo b = Some w"
    show "v_scopes w \<noteq> []" "scopes_ok (v_scopes w)" using I(3) [OF b] by auto
    show "\<exists>x. (rq(p := if Complete r' then None else Some r')) (v_parent w) = Some x \<and>
        (\<forall>scope \<in> set (v_scopes w). pending_scope x scope \<and> (v_parent w, scope) \<notin> {})"
      using I(4) [OF b] op [OF b] by auto
  next
    fix b c w u
    assume "fo b = Some w \<and> fo c = Some u \<and> b \<noteq> c \<and> v_parent w = v_parent u"
    then show "set (v_scopes w) \<inter> set (v_scopes u) = {}" using I(5) [of b w c u] by auto
  next
    fix q x assume x: "(rq(p := if Complete r' then None else Some r')) q = Some x"
    then show "map_ok (fr_status x)" "\<not> Complete x" using I(6) [of q x] r'(1) by (auto split: if_splits)
    fix scope assume "pending_scope x scope"
    then show "(q, scope) \<in> {} \<or> (\<exists>a v. fo a = Some v \<and> v_parent v = q \<and> scope \<in> set (v_scopes v))"
      using I(7) [of q _ scope] x r old by (auto split: if_splits)
  qed simp
qed

lemma find_inv_new:
  assumes inv: "find_inv {} fo ft rq rep" and p: "rq p = None"
    and r: "map_ok (fr_status r)" "map_of (fr_status r) = (\<lambda>x. if x \<in> S then Some False else None)" "S \<noteq> {}"
  shows "find_inv ({p} \<times> S) fo ft (rq(p \<mapsto> r)) rep"
proof -
  note I = find_invD [OF inv]
  have op: "v_parent v \<noteq> p" if "fo a = Some v" for a v using I(4) [OF that] p by auto
  have "\<not> Complete r" using Complete_iff [OF r(1)] r(2,3) by auto
  note new = this r(1,2)
  show ?thesis unfolding find_inv_def
  proof (intro conjI allI impI ballI)
    fix x b show "(rep x = Some b) = (\<exists>w. fo b = Some w \<and> v_xid w = x)" by (rule I(1))
  next
    fix t k b show "(ft t = Some (k, b)) = (\<exists>w. fo b = Some w \<and> v_timer w = t \<and> v_da w = k)" by (rule I(2))
  next
    fix b w assume b: "fo b = Some w"
    show "v_scopes w \<noteq> []" "scopes_ok (v_scopes w)" using I(3) [OF b] by auto
    show "\<exists>x. (rq(p \<mapsto> r)) (v_parent w) = Some x \<and>
        (\<forall>scope \<in> set (v_scopes w). pending_scope x scope \<and> (v_parent w, scope) \<notin> {p} \<times> S)"
      using I(4) [OF b] op [OF b] by auto
  next
    fix b c w u
    assume "fo b = Some w \<and> fo c = Some u \<and> b \<noteq> c \<and> v_parent w = v_parent u"
    then show "set (v_scopes w) \<inter> set (v_scopes u) = {}" using I(5) [of b w c u] by auto
  next
    fix q x assume x: "(rq(p \<mapsto> r)) q = Some x"
    then show "map_ok (fr_status x)" "\<not> Complete x" using I(6) [of q x] new by (auto split: if_splits)
    fix scope assume "pending_scope x scope"
    then show "(q, scope) \<in> {p} \<times> S \<or> (\<exists>a v. fo a = Some v \<and> v_parent v = q \<and> scope \<in> set (v_scopes v))"
      using I(7) [of q x scope] x new by (auto split: if_splits)
  qed (use new in auto)
qed

section \<open>The view of registrations\<close>

fun op_reg :: "'ip slp_op \<Rightarrow> unicast_reg option" where
  "op_reg (DAReg op) = Some op"
| "op_reg op = None"

fun timer_reg :: "slp_timer \<Rightarrow> nat option" where
  "timer_reg (RegTimer a) = Some a"
| "timer_reg (DeRegTimer a) = Some a"
| "timer_reg t = None"

abbreviation reg_ops :: "(nat, 'ip slp_op) stl_map \<Rightarrow> nat \<Rightarrow> unicast_reg option" where
  "reg_ops \<equiv> view op_reg"

abbreviation reg_timers :: "(nat, slp_timer) stl_map \<Rightarrow> nat \<Rightarrow> nat option" where
  "reg_timers \<equiv> view timer_reg"

text \<open>Callbacks and timers belong to operations, and the operations are in the map of their URLs, apart from those in \<open>Z\<close>
  that were deleted and will be taken from the map next.\<close>

definition reg_inv ::
    "nat set \<Rightarrow> (nat \<Rightarrow> unicast_reg option) \<Rightarrow> (nat \<Rightarrow> nat option) \<Rightarrow> (u16 \<Rightarrow> nat option) \<Rightarrow> (string \<times> nat) list \<Rightarrow> bool" where
  "reg_inv Z ro rt ack pend \<longleftrightarrow>
     (\<forall>x a. ack x = Some a \<longrightarrow> (\<exists>op. ro a = Some op \<and> op_xid op = x)) \<and>
     (\<forall>t a. rt t = Some a \<longrightarrow> (\<exists>op. ro a = Some op \<and> op_timer_id op = t)) \<and>
     distinct (map snd pend) \<and> (\<forall>a \<in> Z. ro a = None) \<and>
     (\<forall>u a. (u, a) \<in> set pend \<and> a \<notin> Z \<longleftrightarrow> (\<exists>op. ro a = Some op \<and> e_url (rg_service op) = u))"

lemma reg_invD:
  assumes "reg_inv Z ro rt ack pend"
  shows "ack x = Some a \<Longrightarrow> \<exists>op. ro a = Some op \<and> op_xid op = x"
    and "rt t = Some a \<Longrightarrow> \<exists>op. ro a = Some op \<and> op_timer_id op = t"
    and "distinct (map snd pend)" "a \<in> Z \<Longrightarrow> ro a = None"
    and "(u, a) \<in> set pend \<and> a \<notin> Z \<longleftrightarrow> (\<exists>op. ro a = Some op \<and> e_url (rg_service op) = u)"
  using assms unfolding reg_inv_def by blast+

lemma reg_inv_add:
  assumes inv: "reg_inv {} ro rt ack pend" and new: "ro a = None"
    and pend: "distinct (map snd pend')" "set pend' = insert (e_url (rg_service op), a) (set pend)"
    and ack: "ack' = ack \<or> ack' = ack(op_xid op \<mapsto> a)"
  shows "reg_inv {} (ro(a \<mapsto> op)) (rt(op_timer_id op \<mapsto> a)) ack' pend'"
proof -
  note I = reg_invD [OF inv]
  have no: "(u, a) \<notin> set pend" for u using I(5) [of u a] new by simp
  show ?thesis unfolding reg_inv_def
  proof (intro conjI allI impI)
    fix u b show "((u, b) \<in> set pend' \<and> b \<notin> {}) = (\<exists>x. (ro(a \<mapsto> op)) b = Some x \<and> e_url (rg_service x) = u)"
      using I(5) [of u b] no pend(2) by (cases "b = a") auto
  next
    fix x b assume "ack' x = Some b"
    then show "\<exists>y. (ro(a \<mapsto> op)) b = Some y \<and> op_xid y = x" using ack I(1) [of x b] new by (auto split: if_splits)
  next
    fix t b assume "(rt(op_timer_id op \<mapsto> a)) t = Some b"
    then show "\<exists>y. (ro(a \<mapsto> op)) b = Some y \<and> op_timer_id y = t" using I(2) [of t b] new by (auto split: if_splits)
  qed (use pend in auto)
qed

lemma reg_inv_free:
  assumes inv: "reg_inv Z ro rt ack pend" and op: "ro a = Some op"
  shows "reg_inv (insert a Z) (ro(a := None)) (rt(op_timer_id op := None)) (ack(op_xid op := None)) pend"
proof -
  note I = reg_invD [OF inv]
  show ?thesis unfolding reg_inv_def
  proof (intro conjI allI impI ballI)
    fix u b show "((u, b) \<in> set pend \<and> b \<notin> insert a Z) = (\<exists>x. (ro(a := None)) b = Some x \<and> e_url (rg_service x) = u)"
      using I(5) [of u b] by (cases "b = a") auto
  next
    fix x b assume "(ack(op_xid op := None)) x = Some b"
    then show "\<exists>y. (ro(a := None)) b = Some y \<and> op_xid y = x" using I(1) [of x b] op by (auto split: if_splits)
  next
    fix t b assume "(rt(op_timer_id op := None)) t = Some b"
    then show "\<exists>y. (ro(a := None)) b = Some y \<and> op_timer_id y = t" using I(2) [of t b] op by (auto split: if_splits)
  qed (use I(3,4) in auto)
qed

lemma reg_inv_erase:
  assumes inv: "reg_inv Z ro rt ack pend" and P: "\<And>u a. (u, a) \<in> set pend \<Longrightarrow> P (u, a) \<longleftrightarrow> a \<notin> Z"
  shows "reg_inv {} ro rt ack (filter P pend)"
proof -
  note I = reg_invD [OF inv]
  have "distinct (map snd (filter P pend))" using I(3) by (induction pend) auto
  moreover have "(u, a) \<in> set (filter P pend) \<longleftrightarrow> (\<exists>x. ro a = Some x \<and> e_url (rg_service x) = u)" for u a
    using I(5) [of u a] P [of u a] by auto
  ultimately show ?thesis using I(1,2) unfolding reg_inv_def by simp
qed

lemma reg_inv_acks: "reg_inv Z ro rt ack pend \<Longrightarrow> ack' \<subseteq>\<^sub>m ack \<Longrightarrow> reg_inv Z ro rt ack' pend"
  unfolding reg_inv_def map_le_def dom_def by fastforce

lemma reg_inv_again:
  assumes inv: "reg_inv {} ro rt ack pend" and op: "ro a = Some op"
    and same: "op_xid op' = op_xid op" "e_url (rg_service op') = e_url (rg_service op)"
  shows "reg_inv {} (ro(a \<mapsto> op')) ((rt(op_timer_id op := None))(op_timer_id op' \<mapsto> a)) ack pend"
    "reg_inv {} (ro(a \<mapsto> op')) (rt(op_timer_id op := None)) ack pend"
proof -
  note I = reg_invD [OF inv]
  have P: "((u, b) \<in> set pend \<and> b \<notin> {}) = (\<exists>x. (ro(a \<mapsto> op')) b = Some x \<and> e_url (rg_service x) = u)" for u b
    using I(5) [of u b] op same by (cases "b = a") auto
  have A: "\<exists>y. (ro(a \<mapsto> op')) b = Some y \<and> op_xid y = x" if "ack x = Some b" for x b
    using I(1) [OF that] op same by auto
  have T: "\<exists>y. (ro(a \<mapsto> op')) b = Some y \<and> op_timer_id y = t" if "(rt(op_timer_id op := None)) t = Some b" for t b
    using I(2) [of t b] that op by (auto split: if_splits)
  then have T': "\<exists>y. (ro(a \<mapsto> op')) b = Some y \<and> op_timer_id y = t"
    if "((rt(op_timer_id op := None))(op_timer_id op' \<mapsto> a)) t = Some b" for t b
    using that by (cases "t = op_timer_id op'") simp_all
  show "reg_inv {} (ro(a \<mapsto> op')) ((rt(op_timer_id op := None))(op_timer_id op' \<mapsto> a)) ack pend"
    unfolding reg_inv_def using P A T' I(3) by (intro conjI) blast+
  show "reg_inv {} (ro(a \<mapsto> op')) (rt(op_timer_id op := None)) ack pend"
    unfolding reg_inv_def using P A T I(3) by (intro conjI) blast+
qed

section \<open>The invariant\<close>

definition keys_ok :: "nat \<Rightarrow> (nat, 'v) stl_map \<Rightarrow> bool" where
  "keys_ok n m \<longleftrightarrow> map_ok m \<and> (\<forall>k \<in> fst ` set m. k < n)"

text \<open>The timer of a registration may have fired already; its number is not used for the timer of a request.\<close>

definition reg_timers_ok :: "nat \<Rightarrow> (nat \<Rightarrow> unicast_reg option) \<Rightarrow> (nat \<Rightarrow> (bool \<times> nat) option) \<Rightarrow> bool" where
  "reg_timers_ok n ro ft \<longleftrightarrow> (\<forall>a op. ro a = Some op \<longrightarrow> op_timer_id op < n \<and> ft (op_timer_id op) = None)"

definition parts_inv where
  "parts_inv ifs H Z ops reqs timers replies acks pend n tracker \<longleftrightarrow>
     keys_ok n ops \<and> keys_ok n reqs \<and> keys_ok n timers \<and> map_ok replies \<and> map_ok acks \<and> tracker_ok ifs tracker \<and>
     find_inv H (rqst_ops ops) (rqst_timers timers) (map_of reqs) (map_of replies) \<and>
     reg_inv Z (reg_ops ops) (reg_timers timers) (map_of acks) pend \<and>
     reg_timers_ok n (reg_ops ops) (rqst_timers timers)"

definition agent_inv :: "(string \<Rightarrow> 'ip option) \<Rightarrow> (nat \<times> string) set \<Rightarrow> nat set \<Rightarrow> 'ip slp_agent \<Rightarrow> bool" where
  "agent_inv ifs H Z s \<longleftrightarrow>
     parts_inv ifs H Z (ag_ops s) (ag_requests s) (ag_timers s) (ag_replies s) (ag_acks s) (ag_pending_ops s) (ag_next s) (ag_tracker s)"

lemma parts_invD:
  assumes "parts_inv ifs H Z ops reqs timers replies acks pend n tr"
  shows "keys_ok n ops" "keys_ok n reqs" "keys_ok n timers" "map_ok replies" "map_ok acks" "tracker_ok ifs tr"
    "find_inv H (rqst_ops ops) (rqst_timers timers) (map_of reqs) (map_of replies)"
    "reg_inv Z (reg_ops ops) (reg_timers timers) (map_of acks) pend" "reg_timers_ok n (reg_ops ops) (rqst_timers timers)"
  using assms unfolding parts_inv_def by blast+

lemma reg_timers_ok_mono: "reg_timers_ok n ro ft \<Longrightarrow> n \<le> n' \<Longrightarrow> reg_timers_ok n' ro ft"
  unfolding reg_timers_ok_def by fastforce

lemma reg_timers_ok_upd:
  "reg_timers_ok n ro ft \<Longrightarrow> n \<le> t \<Longrightarrow> reg_timers_ok n ro (ft(t \<mapsto> x))"
  "reg_timers_ok n ro ft \<Longrightarrow> reg_timers_ok n ro (ft(t := None))"
  "reg_timers_ok n ro ft \<Longrightarrow> reg_timers_ok n (ro(a := None)) ft"
  "reg_timers_ok n ro ft \<Longrightarrow> op_timer_id op < n \<Longrightarrow> ft (op_timer_id op) = None \<Longrightarrow> reg_timers_ok n (ro(a \<mapsto> op)) ft"
  unfolding reg_timers_ok_def by (auto split: if_splits) (meson not_le)

lemma keys_ok_mono: "keys_ok n m \<Longrightarrow> n \<le> n' \<Longrightarrow> keys_ok n' m"
  by (auto simp: keys_ok_def)

lemma keys_ok_append: "keys_ok n m \<Longrightarrow> n < n' \<Longrightarrow> keys_ok n' (m @ [(n, x)])"
  by (auto simp: keys_ok_def sorted_wrt_append)

lemma keys_ok_set: "keys_ok n m \<Longrightarrow> keys_ok n (map_set k x m)"
  unfolding keys_ok_def by (metis map_fst_map_set list.set_map)

lemma keys_ok_erase: "keys_ok n m \<Longrightarrow> keys_ok n (map_erase k m)"
  by (auto simp: keys_ok_def) (auto simp: map_erase_def)

lemmas keys_ok_intros = keys_ok_append keys_ok_set keys_ok_erase

lemma keys_ok_new: "keys_ok n m \<Longrightarrow> n \<le> k \<Longrightarrow> map_of m k = None"
  by (force simp: keys_ok_def map_of_eq_None_iff)

text \<open>Views of maps that change.\<close>

lemma view_append:
  assumes "keys_ok n m"
  shows "f x = None \<Longrightarrow> view f (m @ [(n, x)]) = view f m"
    and "f x = Some y \<Longrightarrow> view f (m @ [(n, x)]) = (view f m)(n \<mapsto> y)"
  using keys_ok_new [OF assms order_refl] by (auto simp: view_def fun_eq_iff map_add_def split: option.splits)

lemma view_set:
  assumes "map_of m k = Some x0"
  shows "f x0 = f x \<Longrightarrow> view f (map_set k x m) = view f m"
    and "f x = Some y \<Longrightarrow> view f (map_set k x m) = (view f m)(k \<mapsto> y)"
  using assms by (auto simp: view_def fun_eq_iff map_of_map_set)

lemma view_erase: "view f (map_erase k m) = (view f m)(k := None)"
  by (auto simp: view_def fun_eq_iff map_of_map_erase)

lemma view_erase_other: "view f m k = None \<Longrightarrow> view f (map_erase k m) = view f m"
  by (auto simp: view_def fun_eq_iff map_of_map_erase)

lemma view_new: "keys_ok n m \<Longrightarrow> n \<le> k \<Longrightarrow> view f m k = None"
  by (simp add: view_def keys_ok_new)

lemma op_kind: "op_view op = Some v \<Longrightarrow> op_reg op = None" "op_reg op = Some r \<Longrightarrow> op_view op = None"
  by (cases op; simp)+

lemma timer_kind: "timer_view h = Some v \<Longrightarrow> timer_reg h = None" "timer_reg h = Some a \<Longrightarrow> timer_view h = None"
  by (cases h; simp)+

lemma view_kind:
  "rqst_ops ops a = Some v \<Longrightarrow> reg_ops ops a = None" "reg_ops ops a = Some r \<Longrightarrow> rqst_ops ops a = None"
  "rqst_timers timers t = Some w \<Longrightarrow> reg_timers timers t = None" "reg_timers timers t = Some b \<Longrightarrow> rqst_timers timers t = None"
  by (auto simp: view_def bind_eq_Some_conv op_kind timer_kind)

lemma map_of_erase_fun: "map_of (map_erase k m) = (map_of m)(k := None)"
  by (auto simp: fun_eq_iff map_of_map_erase)

lemma map_of_set_fun: "map_of m k \<noteq> None \<Longrightarrow> map_of (map_set k x m) = (map_of m)(k \<mapsto> x)"
  by (auto simp: fun_eq_iff map_of_map_set)

lemma map_of_append_fun: "keys_ok n m \<Longrightarrow> map_of (m @ [(n, x)]) = (map_of m)(n \<mapsto> x)"
  using keys_ok_new [OF _ order_refl] by (fastforce simp: fun_eq_iff map_add_def split: option.splits)

lemma map_of_insert_fun: "map_ok m \<Longrightarrow> map_of m k = None \<Longrightarrow> map_of (snd (map_insert k x m)) = (map_of m)(k \<mapsto> x)"
  by simp

text \<open>The changes that the handlers are made of.\<close>

lemma parts_add_rqst:
  assumes inv: "parts_inv ifs H Z ops reqs timers replies acks pend n tr"
    and v: "op_view op = Some v" "v_timer v = Suc n" "timer_view h = Some (v_da v, n)" "map_of replies (v_xid v) = None"
    and scopes: "v_scopes v \<noteq> []" "scopes_ok (v_scopes v)" "{v_parent v} \<times> set (v_scopes v) \<subseteq> H"
  shows "parts_inv ifs (H - {v_parent v} \<times> set (v_scopes v)) Z (ops @ [(n, op)]) reqs (timers @ [(Suc n, h)])
    (snd (map_insert (v_xid v) n replies)) acks pend (Suc (Suc n)) tr"
proof -
  note I = inv [unfolded parts_inv_def]
  have t: "keys_ok (Suc n) timers" using I keys_ok_mono [of n timers "Suc n"] by simp
  note none = op_kind(1) [OF v(1)] timer_kind(1) [OF v(3)]
  have new: "rqst_ops ops n = None" "rqst_timers timers (v_timer v) = None"
    using I t v(2) view_new [of n ops n op_view] view_new [OF t, of "Suc n" timer_view] by auto
  have "find_inv (H - {v_parent v} \<times> set (v_scopes v)) ((rqst_ops ops)(n \<mapsto> v)) ((rqst_timers timers)(v_timer v \<mapsto> (v_da v, n)))
      (map_of reqs) ((map_of replies)(v_xid v \<mapsto> n))"
    by (rule find_inv_add [OF parts_invD(7) [OF inv] new(1) v(4) new(2) scopes])
  then show ?thesis
    using I t v none view_append(2) [of n ops op_view op v] view_append(1) [of n ops op_reg op]
      view_append(2) [OF t, of timer_view h "(v_da v, n)"] view_append(1) [OF t, of timer_reg h]
    reg_timers_ok_mono [OF reg_timers_ok_upd(1) [OF parts_invD(9) [OF inv], of "Suc n" "(v_da v, n)"], of "Suc (Suc n)"]
    unfolding parts_inv_def by (auto intro: keys_ok_intros keys_ok_mono)
qed

lemma parts_remove_rqst:
  assumes inv: "parts_inv ifs H Z ops reqs timers replies acks pend n tr" and v: "rqst_ops ops a = Some v"
  shows "parts_inv ifs (H \<union> {v_parent v} \<times> set (v_scopes v)) Z (map_erase a ops) reqs (map_erase (v_timer v) timers)
    (map_erase (v_xid v) replies) acks pend n tr"
proof -
  note I = inv [unfolded parts_inv_def]
  have f: "find_inv H (rqst_ops ops) (rqst_timers timers) (map_of reqs) (map_of replies)" using I by blast
  have "rqst_timers timers (v_timer v) = Some (v_da v, a)" using find_invD(2) [OF f, of "v_timer v" "v_da v" a] v by blast
  note t = view_kind(3) [OF this] and o = view_kind(1) [OF v]
  show ?thesis using I find_inv_remove [OF f v]
    unfolding parts_inv_def view_erase map_of_erase_fun fun_upd_idem [of "reg_ops ops", OF o] fun_upd_idem [of "reg_timers timers", OF t]
    by (auto intro: keys_ok_intros reg_timers_ok_upd)
qed

lemma parts_again_rqst:
  assumes inv: "parts_inv ifs {} Z ops reqs timers replies acks pend n tr" and v: "rqst_ops ops a = Some v"
    and w: "op_view op = Some w" "v_parent w = v_parent v" "v_scopes w = v_scopes v" "v_timer w = n" "timer_view h = Some (v_da w, a)"
    and rep: "v_xid w = v_xid v \<and> replies' = replies \<or>
      map_of (map_erase (v_xid v) replies) (v_xid w) = None \<and> replies' = snd (map_insert (v_xid w) a (map_erase (v_xid v) replies))"
  shows "parts_inv ifs {} Z (map_set a op ops) reqs (map_erase (v_timer v) timers @ [(n, h)]) replies' acks pend (Suc n) tr"
proof -
  note I = inv [unfolded parts_inv_def]
  have f: "find_inv {} (rqst_ops ops) (rqst_timers timers) (map_of reqs) (map_of replies)" using I by blast
  have rv: "map_of replies (v_xid v) = Some a" using find_invD(1) [OF f] v by blast
  have tv: "rqst_timers timers (v_timer v) = Some (v_da v, a)" using find_invD(2) [OF f, of "v_timer v" "v_da v" a] v by blast
  obtain op0 where op0: "map_of ops a = Some op0" "op_view op0 = Some v" using v by (auto simp: view_def bind_eq_Some_conv)
  have t: "keys_ok n (map_erase (v_timer v) timers)" using I keys_ok_erase by blast
  have "v_timer v < n" using tv I by (auto simp: view_def bind_eq_Some_conv keys_ok_def dest!: map_of_SomeD)
  then have new: "((rqst_timers timers)(v_timer v := None)) (v_timer w) = None" using I w(4) view_new [of n timers n timer_view] by auto
  have rep': "((map_of replies)(v_xid v := None)) (v_xid w) = None"
    "map_of replies' = ((map_of replies)(v_xid v := None))(v_xid w \<mapsto> a)" "map_ok replies'"
  proof -
    have ok: "map_ok replies" "map_ok (map_erase (v_xid v) replies)" using parts_invD(4) [OF inv] by simp_all
    show "((map_of replies)(v_xid v := None)) (v_xid w) = None" using rep by (auto simp: map_of_map_erase)
    show "map_of replies' = ((map_of replies)(v_xid v := None))(v_xid w \<mapsto> a)"
      using rep
    proof (elim disjE conjE)
      assume "v_xid w = v_xid v" "replies' = replies"
      then show ?thesis using fun_upd_idem [of "map_of replies", OF rv] by simp
    next
      assume none: "map_of (map_erase (v_xid v) replies) (v_xid w) = None"
        and replies': "replies' = snd (map_insert (v_xid w) a (map_erase (v_xid v) replies))"
      show ?thesis unfolding replies' map_of_insert_fun [OF ok(2) none] map_of_erase_fun ..
    qed
    show "map_ok replies'" using rep ok by auto
  qed
  note F = find_inv_again [OF f v w(2,3) new rep'(1)]
  note o = view_set(2) [OF op0(1), of op_view, OF w(1)] view_set(1) [OF op0(1), of op_reg op]
  have kinds: "op_reg op0 = op_reg op" using op_kind(1) [OF op0(2)] op_kind(1) [OF w(1)] by simp
  note T = view_append(2) [OF t, of timer_view, OF w(5)] view_append(1) [OF t, of timer_reg, OF timer_kind(1) [OF w(5)]]
  have k: "keys_ok (Suc n) (map_set a op ops)" "keys_ok (Suc n) reqs" "keys_ok (Suc n) (map_erase (v_timer v) timers @ [(n, h)])"
    using I t by (auto intro: keys_ok_intros keys_ok_mono)
  have "find_inv {} (rqst_ops (map_set a op ops)) (rqst_timers (map_erase (v_timer v) timers @ [(n, h)])) (map_of reqs) (map_of replies')"
    using F unfolding o T view_erase w(4) rep'(2) .
  moreover have "reg_inv Z (reg_ops (map_set a op ops)) (reg_timers (map_erase (v_timer v) timers @ [(n, h)])) (map_of acks) pend"
    using I unfolding o(2) [OF kinds] T view_erase fun_upd_idem [of "reg_timers timers", OF view_kind(3) [OF tv]] by blast
  moreover have "reg_timers_ok (Suc n) (reg_ops (map_set a op ops)) (rqst_timers (map_erase (v_timer v) timers @ [(n, h)]))"
    using parts_invD(9) [OF inv] unfolding o(2) [OF kinds] T view_erase
    by (intro reg_timers_ok_mono [OF reg_timers_ok_upd(1) [OF reg_timers_ok_upd(2)], of n]) simp_all
  ultimately show ?thesis using I k rep'(3) unfolding parts_inv_def by blast
qed

text \<open>An operation changes in what the invariant does not mention.\<close>

lemma parts_set_op:
  assumes inv: "parts_inv ifs H Z ops reqs timers replies acks pend n tr"
    and "map_of ops a = Some op0" "op_view op0 = op_view op" "op_reg op0 = op_reg op"
  shows "parts_inv ifs H Z (map_set a op ops) reqs timers replies acks pend n tr"
  using inv view_set(1) [OF assms(2), of op_view, OF assms(3)] view_set(1) [OF assms(2), of op_reg, OF assms(4)]
  unfolding parts_inv_def by (auto intro: keys_ok_intros)

lemma parts_set_request:
  assumes inv: "parts_inv ifs H Z ops reqs timers replies acks pend n tr"
    and "map_of reqs p = Some r" "fr_status r' = fr_status r"
  shows "parts_inv ifs H Z ops (map_set p r' reqs) timers replies acks pend n tr"
  using inv find_inv_request [OF parts_invD(7) [OF inv] assms(2,3)] map_of_set_fun [of reqs p r'] assms(2)
  unfolding parts_inv_def by (auto intro: keys_ok_intros)

lemma parts_done:
  assumes inv: "parts_inv ifs ({p} \<times> S) Z ops reqs timers replies acks pend n tr"
    and r: "map_of reqs p = Some r"
    and r': "map_ok (fr_status r')" "map_of (fr_status r') = (\<lambda>x. if x \<in> S then Some True else map_of (fr_status r) x)"
  shows "parts_inv ifs {} Z ops (if Complete r' then map_erase p reqs else map_set p r' reqs) timers replies acks pend n tr"
proof -
  note I = inv [unfolded parts_inv_def]
  have "map_of (if Complete r' then map_erase p reqs else map_set p r' reqs) = (map_of reqs)(p := if Complete r' then None else Some r')"
    using r by (simp add: map_of_erase_fun map_of_set_fun)
  moreover have "find_inv {} (rqst_ops ops) (rqst_timers timers) ((map_of reqs)(p := if Complete r' then None else Some r')) (map_of replies)"
    by (rule find_inv_done [OF parts_invD(7) [OF inv] r r'])
  ultimately show ?thesis using I unfolding parts_inv_def by (auto intro: keys_ok_intros)
qed

lemma parts_new_request:
  assumes inv: "parts_inv ifs {} Z ops reqs timers replies acks pend n tr"
    and r: "map_ok (fr_status r)" "map_of (fr_status r) = (\<lambda>x. if x \<in> S then Some False else None)" "S \<noteq> {}"
  shows "parts_inv ifs ({n} \<times> S) Z ops (reqs @ [(n, r)]) timers replies acks pend (Suc n) tr"
proof -
  note I = inv [unfolded parts_inv_def]
  have "find_inv ({n} \<times> S) (rqst_ops ops) (rqst_timers timers) ((map_of reqs)(n \<mapsto> r)) (map_of replies)"
    by (rule find_inv_new [OF parts_invD(7) [OF inv] keys_ok_new [OF parts_invD(2) [OF inv] order_refl] r])
  then show ?thesis using I map_of_append_fun [of n reqs r] unfolding parts_inv_def
    by (auto intro: keys_ok_intros keys_ok_mono reg_timers_ok_mono)
qed

lemma parts_add_timer:
  assumes inv: "parts_inv ifs H Z ops reqs timers replies acks pend n tr" and "timer_view h = None" "timer_reg h = None"
  shows "parts_inv ifs H Z ops reqs (timers @ [(n, h)]) replies acks pend (Suc n) tr"
  using inv assms(2,3) view_append(1) [of n timers timer_view h] view_append(1) [of n timers timer_reg h]
  unfolding parts_inv_def by (auto intro: keys_ok_intros keys_ok_mono reg_timers_ok_mono)

lemma reg_inv_timer: "reg_inv Z ro rt ack pend \<Longrightarrow> reg_inv Z ro (rt(t := None)) ack pend"
  unfolding reg_inv_def by auto

lemma parts_remove_timer:
  assumes inv: "parts_inv ifs H Z ops reqs timers replies acks pend n tr" and "rqst_timers timers t = None"
  shows "parts_inv ifs H Z ops reqs (map_erase t timers) replies acks pend n tr"
  using inv reg_inv_timer view_erase_other [OF assms(2)] unfolding parts_inv_def view_erase by (auto intro: keys_ok_intros)

lemma parts_tracker:
  "parts_inv ifs H Z ops reqs timers replies acks pend n tr \<Longrightarrow> tracker_ok ifs tr' \<Longrightarrow>
    parts_inv ifs H Z ops reqs timers replies acks pend n tr'"
  by (simp add: parts_inv_def)

lemma parts_erase_ack:
  "parts_inv ifs H Z ops reqs timers replies acks pend n tr \<Longrightarrow>
    parts_inv ifs H Z ops reqs timers replies (map_erase x acks) pend n tr"
  using reg_inv_acks [of Z _ _ "map_of acks" pend "map_of (map_erase x acks)"]
  unfolding parts_inv_def by (auto simp: map_le_def map_of_erase_fun)

lemma parts_add_reg:
  assumes inv: "parts_inv ifs H {} ops reqs timers replies acks pend n tr"
    and op: "op_timer_id op = Suc n" "timer_reg h = Some n"
    and pend: "distinct (map snd pend) \<Longrightarrow> n \<notin> snd ` set pend \<Longrightarrow> distinct (map snd pend')"
      "set pend' = insert (e_url (rg_service op), n) (set pend)"
  shows "parts_inv ifs H {} (ops @ [(n, DAReg op)]) reqs (timers @ [(Suc n, h)]) replies (snd (map_insert (op_xid op) n acks)) pend'
    (Suc (Suc n)) tr"
proof -
  note I = inv [unfolded parts_inv_def]
  have t: "keys_ok (Suc n) timers" using I keys_ok_mono [of n timers "Suc n"] by simp
  have R: "reg_inv {} (reg_ops ops) (reg_timers timers) (map_of acks) pend" using I by blast
  have new: "reg_ops ops n = None" using I view_new [of n ops n op_reg] by blast
  then have "n \<notin> snd ` set pend" using reg_invD(5) [OF R] by fastforce
  then have d: "distinct (map snd pend')" using pend(1) reg_invD(3) [OF R] by blast
  have ack: "map_of (snd (map_insert (op_xid op) n acks)) = map_of acks \<or>
      map_of (snd (map_insert (op_xid op) n acks)) = (map_of acks)(op_xid op \<mapsto> n)"
    using I by (auto split: option.splits)
  note A = reg_inv_add [OF R new d pend(2) ack, unfolded op(1)]
  have o: "rqst_ops (ops @ [(n, DAReg op)]) = rqst_ops ops" "reg_ops (ops @ [(n, DAReg op)]) = (reg_ops ops)(n \<mapsto> op)"
    using view_append(1) [OF parts_invD(1) [OF inv], of op_view "DAReg op"] view_append(2) [OF parts_invD(1) [OF inv], of op_reg "DAReg op" op]
    by simp_all
  have T: "rqst_timers (timers @ [(Suc n, h)]) = rqst_timers timers" "reg_timers (timers @ [(Suc n, h)]) = (reg_timers timers)(Suc n \<mapsto> n)"
    using view_append(1) [OF t, of timer_view h] view_append(2) [OF t, of timer_reg h n] timer_kind(2) [OF op(2)] op(2) by simp_all
  have "reg_timers_ok (Suc (Suc n)) ((reg_ops ops)(n \<mapsto> op)) (rqst_timers timers)"
    using op(1) view_new [OF t, of "Suc n" timer_view]
    by (intro reg_timers_ok_upd(4) [OF reg_timers_ok_mono [OF parts_invD(9) [OF inv]]]) simp_all
  then show ?thesis using I A t unfolding parts_inv_def o T by (auto intro: keys_ok_intros keys_ok_mono)
qed

lemma parts_free_reg:
  assumes inv: "parts_inv ifs H Z ops reqs timers replies acks pend n tr" and op: "map_of ops a = Some (DAReg op)"
  shows "parts_inv ifs H (insert a Z) (map_erase a ops) reqs (map_erase (op_timer_id op) timers) replies (map_erase (op_xid op) acks) pend n tr"
proof -
  note I = inv [unfolded parts_inv_def]
  have o: "reg_ops ops a = Some op" "rqst_ops ops a = None" using op by (simp_all add: view_def)
  have other: "rqst_timers timers (op_timer_id op) = None" using parts_invD(9) [OF inv] o(1) unfolding reg_timers_ok_def by blast
  have "reg_inv (insert a Z) ((reg_ops ops)(a := None)) ((reg_timers timers)(op_timer_id op := None)) ((map_of acks)(op_xid op := None)) pend"
    by (rule reg_inv_free [OF parts_invD(8) [OF inv] o(1)])
  then show ?thesis using I unfolding parts_inv_def view_erase map_of_erase_fun fun_upd_idem [of "rqst_ops ops", OF o(2)]
      fun_upd_idem [of "rqst_timers timers", OF other] by (auto intro: keys_ok_intros reg_timers_ok_upd)
qed

lemma parts_again_reg:
  assumes inv: "parts_inv ifs H {} ops reqs timers replies acks pend n tr" and op: "map_of ops a = Some (DAReg op)"
    and same: "op_xid op' = op_xid op" "e_url (rg_service op') = e_url (rg_service op)"
  shows "op_timer_id op' = n \<Longrightarrow> timer_reg h = Some a \<Longrightarrow>
      parts_inv ifs H {} (map_set a (DAReg op') ops) reqs (map_erase (op_timer_id op) timers @ [(n, h)]) replies acks pend (Suc n) tr"
    and "op_timer_id op' = op_timer_id op \<Longrightarrow>
      parts_inv ifs H {} (map_set a (DAReg op') ops) reqs (map_erase (op_timer_id op) timers) replies acks pend n tr"
proof -
  note I = inv [unfolded parts_inv_def]
  have o: "reg_ops ops a = Some op" using op by (simp add: view_def)
  have other: "op_timer_id op < n" "rqst_timers timers (op_timer_id op) = None"
    using parts_invD(9) [OF inv] o unfolding reg_timers_ok_def by blast+
  have R: "reg_inv {} (reg_ops ops) (reg_timers timers) (map_of acks) pend" using I by blast
  note A = reg_inv_again [OF R o same]
  have t: "keys_ok n (map_erase (op_timer_id op) timers)" using I keys_ok_erase by blast
  have O: "rqst_ops (map_set a (DAReg op') ops) = rqst_ops ops" "reg_ops (map_set a (DAReg op') ops) = (reg_ops ops)(a \<mapsto> op')"
    using view_set(1) [OF op, of op_view "DAReg op'"] view_set(2) [OF op, of op_reg "DAReg op'" op'] by simp_all
  have T: "rqst_timers (map_erase (op_timer_id op) timers) = rqst_timers timers"
    "reg_timers (map_erase (op_timer_id op) timers) = (reg_timers timers)(op_timer_id op := None)"
    using view_erase_other [OF other(2)] view_erase by auto
  show "parts_inv ifs H {} (map_set a (DAReg op') ops) reqs (map_erase (op_timer_id op) timers) replies acks pend n tr"
    if "op_timer_id op' = op_timer_id op"
    using I A(2) that other reg_timers_ok_upd(4) [OF parts_invD(9) [OF inv], of op' a] unfolding parts_inv_def O T
    by (auto intro: keys_ok_intros)
  show "parts_inv ifs H {} (map_set a (DAReg op') ops) reqs (map_erase (op_timer_id op) timers @ [(n, h)]) replies acks pend (Suc n) tr"
    if h: "op_timer_id op' = n" "timer_reg h = Some a"
  proof -
    have T': "rqst_timers (map_erase (op_timer_id op) timers @ [(n, h)]) = rqst_timers timers"
      "reg_timers (map_erase (op_timer_id op) timers @ [(n, h)]) = ((reg_timers timers)(op_timer_id op := None))(op_timer_id op' \<mapsto> a)"
      using view_append(1) [OF t, of timer_view h] view_append(2) [OF t, of timer_reg h a] timer_kind(2) [OF h(2)] h T by simp_all
    have "reg_timers_ok (Suc n) ((reg_ops ops)(a \<mapsto> op')) (rqst_timers timers)"
      using h(1) view_new [OF parts_invD(3) [OF inv] order_refl, of timer_view]
      by (intro reg_timers_ok_upd(4) [OF reg_timers_ok_mono [OF parts_invD(9) [OF inv]]]) simp_all
    then show ?thesis using I t A(1) unfolding parts_inv_def O T' by (auto intro: keys_ok_intros keys_ok_mono)
  qed
qed

lemma parts_erase_pend:
  assumes inv: "parts_inv ifs H Z ops reqs timers replies acks pend n tr" and P: "\<And>u a. (u, a) \<in> set pend \<Longrightarrow> P (u, a) \<longleftrightarrow> a \<notin> Z"
  shows "parts_inv ifs H {} ops reqs timers replies acks (filter P pend) n tr"
  using inv reg_inv_erase [OF parts_invD(8) [OF inv] P] unfolding parts_inv_def by blast

end
