(* ===== verification/SLP_Agent_Steps.thy ===== *)
theory SLP_Agent_Steps
  imports SLP_Agent_Inv "HOL-Library.Multiset"
begin

text \<open>
  What each handler of a server with pending operations does to the invariant, and which clients get their answers.
\<close>

section \<open>Answers\<close>

text \<open>The clients that were answered, and those that wait.\<close>

fun found_of :: "'ip slp_effect \<Rightarrow> nat list" where
  "found_of (Found cb urls) = [cb]"
| "found_of e = []"

definition found :: "'ip slp_effect list \<Rightarrow> nat multiset" where
  "found out = mset (concat (map found_of out))"

definition waiting :: "'ip slp_agent \<Rightarrow> nat multiset" where
  "waiting s = mset (map (fr_callback \<circ> snd) (ag_requests s))"

lemma found_simps [simp]:
  "found [] = {#}" "found (e # out) = mset (found_of e) + found out" "found (out @ out') = found out + found out'"
  by (simp_all add: found_def)

text \<open>Nothing goes wrong on the way: no number of a transaction is used twice, and no directory agent is busy.\<close>

fun smooth_effect :: "'ip slp_effect \<Rightarrow> bool" where
  "smooth_effect (Collision xid) \<longleftrightarrow> False"
| "smooth_effect (RunReply cb src error_code urls) \<longleftrightarrow> error_code \<noteq> error_number DA_BUSY_NOW"
| "smooth_effect e \<longleftrightarrow> True"

abbreviation smooth :: "'ip slp_effect list \<Rightarrow> bool" where
  "smooth out \<equiv> list_all smooth_effect out"

lemma waiting_erase:
  assumes "map_ok (ag_requests s)" "map_of (ag_requests s) p = Some r"
  shows "add_mset (fr_callback r) (mset (map (fr_callback \<circ> snd) (map_erase p (ag_requests s)))) = waiting s"
proof -
  have "add_mset (fr_callback r) (mset (map (fr_callback \<circ> snd) (map_erase p m))) = mset (map (fr_callback \<circ> snd) m)"
    if "map_ok m" "map_of m p = Some r" for m :: "(nat, find_request) stl_map"
    using that
  proof (induction m)
    case (Cons x m)
    obtain q y where x: "x = (q, y)" by fastforce
    have "map_erase p m = m" if "q = p" using Cons.prems(1) that by (auto simp: x map_erase_def filter_id_conv)
    then show ?case using Cons by (cases "q = p") (auto simp: x map_erase_def)
  qed simp
  then show ?thesis using assms by (simp add: waiting_def)
qed

lemma waiting_set:
  assumes "map_of (ag_requests s) p = Some r" "fr_callback r' = fr_callback r" "map_ok (ag_requests s)"
  shows "mset (map (fr_callback \<circ> snd) (map_set p r' (ag_requests s))) = waiting s"
proof -
  have "map (fr_callback \<circ> snd) (map_set p r' (ag_requests s)) = map (fr_callback \<circ> snd) (ag_requests s)"
    using assms map_of_is_SomeI [OF map_ok_distinct [OF assms(3)]] by (fastforce simp: map_set_def)
  then show ?thesis by (simp add: waiting_def)
qed

section \<open>Directory agents\<close>

lemma MarkAsBad_ok: "tracker_ok ifs t \<Longrightarrow> tracker_ok ifs (MarkAsBad url t)"
  by (simp add: MarkAsBad_def tracker_ok_erase)

lemma covering_list:
  assumes "tracker_ok ifs t" "scopes_ok scopes"
  obtains das where "GetMinimalCoveringList scopes t = Some das" "\<forall>da \<in> set das. scopes_ok (agent_scopes da)"
proof -
  have ok: "\<forall>a \<in> set (STLValues (m_agents t)). scopes_ok (agent_scopes a)"
    using assms(1) by (auto simp: tracker_ok_def agent_ok_def STLValues_def)
  obtain das where "cover_loop (STLValues (m_agents t)) scopes [] = Some ([] @ das)" "set das \<subseteq> set (STLValues (m_agents t))"
    using cover_loop_returns [OF assms(2) ok, of "[]"] by blast
  then show thesis using ok that by (auto simp: GetMinimalCoveringList_def)
qed

text \<open>What never changes.\<close>

abbreviation ag_setup :: "'ip slp_agent \<Rightarrow> 'ip slp_config \<times> scope_set \<times> bool" where
  "ag_setup s \<equiv> (ag_config s, m_configured_scopes (ag_server s), m_enable_da (ag_server s))"

section \<open>Looking for services\<close>

lemma op_fields [simp]:
  "op_xid (UnicastSrvRqstOperation xid retry url scopes p) = xid" "ur_parent (UnicastSrvRqstOperation xid retry url scopes p) = p"
  "ur_scopes (UnicastSrvRqstOperation xid retry url scopes p) = scopes"
  "op_xid (MulicastSrvRqstOperation xid retry scopes p) = xid" "mr_parent (MulicastSrvRqstOperation xid retry scopes p) = p"
  "mr_scopes (MulicastSrvRqstOperation xid retry scopes p) = scopes"
  "op_xid (UnicastSrvRegOperation xid retry url service) = xid" "rg_service (UnicastSrvRegOperation xid retry url service) = service"
  by (simp_all add: UnicastSrvRqstOperation_def MulicastSrvRqstOperation_def UnicastSrvRegOperation_def PendingMulticastOperation_def
      PendingOperation_def pending_operation.defs pending_multicast.defs unicast_rqst.defs multicast_rqst.defs unicast_reg.defs)

lemma map_set_last: "keys_ok n m \<Longrightarrow> map_set n y (m @ [(n, x)]) = m @ [(n, y)]"
  by (auto simp: map_set_def keys_ok_def intro!: map_idI)

lemmas agent_simps = NextXid_def new_op_def set_op_def delete_op_def new_request_def RegisterSingleTimeout_def RemoveTimeout_def
  set_replies_def set_acks_def set_tracker_def set_store_def

lemma server_triv [simp]:
  "sv\<lparr>m_pending_replies := m_pending_replies sv\<rparr> = sv" "sv\<lparr>m_pending_acks := m_pending_acks sv\<rparr> = sv"
  "sv\<lparr>m_da_tracker := m_da_tracker sv\<rparr> = sv" "sv\<lparr>m_service_store := m_service_store sv\<rparr> = sv" "s\<lparr>ag_server := ag_server s\<rparr> = s"
  by simp_all

text \<open>A server with one more operation, its timer and its entry in the map of replies.\<close>

definition rqst_added :: "'ip slp_op \<Rightarrow> slp_timer \<Rightarrow> 'ip slp_agent \<Rightarrow> 'ip slp_agent" where
  "rqst_added op timer s =
     s\<lparr>ag_xid := ag_xid s + 1, ag_ops := ag_ops s @ [(ag_next s, op)], ag_timers := ag_timers s @ [(Suc (ag_next s), timer)],
       ag_next := Suc (Suc (ag_next s)),
       ag_server := (ag_server s)\<lparr>m_pending_replies := snd (map_insert (ag_xid s) (ag_next s) (ag_replies s))\<rparr>\<rparr>"

abbreviation warning :: "'ip slp_agent \<Rightarrow> 'ip slp_effect list" where
  "warning s \<equiv> if map_of (ag_replies s) (ag_xid s) = None then [] else [Collision (ag_xid s)]"

definition da_rqst :: "nat \<Rightarrow> 'ip directory_agent \<Rightarrow> scope_set \<Rightarrow> 'ip slp_agent \<Rightarrow> unicast_rqst" where
  "da_rqst p da scopes s =
     (UnicastSrvRqstOperation (ag_xid s) (m_config_retry (ag_config s)) (agent_url da) scopes p)\<lparr>op_timer_id := Suc (ag_next s)\<rparr>"

definition sa_rqst :: "nat \<Rightarrow> scope_set \<Rightarrow> 'ip slp_agent \<Rightarrow> 'ip multicast_rqst" where
  "sa_rqst p scopes s = (MulicastSrvRqstOperation (ag_xid s) (m_config_retry (ag_config s)) scopes p)\<lparr>op_timer_id := Suc (ag_next s)\<rparr>"

lemma SendSrvRqstToDA_new:
  fixes s :: "'ip slp_agent"
  assumes "keys_ok (ag_next s) (ag_ops s)" "map_ok (ag_replies s)" "map_of (ag_requests s) p = Some r"
  shows "SendSrvRqstToDA (ag_next s) da False (snd (new_op (DARqst (UnicastSrvRqstOperation (ag_xid s) (m_config_retry (ag_config s))
      (agent_url da) scopes p)) (snd (NextXid s)))) =
    Some (Sent (agent_address da, m_slp_port (ag_config s)) (ServiceRequestCall (ag_xid s) [] (fr_service_type r) scopes) # warning s,
      rqst_added (DARqst (da_rqst p da scopes s)) (DARqstTimer (ag_next s)) s)"
proof -
  let ?op = "UnicastSrvRqstOperation (ag_xid s) (m_config_retry (ag_config s)) (agent_url da) scopes p"
  have look: "map_of (ag_ops s @ [(ag_next s, x)]) (ag_next s) = Some x" for x :: "'ip slp_op"
    using keys_ok_new [OF assms(1) order_refl] by (simp add: map_add_def)
  have busy: "?op\<lparr>ur_da_busy := False, op_timer_id := t\<rparr> = ?op\<lparr>op_timer_id := t\<rparr>" for t
    by (simp add: UnicastSrvRqstOperation_def PendingOperation_def pending_operation.defs unicast_rqst.defs)
  show ?thesis
    using assms(3) map_set_last [OF assms(1)] map_insert_present [OF assms(2), of "ag_xid s" "ag_next s"]
    by (auto simp: SendSrvRqstToDA_def Let_def agent_simps look busy rqst_added_def da_rqst_def simp del: map_of_append)
qed

lemma find_with_das_Cons:
  assumes "keys_ok (ag_next s) (ag_ops s)" "map_ok (ag_replies s)" "map_of (ag_requests s) p = Some r"
    and "DifferenceUpdate scopes (agent_scopes da) = (rest, this)" "this \<noteq> []"
  shows "find_with_das p (da # das) scopes s =
    map_option (\<lambda>(out, rest', s'). (Sent (agent_address da, m_slp_port (ag_config s))
        (ServiceRequestCall (ag_xid s) [] (fr_service_type r) this) # warning s @ out, rest', s'))
      (find_with_das p das rest (rqst_added (DARqst (da_rqst p da this s)) (DARqstTimer (ag_next s)) s))"
  using SendSrvRqstToDA_new [OF assms(1-3), of da this] assms(4,5)
  by (simp add: new_op_def NextXid_def)

lemma find_by_multicast_eq:
  assumes "keys_ok (ag_next s) (ag_ops s)" "map_ok (ag_replies s)" "map_of (ag_requests s) p = Some r"
  shows "find_by_multicast p scopes s =
    Some (Sent (m_multicast_endpoint (ag_config s)) (ServiceRequestCall (ag_xid s) [] (fr_service_type r) scopes) # warning s,
      rqst_added (SARqst (sa_rqst p scopes s)) (SARqstTimer (ag_next s)) s)"
proof -
  obtain new m where m: "map_insert (ag_xid s) (ag_next s) (ag_replies s) = (new, m)" by fastforce
  have new: "new \<longleftrightarrow> map_of (ag_replies s) (ag_xid s) = None" using map_insert_fst [OF assms(2), of "ag_xid s" "ag_next s"] m by simp
  have pr: "pm_pr_list (MulicastSrvRqstOperation xid retry scopes p) = []" for xid retry
    by (simp add: MulicastSrvRqstOperation_def PendingMulticastOperation_def PendingOperation_def pending_operation.defs
        pending_multicast.defs multicast_rqst.defs)
  show ?thesis using assms(3) map_set_last [OF assms(1)] m
    by (auto simp: find_by_multicast_def Let_def agent_simps rqst_added_def sa_rqst_def new pr)
qed

lemma rqst_added_fields [simp]:
  "ag_requests (rqst_added op h s) = ag_requests s" "ag_tracker (rqst_added op h s) = ag_tracker s"
  "ag_config (rqst_added op h s) = ag_config s" "m_configured_scopes (ag_server (rqst_added op h s)) = m_configured_scopes (ag_server s)"
  "m_enable_da (ag_server (rqst_added op h s)) = m_enable_da (ag_server s)" "ag_acks (rqst_added op h s) = ag_acks s"
  "ag_pending_ops (rqst_added op h s) = ag_pending_ops s" "ag_next (rqst_added op h s) = Suc (Suc (ag_next s))"
  "ag_ops (rqst_added op h s) = ag_ops s @ [(ag_next s, op)]"
  by (simp_all add: rqst_added_def)

text \<open>What looking for services needs: the request is there, and the maps are maps.\<close>

definition can_find :: "(string \<Rightarrow> 'ip option) \<Rightarrow> nat \<Rightarrow> 'ip slp_agent \<Rightarrow> bool" where
  "can_find ifs p s \<longleftrightarrow> map_of (ag_requests s) p \<noteq> None \<and> keys_ok (ag_next s) (ag_ops s) \<and> map_ok (ag_replies s) \<and> tracker_ok ifs (ag_tracker s)"

lemma can_find_added: "can_find ifs p s \<Longrightarrow> can_find ifs p (rqst_added op h s)"
  by (simp add: can_find_def keys_ok_append) (simp add: rqst_added_def)

lemma agent_inv_added:
  assumes "agent_inv ifs H Z s" "op_view op = Some v" "v_timer v = Suc (ag_next s)" "timer_view h = Some (v_da v, ag_next s)"
    and "v_xid v = ag_xid s" "map_of (ag_replies s) (ag_xid s) = None"
    and "v_scopes v \<noteq> []" "scopes_ok (v_scopes v)" "{v_parent v} \<times> set (v_scopes v) \<subseteq> H"
  shows "agent_inv ifs (H - {v_parent v} \<times> set (v_scopes v)) Z (rqst_added op h s)"
  using parts_add_rqst [OF assms(1) [unfolded agent_inv_def] assms(2-4) _ assms(7-9)] assms(5,6)
  by (simp add: agent_inv_def rqst_added_def)

lemma find_with_das_result:
  assumes "can_find ifs p s" "scopes_ok scopes" "\<forall>da \<in> set das. scopes_ok (agent_scopes da)"
  shows "\<exists>out rest s'. find_with_das p das scopes s = Some (out, rest, s') \<and> found out = {#} \<and> can_find ifs p s' \<and> scopes_ok rest \<and>
    ag_requests s' = ag_requests s \<and> ag_tracker s' = ag_tracker s \<and> ag_setup s' = ag_setup s \<and>
    (agent_inv ifs ({p} \<times> set scopes) Z s \<and> smooth out \<longrightarrow> agent_inv ifs ({p} \<times> set rest) Z s')"
  using assms
proof (induction das arbitrary: scopes s)
  case (Cons da das)
  obtain r where r: "keys_ok (ag_next s) (ag_ops s)" "map_ok (ag_replies s)" "map_of (ag_requests s) p = Some r"
    using Cons.prems(1) by (auto simp: can_find_def)
  let ?rest = "Difference scopes (agent_scopes da)" and ?here = "Intersection scopes (agent_scopes da)"
  note sc = scope_operations [OF Cons.prems(2), of "agent_scopes da"]
  have da: "scopes_ok (agent_scopes da)" using Cons.prems(3) by simp
  show ?case
  proof (cases "?here = []")
    case True
    then have same: "set ?rest = set scopes" using sc(5,7) [OF da] by auto
    show ?thesis using Cons.IH [OF Cons.prems(1) sc(6) [OF da]] Cons.prems(3) sc(10) [OF da] True same by simp
  next
    case False
    let ?op = "DARqst (da_rqst p da ?here s)"
    define s1 where "s1 = rqst_added ?op (DARqstTimer (ag_next s)) s"
    have inv: "agent_inv ifs ({p} \<times> set ?rest) Z s1" if "agent_inv ifs ({p} \<times> set scopes) Z s" "map_of (ag_replies s) (ag_xid s) = None"
    proof -
      have "{p} \<times> set scopes - {p} \<times> set ?here = {p} \<times> set ?rest" "{p} \<times> (set scopes \<inter> set (agent_scopes da)) \<subseteq> {p} \<times> set scopes"
        using sc(5,7) [OF da] by auto
      then show ?thesis
        using agent_inv_added [OF that(1), of ?op _ "DARqstTimer (ag_next s)"] that(2) sc(4,5) [OF da] False
        by (simp add: s1_def da_rqst_def)
    qed
    obtain out rest s' where IH: "find_with_das p das ?rest s1 = Some (out, rest, s')" "found out = {#}" "can_find ifs p s'" "scopes_ok rest"
      "ag_requests s' = ag_requests s" "ag_tracker s' = ag_tracker s" "ag_setup s' = ag_setup s"
      "agent_inv ifs ({p} \<times> set ?rest) Z s1 \<and> smooth out \<longrightarrow> agent_inv ifs ({p} \<times> set rest) Z s'"
      using Cons.IH [OF can_find_added [OF Cons.prems(1)] sc(6) [OF da], of ?op "DARqstTimer (ag_next s)"] Cons.prems(3)
      by (auto simp: s1_def)
    show ?thesis
      unfolding find_with_das_Cons [OF r sc(10) [OF da] False] s1_def [symmetric] IH(1)
      using IH(2-8) inv by (auto split: if_splits)
  qed
qed (simp add: agent_inv_def)

lemma FindServiceInScopes_result:
  assumes "can_find ifs p s" "scopes_ok scopes"
  shows "\<exists>out s'. FindServiceInScopes p scopes s = Some (out, s') \<and> found out = {#} \<and>
    ag_requests s' = ag_requests s \<and> ag_tracker s' = ag_tracker s \<and> ag_setup s' = ag_setup s \<and>
    (agent_inv ifs ({p} \<times> set scopes) Z s \<and> smooth out \<longrightarrow> agent_inv ifs {} Z s')"
proof -
  obtain das where das: "GetMinimalCoveringList scopes (ag_tracker s) = Some das" "\<forall>da \<in> set das. scopes_ok (agent_scopes da)"
    using assms covering_list [of ifs "ag_tracker s" scopes] by (auto simp: can_find_def)
  obtain out rest s1 where F: "find_with_das p das scopes s = Some (out, rest, s1)" "found out = {#}" "can_find ifs p s1" "scopes_ok rest"
    "ag_requests s1 = ag_requests s" "ag_tracker s1 = ag_tracker s" "ag_setup s1 = ag_setup s"
    "agent_inv ifs ({p} \<times> set scopes) Z s \<and> smooth out \<longrightarrow> agent_inv ifs ({p} \<times> set rest) Z s1"
    using find_with_das_result [OF assms das(2), of Z] by blast
  show ?thesis
  proof (cases "rest = []")
    case True
    then show ?thesis using das(1) F by (auto simp: FindServiceInScopes_def)
  next
    case False
    obtain r where r: "keys_ok (ag_next s1) (ag_ops s1)" "map_ok (ag_replies s1)" "map_of (ag_requests s1) p = Some r"
      using F(3) by (auto simp: can_find_def)
    let ?op = "SARqst (sa_rqst p rest s1)"
    have "agent_inv ifs {} Z (rqst_added ?op (SARqstTimer (ag_next s1)) s1)"
      if "agent_inv ifs ({p} \<times> set rest) Z s1" "map_of (ag_replies s1) (ag_xid s1) = None"
      using agent_inv_added [OF that(1), of ?op _ "SARqstTimer (ag_next s1)"] that(2) F(4) False
      by (simp add: sa_rqst_def)
    then show ?thesis
      using das(1) F False find_by_multicast_eq [OF r, of rest]
      by (auto simp: FindServiceInScopes_def and_then_def split: if_splits)
  qed
qed

text \<open>An operation can be deleted before its scopes are looked for again.\<close>

lemma rqst_added_delete: "a < ag_next s \<Longrightarrow> rqst_added op h (delete_op a s) = delete_op a (rqst_added op h s)"
  by (simp add: rqst_added_def delete_op_def map_erase_def)

lemma rqst_delete [simp]: "da_rqst p da sc (delete_op a s) = da_rqst p da sc s" "sa_rqst p sc (delete_op a s) = sa_rqst p sc s"
  by (simp_all add: da_rqst_def sa_rqst_def delete_op_def)

lemma delete_fields [simp]:
  "ag_requests (delete_op a s) = ag_requests s" "ag_server (delete_op a s) = ag_server s" "ag_config (delete_op a s) = ag_config s"
  "ag_next (delete_op a s) = ag_next s" "ag_xid (delete_op a s) = ag_xid s" "ag_ops (delete_op a s) = map_erase a (ag_ops s)"
  by (simp_all add: delete_op_def)

lemma can_find_delete: "can_find ifs p s \<Longrightarrow> can_find ifs p (delete_op a s)"
  by (simp add: can_find_def keys_ok_erase)

lemma find_with_das_delete:
  assumes "can_find ifs p s" "scopes_ok scopes" "\<forall>da \<in> set das. scopes_ok (agent_scopes da)" "a < ag_next s"
  shows "find_with_das p das scopes (delete_op a s) = map_option (\<lambda>(out, rest, s'). (out, rest, delete_op a s')) (find_with_das p das scopes s) \<and>
    (\<forall>out rest s'. find_with_das p das scopes s = Some (out, rest, s') \<longrightarrow> a < ag_next s')"
  using assms
proof (induction das arbitrary: scopes s)
  case (Cons da das)
  obtain r where r: "keys_ok (ag_next s) (ag_ops s)" "map_ok (ag_replies s)" "map_of (ag_requests s) p = Some r"
    using Cons.prems(1) by (auto simp: can_find_def)
  have r': "keys_ok (ag_next (delete_op a s)) (ag_ops (delete_op a s))" "map_ok (ag_replies (delete_op a s))"
    "map_of (ag_requests (delete_op a s)) p = Some r" using r by (simp_all add: keys_ok_erase)
  have da: "scopes_ok (agent_scopes da)" using Cons.prems(3) by simp
  note sc = scope_operations [OF Cons.prems(2) da]
  show ?case
  proof (cases "Intersection scopes (agent_scopes da) = []")
    case True
    then show ?thesis using Cons.IH [OF Cons.prems(1) sc(6)] Cons.prems(3,4) sc(10) by simp
  next
    case False
    let ?op = "DARqst (da_rqst p da (Intersection scopes (agent_scopes da)) s)" and ?h = "DARqstTimer (ag_next s)"
    have lt: "a < ag_next (rqst_added ?op ?h s)" using Cons.prems(4) by simp
    note IH = Cons.IH [OF can_find_added [OF Cons.prems(1)] sc(6) _ lt]
    show ?thesis
      unfolding find_with_das_Cons [OF r sc(10) False] find_with_das_Cons [OF r' sc(10) False]
      using IH Cons.prems(3,4) rqst_added_delete [OF Cons.prems(4), of ?op ?h]
      by (auto simp: option.map_comp o_def split_beta)
  qed
qed simp

lemma FindServiceInScopes_delete:
  assumes "can_find ifs p s" "scopes_ok scopes" "a < ag_next s"
  shows "map_option (\<lambda>(out, s'). (out, delete_op a s')) (FindServiceInScopes p scopes s) = FindServiceInScopes p scopes (delete_op a s)"
proof -
  obtain das where das: "GetMinimalCoveringList scopes (ag_tracker s) = Some das" "\<forall>da \<in> set das. scopes_ok (agent_scopes da)"
    using assms covering_list [of ifs "ag_tracker s" scopes] by (auto simp: can_find_def)
  obtain out rest s1 where F: "find_with_das p das scopes s = Some (out, rest, s1)" "can_find ifs p s1"
    using find_with_das_result [OF assms(1,2) das(2)] by blast
  note D = find_with_das_delete [OF assms(1,2) das(2) assms(3)]
  obtain r where r: "keys_ok (ag_next s1) (ag_ops s1)" "map_ok (ag_replies s1)" "map_of (ag_requests s1) p = Some r"
    using F(2) by (auto simp: can_find_def)
  have r': "keys_ok (ag_next (delete_op a s1)) (ag_ops (delete_op a s1))" "map_ok (ag_replies (delete_op a s1))"
    "map_of (ag_requests (delete_op a s1)) p = Some r" using r by (simp_all add: keys_ok_erase)
  have lt: "a < ag_next s1" using D F(1) by blast
  show ?thesis
    using das(1) F(1) D find_by_multicast_eq [OF r, of rest] find_by_multicast_eq [OF r', of rest]
      rqst_added_delete [OF lt, of "SARqst (sa_rqst p rest s1)" "SARqstTimer (ag_next s1)"]
    by (simp add: FindServiceInScopes_def and_then_def)
qed

section \<open>Handlers of answers and timeouts\<close>

text \<open>A step that goes well: it returns, keeps the invariant and answers clients that wait, \<open>cbs\<close> being new ones.\<close>

definition good_step :: "(string \<Rightarrow> 'ip option) \<Rightarrow> nat multiset \<Rightarrow> 'ip slp_agent \<Rightarrow> 'ip agent_run \<Rightarrow> bool" where
  "good_step ifs cbs s r \<longleftrightarrow>
     (\<exists>out s'. r = Some (out, s') \<and> ag_setup s' = ag_setup s \<and>
        (smooth out \<longrightarrow> agent_inv ifs {} {} s' \<and> found out + waiting s' = waiting s + cbs))"

lemma good_stepI:
  "r = Some (out, s') \<Longrightarrow> ag_setup s' = ag_setup s \<Longrightarrow> (smooth out \<Longrightarrow> agent_inv ifs {} {} s') \<Longrightarrow>
    (smooth out \<Longrightarrow> found out + waiting s' = waiting s + cbs) \<Longrightarrow> good_step ifs cbs s r"
  unfolding good_step_def by blast

lemma agent_invD:
  assumes "agent_inv ifs H Z s"
  shows "keys_ok (ag_next s) (ag_ops s)" "keys_ok (ag_next s) (ag_requests s)" "keys_ok (ag_next s) (ag_timers s)"
    "map_ok (ag_replies s)" "map_ok (ag_acks s)" "tracker_ok ifs (ag_tracker s)"
    "find_inv H (rqst_ops (ag_ops s)) (rqst_timers (ag_timers s)) (map_of (ag_requests s)) (map_of (ag_replies s))"
    "reg_inv Z (reg_ops (ag_ops s)) (reg_timers (ag_timers s)) (map_of (ag_acks s)) (ag_pending_ops s)"
    "reg_timers_ok (ag_next s) (reg_ops (ag_ops s)) (rqst_timers (ag_timers s))" "map_ok (ag_requests s)"
  using parts_invD [OF assms [unfolded agent_inv_def]] by (blast | simp add: keys_ok_def)+

lemma map_erase_set [simp]: "map_erase k (map_set k x m) = map_erase k m"
  by (induction m) (auto simp: map_erase_def map_set_def)

lemma map_set_set [simp]: "map_set k x (map_set k y m) = map_set k x m"
  by (auto simp: map_set_def)

lemma update_check:
  assumes "map_of (ag_requests s) p = Some r"
  shows "update_request p f s = Some (s\<lparr>ag_requests := map_set p (f r) (ag_requests s)\<rparr>)"
    "CheckIfFindSrvComplete p (s\<lparr>ag_requests := map_set p (f r) (ag_requests s)\<rparr>) =
      Some (if Complete (f r) then [Found (fr_callback (f r)) (fr_urls (f r))] else [],
        s\<lparr>ag_requests := if Complete (f r) then map_erase p (ag_requests s) else map_set p (f r) (ag_requests s)\<rparr>)"
  using assms by (simp_all add: update_request_def CheckIfFindSrvComplete_def map_of_map_set)

lemma complete_scopes:
  assumes inv: "agent_inv ifs ({p} \<times> set scopes) {} s" and r: "map_of (ag_requests s) p = Some r"
    and r': "map_ok (fr_status r')" "map_of (fr_status r') = (\<lambda>x. if x \<in> set scopes then Some True else map_of (fr_status r) x)"
      "fr_callback r' = fr_callback r"
  defines "s' \<equiv> s\<lparr>ag_requests := if Complete r' then map_erase p (ag_requests s) else map_set p r' (ag_requests s)\<rparr>"
  shows "agent_inv ifs {} {} s'" "found (if Complete r' then [Found (fr_callback r') urls] else []) + waiting s' = waiting s"
proof -
  show "agent_inv ifs {} {} s'"
    using parts_done [OF inv [unfolded agent_inv_def] r r'(1,2)] unfolding agent_inv_def s'_def by (simp split del: if_split)
  show "found (if Complete r' then [Found (fr_callback r') urls] else []) + waiting s' = waiting s"
    using waiting_erase [OF agent_invD(10) [OF inv] r] waiting_set [OF r r'(3) agent_invD(10) [OF inv]] r'(3)
    by (simp add: s'_def waiting_def)
qed

text \<open>A server without an operation, its timer and its entry.\<close>

definition rqst_removed :: "nat \<Rightarrow> rqst_view \<Rightarrow> 'ip slp_agent \<Rightarrow> 'ip slp_agent" where
  "rqst_removed a v s = delete_op a (RemoveTimeout (v_timer v) (set_replies (map_erase (v_xid v) (ag_replies s)) s))"

lemma agent_inv_removed:
  assumes "agent_inv ifs {} {} s" "rqst_ops (ag_ops s) a = Some v"
  shows "agent_inv ifs ({v_parent v} \<times> set (v_scopes v)) {} (rqst_removed a v s)"
  using parts_remove_rqst [OF assms(1) [unfolded agent_inv_def] assms(2)]
  by (simp add: agent_inv_def rqst_removed_def agent_simps)

lemma rqst_facts:
  assumes inv: "agent_inv ifs {} {} s" and v: "rqst_ops (ag_ops s) a = Some v"
  obtains r where "map_of (ag_requests s) (v_parent v) = Some r" "map_ok (fr_status r)" "scopes_ok (v_scopes v)"
    "map_of (ag_replies s) (v_xid v) = Some a" "a < ag_next s"
proof -
  note f = find_invD [OF agent_invD(7) [OF inv]]
  obtain r where "map_of (ag_requests s) (v_parent v) = Some r" using f(4) [OF v] by blast
  moreover have "a < ag_next s" using v keys_ok_new [OF agent_invD(1) [OF inv], of a] by (force simp: view_def not_less [symmetric])
  ultimately show thesis using that f(1,3,6) v by blast
qed

lemma update_check_removed:
  fixes urls :: "url_entry list"
  assumes inv: "agent_inv ifs {} {} s" and v: "rqst_ops (ag_ops s) a = Some v" and r: "map_of (ag_requests s) (v_parent v) = Some r"
  defines "r' \<equiv> fold MarkScopeAsDone (v_scopes v) (r\<lparr>fr_urls := urls\<rparr>)"
  shows "good_step ifs {#} s (Some (if Complete r' then [Found (fr_callback r') (fr_urls r')] else [],
    (rqst_removed a v s)\<lparr>ag_requests := if Complete r' then map_erase (v_parent v) (ag_requests s) else map_set (v_parent v) r' (ag_requests s)\<rparr>))"
proof -
  have same: "ag_requests (rqst_removed a v s) = ag_requests s" "waiting (rqst_removed a v s) = waiting s"
    "ag_setup (rqst_removed a v s) = ag_setup s" by (simp_all add: rqst_removed_def agent_simps waiting_def)
  have ok: "map_ok (fr_status (r\<lparr>fr_urls := urls\<rparr>))" using find_invD(6) [OF agent_invD(7) [OF inv] r] by simp
  note m = fold_MarkScopeAsDone [OF ok, of "v_scopes v"]
  have m': "map_ok (fr_status r')" "map_of (fr_status r') = (\<lambda>x. if x \<in> set (v_scopes v) then Some True else map_of (fr_status r) x)"
    "fr_callback r' = fr_callback r" using m unfolding r'_def by (simp_all cong: if_cong)
  note c = complete_scopes [OF agent_inv_removed [OF inv v], unfolded same, OF r m']
  show ?thesis
  proof (rule good_stepI [OF refl])
    show "ag_setup ((rqst_removed a v s)\<lparr>ag_requests := if Complete r' then map_erase (v_parent v) (ag_requests s)
      else map_set (v_parent v) r' (ag_requests s)\<rparr>) = ag_setup s" using same(3) by simp
  qed (use c in \<open>simp_all split del: if_split\<close>)
qed

lemma ReceivedDASrvReply_step:
  assumes inv: "agent_inv ifs {} {} s" and op: "map_of (ag_ops s) a = Some (DARqst op)"
  shows "\<exists>out s'. ReceivedDASrvReply a error_code urls s = Some (out, s') \<and> ag_setup s' = ag_setup s"
    and "error_code \<noteq> error_number DA_BUSY_NOW \<Longrightarrow> good_step ifs {#} s (ReceivedDASrvReply a error_code urls s)"
proof -
  define v where "v = \<lparr>v_da = True, v_xid = op_xid op, v_timer = op_timer_id op, v_parent = ur_parent op, v_scopes = ur_scopes op\<rparr>"
  have v: "rqst_ops (ag_ops s) a = Some v" using op by (simp add: view_def v_def)
  have vs: "v_parent v = ur_parent op" "v_scopes v = ur_scopes op" "v_timer v = op_timer_id op" "v_xid v = op_xid op" by (simp_all add: v_def)
  obtain r where r: "map_of (ag_requests s) (v_parent v) = Some r" "scopes_ok (v_scopes v)" "a < ag_next s"
    by (rule rqst_facts [OF inv v]) (rule that)
  show good: "good_step ifs {#} s (ReceivedDASrvReply a error_code urls s)" if busy: "error_code \<noteq> error_number DA_BUSY_NOW"
  proof (cases "error_code = error_number SLP_OK")
    case True
    let ?s1 = "set_replies (map_erase (op_xid op) (ag_replies s)) s"
    let ?f = "\<lambda>r. fold MarkScopeAsDone (ur_scopes op) (r\<lparr>fr_urls := fr_urls r @ urls\<rparr>)"
    have r1: "map_of (ag_requests ?s1) (ur_parent op) = Some r" using r(1) by (simp add: vs set_replies_def)
    have "ReceivedDASrvReply a error_code urls s =
      Some (if Complete (?f r) then [Found (fr_callback (?f r)) (fr_urls (?f r))] else [],
        (rqst_removed a v s)\<lparr>ag_requests := if Complete (?f r) then map_erase (v_parent v) (ag_requests s)
           else map_set (v_parent v) (?f r) (ag_requests s)\<rparr>)"
      using True op update_check [OF r1, of ?f]
      by (simp add: ReceivedDASrvReply_def vs rqst_removed_def agent_simps)
    then show ?thesis using update_check_removed [OF inv v r(1), of "fr_urls r @ urls"] unfolding vs by (simp only:)
  next
    case False
    define s3 where "s3 = set_tracker (MarkAsBad (ur_da_url op) (ag_tracker s)) (RemoveTimeout (op_timer_id op) (set_replies (map_erase (op_xid op) (ag_replies s)) s))"
    have can: "can_find ifs (ur_parent op) s3"
      using agent_invD [OF inv] r(1) by (simp add: can_find_def s3_def agent_simps vs MarkAsBad_ok)
    have "agent_inv ifs ({ur_parent op} \<times> set (ur_scopes op)) {} (delete_op a s3)"
      using parts_tracker [OF agent_inv_removed [OF inv v, unfolded agent_inv_def] MarkAsBad_ok [OF agent_invD(6) [OF inv], of "ur_da_url op"]]
      by (simp add: agent_inv_def s3_def rqst_removed_def agent_simps vs)
    moreover have "can_find ifs (ur_parent op) (delete_op a s3)" by (rule can_find_delete [OF can])
    moreover have "ReceivedDASrvReply a error_code urls s = FindServiceInScopes (ur_parent op) (ur_scopes op) (delete_op a s3)"
      using FindServiceInScopes_delete [OF can r(2) [unfolded vs], of a] r(3) False busy op
      by (simp add: ReceivedDASrvReply_def s3_def agent_simps)
    ultimately show ?thesis
      using FindServiceInScopes_result [of ifs "ur_parent op" "delete_op a s3" "ur_scopes op" "{}"] r(2) vs
      unfolding good_step_def by (auto simp: waiting_def s3_def agent_simps)
  qed
  show "\<exists>out s'. ReceivedDASrvReply a error_code urls s = Some (out, s') \<and> ag_setup s' = ag_setup s"
  proof (cases "error_code = error_number DA_BUSY_NOW")
    case True
    then show ?thesis using op by (simp add: ReceivedDASrvReply_def agent_simps)
  next
    case False
    then show ?thesis using good unfolding good_step_def by blast
  qed
qed

lemma timer_fires:
  assumes inv: "agent_inv ifs {} {} s" and t: "map_of (ag_timers s) t = Some timer" "timer_view timer = Some (da, a)"
  obtains op v where "map_of (ag_ops s) a = Some op" "op_view op = Some v" "v_timer v = t" "v_da v = da" "rqst_ops (ag_ops s) a = Some v"
proof -
  have "rqst_timers (ag_timers s) t = Some (da, a)" using t by (simp add: view_def)
  then obtain v where "rqst_ops (ag_ops s) a = Some v" "v_timer v = t" "v_da v = da" using find_invD(2) [OF agent_invD(7) [OF inv]] by blast
  then show thesis using that by (auto simp: view_def bind_eq_Some_conv)
qed

lemma RequestServiceDATimeout_step:
  assumes inv: "agent_inv ifs {} {} s" and t: "map_of (ag_timers s) t = Some (DARqstTimer a)"
  shows "good_step ifs {#} s (RequestServiceDATimeout a (RemoveTimeout t s))"
proof -
  obtain op0 v where v0: "map_of (ag_ops s) a = Some op0" "op_view op0 = Some v" "v_timer v = t" "v_da v" and v: "rqst_ops (ag_ops s) a = Some v"
    by (rule timer_fires [OF inv t timer_view.simps(1)]) (rule that; simp)
  then obtain op where op: "op0 = DARqst op" by (cases op0) auto
  have vs: "v_parent v = ur_parent op" "v_scopes v = ur_scopes op" "op_timer_id op = t" "v_xid v = op_xid op" using v0 op by auto
  obtain r where r: "map_of (ag_requests s) (v_parent v) = Some r" "scopes_ok (v_scopes v)" "map_of (ag_replies s) (v_xid v) = Some a" "a < ag_next s"
    by (rule rqst_facts [OF inv v]) (rule that)
  let ?op1 = "UpdateRetryTime op"
  have op1: "ur_parent ?op1 = ur_parent op" "ur_scopes ?op1 = ur_scopes op" "op_xid ?op1 = op_xid op" "ur_da_url ?op1 = ur_da_url op"
    by (simp_all add: UpdateRetryTime_def)
  define s1 where "s1 = set_op a (DARqst ?op1) (RemoveTimeout t s)"
  have restart: "good_step ifs {#} s (map_option (\<lambda>(out, s). (out, delete_op a s))
      (FindServiceInScopes (ur_parent op) (ur_scopes op) (CancelPendingSrvRqstAck (op_xid op) (set_tracker tr s1))))"
    if tr: "tracker_ok ifs tr" for tr
  proof -
    define s2 where "s2 = CancelPendingSrvRqstAck (op_xid op) (set_tracker tr s1)"
    have can: "can_find ifs (ur_parent op) s2"
      using agent_invD [OF inv] r(1) tr by (simp add: can_find_def s1_def s2_def CancelPendingSrvRqstAck_def agent_simps vs keys_ok_set)
    have "agent_inv ifs ({ur_parent op} \<times> set (ur_scopes op)) {} (delete_op a s2)"
      using parts_tracker [OF agent_inv_removed [OF inv v, unfolded agent_inv_def] tr]
      by (simp add: agent_inv_def s1_def s2_def CancelPendingSrvRqstAck_def rqst_removed_def agent_simps vs v0)
    moreover have "can_find ifs (ur_parent op) (delete_op a s2)" by (rule can_find_delete [OF can])
    moreover have "map_option (\<lambda>(out, s). (out, delete_op a s)) (FindServiceInScopes (ur_parent op) (ur_scopes op) s2) =
        FindServiceInScopes (ur_parent op) (ur_scopes op) (delete_op a s2)"
      using FindServiceInScopes_delete [OF can r(2) [unfolded vs], of a] r(4)
      by (simp add: s1_def s2_def CancelPendingSrvRqstAck_def agent_simps)
    ultimately show ?thesis
      using FindServiceInScopes_result [of ifs "ur_parent op" "delete_op a s2" "ur_scopes op" "{}"] r(2) vs
      unfolding good_step_def s2_def by (auto simp: waiting_def s1_def CancelPendingSrvRqstAck_def agent_simps)
  qed
  have same: "set_tracker (ag_tracker s1) s1 = s1" by (simp add: set_tracker_def)
  have again: "good_step ifs {#} s (SendSrvRqstToDA a da True s1)" for da
  proof -
    let ?op2 = "?op1\<lparr>ur_da_busy := False, op_timer_id := ag_next s\<rparr>"
    have "SendSrvRqstToDA a da True s1 = Some ([Sent (agent_address da, m_slp_port (ag_config s))
        (ServiceRequestCall (op_xid op) [] (fr_service_type r) (ur_scopes op))],
        s\<lparr>ag_timers := map_erase t (ag_timers s) @ [(ag_next s, DARqstTimer a)], ag_next := Suc (ag_next s),
          ag_ops := map_set a (DARqst ?op2) (ag_ops s)\<rparr>)"
      using r(1,3) v0(1) by (simp add: SendSrvRqstToDA_def s1_def agent_simps map_of_map_set op1 vs)
    moreover have "parts_inv ifs {} {} (map_set a (DARqst ?op2) (ag_ops s)) (ag_requests s)
        (map_erase (v_timer v) (ag_timers s) @ [(ag_next s, DARqstTimer a)]) (ag_replies s) (ag_acks s) (ag_pending_ops s) (Suc (ag_next s)) (ag_tracker s)"
      by (rule parts_again_rqst [OF inv [unfolded agent_inv_def] v, where w = "v\<lparr>v_timer := ag_next s\<rparr>"]) (use v0 op op1 in auto)
    ultimately show ?thesis using v0(3) by (simp add: good_step_def agent_inv_def waiting_def)
  qed
  show ?thesis
    using restart [OF MarkAsBad_ok [OF agent_invD(6) [OF inv], of "ur_da_url op"]] restart [OF agent_invD(6) [OF inv]] again
      v0(1) op r(3) same
    by (auto simp: RequestServiceDATimeout_def s1_def [symmetric] op1 vs Let_def RemoveTimeout_def split: option.splits)
      (simp_all add: s1_def agent_simps)
qed

lemma RequestServiceMulticastTimeout_step:
  assumes inv: "agent_inv ifs {} {} s" and t: "map_of (ag_timers s) t = Some (SARqstTimer a)"
  shows "good_step ifs {#} s (RequestServiceMulticastTimeout a (RemoveTimeout t s))"
proof -
  obtain x v where v0: "map_of (ag_ops s) a = Some x" "op_view x = Some v" "v_timer v = t" "\<not> v_da v" and v: "rqst_ops (ag_ops s) a = Some v"
    by (rule timer_fires [OF inv t timer_view.simps(2)]) (rule that; simp)
  then obtain op0 where x: "x = SARqst op0" by (cases x) auto
  have vs: "v_parent v = mr_parent op0" "v_scopes v = mr_scopes op0" "op_timer_id op0 = t" "v_xid v = op_xid op0" using v0 x by auto
  obtain r where r: "map_of (ag_requests s) (v_parent v) = Some r" "map_of (ag_replies s) (v_xid v) = Some a"
    by (rule rqst_facts [OF inv v]) (rule that)
  let ?op = "UpdateRetryTime op0"
  have op: "mr_parent ?op = mr_parent op0" "mr_scopes ?op = mr_scopes op0" "op_xid ?op = op_xid op0"
    by (simp_all add: UpdateRetryTime_def)
  let ?done = "(\<not> pm_pr_list_changed ?op \<and> op_attempt op0 \<noteq> 1) \<or> length (pm_pr_list ?op) > MAX_PR_LIST_SIZE \<or>
      op_total_time ?op \<ge> m_config_mc_max (ag_config s)"
  define s1 where "s1 = set_op a (SARqst ?op) (RemoveTimeout t s)"
  show ?thesis
  proof (cases ?done)
    case True
    let ?s2 = "set_replies (map_erase (op_xid op0) (ag_replies s1)) s1"
    let ?f = "fold MarkScopeAsDone (mr_scopes op0)"
    have r2: "map_of (ag_requests ?s2) (mr_parent op0) = Some r" using r(1) by (simp add: vs s1_def agent_simps)
    have "RequestServiceMulticastTimeout a (RemoveTimeout t s) =
      Some (if Complete (?f r) then [Found (fr_callback (?f r)) (fr_urls (?f r))] else [],
        (rqst_removed a v s)\<lparr>ag_requests := if Complete (?f r) then map_erase (v_parent v) (ag_requests s)
           else map_set (v_parent v) (?f r) (ag_requests s)\<rparr>)"
      using True v0(1,3) x r(2) update_check [OF r2, of ?f]
      by (simp add: RequestServiceMulticastTimeout_def vs op rqst_removed_def agent_simps s1_def)
    moreover have "r\<lparr>fr_urls := fr_urls r\<rparr> = r" by simp
    ultimately show ?thesis using update_check_removed [OF inv v r(1), of "fr_urls r"] unfolding vs by (simp only:)
  next
    case False
    define op1 where "op1 = (if pm_pr_list_changed ?op then ?op\<lparr>pm_pr_list_changed := False, op_xid := ag_xid s\<rparr> else ?op)"
    define rep where "rep = (if pm_pr_list_changed ?op then map_insert (ag_xid s) a (map_erase (op_xid op0) (ag_replies s)) else (True, ag_replies s))"
    have E: "RequestServiceMulticastTimeout a (RemoveTimeout t s) =
      Some ((if fst rep then [] else [Collision (ag_xid s)]) @ [Sent (m_multicast_endpoint (ag_config s))
          (ServiceRequestCall (op_xid op1) (pm_pr_list op1) (fr_service_type r) (mr_scopes op1))],
        s\<lparr>ag_timers := map_erase t (ag_timers s) @ [(ag_next s, SARqstTimer a)], ag_next := Suc (ag_next s),
          ag_ops := map_set a (SARqst (op1\<lparr>op_timer_id := ag_next s\<rparr>)) (ag_ops s),
          ag_xid := if pm_pr_list_changed ?op then ag_xid s + 1 else ag_xid s,
          ag_server := (ag_server s)\<lparr>m_pending_replies := snd rep\<rparr>\<rparr>)"
      using False v0(1) x r
      by (cases "pm_pr_list_changed ?op") (simp_all add: RequestServiceMulticastTimeout_def vs op op1_def rep_def agent_simps split_beta Let_def)
    have new: "v_xid v = op_xid op1 \<and> snd rep = ag_replies s \<or> map_of (map_erase (v_xid v) (ag_replies s)) (op_xid op1) = None \<and>
        snd rep = snd (map_insert (op_xid op1) a (map_erase (v_xid v) (ag_replies s)))" if "fst rep"
      using that map_insert_fst [of "map_erase (op_xid op0) (ag_replies s)" "ag_xid s" a] agent_invD(4) [OF inv]
      by (simp add: rep_def op1_def vs op split: if_splits)
    have fields: "mr_parent op1 = mr_parent op0" "mr_scopes op1 = mr_scopes op0" by (simp_all add: op1_def op)
    have "parts_inv ifs {} {} (map_set a (SARqst (op1\<lparr>op_timer_id := ag_next s\<rparr>)) (ag_ops s)) (ag_requests s)
        (map_erase (v_timer v) (ag_timers s) @ [(ag_next s, SARqstTimer a)]) (snd rep) (ag_acks s) (ag_pending_ops s) (Suc (ag_next s)) (ag_tracker s)"
      if "fst rep"
      by (rule parts_again_rqst [OF inv [unfolded agent_inv_def] v, where w = "v\<lparr>v_timer := ag_next s, v_xid := op_xid op1\<rparr>"])
        (use v0 x fields new [OF that] in auto)
    then show ?thesis using v0(3) unfolding E good_step_def by (simp add: agent_inv_def waiting_def)
  qed
qed

lemma AddPR_fields [simp]:
  "op_xid (AddPR src op) = op_xid op" "op_timer_id (AddPR src op) = op_timer_id op"
  "mr_parent (AddPR src op') = mr_parent op'" "mr_scopes (AddPR src op') = mr_scopes op'"
  by (simp_all add: AddPR_def split_beta)

lemma ReceivedSASrvReply_step:
  assumes inv: "agent_inv ifs {} {} s" and op: "map_of (ag_ops s) a = Some (SARqst op)"
  shows "good_step ifs {#} s (ReceivedSASrvReply a src error_code urls s)"
proof -
  obtain v where v: "rqst_ops (ag_ops s) a = Some v" "v_parent v = mr_parent op" using op by (simp add: view_def)
  obtain r where r: "map_of (ag_requests s) (mr_parent op) = Some r" by (rule rqst_facts [OF inv v(1)]) (rule that, simp add: v(2))
  note P = parts_set_request [OF inv [unfolded agent_inv_def] r, of "r\<lparr>fr_urls := fr_urls r @ urls\<rparr>"]
  show ?thesis
  proof (cases "error_code = error_number SLP_OK")
    case True
    have "parts_inv ifs {} {} (map_set a (SARqst (AddPR src op)) (ag_ops s)) (map_set (mr_parent op) (r\<lparr>fr_urls := fr_urls r @ urls\<rparr>) (ag_requests s))
      (ag_timers s) (ag_replies s) (ag_acks s) (ag_pending_ops s) (ag_next s) (ag_tracker s)"
      by (rule parts_set_op [OF P op]) simp_all
    then show ?thesis
      using True op r waiting_set [OF r, of "r\<lparr>fr_urls := fr_urls r @ urls\<rparr>"] agent_invD(10) [OF inv]
      by (simp add: ReceivedSASrvReply_def update_request_def good_step_def agent_inv_def waiting_def set_op_def)
  next
    case False
    then show ?thesis using op inv by (simp add: ReceivedSASrvReply_def good_step_def)
  qed
qed

section \<open>Calls of clients\<close>

lemma PendingSrvRqst_status:
  "map_ok (fr_status (PendingSrvRqst t scopes cb))"
  "map_of (fr_status (PendingSrvRqst t scopes cb)) = (\<lambda>x. if x \<in> set scopes then Some False else None)"
proof -
  have "map_ok m \<Longrightarrow> map_ok (fold (\<lambda>scope m. snd (STLReplace m scope False)) scopes m) \<and>
      map_of (fold (\<lambda>scope m. snd (STLReplace m scope False)) scopes m) = (\<lambda>x. if x \<in> set scopes then Some False else map_of m x)" for m
    by (induction scopes arbitrary: m) (auto simp: STLReplace_ok STLReplace_lookup fun_eq_iff)
  from this [of "[]"] show "map_ok (fr_status (PendingSrvRqst t scopes cb))"
    "map_of (fr_status (PendingSrvRqst t scopes cb)) = (\<lambda>x. if x \<in> set scopes then Some False else None)"
    by (simp_all add: PendingSrvRqst_def cong: if_cong)
qed

lemma Server_FindService_step:
  assumes inv: "agent_inv ifs {} {} s" and "scopes \<noteq> []" "scopes_ok (m_configured_scopes (ag_server s))"
  shows "good_step ifs {#cb#} s (Server_FindService now scopes service_type cb s)"
proof -
  let ?sv = "ag_server s" and ?all = "ScopeSet_of_set scopes"
  have all: "scopes_ok ?all" "?all \<noteq> []" using ScopeSet_of_set_laws [of scopes] assms(2) by auto
  obtain rest da where d: "(if m_enable_da ?sv then DifferenceUpdate ?all (m_configured_scopes ?sv) else (?all, ?all)) = (rest, da)"
    by fastforce
  have rest: "scopes_ok rest" "m_enable_da ?sv \<or> rest \<noteq> []"
    using d all scope_operations [OF all(1) assms(3)] by (auto split: if_splits)
  obtain urls store where L: "(if m_enable_da ?sv \<and> da = [] then ([], m_service_store ?sv)
      else Lookup now da service_type 0 (m_service_store ?sv)) = (urls, store)" by fastforce
  show ?thesis
  proof (cases "m_enable_da ?sv \<and> rest = []")
    case True
    then show ?thesis using d L inv
      by (simp add: Server_FindService_def good_step_def agent_inv_def waiting_def set_store_def)
  next
    case False
    let ?r = "(PendingSrvRqst service_type rest cb)\<lparr>fr_urls := urls\<rparr>"
    define s2 where "s2 = snd (new_request ?r (set_store store s))"
    have E: "Server_FindService now scopes service_type cb s = FindServiceInScopes (ag_next s) rest s2"
      using False unfolding Server_FindService_def Let_def d prod.case L by (auto simp: s2_def agent_simps)
    have "set rest \<noteq> {}" using rest(2) False by auto
    then have i2: "agent_inv ifs ({ag_next s} \<times> set rest) {} s2"
      using parts_new_request [OF inv [unfolded agent_inv_def], of ?r "set rest"] PendingSrvRqst_status [of service_type rest cb]
      by (simp add: agent_inv_def s2_def agent_simps)
    have "map_of (ag_requests s2) (ag_next s) \<noteq> None"
      using map_of_append_fun [OF agent_invD(2) [OF inv], of ?r] by (simp add: s2_def agent_simps)
    then have can: "can_find ifs (ag_next s) s2" using agent_invD [OF i2] by (simp add: can_find_def)
    have "waiting s2 = waiting s + {#cb#}" "ag_setup s2 = ag_setup s"
      by (simp_all add: waiting_def s2_def agent_simps PendingSrvRqst_def)
    then show ?thesis unfolding E good_step_def
      using FindServiceInScopes_result [OF can rest(1), of "{}"] i2 by (auto simp: waiting_def)
  qed
qed

end
