(* ===== verification/SLP_Agent_Run.thy ===== *)
theory SLP_Agent_Run
  imports SLP_Agent_Steps
begin

text \<open>
  Registrations, the search for directory agents, and all events of a server: every client that looks for a service gets one
  answer, and no object is used after it was deleted.
\<close>

section \<open>Registrations\<close>

lemma FreePendingDAOperation_result:
  assumes inv: "agent_inv ifs H Z s" and op: "map_of (ag_ops s) a = Some (DAReg op)"
  shows "\<exists>s'. FreePendingDAOperation a s = Some s' \<and> agent_inv ifs H (insert a Z) s' \<and> ag_requests s' = ag_requests s \<and>
    ag_setup s' = ag_setup s \<and> ag_pending_ops s' = ag_pending_ops s \<and> ag_ops s' = map_erase a (ag_ops s)"
  using op parts_free_reg [OF inv [unfolded agent_inv_def] op] by (simp add: FreePendingDAOperation_def agent_inv_def agent_simps)

lemma free_loop_result:
  "agent_inv ifs H Z s \<Longrightarrow> distinct as \<Longrightarrow> \<forall>a \<in> set as. reg_ops (ag_ops s) a \<noteq> None \<Longrightarrow>
    \<exists>s'. free_loop as s = Some s' \<and> agent_inv ifs H (Z \<union> set as) s' \<and> ag_requests s' = ag_requests s \<and> ag_setup s' = ag_setup s \<and>
      ag_pending_ops s' = ag_pending_ops s"
proof (induction as arbitrary: Z s)
  case (Cons a as)
  obtain op where op: "map_of (ag_ops s) a = Some (DAReg op)" using Cons.prems(3) by (auto simp: view_def bind_eq_Some_conv elim!: op_reg.elims)
  obtain s1 where s1: "FreePendingDAOperation a s = Some s1" "agent_inv ifs H (insert a Z) s1" "ag_requests s1 = ag_requests s"
    "ag_setup s1 = ag_setup s" "ag_pending_ops s1 = ag_pending_ops s" "ag_ops s1 = map_erase a (ag_ops s)"
    using FreePendingDAOperation_result [OF Cons.prems(1) op] by blast
  have "\<forall>b \<in> set as. reg_ops (ag_ops s1) b \<noteq> None" using Cons.prems(2,3) s1(6) by (auto simp: view_erase)
  then show ?case using Cons.IH [OF s1(2)] Cons.prems(2) s1 by auto
qed simp

lemma pending_live:
  assumes "agent_inv ifs H {} s" "(url, a) \<in> set (ag_pending_ops s)"
  shows "reg_ops (ag_ops s) a \<noteq> None"
  using reg_invD(5) [OF agent_invD(8) [OF assms(1)]] assms(2) by blast

lemma CancelPendingDAOperationsForService_result:
  assumes inv: "agent_inv ifs H {} s"
  shows "\<exists>s'. CancelPendingDAOperationsForService url s = Some s' \<and> agent_inv ifs H {} s' \<and> ag_requests s' = ag_requests s \<and>
    ag_setup s' = ag_setup s"
proof -
  let ?as = "map snd (filter (\<lambda>(u, a). u = url) (ag_pending_ops s))"
  have d: "distinct (map snd (ag_pending_ops s))" by (rule reg_invD(3) [OF agent_invD(8) [OF inv]])
  then have "distinct ?as" by (induction "ag_pending_ops s") (auto simp: distinct_map inj_on_def)
  moreover have "\<forall>a \<in> set ?as. reg_ops (ag_ops s) a \<noteq> None" using pending_live [OF inv] by auto
  ultimately obtain s' where s': "free_loop ?as s = Some s'" "agent_inv ifs H (set ?as) s'" "ag_requests s' = ag_requests s"
    "ag_setup s' = ag_setup s" "ag_pending_ops s' = ag_pending_ops s" using free_loop_result [OF inv, of ?as] by auto
  have "(case (u, a) of (u, a) \<Rightarrow> u \<noteq> url) \<longleftrightarrow> a \<notin> set ?as" if "(u, a) \<in> set (ag_pending_ops s)" for u a
    using d that by (force simp: distinct_map inj_on_def)
  then have "agent_inv ifs H {} (s'\<lparr>ag_pending_ops := filter (\<lambda>(u, a). u \<noteq> url) (ag_pending_ops s')\<rparr>)"
    using parts_erase_pend [OF s'(2) [unfolded agent_inv_def], of "\<lambda>(u, a). u \<noteq> url"] s'(5) by (simp add: agent_inv_def)
  then show ?thesis using s' by (simp add: CancelPendingDAOperationsForService_def)
qed

lemma cancel_loop_result:
  "agent_inv ifs H {} s \<Longrightarrow> distinct as \<Longrightarrow> \<forall>a \<in> set as. (url, a) \<in> set (ag_pending_ops s) \<Longrightarrow>
    \<exists>s'. cancel_loop url da as s = Some s' \<and> agent_inv ifs H {} s' \<and> ag_requests s' = ag_requests s \<and> ag_setup s' = ag_setup s"
proof (induction as arbitrary: s)
  case (Cons a as)
  have "reg_ops (ag_ops s) a \<noteq> None" using pending_live [OF Cons.prems(1), of url a] Cons.prems(3) by simp
  then obtain op where op: "map_of (ag_ops s) a = Some (DAReg op)" by (auto simp: view_def bind_eq_Some_conv elim!: op_reg.elims)
  show ?case
  proof (cases "rg_da_url op = da")
    case True
    obtain s1 where s1: "FreePendingDAOperation a s = Some s1" "agent_inv ifs H {a} s1" "ag_requests s1 = ag_requests s"
      "ag_setup s1 = ag_setup s" "ag_pending_ops s1 = ag_pending_ops s"
      using FreePendingDAOperation_result [OF Cons.prems(1) op] by blast
    let ?s2 = "s1\<lparr>ag_pending_ops := filter (\<lambda>x. x \<noteq> (url, a)) (ag_pending_ops s1)\<rparr>"
    have d: "distinct (map snd (ag_pending_ops s))" by (rule reg_invD(3) [OF agent_invD(8) [OF Cons.prems(1)]])
    have "(u, b) \<noteq> (url, a) \<longleftrightarrow> b \<notin> {a}" if "(u, b) \<in> set (ag_pending_ops s)" for u b
      using d that Cons.prems(3) by (force simp: distinct_map inj_on_def)
    then have "agent_inv ifs H {} ?s2"
      using parts_erase_pend [OF s1(2) [unfolded agent_inv_def], of "\<lambda>x. x \<noteq> (url, a)"] s1(5) by (simp add: agent_inv_def)
    then show ?thesis using Cons.IH [of ?s2] Cons.prems(2,3) True op s1 by auto
  next
    case False
    then show ?thesis using Cons op by simp
  qed
qed simp

lemma CancelPendingDAOperationsForServiceAndDA_result:
  assumes inv: "agent_inv ifs H {} s"
  shows "\<exists>s'. CancelPendingDAOperationsForServiceAndDA url da s = Some s' \<and> agent_inv ifs H {} s' \<and> ag_requests s' = ag_requests s \<and>
    ag_setup s' = ag_setup s"
proof -
  have "distinct (map snd (ag_pending_ops s))" by (rule reg_invD(3) [OF agent_invD(8) [OF inv]])
  then have "distinct (map snd (filter (\<lambda>(u, a). u = url) (ag_pending_ops s)))" by (auto simp: distinct_map inj_on_def)
  then show ?thesis unfolding CancelPendingDAOperationsForServiceAndDA_def by (intro cancel_loop_result [OF inv]) auto
qed

text \<open>A step that goes well and touches no request.\<close>

lemma quiet_step:
  assumes "r = Some (out, s')" "agent_inv ifs {} {} s'" "ag_requests s' = ag_requests s" "ag_setup s' = ag_setup s" "found out = {#}"
  shows "good_step ifs {#} s r"
  using assms by (simp add: good_step_def waiting_def)

lemma delete_operation_step:
  assumes "agent_inv ifs {} {} s1" "ag_requests s1 = ag_requests s" "ag_setup s1 = ag_setup s"
  shows "good_step ifs {#} s (delete_operation op s1)"
  using CancelPendingDAOperationsForServiceAndDA_result [OF assms(1), of "e_url (rg_service op)" "rg_da_url op"] assms(2,3)
  by (auto simp: delete_operation_def intro: quiet_step)

lemma ReceivedAck_step:
  assumes "agent_inv ifs {} {} s" "reg_ops (ag_ops s) a \<noteq> None"
  shows "good_step ifs {#} s (ReceivedAck a error_code s)"
proof -
  obtain op where op: "map_of (ag_ops s) a = Some (DAReg op)" using assms(2) by (auto simp: view_def bind_eq_Some_conv elim!: op_reg.elims)
  show ?thesis
    using delete_operation_step [OF assms(1) refl refl, of op] op quiet_step [OF refl assms(1) refl refl, of "[]"]
    by (simp add: ReceivedAck_def delete_operation_def)
qed

lemma reg_timer_fires:
  assumes inv: "agent_inv ifs {} {} s" and t: "map_of (ag_timers s) t = Some timer" "timer_reg timer = Some a"
  obtains op where "map_of (ag_ops s) a = Some (DAReg op)" "op_timer_id op = t" "agent_inv ifs {} {} (RemoveTimeout t s)"
    "\<And>op'. op_xid op' = op_xid op \<Longrightarrow> e_url (rg_service op') = e_url (rg_service op) \<Longrightarrow> op_timer_id op' = t \<Longrightarrow>
      agent_inv ifs {} {} (set_op a (DAReg op') (RemoveTimeout t s))"
    "\<And>op' timer'. op_xid op' = op_xid op \<Longrightarrow> e_url (rg_service op') = e_url (rg_service op) \<Longrightarrow> op_timer_id op' = ag_next s \<Longrightarrow>
      timer_reg timer' = Some a \<Longrightarrow> agent_inv ifs {} {} (set_op a (DAReg op') (snd (RegisterSingleTimeout timer' (RemoveTimeout t s))))"
proof -
  have t': "reg_timers (ag_timers s) t = Some a" using t by (simp add: view_def)
  obtain op where "reg_ops (ag_ops s) a = Some op" "op_timer_id op = t" using reg_invD(2) [OF agent_invD(8) [OF inv] t'] by blast
  then have op: "map_of (ag_ops s) a = Some (DAReg op)" "op_timer_id op = t" by (auto simp: view_def bind_eq_Some_conv elim!: op_reg.elims)
  note I = inv [unfolded agent_inv_def]
  show thesis
  proof (rule that [OF op])
    show "agent_inv ifs {} {} (RemoveTimeout t s)"
      using parts_remove_timer [OF I view_kind(4) [OF t']] by (simp add: agent_inv_def RemoveTimeout_def)
    show "agent_inv ifs {} {} (set_op a (DAReg op') (RemoveTimeout t s))"
      if "op_xid op' = op_xid op" "e_url (rg_service op') = e_url (rg_service op)" "op_timer_id op' = t" for op'
      using parts_again_reg(2) [OF I op(1) that(1,2)] that(3) op(2) by (simp add: agent_inv_def agent_simps)
    show "agent_inv ifs {} {} (set_op a (DAReg op') (snd (RegisterSingleTimeout timer' (RemoveTimeout t s))))"
      if "op_xid op' = op_xid op" "e_url (rg_service op') = e_url (rg_service op)" "op_timer_id op' = ag_next s" "timer_reg timer' = Some a" for op' timer'
      using parts_again_reg(1) [OF I op(1) that(1-4)] op(2) by (simp add: agent_inv_def agent_simps)
  qed
qed

lemma agent_inv_change:
  assumes "agent_inv ifs H Z s"
  shows "agent_inv ifs H Z (CancelPendingSrvAck x s)" "tracker_ok ifs tr \<Longrightarrow> agent_inv ifs H Z (set_tracker tr s)"
    "agent_inv ifs H Z (set_store m s)" "agent_inv ifs H Z (set_discovery d s)" "agent_inv ifs H Z (snd (NextXid s))"
  using assms parts_erase_ack [OF assms [unfolded agent_inv_def], of x] parts_tracker [OF assms [unfolded agent_inv_def], of tr]
  by (simp_all add: agent_inv_def CancelPendingSrvAck_def set_discovery_def agent_simps)

lemma RegistrationTimeout_step:
  assumes inv: "agent_inv ifs {} {} s" and t: "map_of (ag_timers s) t = Some (RegTimer a)"
  shows "good_step ifs {#} s (RegistrationTimeout a (RemoveTimeout t s))"
proof -
  obtain op where op: "map_of (ag_ops s) a = Some (DAReg op)" "op_timer_id op = t" and removed: "agent_inv ifs {} {} (RemoveTimeout t s)"
    and set: "\<And>op'. op_xid op' = op_xid op \<Longrightarrow> e_url (rg_service op') = e_url (rg_service op) \<Longrightarrow> op_timer_id op' = t \<Longrightarrow>
      agent_inv ifs {} {} (set_op a (DAReg op') (RemoveTimeout t s))"
    and again: "\<And>op' timer'. op_xid op' = op_xid op \<Longrightarrow> e_url (rg_service op') = e_url (rg_service op) \<Longrightarrow> op_timer_id op' = ag_next s \<Longrightarrow>
      timer_reg timer' = Some a \<Longrightarrow> agent_inv ifs {} {} (set_op a (DAReg op') (snd (RegisterSingleTimeout timer' (RemoveTimeout t s))))"
    by (rule reg_timer_fires [OF inv t timer_reg.simps(1)]) (rule that)
  obtain expired url where age: "AgeLifetime (ucast (op_retry_time op div 1000)) (m_url (rg_service op)) = (expired, url)" by fastforce
  have url: "url_string url = e_url (rg_service op)" using age by (auto simp: AgeLifetime_def split: if_splits)
  define op1 where "op1 = op\<lparr>rg_service := (rg_service op)\<lparr>m_url := url\<rparr>\<rparr>"
  have finish: "good_step ifs {#} s (delete_operation op' (CancelPendingSrvAck x (set_tracker tr (set_op a (DAReg op') (RemoveTimeout t s)))))"
    if "op_xid op' = op_xid op" "e_url (rg_service op') = e_url (rg_service op)" "op_timer_id op' = t" "tracker_ok ifs tr" for op' x tr
    by (rule delete_operation_step [OF agent_inv_change(1) [OF agent_inv_change(2) [OF set [OF that(1-3)] that(4)]]])
      (simp_all add: CancelPendingSrvAck_def agent_simps)
  have tr: "set_tracker (ag_tracker s) (set_op a x (RemoveTimeout t s)) = set_op a x (RemoveTimeout t s)" for x by (simp add: agent_simps)
  have f1: "op_xid op1 = op_xid op" "e_url (rg_service op1) = e_url (rg_service op)" "op_timer_id op1 = t"
    by (simp_all add: op1_def url op(2))
  have f2: "op_xid (UpdateRetryTime op1) = op_xid op" "e_url (rg_service (UpdateRetryTime op1)) = e_url (rg_service op)"
    "op_timer_id (UpdateRetryTime op1) = t" using f1 by (simp_all add: UpdateRetryTime_def)
  have retry: "good_step ifs {#} s (Some ([Sent d c], set_op a (DAReg ((UpdateRetryTime op1)\<lparr>op_timer_id := ag_next s\<rparr>))
      (snd (RegisterSingleTimeout (RegTimer a) (RemoveTimeout t s)))))" for d c
    by (rule quiet_step [OF refl again]) (use f2 in \<open>simp_all add: agent_simps\<close>)
  note ok = agent_invD(6) [OF inv]
  show ?thesis
    using op age delete_operation_step [OF removed, of s op] finish [OF f1 ok, unfolded tr] finish [OF f2 ok, unfolded tr]
      finish [OF f2 MarkAsBad_ok [OF ok], of "op_xid op1" "rg_da_url op1"] retry
    by (auto simp: RegistrationTimeout_def Let_def op1_def [symmetric] agent_simps UpdateRetryTime_def split: option.splits)
qed

lemma DeRegistrationTimeout_step:
  assumes inv: "agent_inv ifs {} {} s" and t: "map_of (ag_timers s) t = Some (DeRegTimer a)"
  shows "good_step ifs {#} s (DeRegistrationTimeout a (RemoveTimeout t s))"
proof -
  obtain op where op: "map_of (ag_ops s) a = Some (DAReg op)" "op_timer_id op = t" and removed: "agent_inv ifs {} {} (RemoveTimeout t s)"
    and set: "\<And>op'. op_xid op' = op_xid op \<Longrightarrow> e_url (rg_service op') = e_url (rg_service op) \<Longrightarrow> op_timer_id op' = t \<Longrightarrow>
      agent_inv ifs {} {} (set_op a (DAReg op') (RemoveTimeout t s))"
    and again: "\<And>op' timer'. op_xid op' = op_xid op \<Longrightarrow> e_url (rg_service op') = e_url (rg_service op) \<Longrightarrow> op_timer_id op' = ag_next s \<Longrightarrow>
      timer_reg timer' = Some a \<Longrightarrow> agent_inv ifs {} {} (set_op a (DAReg op') (snd (RegisterSingleTimeout timer' (RemoveTimeout t s))))"
    by (rule reg_timer_fires [OF inv t timer_reg.simps(2)]) (rule that)
  define op1 where "op1 = UpdateRetryTime op"
  have f1: "op_xid op1 = op_xid op" "e_url (rg_service op1) = e_url (rg_service op)" "op_timer_id op1 = t"
    using op(2) by (simp_all add: op1_def UpdateRetryTime_def)
  have finish: "good_step ifs {#} s (delete_operation op1 (CancelPendingSrvAck x (set_tracker tr (set_op a (DAReg op1) (RemoveTimeout t s)))))"
    if "tracker_ok ifs tr" for x tr
    by (rule delete_operation_step [OF agent_inv_change(1) [OF agent_inv_change(2) [OF set [OF f1] that]]])
      (simp_all add: CancelPendingSrvAck_def agent_simps)
  have tr: "set_tracker (ag_tracker s) (set_op a x (RemoveTimeout t s)) = set_op a x (RemoveTimeout t s)" for x by (simp add: agent_simps)
  have retry: "good_step ifs {#} s (Some ([Sent d c], set_op a (DAReg (op1\<lparr>op_timer_id := ag_next s\<rparr>))
      (snd (RegisterSingleTimeout (DeRegTimer a) (RemoveTimeout t s)))))" for d c
    by (rule quiet_step [OF refl again]) (use f1 in \<open>simp_all add: agent_simps\<close>)
  note ok = agent_invD(6) [OF inv]
  show ?thesis
    using op delete_operation_step [OF removed, of s op] finish [OF ok, unfolded tr] finish [OF MarkAsBad_ok [OF ok], of "op_xid op1" "rg_da_url op1"] retry
    by (auto simp: DeRegistrationTimeout_def Let_def op1_def [symmetric] agent_simps split: option.splits)
qed

text \<open>A step without undefined results that keeps the invariant.\<close>

definition keeps :: "(string \<Rightarrow> 'ip option) \<Rightarrow> ('ip slp_agent \<Rightarrow> 'ip slp_effect list \<times> 'ip slp_agent) \<Rightarrow> bool" where
  "keeps ifs f \<longleftrightarrow> (\<forall>s out s'. agent_inv ifs {} {} s \<longrightarrow> f s = (out, s') \<longrightarrow>
     agent_inv ifs {} {} s' \<and> ag_requests s' = ag_requests s \<and> ag_setup s' = ag_setup s \<and> found out = {#})"

lemma keeps_step: "keeps ifs f \<Longrightarrow> agent_inv ifs {} {} s \<Longrightarrow> good_step ifs {#} s (Some (f s))"
  by (cases "f s") (auto simp: keeps_def intro!: quiet_step [OF refl])

lemma set_multimap_insert: "set (multimap_insert k v m) = insert (k, v) (set m)"
  using set_append [of "takeWhile (\<lambda>(l, _). l \<le> k) m" "dropWhile (\<lambda>(l, _). l \<le> k) m"] by (auto simp: multimap_insert_def)

lemma distinct_multimap_insert: "distinct (map snd m) \<Longrightarrow> v \<notin> snd ` set m \<Longrightarrow> distinct (map snd (multimap_insert k v m))"
proof -
  assume d: "distinct (map snd m)" "v \<notin> snd ` set m"
  have "map snd m = map snd (takeWhile (\<lambda>(l, _). l \<le> k) m) @ map snd (dropWhile (\<lambda>(l, _). l \<le> k) m)"
    by (metis map_append takeWhile_dropWhile_id)
  then have "distinct (map snd (takeWhile (\<lambda>(l, _). l \<le> k) m) @ map snd (dropWhile (\<lambda>(l, _). l \<le> k) m))"
    "v \<notin> set (map snd (takeWhile (\<lambda>(l, _). l \<le> k) m) @ map snd (dropWhile (\<lambda>(l, _). l \<le> k) m))"
    using d by (metis, metis list.set_map)
  then show ?thesis by (auto simp: multimap_insert_def)
qed

text \<open>A new operation that registers or withdraws a service.\<close>

lemma reg_added:
  assumes inv: "agent_inv ifs {} {} s" and t: "timer_reg timer = Some (ag_next s)"
    and op: "e_url (rg_service op) = url" "op_xid op = ag_xid s"
  shows "agent_inv ifs {} {}
    (s\<lparr>ag_xid := ag_xid s + 1, ag_timers := ag_timers s @ [(Suc (ag_next s), timer)], ag_next := Suc (Suc (ag_next s)),
       ag_ops := ag_ops s @ [(ag_next s, DAReg (op\<lparr>op_timer_id := Suc (ag_next s)\<rparr>))],
       ag_pending_ops := multimap_insert url (ag_next s) (ag_pending_ops s),
       ag_server := (ag_server s)\<lparr>m_pending_acks := snd (map_insert (ag_xid s) (ag_next s) (ag_acks s))\<rparr>\<rparr>)"
  using parts_add_reg [OF inv [unfolded agent_inv_def], of "op\<lparr>op_timer_id := Suc (ag_next s)\<rparr>" timer
      "multimap_insert url (ag_next s) (ag_pending_ops s)"] t op set_multimap_insert distinct_multimap_insert
  by (simp add: agent_inv_def)

lemma RegisterWithDA_keeps: "keeps ifs (RegisterWithDA service da)" "keeps ifs (DeRegisterWithDA service da)"
proof -
  have "agent_inv ifs {} {} s' \<and> ag_requests s' = ag_requests s \<and> ag_setup s' = ag_setup s \<and> found out = {#}"
    if inv: "agent_inv ifs {} {} s" and run: "RegisterWithDA service da s = (out, s') \<or> DeRegisterWithDA service da s = (out, s')" for s out s'
  proof -
    let ?op = "UnicastSrvRegOperation (ag_xid s) (m_config_retry (ag_config s)) (agent_url da) service"
    have new: "timer_reg timer = Some (ag_next s) \<Longrightarrow> agent_inv ifs {} {}
      (s\<lparr>ag_xid := ag_xid s + 1, ag_timers := ag_timers s @ [(Suc (ag_next s), timer)], ag_next := Suc (Suc (ag_next s)),
       ag_ops := ag_ops s @ [(ag_next s, DAReg (?op\<lparr>op_timer_id := Suc (ag_next s)\<rparr>))],
       ag_pending_ops := multimap_insert (e_url service) (ag_next s) (ag_pending_ops s),
       ag_server := (ag_server s)\<lparr>m_pending_acks := snd (map_insert (ag_xid s) (ag_next s) (ag_acks s))\<rparr>\<rparr>)" for timer
      by (rule reg_added [OF inv]) simp_all
    note last = map_set_last [OF agent_invD(1) [OF inv]]
    show ?thesis using run new [of "RegTimer (ag_next s)"] new [of "DeRegTimer (ag_next s)"]
      by (auto simp: RegisterWithDA_def DeRegisterWithDA_def AddPendingSrvAck_def Let_def agent_simps split_beta last)
  qed
  then show "keeps ifs (RegisterWithDA service da)" "keeps ifs (DeRegisterWithDA service da)" unfolding keeps_def by blast+
qed

lemma keeps_seq:
  assumes "keeps ifs f" "keeps ifs g"
  shows "keeps ifs (\<lambda>s. let (out, s1) = f s; (out', s2) = g s1 in (out @ out', s2))"
  unfolding keeps_def
proof (intro allI impI)
  fix s out s' assume s: "agent_inv ifs {} {} s" and r: "(let (out, s1) = f s; (out', s2) = g s1 in (out @ out', s2)) = (out, s')"
  obtain o1 s1 o2 where f: "f s = (o1, s1)" "g s1 = (o2, s')" "out = o1 @ o2" using r by (auto simp: Let_def split: prod.splits)
  have "agent_inv ifs {} {} s1 \<and> ag_requests s1 = ag_requests s \<and> ag_setup s1 = ag_setup s \<and> found o1 = {#}"
    using assms(1) s f(1) unfolding keeps_def by blast
  moreover from this have "agent_inv ifs {} {} s' \<and> ag_requests s' = ag_requests s1 \<and> ag_setup s' = ag_setup s1 \<and> found o2 = {#}"
    using assms(2) f(2) unfolding keeps_def by blast
  ultimately show "agent_inv ifs {} {} s' \<and> ag_requests s' = ag_requests s \<and> ag_setup s' = ag_setup s \<and> found out = {#}"
    using f(3) by simp
qed

lemma each_da_keeps: "\<forall>da. keeps ifs (f da) \<Longrightarrow> keeps ifs (each_da f das)"
proof (induction das)
  case (Cons da das)
  have "each_da f (da # das) = (\<lambda>s. let (out, s1) = f da s; (out', s2) = each_da f das s1 in (out @ out', s2))" by (rule ext) simp
  then show ?case using keeps_seq [OF spec [OF Cons.prems, of da] Cons.IH [OF Cons.prems]] by simp
qed (simp add: keeps_def)

lemma each_service_keeps: "keeps ifs (each_service da es)"
proof (induction es)
  case (Cons e es)
  have "each_service da (e # es) = (\<lambda>s. let (out, s1) = RegisterWithDA e da s; (out', s2) = each_service da es s1 in (out @ out', s2))"
    by (rule ext) simp
  then show ?case using keeps_seq [OF RegisterWithDA_keeps(1) Cons.IH] by simp
qed (simp add: keeps_def)

lemma RegisterService_step:
  assumes inv: "agent_inv ifs {} {} s"
  shows "good_step ifs {#} s (RegisterService now e s)"
proof -
  let ?e = "e\<lparr>m_local := True\<rparr>"
  obtain s1 where s1: "CancelPendingDAOperationsForService (e_url ?e) s = Some s1" "agent_inv ifs {} {} s1" "ag_requests s1 = ag_requests s"
    "ag_setup s1 = ag_setup s" using CancelPendingDAOperationsForService_result [OF inv] by blast
  define s2 where "s2 = set_store (snd (Insert now ?e (m_service_store (ag_server s1)))) s1"
  have i2: "agent_inv ifs {} {} s2" "ag_requests s2 = ag_requests s" "ag_setup s2 = ag_setup s"
    using agent_inv_change(3) [OF s1(2)] s1(3,4) by (simp_all add: s2_def set_store_def agent_inv_def)
  obtain out s3 where r: "each_da (RegisterWithDA ?e) (GetDAsForScopes (m_scopes ?e) (ag_tracker s2)) s2 = (out, s3)" by fastforce
  have "keeps ifs (each_da (RegisterWithDA ?e) (GetDAsForScopes (m_scopes ?e) (ag_tracker s2)))"
    using each_da_keeps RegisterWithDA_keeps(1) by blast
  then have "agent_inv ifs {} {} s3 \<and> ag_requests s3 = ag_requests s \<and> ag_setup s3 = ag_setup s \<and> found out = {#}"
    using r i2 unfolding keeps_def by metis
  then show ?thesis
    using inv s1(1) r by (auto simp: RegisterService_def InternalRegisterService_def Let_def s2_def intro!: quiet_step [OF refl])
qed

lemma DeRegisterService_step:
  assumes inv: "agent_inv ifs {} {} s"
  shows "good_step ifs {#} s (DeRegisterService now e s)"
proof -
  obtain s1 where s1: "CancelPendingDAOperationsForService (e_url e) s = Some s1" "agent_inv ifs {} {} s1" "ag_requests s1 = ag_requests s"
    "ag_setup s1 = ag_setup s" using CancelPendingDAOperationsForService_result [OF inv] by blast
  obtain out s2 where r: "each_da (DeRegisterWithDA e) (GetDAsForScopes (m_scopes e) (ag_tracker s1)) s1 = (out, s2)" by fastforce
  have "keeps ifs (each_da (DeRegisterWithDA e) (GetDAsForScopes (m_scopes e) (ag_tracker s1)))"
    using each_da_keeps RegisterWithDA_keeps(2) by blast
  then have i2: "agent_inv ifs {} {} s2 \<and> ag_requests s2 = ag_requests s \<and> ag_setup s2 = ag_setup s \<and> found out = {#}"
    using r s1(2-4) unfolding keeps_def by metis
  then have "agent_inv ifs {} {} (set_store m s2)" for m using agent_inv_change(3) by blast
  then show ?thesis
    using inv s1(1) r i2
    by (auto simp: DeRegisterService_def InternalDeRegisterService_def set_store_def split: check_result.splits intro!: quiet_step [OF refl])
qed

section \<open>Directory agents\<close>

lemma agent_inv_timer:
  "agent_inv ifs H Z s \<Longrightarrow> timer_view h = None \<Longrightarrow> timer_reg h = None \<Longrightarrow> agent_inv ifs H Z (snd (RegisterSingleTimeout h s))"
  using parts_add_timer [of ifs H Z "ag_ops s" "ag_requests s" "ag_timers s" "ag_replies s" "ag_acks s" "ag_pending_ops s" "ag_next s" "ag_tracker s" h]
  by (simp add: agent_inv_def RegisterSingleTimeout_def)

lemma SendDARequest_keeps: "keeps ifs (SendDARequestAndSetupTimer op)"
proof -
  have "agent_inv ifs {} {} s' \<and> ag_requests s' = ag_requests s \<and> ag_setup s' = ag_setup s \<and> found out = {#}"
    if inv: "agent_inv ifs {} {} s" and run: "SendDARequestAndSetupTimer op s = (out, s')" for s out s'
  proof -
    obtain op1 s1 where s1: "(if pm_pr_list_changed op then let (xid, s1) = NextXid s in (op\<lparr>pm_pr_list_changed := False, op_xid := xid\<rparr>, s1)
        else (op, s)) = (op1, s1)" by fastforce
    have i1: "agent_inv ifs {} {} s1" "ag_requests s1 = ag_requests s" "ag_setup s1 = ag_setup s"
      using s1 inv agent_inv_change(5) [OF inv] by (auto simp: NextXid_def split: if_splits)
    have "s' = set_discovery (Some (op1\<lparr>op_timer_id := ag_next s1\<rparr>)) (snd (RegisterSingleTimeout DiscoveryTimer s1))" "found out = {#}"
      using run unfolding SendDARequestAndSetupTimer_def s1 by (auto simp: Let_def RegisterSingleTimeout_def)
    moreover have "agent_inv ifs {} {} (set_discovery d (snd (RegisterSingleTimeout DiscoveryTimer s1)))" for d
      by (intro agent_inv_change(4) agent_inv_timer i1(1)) simp_all
    ultimately show ?thesis using i1(2,3) by (simp add: set_discovery_def RegisterSingleTimeout_def)
  qed
  then show ?thesis unfolding keeps_def by blast
qed

lemma discovery_keeps: "keeps ifs StartActiveDADiscovery" "keeps ifs DASrvRqstTimeout" "keeps ifs (RegisterServicesWithNewDA now url)"
proof -
  show "keeps ifs (RegisterServicesWithNewDA now url)"
    using each_service_keeps [of ifs] by (auto simp: keeps_def RegisterServicesWithNewDA_def split: option.splits)
  have send: "agent_inv ifs {} {} s' \<and> ag_requests s' = ag_requests s \<and> ag_setup s' = ag_setup s \<and> found out = {#}"
    if "agent_inv ifs {} {} s" "SendDARequestAndSetupTimer op s = (out, s')" for op s out s'
    using SendDARequest_keeps that unfolding keeps_def by blast
  have schedule: "agent_inv ifs {} {} (ScheduleActiveDADiscovery s) \<and> ag_requests (ScheduleActiveDADiscovery s) = ag_requests s \<and>
      ag_setup (ScheduleActiveDADiscovery s) = ag_setup s" if "agent_inv ifs {} {} s" for s :: "'a slp_agent"
    using agent_inv_timer [OF that, of StartDiscoveryTimer] by (simp add: ScheduleActiveDADiscovery_def RegisterSingleTimeout_def)
  show "keeps ifs StartActiveDADiscovery" unfolding keeps_def
  proof (intro allI impI)
    fix s out s' assume "agent_inv ifs {} {} s" "StartActiveDADiscovery s = (out, s')"
    then show "agent_inv ifs {} {} s' \<and> ag_requests s' = ag_requests s \<and> ag_setup s' = ag_setup s \<and> found out = {#}"
      using send [OF agent_inv_change(5)] by (fastforce simp: StartActiveDADiscovery_def NextXid_def split: if_splits)
  qed
  show "keeps ifs DASrvRqstTimeout" unfolding keeps_def
  proof (intro allI impI)
    fix s out s' assume inv: "agent_inv ifs {} {} s" and run: "DASrvRqstTimeout s = (out, s')"
    have "agent_inv ifs {} {} (set_discovery None s)" "ag_requests (set_discovery None s) = ag_requests s"
      "ag_setup (set_discovery None s) = ag_setup s" using agent_inv_change(4) [OF inv] by (simp_all add: set_discovery_def)
    then show "agent_inv ifs {} {} s' \<and> ag_requests s' = ag_requests s \<and> ag_setup s' = ag_setup s \<and> found out = {#}"
      using run send [OF inv] schedule [OF inv] schedule [of "set_discovery None s"]
      by (auto simp: DASrvRqstTimeout_def Let_def split: option.splits if_splits)
  qed
qed

section \<open>Datagrams\<close>

fun plain :: "'ip slp_effect \<Rightarrow> bool" where
  "plain (Sent dest call) \<longleftrightarrow> True"
| "plain e \<longleftrightarrow> False"

lemma run_callbacks_plain: "list_all plain out \<Longrightarrow> run_callbacks out s = Some (out, s) \<and> found out = {#}"
proof (induction out)
  case (Cons e out)
  then show ?case by (cases e) (simp_all add: and_then_def)
qed simp

lemma plain_answers:
  "list_all plain (SendErrorIfUnicast packet f dest code)" "list_all plain (MaybeSendDAAdvert its request dest sv)"
  "list_all plain (MaybeSendSAAdvert its request dest sv)"
  by (simp_all add: SendErrorIfUnicast_def MaybeSendDAAdvert_def MaybeSendSAAdvert_def Server_SendDAAdvert_def Let_def)

text \<open>What a datagram does: an answer, with a change of the store alone, or a callback that was registered.\<close>

definition only_store :: "'ip slp_server \<Rightarrow> 'ip slp_server \<Rightarrow> bool" where
  "only_store sv sv' \<longleftrightarrow> m_pending_replies sv' = m_pending_replies sv \<and> m_pending_acks sv' = m_pending_acks sv \<and>
     m_da_tracker sv' = m_da_tracker sv"

lemma HandleServiceRequest_plain:
  "HandleServiceRequest its ifs big now packet source sv = (out, sv') \<Longrightarrow> list_all plain out \<and> only_store sv sv'"
  by (auto simp: HandleServiceRequest_def HandleParsedRequest_def plain_answers only_store_def Let_def
      split: option.splits if_splits prod.splits)

lemma handle_packet_cases:
  assumes "handle_packet its ifs big now packet source sv = (out, sv')"
  obtains (answer) "list_all plain out" "only_store sv sv'"
    | (reply) x cb code urls where "map_of (m_pending_replies sv) x = Some cb" "out = [RunReply cb (fst source) code urls]" "sv' = sv"
    | (ack) x cb code where "map_of (m_pending_acks sv) x = Some cb" "out = [RunAck cb code]" "sv' = sv\<lparr>m_pending_acks := map_erase x (m_pending_acks sv)\<rparr>"
    | (advert) advert runs tr d where "NewDAAdvert ifs advert (m_da_tracker sv) = (runs, tr)" "out = map (\<lambda>(cb, agent). RunNewDA cb agent) runs"
        "sv' = sv\<lparr>m_outstanding_da_discovery := d, m_da_tracker := tr\<rparr>"
proof (cases "DetermineFunctionID packet = SERVICE_REQUEST")
  case True
  then show ?thesis using assms HandleServiceRequest_plain [of its ifs big now packet source sv out sv'] answer by (simp add: handle_packet_def)
next
  case False
  note H = assms [unfolded handle_packet_def, simplified False if_False]
  have none: ?thesis if "out = []" "sv' = sv" using that answer by (simp add: only_store_def)
  show ?thesis
  proof (cases "read_packet ifs big packet")
    case (Some r)
    show ?thesis
    proof (cases r)
      case (ServiceReply p)
      have "HandleServiceReply p source sv = (out, sv')" using H Some ServiceReply by simp
      then show ?thesis
      proof (cases "map_of (m_pending_replies sv) (p_xid p)")
        case (Some cb)
        with \<open>HandleServiceReply p source sv = (out, sv')\<close> have "out = [RunReply cb (fst source) (rp_error_code p) (rp_url_entries p)]" "sv' = sv"
          by (auto simp: HandleServiceReply_def)
        then show ?thesis by (rule reply [OF Some])
      qed (auto simp: HandleServiceReply_def intro: none)
    next
      case (ServiceAck p)
      have "HandleServiceAck p sv = (out, sv')" using H Some ServiceAck by simp
      then show ?thesis
      proof (cases "map_of (m_pending_acks sv) (p_xid p)")
        case (Some cb)
        with \<open>HandleServiceAck p sv = (out, sv')\<close> have "out = [RunAck cb (ack_error_code p)]"
          "sv' = sv\<lparr>m_pending_acks := map_erase (p_xid p) (m_pending_acks sv)\<rparr>" by (auto simp: HandleServiceAck_def)
        then show ?thesis by (rule ack [OF Some])
      qed (auto simp: HandleServiceAck_def intro: none)
    next
      case (Advert p)
      have A: "HandleDAAdvert ifs p source sv = (out, sv')" using H Some Advert by simp
      show ?thesis
      proof (cases "da_error_code p = 0")
        case True
        obtain runs tr where n: "NewDAAdvert ifs p (m_da_tracker sv) = (runs, tr)" by fastforce
        have "out = map (\<lambda>(cb, agent). RunNewDA cb agent) runs"
          "sv' = sv\<lparr>m_outstanding_da_discovery := map_option (AddPR (fst source)) (m_outstanding_da_discovery sv), m_da_tracker := tr\<rparr>"
          using A True n by (auto simp: HandleDAAdvert_def)
        then show ?thesis by (rule advert [OF n])
      qed (use A in \<open>auto simp: HandleDAAdvert_def intro: none\<close>)
    next
      case (ServiceRegistration p)
      have "HandleServiceRegistration now p source sv = (out, sv')" using H Some ServiceRegistration by simp
      then have "list_all plain out" "only_store sv sv'"
        by (auto simp: HandleServiceRegistration_def only_store_def Let_def split: if_splits prod.splits)
      then show ?thesis by (rule answer)
    next
      case (ServiceDeRegistration p)
      have "HandleServiceDeRegister p source sv = (out, sv')" using H Some ServiceDeRegistration by simp
      then have "list_all plain out" "only_store sv sv'"
        by (auto simp: HandleServiceDeRegister_def only_store_def Let_def split: if_splits prod.splits)
      then show ?thesis by (rule answer)
    next
      case (ServiceTypeRequest p)
      have "HandleServiceTypeRequest p source sv = (out, sv')" using H Some ServiceTypeRequest by simp
      then have "list_all plain out" "only_store sv sv'"
        by (auto simp: HandleServiceTypeRequest_def only_store_def plain_answers Let_def split: if_splits)
      then show ?thesis by (rule answer)
    next
      case (ServiceRequest p)
      then show ?thesis using H Some none by simp
    qed
  qed (use H none in simp)
qed

lemma NewDA_callbacks:
  "agent_inv ifs {} {} s \<Longrightarrow> good_step ifs {#} s (run_callbacks (map (\<lambda>(cb, agent). RunNewDA cb agent) runs) s)"
proof (induction runs arbitrary: s)
  case (Cons x runs)
  obtain cb agent where x: "x = (cb, agent)" by fastforce
  have "agent_inv ifs {} {} (NewDACallback agent s)" unfolding NewDACallback_def by (rule agent_inv_timer [OF Cons.prems]) simp_all
  moreover have "ag_requests (NewDACallback agent s) = ag_requests s" "ag_setup (NewDACallback agent s) = ag_setup s"
    by (simp_all add: NewDACallback_def RegisterSingleTimeout_def)
  ultimately show ?case using Cons.IH [of "NewDACallback agent s"]
    by (auto simp: x good_step_def and_then_def waiting_def)
qed (simp add: good_step_def)

lemma Receive_step:
  assumes inv: "agent_inv ifs {} {} s"
  shows "good_step ifs {#} s (agent_step its ifs big now (Receive packet source) s)"
proof -
  obtain out sv where H: "HandleUDPData its ifs big now packet source (ag_server s) = (out, sv)" by fastforce
  have same: "same_server (ag_server s) sv"
    using run_event_store [of its ifs big now "Datagram packet source" "ag_server s" out sv] H by simp
  have su: "ag_setup (s\<lparr>ag_server := sv\<rparr>) = ag_setup s" using same by (simp add: same_server_def)
  have "good_step ifs {#} s (run_callbacks out (s\<lparr>ag_server := sv\<rparr>))" using H [unfolded HandleUDPData_def]
  proof (cases rule: handle_packet_cases)
    case answer
    have "agent_inv ifs {} {} (s\<lparr>ag_server := sv\<rparr>)" using inv answer(2) by (simp add: agent_inv_def only_store_def)
    then show ?thesis using run_callbacks_plain [OF answer(1), of "s\<lparr>ag_server := sv\<rparr>"] su by (simp add: good_step_def waiting_def)
  next
    case (reply x cb code urls)
    obtain v where v: "rqst_ops (ag_ops s) cb = Some v" using find_invD(1) [OF agent_invD(7) [OF inv]] reply(1) by blast
    then obtain op where op: "map_of (ag_ops s) cb = Some op" "op_view op = Some v" by (auto simp: view_def bind_eq_Some_conv)
    show ?thesis
    proof (cases op)
      case (DARqst da)
      then show ?thesis using ReceivedDASrvReply_step [OF inv, of cb da code urls] op reply(2,3)
        by (cases "code = error_number DA_BUSY_NOW") (auto simp: good_step_def and_then_def)
    next
      case (SARqst sa)
      then show ?thesis using ReceivedSASrvReply_step [OF inv, of cb sa "fst source" code urls] op reply(2,3)
        by (auto simp: good_step_def and_then_def)
    qed (use op in simp)
  next
    case (ack x cb code)
    have "reg_ops (ag_ops s) cb \<noteq> None" using reg_invD(1) [OF agent_invD(8) [OF inv]] ack(1) by blast
    moreover have "agent_inv ifs {} {} (s\<lparr>ag_server := sv\<rparr>)"
      using agent_inv_change(1) [OF inv, of x] ack(3) by (simp add: CancelPendingSrvAck_def set_acks_def)
    ultimately show ?thesis using ReceivedAck_step [of ifs "s\<lparr>ag_server := sv\<rparr>" cb code] ack(2) su
      by (auto simp: good_step_def and_then_def waiting_def)
  next
    case (advert advert runs tr d)
    have "tracker_ok ifs tr" using NewDAAdvert_ok [OF agent_invD(6) [OF inv] advert(1)] by blast
    then have "agent_inv ifs {} {} (s\<lparr>ag_server := sv\<rparr>)"
      using agent_inv_change(2) [OF agent_inv_change(4) [OF inv, of d], of tr] advert(3) by (simp add: set_tracker_def set_discovery_def)
    then show ?thesis using NewDA_callbacks [of ifs "s\<lparr>ag_server := sv\<rparr>" runs] advert(2) su by (simp add: good_step_def waiting_def)
  qed
  then show ?thesis by (simp add: H)
qed

section \<open>All events\<close>

fun call_of :: "'ip agent_event \<Rightarrow> nat list" where
  "call_of (CallFind scopes service_type cb) = [cb]"
| "call_of e = []"

fun calls :: "(TimeStamp \<times> 'ip agent_event) list \<Rightarrow> nat list" where
  "calls [] = []"
| "calls ((now, e) # es) = call_of e @ calls es"

text \<open>A call that looks for a service names a scope.\<close>

fun has_scopes :: "'ip agent_event \<Rightarrow> bool" where
  "has_scopes (CallFind scopes service_type cb) \<longleftrightarrow> scopes \<noteq> []"
| "has_scopes e \<longleftrightarrow> True"

lemma Timeout_step:
  assumes inv: "agent_inv ifs {} {} s"
  shows "good_step ifs {#} s (agent_step its ifs big now (Timeout t) s)"
proof (cases "map_of (ag_timers s) t")
  case None
  then show ?thesis using inv by (simp add: good_step_def)
next
  case (Some timer)
  have other: "good_step ifs {#} s (Some (f (RemoveTimeout t s)))" if "timer_view timer = None" "keeps ifs f" for f
  proof -
    have "agent_inv ifs {} {} (RemoveTimeout t s)"
      using parts_remove_timer [OF inv [unfolded agent_inv_def], of t] Some that(1) by (simp add: agent_inv_def RemoveTimeout_def view_def)
    then show ?thesis using keeps_step [OF that(2), of "RemoveTimeout t s"] by (simp add: good_step_def waiting_def RemoveTimeout_def)
  qed
  show ?thesis
    using Some RequestServiceDATimeout_step [OF inv] RequestServiceMulticastTimeout_step [OF inv] RegistrationTimeout_step [OF inv]
      DeRegistrationTimeout_step [OF inv] other [OF _ discovery_keeps(1)] other [OF _ discovery_keeps(2)] other [OF _ discovery_keeps(3)]
    by (cases timer) (auto simp: run_timer_def)
qed

lemma agent_step_good:
  assumes inv: "agent_inv ifs {} {} s" and "scopes_ok (m_configured_scopes (ag_server s))" "has_scopes e"
  shows "good_step ifs (mset (call_of e)) s (agent_step its ifs big now e s)"
proof (cases e)
  case (Receive packet source)
  then show ?thesis using Receive_step [OF inv] by simp
next
  case (Timeout t)
  then show ?thesis using Timeout_step [OF inv] by simp
next
  case (CallFind scopes service_type cb)
  then show ?thesis using Server_FindService_step [OF inv _ assms(2)] assms(3) by simp
next
  case (CallRegister x)
  then show ?thesis using RegisterService_step [OF inv] by simp
next
  case (CallDeRegister x)
  then show ?thesis using DeRegisterService_step [OF inv] by simp
next
  case CallDiscovery
  then show ?thesis using keeps_step [OF discovery_keeps(1) inv] by simp
qed (use inv in \<open>simp_all add: good_step_def agent_inv_def waiting_def CleanSLPStore_def DumpStore_def SendDABeat_def Server_SendDAAdvert_def\<close>)

lemma agent_steps_good:
  assumes "agent_steps its ifs big es s = Some (outs, s')" "smooth outs" "\<forall>(now, e) \<in> set es. has_scopes e"
    and "agent_inv ifs {} {} s" "scopes_ok (m_configured_scopes (ag_server s))"
  shows "agent_inv ifs {} {} s' \<and> ag_setup s' = ag_setup s \<and> found outs + waiting s' = waiting s + mset (calls es)"
  using assms
proof (induction its ifs big es s arbitrary: outs rule: agent_steps.induct)
  case (2 its ifs big now e es s)
  obtain o1 s1 o2 where r: "agent_step its ifs big now e s = Some (o1, s1)" "agent_steps its ifs big es s1 = Some (o2, s')" "outs = o1 @ o2"
    using "2.prems"(1) by (auto simp: and_then_def split: option.splits)
  have g: "ag_setup s1 = ag_setup s" "agent_inv ifs {} {} s1" "found o1 + waiting s1 = waiting s + mset (call_of e)"
    using agent_step_good [OF "2.prems"(4,5), of e its big now] r "2.prems"(2,3) by (auto simp: good_step_def)
  have "agent_inv ifs {} {} s' \<and> ag_setup s' = ag_setup s1 \<and> found o2 + waiting s' = waiting s1 + mset (calls es)"
    using "2.IH" [OF r(2) _ _ g(2)] "2.prems"(2,3,5) r(3) g(1) by simp
  moreover have "found o1 + (found o2 + waiting s') = (found o1 + waiting s1) + mset (calls es)"
    using calculation by simp
  ultimately show ?case using g r(3) by (simp add: ac_simps)
qed simp

lemma AddNewDACallback_ok: "tracker_ok ifs t \<Longrightarrow> tracker_ok ifs (AddNewDACallback c t)"
  using run_da_ok [of ifs t "AddCallback c"] by simp

lemma Init_inv:
  assumes "s = snd (snd (Server_Init its True now (SLPServer mc options)))"
  shows "agent_inv ifs {} {} s" "scopes_ok (m_configured_scopes (ag_server s))" "waiting s = {#}"
proof -
  have empty: "agent_inv ifs {} {} (SLPServer mc options)"
    by (simp add: agent_inv_def parts_inv_def SLPServer_def keys_ok_def find_inv_def reg_inv_def reg_timers_ok_def view_def DATracker_ok)
  define s1 where "s1 = set_tracker (AddNewDACallback 0 (ag_tracker (SLPServer mc options))) (SLPServer mc options)"
  have "agent_inv ifs {} {} s1"
    unfolding s1_def by (intro agent_inv_change(2) empty AddNewDACallback_ok) (simp add: SLPServer_def DATracker_ok)
  moreover
  define b where "b = (if m_enable_da (ag_server s1) \<and> tv_sec (m_tv (m_boot_time (ag_server s1))) = 0 then now else m_boot_time (ag_server s1))"
  have b: "s = snd (RegisterSingleTimeout StartDiscoveryTimer (s1\<lparr>ag_server := (ag_server s1)\<lparr>m_boot_time := b\<rparr>\<rparr>))"
    using assms unfolding Server_Init_def Let_def s1_def [symmetric] by (auto simp: b_def)
  ultimately have "agent_inv ifs {} {} (s1\<lparr>ag_server := (ag_server s1)\<lparr>m_boot_time := b\<rparr>\<rparr>)" by (simp add: agent_inv_def)
  then show "agent_inv ifs {} {} s" unfolding b by (rule agent_inv_timer) simp_all
  show "scopes_ok (m_configured_scopes (ag_server s))"
    using ScopeSet_laws(1) ScopeSet_of_set_laws(1) by (simp add: b s1_def set_tracker_def RegisterSingleTimeout_def SLPServer_def Let_def)
  show "waiting s = {#}" by (simp add: b s1_def set_tracker_def RegisterSingleTimeout_def SLPServer_def waiting_def)
qed

lemma pending_request_timer:
  assumes inv: "agent_inv ifs {} {} s" and p: "map_of (ag_requests s) p = Some r"
  obtains t a v timer where "map_of (ag_timers s) t = Some timer" "timer_view timer = Some (v_da v, a)" "rqst_ops (ag_ops s) a = Some v" "v_parent v = p"
proof -
  note f = agent_invD(7) [OF inv]
  obtain scope where "pending_scope r scope" using find_invD(6) [OF f p] Complete_iff by blast
  then obtain a v where v: "rqst_ops (ag_ops s) a = Some v" "v_parent v = p" using find_invD(7) [OF f p] by blast
  then have "rqst_timers (ag_timers s) (v_timer v) = Some (v_da v, a)" using find_invD(2) [OF f, of "v_timer v" "v_da v" a] by blast
  then show thesis using that v by (auto simp: view_def bind_eq_Some_conv)
qed

text \<open>C22: Every client that looks for a service gets one answer, and no object is used after it was deleted. After any datagrams,
  timeouts and calls, as long as every call that looks for a service names a scope, no number of a transaction is used
  twice at a time and no directory agent says that it
  is busy: the clients that were answered and those that wait are together those that called; for each one that waits
  there is a timer of an operation of its request; and whatever happens next, except for a call without scopes, the server
  does not run into a deleted object.\<close>

theorem find_calls_answered_once:
  assumes "s0 = snd (snd (Server_Init its True t0 (SLPServer mc options)))" "agent_steps its ifs big es s0 = Some (outs, s)"
    and "smooth outs" "\<forall>(now, e) \<in> set es. has_scopes e"
  shows "found outs + waiting s = mset (calls es) \<and>
    (\<forall>p r. map_of (ag_requests s) p = Some r \<longrightarrow>
       (\<exists>t a timer v. map_of (ag_timers s) t = Some timer \<and> timer_view timer = Some (v_da v, a) \<and>
          rqst_ops (ag_ops s) a = Some v \<and> v_parent v = p)) \<and>
    (\<forall>now e. has_scopes e \<longrightarrow> agent_step its ifs big now e s \<noteq> None)"
proof -
  note i = Init_inv(1) [OF assms(1), of ifs] Init_inv(2,3) [OF assms(1)]
  have g: "agent_inv ifs {} {} s" "ag_setup s = ag_setup s0" "found outs + waiting s = mset (calls es)"
    using agent_steps_good [OF assms(2-4) i(1,2)] i(3) by simp_all
  have "\<exists>t a timer v. map_of (ag_timers s) t = Some timer \<and> timer_view timer = Some (v_da v, a) \<and> rqst_ops (ag_ops s) a = Some v \<and> v_parent v = p"
    if "map_of (ag_requests s) p = Some r" for p r
    by (rule pending_request_timer [OF g(1) that]) blast
  moreover have "agent_step its ifs big now e s \<noteq> None" if "has_scopes e" for now e
    using agent_step_good [OF g(1) _ that, of its big now] g(2) i(2) by (auto simp: good_step_def)
  ultimately show ?thesis using g(3) by blast
qed

definition example_options :: "bool slp_options" where
  "example_options =
     \<lparr>opt_enable_da = False, opt_ip_address = True, opt_scopes = [], opt_slp_port = 427, opt_retry = 2, opt_retry_max = 15,
      opt_mc_max = 15, opt_initial_xid = 65535, opt_boot_time = 0\<rparr>"

definition example_calls :: "(TimeStamp \<times> bool agent_event) list" where
  "example_calls =
     [(TimeStamp (Timeval 1 0), CallFind [''default''] ''RDMNet'' 7), (TimeStamp (Timeval 2 0), CallFind [''stage''] ''RDMNet'' 8),
      (TimeStamp (Timeval 3 0), Timeout 4), (TimeStamp (Timeval 7 0), Timeout 8)]"

lemma find_calls_answered_once_witness:
  "\<exists>outs s. agent_steps two_ips two_ips_from True example_calls
      (snd (snd (Server_Init two_ips True (TimeStamp (Timeval 0 0)) (SLPServer False example_options)))) = Some (outs, s) \<and>
    7 \<in># found outs \<and> found outs + waiting s = {#7, 8#}"
proof -
  let ?s0 = "snd (snd (Server_Init two_ips True (TimeStamp (Timeval 0 0)) (SLPServer False example_options)))"
  let ?r = "agent_steps two_ips two_ips_from True example_calls ?s0"
  have "map_option (list_all smooth_effect \<circ> fst) ?r = Some True" "map_option (concat \<circ> map found_of \<circ> fst) ?r = Some [7]"
    by code_simp+
  then obtain outs s where r: "?r = Some (outs, s)" "smooth outs" "concat (map found_of outs) = [7]" by auto
  have "\<forall>(now, e) \<in> set example_calls. has_scopes e" "calls example_calls = [7, 8]" by (simp_all add: example_calls_def)
  then have "found outs + waiting s = {#7, 8#}" using find_calls_answered_once [OF refl r(1,2)] by simp
  moreover have "7 \<in># found outs" by (simp add: found_def r(3))
  ultimately show ?thesis using r(1) by blast
qed

section \<open>Agents that are busy\<close>

text \<open>A server after a run that went well.\<close>

definition reached ::
    "('ip \<Rightarrow> string) \<Rightarrow> (string \<Rightarrow> 'ip option) \<Rightarrow> bool \<Rightarrow> TimeStamp \<Rightarrow> 'ip \<Rightarrow> 'ip :: linorder slp_options \<Rightarrow>
      (TimeStamp \<times> 'ip agent_event) list \<Rightarrow> 'ip slp_agent \<Rightarrow> bool" where
  "reached its ifs big t0 mc options es s \<longleftrightarrow>
     (\<exists>outs. agent_steps its ifs big es (snd (snd (Server_Init its True t0 (SLPServer mc options)))) = Some (outs, s) \<and> smooth outs) \<and>
     (\<forall>(now, e) \<in> set es. has_scopes e)"

lemma reached_inv: "reached its ifs big t0 mc options es s \<Longrightarrow> agent_inv ifs {} {} s"
  using agent_steps_good Init_inv [OF refl] unfolding reached_def by metis

text \<open>C35: The request to a directory agent that is busy is lost. The answer says that the agent is busy; the server takes the
  transaction from its map and waits for the timeout to try again. The timeout finds no transaction and gives up: nothing
  is sent, the operation is gone, and the request stays with scopes that no operation works on.\<close>

theorem busy_agent_loses_request:
  assumes "reached its ifs big t0 mc options es s" "map_of (ag_ops s) a = Some (DARqst op)"
  shows "\<exists>s' r scope. and_then (ReceivedDASrvReply a (error_number DA_BUSY_NOW) urls s) (agent_step its ifs big now (Timeout (op_timer_id op))) =
      Some ([], s') \<and>
    map_of (ag_requests s') (ur_parent op) = Some r \<and> pending_scope r scope \<and>
    \<not> (\<exists>b v. rqst_ops (ag_ops s') b = Some v \<and> v_parent v = ur_parent op \<and> scope \<in> set (v_scopes v))"
proof -
  note f = find_invD [OF agent_invD(7) [OF reached_inv [OF assms(1)]]]
  define v where "v = \<lparr>v_da = True, v_xid = op_xid op, v_timer = op_timer_id op, v_parent = ur_parent op, v_scopes = ur_scopes op\<rparr>"
  have v: "rqst_ops (ag_ops s) a = Some v" "v_parent v = ur_parent op" "v_timer v = op_timer_id op" using assms(2) by (simp_all add: view_def v_def)
  obtain scope where scope: "scope \<in> set (v_scopes v)" using f(3) [OF v(1)] by (cases "v_scopes v") auto
  obtain r where r: "map_of (ag_requests s) (ur_parent op) = Some r" "pending_scope r scope" using f(4) [OF v(1)] scope v(2) by auto
  have "rqst_timers (ag_timers s) (op_timer_id op) = Some (True, a)" using f(2) [of "op_timer_id op" True a] v by (auto simp: v_def)
  then have t: "map_of (ag_timers s) (op_timer_id op) = Some (DARqstTimer a)" by (auto simp: view_def bind_eq_Some_conv elim!: timer_view.elims)
  have other: "\<not> (b \<noteq> a \<and> rqst_ops (ag_ops s) b = Some w \<and> v_parent w = ur_parent op \<and> scope \<in> set (v_scopes w))" for b w
    using f(5) [OF v(1), of b w] scope v(2) by auto
  let ?s' = "(set_replies (map_erase (op_xid op) (ag_replies s)) (RemoveTimeout (op_timer_id op) s))\<lparr>ag_ops := map_erase a (ag_ops s)\<rparr>"
  have "and_then (ReceivedDASrvReply a (error_number DA_BUSY_NOW) urls s) (agent_step its ifs big now (Timeout (op_timer_id op))) = Some ([], ?s')"
    using assms(2) t
    by (simp add: ReceivedDASrvReply_def and_then_def agent_simps run_timer_def RequestServiceDATimeout_def map_of_map_set map_of_map_erase)
  moreover have "map_of (ag_requests ?s') (ur_parent op) = Some r" "rqst_ops (ag_ops ?s') = (rqst_ops (ag_ops s))(a := None)"
    using r(1) by (simp_all add: agent_simps view_erase)
  ultimately show ?thesis using r(2) other by (intro exI [of _ ?s'] exI [of _ r] exI [of _ scope]) auto
qed

definition example_agent :: "(TimeStamp \<times> bool agent_event) list" where
  "example_agent =
     [(TimeStamp (Timeval 1 0), Receive (enc_message two_ips
         (DAAdvert 0 False 0 1 ''service:directory-agent://10.0.0.2'' [''default''])) (False, 427)),
      (TimeStamp (Timeval 2 0), CallFind [''default''] ''RDMNet'' 7),
      (TimeStamp (Timeval 3 0), CallRegister (ServiceEntry_typed [''default''] ''rdmnet'' ''rdmnet://a'' 100 False))]"

definition example_agent_run :: "(bool slp_effect list \<times> bool slp_agent) option" where
  "example_agent_run = agent_steps two_ips two_ips_from True example_agent
     (snd (snd (Server_Init two_ips True (TimeStamp (Timeval 0 0)) (SLPServer False example_options))))"

lemma example_agent_facts:
  "\<exists>s op reg. reached two_ips two_ips_from True (TimeStamp (Timeval 0 0)) False example_options example_agent s \<and>
    map_of (ag_ops s) 4 = Some (DARqst op) \<and> map_of (ag_ops s) 6 = Some (DAReg reg) \<and>
    map_of (ag_acks s) (op_xid reg) = Some 6 \<and> map_of (ag_timers s) (op_timer_id reg) = Some (RegTimer 6)"
proof -
  let ?rqst = "\<lambda>(out, s). case map_of (ag_ops s) 4 of Some (DARqst op) \<Rightarrow> True | _ \<Rightarrow> False"
  let ?reg = "\<lambda>(out, s). case map_of (ag_ops s) 6 of Some (DAReg op) \<Rightarrow> map_of (ag_acks s) (op_xid op) = Some 6 \<and>
          map_of (ag_timers s) (op_timer_id op) = Some (RegTimer 6) | _ \<Rightarrow> False"
  have facts: "map_option (list_all smooth_effect \<circ> fst) example_agent_run = Some True"
    "map_option ?rqst example_agent_run = Some True" "map_option ?reg example_agent_run = Some True"
    by code_simp+
  then obtain outs s where run: "example_agent_run = Some (outs, s)" by (cases example_agent_run) auto
  have r: "smooth outs" "?rqst (outs, s)" "?reg (outs, s)" using facts by (simp_all add: run)
  moreover note run
  moreover obtain op where "map_of (ag_ops s) 4 = Some (DARqst op)" using r(2) by (auto split: option.splits slp_op.splits)
  moreover obtain reg where "map_of (ag_ops s) 6 = Some (DAReg reg)" using r(3) by (auto split: option.splits slp_op.splits)
  moreover have "\<forall>(now, e) \<in> set example_agent. has_scopes e" by (simp add: example_agent_def)
  ultimately show ?thesis unfolding reached_def example_agent_run_def [symmetric] by fastforce
qed

lemma busy_agent_loses_request_witness:
  "\<exists>s op s' r scope. reached two_ips two_ips_from True (TimeStamp (Timeval 0 0)) False example_options example_agent s \<and>
    map_of (ag_ops s) 4 = Some (DARqst op) \<and>
    and_then (ReceivedDASrvReply 4 11 [] s) (agent_step two_ips two_ips_from True (TimeStamp (Timeval 4 0)) (Timeout (op_timer_id op))) =
      Some ([], s') \<and> map_of (ag_requests s') (ur_parent op) = Some r \<and> pending_scope r scope"
proof -
  obtain s op where s: "reached two_ips two_ips_from True (TimeStamp (Timeval 0 0)) False example_options example_agent s"
    "map_of (ag_ops s) 4 = Some (DARqst op)" using example_agent_facts by blast
  have busy: "error_number DA_BUSY_NOW = 11" by simp
  obtain s' r scope where "and_then (ReceivedDASrvReply 4 11 [] s)
      (agent_step two_ips two_ips_from True (TimeStamp (Timeval 4 0)) (Timeout (op_timer_id op))) = Some ([], s')"
    "map_of (ag_requests s') (ur_parent op) = Some r" "pending_scope r scope"
    using busy_agent_loses_request [OF s, of "[]" "TimeStamp (Timeval 4 0)"] unfolding busy by blast
  then show ?thesis using s by blast
qed

lemma FreePendingDAOperation_ops:
  "FreePendingDAOperation a s = Some s1 \<Longrightarrow> ag_ops s1 = map_erase a (ag_ops s) \<and> ag_tracker s1 = ag_tracker s"
  by (auto simp: FreePendingDAOperation_def agent_simps split: option.splits slp_op.splits)

lemma cancel_loop_ops:
  "cancel_loop url da as s = Some s' \<Longrightarrow> ag_tracker s' = ag_tracker s \<and>
    (map_of (ag_ops s) a = None \<or> (\<exists>op. map_of (ag_ops s) a = Some (DAReg op) \<and> rg_da_url op = da \<and> a \<in> set as) \<longrightarrow> map_of (ag_ops s') a = None)"
proof (induction as arbitrary: s)
  case (Cons b as)
  obtain op where op: "map_of (ag_ops s) b = Some (DAReg op)" using Cons.prems by (auto split: option.splits slp_op.splits)
  show ?case
  proof (cases "rg_da_url op = da")
    case True
    then obtain s1 where s1: "FreePendingDAOperation b s = Some s1"
      "cancel_loop url da as (s1\<lparr>ag_pending_ops := filter (\<lambda>x. x \<noteq> (url, b)) (ag_pending_ops s1)\<rparr>) = Some s'"
      using Cons.prems op by (auto split: option.splits)
    show ?thesis using Cons.IH [OF s1(2)] FreePendingDAOperation_ops [OF s1(1)] by (auto simp: map_of_map_erase split: if_splits)
  next
    case False
    then show ?thesis using Cons.IH [of s] Cons.prems op by auto
  qed
qed auto

text \<open>C36: The registration with a directory agent that is busy is dropped. When the acknowledgement says that the agent is busy,
  the transaction is taken from the map of the server, and the timeout that should try again finds no transaction and
  deletes the operation: nothing is sent and the agent is still believed to be there. The acknowledgement fits into the
  1500 bytes the server receives.\<close>

theorem busy_agent_drops_registration:
  assumes "reached its ifs big t0 mc options es s" "address_text its ifs"
    and "length (enc_message its (SrvAck (op_xid op) language (error_number DA_BUSY_NOW))) \<le> PACKET_SIZE"
    and "map_of (ag_ops s) a = Some (DAReg op)" "map_of (ag_acks s) (op_xid op) = Some a"
    and "map_of (ag_timers s) (op_timer_id op) = Some (RegTimer a)"
  shows "\<exists>s'. agent_steps its ifs big
      [(t1, Receive (enc_message its (SrvAck (op_xid op) language (error_number DA_BUSY_NOW)) @ rest) source), (t2, Timeout (op_timer_id op))] s =
      Some ([RunAck a (error_number DA_BUSY_NOW)], s') \<and>
    map_of (ag_ops s') a = None \<and> ag_tracker s' = ag_tracker s"
proof -
  note inv = reached_inv [OF assms(1)]
  define s1 where "s1 = set_acks (map_erase (op_xid op) (ag_acks s)) s"
  have "HandleUDPData its ifs big t1 (enc_message its (SrvAck (op_xid op) language (error_number DA_BUSY_NOW)) @ rest) source (ag_server s) =
      ([RunAck a (error_number DA_BUSY_NOW)], ag_server s1)"
    using HandleUDPData_message [OF assms(2), of "SrvAck (op_xid op) language (error_number DA_BUSY_NOW)"] assms(3,5)
    by (simp add: HandleServiceAck_def s1_def set_acks_def del: enc_message.simps)
  then have r1: "agent_step its ifs big t1 (Receive (enc_message its (SrvAck (op_xid op) language (error_number DA_BUSY_NOW)) @ rest) source) s =
      Some ([RunAck a (error_number DA_BUSY_NOW)], s1)"
    by (simp add: ReceivedAck_def and_then_def s1_def set_acks_def del: enc_message.simps)
  define s2 where "s2 = RemoveTimeout (op_timer_id op) s1"
  have s2: "map_of (ag_ops s2) a = Some (DAReg op)" "ag_tracker s2 = ag_tracker s" using assms(4) by (simp_all add: s2_def s1_def agent_simps)
  have "agent_inv ifs {} {} s1" using agent_inv_change(1) [OF inv] by (simp add: s1_def CancelPendingSrvAck_def)
  then have inv2: "agent_inv ifs {} {} s2"
    using parts_remove_timer [of ifs "{}" "{}" _ _ "ag_timers s1" _ _ _ _ _ "op_timer_id op"] assms(6)
    by (simp add: agent_inv_def s2_def RemoveTimeout_def view_def) (simp add: s1_def agent_simps)
  have a: "a \<in> set (map snd (filter (\<lambda>(u, a). u = e_url (rg_service op)) (ag_pending_ops s2)))"
    using reg_invD(5) [OF agent_invD(8) [OF inv2], of "e_url (rg_service op)" a] s2(1) by (force simp: view_def)
  obtain s' where c: "CancelPendingDAOperationsForServiceAndDA (e_url (rg_service op)) (rg_da_url op) s2 = Some s'"
    using CancelPendingDAOperationsForServiceAndDA_result [OF inv2] by blast
  have "agent_step its ifs big t2 (Timeout (op_timer_id op)) s1 = Some ([], s')"
    using assms(4,6) c
    by (simp add: run_timer_def RegistrationTimeout_def delete_operation_def s2_def s1_def agent_simps map_of_map_erase)
  moreover have "map_of (ag_ops s') a = None \<and> ag_tracker s' = ag_tracker s"
    using cancel_loop_ops [OF c [unfolded CancelPendingDAOperationsForServiceAndDA_def], of a] s2 a by simp
  ultimately show ?thesis using r1 by (simp add: and_then_def del: agent_step.simps enc_message.simps)
qed

lemma busy_agent_drops_registration_witness:
  "\<exists>s reg s'. reached two_ips two_ips_from True (TimeStamp (Timeval 0 0)) False example_options example_agent s \<and>
    map_of (ag_ops s) 6 = Some (DAReg reg) \<and>
    agent_steps two_ips two_ips_from True
      [(TimeStamp (Timeval 4 0), Receive (enc_message two_ips (SrvAck (op_xid reg) ''en'' 11) @ []) (False, 427)),
       (TimeStamp (Timeval 5 0), Timeout (op_timer_id reg))] s = Some ([RunAck 6 11], s') \<and> map_of (ag_ops s') 6 = None"
proof -
  obtain s reg where s: "reached two_ips two_ips_from True (TimeStamp (Timeval 0 0)) False example_options example_agent s"
    "map_of (ag_ops s) 6 = Some (DAReg reg)" "map_of (ag_acks s) (op_xid reg) = Some 6" "map_of (ag_timers s) (op_timer_id reg) = Some (RegTimer 6)"
    using example_agent_facts by blast
  have "length (enc_message two_ips (SrvAck (op_xid reg) ''en'' (error_number DA_BUSY_NOW))) \<le> PACKET_SIZE" by (simp add: PACKET_SIZE_def)
  from busy_agent_drops_registration [OF s(1) two_ips_text this s(2-4), of "TimeStamp (Timeval 4 0)" "[]" "(False, 427)" "TimeStamp (Timeval 5 0)"] s
  show ?thesis by (auto simp del: agent_steps.simps enc_message.simps)
qed

end
