(* ===== verification/Usb_Widget.thy ===== *)
theory Usb_Widget
  imports Dmx_Value
begin

text \<open>
  Serial widgets: \<^verbatim>\<open>plugins/usbpro/BaseUsbProWidget.cpp\<close>, which sends and receives framed messages over a descriptor, and
  \<open>ConnectedDescriptor::Receive\<close> of \<^verbatim>\<open>common/io/Descriptor.cpp\<close>, which it reads with.
\<close>

section \<open>Descriptors\<close>

text \<open>The results of the calls of \<open>read\<close>, in order: some data (none at the end of the file), no data yet, an
  interruption, a failure. The list ends where no data is left.\<close>

datatype read_result = Data bytes | Again | Interrupted | ReadFailed

text \<open>The loop of \<open>Receive\<close>: \<open>mem\<close> is the memory from the start of the buffer, \<open>data\<close> the offset the next read writes to. The
  pointer moves by all the data read so far and not by the last part of it, and an interruption counts as -1 bytes. A
  write beyond the memory is \<open>None\<close>.\<close>

fun receive_loop :: "u32 \<Rightarrow> bytes \<Rightarrow> nat \<Rightarrow> u32 \<Rightarrow> read_result list \<Rightarrow> (u32 \<times> bytes) option" where
  "receive_loop len mem data data_read [] = Some (data_read, mem)"
| "receive_loop len mem data data_read (r # rs) =
     (if data_read < len then
        case r of
          Again \<Rightarrow> Some (data_read, mem)
        | ReadFailed \<Rightarrow> Some (data_read, mem)
        | Interrupted \<Rightarrow> receive_loop len mem (data + unat (data_read - 1)) (data_read - 1) rs
        | Data xs \<Rightarrow>
            (if xs = [] then Some (data_read, mem)
             else if data + length xs > length mem then None
             else let data_read' = data_read + of_nat (length xs)
                  in receive_loop len (memcpy_at mem data xs) (data + unat data_read') data_read' rs)
      else Some (data_read, mem))"

definition ReceiveResults :: "bytes \<Rightarrow> u32 \<Rightarrow> read_result list \<Rightarrow> (u32 \<times> bytes) option" where
  "ReceiveResults mem len reads = receive_loop len mem 0 0 reads"

text \<open>What a descriptor delivers, in the order of time: \<open>Some xs\<close> is data that is there for the next read, \<open>None\<close> a moment at which
  no data is left. After data, more data may arrive before the next read, so that one call of \<open>Receive\<close> reads both.\<close>

type_synonym arrivals = "bytes option list"

text \<open>The results of the reads of one call that asks for \<open>n\<close> bytes, and what is left then. A read takes what it asks for or all
  there is.\<close>

fun take_reads :: "nat \<Rightarrow> arrivals \<Rightarrow> read_result list \<times> arrivals" where
  "take_reads n [] = ([], [])"
| "take_reads n (None # t) = (if n = 0 then ([], None # t) else ([Again], t))"
| "take_reads n (Some xs # t) =
     (if n = 0 then ([], Some xs # t)
      else if length xs \<le> n then let (rs, t') = take_reads (n - length xs) t in (Data xs # rs, t')
      else ([Data (take n xs)], Some (drop n xs) # t))"

text \<open>A call of \<open>Receive\<close>: the memory, the number of bytes, and what is left.\<close>

definition Receive :: "bytes \<Rightarrow> nat \<Rightarrow> arrivals \<Rightarrow> (bytes \<times> nat \<times> arrivals) option" where
  "Receive mem len t =
     (let (reads, t') = take_reads len t
      in map_option (\<lambda>(count, mem'). (mem', unat count, t')) (ReceiveResults mem (of_nat len) reads))"

text \<open>\<open>DataRemaining\<close>: the number of bytes that are there now.\<close>

fun DataRemaining :: "arrivals \<Rightarrow> nat" where
  "DataRemaining (Some xs # t) = length xs"
| "DataRemaining t = 0"

section \<open>The widget\<close>

definition SOM :: u8 where "SOM = 0x7e"

definition EOM :: u8 where "EOM = 0xe7"

definition DMX_LABEL :: u8 where "DMX_LABEL = 6"

definition DMX512_START_CODE :: u8 where "DMX512_START_CODE = 0"

definition MAX_DATA_SIZE :: nat where "MAX_DATA_SIZE = 600"

datatype receive_state = PRE_SOM | RECV_LABEL | RECV_SIZE_LO | RECV_SIZE_HI | RECV_BODY | RECV_EOM

record message_header =
  h_som :: u8
  h_label :: u8
  h_len :: u8
  h_len_hi :: u8

record usb_widget =
  w_state :: receive_state
  w_bytes_received :: nat
  w_header :: message_header
  w_recv_buffer :: bytes

text \<open>The arguments of \<open>HandleMessage\<close>: the label and the data, \<open>None\<close> for the null pointer.\<close>

type_synonym usb_message = "u8 \<times> bytes option"

text \<open>The header and the buffer of a new widget are not initialised.\<close>

definition BaseUsbProWidget :: "message_header \<Rightarrow> bytes \<Rightarrow> usb_widget" where
  "BaseUsbProWidget header buffer =
     \<lparr>w_state = PRE_SOM, w_bytes_received = 0, w_header = header, w_recv_buffer = buffer\<rparr>"

definition packet_length :: "usb_widget \<Rightarrow> nat" where
  "packet_length w = unat (h_len_hi (w_header w)) * 2 ^ 8 + unat (h_len (w_header w))"

text \<open>The cases of \<open>ReceiveMessage\<close> in the order in which they call each other by falling through. The loop that waits for
  the start byte is a partial function, since it ends only because the data does.\<close>

type_synonym receiving = "(usb_widget \<times> arrivals \<times> usb_message list) option"

definition receive_eom :: "usb_widget \<Rightarrow> arrivals \<Rightarrow> receiving" where
  "receive_eom w t =
     do { (mem, count, t1) \<leftarrow> Receive [0] 1 t;
          if count \<noteq> 1 then Some (w, t1, [])
          else Some (w\<lparr>w_state := PRE_SOM\<rparr>, t1,
            if mem ! 0 = EOM then
              [(h_label (w_header w), if packet_length w \<noteq> 0 then Some (take (packet_length w) (w_recv_buffer w)) else None)]
            else []) }"

definition receive_body :: "usb_widget \<Rightarrow> arrivals \<Rightarrow> receiving" where
  "receive_body w t =
     do { (mem, count, t1) \<leftarrow> Receive (drop (w_bytes_received w) (w_recv_buffer w)) (uint_sub (packet_length w) (w_bytes_received w)) t;
          let w1 = w\<lparr>w_recv_buffer := take (w_bytes_received w) (w_recv_buffer w) @ mem\<rparr>;
          if count = 0 then Some (w1, t1, [])
          else
            let w2 = w1\<lparr>w_bytes_received := w_bytes_received w1 + count\<rparr>
            in if w_bytes_received w2 \<noteq> packet_length w2 then Some (w2, t1, [])
               else receive_eom (w2\<lparr>w_state := RECV_EOM\<rparr>) t1 }"

definition receive_size_hi :: "usb_widget \<Rightarrow> arrivals \<Rightarrow> receiving" where
  "receive_size_hi w t =
     do { (mem, count, t1) \<leftarrow> Receive [h_len_hi (w_header w)] 1 t;
          let w1 = w\<lparr>w_header := (w_header w)\<lparr>h_len_hi := mem ! 0\<rparr>\<rparr>;
          if count \<noteq> 1 then Some (w1, t1, [])
          else if packet_length w1 = 0 then Some (w1\<lparr>w_state := RECV_EOM\<rparr>, t1, [])
          else if packet_length w1 > MAX_DATA_SIZE then Some (w1\<lparr>w_state := PRE_SOM\<rparr>, t1, [])
          else receive_body (w1\<lparr>w_bytes_received := 0, w_state := RECV_BODY\<rparr>) t1 }"

definition receive_size_lo :: "usb_widget \<Rightarrow> arrivals \<Rightarrow> receiving" where
  "receive_size_lo w t =
     do { (mem, count, t1) \<leftarrow> Receive [h_len (w_header w)] 1 t;
          let w1 = w\<lparr>w_header := (w_header w)\<lparr>h_len := mem ! 0\<rparr>\<rparr>;
          if count \<noteq> 1 then Some (w1, t1, []) else receive_size_hi (w1\<lparr>w_state := RECV_SIZE_HI\<rparr>) t1 }"

definition receive_label :: "usb_widget \<Rightarrow> arrivals \<Rightarrow> receiving" where
  "receive_label w t =
     do { (mem, count, t1) \<leftarrow> Receive [h_label (w_header w)] 1 t;
          let w1 = w\<lparr>w_header := (w_header w)\<lparr>h_label := mem ! 0\<rparr>\<rparr>;
          if count \<noteq> 1 then Some (w1, t1, []) else receive_size_lo (w1\<lparr>w_state := RECV_SIZE_LO\<rparr>) t1 }"

partial_function (option) receive_som :: "usb_widget \<Rightarrow> arrivals \<Rightarrow> receiving" where
  "receive_som w t =
     do { (mem, count, t1) \<leftarrow> Receive [h_som (w_header w)] 1 t;
          let w1 = w\<lparr>w_header := (w_header w)\<lparr>h_som := mem ! 0\<rparr>\<rparr>;
          if count \<noteq> 1 then Some (w1, t1, [])
          else if mem ! 0 \<noteq> SOM then receive_som w1 t1
          else receive_label (w1\<lparr>w_state := RECV_LABEL\<rparr>) t1 }"

declare receive_som.simps [code]

definition ReceiveMessage :: "usb_widget \<Rightarrow> arrivals \<Rightarrow> receiving" where
  "ReceiveMessage w =
     (case w_state w of
        PRE_SOM \<Rightarrow> receive_som w
      | RECV_LABEL \<Rightarrow> receive_label w
      | RECV_SIZE_LO \<Rightarrow> receive_size_lo w
      | RECV_SIZE_HI \<Rightarrow> receive_size_hi w
      | RECV_BODY \<Rightarrow> receive_body w
      | RECV_EOM \<Rightarrow> receive_eom w)"

text \<open>The loop of \<open>DescriptorReady\<close>. It is total as a recursive function only if every round takes some of the data, which is
  proved below, so it is a partial function here.\<close>

partial_function (option) DescriptorReady :: "usb_widget \<Rightarrow> arrivals \<Rightarrow> receiving" where
  "DescriptorReady w t =
     (if DataRemaining t > 0 then
        do { (w1, t1, ms) \<leftarrow> ReceiveMessage w t;
             (w2, t2, more) \<leftarrow> DescriptorReady w1 t1;
             Some (w2, t2, ms @ more) }
      else Some (w, t, []))"

declare DescriptorReady.simps [code]

text \<open>The event loop calls \<open>DescriptorReady\<close> again when new data arrives after a moment without data.\<close>

partial_function (option) receive_all :: "usb_widget \<Rightarrow> arrivals \<Rightarrow> (usb_widget \<times> usb_message list) option" where
  "receive_all w t =
     do { (w1, t1, ms) \<leftarrow> DescriptorReady w t;
          if t1 = [] then Some (w1, ms)
          else do { (w2, more) \<leftarrow> receive_all w1 (tl t1); Some (w2, ms @ more) } }"

declare receive_all.simps [code]

text \<open>Sending. The argument \<open>send\<close> is the number of bytes the descriptor sends; the result is the frame given to it and
  the success. The caller provides an array of at least \<open>len\<close> bytes.\<close>

definition SendMessage :: "(bytes \<Rightarrow> int) \<Rightarrow> u8 \<Rightarrow> bytes option \<Rightarrow> nat \<Rightarrow> bool \<times> bytes list" where
  "SendMessage send label data len =
     (if len \<noteq> 0 \<and> data = None then (False, [])
      else
        let body = (case data of None \<Rightarrow> [] | Some xs \<Rightarrow> take len xs);
            frame = [SOM, label, of_nat len AND 0xFF, of_nat ((len div 2 ^ 8) mod 2 ^ 8)] @ body @ [EOM]
        in (send frame = int (length frame), [frame]))"

definition SendDMX :: "(bytes \<Rightarrow> int) \<Rightarrow> dmx \<Rightarrow> bool \<times> bytes list" where
  "SendDMX send buffer =
     (let xs = take DMX_UNIVERSE_SIZE (slots buffer)
      in SendMessage send DMX_LABEL (Some (DMX512_START_CODE # xs)) (length xs + 1))"

section \<open>Reading\<close>

lemma of_nat_less_u32: "n < 2 ^ 32 \<Longrightarrow> (of_nat k :: u32) < of_nat n \<longleftrightarrow> k mod 2 ^ 32 < n"
  by (simp add: word_less_nat_alt unat_of_nat)

text \<open>No, one and two reads of data are written one after the other.\<close>

lemma receive_reads:
  assumes "len \<le> length mem" "0 < len" "len < 2 ^ 32" "rs = [] \<or> rs = [Again]"
  shows "ReceiveResults mem (of_nat len) rs = Some (0, mem)"
    and "xs \<noteq> [] \<Longrightarrow> length xs \<le> len \<Longrightarrow> ReceiveResults mem (of_nat len) (Data xs # rs) = Some (of_nat (length xs), memcpy_at mem 0 xs)"
    and "xs \<noteq> [] \<Longrightarrow> ys \<noteq> [] \<Longrightarrow> length (xs @ ys) \<le> len \<Longrightarrow>
      ReceiveResults mem (of_nat len) (Data xs # Data ys # rs) = Some (of_nat (length (xs @ ys)), memcpy_at mem 0 (xs @ ys))"
proof -
  have l0: "(0 :: u32) < of_nat len" using of_nat_less_u32 [OF assms(3), of 0] assms(2) by simp
  show "ReceiveResults mem (of_nat len) rs = Some (0, mem)"
    using assms(4) l0 by (auto simp: ReceiveResults_def)
  show "ReceiveResults mem (of_nat len) (Data xs # rs) = Some (of_nat (length xs), memcpy_at mem 0 xs)"
    if "xs \<noteq> []" "length xs \<le> len"
    using assms that l0 by (auto simp: ReceiveResults_def Let_def)
  show "ReceiveResults mem (of_nat len) (Data xs # Data ys # rs) = Some (of_nat (length (xs @ ys)), memcpy_at mem 0 (xs @ ys))"
    if "xs \<noteq> []" "ys \<noteq> []" "length (xs @ ys) \<le> len"
  proof -
    have "length xs < len" using that(2,3) by (cases ys) simp_all
    then have l: "(of_nat (length xs) :: u32) < of_nat len" "unat (of_nat (length xs) :: u32) = length xs"
      using of_nat_less_u32 [OF assms(3), of "length xs"] assms(3) by (simp_all add: unat_of_nat)
    have "length (memcpy_at mem 0 xs) = length mem" "memcpy_at (memcpy_at mem 0 xs) (length xs) ys = memcpy_at mem 0 (xs @ ys)"
      using assms(1) that(3) by (simp_all add: memcpy_at_def add.commute)
    then show ?thesis using assms that l0 l by (auto simp: ReceiveResults_def Let_def)
  qed
qed

text \<open>Data comes in parts that are not empty, and no three parts without a moment in which no data is left: then a call of
  \<open>Receive\<close> reads data at most twice.\<close>

fun gentle :: "arrivals \<Rightarrow> bool" where
  "gentle [] \<longleftrightarrow> True"
| "gentle (None # t) \<longleftrightarrow> gentle t"
| "gentle (Some xs # t) \<longleftrightarrow> xs \<noteq> [] \<and> (case t of Some ys # Some zs # u \<Rightarrow> False | _ \<Rightarrow> True) \<and> gentle t"

definition bytes_of :: "arrivals \<Rightarrow> bytes" where
  "bytes_of t = concat (map (\<lambda>x. case x of None \<Rightarrow> [] | Some xs \<Rightarrow> xs) t)"

definition weight :: "arrivals \<Rightarrow> nat" where
  "weight t = length t + length (bytes_of t)"

lemma bytes_of_simps [simp]: "bytes_of [] = []" "bytes_of (None # t) = bytes_of t" "bytes_of (Some xs # t) = xs @ bytes_of t"
  by (simp_all add: bytes_of_def)

lemma weight_simps [simp]:
  "weight [] = 0" "weight (None # t) = Suc (weight t)" "weight (Some xs # t) = Suc (length xs + weight t)"
  by (simp_all add: weight_def)

text \<open>\<open>passed t xs t'\<close>: after the bytes \<open>xs\<close> were taken from \<open>t\<close>, \<open>t'\<close> is left.\<close>

definition passed :: "arrivals \<Rightarrow> bytes \<Rightarrow> arrivals \<Rightarrow> bool" where
  "passed t xs t' \<longleftrightarrow> bytes_of t = xs @ bytes_of t' \<and> gentle t' \<and> (weight t' < weight t \<or> t = [] \<and> t' = [])"

lemma passed_trans: "passed t xs t1 \<Longrightarrow> passed t1 ys t2 \<Longrightarrow> passed t (xs @ ys) t2"
  by (auto simp: passed_def)

lemma take_reads_passed:
  assumes "gentle t" "0 < len"
  obtains xs ys rs t' where "take_reads len t = (map Data (filter (\<lambda>zs. zs \<noteq> []) [xs, ys]) @ rs, t')" "rs = [] \<or> rs = [Again]"
    "xs = [] \<longrightarrow> ys = []" "length (xs @ ys) \<le> len" "passed t (xs @ ys) t'" "DataRemaining t > 0 \<longrightarrow> xs \<noteq> []"
proof (cases t)
  case Nil
  then show ?thesis using that [of "[]" "[]" "[]" "[]"] assms by (simp add: passed_def)
next
  case (Cons x t1)
  show ?thesis
  proof (cases x)
    case None
    then show ?thesis using that [of "[]" "[]" "[Again]" t1] assms Cons by (simp add: passed_def)
  next
    case (Some xs)
    have xs: "xs \<noteq> []" using assms(1) Cons Some by simp
    consider (part) "len < length xs" | (whole) "length xs = len" | (more) "length xs < len" by linarith
    then show ?thesis
    proof cases
      case part
      then show ?thesis using that [of "take len xs" "[]" "[]" "Some (drop len xs) # t1"] assms Cons Some xs
        by (auto simp: passed_def split: list.splits option.splits)
    next
      case whole
      have "take_reads 0 t1 = ([], t1)" by (cases t1 rule: gentle.cases) auto
      then show ?thesis using that [of xs "[]" "[]" t1] assms Cons Some xs whole by (simp add: passed_def)
    next
      case more
      consider "t1 = []" | t2 where "t1 = None # t2" | ys t2 where "t1 = Some ys # t2" by (cases t1 rule: gentle.cases) auto
      then show ?thesis
      proof cases
        case 1
        then show ?thesis using that [of xs "[]" "[]" "[]"] assms Cons Some xs more by (simp add: passed_def)
      next
        case 2
        then show ?thesis using that [of xs "[]" "[Again]" t2] assms Cons Some xs more by (simp add: passed_def)
      next
        case 3
        have ys: "ys \<noteq> []" "gentle t2" "t2 = [] \<or> (\<exists>t3. t2 = None # t3)"
          using assms(1) Cons Some 3 by (auto split: list.splits option.splits)
        consider "len - length xs < length ys" | "length ys = len - length xs" | "length ys < len - length xs" by linarith
        then show ?thesis
        proof cases
          case 1
          then show ?thesis
            using that [of xs "take (len - length xs) ys" "[]" "Some (drop (len - length xs) ys) # t2"] ys assms Cons Some xs more 3
            by (auto simp: passed_def split: list.splits option.splits)
        next
          case 2
          have "take_reads 0 t2 = ([], t2)" using ys(3) by auto
          then show ?thesis using that [of xs ys "[]" t2] ys assms Cons Some xs more 3 2 by (simp add: passed_def)
        next
          case 3
          then show ?thesis using \<open>t1 = Some ys # t2\<close> ys(3)
          proof (elim disjE exE)
            assume "t2 = []"
            then show ?thesis using that [of xs ys "[]" "[]"] ys assms Cons Some xs more 3 \<open>t1 = Some ys # t2\<close> by (simp add: passed_def)
          next
            fix t3 assume "t2 = None # t3"
            then show ?thesis using that [of xs ys "[Again]" t3] ys assms Cons Some xs more 3 \<open>t1 = Some ys # t2\<close> by (simp add: passed_def)
          qed
        qed
      qed
    qed
  qed
qed

lemma Receive_passed:
  assumes "gentle t" "len \<le> length mem" "0 < len" "len < 2 ^ 32"
  obtains xs t' where "Receive mem len t = Some (memcpy_at mem 0 xs, length xs, t')" "length xs \<le> len" "passed t xs t'"
    "DataRemaining t > 0 \<longrightarrow> xs \<noteq> []"
proof -
  obtain xs ys rs t' where r: "take_reads len t = (map Data (filter (\<lambda>zs. zs \<noteq> []) [xs, ys]) @ rs, t')" "rs = [] \<or> rs = [Again]"
    "xs = [] \<longrightarrow> ys = []" "length (xs @ ys) \<le> len" "passed t (xs @ ys) t'" "DataRemaining t > 0 \<longrightarrow> xs \<noteq> []"
    using take_reads_passed [OF assms(1,3)] by blast
  have "ReceiveResults mem (of_nat len) (map Data (filter (\<lambda>zs. zs \<noteq> []) [xs, ys]) @ rs) =
      Some (of_nat (length (xs @ ys)), memcpy_at mem 0 (xs @ ys))"
    using receive_reads [OF assms(2-4) r(2)] r(3,4) by (cases "xs = []"; cases "ys = []") auto
  moreover have "unat (of_nat (length (xs @ ys)) :: u32) = length (xs @ ys)"
    unfolding unat_of_nat using r(4) assms(4) by simp
  ultimately have "Receive mem len t = Some (memcpy_at mem 0 (xs @ ys), length (xs @ ys), t')" by (simp add: Receive_def r(1) del: of_nat_add length_append)
  then show thesis using that [of "xs @ ys" t'] r(4-6) by simp
qed

lemma Receive_byte:
  assumes "gentle t"
  obtains (none) t' where "Receive [x] 1 t = Some ([x], 0, t')" "passed t [] t'"
    | (one) b t' where "Receive [x] 1 t = Some ([b], 1, t')" "passed t [b] t'"
proof -
  obtain xs t' where r: "Receive [x] 1 t = Some (memcpy_at [x] 0 xs, length xs, t')" "length xs \<le> 1" "passed t xs t'"
    by (rule Receive_passed [OF assms, of 1 "[x]"]) simp_all
  show thesis
  proof (cases xs)
    case Nil
    then show ?thesis using none r by simp
  next
    case (Cons b bs)
    then show ?thesis using one [of b t'] r by (simp add: memcpy_at_def)
  qed
qed

text \<open>C40: Data that arrives during a call of \<open>Receive\<close> is written to the wrong place. The pointer moves by the
  total of the bytes read and not by the last part, so that a buffer filled by three reads is overrun.\<close>

theorem receive_overruns:
  assumes "xs \<noteq> []" "ys \<noteq> []" "zs \<noteq> []" "length mem = length (xs @ ys @ zs)" "length mem < 2 ^ 32"
  shows "ReceiveResults mem (of_nat (length mem)) [Data xs, Data ys, Data zs] = None"
proof -
  have less: "(of_nat k :: u32) < of_nat (length mem)" "unat (of_nat k :: u32) = k" if "k < length mem" for k
    using that assms(5) by (simp_all add: of_nat_less_u32 unat_of_nat)
  have lens: "0 < length xs" "0 < length ys" "0 < length zs" using assms(1-3) by simp_all
  have l: "length xs < length mem" "length xs + length ys < length mem" "0 < length mem"
    using assms(4) lens by simp_all
  have r: "(0 :: u32) < of_nat (length mem)" using less(1) [OF l(3)] by simp
  have fits: "length (memcpy_at mem 0 xs) = length mem" using l by simp
  have "length (memcpy_at (memcpy_at mem 0 xs) (length xs) ys) = length mem" using l fits by simp
  then show ?thesis
    using less(1) [OF l(1)] less(1) [OF l(2)] less(2) [OF l(1)] less(2) [OF l(2)] r assms(1-4) lens fits
    by (simp add: ReceiveResults_def Let_def)
qed

lemma receive_overruns_witness:
  "ReceiveResults [0, 0, 0, 0] 4 [Data [1], Data [2], Data [3, 4]] = None"
  using receive_overruns [of "[1]" "[2]" "[3, 4]" "[0, 0, 0, 0]"] by simp

section \<open>The receiver reads byte by byte\<close>

text \<open>What one byte does to a widget, and a string of bytes.\<close>

definition byte_step :: "usb_widget \<Rightarrow> u8 \<Rightarrow> usb_widget \<times> usb_message list" where
  "byte_step w b =
     (case w_state w of
        PRE_SOM \<Rightarrow>
          (w\<lparr>w_header := (w_header w)\<lparr>h_som := b\<rparr>, w_state := if b = SOM then RECV_LABEL else PRE_SOM\<rparr>, [])
      | RECV_LABEL \<Rightarrow> (w\<lparr>w_header := (w_header w)\<lparr>h_label := b\<rparr>, w_state := RECV_SIZE_LO\<rparr>, [])
      | RECV_SIZE_LO \<Rightarrow> (w\<lparr>w_header := (w_header w)\<lparr>h_len := b\<rparr>, w_state := RECV_SIZE_HI\<rparr>, [])
      | RECV_SIZE_HI \<Rightarrow>
          let w1 = w\<lparr>w_header := (w_header w)\<lparr>h_len_hi := b\<rparr>\<rparr>
          in (if packet_length w1 = 0 then w1\<lparr>w_state := RECV_EOM\<rparr>
              else if packet_length w1 > MAX_DATA_SIZE then w1\<lparr>w_state := PRE_SOM\<rparr>
              else w1\<lparr>w_bytes_received := 0, w_state := RECV_BODY\<rparr>, [])
      | RECV_BODY \<Rightarrow>
          (w\<lparr>w_recv_buffer := (w_recv_buffer w)[w_bytes_received w := b], w_bytes_received := w_bytes_received w + 1,
             w_state := if w_bytes_received w + 1 = packet_length w then RECV_EOM else RECV_BODY\<rparr>, [])
      | RECV_EOM \<Rightarrow>
          (w\<lparr>w_state := PRE_SOM\<rparr>,
           if b = EOM then
             [(h_label (w_header w), if packet_length w \<noteq> 0 then Some (take (packet_length w) (w_recv_buffer w)) else None)]
           else []))"

fun feed :: "usb_widget \<Rightarrow> bytes \<Rightarrow> usb_widget \<times> usb_message list" where
  "feed w [] = (w, [])"
| "feed w (b # bs) = (let (w1, ms) = byte_step w b; (w2, more) = feed w1 bs in (w2, ms @ more))"

lemma feed_append: "feed w (xs @ ys) = (let (w1, ms) = feed w xs; (w2, more) = feed w1 ys in (w2, ms @ more))"
  by (induction xs arbitrary: w) (auto simp: Let_def split: prod.splits)

text \<open>The buffer has its size, and the body that is being received fits into it.\<close>

definition widget_ok :: "usb_widget \<Rightarrow> bool" where
  "widget_ok w \<longleftrightarrow>
     length (w_recv_buffer w) = MAX_DATA_SIZE \<and>
     (w_state w = RECV_BODY \<longrightarrow> w_bytes_received w < packet_length w \<and> packet_length w \<le> MAX_DATA_SIZE)"

lemma packet_length_simps [simp]:
  "packet_length (w\<lparr>w_state := s\<rparr>) = packet_length w"
  "packet_length (w\<lparr>w_bytes_received := n\<rparr>) = packet_length w"
  "packet_length (w\<lparr>w_recv_buffer := xs\<rparr>) = packet_length w"
  by (simp_all add: packet_length_def)

lemma byte_step_ok: "widget_ok w \<Longrightarrow> widget_ok (fst (byte_step w b))"
  by (cases "w_state w") (auto simp: byte_step_def widget_ok_def Let_def)

lemma feed_ok: "widget_ok w \<Longrightarrow> widget_ok (fst (feed w bs))"
  by (induction bs arbitrary: w) (auto simp: Let_def split: prod.splits, metis byte_step_ok fst_conv)

lemma feed_body:
  assumes "w_state w = RECV_BODY" "xs \<noteq> []" "w_bytes_received w + length xs \<le> packet_length w"
    and "packet_length w \<le> length (w_recv_buffer w)"
  shows "feed w xs =
    (w\<lparr>w_recv_buffer := memcpy_at (w_recv_buffer w) (w_bytes_received w) xs,
       w_bytes_received := w_bytes_received w + length xs,
       w_state := if w_bytes_received w + length xs = packet_length w then RECV_EOM else RECV_BODY\<rparr>, [])"
  using assms
proof (induction xs arbitrary: w)
  case (Cons b bs)
  let ?w = "fst (byte_step w b)"
  have step: "byte_step w b = (?w, [])" "w_recv_buffer ?w = (w_recv_buffer w)[w_bytes_received w := b]"
    "w_bytes_received ?w = Suc (w_bytes_received w)" "packet_length ?w = packet_length w"
    "w_state ?w = (if Suc (w_bytes_received w) = packet_length w then RECV_EOM else RECV_BODY)"
    using Cons.prems(1) by (simp_all add: byte_step_def)
  have upd: "memcpy_at (w_recv_buffer w) (w_bytes_received w) (b # bs) =
      memcpy_at ((w_recv_buffer w)[w_bytes_received w := b]) (Suc (w_bytes_received w)) bs"
    using Cons.prems by (intro memcpy_at_Cons) simp
  show ?case
  proof (cases "bs = []")
    case True
    then show ?thesis using Cons.prems upd by (simp add: byte_step_def)
  next
    case False
    then have "Suc (w_bytes_received w) \<noteq> packet_length w" using Cons.prems(3) by (cases bs) simp_all
    with False have "feed ?w bs = (?w\<lparr>w_recv_buffer := memcpy_at (w_recv_buffer ?w) (w_bytes_received ?w) bs,
        w_bytes_received := w_bytes_received ?w + length bs,
        w_state := if w_bytes_received ?w + length bs = packet_length ?w then RECV_EOM else RECV_BODY\<rparr>, [])"
      using Cons.prems by (intro Cons.IH) (simp_all add: step(2-5))
    then show ?thesis using step(1) Cons.prems(1) upd by (simp add: byte_step_def)
  qed
qed simp

text \<open>A stage of the receiver does what the bytes it takes do.\<close>

definition runs :: "usb_widget \<Rightarrow> arrivals \<Rightarrow> receiving \<Rightarrow> bool" where
  "runs w t r \<longleftrightarrow> (\<exists>w' used t' ms. r = Some (w', t', ms) \<and> passed t used t' \<and> feed w used = (w', ms))"

lemma runs_stop: "passed t [] t' \<Longrightarrow> runs w t (Some (w, t', []))"
  by (auto simp: runs_def)

lemma runs_more:
  assumes "passed t xs t1" "feed w xs = (w1, [])" "runs w1 t1 r"
  shows "runs w t r"
proof -
  obtain w' used t' ms where r: "r = Some (w', t', ms)" "passed t1 used t'" "feed w1 used = (w', ms)"
    using assms(3) unfolding runs_def by blast
  have "feed w (xs @ used) = (w', ms)" using assms(2) r(3) by (simp add: feed_append)
  then show ?thesis using r(1) passed_trans [OF assms(1) r(2)] unfolding runs_def by blast
qed

lemma runs_byte: "passed t [b] t1 \<Longrightarrow> byte_step w b = (w1, []) \<Longrightarrow> runs w1 t1 r \<Longrightarrow> runs w t r"
  by (rule runs_more [of t "[b]"]) simp_all

lemma runs_last: "passed t [b] t1 \<Longrightarrow> byte_step w b = (w1, ms) \<Longrightarrow> runs w t (Some (w1, t1, ms))"
  unfolding runs_def by (intro exI [of _ w1] exI [of _ "[b]"] exI [of _ t1] exI [of _ ms]) simp

lemma passed_gentle: "passed t xs t' \<Longrightarrow> gentle t'"
  by (simp add: passed_def)

lemma header_same [simp]:
  "w\<lparr>w_header := (w_header w)\<lparr>h_som := h_som (w_header w)\<rparr>\<rparr> = w" "w\<lparr>w_header := (w_header w)\<lparr>h_label := h_label (w_header w)\<rparr>\<rparr> = w"
  "w\<lparr>w_header := (w_header w)\<lparr>h_len := h_len (w_header w)\<rparr>\<rparr> = w" "w\<lparr>w_header := (w_header w)\<lparr>h_len_hi := h_len_hi (w_header w)\<rparr>\<rparr> = w"
  by simp_all

lemma runs_eom:
  assumes "w_state w = RECV_EOM" "gentle t"
  shows "runs w t (receive_eom w t)"
  by (rule Receive_byte [OF assms(2), of 0])
    (use assms(1) in \<open>auto simp: receive_eom_def byte_step_def intro!: runs_stop runs_last\<close>)

lemma runs_body:
  assumes "w_state w = RECV_BODY" "widget_ok w" "gentle t"
  shows "runs w t (receive_body w t)"
proof -
  let ?r = "w_bytes_received w" and ?n = "packet_length w" and ?buf = "w_recv_buffer w"
  have ok: "?r < ?n" "?n \<le> MAX_DATA_SIZE" "length ?buf = MAX_DATA_SIZE" using assms by (simp_all add: widget_ok_def)
  obtain xs t1 where r: "Receive (drop ?r ?buf) (uint_sub ?n ?r) t = Some (memcpy_at (drop ?r ?buf) 0 xs, length xs, t1)"
    "length xs \<le> uint_sub ?n ?r" "passed t xs t1"
    by (rule Receive_passed [OF assms(3), of "uint_sub ?n ?r" "drop ?r ?buf"]) (use ok in \<open>simp_all add: MAX_DATA_SIZE_def\<close>)
  have mem: "take ?r ?buf @ memcpy_at (drop ?r ?buf) 0 xs = memcpy_at ?buf ?r xs" by (simp add: memcpy_at_def add.commute)
  show ?thesis
  proof (cases "xs = []")
    case True
    have "?r \<le> length ?buf" using ok by simp
    then show ?thesis using r mem True by (simp add: receive_body_def Let_def runs_stop)
  next
    case False
    define w2 where "w2 = w\<lparr>w_recv_buffer := memcpy_at ?buf ?r xs, w_bytes_received := ?r + length xs\<rparr>"
    have fed: "feed w xs = (w2\<lparr>w_state := if ?r + length xs = ?n then RECV_EOM else RECV_BODY\<rparr>, [])"
      using feed_body [OF assms(1) False] ok r(2) by (simp add: w2_def)
    show ?thesis
    proof (cases "?r + length xs = ?n")
      case True
      have "runs (w2\<lparr>w_state := RECV_EOM\<rparr>) t1 (receive_eom (w2\<lparr>w_state := RECV_EOM\<rparr>) t1)"
        by (rule runs_eom) (simp_all add: passed_gentle [OF r(3)])
      moreover have "receive_body w t = receive_eom (w2\<lparr>w_state := RECV_EOM\<rparr>) t1"
        using r(1) True False mem by (simp add: receive_body_def Let_def w2_def)
      ultimately show ?thesis using runs_more [OF r(3)] fed True by simp
    next
      case more: False
      have "w2\<lparr>w_state := RECV_BODY\<rparr> = w2" using assms(1) by (simp add: w2_def)
      moreover have "receive_body w t = Some (w2, t1, [])"
        using r(1) more False mem by (simp add: receive_body_def Let_def w2_def)
      ultimately show ?thesis unfolding runs_def using r(3) fed more by auto
    qed
  qed
qed

lemma runs_size_hi:
  assumes "w_state w = RECV_SIZE_HI" "widget_ok w" "gentle t"
  shows "runs w t (receive_size_hi w t)"
proof (rule Receive_byte [OF assms(3), of "h_len_hi (w_header w)"])
  fix b t' assume r: "Receive [h_len_hi (w_header w)] 1 t = Some ([b], 1, t')" "passed t [b] t'"
  let ?w1 = "w\<lparr>w_header := (w_header w)\<lparr>h_len_hi := b\<rparr>\<rparr>"
  show ?thesis
  proof (cases "packet_length ?w1 = 0 \<or> packet_length ?w1 > MAX_DATA_SIZE")
    case True
    then show ?thesis using assms(1) r by (auto simp: receive_size_hi_def Let_def byte_step_def intro!: runs_last)
  next
    case False
    let ?w2 = "?w1\<lparr>w_bytes_received := 0, w_state := RECV_BODY\<rparr>"
    have "runs ?w2 t' (receive_body ?w2 t')"
      using assms(2) False by (intro runs_body) (simp_all add: widget_ok_def passed_gentle [OF r(2)])
    moreover have "byte_step w b = (?w2, [])" using assms(1) False by (simp add: byte_step_def)
    ultimately show ?thesis using False r(1) runs_byte [OF r(2)] by (simp add: receive_size_hi_def Let_def)
  qed
qed (simp add: receive_size_hi_def runs_stop)

lemma runs_size_lo:
  assumes "w_state w = RECV_SIZE_LO" "widget_ok w" "gentle t"
  shows "runs w t (receive_size_lo w t)"
proof (rule Receive_byte [OF assms(3), of "h_len (w_header w)"])
  fix b t' assume r: "Receive [h_len (w_header w)] 1 t = Some ([b], 1, t')" "passed t [b] t'"
  let ?w1 = "w\<lparr>w_header := (w_header w)\<lparr>h_len := b\<rparr>, w_state := RECV_SIZE_HI\<rparr>"
  have "runs ?w1 t' (receive_size_hi ?w1 t')"
    using assms(2) by (intro runs_size_hi) (simp_all add: widget_ok_def passed_gentle [OF r(2)])
  moreover have "byte_step w b = (?w1, [])" using assms(1) by (simp add: byte_step_def)
  ultimately show ?thesis using r(1) runs_byte [OF r(2)] by (simp add: receive_size_lo_def Let_def)
qed (simp add: receive_size_lo_def runs_stop)

lemma runs_label:
  assumes "w_state w = RECV_LABEL" "widget_ok w" "gentle t"
  shows "runs w t (receive_label w t)"
proof (rule Receive_byte [OF assms(3), of "h_label (w_header w)"])
  fix b t' assume r: "Receive [h_label (w_header w)] 1 t = Some ([b], 1, t')" "passed t [b] t'"
  let ?w1 = "w\<lparr>w_header := (w_header w)\<lparr>h_label := b\<rparr>, w_state := RECV_SIZE_LO\<rparr>"
  have "runs ?w1 t' (receive_size_lo ?w1 t')"
    using assms(2) by (intro runs_size_lo) (simp_all add: widget_ok_def passed_gentle [OF r(2)])
  moreover have "byte_step w b = (?w1, [])" using assms(1) by (simp add: byte_step_def)
  ultimately show ?thesis using r(1) runs_byte [OF r(2)] by (simp add: receive_label_def Let_def)
qed (simp add: receive_label_def runs_stop)

lemma runs_som: "w_state w = PRE_SOM \<Longrightarrow> widget_ok w \<Longrightarrow> gentle t \<Longrightarrow> runs w t (receive_som w t)"
proof (induction "weight t" arbitrary: w t rule: less_induct)
  case less
  show ?case
  proof (rule Receive_byte [OF less.prems(3), of "h_som (w_header w)"])
    fix t' assume "Receive [h_som (w_header w)] 1 t = Some ([h_som (w_header w)], 0, t')" "passed t [] t'"
    then show ?thesis by (subst receive_som.simps) (simp add: runs_stop)
  next
    fix b t' assume r: "Receive [h_som (w_header w)] 1 t = Some ([b], 1, t')" "passed t [b] t'"
    let ?w1 = "w\<lparr>w_header := (w_header w)\<lparr>h_som := b\<rparr>\<rparr>"
    note t' = passed_gentle [OF r(2)]
    show ?thesis
    proof (cases "b = SOM")
      case True
      have "runs (?w1\<lparr>w_state := RECV_LABEL\<rparr>) t' (receive_label (?w1\<lparr>w_state := RECV_LABEL\<rparr>) t')"
        using less.prems t' by (intro runs_label) (simp_all add: widget_ok_def)
      moreover have "byte_step w b = (?w1\<lparr>w_state := RECV_LABEL\<rparr>, [])" using less.prems(1) True by (simp add: byte_step_def)
      ultimately show ?thesis using True r(1) runs_byte [OF r(2)] by (subst receive_som.simps) (simp add: Let_def)
    next
      case False
      have "weight t' < weight t" using r(2) by (auto simp: passed_def)
      then have "runs ?w1 t' (receive_som ?w1 t')" using less.prems t' by (intro less.hyps) (simp_all add: widget_ok_def)
      moreover have "byte_step w b = (?w1, [])" using less.prems(1) False by (simp add: byte_step_def)
      ultimately show ?thesis using False r(1) runs_byte [OF r(2)] by (subst receive_som.simps) (simp add: Let_def)
    qed
  qed
qed

lemma runs_ReceiveMessage: "widget_ok w \<Longrightarrow> gentle t \<Longrightarrow> runs w t (ReceiveMessage w t)"
  by (cases "w_state w") (simp_all add: ReceiveMessage_def runs_som runs_label runs_size_lo runs_size_hi runs_body runs_eom)

text \<open>The loops return, and have done what all the bytes do.\<close>

lemma DescriptorReady_feed:
  assumes "widget_ok w" "gentle t"
  obtains w' used t' ms where "DescriptorReady w t = Some (w', t', ms)" "bytes_of t = used @ bytes_of t'" "gentle t'"
    "weight t' \<le> weight t" "feed w used = (w', ms)" "DataRemaining t' = 0"
  using assms
proof (induction "weight t" arbitrary: w t thesis rule: less_induct)
  case less
  show ?case
  proof (cases "DataRemaining t > 0")
    case False
    then show ?thesis using less.prems(1) [of w t "[]" "[]"] less.prems(3) by (simp add: DescriptorReady.simps)
  next
    case True
    obtain w1 used t1 ms where r: "ReceiveMessage w t = Some (w1, t1, ms)" "passed t used t1" "feed w used = (w1, ms)"
      using runs_ReceiveMessage [OF less.prems(2,3)] unfolding runs_def by blast
    have "t \<noteq> []" using True by auto
    then have w: "weight t1 < weight t" "bytes_of t = used @ bytes_of t1" "gentle t1" using r(2) by (auto simp: passed_def)
    have "widget_ok w1" using feed_ok [OF less.prems(2), of used] r(3) by simp
    then obtain w2 used2 t2 more where m: "DescriptorReady w1 t1 = Some (w2, t2, more)" "bytes_of t1 = used2 @ bytes_of t2" "gentle t2"
      "weight t2 \<le> weight t1" "feed w1 used2 = (w2, more)" "DataRemaining t2 = 0"
      using less.hyps [OF w(1) _ _ w(3)] by metis
    have "DescriptorReady w t = Some (w2, t2, ms @ more)" using True r(1) m(1) by (subst DescriptorReady.simps) simp
    moreover have "feed w (used @ used2) = (w2, ms @ more)" using r(3) m(5) by (simp add: feed_append)
    ultimately show ?thesis using less.prems(1) [of w2 t2 "ms @ more" "used @ used2"] w m by simp
  qed
qed

lemma receive_all_feed: "widget_ok w \<Longrightarrow> gentle t \<Longrightarrow> receive_all w t = Some (feed w (bytes_of t))"
proof (induction "weight t" arbitrary: w t rule: less_induct)
  case less
  obtain w1 used t1 ms where r: "DescriptorReady w t = Some (w1, t1, ms)" "bytes_of t = used @ bytes_of t1" "gentle t1"
    "weight t1 \<le> weight t" "feed w used = (w1, ms)" "DataRemaining t1 = 0"
    using DescriptorReady_feed [OF less.prems] by metis
  show ?case
  proof (cases t1)
    case Nil
    then show ?thesis using r by (subst receive_all.simps) simp
  next
    case (Cons x t2)
    then have x: "x = None" using r(3,6) by (cases x) auto
    have "widget_ok w1" using feed_ok [OF less.prems(1), of used] r(5) by simp
    then have "receive_all w1 t2 = Some (feed w1 (bytes_of t2))" using less.hyps [of t2 w1] r(3,4) Cons x by simp
    then show ?thesis using r Cons x by (subst receive_all.simps) (simp add: feed_append split: prod.split)
  qed
qed

section \<open>Messages\<close>

lemma feed_noise: "w_state w = PRE_SOM \<Longrightarrow> SOM \<notin> set noise \<Longrightarrow>
    \<exists>w'. feed w noise = (w', []) \<and> w_state w' = PRE_SOM"
proof (induction noise arbitrary: w)
  case (Cons b bs)
  then have "\<exists>w'. feed (fst (byte_step w b)) bs = (w', []) \<and> w_state w' = PRE_SOM"
    by (intro Cons.IH) (auto simp: byte_step_def)
  then show ?case using Cons.prems by (auto simp: byte_step_def Let_def)
qed simp

lemma length_bytes:
  assumes "n < 2 ^ 16"
  shows "unat (of_nat (n div 2 ^ 8 mod 2 ^ 8) :: u8) * 2 ^ 8 + unat (of_nat n AND 0xFF :: u8) = n"
proof -
  have "(0xFF :: u8) = - 1" by simp
  then have "of_nat n AND 0xFF = (of_nat n :: u8)" by (simp only: and.right_neutral)
  then have "unat (of_nat n AND 0xFF :: u8) = n mod 2 ^ 8" by (simp add: unat_of_nat)
  moreover have "unat (of_nat (n div 2 ^ 8 mod 2 ^ 8) :: u8) = n div 2 ^ 8"
    using assms by (simp add: unat_of_nat)
  ultimately show ?thesis by (simp add: div_mult_mod_eq)
qed

lemma SendMessage_frame:
  "concat (snd (SendMessage send label (Some data) (length data))) =
    [SOM, label, of_nat (length data) AND 0xFF, of_nat (length data div 2 ^ 8 mod 2 ^ 8)] @ data @ [EOM]"
  by (simp add: SendMessage_def Let_def)

lemma feed_frame:
  assumes "w_state w = PRE_SOM" "widget_ok w" "length data \<le> MAX_DATA_SIZE"
  shows "\<exists>w'. feed w (concat (snd (SendMessage send label (Some data) (length data)))) =
      (w', [(label, if data = [] then None else Some data)]) \<and> w_state w' = PRE_SOM"
proof -
  let ?n = "length data" and ?lo = "of_nat (length data) AND 0xFF :: u8"
  let ?hi = "of_nat (length data div 2 ^ 8 mod 2 ^ 8) :: u8"
  define w4 where "w4 = w\<lparr>w_header := (w_header w)\<lparr>h_som := SOM, h_label := label, h_len := ?lo, h_len_hi := ?hi\<rparr>\<rparr>"
  have n: "unat ?hi * 2 ^ 8 + unat ?lo = ?n" using length_bytes [of ?n] assms(3) by (simp add: MAX_DATA_SIZE_def)
  then have len4: "packet_length w4 = ?n" by (simp add: w4_def packet_length_def)
  have four: "feed w [SOM, label, ?lo, ?hi] =
      ((if ?n = 0 then w4\<lparr>w_state := RECV_EOM\<rparr> else w4\<lparr>w_bytes_received := 0, w_state := RECV_BODY\<rparr>), [])"
    using assms(1,3) n by (auto simp: byte_step_def w4_def Let_def packet_length_def)
  have "\<exists>w5. feed w ([SOM, label, ?lo, ?hi] @ data) = (w5, []) \<and> w_state w5 = RECV_EOM \<and> w_header w5 = w_header w4 \<and>
      take ?n (w_recv_buffer w5) = data"
  proof (cases "data = []")
    case True
    then show ?thesis using four by simp
  next
    case False
    let ?w = "w4\<lparr>w_bytes_received := 0, w_state := RECV_BODY\<rparr>"
    have "feed ?w data = (?w\<lparr>w_recv_buffer := memcpy_at (w_recv_buffer ?w) 0 data, w_bytes_received := ?n, w_state := RECV_EOM\<rparr>, [])"
      using feed_body [of ?w data] False assms(2,3) len4 by (simp add: widget_ok_def w4_def)
    then show ?thesis unfolding feed_append using four False by simp
  qed
  then obtain w5 where w5: "feed w ([SOM, label, ?lo, ?hi] @ data) = (w5, [])" "w_state w5 = RECV_EOM" "w_header w5 = w_header w4"
    "take ?n (w_recv_buffer w5) = data" by blast
  have "packet_length w5 = ?n" using len4 w5(3) by (simp add: packet_length_def)
  then have "feed w5 [EOM] = (w5\<lparr>w_state := PRE_SOM\<rparr>, [(label, if data = [] then None else Some data)])"
    using w5 by (simp add: byte_step_def w4_def)
  then have "feed w (([SOM, label, ?lo, ?hi] @ data) @ [EOM]) =
      (w5\<lparr>w_state := PRE_SOM\<rparr>, [(label, if data = [] then None else Some data)])"
    unfolding feed_append [of w "[SOM, label, ?lo, ?hi] @ data"] w5(1) by simp
  then show ?thesis unfolding SendMessage_frame append_assoc by simp
qed

lemma feed_frames:
  assumes "w_state w = PRE_SOM" "widget_ok w"
    and "\<forall>(noise, label, data) \<in> set ms. SOM \<notin> set noise \<and> length data \<le> MAX_DATA_SIZE"
  shows "\<exists>w'. feed w (concat (map (\<lambda>(noise, label, data). noise @ concat (snd (SendMessage send label (Some data) (length data)))) ms)) =
    (w', map (\<lambda>(noise, label, data). (label, if data = [] then None else Some data)) ms)"
  using assms
proof (induction ms arbitrary: w)
  case (Cons m ms)
  obtain noise label data where m: "m = (noise, label, data)" by (cases m)
  obtain w1 where w1: "feed w noise = (w1, [])" "w_state w1 = PRE_SOM" using feed_noise Cons.prems m by fastforce
  have ok1: "widget_ok w1" using feed_ok [OF Cons.prems(2), of noise] w1(1) by simp
  let ?frame = "concat (snd (SendMessage send label (Some data) (length data)))"
  obtain w2 where w2: "feed w1 ?frame = (w2, [(label, if data = [] then None else Some data)])" "w_state w2 = PRE_SOM"
    using feed_frame [OF w1(2) ok1, of data send label] Cons.prems(3) m by auto
  have "widget_ok w2" using feed_ok [OF ok1, of ?frame] w2(1) by simp
  then obtain w' where "feed w2 (concat (map (\<lambda>(noise, label, data). noise @ concat (snd (SendMessage send label (Some data) (length data)))) ms)) =
      (w', map (\<lambda>(noise, label, data). (label, if data = [] then None else Some data)) ms)"
    using Cons.IH [OF w2(2)] Cons.prems(3) by auto
  then show ?case using w1 w2 by (simp add: m feed_append)
qed simp

text \<open>C20: Messages arrive. Frames written by \<open>SendMessage\<close> with up to 600 bytes of data, with noise that has no start byte between
  them and split into parts at any places, give exactly the calls of the handler with the labels and the data, in order; a
  message without data arrives as the null pointer. Parts may arrive while a call of \<open>Receive\<close> reads, as long as no three parts
  come without a moment in which no data is left, and reads do not fail and are not interrupted.\<close>

theorem usb_messages_arrive:
  assumes "length buffer = MAX_DATA_SIZE" "gentle arrivals"
    and "\<forall>(noise, label, data) \<in> set ms. SOM \<notin> set noise \<and> length data \<le> MAX_DATA_SIZE"
    and "bytes_of arrivals = concat (map (\<lambda>(noise, label, data). noise @ concat (snd (SendMessage send label (Some data) (length data)))) ms)"
  shows "\<exists>w'. receive_all (BaseUsbProWidget header buffer) arrivals =
    Some (w', map (\<lambda>(noise, label, data). (label, if data = [] then None else Some data)) ms)"
proof -
  let ?w = "BaseUsbProWidget header buffer"
  have w: "w_state ?w = PRE_SOM" "widget_ok ?w" using assms(1) by (simp_all add: BaseUsbProWidget_def widget_ok_def)
  show ?thesis
    using feed_frames [OF w assms(3), of send] assms(4) by (simp add: receive_all_feed [OF w(2) assms(2)])
qed

lemma usb_messages_arrive_witness:
  "\<exists>w'. receive_all (BaseUsbProWidget \<lparr>h_som = 0, h_label = 0, h_len = 0, h_len_hi = 0\<rparr> (replicate 600 0))
      [Some [1, 0x7e, 6, 3], Some [0, 7, 8], None, Some [9, 0xe7, 0x7e, 10, 0, 0, 0xe7]] =
    Some (w', [(6, Some [7, 8, 9]), (10, None)])"
  using usb_messages_arrive [of "replicate 600 0" "[Some [1, 0x7e, 6, 3], Some [0, 7, 8], None, Some [9, 0xe7, 0x7e, 10, 0, 0, 0xe7]]"
      "[([1], 6, [7, 8, 9]), ([], 10, [])]" "\<lambda>xs. 0" "\<lparr>h_som = 0, h_label = 0, h_len = 0, h_len_hi = 0\<rparr>"]
  by (simp add: MAX_DATA_SIZE_def SOM_def EOM_def SendMessage_def Let_def)

text \<open>C25: The receiver is a machine that reads byte by byte. For every state its invariant allows and any data, split in any
  way as long as no three parts come without a moment in which no data is left, it returns, writes only inside its buffer,
  keeps its invariant and does what the machine does on the bytes one after the other. Reads do not fail and are not
  interrupted.\<close>

theorem usb_receiver_reads_bytes:
  assumes "widget_ok w" "gentle arrivals"
  shows "receive_all w arrivals = Some (feed w (bytes_of arrivals)) \<and> widget_ok (fst (feed w (bytes_of arrivals)))"
  using receive_all_feed [OF assms] feed_ok [OF assms(1)] by simp

lemma usb_receiver_reads_bytes_witness:
  "receive_all (BaseUsbProWidget \<lparr>h_som = 0, h_label = 0, h_len = 0, h_len_hi = 0\<rparr> (replicate 600 0)) [Some [0x7e], Some [6]] =
    Some (feed (BaseUsbProWidget \<lparr>h_som = 0, h_label = 0, h_len = 0, h_len_hi = 0\<rparr> (replicate 600 0)) [0x7e, 6])"
  using usb_receiver_reads_bytes [of "BaseUsbProWidget \<lparr>h_som = 0, h_label = 0, h_len = 0, h_len_hi = 0\<rparr> (replicate 600 0)"
      "[Some [0x7e], Some [6]]"]
  by (simp add: widget_ok_def BaseUsbProWidget_def MAX_DATA_SIZE_def)

end
