(* ===== verification/Spec2Isabelle.thy ===== *)
theory Spec2Isabelle
  imports Dmx_Text Run_Length RDM_Wire Discovery_Terminates Queueing_Laws Port_Facts Message_Roundtrip IO_Programs
    SLP_Agent_Run Usb_Widget
begin

text \<open>
  \<^bold>\<open>A verification development for the Open Lighting Architecture (OLA).\<close>

  OLA is a daemon (\<^verbatim>\<open>olad\<close>) that moves lighting control data between devices, network protocols and client
  programs. Plugins give the daemon \<^emph>\<open>ports\<close>; a port is \<^emph>\<open>patched\<close> to a \<^emph>\<open>universe\<close>, which holds one frame of up to 512
  DMX slots. An input port or a source client that has new data makes its universe merge the data of all its
  sources and write the result to the output ports and the sink clients. Beside the frames, RDM (remote device
  management) requests travel to the devices behind the output ports, and the devices are found by RDM discovery.

  \<^bold>\<open>Theories, from the bottom up.\<close>

  \<^item> \<open>OLA_Prelude\<close>: fixed-width integers, block copies, big-endian encodings. \<open>STL_Map\<close>: ordered maps and sets of the C++
    library and the helpers of \<^verbatim>\<open>include/ola/stl/STLUtils.h\<close>, with the contract \<open>stl_map_contract\<close>.
  \<^item> \<open>String_Utils\<close>, \<open>String_Facts\<close>: \<^verbatim>\<open>common/utils/StringUtils.cpp\<close> with the C library functions it calls.
  \<^item> \<open>Dmx_Value\<close>, \<open>Dmx_Buffer\<close>, \<open>Dmx_Storage\<close>, \<open>Dmx_Refine\<close>, \<open>Dmx_Programs\<close>, \<open>Dmx_Text\<close>: \<^verbatim>\<open>common/utils/DmxBuffer.cpp\<close>. \<open>Dmx_Buffer\<close>
    has the code over an explicit memory of objects, reference counts and data blocks, where every use of freed or
    foreign memory is the result \<open>None\<close>; \<open>Dmx_Value\<close> has the plain values; the other theories prove that every client
    program on the code computes the values, never fails and does not leak. All later theories use the values.
  \<^item> \<open>Run_Length\<close>: \<^verbatim>\<open>common/dmx/RunLengthEncoder.cpp\<close>, with the round trip and its limits.
  \<^item> \<open>RDM_UID\<close>: \<^verbatim>\<open>include/ola/rdm/UID.h\<close>, \<^verbatim>\<open>UIDSet.h\<close>, \<^verbatim>\<open>common/rdm/UID.cpp\<close>, with the contract \<open>uid_set_contract\<close>.
  \<^item> \<open>RDM_Command\<close>, \<open>RDM_Wire\<close>: \<^verbatim>\<open>common/rdm/RDMCommand.cpp\<close>, \<^verbatim>\<open>RDMCommandSerializer.cpp\<close>: the wire format of RDM messages, its
    verification and the matching of responses to requests.
  \<^item> \<open>Discovery_Agent\<close>, \<open>Discovery_Correct\<close>, \<open>Discovery_Terminates\<close>: \<^verbatim>\<open>common/rdm/DiscoveryAgent.cpp\<close>: the binary search over
    UID ranges, against a bus of responders that follow the RDM standard.
  \<^item> \<open>Queueing_Controller\<close>, \<open>Queueing_Facts\<close>, \<open>Queueing_Laws\<close>: \<^verbatim>\<open>common/rdm/QueueingRDMController.cpp\<close>: the queue of RDM requests
    and discovery calls in front of a driver, with callbacks that call the controller again; the contract \<open>callback_queue\<close>
    is interpreted by the requests and by the discovery calls. The driver answers after the operation that called it has
    returned. The interface also allows a driver that answers inside its call; when a completion callback made that call,
    the program runs a callback twice (\<open>answer_inside_callback\<close>), and the theorems do not speak of such drivers.
  \<^item> \<open>Message_Descriptor\<close>, \<open>Message_Codec\<close>, \<open>Message_Facts\<close>, \<open>Message_Roundtrip\<close>: descriptors of RDM parameter data
    (\<^verbatim>\<open>common/messaging/Descriptor.cpp\<close>), the visitors \<^verbatim>\<open>common/rdm/VariableFieldSizeCalculator.cpp\<close>,
    \<^verbatim>\<open>DescriptorConsistencyChecker.cpp\<close> and \<^verbatim>\<open>GroupSizeCalculator.cpp\<close>, and the conversion between messages and bytes
    by \<^verbatim>\<open>MessageSerializer.cpp\<close> and \<^verbatim>\<open>MessageDeserializer.cpp\<close>; the contract \<open>field_codec\<close> is interpreted by every type of field.
  \<^item> \<open>IO_Buffer\<close>, \<open>IO_Facts\<close>, \<open>IO_Programs\<close>: \<^verbatim>\<open>include/ola/io/MemoryBlock.h\<close>, \<^verbatim>\<open>MemoryBlockPool.h\<close>, \<^verbatim>\<open>MemoryBuffer.h\<close>,
    \<^verbatim>\<open>common/io/IOQueue.cpp\<close>, \<^verbatim>\<open>IOStack.cpp\<close>: chains of memory blocks from a shared pool, against plain byte strings.
    \<open>IO_Stream\<close>: the streams over them (\<^verbatim>\<open>include/ola/io/BigEndianStream.h\<close>), with the contracts \<open>output_buffer\<close>, \<open>input_buffer\<close>
    and \<open>string_buffer\<close>, which the queues, stacks and fixed buffers interpret.
  \<^item> \<open>SLP_Strings\<close>, \<open>SLP_Facts\<close>: \<^verbatim>\<open>slp/SLPStrings.cpp\<close>, \<^verbatim>\<open>slp/ScopeSet.cpp\<close>. \<open>SLP_Packet\<close>, \<open>SLP_Wire\<close>: the packets of the service
    location protocol, \<^verbatim>\<open>slp/SLPPacketBuilder.cpp\<close>, \<^verbatim>\<open>slp/SLPPacketParser.cpp\<close>, proved once for every buffer that keeps the
    contracts. \<open>SLP_Sender\<close>: \<^verbatim>\<open>slp/SLPUDPSender.cpp\<close> over \<open>UDPSocket::SendTo\<close>.
  \<^item> \<open>SLP_Store\<close>, \<open>SLP_Registry\<close>, \<open>SLP_Lifetimes\<close>: \<^verbatim>\<open>slp/SLPStore.cpp\<close>, \<^verbatim>\<open>slp/URLEntry.cpp\<close>, \<^verbatim>\<open>slp/ServiceEntry.h\<close>: the services a server knows,
    whose lifetimes are counted down when a list is used, against a registry in which an entry ends at a point in time.
  \<^item> \<open>DA_Tracker\<close>: \<^verbatim>\<open>slp/DATracker.cpp\<close>: the directory agents that were advertised, and the choice of agents for scopes.
  \<^item> \<open>SLP_Server\<close>: the handlers of packets of \<^verbatim>\<open>slp/SLPServer.cpp\<close>, which read the first 1500 bytes of a datagram. \<open>SLP_Agent\<close>: its requests to other servers, with
    \<^verbatim>\<open>slp/SLPPendingOperations.h\<close>: looking for services and agents, registering services with agents, retries by timers.
    \<open>SLP_Agent_Inv\<close>, \<open>SLP_Agent_Steps\<close>, \<open>SLP_Agent_Run\<close>: the invariant that ties operations, timers, transactions and requests
    together, its proof for every operation, and the runs of a server.
  \<^item> \<open>Usb_Widget\<close>: \<^verbatim>\<open>plugins/usbpro/BaseUsbProWidget.cpp\<close> over \<open>ConnectedDescriptor::Receive\<close> of \<^verbatim>\<open>common/io/Descriptor.cpp\<close>: the framing of messages
    on a serial line, and the state machine that reads them in parts. \<open>Receive\<close> has the loop over \<^verbatim>\<open>read\<close>, whose pointer
    bug shows at the third part that one call reads; the theorems on messages are for arrivals without three parts in
    a row (\<open>gentle\<close>).
  \<^item> \<open>Clock\<close>: \<^verbatim>\<open>include/ola/Clock.h\<close>.
  \<^item> \<open>Universe\<close>, \<open>Universe_Facts\<close>, \<open>Universe_Inv\<close>, \<open>Universe_Laws\<close>: \<^verbatim>\<open>olad/Universe.cpp\<close> with \<^verbatim>\<open>include/olad/DmxSource.h\<close>,
    \<^verbatim>\<open>olad/Client.cpp\<close> and \<^verbatim>\<open>include/ola/MultiCallback.h\<close>: merging, exported counters, RDM broadcasts, discovery rounds, the map
    from UIDs to ports.
  \<^item> \<open>Preferences\<close>: \<^verbatim>\<open>olad/Preferences.cpp\<close>: validators, the store and its file format, with the contract \<open>pref_contract\<close>.
  \<^item> \<open>Universe_Store\<close>: \<^verbatim>\<open>olad/UniverseStore.cpp\<close>: creation, garbage collection and settings of universes.
  \<^item> \<open>Port_Manager\<close>, \<open>Port_Facts\<close>: \<^verbatim>\<open>olad/Port.cpp\<close>, \<^verbatim>\<open>olad/PortManager.cpp\<close>, \<^verbatim>\<open>olad/PortBroker.cpp\<close>: the daemon's ports, their
    patching, and the way of a frame from an input port to the outputs.

  \<^bold>\<open>How the model corresponds to the code.\<close> A class is a record of its fields, a method a definition with its name on
  that record. Objects that point to each other are numbers (their addresses) and a store; a pointer to a
  universe is its id, the key of its only entry in the store. Output arguments with a boolean result are options; a
  result \<open>None\<close> of an operation on memory or on the store of universes is undefined behaviour (a use of freed memory
  or of a deleted universe), so the theorems that operations return \<open>Some\<close> state its absence. Calls on objects
  outside a component are effects, a list in the order of the calls. Callbacks are delivered by the theorems in
  every order; a callback that re-enters an operation while it runs is modelled for the queueing controllers, where
  clients rely on it, and not elsewhere. The operations of the SLP server are objects with addresses, a use of one that was
  deleted is \<open>None\<close>, and its timers may be due in any order. Bytes, counters and
  wire fields are words; sizes are naturals with the wrap-around of unsigned subtraction written out; times are
  integers. Time, the data of a plugin's port, the plugin's answer to a new universe and the answers of
  responders are arguments.

  \<^bold>\<open>What the theorems show.\<close> The storage of frames refines plain values (\<open>Dmx_Programs\<close>). RDM messages survive the wire and
  only matching responses are accepted (\<open>RDM_Wire\<close>). Parameter data is read back as it was written (but for signed 16 bit
  fields in little-endian order on big-endian hosts), and the sizes
  the calculators find are the sizes the deserializer reads (\<open>Message_Roundtrip\<close>, \<open>Message_Facts\<close>). Programs on queues and stacks
  compute what they would compute on byte strings (\<open>IO_Programs\<close>); packets of the service location protocol are
  read with the fields they were built from and are sent in order (\<open>SLP_Wire\<close>, \<open>SLP_Sender\<close>), and scope sets are sets (\<open>SLP_Facts\<close>). The store of services is a registry with
  expiry times (\<open>SLP_Registry\<close>); the agents chosen for scopes cover them (\<open>DA_Tracker\<close>); a service that was registered is found
  (\<open>SLP_Server\<close>), and a client that looks for one in some scope is answered once, by operations that never touch a deleted object
  (\<open>SLP_Agent_Run\<close>). Messages on a serial line arrive in parts (\<open>Usb_Widget\<close>). Discovery terminates and finds every responder
  (\<open>Discovery_Terminates\<close>, \<open>Discovery_Correct\<close>). A queueing controller whose driver answers
  after its call runs every callback once and in order, and, with
  the use its invariant allows, keeps one request at a time with its driver and empties its queues (\<open>Queueing_Facts\<close>,
  \<open>Queueing_Laws\<close>). The merge of a universe is the documented priority merge
  (\<open>Universe_Facts\<close>); its counters are right in every reachable state, broadcasts and discovery rounds report exactly
  once (\<open>Universe_Laws\<close>, by the contract \<open>answer_counter\<close>, which the three protocols interpret). The store collects
  exactly the unused universes and keeps their settings (\<open>Universe_Store\<close>), and patching keeps ports, universes and broker
  consistent (\<open>Port_Facts\<close>). Several theorems state where the code departs from its purpose: literals of 128 slots in the run
  length encoding, reads outside a buffer, a late callback after an aborted discovery, a device lost from the UID
  map when it moves between ports, requests sent twice and answers given to the wrong callback by a queueing controller, a broadcast without ports, a universe refused by a plugin, a preference with an
  equals sign, a serializer that writes beyond its array, a pool of blocks that grows with the traffic, a packet that is
  sent again with the next one when it could not be sent, a length field without the predicate, services that outlive their
  lifetime, registrations under a type in capital letters that are acknowledged and never found, agents that restart and keep
  their old scopes, agents that are busy and lose requests and registrations, a serial receiver that reads three bytes too many
  into its buffer.

  \<^bold>\<open>Bounds and fuel.\<close> No definition uses fuel. Loops are recursive functions with termination proofs; the loops that write to
  queues and stacks are \<open>partial_function (option)\<close>, since they would not end with blocks of size 0, and are proved to
  return (\<open>IO_Programs\<close>), and so are the loop that covers scopes (\<open>DA_Tracker\<close>) and the loops that look for a start byte and read a serial line
  (\<open>Usb_Widget\<close>); the discovery agent's search is a step function, and a theorem says that some number of steps ends it.

  \<^bold>\<open>Not modelled.\<close> The event loop, sockets (but for the sending of a datagram and the size of the array it is received into), RPC and HTTP (operating system and
  third-party interfaces); the plugins (drivers) but for the framing of USB widgets; the exported variables and the destructor
  of the SLP server; the command line tools and the code generator; the loading of parameter descriptions from files, the conversion of text to messages, the simulated
  responders and the client API; the thread that writes preference files.
\<close>

end
